(* ===== verification/Cachex_Base.thy ===== *)
theory Cachex_Base
  imports Main "HOL-Library.Word" "HOL-Library.AList"
begin

text \<open>
  Prelude of the go-cachex development: the Go data the components share (byte slices that may be
  nil, strings, clock readings, durations, errors), the arithmetic of Go's 64 bit integers, and the
  generic lemmas on lists, maps and association lists the component proofs rest on.
  A Go \<open>[]byte\<close> is an optional list of bytes: \<open>None\<close> is the nil slice, \<open>Some []\<close> the empty one.
  A \<open>time.Time\<close> is a number of nanoseconds; the zero \<open>Time\<close>, which the code uses for \<open>no
  expiry\<close>, is \<open>None\<close>. A \<open>time.Duration\<close> is a number of nanoseconds.
\<close>

named_theorems go_simps \<open>unfolding rules for the Go data shared by all components\<close>

section \<open>Go data\<close>

type_synonym bytes = "8 word list"
type_synonym go_string = bytes
type_synonym slice = "bytes option"
type_synonym time = int
type_synonym duration = int

definition str :: "slice \<Rightarrow> go_string" where
  "str b = (case b of None \<Rightarrow> [] | Some xs \<Rightarrow> xs)"

definition slice_len :: "slice \<Rightarrow> nat" where
  "slice_len b = length (str b)"

lemma str_simps [simp]: "str None = []" "str (Some xs) = xs"
  by (simp_all add: str_def)

lemma slice_len_simps [simp]: "slice_len None = 0" "slice_len (Some xs) = length xs"
  by (simp_all add: slice_len_def)

text \<open>
  The exported sentinel errors of \<open>cache.go\<close>, the two errors of a finished \<open>context.Context\<close>, a
  run-time panic (a nil pointer followed, an index out of range), errors made outside the package (by
  a loader or a backend), and those of \<open>fmt.Errorf\<close> and \<open>errors.New\<close>: a text, and with the verb
  \<open>%w\<close> the error it wraps.
\<close>

datatype go_error =
    ErrNotFound | ErrDataWrite | ErrDataRead | ErrClosed | ErrInvalidKey | ErrInvalidValue
  | ErrInvalidTTL | ErrCapacityExceeded | ErrNotInitialized | ErrUnavailable | ErrTimeout
  | CtxCanceled | CtxDeadlineExceeded | RuntimePanic | ExtError nat
  | FmtError string | Wrapped string go_error

type_synonym 'a go_result = "go_error + 'a"

definition err_of :: "'a go_result \<Rightarrow> go_error option" where
  "err_of r = (case r of Inl e \<Rightarrow> Some e | Inr _ \<Rightarrow> None)"

lemma err_of_simps [simp]: "err_of (Inl e) = Some e" "err_of (Inr x) = None"
  by (simp_all add: err_of_def)

lemma err_of_eq_Some [simp]: "err_of r = Some e \<longleftrightarrow> r = Inl e"
  by (cases r) auto

text \<open>A context at one moment: \<open>None\<close> while it is live, the value of \<open>ctx.Err()\<close> once it is done.\<close>

type_synonym ctx = "go_error option"

text \<open>A loader may have effects outside the cache: it runs on a world of any type.\<close>

type_synonym 'w loader = "'w \<Rightarrow> slice go_result \<times> 'w"

section \<open>Time\<close>

definition second :: duration where
  "second = 1000000000"

text \<open>The test \<open>!e.IsZero() && now.After(e)\<close> that every handler uses.\<close>

definition expired :: "time option \<Rightarrow> time \<Rightarrow> bool" where
  "expired e now = (case e of None \<Rightarrow> False | Some t \<Rightarrow> t < now)"

lemma expired_simps [simp]: "\<not> expired None now" "expired (Some t) now \<longleftrightarrow> t < now"
  by (simp_all add: expired_def)

lemma expired_mono: "expired e now \<Longrightarrow> now \<le> t \<Longrightarrow> expired e t"
  by (cases e) auto

section \<open>Machine integers\<close>

definition max_int64 :: int where
  "max_int64 = 9223372036854775807"

definition min_int64 :: int where
  "min_int64 = - 9223372036854775808"

text \<open>The value of an \<open>int64\<close> (and of an \<open>int\<close> on a 64 bit platform) after an arithmetic operation.\<close>

definition wrap64 :: "int \<Rightarrow> int" where
  "wrap64 x = (x + 9223372036854775808) mod 18446744073709551616 - 9223372036854775808"

definition in_int64 :: "int \<Rightarrow> bool" where
  "in_int64 x \<longleftrightarrow> min_int64 \<le> x \<and> x \<le> max_int64"

lemma wrap64_id: "in_int64 x \<Longrightarrow> wrap64 x = x"
  by (simp add: wrap64_def in_int64_def min_int64_def max_int64_def)

lemma wrap64_range: "in_int64 (wrap64 x)"
proof -
  have "0 \<le> (x + 9223372036854775808) mod 18446744073709551616"
    and "(x + 9223372036854775808) mod 18446744073709551616 < (18446744073709551616::int)"
    by simp_all
  then show ?thesis by (simp add: wrap64_def in_int64_def min_int64_def max_int64_def)
qed

text \<open>Go's integer division truncates towards zero.\<close>

definition go_div :: "int \<Rightarrow> int \<Rightarrow> int" where
  "go_div a b = sgn a * sgn b * (\<bar>a\<bar> div \<bar>b\<bar>)"

lemma go_div_nonneg: "0 \<le> a \<Longrightarrow> 0 < b \<Longrightarrow> go_div a b = a div b"
  by (cases "a = 0") (simp_all add: go_div_def)

text \<open>\<open>Time.Sub\<close> and \<open>time.Until\<close> saturate at the ends of the \<open>Duration\<close> range.\<close>

definition sat64 :: "int \<Rightarrow> int" where
  "sat64 x = (if x < min_int64 then min_int64 else if max_int64 < x then max_int64 else x)"

definition time_until :: "time \<Rightarrow> time \<Rightarrow> duration" where
  "time_until e now = sat64 (e - now)"

lemma sat64_id: "in_int64 x \<Longrightarrow> sat64 x = x"
  by (auto simp: sat64_def in_int64_def)

lemma sat64_pos: "0 < x \<Longrightarrow> 0 < sat64 x"
  by (auto simp: sat64_def min_int64_def max_int64_def)

text \<open>
  The code takes defaults from \<open>mathx.IfLeZero\<close> of the package \<open>go-toolbox\<close>, which is not part of
  the repository. It is a parameter of the constructors; what they rely on is the documented law
  \<open>v\<close> if it is positive and the default otherwise.
\<close>

definition ifLeZero_law :: "(int \<Rightarrow> int \<Rightarrow> int) \<Rightarrow> bool" where
  "ifLeZero_law f \<longleftrightarrow> (\<forall>v d. f v d = (if v \<le> 0 then d else v))"

lemma ifLeZero_lawD: "ifLeZero_law f \<Longrightarrow> f v d = (if v \<le> 0 then d else v)"
  by (simp add: ifLeZero_law_def)

lemma ifLeZero_law_example: "ifLeZero_law (\<lambda>v d. if v \<le> 0 then d else v)"
  by (simp add: ifLeZero_law_def)

section \<open>FNV-1a\<close>

unbundle bit_operations_syntax

text \<open>The 32 bit FNV-1a hash of Go's \<open>hash/fnv\<close>, by which both sharded caches choose a shard.\<close>

definition fnv32a :: "bytes \<Rightarrow> 32 word" where
  "fnv32a data = foldl (\<lambda>h b. (h XOR ucast b) * 16777619) 2166136261 data"

section \<open>Lists, maps and association lists\<close>

lemma map_of_kdelete [simp]: "map_of (AList.delete k l) = (map_of l)(k := None)"
  by (rule AList.delete_conv')

lemma keys_delete [simp]: "fst ` set (AList.delete k l) = fst ` set l - {k}"
  by (force simp: AList.delete_eq)

lemma distinct_keys_delete: "distinct (map fst l) \<Longrightarrow> distinct (map fst (AList.delete k l))"
  by (rule AList.distinct_delete)

lemma length_delete_less:
  "map_of l k \<noteq> None \<Longrightarrow> length (AList.delete k l) < length l"
  by (induction l) (auto simp: AList.length_delete_le le_imp_less_Suc split: if_splits)

lemma length_delete_le: "length (AList.delete k l) \<le> length l"
  by (rule AList.length_delete_le)

lemma map_of_butlast_le:
  "distinct (map fst l) \<Longrightarrow> map_of (butlast l) k = None \<or> map_of (butlast l) k = map_of l k"
  by (induction l) auto

lemma distinct_keys_butlast: "distinct (map fst l) \<Longrightarrow> distinct (map fst (butlast l))"
  by (simp add: map_butlast distinct_butlast)

lemma remove1_filter_distinct:
  "distinct xs \<Longrightarrow> remove1 x xs = filter (\<lambda>y. y \<noteq> x) xs"
  by (simp add: distinct_remove1_removeAll removeAll_filter_not_eq eq_commute)

lemma remove1_last: "xs \<noteq> [] \<Longrightarrow> distinct xs \<Longrightarrow> remove1 (last xs) xs = butlast xs"
  by (cases xs rule: rev_cases) (auto simp: remove1_append)

lemma set_butlast_distinct: "distinct xs \<Longrightarrow> xs \<noteq> [] \<Longrightarrow> set (butlast xs) = set xs - {last xs}"
  by (cases xs rule: rev_cases) auto

section \<open>Maps that index a list of nodes by key\<close>

text \<open>
  Both LRU caches hold a list of nodes and a map from each key to its node. \<open>indexes m key es\<close> says
  that the map holds exactly the nodes of the list, each under its own key.
\<close>

definition indexes :: "('k \<rightharpoonup> 'n) \<Rightarrow> ('n \<Rightarrow> 'k) \<Rightarrow> 'n list \<Rightarrow> bool" where
  "indexes m key es \<longleftrightarrow> (\<forall>k e. m k = Some e \<longleftrightarrow> e \<in> set es \<and> key e = k)"

lemma indexes_empty [simp]: "indexes Map.empty key []"
  by (simp add: indexes_def)

lemma indexesD: "indexes m key es \<Longrightarrow> m k = Some e \<Longrightarrow> e \<in> set es \<and> key e = k"
  by (simp add: indexes_def)

lemma indexes_lookup: "indexes m key es \<Longrightarrow> e \<in> set es \<Longrightarrow> m (key e) = Some e"
  by (simp add: indexes_def)

lemma indexes_None: "indexes m key es \<Longrightarrow> m k = None \<longleftrightarrow> k \<notin> key ` set es"
  by (cases "m k") (auto dest: indexesD simp: indexes_lookup)

lemma indexes_inj: "indexes m key es \<Longrightarrow> inj_on key (set es)"
  by (rule inj_onI) (metis indexes_lookup option.inject)

lemma indexes_cong:
  "indexes m key es \<Longrightarrow> set es' = set es \<Longrightarrow> (\<And>e. e \<in> set es \<Longrightarrow> key' e = key e) \<Longrightarrow> indexes m key' es'"
  by (auto simp: indexes_def)

lemma indexes_delete:
  assumes "indexes m key es" "e \<in> set es" "set es' = set es - {e}"
  shows "indexes (m(key e := None)) key es'"
  using assms indexes_inj [OF assms(1)] by (auto simp: indexes_def inj_on_def)

lemma indexes_insert:
  assumes "indexes m key es" "m k = None" "e \<notin> set es"
  shows "indexes (m(k \<mapsto> e)) (key(e := k)) (e # es)"
proof -
  have "k \<notin> key ` set es" using assms indexes_None by fastforce
  with assms show ?thesis by (auto simp: indexes_def)
qed

lemma indexes_distinct_keys:
  "indexes m key es \<Longrightarrow> distinct es \<Longrightarrow> distinct (map key es)"
  by (simp add: distinct_map indexes_inj)

lemma indexes_map_of:
  assumes "indexes m key es" "distinct es"
  shows "map_of (map (\<lambda>e. (key e, g e)) es) k = map_option g (m k)"
proof (cases "m k")
  case None
  with indexes_None [OF assms(1)] have "k \<notin> key ` set es" by simp
  then have "map_of (map (\<lambda>e. (key e, g e)) es) k = None"
    by (auto simp: map_of_eq_None_iff)
  with None show ?thesis by simp
next
  case (Some e)
  with indexesD [OF assms(1)] have e: "e \<in> set es" "key e = k" by auto
  have "distinct (map fst (map (\<lambda>e. (key e, g e)) es))"
    using indexes_distinct_keys [OF assms] by (simp add: comp_def)
  moreover have "(k, g e) \<in> set (map (\<lambda>e. (key e, g e)) es)" using e by auto
  ultimately have "map_of (map (\<lambda>e. (key e, g e)) es) k = Some (g e)"
    by (rule map_of_is_SomeI)
  with Some show ?thesis by simp
qed

lemma indexes_map_remove1:
  assumes "indexes m key es" "distinct es" "e \<in> set es"
  shows "map (\<lambda>e. (key e, g e)) (remove1 e es) = AList.delete (key e) (map (\<lambda>e. (key e, g e)) es)"
proof -
  have "filter (\<lambda>y. y \<noteq> e) es = filter (\<lambda>y. key y \<noteq> key e) es"
    using indexes_inj [OF assms(1)] assms(3) by (intro filter_cong) (auto simp: inj_on_def)
  then show ?thesis
    using assms(2) by (simp add: remove1_filter_distinct AList.delete_eq filter_map comp_def eq_commute)
qed

end
