(* ===== verification/Validate.thy ===== *)
theory Validate
  imports Cachex_Base
begin

text \<open>
  The argument checks of \<open>validate.go\<close>. Each returns \<open>None\<close> for Go's nil error and \<open>Some e\<close>
  otherwise; a chain of \<open>if err := ...; err != nil\<close> is a chain of \<open>case\<close>s in the code's order.
\<close>

definition ValidateKey :: "slice \<Rightarrow> go_error option" where
  "ValidateKey key = (if key = None then Some ErrInvalidKey else None)"

definition ValidateValue :: "slice \<Rightarrow> go_error option" where
  "ValidateValue value = (if value = None then Some ErrInvalidValue else None)"

definition ValidateTTL :: "duration \<Rightarrow> go_error option" where
  "ValidateTTL ttl = (if ttl < -1 then Some ErrInvalidTTL else None)"

definition ValidateInitialized :: "bool \<Rightarrow> go_error option" where
  "ValidateInitialized initialized = (if \<not> initialized then Some ErrNotInitialized else None)"

definition ValidateClosed :: "bool \<Rightarrow> go_error option" where
  "ValidateClosed closed = (if closed then Some ErrClosed else None)"

definition ValidateCapacity :: "int \<Rightarrow> int \<Rightarrow> go_error option" where
  "ValidateCapacity current limit =
     (if 0 < limit \<and> limit \<le> current then Some ErrCapacityExceeded else None)"

definition ValidateBasicOp :: "slice \<Rightarrow> bool \<Rightarrow> bool \<Rightarrow> go_error option" where
  "ValidateBasicOp key initialized closed =
     (case ValidateKey key of Some err \<Rightarrow> Some err | None \<Rightarrow>
     (case ValidateInitialized initialized of Some err \<Rightarrow> Some err | None \<Rightarrow>
     (case ValidateClosed closed of Some err \<Rightarrow> Some err | None \<Rightarrow> None)))"

definition ValidateWriteOp :: "slice \<Rightarrow> slice \<Rightarrow> bool \<Rightarrow> bool \<Rightarrow> go_error option" where
  "ValidateWriteOp key value initialized closed =
     (case ValidateBasicOp key initialized closed of Some err \<Rightarrow> Some err | None \<Rightarrow>
     (case ValidateValue value of Some err \<Rightarrow> Some err | None \<Rightarrow> None))"

definition ValidateWriteWithTTLOp ::
  "slice \<Rightarrow> slice \<Rightarrow> duration \<Rightarrow> bool \<Rightarrow> bool \<Rightarrow> go_error option" where
  "ValidateWriteWithTTLOp key value ttl initialized closed =
     (case ValidateWriteOp key value initialized closed of Some err \<Rightarrow> Some err | None \<Rightarrow>
     (case ValidateTTL ttl of Some err \<Rightarrow> Some err | None \<Rightarrow> None))"

lemmas validate_defs = ValidateKey_def ValidateValue_def ValidateTTL_def ValidateInitialized_def
  ValidateClosed_def ValidateCapacity_def ValidateBasicOp_def ValidateWriteOp_def
  ValidateWriteWithTTLOp_def

text \<open>The checks in closed form: which error wins when several arguments are bad.\<close>

lemma ValidateBasicOp_eq [go_simps]:
  "ValidateBasicOp key initialized closed =
     (if key = None then Some ErrInvalidKey
      else if \<not> initialized then Some ErrNotInitialized
      else if closed then Some ErrClosed else None)"
  by (simp add: validate_defs)

lemma ValidateWriteOp_eq [go_simps]:
  "ValidateWriteOp key value initialized closed =
     (if key = None then Some ErrInvalidKey
      else if \<not> initialized then Some ErrNotInitialized
      else if closed then Some ErrClosed
      else if value = None then Some ErrInvalidValue else None)"
  by (simp add: validate_defs)

lemma ValidateWriteWithTTLOp_eq [go_simps]:
  "ValidateWriteWithTTLOp key value ttl initialized closed =
     (if key = None then Some ErrInvalidKey
      else if \<not> initialized then Some ErrNotInitialized
      else if closed then Some ErrClosed
      else if value = None then Some ErrInvalidValue
      else if ttl < -1 then Some ErrInvalidTTL else None)"
  by (simp add: validate_defs)

text \<open>A write passes exactly when the key and value are not nil, the TTL is legal and the cache is open.\<close>

lemma ValidateWriteWithTTLOp_None:
  "ValidateWriteWithTTLOp key value ttl initialized closed = None \<longleftrightarrow>
     key \<noteq> None \<and> value \<noteq> None \<and> -1 \<le> ttl \<and> initialized \<and> \<not> closed"
  by (auto simp: ValidateWriteWithTTLOp_eq)

end
