(* ===== verification/Handler_Interface.thy ===== *)
theory Handler_Interface
  imports Validate
begin

text \<open>
  The \<open>Handler\<close> interface of \<open>cache.go\<close> and the contract its implementations share.

  An implementation is a record of functions on its state \<open>'s\<close>. The clock is an argument: an
  operation that reads \<open>time.Now()\<close> once takes that reading, one that reads it several times takes
  the sequence of its readings, and a context is the sequence of answers its \<open>Done\<close> channel gives
  to the successive checks (\<^const>\<open>None\<close> while it is not done). A loader acts on a world \<open>'w\<close>, so
  that how often it runs can be stated.

  The contract is stated on views: \<open>view t s k\<close> is what a lookup of \<open>k\<close> at time \<open>t\<close> finds in state
  \<open>s\<close>, and each operation is specified by its effect on the view. A write may evict other keys, so
  it may only remove them from the view, never change them. The locale \<open>cache_core\<close> lets a write be
  dropped; \<open>cache_handler\<close> extends it by the law that a write is kept until its deadline.
\<close>

record env =
  clk :: "nat \<Rightarrow> time"
  obs :: "nat \<Rightarrow> ctx"

type_synonym batch_result = "slice list \<times> go_error option list"

record ('s, 'w) handler =
  SetWithCtx :: "time \<Rightarrow> slice \<Rightarrow> slice \<Rightarrow> 's \<Rightarrow> go_error option \<times> 's"
  SetWithTTLAndCtx :: "time \<Rightarrow> slice \<Rightarrow> slice \<Rightarrow> duration \<Rightarrow> 's \<Rightarrow> go_error option \<times> 's"
  GetWithCtx :: "time \<Rightarrow> slice \<Rightarrow> 's \<Rightarrow> slice go_result \<times> 's"
  GetTTLWithCtx :: "time \<Rightarrow> slice \<Rightarrow> 's \<Rightarrow> duration go_result \<times> 's"
  DelWithCtx :: "slice \<Rightarrow> 's \<Rightarrow> go_error option \<times> 's"
  BatchGetWithCtx :: "(nat \<Rightarrow> time) \<Rightarrow> slice list \<Rightarrow> 's \<Rightarrow> batch_result \<times> 's"
  GetOrComputeWithCtx ::
    "env \<Rightarrow> slice \<Rightarrow> duration \<Rightarrow> 'w loader \<Rightarrow> 's \<Rightarrow> 'w \<Rightarrow> slice go_result \<times> 's \<times> 'w"
  CloseH :: "'s \<Rightarrow> go_error option \<times> 's"

definition found :: "slice option \<Rightarrow> slice go_result" where
  "found v = (case v of None \<Rightarrow> Inl ErrNotFound | Some x \<Rightarrow> Inr x)"

lemma found_simps [simp]: "found None = Inl ErrNotFound" "found (Some x) = Inr x"
  by (simp_all add: found_def)

lemma found_eq_Inr [simp]: "found v = Inr x \<longleftrightarrow> v = Some x"
  by (cases v) auto

lemma found_eq_Inl [simp]: "found v = Inl e \<longleftrightarrow> v = None \<and> e = ErrNotFound"
  by (cases v) auto

text \<open>When a value written at \<open>now\<close> with \<open>ttl\<close> is still there at \<open>t\<close>: for ever with \<open>-1\<close>, never with
  \<open>0\<close>, and up to and including the deadline otherwise.\<close>

definition lives :: "time \<Rightarrow> duration \<Rightarrow> time \<Rightarrow> bool" where
  "lives now ttl t \<longleftrightarrow> ttl = -1 \<or> 0 < ttl \<and> t \<le> now + ttl"

text \<open>The clock readings and TTLs for which a deadline is an \<open>int64\<close> number of nanoseconds.\<close>

definition ttl_ok :: "time \<Rightarrow> duration \<Rightarrow> bool" where
  "ttl_ok now ttl \<longleftrightarrow> -1 \<le> ttl \<and> 1 < now \<and> now + ttl \<le> max_int64"

text \<open>The law of a batch: as many answers as keys.\<close>

definition batch_lengths :: "('s, 'w) handler \<Rightarrow> bool" where
  "batch_lengths H \<longleftrightarrow> (\<forall>rd keys s. length (fst (fst (BatchGetWithCtx H rd keys s))) = length keys \<and>
     length (snd (fst (BatchGetWithCtx H rd keys s))) = length keys)"

locale cache_core =
  fixes H :: "('s, 'w) handler"
    and inv :: "'s \<Rightarrow> bool"
    and closed :: "'s \<Rightarrow> bool"
    and view :: "time \<Rightarrow> 's \<Rightarrow> go_string \<Rightarrow> slice option"
    and stored :: "bytes \<Rightarrow> slice"
  assumes get_nil: "inv s \<Longrightarrow> GetWithCtx H now None s = (Inl ErrInvalidKey, s)"
    and get_closed: "inv s \<Longrightarrow> closed s \<Longrightarrow> GetWithCtx H now (Some k) s = (Inl ErrClosed, s)"
    and get_open: "inv s \<Longrightarrow> \<not> closed s \<Longrightarrow> fst (GetWithCtx H now (Some k) s) = found (view now s k)"
    and get_inv: "inv s \<Longrightarrow> inv (snd (GetWithCtx H now key s))"
    and get_flag: "closed (snd (GetWithCtx H now key s)) = closed s"
    and get_view: "inv s \<Longrightarrow> now \<le> t \<Longrightarrow> view t (snd (GetWithCtx H now key s)) = view t s"
    and set_err: "inv s \<Longrightarrow> key = None \<or> value = None \<or> ttl < -1 \<or> closed s \<Longrightarrow>
      \<exists>e. SetWithTTLAndCtx H now key value ttl s = (Some e, s)"
    and set_ok: "inv s \<Longrightarrow> \<not> closed s \<Longrightarrow> -1 \<le> ttl \<Longrightarrow>
      fst (SetWithTTLAndCtx H now (Some k) (Some v) ttl s) = None"
    and set_inv: "inv s \<Longrightarrow> inv (snd (SetWithTTLAndCtx H now key value ttl s))"
    and set_flag: "closed (snd (SetWithTTLAndCtx H now key value ttl s)) = closed s"
    and set_weak: "inv s \<Longrightarrow> \<not> closed s \<Longrightarrow> ttl_ok now ttl \<Longrightarrow> now \<le> t \<Longrightarrow>
      view t (snd (SetWithTTLAndCtx H now (Some k) (Some v) ttl s)) k \<in>
        {None, if lives now ttl t then Some (stored v) else None}"
    and set_other: "inv s \<Longrightarrow> k' \<noteq> k \<Longrightarrow> view t (snd (SetWithTTLAndCtx H now (Some k) value ttl s)) k' \<in>
      {None, view t s k'}"
    and set_no_ttl: "inv s \<Longrightarrow> SetWithCtx H now key value s = SetWithTTLAndCtx H now key value (-1) s"
    and del_err: "inv s \<Longrightarrow> key = None \<or> closed s \<Longrightarrow> \<exists>e. DelWithCtx H key s = (Some e, s)"
    and del_ok: "inv s \<Longrightarrow> \<not> closed s \<Longrightarrow> fst (DelWithCtx H (Some k) s) = None"
    and del_inv: "inv s \<Longrightarrow> inv (snd (DelWithCtx H key s))"
    and del_flag: "closed (snd (DelWithCtx H key s)) = closed s"
    and del_view: "inv s \<Longrightarrow> \<not> closed s \<Longrightarrow>
      view t (snd (DelWithCtx H (Some k) s)) = (view t s)(k := None)"
    and close_inv: "inv s \<Longrightarrow> inv (snd (CloseH H s))"
    and close_flag: "inv s \<Longrightarrow> closed (snd (CloseH H s))"
begin

lemma get_result:
  assumes "inv s" "\<not> closed s"
  shows "GetWithCtx H now (Some k) s = (found (view now s k), snd (GetWithCtx H now (Some k) s))"
  using get_open [OF assms] by (metis prod.collapse)

text \<open>A key deleted is not found, and no other key is touched.\<close>

lemma get_after_del:
  assumes "inv s" "\<not> closed s"
  shows "fst (GetWithCtx H t (Some k) (snd (DelWithCtx H (Some k') s))) =
    found (if k = k' then None else view t s k)"
  using assms by (simp add: get_open del_inv del_flag del_view)

text \<open>A written key reads as the stored value or not at all, and not at all after its deadline.\<close>

lemma get_after_set_weak:
  assumes "inv s" "\<not> closed s" "ttl_ok now ttl" "now \<le> t"
  shows "fst (GetWithCtx H t (Some k) (snd (SetWithTTLAndCtx H now (Some k) (Some v) ttl s))) \<in>
    {Inl ErrNotFound, found (if lives now ttl t then Some (stored v) else None)}"
proof -
  have "view t (snd (SetWithTTLAndCtx H now (Some k) (Some v) ttl s)) k \<in>
      {None, if lives now ttl t then Some (stored v) else None}" using assms by (rule set_weak)
  then show ?thesis using assms by (auto simp: get_open set_inv set_flag)
qed

text \<open>A write of one key leaves another as it was or evicts it.\<close>

lemma get_other_after_set:
  assumes "inv s" "\<not> closed s" "k' \<noteq> k"
  shows "fst (GetWithCtx H t (Some k') (snd (SetWithTTLAndCtx H now (Some k) value ttl s))) \<in>
    {Inl ErrNotFound, found (view t s k')}"
proof -
  have "view t (snd (SetWithTTLAndCtx H now (Some k) value ttl s)) k' \<in> {None, view t s k'}"
    using assms by (intro set_other) auto
  then show ?thesis using assms by (auto simp: get_open set_inv set_flag)
qed

text \<open>Nothing is served by a closed handler.\<close>

lemma get_after_close:
  assumes "inv s"
  shows "fst (GetWithCtx H t (Some k) (snd (CloseH H s))) = Inl ErrClosed"
  using assms by (simp add: get_closed close_inv close_flag)

end

text \<open>The full contract: a write that is accepted is kept.\<close>

locale cache_handler = cache_core +
  assumes set_view: "inv s \<Longrightarrow> \<not> closed s \<Longrightarrow> ttl_ok now ttl \<Longrightarrow> now \<le> t \<Longrightarrow>
      view t (snd (SetWithTTLAndCtx H now (Some k) (Some v) ttl s)) k =
        (if lives now ttl t then Some (stored v) else None)"
begin

text \<open>Read your writes: after a successful write the key reads as the stored value until its deadline.\<close>

lemma get_after_set:
  assumes "inv s" "\<not> closed s" "ttl_ok now ttl" "now \<le> t"
  shows "fst (GetWithCtx H t (Some k) (snd (SetWithTTLAndCtx H now (Some k) (Some v) ttl s))) =
    found (if lives now ttl t then Some (stored v) else None)"
  using assms by (simp add: get_open set_inv set_flag set_view)

end

end
