(* ===== verification/Lru.thy ===== *)
theory Lru
  imports Handler_Interface
begin

text \<open>
  \<open>LRUHandler\<close> of \<open>lru.go\<close>: a map from keys to elements of a \<open>container/list\<close> list in order of use.

  The list is the list of its elements from front to back, an element is a number, and
  \<open>lru_elem\<close> is the entry an element points to, so the map and the list share entries as the code's
  pointers do. \<open>list.List\<close> is the standard library's: \<open>Remove\<close> and \<open>MoveToFront\<close> do nothing for an
  element that is not in the list (the list of a closed handler is nil, and holds none);
  \<open>PushFront\<close>, \<open>Len\<close> and \<open>Back\<close> on a nil list are a nil dereference, which is the error
  \<^const>\<open>RuntimePanic\<close> here. The mutex makes each body one step; \<open>GetWithCtx\<close> reads the closed flag
  before it takes the mutex, so its locked part is a definition of its own.
\<close>

section \<open>State and operations\<close>

record lruEntry =
  le_key :: go_string
  le_value :: slice
  le_expiry :: "time option"

record LRUHandler =
  lru_maxEntries :: int
  lru_ll :: "nat list option"
  lru_cache :: "go_string \<rightharpoonup> nat"
  lru_elem :: "nat \<Rightarrow> lruEntry"
  lru_next :: nat
  lru_closed :: bool

definition list_Remove :: "nat \<Rightarrow> nat list option \<Rightarrow> nat list option" where
  "list_Remove e ll = map_option (remove1 e) ll"

definition list_MoveToFront :: "nat \<Rightarrow> nat list option \<Rightarrow> nat list option" where
  "list_MoveToFront e ll = map_option (\<lambda>es. if e \<in> set es then e # remove1 e es else es) ll"

definition DefaultMaxEntries :: int where
  "DefaultMaxEntries = 10000"

definition NewLRUHandler :: "(int \<Rightarrow> int \<Rightarrow> int) \<Rightarrow> int \<Rightarrow> LRUHandler" where
  "NewLRUHandler ifLeZero maxEntries =
     \<lparr>lru_maxEntries = ifLeZero maxEntries DefaultMaxEntries, lru_ll = Some [],
      lru_cache = Map.empty, lru_elem = (\<lambda>_. \<lparr>le_key = [], le_value = None, le_expiry = None\<rparr>),
      lru_next = 0, lru_closed = False\<rparr>"

definition MaxValueSize :: nat where
  "MaxValueSize = 104857600"

definition copyBytes :: "slice \<Rightarrow> slice" where
  "copyBytes b =
     (case b of None \<Rightarrow> None
      | Some xs \<Rightarrow> if MaxValueSize < length xs then None else Some xs)"

definition lru_purgeExpired :: "time \<Rightarrow> nat option \<Rightarrow> LRUHandler \<Rightarrow> bool \<times> LRUHandler" where
  "lru_purgeExpired now e h =
     (case e of None \<Rightarrow> (False, h)
      | Some el \<Rightarrow>
          let ent = lru_elem h el in
          if expired (le_expiry ent) now
          then (True, h\<lparr>lru_ll := list_Remove el (lru_ll h),
                       lru_cache := (lru_cache h)(le_key ent := None)\<rparr>)
          else (False, h))"

definition lru_get_locked :: "time \<Rightarrow> go_string \<Rightarrow> LRUHandler \<Rightarrow> slice go_result \<times> LRUHandler" where
  "lru_get_locked now sk h =
     (case lru_cache h sk of None \<Rightarrow> (Inl ErrNotFound, h)
      | Some ele \<Rightarrow>
          (case lru_purgeExpired now (Some ele) h of
             (True, h') \<Rightarrow> (Inl ErrNotFound, h')
           | (False, h') \<Rightarrow>
               let ent = lru_elem h' ele in
               (Inr (copyBytes (le_value ent)), h'\<lparr>lru_ll := list_MoveToFront ele (lru_ll h')\<rparr>)))"

definition lru_GetWithCtx :: "time \<Rightarrow> slice \<Rightarrow> LRUHandler \<Rightarrow> slice go_result \<times> LRUHandler" where
  "lru_GetWithCtx now key h =
     (case ValidateBasicOp key True (lru_closed h) of
        Some err \<Rightarrow> (Inl err, h)
      | None \<Rightarrow> lru_get_locked now (str key) h)"

definition lru_GetTTLWithCtx :: "time \<Rightarrow> slice \<Rightarrow> LRUHandler \<Rightarrow> duration go_result \<times> LRUHandler" where
  "lru_GetTTLWithCtx now key h =
     (if key = None then (Inl ErrInvalidKey, h)
      else if lru_closed h then (Inl ErrClosed, h)
      else (case lru_cache h (str key) of None \<Rightarrow> (Inl ErrNotFound, h)
            | Some ele \<Rightarrow>
                (case lru_purgeExpired now (Some ele) h of
                   (True, h') \<Rightarrow> (Inl ErrNotFound, h')
                 | (False, h') \<Rightarrow>
                     (case le_expiry (lru_elem h' ele) of
                        None \<Rightarrow> (Inr 0, h')
                      | Some e \<Rightarrow> (Inr (time_until e now), h')))))"

text \<open>The deadline a write gives an entry: none for \<open>-1\<close>, a second ago for \<open>0\<close>.\<close>

definition lru_expiry_for :: "time \<Rightarrow> duration \<Rightarrow> time option" where
  "lru_expiry_for now ttl =
     (if 0 < ttl then Some (now + ttl) else if ttl = 0 then Some (now - second) else None)"

definition lru_evict_back :: "LRUHandler \<Rightarrow> LRUHandler" where
  "lru_evict_back h =
     (case lru_ll h of None \<Rightarrow> h
      | Some es \<Rightarrow>
          if 0 < lru_maxEntries h \<and> lru_maxEntries h < int (length es)
          then (if es = [] then h
                else let back = last es in
                     h\<lparr>lru_cache := (lru_cache h)(le_key (lru_elem h back) := None),
                       lru_ll := list_Remove back (lru_ll h)\<rparr>)
          else h)"

definition lru_SetWithTTLAndCtx ::
  "time \<Rightarrow> slice \<Rightarrow> slice \<Rightarrow> duration \<Rightarrow> LRUHandler \<Rightarrow> go_error option \<times> LRUHandler" where
  "lru_SetWithTTLAndCtx now key value ttl h =
     (if key = None then (Some ErrInvalidKey, h)
      else if value = None then (Some ErrInvalidValue, h)
      else if ttl < -1 then (Some ErrInvalidTTL, h)
      else if lru_closed h then (Some ErrClosed, h)
      else let sk = str key in
        (case lru_cache h sk of
           Some ele \<Rightarrow>
             let ent = lru_elem h ele;
                 ent' = ent\<lparr>le_value := copyBytes value, le_expiry := lru_expiry_for now ttl\<rparr>
             in (None, h\<lparr>lru_elem := (lru_elem h)(ele := ent'),
                         lru_ll := list_MoveToFront ele (lru_ll h)\<rparr>)
         | None \<Rightarrow>
             let ent = \<lparr>le_key = sk, le_value = copyBytes value, le_expiry = lru_expiry_for now ttl\<rparr>
             in (case lru_ll h of
                   None \<Rightarrow> (Some RuntimePanic, h)
                 | Some es \<Rightarrow>
                     let ele = lru_next h in
                     (None, lru_evict_back
                        (h\<lparr>lru_next := Suc ele, lru_elem := (lru_elem h)(ele := ent),
                           lru_ll := Some (ele # es), lru_cache := (lru_cache h)(sk \<mapsto> ele)\<rparr>)))))"

definition lru_SetWithCtx :: "time \<Rightarrow> slice \<Rightarrow> slice \<Rightarrow> LRUHandler \<Rightarrow> go_error option \<times> LRUHandler" where
  "lru_SetWithCtx now key value h = lru_SetWithTTLAndCtx now key value (-1) h"

definition lru_DelWithCtx :: "slice \<Rightarrow> LRUHandler \<Rightarrow> go_error option \<times> LRUHandler" where
  "lru_DelWithCtx key h =
     (if key = None then (Some ErrInvalidKey, h)
      else if lru_closed h then (Some ErrClosed, h)
      else (case lru_cache h (str key) of
              None \<Rightarrow> (None, h)
            | Some ele \<Rightarrow> (None, h\<lparr>lru_ll := list_Remove ele (lru_ll h),
                                  lru_cache := (lru_cache h)(str key := None)\<rparr>)))"

text \<open>One turn of the loop of \<open>BatchGetWithCtx\<close>: the two slots of the key and the new state.\<close>

definition lru_batch_step ::
  "time \<Rightarrow> slice \<Rightarrow> LRUHandler \<Rightarrow> (slice \<times> go_error option) \<times> LRUHandler" where
  "lru_batch_step now key h =
     (if slice_len key = 0 then ((None, Some ErrInvalidKey), h)
      else (case lru_cache h (str key) of
              None \<Rightarrow> ((None, Some ErrNotFound), h)
            | Some ele \<Rightarrow>
                let entry = lru_elem h ele in
                if expired (le_expiry entry) now
                then ((None, Some ErrNotFound),
                      h\<lparr>lru_ll := list_Remove ele (lru_ll h),
                        lru_cache := (lru_cache h)(str key := None)\<rparr>)
                else ((Some (str (le_value entry)), None),
                      h\<lparr>lru_ll := list_MoveToFront ele (lru_ll h)\<rparr>)))"

fun lru_batch_loop ::
  "(nat \<Rightarrow> time) \<Rightarrow> nat \<Rightarrow> slice list \<Rightarrow> LRUHandler \<Rightarrow> batch_result \<times> LRUHandler" where
  "lru_batch_loop clock i [] h = (([], []), h)"
| "lru_batch_loop clock i (key # keys) h =
     (case lru_batch_step (clock i) key h of
        ((r, e), h') \<Rightarrow>
          (case lru_batch_loop clock (Suc i) keys h' of
             ((rs, es), h'') \<Rightarrow> ((r # rs, e # es), h'')))"

definition lru_BatchGetWithCtx ::
  "(nat \<Rightarrow> time) \<Rightarrow> slice list \<Rightarrow> LRUHandler \<Rightarrow> batch_result \<times> LRUHandler" where
  "lru_BatchGetWithCtx clock keys h =
     (if keys = [] then (([], []), h)
      else if lru_closed h
      then ((replicate (length keys) None, replicate (length keys) (Some ErrClosed)), h)
      else lru_batch_loop clock 0 keys h)"

text \<open>The lookup reads the clock first (reading 0), the write back last (reading 1).\<close>

definition lru_GetOrComputeWithCtx ::
  "env \<Rightarrow> slice \<Rightarrow> duration \<Rightarrow> 'w loader \<Rightarrow> LRUHandler \<Rightarrow> 'w \<Rightarrow>
   slice go_result \<times> LRUHandler \<times> 'w" where
  "lru_GetOrComputeWithCtx en key ttl loader h w =
     (case lru_GetWithCtx (clk en 0) key h of
        (Inr val, h1) \<Rightarrow> (Inr val, h1, w)
      | (Inl _, h1) \<Rightarrow>
          (case obs en 0 of
             Some err \<Rightarrow> (Inl err, h1, w)
           | None \<Rightarrow>
               (case loader w of
                  (Inl err, w') \<Rightarrow> (Inl err, h1, w')
                | (Inr val, w') \<Rightarrow>
                    if 0 < ttl
                    then (Inr val, snd (lru_SetWithTTLAndCtx (clk en 1) key val ttl h1), w')
                    else (Inr val, snd (lru_SetWithCtx (clk en 1) key val h1), w'))))"

record lru_stats =
  ls_entries :: int
  ls_capacity :: int
  ls_expired_items :: "nat option"
  ls_closed :: bool

text \<open>\<open>keys\<close> is the order in which \<open>range\<close> walks the map; the closed answer has no expired count.\<close>

definition lru_Stats :: "time \<Rightarrow> go_string list \<Rightarrow> LRUHandler \<Rightarrow> lru_stats go_result" where
  "lru_Stats now keys h =
     (if lru_closed h
      then Inr \<lparr>ls_entries = 0, ls_capacity = lru_maxEntries h, ls_expired_items = None,
               ls_closed = True\<rparr>
      else let expiredCount = length (filter (\<lambda>k. case lru_cache h k of None \<Rightarrow> False
                 | Some ele \<Rightarrow> expired (le_expiry (lru_elem h ele)) now) keys)
           in (case lru_ll h of
                 None \<Rightarrow> Inl RuntimePanic
               | Some es \<Rightarrow> Inr \<lparr>ls_entries = int (length es), ls_capacity = lru_maxEntries h,
                                ls_expired_items = Some expiredCount, ls_closed = lru_closed h\<rparr>))"

definition lru_Close :: "LRUHandler \<Rightarrow> go_error option \<times> LRUHandler" where
  "lru_Close h =
     (if lru_closed h then (None, h)
      else (None, h\<lparr>lru_closed := True, lru_ll := None, lru_cache := Map.empty\<rparr>))"

text \<open>The methods without a context.\<close>

definition lru_Get :: "time \<Rightarrow> slice \<Rightarrow> LRUHandler \<Rightarrow> slice go_result \<times> LRUHandler" where
  "lru_Get now key h = lru_GetWithCtx now key h"

definition lru_GetTTL :: "time \<Rightarrow> slice \<Rightarrow> LRUHandler \<Rightarrow> duration go_result \<times> LRUHandler" where
  "lru_GetTTL now key h = lru_GetTTLWithCtx now key h"

definition lru_SetWithTTL ::
  "time \<Rightarrow> slice \<Rightarrow> slice \<Rightarrow> duration \<Rightarrow> LRUHandler \<Rightarrow> go_error option \<times> LRUHandler" where
  "lru_SetWithTTL now key value ttl h = lru_SetWithTTLAndCtx now key value ttl h"

definition lru_Set :: "time \<Rightarrow> slice \<Rightarrow> slice \<Rightarrow> LRUHandler \<Rightarrow> go_error option \<times> LRUHandler" where
  "lru_Set now key value h = lru_SetWithTTL now key value (-1) h"

definition lru_Del :: "slice \<Rightarrow> LRUHandler \<Rightarrow> go_error option \<times> LRUHandler" where
  "lru_Del key h = lru_DelWithCtx key h"

definition lru_BatchGet ::
  "(nat \<Rightarrow> time) \<Rightarrow> slice list \<Rightarrow> LRUHandler \<Rightarrow> batch_result \<times> LRUHandler" where
  "lru_BatchGet clock keys h = lru_BatchGetWithCtx clock keys h"

text \<open>\<open>context.Background()\<close> is never done.\<close>

definition lru_GetOrCompute ::
  "(nat \<Rightarrow> time) \<Rightarrow> slice \<Rightarrow> duration \<Rightarrow> 'w loader \<Rightarrow> LRUHandler \<Rightarrow> 'w \<Rightarrow>
   slice go_result \<times> LRUHandler \<times> 'w" where
  "lru_GetOrCompute clock key ttl loader h w =
     lru_GetOrComputeWithCtx \<lparr>clk = clock, obs = (\<lambda>_. None)\<rparr> key ttl loader h w"

definition lru_handler :: "(LRUHandler, 'w) handler" where
  "lru_handler = \<lparr>SetWithCtx = lru_SetWithCtx, SetWithTTLAndCtx = lru_SetWithTTLAndCtx,
     GetWithCtx = lru_GetWithCtx, GetTTLWithCtx = lru_GetTTLWithCtx, DelWithCtx = lru_DelWithCtx,
     BatchGetWithCtx = lru_BatchGetWithCtx, GetOrComputeWithCtx = lru_GetOrComputeWithCtx,
     CloseH = lru_Close\<rparr>"

end
