(* ===== verification/Lru_Correct.thy ===== *)
theory Lru_Correct
  imports Lru
begin

text \<open>
  Correctness of \<open>LRUHandler\<close>. The abstract cache is the association list of its entries, most
  recently used first; \<open>lru_inv\<close> says that map and list agree, that keys are unique and that the
  capacity holds. Each operation keeps the invariant and refines the abstract one, no operation
  dereferences the nil list of a closed handler, and the handler meets the contract of
  \<^theory_text>\<open>cache_handler\<close>.
\<close>

section \<open>Invariant and abstraction\<close>

lemma copyBytes_idem [simp]: "copyBytes (copyBytes b) = copyBytes b"
  by (simp add: copyBytes_def split: option.splits)

lemma copyBytes_None [simp]: "copyBytes None = None"
  by (simp add: copyBytes_def)

definition lru_inv :: "LRUHandler \<Rightarrow> bool" where
  "lru_inv h \<longleftrightarrow>
     (case lru_ll h of
        None \<Rightarrow> lru_closed h \<and> lru_cache h = Map.empty
      | Some es \<Rightarrow> \<not> lru_closed h \<and> distinct es \<and> (\<forall>e \<in> set es. e < lru_next h) \<and>
          indexes (lru_cache h) (\<lambda>e. le_key (lru_elem h e)) es \<and>
          (\<forall>e \<in> set es. copyBytes (le_value (lru_elem h e)) = le_value (lru_elem h e)) \<and>
          (0 < lru_maxEntries h \<longrightarrow> int (length es) \<le> lru_maxEntries h))"

type_synonym lru_list = "(go_string \<times> slice \<times> time option) list"

definition lru_abs :: "LRUHandler \<Rightarrow> lru_list" where
  "lru_abs h =
     (case lru_ll h of None \<Rightarrow> []
      | Some es \<Rightarrow> map (\<lambda>e. (le_key (lru_elem h e), le_value (lru_elem h e), le_expiry (lru_elem h e))) es)"

text \<open>The specification: what each operation does to the list of entries in order of use.\<close>

definition spec_get :: "time \<Rightarrow> go_string \<Rightarrow> lru_list \<Rightarrow> slice go_result \<times> lru_list" where
  "spec_get now k l =
     (case map_of l k of None \<Rightarrow> (Inl ErrNotFound, l)
      | Some (v, x) \<Rightarrow>
          if expired x now then (Inl ErrNotFound, AList.delete k l)
          else (Inr (copyBytes v), (k, v, x) # AList.delete k l))"

definition spec_put :: "int \<Rightarrow> go_string \<Rightarrow> slice \<Rightarrow> time option \<Rightarrow> lru_list \<Rightarrow> lru_list" where
  "spec_put cap k v x l =
     (case map_of l k of
        Some _ \<Rightarrow> (k, v, x) # AList.delete k l
      | None \<Rightarrow> if 0 < cap \<and> cap < int (Suc (length l)) then butlast ((k, v, x) # l) else (k, v, x) # l)"

lemma lru_inv_open:
  assumes "lru_inv h" "\<not> lru_closed h"
  obtains es where "lru_ll h = Some es" "distinct es" "\<forall>e \<in> set es. e < lru_next h"
    "indexes (lru_cache h) (\<lambda>e. le_key (lru_elem h e)) es"
    "\<forall>e \<in> set es. copyBytes (le_value (lru_elem h e)) = le_value (lru_elem h e)"
    "0 < lru_maxEntries h \<longrightarrow> int (length es) \<le> lru_maxEntries h"
  using assms by (auto simp: lru_inv_def split: option.splits)

lemma lru_inv_closed: "lru_inv h \<Longrightarrow> lru_closed h \<Longrightarrow> lru_ll h = None \<and> lru_cache h = Map.empty"
  by (auto simp: lru_inv_def split: option.splits)

lemma lru_abs_closed: "lru_inv h \<Longrightarrow> lru_closed h \<Longrightarrow> lru_abs h = []"
  by (simp add: lru_abs_def lru_inv_closed)

text \<open>The map finds what the abstract list finds, in open and closed handlers alike.\<close>

lemma map_of_lru_abs:
  assumes "lru_inv h"
  shows "map_of (lru_abs h) k =
    map_option (\<lambda>e. (le_value (lru_elem h e), le_expiry (lru_elem h e))) (lru_cache h k)"
proof (cases "lru_closed h")
  case True
  with assms show ?thesis by (simp add: lru_abs_closed lru_inv_closed)
next
  case False
  with assms obtain es where "lru_ll h = Some es" "distinct es"
    "indexes (lru_cache h) (\<lambda>e. le_key (lru_elem h e)) es" by (elim lru_inv_open)
  then show ?thesis
    using indexes_map_of [where g = "\<lambda>e. (le_value (lru_elem h e), le_expiry (lru_elem h e))"]
    by (simp add: lru_abs_def)
qed

lemma lru_abs_distinct: "lru_inv h \<Longrightarrow> distinct (map fst (lru_abs h))"
  by (cases "lru_ll h") (auto simp: lru_inv_def lru_abs_def comp_def dest: indexes_distinct_keys)

lemma NewLRUHandler_inv: "lru_inv (NewLRUHandler f n)"
  by (simp add: lru_inv_def NewLRUHandler_def)

section \<open>The three updates every operation is made of\<close>

text \<open>Dropping an element from list and map, moving one to the front, and adding one.\<close>

lemma lru_drop:
  assumes inv: "lru_inv h" and e: "lru_cache h k = Some e"
  defines "h' \<equiv> h\<lparr>lru_ll := list_Remove e (lru_ll h), lru_cache := (lru_cache h)(k := None)\<rparr>"
  shows "lru_inv h' \<and> lru_abs h' = AList.delete k (lru_abs h)"
proof -
  have "\<not> lru_closed h" using inv e lru_inv_closed by fastforce
  with inv obtain es where es: "lru_ll h = Some es" "distinct es" "\<forall>e \<in> set es. e < lru_next h"
    and ix: "indexes (lru_cache h) (\<lambda>e. le_key (lru_elem h e)) es"
    and cb: "\<forall>e \<in> set es. copyBytes (le_value (lru_elem h e)) = le_value (lru_elem h e)"
    and cap: "0 < lru_maxEntries h \<longrightarrow> int (length es) \<le> lru_maxEntries h" by (rule lru_inv_open)
  have ek: "e \<in> set es" "le_key (lru_elem h e) = k" using indexesD [OF ix e] by auto
  have "indexes ((lru_cache h)(k := None)) (\<lambda>e. le_key (lru_elem h e)) (remove1 e es)"
    using indexes_delete [OF ix ek(1)] ek es(2) by simp
  moreover have "length (remove1 e es) \<le> length es" by (simp add: length_remove1)
  ultimately have "lru_inv h'"
    using es cap cb \<open>\<not> lru_closed h\<close> unfolding lru_inv_def h'_def list_Remove_def by auto
  moreover have "lru_abs h' = AList.delete k (lru_abs h)"
    using indexes_map_remove1 [OF ix es(2) ek(1),
        where g = "\<lambda>e. (le_value (lru_elem h e), le_expiry (lru_elem h e))"] ek es(1)
    by (simp add: lru_abs_def h'_def list_Remove_def)
  ultimately show ?thesis by simp
qed

lemma lru_touch:
  assumes inv: "lru_inv h" and e: "lru_cache h k = Some e" and key: "le_key ent = k"
    and val: "copyBytes (le_value ent) = le_value ent"
  defines "h' \<equiv> h\<lparr>lru_elem := (lru_elem h)(e := ent), lru_ll := list_MoveToFront e (lru_ll h)\<rparr>"
  shows "lru_inv h' \<and> lru_abs h' = (k, le_value ent, le_expiry ent) # AList.delete k (lru_abs h)"
proof -
  have "\<not> lru_closed h" using inv e lru_inv_closed by fastforce
  with inv obtain es where es: "lru_ll h = Some es" "distinct es" "\<forall>e \<in> set es. e < lru_next h"
    and ix: "indexes (lru_cache h) (\<lambda>e. le_key (lru_elem h e)) es"
    and cb: "\<forall>e \<in> set es. copyBytes (le_value (lru_elem h e)) = le_value (lru_elem h e)"
    and cap: "0 < lru_maxEntries h \<longrightarrow> int (length es) \<le> lru_maxEntries h" by (rule lru_inv_open)
  have ek: "e \<in> set es" "le_key (lru_elem h e) = k" using indexesD [OF ix e] by auto
  have "indexes (lru_cache h) (\<lambda>e'. le_key (((lru_elem h)(e := ent)) e')) (e # remove1 e es)"
    using ek es(2) key by (intro indexes_cong [OF ix]) auto
  moreover have "length (e # remove1 e es) = length es"
    using ek(1) by (auto simp: length_remove1) (metis One_nat_def Suc_pred length_pos_if_in_set)
  ultimately have "lru_inv h'"
    using es cap cb val ek(1) \<open>\<not> lru_closed h\<close> unfolding lru_inv_def h'_def list_MoveToFront_def
    by (simp add: ball_Un)
  moreover have "map (\<lambda>e'. (le_key (((lru_elem h)(e := ent)) e'), le_value (((lru_elem h)(e := ent)) e'),
      le_expiry (((lru_elem h)(e := ent)) e'))) (remove1 e es) =
    map (\<lambda>e'. (le_key (lru_elem h e'), le_value (lru_elem h e'), le_expiry (lru_elem h e'))) (remove1 e es)"
    using es(2) by (intro map_cong) auto
  then have "lru_abs h' = (k, le_value ent, le_expiry ent) # AList.delete k (lru_abs h)"
    using indexes_map_remove1 [OF ix es(2) ek(1),
        where g = "\<lambda>e. (le_value (lru_elem h e), le_expiry (lru_elem h e))"] ek es(1) key
    by (simp add: lru_abs_def h'_def list_MoveToFront_def)
  ultimately show ?thesis by simp
qed

text \<open>The weak invariant holds between adding an entry and evicting: the list may be one too long.\<close>

lemma lru_add:
  assumes inv: "lru_inv h" and op: "\<not> lru_closed h" and k: "lru_cache h k = None"
    and es: "lru_ll h = Some es" and key: "le_key ent = k"
    and val: "copyBytes (le_value ent) = le_value ent"
  defines "h1 \<equiv> h\<lparr>lru_next := Suc (lru_next h), lru_elem := (lru_elem h)(lru_next h := ent),
    lru_ll := Some (lru_next h # es), lru_cache := (lru_cache h)(k \<mapsto> lru_next h)\<rparr>"
  shows "distinct (lru_next h # es)" "\<forall>e \<in> set (lru_next h # es). e < lru_next h1"
    "indexes (lru_cache h1) (\<lambda>e. le_key (lru_elem h1 e)) (lru_next h # es)"
    "lru_abs h1 = (k, le_value ent, le_expiry ent) # lru_abs h" "length (lru_abs h) = length es"
    "0 < lru_maxEntries h \<longrightarrow> int (length es) \<le> lru_maxEntries h"
    "\<forall>e \<in> set (lru_next h # es). copyBytes (le_value (lru_elem h1 e)) = le_value (lru_elem h1 e)"
proof -
  from inv op es have d: "distinct es" and b: "\<forall>e \<in> set es. e < lru_next h"
    and ix: "indexes (lru_cache h) (\<lambda>e. le_key (lru_elem h e)) es"
    and cap: "0 < lru_maxEntries h \<longrightarrow> int (length es) \<le> lru_maxEntries h"
    and cb: "\<forall>e \<in> set es. copyBytes (le_value (lru_elem h e)) = le_value (lru_elem h e)"
    by (auto simp: lru_inv_def)
  have fresh: "lru_next h \<notin> set es" using b by blast
  show "distinct (lru_next h # es)" using d fresh by simp
  show "\<forall>e \<in> set (lru_next h # es). e < lru_next h1" using b by (auto simp: h1_def)
  have "(\<lambda>e. le_key (lru_elem h1 e)) = (\<lambda>e. le_key (lru_elem h e))(lru_next h := k)"
    using key by (auto simp: h1_def)
  then show "indexes (lru_cache h1) (\<lambda>e. le_key (lru_elem h1 e)) (lru_next h # es)"
    using indexes_insert [OF ix k fresh] by (simp add: h1_def)
  show "lru_abs h1 = (k, le_value ent, le_expiry ent) # lru_abs h"
    using es key fresh by (auto simp: lru_abs_def h1_def)
  show "length (lru_abs h) = length es" using es by (simp add: lru_abs_def)
  show "0 < lru_maxEntries h \<longrightarrow> int (length es) \<le> lru_maxEntries h" by (rule cap)
  show "\<forall>e \<in> set (lru_next h # es). copyBytes (le_value (lru_elem h1 e)) = le_value (lru_elem h1 e)"
    using cb val by (auto simp: h1_def)
qed

lemma lru_evict_back_ok:
  assumes ll: "lru_ll h = Some es" and d: "distinct es" and op: "\<not> lru_closed h"
    and b: "\<forall>e \<in> set es. e < lru_next h"
    and ix: "indexes (lru_cache h) (\<lambda>e. le_key (lru_elem h e)) es"
    and cb: "\<forall>e \<in> set es. copyBytes (le_value (lru_elem h e)) = le_value (lru_elem h e)"
    and cap: "0 < lru_maxEntries h \<longrightarrow> int (length es) \<le> lru_maxEntries h + 1"
  shows "lru_inv (lru_evict_back h) \<and> lru_abs (lru_evict_back h) =
    (if 0 < lru_maxEntries h \<and> lru_maxEntries h < int (length es) then butlast (lru_abs h) else lru_abs h)"
proof (cases "0 < lru_maxEntries h \<and> lru_maxEntries h < int (length es)")
  case True
  then have ne: "es \<noteq> []" by auto
  then have rm: "remove1 (last es) es = butlast es" using d by (rule remove1_last)
  have "set (butlast es) = set es - {last es}" using d ne by (rule set_butlast_distinct)
  then have "indexes ((lru_cache h)(le_key (lru_elem h (last es)) := None))
      (\<lambda>e. le_key (lru_elem h e)) (butlast es)"
    using indexes_delete [OF ix] ne by simp
  then show ?thesis
    using True ll d op b cb cap ne rm
    by (auto simp: lru_inv_def lru_abs_def lru_evict_back_def list_Remove_def map_butlast Let_def
        distinct_butlast dest: in_set_butlastD)
next
  case False
  then show ?thesis using assms by (auto simp: lru_inv_def lru_evict_back_def)
qed

section \<open>Each operation refines the abstract one\<close>

lemma lru_noop_upd: "h\<lparr>lru_elem := (lru_elem h)(e := lru_elem h e), lru_ll := l\<rparr> = h\<lparr>lru_ll := l\<rparr>"
  by (cases h) simp

lemma lru_move_front:
  assumes "lru_inv h" "lru_cache h k = Some e"
  shows "lru_inv (h\<lparr>lru_ll := list_MoveToFront e (lru_ll h)\<rparr>)"
    "lru_abs (h\<lparr>lru_ll := list_MoveToFront e (lru_ll h)\<rparr>) =
      (k, le_value (lru_elem h e), le_expiry (lru_elem h e)) # AList.delete k (lru_abs h)"
proof -
  have "le_key (lru_elem h e) = k" "copyBytes (le_value (lru_elem h e)) = le_value (lru_elem h e)"
    using assms by (cases "lru_ll h"; auto simp: lru_inv_def dest: indexesD)+
  from lru_touch [OF assms this] show
    "lru_inv (h\<lparr>lru_ll := list_MoveToFront e (lru_ll h)\<rparr>)"
    "lru_abs (h\<lparr>lru_ll := list_MoveToFront e (lru_ll h)\<rparr>) =
      (k, le_value (lru_elem h e), le_expiry (lru_elem h e)) # AList.delete k (lru_abs h)"
    by (simp_all only: lru_noop_upd)
qed

lemma lru_cached_key: "lru_inv h \<Longrightarrow> lru_cache h k = Some e \<Longrightarrow> le_key (lru_elem h e) = k"
  by (cases "lru_ll h") (auto simp: lru_inv_def dest: indexesD)

lemma lru_get_locked_refines:
  assumes "lru_inv h"
  shows "(fst (lru_get_locked now k h), lru_abs (snd (lru_get_locked now k h))) = spec_get now k (lru_abs h)"
    and "lru_inv (snd (lru_get_locked now k h))"
  using assms lru_drop [OF assms] lru_move_front [OF assms]
  by (auto simp: lru_get_locked_def lru_purgeExpired_def spec_get_def map_of_lru_abs lru_cached_key
      Let_def split: option.splits)

lemma lru_get_locked_abs:
  assumes "lru_inv h"
  shows "fst (lru_get_locked now k h) = fst (spec_get now k (lru_abs h))"
    and "lru_abs (snd (lru_get_locked now k h)) = snd (spec_get now k (lru_abs h))"
  using lru_get_locked_refines(1) [OF assms, of now k] by (auto dest: prod_eqI simp: prod_eq_iff)

lemma lru_get_frame:
  "lru_closed (snd (lru_get_locked now k h)) = lru_closed h"
  "lru_maxEntries (snd (lru_get_locked now k h)) = lru_maxEntries h"
  by (auto simp: lru_get_locked_def lru_purgeExpired_def Let_def split: option.splits)

lemma lru_set_refines:
  assumes "lru_inv h" "\<not> lru_closed h" "-1 \<le> ttl"
  shows "fst (lru_SetWithTTLAndCtx now (Some k) (Some v) ttl h) = None"
    and "lru_inv (snd (lru_SetWithTTLAndCtx now (Some k) (Some v) ttl h))"
    and "lru_abs (snd (lru_SetWithTTLAndCtx now (Some k) (Some v) ttl h)) =
      spec_put (lru_maxEntries h) k (copyBytes (Some v)) (lru_expiry_for now ttl) (lru_abs h)"
proof -
  obtain es where es: "lru_ll h = Some es" using assms(1,2) by (rule lru_inv_open)
  let ?R = "lru_SetWithTTLAndCtx now (Some k) (Some v) ttl h"
  have "fst ?R = None \<and> lru_inv (snd ?R) \<and> lru_abs (snd ?R) =
      spec_put (lru_maxEntries h) k (copyBytes (Some v)) (lru_expiry_for now ttl) (lru_abs h)"
  proof (cases "lru_cache h k")
    case (Some e)
    let ?ent = "(lru_elem h e)\<lparr>le_value := copyBytes (Some v), le_expiry := lru_expiry_for now ttl\<rparr>"
    have "le_key ?ent = k" "copyBytes (le_value ?ent) = le_value ?ent"
      using lru_cached_key [OF assms(1) Some] by simp_all
    from lru_touch [OF assms(1) Some this] show ?thesis
      using assms Some by (simp add: lru_SetWithTTLAndCtx_def spec_put_def map_of_lru_abs Let_def)
  next
    case None
    let ?ent = "\<lparr>le_key = k, le_value = copyBytes (Some v), le_expiry = lru_expiry_for now ttl\<rparr>"
    let ?h1 = "h\<lparr>lru_next := Suc (lru_next h), lru_elem := (lru_elem h)(lru_next h := ?ent),
      lru_ll := Some (lru_next h # es), lru_cache := (lru_cache h)(k \<mapsto> lru_next h)\<rparr>"
    note add = lru_add [OF assms(1,2) None es, of ?ent, simplified lruEntry.select_convs, simplified]
    have "lru_inv (lru_evict_back ?h1) \<and> lru_abs (lru_evict_back ?h1) =
      (if 0 < lru_maxEntries h \<and> lru_maxEntries h < int (length (lru_next h # es))
       then butlast (lru_abs ?h1) else lru_abs ?h1)"
      using lru_evict_back_ok [of ?h1 "lru_next h # es"] add assms(2) by simp
    then show ?thesis
      using assms None es add(4,5)
      by (simp add: lru_SetWithTTLAndCtx_def spec_put_def map_of_lru_abs Let_def)
  qed
  then show "fst ?R = None" "lru_inv (snd ?R)" "lru_abs (snd ?R) =
      spec_put (lru_maxEntries h) k (copyBytes (Some v)) (lru_expiry_for now ttl) (lru_abs h)" by auto
qed

lemma lru_set_frame:
  "lru_closed (snd (lru_SetWithTTLAndCtx now key value ttl h)) = lru_closed h"
  "lru_maxEntries (snd (lru_SetWithTTLAndCtx now key value ttl h)) = lru_maxEntries h"
  by (auto simp: lru_SetWithTTLAndCtx_def lru_evict_back_def Let_def split: option.splits)

lemma lru_set_err:
  assumes "key = None \<or> value = None \<or> ttl < -1 \<or> lru_closed h"
  shows "\<exists>e \<in> {ErrInvalidKey, ErrInvalidValue, ErrInvalidTTL, ErrClosed}.
    lru_SetWithTTLAndCtx now key value ttl h = (Some e, h)"
  using assms by (auto simp: lru_SetWithTTLAndCtx_def)

lemma lru_set_inv: "lru_inv h \<Longrightarrow> lru_inv (snd (lru_SetWithTTLAndCtx now key value ttl h))"
  using lru_set_err [of key "value" ttl h now] lru_set_refines(2) [of h ttl]
  by (cases "key = None \<or> value = None \<or> ttl < -1 \<or> lru_closed h") auto

lemma lru_del_refines:
  assumes "lru_inv h" "\<not> lru_closed h"
  shows "fst (lru_DelWithCtx (Some k) h) = None"
    and "lru_abs (snd (lru_DelWithCtx (Some k) h)) = AList.delete k (lru_abs h)"
  using assms lru_drop [OF assms(1), where k = k] map_of_lru_abs [OF assms(1), of k]
  by (auto simp: lru_DelWithCtx_def map_of_eq_None_iff split: option.splits)

lemma lru_del_inv: "lru_inv h \<Longrightarrow> lru_inv (snd (lru_DelWithCtx key h))"
  using lru_drop [of h "str key"]
  by (auto simp: lru_DelWithCtx_def split: option.splits)

lemma lru_del_frame:
  "lru_closed (snd (lru_DelWithCtx key h)) = lru_closed h"
  "lru_maxEntries (snd (lru_DelWithCtx key h)) = lru_maxEntries h"
  by (auto simp: lru_DelWithCtx_def split: option.splits)

lemma lru_close_inv: "lru_inv h \<Longrightarrow> lru_inv (snd (lru_Close h))"
  by (cases "lru_closed h") (simp_all add: lru_Close_def lru_inv_def)

section \<open>The contract\<close>

definition lru_view :: "time \<Rightarrow> LRUHandler \<Rightarrow> go_string \<Rightarrow> slice option" where
  "lru_view t h k =
     (case map_of (lru_abs h) k of None \<Rightarrow> None
      | Some (v, x) \<Rightarrow> if expired x t then None else Some (copyBytes v))"

lemma spec_get_view:
  assumes "now \<le> t"
  shows "(case map_of (snd (spec_get now k l)) k' of None \<Rightarrow> None
      | Some (v, x) \<Rightarrow> if expired x t then None else Some (copyBytes v)) =
    (case map_of l k' of None \<Rightarrow> None
      | Some (v, x) \<Rightarrow> if expired x t then None else Some (copyBytes v))"
  using assms by (auto simp: spec_get_def expired_mono split: option.splits)

lemma map_of_spec_put_same: "map_of (spec_put cap k v x l) k = Some (v, x)"
  by (auto simp: spec_put_def split: option.splits)

lemma map_of_spec_put_other:
  "distinct (map fst l) \<Longrightarrow> k' \<noteq> k \<Longrightarrow> map_of (spec_put cap k v x l) k' \<in> {None, map_of l k'}"
  using map_of_butlast_le [of l k'] by (auto simp: spec_put_def split: option.splits)

lemma lru_view_get:
  "lru_inv h \<Longrightarrow> now \<le> t \<Longrightarrow> lru_view t (snd (lru_get_locked now k h)) = lru_view t h"
  by (rule ext) (simp only: lru_view_def lru_get_locked_abs spec_get_view)

lemma lru_view_now: "lru_inv h \<Longrightarrow> fst (lru_get_locked now k h) = found (lru_view now h k)"
  by (simp add: lru_get_locked_abs spec_get_def lru_view_def found_def split: option.splits)

lemma lru_expiry_for_lives: "-1 \<le> ttl \<Longrightarrow> now \<le> t \<Longrightarrow> expired (lru_expiry_for now ttl) t \<longleftrightarrow> \<not> lives now ttl t"
  by (auto simp: lru_expiry_for_def lives_def second_def)

lemma lru_view_set_other:
  assumes "lru_inv h" "k' \<noteq> k"
  shows "lru_view t (snd (lru_SetWithTTLAndCtx now (Some k) value ttl h)) k' \<in> {None, lru_view t h k'}"
proof (cases "value = None \<or> ttl < -1 \<or> lru_closed h")
  case True
  then show ?thesis using lru_set_err [of "Some k" "value" ttl h now] by auto
next
  case False
  then obtain v where "value = Some v" "\<not> lru_closed h" "-1 \<le> ttl" by auto
  then show ?thesis
    using map_of_spec_put_other [OF lru_abs_distinct [OF assms(1)] assms(2),
        of "lru_maxEntries h" "copyBytes (Some v)" "lru_expiry_for now ttl"] assms
    by (auto simp: lru_view_def lru_set_refines(3))
qed

lemma lru_view_set:
  assumes "lru_inv h" "\<not> lru_closed h" "-1 \<le> ttl" "now \<le> t"
  shows "lru_view t (snd (lru_SetWithTTLAndCtx now (Some k) (Some v) ttl h)) k =
    (if lives now ttl t then Some (copyBytes (Some v)) else None)"
  using assms by (simp add: lru_view_def lru_set_refines(3) map_of_spec_put_same lru_expiry_for_lives)

lemma lru_view_del:
  "lru_inv h \<Longrightarrow> \<not> lru_closed h \<Longrightarrow> lru_view t (snd (lru_DelWithCtx (Some k) h)) = (lru_view t h)(k := None)"
  by (rule ext) (simp add: lru_view_def lru_del_refines(2))

lemma lru_del_err: "key = None \<or> lru_closed h \<Longrightarrow> \<exists>e. lru_DelWithCtx key h = (Some e, h)"
  by (auto simp: lru_DelWithCtx_def)

lemma lru_close_flag: "lru_closed (snd (lru_Close h))"
  by (simp add: lru_Close_def)

lemma lru_set_err_ex:
  "key = None \<or> value = None \<or> ttl < -1 \<or> lru_closed h \<Longrightarrow>
   \<exists>e. lru_SetWithTTLAndCtx now key value ttl h = (Some e, h)"
  using lru_set_err [of key "value" ttl h now] by blast

text \<open>Entries are stored as \<open>copyBytes\<close> of the value: a value over 100 MB is kept as nil.\<close>

interpretation lru: cache_handler "lru_handler :: (LRUHandler, 'w) handler" lru_inv lru_closed lru_view
  "\<lambda>v. copyBytes (Some v)"
proof (unfold_locales, goal_cases)
  case (7 s key "value" ttl now)
  then show ?case using lru_set_err_ex by (simp add: lru_handler_def)
next
  case (12 s k' k t now "value" ttl)
  then show ?case using lru_view_set_other by (simp add: lru_handler_def)
next
  case (14 s key)
  then show ?case using lru_del_err by (simp add: lru_handler_def)
qed (auto simp: lru_handler_def lru_GetWithCtx_def go_simps lru_view_now lru_get_locked_refines(2)
    lru_get_frame lru_view_get lru_set_refines(1) lru_set_inv lru_set_frame lru_SetWithCtx_def
    lru_del_inv lru_del_frame lru_del_refines lru_close_inv lru_close_flag ttl_ok_def lru_view_set
    lru_view_del split: option.splits)

section \<open>Runs: safety, the closed flag race, eviction\<close>

text \<open>
  A call of the API. \<open>GetLocked\<close> is the locked part of a \<open>GetWithCtx\<close> whose closed check came
  earlier: between the check and the mutex other calls may run, \<open>Close\<close> among them.
\<close>

datatype lru_call =
    CGet time slice | CGetLocked time slice | CGetTTL time slice
  | CSet time slice slice duration | CDel slice | CBatch "nat \<Rightarrow> time" "slice list" | CClose

fun lru_exec :: "lru_call \<Rightarrow> LRUHandler \<Rightarrow> go_error option \<times> LRUHandler" where
  "lru_exec (CGet now key) h = (err_of (fst (lru_GetWithCtx now key h)), snd (lru_GetWithCtx now key h))"
| "lru_exec (CGetLocked now key) h =
     (err_of (fst (lru_get_locked now (str key) h)), snd (lru_get_locked now (str key) h))"
| "lru_exec (CGetTTL now key) h =
     (err_of (fst (lru_GetTTLWithCtx now key h)), snd (lru_GetTTLWithCtx now key h))"
| "lru_exec (CSet now key val ttl) h = lru_SetWithTTLAndCtx now key val ttl h"
| "lru_exec (CDel key) h = lru_DelWithCtx key h"
| "lru_exec (CBatch clock keys) h = (None, snd (lru_BatchGetWithCtx clock keys h))"
| "lru_exec CClose h = lru_Close h"

fun lru_run :: "lru_call list \<Rightarrow> LRUHandler \<Rightarrow> go_error option list \<times> LRUHandler" where
  "lru_run [] h = ([], h)"
| "lru_run (c # cs) h = (fst (lru_exec c h) # fst (lru_run cs (snd (lru_exec c h))),
     snd (lru_run cs (snd (lru_exec c h))))"

lemma lru_getttl_inv: "lru_inv h \<Longrightarrow> lru_inv (snd (lru_GetTTLWithCtx now key h))"
  using lru_drop [of h "str key"]
  by (auto simp: lru_GetTTLWithCtx_def lru_purgeExpired_def Let_def lru_cached_key split: option.splits)

lemma lru_batch_step_get:
  assumes "lru_inv h" "slice_len key \<noteq> 0"
  shows "snd (lru_batch_step now key h) = snd (lru_get_locked now (str key) h)"
    and "fst (lru_batch_step now key h) = (case lru_cache h (str key) of
       None \<Rightarrow> (None, Some ErrNotFound)
     | Some e \<Rightarrow> if expired (le_expiry (lru_elem h e)) now then (None, Some ErrNotFound)
                 else (Some (str (le_value (lru_elem h e))), None))"
  using assms
  by (auto simp: lru_batch_step_def lru_get_locked_def lru_purgeExpired_def Let_def lru_cached_key
      split: option.splits)

lemma lru_batch_step_inv: "lru_inv h \<Longrightarrow> lru_inv (snd (lru_batch_step now key h))"
  using lru_batch_step_get(1) [of h key now] lru_get_locked_refines(2) [of h now "str key"]
  by (cases "slice_len key = 0") (auto simp: lru_batch_step_def)

lemma lru_batch_loop_inv: "lru_inv h \<Longrightarrow> lru_inv (snd (lru_batch_loop clock i keys h))"
proof (induction keys arbitrary: i h)
  case (Cons key keys)
  then show ?case using lru_batch_step_inv [of h "clock i" key]
    by (auto split: prod.splits) (metis snd_conv)
qed simp

lemma lru_exec_inv: "lru_inv h \<Longrightarrow> lru_inv (snd (lru_exec c h))"
  by (cases c) (auto simp: lru_GetWithCtx_def lru_BatchGetWithCtx_def lru_getttl_inv
      lru_get_locked_refines(2) lru_set_inv lru_del_inv lru_close_inv lru_batch_loop_inv
      split: option.splits)

lemma lru_get_no_nil: "fst (lru_get_locked now k h) \<noteq> Inl RuntimePanic"
  by (auto simp: lru_get_locked_def Let_def split: option.splits prod.splits bool.splits)

lemma lru_set_no_nil:
  assumes "lru_inv h"
  shows "fst (lru_SetWithTTLAndCtx now key value ttl h) \<noteq> Some RuntimePanic"
proof (cases "key = None \<or> value = None \<or> ttl < -1 \<or> lru_closed h")
  case True
  then show ?thesis using lru_set_err [of key "value" ttl h now] by auto
next
  case False
  then show ?thesis using lru_set_refines(1) [OF assms] by auto
qed

lemma ValidateBasicOp_no_nil: "ValidateBasicOp key i c \<noteq> Some RuntimePanic"
  by (simp add: ValidateBasicOp_eq)

lemma lru_exec_no_nil: "lru_inv h \<Longrightarrow> fst (lru_exec c h) \<noteq> Some RuntimePanic"
  by (cases c) (auto simp: lru_GetWithCtx_def lru_get_no_nil lru_set_no_nil lru_GetTTLWithCtx_def
      lru_DelWithCtx_def lru_Close_def ValidateBasicOp_no_nil split: prod.splits option.splits bool.splits)

lemma lru_batch_loop_max:
  "lru_maxEntries (snd (lru_batch_loop clock i keys h)) = lru_maxEntries h"
proof (induction keys arbitrary: i h)
  case (Cons key keys)
  have "lru_maxEntries (snd (lru_batch_step (clock i) key h)) = lru_maxEntries h"
    by (auto simp: lru_batch_step_def Let_def split: option.splits)
  with Cons.IH show ?case by (auto split: prod.splits) (metis snd_conv)
qed simp

lemma lru_exec_max: "lru_maxEntries (snd (lru_exec c h)) = lru_maxEntries h"
  by (cases c) (auto simp: lru_GetWithCtx_def lru_GetTTLWithCtx_def lru_purgeExpired_def Let_def
      lru_get_frame lru_set_frame lru_del_frame lru_BatchGetWithCtx_def lru_batch_loop_max lru_Close_def
      split: option.splits)

lemma lru_run_ok:
  "lru_inv h \<Longrightarrow> lru_inv (snd (lru_run cs h)) \<and> Some RuntimePanic \<notin> set (fst (lru_run cs h)) \<and>
    lru_maxEntries (snd (lru_run cs h)) = lru_maxEntries h"
  by (induction cs arbitrary: h) (auto simp: lru_exec_inv lru_exec_max dest: lru_exec_no_nil [THEN not_sym])

lemma lru_abs_length:
  "lru_inv h \<Longrightarrow> 0 < lru_maxEntries h \<Longrightarrow> int (length (lru_abs h)) \<le> lru_maxEntries h"
  by (cases "lru_ll h") (auto simp: lru_inv_def lru_abs_def)

section \<open>Properties\<close>

text \<open>
  C1: Whatever calls are made on a new LRU handler, in any order and with a close racing a lookup,
  none dereferences the nil list, the map and the list stay consistent, and the number of entries
  never exceeds the capacity (the default 10000 for a capacity of zero or less).
\<close>
theorem lru_run_safe:
  assumes "ifLeZero_law f"
  shows "lru_inv (snd (lru_run cs (NewLRUHandler f n))) \<and>
    Some RuntimePanic \<notin> set (fst (lru_run cs (NewLRUHandler f n))) \<and>
    int (length (lru_abs (snd (lru_run cs (NewLRUHandler f n))))) \<le> (if n \<le> 0 then 10000 else n)"
proof -
  have "lru_maxEntries (NewLRUHandler f n) = (if n \<le> 0 then 10000 else n)"
    using ifLeZero_lawD [OF assms] by (simp add: NewLRUHandler_def DefaultMaxEntries_def)
  with lru_run_ok [OF NewLRUHandler_inv, of cs f n] show ?thesis
    using lru_abs_length [of "snd (lru_run cs (NewLRUHandler f n))"] by (auto split: if_splits)
qed

lemma lru_run_safe_witness:
  "int (length (lru_abs (snd (lru_run
      [CSet 5 (Some [1]) (Some [7]) (-1), CSet 6 (Some [2]) (Some [8]) 3, CGetLocked 7 (Some [1]), CClose,
       CGetLocked 8 (Some [1])]
      (NewLRUHandler (\<lambda>v d. if v \<le> 0 then d else v) 1))))) \<le> 1"
  using lru_run_safe [OF ifLeZero_law_example, of "[CSet 5 (Some [1]) (Some [7]) (-1),
      CSet 6 (Some [2]) (Some [8]) 3, CGetLocked 7 (Some [1]), CClose, CGetLocked 8 (Some [1])]" 1]
  by simp

text \<open>
  C3: Lookup, write and delete refine the abstract list of entries in order of use: a hit moves the
  entry to the front, an expired entry is dropped, a write goes to the front and evicts from the
  back only when the list would pass the capacity.
\<close>
theorem lru_refines_spec:
  assumes "lru_inv h" "\<not> lru_closed h" "-1 \<le> ttl"
  shows "map_prod id lru_abs (lru_GetWithCtx now (Some k) h) = spec_get now k (lru_abs h) \<and>
    map_prod id lru_abs (lru_SetWithTTLAndCtx now (Some k) (Some v) ttl h) =
      (None, spec_put (lru_maxEntries h) k (copyBytes (Some v)) (lru_expiry_for now ttl) (lru_abs h)) \<and>
    map_prod id lru_abs (lru_DelWithCtx (Some k) h) = (None, AList.delete k (lru_abs h))"
  using assms lru_set_refines [OF assms, of now k v] lru_del_refines [OF assms(1,2), of k]
    lru_get_locked_refines(1) [OF assms(1), of now k]
  by (auto simp: prod_eq_iff lru_GetWithCtx_def go_simps)

definition lru_demo :: LRUHandler where
  "lru_demo = snd (lru_SetWithTTLAndCtx 20 (Some [2]) (Some [8]) 5
     (snd (lru_SetWithTTLAndCtx 10 (Some [1]) (Some [7]) (-1) (NewLRUHandler (\<lambda>v d. v) 2))))"

lemma lru_demo_ok: "lru_inv lru_demo" "\<not> lru_closed lru_demo" "lru_maxEntries lru_demo = 2"
    "lru_abs lru_demo = [([2], Some [8], Some 25), ([1], Some [7], None)]"
proof -
  show "lru_inv lru_demo"
    unfolding lru_demo_def by (intro lru_set_inv NewLRUHandler_inv)
  show "\<not> lru_closed lru_demo" "lru_maxEntries lru_demo = 2"
    "lru_abs lru_demo = [([2], Some [8], Some 25), ([1], Some [7], None)]"
    by (simp_all add: lru_demo_def lru_set_frame NewLRUHandler_def lru_SetWithTTLAndCtx_def
        lru_evict_back_def lru_expiry_for_def copyBytes_def MaxValueSize_def lru_abs_def Let_def)
qed

lemma lru_refines_spec_witness:
  "map_prod id lru_abs (lru_GetWithCtx 25 (Some [1]) lru_demo) =
    (Inr (Some [7]), [([1], Some [7], None), ([2], Some [8], Some 25)])"
  using lru_refines_spec [OF lru_demo_ok(1,2), of 0 25 "[1]"]
  by (simp add: lru_demo_ok spec_get_def copyBytes_def MaxValueSize_def)

text \<open>
  Eviction is exactly least recently used: inserting a new key into a full cache keeps every
  other key in order and drops the one used longest ago.
\<close>
theorem lru_evicts_oldest:
  assumes "lru_inv h" "\<not> lru_closed h" "-1 \<le> ttl" "0 < lru_maxEntries h"
    and "int (length (lru_abs h)) = lru_maxEntries h" "k \<notin> fst ` set (lru_abs h)"
  shows "map fst (lru_abs (snd (lru_SetWithTTLAndCtx now (Some k) (Some v) ttl h))) =
    k # butlast (map fst (lru_abs h))"
proof -
  have "map_of (lru_abs h) k = None" using assms(6) by (simp add: map_of_eq_None_iff)
  moreover have "lru_abs h \<noteq> []" using assms(4,5) by auto
  ultimately show ?thesis
    using assms lru_set_refines(3) [OF assms(1-3), of now k v] by (simp add: spec_put_def map_butlast)
qed

lemma lru_evicts_oldest_witness:
  "map fst (lru_abs (snd (lru_SetWithTTLAndCtx 30 (Some [3]) (Some [9]) (-1) lru_demo))) = [[3], [2]]"
  using lru_evicts_oldest [OF lru_demo_ok(1,2), of "-1" "[3]" 30 "[9]"] by (simp add: lru_demo_ok)

text \<open>
  The LRU handler keeps the contract of the interface: a write is read back until its deadline
  and not after, and it leaves every other key as it was or evicts it.
\<close>
theorem lru_read_your_writes:
  assumes "lru_inv h" "\<not> lru_closed h" "ttl_ok now ttl" "now \<le> t" "k' \<noteq> k"
  shows "fst (lru_GetWithCtx t (Some k) (snd (lru_SetWithTTLAndCtx now (Some k) (Some v) ttl h))) =
      found (if lives now ttl t then Some (copyBytes (Some v)) else None) \<and>
    fst (lru_GetWithCtx t (Some k') (snd (lru_SetWithTTLAndCtx now (Some k) (Some v) ttl h))) \<in>
      {Inl ErrNotFound, fst (lru_GetWithCtx t (Some k') h)}"
  using lru.get_after_set [OF assms(1-4), of k v] lru.get_open [OF assms(1,2), of t k']
    lru.get_other_after_set [OF assms(1,2,5), of t now "Some v" ttl]
  by (simp add: lru_handler_def)

lemma lru_read_your_writes_witness:
  "fst (lru_GetWithCtx 35 (Some [2]) (snd (lru_SetWithTTLAndCtx 30 (Some [2]) (Some [9]) 5 lru_demo))) =
     Inr (Some [9]) \<and>
   fst (lru_GetWithCtx 36 (Some [2]) (snd (lru_SetWithTTLAndCtx 30 (Some [2]) (Some [9]) 5 lru_demo))) =
     Inl ErrNotFound"
proof -
  have ok: "ttl_ok 30 5" by (simp add: ttl_ok_def max_int64_def)
  show ?thesis
    using lru_read_your_writes [OF lru_demo_ok(1,2) ok, of 35 "[1]" "[2]" "[9]"]
      lru_read_your_writes [OF lru_demo_ok(1,2) ok, of 36 "[1]" "[2]" "[9]"]
    by (simp add: lives_def copyBytes_def MaxValueSize_def)
qed

text \<open>The reference for a batch: one lookup after the other, each answer put in its slot.\<close>

fun lru_seq_gets :: "(nat \<Rightarrow> time) \<Rightarrow> nat \<Rightarrow> slice list \<Rightarrow> LRUHandler \<Rightarrow>
    (slice \<times> go_error option) list \<times> LRUHandler" where
  "lru_seq_gets clock i [] h = ([], h)"
| "lru_seq_gets clock i (key # keys) h =
     ((case fst (lru_GetWithCtx (clock i) key h) of
         Inl e \<Rightarrow> (None, Some e) | Inr v \<Rightarrow> (Some (str v), None)) #
        fst (lru_seq_gets clock (Suc i) keys (snd (lru_GetWithCtx (clock i) key h))),
      snd (lru_seq_gets clock (Suc i) keys (snd (lru_GetWithCtx (clock i) key h))))"

lemma lru_cached_small:
  "lru_inv h \<Longrightarrow> lru_cache h k = Some e \<Longrightarrow> copyBytes (le_value (lru_elem h e)) = le_value (lru_elem h e)"
  by (cases "lru_ll h") (auto simp: lru_inv_def dest: indexesD)

lemma lru_batch_step_eq:
  assumes "lru_inv h" "\<not> lru_closed h" "slice_len key \<noteq> 0"
  shows "lru_batch_step now key h =
    ((case fst (lru_GetWithCtx now key h) of
        Inl e \<Rightarrow> (None, Some e) | Inr v \<Rightarrow> (Some (str v), None)), snd (lru_GetWithCtx now key h))"
proof -
  have eq: "lru_GetWithCtx now key h = lru_get_locked now (str key) h"
    using assms(2,3) by (cases key) (simp_all add: lru_GetWithCtx_def go_simps)
  show ?thesis unfolding eq
    using lru_batch_step_get [OF assms(1,3), of now] lru_cached_small [OF assms(1), of "str key"]
    by (auto simp: prod_eq_iff lru_get_locked_def lru_purgeExpired_def Let_def split: option.splits)
qed

lemma lru_batch_loop_eq:
  assumes "lru_inv h" "\<not> lru_closed h" "\<forall>key \<in> set keys. slice_len key \<noteq> 0"
  shows "zip (fst (fst (lru_batch_loop clock i keys h))) (snd (fst (lru_batch_loop clock i keys h))) =
      fst (lru_seq_gets clock i keys h) \<and>
    length (fst (fst (lru_batch_loop clock i keys h))) = length keys \<and>
    length (snd (fst (lru_batch_loop clock i keys h))) = length keys \<and>
    snd (lru_batch_loop clock i keys h) = snd (lru_seq_gets clock i keys h)"
  using assms
proof (induction keys arbitrary: i h)
  case (Cons key keys)
  let ?h' = "snd (lru_GetWithCtx (clock i) key h)"
  have "lru_inv ?h'" "\<not> lru_closed ?h'"
    using lru.get_inv [OF Cons.prems(1)] lru.get_flag Cons.prems(2) by (simp_all add: lru_handler_def)
  with Cons have IH: "zip (fst (fst (lru_batch_loop clock (Suc i) keys ?h')))
        (snd (fst (lru_batch_loop clock (Suc i) keys ?h'))) = fst (lru_seq_gets clock (Suc i) keys ?h') \<and>
      length (fst (fst (lru_batch_loop clock (Suc i) keys ?h'))) = length keys \<and>
      length (snd (fst (lru_batch_loop clock (Suc i) keys ?h'))) = length keys \<and>
      snd (lru_batch_loop clock (Suc i) keys ?h') = snd (lru_seq_gets clock (Suc i) keys ?h')" by simp
  have "slice_len key \<noteq> 0" using Cons.prems(3) by simp
  from lru_batch_step_eq [OF Cons.prems(1,2) this, of "clock i"] IH show ?case
    by (auto split: prod.splits sum.splits)
qed simp

text \<open>
  A batch lookup of non-empty keys on an open handler is the sequence of single lookups: the same
  answers in the same slots (a nil value read as empty) and the same final state.
\<close>
theorem lru_batch_is_gets:
  assumes "lru_inv h" "\<not> lru_closed h" "\<forall>key \<in> set keys. slice_len key \<noteq> 0"
  shows "(case lru_BatchGetWithCtx clock keys h of ((rs, es), h') \<Rightarrow>
      length rs = length keys \<and> length es = length keys \<and>
      zip rs es = fst (lru_seq_gets clock 0 keys h) \<and> h' = snd (lru_seq_gets clock 0 keys h))"
  using lru_batch_loop_eq [OF assms, of clock 0] assms(2)
  by (auto simp: lru_BatchGetWithCtx_def split: prod.splits)

lemma lru_batch_is_gets_witness:
  "(case lru_BatchGetWithCtx (\<lambda>_. 26) [Some [1], Some [2]] lru_demo of ((rs, es), h') \<Rightarrow>
      zip rs es = fst (lru_seq_gets (\<lambda>_. 26) 0 [Some [1], Some [2]] lru_demo))"
  using lru_batch_is_gets [OF lru_demo_ok(1,2), of "[Some [1], Some [2]]" "\<lambda>_. 26"]
  by (simp split: prod.splits)

text \<open>
  \<open>GetOrCompute\<close> on an open handler: a hit is served without running the loader; a miss under a
  cancelled context gives the context's error, again without running it; otherwise the loader runs
  once, its error is passed on and nothing is stored, and its value is returned and can be read
  back until its deadline (for ever when the TTL is zero or negative).
\<close>
theorem lru_get_or_compute:
  assumes "lru_inv h" "\<not> lru_closed h"
  shows "case lru_GetOrComputeWithCtx en (Some k) ttl loader h w of (r, h', w') \<Rightarrow>
    (case lru_view (clk en 0) h k of
       Some v \<Rightarrow> r = Inr v \<and> w' = w \<and> lru_view (clk en 0) h' = lru_view (clk en 0) h
     | None \<Rightarrow>
        (case obs en 0 of
           Some e \<Rightarrow> r = Inl e \<and> w' = w \<and> lru_view (clk en 0) h' = lru_view (clk en 0) h
         | None \<Rightarrow> w' = snd (loader w) \<and> r = fst (loader w) \<and>
            (case fst (loader w) of
               Inr (Some v) \<Rightarrow> (\<forall>t \<ge> clk en 1. lru_view t h' k =
                  (if 0 < ttl \<and> clk en 1 + ttl < t then None else Some (copyBytes (Some v))))
             | _ \<Rightarrow> lru_view (clk en 0) h' = lru_view (clk en 0) h)))"
proof -
  let ?h1 = "snd (lru_get_locked (clk en 0) k h)"
  have eq: "lru_GetWithCtx (clk en 0) (Some k) h = (found (lru_view (clk en 0) h k), ?h1)"
    using assms by (simp add: lru_GetWithCtx_def go_simps lru_view_now prod_eq_iff)
  have h1: "lru_inv ?h1" "\<not> lru_closed ?h1" "lru_view (clk en 0) ?h1 = lru_view (clk en 0) h"
    using assms by (simp_all add: lru_get_locked_refines(2) lru_get_frame lru_view_get)
  have set: "lru_view t (snd (lru_SetWithTTLAndCtx (clk en 1) (Some k) (Some v) d ?h1)) k =
      (if 0 < d \<and> clk en 1 + d < t then None else Some (copyBytes (Some v)))"
    if "clk en 1 \<le> t" "d = -1 \<or> 0 < d" for t d v
    using that lru_view_set [OF h1(1,2), of d "clk en 1" t k v] by (auto simp: lives_def)
  have nil: "snd (lru_SetWithTTLAndCtx (clk en 1) (Some k) None d ?h1) = ?h1" for d
    using lru_set_err_ex [of "Some k" None d ?h1 "clk en 1"] by auto
  show ?thesis
    using h1(3) nil set [of _ ttl] set [of _ "-1"]
    by (auto simp: lru_GetOrComputeWithCtx_def eq found_def lru_SetWithCtx_def
        split: option.splits sum.splits prod.splits)
qed

lemma lru_get_or_compute_witness:
  "case lru_GetOrComputeWithCtx \<lparr>clk = (\<lambda>i. 30), obs = (\<lambda>_. None)\<rparr> (Some [2]) 9
      (\<lambda>w. (Inr (Some [w]), w + 1)) lru_demo 4 of (r, h', w') \<Rightarrow> r = Inr (Some [4]) \<and> w' = 5"
proof -
  have "lru_view 30 lru_demo [2] = None" by (simp add: lru_view_def lru_demo_ok)
  then show ?thesis
    using lru_get_or_compute [OF lru_demo_ok(1,2), where en = "\<lparr>clk = (\<lambda>i. 30), obs = (\<lambda>_. None)\<rparr>"
        and k = "[2]" and ttl = 9 and loader = "\<lambda>w. (Inr (Some [w]), w + 1)" and w = 4]
    by (auto split: prod.splits)
qed

text \<open>
  A value of more than 100 MB is lost silently: the write reports success, and the key then reads
  as a hit whose value is nil.
\<close>
theorem lru_oversize_lost:
  assumes "lru_inv h" "\<not> lru_closed h" "MaxValueSize < length v"
  shows "fst (lru_SetWithTTLAndCtx now (Some k) (Some v) (-1) h) = None \<and>
    fst (lru_GetWithCtx t (Some k) (snd (lru_SetWithTTLAndCtx now (Some k) (Some v) (-1) h))) = Inr None"
proof -
  let ?h = "snd (lru_SetWithTTLAndCtx now (Some k) (Some v) (-1) h)"
  have "lru_view t ?h k = Some None"
    using assms by (simp add: lru_view_def lru_set_refines(3) map_of_spec_put_same lru_expiry_for_def
        copyBytes_def)
  then show ?thesis
    using assms lru.get_open [of ?h t k]
    by (simp add: lru_handler_def lru_set_refines(1,2) lru_set_frame)
qed

lemma lru_oversize_lost_witness:
  "fst (lru_GetWithCtx 2 (Some [1]) (snd (lru_SetWithTTLAndCtx 1 (Some [1])
     (Some (replicate 104857601 0)) (-1) lru_demo))) = Inr None"
  using lru_oversize_lost [OF lru_demo_ok(1,2), of "replicate 104857601 0" 1 "[1]" 2]
  by (simp add: MaxValueSize_def)

text \<open>The expired items that \<open>Stats\<close> counts over the map are those of the list.\<close>

lemma lru_Stats_counts:
  assumes "lru_inv h" "\<not> lru_closed h" "distinct keys" "set keys = dom (lru_cache h)"
  shows "lru_Stats now keys h = Inr \<lparr>ls_entries = int (length (lru_abs h)),
    ls_capacity = lru_maxEntries h,
    ls_expired_items = Some (length (filter (\<lambda>p. expired (snd (snd p)) now) (lru_abs h))),
    ls_closed = False\<rparr>"
proof -
  obtain es where es: "lru_ll h = Some es" "distinct es"
    and ix: "indexes (lru_cache h) (\<lambda>e. le_key (lru_elem h e)) es" using assms(1,2) by (rule lru_inv_open)
  let ?key = "\<lambda>e. le_key (lru_elem h e)" and ?P = "\<lambda>e. expired (le_expiry (lru_elem h e)) now"
  have "set (filter (\<lambda>k. case lru_cache h k of None \<Rightarrow> False | Some e \<Rightarrow> ?P e) keys) =
      ?key ` set (filter ?P es)"
    using assms(4) indexesD [OF ix] indexes_lookup [OF ix] by (force split: option.splits)
  then have "card (set (filter (\<lambda>k. case lru_cache h k of None \<Rightarrow> False | Some e \<Rightarrow> ?P e) keys)) =
      card (set (filter ?P es))"
    using card_image [OF inj_on_subset [OF indexes_inj [OF ix]], of "set (filter ?P es)"] by auto
  then have "length (filter (\<lambda>k. case lru_cache h k of None \<Rightarrow> False | Some e \<Rightarrow> ?P e) keys) =
      length (filter ?P es)"
    using assms(3) es(2) by (metis distinct_card distinct_filter)
  then show ?thesis
    using es assms(2) by (simp add: lru_Stats_def lru_abs_def filter_map comp_def Let_def)
qed

end
