(* ===== verification/Lru_Shard.thy ===== *)
theory Lru_Shard
  imports Handler_Interface "HOL-Library.Monad_Syntax"
begin

text \<open>
  The shards of \<open>LRUOptimizedHandler\<close> of \<open>lru_optimized.go\<close>: a map from keys to entries, an
  intrusive doubly linked list of the entries between two sentinels, a pool of spare entries, and
  the CLOCK (second chance) choice of a victim.

  The list is modelled by its pointers: an entry is a number, \<open>sh_ent\<close> is the store, and \<open>fe_prev\<close>
  and \<open>fe_next\<close> are nil or an entry. An operation that follows a nil pointer has the value
  \<^const>\<open>None\<close>, which at the level of the API is the error \<^const>\<open>RuntimePanic\<close>. The critical
  sections of a shard's lock are definitions of their own. A \<open>sync.Pool\<close> may give back any of its
  spare entries or none: the number \<open>pick\<close> stands for that choice. Time is the cached time stamp
  that \<open>fastNow\<close> reads, and deadlines are \<open>int64\<close> numbers of nanoseconds.
\<close>

section \<open>Entries and the linked list\<close>

record fastEntry =
  fe_key :: go_string
  fe_value :: slice
  fe_cap :: nat
  fe_expiry :: int
  fe_prev :: "nat option"
  fe_next :: "nat option"
  fe_accessed :: bool

record lruShard =
  sh_cache :: "go_string \<rightharpoonup> nat"
  sh_ent :: "nat \<Rightarrow> fastEntry"
  sh_head :: nat
  sh_tail :: nat
  sh_capacity :: int
  sh_size :: int
  sh_pool :: "nat list"
  sh_fresh :: nat
  sh_hits :: int
  sh_misses :: int

definition zeroEntry :: fastEntry where
  "zeroEntry = \<lparr>fe_key = [], fe_value = None, fe_cap = 0, fe_expiry = 0, fe_prev = None,
     fe_next = None, fe_accessed = False\<rparr>"

definition upd :: "nat \<Rightarrow> (fastEntry \<Rightarrow> fastEntry) \<Rightarrow> lruShard \<Rightarrow> lruShard" where
  "upd p f s = s\<lparr>sh_ent := (sh_ent s)(p := f (sh_ent s p))\<rparr>"

definition newLRUShard :: "int \<Rightarrow> lruShard" where
  "newLRUShard capacity =
     \<lparr>sh_cache = Map.empty,
      sh_ent = (\<lambda>_. zeroEntry)(0 := zeroEntry\<lparr>fe_next := Some 1\<rparr>, 1 := zeroEntry\<lparr>fe_prev := Some 0\<rparr>),
      sh_head = 0, sh_tail = 1, sh_capacity = capacity, sh_size = 0, sh_pool = [], sh_fresh = 2,
      sh_hits = 0, sh_misses = 0\<rparr>"

definition getEntry :: "nat \<Rightarrow> lruShard \<Rightarrow> nat \<times> lruShard" where
  "getEntry pick s =
     (if pick < length (sh_pool s)
      then (sh_pool s ! pick, s\<lparr>sh_pool := take pick (sh_pool s) @ drop (Suc pick) (sh_pool s)\<rparr>)
      else (sh_fresh s, s\<lparr>sh_fresh := Suc (sh_fresh s), sh_ent := (sh_ent s)(sh_fresh s := zeroEntry)\<rparr>))"

definition putEntry :: "nat \<Rightarrow> lruShard \<Rightarrow> lruShard" where
  "putEntry e s =
     (let s' = upd e (\<lambda>r. r\<lparr>fe_key := [], fe_value := None, fe_cap := 0, fe_expiry := 0,
                 fe_prev := None, fe_next := None, fe_accessed := False\<rparr>) s
      in s'\<lparr>sh_pool := e # sh_pool s'\<rparr>)"

definition addToHead :: "nat \<Rightarrow> lruShard \<Rightarrow> lruShard option" where
  "addToHead e s = do {
     let s = upd e (\<lambda>r. r\<lparr>fe_prev := Some (sh_head s)\<rparr>) s;
     let s = upd e (\<lambda>r. r\<lparr>fe_next := fe_next (sh_ent s (sh_head s))\<rparr>) s;
     n \<leftarrow> fe_next (sh_ent s (sh_head s));
     let s = upd n (\<lambda>r. r\<lparr>fe_prev := Some e\<rparr>) s;
     Some (upd (sh_head s) (\<lambda>r. r\<lparr>fe_next := Some e\<rparr>) s)
   }"

definition removeEntry :: "nat \<Rightarrow> lruShard \<Rightarrow> lruShard option" where
  "removeEntry e s = do {
     p \<leftarrow> fe_prev (sh_ent s e);
     let s = upd p (\<lambda>r. r\<lparr>fe_next := fe_next (sh_ent s e)\<rparr>) s;
     n \<leftarrow> fe_next (sh_ent s e);
     Some (upd n (\<lambda>r. r\<lparr>fe_prev := fe_prev (sh_ent s e)\<rparr>) s)
   }"

definition moveToHead :: "nat \<Rightarrow> lruShard \<Rightarrow> lruShard option" where
  "moveToHead e s = do { s \<leftarrow> removeEntry e s; addToHead e s }"

definition removeTail :: "lruShard \<Rightarrow> (nat option \<times> lruShard) option" where
  "removeTail s =
     (if fe_prev (sh_ent s (sh_tail s)) = Some (sh_head s) then Some (None, s)
      else do {
        t \<leftarrow> fe_prev (sh_ent s (sh_tail s));
        s' \<leftarrow> removeEntry t s;
        Some (Some t, s')
      })"

text \<open>The loop of \<open>evictVictim\<close>, by its number of remaining steps.\<close>

fun evict_loop :: "nat \<Rightarrow> lruShard \<Rightarrow> (nat option \<times> lruShard) option" where
  "evict_loop 0 s = removeTail s"
| "evict_loop (Suc steps) s =
     (if fe_prev (sh_ent s (sh_tail s)) = Some (sh_head s) then Some (None, s)
      else do {
        victim \<leftarrow> fe_prev (sh_ent s (sh_tail s));
        if fe_accessed (sh_ent s victim)
        then do {
          s' \<leftarrow> moveToHead victim (upd victim (\<lambda>r. r\<lparr>fe_accessed := False\<rparr>) s);
          evict_loop steps s'
        }
        else do {
          s' \<leftarrow> removeEntry victim s;
          Some (Some victim, s')
        }
      })"

definition evictVictim :: "lruShard \<Rightarrow> (nat option \<times> lruShard) option" where
  "evictVictim s = evict_loop (nat (sh_size s)) s"

definition isExpired :: "time \<Rightarrow> int \<Rightarrow> bool" where
  "isExpired now expiry \<longleftrightarrow> 0 < expiry \<and> expiry < now"

section \<open>The critical sections of a shard\<close>

datatype read_outcome = RMiss | RExpired | RHit slice

text \<open>The section of \<open>GetWithCtx\<close> under the read lock; a hit only sets the access bit.\<close>

definition shard_read :: "time \<Rightarrow> go_string \<Rightarrow> lruShard \<Rightarrow> read_outcome \<times> lruShard" where
  "shard_read now sk s =
     (case sh_cache s sk of
        None \<Rightarrow> (RMiss, s)
      | Some entry \<Rightarrow>
          if isExpired now (fe_expiry (sh_ent s entry)) then (RExpired, s)
          else (RHit (Some (str (fe_value (sh_ent s entry)))),
                upd entry (\<lambda>r. r\<lparr>fe_accessed := True\<rparr>) s))"

text \<open>Taking an entry out of map, list and count, and giving it back to the pool.\<close>

definition shard_drop :: "go_string \<Rightarrow> nat \<Rightarrow> lruShard \<Rightarrow> lruShard option" where
  "shard_drop sk entry s = do {
     let s = s\<lparr>sh_cache := (sh_cache s)(sk := None)\<rparr>;
     s \<leftarrow> removeEntry entry s;
     let s = s\<lparr>sh_size := sh_size s - 1\<rparr>;
     Some (putEntry entry s)
   }"

text \<open>The section of \<open>GetWithCtx\<close> under the write lock, which looks the key up again.\<close>

definition shard_cleanup :: "time \<Rightarrow> go_string \<Rightarrow> lruShard \<Rightarrow> lruShard option" where
  "shard_cleanup now sk s =
     (case sh_cache s sk of
        None \<Rightarrow> Some s
      | Some entry \<Rightarrow>
          if isExpired now (fe_expiry (sh_ent s entry)) then shard_drop sk entry s else Some s)"

definition shard_get_ttl :: "time \<Rightarrow> time \<Rightarrow> go_string \<Rightarrow> lruShard \<Rightarrow> duration go_result" where
  "shard_get_ttl now1 now2 sk s =
     (case sh_cache s sk of
        None \<Rightarrow> Inl ErrNotFound
      | Some entry \<Rightarrow>
          if isExpired now1 (fe_expiry (sh_ent s entry)) then Inl ErrNotFound
          else if fe_expiry (sh_ent s entry) = 0 then Inr 0
          else let remaining = wrap64 (fe_expiry (sh_ent s entry) - now2) in
               if remaining \<le> 0 then Inl ErrNotFound else Inr remaining)"

text \<open>Writing a value into an entry: its buffer is reused when it is large enough.\<close>

definition write_value :: "slice \<Rightarrow> fastEntry \<Rightarrow> fastEntry" where
  "write_value value r =
     (if slice_len value \<le> fe_cap r then r\<lparr>fe_value := Some (str value)\<rparr>
      else r\<lparr>fe_value := Some (str value), fe_cap := slice_len value\<rparr>)"

definition shard_evict :: "lruShard \<Rightarrow> lruShard option" where
  "shard_evict s =
     (if 0 < sh_capacity s \<and> sh_capacity s < sh_size s
      then do {
        (victim, s) \<leftarrow> evictVictim s;
        case victim of
          None \<Rightarrow> Some s
        | Some v \<Rightarrow>
            Some (putEntry v (s\<lparr>sh_cache := (sh_cache s)(fe_key (sh_ent s v) := None),
                                sh_size := sh_size s - 1\<rparr>))
      }
      else Some s)"

definition shard_set :: "nat \<Rightarrow> go_string \<Rightarrow> slice \<Rightarrow> int \<Rightarrow> lruShard \<Rightarrow> lruShard option" where
  "shard_set pick sk value expiry s =
     (case sh_cache s sk of
        Some entry \<Rightarrow>
          moveToHead entry
            (upd entry (\<lambda>r. (write_value value r)\<lparr>fe_expiry := expiry, fe_accessed := True\<rparr>) s)
      | None \<Rightarrow> do {
          let (entry, s) = getEntry pick s;
          let s = upd entry (\<lambda>r. r\<lparr>fe_key := sk, fe_value := Some (str value),
                                  fe_cap := slice_len value, fe_expiry := expiry\<rparr>) s;
          let s = s\<lparr>sh_cache := (sh_cache s)(fe_key (sh_ent s entry) \<mapsto> entry)\<rparr>;
          s \<leftarrow> addToHead entry s;
          let s = s\<lparr>sh_size := sh_size s + 1\<rparr>;
          shard_evict s
        })"

definition shard_del :: "go_string \<Rightarrow> lruShard \<Rightarrow> lruShard option" where
  "shard_del sk s =
     (case sh_cache s sk of None \<Rightarrow> Some s | Some entry \<Rightarrow> shard_drop sk entry s)"

text \<open>The loop of \<open>Clear\<close> and \<open>Close\<close> over the map, in the order \<open>keys\<close> of \<open>range\<close>.\<close>

fun shard_clear_loop :: "go_string list \<Rightarrow> lruShard \<Rightarrow> lruShard option" where
  "shard_clear_loop [] s = Some s"
| "shard_clear_loop (k # ks) s =
     (case sh_cache s k of
        None \<Rightarrow> shard_clear_loop ks s
      | Some entry \<Rightarrow> do {
          s' \<leftarrow> removeEntry entry (s\<lparr>sh_cache := (sh_cache s)(k := None)\<rparr>);
          shard_clear_loop ks (putEntry entry s')
        })"

definition shard_clear :: "go_string list \<Rightarrow> lruShard \<Rightarrow> lruShard option" where
  "shard_clear keys s = do {
     s \<leftarrow> shard_clear_loop keys s;
     Some (s\<lparr>sh_size := 0\<rparr>)
   }"

text \<open>One key of a batch, under the read lock: no access bit, no removal, no statistics.\<close>

definition shard_peek :: "time \<Rightarrow> go_string \<Rightarrow> lruShard \<Rightarrow> slice \<times> go_error option" where
  "shard_peek now sk s =
     (case sh_cache s sk of
        None \<Rightarrow> (None, Some ErrNotFound)
      | Some entry \<Rightarrow>
          if isExpired now (fe_expiry (sh_ent s entry)) then (None, Some ErrNotFound)
          else (Some (str (fe_value (sh_ent s entry))), None))"

end
