(* ===== verification/Lru_Shard_Correct.thy ===== *)
theory Lru_Shard_Correct
  imports Lru_Shard
begin

text \<open>
  Correctness of the pointer list and of the shard operations. \<open>dll E xs\<close> says that the entries
  \<open>xs\<close> are linked in this order in both directions; \<open>shard_ok s ns\<close> is the invariant of a shard
  whose list holds \<open>ns\<close> between the sentinels. Every operation keeps it, follows no nil pointer, and
  refines an operation on the list of (key, value, deadline, access bit).
\<close>

section \<open>Doubly linked lists\<close>

fun dll :: "(nat \<Rightarrow> fastEntry) \<Rightarrow> nat list \<Rightarrow> bool" where
  "dll E [] = True"
| "dll E [x] = True"
| "dll E (x # y # r) = (fe_next (E x) = Some y \<and> fe_prev (E y) = Some x \<and> dll E (y # r))"

lemma dll_split: "dll E (xs @ y # ys) \<longleftrightarrow> dll E (xs @ [y]) \<and> dll E (y # ys)"
proof (induction xs)
  case (Cons x xs)
  then show ?case by (cases xs) auto
qed (cases ys; simp)

lemma dll_cong:
  "(\<And>x. x \<in> set (butlast xs) \<Longrightarrow> fe_next (E' x) = fe_next (E x)) \<Longrightarrow>
   (\<And>x. x \<in> set (tl xs) \<Longrightarrow> fe_prev (E' x) = fe_prev (E x)) \<Longrightarrow> dll E' xs = dll E xs"
  by (induction E xs rule: dll.induct) auto

lemma dll_link: "dll E (xs @ a # b # ys) \<Longrightarrow> fe_next (E a) = Some b \<and> fe_prev (E b) = Some a"
  using dll_split [of E xs a "b # ys"] by simp

text \<open>What the list operations do not touch.\<close>

definition payload :: "fastEntry \<Rightarrow> go_string \<times> slice \<times> nat \<times> int \<times> bool" where
  "payload r = (fe_key r, fe_value r, fe_cap r, fe_expiry r, fe_accessed r)"

definition same_payload :: "(nat \<Rightarrow> fastEntry) \<Rightarrow> (nat \<Rightarrow> fastEntry) \<Rightarrow> bool" where
  "same_payload E E' \<longleftrightarrow> (\<forall>x. payload (E' x) = payload (E x))"

lemma same_payloadD:
  "same_payload E E' \<Longrightarrow> fe_key (E' x) = fe_key (E x) \<and> fe_value (E' x) = fe_value (E x) \<and>
    fe_cap (E' x) = fe_cap (E x) \<and> fe_expiry (E' x) = fe_expiry (E x) \<and> fe_accessed (E' x) = fe_accessed (E x)"
  by (simp add: same_payload_def payload_def)

lemma same_payload_trans: "same_payload E E' \<Longrightarrow> same_payload E' E'' \<Longrightarrow> same_payload E E''"
  by (simp add: same_payload_def)

lemma removeEntry_ok:
  assumes "dll (sh_ent s) (A @ a # e # b # B)" "distinct (A @ a # e # b # B)"
  obtains E where "removeEntry e s = Some (s\<lparr>sh_ent := E\<rparr>)" "dll E (A @ a # b # B)"
    "same_payload (sh_ent s) E"
proof -
  let ?E = "sh_ent s"
  let ?E' = "?E(a := (?E a)\<lparr>fe_next := Some b\<rparr>)"
  let ?E'' = "?E'(b := (?E' b)\<lparr>fe_prev := Some a\<rparr>)"
  have l: "fe_prev (?E e) = Some a" "fe_next (?E e) = Some b"
    using dll_link [OF assms(1)] dll_link [of ?E "A @ [a]" e b B] assms(1) by auto
  have r: "removeEntry e s = Some (s\<lparr>sh_ent := ?E''\<rparr>)"
    using l assms(2) by (cases s) (auto simp: removeEntry_def upd_def Let_def)
  have "dll ?E'' (A @ [a]) = dll ?E (A @ [a])" "dll ?E'' (b # B) = dll ?E (b # B)"
    using assms(2) by (intro dll_cong; auto simp: butlast_append dest: in_set_butlastD split: if_splits;
        cases A; auto)+
  moreover have "dll ?E (A @ [a])" "dll ?E (b # B)"
    using assms(1) dll_split [of ?E A a "e # b # B"] by simp_all
  ultimately have d: "dll ?E'' (A @ a # b # B)"
    using assms(2) dll_split [of ?E'' A a "b # B"] by auto
  show thesis
    by (rule that [OF r d]) (auto simp: same_payload_def payload_def)
qed

lemma addToHead_ok:
  assumes "dll (sh_ent s) (sh_head s # b # B)" "distinct (sh_head s # e # b # B)"
  obtains E where "addToHead e s = Some (s\<lparr>sh_ent := E\<rparr>)" "dll E (sh_head s # e # b # B)"
    "same_payload (sh_ent s) E"
proof -
  let ?E = "sh_ent s" and ?h = "sh_head s"
  let ?E' = "?E(e := (?E e)\<lparr>fe_prev := Some ?h, fe_next := Some b\<rparr>, b := (?E b)\<lparr>fe_prev := Some e\<rparr>,
    ?h := (?E ?h)\<lparr>fe_next := Some e\<rparr>)"
  have "fe_next (?E ?h) = Some b" using assms(1) by simp
  then have r: "addToHead e s = Some (s\<lparr>sh_ent := ?E'\<rparr>)"
    using assms(2) by (cases s) (auto simp: addToHead_def upd_def Let_def fun_upd_twist)
  have "dll ?E' (b # B) = dll ?E (b # B)"
    using assms(2) by (intro dll_cong) (auto dest: in_set_butlastD split: if_splits)
  then have d: "dll ?E' (?h # e # b # B)" using assms by auto
  show thesis by (rule that [OF r d]) (auto simp: same_payload_def payload_def)
qed

section \<open>The list between the sentinels\<close>

definition linked :: "lruShard \<Rightarrow> nat list \<Rightarrow> bool" where
  "linked s ns \<longleftrightarrow> dll (sh_ent s) (sh_head s # ns @ [sh_tail s]) \<and> distinct (sh_head s # ns @ [sh_tail s])"

lemma linked_cong:
  "linked s ns \<Longrightarrow> sh_head s' = sh_head s \<Longrightarrow> sh_tail s' = sh_tail s \<Longrightarrow>
   (\<And>x. fe_next (sh_ent s' x) = fe_next (sh_ent s x)) \<Longrightarrow>
   (\<And>x. fe_prev (sh_ent s' x) = fe_prev (sh_ent s x)) \<Longrightarrow> linked s' ns"
  using dll_cong [of "sh_head s # ns @ [sh_tail s]" "sh_ent s'" "sh_ent s"] by (simp add: linked_def)

text \<open>Entries outside the list may change freely.\<close>

lemma linked_cong_on:
  assumes "linked s ns" "sh_head s' = sh_head s" "sh_tail s' = sh_tail s"
    and "\<And>x. x \<in> set (sh_head s # ns @ [sh_tail s]) \<Longrightarrow> sh_ent s' x = sh_ent s x"
  shows "linked s' ns"
proof -
  let ?L = "sh_head s # ns @ [sh_tail s]"
  have "dll (sh_ent s') ?L = dll (sh_ent s) ?L"
    by (intro dll_cong) (auto simp: assms(4) butlast_append split: if_splits)
  with assms(1-3) show ?thesis by (simp add: linked_def)
qed

lemma linked_last: "linked s ns \<Longrightarrow>
    fe_prev (sh_ent s (sh_tail s)) = Some (if ns = [] then sh_head s else last ns)"
  using dll_link [of "sh_ent s" "sh_head s # butlast ns" "last ns" "sh_tail s" "[]"]
  by (cases ns rule: rev_cases) (auto simp: linked_def)

lemma linked_first: "linked s ns \<Longrightarrow>
    fe_next (sh_ent s (sh_head s)) = Some (if ns = [] then sh_tail s else hd ns)"
  by (cases ns) (auto simp: linked_def)

lemma unlink:
  assumes "linked s (u @ e # v)"
  obtains E where "removeEntry e s = Some (s\<lparr>sh_ent := E\<rparr>)" "linked (s\<lparr>sh_ent := E\<rparr>) (u @ v)"
    "same_payload (sh_ent s) E"
proof -
  obtain A a where A: "sh_head s # u = A @ [a]" by (metis append_butlast_last_id list.distinct(1))
  obtain b B where B: "v @ [sh_tail s] = b # B" by (cases "v @ [sh_tail s]") auto
  have eq: "sh_head s # (u @ e # v) @ [sh_tail s] = A @ a # e # b # B"
    using A B by (metis append.assoc append_Cons append_Nil)
  have eq': "sh_head s # (u @ v) @ [sh_tail s] = A @ a # b # B"
    using A B by (metis append.assoc append_Cons append_Nil)
  have d: "dll (sh_ent s) (A @ a # e # b # B)" "distinct (A @ a # e # b # B)"
    using assms unfolding linked_def eq by auto
  obtain E where E: "removeEntry e s = Some (s\<lparr>sh_ent := E\<rparr>)" "dll E (A @ a # b # B)"
    "same_payload (sh_ent s) E" using removeEntry_ok [OF d] by blast
  have "linked (s\<lparr>sh_ent := E\<rparr>) (u @ v)" using E(2) d(2) eq' by (simp add: linked_def)
  with E that show thesis by blast
qed

lemma link_head:
  assumes "linked s ns" "e \<notin> set (sh_head s # ns @ [sh_tail s])"
  obtains E where "addToHead e s = Some (s\<lparr>sh_ent := E\<rparr>)" "linked (s\<lparr>sh_ent := E\<rparr>) (e # ns)"
    "same_payload (sh_ent s) E"
proof -
  obtain b B where B: "ns @ [sh_tail s] = b # B" by (cases "ns @ [sh_tail s]") auto
  have d: "dll (sh_ent s) (sh_head s # b # B)" "distinct (sh_head s # e # b # B)"
    using assms B [symmetric] by (auto simp: linked_def)
  obtain E where "addToHead e s = Some (s\<lparr>sh_ent := E\<rparr>)" "dll E (sh_head s # e # b # B)"
    "same_payload (sh_ent s) E" using addToHead_ok [OF d] by blast
  with d(2) B [symmetric] that show thesis by (simp add: linked_def)
qed

lemma move_head:
  assumes "linked s (u @ e # v)"
  obtains E where "moveToHead e s = Some (s\<lparr>sh_ent := E\<rparr>)" "linked (s\<lparr>sh_ent := E\<rparr>) (e # u @ v)"
    "same_payload (sh_ent s) E"
proof -
  obtain E where E: "removeEntry e s = Some (s\<lparr>sh_ent := E\<rparr>)" "linked (s\<lparr>sh_ent := E\<rparr>) (u @ v)"
    "same_payload (sh_ent s) E" using unlink [OF assms] by blast
  have "e \<notin> set (sh_head (s\<lparr>sh_ent := E\<rparr>) # (u @ v) @ [sh_tail (s\<lparr>sh_ent := E\<rparr>)])"
    using assms by (auto simp: linked_def)
  from link_head [OF E(2) this] obtain E' where
    "addToHead e (s\<lparr>sh_ent := E\<rparr>) = Some (s\<lparr>sh_ent := E'\<rparr>)" "linked (s\<lparr>sh_ent := E'\<rparr>) (e # u @ v)"
    "same_payload E E'" by auto
  with E that show thesis by (auto simp: moveToHead_def intro: same_payload_trans)
qed

section \<open>The choice of a victim\<close>

type_synonym shard_list = "(go_string \<times> slice \<times> int \<times> bool) list"

definition shard_row :: "(nat \<Rightarrow> fastEntry) \<Rightarrow> nat \<Rightarrow> go_string \<times> slice \<times> int \<times> bool" where
  "shard_row E x = (fe_key (E x), fe_value (E x), fe_expiry (E x), fe_accessed (E x))"

text \<open>The CLOCK scan on the abstract list: from the back, an entry with its access bit set is cleared
  and moved to the front, the first one without it is the victim; out of steps, the back goes.\<close>

fun clock :: "nat \<Rightarrow> shard_list \<Rightarrow> go_string option \<times> shard_list" where
  "clock n l =
     (if l = [] then (None, [])
      else (case last l of (k, v, x, a) \<Rightarrow>
        (case n of
           0 \<Rightarrow> (Some k, butlast l)
         | Suc m \<Rightarrow> if a then clock m ((k, v, x, False) # butlast l) else (Some k, butlast l))))"

declare clock.simps [simp del]

lemma removeTail_ok:
  assumes "linked s ns"
  shows "\<exists>E v ns'. removeTail s = Some (v, s\<lparr>sh_ent := E\<rparr>) \<and> linked (s\<lparr>sh_ent := E\<rparr>) ns' \<and>
    same_payload (sh_ent s) E \<and>
    (case v of None \<Rightarrow> ns = [] \<and> ns' = [] | Some x \<Rightarrow> ns = ns' @ [x])"
proof (cases ns rule: rev_cases)
  case Nil
  then show ?thesis using linked_last [OF assms] assms
    by (intro exI [of _ "sh_ent s"] exI [of _ None] exI [of _ "[]"])
      (cases s, auto simp: removeTail_def same_payload_def)
next
  case (snoc u x)
  with assms have l: "linked s (u @ x # [])" by simp
  then have "x \<noteq> sh_head s" by (auto simp: linked_def)
  moreover obtain E where "removeEntry x s = Some (s\<lparr>sh_ent := E\<rparr>)" "linked (s\<lparr>sh_ent := E\<rparr>) (u @ [])"
    "same_payload (sh_ent s) E" using unlink [OF l] by blast
  ultimately show ?thesis using linked_last [OF assms] snoc
    by (intro exI [of _ E] exI [of _ "Some x"] exI [of _ u]) (simp add: removeTail_def)
qed

lemma shard_row_payload: "same_payload E E' \<Longrightarrow> shard_row E' x = shard_row E x"
  by (simp add: shard_row_def same_payloadD)

lemma map_shard_row: "same_payload E E' \<Longrightarrow> map (shard_row E') xs = map (shard_row E) xs"
  by (simp add: shard_row_payload)

text \<open>Keys and values stay; only access bits of listed entries change.\<close>

definition same_but_bits :: "nat set \<Rightarrow> (nat \<Rightarrow> fastEntry) \<Rightarrow> (nat \<Rightarrow> fastEntry) \<Rightarrow> bool" where
  "same_but_bits S E E' \<longleftrightarrow> (\<forall>x. fe_key (E' x) = fe_key (E x) \<and> fe_value (E' x) = fe_value (E x) \<and>
     fe_expiry (E' x) = fe_expiry (E x) \<and> (x \<notin> S \<longrightarrow> fe_accessed (E' x) = fe_accessed (E x)))"

lemma same_but_bits_payload: "same_payload E E' \<Longrightarrow> same_but_bits S E E'"
  by (simp add: same_but_bits_def same_payloadD)

lemma same_but_bits_trans: "same_but_bits S E E' \<Longrightarrow> same_but_bits S E' E'' \<Longrightarrow> same_but_bits S E E''"
  by (simp add: same_but_bits_def)

lemma evict_loop_ok:
  assumes "linked s ns"
  shows "\<exists>E v ns'. evict_loop n s = Some (v, s\<lparr>sh_ent := E\<rparr>) \<and> linked (s\<lparr>sh_ent := E\<rparr>) ns' \<and>
    same_but_bits (set ns) (sh_ent s) E \<and>
    clock n (map (shard_row (sh_ent s)) ns) =
      (map_option (\<lambda>x. fe_key (sh_ent s x)) v, map (shard_row E) ns') \<and>
    (case v of None \<Rightarrow> ns = [] \<and> ns' = []
     | Some x \<Rightarrow> x \<in> set ns \<and> set ns' = set ns - {x} \<and> length ns = Suc (length ns'))"
  using assms
proof (induction n arbitrary: s ns)
  case 0
  obtain E v ns' where r: "removeTail s = Some (v, s\<lparr>sh_ent := E\<rparr>)" "linked (s\<lparr>sh_ent := E\<rparr>) ns'"
    "same_payload (sh_ent s) E" "case v of None \<Rightarrow> ns = [] \<and> ns' = [] | Some x \<Rightarrow> ns = ns' @ [x]"
    using removeTail_ok [OF 0] by blast
  have "distinct ns" using 0 by (simp add: linked_def)
  with r(4) show ?case using r(1-3)
    by (intro exI [of _ E] exI [of _ v] exI [of _ ns'])
      (auto simp: clock.simps same_but_bits_payload map_shard_row shard_row_def same_payloadD
        split: option.splits)
next
  case (Suc n)
  show ?case
  proof (cases ns rule: rev_cases)
    case Nil
    then show ?thesis using linked_last [OF Suc.prems] Suc.prems
      by (intro exI [of _ "sh_ent s"] exI [of _ None] exI [of _ "[]"])
        (cases s, auto simp: clock.simps same_but_bits_def)
  next
    case (snoc u x)
    with Suc.prems have l: "linked s (u @ x # [])" by simp
    then have x: "x \<noteq> sh_head s" "x \<notin> set u" "distinct u" by (auto simp: linked_def)
    have prev: "fe_prev (sh_ent s (sh_tail s)) = Some x"
      using linked_last [OF Suc.prems] snoc by simp
    show ?thesis
    proof (cases "fe_accessed (sh_ent s x)")
      case False
      obtain E where "removeEntry x s = Some (s\<lparr>sh_ent := E\<rparr>)" "linked (s\<lparr>sh_ent := E\<rparr>) (u @ [])"
        "same_payload (sh_ent s) E" using unlink [OF l] by blast
      with False snoc x prev show ?thesis
        by (intro exI [of _ E] exI [of _ "Some x"] exI [of _ u])
          (auto simp: clock.simps same_but_bits_payload map_shard_row shard_row_def same_payloadD)
    next
      case True
      let ?s1 = "upd x (\<lambda>r. r\<lparr>fe_accessed := False\<rparr>) s"
      have l1: "linked ?s1 (u @ x # [])" using l by (rule linked_cong) (simp_all add: upd_def)
      obtain E1 where m: "moveToHead x ?s1 = Some (?s1\<lparr>sh_ent := E1\<rparr>)"
        "linked (?s1\<lparr>sh_ent := E1\<rparr>) (x # u @ [])" "same_payload (sh_ent ?s1) E1"
        using move_head [OF l1] by blast
      have s1: "?s1\<lparr>sh_ent := E1\<rparr> = s\<lparr>sh_ent := E1\<rparr>" by (simp add: upd_def)
      have rows: "map (shard_row E1) (x # u) =
          (fe_key (sh_ent s x), fe_value (sh_ent s x), fe_expiry (sh_ent s x), False) # map (shard_row (sh_ent s)) u"
        using same_payloadD [OF m(3)] x(2) by (auto simp: shard_row_def upd_def)
      have bits: "same_but_bits (set ns) (sh_ent s) E1"
        using same_payloadD [OF m(3)] snoc by (simp add: same_but_bits_def upd_def)
      from Suc.IH [of "s\<lparr>sh_ent := E1\<rparr>" "x # u"] m(2) s1 obtain E v ns' where
        ev: "evict_loop n (s\<lparr>sh_ent := E1\<rparr>) = Some (v, s\<lparr>sh_ent := E\<rparr>)" "linked (s\<lparr>sh_ent := E\<rparr>) ns'"
        "same_but_bits (set (x # u)) E1 E"
        "clock n (map (shard_row E1) (x # u)) = (map_option (\<lambda>x. fe_key (E1 x)) v, map (shard_row E) ns')"
        "case v of None \<Rightarrow> x # u = [] \<and> ns' = []
         | Some y \<Rightarrow> y \<in> set (x # u) \<and> set ns' = set (x # u) - {y} \<and> length (x # u) = Suc (length ns')"
        by auto
      have "clock (Suc n) (map (shard_row (sh_ent s)) ns) = clock n (map (shard_row E1) (x # u))"
        unfolding rows using snoc True by (subst clock.simps) (simp add: shard_row_def)
      moreover have "map_option (\<lambda>x. fe_key (E1 x)) v = map_option (\<lambda>x. fe_key (sh_ent s x)) v"
        using bits by (simp add: same_but_bits_def)
      moreover have "same_but_bits (set ns) (sh_ent s) E"
        using same_but_bits_trans [OF bits] ev(3) snoc by simp
      moreover have "evict_loop (Suc n) s = Some (v, s\<lparr>sh_ent := E\<rparr>)"
        using prev x True m(1) s1 ev(1) by simp
      ultimately show ?thesis using ev snoc
        by (intro exI [of _ E] exI [of _ v] exI [of _ ns']) (auto split: option.splits)
    qed
  qed
qed

section \<open>The invariant of a shard\<close>

definition shard_core :: "lruShard \<Rightarrow> nat list \<Rightarrow> bool" where
  "shard_core s ns \<longleftrightarrow> linked s ns \<and> sh_size s = int (length ns) \<and>
     indexes (sh_cache s) (\<lambda>x. fe_key (sh_ent s x)) ns \<and>
     distinct (sh_pool s) \<and> set (sh_pool s) \<inter> set (sh_head s # ns @ [sh_tail s]) = {} \<and>
     (\<forall>x \<in> set (sh_pool s) \<union> set (sh_head s # ns @ [sh_tail s]). x < sh_fresh s) \<and>
     (\<forall>x \<in> set (sh_pool s). \<not> fe_accessed (sh_ent s x))"

definition shard_ok :: "lruShard \<Rightarrow> nat list \<Rightarrow> bool" where
  "shard_ok s ns \<longleftrightarrow> shard_core s ns \<and> (0 < sh_capacity s \<longrightarrow> int (length ns) \<le> sh_capacity s)"

definition rows :: "lruShard \<Rightarrow> nat list \<Rightarrow> shard_list" where
  "rows s ns = map (shard_row (sh_ent s)) ns"

text \<open>The fields that no list operation touches.\<close>

definition same_frame :: "lruShard \<Rightarrow> lruShard \<Rightarrow> bool" where
  "same_frame s s' \<longleftrightarrow> sh_capacity s' = sh_capacity s \<and> sh_hits s' = sh_hits s \<and> sh_misses s' = sh_misses s"

lemma newLRUShard_ok: "shard_ok (newLRUShard c) []"
  by (simp add: shard_ok_def shard_core_def linked_def newLRUShard_def zeroEntry_def)

lemma shard_core_distinct: "shard_core s ns \<Longrightarrow> distinct ns"
  by (simp add: shard_core_def linked_def)

lemma shard_row_eq:
  "shard_row E = (\<lambda>e. (fe_key (E e), fe_value (E e), fe_expiry (E e), fe_accessed (E e)))"
  by (rule ext) (simp add: shard_row_def)

lemma map_of_rows:
  assumes "shard_core s ns"
  shows "map_of (rows s ns) k = map_option
    (\<lambda>e. (fe_value (sh_ent s e), fe_expiry (sh_ent s e), fe_accessed (sh_ent s e))) (sh_cache s k)"
  unfolding rows_def shard_row_eq
  by (rule indexes_map_of) (use assms shard_core_distinct [OF assms] in \<open>simp_all add: shard_core_def\<close>)

lemma rows_distinct: "shard_core s ns \<Longrightarrow> distinct (map fst (rows s ns))"
  using indexes_distinct_keys [of "sh_cache s" "\<lambda>x. fe_key (sh_ent s x)" ns] shard_core_distinct [of s ns]
  by (simp add: rows_def shard_row_def comp_def shard_core_def)

lemma shard_core_entry:
  assumes "shard_core s ns" "sh_cache s k = Some e"
  shows "e \<in> set ns" "fe_key (sh_ent s e) = k" "e \<noteq> sh_head s" "e \<noteq> sh_tail s" "e \<notin> set (sh_pool s)"
  using assms by (auto simp: shard_core_def linked_def dest: indexesD)

lemma rows_remove:
  assumes "shard_core s (u @ e # v)" "sh_cache s k = Some e"
  shows "map (shard_row (sh_ent s)) (u @ v) = AList.delete k (rows s (u @ e # v))"
proof -
  have d: "remove1 e (u @ e # v) = u @ v"
    using shard_core_distinct [OF assms(1)] by (simp add: remove1_append)
  have "indexes (sh_cache s) (\<lambda>x. fe_key (sh_ent s x)) (u @ e # v)" using assms(1) by (simp add: shard_core_def)
  from indexes_map_remove1 [OF this shard_core_distinct [OF assms(1)], of e
      "\<lambda>e. (fe_value (sh_ent s e), fe_expiry (sh_ent s e), fe_accessed (sh_ent s e))"]
  show ?thesis
    unfolding rows_def shard_row_eq d using shard_core_entry(2) [OF assms] by simp
qed

text \<open>Taking an entry out.\<close>

lemma shard_drop_ok:
  assumes "shard_core s ns" "sh_cache s k = Some e"
  shows "\<exists>s' ns'. shard_drop k e s = Some s' \<and> shard_core s' ns' \<and> rows s' ns' = AList.delete k (rows s ns) \<and>
    length ns = Suc (length ns') \<and> same_frame s s'"
proof -
  note en = shard_core_entry [OF assms]
  from en(1) obtain u v where uv: "ns = u @ e # v" by (meson split_list)
  let ?s1 = "s\<lparr>sh_cache := (sh_cache s)(k := None)\<rparr>"
  have l1: "linked ?s1 (u @ e # v)" using assms(1) uv by (simp add: shard_core_def linked_def)
  obtain E where E: "removeEntry e ?s1 = Some (?s1\<lparr>sh_ent := E\<rparr>)" "linked (?s1\<lparr>sh_ent := E\<rparr>) (u @ v)"
    "same_payload (sh_ent ?s1) E" using unlink [OF l1] by blast
  let ?s' = "putEntry e (?s1\<lparr>sh_ent := E, sh_size := sh_size s - 1\<rparr>)"
  have dist: "e \<notin> set (u @ v)" "distinct (u @ v)" using shard_core_distinct [OF assms(1)] uv by auto
  have keep: "sh_ent ?s' x = E x" if "x \<noteq> e" for x using that by (simp add: putEntry_def upd_def)
  have lk: "linked ?s' (u @ v)"
    using dist en(3,4) by (intro linked_cong_on [OF E(2)]) (auto simp: putEntry_def upd_def)
  have rw: "rows ?s' (u @ v) = AList.delete k (rows s ns)"
  proof -
    have "sh_ent ?s' x = E x" if "x \<in> set (u @ v)" for x using that dist(1) keep [of x] by metis
    then have "rows ?s' (u @ v) = map (shard_row E) (u @ v)"
      unfolding rows_def by (intro map_cong) (simp_all add: shard_row_def)
    also have "\<dots> = map (shard_row (sh_ent s)) (u @ v)" using map_shard_row [OF E(3)] by simp
    finally show ?thesis using rows_remove assms uv by simp
  qed
  have "indexes ((sh_cache s)(k := None)) (\<lambda>x. fe_key (sh_ent s x)) (u @ v)"
    using indexes_delete [of "sh_cache s" _ ns e "u @ v"] assms(1) en(1,2) uv dist
    by (auto simp: shard_core_def)
  then have ix: "indexes (sh_cache ?s') (\<lambda>x. fe_key (sh_ent ?s' x)) (u @ v)"
    using dist keep same_payloadD [OF E(3)]
    by (auto simp: putEntry_def upd_def elim!: indexes_cong)
  have "shard_core ?s' (u @ v)"
    using assms(1) lk ix en uv dist(1) same_payloadD [OF E(3)]
    by (auto simp: shard_core_def putEntry_def upd_def)
  with rw E(1) uv show ?thesis
    by (intro exI [of _ ?s'] exI [of _ "u @ v"]) (simp add: shard_drop_def same_frame_def putEntry_def upd_def)
qed

end
