(* ===== verification/Lru_Shard_Ops.thy ===== *)
theory Lru_Shard_Ops
  imports Lru_Shard_Correct
begin

text \<open>
  Each critical section of a shard, as an operation on the list of rows: none of them follows a nil
  pointer, each keeps \<open>shard_core\<close>, and each refines the list operation named in its lemma.
\<close>

section \<open>Eviction and insertion\<close>

lemma same_frame_trans: "same_frame s s' \<Longrightarrow> same_frame s' s'' \<Longrightarrow> same_frame s s''"
  by (simp add: same_frame_def)

lemma length_rows [simp]: "length (rows s ns) = length ns"
  by (simp add: rows_def)

definition clock_trim :: "int \<Rightarrow> shard_list \<Rightarrow> shard_list" where
  "clock_trim c l = (if 0 < c \<and> c < int (length l) then snd (clock (length l) l) else l)"

lemma shard_evict_ok:
  assumes "shard_core s ns"
  shows "\<exists>s' ns'. shard_evict s = Some s' \<and> shard_core s' ns' \<and>
    rows s' ns' = clock_trim (sh_capacity s) (rows s ns) \<and>
    length ns' = (if 0 < sh_capacity s \<and> sh_capacity s < int (length ns) then length ns - 1 else length ns) \<and>
    same_frame s s'"
proof (cases "0 < sh_capacity s \<and> sh_capacity s < sh_size s")
  case False
  then show ?thesis using assms
    by (intro exI [of _ s] exI [of _ ns]) (auto simp: shard_evict_def clock_trim_def shard_core_def same_frame_def)
next
  case True
  have sz: "sh_size s = int (length ns)" and l: "linked s ns" using assms by (simp_all add: shard_core_def)
  from evict_loop_ok [OF l, of "nat (sh_size s)"] obtain E v ns' where
    ev: "evictVictim s = Some (v, s\<lparr>sh_ent := E\<rparr>)" "linked (s\<lparr>sh_ent := E\<rparr>) ns'"
    "same_but_bits (set ns) (sh_ent s) E"
    "clock (length ns) (rows s ns) = (map_option (\<lambda>x. fe_key (sh_ent s x)) v, map (shard_row E) ns')"
    "case v of None \<Rightarrow> ns = [] \<and> ns' = []
     | Some x \<Rightarrow> x \<in> set ns \<and> set ns' = set ns - {x} \<and> length ns = Suc (length ns')"
    by (auto simp: evictVictim_def rows_def sz)
  from ev(5) True sz obtain x where x: "v = Some x" "x \<in> set ns" "set ns' = set ns - {x}"
    "length ns = Suc (length ns')" by (cases v) auto
  let ?s' = "putEntry x (s\<lparr>sh_ent := E, sh_cache := (sh_cache s)(fe_key (E x) := None), sh_size := sh_size s - 1\<rparr>)"
  have bits: "fe_key (E y) = fe_key (sh_ent s y)" "y \<notin> set ns \<Longrightarrow> fe_accessed (E y) = fe_accessed (sh_ent s y)" for y
    using ev(3) by (simp_all add: same_but_bits_def)
  have nx: "x \<notin> set ns'" "x \<noteq> sh_head s" "x \<noteq> sh_tail s" using x(2,3) l by (auto simp: linked_def)
  have keep: "sh_ent ?s' y = E y" if "y \<noteq> x" for y using that by (simp add: putEntry_def upd_def)
  have lk: "linked ?s' ns'"
    using nx by (intro linked_cong_on [OF ev(2)]) (auto simp: putEntry_def upd_def)
  have "sh_ent ?s' y = E y" if "y \<in> set ns'" for y using that nx(1) keep [of y] by metis
  then have rw: "rows ?s' ns' = map (shard_row E) ns'"
    unfolding rows_def by (intro map_cong) (simp_all add: shard_row_def)
  have "indexes ((sh_cache s)(fe_key (sh_ent s x) := None)) (\<lambda>x. fe_key (sh_ent s x)) ns'"
    using indexes_delete [of "sh_cache s" _ ns x ns'] assms x by (auto simp: shard_core_def)
  then have ix: "indexes (sh_cache ?s') (\<lambda>x. fe_key (sh_ent ?s' x)) ns'"
    using nx(1) bits by (auto simp: putEntry_def upd_def elim!: indexes_cong)
  have pool: "\<not> fe_accessed (E y)" if "y \<in> set (sh_pool s)" for y
    using that assms bits(2) [of y] by (auto simp: shard_core_def)
  have "shard_core ?s' ns'"
    using assms lk ix x nx pool by (auto simp: shard_core_def putEntry_def upd_def)
  moreover have "shard_evict s = Some ?s'"
    using True ev(1) x(1) by (simp add: shard_evict_def)
  moreover have "rows ?s' ns' = clock_trim (sh_capacity s) (rows s ns)"
    using True sz rw ev(4) by (simp add: clock_trim_def)
  ultimately show ?thesis using True x(4) sz
    by (intro exI [of _ ?s'] exI [of _ ns']) (simp add: same_frame_def putEntry_def upd_def)
qed

text \<open>The entry handed out by the pool is in neither list and without access bit.\<close>

lemma getEntry_ok:
  assumes "shard_core s ns"
  obtains e s' where "getEntry pick s = (e, s')" "shard_core s' ns" "rows s' ns = rows s ns"
    "e \<notin> set (sh_head s' # ns @ [sh_tail s'])" "e \<notin> set (sh_pool s')" "e < sh_fresh s'"
    "\<not> fe_accessed (sh_ent s' e)" "same_frame s s'" "sh_cache s' = sh_cache s"
proof (cases "pick < length (sh_pool s)")
  case True
  let ?e = "sh_pool s ! pick" and ?p = "take pick (sh_pool s) @ drop (Suc pick) (sh_pool s)"
  have sp: "sh_pool s = take pick (sh_pool s) @ ?e # drop (Suc pick) (sh_pool s)"
    using True by (simp add: id_take_nth_drop)
  have sub: "set ?p \<subseteq> set (sh_pool s)" "?e \<in> set (sh_pool s)"
    using True by (auto dest: in_set_takeD in_set_dropD)
  have "distinct (take pick (sh_pool s) @ ?e # drop (Suc pick) (sh_pool s))"
    using assms sp by (simp add: shard_core_def)
  then have d: "distinct ?p" "?e \<notin> set ?p" by auto
  have "?e \<notin> set (sh_head s # ns @ [sh_tail s])"
    using assms sub(2) unfolding shard_core_def by blast
  then show thesis
    by (intro that [of ?e "s\<lparr>sh_pool := ?p\<rparr>"])
      (use True assms d sub in \<open>auto simp: getEntry_def shard_core_def linked_def rows_def same_frame_def\<close>)
next
  case False
  let ?e = "sh_fresh s"
  let ?s' = "s\<lparr>sh_fresh := Suc ?e, sh_ent := (sh_ent s)(?e := zeroEntry)\<rparr>"
  have ne: "?e \<notin> set (sh_head s # ns @ [sh_tail s])" "?e \<notin> set (sh_pool s)"
    using assms by (auto simp: shard_core_def)
  have keep: "sh_ent ?s' x = sh_ent s x" if "x \<in> set ns" for x
    using that ne(1) by (cases "x = ?e") auto
  have "linked s ns" using assms by (simp add: shard_core_def)
  then have "linked ?s' ns" by (rule linked_cong_on) (use ne in auto)
  moreover have "indexes (sh_cache ?s') (\<lambda>x. fe_key (sh_ent ?s' x)) ns"
  proof (rule indexes_cong)
    show "indexes (sh_cache ?s') (\<lambda>x. fe_key (sh_ent s x)) ns" using assms by (simp add: shard_core_def)
  qed (use keep in auto)
  moreover have "x < Suc ?e" if "x \<in> set (sh_pool s) \<union> set (sh_head s # ns @ [sh_tail s])" for x
    using that assms unfolding shard_core_def by (meson less_SucI)
  ultimately have core: "shard_core ?s' ns" using assms ne by (auto simp: shard_core_def)
  have rw: "rows ?s' ns = rows s ns"
    unfolding rows_def using keep by (intro map_cong) (simp_all add: shard_row_def)
  have get: "getEntry pick s = (?e, ?s')" using False by (simp add: getEntry_def)
  show thesis
    by (rule that [OF get core rw]) (use ne in \<open>simp_all add: same_frame_def zeroEntry_def\<close>)
qed


section \<open>Set\<close>

definition clock_set :: "int \<Rightarrow> go_string \<Rightarrow> slice \<Rightarrow> int \<Rightarrow> shard_list \<Rightarrow> shard_list" where
  "clock_set c k v expiry l =
     (if map_of l k = None then clock_trim c ((k, v, expiry, False) # l)
      else (k, v, expiry, True) # AList.delete k l)"

lemma shard_set_old:
  assumes "shard_core s ns" "sh_cache s k = Some e"
  shows "\<exists>s' ns'. shard_set pick k v expiry s = Some s' \<and> shard_core s' ns' \<and>
    rows s' ns' = (k, Some (str v), expiry, True) # AList.delete k (rows s ns) \<and>
    length ns' = length ns \<and> same_frame s s'"
proof -
  note en = shard_core_entry [OF assms]
  from en(1) obtain a b where ab: "ns = a @ e # b" by (meson split_list)
  let ?f = "\<lambda>r. (write_value v r)\<lparr>fe_expiry := expiry, fe_accessed := True\<rparr>"
  let ?s1 = "upd e ?f s"
  have f: "fe_next (?f r) = fe_next r" "fe_prev (?f r) = fe_prev r" "fe_key (?f r) = fe_key r"
    "fe_value (?f r) = Some (str v)" for r by (simp_all add: write_value_def)
  have "linked s (a @ e # b)" using assms(1) ab by (simp add: shard_core_def)
  then have l1: "linked ?s1 (a @ e # b)" by (rule linked_cong) (simp_all add: upd_def f)
  obtain E where E: "moveToHead e ?s1 = Some (?s1\<lparr>sh_ent := E\<rparr>)" "linked (?s1\<lparr>sh_ent := E\<rparr>) (e # a @ b)"
    "same_payload (sh_ent ?s1) E" using move_head [OF l1] by blast
  note P = same_payloadD [OF E(3)]
  have d: "e \<notin> set (a @ b)" using shard_core_distinct [OF assms(1)] ab by simp
  have old: "shard_row E x = shard_row (sh_ent s) x" if "x \<in> set (a @ b)" for x
    using that d P [of x] by (cases "x = e") (auto simp: shard_row_def upd_def)
  have new: "shard_row E e = (k, Some (str v), expiry, True)"
    using P [of e] en(2) by (simp add: shard_row_def upd_def f(3,4))
  have "map (shard_row E) (a @ b) = map (shard_row (sh_ent s)) (a @ b)"
    using old by (intro map_cong) simp_all
  also have "\<dots> = AList.delete k (rows s ns)" using rows_remove [of s a e b k] assms ab by simp
  finally have rw: "rows (?s1\<lparr>sh_ent := E\<rparr>) (e # a @ b) = (k, Some (str v), expiry, True) # AList.delete k (rows s ns)"
    using new by (simp add: rows_def)
  have "indexes (sh_cache s) (\<lambda>x. fe_key (sh_ent s x)) ns" using assms(1) by (simp add: shard_core_def)
  then have ix: "indexes (sh_cache s) (\<lambda>x. fe_key (E x)) (e # a @ b)"
    by (rule indexes_cong) (use P ab f(3) in \<open>auto simp: upd_def\<close>)
  have "\<not> fe_accessed (E x)" if "x \<in> set (sh_pool s)" for x
    using that assms(1) en(5) P [of x] by (auto simp: shard_core_def upd_def)
  then have "shard_core (?s1\<lparr>sh_ent := E\<rparr>) (e # a @ b)"
    using assms(1) E(2) ix ab by (auto simp: shard_core_def upd_def)
  with rw E(1) assms(2) ab show ?thesis
    by (intro exI [of _ "?s1\<lparr>sh_ent := E\<rparr>"] exI [of _ "e # a @ b"])
      (simp add: shard_set_def same_frame_def upd_def)
qed

lemma shard_set_new:
  assumes "shard_core s ns" "sh_cache s k = None"
  shows "\<exists>s' ns'. shard_set pick k v expiry s = Some s' \<and> shard_core s' ns' \<and>
    rows s' ns' = clock_trim (sh_capacity s) ((k, Some (str v), expiry, False) # rows s ns) \<and>
    length ns' = (if 0 < sh_capacity s \<and> sh_capacity s < 1 + int (length ns) then length ns else Suc (length ns)) \<and>
    same_frame s s'"
proof -
  obtain e s0 where g: "getEntry pick s = (e, s0)" "shard_core s0 ns" "rows s0 ns = rows s ns"
    "e \<notin> set (sh_head s0 # ns @ [sh_tail s0])" "e \<notin> set (sh_pool s0)" "e < sh_fresh s0"
    "\<not> fe_accessed (sh_ent s0 e)" "same_frame s s0" "sh_cache s0 = sh_cache s"
    using getEntry_ok [OF assms(1)] by metis
  let ?f = "\<lambda>r. r\<lparr>fe_key := k, fe_value := Some (str v), fe_cap := slice_len v, fe_expiry := expiry\<rparr>"
  let ?s1 = "(upd e ?f s0)\<lparr>sh_cache := (sh_cache s0)(k \<mapsto> e)\<rparr>"
  have "linked s0 ns" using g(2) by (simp add: shard_core_def)
  then have l1: "linked ?s1 ns" by (rule linked_cong) (simp_all add: upd_def)
  have "e \<notin> set (sh_head ?s1 # ns @ [sh_tail ?s1])" using g(4) by (simp add: upd_def)
  from link_head [OF l1 this] obtain E where E: "addToHead e ?s1 = Some (?s1\<lparr>sh_ent := E\<rparr>)"
    "linked (?s1\<lparr>sh_ent := E\<rparr>) (e # ns)" "same_payload (sh_ent ?s1) E" by blast
  note P = same_payloadD [OF E(3)]
  let ?s2 = "?s1\<lparr>sh_ent := E, sh_size := sh_size s0 + 1\<rparr>"
  have d: "e \<notin> set ns" using g(4) by simp
  have old: "shard_row E x = shard_row (sh_ent s0) x" if "x \<in> set ns" for x
    using that d P [of x] by (cases "x = e") (auto simp: shard_row_def upd_def)
  have new: "shard_row E e = (k, Some (str v), expiry, False)"
    using P [of e] g(7) by (simp add: shard_row_def upd_def)
  have "map (shard_row E) ns = map (shard_row (sh_ent s0)) ns" using old by (intro map_cong) simp_all
  then have rw: "rows ?s2 (e # ns) = (k, Some (str v), expiry, False) # rows s ns"
    using new g(3) by (simp add: rows_def)
  have "indexes (sh_cache s0) (\<lambda>x. fe_key (sh_ent s0 x)) ns" using g(2) by (simp add: shard_core_def)
  from indexes_insert [OF this _ d, of k] have i0:
    "indexes ((sh_cache s0)(k \<mapsto> e)) ((\<lambda>x. fe_key (sh_ent s0 x))(e := k)) (e # ns)"
    using g(9) assms(2) by simp
  have ix: "indexes ((sh_cache s0)(k \<mapsto> e)) (\<lambda>x. fe_key (E x)) (e # ns)"
    by (rule indexes_cong [OF i0]) (use P in \<open>auto simp: upd_def\<close>)
  have "\<not> fe_accessed (E x)" if "x \<in> set (sh_pool s0)" for x
    using that g(2,5) P [of x] by (auto simp: shard_core_def upd_def)
  moreover have "linked ?s2 (e # ns)" using E(2) by (simp add: linked_def)
  ultimately have core: "shard_core ?s2 (e # ns)"
    using g(2,5,6) ix by (auto simp: shard_core_def upd_def)
  have "shard_set pick k v expiry s = shard_evict ?s2"
    using assms(2) g(1) E(1) by (simp add: shard_set_def upd_def)
  moreover have "sh_capacity ?s2 = sh_capacity s" "same_frame s ?s2"
    using g(8) by (simp_all add: same_frame_def upd_def)
  moreover obtain s' ns' where "shard_evict ?s2 = Some s'" "shard_core s' ns'"
    "rows s' ns' = clock_trim (sh_capacity ?s2) (rows ?s2 (e # ns))"
    "length ns' = (if 0 < sh_capacity ?s2 \<and> sh_capacity ?s2 < int (length (e # ns))
       then length (e # ns) - 1 else length (e # ns))" "same_frame ?s2 s'"
    using shard_evict_ok [OF core] by blast
  ultimately show ?thesis using rw
    by (intro exI [of _ s'] exI [of _ ns']) (simp add: same_frame_trans [of s ?s2 s'])
qed

lemma shard_set_ok:
  assumes "shard_ok s ns"
  shows "\<exists>s' ns'. shard_set pick k v expiry s = Some s' \<and> shard_ok s' ns' \<and>
    rows s' ns' = clock_set (sh_capacity s) k (Some (str v)) expiry (rows s ns) \<and> same_frame s s'"
proof -
  have core: "shard_core s ns" using assms by (simp add: shard_ok_def)
  show ?thesis
  proof (cases "sh_cache s k")
    case None
    from shard_set_new [OF core None, of pick v expiry] obtain s' ns' where
      "shard_set pick k v expiry s = Some s'" "shard_core s' ns'"
      "rows s' ns' = clock_trim (sh_capacity s) ((k, Some (str v), expiry, False) # rows s ns)"
      "length ns' = (if 0 < sh_capacity s \<and> sh_capacity s < 1 + int (length ns) then length ns else Suc (length ns))"
      "same_frame s s'" by blast
    with None show ?thesis using assms map_of_rows [OF core, of k]
      by (intro exI [of _ s'] exI [of _ ns']) (auto simp: shard_ok_def clock_set_def same_frame_def)
  next
    case (Some e)
    from shard_set_old [OF core Some, of pick v expiry] obtain s' ns' where
      "shard_set pick k v expiry s = Some s'" "shard_core s' ns'"
      "rows s' ns' = (k, Some (str v), expiry, True) # AList.delete k (rows s ns)"
      "length ns' = length ns" "same_frame s s'" by blast
    with Some show ?thesis using assms map_of_rows [OF core, of k]
      by (intro exI [of _ s'] exI [of _ ns']) (auto simp: shard_ok_def clock_set_def same_frame_def)
  qed
qed


section \<open>Reading and removing\<close>

text \<open>A hit of \<open>Get\<close> sets the access bit of its row and moves nothing.\<close>

definition touch :: "go_string \<Rightarrow> shard_list \<Rightarrow> shard_list" where
  "touch k l = map (\<lambda>(k', v, x, a). (k', v, x, a \<or> k' = k)) l"

definition list_read :: "time \<Rightarrow> go_string \<Rightarrow> shard_list \<Rightarrow> read_outcome" where
  "list_read now k l =
     (case map_of l k of
        None \<Rightarrow> RMiss
      | Some (v, x, a) \<Rightarrow> if isExpired now x then RExpired else RHit (Some (str v)))"

definition list_cleanup :: "time \<Rightarrow> go_string \<Rightarrow> shard_list \<Rightarrow> shard_list" where
  "list_cleanup now k l = (if list_read now k l = RExpired then AList.delete k l else l)"

lemma map_of_touch: "map_of (touch k l) k' = map_option (\<lambda>(v, x, a). (v, x, a \<or> k' = k)) (map_of l k')"
  by (induction l) (auto simp: touch_def)

lemma keys_touch [simp]: "map fst (touch k l) = map fst l" "length (touch k l) = length l"
  by (auto simp: touch_def)

lemma shard_read_ok:
  assumes "shard_core s ns"
  shows "fst (shard_read now k s) = list_read now k (rows s ns)"
    "shard_core (snd (shard_read now k s)) ns"
    "rows (snd (shard_read now k s)) ns =
      (case list_read now k (rows s ns) of RHit v \<Rightarrow> touch k (rows s ns) | _ \<Rightarrow> rows s ns)"
    "same_frame s (snd (shard_read now k s))"
proof -
  note m = map_of_rows [OF assms, of k]
  have hit: "shard_core (upd e (\<lambda>r. r\<lparr>fe_accessed := True\<rparr>) s) ns \<and>
      rows (upd e (\<lambda>r. r\<lparr>fe_accessed := True\<rparr>) s) ns = touch k (rows s ns)"
    if "sh_cache s k = Some e" for e
  proof -
    let ?s' = "upd e (\<lambda>r. r\<lparr>fe_accessed := True\<rparr>) s"
    note en = shard_core_entry [OF assms that]
    have ix: "indexes (sh_cache s) (\<lambda>x. fe_key (sh_ent s x)) ns" using assms by (simp add: shard_core_def)
    have "linked s ns" using assms by (simp add: shard_core_def)
    then have "linked ?s' ns" by (rule linked_cong) (simp_all add: upd_def)
    moreover have "indexes (sh_cache s) (\<lambda>x. fe_key (sh_ent ?s' x)) ns"
      by (rule indexes_cong [OF ix]) (simp_all add: upd_def)
    ultimately have "shard_core ?s' ns" using assms en(5) by (auto simp: shard_core_def upd_def)
    moreover have "fe_key (sh_ent s x) = k \<longleftrightarrow> x = e" if "x \<in> set ns" for x
      using that en(1,2) indexes_inj [OF ix] by (auto simp: inj_on_def)
    then have "rows ?s' ns = touch k (rows s ns)"
      by (auto simp: rows_def touch_def shard_row_def upd_def)
    ultimately show ?thesis ..
  qed
  show "fst (shard_read now k s) = list_read now k (rows s ns)"
    using m by (simp add: shard_read_def list_read_def split: option.splits)
  show "shard_core (snd (shard_read now k s)) ns"
    using assms hit by (auto simp: shard_read_def split: option.splits)
  show "rows (snd (shard_read now k s)) ns =
      (case list_read now k (rows s ns) of RHit v \<Rightarrow> touch k (rows s ns) | _ \<Rightarrow> rows s ns)"
    using m hit by (auto simp: shard_read_def list_read_def split: option.splits)
  show "same_frame s (snd (shard_read now k s))"
    by (simp add: shard_read_def same_frame_def upd_def split: option.splits)
qed

lemma shard_del_ok:
  assumes "shard_core s ns"
  shows "\<exists>s' ns'. shard_del k s = Some s' \<and> shard_core s' ns' \<and> rows s' ns' = AList.delete k (rows s ns) \<and>
    length ns' \<le> length ns \<and> same_frame s s'"
proof (cases "sh_cache s k")
  case None
  then have "k \<notin> fst ` set (rows s ns)"
    using map_of_rows [OF assms, of k] by (simp add: map_of_eq_None_iff)
  with None assms show ?thesis
    by (intro exI [of _ s] exI [of _ ns]) (auto simp: shard_del_def same_frame_def)
next
  case (Some e)
  from shard_drop_ok [OF assms Some] Some show ?thesis by (fastforce simp: shard_del_def)
qed

lemma shard_cleanup_ok:
  assumes "shard_core s ns"
  shows "\<exists>s' ns'. shard_cleanup now k s = Some s' \<and> shard_core s' ns' \<and>
    rows s' ns' = list_cleanup now k (rows s ns) \<and> length ns' \<le> length ns \<and> same_frame s s'"
proof (cases "sh_cache s k")
  case None
  with assms show ?thesis using map_of_rows [OF assms, of k]
    by (intro exI [of _ s] exI [of _ ns])
      (simp add: shard_cleanup_def same_frame_def list_cleanup_def list_read_def)
next
  case (Some e)
  show ?thesis
  proof (cases "isExpired now (fe_expiry (sh_ent s e))")
    case True
    from shard_drop_ok [OF assms Some] obtain s' ns' where "shard_drop k e s = Some s'" "shard_core s' ns'"
      "rows s' ns' = AList.delete k (rows s ns)" "length ns = Suc (length ns')" "same_frame s s'" by blast
    with True Some show ?thesis using map_of_rows [OF assms, of k]
      by (intro exI [of _ s'] exI [of _ ns']) (simp add: shard_cleanup_def list_cleanup_def list_read_def)
  next
    case False
    with Some assms show ?thesis using map_of_rows [OF assms, of k]
      by (intro exI [of _ s] exI [of _ ns])
        (simp add: shard_cleanup_def same_frame_def list_cleanup_def list_read_def)
  qed
qed

lemma shard_get_ttl_rows:
  "shard_core s ns \<Longrightarrow> shard_get_ttl now1 now2 k s =
     (case map_of (rows s ns) k of
        None \<Rightarrow> Inl ErrNotFound
      | Some (v, x, a) \<Rightarrow>
          if isExpired now1 x then Inl ErrNotFound
          else if x = 0 then Inr 0
          else if wrap64 (x - now2) \<le> 0 then Inl ErrNotFound else Inr (wrap64 (x - now2)))"
  using map_of_rows [of s ns k] by (simp add: shard_get_ttl_def Let_def split: option.splits)

lemma shard_peek_rows:
  "shard_core s ns \<Longrightarrow> shard_peek now k s =
     (case list_read now k (rows s ns) of RHit v \<Rightarrow> (v, None) | _ \<Rightarrow> (None, Some ErrNotFound))"
  using map_of_rows [of s ns k] by (simp add: shard_peek_def list_read_def split: option.splits)

section \<open>Clear\<close>

lemma removeEntry_size:
  "removeEntry e (s\<lparr>sh_size := z\<rparr>) = map_option (\<lambda>s'. s'\<lparr>sh_size := z\<rparr>) (removeEntry e s)"
  by (auto simp: removeEntry_def upd_def Let_def split: option.splits Option.bind_splits)

lemma shard_drop_size:
  "shard_drop k e (s\<lparr>sh_size := z\<rparr>) =
     map_option (\<lambda>s'. (putEntry e s')\<lparr>sh_size := z - 1\<rparr>) (removeEntry e (s\<lparr>sh_cache := (sh_cache s)(k := None)\<rparr>))"
proof -
  have "removeEntry e (s\<lparr>sh_size := z, sh_cache := (sh_cache s)(k := None)\<rparr>) =
      map_option (\<lambda>s'. s'\<lparr>sh_size := z\<rparr>) (removeEntry e (s\<lparr>sh_cache := (sh_cache s)(k := None)\<rparr>))"
    by (subst removeEntry_size [symmetric], cases s) simp
  then show ?thesis
    by (cases "removeEntry e (s\<lparr>sh_cache := (sh_cache s)(k := None)\<rparr>)")
      (simp_all add: shard_drop_def putEntry_def upd_def Let_def)
qed

lemma shard_clear_loop_ok:
  assumes "shard_core (s\<lparr>sh_size := int (length ns)\<rparr>) ns"
  shows "\<exists>s' ns'. shard_clear_loop ks s = Some s' \<and> shard_core (s'\<lparr>sh_size := int (length ns')\<rparr>) ns' \<and>
    (\<forall>k. sh_cache s' k = (if k \<in> set ks then None else sh_cache s k)) \<and> same_frame s s'"
  using assms
proof (induction ks arbitrary: s ns)
  case Nil
  then show ?case by (intro exI [of _ s] exI [of _ ns]) (simp add: same_frame_def)
next
  case (Cons k ks)
  show ?case
  proof (cases "sh_cache s k")
    case None
    from Cons.IH [OF Cons.prems] None show ?thesis by (auto simp: fun_eq_iff)
  next
    case (Some e)
    let ?s1 = "s\<lparr>sh_cache := (sh_cache s)(k := None)\<rparr>"
    from shard_drop_ok [OF Cons.prems, of k e] Some obtain s2 ns2 where
      s2: "shard_drop k e (s\<lparr>sh_size := int (length ns)\<rparr>) = Some s2" "shard_core s2 ns2"
      "same_frame s s2" by (auto simp: same_frame_def)
    then obtain t where t: "removeEntry e ?s1 = Some t" "s2 = (putEntry e t)\<lparr>sh_size := int (length ns) - 1\<rparr>"
      by (auto simp: shard_drop_size)
    have sz: "(putEntry e t)\<lparr>sh_size := int (length ns2)\<rparr> = s2" using s2(2) t(2) by (simp add: shard_core_def)
    have c: "sh_cache (putEntry e t) = (sh_cache s)(k := None)"
      using t(1) by (auto simp: removeEntry_def putEntry_def upd_def Let_def split: Option.bind_splits)
    from Cons.IH [where s = "putEntry e t" and ns = ns2] s2(2) sz obtain s' ns' where
      s': "shard_clear_loop ks (putEntry e t) = Some s'" "shard_core (s'\<lparr>sh_size := int (length ns')\<rparr>) ns'"
      "\<forall>k'. sh_cache s' k' = (if k' \<in> set ks then None else sh_cache (putEntry e t) k')"
      "same_frame (putEntry e t) s'" by auto
    have "same_frame s s'" using s2(3) s'(4) t(2) by (simp add: same_frame_def)
    with Some t(1) c s' show ?thesis
      by (intro exI [of _ s'] exI [of _ ns']) auto
  qed
qed

lemma shard_clear_ok:
  assumes "shard_core s ns" "dom (sh_cache s) \<subseteq> set ks"
  shows "\<exists>s'. shard_clear ks s = Some s' \<and> shard_core s' [] \<and> same_frame s s'"
proof -
  have "s\<lparr>sh_size := int (length ns)\<rparr> = s" using assms(1) by (simp add: shard_core_def)
  with shard_clear_loop_ok [where s = s and ns = ns and ks = ks] assms(1) obtain s' ns' where
    s': "shard_clear_loop ks s = Some s'" "shard_core (s'\<lparr>sh_size := int (length ns')\<rparr>) ns'"
    "\<forall>k. sh_cache s' k = (if k \<in> set ks then None else sh_cache s k)" "same_frame s s'" by auto
  have "sh_cache s' = Map.empty" using s'(3) assms(2) by (auto simp: fun_eq_iff)
  with s'(2) have "ns' = []"
    by (cases ns') (auto simp: shard_core_def dest: indexes_lookup)
  with s' show ?thesis by (auto simp: shard_clear_def same_frame_def)
qed

end
