(* ===== verification/Lru_Optimized.thy ===== *)
theory Lru_Optimized
  imports Lru_Shard "HOL-Library.While_Combinator"
begin

text \<open>
  \<open>LRUOptimizedHandler\<close> of \<open>lru_optimized.go\<close>: the choice of the number of shards and of their
  capacity, the shard of a key by its hash, the operations of the API on the shards, and
  \<open>GetOrCompute\<close> with its table of calls.

  The constructor takes \<open>mathx.IfLeZero\<close> and the value of \<open>runtime.GOMAXPROCS(0)\<close>; its two loops are
  \<^const>\<open>while_option\<close>, so \<^const>\<open>None\<close> is a constructor that does not return. A nil pointer followed
  in a shard and a shard index out of range are the error \<^const>\<open>RuntimePanic\<close>. \<open>loadGroup\<close> holds
  the finished calls whose deletion is still pending (the timer of 10 ms after a call is the
  operation \<open>opt_load_timer\<close>); a loader that panics is one whose answer is \<^const>\<open>RuntimePanic\<close>.
\<close>

record optHandler =
  opt_shards :: "lruShard list"
  opt_shardCount :: "32 word"
  opt_shardMask :: "32 word"
  opt_maxEntries :: int
  opt_closed :: bool
  opt_loadGroup :: "go_string \<rightharpoonup> slice go_result"

definition defaultShardCount :: int where "defaultShardCount = 16"
definition defaultShardCapacity :: int where "defaultShardCapacity = 64"

section \<open>Construction\<close>

definition shard_cap_limit :: "int \<Rightarrow> int option" where
  "shard_cap_limit gomaxprocs =
     (let maxShards = wrap64 (4 * gomaxprocs)
      in while_option (\<lambda>c. c < maxShards \<and> c < 256) (\<lambda>c. wrap64 (2 * c)) defaultShardCount)"

definition shard_count :: "int \<Rightarrow> int \<Rightarrow> int option" where
  "shard_count maxEntries shardCap =
     while_option (\<lambda>c. c < go_div maxEntries defaultShardCapacity \<and> c < shardCap) (\<lambda>c. wrap64 (2 * c))
       (if maxEntries < defaultShardCount then 1 else defaultShardCount)"

definition shard_capacity :: "int \<Rightarrow> int \<Rightarrow> int" where
  "shard_capacity maxEntries count =
     (let c = go_div (wrap64 (wrap64 (maxEntries + count) - 1)) count in if c < 1 then 1 else c)"

definition NewLRUOptimizedHandler :: "(int \<Rightarrow> int \<Rightarrow> int) \<Rightarrow> int \<Rightarrow> int \<Rightarrow> optHandler option" where
  "NewLRUOptimizedHandler ifLeZero gomaxprocs maxEntries0 = do {
     let maxEntries = ifLeZero maxEntries0 (defaultShardCapacity * defaultShardCount);
     shardCap \<leftarrow> shard_cap_limit gomaxprocs;
     shardCount \<leftarrow> shard_count maxEntries shardCap;
     Some \<lparr>opt_shards = replicate (nat shardCount) (newLRUShard (shard_capacity maxEntries shardCount)),
           opt_shardCount = of_int shardCount, opt_shardMask = of_int (shardCount - 1),
           opt_maxEntries = maxEntries, opt_closed = False, opt_loadGroup = Map.empty\<rparr>
   }"

section \<open>Shards\<close>

definition opt_index :: "go_string \<Rightarrow> optHandler \<Rightarrow> nat" where
  "opt_index k h = unat (fnv32a k AND opt_shardMask h)"

definition getShard :: "go_string \<Rightarrow> optHandler \<Rightarrow> lruShard option" where
  "getShard k h = (if opt_index k h < length (opt_shards h) then Some (opt_shards h ! opt_index k h) else None)"

definition opt_put :: "go_string \<Rightarrow> lruShard \<Rightarrow> optHandler \<Rightarrow> optHandler" where
  "opt_put k s h = h\<lparr>opt_shards := (opt_shards h)[opt_index k h := s]\<rparr>"

definition count_miss :: "lruShard \<Rightarrow> lruShard" where
  "count_miss s = s\<lparr>sh_misses := wrap64 (sh_misses s + 1)\<rparr>"

definition count_hit :: "lruShard \<Rightarrow> lruShard" where
  "count_hit s = s\<lparr>sh_hits := wrap64 (sh_hits s + 1)\<rparr>"

section \<open>The operations\<close>

text \<open>\<open>now1\<close> is read under the read lock, \<open>now2\<close> under the write lock of the clean-up.\<close>

definition opt_GetWithCtx :: "time \<Rightarrow> time \<Rightarrow> slice \<Rightarrow> optHandler \<Rightarrow> slice go_result \<times> optHandler" where
  "opt_GetWithCtx now1 now2 key h =
     (if key = None then (Inl ErrInvalidKey, h)
      else if opt_closed h then (Inl ErrClosed, h)
      else let sk = str key in
        (case getShard sk h of
           None \<Rightarrow> (Inl RuntimePanic, h)
         | Some shard \<Rightarrow>
             (case shard_read now1 sk shard of
                (RMiss, s) \<Rightarrow> (Inl ErrNotFound, opt_put sk (count_miss s) h)
              | (RExpired, s) \<Rightarrow>
                  (case shard_cleanup now2 sk s of
                     None \<Rightarrow> (Inl RuntimePanic, h)
                   | Some s' \<Rightarrow> (Inl ErrNotFound, opt_put sk (count_miss s') h))
              | (RHit v, s) \<Rightarrow> (Inr v, opt_put sk (count_hit s) h))))"

definition opt_GetTTLWithCtx :: "time \<Rightarrow> time \<Rightarrow> slice \<Rightarrow> optHandler \<Rightarrow> duration go_result \<times> optHandler" where
  "opt_GetTTLWithCtx now1 now2 key h =
     (if key = None then (Inl ErrInvalidKey, h)
      else if opt_closed h then (Inl ErrClosed, h)
      else (case getShard (str key) h of
              None \<Rightarrow> (Inl RuntimePanic, h)
            | Some shard \<Rightarrow> (shard_get_ttl now1 now2 (str key) shard, h)))"

definition opt_expiry_for :: "time \<Rightarrow> duration \<Rightarrow> int" where
  "opt_expiry_for now ttl =
     (if 0 < ttl then wrap64 (now + ttl) else if ttl = 0 then wrap64 (now - 1) else 0)"

definition opt_SetWithTTLAndCtx ::
  "nat \<Rightarrow> time \<Rightarrow> slice \<Rightarrow> slice \<Rightarrow> duration \<Rightarrow> optHandler \<Rightarrow> go_error option \<times> optHandler" where
  "opt_SetWithTTLAndCtx pick now key value ttl h =
     (if key = None then (Some ErrInvalidKey, h)
      else if value = None then (Some ErrInvalidValue, h)
      else if ttl < -1 then (Some ErrInvalidTTL, h)
      else if opt_closed h then (Some ErrClosed, h)
      else let sk = str key in
        (case getShard sk h of
           None \<Rightarrow> (Some RuntimePanic, h)
         | Some shard \<Rightarrow>
             (case shard_set pick sk value (opt_expiry_for now ttl) shard of
                None \<Rightarrow> (Some RuntimePanic, h)
              | Some s \<Rightarrow> (None, opt_put sk s h))))"

definition opt_SetWithCtx ::
  "nat \<Rightarrow> time \<Rightarrow> slice \<Rightarrow> slice \<Rightarrow> optHandler \<Rightarrow> go_error option \<times> optHandler" where
  "opt_SetWithCtx pick now key value h = opt_SetWithTTLAndCtx pick now key value (-1) h"

definition opt_DelWithCtx :: "slice \<Rightarrow> optHandler \<Rightarrow> go_error option \<times> optHandler" where
  "opt_DelWithCtx key h =
     (if key = None then (Some ErrInvalidKey, h)
      else if opt_closed h then (Some ErrClosed, h)
      else (case getShard (str key) h of
              None \<Rightarrow> (Some RuntimePanic, h)
            | Some shard \<Rightarrow>
                (case shard_del (str key) shard of
                   None \<Rightarrow> (Some RuntimePanic, h)
                 | Some s \<Rightarrow> (None, opt_put (str key) s h))))"

text \<open>\<open>Clear\<close> and \<open>Close\<close> empty the shards one after the other; \<open>order\<close> is the order of \<open>range\<close>.\<close>

fun clear_shards :: "(lruShard \<Rightarrow> go_string list) \<Rightarrow> lruShard list \<Rightarrow> lruShard list option" where
  "clear_shards order [] = Some []"
| "clear_shards order (s # ss) = do {
     s' \<leftarrow> shard_clear (order s) s;
     ss' \<leftarrow> clear_shards order ss;
     Some (s' # ss')
   }"

definition opt_Close :: "(lruShard \<Rightarrow> go_string list) \<Rightarrow> optHandler \<Rightarrow> go_error option \<times> optHandler" where
  "opt_Close order h =
     (if opt_closed h then (None, h)
      else let h' = h\<lparr>opt_closed := True\<rparr> in
        (case clear_shards order (opt_shards h') of
           None \<Rightarrow> (Some RuntimePanic, h')
         | Some ss \<Rightarrow> (None, h'\<lparr>opt_shards := ss\<rparr>)))"

definition opt_Clear :: "(lruShard \<Rightarrow> go_string list) \<Rightarrow> optHandler \<Rightarrow> go_error option \<times> optHandler" where
  "opt_Clear order h =
     (if opt_closed h then (None, h)
      else (case clear_shards order (opt_shards h) of
              None \<Rightarrow> (Some RuntimePanic, h)
            | Some ss \<Rightarrow> (None, h\<lparr>opt_shards := ss\<rparr>)))"

section \<open>Batches\<close>

text \<open>
  The keys are grouped by shard: a batch is a shard index with the positions and keys that go to it.
  \<open>opt_group\<close> is the grouping loop, which also puts \<open>ErrInvalidKey\<close> for nil keys.
\<close>

type_synonym shardBatch = "(nat \<times> go_string) list"

fun opt_group :: "optHandler \<Rightarrow> nat \<Rightarrow> slice list \<Rightarrow> (nat \<rightharpoonup> shardBatch) \<Rightarrow> go_error option list \<Rightarrow>
    (nat \<rightharpoonup> shardBatch) \<times> go_error option list" where
  "opt_group h i [] batches errors = (batches, errors)"
| "opt_group h i (None # keys) batches errors =
     opt_group h (Suc i) keys batches (errors[i := Some ErrInvalidKey])"
| "opt_group h i (Some k # keys) batches errors =
     (let g = opt_index k h;
          old = (case batches g of None \<Rightarrow> [] | Some b \<Rightarrow> b)
      in opt_group h (Suc i) keys (batches(g \<mapsto> old @ [(i, k)])) errors)"

text \<open>What the goroutine of one batch writes into the two result slices.\<close>

fun opt_run_batch :: "time \<Rightarrow> lruShard \<Rightarrow> shardBatch \<Rightarrow> batch_result \<Rightarrow> batch_result" where
  "opt_run_batch now s [] res = res"
| "opt_run_batch now s ((idx, sk) # r) res =
     (case shard_peek now sk s of
        (v, e) \<Rightarrow> opt_run_batch now s r ((fst res)[idx := v], (snd res)[idx := e]))"

text \<open>\<open>order\<close> lists the batches as their goroutines take their locks, with the time each reads.\<close>

fun opt_run_batches ::
  "optHandler \<Rightarrow> (nat \<rightharpoonup> shardBatch) \<Rightarrow> (nat \<times> time) list \<Rightarrow> batch_result \<Rightarrow> batch_result" where
  "opt_run_batches h batches [] res = res"
| "opt_run_batches h batches ((g, now) # gs) res =
     opt_run_batches h batches gs
       (case batches g of
          None \<Rightarrow> res
        | Some b \<Rightarrow> opt_run_batch now (opt_shards h ! g) b res)"

definition opt_BatchGetWithCtx ::
  "(nat \<times> time) list \<Rightarrow> slice list \<Rightarrow> optHandler \<Rightarrow> batch_result" where
  "opt_BatchGetWithCtx order keys h =
     (if keys = [] then ([], [])
      else if opt_closed h
      then (replicate (length keys) None, replicate (length keys) (Some ErrClosed))
      else (case opt_group h 0 keys Map.empty (replicate (length keys) None) of
              (batches, errors) \<Rightarrow> opt_run_batches h batches order (replicate (length keys) None, errors)))"

section \<open>GetOrCompute\<close>

definition copy_result :: "slice go_result \<Rightarrow> slice go_result" where
  "copy_result r = (case r of Inl e \<Rightarrow> Inl e | Inr v \<Rightarrow> Inr (Some (str v)))"

text \<open>The part after the call was registered: what the leader returns, what it leaves in the call,
  and the new state.\<close>

definition opt_lead ::
  "nat \<Rightarrow> env \<Rightarrow> slice \<Rightarrow> duration \<Rightarrow> 'w loader \<Rightarrow> optHandler \<Rightarrow> 'w \<Rightarrow>
   slice go_result \<times> slice go_result \<times> optHandler \<times> 'w" where
  "opt_lead pick en key ttl loader h w =
     (case opt_GetWithCtx (clk en 2) (clk en 3) key h of
        (Inr v, h) \<Rightarrow> (copy_result (Inr v), Inr v, h, w)
      | (Inl _, h) \<Rightarrow>
          (case obs en 1 of
             Some err \<Rightarrow> (Inl err, Inl err, h, w)
           | None \<Rightarrow>
               (case loader w of
                  (Inl err, w') \<Rightarrow> (Inl err, if err = RuntimePanic then Inr None else Inl err, h, w')
                | (Inr v, w') \<Rightarrow>
                    let h' = (if ttl \<le> 0 then snd (opt_SetWithCtx pick (clk en 4) key v h)
                              else snd (opt_SetWithTTLAndCtx pick (clk en 4) key v ttl h))
                    in (copy_result (Inr v), Inr v, h', w'))))"

definition opt_GetOrComputeWithCtx ::
  "nat \<Rightarrow> env \<Rightarrow> slice \<Rightarrow> duration \<Rightarrow> 'w loader \<Rightarrow> optHandler \<Rightarrow> 'w \<Rightarrow>
   slice go_result \<times> optHandler \<times> 'w" where
  "opt_GetOrComputeWithCtx pick en key ttl loader h w =
     (if slice_len key = 0 then (Inl ErrInvalidKey, h, w)
      else (case opt_GetWithCtx (clk en 0) (clk en 1) key h of
        (Inr v, h) \<Rightarrow> (Inr v, h, w)
      | (Inl _, h) \<Rightarrow>
          (case obs en 0 of
             Some err \<Rightarrow> (Inl err, h, w)
           | None \<Rightarrow>
               (case opt_loadGroup h (str key) of
                  Some call \<Rightarrow> (copy_result call, h, w)
                | None \<Rightarrow>
                    (case opt_lead pick en key ttl loader h w of
                       (r, call, h, w') \<Rightarrow>
                         (r, h\<lparr>opt_loadGroup := (opt_loadGroup h)(str key \<mapsto> call)\<rparr>, w'))))))"

definition opt_load_timer :: "go_string \<Rightarrow> optHandler \<Rightarrow> optHandler" where
  "opt_load_timer k h = h\<lparr>opt_loadGroup := (opt_loadGroup h)(k := None)\<rparr>"

section \<open>Statistics\<close>

record opt_stats =
  os_entries :: int
  os_max_entries :: int
  os_shard_count :: "32 word"
  os_hits :: int
  os_misses :: int
  os_hit_rate :: "int \<times> int"

text \<open>\<open>None\<close> is the answer of a closed handler; the rate is the fraction hits / total, 0 / 1 for none.\<close>

definition opt_Stats :: "optHandler \<Rightarrow> opt_stats option" where
  "opt_Stats h =
     (if opt_closed h then None
      else let entries = foldl (\<lambda>a s. a + sh_size s) 0 (opt_shards h);
               hits = foldl (\<lambda>a s. wrap64 (a + sh_hits s)) 0 (opt_shards h);
               misses = foldl (\<lambda>a s. wrap64 (a + sh_misses s)) 0 (opt_shards h)
           in Some \<lparr>os_entries = entries, os_max_entries = opt_maxEntries h,
                    os_shard_count = opt_shardCount h, os_hits = hits, os_misses = misses,
                    os_hit_rate = (if 0 < wrap64 (hits + misses) then (hits, wrap64 (hits + misses)) else (0, 1))\<rparr>)"

text \<open>The handler as the interface sees it, with one clock reading per lookup; \<open>range_order\<close> walks
  a map in the order its entries were allocated.\<close>

definition range_order :: "lruShard \<Rightarrow> go_string list" where
  "range_order s = map (\<lambda>e. fe_key (sh_ent s e))
     (filter (\<lambda>e. sh_cache s (fe_key (sh_ent s e)) = Some e) [0..<sh_fresh s])"

definition opt_handler :: "nat \<Rightarrow> (optHandler, 'w) handler" where
  "opt_handler pick = \<lparr>SetWithCtx = opt_SetWithCtx pick, SetWithTTLAndCtx = opt_SetWithTTLAndCtx pick,
     GetWithCtx = (\<lambda>now. opt_GetWithCtx now now), GetTTLWithCtx = (\<lambda>now. opt_GetTTLWithCtx now now),
     DelWithCtx = opt_DelWithCtx,
     BatchGetWithCtx = (\<lambda>clock keys h.
       (opt_BatchGetWithCtx (map (\<lambda>g. (g, clock g)) [0..<length (opt_shards h)]) keys h, h)),
     GetOrComputeWithCtx = opt_GetOrComputeWithCtx pick, CloseH = opt_Close range_order\<rparr>"

text \<open>The methods without a context.\<close>

definition opt_Get :: "time \<Rightarrow> time \<Rightarrow> slice \<Rightarrow> optHandler \<Rightarrow> slice go_result \<times> optHandler" where
  "opt_Get now1 now2 key h = opt_GetWithCtx now1 now2 key h"

definition opt_GetTTL :: "time \<Rightarrow> time \<Rightarrow> slice \<Rightarrow> optHandler \<Rightarrow> duration go_result \<times> optHandler" where
  "opt_GetTTL now1 now2 key h = opt_GetTTLWithCtx now1 now2 key h"

definition opt_Set :: "nat \<Rightarrow> time \<Rightarrow> slice \<Rightarrow> slice \<Rightarrow> optHandler \<Rightarrow> go_error option \<times> optHandler" where
  "opt_Set pick now key value h = opt_SetWithCtx pick now key value h"

definition opt_SetWithTTL ::
  "nat \<Rightarrow> time \<Rightarrow> slice \<Rightarrow> slice \<Rightarrow> duration \<Rightarrow> optHandler \<Rightarrow> go_error option \<times> optHandler" where
  "opt_SetWithTTL pick now key value ttl h = opt_SetWithTTLAndCtx pick now key value ttl h"

definition opt_Del :: "slice \<Rightarrow> optHandler \<Rightarrow> go_error option \<times> optHandler" where
  "opt_Del key h = opt_DelWithCtx key h"

definition opt_BatchGet :: "(nat \<times> time) list \<Rightarrow> slice list \<Rightarrow> optHandler \<Rightarrow> batch_result" where
  "opt_BatchGet order keys h = opt_BatchGetWithCtx order keys h"

definition opt_GetOrCompute ::
  "nat \<Rightarrow> (nat \<Rightarrow> time) \<Rightarrow> slice \<Rightarrow> duration \<Rightarrow> 'w loader \<Rightarrow> optHandler \<Rightarrow> 'w \<Rightarrow>
   slice go_result \<times> optHandler \<times> 'w" where
  "opt_GetOrCompute pick rd key ttl loader h w =
     opt_GetOrComputeWithCtx pick \<lparr>clk = rd, obs = (\<lambda>_. None)\<rparr> key ttl loader h w"

end
