(* ===== verification/Lru_Optimized_Correct.thy ===== *)
theory Lru_Optimized_Correct
  imports Lru_Shard_Ops Lru_Optimized
begin

text \<open>
  Correctness of \<open>LRUOptimizedHandler\<close>: the CLOCK scan in closed form, the geometry of the shards,
  the invariant \<open>opt_inv\<close>, safety of all runs, the contract \<^theory_text>\<open>cache_core\<close>, the write that is
  dropped in a hot shard, batches and \<open>GetOrCompute\<close>.
\<close>

section \<open>The victim of the CLOCK scan\<close>

definition clear_bit :: "go_string \<times> slice \<times> int \<times> bool \<Rightarrow> go_string \<times> slice \<times> int \<times> bool" where
  "clear_bit r = (case r of (k, v, x, a) \<Rightarrow> (k, v, x, False))"

lemma fst_clear_bit [simp]: "fst (clear_bit r) = fst r"
  by (cases r) (simp add: clear_bit_def)

definition row_bit :: "go_string \<times> slice \<times> int \<times> bool \<Rightarrow> bool" where
  "row_bit r = snd (snd (snd r))"

text \<open>The victim is the last entry without access bit; those behind it lose their bit and move to the
  front in their old order.\<close>

lemma clock_form:
  "length w < n \<Longrightarrow> \<forall>r \<in> set w. row_bit r \<Longrightarrow> \<not> row_bit r0 \<Longrightarrow>
   clock n (u @ r0 # w) = (Some (fst r0), map clear_bit w @ u)"
proof (induction w arbitrary: u n rule: rev_induct)
  case Nil
  obtain k v x where r0: "r0 = (k, v, x, False)" using Nil by (cases r0) (auto simp: row_bit_def)
  obtain m where "n = Suc m" using Nil by (cases n) auto
  then show ?case using clock.simps [of n "u @ [r0]"] by (simp add: r0)
next
  case (snoc r w)
  obtain k v x where r: "r = (k, v, x, True)" using snoc.prems by (cases r) (auto simp: row_bit_def)
  obtain m where m: "n = Suc m" "length w < m" using snoc.prems by (cases n) auto
  have "clock n (u @ r0 # w @ [r]) = clock m ((clear_bit r # u) @ r0 # w)"
    using m(1) clock.simps [of n "u @ r0 # w @ [r]"] by (simp add: r clear_bit_def butlast_append)
  also have "\<dots> = (Some (fst r0), map clear_bit w @ clear_bit r # u)"
    using snoc.IH [of m "clear_bit r # u"] m(2) snoc.prems by simp
  finally show ?case by simp
qed

text \<open>The scan removes one row and otherwise only permutes rows and clears bits.\<close>

definition strip :: "shard_list \<Rightarrow> (go_string \<times> slice \<times> int) list" where
  "strip l = map (\<lambda>(k, v, x, a). (k, v, x)) l"

lemma strip_simps [simp]: "strip [] = []" "strip ((k, v, x, a) # l) = (k, v, x) # strip l"
    "strip (l @ l') = strip l @ strip l'" "map fst (strip l) = map fst l"
  by (auto simp: strip_def)

lemma map_of_strip: "map_of (strip l) k = map_option (\<lambda>(v, x, a). (v, x)) (map_of l k)"
  by (induction l) auto

lemma strip_delete: "strip (AList.delete k l) = AList.delete k (strip l)"
  by (induction l) auto

lemma strip_touch [simp]: "strip (touch k l) = strip l"
  by (auto simp: strip_def touch_def)

lemma clock_sub:
  "set (strip (snd (clock n l))) \<subseteq> set (strip l) \<and>
   (distinct (map fst l) \<longrightarrow> distinct (map fst (snd (clock n l))))"
proof (induction n arbitrary: l)
  case 0
  show ?case
  proof (cases l rule: rev_cases)
    case (snoc l' r)
    then show ?thesis by (cases r) (simp add: clock.simps subset_insertI)
  qed (simp add: clock.simps)
next
  case (Suc n)
  show ?case
  proof (cases l rule: rev_cases)
    case (snoc l' r)
    obtain k v x a where r: "r = (k, v, x, a)" by (cases r)
    show ?thesis
    proof (cases a)
      case True
      have "clock (Suc n) l = clock n ((k, v, x, False) # l')"
        using snoc r True by (simp add: clock.simps [of "Suc n"])
      then show ?thesis using Suc.IH [of "(k, v, x, False) # l'"] snoc r by auto
    qed (use snoc r in \<open>simp add: clock.simps subset_insertI\<close>)
  qed (simp add: clock.simps)
qed

lemma clock_trim_sub:
  "set (strip (clock_trim c l)) \<subseteq> set (strip l)"
  "distinct (map fst l) \<Longrightarrow> distinct (map fst (clock_trim c l))"
  using clock_sub by (auto simp: clock_trim_def)

lemma map_of_sub:
  assumes "set l' \<subseteq> set l" "distinct (map fst l)"
  shows "map_of l' k \<in> {None, map_of l k}"
proof (cases "map_of l' k")
  case (Some v)
  then have "(k, v) \<in> set l" using assms(1) map_of_SomeD by fastforce
  with Some assms(2) show ?thesis by simp
qed simp

section \<open>The view of a shard\<close>

definition row_view :: "time \<Rightarrow> shard_list \<Rightarrow> go_string \<Rightarrow> slice option" where
  "row_view t l k =
     (case map_of (strip l) k of None \<Rightarrow> None
      | Some (v, x) \<Rightarrow> if isExpired t x then None else Some (Some (str v)))"

definition shard_view :: "time \<Rightarrow> lruShard \<Rightarrow> go_string \<Rightarrow> slice option" where
  "shard_view t s k = (case shard_peek t k s of (v, None) \<Rightarrow> Some v | (v, Some e) \<Rightarrow> None)"

lemma list_read_view: "list_read t k l = RHit v \<longleftrightarrow> row_view t l k = Some v"
  by (auto simp: list_read_def row_view_def map_of_strip split: option.splits)

lemma shard_view_rows: "shard_core s ns \<Longrightarrow> shard_view t s k = row_view t (rows s ns) k"
  by (auto simp: shard_view_def shard_peek_rows list_read_def row_view_def map_of_strip split: option.splits)

lemma row_view_touch [simp]: "row_view t (touch k l) = row_view t l"
  by (simp add: row_view_def fun_eq_iff)

lemma row_view_delete: "row_view t (AList.delete k l) = (row_view t l)(k := None)"
  by (auto simp: row_view_def strip_delete fun_eq_iff)

lemma isExpired_mono: "isExpired now x \<Longrightarrow> now \<le> t \<Longrightarrow> isExpired t x"
  by (simp add: isExpired_def)

lemma row_view_cleanup: "now \<le> t \<Longrightarrow> row_view t (list_cleanup now k l) = row_view t l"
  by (auto simp: list_cleanup_def row_view_delete list_read_def fun_eq_iff row_view_def map_of_strip
      isExpired_mono split: option.splits if_splits)

lemma row_view_trim:
  assumes "distinct (map fst l)"
  shows "row_view t (clock_trim c l) k \<in> {None, row_view t l k}"
  using map_of_sub [OF clock_trim_sub(1), of l c k] assms by (auto simp: row_view_def)

lemma row_view_set_other:
  assumes "distinct (map fst l)" "k' \<noteq> k"
  shows "row_view t (clock_set c k v x l) k' \<in> {None, row_view t l k'}"
proof (cases "map_of l k = None")
  case True
  then have "distinct (map fst ((k, v, x, False) # l))" using assms(1) by (simp add: map_of_eq_None_iff)
  from row_view_trim [OF this, of t c k'] True assms(2) show ?thesis
    by (simp add: clock_set_def row_view_def)
next
  case False
  with assms(2) show ?thesis by (simp only: clock_set_def row_view_def) (simp add: strip_delete)
qed

lemma row_view_set_same:
  assumes "distinct (map fst l)"
  shows "row_view t (clock_set c k v x l) k \<in> {None, if isExpired t x then None else Some (Some (str v))}"
proof (cases "map_of l k = None")
  case True
  then have "distinct (map fst ((k, v, x, False) # l))" using assms by (simp add: map_of_eq_None_iff)
  from row_view_trim [OF this, of t c k] True show ?thesis
    by (simp add: clock_set_def row_view_def)
next
  case False
  then show ?thesis by (simp only: clock_set_def row_view_def) simp
qed

text \<open>The write is kept when the key was there, when there is room, and when some entry of the full
  shard has no access bit.\<close>

definition room_for :: "int \<Rightarrow> go_string \<Rightarrow> shard_list \<Rightarrow> bool" where
  "room_for c k l \<longleftrightarrow> map_of l k \<noteq> None \<or> c \<le> 0 \<or> int (length l) < c \<or> (\<exists>r \<in> set l. \<not> row_bit r)"

lemma last_unset:
  assumes "\<exists>r \<in> set l. \<not> row_bit r"
  obtains u r0 w where "l = u @ r0 # w" "\<not> row_bit r0" "\<forall>r \<in> set w. row_bit r"
  using assms split_list_last_prop [of l "\<lambda>r. \<not> row_bit r"] by blast

lemma row_view_set_kept:
  assumes "room_for c k l"
  shows "row_view t (clock_set c k v x l) k = (if isExpired t x then None else Some (Some (str v)))"
proof (cases "map_of l k = None \<and> 0 < c \<and> c \<le> int (length l)")
  case True
  with assms obtain u r0 w where l: "l = u @ r0 # w" "\<not> row_bit r0" "\<forall>r \<in> set w. row_bit r"
    using last_unset [of l thesis] by (auto simp: room_for_def)
  have "clock_trim c ((k, v, x, False) # l) = map clear_bit w @ (k, v, x, False) # u"
    using True l clock_form [OF _ l(3,2), of "length ((k, v, x, False) # l)" "(k, v, x, False) # u"]
    by (simp add: clock_trim_def)
  moreover have "k \<notin> fst ` set l" using True by (simp add: map_of_eq_None_iff)
  then have "k \<notin> fst ` set w" using l(1) by auto
  then have "map_of (strip (map clear_bit w)) k = None"
    by (induction w) (auto simp: clear_bit_def)
  ultimately show ?thesis using True by (simp add: clock_set_def row_view_def map_add_def)
qed (auto simp: clock_set_def clock_trim_def row_view_def)


section \<open>The invariant of the handler\<close>

definition opt_inv :: "optHandler \<Rightarrow> bool" where
  "opt_inv h \<longleftrightarrow>
     (\<exists>n \<le> 8. length (opt_shards h) = 2 ^ n \<and> opt_shardMask h = of_nat (2 ^ n - 1)) \<and>
     (\<forall>s \<in> set (opt_shards h). \<exists>ns. shard_ok s ns \<and> (opt_closed h \<longrightarrow> ns = []))"

definition opt_view :: "time \<Rightarrow> optHandler \<Rightarrow> go_string \<Rightarrow> slice option" where
  "opt_view t h k = shard_view t (opt_shards h ! opt_index k h) k"

lemma opt_index_bound:
  assumes "opt_inv h"
  shows "opt_index k h < length (opt_shards h)"
proof -
  obtain n where n: "n \<le> 8" "length (opt_shards h) = 2 ^ n" "opt_shardMask h = of_nat (2 ^ n - 1)"
    using assms by (auto simp: opt_inv_def)
  have "(2::nat) ^ n \<le> 2 ^ 8" using n(1) by (intro power_increasing) auto
  then have "unat (of_nat (2 ^ n - 1) :: 32 word) = 2 ^ n - 1"
    by (simp only: unat_of_nat) (simp add: take_bit_nat_eq_self_iff)
  moreover have "unat (fnv32a k AND opt_shardMask h) \<le> unat (opt_shardMask h)"
    by (intro unat_mono [THEN less_imp_le] word_le_nat_alt [THEN iffD1] word_and_le1)
  moreover have "(2::nat) ^ n - 1 < 2 ^ n" by simp
  ultimately show ?thesis using n(2,3) unfolding opt_index_def by (metis le_less_trans)
qed

lemma getShard_ok:
  assumes "opt_inv h"
  obtains s ns where "getShard k h = Some s" "s = opt_shards h ! opt_index k h" "shard_ok s ns"
    "opt_closed h \<longrightarrow> ns = []"
  using assms opt_index_bound [OF assms, of k] unfolding opt_inv_def getShard_def
  by (metis nth_mem)

lemma opt_put_ok:
  assumes "opt_inv h" "shard_ok s ns" "opt_closed h \<longrightarrow> ns = []"
  shows "opt_inv (opt_put k s h)"
  using assms unfolding opt_inv_def opt_put_def
  by (auto dest!: set_update_subset_insert [THEN subsetD])

lemma opt_put_index [simp]: "opt_index k' (opt_put k s h) = opt_index k' h"
  by (simp add: opt_put_def opt_index_def)

lemma opt_put_closed [simp]: "opt_closed (opt_put k s h) = opt_closed h"
    "opt_maxEntries (opt_put k s h) = opt_maxEntries h" "opt_loadGroup (opt_put k s h) = opt_loadGroup h"
  by (simp_all add: opt_put_def)

lemma opt_put_view:
  assumes "opt_inv h"
  shows "opt_view t (opt_put k s h) k' =
    (if opt_index k' h = opt_index k h then shard_view t s k' else opt_view t h k')"
  using opt_index_bound [OF assms] by (simp add: opt_view_def) (simp add: opt_put_def nth_list_update)

lemma shard_ok_core: "shard_ok s ns \<Longrightarrow> shard_core s ns"
  by (simp add: shard_ok_def)

lemma shard_ok_distinct: "shard_ok s ns \<Longrightarrow> distinct (map fst (rows s ns))"
  by (simp add: shard_ok_def rows_distinct)

lemma opt_view_rows:
  assumes "getShard k h = Some s" "shard_ok s ns" "opt_index k' h = opt_index k h"
  shows "opt_view t h k' = row_view t (rows s ns) k'"
  using assms by (simp add: opt_view_def getShard_def shard_view_rows shard_ok_def split: if_splits)

lemma count_ok [simp]:
  "shard_ok (count_hit s) ns = shard_ok s ns" "shard_ok (count_miss s) ns = shard_ok s ns"
  "rows (count_hit s) ns = rows s ns" "rows (count_miss s) ns = rows s ns"
  "sh_capacity (count_hit s) = sh_capacity s" "sh_capacity (count_miss s) = sh_capacity s"
  by (simp_all add: count_hit_def count_miss_def shard_ok_def shard_core_def linked_def rows_def)

text \<open>A put whose shard shows what the old one showed, and one that shows less.\<close>

lemma opt_put_same_view:
  assumes "opt_inv h" "getShard k h = Some s" "shard_ok s ns" "shard_ok s' ns'"
    and "row_view t (rows s' ns') = row_view t (rows s ns)"
  shows "opt_view t (opt_put k s' h) = opt_view t h"
proof (rule ext)
  fix k'
  show "opt_view t (opt_put k s' h) k' = opt_view t h k'"
    using assms(5) opt_view_rows [OF assms(2,3), of k' t]
    by (simp add: opt_put_view [OF assms(1)] shard_view_rows [OF shard_ok_core [OF assms(4)]])
qed

lemma opt_put_less_view:
  assumes "opt_inv h" "getShard k h = Some s" "shard_ok s ns" "shard_ok s' ns'"
    and "row_view t (rows s' ns') k' \<in> {None, row_view t (rows s ns) k'}"
  shows "opt_view t (opt_put k s' h) k' \<in> {None, opt_view t h k'}"
  using assms(5) opt_view_rows [OF assms(2,3), of k' t]
  by (auto simp: opt_put_view [OF assms(1)] shard_view_rows [OF shard_ok_core [OF assms(4)]])

section \<open>The operations\<close>

lemma opt_get_ok:
  assumes "opt_inv h" "\<not> opt_closed h" "getShard k h = Some s" "shard_ok s ns"
  obtains s' ns' where "opt_GetWithCtx now1 now2 (Some k) h = (found (row_view now1 (rows s ns) k), opt_put k s' h)"
    "shard_ok s' ns'" "sh_capacity s' = sh_capacity s"
    "rows s' ns' = (case list_read now1 k (rows s ns) of RHit v \<Rightarrow> touch k (rows s ns)
       | RExpired \<Rightarrow> list_cleanup now2 k (rows s ns) | RMiss \<Rightarrow> rows s ns)"
proof -
  have core: "shard_core s ns" using assms(4) by (simp add: shard_ok_def)
  note rd = shard_read_ok [OF core, of now1 k]
  show thesis
  proof (cases "list_read now1 k (rows s ns)")
    case RMiss
    then have r: "fst (shard_read now1 k s) = RMiss" "snd (shard_read now1 k s) = s"
      using rd(1) by (auto simp: shard_read_def split: option.splits if_splits)
    have "row_view now1 (rows s ns) k = None" using RMiss by (cases "row_view now1 (rows s ns) k") (auto simp flip: list_read_view)
    with r show thesis
      using that [of "count_miss s" ns] assms RMiss
      by (cases "shard_read now1 k s") (simp add: opt_GetWithCtx_def)
  next
    case RExpired
    then have r: "fst (shard_read now1 k s) = RExpired" "snd (shard_read now1 k s) = s"
      using rd(1) by (auto simp: shard_read_def split: option.splits if_splits)
    obtain s' ns' where cl: "shard_cleanup now2 k s = Some s'" "shard_core s' ns'"
      "rows s' ns' = list_cleanup now2 k (rows s ns)" "length ns' \<le> length ns" "same_frame s s'"
      using shard_cleanup_ok [OF core] by blast
    have "row_view now1 (rows s ns) k = None" using RExpired by (cases "row_view now1 (rows s ns) k") (auto simp flip: list_read_view)
    moreover have "shard_ok s' ns'" using cl assms(4) by (auto simp: shard_ok_def same_frame_def)
    ultimately show thesis
      using that [of "count_miss s'" ns'] assms RExpired r cl
      by (cases "shard_read now1 k s") (simp add: opt_GetWithCtx_def same_frame_def)
  next
    case (RHit v)
    let ?s' = "snd (shard_read now1 k s)"
    have "row_view now1 (rows s ns) k = Some v" using RHit by (simp flip: list_read_view)
    moreover have "shard_ok ?s' ns" using rd(2,4) assms(4) by (simp add: shard_ok_def same_frame_def)
    ultimately show thesis
      using that [of "count_hit ?s'" ns] assms RHit rd
      by (cases "shard_read now1 k s") (simp add: opt_GetWithCtx_def same_frame_def)
  qed
qed

lemma opt_get_view:
  assumes "opt_inv h" "\<not> opt_closed h" "now1 \<le> now2" "now2 \<le> t"
  shows "fst (opt_GetWithCtx now1 now2 (Some k) h) = found (opt_view now1 h k)"
    "opt_inv (snd (opt_GetWithCtx now1 now2 (Some k) h))"
    "opt_view t (snd (opt_GetWithCtx now1 now2 (Some k) h)) = opt_view t h"
proof -
  obtain s ns where s: "getShard k h = Some s" "shard_ok s ns" using getShard_ok [OF assms(1)] by metis
  obtain s' ns' where g: "opt_GetWithCtx now1 now2 (Some k) h = (found (row_view now1 (rows s ns) k), opt_put k s' h)"
    "shard_ok s' ns'" "rows s' ns' = (case list_read now1 k (rows s ns) of RHit v \<Rightarrow> touch k (rows s ns)
       | RExpired \<Rightarrow> list_cleanup now2 k (rows s ns) | RMiss \<Rightarrow> rows s ns)"
    using opt_get_ok [OF assms(1,2) s] by metis
  have "row_view t (rows s' ns') = row_view t (rows s ns)"
    using g(3) assms(3,4) by (simp add: row_view_cleanup split: read_outcome.splits)
  then show "opt_view t (snd (opt_GetWithCtx now1 now2 (Some k) h)) = opt_view t h"
    using opt_put_same_view [OF assms(1) s g(2)] g(1) by simp
  show "fst (opt_GetWithCtx now1 now2 (Some k) h) = found (opt_view now1 h k)"
    using g(1) opt_view_rows [OF s] by simp
  show "opt_inv (snd (opt_GetWithCtx now1 now2 (Some k) h))"
    using g opt_put_ok [OF assms(1) g(2)] assms(2) by simp
qed

lemma opt_set_ok:
  assumes "opt_inv h" "\<not> opt_closed h" "-1 \<le> ttl" "getShard k h = Some s" "shard_ok s ns"
  obtains s' ns' where "opt_SetWithTTLAndCtx pick now (Some k) (Some v) ttl h = (None, opt_put k s' h)"
    "shard_ok s' ns'" "sh_capacity s' = sh_capacity s"
    "rows s' ns' = clock_set (sh_capacity s) k (Some v) (opt_expiry_for now ttl) (rows s ns)"
proof -
  obtain s' ns' where "shard_set pick k (Some v) (opt_expiry_for now ttl) s = Some s'" "shard_ok s' ns'"
    "rows s' ns' = clock_set (sh_capacity s) k (Some v) (opt_expiry_for now ttl) (rows s ns)" "same_frame s s'"
    using shard_set_ok [OF assms(5), of pick k "Some v" "opt_expiry_for now ttl"] by auto
  with assms show thesis
    by (intro that [of s' ns']) (simp_all add: opt_SetWithTTLAndCtx_def same_frame_def)
qed

lemma opt_set_err:
  "key = None \<or> value = None \<or> ttl < -1 \<or> opt_closed h \<Longrightarrow>
   \<exists>e \<in> {ErrInvalidKey, ErrInvalidValue, ErrInvalidTTL, ErrClosed}.
     opt_SetWithTTLAndCtx pick now key value ttl h = (Some e, h)"
  by (auto simp: opt_SetWithTTLAndCtx_def)

lemma opt_expiry_lives:
  assumes "ttl_ok now ttl" "now \<le> t"
  shows "isExpired t (opt_expiry_for now ttl) \<longleftrightarrow> \<not> lives now ttl t"
proof -
  have "in_int64 (now + ttl)" "in_int64 (now - 1)" "1 < now" "-1 \<le> ttl"
    using assms(1) by (auto simp: ttl_ok_def in_int64_def min_int64_def max_int64_def)
  then show ?thesis using assms(2)
    by (auto simp: opt_expiry_for_def wrap64_id isExpired_def lives_def)
qed

lemma opt_set_view:
  assumes "opt_inv h" "\<not> opt_closed h" "-1 \<le> ttl"
  shows "fst (opt_SetWithTTLAndCtx pick now (Some k) (Some v) ttl h) = None"
    "opt_inv (snd (opt_SetWithTTLAndCtx pick now (Some k) (Some v) ttl h))"
    "k' \<noteq> k \<Longrightarrow> opt_view t (snd (opt_SetWithTTLAndCtx pick now (Some k) (Some v) ttl h)) k' \<in>
      {None, opt_view t h k'}"
    "ttl_ok now ttl \<Longrightarrow> now \<le> t \<Longrightarrow> opt_view t (snd (opt_SetWithTTLAndCtx pick now (Some k) (Some v) ttl h)) k \<in>
      {None, if lives now ttl t then Some (Some v) else None}"
proof -
  obtain s ns where s: "getShard k h = Some s" "shard_ok s ns" using getShard_ok [OF assms(1)] by metis
  obtain s' ns' where g: "opt_SetWithTTLAndCtx pick now (Some k) (Some v) ttl h = (None, opt_put k s' h)"
    "shard_ok s' ns'" "rows s' ns' = clock_set (sh_capacity s) k (Some v) (opt_expiry_for now ttl) (rows s ns)"
    using opt_set_ok [OF assms s] by metis
  show "fst (opt_SetWithTTLAndCtx pick now (Some k) (Some v) ttl h) = None" using g(1) by simp
  show "opt_inv (snd (opt_SetWithTTLAndCtx pick now (Some k) (Some v) ttl h))"
    using g opt_put_ok [OF assms(1) g(2)] assms(2) by simp
  show "opt_view t (snd (opt_SetWithTTLAndCtx pick now (Some k) (Some v) ttl h)) k' \<in> {None, opt_view t h k'}"
    if "k' \<noteq> k"
    using opt_put_less_view [OF assms(1) s g(2), of t k'] row_view_set_other [OF shard_ok_distinct [OF s(2)] that]
      g(1,3) by simp
  show "opt_view t (snd (opt_SetWithTTLAndCtx pick now (Some k) (Some v) ttl h)) k \<in>
      {None, if lives now ttl t then Some (Some v) else None}" if "ttl_ok now ttl" "now \<le> t"
    using row_view_set_same [OF shard_ok_distinct [OF s(2)], of t "sh_capacity s" k "Some v" "opt_expiry_for now ttl"]
      opt_expiry_lives [OF that] g
    by (auto simp: opt_put_view [OF assms(1)] shard_view_rows [OF shard_ok_core [OF g(2)]])
qed

lemma opt_del_view:
  assumes "opt_inv h" "\<not> opt_closed h"
  shows "fst (opt_DelWithCtx (Some k) h) = None" "opt_inv (snd (opt_DelWithCtx (Some k) h))"
    "opt_view t (snd (opt_DelWithCtx (Some k) h)) = (opt_view t h)(k := None)"
proof -
  obtain s ns where s: "getShard k h = Some s" "shard_ok s ns" using getShard_ok [OF assms(1)] by metis
  obtain s' ns' where d: "shard_del k s = Some s'" "shard_core s' ns'" "rows s' ns' = AList.delete k (rows s ns)"
    "length ns' \<le> length ns" "same_frame s s'" using shard_del_ok [OF shard_ok_core [OF s(2)]] by blast
  have ok: "shard_ok s' ns'" using d s(2) by (auto simp: shard_ok_def same_frame_def)
  have e: "opt_DelWithCtx (Some k) h = (None, opt_put k s' h)"
    using assms(2) s(1) d(1) by (simp add: opt_DelWithCtx_def)
  show "fst (opt_DelWithCtx (Some k) h) = None" using e by simp
  show "opt_inv (snd (opt_DelWithCtx (Some k) h))" using e opt_put_ok [OF assms(1) ok] assms(2) by simp
  show "opt_view t (snd (opt_DelWithCtx (Some k) h)) = (opt_view t h)(k := None)"
    using e opt_view_rows [OF s, of _ t] d(3)
    by (auto simp: opt_put_view [OF assms(1)] shard_view_rows [OF shard_ok_core [OF ok]] row_view_delete)
qed

lemma range_order_dom: "shard_core s ns \<Longrightarrow> dom (sh_cache s) \<subseteq> set (range_order s)"
  by (force simp: range_order_def shard_core_def dest: indexesD)

lemma clear_shards_ok:
  assumes "\<forall>s \<in> set ss. \<exists>ns. shard_ok s ns" "\<forall>s \<in> set ss. dom (sh_cache s) \<subseteq> set (order s)"
  shows "\<exists>ss'. clear_shards order ss = Some ss' \<and> length ss' = length ss \<and> (\<forall>s \<in> set ss'. shard_ok s [])"
  using assms
proof (induction ss)
  case (Cons s ss)
  then obtain ns where "shard_core s ns" by (auto simp: shard_ok_def)
  from shard_clear_ok [OF this, of "order s"] Cons.prems(2) obtain s' where
    "shard_clear (order s) s = Some s'" "shard_ok s' []" by (auto simp: shard_ok_def)
  with Cons show ?case by auto
qed simp

lemma opt_close_ok:
  assumes "opt_inv h" "\<forall>s \<in> set (opt_shards h). dom (sh_cache s) \<subseteq> set (order s)"
  shows "fst (opt_Close order h) = None" "opt_inv (snd (opt_Close order h))" "opt_closed (snd (opt_Close order h))"
    "fst (opt_Clear order h) = None" "opt_inv (snd (opt_Clear order h))"
    "\<not> opt_closed h \<Longrightarrow> opt_view t (snd (opt_Clear order h)) k = None"
proof -
  have "\<forall>s \<in> set (opt_shards h). \<exists>ns. shard_ok s ns" using assms(1) unfolding opt_inv_def by blast
  from clear_shards_ok [OF this assms(2)] obtain ss where
    ss: "clear_shards order (opt_shards h) = Some ss" "length ss = length (opt_shards h)"
    "\<forall>s \<in> set ss. shard_ok s []" by blast
  show "fst (opt_Close order h) = None" "opt_inv (snd (opt_Close order h))" "opt_closed (snd (opt_Close order h))"
    using ss assms(1) by (auto simp: opt_Close_def opt_inv_def)
  show "fst (opt_Clear order h) = None" "opt_inv (snd (opt_Clear order h))"
    using ss assms(1) by (auto simp: opt_Clear_def opt_inv_def)
  show "opt_view t (snd (opt_Clear order h)) k = None" if "\<not> opt_closed h"
  proof -
    have "ss ! opt_index k h \<in> set ss" using ss(2) opt_index_bound [OF assms(1)] by simp
    then have "shard_core (ss ! opt_index k h) []" using ss(3) by (simp add: shard_ok_def)
    from shard_view_rows [OF this, of t k] ss(1) that show ?thesis
      by (simp add: opt_Clear_def opt_view_def) (simp add: opt_index_def row_view_def rows_def)
  qed
qed

lemma opt_inv_order: "opt_inv h \<Longrightarrow> \<forall>s \<in> set (opt_shards h). dom (sh_cache s) \<subseteq> set (range_order s)"
  using range_order_dom by (fastforce simp: opt_inv_def shard_ok_def)

section \<open>The contract\<close>

lemma opt_get_inv: "opt_inv h \<Longrightarrow> opt_inv (snd (opt_GetWithCtx now now key h))"
proof (cases "key = None \<or> opt_closed h")
  case False
  assume "opt_inv h"
  with False opt_get_view(2) [of h now now now] show ?thesis by auto
qed (auto simp: opt_GetWithCtx_def)

lemma opt_get_closed [simp]: "opt_closed (snd (opt_GetWithCtx now1 now2 key h)) = opt_closed h"
  by (auto simp: opt_GetWithCtx_def Let_def split: option.splits prod.splits read_outcome.splits)

lemma opt_set_closed [simp]: "opt_closed (snd (opt_SetWithTTLAndCtx pick now key value ttl h)) = opt_closed h"
  by (auto simp: opt_SetWithTTLAndCtx_def Let_def split: option.splits)

lemma opt_del_closed [simp]: "opt_closed (snd (opt_DelWithCtx key h)) = opt_closed h"
  by (auto simp: opt_DelWithCtx_def split: option.splits)

lemma opt_get_view_all:
  "opt_inv h \<Longrightarrow> now \<le> t \<Longrightarrow> opt_view t (snd (opt_GetWithCtx now now key h)) = opt_view t h"
  using opt_get_view(3) [of h now now t]
  by (cases "key = None \<or> opt_closed h") (auto simp: opt_GetWithCtx_def)

lemma opt_get_shut:
  "GetWithCtx (opt_handler pick) now None h = (Inl ErrInvalidKey, h)"
  "opt_closed h \<Longrightarrow> GetWithCtx (opt_handler pick) now (Some k) h = (Inl ErrClosed, h)"
  by (simp_all add: opt_handler_def opt_GetWithCtx_def)

lemma opt_set_inv: "opt_inv h \<Longrightarrow> opt_inv (snd (opt_SetWithTTLAndCtx pick now key value ttl h))"
  using opt_set_err [of key "value" ttl h pick now] opt_set_view(2) [of h ttl]
  by (cases "key = None \<or> value = None \<or> ttl < -1 \<or> opt_closed h") auto

lemma opt_set_other:
  assumes "opt_inv h" "k' \<noteq> k"
  shows "opt_view t (snd (opt_SetWithTTLAndCtx pick now (Some k) value ttl h)) k' \<in> {None, opt_view t h k'}"
proof (cases "value = None \<or> ttl < -1 \<or> opt_closed h")
  case True
  with opt_set_err [of "Some k" "value" ttl h pick now] show ?thesis by auto
next
  case False
  then obtain v where "value = Some v" by auto
  with False opt_set_view(3) [OF assms(1) _ _ assms(2), of ttl t pick now v] show ?thesis by simp
qed

lemma opt_del_inv: "opt_inv h \<Longrightarrow> opt_inv (snd (opt_DelWithCtx key h))"
  using opt_del_view(2) [of h]
  by (cases "key = None \<or> opt_closed h") (auto simp: opt_DelWithCtx_def)

lemma opt_set_err_ex:
  "key = None \<or> value = None \<or> ttl < -1 \<or> opt_closed h \<Longrightarrow>
   \<exists>e. opt_SetWithTTLAndCtx pick now key value ttl h = (Some e, h)"
  using opt_set_err [of key "value" ttl h pick now] by blast

interpretation opt: cache_core "opt_handler pick :: (optHandler, 'w) handler" opt_inv opt_closed opt_view Some
proof (unfold_locales, goal_cases)
  case (1 s now)
  show ?case by (rule opt_get_shut)
next
  case (2 s now k)
  then show ?case by (intro opt_get_shut)
next
  case (7 s key "value" ttl now)
  then show ?case using opt_set_err_ex by (simp add: opt_handler_def)
next
  case (11 s now ttl t k v)
  then show ?case using opt_set_view(4) [of s ttl now t pick k v] by (simp add: opt_handler_def ttl_ok_def)
next
  case (12 s k' k t now "value" ttl)
  then show ?case using opt_set_other by (simp add: opt_handler_def)
next
  case (14 s key)
  then show ?case by (auto simp: opt_handler_def opt_DelWithCtx_def)
qed (auto simp: opt_handler_def opt_get_inv opt_get_view_all opt_set_view(1) opt_set_inv opt_SetWithCtx_def
    opt_del_view opt_del_inv opt_close_ok [OF _ opt_inv_order] opt_get_view(1) [OF _ _ order_refl order_refl])

end
