(* ===== verification/Lru_Optimized_Props.thy ===== *)
theory Lru_Optimized_Props
  imports Lru_Optimized_Correct
begin

text \<open>
  The properties of \<open>LRUOptimizedHandler\<close>: the geometry of its shards, safety of every run, the
  second chance of the CLOCK scan, the write that a hot shard drops, reading one's writes, batches,
  and the calls that \<open>GetOrCompute\<close> replays.
\<close>

text \<open>The handler at a trivial world, where no loader runs.\<close>

abbreviation optH :: "nat \<Rightarrow> (optHandler, unit) handler" where
  "optH pick \<equiv> opt_handler pick"

section \<open>Geometry\<close>

lemma doubling_stops:
  assumes "\<not> b 256"
  shows "\<exists>r \<in> {16, 32, 64, 128, 256}. while_option b (\<lambda>c. wrap64 (2 * c)) 16 = Some r"
proof -
  let ?W = "while_option b (\<lambda>c. wrap64 (2 * c))"
  have 5: "?W 256 = Some 256" using assms by (subst while_option_unfold) simp
  have 4: "?W 128 = (if b 128 then ?W 256 else Some 128)" by (subst while_option_unfold) (simp add: wrap64_def)
  have 3: "?W 64 = (if b 64 then ?W 128 else Some 64)" by (subst while_option_unfold) (simp add: wrap64_def)
  have 2: "?W 32 = (if b 32 then ?W 64 else Some 32)" by (subst while_option_unfold) (simp add: wrap64_def)
  have 1: "?W 16 = (if b 16 then ?W 32 else Some 16)" by (subst while_option_unfold) (simp add: wrap64_def)
  show ?thesis using 1 2 3 4 5 by simp
qed

lemma shard_cap_limit_ok: "\<exists>c \<in> {16, 32, 64, 128, 256}. shard_cap_limit g = Some c"
  unfolding shard_cap_limit_def Let_def defaultShardCount_def by (rule doubling_stops) simp

lemma shard_count_ok:
  assumes "c \<le> 256" "0 < m"
  shows "\<exists>n \<in> {1, 16, 32, 64, 128, 256}. shard_count m c = Some n \<and> (n = 1 \<longleftrightarrow> m < 16)"
proof (cases "m < 16")
  case True
  have "while_option (\<lambda>x. x < go_div m 64 \<and> x < c) (\<lambda>c. wrap64 (2 * c)) 1 = Some 1"
    using True assms(2) by (subst while_option_unfold) (simp add: go_div_nonneg)
  with True show ?thesis by (simp add: shard_count_def defaultShardCount_def defaultShardCapacity_def)
next
  case False
  have "\<not> (256 < go_div m 64 \<and> 256 < c)" using assms(1) by simp
  from doubling_stops [of "\<lambda>x. x < go_div m 64 \<and> x < c", OF this] False show ?thesis
    by (auto simp: shard_count_def defaultShardCount_def defaultShardCapacity_def)
qed

lemma shard_capacity_ok:
  assumes "0 < m" "m + 256 \<le> max_int64" "1 \<le> n" "n \<le> 256"
  shows "m \<le> n * shard_capacity m n \<and> n * shard_capacity m n < m + n"
proof -
  have "in_int64 (m + n)" "in_int64 (m + n - 1)"
    using assms by (auto simp: in_int64_def min_int64_def max_int64_def)
  then have c: "go_div (wrap64 (wrap64 (m + n) - 1)) n = (m + n - 1) div n"
    using assms by (simp add: wrap64_id go_div_nonneg)
  have "1 \<le> (m + n - 1) div n" using assms by (simp add: zdiv_mono1 [of n "m + n - 1" n, simplified])
  then have "shard_capacity m n = (m + n - 1) div n" by (simp add: shard_capacity_def c)
  moreover have "n * ((m + n - 1) div n) \<le> m + n - 1 \<and> m + n - 1 < n * ((m + n - 1) div n) + n"
    using assms mult_div_mod_eq [of n "m + n - 1"] pos_mod_bound [of n "m + n - 1"]
      pos_mod_sign [of n "m + n - 1"] by linarith
  ultimately show ?thesis by simp
qed

lemma opt_new_ok:
  assumes "ifLeZero_law f" "n + 256 \<le> max_int64"
  shows "\<exists>h. NewLRUOptimizedHandler f g n = Some h \<and> opt_inv h \<and> \<not> opt_closed h \<and>
    opt_maxEntries h = (if n \<le> 0 then 1024 else n) \<and>
    length (opt_shards h) \<in> {1, 16, 32, 64, 128, 256} \<and>
    (length (opt_shards h) = 1 \<longleftrightarrow> opt_maxEntries h < 16) \<and>
    (\<forall>k. opt_index k h < length (opt_shards h)) \<and>
    opt_maxEntries h \<le> sum_list (map sh_capacity (opt_shards h)) \<and>
    sum_list (map sh_capacity (opt_shards h)) < opt_maxEntries h + int (length (opt_shards h)) \<and>
    (\<forall>s \<in> set (opt_shards h). 0 < sh_capacity s)"
proof -
  define m where "m = (if n \<le> 0 then 1024 else n)"
  have m: "f n (defaultShardCapacity * defaultShardCount) = m" "0 < m" "m + 256 \<le> max_int64"
    using ifLeZero_lawD [OF assms(1)] assms(2)
    by (auto simp: m_def defaultShardCapacity_def defaultShardCount_def max_int64_def)
  obtain c where c: "shard_cap_limit g = Some c" "c \<le> 256" using shard_cap_limit_ok [of g] by auto
  obtain k where k: "k \<in> {1, 16, 32, 64, 128, 256}" "shard_count m c = Some k" "k = 1 \<longleftrightarrow> m < 16"
    using shard_count_ok [OF c(2) m(2)] by blast
  let ?cap = "shard_capacity m k"
  define h where e: "h = \<lparr>opt_shards = replicate (nat k) (newLRUShard ?cap), opt_shardCount = of_int k,
      opt_shardMask = of_int (k - 1), opt_maxEntries = m, opt_closed = False, opt_loadGroup = Map.empty\<rparr>"
  have h: "NewLRUOptimizedHandler f g n = Some h"
    by (simp add: NewLRUOptimizedHandler_def m(1) c(1) k(2) e)
  have cap: "m \<le> k * ?cap" "k * ?cap < m + k" using shard_capacity_ok [OF m(2,3), of k] k(1) by auto
  have "0 < ?cap" by (simp add: shard_capacity_def Let_def)
  have "\<exists>i \<le> 8. k = 2 ^ i" using k(1)
    by (auto intro: exI [of _ 0] exI [of _ 4] exI [of _ 5] exI [of _ 6] exI [of _ 7] exI [of _ 8])
  then obtain i where i: "i \<le> 8" "k = 2 ^ i" by blast
  have "(of_int (k - 1) :: 32 word) = of_nat (2 ^ i - 1)" using i(2) by (simp add: of_nat_diff)
  then have inv: "opt_inv h"
    using i newLRUShard_ok [of ?cap] by (auto simp: opt_inv_def e nat_power_eq intro!: exI [of _ i])
  have idx: "\<forall>x. opt_index x h < length (opt_shards h)" using opt_index_bound [OF inv] by blast
  have "length (opt_shards h) \<in> {1, 16, 32, 64, 128, 256}" using k(1) by (auto simp: e)
  moreover have "length (opt_shards h) = 1 \<longleftrightarrow> m < 16" using k(1,3) by (auto simp: e)
  moreover have "sum_list (map sh_capacity (opt_shards h)) = k * ?cap"
    using k(1) by (auto simp: e sum_list_replicate newLRUShard_def)
  moreover have "\<forall>s \<in> set (opt_shards h). 0 < sh_capacity s" using \<open>0 < ?cap\<close> by (simp add: e newLRUShard_def)
  moreover have "int (length (opt_shards h)) = k" using k(1) by (auto simp: e)
  ultimately show ?thesis using h inv idx cap e m_def by (intro exI [of _ h]) simp
qed

text \<open>
  C37: The constructor returns for every argument and every \<open>GOMAXPROCS\<close>. It makes 1 shard for fewer
  than 16 entries and a power of two between 16 and 256 otherwise, so that the mask selects exactly
  the shards; the capacities of the shards add up to at least the requested number of entries and to
  less than one more per shard.
\<close>
theorem opt_geometry:
  assumes "ifLeZero_law f" "n + 256 \<le> max_int64"
  shows "\<exists>h. NewLRUOptimizedHandler f g n = Some h \<and> opt_inv h \<and> \<not> opt_closed h \<and>
    opt_maxEntries h = (if n \<le> 0 then 1024 else n) \<and>
    length (opt_shards h) \<in> {1, 16, 32, 64, 128, 256} \<and>
    (length (opt_shards h) = 1 \<longleftrightarrow> opt_maxEntries h < 16) \<and>
    (\<forall>k. opt_index k h < length (opt_shards h)) \<and>
    opt_maxEntries h \<le> sum_list (map sh_capacity (opt_shards h)) \<and>
    sum_list (map sh_capacity (opt_shards h)) < opt_maxEntries h + int (length (opt_shards h)) \<and>
    (\<forall>s \<in> set (opt_shards h). 0 < sh_capacity s)"
  using assms by (rule opt_new_ok)

lemma opt_geometry_witness:
  "\<exists>h. NewLRUOptimizedHandler (\<lambda>v d. if v \<le> 0 then d else v) 8 10000 = Some h \<and> opt_maxEntries h = 10000"
  using opt_geometry [OF ifLeZero_law_example, of 10000 8] by (auto simp: max_int64_def)


section \<open>Second chance\<close>

text \<open>
  C31: Inserting a new key into a full shard evicts the entry nearest to the back that was not read
  since the last scan; the entries behind it, which were read, survive, lose their access bit and
  move to the front in their order, and every other entry keeps its place.
\<close>
theorem shard_second_chance:
  assumes "shard_ok s ns" "0 < sh_capacity s" "int (length ns) = sh_capacity s" "sh_cache s k = None"
    and "rows s ns = u @ r0 # w" "\<not> row_bit r0" "\<forall>r \<in> set w. row_bit r"
  shows "\<exists>s' ns'. shard_set pick k v x s = Some s' \<and> shard_ok s' ns' \<and>
    rows s' ns' = map clear_bit w @ (k, Some (str v), x, False) # u \<and>
    length ns' = length ns \<and> sh_cache s' (fst r0) = None"
proof -
  obtain s' ns' where s': "shard_set pick k v x s = Some s'" "shard_ok s' ns'"
    "rows s' ns' = clock_set (sh_capacity s) k (Some (str v)) x (rows s ns)" "same_frame s s'"
    using shard_set_ok [OF assms(1), of pick k v x] by blast
  have none: "map_of (rows s ns) k = None"
    using map_of_rows [OF shard_ok_core [OF assms(1)]] assms(4) by simp
  have len: "int (length (u @ r0 # w)) = sh_capacity s"
    using assms(3,5) by (metis length_rows)
  have rw: "rows s' ns' = map clear_bit w @ (k, Some (str v), x, False) # u"
    using clock_form [OF _ assms(7,6), of "Suc (length (u @ r0 # w))" "(k, Some (str v), x, False) # u"]
      none s'(3) len assms(2,5) by (simp add: clock_set_def clock_trim_def)
  have "distinct (map fst (rows s ns))" using assms(1) by (rule shard_ok_distinct)
  then have "fst r0 \<notin> fst ` (set u \<union> set w)" using assms(5) by auto
  moreover have "fst r0 \<noteq> k" using none assms(5) by (auto simp: map_of_eq_None_iff)
  ultimately have "fst r0 \<notin> fst ` set (rows s' ns')"
    by (simp add: rw image_image image_Un)
  then have "map_of (rows s' ns') (fst r0) = None" by (simp add: map_of_eq_None_iff)
  then have "sh_cache s' (fst r0) = None"
    using map_of_rows [OF shard_ok_core [OF s'(2)], of "fst r0"] by simp
  moreover have "length (rows s' ns') = length (rows s ns)" unfolding rw assms(5) by simp
  then have "length ns' = length ns" by simp
  ultimately show ?thesis using s' rw by blast
qed

lemma shard_demo:
  obtains s1 s2 ns where "shard_set 0 [1] (Some [7]) 0 (newLRUShard 2) = Some s1"
    "shard_set 0 [2] (Some [8]) 0 s1 = Some s2" "shard_ok s2 ns" "sh_capacity s2 = 2"
    "rows s2 ns = [([2], Some [8], 0, False), ([1], Some [7], 0, False)]"
proof -
  have c: "sh_capacity (newLRUShard 2) = 2" "rows (newLRUShard 2) [] = []" by (simp_all add: newLRUShard_def rows_def)
  obtain s1 n1 where 1: "shard_set 0 [1] (Some [7]) 0 (newLRUShard 2) = Some s1" "shard_ok s1 n1"
    "rows s1 n1 = [([1], Some [7], 0, False)]" "same_frame (newLRUShard 2) s1"
    using shard_set_ok [OF newLRUShard_ok, of 0 "[1]" "Some [7]" 0 2] c by (auto simp: clock_set_def clock_trim_def)
  then have c1: "sh_capacity s1 = 2" using c by (simp add: same_frame_def)
  obtain s2 n2 where "shard_set 0 [2] (Some [8]) 0 s1 = Some s2" "shard_ok s2 n2"
    "rows s2 n2 = [([2], Some [8], 0, False), ([1], Some [7], 0, False)]" "same_frame s1 s2"
    using shard_set_ok [OF 1(2), of 0 "[2]" "Some [8]" 0] c1 1(3) by (auto simp: clock_set_def clock_trim_def)
  with 1 c1 that show thesis by (simp add: same_frame_def)
qed

lemma shard_second_chance_witness:
  "\<exists>s1 s2 s3. shard_set 0 [1] (Some [7]) 0 (newLRUShard 2) = Some s1 \<and>
     shard_set 0 [2] (Some [8]) 0 s1 = Some s2 \<and>
     shard_set 0 [3] (Some [9]) 0 (snd (shard_read 5 [1] s2)) = Some s3 \<and> sh_cache s3 [2] = None"
proof -
  obtain s1 s2 ns where d: "shard_set 0 [1] (Some [7]) 0 (newLRUShard 2) = Some s1"
    "shard_set 0 [2] (Some [8]) 0 s1 = Some s2" "shard_ok s2 ns" "sh_capacity s2 = 2"
    "rows s2 ns = [([2], Some [8], 0, False), ([1], Some [7], 0, False)]" by (rule shard_demo)
  let ?s = "snd (shard_read 5 [1] s2)"
  note rd = shard_read_ok [OF shard_ok_core [OF d(3)], of 5 "[1]"]
  have r: "rows ?s ns = [([2], Some [8], 0, False), ([1], Some [7], 0, True)]"
    using rd(3) by (simp add: d(5) list_read_def isExpired_def touch_def)
  have ok: "shard_ok ?s ns" "sh_capacity ?s = 2" using rd(2,4) d(3,4) by (simp_all add: shard_ok_def same_frame_def)
  have "int (length ns) = 2" using d(5) by (metis length_rows length_Cons list.size(3) of_nat_numeral numeral_2_eq_2)
  moreover have "sh_cache ?s [3] = None"
    using map_of_rows [OF shard_ok_core [OF ok(1)], of "[3]"] r by simp
  ultimately have "\<exists>s3 ns3. shard_set 0 [3] (Some [9]) 0 ?s = Some s3 \<and> shard_ok s3 ns3 \<and>
      rows s3 ns3 = map clear_bit [([1], Some [7], 0, True)] @ ([3], Some (str (Some [9])), 0, False) # [] \<and>
      length ns3 = length ns \<and> sh_cache s3 (fst ([2], Some [8 :: 8 word], 0 :: int, False)) = None"
    using ok r by (intro shard_second_chance) (simp_all add: row_bit_def)
  with d(1,2) show ?thesis by auto
qed

text \<open>A handler with one shard of one entry, which was read since the last scan.\<close>

definition one_shard :: optHandler where
  "one_shard = \<lparr>opt_shards = [newLRUShard 1], opt_shardCount = 1, opt_shardMask = 0, opt_maxEntries = 1,
     opt_closed = False, opt_loadGroup = Map.empty\<rparr>"

definition hot_shard :: optHandler where
  "hot_shard = snd (opt_GetWithCtx 5 5 (Some [1])
     (snd (opt_SetWithTTLAndCtx 0 5 (Some [1]) (Some [7]) (-1) one_shard)))"

lemma one_shard_ok: "opt_inv one_shard" "\<not> opt_closed one_shard" "getShard k one_shard = Some (newLRUShard 1)"
  using newLRUShard_ok [of 1]
  by (auto simp: one_shard_def opt_inv_def getShard_def opt_index_def)

lemma hot_shard_ok:
  obtains s ns where "getShard k hot_shard = Some s" "shard_ok s ns" "sh_capacity s = 1"
    "rows s ns = [([1], Some [7], 0, True)]" "opt_inv hot_shard" "\<not> opt_closed hot_shard"
proof -
  let ?h = "snd (opt_SetWithTTLAndCtx 0 5 (Some [1]) (Some [7]) (-1) one_shard)"
  obtain s1 n1 where 1: "opt_SetWithTTLAndCtx 0 5 (Some [1]) (Some [7]) (-1) one_shard = (None, opt_put [1] s1 one_shard)"
    "shard_ok s1 n1" "sh_capacity s1 = 1" "rows s1 n1 = [([1], Some [7], 0, False)]"
    using opt_set_ok [OF one_shard_ok(1,2) _ one_shard_ok(3) newLRUShard_ok, of "-1" 0 5 "[1]" "[7]"]
    by (auto simp: newLRUShard_def rows_def clock_set_def clock_trim_def opt_expiry_for_def)
  have g: "getShard k ?h = Some s1" for k
    using 1(1) by (simp add: getShard_def) (simp add: opt_put_def one_shard_def opt_index_def)
  have i: "opt_inv ?h" "\<not> opt_closed ?h" using opt_set_inv one_shard_ok by auto
  obtain s2 n2 where 2: "opt_GetWithCtx 5 5 (Some [1]) ?h = (found (row_view 5 (rows s1 n1) [1]), opt_put [1] s2 ?h)"
    "shard_ok s2 n2" "sh_capacity s2 = sh_capacity s1" "rows s2 n2 = (case list_read 5 [1] (rows s1 n1) of
       RHit v \<Rightarrow> touch [1] (rows s1 n1) | RExpired \<Rightarrow> list_cleanup 5 [1] (rows s1 n1) | RMiss \<Rightarrow> rows s1 n1)"
    using opt_get_ok [of ?h "[1]" s1 n1 5 5, OF i g 1(2)] by metis
  have r: "rows s2 n2 = [([1], Some [7], 0, True)]"
    using 2(4) by (simp add: 1(4) list_read_def isExpired_def touch_def)
  have hs: "hot_shard = opt_put [1] s2 ?h" using 2(1) by (simp add: hot_shard_def)
  have hv: "hot_shard = \<lparr>opt_shards = [s2], opt_shardCount = 1, opt_shardMask = 0, opt_maxEntries = 1,
     opt_closed = False, opt_loadGroup = Map.empty\<rparr>"
    unfolding hs 1(1) by (simp add: opt_put_def one_shard_def opt_index_def)
  have "getShard k hot_shard = Some s2" unfolding getShard_def opt_index_def hv by simp
  moreover have "opt_inv hot_shard" "\<not> opt_closed hot_shard"
    using i unfolding hot_shard_def by (simp_all add: opt_get_inv)
  ultimately show thesis using that [of s2 n2] 2(2,3) 1(3) r by simp
qed

text \<open>
  C36: A write into a full shard all of whose entries were read since the last scan is lost: \<open>Set\<close>
  reports success, but the scan gives every old entry a second chance and evicts the entry that was
  just written, which is not found by any later lookup. The old entries all stay.
\<close>
theorem opt_hot_write_lost:
  assumes "opt_inv h" "\<not> opt_closed h" "-1 \<le> ttl" "getShard k h = Some s" "shard_ok s ns"
    and "0 < sh_capacity s" "int (length ns) = sh_capacity s" "sh_cache s k = None"
    and "\<forall>r \<in> set (rows s ns). row_bit r"
  shows "fst (opt_SetWithTTLAndCtx pick now (Some k) (Some v) ttl h) = None \<and>
    fst (opt_GetWithCtx t t (Some k) (snd (opt_SetWithTTLAndCtx pick now (Some k) (Some v) ttl h))) =
      Inl ErrNotFound \<and>
    opt_view t (snd (opt_SetWithTTLAndCtx pick now (Some k) (Some v) ttl h)) = opt_view t h"
proof -
  let ?R = "opt_SetWithTTLAndCtx pick now (Some k) (Some v) ttl h"
  obtain s' ns' where s': "?R = (None, opt_put k s' h)" "shard_ok s' ns'"
    "rows s' ns' = clock_set (sh_capacity s) k (Some v) (opt_expiry_for now ttl) (rows s ns)"
    using opt_set_ok [OF assms(1-5)] by metis
  have none: "map_of (rows s ns) k = None"
    using map_of_rows [OF shard_ok_core [OF assms(5)]] assms(8) by simp
  have "rows s' ns' = map clear_bit (rows s ns)"
    using clock_form [of "rows s ns" "Suc (length ns)" "(k, Some v, opt_expiry_for now ttl, False)" "[]"]
      none s'(3) assms(6,7,9)
    by (simp add: clock_set_def clock_trim_def row_bit_def)
  then have "strip (rows s' ns') = strip (rows s ns)"
    by (auto simp: strip_def clear_bit_def)
  then have v: "row_view t (rows s' ns') = row_view t (rows s ns)" by (simp add: row_view_def fun_eq_iff)
  have view: "opt_view t (snd ?R) = opt_view t h"
    using opt_put_same_view [OF assms(1,4,5) s'(2) v] s'(1) by simp
  moreover have "opt_view t h k = None"
    using opt_view_rows [OF assms(4,5)] none by (simp add: row_view_def map_of_strip)
  ultimately have "fst (opt_GetWithCtx t t (Some k) (snd ?R)) = Inl ErrNotFound"
    using opt_get_view(1) [of "snd ?R" t t t k] opt_set_view(2) [OF assms(1-3)] assms(2) by simp
  with s'(1) view show ?thesis by simp
qed

lemma opt_hot_write_lost_witness:
  "fst (opt_SetWithTTLAndCtx 0 6 (Some [2]) (Some [8]) (-1) hot_shard) = None \<and>
   fst (opt_GetWithCtx 6 6 (Some [2]) (snd (opt_SetWithTTLAndCtx 0 6 (Some [2]) (Some [8]) (-1) hot_shard))) =
     Inl ErrNotFound"
proof -
  obtain s ns where s: "getShard [2] hot_shard = Some s" "shard_ok s ns" "sh_capacity s = 1"
    "rows s ns = [([1], Some [7], 0, True)]" "opt_inv hot_shard" "\<not> opt_closed hot_shard" by (rule hot_shard_ok)
  have "length ns = 1" using s(4) by (metis length_rows length_Cons list.size(3) One_nat_def)
  moreover have "sh_cache s [2] = None"
    using map_of_rows [OF shard_ok_core [OF s(2)], of "[2]"] s(4) by simp
  ultimately show ?thesis
    using opt_hot_write_lost [OF s(5,6) _ s(1,2), of "-1" 0 6 "[8]" 6] s(3,4) by (simp add: row_bit_def)
qed

text \<open>
  Read your writes in every other case: when the key was already there, the shard has room, or
  one of its entries was not read since the last scan, a written value is read back until its
  deadline and not after; every other key reads as before or was evicted.
\<close>
theorem opt_read_your_writes:
  assumes "opt_inv h" "\<not> opt_closed h" "ttl_ok now ttl" "now \<le> t" "k' \<noteq> k"
    and "getShard k h = Some s" "shard_ok s ns" "room_for (sh_capacity s) k (rows s ns)"
  shows "fst (opt_GetWithCtx t t (Some k) (snd (opt_SetWithTTLAndCtx pick now (Some k) (Some v) ttl h))) =
      found (if lives now ttl t then Some (Some v) else None) \<and>
    fst (opt_GetWithCtx t t (Some k') (snd (opt_SetWithTTLAndCtx pick now (Some k) (Some v) ttl h))) \<in>
      {Inl ErrNotFound, fst (opt_GetWithCtx t t (Some k') h)}"
proof -
  let ?R = "opt_SetWithTTLAndCtx pick now (Some k) (Some v) ttl h"
  have ttl: "-1 \<le> ttl" using assms(3) by (simp add: ttl_ok_def)
  obtain s' ns' where s': "?R = (None, opt_put k s' h)" "shard_ok s' ns'"
    "rows s' ns' = clock_set (sh_capacity s) k (Some v) (opt_expiry_for now ttl) (rows s ns)"
    using opt_set_ok [OF assms(1,2) ttl assms(6,7)] by metis
  have "opt_view t (snd ?R) k = (if lives now ttl t then Some (Some v) else None)"
    using row_view_set_kept [OF assms(8), of t "Some v" "opt_expiry_for now ttl"]
      opt_expiry_lives [OF assms(3,4)] s'
    by (simp add: opt_put_view [OF assms(1)] shard_view_rows [OF shard_ok_core [OF s'(2)]])
  moreover have "opt_view t (snd ?R) k' \<in> {None, opt_view t h k'}" using assms(1,5) by (rule opt_set_other)
  moreover have "opt_inv (snd ?R)" using opt_set_view(2) [OF assms(1,2) ttl] .
  ultimately show ?thesis
    using opt_get_view(1) [of _ t t t] assms(1,2) by auto
qed

lemma opt_read_your_writes_witness:
  "fst (opt_GetWithCtx 9 9 (Some [1]) (snd (opt_SetWithTTLAndCtx 0 6 (Some [1]) (Some [8]) 3 hot_shard))) = Inr (Some [8]) \<and>
   fst (opt_GetWithCtx 10 10 (Some [1]) (snd (opt_SetWithTTLAndCtx 0 6 (Some [1]) (Some [8]) 3 hot_shard))) = Inl ErrNotFound"
proof -
  obtain s ns where s: "getShard [1] hot_shard = Some s" "shard_ok s ns" "sh_capacity s = 1"
    "rows s ns = [([1], Some [7], 0, True)]" "opt_inv hot_shard" "\<not> opt_closed hot_shard" by (rule hot_shard_ok)
  have ok: "ttl_ok 6 3" by (simp add: ttl_ok_def max_int64_def)
  have room: "room_for (sh_capacity s) [1] (rows s ns)" using s(4) by (simp add: room_for_def)
  show ?thesis
    using opt_read_your_writes [OF s(5,6) ok _ _ s(1,2) room, of 9 "[2]" 0 "[8]"]
      opt_read_your_writes [OF s(5,6) ok _ _ s(1,2) room, of 10 "[2]" 0 "[8]"]
    by (simp add: lives_def)
qed


section \<open>Batches\<close>

lemma opt_mask [simp]:
  "opt_shardMask (snd (opt_GetWithCtx now1 now2 key h)) = opt_shardMask h"
  "opt_shardMask (snd (opt_SetWithTTLAndCtx pick now key value ttl h)) = opt_shardMask h"
  by (auto simp: opt_GetWithCtx_def opt_SetWithTTLAndCtx_def opt_put_def Let_def
      split: option.splits prod.splits read_outcome.splits)

definition batch_at :: "(nat \<rightharpoonup> shardBatch) \<Rightarrow> nat \<Rightarrow> (nat \<times> go_string) set" where
  "batch_at B g = (case B g of None \<Rightarrow> {} | Some b \<Rightarrow> set b)"

text \<open>Grouping puts each key with its position into the batch of its shard.\<close>

lemma opt_group_batches:
  "(x, k) \<in> batch_at (fst (opt_group h i keys B E)) g \<longleftrightarrow> (x, k) \<in> batch_at B g \<or>
     i \<le> x \<and> x < i + length keys \<and> keys ! (x - i) = Some k \<and> opt_index k h = g"
proof (induction keys arbitrary: i B E)
  case (Cons key keys)
  have shift: "(x = i \<and> key = Some k \<and> opt_index k h = g \<or>
      Suc i \<le> x \<and> x < Suc i + length keys \<and> keys ! (x - Suc i) = Some k \<and> opt_index k h = g) \<longleftrightarrow>
    i \<le> x \<and> x < i + length (key # keys) \<and> (key # keys) ! (x - i) = Some k \<and> opt_index k h = g"
    by (cases "x = i") (auto simp: nth_Cons' Suc_le_eq)
  show ?case
  proof (cases key)
    case None
    with Cons.IH shift show ?thesis by simp
  next
    case (Some sk)
    define B' where "B' = B(opt_index sk h \<mapsto> (case B (opt_index sk h) of None \<Rightarrow> [] | Some b \<Rightarrow> b) @ [(i, sk)])"
    have "(x, k) \<in> batch_at B' g \<longleftrightarrow> (x, k) \<in> batch_at B g \<or> x = i \<and> key = Some k \<and> opt_index k h = g"
      using Some by (auto simp: B'_def batch_at_def split: option.splits)
    moreover have "opt_group h i (key # keys) B E = opt_group h (Suc i) keys B' E"
      using Some by (simp add: B'_def Let_def)
    ultimately show ?thesis unfolding shift [symmetric] by (simp add: Cons.IH disj_assoc)
  qed
qed auto

lemma opt_group_errors:
  "length E = n \<Longrightarrow> length (snd (opt_group h i keys B E)) = n \<and>
   (\<forall>x < n. snd (opt_group h i keys B E) ! x =
     (if i \<le> x \<and> x < i + length keys \<and> keys ! (x - i) = None then Some ErrInvalidKey else E ! x))"
proof (induction keys arbitrary: i B E)
  case (Cons key keys)
  have shift: "(i \<le> x \<and> x < i + length (key # keys) \<and> (key # keys) ! (x - i) = None) \<longleftrightarrow>
    x = i \<and> key = None \<or> Suc i \<le> x \<and> x < Suc i + length keys \<and> keys ! (x - Suc i) = None" for x
    by (cases "x = i") (auto simp: nth_Cons' Suc_le_eq)
  show ?case
  proof (cases key)
    case None
    with Cons.IH [of "E[i := Some ErrInvalidKey]" "Suc i" B] Cons.prems show ?thesis
      unfolding shift by (auto simp: nth_list_update)
  next
    case (Some sk)
    with Cons.IH [OF Cons.prems] show ?thesis unfolding shift by (simp add: Let_def)
  qed
qed auto

lemma opt_run_batch_slots:
  assumes "\<forall>x k k'. (x, k) \<in> set b \<and> (x, k') \<in> set b \<longrightarrow> k = k'"
    and "length (fst res) = n" "length (snd res) = n"
  shows "length (fst (opt_run_batch now s b res)) = n \<and> length (snd (opt_run_batch now s b res)) = n \<and>
    (\<forall>x < n. \<forall>k. (x, k) \<in> set b \<longrightarrow>
      (fst (opt_run_batch now s b res) ! x, snd (opt_run_batch now s b res) ! x) = shard_peek now k s) \<and>
    (\<forall>x < n. x \<notin> fst ` set b \<longrightarrow> fst (opt_run_batch now s b res) ! x = fst res ! x \<and>
      snd (opt_run_batch now s b res) ! x = snd res ! x)"
  using assms
proof (induction b arbitrary: res)
  case (Cons p b)
  obtain idx sk where p: "p = (idx, sk)" by (cases p)
  obtain v e where pk: "shard_peek now sk s = (v, e)" by (cases "shard_peek now sk s")
  have "\<forall>x k k'. (x, k) \<in> set b \<and> (x, k') \<in> set b \<longrightarrow> k = k'" using Cons.prems(1) by (meson list.set_intros(2))
  note IH = Cons.IH [OF this, of "((fst res)[idx := v], (snd res)[idx := e])"]
  have same: "k = sk" if "(idx, k) \<in> set (p # b)" for k
    using Cons.prems(1) that p by (meson list.set_intros(1))
  show ?case
  proof (intro conjI allI impI)
    fix x k assume x: "x < n" and m: "(x, k) \<in> set (p # b)"
    show "(fst (opt_run_batch now s (p # b) res) ! x, snd (opt_run_batch now s (p # b) res) ! x) = shard_peek now k s"
    proof (cases "(x, k) \<in> set b")
      case True
      with IH Cons.prems(2,3) x show ?thesis by (simp add: p pk)
    next
      case False
      with m p have xk: "x = idx" "k = sk" by auto
      have "x \<notin> fst ` set b" using same False xk by force
      with IH Cons.prems(2,3) x xk show ?thesis by (simp add: p pk)
    qed
  qed (use IH Cons.prems(2,3) in \<open>auto simp: p pk nth_list_update\<close>)
qed simp

lemma opt_run_batches_slots:
  assumes "\<forall>g x k. (x, k) \<in> batch_at B g \<longrightarrow> x < n \<and> keys ! x = Some k \<and> opt_index k h = g"
    and "length (fst res) = n" "length (snd res) = n"
  shows "length (fst (opt_run_batches h B (map (\<lambda>g. (g, \<tau> g)) gs) res)) = n \<and>
    length (snd (opt_run_batches h B (map (\<lambda>g. (g, \<tau> g)) gs) res)) = n \<and>
    (\<forall>x < n. (fst (opt_run_batches h B (map (\<lambda>g. (g, \<tau> g)) gs) res) ! x,
              snd (opt_run_batches h B (map (\<lambda>g. (g, \<tau> g)) gs) res) ! x) =
      (if \<exists>g \<in> set gs. x \<in> fst ` batch_at B g
       then shard_peek (\<tau> (opt_index (the (keys ! x)) h)) (the (keys ! x))
              (opt_shards h ! opt_index (the (keys ! x)) h)
       else (fst res ! x, snd res ! x)))"
  using assms(2,3)
proof (induction gs arbitrary: res)
  case (Cons g gs)
  let ?res = "case B g of None \<Rightarrow> res | Some b \<Rightarrow> opt_run_batch (\<tau> g) (opt_shards h ! g) b res"
  have step: "length (fst ?res) = n \<and> length (snd ?res) = n \<and>
    (\<forall>x < n. (fst ?res ! x, snd ?res ! x) = (if x \<in> fst ` batch_at B g
       then shard_peek (\<tau> (opt_index (the (keys ! x)) h)) (the (keys ! x))
              (opt_shards h ! opt_index (the (keys ! x)) h)
       else (fst res ! x, snd res ! x)))"
  proof (cases "B g")
    case (Some b)
    then have bm: "\<forall>x k. (x, k) \<in> set b \<longrightarrow> x < n \<and> keys ! x = Some k \<and> opt_index k h = g"
      using assms(1) by (auto simp: batch_at_def split: option.splits)
    then have "\<forall>x k k'. (x, k) \<in> set b \<and> (x, k') \<in> set b \<longrightarrow> k = k'" by (metis option.inject)
    from opt_run_batch_slots [OF this Cons.prems, of "\<tau> g" "opt_shards h ! g"] bm Some show ?thesis
      by (fastforce simp: batch_at_def)
  qed (use Cons.prems in \<open>simp add: batch_at_def\<close>)
  from Cons.IH [of ?res] step show ?case by simp
qed simp

text \<open>
  A batch on an open handler answers every key as a single lookup would at the time its shard is
  locked, whatever order the goroutines of the shards run in: a nil key gets \<open>ErrInvalidKey\<close>, a
  missing or expired one \<open>ErrNotFound\<close>, and each answer is in the slot of its key.
\<close>
theorem opt_batch_pointwise:
  assumes "\<not> opt_closed h" "\<forall>k. Some k \<in> set keys \<longrightarrow> opt_index k h \<in> set gs"
  shows "length (fst (opt_BatchGetWithCtx (map (\<lambda>g. (g, \<tau> g)) gs) keys h)) = length keys \<and>
    length (snd (opt_BatchGetWithCtx (map (\<lambda>g. (g, \<tau> g)) gs) keys h)) = length keys \<and>
    (\<forall>i < length keys. (fst (opt_BatchGetWithCtx (map (\<lambda>g. (g, \<tau> g)) gs) keys h) ! i,
                        snd (opt_BatchGetWithCtx (map (\<lambda>g. (g, \<tau> g)) gs) keys h) ! i) =
      (case keys ! i of
         None \<Rightarrow> (None, Some ErrInvalidKey)
       | Some k \<Rightarrow> (case opt_view (\<tau> (opt_index k h)) h k of
                      None \<Rightarrow> (None, Some ErrNotFound) | Some v \<Rightarrow> (v, None))))"
proof (cases "keys = []")
  case False
  let ?n = "length keys"
  let ?g = "opt_group h 0 keys Map.empty (replicate ?n None)"
  have bat: "(x, k) \<in> batch_at (fst ?g) g \<longleftrightarrow> x < ?n \<and> keys ! x = Some k \<and> opt_index k h = g" for x k g
    by (simp add: opt_group_batches) (simp add: batch_at_def)
  have err: "length (snd ?g) = ?n" "\<forall>x < ?n. snd ?g ! x = (if keys ! x = None then Some ErrInvalidKey else None)"
    using opt_group_errors [of "replicate ?n None" ?n h 0 keys Map.empty] by auto
  let ?R = "opt_run_batches h (fst ?g) (map (\<lambda>g. (g, \<tau> g)) gs) (replicate ?n None, snd ?g)"
  have eq: "opt_BatchGetWithCtx (map (\<lambda>g. (g, \<tau> g)) gs) keys h = ?R"
    using False assms(1) by (simp add: opt_BatchGetWithCtx_def split: prod.splits)
  have slots: "length (fst ?R) = ?n \<and> length (snd ?R) = ?n \<and>
    (\<forall>x < ?n. (fst ?R ! x, snd ?R ! x) = (if \<exists>g \<in> set gs. x \<in> fst ` batch_at (fst ?g) g
       then shard_peek (\<tau> (opt_index (the (keys ! x)) h)) (the (keys ! x))
              (opt_shards h ! opt_index (the (keys ! x)) h)
       else (None, snd ?g ! x)))"
    using opt_run_batches_slots [of "fst ?g" ?n keys h "(replicate ?n None, snd ?g)" \<tau> gs] bat err(1) by simp
  have "(\<exists>g \<in> set gs. x \<in> fst ` batch_at (fst ?g) g) \<longleftrightarrow> keys ! x \<noteq> None" if "x < ?n" for x
  proof
    assume "keys ! x \<noteq> None"
    then obtain k where k: "keys ! x = Some k" by blast
    with that have "opt_index k h \<in> set gs" using assms(2) by (metis nth_mem)
    moreover have "(x, k) \<in> batch_at (fst ?g) (opt_index k h)" using that k by (simp add: bat)
    ultimately show "\<exists>g \<in> set gs. x \<in> fst ` batch_at (fst ?g) g" by force
  qed (force simp: bat)
  moreover have "shard_peek t k (opt_shards h ! opt_index k h) =
      (case opt_view t h k of None \<Rightarrow> (None, Some ErrNotFound) | Some v \<Rightarrow> (v, None))" for t k
    by (simp add: opt_view_def shard_view_def shard_peek_def split: option.splits)
  ultimately show ?thesis
    using slots err(2) unfolding eq by (auto split: option.splits)
qed (simp add: opt_BatchGetWithCtx_def)

lemma opt_batch_pointwise_witness:
  "(fst (opt_BatchGetWithCtx [(0, 9)] [None, Some [1], Some [2]] hot_shard) ! 0,
    snd (opt_BatchGetWithCtx [(0, 9)] [None, Some [1], Some [2]] hot_shard) ! 0) = (None, Some ErrInvalidKey)"
proof -
  have "opt_index k hot_shard = 0" for k by (simp add: opt_index_def hot_shard_def one_shard_def)
  then show ?thesis
    using opt_batch_pointwise [of hot_shard "[None, Some [1], Some [2]]" "[0]" "\<lambda>_. 9"]
    by (auto simp: hot_shard_def one_shard_ok)
qed


section \<open>GetOrCompute\<close>

lemma opt_get_load [simp]:
  "opt_loadGroup (snd (opt_GetWithCtx now1 now2 key h)) = opt_loadGroup h"
  "opt_loadGroup (snd (opt_SetWithTTLAndCtx pick now key value ttl h)) = opt_loadGroup h"
  "opt_loadGroup (snd (opt_DelWithCtx key h)) = opt_loadGroup h"
  by (auto simp: opt_GetWithCtx_def opt_SetWithTTLAndCtx_def opt_DelWithCtx_def Let_def
      split: option.splits prod.splits read_outcome.splits)

lemma opt_load_inv [simp]: "opt_inv (h\<lparr>opt_loadGroup := g\<rparr>) = opt_inv h"
    "opt_view t (h\<lparr>opt_loadGroup := g\<rparr>) = opt_view t h"
  by (auto simp: opt_inv_def opt_view_def opt_index_def)

lemma opt_get_pair:
  assumes "opt_inv h" "\<not> opt_closed h" "now1 \<le> now2"
  shows "opt_GetWithCtx now1 now2 (Some k) h =
    (found (opt_view now1 h k), snd (opt_GetWithCtx now1 now2 (Some k) h))"
  using opt_get_view(1) [OF assms order_refl] by (metis prod.collapse)

text \<open>
  \<open>GetOrCompute\<close> for a key that no pending call holds: a hit is served without the loader, a done
  context stops before the loader, and otherwise the loader runs exactly once, its error is returned
  and nothing is stored; its value is returned, and the answer is left for the callers of the next
  10 ms in the table of calls. The key then reads as that value, or not at all if its shard was hot.
\<close>
theorem opt_get_or_compute:
  assumes "opt_inv h" "\<not> opt_closed h" "k \<noteq> []" "opt_loadGroup h k = None"
    and "mono (clk en)" "1 < clk en 4" "clk en 4 + ttl \<le> max_int64" "opt_view (clk en 2) h k = None"
    and "obs en 0 = None" "obs en 1 = None" "fst (loader w) \<noteq> Inl RuntimePanic" "clk en 4 \<le> max_int64"
  shows "case opt_GetOrComputeWithCtx pick en (Some k) ttl loader h w of (r, h', w') \<Rightarrow>
    (case opt_view (clk en 0) h k of
       Some v \<Rightarrow> r = Inr v \<and> w' = w
     | None \<Rightarrow> w' = snd (loader w) \<and> r = copy_result (fst (loader w)) \<and>
         opt_loadGroup h' = (opt_loadGroup h)(k \<mapsto> fst (loader w)) \<and> opt_inv h' \<and> \<not> opt_closed h' \<and>
         (\<forall>t \<ge> clk en 4. opt_view t h' k \<in>
           (case fst (loader w) of
              Inl e \<Rightarrow> {opt_view t h k}
            | Inr v \<Rightarrow> (case v of None \<Rightarrow> {opt_view t h k}
                | Some x \<Rightarrow> {None, if 0 < ttl \<and> clk en 4 + ttl < t then None else Some (Some x)}))))"
proof -
  have le: "clk en 0 \<le> clk en 1" "clk en 2 \<le> clk en 3" "clk en 1 \<le> clk en 4" "clk en 3 \<le> clk en 4"
    using assms(5) by (auto intro: monoD)
  define h1 where "h1 = snd (opt_GetWithCtx (clk en 0) (clk en 1) (Some k) h)"
  define h2 where "h2 = snd (opt_GetWithCtx (clk en 2) (clk en 3) (Some k) h1)"
  have 1: "opt_GetWithCtx (clk en 0) (clk en 1) (Some k) h = (found (opt_view (clk en 0) h k), h1)"
    using opt_get_pair [OF assms(1,2) le(1)] unfolding h1_def .
  have H1: "opt_inv h1" "\<not> opt_closed h1" "clk en 1 \<le> t \<Longrightarrow> opt_view t h1 = opt_view t h" for t
    using opt_get_view(2) [OF assms(1,2) le(1) order_refl] opt_get_view(3) [OF assms(1,2) le(1)] assms(2)
    unfolding h1_def by simp_all
  have "clk en 1 \<le> clk en 2" using assms(5) by (auto intro: monoD)
  then have v1: "opt_view (clk en 2) h1 k = None" using H1(3) assms(8) by simp
  have 2: "opt_GetWithCtx (clk en 2) (clk en 3) (Some k) h1 = (Inl ErrNotFound, h2)"
    using opt_get_pair [OF H1(1,2) le(2), of k] v1 unfolding h2_def by simp
  have H2: "opt_inv h2" "\<not> opt_closed h2" "clk en 3 \<le> t \<Longrightarrow> clk en 1 \<le> t \<Longrightarrow> opt_view t h2 = opt_view t h" for t
    using opt_get_view(2) [OF H1(1,2) le(2) order_refl] opt_get_view(3) [OF H1(1,2) le(2)] H1
    unfolding h2_def by simp_all
  have lg: "opt_loadGroup h1 = opt_loadGroup h" "opt_loadGroup h2 = opt_loadGroup h"
    unfolding h1_def h2_def by simp_all
  have nil: "snd (opt_SetWithTTLAndCtx pick (clk en 4) (Some k) None d h2) = h2" for d
    by (simp add: opt_SetWithTTLAndCtx_def)
  have set: "opt_inv (snd (opt_SetWithTTLAndCtx pick (clk en 4) (Some k) (Some x) d h2)) \<and>
      (\<forall>t \<ge> clk en 4. opt_view t (snd (opt_SetWithTTLAndCtx pick (clk en 4) (Some k) (Some x) d h2)) k \<in>
        {None, if 0 < d \<and> clk en 4 + d < t then None else Some (Some x)})"
    if "d = -1 \<or> 0 < d \<and> d = ttl" for d x
  proof -
    have ttl: "ttl_ok (clk en 4) d" using that assms(6,7,12) by (auto simp: ttl_ok_def)
    have d: "-1 \<le> d" using that by auto
    have "opt_view t (snd (opt_SetWithTTLAndCtx pick (clk en 4) (Some k) (Some x) d h2)) k \<in>
        {None, if 0 < d \<and> clk en 4 + d < t then None else Some (Some x)}" if t: "clk en 4 \<le> t" for t
      using opt_set_view(4) [OF H2(1,2) d ttl t, of pick k x] \<open>d = -1 \<or> 0 < d \<and> d = ttl\<close>
      by (auto simp: lives_def split: if_splits)
    with opt_set_view(2) [OF H2(1,2) d] show ?thesis by blast
  qed
  show ?thesis
  proof (cases "opt_view (clk en 0) h k")
    case (Some v)
    then obtain h' where "opt_GetWithCtx (clk en 0) (clk en 1) (Some k) h = (Inr v, h')" using 1 by simp
    with Some assms(3) show ?thesis by (simp add: opt_GetOrComputeWithCtx_def)
  next
    case None
    obtain r w' where l: "loader w = (r, w')" by (cases "loader w")
    have lead: "opt_GetOrComputeWithCtx pick en (Some k) ttl loader h w =
       (copy_result r, (case r of Inl e \<Rightarrow> h2 | Inr v \<Rightarrow>
          snd (opt_SetWithTTLAndCtx pick (clk en 4) (Some k) v (if ttl \<le> 0 then -1 else ttl) h2))
            \<lparr>opt_loadGroup := (opt_loadGroup h)(k \<mapsto> r)\<rparr>, w')"
      using None assms(3,4,9-11) 1 2 l lg
      by (cases r) (auto simp: opt_GetOrComputeWithCtx_def opt_lead_def opt_SetWithCtx_def copy_result_def Let_def)
    show ?thesis
    proof (cases r)
      case (Inl e)
      then show ?thesis using None l H2 le by (simp add: lead) 
    next
      case (Inr v)
      show ?thesis
      proof (cases v)
        case None
        then show ?thesis using \<open>opt_view (clk en 0) h k = None\<close> Inr l H2 le nil by (simp add: lead)
      next
        case (Some x)
        have "(0 < (if ttl \<le> 0 then -1 else ttl) \<and> clk en 4 + (if ttl \<le> 0 then -1 else ttl) < t) \<longleftrightarrow>
            0 < ttl \<and> clk en 4 + ttl < t" for t by simp
        moreover have dd: "(if ttl \<le> 0 then -1 else ttl) = -1 \<or>
            0 < (if ttl \<le> 0 then -1 else ttl) \<and> (if ttl \<le> 0 then -1 else ttl) = ttl" by simp
        ultimately show ?thesis using \<open>opt_view (clk en 0) h k = None\<close> Some Inr l H2(2)
          set [OF dd, of x] by (simp add: lead split del: if_split)
      qed
    qed
  qed
qed

lemma opt_get_or_compute_witness:
  "case opt_GetOrComputeWithCtx 0 \<lparr>clk = \<lambda>i. 5, obs = \<lambda>i. None\<rparr> (Some [3]) 9 (\<lambda>w. (Inr (Some [w]), w + 1)) one_shard 4 of
     (r, h', w') \<Rightarrow> r = Inr (Some [4]) \<and> w' = 5"
proof -
  have v: "opt_view t one_shard [3] = None" for t
    using opt_view_rows [OF one_shard_ok(3) newLRUShard_ok] by (simp add: rows_def row_view_def)
  show ?thesis
    using opt_get_or_compute [OF one_shard_ok(1,2), where k = "[3]" and en = "\<lparr>clk = \<lambda>i. 5, obs = \<lambda>i. None\<rparr>"
        and ttl = 9 and loader = "\<lambda>w. (Inr (Some [w]), w + 1)" and w = 4 and pick = 0] v
    by (auto simp: one_shard_def max_int64_def mono_def copy_result_def split: prod.splits)
qed

text \<open>
  Until its timer has fired, a finished call is replayed: a second \<open>GetOrCompute\<close> of the key, even
  after the key was deleted, does not run its loader and returns the first caller's value, or the
  first caller's error.
\<close>
theorem opt_compute_replayed:
  assumes "opt_inv h" "\<not> opt_closed h" "k \<noteq> []" "opt_loadGroup h k = Some call"
    and "obs en 0 = None" "clk en 0 \<le> clk en 1"
  shows "case opt_GetOrComputeWithCtx pick en (Some k) ttl loader (snd (opt_DelWithCtx (Some k) h)) w of
    (r, h', w') \<Rightarrow> r = copy_result call \<and> w' = w"
proof -
  let ?h = "snd (opt_DelWithCtx (Some k) h)"
  have "opt_view (clk en 0) ?h k = None" using opt_del_view(3) [OF assms(1,2)] by simp
  moreover have "opt_inv ?h" "\<not> opt_closed ?h" using opt_del_view(2) [OF assms(1,2)] assms(2) by simp_all
  ultimately obtain h2 where g: "opt_GetWithCtx (clk en 0) (clk en 1) (Some k) ?h = (Inl ErrNotFound, h2)"
    using opt_get_pair [of ?h "clk en 0" "clk en 1" k] assms(6) by simp
  then have "opt_loadGroup h2 k = Some call"
    using opt_get_load(1) [of "clk en 0" "clk en 1" "Some k" ?h] assms(4) by simp
  with g show ?thesis using assms(3,5) by (simp add: opt_GetOrComputeWithCtx_def)
qed

lemma opt_compute_replayed_witness:
  "case opt_GetOrComputeWithCtx 0 \<lparr>clk = \<lambda>i. 5, obs = \<lambda>i. None\<rparr> (Some [3]) 9 (\<lambda>w. (Inr (Some [w]), w + 1))
      (snd (opt_DelWithCtx (Some [3]) (one_shard\<lparr>opt_loadGroup := [[3] \<mapsto> Inl (ExtError 1)]\<rparr>))) 4 of
     (r, h', w') \<Rightarrow> r = Inl (ExtError 1) \<and> w' = 4"
  using opt_compute_replayed [where h = "one_shard\<lparr>opt_loadGroup := [[3] \<mapsto> Inl (ExtError 1)]\<rparr>" and k = "[3]"
      and call = "Inl (ExtError 1)" and en = "\<lparr>clk = \<lambda>i. 5, obs = \<lambda>i. None\<rparr>" and pick = 0 and ttl = 9
      and loader = "\<lambda>w. (Inr (Some [w]), w + 1)" and w = 4] one_shard_ok(1,2)
  by (simp add: copy_result_def)

section \<open>Runs\<close>

text \<open>
  A call of the API with the clock readings and choices it meets. \<open>OCompute\<close> carries the two checks of
  its context and what its loader answers; \<open>OTimer\<close> is the timer of a finished call.
\<close>

datatype opt_call =
    OGet time time slice | OGetTTL time time slice | OSet nat time slice slice duration | ODel slice
  | OCompute nat "nat \<Rightarrow> time" bool bool slice duration "nat + slice" | OTimer go_string | OClear | OClose

definition ask_done :: "bool \<Rightarrow> ctx" where
  "ask_done b = (if b then Some CtxCanceled else None)"

lemma ask_done_panic [simp]: "ask_done b \<noteq> Some RuntimePanic"
  by (simp add: ask_done_def)

definition load_answer :: "nat + slice \<Rightarrow> slice go_result" where
  "load_answer r = (case r of Inl n \<Rightarrow> Inl (ExtError n) | Inr v \<Rightarrow> Inr v)"

fun opt_exec :: "opt_call \<Rightarrow> optHandler \<Rightarrow> go_error option \<times> optHandler" where
  "opt_exec (OGet t1 t2 key) h = (err_of (fst (opt_GetWithCtx t1 t2 key h)), snd (opt_GetWithCtx t1 t2 key h))"
| "opt_exec (OGetTTL t1 t2 key) h = (err_of (fst (opt_GetTTLWithCtx t1 t2 key h)), snd (opt_GetTTLWithCtx t1 t2 key h))"
| "opt_exec (OSet pick t key val ttl) h = opt_SetWithTTLAndCtx pick t key val ttl h"
| "opt_exec (ODel key) h = opt_DelWithCtx key h"
| "opt_exec (OCompute pick rd c0 c1 key ttl r) h =
     (let out = opt_GetOrComputeWithCtx pick \<lparr>clk = rd, obs = (\<lambda>i. ask_done (if i = 0 then c0 else c1))\<rparr>
                  key ttl (\<lambda>w. (load_answer r, w)) h ()
      in (err_of (fst out), fst (snd out)))"
| "opt_exec (OTimer k) h = (None, opt_load_timer k h)"
| "opt_exec OClear h = opt_Clear range_order h"
| "opt_exec OClose h = opt_Close range_order h"

fun opt_run :: "opt_call list \<Rightarrow> optHandler \<Rightarrow> go_error option list \<times> optHandler" where
  "opt_run [] h = ([], h)"
| "opt_run (c # cs) h = (fst (opt_exec c h) # fst (opt_run cs (snd (opt_exec c h))),
     snd (opt_run cs (snd (opt_exec c h))))"

text \<open>What every operation keeps: the invariant, the capacities, and a table without panics.\<close>

definition opt_good :: "int list \<Rightarrow> optHandler \<Rightarrow> bool" where
  "opt_good cs h \<longleftrightarrow> opt_inv h \<and> map sh_capacity (opt_shards h) = cs \<and>
     (\<forall>k. opt_loadGroup h k \<noteq> Some (Inl RuntimePanic))"

lemma caps_put:
  assumes "getShard k h = Some s" "sh_capacity s' = sh_capacity s"
  shows "map sh_capacity (opt_shards (opt_put k s' h)) = map sh_capacity (opt_shards h)"
  using assms by (auto simp: opt_put_def getShard_def map_update list_update_same_conv split: if_splits)

lemma good_put:
  assumes "opt_good cs h" "\<not> opt_closed h" "getShard k h = Some s" "shard_ok s' ns'" "sh_capacity s' = sh_capacity s"
  shows "opt_good cs (opt_put k s' h)"
  using assms opt_put_ok [of h s' ns' k] caps_put [OF assms(3,5)] by (simp add: opt_good_def)

lemma good_get:
  assumes "opt_good cs h"
  shows "opt_good cs (snd (opt_GetWithCtx t1 t2 key h)) \<and> fst (opt_GetWithCtx t1 t2 key h) \<noteq> Inl RuntimePanic"
proof (cases "key = None \<or> opt_closed h")
  case False
  then obtain k where k: "key = Some k" "\<not> opt_closed h" by auto
  have inv: "opt_inv h" using assms by (simp add: opt_good_def)
  obtain s ns where s: "getShard k h = Some s" "shard_ok s ns" using getShard_ok [OF inv] by metis
  obtain s' ns' where g: "opt_GetWithCtx t1 t2 (Some k) h = (found (row_view t1 (rows s ns) k), opt_put k s' h)"
    "shard_ok s' ns'" "sh_capacity s' = sh_capacity s" using opt_get_ok [OF inv k(2) s, of t1 t2] by metis
  then show ?thesis using good_put [OF assms k(2) s(1) g(2,3)] k(1) by simp
qed (use assms in \<open>auto simp: opt_GetWithCtx_def\<close>)

lemma good_set:
  assumes "opt_good cs h"
  shows "opt_good cs (snd (opt_SetWithTTLAndCtx pick t key val ttl h)) \<and>
    fst (opt_SetWithTTLAndCtx pick t key val ttl h) \<noteq> Some RuntimePanic"
proof (cases "key = None \<or> val = None \<or> ttl < -1 \<or> opt_closed h")
  case True
  then show ?thesis using opt_set_err [of key val ttl h pick t] assms by auto
next
  case False
  then obtain k v where k: "key = Some k" "val = Some v" "-1 \<le> ttl" "\<not> opt_closed h" by auto
  have inv: "opt_inv h" using assms by (simp add: opt_good_def)
  obtain s ns where s: "getShard k h = Some s" "shard_ok s ns" using getShard_ok [OF inv] by metis
  obtain s' ns' where g: "opt_SetWithTTLAndCtx pick t (Some k) (Some v) ttl h = (None, opt_put k s' h)"
    "shard_ok s' ns'" "sh_capacity s' = sh_capacity s" using opt_set_ok [OF inv k(4,3) s] by metis
  then show ?thesis using good_put [OF assms k(4) s(1) g(2,3)] k(1,2) by simp
qed

lemma good_del:
  assumes "opt_good cs h"
  shows "opt_good cs (snd (opt_DelWithCtx key h)) \<and> fst (opt_DelWithCtx key h) \<noteq> Some RuntimePanic"
proof (cases "key = None \<or> opt_closed h")
  case False
  then obtain k where k: "key = Some k" "\<not> opt_closed h" by auto
  have inv: "opt_inv h" using assms by (simp add: opt_good_def)
  obtain s ns where s: "getShard k h = Some s" "shard_ok s ns" using getShard_ok [OF inv] by metis
  obtain s' ns' where d: "shard_del k s = Some s'" "shard_core s' ns'" "length ns' \<le> length ns" "same_frame s s'"
    using shard_del_ok [OF shard_ok_core [OF s(2)]] by blast
  have "shard_ok s' ns'" "sh_capacity s' = sh_capacity s" using d s(2) by (auto simp: shard_ok_def same_frame_def)
  from good_put [OF assms k(2) s(1) this] show ?thesis using k s(1) d(1) by (simp add: opt_DelWithCtx_def)
qed (use assms in \<open>auto simp: opt_DelWithCtx_def\<close>)

lemma clear_shards_caps:
  assumes "\<forall>s \<in> set ss. \<exists>ns. shard_ok s ns" "\<forall>s \<in> set ss. dom (sh_cache s) \<subseteq> set (order s)"
    and "clear_shards order ss = Some ss'"
  shows "map sh_capacity ss' = map sh_capacity ss"
  using assms
proof (induction ss arbitrary: ss')
  case (Cons s ss)
  then obtain ns where "shard_core s ns" by (auto simp: shard_ok_def)
  from shard_clear_ok [OF this, of "order s"] Cons.prems(2) obtain s' where
    "shard_clear (order s) s = Some s'" "same_frame s s'" by auto
  with Cons show ?case by (auto simp: same_frame_def split: Option.bind_splits)
qed simp

lemma good_close:
  assumes "opt_good cs h"
  shows "opt_good cs (snd (opt_Close range_order h)) \<and> fst (opt_Close range_order h) = None"
    "opt_good cs (snd (opt_Clear range_order h)) \<and> fst (opt_Clear range_order h) = None"
proof -
  have inv: "opt_inv h" using assms by (simp add: opt_good_def)
  have ok: "\<forall>s \<in> set (opt_shards h). \<exists>ns. shard_ok s ns" using inv unfolding opt_inv_def by blast
  note o = opt_close_ok [OF inv opt_inv_order [OF inv]] and cl = clear_shards_caps [OF ok opt_inv_order [OF inv]]
  have "map sh_capacity (opt_shards (snd (opt_Close range_order h))) = cs"
    "map sh_capacity (opt_shards (snd (opt_Clear range_order h))) = cs"
    using assms cl by (auto simp: opt_good_def opt_Close_def opt_Clear_def Let_def split: option.splits)
  moreover have "opt_loadGroup (snd (opt_Close range_order h)) = opt_loadGroup h"
    "opt_loadGroup (snd (opt_Clear range_order h)) = opt_loadGroup h"
    by (auto simp: opt_Close_def opt_Clear_def Let_def split: option.splits)
  ultimately show "opt_good cs (snd (opt_Close range_order h)) \<and> fst (opt_Close range_order h) = None"
    "opt_good cs (snd (opt_Clear range_order h)) \<and> fst (opt_Clear range_order h) = None"
    using o assms by (auto simp: opt_good_def)
qed

lemma copy_result_panic [simp]: "copy_result r = Inl e \<longleftrightarrow> r = Inl e"
  by (auto simp: copy_result_def split: sum.splits)

lemma good_load:
  "opt_good cs h \<Longrightarrow> c \<noteq> Some (Inl RuntimePanic) \<Longrightarrow> opt_good cs (h\<lparr>opt_loadGroup := (opt_loadGroup h)(k := c)\<rparr>)"
  by (auto simp: opt_good_def)

lemma good_lead:
  assumes "opt_good cs h" "fst (loader w) \<noteq> Inl RuntimePanic" "obs en 1 \<noteq> Some RuntimePanic"
  shows "case opt_lead pick en key ttl loader h w of (r, call, h', w') \<Rightarrow>
    opt_good cs h' \<and> r \<noteq> Inl RuntimePanic \<and> call \<noteq> Inl RuntimePanic"
proof -
  obtain r h1 where g: "opt_GetWithCtx (clk en 2) (clk en 3) key h = (r, h1)" by fastforce
  then have "opt_good cs h1" using good_get [OF assms(1)] by (metis snd_conv)
  with g assms(2,3) good_set [of cs h1] show ?thesis
    by (cases "loader w") (auto simp: opt_lead_def opt_SetWithCtx_def Let_def split: sum.splits option.splits)
qed

lemma good_compute:
  assumes "opt_good cs h" "fst (loader w) \<noteq> Inl RuntimePanic" "obs en 0 \<noteq> Some RuntimePanic" "obs en 1 \<noteq> Some RuntimePanic"
  shows "case opt_GetOrComputeWithCtx pick en key ttl loader h w of (r, h', w') \<Rightarrow> opt_good cs h' \<and> r \<noteq> Inl RuntimePanic"
proof -
  obtain r h1 where g: "opt_GetWithCtx (clk en 0) (clk en 1) key h = (r, h1)" by fastforce
  then have h1: "opt_good cs h1" using good_get [OF assms(1)] by (metis snd_conv)
  obtain r' call h2 w' where l: "opt_lead pick en key ttl loader h1 w = (r', call, h2, w')" by (metis prod_cases4)
  with good_lead [OF h1, where pick = pick and key = key and ttl = ttl and loader = loader and w = w and en = en] assms(2,4) have
    "opt_good cs h2" "r' \<noteq> Inl RuntimePanic" "call \<noteq> Inl RuntimePanic" by simp_all
  with g h1 l assms(1,3) good_load [of cs h2 "Some call" "str key"] show ?thesis
    by (auto simp: opt_GetOrComputeWithCtx_def opt_good_def split: sum.splits option.splits)
qed

lemma good_ttl:
  assumes "opt_good cs h"
  shows "snd (opt_GetTTLWithCtx t1 t2 key h) = h \<and> fst (opt_GetTTLWithCtx t1 t2 key h) \<noteq> Inl RuntimePanic"
proof -
  obtain s where "getShard (str key) h = Some s"
    using assms opt_index_bound [of h "str key"] by (auto simp: opt_good_def getShard_def)
  then show ?thesis by (simp add: opt_GetTTLWithCtx_def shard_get_ttl_def Let_def split: option.splits)
qed

lemma good_exec:
  assumes "opt_good cs h"
  shows "opt_good cs (snd (opt_exec c h)) \<and> fst (opt_exec c h) \<noteq> Some RuntimePanic"
proof (cases c)
  case (OCompute pick rd c0 c1 key ttl r)
  have "load_answer r \<noteq> Inl RuntimePanic" by (simp add: load_answer_def split: sum.splits)
  with good_compute [OF assms, where loader = "\<lambda>w. (load_answer r, w)" and w = "()" and pick = pick and key = key and ttl = ttl
        and en = "\<lparr>clk = rd, obs = (\<lambda>i. ask_done (if i = 0 then c0 else c1))\<rparr>"]
  show ?thesis by (simp add: OCompute Let_def split_beta)
qed (use assms good_get good_set good_del good_close good_load [of cs h None] good_ttl in
  \<open>simp_all add: opt_load_timer_def\<close>)

lemma good_run:
  "opt_good cs h \<Longrightarrow> opt_good cs (snd (opt_run calls h)) \<and> Some RuntimePanic \<notin> set (fst (opt_run calls h))"
proof (induction calls arbitrary: h)
  case (Cons c calls)
  then show ?case using good_exec [OF Cons.prems, of c] by auto
qed simp

lemma opt_entries_bound:
  assumes "opt_inv h" "\<forall>s \<in> set (opt_shards h). 0 < sh_capacity s"
  shows "sum_list (map sh_size (opt_shards h)) \<le> sum_list (map sh_capacity (opt_shards h))"
proof (rule sum_list_mono)
  fix s assume "s \<in> set (opt_shards h)"
  with assms show "sh_size s \<le> sh_capacity s" by (auto simp: opt_inv_def shard_ok_def shard_core_def)
qed

text \<open>
  C2: Whatever calls are made on a new optimised handler, computing, clearing and closing included, no
  operation follows a nil pointer or indexes past the shards, the linked lists, maps and pools stay
  consistent, and fewer entries than the requested number plus one per shard are held.
\<close>
theorem opt_run_safe:
  assumes "ifLeZero_law f" "n + 256 \<le> max_int64" "NewLRUOptimizedHandler f g n = Some h"
  shows "opt_inv (snd (opt_run calls h)) \<and> Some RuntimePanic \<notin> set (fst (opt_run calls h)) \<and>
    sum_list (map sh_size (opt_shards (snd (opt_run calls h)))) <
      (if n \<le> 0 then 1024 else n) + int (length (opt_shards h))"
proof -
  have h: "opt_inv h" "opt_maxEntries h = (if n \<le> 0 then 1024 else n)"
    "sum_list (map sh_capacity (opt_shards h)) < opt_maxEntries h + int (length (opt_shards h))"
    "\<forall>s \<in> set (opt_shards h). 0 < sh_capacity s"
    using opt_new_ok [OF assms(1,2), of g] unfolding assms(3) option.inject by blast+
  let ?cs = "map sh_capacity (opt_shards h)" and ?h = "snd (opt_run calls h)"
  have "opt_loadGroup h = Map.empty"
    using assms(3) by (auto simp: NewLRUOptimizedHandler_def Let_def split: Option.bind_splits)
  then have "opt_good ?cs h" using h(1) by (simp add: opt_good_def)
  from good_run [OF this, of calls] have r: "opt_inv ?h" "map sh_capacity (opt_shards ?h) = ?cs"
    "Some RuntimePanic \<notin> set (fst (opt_run calls h))" by (auto simp: opt_good_def)
  have "\<forall>s \<in> set (opt_shards ?h). 0 < sh_capacity s"
    using h(4) r(2) by (metis (no_types, opaque_lifting) image_iff list.set_map)
  from opt_entries_bound [OF r(1) this] r h(2,3) show ?thesis by simp
qed

lemma opt_run_safe_witness:
  "\<exists>h. NewLRUOptimizedHandler (\<lambda>v d. if v \<le> 0 then d else v) 4 100 = Some h \<and>
     opt_inv (snd (opt_run [OSet 0 5 (Some [1]) (Some [2]) 7, OGet 13 13 (Some [1]), OClose, ODel (Some [1])] h))"
proof -
  have "(100::int) + 256 \<le> max_int64" by (simp add: max_int64_def)
  from opt_new_ok [OF ifLeZero_law_example this, of 4] obtain h where
    h: "NewLRUOptimizedHandler (\<lambda>v d. if v \<le> 0 then d else v) 4 100 = Some h" by blast
  from opt_run_safe [OF ifLeZero_law_example \<open>100 + 256 \<le> max_int64\<close> h,
      of "[OSet 0 5 (Some [1]) (Some [2]) 7, OGet 13 13 (Some [1]), OClose, ODel (Some [1])]"] h
  show ?thesis by blast
qed

end
