(* ===== verification/Expiring.thy ===== *)
theory Expiring
  imports Handler_Interface
begin

text \<open>
  \<open>ExpiringHandler\<close> of \<open>expiring.go\<close>: a map from keys to values with a deadline, lazy deletion on
  lookup, and the background sweep that samples the map in short rounds.

  A lookup has two critical sections, one under the read lock and one under the write lock, which
  are definitions of their own; the clock is read once in each. \<open>order\<close> is the order in which Go's
  \<open>range\<close> walks the map, which the language leaves open. \<open>ex_stop\<close> is the closed stop channel.
\<close>

record expItem =
  ei_val :: slice
  ei_expiry :: "time option"

record ExpiringHandler =
  ex_items :: "go_string \<rightharpoonup> expItem"
  ex_interval :: duration
  ex_stop :: bool
  ex_closed :: bool

definition NewExpiringHandler :: "(int \<Rightarrow> int \<Rightarrow> int) \<Rightarrow> duration \<Rightarrow> ExpiringHandler" where
  "NewExpiringHandler ifLeZero cleanupInterval =
     \<lparr>ex_items = Map.empty, ex_interval = ifLeZero cleanupInterval second, ex_stop = False, ex_closed = False\<rparr>"

section \<open>The sweep\<close>

definition expSweepSampleSize :: nat where "expSweepSampleSize = 256"
definition expSweepMaxRounds :: nat where "expSweepMaxRounds = 16"
definition expSweepBudget :: duration where "expSweepBudget = 2000000"
definition expSweepContinueRatio :: nat where "expSweepContinueRatio = 4"

fun ex_sample_loop ::
  "time \<Rightarrow> nat \<Rightarrow> nat \<Rightarrow> nat \<Rightarrow> go_string list \<Rightarrow> (go_string \<rightharpoonup> expItem) \<Rightarrow> nat \<times> nat \<times> (go_string \<rightharpoonup> expItem)" where
  "ex_sample_loop now limit scanned gone [] items = (scanned, gone, items)"
| "ex_sample_loop now limit scanned gone (k # order) items =
     (case items k of
        None \<Rightarrow> ex_sample_loop now limit scanned gone order items
      | Some it \<Rightarrow>
          if limit \<le> scanned then (scanned, gone, items)
          else if expired (ei_expiry it) now
          then ex_sample_loop now limit (Suc scanned) (Suc gone) order (items(k := None))
          else ex_sample_loop now limit (Suc scanned) gone order items)"

definition sweepSample :: "time \<Rightarrow> go_string list \<Rightarrow> nat \<Rightarrow> ExpiringHandler \<Rightarrow> nat \<times> nat \<times> ExpiringHandler" where
  "sweepSample now order limit h =
     (case ex_sample_loop now limit 0 0 order (ex_items h) of
        (scanned, gone, items) \<Rightarrow> (scanned, gone, h\<lparr>ex_items := items\<rparr>))"

text \<open>Round \<open>r\<close> samples at time \<open>sample r\<close> in the order \<open>orders r\<close>; \<open>after r\<close> is the reading that is
  compared with the deadline after it.\<close>

fun sweep_rounds ::
  "nat \<Rightarrow> nat \<Rightarrow> (nat \<Rightarrow> time) \<Rightarrow> (nat \<Rightarrow> time) \<Rightarrow> (nat \<Rightarrow> go_string list) \<Rightarrow> time \<Rightarrow> ExpiringHandler \<Rightarrow> ExpiringHandler" where
  "sweep_rounds 0 r sample after orders deadline h = h"
| "sweep_rounds (Suc n) r sample after orders deadline h =
     (case sweepSample (sample r) (orders r) expSweepSampleSize h of
        (scanned, gone, h') \<Rightarrow>
          if scanned = 0 then h'
          else if gone * expSweepContinueRatio < scanned then h'
          else if deadline < after r then h'
          else sweep_rounds n (Suc r) sample after orders deadline h')"

definition sweepIncremental ::
  "time \<Rightarrow> (nat \<Rightarrow> time) \<Rightarrow> (nat \<Rightarrow> time) \<Rightarrow> (nat \<Rightarrow> go_string list) \<Rightarrow> ExpiringHandler \<Rightarrow> ExpiringHandler" where
  "sweepIncremental start sample after orders h =
     sweep_rounds expSweepMaxRounds 0 sample after orders (start + expSweepBudget) h"

text \<open>What the cleaning goroutine does when it wakes: a tick sweeps, a closed stop channel ends it.
  When both are ready Go picks either; \<open>tick\<close> is that choice, and \<open>None\<close> is the goroutine's return.\<close>

definition cleanup_wake ::
  "bool \<Rightarrow> time \<Rightarrow> (nat \<Rightarrow> time) \<Rightarrow> (nat \<Rightarrow> time) \<Rightarrow> (nat \<Rightarrow> go_string list) \<Rightarrow> ExpiringHandler \<Rightarrow> ExpiringHandler option" where
  "cleanup_wake tick start sample after orders h =
     (if tick then Some (sweepIncremental start sample after orders h) else if ex_stop h then None else Some h)"

section \<open>The operations\<close>

definition copyB :: "slice \<Rightarrow> slice" where
  "copyB b = (case b of None \<Rightarrow> None | Some xs \<Rightarrow> Some xs)"

definition ex_expiry_for :: "time \<Rightarrow> duration \<Rightarrow> time option" where
  "ex_expiry_for now ttl =
     (if 0 < ttl then Some (now + ttl) else if ttl = 0 then Some (now - second) else None)"

definition ex_SetWithTTLAndCtx ::
  "time \<Rightarrow> slice \<Rightarrow> slice \<Rightarrow> duration \<Rightarrow> ExpiringHandler \<Rightarrow> go_error option \<times> ExpiringHandler" where
  "ex_SetWithTTLAndCtx now key value ttl h =
     (case ValidateWriteWithTTLOp key value ttl True (ex_closed h) of
        Some err \<Rightarrow> (Some err, h)
      | None \<Rightarrow>
          let it = \<lparr>ei_val = copyB value, ei_expiry = ex_expiry_for now ttl\<rparr>
          in (None, h\<lparr>ex_items := (ex_items h)(str key \<mapsto> it)\<rparr>))"

definition ex_SetWithCtx ::
  "time \<Rightarrow> slice \<Rightarrow> slice \<Rightarrow> ExpiringHandler \<Rightarrow> go_error option \<times> ExpiringHandler" where
  "ex_SetWithCtx now key value h = ex_SetWithTTLAndCtx now key value (-1) h"

text \<open>The section under the write lock: the key is looked up again and deleted if it is expired now.\<close>

definition ex_lazy_delete :: "time \<Rightarrow> go_string \<Rightarrow> ExpiringHandler \<Rightarrow> ExpiringHandler" where
  "ex_lazy_delete now k h =
     (case ex_items h k of
        None \<Rightarrow> h
      | Some cur \<Rightarrow> if expired (ei_expiry cur) now then h\<lparr>ex_items := (ex_items h)(k := None)\<rparr> else h)"

definition ex_GetWithCtx ::
  "time \<Rightarrow> time \<Rightarrow> slice \<Rightarrow> ExpiringHandler \<Rightarrow> slice go_result \<times> ExpiringHandler" where
  "ex_GetWithCtx now1 now2 key h =
     (case ValidateBasicOp key True (ex_closed h) of
        Some err \<Rightarrow> (Inl err, h)
      | None \<Rightarrow>
          (case ex_items h (str key) of
             None \<Rightarrow> (Inl ErrNotFound, h)
           | Some it \<Rightarrow>
               if expired (ei_expiry it) now1 then (Inl ErrNotFound, ex_lazy_delete now2 (str key) h)
               else (Inr (copyB (ei_val it)), h)))"

definition ex_GetTTLWithCtx ::
  "time \<Rightarrow> slice \<Rightarrow> ExpiringHandler \<Rightarrow> duration go_result \<times> ExpiringHandler" where
  "ex_GetTTLWithCtx now key h =
     (case ValidateBasicOp key True (ex_closed h) of
        Some err \<Rightarrow> (Inl err, h)
      | None \<Rightarrow>
          (case ex_items h (str key) of
             None \<Rightarrow> (Inl ErrNotFound, h)
           | Some it \<Rightarrow>
               (case ei_expiry it of None \<Rightarrow> (Inr 0, h) | Some e \<Rightarrow> (Inr (time_until e now), h))))"

definition ex_DelWithCtx :: "slice \<Rightarrow> ExpiringHandler \<Rightarrow> go_error option \<times> ExpiringHandler" where
  "ex_DelWithCtx key h =
     (case ValidateBasicOp key True (ex_closed h) of
        Some err \<Rightarrow> (Some err, h)
      | None \<Rightarrow> (None, h\<lparr>ex_items := (ex_items h)(str key := None)\<rparr>))"

definition ex_batch_slot :: "time \<Rightarrow> ExpiringHandler \<Rightarrow> slice \<Rightarrow> slice \<times> go_error option" where
  "ex_batch_slot now h key =
     (if slice_len key = 0 then (None, Some ErrInvalidKey)
      else (case ex_items h (str key) of
              None \<Rightarrow> (None, Some ErrNotFound)
            | Some item \<Rightarrow>
                if expired (ei_expiry item) now then (None, Some ErrNotFound)
                else (Some (str (ei_val item)), None)))"

definition ex_BatchGetWithCtx :: "time \<Rightarrow> slice list \<Rightarrow> ExpiringHandler \<Rightarrow> batch_result" where
  "ex_BatchGetWithCtx now keys h =
     (if keys = [] then ([], [])
      else if ex_closed h then (replicate (length keys) None, replicate (length keys) (Some ErrClosed))
      else (map (\<lambda>k. fst (ex_batch_slot now h k)) keys, map (\<lambda>k. snd (ex_batch_slot now h k)) keys))"

definition ex_compute ::
  "env \<Rightarrow> slice \<Rightarrow> duration \<Rightarrow> 'w loader \<Rightarrow> ExpiringHandler \<Rightarrow> 'w \<Rightarrow> slice go_result \<times> ExpiringHandler \<times> 'w" where
  "ex_compute en key ttl loader h w =
     (case obs en 0 of
        Some err \<Rightarrow> (Inl err, h, w)
      | None \<Rightarrow>
          (case loader w of
             (Inl err, w') \<Rightarrow> (Inl err, h, w')
           | (Inr val, w') \<Rightarrow>
               (Inr (Some (str val)),
                if ttl \<le> 0 then snd (ex_SetWithCtx (clk en 1) key val h)
                else snd (ex_SetWithTTLAndCtx (clk en 1) key val ttl h), w')))"

definition ex_GetOrComputeWithCtx ::
  "env \<Rightarrow> slice \<Rightarrow> duration \<Rightarrow> 'w loader \<Rightarrow> ExpiringHandler \<Rightarrow> 'w \<Rightarrow> slice go_result \<times> ExpiringHandler \<times> 'w" where
  "ex_GetOrComputeWithCtx en key ttl loader h w =
     (if slice_len key = 0 then (Inl ErrInvalidKey, h, w)
      else if ex_closed h then (Inl ErrClosed, h, w)
      else (case ex_items h (str key) of
              Some item \<Rightarrow>
                if expired (ei_expiry item) (clk en 0) then ex_compute en key ttl loader h w
                else (Inr (Some (str (ei_val item))), h, w)
            | None \<Rightarrow> ex_compute en key ttl loader h w))"

record ex_stats =
  es_entries :: nat
  es_expired :: nat
  es_closed :: bool

definition ex_Stats :: "time \<Rightarrow> go_string list \<Rightarrow> ExpiringHandler \<Rightarrow> ex_stats" where
  "ex_Stats now order h =
     (if ex_closed h then \<lparr>es_entries = 0, es_expired = 0, es_closed = True\<rparr>
      else \<lparr>es_entries = length order,
            es_expired = length (filter (\<lambda>k. case ex_items h k of None \<Rightarrow> False
              | Some it \<Rightarrow> expired (ei_expiry it) now) order),
            es_closed = ex_closed h\<rparr>)"

text \<open>\<open>close\<close> of a channel that is closed already panics.\<close>

definition ex_Close :: "ExpiringHandler \<Rightarrow> go_error option \<times> ExpiringHandler" where
  "ex_Close h =
     (if ex_closed h then (None, h)
      else if ex_stop h then (Some RuntimePanic, h\<lparr>ex_closed := True\<rparr>)
      else (None, h\<lparr>ex_closed := True, ex_stop := True\<rparr>))"

text \<open>The methods without a context.\<close>

definition ex_Get :: "time \<Rightarrow> time \<Rightarrow> slice \<Rightarrow> ExpiringHandler \<Rightarrow> slice go_result \<times> ExpiringHandler" where
  "ex_Get now1 now2 key h = ex_GetWithCtx now1 now2 key h"

definition ex_GetTTL :: "time \<Rightarrow> slice \<Rightarrow> ExpiringHandler \<Rightarrow> duration go_result \<times> ExpiringHandler" where
  "ex_GetTTL now key h = ex_GetTTLWithCtx now key h"

definition ex_Set :: "time \<Rightarrow> slice \<Rightarrow> slice \<Rightarrow> ExpiringHandler \<Rightarrow> go_error option \<times> ExpiringHandler" where
  "ex_Set now key value h = ex_SetWithCtx now key value h"

definition ex_SetWithTTL ::
  "time \<Rightarrow> slice \<Rightarrow> slice \<Rightarrow> duration \<Rightarrow> ExpiringHandler \<Rightarrow> go_error option \<times> ExpiringHandler" where
  "ex_SetWithTTL now key value ttl h = ex_SetWithTTLAndCtx now key value ttl h"

definition ex_Del :: "slice \<Rightarrow> ExpiringHandler \<Rightarrow> go_error option \<times> ExpiringHandler" where
  "ex_Del key h = ex_DelWithCtx key h"

definition ex_BatchGet :: "time \<Rightarrow> slice list \<Rightarrow> ExpiringHandler \<Rightarrow> batch_result" where
  "ex_BatchGet now keys h = ex_BatchGetWithCtx now keys h"

definition ex_GetOrCompute ::
  "(nat \<Rightarrow> time) \<Rightarrow> slice \<Rightarrow> duration \<Rightarrow> 'w loader \<Rightarrow> ExpiringHandler \<Rightarrow> 'w \<Rightarrow> slice go_result \<times> ExpiringHandler \<times> 'w" where
  "ex_GetOrCompute rd key ttl loader h w =
     ex_GetOrComputeWithCtx \<lparr>clk = rd, obs = (\<lambda>_. None)\<rparr> key ttl loader h w"

definition ex_handler :: "(ExpiringHandler, 'w) handler" where
  "ex_handler = \<lparr>SetWithCtx = ex_SetWithCtx, SetWithTTLAndCtx = ex_SetWithTTLAndCtx,
     GetWithCtx = (\<lambda>now. ex_GetWithCtx now now), GetTTLWithCtx = ex_GetTTLWithCtx,
     DelWithCtx = ex_DelWithCtx, BatchGetWithCtx = (\<lambda>rd keys h. (ex_BatchGetWithCtx (rd 0) keys h, h)),
     GetOrComputeWithCtx = ex_GetOrComputeWithCtx, CloseH = ex_Close\<rparr>"

end
