(* ===== verification/Expiring_Correct.thy ===== *)
theory Expiring_Correct
  imports Expiring
begin

text \<open>
  Correctness of \<open>ExpiringHandler\<close>: it is an exact map with deadlines (nothing is ever evicted), the
  sweep and the lazy deletion remove expired entries only, and the handler meets the full contract
  \<^theory_text>\<open>cache_handler\<close>.
\<close>

section \<open>Invariant and view\<close>

lemma copyB_id [simp]: "copyB b = b"
  by (simp add: copyB_def split: option.splits)

definition ex_inv :: "ExpiringHandler \<Rightarrow> bool" where
  "ex_inv h \<longleftrightarrow> finite (dom (ex_items h)) \<and> ex_stop h = ex_closed h \<and> (\<forall>it \<in> ran (ex_items h). ei_val it \<noteq> None)"

definition ex_view :: "time \<Rightarrow> ExpiringHandler \<Rightarrow> go_string \<Rightarrow> slice option" where
  "ex_view t h k =
     (case ex_items h k of None \<Rightarrow> None
      | Some it \<Rightarrow> if expired (ei_expiry it) t then None else Some (ei_val it))"

lemma NewExpiringHandler_inv: "ex_inv (NewExpiringHandler f d)" "\<not> ex_closed (NewExpiringHandler f d)"
  by (simp_all add: ex_inv_def NewExpiringHandler_def)

definition ex_demo :: ExpiringHandler where
  "ex_demo = NewExpiringHandler (\<lambda>v d. v) 3"

lemma ex_demo_ok [simp]: "ex_inv ex_demo" "\<not> ex_closed ex_demo" "ex_view t ex_demo k = None" "ex_items ex_demo = Map.empty"
  by (simp_all add: ex_demo_def NewExpiringHandler_inv) (simp_all add: NewExpiringHandler_def ex_view_def)

lemma ex_view_cong: "ex_items h' = ex_items h \<Longrightarrow> ex_view t h' = ex_view t h"
  by (simp add: ex_view_def fun_eq_iff)

lemma ex_lazy_delete_ok:
  "ex_inv h \<Longrightarrow> ex_inv (ex_lazy_delete now k h)"
  "now \<le> t \<Longrightarrow> ex_view t (ex_lazy_delete now k h) = ex_view t h"
  "ex_closed (ex_lazy_delete now k h) = ex_closed h"
  by (auto simp: ex_lazy_delete_def ex_inv_def ran_def ex_view_def fun_eq_iff expired_mono split: option.splits)

lemma ex_get_open:
  assumes "\<not> ex_closed h"
  shows "fst (ex_GetWithCtx now1 now2 (Some k) h) = found (ex_view now1 h k)"
  using assms by (auto simp: ex_GetWithCtx_def go_simps ex_view_def split: option.splits)

lemma ex_get_state:
  "ex_inv h \<Longrightarrow> ex_inv (snd (ex_GetWithCtx now1 now2 key h))"
  "ex_closed (snd (ex_GetWithCtx now1 now2 key h)) = ex_closed h"
  "now2 \<le> t \<Longrightarrow> ex_view t (snd (ex_GetWithCtx now1 now2 key h)) = ex_view t h"
  by (auto simp: ex_GetWithCtx_def ex_lazy_delete_ok split: option.splits)

lemma ex_set_ok:
  assumes "\<not> ex_closed h" "-1 \<le> ttl"
  shows "ex_SetWithTTLAndCtx now (Some k) (Some v) ttl h =
    (None, h\<lparr>ex_items := (ex_items h)(k \<mapsto> \<lparr>ei_val = Some v, ei_expiry = ex_expiry_for now ttl\<rparr>)\<rparr>)"
  using assms by (simp add: ex_SetWithTTLAndCtx_def go_simps)

lemma ex_set_err:
  "key = None \<or> value = None \<or> ttl < -1 \<or> ex_closed h \<Longrightarrow>
   \<exists>e. ex_SetWithTTLAndCtx now key value ttl h = (Some e, h)"
  by (auto simp: ex_SetWithTTLAndCtx_def go_simps)

lemma ex_set_state:
  "ex_inv h \<Longrightarrow> ex_inv (snd (ex_SetWithTTLAndCtx now key value ttl h))"
  "ex_closed (snd (ex_SetWithTTLAndCtx now key value ttl h)) = ex_closed h"
  by (auto simp: ex_SetWithTTLAndCtx_def go_simps ex_inv_def Let_def ran_def split: if_splits)

lemma ex_expiry_lives: "-1 \<le> ttl \<Longrightarrow> now \<le> t \<Longrightarrow> expired (ex_expiry_for now ttl) t \<longleftrightarrow> \<not> lives now ttl t"
  by (auto simp: ex_expiry_for_def lives_def second_def)

lemma ex_set_view:
  assumes "\<not> ex_closed h" "-1 \<le> ttl" "now \<le> t"
  shows "ex_view t (snd (ex_SetWithTTLAndCtx now (Some k) (Some v) ttl h)) =
    (ex_view t h)(k := if lives now ttl t then Some (Some v) else None)"
  using ex_expiry_lives [OF assms(2,3)] by (auto simp: ex_set_ok [OF assms(1,2)] ex_view_def fun_eq_iff)

lemma ex_set_other:
  assumes "k' \<noteq> k"
  shows "ex_view t (snd (ex_SetWithTTLAndCtx now (Some k) value ttl h)) k' = ex_view t h k'"
  using assms by (auto simp: ex_SetWithTTLAndCtx_def go_simps ex_view_def Let_def)

lemma ex_del_state:
  "ex_inv h \<Longrightarrow> ex_inv (snd (ex_DelWithCtx key h))"
  "ex_closed (snd (ex_DelWithCtx key h)) = ex_closed h"
  by (auto simp: ex_DelWithCtx_def go_simps ex_inv_def ran_def)

lemma ex_del_view:
  "\<not> ex_closed h \<Longrightarrow> ex_view t (snd (ex_DelWithCtx (Some k) h)) = (ex_view t h)(k := None)"
  by (auto simp: ex_DelWithCtx_def go_simps ex_view_def fun_eq_iff)

lemma ex_close_ok: "ex_inv h \<Longrightarrow> ex_inv (snd (ex_Close h)) \<and> ex_closed (snd (ex_Close h)) \<and> fst (ex_Close h) = None"
  by (auto simp: ex_Close_def ex_inv_def)

lemma ex_shut:
  "GetWithCtx ex_handler now None h = (Inl ErrInvalidKey, h)"
  "ex_closed h \<Longrightarrow> GetWithCtx ex_handler now (Some k) h = (Inl ErrClosed, h)"
  "\<not> ex_closed h \<Longrightarrow> fst (DelWithCtx ex_handler (Some k) h) = None"
  "\<not> ex_closed h \<Longrightarrow> -1 \<le> ttl \<Longrightarrow> fst (SetWithTTLAndCtx ex_handler now (Some k) (Some v) ttl h) = None"
  by (simp_all add: ex_handler_def ex_GetWithCtx_def ex_DelWithCtx_def ex_set_ok go_simps)

interpretation ex: cache_handler "ex_handler :: (ExpiringHandler, 'w) handler" ex_inv ex_closed ex_view Some
proof (unfold_locales, goal_cases)
  case (7 s key "value" ttl now)
  then show ?case using ex_set_err by (simp add: ex_handler_def)
next
  case (14 s key)
  then show ?case by (auto simp: ex_handler_def ex_DelWithCtx_def go_simps)
qed (auto simp: ex_shut, auto simp: ex_handler_def ex_get_open ex_get_state ex_set_view ex_set_state ex_set_other
    ex_SetWithCtx_def ex_del_state ex_del_view ex_close_ok ttl_ok_def)

text \<open>The handler at a trivial world, where no loader runs.\<close>

abbreviation exH :: "(ExpiringHandler, unit) handler" where
  "exH \<equiv> ex_handler"

section \<open>The sweep\<close>

lemma ex_sample_loop_safe:
  assumes "ex_sample_loop now limit sc g order items = (sc', g', items')"
  shows "items' \<subseteq>\<^sub>m items \<and> (\<forall>k it. items k = Some it \<longrightarrow> items' k = Some it \<or> items' k = None \<and> expired (ei_expiry it) now)"
  using assms
proof (induction order arbitrary: sc g items)
  case (Cons k order)
  show ?case
  proof (cases "items k")
    case None
    with Cons show ?thesis by simp
  next
    case (Some it)
    consider (stop) "limit \<le> sc" | (gone) "\<not> limit \<le> sc" "expired (ei_expiry it) now"
      | (keep) "\<not> limit \<le> sc" "\<not> expired (ei_expiry it) now" by blast
    then show ?thesis
    proof cases
      case stop
      with Cons.prems Some show ?thesis by (auto simp: map_le_def)
    next
      case gone
      define i2 where "i2 = items(k := None)"
      have "ex_sample_loop now limit (Suc sc) (Suc g) order i2 = (sc', g', items')"
        using Cons.prems Some gone by (simp add: i2_def)
      from Cons.IH [OF this] have IH: "items' \<subseteq>\<^sub>m i2"
        "\<forall>j it. i2 j = Some it \<longrightarrow> items' j = Some it \<or> items' j = None \<and> expired (ei_expiry it) now" by auto
      have "items' k = None"
      proof (rule ccontr)
        assume "items' k \<noteq> None"
        then have "items' k = i2 k" using IH(1) by (auto simp: map_le_def)
        then show False using \<open>items' k \<noteq> None\<close> by (simp add: i2_def)
      qed
      moreover have "items' \<subseteq>\<^sub>m items" using IH(1) \<open>items' k = None\<close> by (auto simp: map_le_def i2_def split: if_splits)
      moreover have "items' j = Some x \<or> items' j = None \<and> expired (ei_expiry x) now" if "items j = Some x" for j x
        using that IH(2) gone(2) Some \<open>items' k = None\<close> by (cases "j = k") (auto simp: i2_def)
      ultimately show ?thesis by blast
    next
      case keep
      then have "ex_sample_loop now limit (Suc sc) g order items = (sc', g', items')"
        using Cons.prems Some by simp
      then show ?thesis by (rule Cons.IH)
    qed
  qed
qed auto

lemma sweepSample_safe:
  assumes "sweepSample now order limit h = (sc, g, h')" "now \<le> t"
  shows "ex_view t h' = ex_view t h \<and> ex_items h' \<subseteq>\<^sub>m ex_items h \<and> ex_closed h' = ex_closed h \<and> ex_stop h' = ex_stop h"
proof -
  obtain items where s: "ex_sample_loop now limit 0 0 order (ex_items h) = (sc, g, items)" "h' = h\<lparr>ex_items := items\<rparr>"
    using assms(1) by (auto simp: sweepSample_def split: prod.splits)
  note safe = ex_sample_loop_safe [OF s(1)]
  have "ex_view t h' k = ex_view t h k" for k
  proof (cases "ex_items h k")
    case None
    then have "items k = None" using safe by (metis domIff map_le_def)
    with None s(2) show ?thesis by (simp add: ex_view_def)
  next
    case (Some it)
    with safe have "items k = Some it \<or> items k = None \<and> expired (ei_expiry it) now" by blast
    with Some s(2) show ?thesis using expired_mono [of "ei_expiry it" now t] assms(2) by (auto simp: ex_view_def)
  qed
  with safe s(2) show ?thesis by (auto simp: fun_eq_iff)
qed

lemma sweep_rounds_safe:
  assumes "\<forall>r. sample r \<le> t"
  shows "ex_view t (sweep_rounds n r sample after orders deadline h) = ex_view t h \<and>
    ex_items (sweep_rounds n r sample after orders deadline h) \<subseteq>\<^sub>m ex_items h \<and>
    ex_closed (sweep_rounds n r sample after orders deadline h) = ex_closed h \<and>
    ex_stop (sweep_rounds n r sample after orders deadline h) = ex_stop h"
proof (induction n arbitrary: r h)
  case (Suc n)
  obtain sc g h' where s: "sweepSample (sample r) (orders r) expSweepSampleSize h = (sc, g, h')"
    by (metis prod_cases3)
  have "sample r \<le> t" using assms by simp
  from sweepSample_safe [OF s this] Suc.IH [of "Suc r" h'] s show ?case
    by (auto intro: map_le_trans)
qed simp

text \<open>
  C34: The background sweep never removes a live entry: whatever order the map is walked in, however
  many rounds it takes, an entry that it removed was expired when it was sampled, so that every
  lookup from then on answers as it would have without the sweep.
\<close>
theorem ex_sweep_safe:
  assumes "\<forall>r. sample r \<le> t"
  shows "fst (ex_GetWithCtx t t key (sweepIncremental start sample after orders h)) = fst (ex_GetWithCtx t t key h) \<and>
    ex_items (sweepIncremental start sample after orders h) \<subseteq>\<^sub>m ex_items h"
proof -
  let ?h = "sweepIncremental start sample after orders h"
  have s: "ex_view t ?h = ex_view t h" "ex_items ?h \<subseteq>\<^sub>m ex_items h" "ex_closed ?h = ex_closed h"
    using sweep_rounds_safe [OF assms] by (simp_all add: sweepIncremental_def)
  have "fst (ex_GetWithCtx t t key ?h) = fst (ex_GetWithCtx t t key h)"
  proof (cases "key = None \<or> ex_closed h")
    case True
    with s(3) show ?thesis by (auto simp: ex_GetWithCtx_def go_simps)
  next
    case False
    with s ex_get_open [of ?h t t] ex_get_open [of h t t] show ?thesis by auto
  qed
  with s(2) show ?thesis by simp
qed

lemma ex_sweep_safe_witness:
  "fst (ex_GetWithCtx 9 9 (Some [1]) (sweepIncremental 5 (\<lambda>r. 6) (\<lambda>r. 7) (\<lambda>r. [[1]])
     (snd (ex_SetWithTTLAndCtx 1 (Some [1]) (Some [2]) 9 ex_demo)))) = Inr (Some [2])"
  using ex_sweep_safe [of "\<lambda>r. 6" 9 "Some [1]" 5 "\<lambda>r. 7" "\<lambda>r. [[1]]"
      "snd (ex_SetWithTTLAndCtx 1 (Some [1]) (Some [2]) 9 ex_demo)"]
    ex_set_view [of "ex_demo" 9 1 9 "[1]" "[2]"]
  by (simp add: ex_get_open ex_set_state lives_def)

text \<open>What one round does, and how much it does under the lock.\<close>

lemma ex_sample_loop_effect:
  assumes "ex_sample_loop now limit sc g order items = (sc', g', items')" "distinct order"
    "set order \<subseteq> dom items" "sc \<le> limit"
  shows "sc' = min limit (sc + length order) \<and>
    items' = (\<lambda>k. if k \<in> set (take (limit - sc) order) \<and> expired (ei_expiry (the (items k))) now then None else items k) \<and>
    g' = g + length (filter (\<lambda>k. expired (ei_expiry (the (items k))) now) (take (limit - sc) order))"
  using assms
proof (induction order arbitrary: sc g items)
  case (Cons k order)
  from Cons.prems(3) obtain it where it: "items k = Some it" by auto
  show ?case
  proof (cases "limit \<le> sc")
    case True
    with Cons.prems it show ?thesis by auto
  next
    case False
    then have tk: "take (limit - sc) (k # order) = k # take (limit - Suc sc) order"
      by (simp add: take_Cons' Suc_diff_Suc)
    have nk: "k \<notin> set order" "k \<notin> set (take (limit - Suc sc) order)"
      using Cons.prems(2) by (auto dest: in_set_takeD)
    show ?thesis
    proof (cases "expired (ei_expiry it) now")
      case True
      define i2 where "i2 = items(k := None)"
      have i2: "j \<noteq> k \<Longrightarrow> i2 j = items j" "i2 k = None" for j by (simp_all add: i2_def)
      have fl: "filter (\<lambda>j. expired (ei_expiry (the (i2 j))) now) (take (limit - Suc sc) order) =
          filter (\<lambda>j. expired (ei_expiry (the (items j))) now) (take (limit - Suc sc) order)"
        using nk(2) i2(1) by (intro filter_cong) (auto, (metis i2(1))+)
      have d: "set order \<subseteq> dom i2" using Cons.prems(3) nk(1) by (auto simp: i2_def)
      have "ex_sample_loop now limit (Suc sc) (Suc g) order i2 = (sc', g', items')"
        using Cons.prems(1) it True \<open>\<not> limit \<le> sc\<close> by (simp add: i2_def)
      from Cons.IH [OF this _ d] Cons.prems(2) \<open>\<not> limit \<le> sc\<close>
      have IH: "sc' = min limit (Suc sc + length order)"
        "items' = (\<lambda>j. if j \<in> set (take (limit - Suc sc) order) \<and> expired (ei_expiry (the (i2 j))) now
          then None else i2 j)"
        "g' = Suc g + length (filter (\<lambda>j. expired (ei_expiry (the (i2 j))) now) (take (limit - Suc sc) order))"
        by auto
      have "items' j = (if j \<in> set (take (limit - sc) (k # order)) \<and> expired (ei_expiry (the (items j))) now
          then None else items j)" for j
        unfolding tk using True it nk(2) i2 by (cases "j = k") (auto simp: IH(2))
      then show ?thesis unfolding tk IH(1,3) fl using True it by auto
    next
      case False
      with Cons.IH [of "Suc sc" g items] Cons.prems it \<open>\<not> limit \<le> sc\<close>
      have IH: "sc' = min limit (Suc sc + length order)"
        "items' = (\<lambda>j. if j \<in> set (take (limit - Suc sc) order) \<and> expired (ei_expiry (the (items j))) now
          then None else items j)"
        "g' = g + length (filter (\<lambda>j. expired (ei_expiry (the (items j))) now) (take (limit - Suc sc) order))"
        by auto
      show ?thesis unfolding tk IH using False it by (auto simp: fun_eq_iff)
    qed
  qed
qed auto

text \<open>
  A round under the lock looks at no more entries than its limit, and exactly as many as there are
  when the map is smaller; of those it removes precisely the expired ones and counts them. A map of
  at most the sample size is swept clean in one round.
\<close>
theorem ex_sample_exact:
  assumes "distinct order" "set order = dom (ex_items h)"
    and "sweepSample now order limit h = (scanned, gone, h')"
  shows "scanned = min limit (card (dom (ex_items h))) \<and> gone \<le> scanned \<and>
    card (dom (ex_items h')) + gone = card (dom (ex_items h)) \<and>
    (card (dom (ex_items h)) \<le> limit \<longrightarrow>
      ex_items h' = (\<lambda>k. case ex_items h k of None \<Rightarrow> None
        | Some it \<Rightarrow> if expired (ei_expiry it) now then None else Some it))"
proof -
  obtain items where s: "ex_sample_loop now limit 0 0 order (ex_items h) = (scanned, gone, items)" "h' = h\<lparr>ex_items := items\<rparr>"
    using assms(3) by (auto simp: sweepSample_def split: prod.splits)
  let ?E = "\<lambda>k. expired (ei_expiry (the (ex_items h k))) now"
  have e: "scanned = min limit (length order)"
    "items = (\<lambda>k. if k \<in> set (take limit order) \<and> ?E k then None else ex_items h k)"
    "gone = length (filter ?E (take limit order))"
    using ex_sample_loop_effect [OF s(1) assms(1)] assms(2) by auto
  have len: "length order = card (dom (ex_items h))" using assms(1,2) distinct_card by metis
  let ?G = "set (filter ?E (take limit order))"
  have "card ?G = gone" unfolding e(3) by (rule distinct_card) (use assms(1) in simp)
  moreover have sub: "?G \<subseteq> dom (ex_items h)" using assms(2) by (auto dest: in_set_takeD)
  moreover have "dom items = dom (ex_items h) - ?G" using sub by (auto simp: e(2) split: if_splits)
  moreover have fin: "finite (dom (ex_items h))" using assms(2) by (metis List.finite_set)
  ultimately have "card (dom items) + gone = card (dom (ex_items h))"
    by (metis card_Diff_subset card_mono finite_subset le_add_diff_inverse2)
  moreover have "gone \<le> scanned" using e(1,3) by (metis length_filter_le length_take min.commute)
  moreover have "items = (\<lambda>k. case ex_items h k of None \<Rightarrow> None
      | Some it \<Rightarrow> if expired (ei_expiry it) now then None else Some it)" if "card (dom (ex_items h)) \<le> limit"
  proof -
    have "set (take limit order) = dom (ex_items h)" using that len assms(2) by simp
    then show ?thesis by (auto simp: e(2) fun_eq_iff split: option.splits)
  qed
  ultimately show ?thesis using s(2) e(1) len by simp
qed

lemma ex_sample_exact_witness:
  "fst (sweepSample 20 [[1]] 256 (snd (ex_SetWithTTLAndCtx 1 (Some [1]) (Some [2]) 9 ex_demo))) = 1"
proof -
  let ?h = "snd (ex_SetWithTTLAndCtx 1 (Some [1]) (Some [2]) 9 ex_demo)"
  have d: "dom (ex_items ?h) = {[1]}" by (simp add: ex_set_ok)
  obtain sc g h' where s: "sweepSample 20 [[1]] 256 ?h = (sc, g, h')" by (metis prod_cases3)
  from ex_sample_exact [OF _ _ s] d show ?thesis using s by simp
qed


section \<open>The exact map\<close>

text \<open>
  C25: The expiring handler is an exact map with deadlines: after a write every key, the written one
  included, reads as the specification says, nothing else is lost or changed, and a delete removes
  exactly its key.
\<close>
theorem ex_exact_map:
  assumes "ex_inv h" "\<not> ex_closed h" "ttl_ok now ttl" "now \<le> t"
  shows "fst (ex_GetWithCtx t t (Some k') (snd (ex_SetWithTTLAndCtx now (Some k) (Some v) ttl h))) =
      (if k' = k then found (if lives now ttl t then Some (Some v) else None) else fst (ex_GetWithCtx t t (Some k') h)) \<and>
    fst (ex_GetWithCtx t t (Some k') (snd (ex_DelWithCtx (Some k) h))) =
      (if k' = k then Inl ErrNotFound else fst (ex_GetWithCtx t t (Some k') h))"
  using assms ex.get_after_set [OF assms, of k v] ex.get_after_del [OF assms(1,2), of t k' k]
  by (auto simp: ex_handler_def ex_get_open ex_set_state ex_set_view ttl_ok_def)

lemma ex_exact_map_witness:
  "fst (ex_GetWithCtx 5 5 (Some [2]) (snd (ex_SetWithTTLAndCtx 3 (Some [1]) (Some [7]) 4 ex_demo))) =
     Inl ErrNotFound"
proof -
  have "ttl_ok 3 4" by (simp add: ttl_ok_def max_int64_def)
  from ex_exact_map [OF ex_demo_ok(1,2) this, of 5 "[2]" "[1]" "[7]"] show ?thesis
    by (simp add: ex_get_open)
qed

text \<open>
  The lazy deletion of a lookup cannot take away a value written in the meantime: whatever other
  calls do to the cache between the lookup's read lock and its write lock, the deletion changes no
  answer from its time on, and in particular an entry written live in between stays.
\<close>
theorem ex_lazy_delete_safe:
  assumes "now \<le> t" "\<not> ex_closed h"
  shows "fst (ex_GetWithCtx t t (Some k') (ex_lazy_delete now k h)) = fst (ex_GetWithCtx t t (Some k') h) \<and>
    (case ex_items h k of None \<Rightarrow> ex_lazy_delete now k h = h
     | Some it \<Rightarrow> \<not> expired (ei_expiry it) now \<longrightarrow> ex_lazy_delete now k h = h)"
  using assms by (auto simp: ex_get_open ex_lazy_delete_ok) (auto simp: ex_lazy_delete_def split: option.splits)

lemma ex_lazy_delete_safe_witness:
  "fst (ex_GetWithCtx 6 6 (Some [1]) (ex_lazy_delete 5 [1]
     (snd (ex_SetWithTTLAndCtx 4 (Some [1]) (Some [7]) 3 ex_demo)))) = Inr (Some [7])"
  using ex_lazy_delete_safe [of 5 6 "snd (ex_SetWithTTLAndCtx 4 (Some [1]) (Some [7]) 3 ex_demo)" "[1]" "[1]"]
    ex_set_view [of "ex_demo" 3 4 6 "[1]" "[7]"]
  by (simp add: ex_get_open ex_set_state lives_def)

text \<open>
  \<open>GetTTL\<close> does not look at the deadline: for an entry that has expired but was not swept yet,
  where \<open>Get\<close> answers \<open>ErrNotFound\<close>, it succeeds with a negative time to live.
\<close>
theorem ex_ttl_negative:
  assumes "\<not> ex_closed h" "ex_items h k = Some it" "ei_expiry it = Some e" "e < now"
  shows "fst (ex_GetWithCtx now now (Some k) h) = Inl ErrNotFound \<and>
    (\<exists>d < 0. fst (ex_GetTTLWithCtx now (Some k) h) = Inr d)"
proof -
  have "sat64 (e - now) < 0" using assms(4) by (auto simp: sat64_def min_int64_def max_int64_def)
  then show ?thesis using assms
    by (auto simp: ex_get_open ex_view_def ex_GetTTLWithCtx_def go_simps time_until_def)
qed

lemma ex_ttl_negative_witness:
  "\<exists>d < 0. fst (ex_GetTTLWithCtx 9 (Some [1])
     (snd (ex_SetWithTTLAndCtx 4 (Some [1]) (Some [7]) 3 ex_demo))) = Inr d"
  using ex_ttl_negative [of "snd (ex_SetWithTTLAndCtx 4 (Some [1]) (Some [7]) 3 ex_demo)"
      "[1]" "\<lparr>ei_val = Some [7], ei_expiry = Some 7\<rparr>" 7 9]
  by (auto simp: ex_set_ok ex_expiry_for_def)

text \<open>The batch and \<open>GetOrCompute\<close>.\<close>

lemma ex_batch_slots:
  assumes "\<not> ex_closed h" "slice_len key \<noteq> 0"
  shows "ex_batch_slot now h key = (case fst (ex_GetWithCtx now now key h) of
    Inl e \<Rightarrow> (None, Some e) | Inr v \<Rightarrow> (Some (str v), None))"
proof -
  obtain k where "key = Some k" using assms(2) by (cases key) auto
  with assms show ?thesis
    by (auto simp: ex_batch_slot_def ex_get_open ex_view_def split: option.splits)
qed

lemma ex_batch_lengths: "batch_lengths ex_handler"
  by (simp add: batch_lengths_def ex_handler_def ex_BatchGetWithCtx_def)

text \<open>
  \<open>GetOrCompute\<close> on an open handler: a live value is returned without running the loader; otherwise
  a done context stops it, and else the loader runs exactly once. Its error is returned and nothing
  changes; its value is returned as a copy and is what the key reads as until the deadline, for ever
  when the TTL is zero or negative. A nil value is returned as an empty one and not stored.
\<close>
theorem ex_get_or_compute:
  assumes "\<not> ex_closed h" "k \<noteq> []" "ex_inv h"
  shows "case ex_GetOrComputeWithCtx en (Some k) ttl loader h w of (r, h', w') \<Rightarrow>
    (case ex_view (clk en 0) h k of
       Some v \<Rightarrow> r = Inr v \<and> w' = w \<and> h' = h
     | None \<Rightarrow>
        (case obs en 0 of
           Some e \<Rightarrow> r = Inl e \<and> w' = w \<and> h' = h
         | None \<Rightarrow> w' = snd (loader w) \<and>
            (case fst (loader w) of
               Inl e \<Rightarrow> r = Inl e \<and> h' = h
             | Inr None \<Rightarrow> r = Inr (Some []) \<and> h' = h
             | Inr (Some v) \<Rightarrow> r = Inr (Some v) \<and> (\<forall>t \<ge> clk en 1. ex_view t h' =
                 (ex_view t h)(k := if 0 < ttl \<and> clk en 1 + ttl < t then None else Some (Some v))))))"
proof -
  have some: "it \<in> ran (ex_items h) \<Longrightarrow> Some (str (ei_val it)) = ei_val it" for it
    using assms(3) by (auto simp: ex_inv_def)
  have eq: "ex_GetOrComputeWithCtx en (Some k) ttl loader h w = (case ex_view (clk en 0) h k of
      Some v \<Rightarrow> (Inr v, h, w) | None \<Rightarrow> ex_compute en (Some k) ttl loader h w)"
    using assms(1,2) some by (auto simp: ex_GetOrComputeWithCtx_def ex_view_def ran_def split: option.splits)
  have nil: "snd (ex_SetWithTTLAndCtx (clk en 1) (Some k) None d h) = h" for d
    using ex_set_err [of "Some k" None d h "clk en 1"] by auto
  have s1: "0 < ttl \<Longrightarrow> clk en 1 \<le> t \<Longrightarrow> ex_view t (snd (ex_SetWithTTLAndCtx (clk en 1) (Some k) (Some v) ttl h)) =
      (ex_view t h)(k := if 0 < ttl \<and> clk en 1 + ttl < t then None else Some (Some v))" for t v
    using ex_set_view [OF assms(1), of ttl "clk en 1" t k v] by (auto simp: lives_def)
  have s2: "clk en 1 \<le> t \<Longrightarrow> ex_view t (snd (ex_SetWithTTLAndCtx (clk en 1) (Some k) (Some v) (-1) h)) =
      (ex_view t h)(k \<mapsto> Some v)" for t v
    using ex_set_view [OF assms(1), of "-1" "clk en 1" t k v] by (simp add: lives_def)
  show ?thesis
  proof (cases "ex_view (clk en 0) h k")
    case None
    obtain r w' where l: "loader w = (r, w')" by (cases "loader w")
    show ?thesis
    proof (cases "obs en 0")
      case obs: None
      show ?thesis
      proof (cases r)
        case (Inr v)
        then show ?thesis unfolding eq using None obs l nil s1 s2
          by (cases v; cases "ttl \<le> 0") (auto simp: ex_compute_def ex_SetWithCtx_def)
      qed (use None obs l eq in \<open>simp add: ex_compute_def\<close>)
    qed (use None eq in \<open>simp add: ex_compute_def\<close>)
  qed (simp add: eq)
qed

lemma ex_get_or_compute_witness:
  "case ex_GetOrComputeWithCtx \<lparr>clk = (\<lambda>i. 5), obs = (\<lambda>_. None)\<rparr> (Some [2]) 9 (\<lambda>w. (Inr (Some [w]), w + 1))
      ex_demo 4 of (r, h', w') \<Rightarrow> r = Inr (Some [4]) \<and> w' = 5"
  using ex_get_or_compute [OF ex_demo_ok(2) _ ex_demo_ok(1), where k = "[2]"
      and en = "\<lparr>clk = (\<lambda>i. 5), obs = (\<lambda>_. None)\<rparr>" and ttl = 9 and loader = "\<lambda>w. (Inr (Some [w]), w + 1)" and w = 4]
  by (auto split: prod.splits)

end
