(* ===== verification/Sharded.thy ===== *)
theory Sharded
  imports Handler_Interface
begin

text \<open>
  \<open>ShardedHandler\<close> of \<open>sharded.go\<close>: a list of handlers behind a hash of the key. The model is over any
  implementation \<open>H\<close> of the interface with states \<open>'s\<close>, like the code. \<open>shardFor\<close> is \<^const>\<open>None\<close> where
  Go panics: a division by a zero \<open>uint32\<close>, or an index past the slice.
\<close>

record 's ShardedHandler =
  sd_shards :: "'s list"
  sd_n :: int

text \<open>\<open>factory i\<close> is the state of the handler that the \<open>i\<close>-th call of the factory returns.\<close>

definition NewShardedHandler :: "(int \<Rightarrow> int \<Rightarrow> int) \<Rightarrow> (nat \<Rightarrow> 's) \<Rightarrow> int \<Rightarrow> 's ShardedHandler" where
  "NewShardedHandler ifLeZero factory shards0 =
     (let shards = ifLeZero shards0 16
      in \<lparr>sd_shards = map factory [0..<nat shards], sd_n = shards\<rparr>)"

definition shardFor :: "slice \<Rightarrow> 's ShardedHandler \<Rightarrow> nat option" where
  "shardFor key h =
     (let m = (of_int (sd_n h) :: 32 word)
      in if m = 0 then None
         else let i = unat (fnv32a (str key) mod m)
              in if i < length (sd_shards h) then Some i else None)"

text \<open>A call forwarded to the shard of the key; \<open>panic\<close> is its result where Go panics.\<close>

definition sd_forward ::
  "'r \<Rightarrow> slice \<Rightarrow> ('s \<Rightarrow> 'r \<times> 's) \<Rightarrow> 's ShardedHandler \<Rightarrow> 'r \<times> 's ShardedHandler" where
  "sd_forward panic key call h =
     (case shardFor key h of
        None \<Rightarrow> (panic, h)
      | Some i \<Rightarrow>
          (case call (sd_shards h ! i) of
             (r, s) \<Rightarrow> (r, h\<lparr>sd_shards := (sd_shards h)[i := s]\<rparr>)))"

definition sd_SetWithCtx ::
  "('s, 'w) handler \<Rightarrow> time \<Rightarrow> slice \<Rightarrow> slice \<Rightarrow> 's ShardedHandler \<Rightarrow> go_error option \<times> 's ShardedHandler" where
  "sd_SetWithCtx H now key value h = sd_forward (Some RuntimePanic) key (SetWithCtx H now key value) h"

definition sd_SetWithTTLAndCtx ::
  "('s, 'w) handler \<Rightarrow> time \<Rightarrow> slice \<Rightarrow> slice \<Rightarrow> duration \<Rightarrow> 's ShardedHandler \<Rightarrow>
   go_error option \<times> 's ShardedHandler" where
  "sd_SetWithTTLAndCtx H now key value ttl h =
     sd_forward (Some RuntimePanic) key (SetWithTTLAndCtx H now key value ttl) h"

definition sd_GetWithCtx ::
  "('s, 'w) handler \<Rightarrow> time \<Rightarrow> slice \<Rightarrow> 's ShardedHandler \<Rightarrow> slice go_result \<times> 's ShardedHandler" where
  "sd_GetWithCtx H now key h = sd_forward (Inl RuntimePanic) key (GetWithCtx H now key) h"

definition sd_GetTTLWithCtx ::
  "('s, 'w) handler \<Rightarrow> time \<Rightarrow> slice \<Rightarrow> 's ShardedHandler \<Rightarrow> duration go_result \<times> 's ShardedHandler" where
  "sd_GetTTLWithCtx H now key h = sd_forward (Inl RuntimePanic) key (GetTTLWithCtx H now key) h"

definition sd_DelWithCtx ::
  "('s, 'w) handler \<Rightarrow> slice \<Rightarrow> 's ShardedHandler \<Rightarrow> go_error option \<times> 's ShardedHandler" where
  "sd_DelWithCtx H key h = sd_forward (Some RuntimePanic) key (DelWithCtx H key) h"

definition sd_GetOrComputeWithCtx ::
  "('s, 'w) handler \<Rightarrow> env \<Rightarrow> slice \<Rightarrow> duration \<Rightarrow> 'w loader \<Rightarrow> 's ShardedHandler \<Rightarrow> 'w \<Rightarrow>
   slice go_result \<times> 's ShardedHandler \<times> 'w" where
  "sd_GetOrComputeWithCtx H en key ttl loader h w =
     (case shardFor key h of
        None \<Rightarrow> (Inl RuntimePanic, h, w)
      | Some i \<Rightarrow>
          (case GetOrComputeWithCtx H en key ttl loader (sd_shards h ! i) w of
             (r, s, w') \<Rightarrow> (r, h\<lparr>sd_shards := (sd_shards h)[i := s]\<rparr>, w')))"

section \<open>Batches\<close>

text \<open>The grouping loop: the positions of the keys of each shard, in order.\<close>

fun sd_group :: "32 word \<Rightarrow> nat \<Rightarrow> slice list \<Rightarrow> (nat \<rightharpoonup> nat list) \<Rightarrow> (nat \<rightharpoonup> nat list)" where
  "sd_group m i [] groups = groups"
| "sd_group m i (key # keys) groups =
     (let g = unat (fnv32a (str key) mod m);
          old = (case groups g of None \<Rightarrow> [] | Some ix \<Rightarrow> ix)
      in sd_group m (Suc i) keys (groups(g \<mapsto> old @ [i])))"

text \<open>Copying a shard's answers to the positions of its keys; an answer too short panics.\<close>

fun sd_scatter :: "nat list \<Rightarrow> slice list \<Rightarrow> go_error option list \<Rightarrow> batch_result \<Rightarrow> batch_result option" where
  "sd_scatter [] vs es res = Some res"
| "sd_scatter (idx # ix) (v # vs) (e # es) res = sd_scatter ix vs es ((fst res)[idx := v], (snd res)[idx := e])"
| "sd_scatter (idx # ix) vs es res = None"

text \<open>\<open>gs\<close> is the order in which the shards' answers arrive, \<open>rd g\<close> the clock that shard \<open>g\<close> reads.\<close>

fun sd_collect ::
  "('s, 'w) handler \<Rightarrow> (nat \<Rightarrow> nat \<Rightarrow> time) \<Rightarrow> slice list \<Rightarrow> (nat \<rightharpoonup> nat list) \<Rightarrow> nat list \<Rightarrow> batch_result \<Rightarrow>
   's ShardedHandler \<Rightarrow> batch_result go_result \<times> 's ShardedHandler" where
  "sd_collect H rd keys groups [] res h = (Inr res, h)"
| "sd_collect H rd keys groups (g # gs) res h =
     (case groups g of
        None \<Rightarrow> sd_collect H rd keys groups gs res h
      | Some ix \<Rightarrow>
          if g < length (sd_shards h)
          then (case BatchGetWithCtx H (rd g) (map (\<lambda>i. keys ! i) ix) (sd_shards h ! g) of
                  ((vs, es), s) \<Rightarrow>
                    let h' = h\<lparr>sd_shards := (sd_shards h)[g := s]\<rparr> in
                    (case sd_scatter ix vs es res of
                       None \<Rightarrow> (Inl RuntimePanic, h')
                     | Some res' \<Rightarrow> sd_collect H rd keys groups gs res' h'))
          else (Inl RuntimePanic, h))"

definition sd_BatchGetWithCtx ::
  "('s, 'w) handler \<Rightarrow> (nat \<Rightarrow> nat \<Rightarrow> time) \<Rightarrow> nat list \<Rightarrow> slice list \<Rightarrow> 's ShardedHandler \<Rightarrow>
   batch_result go_result \<times> 's ShardedHandler" where
  "sd_BatchGetWithCtx H rd gs keys h =
     (if keys = [] then (Inr ([], []), h)
      else let m = (of_int (sd_n h) :: 32 word)
           in if m = 0 then (Inl RuntimePanic, h)
              else sd_collect H rd keys (sd_group m 0 keys Map.empty) gs
                     (replicate (length keys) None, replicate (length keys) None) h)"

section \<open>Close and statistics\<close>

fun sd_close_loop :: "('s, 'w) handler \<Rightarrow> 's list \<Rightarrow> go_error option \<Rightarrow> go_error option \<times> 's list" where
  "sd_close_loop H [] lastErr = (lastErr, [])"
| "sd_close_loop H (s # ss) lastErr =
     (case CloseH H s of
        (err, s') \<Rightarrow>
          (case sd_close_loop H ss (case err of None \<Rightarrow> lastErr | Some e \<Rightarrow> Some e) of
             (r, ss') \<Rightarrow> (r, s' # ss')))"

definition sd_Close :: "('s, 'w) handler \<Rightarrow> 's ShardedHandler \<Rightarrow> go_error option \<times> 's ShardedHandler" where
  "sd_Close H h = (case sd_close_loop H (sd_shards h) None of (r, ss) \<Rightarrow> (r, h\<lparr>sd_shards := ss\<rparr>))"

text \<open>The statistics of the shards by number, and their number.\<close>

definition sd_Stats :: "('s \<Rightarrow> 'st) \<Rightarrow> 's ShardedHandler \<Rightarrow> (nat \<times> 'st) list \<times> nat" where
  "sd_Stats stats h = (enumerate 0 (map stats (sd_shards h)), length (sd_shards h))"

text \<open>The sharded handler is a handler again; seen through the interface, the shards of a batch answer
  in the order of their numbers with the same clock.\<close>

definition sharded_handler :: "('s, 'w) handler \<Rightarrow> ('s ShardedHandler, 'w) handler" where
  "sharded_handler H = \<lparr>SetWithCtx = sd_SetWithCtx H, SetWithTTLAndCtx = sd_SetWithTTLAndCtx H,
     GetWithCtx = sd_GetWithCtx H, GetTTLWithCtx = sd_GetTTLWithCtx H, DelWithCtx = sd_DelWithCtx H,
     BatchGetWithCtx = (\<lambda>rd keys h.
       (case sd_BatchGetWithCtx H (\<lambda>g. rd) [0..<length (sd_shards h)] keys h of
          (Inl e, h') \<Rightarrow> ((replicate (length keys) None, replicate (length keys) (Some e)), h')
        | (Inr res, h') \<Rightarrow> (res, h'))),
     GetOrComputeWithCtx = sd_GetOrComputeWithCtx H, CloseH = sd_Close H\<rparr>"

section \<open>The methods without a context\<close>

text \<open>They call the ones with a context, with \<open>context.Background()\<close>.\<close>

definition sd_Get :: "('s, 'w) handler \<Rightarrow> time \<Rightarrow> slice \<Rightarrow> 's ShardedHandler \<Rightarrow> slice go_result \<times> 's ShardedHandler" where
  "sd_Get H now key h = sd_GetWithCtx H now key h"

definition sd_GetTTL :: "('s, 'w) handler \<Rightarrow> time \<Rightarrow> slice \<Rightarrow> 's ShardedHandler \<Rightarrow> duration go_result \<times> 's ShardedHandler" where
  "sd_GetTTL H now key h = sd_GetTTLWithCtx H now key h"

definition sd_Set :: "('s, 'w) handler \<Rightarrow> time \<Rightarrow> slice \<Rightarrow> slice \<Rightarrow> 's ShardedHandler \<Rightarrow> go_error option \<times> 's ShardedHandler" where
  "sd_Set H now key value h = sd_SetWithCtx H now key value h"

definition sd_SetWithTTL ::
  "('s, 'w) handler \<Rightarrow> time \<Rightarrow> slice \<Rightarrow> slice \<Rightarrow> duration \<Rightarrow> 's ShardedHandler \<Rightarrow> go_error option \<times> 's ShardedHandler" where
  "sd_SetWithTTL H now key value ttl h = sd_SetWithTTLAndCtx H now key value ttl h"

definition sd_Del :: "('s, 'w) handler \<Rightarrow> slice \<Rightarrow> 's ShardedHandler \<Rightarrow> go_error option \<times> 's ShardedHandler" where
  "sd_Del H key h = sd_DelWithCtx H key h"

definition sd_BatchGet ::
  "('s, 'w) handler \<Rightarrow> (nat \<Rightarrow> nat \<Rightarrow> time) \<Rightarrow> nat list \<Rightarrow> slice list \<Rightarrow> 's ShardedHandler \<Rightarrow>
   batch_result go_result \<times> 's ShardedHandler" where
  "sd_BatchGet H rd arrivals keys h = sd_BatchGetWithCtx H rd arrivals keys h"

definition sd_GetOrCompute ::
  "('s, 'w) handler \<Rightarrow> env \<Rightarrow> slice \<Rightarrow> duration \<Rightarrow> 'w loader \<Rightarrow> 's ShardedHandler \<Rightarrow> 'w \<Rightarrow>
   slice go_result \<times> 's ShardedHandler \<times> 'w" where
  "sd_GetOrCompute H en key ttl loader h w = sd_GetOrComputeWithCtx H (en\<lparr>obs := \<lambda>_. None\<rparr>) key ttl loader h w"

end
