(* ===== verification/Sharded_Correct.thy ===== *)
theory Sharded_Correct
  imports Sharded Lru_Correct Lru_Optimized_Correct Expiring_Correct
begin

text \<open>
  Correctness of \<open>ShardedHandler\<close>: sharding preserves the contract of the interface. The lemmas are
  proved once inside the locales, for any implementation, and interpreted for shards of each of the
  three in-memory caches. A batch is proved to put each shard's answers at the positions of its keys.
\<close>

section \<open>Routing\<close>

definition sd_geometry :: "'s ShardedHandler \<Rightarrow> bool" where
  "sd_geometry h \<longleftrightarrow> 0 < sd_n h \<and> sd_n h < 2 ^ 32 \<and> sd_n h = int (length (sd_shards h))"

definition sd_index :: "slice \<Rightarrow> 's ShardedHandler \<Rightarrow> nat" where
  "sd_index key h = unat (fnv32a (str key) mod (of_int (sd_n h) :: 32 word))"

lemma sd_modulus:
  assumes "sd_geometry h"
  shows "unat (of_int (sd_n h) :: 32 word) = length (sd_shards h)" "(of_int (sd_n h) :: 32 word) \<noteq> 0"
proof -
  have "length (sd_shards h) < 2 ^ 32" "0 < length (sd_shards h)" using assms by (auto simp: sd_geometry_def)
  then show "unat (of_int (sd_n h) :: 32 word) = length (sd_shards h)"
    using assms by (simp add: sd_geometry_def unat_of_nat take_bit_nat_eq_self_iff)
  with \<open>0 < length (sd_shards h)\<close> show "(of_int (sd_n h) :: 32 word) \<noteq> 0" by (metis less_numeral_extra(3) unat_0)
qed

lemma sd_index_bound: "sd_geometry h \<Longrightarrow> sd_index key h < length (sd_shards h)"
  using sd_modulus [of h] by (simp add: sd_index_def unat_mod) (metis length_0_conv length_greater_0_conv mod_less_divisor unat_eq_0)

lemma shardFor_ok: "sd_geometry h \<Longrightarrow> shardFor key h = Some (sd_index key h)"
  using sd_index_bound [of h key] sd_modulus [of h] by (simp add: shardFor_def sd_index_def Let_def)

lemma sd_forward_ok:
  "sd_geometry h \<Longrightarrow> sd_forward panic key call h =
     (fst (call (sd_shards h ! sd_index key h)),
      h\<lparr>sd_shards := (sd_shards h)[sd_index key h := snd (call (sd_shards h ! sd_index key h))]\<rparr>)"
  by (simp add: sd_forward_def shardFor_ok split: prod.splits)

lemma sd_put_geometry [simp]:
  "sd_geometry (h\<lparr>sd_shards := (sd_shards h)[i := s]\<rparr>) = sd_geometry h"
  "sd_index key (h\<lparr>sd_shards := ss\<rparr>) = sd_index key h"
  by (simp_all add: sd_geometry_def sd_index_def)

section \<open>The contract is preserved\<close>

definition sd_inv :: "('s \<Rightarrow> bool) \<Rightarrow> ('s \<Rightarrow> bool) \<Rightarrow> 's ShardedHandler \<Rightarrow> bool" where
  "sd_inv I closed h \<longleftrightarrow> sd_geometry h \<and> (\<forall>s \<in> set (sd_shards h). I s) \<and>
     ((\<forall>s \<in> set (sd_shards h). closed s) \<or> (\<forall>s \<in> set (sd_shards h). \<not> closed s))"

definition sd_closed :: "('s \<Rightarrow> bool) \<Rightarrow> 's ShardedHandler \<Rightarrow> bool" where
  "sd_closed closed h = closed (hd (sd_shards h))"

definition sd_view ::
  "(time \<Rightarrow> 's \<Rightarrow> go_string \<Rightarrow> slice option) \<Rightarrow> time \<Rightarrow> 's ShardedHandler \<Rightarrow> go_string \<Rightarrow> slice option" where
  "sd_view view t h k = view t (sd_shards h ! sd_index (Some k) h) k"

lemma sd_inv_shard:
  assumes "sd_inv I closed h"
  shows "sd_geometry h" "I (sd_shards h ! sd_index key h)"
    "closed (sd_shards h ! sd_index key h) = sd_closed closed h"
proof -
  show g: "sd_geometry h" using assms by (simp add: sd_inv_def)
  have m: "sd_shards h ! sd_index key h \<in> set (sd_shards h)" using sd_index_bound [OF g] by simp
  then show "I (sd_shards h ! sd_index key h)" using assms by (simp add: sd_inv_def)
  have "hd (sd_shards h) \<in> set (sd_shards h)" using m by (cases "sd_shards h") auto
  then show "closed (sd_shards h ! sd_index key h) = sd_closed closed h"
    using assms m unfolding sd_inv_def sd_closed_def by blast
qed

text \<open>Storing the new state of one shard, with the same flag.\<close>

lemma sd_put_inv:
  assumes "sd_inv I closed h" "I s" "closed s = sd_closed closed h"
  shows "sd_inv I closed (h\<lparr>sd_shards := (sd_shards h)[i := s]\<rparr>)"
proof -
  let ?ss = "(sd_shards h)[i := s]"
  have "hd (sd_shards h) \<in> set (sd_shards h)" using assms(1) by (cases "sd_shards h") (auto simp: sd_inv_def sd_geometry_def)
  then have "closed x = sd_closed closed h" if "x \<in> set (sd_shards h)" for x
    using that assms(1) unfolding sd_inv_def sd_closed_def by blast
  then have "closed x = sd_closed closed h" if "x \<in> set ?ss" for x
    using that assms(3) set_update_subset_insert [of "sd_shards h" i s] by blast
  then have "(\<forall>x \<in> set ?ss. closed x) \<or> (\<forall>x \<in> set ?ss. \<not> closed x)" by blast
  moreover have "\<forall>x \<in> set ?ss. I x"
    using assms(1,2) set_update_subset_insert [of "sd_shards h" i s] by (auto simp: sd_inv_def)
  ultimately show ?thesis using assms(1) by (auto simp: sd_inv_def sd_geometry_def)
qed

lemma sd_put_flag:
  assumes "closed s = closed (sd_shards h ! i)" "i < length (sd_shards h)"
  shows "sd_closed closed (h\<lparr>sd_shards := (sd_shards h)[i := s]\<rparr>) = sd_closed closed h"
  using assms by (cases "sd_shards h"; cases i) (auto simp: sd_closed_def)

lemma sd_forward_flag:
  assumes "\<And>s. closed (snd (call s)) = closed s"
  shows "sd_closed closed (snd (sd_forward panic key call h)) = sd_closed closed h"
  using assms sd_put_flag [of closed]
  by (auto simp: sd_forward_def shardFor_def Let_def split: option.splits prod.splits if_splits)
    (metis snd_conv)+

lemma sd_put_view:
  assumes "sd_geometry h"
  shows "sd_view view t (h\<lparr>sd_shards := (sd_shards h)[sd_index key h := s]\<rparr>) k =
    (if sd_index (Some k) h = sd_index key h then view t s k else sd_view view t h k)"
  using sd_index_bound [OF assms] by (simp add: sd_view_def nth_list_update)

lemma sd_put_same:
  "sd_geometry h \<Longrightarrow> h\<lparr>sd_shards := (sd_shards h)[sd_index key h := sd_shards h ! sd_index key h]\<rparr> = h"
  by (cases h) simp

context cache_core
begin

lemma sd_set:
  assumes "sd_inv inv closed h"
  shows "sd_inv inv closed (snd (sd_SetWithTTLAndCtx H now key value ttl h))"
proof -
  note i = sd_inv_shard [OF assms]
  show ?thesis
    using sd_put_inv [OF assms set_inv [OF i(2)]] i(3) set_flag
    by (simp add: sd_SetWithTTLAndCtx_def sd_forward_ok [OF i(1)])
qed

lemma sd_set_none:
  assumes "sd_inv inv closed h" "\<not> sd_closed closed h" "-1 \<le> ttl"
  shows "fst (sd_SetWithTTLAndCtx H now (Some k) (Some v) ttl h) = None"
  using sd_inv_shard [OF assms(1)] assms(2,3)
  by (simp add: sd_SetWithTTLAndCtx_def sd_forward_ok set_ok)

lemma sd_set_err:
  assumes "sd_inv inv closed h" "key = None \<or> value = None \<or> ttl < -1 \<or> sd_closed closed h"
  shows "\<exists>e. sd_SetWithTTLAndCtx H now key value ttl h = (Some e, h)"
proof -
  note i = sd_inv_shard [OF assms(1)]
  obtain e where "SetWithTTLAndCtx H now key value ttl (sd_shards h ! sd_index key h) =
      (Some e, sd_shards h ! sd_index key h)" using set_err [OF i(2)] assms(2) i(3) by blast
  then show ?thesis by (simp add: sd_SetWithTTLAndCtx_def sd_forward_ok [OF i(1)])
qed

lemma sd_set_view_other:
  assumes "sd_inv inv closed h" "k' \<noteq> k"
  shows "sd_view view t (snd (sd_SetWithTTLAndCtx H now (Some k) value ttl h)) k' \<in> {None, sd_view view t h k'}"
proof -
  note i = sd_inv_shard [OF assms(1)]
  show ?thesis
    using set_other [OF i(2) assms(2), of t now "value" ttl]
    by (auto simp: sd_SetWithTTLAndCtx_def sd_forward_ok [OF i(1)] sd_put_view [OF i(1)]) (auto simp: sd_view_def)
qed

lemma sd_set_no_ttl:
  assumes "sd_inv inv closed h"
  shows "sd_SetWithCtx H now key value h = sd_SetWithTTLAndCtx H now key value (-1) h"
  using sd_inv_shard [OF assms]
  by (simp add: sd_SetWithCtx_def sd_SetWithTTLAndCtx_def sd_forward_ok set_no_ttl)

lemma sd_get:
  assumes "sd_inv inv closed h"
  shows "sd_inv inv closed (snd (sd_GetWithCtx H now key h))"
    "now \<le> t \<Longrightarrow> sd_view view t (snd (sd_GetWithCtx H now key h)) = sd_view view t h"
    "\<not> sd_closed closed h \<Longrightarrow> fst (sd_GetWithCtx H now (Some k) h) = found (sd_view view now h k)"
    "sd_closed closed h \<Longrightarrow> sd_GetWithCtx H now (Some k) h = (Inl ErrClosed, h)"
    "sd_GetWithCtx H now None h = (Inl ErrInvalidKey, h)"
proof -
  note i = sd_inv_shard [OF assms]
  have g: "sd_geometry h" by (rule i)
  show "sd_inv inv closed (snd (sd_GetWithCtx H now key h))"
    using sd_put_inv [OF assms get_inv [OF i(2)]] i(3) get_flag
    by (simp add: sd_GetWithCtx_def sd_forward_ok [OF g])
  show "sd_view view t (snd (sd_GetWithCtx H now key h)) = sd_view view t h" if "now \<le> t"
    using get_view [OF i(2) that, of key]
    by (auto simp: sd_GetWithCtx_def sd_forward_ok [OF g] sd_put_view [OF g] fun_eq_iff) (simp add: sd_view_def)
  show "fst (sd_GetWithCtx H now (Some k) h) = found (sd_view view now h k)" if "\<not> sd_closed closed h"
    using get_open [OF i(2), of "Some k" now k] i(3) [of "Some k"] that
    by (simp add: sd_GetWithCtx_def sd_forward_ok [OF g] sd_view_def)
  show "sd_GetWithCtx H now (Some k) h = (Inl ErrClosed, h)" if "sd_closed closed h"
    using get_closed [OF i(2), of "Some k" now k] i(3) [of "Some k"] that
    by (simp add: sd_GetWithCtx_def sd_forward_ok [OF g] sd_put_same [OF g])
  show "sd_GetWithCtx H now None h = (Inl ErrInvalidKey, h)"
    using get_nil [OF i(2) [of None], of now]
    by (simp add: sd_GetWithCtx_def sd_forward_ok [OF g] sd_put_same [OF g])
qed

lemma sd_del:
  assumes "sd_inv inv closed h"
  shows "sd_inv inv closed (snd (sd_DelWithCtx H key h))"
    "key = None \<or> sd_closed closed h \<Longrightarrow> \<exists>e. sd_DelWithCtx H key h = (Some e, h)"
    "\<not> sd_closed closed h \<Longrightarrow> fst (sd_DelWithCtx H (Some k) h) = None"
    "\<not> sd_closed closed h \<Longrightarrow> sd_view view t (snd (sd_DelWithCtx H (Some k) h)) = (sd_view view t h)(k := None)"
proof -
  note i = sd_inv_shard [OF assms]
  have g: "sd_geometry h" by (rule i)
  show "sd_inv inv closed (snd (sd_DelWithCtx H key h))"
    using sd_put_inv [OF assms del_inv [OF i(2)]] i(3) del_flag
    by (simp add: sd_DelWithCtx_def sd_forward_ok [OF g])
  show "\<exists>e. sd_DelWithCtx H key h = (Some e, h)" if cl: "key = None \<or> sd_closed closed h"
  proof -
    obtain e where "DelWithCtx H key (sd_shards h ! sd_index key h) = (Some e, sd_shards h ! sd_index key h)"
      using del_err [OF i(2) [of key], of key] cl i(3) [of key] by blast
    then show ?thesis by (simp add: sd_DelWithCtx_def sd_forward_ok [OF g] sd_put_same [OF g])
  qed
  show "fst (sd_DelWithCtx H (Some k) h) = None" if "\<not> sd_closed closed h"
    using that i(3) del_ok [OF i(2), of "Some k"] by (simp add: sd_DelWithCtx_def sd_forward_ok [OF g])
  show "sd_view view t (snd (sd_DelWithCtx H (Some k) h)) = (sd_view view t h)(k := None)" if "\<not> sd_closed closed h"
    using that i(3) del_view [OF i(2), of "Some k" t k]
    by (auto simp: sd_DelWithCtx_def sd_forward_ok [OF g] sd_put_view [OF g] fun_eq_iff) (auto simp: sd_view_def)
qed

lemma sd_close_loop_ok:
  assumes "\<forall>s \<in> set ss. inv s"
  shows "length (snd (sd_close_loop H ss e)) = length ss \<and>
    (\<forall>s \<in> set (snd (sd_close_loop H ss e)). inv s \<and> closed s)"
  using assms
proof (induction ss arbitrary: e)
  case (Cons s ss)
  then show ?case using close_inv [of s] close_flag [of s]
    by (auto split: prod.splits) (metis snd_conv)+
qed simp

lemma sd_close:
  assumes "sd_inv inv closed h"
  shows "sd_inv inv closed (snd (sd_Close H h)) \<and> sd_closed closed (snd (sd_Close H h))"
proof -
  let ?ss = "snd (sd_close_loop H (sd_shards h) None)"
  have c: "length ?ss = length (sd_shards h)" "\<forall>s \<in> set ?ss. inv s \<and> closed s"
    using sd_close_loop_ok assms by (auto simp: sd_inv_def)
  moreover have "?ss \<noteq> []" using c(1) assms by (auto simp: sd_inv_def sd_geometry_def)
  moreover have "snd (sd_Close H h) = h\<lparr>sd_shards := ?ss\<rparr>" by (simp add: sd_Close_def split: prod.splits)
  ultimately show ?thesis using assms by (auto simp: sd_inv_def sd_closed_def sd_geometry_def)
qed

theorem sharded_core:
  "cache_core (sharded_handler H) (sd_inv inv closed) (sd_closed closed) (sd_view view) stored"
proof (unfold_locales, goal_cases)
  case (7 s key "value" ttl now)
  then show ?case using sd_set_err by (simp add: sharded_handler_def)
next
  case (11 s now ttl t k v)
  note i = sd_inv_shard [OF 11(1)]
  show ?case using set_weak [OF i(2) [of "Some k"], of now ttl t k v] 11(2-4) i(3) [of "Some k"]
    by (simp add: sharded_handler_def sd_SetWithTTLAndCtx_def sd_forward_ok [OF i(1)] sd_put_view [OF i(1)])
next
  case (12 s k' k t now "value" ttl)
  then show ?case using sd_set_view_other by (simp add: sharded_handler_def)
next
  case (14 s key)
  then show ?case using sd_del(2) by (simp add: sharded_handler_def)
qed (simp_all add: sharded_handler_def sd_get sd_set sd_set_none sd_del sd_close sd_set_no_ttl,
    simp_all add: sd_GetWithCtx_def sd_SetWithTTLAndCtx_def sd_DelWithCtx_def
      sd_forward_flag get_flag set_flag del_flag)

end

context cache_handler
begin

theorem sharded_full:
  "cache_handler (sharded_handler H) (sd_inv inv closed) (sd_closed closed) (sd_view view) stored"
proof (intro cache_handler.intro sharded_core cache_handler_axioms.intro)
  fix h now ttl t k v
  assume a: "sd_inv inv closed h" "\<not> sd_closed closed h" "ttl_ok now ttl" "now \<le> t"
  note i = sd_inv_shard [OF a(1)]
  show "sd_view view t (snd (SetWithTTLAndCtx (sharded_handler H) now (Some k) (Some v) ttl h)) k =
      (if lives now ttl t then Some (stored v) else None)"
    using set_view [OF i(2) [of "Some k"] _ a(3,4)] a(2) i(3) [of "Some k"]
    by (simp add: sharded_handler_def sd_SetWithTTLAndCtx_def sd_forward_ok [OF i(1)] sd_put_view [OF i(1)])
qed

end

text \<open>The interface of the LRU handler, with loaders that have no effect of their own.\<close>

abbreviation lruH :: "(LRUHandler, unit) handler" where
  "lruH \<equiv> lru_handler"

interpretation sharded_lru: cache_handler "sharded_handler lruH"
  "sd_inv lru_inv lru_closed" "sd_closed lru_closed" "sd_view lru_view" "\<lambda>v. copyBytes (Some v)"
  by (rule lru.sharded_full)

interpretation sharded_ex: cache_handler "sharded_handler (ex_handler :: (ExpiringHandler, 'w) handler)"
  "sd_inv ex_inv ex_closed" "sd_closed ex_closed" "sd_view ex_view" Some
  by (rule ex.sharded_full)

interpretation sharded_opt: cache_core "sharded_handler (opt_handler pick :: (optHandler, 'w) handler)"
  "sd_inv opt_inv opt_closed" "sd_closed opt_closed" "sd_view opt_view" Some
  by (rule opt.sharded_core)

section \<open>A sharded LRU cache\<close>

lemma NewShardedHandler_inv:
  assumes "ifLeZero_law f" "n < 2 ^ 32" "\<forall>i. I (factory i) \<and> \<not> closed (factory i)"
  shows "sd_inv I closed (NewShardedHandler f factory n)" "\<not> sd_closed closed (NewShardedHandler f factory n)"
    "length (sd_shards (NewShardedHandler f factory n)) = nat (if n \<le> 0 then 16 else n)"
proof -
  have f: "f n 16 = (if n \<le> 0 then 16 else n)" using assms(1) by (simp add: ifLeZero_lawD)
  show "sd_inv I closed (NewShardedHandler f factory n)"
    using assms(2,3) by (auto simp: NewShardedHandler_def f sd_inv_def sd_geometry_def)
  have "hd (map factory [0..<nat (if n \<le> 0 then 16 else n)]) \<in> range factory"
    by (cases "n \<le> 0") (auto simp: hd_map)
  then show "\<not> sd_closed closed (NewShardedHandler f factory n)"
    using assms(3) by (auto simp: NewShardedHandler_def f sd_closed_def)
  show "length (sd_shards (NewShardedHandler f factory n)) = nat (if n \<le> 0 then 16 else n)"
    by (simp add: NewShardedHandler_def f)
qed

text \<open>
  C18: Sharding keeps the contract of the handlers behind it, whatever handler that is: when the shards
  keep \<open>cache_core\<close>, a written value is read back from the sharded cache until its deadline and not
  after, unless it was evicted, and always when the shards keep every accepted write
  (\<open>cache_handler\<close>, as the LRU and the expiring cache do); every other key, in the same shard or
  another, reads as before or was evicted, a deleted key is gone and touches no other, and a closed
  cache answers nothing.
\<close>
theorem sharded_contract:
  fixes H :: "('s, 'w) handler"
  assumes "cache_core H I C V st" "sd_inv I C h" "\<not> sd_closed C h" "ttl_ok now ttl" "now \<le> t" "k' \<noteq> k"
  shows "fst (sd_GetWithCtx H t (Some k) (snd (sd_SetWithTTLAndCtx H now (Some k) (Some v) ttl h))) \<in>
      {Inl ErrNotFound, found (if lives now ttl t then Some (st v) else None)} \<and>
    (cache_handler H I C V st \<longrightarrow>
      fst (sd_GetWithCtx H t (Some k) (snd (sd_SetWithTTLAndCtx H now (Some k) (Some v) ttl h))) =
        found (if lives now ttl t then Some (st v) else None)) \<and>
    fst (sd_GetWithCtx H t (Some k') (snd (sd_SetWithTTLAndCtx H now (Some k) (Some v) ttl h))) \<in>
      {Inl ErrNotFound, fst (sd_GetWithCtx H t (Some k') h)} \<and>
    fst (sd_GetWithCtx H t (Some k') (snd (sd_DelWithCtx H (Some k) h))) = fst (sd_GetWithCtx H t (Some k') h) \<and>
    fst (sd_GetWithCtx H t (Some k) (snd (sd_DelWithCtx H (Some k) h))) = Inl ErrNotFound \<and>
    fst (sd_GetWithCtx H t (Some k) (snd (sd_Close H h))) = Inl ErrClosed"
proof -
  note core = cache_core.sharded_core [OF assms(1)]
  have "cache_handler H I C V st \<Longrightarrow>
      fst (sd_GetWithCtx H t (Some k) (snd (sd_SetWithTTLAndCtx H now (Some k) (Some v) ttl h))) =
        found (if lives now ttl t then Some (st v) else None)"
    using cache_handler.get_after_set [OF cache_handler.sharded_full, of H I C V st h now ttl t k v] assms
    by (simp add: sharded_handler_def)
  then show ?thesis
    using cache_core.get_after_set_weak [OF core assms(2-5), of k v]
      cache_core.get_other_after_set [OF core assms(2,3,6), of t now "Some v" ttl]
      cache_core.get_after_del [OF core assms(2,3), of t k' k] cache_core.get_after_del [OF core assms(2,3), of t k k]
      cache_core.get_after_close [OF core assms(2), of t k] cache_core.get_open [OF core assms(2,3), of t k'] assms(6)
    by (simp add: sharded_handler_def)
qed

definition sd_demo :: "LRUHandler ShardedHandler" where
  "sd_demo = NewShardedHandler (\<lambda>v d. if v \<le> 0 then d else v) (\<lambda>_. NewLRUHandler (\<lambda>v d. v) 2) 4"

lemma sd_demo_ok: "sd_inv lru_inv lru_closed sd_demo" "\<not> sd_closed lru_closed sd_demo"
  unfolding sd_demo_def
  by (rule NewShardedHandler_inv [OF ifLeZero_law_example]; simp add: NewLRUHandler_inv; simp add: NewLRUHandler_def)+

lemma sharded_contract_witness:
  "fst (sd_GetWithCtx lruH 8 (Some [1]) (snd (sd_SetWithTTLAndCtx lruH 5 (Some [1]) (Some [7]) 3 sd_demo))) =
     Inr (Some [7])"
proof -
  have "ttl_ok 5 3" by (simp add: ttl_ok_def max_int64_def)
  moreover have full: "cache_handler lruH lru_inv lru_closed lru_view (\<lambda>v. copyBytes (Some v))"
    by (rule lru.cache_handler_axioms)
  ultimately show ?thesis
    using sharded_contract [OF cache_handler.axioms(1) [OF full] sd_demo_ok, of 5 3 8 "[2]" "[1]" "[7]"]
    by (simp add: lives_def copyBytes_def MaxValueSize_def)
qed

section \<open>Batches\<close>

fun positions :: "32 word \<Rightarrow> nat \<Rightarrow> slice list \<Rightarrow> nat \<Rightarrow> nat list" where
  "positions m i [] g = []"
| "positions m i (key # keys) g =
     (if unat (fnv32a (str key) mod m) = g then i # positions m (Suc i) keys g else positions m (Suc i) keys g)"

lemma set_positions:
  "set (positions m i keys g) = {j. i \<le> j \<and> j < i + length keys \<and> unat (fnv32a (str (keys ! (j - i))) mod m) = g}"
proof (induction keys arbitrary: i)
  case (Cons key keys)
  have "j \<in> set (positions m i (key # keys) g) \<longleftrightarrow>
      i \<le> j \<and> j < i + length (key # keys) \<and> unat (fnv32a (str ((key # keys) ! (j - i))) mod m) = g" for j
  proof (cases "j = i")
    case True
    then show ?thesis by (simp add: Cons.IH)
  next
    case False
    then have e: "(i \<le> j \<and> j < i + length (key # keys)) = (Suc i \<le> j \<and> j < Suc i + length keys)" by auto
    have n: "(key # keys) ! (j - i) = keys ! (j - Suc i)" if "Suc i \<le> j" using that by (simp add: nth_Cons')
    show ?thesis using e False n by (auto simp: Cons.IH)
  qed
  then show ?case by blast
qed simp

lemma distinct_positions: "distinct (positions m i keys g)"
  by (induction keys arbitrary: i) (auto simp: set_positions)

lemma sd_group_positions:
  "sd_group m i keys G g =
     (if positions m i keys g = [] then G g
      else Some ((case G g of None \<Rightarrow> [] | Some ix \<Rightarrow> ix) @ positions m i keys g))"
  by (induction keys arbitrary: i G) (auto simp: Let_def)

lemma sd_scatter_ok:
  assumes "length vs = length ix" "length es = length ix" "distinct ix" "length (fst res) = n" "length (snd res) = n"
  shows "\<exists>res'. sd_scatter ix vs es res = Some res' \<and> length (fst res') = n \<and> length (snd res') = n \<and>
    (\<forall>x < n. (fst res' ! x, snd res' ! x) =
      (case map_of (zip ix (zip vs es)) x of None \<Rightarrow> (fst res ! x, snd res ! x) | Some p \<Rightarrow> p))"
  using assms
proof (induction ix arbitrary: vs es res)
  case (Cons i ix)
  obtain v vs' e es' where v: "vs = v # vs'" "es = e # es'"
    using Cons.prems(1,2) by (cases vs; cases es) auto
  have "map_of (zip ix (zip vs' es')) i = None"
    using Cons.prems(3) by (auto simp: map_of_eq_None_iff dest: set_zip_leftD)
  with Cons.IH [of vs' es' "((fst res)[i := v], (snd res)[i := e])"] Cons.prems v show ?case
    by (auto split: option.splits)
qed simp

definition shard_answer ::
  "('s, 'w) handler \<Rightarrow> (nat \<Rightarrow> nat \<Rightarrow> time) \<Rightarrow> 32 word \<Rightarrow> slice list \<Rightarrow> 's list \<Rightarrow> nat \<Rightarrow> batch_result \<times> 's" where
  "shard_answer H rd m keys S g =
     BatchGetWithCtx H (rd g) (map (\<lambda>i. keys ! i) (positions m 0 keys g)) (S ! g)"

definition answer_slots ::
  "('s, 'w) handler \<Rightarrow> (nat \<Rightarrow> nat \<Rightarrow> time) \<Rightarrow> 32 word \<Rightarrow> slice list \<Rightarrow> 's list \<Rightarrow> nat \<Rightarrow> nat \<rightharpoonup> slice \<times> go_error option" where
  "answer_slots H rd m keys S g =
     map_of (zip (positions m 0 keys g)
       (zip (fst (fst (shard_answer H rd m keys S g))) (snd (fst (shard_answer H rd m keys S g)))))"

lemma answer_slots_None:
  assumes "batch_lengths H"
  shows "answer_slots H rd m keys S g x = None \<longleftrightarrow> x \<notin> set (positions m 0 keys g)"
proof -
  let ?p = "positions m 0 keys g"
  have l: "length (zip (fst (fst (shard_answer H rd m keys S g))) (snd (fst (shard_answer H rd m keys S g)))) = length ?p"
    using assms by (simp add: batch_lengths_def shard_answer_def)
  have "fst ` set (zip ?p (zip (fst (fst (shard_answer H rd m keys S g))) (snd (fst (shard_answer H rd m keys S g))))) = set ?p"
    using l by (metis list.set_map map_fst_zip)
  then show ?thesis by (simp add: answer_slots_def map_of_eq_None_iff)
qed

lemma sd_collect_ok:
  assumes "batch_lengths H" "distinct gs" "\<forall>g \<in> set gs. g < length (sd_shards h) \<and> sd_shards h ! g = S ! g"
    and "length (fst res) = length keys" "length (snd res) = length keys"
  shows "\<exists>res' h'. sd_collect H rd keys (sd_group m 0 keys Map.empty) gs res h = (Inr res', h') \<and>
    length (fst res') = length keys \<and> length (snd res') = length keys \<and> sd_n h' = sd_n h \<and>
    length (sd_shards h') = length (sd_shards h) \<and>
    (\<forall>x < length keys. (fst res' ! x, snd res' ! x) =
      (let g = unat (fnv32a (str (keys ! x)) mod m)
       in if g \<in> set gs then the (answer_slots H rd m keys S g x) else (fst res ! x, snd res ! x))) \<and>
    (\<forall>g < length (sd_shards h). sd_shards h' ! g =
      (if g \<in> set gs \<and> positions m 0 keys g \<noteq> [] then snd (shard_answer H rd m keys S g) else sd_shards h ! g))"
  using assms(2-5)
proof (induction gs arbitrary: h res)
  case (Cons g gs)
  let ?p = "positions m 0 keys g"
  have at: "x \<in> set ?p \<longleftrightarrow> x < length keys \<and> unat (fnv32a (str (keys ! x)) mod m) = g" for x
    by (simp add: set_positions)
  have g: "g < length (sd_shards h)" "sd_shards h ! g = S ! g" "g \<notin> set gs" using Cons.prems(1,2) by auto
  show ?case
  proof (cases "?p = []")
    case True
    then have none: "\<not> (x < length keys \<and> unat (fnv32a (str (keys ! x)) mod m) = g)" for x using at [of x] by simp
    have "sd_collect H rd keys (sd_group m 0 keys Map.empty) (g # gs) res h =
        sd_collect H rd keys (sd_group m 0 keys Map.empty) gs res h"
      using True by (simp add: sd_group_positions)
    moreover from Cons.IH [of h res] Cons.prems obtain res' h' where
      "sd_collect H rd keys (sd_group m 0 keys Map.empty) gs res h = (Inr res', h')"
      "length (fst res') = length keys" "length (snd res') = length keys" "sd_n h' = sd_n h"
      "length (sd_shards h') = length (sd_shards h)"
      "\<forall>x < length keys. (fst res' ! x, snd res' ! x) =
        (let g = unat (fnv32a (str (keys ! x)) mod m)
         in if g \<in> set gs then the (answer_slots H rd m keys S g x) else (fst res ! x, snd res ! x))"
      "\<forall>g < length (sd_shards h). sd_shards h' ! g =
        (if g \<in> set gs \<and> positions m 0 keys g \<noteq> [] then snd (shard_answer H rd m keys S g) else sd_shards h ! g)"
      by auto
    ultimately show ?thesis using none True
      by (intro exI [of _ res'] exI [of _ h']) (auto simp: Let_def)
  next
    case False
    obtain vs es s where a: "shard_answer H rd m keys S g = ((vs, es), s)" by (metis prod.collapse)
    then have b: "BatchGetWithCtx H (rd g) (map (\<lambda>i. keys ! i) ?p) (sd_shards h ! g) = ((vs, es), s)"
      using g(2) by (simp add: shard_answer_def)
    have len: "length vs = length ?p" "length es = length ?p"
      using assms(1) b unfolding batch_lengths_def by (metis fst_conv length_map snd_conv)+
    obtain res1 where r: "sd_scatter ?p vs es res = Some res1" "length (fst res1) = length keys" "length (snd res1) = length keys"
      "\<forall>x < length keys. (fst res1 ! x, snd res1 ! x) =
        (case map_of (zip ?p (zip vs es)) x of None \<Rightarrow> (fst res ! x, snd res ! x) | Some p \<Rightarrow> p)"
      using sd_scatter_ok [OF len distinct_positions Cons.prems(3,4)] by blast
    let ?h1 = "h\<lparr>sd_shards := (sd_shards h)[g := s]\<rparr>"
    have "sd_collect H rd keys (sd_group m 0 keys Map.empty) (g # gs) res h =
        sd_collect H rd keys (sd_group m 0 keys Map.empty) gs res1 ?h1"
      using False g(1) b r(1) by (simp add: sd_group_positions Let_def)
    moreover have "\<forall>g' \<in> set gs. g' < length (sd_shards ?h1) \<and> sd_shards ?h1 ! g' = S ! g'"
      using Cons.prems(2) g(3) by (auto simp: nth_list_update)
    moreover have "(fst res1 ! x, snd res1 ! x) =
        (if unat (fnv32a (str (keys ! x)) mod m) = g then the (answer_slots H rd m keys S g x) else (fst res ! x, snd res ! x))"
      if "x < length keys" for x
    proof -
      have "answer_slots H rd m keys S g = map_of (zip ?p (zip vs es))" by (simp add: answer_slots_def a)
      with r(4) that at [of x] answer_slots_None [OF assms(1), of rd m keys S g x] show ?thesis by auto
    qed
    moreover obtain res' h' where c: "sd_collect H rd keys (sd_group m 0 keys Map.empty) gs res1 ?h1 = (Inr res', h')"
      "length (fst res') = length keys" "length (snd res') = length keys" "sd_n h' = sd_n ?h1"
      "length (sd_shards h') = length (sd_shards ?h1)"
      "\<forall>x < length keys. (fst res' ! x, snd res' ! x) =
        (let g = unat (fnv32a (str (keys ! x)) mod m)
         in if g \<in> set gs then the (answer_slots H rd m keys S g x) else (fst res1 ! x, snd res1 ! x))"
      "\<forall>g < length (sd_shards ?h1). sd_shards h' ! g =
        (if g \<in> set gs \<and> positions m 0 keys g \<noteq> [] then snd (shard_answer H rd m keys S g) else sd_shards ?h1 ! g)"
      using Cons.IH [OF _ calculation(2) r(2,3)] Cons.prems(1) by auto
    moreover have "sd_shards h' ! j = (if j \<in> set (g # gs) \<and> positions m 0 keys j \<noteq> []
        then snd (shard_answer H rd m keys S j) else sd_shards h ! j)" if "j < length (sd_shards h)" for j
      using that c(7) g(3) a False by (cases "j = g") auto
    ultimately show ?thesis
      by (intro exI [of _ res'] exI [of _ h']) (auto simp: Let_def)
  qed
qed auto

text \<open>
  A batch over the shards, whatever order their answers arrive in: every shard gets exactly its keys,
  in their order, in one call, its answers land at the positions those keys had, and no shard without
  a key is called. In particular the batch has one answer per key.
\<close>
theorem sharded_batch:
  assumes "sd_geometry h" "batch_lengths H" "distinct gs" "set gs = {..<length (sd_shards h)}" "keys \<noteq> []"
  shows "\<exists>res' h'. sd_BatchGetWithCtx H rd gs keys h = (Inr res', h') \<and>
    length (fst res') = length keys \<and> length (snd res') = length keys \<and>
    (\<forall>x < length keys. answer_slots H rd (of_int (sd_n h)) keys (sd_shards h) (sd_index (keys ! x) h) x =
       Some (fst res' ! x, snd res' ! x)) \<and>
    (\<forall>g < length (sd_shards h). sd_shards h' ! g =
       (if \<exists>x < length keys. sd_index (keys ! x) h = g
        then snd (shard_answer H rd (of_int (sd_n h)) keys (sd_shards h) g) else sd_shards h ! g))"
proof -
  let ?m = "of_int (sd_n h) :: 32 word"
  have "\<forall>g \<in> set gs. g < length (sd_shards h) \<and> sd_shards h ! g = sd_shards h ! g" using assms(4) by simp
  moreover define res0 :: batch_result where "res0 = (replicate (length keys) None, replicate (length keys) None)"
  moreover have "length (fst res0) = length keys" "length (snd res0) = length keys" by (simp_all add: res0_def)
  ultimately obtain res' h' where c: "sd_collect H rd keys (sd_group ?m 0 keys Map.empty) gs res0 h = (Inr res', h')"
    "length (fst res') = length keys" "length (snd res') = length keys"
    "\<forall>x < length keys. (fst res' ! x, snd res' ! x) =
      (let g = unat (fnv32a (str (keys ! x)) mod ?m)
       in if g \<in> set gs then the (answer_slots H rd ?m keys (sd_shards h) g x) else (fst res0 ! x, snd res0 ! x))"
    "\<forall>g < length (sd_shards h). sd_shards h' ! g =
      (if g \<in> set gs \<and> positions ?m 0 keys g \<noteq> [] then snd (shard_answer H rd ?m keys (sd_shards h) g) else sd_shards h ! g)"
    using sd_collect_ok [OF assms(2,3)] by blast
  have eq: "sd_BatchGetWithCtx H rd gs keys h = (Inr res', h')"
    using c(1) assms(5) sd_modulus(2) [OF assms(1)] by (simp add: sd_BatchGetWithCtx_def Let_def res0_def)
  have slot: "answer_slots H rd ?m keys (sd_shards h) (sd_index (keys ! x) h) x = Some (fst res' ! x, snd res' ! x)"
    if x: "x < length keys" for x
  proof -
    let ?g = "unat (fnv32a (str (keys ! x)) mod ?m)"
    have "?g \<in> set gs" using sd_index_bound [OF assms(1), of "keys ! x"] assms(4) by (simp add: sd_index_def)
    then have e: "(fst res' ! x, snd res' ! x) = the (answer_slots H rd ?m keys (sd_shards h) ?g x)"
      using c(4) x by (simp add: Let_def)
    have "x \<in> set (positions ?m 0 keys ?g)" using x by (simp add: set_positions)
    then have "answer_slots H rd ?m keys (sd_shards h) ?g x \<noteq> None" using answer_slots_None [OF assms(2)] by blast
    with e show ?thesis by (auto simp: sd_index_def)
  qed
  have "positions ?m 0 keys g \<noteq> [] \<longleftrightarrow> (\<exists>x < length keys. sd_index (keys ! x) h = g)" for g
  proof -
    have "positions ?m 0 keys g \<noteq> [] \<longleftrightarrow> set (positions ?m 0 keys g) \<noteq> {}" by simp
    then show ?thesis by (auto simp: set_positions sd_index_def)
  qed
  with eq slot c assms(4) show ?thesis by (intro exI [of _ res'] exI [of _ h']) auto
qed

lemma lru_batch_lengths: "batch_lengths lru_handler"
proof -
  have "length (fst (fst (lru_batch_loop rd i keys h))) = length keys \<and>
      length (snd (fst (lru_batch_loop rd i keys h))) = length keys" for rd i keys h
  proof (induction keys arbitrary: i h)
    case (Cons key keys)
    obtain r e h' where "lru_batch_step (rd i) key h = ((r, e), h')" by (metis prod.collapse)
    moreover obtain rs es h'' where "lru_batch_loop rd (Suc i) keys h' = ((rs, es), h'')" by (metis prod.collapse)
    ultimately show ?case using Cons.IH [of "Suc i" h'] by simp
  qed simp
  then show ?thesis by (simp add: batch_lengths_def lru_handler_def lru_BatchGetWithCtx_def)
qed

lemma sharded_batch_witness:
  "\<exists>res' h'. sd_BatchGetWithCtx lruH (\<lambda>g i. 5) [2, 0, 3, 1] [Some [1], None, Some [2]] sd_demo = (Inr res', h') \<and>
     length (fst res') = 3"
proof -
  have g: "sd_geometry sd_demo" using sd_demo_ok(1) by (simp add: sd_inv_def)
  have l: "length (sd_shards sd_demo) = 4" by (simp add: sd_demo_def NewShardedHandler_def)
  have d: "distinct [2, 0, 3, 1::nat]" and st: "set [2, 0, 3, 1] = {..<length (sd_shards sd_demo)}"
    unfolding l by auto
  have "\<exists>res' h'. sd_BatchGetWithCtx lruH (\<lambda>g i. 5) [2, 0, 3, 1] [Some [1], None, Some [2]] sd_demo = (Inr res', h') \<and>
     length (fst res') = length [Some [1 :: 8 word], None, Some [2]]"
    using sharded_batch [OF g lru_batch_lengths d st, of "[Some [1], None, Some [2]]" "\<lambda>g i. 5"] by blast
  moreover have "length [Some [1 :: 8 word], None, Some [2]] = 3" by simp
  ultimately show ?thesis by metis
qed

end
