(* ===== verification/Two_Level.thy ===== *)
theory Two_Level
  imports Handler_Interface
begin

text \<open>
  \<open>TwoLevelHandler\<close> of \<open>twolevel.go\<close> over any two implementations \<open>H1\<close>, \<open>H2\<close> of the interface. The
  goroutines it starts and does not wait for are tasks in \<open>tl_pending\<close>; \<open>tl_run_task\<close> is one of them
  running, in whatever order the scheduler picks. \<open>rd\<close> gives the successive clock readings of a
  call. Where an answer list of a level is too short for the code's index, Go panics.
\<close>

datatype tl_task =
    PutL1 slice slice | PutL1TTL slice slice duration
  | PutL2 slice slice | PutL2TTL slice slice duration

record ('a, 'b) TwoLevelHandler =
  tl_L1 :: 'a
  tl_L2 :: 'b
  tl_WriteThrough :: bool
  tl_pending :: "tl_task list"

definition NewTwoLevelHandler :: "'a \<Rightarrow> 'b \<Rightarrow> bool \<Rightarrow> ('a, 'b) TwoLevelHandler" where
  "NewTwoLevelHandler l1 l2 writeThrough =
     \<lparr>tl_L1 = l1, tl_L2 = l2, tl_WriteThrough = writeThrough, tl_pending = []\<rparr>"

definition tl_spawn :: "tl_task \<Rightarrow> ('a, 'b) TwoLevelHandler \<Rightarrow> ('a, 'b) TwoLevelHandler" where
  "tl_spawn task h = h\<lparr>tl_pending := tl_pending h @ [task]\<rparr>"

definition tl_run_task ::
  "('a, 'w) handler \<Rightarrow> ('b, 'w) handler \<Rightarrow> time \<Rightarrow> nat \<Rightarrow> ('a, 'b) TwoLevelHandler \<Rightarrow> ('a, 'b) TwoLevelHandler" where
  "tl_run_task H1 H2 now i h =
     (if i < length (tl_pending h)
      then let h' = h\<lparr>tl_pending := take i (tl_pending h) @ drop (Suc i) (tl_pending h)\<rparr> in
        (case tl_pending h ! i of
           PutL1 k v \<Rightarrow> h'\<lparr>tl_L1 := snd (SetWithCtx H1 now k v (tl_L1 h'))\<rparr>
         | PutL1TTL k v ttl \<Rightarrow> h'\<lparr>tl_L1 := snd (SetWithTTLAndCtx H1 now k v ttl (tl_L1 h'))\<rparr>
         | PutL2 k v \<Rightarrow> h'\<lparr>tl_L2 := snd (SetWithCtx H2 now k v (tl_L2 h'))\<rparr>
         | PutL2TTL k v ttl \<Rightarrow> h'\<lparr>tl_L2 := snd (SetWithTTLAndCtx H2 now k v ttl (tl_L2 h'))\<rparr>)
      else h)"

section \<open>Set, Get and Del\<close>

definition tl_SetWithCtx ::
  "('a, 'w) handler \<Rightarrow> ('b, 'w) handler \<Rightarrow> (nat \<Rightarrow> time) \<Rightarrow> slice \<Rightarrow> slice \<Rightarrow> ('a, 'b) TwoLevelHandler \<Rightarrow>
   go_error option \<times> ('a, 'b) TwoLevelHandler" where
  "tl_SetWithCtx H1 H2 rd key value h =
     (if tl_WriteThrough h
      then (case SetWithCtx H1 (rd 0) key value (tl_L1 h) of
              (Some err, s1) \<Rightarrow> (Some err, h\<lparr>tl_L1 := s1\<rparr>)
            | (None, s1) \<Rightarrow>
                (case SetWithCtx H2 (rd 1) key value (tl_L2 h) of
                   (r, s2) \<Rightarrow> (r, h\<lparr>tl_L1 := s1, tl_L2 := s2\<rparr>)))
      else (case SetWithCtx H1 (rd 0) key value (tl_L1 h) of
              (Some err, s1) \<Rightarrow> (Some err, h\<lparr>tl_L1 := s1\<rparr>)
            | (None, s1) \<Rightarrow> (None, tl_spawn (PutL2 key value) (h\<lparr>tl_L1 := s1\<rparr>))))"

definition tl_SetWithTTLAndCtx ::
  "('a, 'w) handler \<Rightarrow> ('b, 'w) handler \<Rightarrow> (nat \<Rightarrow> time) \<Rightarrow> slice \<Rightarrow> slice \<Rightarrow> duration \<Rightarrow>
   ('a, 'b) TwoLevelHandler \<Rightarrow> go_error option \<times> ('a, 'b) TwoLevelHandler" where
  "tl_SetWithTTLAndCtx H1 H2 rd key value ttl h =
     (if tl_WriteThrough h
      then (case SetWithTTLAndCtx H1 (rd 0) key value ttl (tl_L1 h) of
              (Some err, s1) \<Rightarrow> (Some err, h\<lparr>tl_L1 := s1\<rparr>)
            | (None, s1) \<Rightarrow>
                (case SetWithTTLAndCtx H2 (rd 1) key value ttl (tl_L2 h) of
                   (r, s2) \<Rightarrow> (r, h\<lparr>tl_L1 := s1, tl_L2 := s2\<rparr>)))
      else (case SetWithTTLAndCtx H1 (rd 0) key value ttl (tl_L1 h) of
              (Some err, s1) \<Rightarrow> (Some err, h\<lparr>tl_L1 := s1\<rparr>)
            | (None, s1) \<Rightarrow> (None, tl_spawn (PutL2TTL key value ttl) (h\<lparr>tl_L1 := s1\<rparr>))))"

text \<open>The promotion of an L2 hit: with the time to live that L2 reports, without one otherwise.\<close>

definition tl_promote ::
  "('a, 'w) handler \<Rightarrow> ('b, 'w) handler \<Rightarrow> (nat \<Rightarrow> time) \<Rightarrow> slice \<Rightarrow> slice \<Rightarrow> ('a, 'b) TwoLevelHandler \<Rightarrow>
   ('a, 'b) TwoLevelHandler" where
  "tl_promote H1 H2 rd key v2 h =
     (case GetTTLWithCtx H2 (rd 2) key (tl_L2 h) of
        (Inr ttl, s2) \<Rightarrow>
          if 0 < ttl then h\<lparr>tl_L1 := snd (SetWithTTLAndCtx H1 (rd 3) key v2 ttl (tl_L1 h)), tl_L2 := s2\<rparr>
          else h\<lparr>tl_L1 := snd (SetWithCtx H1 (rd 3) key v2 (tl_L1 h)), tl_L2 := s2\<rparr>
      | (Inl _, s2) \<Rightarrow> h\<lparr>tl_L1 := snd (SetWithCtx H1 (rd 3) key v2 (tl_L1 h)), tl_L2 := s2\<rparr>)"

definition tl_GetWithCtx ::
  "('a, 'w) handler \<Rightarrow> ('b, 'w) handler \<Rightarrow> (nat \<Rightarrow> time) \<Rightarrow> slice \<Rightarrow> ('a, 'b) TwoLevelHandler \<Rightarrow>
   slice go_result \<times> ('a, 'b) TwoLevelHandler" where
  "tl_GetWithCtx H1 H2 rd key h =
     (case GetWithCtx H1 (rd 0) key (tl_L1 h) of
        (Inr v, s1) \<Rightarrow> (Inr v, h\<lparr>tl_L1 := s1\<rparr>)
      | (Inl _, s1) \<Rightarrow>
          (case GetWithCtx H2 (rd 1) key (tl_L2 h) of
             (Inl _, s2) \<Rightarrow> (Inl ErrNotFound, h\<lparr>tl_L1 := s1, tl_L2 := s2\<rparr>)
           | (Inr v2, s2) \<Rightarrow> (Inr v2, tl_promote H1 H2 rd key v2 (h\<lparr>tl_L1 := s1, tl_L2 := s2\<rparr>))))"

definition tl_GetTTLWithCtx ::
  "('a, 'w) handler \<Rightarrow> ('b, 'w) handler \<Rightarrow> (nat \<Rightarrow> time) \<Rightarrow> slice \<Rightarrow> ('a, 'b) TwoLevelHandler \<Rightarrow>
   duration go_result \<times> ('a, 'b) TwoLevelHandler" where
  "tl_GetTTLWithCtx H1 H2 rd key h =
     (case GetTTLWithCtx H1 (rd 0) key (tl_L1 h) of
        (Inr ttl, s1) \<Rightarrow> (Inr ttl, h\<lparr>tl_L1 := s1\<rparr>)
      | (Inl _, s1) \<Rightarrow>
          (case GetTTLWithCtx H2 (rd 1) key (tl_L2 h) of
             (r, s2) \<Rightarrow> (r, h\<lparr>tl_L1 := s1, tl_L2 := s2\<rparr>)))"

definition tl_DelWithCtx ::
  "('a, 'w) handler \<Rightarrow> ('b, 'w) handler \<Rightarrow> slice \<Rightarrow> ('a, 'b) TwoLevelHandler \<Rightarrow>
   go_error option \<times> ('a, 'b) TwoLevelHandler" where
  "tl_DelWithCtx H1 H2 key h =
     (let h' = h\<lparr>tl_L1 := snd (DelWithCtx H1 key (tl_L1 h))\<rparr>
      in (case DelWithCtx H2 key (tl_L2 h') of (r, s2) \<Rightarrow> (r, h'\<lparr>tl_L2 := s2\<rparr>)))"

section \<open>Batches\<close>

text \<open>The loop over the errors of L1: hits go to the results, positions of misses are collected.\<close>

fun tl_split ::
  "slice list \<Rightarrow> slice list \<Rightarrow> nat \<Rightarrow> go_error option list \<Rightarrow> slice list \<Rightarrow> nat list \<Rightarrow> (slice list \<times> nat list) option" where
  "tl_split keys rs i [] results need = Some (results, need)"
| "tl_split keys rs i (None # es) results need =
     (if i < length rs \<and> i < length results then tl_split keys rs (Suc i) es (results[i := rs ! i]) need else None)"
| "tl_split keys rs i (Some e # es) results need =
     (if i < length keys then tl_split keys rs (Suc i) es results (need @ [i]) else None)"

text \<open>The loop over the positions asked of L2: every hit also starts a goroutine that fills L1.\<close>

fun tl_merge ::
  "slice list \<Rightarrow> slice list \<Rightarrow> go_error option list \<Rightarrow> nat \<Rightarrow> nat list \<Rightarrow> batch_result \<Rightarrow> tl_task list \<Rightarrow>
   (batch_result \<times> tl_task list) option" where
  "tl_merge keys rs es j [] res tasks = Some (res, tasks)"
| "tl_merge keys rs es j (idx # need) res tasks =
     (if length es \<le> j then None
      else (case es ! j of
              None \<Rightarrow>
                if length rs \<le> j then None
                else tl_merge keys rs es (Suc j) need ((fst res)[idx := rs ! j], (snd res)[idx := None])
                       (tasks @ [PutL1 (keys ! idx) (rs ! j)])
            | Some e \<Rightarrow> tl_merge keys rs es (Suc j) need (fst res, (snd res)[idx := Some e]) tasks))"

definition tl_BatchGetWithCtx ::
  "('a, 'w) handler \<Rightarrow> ('b, 'w) handler \<Rightarrow> (nat \<Rightarrow> time) \<Rightarrow> (nat \<Rightarrow> time) \<Rightarrow> slice list \<Rightarrow>
   ('a, 'b) TwoLevelHandler \<Rightarrow> batch_result go_result \<times> ('a, 'b) TwoLevelHandler" where
  "tl_BatchGetWithCtx H1 H2 rd1 rd2 keys h =
     (if keys = [] then (Inr ([], []), h)
      else (case BatchGetWithCtx H1 rd1 keys (tl_L1 h) of
        ((rs1, es1), s1) \<Rightarrow>
          (case tl_split keys rs1 0 es1 (replicate (length keys) None) [] of
             None \<Rightarrow> (Inl RuntimePanic, h\<lparr>tl_L1 := s1\<rparr>)
           | Some (results, need) \<Rightarrow>
               let errors = replicate (length keys) None in
               if need = [] then (Inr (results, errors), h\<lparr>tl_L1 := s1\<rparr>)
               else (case BatchGetWithCtx H2 rd2 (map (\<lambda>i. keys ! i) need) (tl_L2 h) of
                 ((rs2, es2), s2) \<Rightarrow>
                   let h' = h\<lparr>tl_L1 := s1, tl_L2 := s2\<rparr> in
                   (case tl_merge keys rs2 es2 0 need (results, errors) [] of
                      None \<Rightarrow> (Inl RuntimePanic, h')
                    | Some (res, tasks) \<Rightarrow> (Inr res, h'\<lparr>tl_pending := tl_pending h' @ tasks\<rparr>))))))"

section \<open>GetOrCompute, statistics and Close\<close>

definition tl_GetOrComputeWithCtx ::
  "('a, 'w) handler \<Rightarrow> ('b, 'w) handler \<Rightarrow> env \<Rightarrow> slice \<Rightarrow> duration \<Rightarrow> 'w loader \<Rightarrow> ('a, 'b) TwoLevelHandler \<Rightarrow> 'w \<Rightarrow>
   slice go_result \<times> ('a, 'b) TwoLevelHandler \<times> 'w" where
  "tl_GetOrComputeWithCtx H1 H2 en key ttl loader h w =
     (case GetWithCtx H1 (clk en 0) key (tl_L1 h) of
        (Inr v, s1) \<Rightarrow> (Inr v, h\<lparr>tl_L1 := s1\<rparr>, w)
      | (Inl _, s1) \<Rightarrow>
          (case GetWithCtx H2 (clk en 1) key (tl_L2 h) of
             (Inr v, s2) \<Rightarrow>
               (Inr v, tl_spawn (if ttl \<le> 0 then PutL1 key v else PutL1TTL key v ttl) (h\<lparr>tl_L1 := s1, tl_L2 := s2\<rparr>), w)
           | (Inl _, s2) \<Rightarrow>
               let h' = h\<lparr>tl_L1 := s1, tl_L2 := s2\<rparr> in
               (case loader w of
                  (Inl err, w') \<Rightarrow> (Inl err, h', w')
                | (Inr val, w') \<Rightarrow>
                    (Inr (Some (str val)),
                     (if ttl \<le> 0
                      then h'\<lparr>tl_L1 := snd (SetWithCtx H1 (clk en 2) key val (tl_L1 h')),
                              tl_L2 := snd (SetWithCtx H2 (clk en 3) key val (tl_L2 h'))\<rparr>
                      else h'\<lparr>tl_L1 := snd (SetWithTTLAndCtx H1 (clk en 2) key val ttl (tl_L1 h')),
                              tl_L2 := snd (SetWithTTLAndCtx H2 (clk en 3) key val ttl (tl_L2 h'))\<rparr>), w'))))"

definition tl_Stats :: "('a \<Rightarrow> 'x) \<Rightarrow> ('b \<Rightarrow> 'y) \<Rightarrow> ('a, 'b) TwoLevelHandler \<Rightarrow> 'x \<times> 'y" where
  "tl_Stats stats1 stats2 h = (stats1 (tl_L1 h), stats2 (tl_L2 h))"

definition tl_Close ::
  "('a, 'w) handler \<Rightarrow> ('b, 'w) handler \<Rightarrow> ('a, 'b) TwoLevelHandler \<Rightarrow> go_error option \<times> ('a, 'b) TwoLevelHandler" where
  "tl_Close H1 H2 h =
     (case CloseH H1 (tl_L1 h) of
        (e1, s1) \<Rightarrow>
          (case CloseH H2 (tl_L2 h) of
             (e2, s2) \<Rightarrow> (case e2 of Some e \<Rightarrow> Some e | None \<Rightarrow> e1, h\<lparr>tl_L1 := s1, tl_L2 := s2\<rparr>)))"

section \<open>The methods without a context\<close>

definition tl_Get ::
  "('a, 'w) handler \<Rightarrow> ('b, 'w) handler \<Rightarrow> (nat \<Rightarrow> time) \<Rightarrow> slice \<Rightarrow> ('a, 'b) TwoLevelHandler \<Rightarrow>
   slice go_result \<times> ('a, 'b) TwoLevelHandler" where
  "tl_Get H1 H2 rd key h = tl_GetWithCtx H1 H2 rd key h"

definition tl_GetTTL ::
  "('a, 'w) handler \<Rightarrow> ('b, 'w) handler \<Rightarrow> (nat \<Rightarrow> time) \<Rightarrow> slice \<Rightarrow> ('a, 'b) TwoLevelHandler \<Rightarrow>
   duration go_result \<times> ('a, 'b) TwoLevelHandler" where
  "tl_GetTTL H1 H2 rd key h = tl_GetTTLWithCtx H1 H2 rd key h"

definition tl_Set ::
  "('a, 'w) handler \<Rightarrow> ('b, 'w) handler \<Rightarrow> (nat \<Rightarrow> time) \<Rightarrow> slice \<Rightarrow> slice \<Rightarrow> ('a, 'b) TwoLevelHandler \<Rightarrow>
   go_error option \<times> ('a, 'b) TwoLevelHandler" where
  "tl_Set H1 H2 rd key value h = tl_SetWithCtx H1 H2 rd key value h"

definition tl_SetWithTTL ::
  "('a, 'w) handler \<Rightarrow> ('b, 'w) handler \<Rightarrow> (nat \<Rightarrow> time) \<Rightarrow> slice \<Rightarrow> slice \<Rightarrow> duration \<Rightarrow>
   ('a, 'b) TwoLevelHandler \<Rightarrow> go_error option \<times> ('a, 'b) TwoLevelHandler" where
  "tl_SetWithTTL H1 H2 rd key value ttl h = tl_SetWithTTLAndCtx H1 H2 rd key value ttl h"

definition tl_Del ::
  "('a, 'w) handler \<Rightarrow> ('b, 'w) handler \<Rightarrow> slice \<Rightarrow> ('a, 'b) TwoLevelHandler \<Rightarrow>
   go_error option \<times> ('a, 'b) TwoLevelHandler" where
  "tl_Del H1 H2 key h = tl_DelWithCtx H1 H2 key h"

definition tl_BatchGet ::
  "('a, 'w) handler \<Rightarrow> ('b, 'w) handler \<Rightarrow> (nat \<Rightarrow> time) \<Rightarrow> (nat \<Rightarrow> time) \<Rightarrow> slice list \<Rightarrow>
   ('a, 'b) TwoLevelHandler \<Rightarrow> batch_result go_result \<times> ('a, 'b) TwoLevelHandler" where
  "tl_BatchGet H1 H2 rd1 rd2 keys h = tl_BatchGetWithCtx H1 H2 rd1 rd2 keys h"

definition tl_GetOrCompute ::
  "('a, 'w) handler \<Rightarrow> ('b, 'w) handler \<Rightarrow> (nat \<Rightarrow> time) \<Rightarrow> slice \<Rightarrow> duration \<Rightarrow> 'w loader \<Rightarrow>
   ('a, 'b) TwoLevelHandler \<Rightarrow> 'w \<Rightarrow> slice go_result \<times> ('a, 'b) TwoLevelHandler \<times> 'w" where
  "tl_GetOrCompute H1 H2 rd key ttl loader h w =
     tl_GetOrComputeWithCtx H1 H2 \<lparr>clk = rd, obs = (\<lambda>_. None)\<rparr> key ttl loader h w"

end
