(* ===== verification/Two_Level_Correct.thy ===== *)
theory Two_Level_Correct
  imports Two_Level Lru_Optimized_Props Expiring_Correct
begin

text \<open>
  What a two-level cache answers. While L1 is \<open>coherent\<close> with L2 (it holds nothing that L2 does not
  hold at the same time) a write-through cache answers exactly as L2 alone: eviction from L1 does not
  show. The locale \<open>two_level\<close> states what that needs of the two levels, and is interpreted on an
  optimised LRU cache before an expiring one. The rest are the ways in which the code breaks
  coherence: a promotion at the deadline, a promotion by a batch, and the goroutines of the
  asynchronous mode.
\<close>

section \<open>Coherence\<close>

type_synonym 's view = "time \<Rightarrow> 's \<Rightarrow> go_string \<Rightarrow> slice option"

definition tl_coherent :: "'a view \<Rightarrow> 'b view \<Rightarrow> time \<Rightarrow> ('a, 'b) TwoLevelHandler \<Rightarrow> bool" where
  "tl_coherent view1 view2 now h \<longleftrightarrow>
     (\<forall>t \<ge> now. \<forall>k v. view1 t (tl_L1 h) k = Some v \<longrightarrow> view2 t (tl_L2 h) k = Some v)"

definition tl_open ::
  "('a \<Rightarrow> bool) \<Rightarrow> ('a \<Rightarrow> bool) \<Rightarrow> ('b \<Rightarrow> bool) \<Rightarrow> ('b \<Rightarrow> bool) \<Rightarrow> ('a, 'b) TwoLevelHandler \<Rightarrow> bool" where
  "tl_open inv1 closed1 inv2 closed2 h \<longleftrightarrow>
     inv1 (tl_L1 h) \<and> \<not> closed1 (tl_L1 h) \<and> inv2 (tl_L2 h) \<and> \<not> closed2 (tl_L2 h)"

lemma tl_coherent_mono: "tl_coherent v1 v2 now h \<Longrightarrow> now \<le> now' \<Longrightarrow> tl_coherent v1 v2 now' h"
  by (auto simp: tl_coherent_def)

text \<open>A hit that is not in the nanosecond of its deadline, and whose deadline is an \<open>int64\<close>.\<close>

definition off_deadline :: "'b view \<Rightarrow> time \<Rightarrow> 'b \<Rightarrow> go_string \<Rightarrow> bool" where
  "off_deadline view now s k \<longleftrightarrow> (\<forall>v. view now s k = Some v \<longrightarrow> view (now + 1) s k = Some v \<and>
     (view (max_int64 + 1) s k = None \<or> (\<forall>t \<ge> now. view t s k = Some v)))"

section \<open>Calls\<close>

datatype tl_call = CallSet bytes bytes duration | CallGet bytes | CallDel bytes
datatype tl_answer = Ack "go_error option" | Val "slice go_result"

fun tl_exec ::
  "('a, 'w) handler \<Rightarrow> ('b, 'w) handler \<Rightarrow> time \<Rightarrow> tl_call \<Rightarrow> ('a, 'b) TwoLevelHandler \<Rightarrow>
   tl_answer \<times> ('a, 'b) TwoLevelHandler" where
  "tl_exec H1 H2 now (CallSet k v ttl) h =
     (case tl_SetWithTTLAndCtx H1 H2 (\<lambda>_. now) (Some k) (Some v) ttl h of (r, h') \<Rightarrow> (Ack r, h'))"
| "tl_exec H1 H2 now (CallGet k) h = (case tl_GetWithCtx H1 H2 (\<lambda>_. now) (Some k) h of (r, h') \<Rightarrow> (Val r, h'))"
| "tl_exec H1 H2 now (CallDel k) h = (case tl_DelWithCtx H1 H2 (Some k) h of (r, h') \<Rightarrow> (Ack r, h'))"

fun h_exec :: "('b, 'w) handler \<Rightarrow> time \<Rightarrow> tl_call \<Rightarrow> 'b \<Rightarrow> tl_answer \<times> 'b" where
  "h_exec H now (CallSet k v ttl) s =
     (case SetWithTTLAndCtx H now (Some k) (Some v) ttl s of (r, s') \<Rightarrow> (Ack r, s'))"
| "h_exec H now (CallGet k) s = (case GetWithCtx H now (Some k) s of (r, s') \<Rightarrow> (Val r, s'))"
| "h_exec H now (CallDel k) s = (case DelWithCtx H (Some k) s of (r, s') \<Rightarrow> (Ack r, s'))"

fun tl_run ::
  "('a, 'w) handler \<Rightarrow> ('b, 'w) handler \<Rightarrow> (time \<times> tl_call) list \<Rightarrow> ('a, 'b) TwoLevelHandler \<Rightarrow> tl_answer list" where
  "tl_run H1 H2 [] h = []"
| "tl_run H1 H2 ((now, c) # cs) h = (case tl_exec H1 H2 now c h of (a, h') \<Rightarrow> a # tl_run H1 H2 cs h')"

fun h_run :: "('b, 'w) handler \<Rightarrow> (time \<times> tl_call) list \<Rightarrow> 'b \<Rightarrow> tl_answer list" where
  "h_run H [] s = []"
| "h_run H ((now, c) # cs) s = (case h_exec H now c s of (a, s') \<Rightarrow> a # h_run H cs s')"

text \<open>Calls at times that do not go back, with deadlines that are \<open>int64\<close>, and no lookup of a key
  in the nanosecond of its deadline.\<close>

fun calls_ok :: "('b, 'w) handler \<Rightarrow> 'b view \<Rightarrow> time \<Rightarrow> (time \<times> tl_call) list \<Rightarrow> 'b \<Rightarrow> bool" where
  "calls_ok H view prev [] s = True"
| "calls_ok H view prev ((now, c) # cs) s =
     (prev \<le> now \<and> 1 < now \<and> now \<le> max_int64 \<and>
      (case c of CallSet k v ttl \<Rightarrow> ttl_ok now ttl | CallGet k \<Rightarrow> off_deadline view now s k | CallDel k \<Rightarrow> True) \<and>
      calls_ok H view now cs (snd (h_exec H now c s)))"

section \<open>The interface of two levels\<close>

locale two_level = L1: cache_core H1 inv1 closed1 view1 Some + L2: cache_handler H2 inv2 closed2 view2 Some
  for H1 :: "('a, 'w) handler" and inv1 closed1 view1
    and H2 :: "('b, 'w) handler" and inv2 closed2 view2 +
  assumes set_exact: "inv2 s \<Longrightarrow> k' \<noteq> k \<Longrightarrow>
      view2 t (snd (SetWithTTLAndCtx H2 now (Some k) value ttl s)) k' = view2 t s k'"
    and ttl_hit: "inv2 s \<Longrightarrow> \<not> closed2 s \<Longrightarrow> 1 < now \<Longrightarrow> now \<le> max_int64 \<Longrightarrow> view2 now s k = Some v \<Longrightarrow>
      off_deadline view2 now s k \<Longrightarrow>
      \<exists>d. GetTTLWithCtx H2 now (Some k) s = (Inr d, s) \<and> now + d \<le> max_int64 \<and>
        (\<forall>t \<ge> now. (0 < d \<longrightarrow> t \<le> now + d) \<longrightarrow> view2 t s k = Some v)"
begin

abbreviation opened :: "('a, 'b) TwoLevelHandler \<Rightarrow> bool" where
  "opened \<equiv> tl_open inv1 closed1 inv2 closed2"

abbreviation coherent :: "time \<Rightarrow> ('a, 'b) TwoLevelHandler \<Rightarrow> bool" where
  "coherent \<equiv> tl_coherent view1 view2"

text \<open>One key written to L1 with a deadline that L2 keeps too.\<close>

lemma coherent_put:
  assumes "inv1 s" "\<not> closed1 s" "ttl_ok now ttl"
    and "\<forall>t \<ge> now. \<forall>k v. view1 t s k = Some v \<longrightarrow> k \<noteq> key \<longrightarrow> view2 t s2 k = Some v"
    and "\<forall>t \<ge> now. lives now ttl t \<longrightarrow> view2 t s2 key = Some (Some v)"
    and "tl_L1 h = snd (SetWithTTLAndCtx H1 now (Some key) (Some v) ttl s)" "tl_L2 h = s2"
  shows "coherent now h"
  unfolding tl_coherent_def
proof (intro allI impI)
  fix t k x assume t: "now \<le> t" and x: "view1 t (tl_L1 h) k = Some x"
  show "view2 t (tl_L2 h) k = Some x"
  proof (cases "k = key")
    case True
    from L1.set_weak [OF assms(1-3) t, of key v] x assms(5-7) t True show ?thesis
      by (auto split: if_splits)
  next
    case False
    have "view1 t (tl_L1 h) k \<in> {None, view1 t s k}"
      unfolding assms(6) by (rule L1.set_other [OF assms(1) False])
    with x have "view1 t s k = Some x" by auto
    with assms(4,7) t False show ?thesis by simp
  qed
qed

lemma two_set:
  assumes "opened h" "coherent now h" "ttl_ok now ttl" "tl_WriteThrough h"
    and "tl_SetWithTTLAndCtx H1 H2 (\<lambda>_. now) (Some k) (Some v) ttl h = (r, h')"
  shows "r = None" "opened h'" "coherent now h'" "tl_WriteThrough h'"
    "\<forall>t \<ge> now. view2 t (tl_L2 h') = (view2 t (tl_L2 h))(k := if lives now ttl t then Some (Some v) else None)"
proof -
  let ?s1 = "SetWithTTLAndCtx H1 now (Some k) (Some v) ttl (tl_L1 h)"
  let ?s2 = "SetWithTTLAndCtx H2 now (Some k) (Some v) ttl (tl_L2 h)"
  have i: "inv1 (tl_L1 h)" "\<not> closed1 (tl_L1 h)" "inv2 (tl_L2 h)" "\<not> closed2 (tl_L2 h)"
    using assms(1) by (simp_all add: tl_open_def)
  have ttl: "-1 \<le> ttl" using assms(3) by (simp add: ttl_ok_def)
  have e: "r = None" "h' = h\<lparr>tl_L1 := snd ?s1, tl_L2 := snd ?s2\<rparr>"
    using assms(4,5) L1.set_ok [OF i(1,2) ttl, of now k v] L2.set_ok [OF i(3,4) ttl, of now k v]
    by (auto simp: tl_SetWithTTLAndCtx_def split: prod.splits option.splits)
  show "r = None" "tl_WriteThrough h'" using e assms(4) by simp_all
  show "opened h'" using e i by (simp add: tl_open_def L1.set_inv L2.set_inv L1.set_flag L2.set_flag)
  show v: "\<forall>t \<ge> now. view2 t (tl_L2 h') = (view2 t (tl_L2 h))(k := if lives now ttl t then Some (Some v) else None)"
    using e L2.set_view [OF i(3,4) assms(3), of _ k v] set_exact [OF i(3)] by (auto simp: fun_eq_iff)
  show "coherent now h'"
  proof (rule coherent_put [OF i(1,2) assms(3)])
    show "\<forall>t \<ge> now. \<forall>k' x. view1 t (tl_L1 h) k' = Some x \<longrightarrow> k' \<noteq> k \<longrightarrow> view2 t (tl_L2 h') k' = Some x"
      using v assms(2) by (auto simp: tl_coherent_def)
    show "\<forall>t \<ge> now. lives now ttl t \<longrightarrow> view2 t (tl_L2 h') k = Some (Some v)" using v by simp
  qed (use e in simp_all)
qed

lemma two_del:
  assumes "opened h" "coherent now h" "tl_DelWithCtx H1 H2 (Some k) h = (r, h')"
  shows "r = None" "opened h'" "coherent now h'" "tl_WriteThrough h' = tl_WriteThrough h"
    "\<forall>t. view2 t (tl_L2 h') = (view2 t (tl_L2 h))(k := None)"
proof -
  have i: "inv1 (tl_L1 h)" "\<not> closed1 (tl_L1 h)" "inv2 (tl_L2 h)" "\<not> closed2 (tl_L2 h)"
    using assms(1) by (simp_all add: tl_open_def)
  have e: "r = None" "h' = h\<lparr>tl_L1 := snd (DelWithCtx H1 (Some k) (tl_L1 h)), tl_L2 := snd (DelWithCtx H2 (Some k) (tl_L2 h))\<rparr>"
    using assms(3) L2.del_ok [OF i(3,4), of k] by (auto simp: tl_DelWithCtx_def Let_def split: prod.splits)
  show "r = None" "tl_WriteThrough h' = tl_WriteThrough h" using e by simp_all
  show "opened h'" using e i by (simp add: tl_open_def L1.del_inv L2.del_inv L1.del_flag L2.del_flag)
  show v: "\<forall>t. view2 t (tl_L2 h') = (view2 t (tl_L2 h))(k := None)"
    using e i by (simp add: L2.del_view)
  show "coherent now h'"
    using v assms(2) e L1.del_view [OF i(1,2)] by (auto simp: tl_coherent_def)
qed

text \<open>A promotion keeps L1 within L2.\<close>

lemma two_promote:
  assumes "opened h" "coherent now h" "1 < now" "now \<le> max_int64" "view2 now (tl_L2 h) k = Some v"
    and "off_deadline view2 now (tl_L2 h) k"
  shows "opened (tl_promote H1 H2 (\<lambda>_. now) (Some k) v h)" "coherent now (tl_promote H1 H2 (\<lambda>_. now) (Some k) v h)"
    "tl_L2 (tl_promote H1 H2 (\<lambda>_. now) (Some k) v h) = tl_L2 h"
    "tl_WriteThrough (tl_promote H1 H2 (\<lambda>_. now) (Some k) v h) = tl_WriteThrough h"
proof -
  have i: "inv1 (tl_L1 h)" "\<not> closed1 (tl_L1 h)" "inv2 (tl_L2 h)" "\<not> closed2 (tl_L2 h)"
    using assms(1) by (simp_all add: tl_open_def)
  obtain d where d: "GetTTLWithCtx H2 now (Some k) (tl_L2 h) = (Inr d, tl_L2 h)" "now + d \<le> max_int64"
    "\<forall>t \<ge> now. (0 < d \<longrightarrow> t \<le> now + d) \<longrightarrow> view2 t (tl_L2 h) k = Some v"
    using ttl_hit [OF i(3,4) assms(3-6)] by blast
  let ?ttl = "if 0 < d then d else -1"
  have e: "tl_promote H1 H2 (\<lambda>_. now) (Some k) v h =
      h\<lparr>tl_L1 := snd (SetWithTTLAndCtx H1 now (Some k) v ?ttl (tl_L1 h))\<rparr>"
    using d(1) by (simp add: tl_promote_def L1.set_no_ttl [OF i(1)])
  show "tl_L2 (tl_promote H1 H2 (\<lambda>_. now) (Some k) v h) = tl_L2 h"
    "tl_WriteThrough (tl_promote H1 H2 (\<lambda>_. now) (Some k) v h) = tl_WriteThrough h"
    "opened (tl_promote H1 H2 (\<lambda>_. now) (Some k) v h)"
    using i by (simp_all add: e tl_open_def L1.set_inv L1.set_flag)
  have ttl: "ttl_ok now ?ttl" using assms(3,4) d(2) by (simp add: ttl_ok_def)
  show "coherent now (tl_promote H1 H2 (\<lambda>_. now) (Some k) v h)"
  proof (cases v)
    case None
    then have "snd (SetWithTTLAndCtx H1 now (Some k) v ?ttl (tl_L1 h)) = tl_L1 h"
      using L1.set_err [OF i(1), of "Some k" v ?ttl now] by auto
    then show ?thesis using assms(2) by (simp add: e tl_coherent_def)
  next
    case (Some b)
    show ?thesis
    proof (rule coherent_put [OF i(1,2) ttl])
      show "\<forall>t \<ge> now. \<forall>k' x. view1 t (tl_L1 h) k' = Some x \<longrightarrow> k' \<noteq> k \<longrightarrow> view2 t (tl_L2 h) k' = Some x"
        using assms(2) by (auto simp: tl_coherent_def)
      show "\<forall>t \<ge> now. lives now ?ttl t \<longrightarrow> view2 t (tl_L2 h) k = Some (Some b)"
        using d(3) Some by (auto simp: lives_def)
    qed (use e Some in simp_all)
  qed
qed

text \<open>A lookup answers as L2 would, and changes nothing that L2 holds from then on.\<close>

lemma two_get:
  assumes "opened h" "coherent now h" "1 < now" "now \<le> max_int64" "off_deadline view2 now (tl_L2 h) k"
    and "tl_GetWithCtx H1 H2 (\<lambda>_. now) (Some k) h = (r, h')"
  shows "r = found (view2 now (tl_L2 h) k)" "opened h'" "coherent now h'" "tl_WriteThrough h' = tl_WriteThrough h"
    "\<forall>t \<ge> now. view2 t (tl_L2 h') = view2 t (tl_L2 h)"
proof -
  have i: "inv1 (tl_L1 h)" "\<not> closed1 (tl_L1 h)" "inv2 (tl_L2 h)" "\<not> closed2 (tl_L2 h)"
    using assms(1) by (simp_all add: tl_open_def)
  define s1 where "s1 = snd (GetWithCtx H1 now (Some k) (tl_L1 h))"
  define s2 where "s2 = snd (GetWithCtx H2 now (Some k) (tl_L2 h))"
  have g1: "GetWithCtx H1 now (Some k) (tl_L1 h) = (found (view1 now (tl_L1 h) k), s1)"
    unfolding s1_def by (rule L1.get_result [OF i(1,2)])
  have g2: "GetWithCtx H2 now (Some k) (tl_L2 h) = (found (view2 now (tl_L2 h) k), s2)"
    unfolding s2_def by (rule L2.get_result [OF i(3,4)])
  have v1: "view1 t s1 = view1 t (tl_L1 h)" if "now \<le> t" for t using L1.get_view [OF i(1) that] s1_def by simp
  have v2: "view2 t s2 = view2 t (tl_L2 h)" if "now \<le> t" for t using L2.get_view [OF i(3) that] s2_def by simp
  have o: "inv1 s1" "\<not> closed1 s1" "inv2 s2" "\<not> closed2 s2"
    using i s1_def s2_def by (simp_all add: L1.get_inv L2.get_inv L1.get_flag L2.get_flag)
  show "r = found (view2 now (tl_L2 h) k)" "opened h'" "coherent now h'" "tl_WriteThrough h' = tl_WriteThrough h"
    "\<forall>t \<ge> now. view2 t (tl_L2 h') = view2 t (tl_L2 h)"
  proof (atomize (full), goal_cases)
    case 1
    show ?case
    proof (cases "view1 now (tl_L1 h) k")
      case (Some v)
      then have e: "r = Inr v" "h' = h\<lparr>tl_L1 := s1\<rparr>" using assms(6) g1 by (simp_all add: tl_GetWithCtx_def)
      have "view2 now (tl_L2 h) k = Some v" using assms(2) Some by (auto simp: tl_coherent_def)
      moreover have "opened h'" using e o i by (simp add: tl_open_def)
      moreover have "coherent now h'" using e v1 assms(2) by (simp add: tl_coherent_def)
      ultimately show ?thesis using e by simp
    next
      case None
      let ?h = "h\<lparr>tl_L1 := s1, tl_L2 := s2\<rparr>"
      have c: "opened ?h" "coherent now ?h" using o v1 v2 assms(2) by (simp_all add: tl_open_def tl_coherent_def)
      show ?thesis
      proof (cases "view2 now (tl_L2 h) k")
        case miss: None
        then have "r = Inl ErrNotFound" "h' = ?h" using assms(6) None g1 g2 by (simp_all add: tl_GetWithCtx_def)
        then show ?thesis using c v2 miss by simp
      next
        case (Some v)
        then have e: "r = Inr v" "h' = tl_promote H1 H2 (\<lambda>_. now) (Some k) v ?h"
          using assms(6) None g1 g2 by (simp_all add: tl_GetWithCtx_def)
        have od: "off_deadline view2 now (tl_L2 ?h) k"
          using assms(5) v2 assms(4) by (simp add: off_deadline_def)
        have "view2 now (tl_L2 ?h) k = Some v" using Some v2 by simp
        from two_promote [OF c assms(3,4) this od] e v2 Some show ?thesis by simp
      qed
    qed
  qed
qed

text \<open>Run by run: whatever is evicted from L1, the answers are those of L2 alone.\<close>

lemma two_run:
  assumes "opened h" "coherent prev h" "tl_WriteThrough h" "inv2 s" "\<not> closed2 s"
    and "\<forall>t \<ge> prev. view2 t (tl_L2 h) = view2 t s" "calls_ok H2 view2 prev cs s"
  shows "tl_run H1 H2 cs h = h_run H2 cs s"
  using assms
proof (induction cs arbitrary: h s prev)
  case (Cons nc cs)
  obtain now c where nc: "nc = (now, c)" by (cases nc)
  obtain a h' where x: "tl_exec H1 H2 now c h = (a, h')" by (metis prod.collapse)
  obtain b s' where y: "h_exec H2 now c s = (b, s')" by (metis prod.collapse)
  have le: "prev \<le> now" "1 < now" "now \<le> max_int64" and ok: "calls_ok H2 view2 now cs s'"
    using Cons.prems(7) nc y by simp_all
  have co: "coherent now h" using Cons.prems(2) le(1) by (rule tl_coherent_mono)
  have vs: "\<forall>t \<ge> now. view2 t (tl_L2 h) = view2 t s" using Cons.prems(6) le(1) by simp
  have "a = b \<and> opened h' \<and> coherent now h' \<and> tl_WriteThrough h' \<and> inv2 s' \<and> \<not> closed2 s' \<and>
      (\<forall>t \<ge> now. view2 t (tl_L2 h') = view2 t s')"
  proof (cases c)
    case (CallSet k v ttl)
    then have tk: "ttl_ok now ttl" using Cons.prems(7) nc by simp
    then have m: "-1 \<le> ttl" by (simp add: ttl_ok_def)
    obtain r where r: "tl_SetWithTTLAndCtx H1 H2 (\<lambda>_. now) (Some k) (Some v) ttl h = (r, h')" "a = Ack r"
      using x CallSet by (auto split: prod.splits)
    obtain r' where q: "SetWithTTLAndCtx H2 now (Some k) (Some v) ttl s = (r', s')" "b = Ack r'"
      using y CallSet by (auto split: prod.splits)
    have q': "r' = None" "inv2 s'" "\<not> closed2 s'"
      using L2.set_ok [OF Cons.prems(4,5) m, of now k v] L2.set_inv [OF Cons.prems(4), of now "Some k" "Some v" ttl]
        L2.set_flag [of now "Some k" "Some v" ttl s] q(1) Cons.prems(5) by simp_all
    have v': "view2 t s' = (view2 t s)(k := if lives now ttl t then Some (Some v) else None)" if "now \<le> t" for t
      using L2.set_view [OF Cons.prems(4,5) tk that, of k v] set_exact [OF Cons.prems(4), of _ k t now "Some v" ttl] q(1)
      by (auto simp: fun_eq_iff)
    from two_set [OF Cons.prems(1) co tk Cons.prems(3) r(1)] r(2) q(2) q' v' vs show ?thesis by simp
  next
    case (CallGet k)
    then have od: "off_deadline view2 now s k" using Cons.prems(7) nc by simp
    then have od': "off_deadline view2 now (tl_L2 h) k" using vs le(3) by (simp add: off_deadline_def)
    obtain r where r: "tl_GetWithCtx H1 H2 (\<lambda>_. now) (Some k) h = (r, h')" "a = Val r"
      using x CallGet by (auto split: prod.splits)
    obtain r' where q: "GetWithCtx H2 now (Some k) s = (r', s')" "b = Val r'"
      using y CallGet by (auto split: prod.splits)
    have q': "r' = found (view2 now s k)" "inv2 s'" "\<not> closed2 s'" "\<forall>t \<ge> now. view2 t s' = view2 t s"
      using L2.get_open [OF Cons.prems(4,5), of now k] L2.get_inv [OF Cons.prems(4), of now "Some k"]
        L2.get_flag [of now "Some k" s] L2.get_view [OF Cons.prems(4), of now _ "Some k"] q(1) Cons.prems(5) by simp_all
    from two_get [OF Cons.prems(1) co le(2,3) od' r(1)] r(2) q(2) q' vs Cons.prems(3) show ?thesis by simp
  next
    case (CallDel k)
    obtain r where r: "tl_DelWithCtx H1 H2 (Some k) h = (r, h')" "a = Ack r"
      using x CallDel by (auto split: prod.splits)
    obtain r' where q: "DelWithCtx H2 (Some k) s = (r', s')" "b = Ack r'"
      using y CallDel by (auto split: prod.splits)
    have q': "r' = None" "inv2 s'" "\<not> closed2 s'" "\<forall>t. view2 t s' = (view2 t s)(k := None)"
      using L2.del_ok [OF Cons.prems(4,5), of k] L2.del_inv [OF Cons.prems(4), of "Some k"]
        L2.del_flag [of "Some k" s] L2.del_view [OF Cons.prems(4,5), of _ k] q(1) Cons.prems(5) by simp_all
    from two_del [OF Cons.prems(1) co r(1)] r(2) q(2) q' vs Cons.prems(3) show ?thesis by simp
  qed
  then show ?case using Cons.IH [of h' now s'] ok nc x y by simp
qed simp

end

section \<open>An optimised LRU cache before an expiring one\<close>

lemma ex_ttl_hit:
  assumes "\<not> ex_closed s" "1 < now" "now \<le> max_int64" "ex_view now s k = Some v" "off_deadline ex_view now s k"
  shows "\<exists>d. ex_GetTTLWithCtx now (Some k) s = (Inr d, s) \<and> now + d \<le> max_int64 \<and>
    (\<forall>t \<ge> now. (0 < d \<longrightarrow> t \<le> now + d) \<longrightarrow> ex_view t s k = Some v)"
proof -
  obtain it where it: "ex_items s k = Some it" "\<not> expired (ei_expiry it) now" "v = ei_val it"
    using assms(4) by (auto simp: ex_view_def split: option.splits if_splits)
  show ?thesis
  proof (cases "ei_expiry it")
    case None
    then show ?thesis using it assms by (simp add: ex_GetTTLWithCtx_def go_simps ex_view_def)
  next
    case (Some e)
    have next_ok: "ex_view (now + 1) s k = Some v"
      and far: "ex_view (max_int64 + 1) s k = None \<or> (\<forall>t \<ge> now. ex_view t s k = Some v)"
      using assms(4,5) by (auto simp: off_deadline_def)
    have "now < e" using next_ok it Some by (auto simp: ex_view_def split: if_splits)
    moreover have "ex_view (max now (e + 1)) s k = None" using it Some by (simp add: ex_view_def)
    then have "ex_view (max_int64 + 1) s k = None" using far by force
    then have "e \<le> max_int64" using it Some by (auto simp: ex_view_def split: if_splits)
    ultimately have d: "time_until e now = e - now"
      using assms(2,3) by (simp add: time_until_def sat64_def min_int64_def max_int64_def)
    show ?thesis using it Some assms(1) d \<open>e \<le> max_int64\<close> \<open>now < e\<close>
      by (auto simp: ex_GetTTLWithCtx_def go_simps ex_view_def)
  qed
qed

interpretation opt_ex: two_level "optH pick" opt_inv opt_closed opt_view exH ex_inv ex_closed ex_view
proof (unfold_locales, goal_cases)
  case (1 s k' k t now "value" ttl)
  then show ?case using ex_set_other by (simp add: ex_handler_def)
next
  case (2 s now k v)
  then show ?case using ex_ttl_hit by (simp add: ex_handler_def)
qed

section \<open>Properties\<close>


definition tl_demo :: "bool \<Rightarrow> (optHandler, ExpiringHandler) TwoLevelHandler" where
  "tl_demo through = NewTwoLevelHandler one_shard ex_demo through"

lemma one_shard_view: "opt_view t one_shard k = None"
  using opt_view_rows [OF one_shard_ok(3) newLRUShard_ok, of k k t] by (simp add: rows_def row_view_def)

lemma tl_demo_ok:
  "tl_open opt_inv opt_closed ex_inv ex_closed (tl_demo through)" "tl_coherent opt_view ex_view prev (tl_demo through)"
  by (simp_all add: tl_demo_def NewTwoLevelHandler_def tl_open_def tl_coherent_def one_shard_ok one_shard_view)


section \<open>Where L1 leaves L2 behind\<close>

abbreviation ex_ex_open :: "(ExpiringHandler, ExpiringHandler) TwoLevelHandler \<Rightarrow> bool" where
  "ex_ex_open \<equiv> tl_open ex_inv ex_closed ex_inv ex_closed"

definition ex_pair :: "bool \<Rightarrow> ExpiringHandler \<Rightarrow> (ExpiringHandler, ExpiringHandler) TwoLevelHandler" where
  "ex_pair through l2 = NewTwoLevelHandler ex_demo l2 through"

lemma ex_pair_ok:
  "tl_L1 (ex_pair b s) = ex_demo" "tl_L2 (ex_pair b s) = s" "tl_WriteThrough (ex_pair b s) = b" "tl_pending (ex_pair b s) = []"
  "ex_inv s \<Longrightarrow> \<not> ex_closed s \<Longrightarrow> ex_ex_open (ex_pair b s)"
  by (simp_all add: ex_pair_def NewTwoLevelHandler_def tl_open_def)

lemma ex_put_forever:
  assumes "ex_inv s" "\<not> ex_closed s"
  shows "SetWithCtx exH now (Some k) (Some v) s =
      (None, s\<lparr>ex_items := (ex_items s)(k \<mapsto> \<lparr>ei_val = Some v, ei_expiry = None\<rparr>)\<rparr>)"
  using assms by (simp add: ex_handler_def ex_SetWithCtx_def ex_set_ok ex_expiry_for_def)

text \<open>A hit in L1, which stays what it is.\<close>

lemma tl_get_hit:
  assumes "\<not> ex_closed (tl_L1 h)" "ex_view now (tl_L1 h) k = Some v"
  shows "fst (tl_GetWithCtx exH exH (\<lambda>_. now) (Some k) h) = Inr v"
proof -
  have "fst (GetWithCtx exH now (Some k) (tl_L1 h)) = Inr v"
    using assms by (simp add: ex_handler_def ex_get_open)
  then show ?thesis by (auto simp: tl_GetWithCtx_def split: prod.splits sum.splits)
qed

text \<open>
  A promotion in the nanosecond of the deadline is for ever. An L2 entry is still served at its
  deadline, its time to live is then zero, and the promotion stores it in L1 without one: from then
  on every lookup answers the value, although L2 has let it expire.
\<close>
theorem tl_promoted_for_ever:
  assumes "ex_ex_open h" "ex_view now (tl_L1 h) k = None"
    and "ex_items (tl_L2 h) k = Some \<lparr>ei_val = Some v, ei_expiry = Some now\<rparr>" "now < t"
  shows "fst (tl_GetWithCtx exH exH (\<lambda>_. now) (Some k) h) = Inr (Some v) \<and>
    fst (tl_GetWithCtx exH exH (\<lambda>_. t) (Some k) (snd (tl_GetWithCtx exH exH (\<lambda>_. now) (Some k) h))) = Inr (Some v) \<and>
    ex_view t (tl_L2 h) k = None"
proof -
  have i: "ex_inv (tl_L1 h)" "\<not> ex_closed (tl_L1 h)" "ex_inv (tl_L2 h)" "\<not> ex_closed (tl_L2 h)"
    using assms(1) by (simp_all add: tl_open_def)
  obtain s1 where s1: "GetWithCtx exH now (Some k) (tl_L1 h) = (Inl ErrNotFound, s1)" "ex_inv s1" "\<not> ex_closed s1"
    using i(1,2) assms(2) ex.get_result [OF i(1,2), of now k] ex.get_inv [OF i(1), of now "Some k"]
      ex.get_flag [of now "Some k" "tl_L1 h"] by auto
  have g2: "GetWithCtx exH now (Some k) (tl_L2 h) = (Inr (Some v), tl_L2 h)"
    using i assms(3) by (simp add: ex_handler_def ex_GetWithCtx_def go_simps)
  have ttl: "GetTTLWithCtx exH now (Some k) (tl_L2 h) = (Inr 0, tl_L2 h)"
    using i assms(3) by (simp add: ex_handler_def ex_GetTTLWithCtx_def go_simps time_until_def sat64_def min_int64_def max_int64_def)
  define s1' where "s1' = s1\<lparr>ex_items := (ex_items s1)(k \<mapsto> \<lparr>ei_val = Some v, ei_expiry = None\<rparr>)\<rparr>"
  have e: "tl_GetWithCtx exH exH (\<lambda>_. now) (Some k) h = (Inr (Some v), h\<lparr>tl_L1 := s1'\<rparr>)"
    using s1 g2 ttl by (simp add: tl_GetWithCtx_def tl_promote_def ex_put_forever s1'_def)
  have "fst (tl_GetWithCtx exH exH (\<lambda>_. t) (Some k) (h\<lparr>tl_L1 := s1'\<rparr>)) = Inr (Some v)"
    using s1 by (intro tl_get_hit) (simp_all add: s1'_def ex_view_def)
  with e show ?thesis using assms(3,4) by (simp add: ex_view_def)
qed

definition ex_seven :: ExpiringHandler where
  "ex_seven = snd (ex_SetWithTTLAndCtx 4 (Some [1]) (Some [7]) 3 ex_demo)"

lemma ex_seven_ok: "ex_inv ex_seven" "\<not> ex_closed ex_seven"
    "ex_items ex_seven = [[1] \<mapsto> \<lparr>ei_val = Some [7], ei_expiry = Some 7\<rparr>]"
  by (simp_all add: ex_seven_def ex_set_state) (simp add: ex_set_ok ex_expiry_for_def)

lemma tl_promoted_for_ever_witness:
  "fst (tl_GetWithCtx exH exH (\<lambda>_. 99) (Some [1])
     (snd (tl_GetWithCtx exH exH (\<lambda>_. 7) (Some [1]) (ex_pair True ex_seven)))) = Inr (Some [7])"
  using tl_promoted_for_ever [of "ex_pair True ex_seven" 7 "[1]" "[7]" 99] ex_seven_ok
  by (simp add: ex_pair_ok)

text \<open>
  A delete does not undo a write that is still on its way. In the asynchronous mode \<open>Set\<close> leaves
  the write of L2 to a goroutine; a delete that returns before that goroutine runs finds nothing to
  delete there, and once it has run the deleted value is served again.
\<close>
theorem tl_deleted_comes_back:
  assumes "ex_ex_open h" "\<not> tl_WriteThrough h" "tl_pending h = []" "ttl_ok now ttl" "lives now ttl t" "now \<le> t"
    and "h1 = snd (tl_SetWithTTLAndCtx exH exH (\<lambda>_. now) (Some k) (Some v) ttl h)"
    and "h2 = snd (tl_DelWithCtx exH exH (Some k) h1)" and "h3 = tl_run_task exH exH now 0 h2"
  shows "fst (tl_GetWithCtx exH exH (\<lambda>_. t) (Some k) h2) = Inl ErrNotFound \<and>
    fst (tl_GetWithCtx exH exH (\<lambda>_. t) (Some k) h3) = Inr (Some v)"
proof -
  have i: "ex_inv (tl_L1 h)" "\<not> ex_closed (tl_L1 h)" "ex_inv (tl_L2 h)" "\<not> ex_closed (tl_L2 h)"
    using assms(1) by (simp_all add: tl_open_def)
  have ttl: "-1 \<le> ttl" using assms(4) by (simp add: ttl_ok_def)
  define it where "it = \<lparr>ei_val = Some v, ei_expiry = ex_expiry_for now ttl\<rparr>"
  define s1 where "s1 = tl_L1 h\<lparr>ex_items := (ex_items (tl_L1 h))(k := None)\<rparr>"
  define s2 where "s2 = tl_L2 h\<lparr>ex_items := (ex_items (tl_L2 h))(k := None)\<rparr>"
  define s3 where "s3 = s2\<lparr>ex_items := (ex_items s2)(k \<mapsto> it)\<rparr>"
  have set: "SetWithTTLAndCtx exH now (Some k) (Some v) ttl s = (None, s\<lparr>ex_items := (ex_items s)(k \<mapsto> it)\<rparr>)"
    if "\<not> ex_closed s" for s
    using that ttl by (simp add: ex_handler_def ex_set_ok it_def)
  have del: "DelWithCtx exH (Some k) s = (None, s\<lparr>ex_items := (ex_items s)(k := None)\<rparr>)" if "\<not> ex_closed s" for s
    using that by (simp add: ex_handler_def ex_DelWithCtx_def go_simps)
  have h1: "h1 = h\<lparr>tl_L1 := tl_L1 h\<lparr>ex_items := (ex_items (tl_L1 h))(k \<mapsto> it)\<rparr>, tl_pending := [PutL2TTL (Some k) (Some v) ttl]\<rparr>"
    using assms(2,3,7) set [OF i(2)] by (simp add: tl_SetWithTTLAndCtx_def tl_spawn_def)
  have h2: "h2 = h\<lparr>tl_L1 := s1, tl_L2 := s2, tl_pending := [PutL2TTL (Some k) (Some v) ttl]\<rparr>"
    using i by (simp add: assms(8) h1 tl_DelWithCtx_def del Let_def s1_def s2_def)
  have h3: "h3 = h\<lparr>tl_L1 := s1, tl_L2 := s3, tl_pending := []\<rparr>"
    using i by (simp add: assms(9) h2 tl_run_task_def set s2_def s3_def)
  have none: "GetWithCtx exH t (Some k) s1 = (Inl ErrNotFound, s1)" "GetWithCtx exH t (Some k) s2 = (Inl ErrNotFound, s2)"
    using i by (simp_all add: ex_handler_def ex_GetWithCtx_def go_simps s1_def s2_def)
  have "\<not> expired (ei_expiry it) t" using assms(5,6) ttl ex_expiry_lives [OF ttl assms(6)] by (simp add: it_def)
  then have some: "GetWithCtx exH t (Some k) s3 = (Inr (Some v), s3)"
    using i by (simp add: ex_handler_def ex_GetWithCtx_def go_simps s3_def s2_def it_def)
  show ?thesis using none some by (simp add: tl_GetWithCtx_def h2 h3)
qed

lemma tl_deleted_comes_back_witness:
  "fst (tl_GetWithCtx exH exH (\<lambda>_. 6) (Some [1]) (tl_run_task exH exH 5 0 (snd (tl_DelWithCtx exH exH (Some [1])
     (snd (tl_SetWithTTLAndCtx exH exH (\<lambda>_. 5) (Some [1]) (Some [9]) 3 (ex_pair False ex_demo))))))) = Inr (Some [9])"
  using tl_deleted_comes_back [of "ex_pair False ex_demo" 5 3 6, OF _ _ _ _ _ _ refl refl refl, of "[1]" "[9]"]
  by (simp add: ex_pair_ok lives_def ttl_ok_def max_int64_def)

section \<open>Batches\<close>

definition misses :: "go_error option list \<Rightarrow> nat list" where
  "misses es = filter (\<lambda>i. es ! i \<noteq> None) [0..<length es]"

lemma tl_split_ok:
  assumes "length keys = n" "length rs = n" "length acc = n" "i + length es = n"
  shows "\<exists>acc'. tl_split keys rs i es acc need =
      Some (acc', need @ filter (\<lambda>j. es ! (j - i) \<noteq> None) [i..<n]) \<and> length acc' = n \<and>
    (\<forall>j < n. acc' ! j = (if i \<le> j \<and> es ! (j - i) = None then rs ! j else acc ! j))"
  using assms
proof (induction es arbitrary: i acc need)
  case (Cons e es)
  have up: "[i..<n] = i # [Suc i..<n]" using Cons.prems(4) by (simp add: upt_conv_Cons)
  have nth: "(e # es) ! (j - i) = es ! (j - Suc i)" if "Suc i \<le> j" for j using that by (simp add: nth_Cons')
  have fl: "filter (\<lambda>j. (e # es) ! (j - i) \<noteq> None) [Suc i..<n] = filter (\<lambda>j. es ! (j - Suc i) \<noteq> None) [Suc i..<n]"
    using nth by (intro filter_cong) auto
  show ?case
  proof (cases e)
    case None
    from Cons.IH [of "acc[i := rs ! i]" "Suc i" need] Cons.prems obtain acc' where
      "tl_split keys rs (Suc i) es (acc[i := rs ! i]) need =
         Some (acc', need @ filter (\<lambda>j. es ! (j - Suc i) \<noteq> None) [Suc i..<n])" "length acc' = n"
      "\<forall>j < n. acc' ! j = (if Suc i \<le> j \<and> es ! (j - Suc i) = None then rs ! j else acc[i := rs ! i] ! j)" by auto
    moreover have "acc' ! j = (if i \<le> j \<and> (e # es) ! (j - i) = None then rs ! j else acc ! j)" if "j < n" for j
      using calculation(3) that nth [of j] None Cons.prems(3) by (cases "j = i") auto
    ultimately show ?thesis using None Cons.prems up fl by (intro exI [of _ acc']) simp
  next
    case (Some x)
    from Cons.IH [of acc "Suc i" "need @ [i]"] Cons.prems obtain acc' where
      "tl_split keys rs (Suc i) es acc (need @ [i]) =
         Some (acc', (need @ [i]) @ filter (\<lambda>j. es ! (j - Suc i) \<noteq> None) [Suc i..<n])" "length acc' = n"
      "\<forall>j < n. acc' ! j = (if Suc i \<le> j \<and> es ! (j - Suc i) = None then rs ! j else acc ! j)" by auto
    moreover have "acc' ! j = (if i \<le> j \<and> (e # es) ! (j - i) = None then rs ! j else acc ! j)" if "j < n" for j
      using calculation(3) that nth [of j] Some by (cases "j = i") auto
    ultimately show ?thesis using Some Cons.prems up fl by (intro exI [of _ acc']) simp
  qed
qed auto

lemma tl_merge_ok:
  assumes "length rs = m" "length es = m" "j + length need = m" "distinct need"
    and "length (fst res) = n" "length (snd res) = n" "\<forall>x \<in> set need. x < n"
  shows "\<exists>res'. tl_merge keys rs es j need res tasks = Some (res',
      tasks @ map (\<lambda>i. PutL1 (keys ! (need ! i)) (rs ! (j + i))) (filter (\<lambda>i. es ! (j + i) = None) [0..<length need])) \<and>
    length (fst res') = n \<and> length (snd res') = n \<and>
    (\<forall>i < length need. fst res' ! (need ! i) = (if es ! (j + i) = None then rs ! (j + i) else fst res ! (need ! i)) \<and>
      snd res' ! (need ! i) = es ! (j + i)) \<and>
    (\<forall>x < n. x \<notin> set need \<longrightarrow> fst res' ! x = fst res ! x \<and> snd res' ! x = snd res ! x)"
  using assms
proof (induction need arbitrary: j res tasks)
  case (Cons x need)
  define res1 where "res1 = (case es ! j of None \<Rightarrow> ((fst res)[x := rs ! j], (snd res)[x := None])
    | Some e \<Rightarrow> (fst res, (snd res)[x := Some e]))"
  define tasks1 where "tasks1 = (case es ! j of None \<Rightarrow> tasks @ [PutL1 (keys ! x) (rs ! j)] | Some e \<Rightarrow> tasks)"
  have step: "tl_merge keys rs es j (x # need) res tasks = tl_merge keys rs es (Suc j) need res1 tasks1"
    using Cons.prems(1-3) by (simp add: res1_def tasks1_def split: option.splits)
  have l: "length (fst res1) = n" "length (snd res1) = n" using Cons.prems(5,6) by (simp_all add: res1_def split: option.splits)
  have r1: "fst res1 ! x = (if es ! j = None then rs ! j else fst res ! x)" "snd res1 ! x = es ! j"
    using Cons.prems(5-7) by (auto simp: res1_def split: option.splits)
  have r2: "fst res1 ! y = fst res ! y" "snd res1 ! y = snd res ! y" if "y \<noteq> x" for y
    using that by (simp_all add: res1_def split: option.splits)
  have up: "[0..<length (x # need)] = 0 # map Suc [0..<length need]" by (simp only: list.size(4) add_0 add_Suc_right add_0_right One_nat_def upt_conv_Cons [OF zero_less_Suc] map_Suc_upt)
  have tk: "tasks @ map (\<lambda>i. PutL1 (keys ! ((x # need) ! i)) (rs ! (j + i))) (filter (\<lambda>i. es ! (j + i) = None) [0..<length (x # need)])
      = tasks1 @ map (\<lambda>i. PutL1 (keys ! (need ! i)) (rs ! (Suc j + i))) (filter (\<lambda>i. es ! (Suc j + i) = None) [0..<length need])"
    unfolding up by (auto simp: tasks1_def filter_map comp_def split: option.splits)
  from Cons.IH [of "Suc j" res1 tasks1] Cons.prems l obtain res' where
    m: "tl_merge keys rs es (Suc j) need res1 tasks1 = Some (res', tasks1 @
         map (\<lambda>i. PutL1 (keys ! (need ! i)) (rs ! (Suc j + i))) (filter (\<lambda>i. es ! (Suc j + i) = None) [0..<length need]))"
    "length (fst res') = n" "length (snd res') = n"
    "\<forall>i < length need. fst res' ! (need ! i) = (if es ! (Suc j + i) = None then rs ! (Suc j + i) else fst res1 ! (need ! i)) \<and>
      snd res' ! (need ! i) = es ! (Suc j + i)"
    "\<forall>y < n. y \<notin> set need \<longrightarrow> fst res' ! y = fst res1 ! y \<and> snd res' ! y = snd res1 ! y" by auto
  have x: "x < n" "x \<notin> set need" using Cons.prems(4,7) by auto
  have each: "fst res' ! ((x # need) ! i) = (if es ! (j + i) = None then rs ! (j + i) else fst res ! ((x # need) ! i)) \<and>
      snd res' ! ((x # need) ! i) = es ! (j + i)" if "i < length (x # need)" for i
  proof (cases i)
    case 0
    then show ?thesis using m(5) x r1 by simp
  next
    case (Suc i')
    then have "need ! i' \<noteq> x" using that x(2) by auto
    then show ?thesis using m(4) that Suc r2 by simp
  qed
  show ?case
    unfolding step m(1) tk using m(2,3,5) each r2 by (intro exI [of _ res']) (auto simp: r2)
qed simp

text \<open>
  A batch asks L1 for all keys and L2, in one call, for exactly those L1 does not answer, in their
  order; every answer is in the slot of its key, the one of L1 where L1 has it and the one of L2
  otherwise, and every key that only L2 had is put into L1 by a goroutine, without a time to live. If
  L1 answers all keys, L2 is not called.
\<close>
theorem tl_batch:
  assumes "batch_lengths H1" "batch_lengths H2" "keys \<noteq> []"
    and "BatchGetWithCtx H1 rd1 keys (tl_L1 h) = ((rs1, es1), s1)"
    and "BatchGetWithCtx H2 rd2 (map (\<lambda>i. keys ! i) (misses es1)) (tl_L2 h) = ((rs2, es2), s2)"
  shows "\<exists>res. tl_BatchGetWithCtx H1 H2 rd1 rd2 keys h =
      (Inr res, h\<lparr>tl_L1 := s1, tl_L2 := if misses es1 = [] then tl_L2 h else s2, tl_pending := tl_pending h @
         map (\<lambda>i. PutL1 (keys ! (misses es1 ! i)) (rs2 ! i)) (filter (\<lambda>i. es2 ! i = None) [0..<length (misses es1)])\<rparr>) \<and>
    length (fst res) = length keys \<and> length (snd res) = length keys \<and>
    (\<forall>x < length keys. es1 ! x = None \<longrightarrow> fst res ! x = rs1 ! x \<and> snd res ! x = None) \<and>
    (\<forall>i < length (misses es1). fst res ! (misses es1 ! i) = (if es2 ! i = None then rs2 ! i else None) \<and>
       snd res ! (misses es1 ! i) = es2 ! i)"
proof -
  have l: "length rs1 = length keys" "length es1 = length keys" "length rs2 = length (misses es1)" "length es2 = length (misses es1)"
    using assms unfolding batch_lengths_def by (metis fst_conv length_map snd_conv)+
  define n where "n = length keys"
  have mi: "misses es1 = filter (\<lambda>j. es1 ! (j - 0) \<noteq> None) [0..<n]" by (simp add: misses_def l n_def)
  obtain acc where acc: "tl_split keys rs1 0 es1 (replicate n None) [] = Some (acc, misses es1)" "length acc = n"
    "\<forall>j < n. acc ! j = (if es1 ! j = None then rs1 ! j else None)"
    using tl_split_ok [of keys n rs1 "replicate n None" 0 es1 "[]"] l unfolding mi by (auto simp: n_def)
  have ms: "set (misses es1) \<subseteq> {x. x < n \<and> es1 ! x \<noteq> None}" by (auto simp: mi)
  define res0 :: batch_result where "res0 = (acc, replicate n None)"
  define tasks where "tasks =
    map (\<lambda>i. PutL1 (keys ! (misses es1 ! i)) (rs2 ! i)) (filter (\<lambda>i. es2 ! i = None) [0..<length (misses es1)])"
  obtain res where res: "tl_merge keys rs2 es2 0 (misses es1) res0 [] = Some (res, tasks)"
    "length (fst res) = n" "length (snd res) = n"
    "\<forall>i < length (misses es1). fst res ! (misses es1 ! i) = (if es2 ! i = None then rs2 ! i else fst res0 ! (misses es1 ! i)) \<and>
      snd res ! (misses es1 ! i) = es2 ! i"
    "\<forall>x < n. x \<notin> set (misses es1) \<longrightarrow> fst res ! x = fst res0 ! x \<and> snd res ! x = snd res0 ! x"
  proof -
    have d: "distinct (misses es1)" by (simp add: misses_def)
    have r: "length (fst res0) = n" "length (snd res0) = n" "\<forall>x \<in> set (misses es1). x < n"
      using acc(2) ms by (auto simp: res0_def)
    from tl_merge_ok [OF l(3,4) add_0 d r, of keys "[]"] show thesis
      unfolding append_Nil add_0 tasks_def [symmetric] by (elim exE conjE) (rule that)
  qed
  have eq: "tl_BatchGetWithCtx H1 H2 rd1 rd2 keys h = (Inr res,
      h\<lparr>tl_L1 := s1, tl_L2 := if misses es1 = [] then tl_L2 h else s2, tl_pending := tl_pending h @ tasks\<rparr>)"
    using assms(3-5) acc(1) res(1)
    by (auto simp: tl_BatchGetWithCtx_def n_def res0_def Let_def tasks_def)
  have hit: "fst res ! x = rs1 ! x \<and> snd res ! x = None" if "x < n" "es1 ! x = None" for x
  proof -
    have "x \<notin> set (misses es1)" using ms that(2) by blast
    then show ?thesis using res(5) acc(3) that by (simp add: res0_def)
  qed
  have miss: "fst res ! (misses es1 ! i) = (if es2 ! i = None then rs2 ! i else None) \<and>
      snd res ! (misses es1 ! i) = es2 ! i" if "i < length (misses es1)" for i
  proof -
    have "misses es1 ! i < n" "es1 ! (misses es1 ! i) \<noteq> None" using ms nth_mem [OF that] by blast+
    then show ?thesis using res(4) that acc(3) by (auto simp: res0_def)
  qed
  show ?thesis using eq hit miss res(2,3) by (intro exI [of _ res]) (simp add: tasks_def n_def)
qed

lemma ex_batch_one:
  assumes "\<not> ex_closed s" "k \<noteq> []"
  shows "BatchGetWithCtx exH rd [Some k] s = (([fst (ex_batch_slot (rd 0) s (Some k))], [snd (ex_batch_slot (rd 0) s (Some k))]), s)"
  using assms by (simp add: ex_handler_def ex_BatchGetWithCtx_def)

lemma tl_batch_witness:
  "\<exists>res h'. tl_BatchGetWithCtx exH exH (\<lambda>_. 5) (\<lambda>_. 5) [Some [1]] (ex_pair True ex_seven) = (Inr res, h') \<and>
     fst res ! 0 = Some [7] \<and> tl_pending h' = [PutL1 (Some [1]) (Some [7])]"
proof -
  have a: "BatchGetWithCtx exH (\<lambda>_. 5) [Some [1]] (tl_L1 (ex_pair True ex_seven)) = (([None], [Some ErrNotFound]), ex_demo)"
    by (simp add: ex_pair_ok ex_batch_one) (simp add: ex_batch_slot_def)
  have m: "misses [Some ErrNotFound] = [0]" by (simp add: misses_def)
  have b: "BatchGetWithCtx exH (\<lambda>_. 5) (map (\<lambda>i. [Some [1]] ! i) (misses [Some ErrNotFound])) (tl_L2 (ex_pair True ex_seven)) =
      (([Some [7]], [None]), ex_seven)"
    by (simp add: m ex_pair_ok ex_batch_one ex_seven_ok) (simp add: ex_batch_slot_def ex_seven_ok)
  from tl_batch [OF ex_batch_lengths ex_batch_lengths _ a b] obtain res where
    "tl_BatchGetWithCtx exH exH (\<lambda>_. 5) (\<lambda>_. 5) [Some [1]] (ex_pair True ex_seven) = (Inr res,
       (ex_pair True ex_seven)\<lparr>tl_L1 := ex_demo, tl_L2 := ex_seven, tl_pending := [PutL1 (Some [1]) (Some [7])]\<rparr>)"
    "fst res ! 0 = Some [7]" by (auto simp: m ex_pair_ok)
  then show ?thesis by simp
qed

text \<open>
  A key that a batch promotes is served for ever. L2 has it with a deadline; once the goroutine of
  the batch has put it into L1, every later lookup answers the value, before and after the deadline.
\<close>
theorem tl_batch_for_ever:
  assumes "ex_ex_open h" "tl_pending h = []" "k \<noteq> []" "ex_view now (tl_L1 h) k = None"
    and "ex_items (tl_L2 h) k = Some \<lparr>ei_val = Some v, ei_expiry = Some e\<rparr>" "now \<le> e"
    and "h' = tl_run_task exH exH now 0 (snd (tl_BatchGetWithCtx exH exH (\<lambda>_. now) (\<lambda>_. now) [Some k] h))"
  shows "fst (tl_GetWithCtx exH exH (\<lambda>_. t) (Some k) h') = Inr (Some v) \<and>
    (e < t \<longrightarrow> ex_view t (tl_L2 h') k = None)"
proof -
  have i: "ex_inv (tl_L1 h)" "\<not> ex_closed (tl_L1 h)" "ex_inv (tl_L2 h)" "\<not> ex_closed (tl_L2 h)"
    using assms(1) by (simp_all add: tl_open_def)
  have s1: "ex_batch_slot now (tl_L1 h) (Some k) = (None, Some ErrNotFound)"
    using ex_batch_slots [OF i(2), of "Some k" now] assms(3,4) by (simp add: ex_get_open [OF i(2)])
  have s2: "ex_batch_slot now (tl_L2 h) (Some k) = (Some v, None)"
    using assms(3,5,6) by (simp add: ex_batch_slot_def)
  have b: "tl_BatchGetWithCtx exH exH (\<lambda>_. now) (\<lambda>_. now) [Some k] h =
      (Inr ([Some v], [None]), h\<lparr>tl_L1 := tl_L1 h, tl_L2 := tl_L2 h, tl_pending := [PutL1 (Some k) (Some v)]\<rparr>)"
    using i assms(2,3) by (simp add: tl_BatchGetWithCtx_def ex_batch_one s1 s2 Let_def)
  define s where "s = tl_L1 h\<lparr>ex_items := (ex_items (tl_L1 h))(k \<mapsto> \<lparr>ei_val = Some v, ei_expiry = None\<rparr>)\<rparr>"
  have h': "h' = h\<lparr>tl_L1 := s, tl_L2 := tl_L2 h, tl_pending := []\<rparr>"
    using i by (simp add: assms(7) b tl_run_task_def ex_put_forever s_def)
  have "fst (tl_GetWithCtx exH exH (\<lambda>_. t) (Some k) h') = Inr (Some v)"
    using i by (intro tl_get_hit) (simp_all add: h' s_def ex_view_def)
  then show ?thesis using assms(5) by (simp add: h' ex_view_def)
qed

lemma tl_batch_for_ever_witness:
  "fst (tl_GetWithCtx exH exH (\<lambda>_. 99) (Some [1]) (tl_run_task exH exH 5 0
     (snd (tl_BatchGetWithCtx exH exH (\<lambda>_. 5) (\<lambda>_. 5) [Some [1]] (ex_pair True ex_seven))))) = Inr (Some [7])"
  using tl_batch_for_ever [OF _ _ _ _ _ _ refl, of "ex_pair True ex_seven" "[1]" 5 "[7]" 7 99] ex_seven_ok
  by (simp add: ex_pair_ok)

end
