(* ===== verification/Ctx_Cache.thy ===== *)
theory Ctx_Cache
  imports Handler_Interface
begin

text \<open>
  \<open>CtxCache\<close> of \<open>ctxcache.go\<close>: context checks before every operation of a handler, and a
  \<open>GetOrCompute\<close> whose concurrent callers share one run of the loader through \<open>flightGroup\<close>. The
  critical sections of \<open>flightGroup\<close> are definitions of their own; a call is known by its number.
  The step relation \<open>cc_step\<close> interleaves the callers of \<open>GetOrCompute\<close> at those sections. A \<open>select\<close>
  that would block for ever is \<^const>\<open>None\<close>, a context is its answer at the moment it is asked.
\<close>

section \<open>flightGroup\<close>

text \<open>A value of type \<open>interface{}\<close> is \<^const>\<open>None\<close> when it is the nil interface.\<close>

type_synonym flight_result = "slice option \<times> go_error option"

record call =
  call_done :: bool
  call_val :: "slice option"
  call_err :: "go_error option"

record flightGroup =
  fg_m :: "go_string \<rightharpoonup> nat"
  fg_calls :: "nat \<Rightarrow> call"
  fg_next :: nat

definition newFlightGroup :: flightGroup where
  "newFlightGroup = \<lparr>fg_m = Map.empty, fg_calls = (\<lambda>_. \<lparr>call_done = False, call_val = None, call_err = None\<rparr>), fg_next = 0\<rparr>"

datatype fg_entry = Join nat | Lead nat

text \<open>The first section: join the call of the key that is in flight, or put a new one there.\<close>

definition fg_enter :: "go_string \<Rightarrow> flightGroup \<Rightarrow> fg_entry \<times> flightGroup" where
  "fg_enter key g =
     (case fg_m g key of
        Some c \<Rightarrow> (Join c, g)
      | None \<Rightarrow>
          let c = fg_next g
          in (Lead c, g\<lparr>fg_m := (fg_m g)(key \<mapsto> c),
                         fg_calls := (fg_calls g)(c := \<lparr>call_done = False, call_val = None, call_err = None\<rparr>),
                         fg_next := Suc c\<rparr>))"

text \<open>The \<open>select\<close> of a caller that joined. When both channels are ready Go picks either: \<open>first\<close>.\<close>

definition fg_await :: "bool \<Rightarrow> nat \<Rightarrow> ctx \<Rightarrow> flightGroup \<Rightarrow> flight_result option" where
  "fg_await first c ctx g =
     (let cl = fg_calls g c in
      if call_done cl \<and> (first \<or> ctx = None) then Some (call_val cl, call_err cl)
      else (case ctx of Some err \<Rightarrow> Some (None, Some err) | None \<Rightarrow> None))"

text \<open>The second section of the leader. \<open>close\<close> of a closed channel panics.\<close>

definition fg_finish :: "go_string \<Rightarrow> nat \<Rightarrow> flight_result \<Rightarrow> flightGroup \<Rightarrow> flightGroup option" where
  "fg_finish key c r g =
     (if call_done (fg_calls g c) then None
      else Some (g\<lparr>fg_calls := (fg_calls g)(c := \<lparr>call_done = True, call_val = fst r, call_err = snd r\<rparr>),
                   fg_m := (fg_m g)(key := None)\<rparr>))"

text \<open>What \<open>fn\<close> returns: the slice of the loader in an interface, and its error.\<close>

definition flight_of :: "slice go_result \<Rightarrow> flight_result" where
  "flight_of r = (case r of Inl err \<Rightarrow> (Some None, Some err) | Inr v \<Rightarrow> (Some v, None))"

definition fg_Do ::
  "bool \<Rightarrow> ctx \<Rightarrow> go_string \<Rightarrow> 'w loader \<Rightarrow> flightGroup \<Rightarrow> 'w \<Rightarrow> (flight_result \<times> flightGroup \<times> 'w) option" where
  "fg_Do first ctx key fn g w =
     (case fg_enter key g of
        (Join c, g') \<Rightarrow> map_option (\<lambda>r. (r, g', w)) (fg_await first c ctx g')
      | (Lead c, g') \<Rightarrow>
          (case fn w of
             (r, w') \<Rightarrow> map_option (\<lambda>g''. (flight_of r, g'', w')) (fg_finish key c (flight_of r) g')))"

section \<open>CtxCache\<close>

record 's CtxCache =
  cc_handler :: "'s option"
  cc_group :: flightGroup

definition NewCtxCache :: "'s option \<Rightarrow> 's CtxCache" where
  "NewCtxCache h = \<lparr>cc_handler = h, cc_group = newFlightGroup\<rparr>"

text \<open>Running an operation of the handler on its state; a nil handler panics.\<close>

definition cc_on :: "('s \<Rightarrow> 'r go_result \<times> 's) \<Rightarrow> 's CtxCache \<Rightarrow> 'r go_result \<times> 's CtxCache" where
  "cc_on f c =
     (case cc_handler c of
        None \<Rightarrow> (Inl RuntimePanic, c)
      | Some s \<Rightarrow> (case f s of (r, s') \<Rightarrow> (r, c\<lparr>cc_handler := Some s'\<rparr>)))"

definition cc_do :: "('s \<Rightarrow> go_error option \<times> 's) \<Rightarrow> 's CtxCache \<Rightarrow> go_error option \<times> 's CtxCache" where
  "cc_do f c =
     (case cc_handler c of
        None \<Rightarrow> (Some RuntimePanic, c)
      | Some s \<Rightarrow> (case f s of (r, s') \<Rightarrow> (r, c\<lparr>cc_handler := Some s'\<rparr>)))"

definition cc_Close :: "('s, 'w) handler \<Rightarrow> 's CtxCache \<Rightarrow> go_error option \<times> 's CtxCache" where
  "cc_Close H c = (if cc_handler c \<noteq> None then cc_do (CloseH H) c else (None, c))"

definition cc_Get ::
  "('s, 'w) handler \<Rightarrow> ctx \<Rightarrow> time \<Rightarrow> slice \<Rightarrow> 's CtxCache \<Rightarrow> slice go_result \<times> 's CtxCache" where
  "cc_Get H ctx now key c =
     (case ValidateBasicOp key (cc_handler c \<noteq> None) False of
        Some err \<Rightarrow> (Inl err, c)
      | None \<Rightarrow> (case ctx of Some err \<Rightarrow> (Inl err, c) | None \<Rightarrow> cc_on (GetWithCtx H now key) c))"

definition cc_Set ::
  "('s, 'w) handler \<Rightarrow> ctx \<Rightarrow> time \<Rightarrow> slice \<Rightarrow> slice \<Rightarrow> 's CtxCache \<Rightarrow> go_error option \<times> 's CtxCache" where
  "cc_Set H ctx now key value c =
     (case ValidateWriteOp key value (cc_handler c \<noteq> None) False of
        Some err \<Rightarrow> (Some err, c)
      | None \<Rightarrow> (case ctx of Some err \<Rightarrow> (Some err, c) | None \<Rightarrow> cc_do (SetWithCtx H now key value) c))"

definition cc_SetWithTTL ::
  "('s, 'w) handler \<Rightarrow> ctx \<Rightarrow> time \<Rightarrow> slice \<Rightarrow> slice \<Rightarrow> duration \<Rightarrow> 's CtxCache \<Rightarrow> go_error option \<times> 's CtxCache" where
  "cc_SetWithTTL H ctx now key value ttl c =
     (case ValidateWriteWithTTLOp key value ttl (cc_handler c \<noteq> None) False of
        Some err \<Rightarrow> (Some err, c)
      | None \<Rightarrow> (case ctx of Some err \<Rightarrow> (Some err, c) | None \<Rightarrow> cc_do (SetWithTTLAndCtx H now key value ttl) c))"

definition cc_Del ::
  "('s, 'w) handler \<Rightarrow> ctx \<Rightarrow> slice \<Rightarrow> 's CtxCache \<Rightarrow> go_error option \<times> 's CtxCache" where
  "cc_Del H ctx key c =
     (case ValidateBasicOp key (cc_handler c \<noteq> None) False of
        Some err \<Rightarrow> (Some err, c)
      | None \<Rightarrow> (case ctx of Some err \<Rightarrow> (Some err, c) | None \<Rightarrow> cc_do (DelWithCtx H key) c))"

definition cc_GetTTL ::
  "('s, 'w) handler \<Rightarrow> time \<Rightarrow> slice \<Rightarrow> 's CtxCache \<Rightarrow> duration go_result \<times> 's CtxCache" where
  "cc_GetTTL H now key c = cc_on (GetTTLWithCtx H now key) c"

definition cc_BatchGet ::
  "('s, 'w) handler \<Rightarrow> (nat \<Rightarrow> time) \<Rightarrow> slice list \<Rightarrow> 's CtxCache \<Rightarrow> batch_result \<times> 's CtxCache" where
  "cc_BatchGet H rd keys c =
     (case cc_handler c of
        None \<Rightarrow> ((replicate (length keys) None, replicate (length keys) (Some ErrNotInitialized)), c)
      | Some s \<Rightarrow> (case BatchGetWithCtx H rd keys s of (r, s') \<Rightarrow> (r, c\<lparr>cc_handler := Some s'\<rparr>)))"

text \<open>The statistics of the handler with \<open>context_enabled\<close> set.\<close>

definition cc_Stats :: "('s \<Rightarrow> 'x) \<Rightarrow> 's CtxCache \<Rightarrow> ('x \<times> bool) go_result" where
  "cc_Stats stats c =
     (case cc_handler c of None \<Rightarrow> Inl ErrNotInitialized | Some s \<Rightarrow> Inr (stats s, True))"

section \<open>GetOrCompute\<close>

record 'w request =
  rq_key :: slice
  rq_ttl :: duration
  rq_loader :: "'w loader option"

text \<open>Up to the lookup: \<^const>\<open>None\<close> when the call goes on to the group.\<close>

definition cc_lookup ::
  "('s, 'w) handler \<Rightarrow> ctx \<Rightarrow> time \<Rightarrow> 'w request \<Rightarrow> 's CtxCache \<Rightarrow> slice go_result option \<times> 's CtxCache" where
  "cc_lookup H ctx now rq c =
     (case ValidateBasicOp (rq_key rq) (cc_handler c \<noteq> None) False of
        Some err \<Rightarrow> (Some (Inl err), c)
      | None \<Rightarrow>
          (case ValidateTTL (rq_ttl rq) of
             Some err \<Rightarrow> (Some (Inl err), c)
           | None \<Rightarrow>
               if rq_loader rq = None then (Some (Inl ErrInvalidValue), c)
               else (case ctx of
                       Some err \<Rightarrow> (Some (Inl err), c)
                     | None \<Rightarrow>
                         (case cc_on (GetWithCtx H now (rq_key rq)) c of
                            (Inr v, c') \<Rightarrow> (Some (Inr v), c')
                          | (Inl _, c') \<Rightarrow> (None, c')))))"

text \<open>After the group: the write back, best effort, and the answer.\<close>

definition cc_write_back ::
  "('s, 'w) handler \<Rightarrow> time \<Rightarrow> 'w request \<Rightarrow> flight_result \<Rightarrow> 's CtxCache \<Rightarrow> slice go_result \<times> 's CtxCache" where
  "cc_write_back H now rq r c =
     (case snd r of
        Some err \<Rightarrow> (Inl err, c)
      | None \<Rightarrow>
          (case fst r of
             None \<Rightarrow> (Inl ErrNotFound, c)
           | Some v \<Rightarrow>
               (Inr v,
                if v \<noteq> None
                then (if rq_ttl rq \<le> 0 then snd (cc_do (SetWithCtx H now (rq_key rq) v) c)
                      else snd (cc_do (SetWithTTLAndCtx H now (rq_key rq) v (rq_ttl rq)) c))
                else c)))"

text \<open>A caller with nobody else running; \<^const>\<open>None\<close> is a call that never returns.\<close>

definition cc_GetOrCompute ::
  "('s, 'w) handler \<Rightarrow> bool \<Rightarrow> env \<Rightarrow> 'w request \<Rightarrow> 's CtxCache \<Rightarrow> 'w \<Rightarrow> (slice go_result \<times> 's CtxCache \<times> 'w) option" where
  "cc_GetOrCompute H first en rq c w =
     (case cc_lookup H (obs en 0) (clk en 0) rq c of
        (Some r, c') \<Rightarrow> Some (r, c', w)
      | (None, c') \<Rightarrow>
          (case fg_Do first (obs en 1) (str (rq_key rq)) (the (rq_loader rq)) (cc_group c') w of
             None \<Rightarrow> None
           | Some (r, g, w') \<Rightarrow>
               (case cc_write_back H (clk en 1) rq r (c'\<lparr>cc_group := g\<rparr>) of (a, c'') \<Rightarrow> Some (a, c'', w'))))"

section \<open>Contexts that carry a cache\<close>

record 'c carrier =
  cx_err :: ctx
  cx_cache :: "'c option option"

definition WithCache :: "'c option \<Rightarrow> 'c carrier \<Rightarrow> 'c carrier" where
  "WithCache c cx = cx\<lparr>cx_cache := Some c\<rparr>"

definition FromContext :: "'c carrier \<Rightarrow> 'c option" where
  "FromContext cx = (case cx_cache cx of None \<Rightarrow> None | Some c \<Rightarrow> c)"

section \<open>Concurrent callers\<close>

text \<open>Where a caller of \<open>GetOrCompute\<close> is. A loader that panics unwinds its caller: the second section
  of \<open>Do\<close> is not deferred and does not run.\<close>

datatype thread =
    Begin | AtGroup | Waiting nat | Running nat | Loaded nat "slice go_result" | Panicked nat
  | Storing flight_result | Returned "slice go_result"

record ('s, 'w) cc_system =
  sy_cache :: "'s CtxCache"
  sy_world :: 'w
  sy_threads :: "thread list"

abbreviation sy_group :: "('s, 'w) cc_system \<Rightarrow> flightGroup" where
  "sy_group S \<equiv> cc_group (sy_cache S)"

inductive cc_step ::
  "('s, 'w) handler \<Rightarrow> 'w request list \<Rightarrow> ('s, 'w) cc_system \<Rightarrow> nat \<Rightarrow> ('s, 'w) cc_system \<Rightarrow> bool"
  for H :: "('s, 'w) handler" and reqs :: "'w request list" where
  answered: "i < length (sy_threads S) \<Longrightarrow> sy_threads S ! i = Begin \<Longrightarrow>
    cc_lookup H ctx now (reqs ! i) (sy_cache S) = (Some r, c) \<Longrightarrow>
    cc_step H reqs S i (S\<lparr>sy_cache := c, sy_threads := (sy_threads S)[i := Returned r]\<rparr>)"
| missed: "i < length (sy_threads S) \<Longrightarrow> sy_threads S ! i = Begin \<Longrightarrow>
    cc_lookup H ctx now (reqs ! i) (sy_cache S) = (None, c) \<Longrightarrow>
    cc_step H reqs S i (S\<lparr>sy_cache := c, sy_threads := (sy_threads S)[i := AtGroup]\<rparr>)"
| joined: "i < length (sy_threads S) \<Longrightarrow> sy_threads S ! i = AtGroup \<Longrightarrow>
    fg_enter (str (rq_key (reqs ! i))) (sy_group S) = (Join c, g) \<Longrightarrow>
    cc_step H reqs S i (S\<lparr>sy_cache := (sy_cache S)\<lparr>cc_group := g\<rparr>, sy_threads := (sy_threads S)[i := Waiting c]\<rparr>)"
| leads: "i < length (sy_threads S) \<Longrightarrow> sy_threads S ! i = AtGroup \<Longrightarrow>
    fg_enter (str (rq_key (reqs ! i))) (sy_group S) = (Lead c, g) \<Longrightarrow>
    cc_step H reqs S i (S\<lparr>sy_cache := (sy_cache S)\<lparr>cc_group := g\<rparr>, sy_threads := (sy_threads S)[i := Running c]\<rparr>)"
| awaits: "i < length (sy_threads S) \<Longrightarrow> sy_threads S ! i = Waiting c \<Longrightarrow>
    fg_await first c ctx (sy_group S) = Some r \<Longrightarrow>
    cc_step H reqs S i (S\<lparr>sy_threads := (sy_threads S)[i := Storing r]\<rparr>)"
| loads: "i < length (sy_threads S) \<Longrightarrow> sy_threads S ! i = Running c \<Longrightarrow>
    rq_loader (reqs ! i) = Some f \<Longrightarrow> f (sy_world S) = (r, w) \<Longrightarrow>
    cc_step H reqs S i (S\<lparr>sy_world := w, sy_threads := (sy_threads S)[i := Loaded c r]\<rparr>)"
| panics: "i < length (sy_threads S) \<Longrightarrow> sy_threads S ! i = Running c \<Longrightarrow>
    cc_step H reqs S i (S\<lparr>sy_threads := (sy_threads S)[i := Panicked c]\<rparr>)"
| finishes: "i < length (sy_threads S) \<Longrightarrow> sy_threads S ! i = Loaded c r \<Longrightarrow>
    fg_finish (str (rq_key (reqs ! i))) c (flight_of r) (sy_group S) = Some g \<Longrightarrow>
    cc_step H reqs S i (S\<lparr>sy_cache := (sy_cache S)\<lparr>cc_group := g\<rparr>, sy_threads := (sy_threads S)[i := Storing (flight_of r)]\<rparr>)"
| stores: "i < length (sy_threads S) \<Longrightarrow> sy_threads S ! i = Storing r \<Longrightarrow>
    cc_write_back H now (reqs ! i) r (sy_cache S) = (a, c) \<Longrightarrow>
    cc_step H reqs S i (S\<lparr>sy_cache := c, sy_threads := (sy_threads S)[i := Returned a]\<rparr>)"

inductive_cases cc_stepE: "cc_step H reqs S i S'"

inductive cc_steps ::
  "('s, 'w) handler \<Rightarrow> 'w request list \<Rightarrow> ('s, 'w) cc_system \<Rightarrow> nat \<Rightarrow> ('s, 'w) cc_system \<Rightarrow> bool"
  for H :: "('s, 'w) handler" and reqs :: "'w request list" where
  none: "cc_steps H reqs S 0 S"
| more: "cc_steps H reqs S n S' \<Longrightarrow> cc_step H reqs S' i S'' \<Longrightarrow> cc_steps H reqs S (Suc n) S''"

definition cc_start :: "'s CtxCache \<Rightarrow> 'w \<Rightarrow> 'w request list \<Rightarrow> ('s, 'w) cc_system" where
  "cc_start c w reqs = \<lparr>sy_cache = c, sy_world = w, sy_threads = replicate (length reqs) Begin\<rparr>"

end
