(* ===== verification/Ctx_Cache_Correct.thy ===== *)
theory Ctx_Cache_Correct
  imports Ctx_Cache Lru_Correct Expiring_Correct
begin

text \<open>
  What \<open>CtxCache.GetOrCompute\<close> guarantees its concurrent callers. \<open>flight_ok\<close> is the invariant of the
  group: the map and the callers that run a loader correspond one to one, and whoever waits, waits
  for a call that is done or led. From it follow the mutual exclusion of loaders, that a waiter gets
  exactly the leader's result, and that without panics every caller returns.
\<close>

section \<open>The group and its callers\<close>

definition leader :: "thread \<Rightarrow> nat option" where
  "leader t = (case t of Running c \<Rightarrow> Some c | Loaded c r \<Rightarrow> Some c | Panicked c \<Rightarrow> Some c | _ \<Rightarrow> None)"

lemma leader_simps [simp]:
  "leader Begin = None" "leader AtGroup = None" "leader (Waiting c) = None" "leader (Running c) = Some c"
  "leader (Loaded c r) = Some c" "leader (Panicked c) = Some c" "leader (Storing fr) = None" "leader (Returned a) = None"
  by (simp_all add: leader_def)

abbreviation req_key :: "'w request list \<Rightarrow> nat \<Rightarrow> go_string" where
  "req_key reqs i \<equiv> str (rq_key (reqs ! i))"

text \<open>A caller that got past the checks has a loader.\<close>

definition past_checks :: "thread \<Rightarrow> bool" where
  "past_checks t = (case t of AtGroup \<Rightarrow> True | Running c \<Rightarrow> True | _ \<Rightarrow> False)"

lemma past_checks_simps [simp]:
  "\<not> past_checks Begin" "past_checks AtGroup" "\<not> past_checks (Waiting c)" "past_checks (Running c)"
  "\<not> past_checks (Loaded c r)" "\<not> past_checks (Panicked c)" "\<not> past_checks (Storing fr)" "\<not> past_checks (Returned a)"
  by (simp_all add: past_checks_def)

definition flight_ok :: "'w request list \<Rightarrow> flightGroup \<Rightarrow> thread list \<Rightarrow> bool" where
  "flight_ok reqs g T \<longleftrightarrow> length T = length reqs \<and>
     (\<forall>i < length T. \<forall>c. leader (T ! i) = Some c \<longrightarrow>
        c < fg_next g \<and> \<not> call_done (fg_calls g c) \<and> fg_m g (req_key reqs i) = Some c) \<and>
     (\<forall>k c. fg_m g k = Some c \<longrightarrow> (\<exists>i < length T. leader (T ! i) = Some c \<and> req_key reqs i = k)) \<and>
     (\<forall>i < length T. \<forall>j < length T. leader (T ! i) \<noteq> None \<longrightarrow> leader (T ! j) = leader (T ! i) \<longrightarrow> i = j) \<and>
     (\<forall>i < length T. \<forall>c. T ! i = Waiting c \<longrightarrow>
        c < fg_next g \<and> (call_done (fg_calls g c) \<or> fg_m g (req_key reqs i) = Some c)) \<and>
     (\<forall>i < length T. past_checks (T ! i) \<longrightarrow> rq_loader (reqs ! i) \<noteq> None)"

lemma flight_okD:
  assumes "flight_ok reqs g T" "i < length T"
  shows "leader (T ! i) = Some c \<Longrightarrow> c < fg_next g \<and> \<not> call_done (fg_calls g c) \<and> fg_m g (req_key reqs i) = Some c"
    "leader (T ! i) \<noteq> None \<Longrightarrow> j < length T \<Longrightarrow> leader (T ! j) = leader (T ! i) \<Longrightarrow> i = j"
    "T ! i = Waiting c \<Longrightarrow> c < fg_next g \<and> (call_done (fg_calls g c) \<or> fg_m g (req_key reqs i) = Some c)"
    "past_checks (T ! i) \<Longrightarrow> rq_loader (reqs ! i) \<noteq> None"
  using assms unfolding flight_ok_def by metis+

lemma flight_ok_owner:
  assumes "flight_ok reqs g T" "fg_m g k = Some c"
  obtains i where "i < length T" "leader (T ! i) = Some c" "req_key reqs i = k"
  using assms unfolding flight_ok_def by metis

lemma flight_ok_start: "flight_ok reqs newFlightGroup (replicate (length reqs) Begin)"
  by (simp add: flight_ok_def newFlightGroup_def)

text \<open>A caller moves between places that lead no call.\<close>

lemma flight_ok_plain:
  assumes "flight_ok reqs g T" "i < length T" "leader (T ! i) = None" "leader t = None"
    and "\<forall>c. t = Waiting c \<longrightarrow> fg_m g (req_key reqs i) = Some c" "past_checks t \<longrightarrow> rq_loader (reqs ! i) \<noteq> None"
  shows "flight_ok reqs g (T[i := t])"
proof -
  have ld: "leader (T[i := t] ! j) = leader (T ! j)" if "j < length T" for j
    using that assms(2-4) by (cases "j = i") simp_all
  have own: "\<exists>j < length (T[i := t]). leader (T[i := t] ! j) = Some c \<and> req_key reqs j = k" if "fg_m g k = Some c" for k c
    using flight_ok_owner [OF assms(1) that] ld by (metis length_list_update)
  have wt: "c < fg_next g \<and> (call_done (fg_calls g c) \<or> fg_m g (req_key reqs j) = Some c)"
    if "j < length T" "T[i := t] ! j = Waiting c" for j c
  proof (cases "j = i")
    case True
    then have m: "fg_m g (req_key reqs i) = Some c" using that assms(2,5) by simp
    from flight_ok_owner [OF assms(1) m] obtain o' where "o' < length T" "leader (T ! o') = Some c" by blast
    with flight_okD(1) [OF assms(1)] m True show ?thesis by metis
  next
    case False
    then show ?thesis using flight_okD(3) [OF assms(1) that(1)] that(2) by simp
  qed
  have pc: "rq_loader (reqs ! j) \<noteq> None" if "j < length T" "past_checks (T[i := t] ! j)" for j
    using that assms(2,6) flight_okD(4) [OF assms(1) that(1)] by (cases "j = i") simp_all
  show ?thesis
    unfolding flight_ok_def length_list_update
    using assms(1) own wt pc flight_okD(1,2) [OF assms(1)] ld by (auto simp: flight_ok_def)
qed

text \<open>The leader of a call stays its leader.\<close>

lemma flight_ok_leader:
  assumes "flight_ok reqs g T" "i < length T" "leader (T ! i) = Some c" "leader t = Some c" "\<not> past_checks t"
  shows "flight_ok reqs g (T[i := t])"
proof -
  have ld: "leader (T[i := t] ! j) = leader (T ! j)" if "j < length T" for j
    using that assms(2-4) by (cases "j = i") simp_all
  have own: "\<exists>j < length (T[i := t]). leader (T[i := t] ! j) = Some c' \<and> req_key reqs j = k" if "fg_m g k = Some c'" for k c'
    using flight_ok_owner [OF assms(1) that] ld by (metis length_list_update)
  have other: "j \<noteq> i" if "T[i := t] ! j = Waiting c'" "j < length T" for j c'
    using that assms(2,4) by (cases "j = i") auto
  have pc: "rq_loader (reqs ! j) \<noteq> None" if "j < length T" "past_checks (T[i := t] ! j)" for j
    using that assms(2,5) flight_okD(4) [OF assms(1) that(1)] by (cases "j = i") simp_all
  have wt: "c' < fg_next g \<and> (call_done (fg_calls g c') \<or> fg_m g (req_key reqs j) = Some c')"
    if "j < length T" "T[i := t] ! j = Waiting c'" for j c'
    using flight_okD(3) [OF assms(1) that(1)] that other [OF that(2,1)] by simp
  show ?thesis
    unfolding flight_ok_def length_list_update
    using assms(1) own wt pc flight_okD(1,2) [OF assms(1)] ld by (auto simp: flight_ok_def)
qed

lemma flight_ok_lead:
  assumes "flight_ok reqs g T" "i < length T" "T ! i = AtGroup" "fg_enter (req_key reqs i) g = (Lead c, g')"
  shows "flight_ok reqs g' (T[i := Running c])"
proof -
  have m: "fg_m g (req_key reqs i) = None" and c: "c = fg_next g"
    and g': "g' = g\<lparr>fg_m := (fg_m g)(req_key reqs i \<mapsto> c),
       fg_calls := (fg_calls g)(c := \<lparr>call_done = False, call_val = None, call_err = None\<rparr>), fg_next := Suc c\<rparr>"
    using assms(4) by (auto simp: fg_enter_def Let_def split: option.splits)
  have lo: "leader (T ! i) = None" using assms(3) by simp
  have old: "c' < c" "\<not> call_done (fg_calls g c')" "fg_m g (req_key reqs j) = Some c'" "req_key reqs j \<noteq> req_key reqs i"
    if "j < length T" "leader (T ! j) = Some c'" for j c'
    using flight_okD(1) [OF assms(1) that] m c by auto
  have ld: "c' < fg_next g' \<and> \<not> call_done (fg_calls g' c') \<and> fg_m g' (req_key reqs j) = Some c'"
    if "j < length T" "leader (T[i := Running c] ! j) = Some c'" for j c'
  proof (cases "j = i")
    case False
    with that have "leader (T ! j) = Some c'" by simp
    from old [OF that(1) this] show ?thesis by (auto simp: g')
  qed (use that in \<open>simp add: g'\<close>)
  have own: "\<exists>j < length T. leader (T[i := Running c] ! j) = Some c' \<and> req_key reqs j = k" if "fg_m g' k = Some c'" for k c'
  proof (cases "k = req_key reqs i")
    case True
    then show ?thesis using that assms(2) by (intro exI [of _ i]) (simp add: g')
  next
    case False
    with that have "fg_m g k = Some c'" by (simp add: g')
    from flight_ok_owner [OF assms(1) this] obtain j where j: "j < length T" "leader (T ! j) = Some c'" "req_key reqs j = k" .
    then have "j \<noteq> i" using lo by auto
    then show ?thesis using j by (intro exI [of _ j]) simp
  qed
  have inj: "j = l" if "j < length T" "l < length T" "leader (T[i := Running c] ! j) = Some c'"
      "leader (T[i := Running c] ! l) = Some c'" for j l c'
  proof (cases "j = i \<or> l = i")
    case True
    have "x = i" if "x < length T" "leader (T[i := Running c] ! x) = Some c" for x
      using old(1) [OF that(1), of c] that by (cases "x = i") simp_all
    with True that show ?thesis by (metis leader_simps(4) nth_list_update_eq option.inject)
  next
    case False
    then show ?thesis using flight_okD(2) [OF assms(1), of j l] that by simp
  qed
  have wt: "c' < fg_next g' \<and> (call_done (fg_calls g' c') \<or> fg_m g' (req_key reqs j) = Some c')"
    if "j < length T" "T[i := Running c] ! j = Waiting c'" for j c'
  proof -
    have "j \<noteq> i" using that by (cases "j = i") simp_all
    with that have "T ! j = Waiting c'" by simp
    from flight_okD(3) [OF assms(1) that(1) this] show ?thesis using m c by (auto simp: g')
  qed
  have pc: "rq_loader (reqs ! j) \<noteq> None" if "j < length T" "past_checks (T[i := Running c] ! j)" for j
    using that flight_okD(4) [OF assms(1) that(1)] flight_okD(4) [OF assms(1,2)] assms(3) by (cases "j = i") simp_all
  show ?thesis
    unfolding flight_ok_def length_list_update
    using assms(1) ld own inj wt pc by (auto simp: flight_ok_def)
qed

lemma flight_ok_finish:
  assumes "flight_ok reqs g T" "i < length T" "leader (T ! i) = Some c" "fg_finish (req_key reqs i) c r g = Some g'"
    and "leader t = None" "\<forall>c. t \<noteq> Waiting c" "\<not> past_checks t"
  shows "flight_ok reqs g' (T[i := t])"
proof -
  have g': "g' = g\<lparr>fg_calls := (fg_calls g)(c := \<lparr>call_done = True, call_val = fst r, call_err = snd r\<rparr>),
      fg_m := (fg_m g)(req_key reqs i := None)\<rparr>" using assms(4) by (simp add: fg_finish_def split: if_splits)
  have m: "fg_m g (req_key reqs i) = Some c" using flight_okD(1) [OF assms(1-3)] by simp
  have rest: "j \<noteq> i" "leader (T ! j) = Some c'" "c' \<noteq> c" "req_key reqs j \<noteq> req_key reqs i"
    if "j < length T" "leader (T[i := t] ! j) = Some c'" for j c'
  proof -
    show n: "j \<noteq> i" using that assms(2,5) by (cases "j = i") simp_all
    show l: "leader (T ! j) = Some c'" using that n by simp
    show nc: "c' \<noteq> c" using flight_okD(2) [OF assms(1) that(1), of i] l n assms(2,3) by auto
    show "req_key reqs j \<noteq> req_key reqs i" using flight_okD(1) [OF assms(1) that(1) l] m nc by auto
  qed
  have ld: "c' < fg_next g' \<and> \<not> call_done (fg_calls g' c') \<and> fg_m g' (req_key reqs j) = Some c'"
    if "j < length T" "leader (T[i := t] ! j) = Some c'" for j c'
    using rest [OF that] flight_okD(1) [OF assms(1) that(1)] by (simp add: g')
  have own: "\<exists>j < length T. leader (T[i := t] ! j) = Some c' \<and> req_key reqs j = k" if "fg_m g' k = Some c'" for k c'
  proof -
    have k: "fg_m g k = Some c'" "k \<noteq> req_key reqs i" using that by (auto simp: g' split: if_splits)
    from flight_ok_owner [OF assms(1) k(1)] obtain j where j: "j < length T" "leader (T ! j) = Some c'" "req_key reqs j = k" .
    then have "j \<noteq> i" using k(2) by auto
    then show ?thesis using j by (intro exI [of _ j]) simp
  qed
  have inj: "j = l" if "j < length T" "l < length T" "leader (T[i := t] ! j) = Some c'" "leader (T[i := t] ! l) = Some c'" for j l c'
    using rest(2) [OF that(1,3)] rest(2) [OF that(2,4)] flight_okD(2) [OF assms(1) that(1) _ that(2)] by simp
  have wt: "c' < fg_next g' \<and> (call_done (fg_calls g' c') \<or> fg_m g' (req_key reqs j) = Some c')"
    if "j < length T" "T[i := t] ! j = Waiting c'" for j c'
  proof -
    have "j \<noteq> i" using that assms(2,6) by (cases "j = i") simp_all
    with that have "T ! j = Waiting c'" by simp
    from flight_okD(3) [OF assms(1) that(1) this] show ?thesis using m by (auto simp: g')
  qed
  have pc: "rq_loader (reqs ! j) \<noteq> None" if "j < length T" "past_checks (T[i := t] ! j)" for j
    using that assms(2,7) flight_okD(4) [OF assms(1) that(1)] by (cases "j = i") simp_all
  show ?thesis
    unfolding flight_ok_def length_list_update
    using assms(1) ld own inj wt pc by (auto simp: flight_ok_def)
qed

section \<open>Steps\<close>

lemma cc_on_group [simp]: "cc_group (snd (cc_on f c)) = cc_group c"
  by (auto simp: cc_on_def split: option.splits prod.splits)

lemma cc_do_group [simp]: "cc_group (snd (cc_do f c)) = cc_group c"
  by (auto simp: cc_do_def split: option.splits prod.splits)

lemma cc_lookup_group:
  assumes "cc_lookup H ctx now rq c = (a, c')"
  shows "cc_group c' = cc_group c" "a = None \<Longrightarrow> rq_loader rq \<noteq> None"
proof -
  have "cc_on (GetWithCtx H now (rq_key rq)) c = (x, d) \<Longrightarrow> cc_group d = cc_group c" for x d
    using cc_on_group [of "GetWithCtx H now (rq_key rq)" c] by simp
  then show "cc_group c' = cc_group c" "a = None \<Longrightarrow> rq_loader rq \<noteq> None"
    using assms by (auto simp: cc_lookup_def split: option.splits if_splits prod.splits sum.splits)
qed

lemma cc_write_back_group:
  assumes "cc_write_back H now rq r c = (a, c')"
  shows "cc_group c' = cc_group c"
  using assms by (auto simp: cc_write_back_def split: option.splits if_splits)

abbreviation sy_ok :: "'w request list \<Rightarrow> ('s, 'w) cc_system \<Rightarrow> bool" where
  "sy_ok reqs S \<equiv> flight_ok reqs (sy_group S) (sy_threads S)"

lemma sy_length: "sy_ok reqs S \<Longrightarrow> length (sy_threads S) = length reqs"
  by (simp add: flight_ok_def)

lemma cc_step_ok:
  assumes "cc_step H reqs S i S'" "sy_ok reqs S"
  shows "sy_ok reqs S'"
  using assms(1)
proof (cases rule: cc_step.cases)
  case (answered ctx now r c)
  then show ?thesis using cc_lookup_group [OF answered(4)] flight_ok_plain [OF assms(2), of i "Returned r"] by simp
next
  case (missed ctx now c)
  then show ?thesis using cc_lookup_group [OF missed(4)] flight_ok_plain [OF assms(2), of i AtGroup] by simp
next
  case (joined c g)
  then have m: "fg_m (sy_group S) (req_key reqs i) = Some c" "g = sy_group S"
    by (auto simp: fg_enter_def Let_def split: option.splits)
  then show ?thesis using joined flight_ok_plain [OF assms(2), of i "Waiting c"] by simp
next
  case (leads c g)
  then show ?thesis using flight_ok_lead [OF assms(2) leads(2-4)] by simp
next
  case (awaits c first ctx r)
  then show ?thesis using flight_ok_plain [OF assms(2), of i "Storing r"] by simp
next
  case (loads c f r w)
  then show ?thesis using flight_ok_leader [OF assms(2), of i c "Loaded c r"] by simp
next
  case (panics c)
  then show ?thesis using flight_ok_leader [OF assms(2), of i c "Panicked c"] by simp
next
  case (finishes c r g)
  then show ?thesis using flight_ok_finish [OF assms(2), of i c "flight_of r" g "Storing (flight_of r)"] by simp
next
  case (stores r now a c)
  then show ?thesis using cc_write_back_group [OF stores(4)] flight_ok_plain [OF assms(2), of i "Returned a"] by simp
qed

lemma cc_steps_ok: "cc_steps H reqs S n S' \<Longrightarrow> sy_ok reqs S \<Longrightarrow> sy_ok reqs S'"
  by (induction rule: cc_steps.induct) (auto intro: cc_step_ok)

lemma cc_start_ok: "cc_group c = newFlightGroup \<Longrightarrow> sy_ok reqs (cc_start c w reqs)"
  by (simp add: cc_start_def flight_ok_start)

section \<open>Mutual exclusion and the shared result\<close>

text \<open>
  C7: At most one loader per key is in flight, and the table of calls is consistent: in every state
  that concurrent callers of \<open>GetOrCompute\<close> reach, whatever the interleaving, two callers with the
  same key never both run a loader or hold a result they have not published; the table has a call for
  a key exactly when some caller leads that call for that key, a led call is not done, and the call a
  caller waits for is done or is the one in the table for its key.
\<close>
theorem cc_one_loader:
  assumes "cc_group c = newFlightGroup" "cc_steps H reqs (cc_start c w reqs) n S"
  shows "(\<forall>i < length reqs. \<forall>j < length reqs. req_key reqs i = req_key reqs j \<longrightarrow>
      leader (sy_threads S ! i) \<noteq> None \<longrightarrow> leader (sy_threads S ! j) \<noteq> None \<longrightarrow> i = j) \<and>
    (\<forall>k d. fg_m (sy_group S) k = Some d \<longleftrightarrow>
      (\<exists>i < length reqs. leader (sy_threads S ! i) = Some d \<and> req_key reqs i = k)) \<and>
    (\<forall>i < length reqs. \<forall>d. leader (sy_threads S ! i) = Some d \<longrightarrow> \<not> call_done (fg_calls (sy_group S) d)) \<and>
    (\<forall>i < length reqs. \<forall>d. sy_threads S ! i = Waiting d \<longrightarrow>
      call_done (fg_calls (sy_group S) d) \<or> fg_m (sy_group S) (req_key reqs i) = Some d)"
proof -
  have ok: "sy_ok reqs S" using cc_steps_ok [OF assms(2) cc_start_ok [OF assms(1)]] .
  have len: "length (sy_threads S) = length reqs" using sy_length [OF ok] .
  have lead: "\<not> call_done (fg_calls (sy_group S) d) \<and> fg_m (sy_group S) (req_key reqs i) = Some d"
    if "i < length reqs" "leader (sy_threads S ! i) = Some d" for i d
    using flight_okD(1) [OF ok _ that(2)] that(1) len by simp
  have same: "i = j" if prems: "i < length reqs" "j < length reqs" "req_key reqs i = req_key reqs j"
    "leader (sy_threads S ! i) \<noteq> None"
    "leader (sy_threads S ! j) \<noteq> None" for i j
  proof -
    obtain a b where a: "leader (sy_threads S ! i) = Some a" "leader (sy_threads S ! j) = Some b" using prems(4,5) by blast
    then have "a = b" using lead [OF prems(1) a(1)] lead [OF prems(2) a(2)] prems(3) by simp
    then show ?thesis using flight_okD(2) [OF ok, of i j] a prems(1,2) len by simp
  qed
  have owner: "\<exists>i < length reqs. leader (sy_threads S ! i) = Some d \<and> req_key reqs i = k"
    if "fg_m (sy_group S) k = Some d" for k d
    using flight_ok_owner [OF ok that] len by metis
  have wait: "call_done (fg_calls (sy_group S) d) \<or> fg_m (sy_group S) (req_key reqs i) = Some d"
    if "i < length reqs" "sy_threads S ! i = Waiting d" for i d
    using flight_okD(3) [OF ok _ that(2)] that(1) len by simp
  from lead same owner wait show ?thesis by blast
qed

text \<open>Once a caller has loaded \<open>r\<close> for its call, that call can only ever be done with \<open>r\<close>.\<close>

definition carries :: "nat \<Rightarrow> slice go_result \<Rightarrow> ('s, 'w) cc_system \<Rightarrow> bool" where
  "carries c r S \<longleftrightarrow> c < fg_next (sy_group S) \<and>
     (call_done (fg_calls (sy_group S) c) \<longrightarrow>
        (call_val (fg_calls (sy_group S) c), call_err (fg_calls (sy_group S) c)) = flight_of r) \<and>
     (\<forall>i < length (sy_threads S). leader (sy_threads S ! i) = Some c \<longrightarrow> sy_threads S ! i = Loaded c r)"

lemma carries_plain:
  assumes "carries c r S" "sy_group S' = sy_group S" "sy_threads S' = (sy_threads S)[i := t]" "i < length (sy_threads S)"
    and "leader t = Some c \<Longrightarrow> t = Loaded c r"
  shows "carries c r S'"
  using assms by (auto simp: carries_def nth_list_update)

lemma carries_step:
  assumes "cc_step H reqs S i S'" "carries c r S"
  shows "carries c r S'"
  using assms(1)
proof (cases rule: cc_step.cases)
  case (answered ctx now r' c')
  then show ?thesis using cc_lookup_group(1) [OF answered(4)] by (intro carries_plain [OF assms(2), where i = i and t = "Returned r'"]) simp_all
next
  case (missed ctx now c')
  then show ?thesis using cc_lookup_group(1) [OF missed(4)] by (intro carries_plain [OF assms(2), where i = i and t = "AtGroup"]) simp_all
next
  case (joined c' g)
  then have "g = sy_group S" by (auto simp: fg_enter_def Let_def split: option.splits)
  then show ?thesis using joined by (intro carries_plain [OF assms(2), where i = i and t = "Waiting c'"]) simp_all
next
  case (leads c' g)
  then have "c' = fg_next (sy_group S)" "g = sy_group S\<lparr>fg_m := (fg_m (sy_group S))(req_key reqs i \<mapsto> c'),
       fg_calls := (fg_calls (sy_group S))(c' := \<lparr>call_done = False, call_val = None, call_err = None\<rparr>), fg_next := Suc c'\<rparr>"
    by (auto simp: fg_enter_def Let_def split: option.splits)
  with assms(2) leads show ?thesis by (auto simp: carries_def nth_list_update)
next
  case (awaits c' first ctx r')
  then show ?thesis by (intro carries_plain [OF assms(2), where i = i and t = "Storing r'"]) simp_all
next
  case (loads c' f r' w')
  with assms(2) have "c' \<noteq> c" by (auto simp: carries_def)
  with loads show ?thesis by (intro carries_plain [OF assms(2), where i = i and t = "Loaded c' r'"]) simp_all
next
  case (panics c')
  with assms(2) have "c' \<noteq> c" by (auto simp: carries_def)
  with panics show ?thesis by (intro carries_plain [OF assms(2), where i = i and t = "Panicked c'"]) simp_all
next
  case (finishes c' r' g)
  have e: "c' = c \<Longrightarrow> r' = r" using finishes assms(2) by (auto simp: carries_def)
  have g: "g = sy_group S\<lparr>fg_calls := (fg_calls (sy_group S))(c' := \<lparr>call_done = True, call_val = fst (flight_of r'), call_err = snd (flight_of r')\<rparr>),
      fg_m := (fg_m (sy_group S))(req_key reqs i := None)\<rparr>" using finishes(4) by (simp add: fg_finish_def split: if_splits)
  show ?thesis using finishes(1-3) assms(2) e by (auto simp: carries_def g nth_list_update)
next
  case (stores r' now a c')
  then show ?thesis using cc_write_back_group [OF stores(4)] by (intro carries_plain [OF assms(2), where i = i and t = "Returned a"]) simp_all
qed

lemma carries_steps: "cc_steps H reqs S n S' \<Longrightarrow> carries c r S \<Longrightarrow> carries c r S'"
  by (induction rule: cc_steps.induct) (auto intro: carries_step)

text \<open>
  Callers that joined share the leader's result: once the leader of a call has loaded \<open>r\<close>, every
  caller waiting for that call leaves with exactly that value and error, however long it waits and
  whatever runs in between, or with the error of its own context.
\<close>
theorem cc_shared_result:
  assumes "cc_group c0 = newFlightGroup" "cc_steps H reqs (cc_start c0 w reqs) n S"
    and "i < length reqs" "sy_threads S ! i = Loaded c r" "cc_steps H reqs S m S'"
    and "j < length reqs" "sy_threads S' ! j = Waiting c" "cc_step H reqs S' j S''"
  shows "sy_threads S'' ! j = Storing (flight_of r) \<or> (\<exists>err. sy_threads S'' ! j = Storing (None, Some err))"
proof -
  have ok: "sy_ok reqs S" using cc_steps_ok [OF assms(2) cc_start_ok [OF assms(1)]] .
  have l: "i < length (sy_threads S)" using sy_length [OF ok] assms(3) by simp
  have nd: "c < fg_next (sy_group S)" "\<not> call_done (fg_calls (sy_group S) c)"
    using flight_okD(1) [OF ok l, of c] assms(4) by simp_all
  have "sy_threads S ! x = Loaded c r" if "x < length (sy_threads S)" "leader (sy_threads S ! x) = Some c" for x
    using flight_okD(2) [OF ok l _ that(1)] that(2) assms(4) by simp
  with nd have "carries c r S" by (simp add: carries_def)
  from carries_steps [OF assms(5) this] have cr: "carries c r S'" .
  have l': "j < length (sy_threads S')" using sy_length [OF cc_steps_ok [OF assms(5) ok]] assms(6) by simp
  obtain first ctx x where x: "fg_await first c ctx (sy_group S') = Some x" "sy_threads S'' = (sy_threads S')[j := Storing x]"
    using assms(7,8) by (auto elim: cc_step.cases)
  from x(1) cr have "x = flight_of r \<or> (\<exists>err. x = (None, Some err))"
    by (auto simp: fg_await_def Let_def carries_def split: if_splits option.splits)
  with x(2) l' show ?thesis by auto
qed

section \<open>Every caller returns, unless a loader panics\<close>

definition rank :: "thread \<Rightarrow> nat" where
  "rank t = (case t of Begin \<Rightarrow> 5 | AtGroup \<Rightarrow> 4 | Running c \<Rightarrow> 3 | Waiting c \<Rightarrow> 2 | Loaded c r \<Rightarrow> 2
     | Storing fr \<Rightarrow> 1 | Panicked c \<Rightarrow> 0 | Returned a \<Rightarrow> 0)"

lemma rank_simps [simp]:
  "rank Begin = 5" "rank AtGroup = 4" "rank (Running c) = 3" "rank (Waiting c) = 2" "rank (Loaded c r) = 2"
  "rank (Storing fr) = 1" "rank (Panicked c) = 0" "rank (Returned a) = 0"
  by (simp_all add: rank_def)

definition work :: "('s, 'w) cc_system \<Rightarrow> nat" where
  "work S = sum_list (map rank (sy_threads S))"

lemma sum_list_less:
  fixes f :: "'x \<Rightarrow> nat"
  assumes "i < length T" "f t < f (T ! i)"
  shows "sum_list (map f (T[i := t])) < sum_list (map f T)"
proof -
  have "sum_list (map f T) = sum_list (map f (take i T)) + f (T ! i) + sum_list (map f (drop (Suc i) T))"
    using assms(1) by (subst id_take_nth_drop [OF assms(1)]) simp
  moreover have "sum_list (map f (T[i := t])) = sum_list (map f (take i T)) + f t + sum_list (map f (drop (Suc i) T))"
    using assms(1) by (simp add: upd_conv_take_nth_drop)
  ultimately show ?thesis using assms(2) by simp
qed

lemma cc_step_work: "cc_step H reqs S i S' \<Longrightarrow> work S' < work S"
  by (erule cc_step.cases) (auto simp: work_def intro!: sum_list_less)

lemma cc_steps_work: "cc_steps H reqs S n S' \<Longrightarrow> work S' + n \<le> work S"
  by (induction rule: cc_steps.induct) (auto dest: cc_step_work)

text \<open>A caller that is neither finished nor waiting can always make a step that is not a panic.\<close>

definition calm_step ::
  "('s, 'w) handler \<Rightarrow> 'w request list \<Rightarrow> ('s, 'w) cc_system \<Rightarrow> nat \<Rightarrow> ('s, 'w) cc_system \<Rightarrow> bool" where
  "calm_step H reqs S i S' \<longleftrightarrow> cc_step H reqs S i S' \<and>
     (\<exists>t. sy_threads S' = (sy_threads S)[i := t] \<and> (\<forall>c. t \<noteq> Panicked c))"

lemma calm_stepI:
  assumes "cc_step H reqs S i S'" "sy_threads S' = (sy_threads S)[i := t]" "\<forall>c. t \<noteq> Panicked c"
  shows "\<exists>S'. calm_step H reqs S i S'"
  using assms unfolding calm_step_def by blast

lemma cc_can_step:
  assumes "sy_ok reqs S" "i < length (sy_threads S)" "rank (sy_threads S ! i) \<noteq> 0" "\<forall>c. sy_threads S ! i \<noteq> Waiting c"
  shows "\<exists>S'. calm_step H reqs S i S'"
proof (cases "sy_threads S ! i")
  case Begin
  obtain a c where x: "cc_lookup H None 0 (reqs ! i) (sy_cache S) = (a, c)" by (metis prod.collapse)
  show ?thesis
  proof (cases a)
    case None
    show ?thesis by (rule calm_stepI, rule cc_step.missed [OF assms(2) Begin x [unfolded None]]) simp+
  next
    case (Some r)
    show ?thesis by (rule calm_stepI, rule cc_step.answered [OF assms(2) Begin x [unfolded Some]]) simp+
  qed
next
  case AtGroup
  obtain e g where x: "fg_enter (req_key reqs i) (sy_group S) = (e, g)" by (metis prod.collapse)
  show ?thesis
  proof (cases e)
    case (Join c)
    show ?thesis by (rule calm_stepI, rule cc_step.joined [OF assms(2) AtGroup x [unfolded Join]]) simp+
  next
    case (Lead c)
    show ?thesis by (rule calm_stepI, rule cc_step.leads [OF assms(2) AtGroup x [unfolded Lead]]) simp+
  qed
next
  case (Running c)
  obtain f where f: "rq_loader (reqs ! i) = Some f" using flight_okD(4) [OF assms(1,2)] Running by auto
  obtain r w where w: "f (sy_world S) = (r, w)" by (metis prod.collapse)
  show ?thesis by (rule calm_stepI, rule cc_step.loads [OF assms(2) Running f w]) simp+
next
  case (Loaded c r)
  then have "\<not> call_done (fg_calls (sy_group S) c)" using flight_okD(1) [OF assms(1,2), of c] by simp
  then obtain g where g: "fg_finish (req_key reqs i) c (flight_of r) (sy_group S) = Some g" by (simp add: fg_finish_def)
  show ?thesis by (rule calm_stepI, rule cc_step.finishes [OF assms(2) Loaded g]) simp+
next
  case (Storing r)
  obtain a c where x: "cc_write_back H 0 (reqs ! i) r (sy_cache S) = (a, c)" by (metis prod.collapse)
  show ?thesis by (rule calm_stepI, rule cc_step.stores [OF assms(2) Storing x]) simp+
qed (use assms in auto)

text \<open>A caller that waits for a call that is done can go on.\<close>

lemma cc_awaits_done:
  assumes "i < length (sy_threads S)" "sy_threads S ! i = Waiting c" "call_done (fg_calls (sy_group S) c)"
  shows "\<exists>S'. calm_step H reqs S i S'"
proof -
  have "fg_await True c None (sy_group S) = Some (call_val (fg_calls (sy_group S) c), call_err (fg_calls (sy_group S) c))"
    using assms(3) by (simp add: fg_await_def Let_def)
  from cc_step.awaits [OF assms(1,2) this] show ?thesis by (rule calm_stepI) simp+
qed

text \<open>
  What a state is like in which no caller can step without a panic: everybody has returned, or has
  panicked, or waits for a caller that has panicked.
\<close>

lemma cc_stuck:
  assumes ok: "sy_ok reqs S" and stuck: "\<forall>i S'. \<not> calm_step H reqs S i S'" and i: "i < length reqs"
  shows "(\<exists>a. sy_threads S ! i = Returned a) \<or> (\<exists>c. sy_threads S ! i = Panicked c) \<or>
    (\<exists>c j. sy_threads S ! i = Waiting c \<and> j < length reqs \<and> sy_threads S ! j = Panicked c)"
proof -
  have len: "length (sy_threads S) = length reqs" using sy_length [OF ok] .
  have idle: "rank (sy_threads S ! x) = 0 \<or> (\<exists>c. sy_threads S ! x = Waiting c)" if "x < length reqs" for x
    using cc_can_step [OF ok, of x] that len stuck by auto
  show ?thesis
  proof (cases "\<exists>c. sy_threads S ! i = Waiting c")
    case True
    then obtain c where c: "sy_threads S ! i = Waiting c" by blast
    have "\<not> call_done (fg_calls (sy_group S) c)" using cc_awaits_done [OF _ c] i len stuck by metis
    then have "fg_m (sy_group S) (req_key reqs i) = Some c" using flight_okD(3) [OF ok _ c] i len by simp
    from flight_ok_owner [OF ok this] obtain j where j: "j < length reqs" "leader (sy_threads S ! j) = Some c"
      using len by metis
    with idle [OF j(1)] have "sy_threads S ! j = Panicked c" by (cases "sy_threads S ! j") auto
    with c j(1) show ?thesis by blast
  next
    case False
    with idle [OF i] show ?thesis by (cases "sy_threads S ! i") auto
  qed
qed

lemma cc_steps_trans: "cc_steps H reqs S' m S'' \<Longrightarrow> cc_steps H reqs S n S' \<Longrightarrow> cc_steps H reqs S (n + m) S''"
  by (induction rule: cc_steps.induct) (auto intro: cc_steps.more)

lemma cc_complete:
  assumes "sy_ok reqs S" "\<forall>i < length reqs. \<forall>c. sy_threads S ! i \<noteq> Panicked c"
  shows "\<exists>m S'. cc_steps H reqs S m S' \<and> (\<forall>i < length reqs. \<exists>a. sy_threads S' ! i = Returned a)"
  using assms
proof (induction "work S" arbitrary: S rule: less_induct)
  case less
  show ?case
  proof (cases "\<exists>i S'. calm_step H reqs S i S'")
    case True
    then obtain i S' t where st: "cc_step H reqs S i S'" "sy_threads S' = (sy_threads S)[i := t]" "\<forall>c. t \<noteq> Panicked c"
      unfolding calm_step_def by blast
    have "\<forall>j < length reqs. \<forall>c. sy_threads S' ! j \<noteq> Panicked c"
      using less(3) st(2,3) sy_length [OF less(2)] by (metis nth_list_update_eq nth_list_update_neq)
    from less(1) [OF cc_step_work [OF st(1)] cc_step_ok [OF st(1) less(2)] this]
    obtain m S'' where "cc_steps H reqs S' m S''" "\<forall>i < length reqs. \<exists>a. sy_threads S'' ! i = Returned a" by blast
    with cc_steps_trans [OF this(1) cc_steps.more [OF cc_steps.none st(1)]] show ?thesis by blast
  next
    case False
    with cc_stuck [OF less(2)] less(3) have "\<forall>i < length reqs. \<exists>a. sy_threads S ! i = Returned a" by blast
    with cc_steps.none show ?thesis by blast
  qed
qed


text \<open>A panicked caller leaves its call behind for good.\<close>

lemma panicked_stays:
  assumes "cc_steps H reqs S n S'" "i < length (sy_threads S)" "sy_threads S ! i = Panicked c"
  shows "length (sy_threads S') = length (sy_threads S) \<and> sy_threads S' ! i = Panicked c"
  using assms
proof (induction rule: cc_steps.induct)
  case (more S n S' x S'')
  then have "i < length (sy_threads S')" "sy_threads S' ! i = Panicked c" by auto
  with more(2) have "length (sy_threads S'') = length (sy_threads S') \<and> sy_threads S'' ! i = Panicked c"
    by (cases rule: cc_step.cases) (auto simp: nth_list_update)
  with more show ?case by simp
qed simp

text \<open>
  A loader that panics blocks its key for good: its call is never taken off the group, so from then
  on no other caller of the key ever runs a loader again, and who waits for the call can only leave
  through its own context.
\<close>
theorem cc_panic_blocks:
  assumes "cc_group c0 = newFlightGroup" "cc_steps H reqs (cc_start c0 w reqs) n S"
    and "i < length reqs" "sy_threads S ! i = Panicked c" "cc_steps H reqs S m S'"
    and "j < length reqs" "j \<noteq> i" "req_key reqs j = req_key reqs i"
  shows "(\<forall>c'. sy_threads S' ! j \<noteq> Running c') \<and>
    (\<forall>S''. sy_threads S' ! j = Waiting c \<longrightarrow> cc_step H reqs S' j S'' \<longrightarrow>
       (\<exists>err. sy_threads S'' ! j = Storing (None, Some err)))"
proof (intro conjI allI impI notI)
  have ok: "sy_ok reqs S" using cc_steps_ok [OF assms(2) cc_start_ok [OF assms(1)]] .
  have ok': "sy_ok reqs S'" using cc_steps_ok [OF assms(5) ok] .
  have len: "length (sy_threads S) = length reqs" "length (sy_threads S') = length reqs"
    using sy_length [OF ok] sy_length [OF ok'] by simp_all
  have p: "sy_threads S' ! i = Panicked c" using panicked_stays [OF assms(5) _ assms(4)] assms(3) len by simp
  have own: "fg_m (sy_group S') (req_key reqs i) = Some c" "\<not> call_done (fg_calls (sy_group S') c)"
    using flight_okD(1) [OF ok', of i c] p assms(3) len by simp_all
  show False if "sy_threads S' ! j = Running c'" for c'
  proof -
    have "fg_m (sy_group S') (req_key reqs j) = Some c'" using flight_okD(1) [OF ok', of j c'] that assms(6) len by simp
    then have "c' = c" using own(1) assms(8) by simp
    then show False using flight_okD(2) [OF ok', of i j] p that assms(3,6,7) len by simp
  qed
  show "\<exists>err. sy_threads S'' ! j = Storing (None, Some err)"
    if w: "sy_threads S' ! j = Waiting c" "cc_step H reqs S' j S''" for S''
  proof -
    obtain first ctx x where "fg_await first c ctx (sy_group S') = Some x" "sy_threads S'' = (sy_threads S')[j := Storing x]"
      using w by (auto elim: cc_step.cases)
    with own(2) assms(6) len show ?thesis by (auto simp: fg_await_def Let_def split: option.splits)
  qed
qed

section \<open>A concrete run\<close>

text \<open>Two callers ask for the same key of an empty cache; the first leads, the second joins.\<close>

definition cc_reqs :: "unit request list" where
  "cc_reqs = replicate 2 \<lparr>rq_key = Some [1], rq_ttl = 3, rq_loader = Some (\<lambda>w. (Inr (Some [7]), w))\<rparr>"

definition cc_new :: "ExpiringHandler CtxCache" where
  "cc_new = NewCtxCache (Some ex_demo)"

definition cc_flying :: flightGroup where
  "cc_flying = snd (fg_enter [1] newFlightGroup)"

definition cc_at :: "thread list \<Rightarrow> (ExpiringHandler, unit) cc_system" where
  "cc_at T = \<lparr>sy_cache = \<lparr>cc_handler = Some ex_demo, cc_group = cc_flying\<rparr>, sy_world = (), sy_threads = T\<rparr>"

lemma cc_new_group: "cc_group cc_new = newFlightGroup"
  by (simp add: cc_new_def NewCtxCache_def)

lemma cc_reqs_simps [simp]: "length cc_reqs = 2"
    "cc_reqs ! 0 = \<lparr>rq_key = Some [1], rq_ttl = 3, rq_loader = Some (\<lambda>w. (Inr (Some [7]), w))\<rparr>"
    "cc_reqs ! Suc 0 = cc_reqs ! 0"
  by (simp_all add: cc_reqs_def)

lemma cc_miss: "cc_lookup exH None 5 (cc_reqs ! 0) cc_new = (None, cc_new)"
  by (simp add: cc_lookup_def go_simps ValidateTTL_def cc_new_def NewCtxCache_def cc_on_def ex_handler_def ex_GetWithCtx_def)

lemma cc_flying_simps: "fg_enter [1] newFlightGroup = (Lead 0, cc_flying)" "fg_enter [1] cc_flying = (Join 0, cc_flying)"
    "\<not> call_done (fg_calls cc_flying 0)"
  by (simp_all add: cc_flying_def fg_enter_def newFlightGroup_def)

lemma cc_run_waiting: "cc_steps exH cc_reqs (cc_start cc_new () cc_reqs) 4 (cc_at [Running 0, Waiting 0])"
proof -
  let ?S = "\<lambda>T. \<lparr>sy_cache = cc_new, sy_world = (), sy_threads = T\<rparr>"
  have st: "cc_start cc_new () cc_reqs = ?S [Begin, Begin]" by (simp add: cc_start_def numeral_2_eq_2)
  have 1: "cc_step exH cc_reqs (?S [Begin, Begin]) 0 (?S [AtGroup, Begin])"
    using cc_step.missed [of 0 "?S [Begin, Begin]" exH None 5 cc_reqs cc_new] cc_miss by simp
  have 2: "cc_step exH cc_reqs (?S [AtGroup, Begin]) 1 (?S [AtGroup, AtGroup])"
    using cc_step.missed [of 1 "?S [AtGroup, Begin]" exH None 5 cc_reqs cc_new] cc_miss by simp
  have 3: "cc_step exH cc_reqs (?S [AtGroup, AtGroup]) 0 (cc_at [Running 0, AtGroup])"
    using cc_step.leads [of 0 "?S [AtGroup, AtGroup]" cc_reqs 0 cc_flying exH] cc_flying_simps(1)
    by (simp add: cc_new_group cc_at_def) (simp add: cc_new_def NewCtxCache_def)
  have 4: "cc_step exH cc_reqs (cc_at [Running 0, AtGroup]) 1 (cc_at [Running 0, Waiting 0])"
    using cc_step.joined [of 1 "cc_at [Running 0, AtGroup]" cc_reqs 0 cc_flying exH] cc_flying_simps(2)
    by (simp add: cc_at_def)
  have "cc_steps exH cc_reqs (?S [Begin, Begin]) (Suc (Suc (Suc (Suc 0)))) (cc_at [Running 0, Waiting 0])"
    by (intro cc_steps.more [OF _ 4] cc_steps.more [OF _ 3] cc_steps.more [OF _ 2] cc_steps.more [OF _ 1] cc_steps.none)
  then show ?thesis by (simp add: st numeral_eq_Suc)
qed

lemma cc_one_loader_witness:
  "leader (sy_threads (cc_at [Running 0, Waiting 0]) ! 0) = Some 0 \<and>
   leader (sy_threads (cc_at [Running 0, Waiting 0]) ! 1) = None \<and>
   fg_m (sy_group (cc_at [Running 0, Waiting 0])) [1] = Some 0 \<and>
   \<not> call_done (fg_calls (sy_group (cc_at [Running 0, Waiting 0])) 0)"
proof -
  have k: "(0 :: nat) < length cc_reqs" "(1 :: nat) < length cc_reqs" "req_key cc_reqs 0 = req_key cc_reqs 1" "req_key cc_reqs 0 = [1]"
    by (simp_all add: cc_reqs_def)
  have l: "leader (sy_threads (cc_at [Running 0, Waiting 0]) ! 0) = Some 0" by (simp add: cc_at_def)
  from cc_one_loader [OF cc_new_group cc_run_waiting] k l show ?thesis by (metis option.distinct(1) zero_neq_one)
qed

lemma cc_run_loaded: "cc_step exH cc_reqs (cc_at [Running 0, Waiting 0]) 0 (cc_at [Loaded 0 (Inr (Some [7])), Waiting 0])"
  using cc_step.loads [of 0 "cc_at [Running 0, Waiting 0]" 0 cc_reqs _ _ "()" exH] by (simp add: cc_at_def)

lemma cc_shared_result_witness:
  "\<exists>S''. cc_step exH cc_reqs (cc_at [Loaded 0 (Inr (Some [7])), Waiting 0]) 1 S'' \<and>
     (sy_threads S'' ! 1 = Storing (flight_of (Inr (Some [7]))) \<or> (\<exists>err. sy_threads S'' ! 1 = Storing (None, Some err)))"
proof -
  let ?S = "cc_at [Loaded 0 (Inr (Some [7])), Waiting 0]"
  have "fg_await True 0 (Some CtxCanceled) (sy_group ?S) = Some (None, Some CtxCanceled)"
    using cc_flying_simps(3) by (simp add: fg_await_def cc_at_def)
  then obtain S'' where st: "cc_step exH cc_reqs ?S 1 S''"
    using cc_step.awaits [of 1 ?S 0 True "Some CtxCanceled" _ exH cc_reqs] by (auto simp: cc_at_def)
  have "sy_threads S'' ! 1 = Storing (flight_of (Inr (Some [7]))) \<or> (\<exists>err. sy_threads S'' ! 1 = Storing (None, Some err))"
    using cc_shared_result [OF cc_new_group cc_steps.more [OF cc_run_waiting cc_run_loaded] _ _ cc_steps.none, of 0 0 _ 1] st
    by (simp add: cc_at_def)
  with st show ?thesis by blast
qed


lemma cc_panic_blocks_witness:
  "cc_steps exH cc_reqs (cc_start cc_new () cc_reqs) 5 (cc_at [Panicked 0, Waiting 0]) \<and>
   sy_threads (cc_at [Panicked 0, Waiting 0]) ! 1 \<noteq> Running 1"
proof -
  have "cc_step exH cc_reqs (cc_at [Running 0, Waiting 0]) 0 (cc_at [Panicked 0, Waiting 0])"
    using cc_step.panics [of 0 "cc_at [Running 0, Waiting 0]" 0 exH cc_reqs] by (simp add: cc_at_def)
  from cc_steps.more [OF cc_run_waiting this]
  have r: "cc_steps exH cc_reqs (cc_start cc_new () cc_reqs) 5 (cc_at [Panicked 0, Waiting 0])" by simp
  then show ?thesis
    using cc_panic_blocks [OF cc_new_group r _ _ cc_steps.none, of 0 0 1] by (simp add: cc_at_def)
qed

section \<open>A single caller\<close>

context cache_handler
begin

lemma cc_lookup_open:
  assumes "cc_handler c = Some s" "inv s" "\<not> closed s" "rq_key rq = Some k" "-1 \<le> rq_ttl rq" "rq_loader rq = Some f"
  shows "cc_lookup H ctx now rq c = (case ctx of Some e \<Rightarrow> (Some (Inl e), c) | None \<Rightarrow>
    (map_option Inr (view now s k), c\<lparr>cc_handler := Some (snd (GetWithCtx H now (Some k) s))\<rparr>))"
  using assms get_result [OF assms(2,3), of now k]
  by (cases "view now s k"; cases ctx)
    (auto simp: cc_lookup_def go_simps ValidateTTL_def cc_on_def split: prod.splits sum.splits)

lemma cc_compute:
  assumes "cc_handler c = Some s" "inv s" "\<not> closed s" "fg_m (cc_group c) k = None"
    and "rq_key rq = Some k" "-1 \<le> rq_ttl rq" "rq_loader rq = Some f" "clk en 0 \<le> clk en 1"
    and "cc_GetOrCompute H first en rq c w = Some (r, c', w')"
  shows "\<exists>s'. cc_handler c' = Some s' \<and> inv s' \<and> \<not> closed s' \<and> fg_m (cc_group c') = fg_m (cc_group c) \<and>
    (case obs en 0 of Some e \<Rightarrow> r = Inl e \<and> w' = w \<and> s' = s | None \<Rightarrow>
      (case view (clk en 0) s k of Some v \<Rightarrow> r = Inr v \<and> w' = w | None \<Rightarrow>
        r = fst (f w) \<and> w' = snd (f w) \<and>
        (case fst (f w) of
           Inr (Some v) \<Rightarrow> \<forall>t \<ge> clk en 1. ttl_ok (clk en 1) (rq_ttl rq) \<longrightarrow>
             view t s' k = (if 0 < rq_ttl rq \<and> clk en 1 + rq_ttl rq < t then None else Some (stored v))
         | _ \<Rightarrow> \<forall>t \<ge> clk en 0. view t s' = view t s)))"
proof -
  define s1 where "s1 = snd (GetWithCtx H (clk en 0) (Some k) s)"
  have s1: "inv s1" "\<not> closed s1" "\<forall>t \<ge> clk en 0. view t s1 = view t s"
    using assms(2,3) by (simp_all add: s1_def get_inv get_flag get_view)
  have lk: "cc_lookup H (obs en 0) (clk en 0) rq c = (case obs en 0 of Some e \<Rightarrow> (Some (Inl e), c) | None \<Rightarrow>
      (map_option Inr (view (clk en 0) s k), c\<lparr>cc_handler := Some s1\<rparr>))"
    unfolding s1_def by (rule cc_lookup_open [OF assms(1-3,5-7)])
  consider (stop) e where "obs en 0 = Some e" | (hit) v where "obs en 0 = None" "view (clk en 0) s k = Some v"
    | (load) "obs en 0 = None" "view (clk en 0) s k = None" by fastforce
  then show ?thesis
  proof cases
    case stop
    then show ?thesis using assms lk by (simp add: cc_GetOrCompute_def)
  next
    case hit
    then show ?thesis using assms(9) lk s1 by (auto simp: cc_GetOrCompute_def)
  next
    case load
    obtain a w1 where f: "f w = (a, w1)" by (metis prod.collapse)
    define g where "g = (cc_group c)\<lparr>fg_calls := (fg_calls (cc_group c))(fg_next (cc_group c) :=
        \<lparr>call_done = True, call_val = fst (flight_of a), call_err = snd (flight_of a)\<rparr>), fg_next := Suc (fg_next (cc_group c))\<rparr>"
    have up: "(fg_m (cc_group c))(k := None) = fg_m (cc_group c)" using assms(4) by (simp add: fun_upd_idem)
    have "fg_Do first (obs en 1) k f (cc_group c) w = Some (flight_of a, g, w1)"
      using assms(4) f up by (simp add: fg_Do_def fg_enter_def Let_def fg_finish_def g_def)
    then have e: "(r, c') = cc_write_back H (clk en 1) rq (flight_of a) (c\<lparr>cc_handler := Some s1, cc_group := g\<rparr>)" "w' = w1"
      using assms(5,7,9) lk load by (auto simp: cc_GetOrCompute_def split: prod.splits)
    have gm: "fg_m g = fg_m (cc_group c)" by (simp add: g_def)
    show ?thesis
    proof (cases a)
      case (Inl err)
      then show ?thesis using e f gm s1 load by (simp add: cc_write_back_def flight_of_def)
    next
      case (Inr v)
      show ?thesis
      proof (cases v)
        case None
        then show ?thesis using Inr e f gm s1 load by (simp add: cc_write_back_def flight_of_def)
      next
        case (Some b)
        define ttl where "ttl = (if rq_ttl rq \<le> 0 then -1 else rq_ttl rq)"
        define s2 where "s2 = snd (SetWithTTLAndCtx H (clk en 1) (Some k) (Some b) ttl s1)"
        have c': "r = Inr (Some b)" "cc_handler c' = Some s2" "cc_group c' = g"
          using e(1) Inr Some assms(5)
          by (auto simp: cc_write_back_def flight_of_def cc_do_def s2_def ttl_def set_no_ttl [OF s1(1)] split: prod.splits)
        have o: "inv s2" "\<not> closed s2" using s1 by (simp_all add: s2_def set_inv set_flag)
        have "view t s2 k = (if 0 < rq_ttl rq \<and> clk en 1 + rq_ttl rq < t then None else Some (stored b))"
          if "clk en 1 \<le> t" "ttl_ok (clk en 1) (rq_ttl rq)" for t
        proof -
          have "ttl_ok (clk en 1) ttl" using that(2) by (auto simp: ttl_ok_def ttl_def)
          from set_view [OF s1(1,2) this that(1), of k b] show ?thesis by (auto simp: s2_def lives_def ttl_def)
        qed
        then show ?thesis using c' o e(2) f gm load Inr Some by simp
      qed
    qed
  qed
qed

end

text \<open>
  A \<open>GetOrCompute\<close> with no other in flight always returns, on a cache over an expiring handler: a done
  context stops it; a live value is returned without running the loader; otherwise the loader runs
  exactly once and its value or error is the answer. A value that is not nil is stored, best effort,
  and is what the key reads as until the deadline; the group is left as it was.
\<close>
theorem cc_get_or_compute:
  assumes "cc_handler c = Some h" "ex_inv h" "\<not> ex_closed h" "fg_m (cc_group c) k = None"
    and "rq_key rq = Some k" "-1 \<le> rq_ttl rq" "rq_loader rq = Some f" "clk en 0 \<le> clk en 1"
  shows "\<exists>r c' w' h'. cc_GetOrCompute ex_handler first en rq c w = Some (r, c', w') \<and>
    cc_handler c' = Some h' \<and> fg_m (cc_group c') = fg_m (cc_group c) \<and>
    (case obs en 0 of Some e \<Rightarrow> r = Inl e \<and> w' = w \<and> h' = h | None \<Rightarrow>
      (case ex_view (clk en 0) h k of Some v \<Rightarrow> r = Inr v \<and> w' = w | None \<Rightarrow>
        r = fst (f w) \<and> w' = snd (f w) \<and>
        (case fst (f w) of
           Inr (Some v) \<Rightarrow> \<forall>t \<ge> clk en 1. ttl_ok (clk en 1) (rq_ttl rq) \<longrightarrow>
             ex_view t h' k = (if 0 < rq_ttl rq \<and> clk en 1 + rq_ttl rq < t then None else Some (Some v))
         | _ \<Rightarrow> \<forall>t \<ge> clk en 0. ex_view t h' = ex_view t h)))"
proof -
  have "cc_GetOrCompute ex_handler first en rq c w \<noteq> None"
    using assms(4,5) ex.cc_lookup_open [OF assms(1-3,5-7), of "obs en 0" "clk en 0"]
    by (auto simp: cc_GetOrCompute_def fg_Do_def fg_enter_def Let_def fg_finish_def split: option.splits prod.splits)
  then obtain r c' w' where e: "cc_GetOrCompute ex_handler first en rq c w = Some (r, c', w')" by auto
  from ex.cc_compute [OF assms e] show ?thesis using e by blast
qed

lemma cc_get_or_compute_witness:
  "\<exists>c' w'. cc_GetOrCompute ex_handler True \<lparr>clk = (\<lambda>_. 5), obs = (\<lambda>_. None)\<rparr>
     \<lparr>rq_key = Some [2], rq_ttl = 3, rq_loader = Some (\<lambda>w. (Inr (Some [w]), w + 1))\<rparr> cc_new 4 = Some (Inr (Some [4]), c', w') \<and> w' = 5"
proof -
  have n: "cc_handler cc_new = Some ex_demo" "fg_m (cc_group cc_new) [2] = None"
    by (simp_all add: cc_new_def NewCtxCache_def newFlightGroup_def)
  define rq where "rq = \<lparr>rq_key = Some [2 :: 8 word], rq_ttl = 3, rq_loader = Some (\<lambda>w :: 8 word. (Inr (Some [w]), w + 1))\<rparr>"
  define en where "en = \<lparr>clk = (\<lambda>_. 5), obs = (\<lambda>_. None)\<rparr>"
  have r: "rq_key rq = Some [2]" "-1 \<le> rq_ttl rq" "rq_loader rq = Some (\<lambda>w. (Inr (Some [w]), w + 1))"
    "clk en 0 \<le> clk en 1" by (simp_all add: rq_def en_def)
  obtain a c' w' where "cc_GetOrCompute ex_handler True en rq cc_new 4 = Some (a, c', w')" "a = Inr (Some [4])" "w' = 5"
    using cc_get_or_compute [OF n(1) ex_demo_ok(1,2) n(2) r, of True 4] by (auto simp: en_def)
  then show ?thesis unfolding rq_def en_def by blast
qed

text \<open>
  On a cache without a handler every operation answers \<open>ErrNotInitialized\<close>, except for \<open>GetTTL\<close>, which
  does not check and panics.
\<close>
theorem cc_nil_handler:
  assumes "cc_handler c = None"
  shows "cc_Get H ctx now (Some k) c = (Inl ErrNotInitialized, c) \<and>
    cc_SetWithTTL H ctx now (Some k) value ttl c = (Some ErrNotInitialized, c) \<and>
    cc_Del H ctx (Some k) c = (Some ErrNotInitialized, c) \<and>
    cc_BatchGet H rd keys c = ((replicate (length keys) None, replicate (length keys) (Some ErrNotInitialized)), c) \<and>
    cc_GetTTL H now (Some k) c = (Inl RuntimePanic, c)"
  using assms by (simp add: cc_Get_def cc_SetWithTTL_def cc_Del_def cc_BatchGet_def cc_GetTTL_def cc_on_def go_simps)

lemma cc_nil_handler_witness:
  "fst (cc_GetTTL exH 5 (Some [1]) (NewCtxCache None)) = Inl RuntimePanic"
  using cc_nil_handler [of "NewCtxCache None" exH None 5 "[1]"] by (simp add: NewCtxCache_def)

end
