(* ===== verification/Client.thy ===== *)
theory Client
  imports Ctx_Cache Lru Lru_Optimized Expiring
begin

text \<open>
  \<open>Client\<close> of \<open>client.go\<close>: a handler chosen by a configuration, behind a \<open>CtxCache\<close>. The interface value
  the constructor stores is the sum of the implementations; the methods of that sum dispatch on it.
  The states \<open>'r\<close> of a Ristretto and \<open>'d\<close> of a Redis handler, their constructors and operations, are
  parameters: both only forward to packages outside the repository. A nil \<open>ctxCache\<close> or \<open>config\<close> is
  \<^const>\<open>None\<close>, and following it panics.
\<close>

section \<open>The implementations behind the interface\<close>

datatype ('r, 'd) any_cache =
  HLRU LRUHandler | HOptimized optHandler | HExpiring ExpiringHandler | HRistretto 'r | HRedis 'd

definition lift :: "('s \<Rightarrow> 't) \<Rightarrow> 'r \<times> 's \<Rightarrow> 'r \<times> 't" where
  "lift C p = (fst p, C (snd p))"

definition lift_w :: "('s \<Rightarrow> 't) \<Rightarrow> 'r \<times> 's \<times> 'w \<Rightarrow> 'r \<times> 't \<times> 'w" where
  "lift_w C p = (fst p, C (fst (snd p)), snd (snd p))"

lemma lift_simps [simp]: "fst (lift C p) = fst p" "snd (lift C p) = C (snd p)"
  by (simp_all add: lift_def)

definition any_of_handlers ::
  "(LRUHandler, 'w) handler \<Rightarrow> (optHandler, 'w) handler \<Rightarrow> (ExpiringHandler, 'w) handler \<Rightarrow>
   ('r, 'w) handler \<Rightarrow> ('d, 'w) handler \<Rightarrow> (('r, 'd) any_cache, 'w) handler" where
  "any_of_handlers HL HO HE HR HD = \<lparr>
     SetWithCtx = (\<lambda>now key value x. case x of
         HLRU h \<Rightarrow> lift HLRU (SetWithCtx HL now key value h)
       | HOptimized h \<Rightarrow> lift HOptimized (SetWithCtx HO now key value h)
       | HExpiring h \<Rightarrow> lift HExpiring (SetWithCtx HE now key value h)
       | HRistretto h \<Rightarrow> lift HRistretto (SetWithCtx HR now key value h)
       | HRedis h \<Rightarrow> lift HRedis (SetWithCtx HD now key value h)),
     SetWithTTLAndCtx = (\<lambda>now key value ttl x. case x of
         HLRU h \<Rightarrow> lift HLRU (SetWithTTLAndCtx HL now key value ttl h)
       | HOptimized h \<Rightarrow> lift HOptimized (SetWithTTLAndCtx HO now key value ttl h)
       | HExpiring h \<Rightarrow> lift HExpiring (SetWithTTLAndCtx HE now key value ttl h)
       | HRistretto h \<Rightarrow> lift HRistretto (SetWithTTLAndCtx HR now key value ttl h)
       | HRedis h \<Rightarrow> lift HRedis (SetWithTTLAndCtx HD now key value ttl h)),
     GetWithCtx = (\<lambda>now key x. case x of
         HLRU h \<Rightarrow> lift HLRU (GetWithCtx HL now key h)
       | HOptimized h \<Rightarrow> lift HOptimized (GetWithCtx HO now key h)
       | HExpiring h \<Rightarrow> lift HExpiring (GetWithCtx HE now key h)
       | HRistretto h \<Rightarrow> lift HRistretto (GetWithCtx HR now key h)
       | HRedis h \<Rightarrow> lift HRedis (GetWithCtx HD now key h)),
     GetTTLWithCtx = (\<lambda>now key x. case x of
         HLRU h \<Rightarrow> lift HLRU (GetTTLWithCtx HL now key h)
       | HOptimized h \<Rightarrow> lift HOptimized (GetTTLWithCtx HO now key h)
       | HExpiring h \<Rightarrow> lift HExpiring (GetTTLWithCtx HE now key h)
       | HRistretto h \<Rightarrow> lift HRistretto (GetTTLWithCtx HR now key h)
       | HRedis h \<Rightarrow> lift HRedis (GetTTLWithCtx HD now key h)),
     DelWithCtx = (\<lambda>key x. case x of
         HLRU h \<Rightarrow> lift HLRU (DelWithCtx HL key h)
       | HOptimized h \<Rightarrow> lift HOptimized (DelWithCtx HO key h)
       | HExpiring h \<Rightarrow> lift HExpiring (DelWithCtx HE key h)
       | HRistretto h \<Rightarrow> lift HRistretto (DelWithCtx HR key h)
       | HRedis h \<Rightarrow> lift HRedis (DelWithCtx HD key h)),
     BatchGetWithCtx = (\<lambda>rd keys x. case x of
         HLRU h \<Rightarrow> lift HLRU (BatchGetWithCtx HL rd keys h)
       | HOptimized h \<Rightarrow> lift HOptimized (BatchGetWithCtx HO rd keys h)
       | HExpiring h \<Rightarrow> lift HExpiring (BatchGetWithCtx HE rd keys h)
       | HRistretto h \<Rightarrow> lift HRistretto (BatchGetWithCtx HR rd keys h)
       | HRedis h \<Rightarrow> lift HRedis (BatchGetWithCtx HD rd keys h)),
     GetOrComputeWithCtx = (\<lambda>en key ttl loader x w. case x of
         HLRU h \<Rightarrow> lift_w HLRU (GetOrComputeWithCtx HL en key ttl loader h w)
       | HOptimized h \<Rightarrow> lift_w HOptimized (GetOrComputeWithCtx HO en key ttl loader h w)
       | HExpiring h \<Rightarrow> lift_w HExpiring (GetOrComputeWithCtx HE en key ttl loader h w)
       | HRistretto h \<Rightarrow> lift_w HRistretto (GetOrComputeWithCtx HR en key ttl loader h w)
       | HRedis h \<Rightarrow> lift_w HRedis (GetOrComputeWithCtx HD en key ttl loader h w)),
     CloseH = (\<lambda>x. case x of
         HLRU h \<Rightarrow> lift HLRU (CloseH HL h)
       | HOptimized h \<Rightarrow> lift HOptimized (CloseH HO h)
       | HExpiring h \<Rightarrow> lift HExpiring (CloseH HE h)
       | HRistretto h \<Rightarrow> lift HRistretto (CloseH HR h)
       | HRedis h \<Rightarrow> lift HRedis (CloseH HD h))\<rparr>"

definition any_handler ::
  "nat \<Rightarrow> ('r, 'w) handler \<Rightarrow> ('d, 'w) handler \<Rightarrow> (('r, 'd) any_cache, 'w) handler" where
  "any_handler pick HR HD = any_of_handlers lru_handler (opt_handler pick) ex_handler HR HD"

section \<open>Configuration and construction\<close>

type_synonym CacheType = string

definition CacheLRU :: CacheType where "CacheLRU = ''lru''"
definition CacheLRUOptimized :: CacheType where "CacheLRUOptimized = ''lru_optimized''"
definition CacheRistretto :: CacheType where "CacheRistretto = ''ristretto''"
definition CacheRedis :: CacheType where "CacheRedis = ''redis''"
definition CacheExpiring :: CacheType where "CacheExpiring = ''expiring''"

lemmas cache_types = CacheLRU_def CacheLRUOptimized_def CacheRistretto_def CacheRedis_def CacheExpiring_def

record ('rc, 'ro) ClientConfig =
  cfg_Type :: CacheType
  cfg_Capacity :: int
  cfg_CleanupInterval :: duration
  cfg_RedisConfig :: "'ro option"
  cfg_RistrettoConfig :: "'rc option"

record ('s, 'rc, 'ro) Client =
  cl_ctxCache :: "'s CtxCache option"
  cl_config :: "('rc, 'ro) ClientConfig option"

definition minute :: duration where "minute = 60000000000"

text \<open>What the code takes from outside the repository.\<close>

record ('r, 'd, 'rc, 'ro) externals =
  ext_IfLeZero :: "int \<Rightarrow> int \<Rightarrow> int"
  ext_GOMAXPROCS :: int
  ext_NewRistretto :: "'rc option \<Rightarrow> 'r go_result"
  ext_NewRedis :: "'ro \<Rightarrow> 'd go_result"

text \<open>The configuration is the caller's: the constructor writes the default capacity into it.\<close>

definition cfg_default_capacity :: "('rc, 'ro) ClientConfig \<Rightarrow> ('rc, 'ro) ClientConfig" where
  "cfg_default_capacity cfg = (if cfg_Capacity cfg \<le> 0 then cfg\<lparr>cfg_Capacity := 128\<rparr> else cfg)"

definition new_client ::
  "('r, 'd) any_cache \<Rightarrow> ('rc, 'ro) ClientConfig \<Rightarrow> (('r, 'd) any_cache, 'rc, 'ro) Client go_result" where
  "new_client h cfg = Inr \<lparr>cl_ctxCache = Some (NewCtxCache (Some h)), cl_config = Some cfg\<rparr>"

definition NewClient ::
  "('r, 'd, 'rc, 'ro) externals \<Rightarrow> ('rc, 'ro) ClientConfig option \<Rightarrow>
   (('r, 'd) any_cache, 'rc, 'ro) Client go_result" where
  "NewClient ext cfg0 =
     (case cfg0 of
        None \<Rightarrow> Inl ErrInvalidValue
      | Some cfg \<Rightarrow>
          if cfg_Type cfg = CacheLRU
          then let cfg = cfg_default_capacity cfg
               in new_client (HLRU (NewLRUHandler (ext_IfLeZero ext) (cfg_Capacity cfg))) cfg
          else if cfg_Type cfg = CacheLRUOptimized
          then let cfg = cfg_default_capacity cfg
               in (case NewLRUOptimizedHandler (ext_IfLeZero ext) (ext_GOMAXPROCS ext) (cfg_Capacity cfg) of
                     None \<Rightarrow> Inl RuntimePanic
                   | Some h \<Rightarrow> new_client (HOptimized h) cfg)
          else if cfg_Type cfg = CacheExpiring
          then let interval = ext_IfLeZero ext (cfg_CleanupInterval cfg) minute
               in new_client (HExpiring (NewExpiringHandler (ext_IfLeZero ext) interval)) cfg
          else if cfg_Type cfg = CacheRistretto
          then (case ext_NewRistretto ext (cfg_RistrettoConfig cfg) of
                  Inl err \<Rightarrow> Inl err
                | Inr r \<Rightarrow> new_client (HRistretto r) cfg)
          else if cfg_Type cfg = CacheRedis
          then (case cfg_RedisConfig cfg of
                  None \<Rightarrow> Inl ErrInvalidValue
                | Some opts \<Rightarrow>
                    (case ext_NewRedis ext opts of
                       Inl err \<Rightarrow> Inl err
                     | Inr d \<Rightarrow> new_client (HRedis d) cfg))
          else new_client (HLRU (NewLRUHandler (ext_IfLeZero ext) 128)) cfg)"

definition cfg_of :: "CacheType \<Rightarrow> ('rc, 'ro) ClientConfig" where
  "cfg_of ty = \<lparr>cfg_Type = ty, cfg_Capacity = 0, cfg_CleanupInterval = 0, cfg_RedisConfig = None, cfg_RistrettoConfig = None\<rparr>"

definition NewLRUClient :: "('r, 'd, 'rc, 'ro) externals \<Rightarrow> int \<Rightarrow> (('r, 'd) any_cache, 'rc, 'ro) Client go_result" where
  "NewLRUClient ext x = NewClient ext (Some ((cfg_of CacheLRU)\<lparr>cfg_Capacity := x\<rparr>))"

definition NewLRUOptimizedClient :: "('r, 'd, 'rc, 'ro) externals \<Rightarrow> int \<Rightarrow> (('r, 'd) any_cache, 'rc, 'ro) Client go_result" where
  "NewLRUOptimizedClient ext x = NewClient ext (Some ((cfg_of CacheLRUOptimized)\<lparr>cfg_Capacity := x\<rparr>))"

definition NewExpiringClient :: "('r, 'd, 'rc, 'ro) externals \<Rightarrow> duration \<Rightarrow> (('r, 'd) any_cache, 'rc, 'ro) Client go_result" where
  "NewExpiringClient ext x = NewClient ext (Some ((cfg_of CacheExpiring)\<lparr>cfg_CleanupInterval := x\<rparr>))"

definition NewRistrettoClient :: "('r, 'd, 'rc, 'ro) externals \<Rightarrow> 'rc option \<Rightarrow> (('r, 'd) any_cache, 'rc, 'ro) Client go_result" where
  "NewRistrettoClient ext x = NewClient ext (Some ((cfg_of CacheRistretto)\<lparr>cfg_RistrettoConfig := x\<rparr>))"

definition NewRedisClient :: "('r, 'd, 'rc, 'ro) externals \<Rightarrow> 'ro option \<Rightarrow> (('r, 'd) any_cache, 'rc, 'ro) Client go_result" where
  "NewRedisClient ext x = NewClient ext (Some ((cfg_of CacheRedis)\<lparr>cfg_RedisConfig := x\<rparr>))"

section \<open>Operations\<close>

text \<open>Calling a method of \<open>c.ctxCache\<close>.\<close>

definition cl_on ::
  "('s CtxCache \<Rightarrow> 'r go_result \<times> 's CtxCache) \<Rightarrow> ('s, 'rc, 'ro) Client \<Rightarrow> 'r go_result \<times> ('s, 'rc, 'ro) Client" where
  "cl_on f cl =
     (case cl_ctxCache cl of
        None \<Rightarrow> (Inl RuntimePanic, cl)
      | Some c \<Rightarrow> (case f c of (r, c') \<Rightarrow> (r, cl\<lparr>cl_ctxCache := Some c'\<rparr>)))"

definition cl_do ::
  "('s CtxCache \<Rightarrow> go_error option \<times> 's CtxCache) \<Rightarrow> ('s, 'rc, 'ro) Client \<Rightarrow> go_error option \<times> ('s, 'rc, 'ro) Client" where
  "cl_do f cl =
     (case cl_ctxCache cl of
        None \<Rightarrow> (Some RuntimePanic, cl)
      | Some c \<Rightarrow> (case f c of (r, c') \<Rightarrow> (r, cl\<lparr>cl_ctxCache := Some c'\<rparr>)))"

definition cl_GetWithCtx ::
  "('s, 'w) handler \<Rightarrow> ctx \<Rightarrow> time \<Rightarrow> slice \<Rightarrow> ('s, 'rc, 'ro) Client \<Rightarrow> slice go_result \<times> ('s, 'rc, 'ro) Client" where
  "cl_GetWithCtx H ctx now key cl = cl_on (cc_Get H ctx now key) cl"

definition cl_SetWithCtx ::
  "('s, 'w) handler \<Rightarrow> ctx \<Rightarrow> time \<Rightarrow> slice \<Rightarrow> slice \<Rightarrow> ('s, 'rc, 'ro) Client \<Rightarrow> go_error option \<times> ('s, 'rc, 'ro) Client" where
  "cl_SetWithCtx H ctx now key value cl = cl_do (cc_Set H ctx now key value) cl"

definition cl_SetWithTTLAndCtx ::
  "('s, 'w) handler \<Rightarrow> ctx \<Rightarrow> time \<Rightarrow> slice \<Rightarrow> slice \<Rightarrow> duration \<Rightarrow> ('s, 'rc, 'ro) Client \<Rightarrow>
   go_error option \<times> ('s, 'rc, 'ro) Client" where
  "cl_SetWithTTLAndCtx H ctx now key value ttl cl = cl_do (cc_SetWithTTL H ctx now key value ttl) cl"

definition cl_DelWithCtx ::
  "('s, 'w) handler \<Rightarrow> ctx \<Rightarrow> slice \<Rightarrow> ('s, 'rc, 'ro) Client \<Rightarrow> go_error option \<times> ('s, 'rc, 'ro) Client" where
  "cl_DelWithCtx H ctx key cl = cl_do (cc_Del H ctx key) cl"

definition cl_GetTTLWithCtx ::
  "('s, 'w) handler \<Rightarrow> time \<Rightarrow> slice \<Rightarrow> ('s, 'rc, 'ro) Client \<Rightarrow> duration go_result \<times> ('s, 'rc, 'ro) Client" where
  "cl_GetTTLWithCtx H now key cl = cl_on (cc_GetTTL H now key) cl"

text \<open>\<^const>\<open>None\<close> is a call that never returns, as for \<^const>\<open>cc_GetOrCompute\<close>.\<close>

definition cl_GetOrComputeWithCtx ::
  "('s, 'w) handler \<Rightarrow> bool \<Rightarrow> env \<Rightarrow> 'w request \<Rightarrow> ('s, 'rc, 'ro) Client \<Rightarrow> 'w \<Rightarrow> (slice go_result \<times> ('s, 'rc, 'ro) Client \<times> 'w) option" where
  "cl_GetOrComputeWithCtx H first en rq cl w =
     (case cl_ctxCache cl of
        None \<Rightarrow> Some (Inl RuntimePanic, cl, w)
      | Some c \<Rightarrow> map_option (\<lambda>(r, c', w'). (r, cl\<lparr>cl_ctxCache := Some c'\<rparr>, w')) (cc_GetOrCompute H first en rq c w))"

definition cl_BatchGet ::
  "('s, 'w) handler \<Rightarrow> (nat \<Rightarrow> time) \<Rightarrow> slice list \<Rightarrow> ('s, 'rc, 'ro) Client \<Rightarrow> batch_result go_result \<times> ('s, 'rc, 'ro) Client" where
  "cl_BatchGet H rd keys cl = cl_on (\<lambda>c. case cc_BatchGet H rd keys c of (r, c') \<Rightarrow> (Inr r, c')) cl"

definition cl_BatchGetWithCtx ::
  "('s, 'w) handler \<Rightarrow> ctx \<Rightarrow> (nat \<Rightarrow> time) \<Rightarrow> slice list \<Rightarrow> ('s, 'rc, 'ro) Client \<Rightarrow> batch_result go_result \<times> ('s, 'rc, 'ro) Client" where
  "cl_BatchGetWithCtx H ctx rd keys cl =
     (case ctx of
        Some err \<Rightarrow> (Inr (replicate (length keys) None, replicate (length keys) (Some err)), cl)
      | None \<Rightarrow>
          if cl_ctxCache cl = None
          then (Inr (replicate (length keys) None, replicate (length keys) (Some ErrNotInitialized)), cl)
          else cl_BatchGet H rd keys cl)"

text \<open>The statistics of the cache, and the type and capacity of the configuration.\<close>

definition cl_Stats :: "('s \<Rightarrow> 'x) \<Rightarrow> ('s, 'rc, 'ro) Client \<Rightarrow> (('x \<times> bool) go_result \<times> CacheType \<times> int) go_result" where
  "cl_Stats stats cl =
     (case cl_ctxCache cl of
        None \<Rightarrow> Inl ErrNotInitialized
      | Some c \<Rightarrow>
          (case cl_config cl of
             None \<Rightarrow> Inl RuntimePanic
           | Some cfg \<Rightarrow> Inr (cc_Stats stats c, cfg_Type cfg, cfg_Capacity cfg)))"

definition cl_StatsWithCtx :: "('s \<Rightarrow> 'x) \<Rightarrow> ctx \<Rightarrow> ('s, 'rc, 'ro) Client \<Rightarrow> (('x \<times> bool) go_result \<times> CacheType \<times> int) go_result" where
  "cl_StatsWithCtx stats ctx cl = (case ctx of Some err \<Rightarrow> Inl err | None \<Rightarrow> cl_Stats stats cl)"

definition cl_Close :: "('s, 'w) handler \<Rightarrow> ('s, 'rc, 'ro) Client \<Rightarrow> go_error option \<times> ('s, 'rc, 'ro) Client" where
  "cl_Close H cl = (if cl_ctxCache cl \<noteq> None then cl_do (cc_Close H) cl else (None, cl))"

definition cl_GetConfig :: "('s, 'rc, 'ro) Client \<Rightarrow> ('rc, 'ro) ClientConfig go_result" where
  "cl_GetConfig cl = (case cl_config cl of None \<Rightarrow> Inl RuntimePanic | Some cfg \<Rightarrow> Inr cfg)"

definition cl_WithContext :: "('s, 'rc, 'ro) Client \<Rightarrow> 's CtxCache carrier \<Rightarrow> 's CtxCache carrier" where
  "cl_WithContext cl cx = WithCache (cl_ctxCache cl) cx"

text \<open>The methods without a context.\<close>

definition cl_Get ::
  "('s, 'w) handler \<Rightarrow> time \<Rightarrow> slice \<Rightarrow> ('s, 'rc, 'ro) Client \<Rightarrow> slice go_result \<times> ('s, 'rc, 'ro) Client" where
  "cl_Get H now key cl = cl_on (cc_Get H None now key) cl"

definition cl_GetTTL ::
  "('s, 'w) handler \<Rightarrow> time \<Rightarrow> slice \<Rightarrow> ('s, 'rc, 'ro) Client \<Rightarrow> duration go_result \<times> ('s, 'rc, 'ro) Client" where
  "cl_GetTTL H now key cl = cl_on (cc_GetTTL H now key) cl"

definition cl_Set ::
  "('s, 'w) handler \<Rightarrow> time \<Rightarrow> slice \<Rightarrow> slice \<Rightarrow> ('s, 'rc, 'ro) Client \<Rightarrow> go_error option \<times> ('s, 'rc, 'ro) Client" where
  "cl_Set H now key value cl = cl_do (cc_Set H None now key value) cl"

definition cl_SetWithTTL ::
  "('s, 'w) handler \<Rightarrow> time \<Rightarrow> slice \<Rightarrow> slice \<Rightarrow> duration \<Rightarrow> ('s, 'rc, 'ro) Client \<Rightarrow> go_error option \<times> ('s, 'rc, 'ro) Client" where
  "cl_SetWithTTL H now key value ttl cl = cl_do (cc_SetWithTTL H None now key value ttl) cl"

definition cl_Del ::
  "('s, 'w) handler \<Rightarrow> slice \<Rightarrow> ('s, 'rc, 'ro) Client \<Rightarrow> go_error option \<times> ('s, 'rc, 'ro) Client" where
  "cl_Del H key cl = cl_do (cc_Del H None key) cl"

definition cl_GetOrCompute ::
  "('s, 'w) handler \<Rightarrow> bool \<Rightarrow> (nat \<Rightarrow> time) \<Rightarrow> 'w request \<Rightarrow> ('s, 'rc, 'ro) Client \<Rightarrow> 'w \<Rightarrow> (slice go_result \<times> ('s, 'rc, 'ro) Client \<times> 'w) option" where
  "cl_GetOrCompute H first rd rq cl w = cl_GetOrComputeWithCtx H first \<lparr>clk = rd, obs = (\<lambda>_. None)\<rparr> rq cl w"

text \<open>\<open>Client\<close> implements \<open>Handler\<close>. A call of \<open>GetOrCompute\<close> that never returns has no value here.\<close>

definition cl_batch_of :: "slice list \<Rightarrow> batch_result go_result \<Rightarrow> batch_result" where
  "cl_batch_of keys r =
     (case r of Inr b \<Rightarrow> b | Inl err \<Rightarrow> (replicate (length keys) None, replicate (length keys) (Some err)))"

definition client_handler :: "('s, 'w) handler \<Rightarrow> bool \<Rightarrow> (('s, 'rc, 'ro) Client, 'w) handler" where
  "client_handler H first = \<lparr>
     SetWithCtx = cl_SetWithCtx H None, SetWithTTLAndCtx = cl_SetWithTTLAndCtx H None,
     GetWithCtx = cl_GetWithCtx H None, GetTTLWithCtx = cl_GetTTLWithCtx H, DelWithCtx = cl_DelWithCtx H None,
     BatchGetWithCtx = (\<lambda>rd keys cl. case cl_BatchGetWithCtx H None rd keys cl of (r, cl') \<Rightarrow> (cl_batch_of keys r, cl')),
     GetOrComputeWithCtx = (\<lambda>en key ttl loader cl w.
       the (cl_GetOrComputeWithCtx H first en \<lparr>rq_key = key, rq_ttl = ttl, rq_loader = Some loader\<rparr> cl w)),
     CloseH = cl_Close H\<rparr>"

end
