(* ===== verification/Client_Correct.thy ===== *)
theory Client_Correct
  imports Client Sharded_Correct Ctx_Cache_Correct Lru_Optimized_Props
begin

text \<open>
  A client keeps the contract of the handler behind it: this is proved once for every handler, inside
  the locales of the contract, and interpreted on the clients of the three in-memory caches, whose
  dispatch through the interface value keeps the contract too.
\<close>

section \<open>Through CtxCache and Client\<close>

definition cl_inv :: "('s \<Rightarrow> bool) \<Rightarrow> ('s, 'rc, 'ro) Client \<Rightarrow> bool" where
  "cl_inv I cl \<longleftrightarrow> (\<exists>c s. cl_ctxCache cl = Some c \<and> cc_handler c = Some s \<and> I s)"

definition cl_state :: "('s, 'rc, 'ro) Client \<Rightarrow> 's option" where
  "cl_state cl = Option.bind (cl_ctxCache cl) cc_handler"

definition cl_closed :: "('s \<Rightarrow> bool) \<Rightarrow> ('s, 'rc, 'ro) Client \<Rightarrow> bool" where
  "cl_closed closed cl = (case cl_state cl of None \<Rightarrow> False | Some s \<Rightarrow> closed s)"

definition cl_view ::
  "(time \<Rightarrow> 's \<Rightarrow> go_string \<Rightarrow> slice option) \<Rightarrow> time \<Rightarrow> ('s, 'rc, 'ro) Client \<Rightarrow> go_string \<Rightarrow> slice option" where
  "cl_view view t cl k = (case cl_state cl of None \<Rightarrow> None | Some s \<Rightarrow> view t s k)"

definition cl_put :: "'s \<Rightarrow> ('s, 'rc, 'ro) Client \<Rightarrow> ('s, 'rc, 'ro) Client" where
  "cl_put s cl = cl\<lparr>cl_ctxCache := map_option (\<lambda>c. c\<lparr>cc_handler := Some s\<rparr>) (cl_ctxCache cl)\<rparr>"

lemma cl_invE:
  assumes "cl_inv I cl"
  obtains s where "cl_state cl = Some s" "I s"
  using assms by (auto simp: cl_inv_def cl_state_def)

lemma cl_inv_state: "cl_inv I cl \<longleftrightarrow> (\<exists>s. cl_state cl = Some s \<and> I s)"
  by (auto simp: cl_inv_def cl_state_def bind_eq_Some_conv)

lemma cl_put_state [simp]: "cl_state cl = Some s \<Longrightarrow> cl_state (cl_put s' cl) = Some s'"
  by (auto simp: cl_state_def cl_put_def bind_eq_Some_conv)

lemma cl_put_same [simp]: "cl_state cl = Some s \<Longrightarrow> cl_put s cl = cl"
  by (auto simp: cl_state_def cl_put_def bind_eq_Some_conv)

text \<open>The operations in closed form: the checks of \<open>CtxCache\<close>, then the handler.\<close>

lemma cl_on_state:
  assumes "cl_state cl = Some s"
  shows "cl_on (cc_on f) cl = (fst (f s), cl_put (snd (f s)) cl)"
    "cl_do (cc_do g) cl = (fst (g s), cl_put (snd (g s)) cl)"
  using assms
  by (auto simp: cl_on_def cl_do_def cc_on_def cc_do_def cl_state_def cl_put_def bind_eq_Some_conv split: prod.splits)

lemma cl_ops:
  assumes "cl_state cl = Some s"
  shows "cl_GetWithCtx H ctx now key cl =
      (if key = None then (Inl ErrInvalidKey, cl)
       else case ctx of Some e \<Rightarrow> (Inl e, cl) | None \<Rightarrow>
         (fst (GetWithCtx H now key s), cl_put (snd (GetWithCtx H now key s)) cl))"
    "cl_SetWithCtx H ctx now key value cl =
      (if key = None then (Some ErrInvalidKey, cl) else if value = None then (Some ErrInvalidValue, cl)
       else case ctx of Some e \<Rightarrow> (Some e, cl) | None \<Rightarrow>
         (fst (SetWithCtx H now key value s), cl_put (snd (SetWithCtx H now key value s)) cl))"
    "cl_SetWithTTLAndCtx H ctx now key value ttl cl =
      (if key = None then (Some ErrInvalidKey, cl) else if value = None then (Some ErrInvalidValue, cl)
       else if ttl < -1 then (Some ErrInvalidTTL, cl)
       else case ctx of Some e \<Rightarrow> (Some e, cl) | None \<Rightarrow>
         (fst (SetWithTTLAndCtx H now key value ttl s), cl_put (snd (SetWithTTLAndCtx H now key value ttl s)) cl))"
    "cl_DelWithCtx H ctx key cl =
      (if key = None then (Some ErrInvalidKey, cl)
       else case ctx of Some e \<Rightarrow> (Some e, cl) | None \<Rightarrow>
         (fst (DelWithCtx H key s), cl_put (snd (DelWithCtx H key s)) cl))"
    "cl_GetTTLWithCtx H now key cl = (fst (GetTTLWithCtx H now key s), cl_put (snd (GetTTLWithCtx H now key s)) cl)"
    "cl_Close H cl = (fst (CloseH H s), cl_put (snd (CloseH H s)) cl)"
proof -
  obtain c where c: "cl_ctxCache cl = Some c" "cc_handler c = Some s"
    using assms by (auto simp: cl_state_def bind_eq_Some_conv)
  note d = cl_on_def cl_do_def cc_on_def cc_do_def go_simps c cl_put_def
  show "cl_GetWithCtx H ctx now key cl = (if key = None then (Inl ErrInvalidKey, cl)
       else case ctx of Some e \<Rightarrow> (Inl e, cl) | None \<Rightarrow>
         (fst (GetWithCtx H now key s), cl_put (snd (GetWithCtx H now key s)) cl))"
    using c by (auto simp: d cl_GetWithCtx_def cc_Get_def split: option.splits prod.splits)
  show "cl_SetWithCtx H ctx now key value cl =
      (if key = None then (Some ErrInvalidKey, cl) else if value = None then (Some ErrInvalidValue, cl)
       else case ctx of Some e \<Rightarrow> (Some e, cl) | None \<Rightarrow>
         (fst (SetWithCtx H now key value s), cl_put (snd (SetWithCtx H now key value s)) cl))"
    using c by (auto simp: d cl_SetWithCtx_def cc_Set_def split: option.splits prod.splits)
  show "cl_SetWithTTLAndCtx H ctx now key value ttl cl =
      (if key = None then (Some ErrInvalidKey, cl) else if value = None then (Some ErrInvalidValue, cl)
       else if ttl < -1 then (Some ErrInvalidTTL, cl)
       else case ctx of Some e \<Rightarrow> (Some e, cl) | None \<Rightarrow>
         (fst (SetWithTTLAndCtx H now key value ttl s), cl_put (snd (SetWithTTLAndCtx H now key value ttl s)) cl))"
    using c by (auto simp: d cl_SetWithTTLAndCtx_def cc_SetWithTTL_def split: option.splits prod.splits)
  show "cl_DelWithCtx H ctx key cl = (if key = None then (Some ErrInvalidKey, cl)
       else case ctx of Some e \<Rightarrow> (Some e, cl) | None \<Rightarrow>
         (fst (DelWithCtx H key s), cl_put (snd (DelWithCtx H key s)) cl))"
    using c by (auto simp: d cl_DelWithCtx_def cc_Del_def split: option.splits prod.splits)
  show "cl_GetTTLWithCtx H now key cl = (fst (GetTTLWithCtx H now key s), cl_put (snd (GetTTLWithCtx H now key s)) cl)"
    using c by (auto simp: d cl_GetTTLWithCtx_def cc_GetTTL_def split: prod.splits)
  show "cl_Close H cl = (fst (CloseH H s), cl_put (snd (CloseH H s)) cl)"
    using c by (auto simp: d cl_Close_def cc_Close_def split: prod.splits)
qed

text \<open>Operations on a client that has no state panic or fail, and leave it as it is.\<close>

lemma cl_no_state:
  assumes "cl_state cl = None"
  shows "snd (cl_GetWithCtx H ctx now key cl) = cl" "snd (cl_SetWithTTLAndCtx H ctx now key value ttl cl) = cl"
    "snd (cl_DelWithCtx H ctx key cl) = cl"
  using assms
  by (auto simp: cl_state_def bind_eq_None_conv cl_GetWithCtx_def cl_SetWithTTLAndCtx_def cl_DelWithCtx_def cl_on_def cl_do_def
      cc_Get_def cc_SetWithTTL_def cc_Del_def go_simps split: option.splits prod.splits)

section \<open>The contract of a client\<close>

context cache_core
begin

lemma cl_set_no_ttl:
  assumes "cl_inv inv cl"
  shows "cl_SetWithCtx H ctx now key value cl = cl_SetWithTTLAndCtx H ctx now key value (-1) cl"
proof -
  obtain s where "cl_state cl = Some s" "inv s" using assms by (rule cl_invE)
  then show ?thesis by (simp add: cl_ops set_no_ttl split: option.split)
qed

lemma cl_flags:
  "cl_closed closed (snd (cl_GetWithCtx H ctx now key cl)) = cl_closed closed cl"
  "cl_closed closed (snd (cl_SetWithTTLAndCtx H ctx now key value ttl cl)) = cl_closed closed cl"
  "cl_closed closed (snd (cl_DelWithCtx H ctx key cl)) = cl_closed closed cl"
proof (atomize (full), goal_cases)
  case 1
  show ?case
  proof (cases "cl_state cl")
    case None
    then show ?thesis by (simp add: cl_no_state)
  next
    case (Some s)
    then show ?thesis
      by (auto simp: cl_ops [OF Some] cl_closed_def get_flag set_flag del_flag split: option.split)
  qed
qed

lemma client_core: "cache_core (client_handler H first) (cl_inv inv) (cl_closed closed) (cl_view view) stored"
proof (unfold_locales, goal_cases)
  case (7 cl key "value" ttl now)
  then obtain s where s: "cl_state cl = Some s" "inv s" by (auto elim: cl_invE)
  then obtain e where "closed s \<Longrightarrow> SetWithTTLAndCtx H now key value ttl s = (Some e, s)"
    using set_err [OF s(2), of key "value" ttl now] by blast
  with 7 s show ?case by (auto simp: client_handler_def cl_ops [OF s(1)] cl_closed_def)
next
  case (11 cl now ttl t k v)
  then obtain s where s: "cl_state cl = Some s" "inv s" by (auto elim: cl_invE)
  moreover have "-1 \<le> ttl" using 11 by (simp add: ttl_ok_def)
  ultimately show ?case using 11 set_weak [OF s(2), of now ttl t k v]
    by (simp add: client_handler_def cl_ops [OF s(1)] cl_closed_def cl_view_def)
next
  case (12 cl k' k t now "value" ttl)
  then obtain s where s: "cl_state cl = Some s" "inv s" by (auto elim: cl_invE)
  with 12 set_other [OF s(2), of k' k t now "value" ttl] show ?case
    by (auto simp: client_handler_def cl_ops [OF s(1)] cl_view_def)
next
  case (14 cl key)
  then obtain s where s: "cl_state cl = Some s" "inv s" by (auto elim: cl_invE)
  then obtain e where "closed s \<Longrightarrow> DelWithCtx H key s = (Some e, s)" using del_err [OF s(2), of key] by blast
  with 14 s show ?case by (auto simp: client_handler_def cl_ops [OF s(1)] cl_closed_def)
qed (auto simp: client_handler_def cl_ops cl_closed_def cl_view_def get_nil get_closed get_open get_inv get_view set_ok set_inv
    del_ok del_inv del_view close_inv close_flag cl_flags [unfolded cl_closed_def] cl_set_no_ttl cl_inv_state fun_eq_iff elim!: cl_invE)

end

context cache_handler
begin

lemma client_full: "cache_handler (client_handler H first) (cl_inv inv) (cl_closed closed) (cl_view view) stored"
proof (intro cache_handler.intro client_core cache_handler_axioms.intro)
  fix cl now ttl t k v
  assume a: "cl_inv inv cl" "\<not> cl_closed closed cl" "ttl_ok now ttl" "now \<le> t"
  then obtain s where s: "cl_state cl = Some s" "inv s" by (auto elim: cl_invE)
  moreover have "-1 \<le> ttl" using a(3) by (simp add: ttl_ok_def)
  ultimately show "cl_view view t (snd (SetWithTTLAndCtx (client_handler H first) now (Some k) (Some v) ttl cl)) k =
      (if lives now ttl t then Some (stored v) else None)"
    using a set_view [OF s(2), of now ttl t k v]
    by (simp add: client_handler_def cl_ops [OF s(1)] cl_closed_def cl_view_def)
qed

end

section \<open>Embedding a handler\<close>

text \<open>A handler \<open>H'\<close> on a larger state that acts as \<open>H\<close> on the states \<open>C s\<close>.\<close>

definition acts_as :: "('s \<Rightarrow> 't) \<Rightarrow> ('s, 'w) handler \<Rightarrow> ('t, 'w) handler \<Rightarrow> bool" where
  "acts_as C H H' \<longleftrightarrow>
     (\<forall>now key s. GetWithCtx H' now key (C s) = lift C (GetWithCtx H now key s)) \<and>
     (\<forall>now key value s. SetWithCtx H' now key value (C s) = lift C (SetWithCtx H now key value s)) \<and>
     (\<forall>now key value ttl s. SetWithTTLAndCtx H' now key value ttl (C s) = lift C (SetWithTTLAndCtx H now key value ttl s)) \<and>
     (\<forall>key s. DelWithCtx H' key (C s) = lift C (DelWithCtx H key s)) \<and>
     (\<forall>s. CloseH H' (C s) = lift C (CloseH H s))"

definition keeps_flag :: "('t \<Rightarrow> bool) \<Rightarrow> ('t, 'w) handler \<Rightarrow> bool" where
  "keeps_flag closed H \<longleftrightarrow>
     (\<forall>now key x. closed (snd (GetWithCtx H now key x)) = closed x) \<and>
     (\<forall>now key value ttl x. closed (snd (SetWithTTLAndCtx H now key value ttl x)) = closed x) \<and>
     (\<forall>key x. closed (snd (DelWithCtx H key x)) = closed x)"

context cache_core
begin

lemma embed_core:
  assumes "acts_as C H H'" "keeps_flag closed' H'" "\<And>x. inv' x \<Longrightarrow> \<exists>s. x = C s" "\<And>s. inv' (C s) = inv s"
    and "\<And>s. closed' (C s) = closed s" "\<And>t s. view' t (C s) = view t s"
  shows "cache_core H' inv' closed' view' stored"
proof -
  have ops: "GetWithCtx H' now key (C s) = lift C (GetWithCtx H now key s)"
    "SetWithCtx H' now key value (C s) = lift C (SetWithCtx H now key value s)"
    "SetWithTTLAndCtx H' now key value ttl (C s) = lift C (SetWithTTLAndCtx H now key value ttl s)"
    "DelWithCtx H' key (C s) = lift C (DelWithCtx H key s)" "CloseH H' (C s) = lift C (CloseH H s)"
    for now key "value" ttl s using assms(1) by (simp_all add: acts_as_def)
  have E: "inv' x \<Longrightarrow> (\<And>s. x = C s \<Longrightarrow> inv s \<Longrightarrow> P) \<Longrightarrow> P" for x P using assms(3,4) by metis
  show ?thesis
  proof (unfold_locales, goal_cases)
    case (7 x key "value" ttl now)
    then obtain s where s: "x = C s" "inv s" by (auto elim: E)
    with set_err [OF s(2), of key "value" ttl now] 7 show ?case by (auto simp: ops assms(4-6) lift_def)
  next
    case (11 x now ttl t k v)
    then obtain s where s: "x = C s" "inv s" by (auto elim: E)
    with set_weak [OF s(2) _ 11(3,4), of k v] 11 show ?case by (simp add: ops assms(4-6))
  next
    case (12 x k' k t now "value" ttl)
    then obtain s where s: "x = C s" "inv s" by (auto elim: E)
    with set_other [OF s(2) 12(2), of t now "value" ttl] show ?case by (simp add: ops assms(4-6))
  next
    case (14 x key)
    then obtain s where s: "x = C s" "inv s" by (auto elim: E)
    with del_err [OF s(2), of key] 14 show ?case by (auto simp: ops assms(4-6) lift_def)
  qed (use assms(2) in \<open>auto simp: keeps_flag_def ops assms(4-6) get_nil get_closed get_open get_inv get_view set_ok set_inv
      set_no_ttl del_ok del_inv del_view close_inv close_flag lift_def elim!: E\<close>)
qed

end

context cache_handler
begin

lemma embed_full:
  assumes "acts_as C H H'" "keeps_flag closed' H'" "\<And>x. inv' x \<Longrightarrow> \<exists>s. x = C s" "\<And>s. inv' (C s) = inv s"
    and "\<And>s. closed' (C s) = closed s" "\<And>t s. view' t (C s) = view t s"
  shows "cache_handler H' inv' closed' view' stored"
proof (intro cache_handler.intro cache_handler_axioms.intro)
  show "cache_core H' inv' closed' view' stored" by (rule embed_core [OF assms])
  fix x now ttl t k v
  assume a: "inv' x" "\<not> closed' x" "ttl_ok now ttl" "now \<le> t"
  then obtain s where "x = C s" using assms(3) by blast
  with a set_view [of s now ttl t k v] assms show "view' t (snd (SetWithTTLAndCtx H' now (Some k) (Some v) ttl x)) k =
      (if lives now ttl t then Some (stored v) else None)"
    by (simp add: acts_as_def)
qed

end

section \<open>The dispatch keeps the contract\<close>

fun any_closed :: "('r, 'd) any_cache \<Rightarrow> bool" where
  "any_closed (HLRU h) = lru_closed h"
| "any_closed (HOptimized h) = opt_closed h"
| "any_closed (HExpiring h) = ex_closed h"
| "any_closed _ = False"

fun any_view :: "time \<Rightarrow> ('r, 'd) any_cache \<Rightarrow> go_string \<Rightarrow> slice option" where
  "any_view t (HLRU h) = lru_view t h"
| "any_view t (HOptimized h) = opt_view t h"
| "any_view t (HExpiring h) = ex_view t h"
| "any_view t _ = Map.empty"

fun any_lru :: "('r, 'd) any_cache \<Rightarrow> bool" where
  "any_lru (HLRU h) = lru_inv h" | "any_lru _ = False"

fun any_opt :: "('r, 'd) any_cache \<Rightarrow> bool" where
  "any_opt (HOptimized h) = opt_inv h" | "any_opt _ = False"

fun any_ex :: "('r, 'd) any_cache \<Rightarrow> bool" where
  "any_ex (HExpiring h) = ex_inv h" | "any_ex _ = False"

abbreviation anyH :: "nat \<Rightarrow> ('r, unit) handler \<Rightarrow> ('d, unit) handler \<Rightarrow> (('r, 'd) any_cache, unit) handler" where
  "anyH pick HR HD \<equiv> any_handler pick HR HD"

lemma any_acts:
  "acts_as HLRU lruH (anyH pick HR HD)" "acts_as HOptimized (optH pick) (anyH pick HR HD)" "acts_as HExpiring exH (anyH pick HR HD)"
  by (simp_all add: acts_as_def any_handler_def any_of_handlers_def)

lemma any_flags: "keeps_flag any_closed (anyH pick HR HD)"
proof -
  have "any_closed (snd (GetWithCtx (anyH pick HR HD) now key x)) = any_closed x"
    "any_closed (snd (SetWithTTLAndCtx (anyH pick HR HD) now key value ttl x)) = any_closed x"
    "any_closed (snd (DelWithCtx (anyH pick HR HD) key x)) = any_closed x" for now key "value" ttl x
    by (cases x; simp add: lru.get_flag opt.get_flag ex.get_flag lru.set_flag opt.set_flag ex.set_flag
        lru.del_flag opt.del_flag ex.del_flag any_handler_def any_of_handlers_def)+
  then show ?thesis by (simp add: keeps_flag_def)
qed

lemma any_only:
  "any_lru x \<Longrightarrow> \<exists>l. x = HLRU l" "any_opt x \<Longrightarrow> \<exists>h. x = HOptimized h" "any_ex x \<Longrightarrow> \<exists>h. x = HExpiring h"
  by (cases x; simp)+

interpretation any_lru: cache_handler "anyH pick HR HD" any_lru any_closed any_view "\<lambda>v. copyBytes (Some v)"
  by (rule lru.embed_full [OF any_acts(1) any_flags any_only(1)]) simp_all

interpretation any_ex: cache_handler "anyH pick HR HD" any_ex any_closed any_view Some
  by (rule ex.embed_full [OF any_acts(3) any_flags any_only(3)]) simp_all

interpretation any_opt: cache_core "anyH pick HR HD" any_opt any_closed any_view Some
  by (rule opt.embed_core [OF any_acts(2) any_flags any_only(2)]) simp_all

text \<open>The clients of the three caches.\<close>

interpretation client_lru: cache_handler "client_handler (anyH pick HR HD) first"
  "cl_inv any_lru" "cl_closed any_closed" "cl_view any_view" "\<lambda>v. copyBytes (Some v)"
  by (rule any_lru.client_full)

interpretation client_ex: cache_handler "client_handler (anyH pick HR HD) first"
  "cl_inv any_ex" "cl_closed any_closed" "cl_view any_view" Some
  by (rule any_ex.client_full)

interpretation client_opt: cache_core "client_handler (anyH pick HR HD) first"
  "cl_inv any_opt" "cl_closed any_closed" "cl_view any_view" Some
  by (rule any_opt.client_core)

section \<open>Properties\<close>

lemma new_client_ok:
  assumes "r = new_client h cfg" "I h" "\<not> closed h"
  obtains cl where "r = Inr cl" "cl_state cl = Some h" "cl_inv I cl" "\<not> cl_closed closed cl"
proof -
  define cl where "cl = \<lparr>cl_ctxCache = Some (NewCtxCache (Some h)), cl_config = Some cfg\<rparr>"
  have "cl_state cl = Some h" by (simp add: cl_def cl_state_def NewCtxCache_def)
  with assms show thesis
    by (intro that [of cl]) (simp_all add: cl_inv_state cl_closed_def, simp add: new_client_def cl_def)
qed

lemma cfg_capacity: "cfg_Capacity (cfg_default_capacity cfg) = (if cfg_Capacity cfg \<le> 0 then 128 else cfg_Capacity cfg)"
  by (simp add: cfg_default_capacity_def)

text \<open>
  Construction dispatches on the type: an LRU client has the requested capacity or 128, an unknown type
  gives an LRU of 128 entries, an expiring one the requested interval or a minute, and every one of
  them is open and satisfies the invariant of its cache. No configuration, or a Redis one without
  options, is an error; the errors of the external constructors are passed on.
\<close>
theorem client_new:
  assumes "ifLeZero_law (ext_IfLeZero ext)" "cfg_Capacity cfg + 256 \<le> max_int64"
  shows "(cfg_Type cfg = CacheLRU \<or> cfg_Type cfg \<notin> {CacheLRUOptimized, CacheExpiring, CacheRistretto, CacheRedis} \<longrightarrow>
      (\<exists>cl h. NewClient ext (Some cfg) = Inr cl \<and> cl_inv any_lru cl \<and> \<not> cl_closed any_closed cl \<and> cl_state cl = Some (HLRU h) \<and>
         lru_maxEntries h = (if cfg_Type cfg = CacheLRU \<and> 0 < cfg_Capacity cfg then cfg_Capacity cfg else 128))) \<and>
    (cfg_Type cfg = CacheLRUOptimized \<longrightarrow>
      (\<exists>cl h. NewClient ext (Some cfg) = Inr cl \<and> cl_inv any_opt cl \<and> \<not> cl_closed any_closed cl \<and>
         cl_state cl = Some (HOptimized h) \<and> opt_maxEntries h = (if 0 < cfg_Capacity cfg then cfg_Capacity cfg else 128))) \<and>
    (cfg_Type cfg = CacheExpiring \<longrightarrow>
      (\<exists>cl h. NewClient ext (Some cfg) = Inr cl \<and> cl_inv any_ex cl \<and> \<not> cl_closed any_closed cl \<and>
         cl_state cl = Some (HExpiring h) \<and>
         ex_interval h = (if 0 < cfg_CleanupInterval cfg then cfg_CleanupInterval cfg else minute))) \<and>
    (cfg_Type cfg = CacheRedis \<and> cfg_RedisConfig cfg = None \<longrightarrow> NewClient ext (Some cfg) = Inl ErrInvalidValue) \<and>
    NewClient ext None = Inl ErrInvalidValue"
proof (intro conjI impI)
  have f: "ext_IfLeZero ext v d = (if v \<le> 0 then d else v)" for v d using assms(1) by (rule ifLeZero_lawD)
  show "\<exists>cl h. NewClient ext (Some cfg) = Inr cl \<and> cl_inv any_lru cl \<and> \<not> cl_closed any_closed cl \<and> cl_state cl = Some (HLRU h) \<and>
         lru_maxEntries h = (if cfg_Type cfg = CacheLRU \<and> 0 < cfg_Capacity cfg then cfg_Capacity cfg else 128)"
    if t: "cfg_Type cfg = CacheLRU \<or> cfg_Type cfg \<notin> {CacheLRUOptimized, CacheExpiring, CacheRistretto, CacheRedis}"
  proof -
    define n where "n = (if cfg_Type cfg = CacheLRU \<and> 0 < cfg_Capacity cfg then cfg_Capacity cfg else 128)"
    define cfg' where "cfg' = (if cfg_Type cfg = CacheLRU then cfg_default_capacity cfg else cfg)"
    define h where "h = NewLRUHandler (ext_IfLeZero ext) n"
    have eq: "NewClient ext (Some cfg) = new_client (HLRU h) cfg'"
      using t by (auto simp: NewClient_def n_def cfg'_def h_def Let_def cfg_capacity cache_types)
    have "0 < n" by (simp add: n_def)
    then have h: "lru_inv h" "\<not> lru_closed h" "lru_maxEntries h = n"
      unfolding h_def by (simp_all only: NewLRUHandler_inv) (simp_all add: NewLRUHandler_def f)
    obtain cl where "NewClient ext (Some cfg) = Inr cl" "cl_state cl = Some (HLRU h)"
      "cl_inv any_lru cl" "\<not> cl_closed any_closed cl"
      using new_client_ok [OF eq, of any_lru any_closed] h by auto
    then show ?thesis using h by (intro exI [of _ cl] exI [of _ h]) (simp add: n_def)
  qed
  show "\<exists>cl h. NewClient ext (Some cfg) = Inr cl \<and> cl_inv any_opt cl \<and> \<not> cl_closed any_closed cl \<and>
         cl_state cl = Some (HOptimized h) \<and> opt_maxEntries h = (if 0 < cfg_Capacity cfg then cfg_Capacity cfg else 128)"
    if t: "cfg_Type cfg = CacheLRUOptimized"
  proof -
    define n where "n = cfg_Capacity (cfg_default_capacity cfg)"
    have "n + 256 \<le> max_int64" "0 < n" using assms(2) by (simp_all add: n_def cfg_capacity max_int64_def)
    then obtain h where h: "NewLRUOptimizedHandler (ext_IfLeZero ext) (ext_GOMAXPROCS ext) n = Some h" "opt_inv h" "\<not> opt_closed h"
      "opt_maxEntries h = n" using opt_new_ok [OF assms(1), of n "ext_GOMAXPROCS ext"] by auto
    then have eq: "NewClient ext (Some cfg) = new_client (HOptimized h) (cfg_default_capacity cfg)"
      using t by (simp add: NewClient_def Let_def n_def cache_types)
    moreover obtain cl where "NewClient ext (Some cfg) = Inr cl" "cl_state cl = Some (HOptimized h)"
      "cl_inv any_opt cl" "\<not> cl_closed any_closed cl" 
      using new_client_ok [OF eq, of any_opt any_closed] h by auto
    ultimately show ?thesis using h by (intro exI [of _ cl] exI [of _ h]) (simp add: n_def cfg_capacity)
  qed
  show "\<exists>cl h. NewClient ext (Some cfg) = Inr cl \<and> cl_inv any_ex cl \<and> \<not> cl_closed any_closed cl \<and>
         cl_state cl = Some (HExpiring h) \<and>
         ex_interval h = (if 0 < cfg_CleanupInterval cfg then cfg_CleanupInterval cfg else minute)"
    if t: "cfg_Type cfg = CacheExpiring"
  proof -
    define h where "h = NewExpiringHandler (ext_IfLeZero ext) (ext_IfLeZero ext (cfg_CleanupInterval cfg) minute)"
    have eq: "NewClient ext (Some cfg) = new_client (HExpiring h) cfg"
      using t by (simp add: NewClient_def Let_def h_def cache_types)
    moreover have h: "ex_inv h" "\<not> ex_closed h" by (simp_all add: h_def NewExpiringHandler_inv)
    moreover have "ex_interval h = (if 0 < cfg_CleanupInterval cfg then cfg_CleanupInterval cfg else minute)"
      by (simp add: h_def NewExpiringHandler_def f minute_def)
    moreover obtain cl where "NewClient ext (Some cfg) = Inr cl" "cl_state cl = Some (HExpiring h)"
      "cl_inv any_ex cl" "\<not> cl_closed any_closed cl" 
      using new_client_ok [OF eq, of any_ex any_closed] h by auto
    ultimately show ?thesis by (intro exI [of _ cl] exI [of _ h]) simp
  qed
qed (simp_all add: NewClient_def cache_types)

definition ext_demo :: "(unit, unit, unit, unit) externals" where
  "ext_demo = \<lparr>ext_IfLeZero = (\<lambda>v d. if v \<le> 0 then d else v), ext_GOMAXPROCS = 8,
     ext_NewRistretto = (\<lambda>_. Inl ErrUnavailable), ext_NewRedis = (\<lambda>_. Inl ErrUnavailable)\<rparr>"

lemma client_new_witness:
  "\<exists>cl h. NewClient ext_demo (Some (cfg_of CacheLRU)) = Inr cl \<and> cl_state cl = Some (HLRU h) \<and> lru_maxEntries h = 128"
  using client_new [of ext_demo "cfg_of CacheLRU"] ifLeZero_law_example
  by (auto simp: ext_demo_def cfg_of_def max_int64_def)

text \<open>
  C24: A client keeps the contract of the handler it wraps, whatever handler that is, through the checks
  of \<open>CtxCache\<close> and the dispatch, for calls whose context is not done: when the handler keeps
  \<open>cache_core\<close>, a written value is read back until its deadline and not after, unless it was evicted,
  and always when the handler keeps every accepted write (\<open>cache_handler\<close>); another key reads as
  before or was evicted, a deleted key is gone, and a closed client answers nothing.
\<close>
theorem client_contract:
  fixes H :: "('s, 'w) handler"
  assumes "cache_core H I C V st" "cl_inv I cl" "\<not> cl_closed C cl" "ttl_ok now ttl" "now \<le> t" "k' \<noteq> k"
  shows "fst (cl_GetWithCtx H None t (Some k) (snd (cl_SetWithTTLAndCtx H None now (Some k) (Some v) ttl cl))) \<in>
      {Inl ErrNotFound, found (if lives now ttl t then Some (st v) else None)} \<and>
    (cache_handler H I C V st \<longrightarrow>
      fst (cl_GetWithCtx H None t (Some k) (snd (cl_SetWithTTLAndCtx H None now (Some k) (Some v) ttl cl))) =
        found (if lives now ttl t then Some (st v) else None)) \<and>
    fst (cl_GetWithCtx H None t (Some k') (snd (cl_SetWithTTLAndCtx H None now (Some k) (Some v) ttl cl))) \<in>
      {Inl ErrNotFound, fst (cl_GetWithCtx H None t (Some k') cl)} \<and>
    fst (cl_GetWithCtx H None t (Some k') (snd (cl_DelWithCtx H None (Some k) cl))) =
      fst (cl_GetWithCtx H None t (Some k') cl) \<and>
    fst (cl_GetWithCtx H None t (Some k) (snd (cl_DelWithCtx H None (Some k) cl))) = Inl ErrNotFound \<and>
    fst (cl_GetWithCtx H None t (Some k) (snd (cl_Close H cl))) = Inl ErrClosed"
proof -
  note core = cache_core.client_core [OF assms(1), of undefined]
  have "cache_handler H I C V st \<Longrightarrow>
      fst (cl_GetWithCtx H None t (Some k) (snd (cl_SetWithTTLAndCtx H None now (Some k) (Some v) ttl cl))) =
        found (if lives now ttl t then Some (st v) else None)"
    using cache_handler.get_after_set [OF cache_handler.client_full, of H I C V st cl now ttl t undefined k v] assms
    by (simp add: client_handler_def)
  then show ?thesis
    using cache_core.get_after_set_weak [OF core assms(2-5), of k v]
      cache_core.get_other_after_set [OF core assms(2,3,6), of t now "Some v" ttl]
      cache_core.get_after_del [OF core assms(2,3), of t k' k] cache_core.get_after_del [OF core assms(2,3), of t k k]
      cache_core.get_after_close [OF core assms(2), of t k] cache_core.get_open [OF core assms(2,3), of t k'] assms(6)
    by (simp add: client_handler_def)
qed

definition cl_demo :: "((ExpiringHandler, ExpiringHandler) any_cache, unit, unit) Client" where
  "cl_demo = \<lparr>cl_ctxCache = Some (NewCtxCache (Some (HLRU (NewLRUHandler (\<lambda>v d. v) 2)))), cl_config = None\<rparr>"

lemma cl_demo_ok:
  "cl_inv any_lru cl_demo" "\<not> cl_closed any_closed cl_demo" "cl_state cl_demo = Some (HLRU (NewLRUHandler (\<lambda>v d. v) 2))"
  by (simp_all add: cl_inv_state cl_closed_def cl_state_def cl_demo_def NewCtxCache_def NewLRUHandler_inv)
    (simp add: NewLRUHandler_def)

lemma client_contract_witness:
  "fst (cl_GetWithCtx (anyH 0 exH exH) None 8 (Some [1])
     (snd (cl_SetWithTTLAndCtx (anyH 0 exH exH) None 5 (Some [1]) (Some [7]) 3 cl_demo))) = Inr (Some [7])"
proof -
  have "ttl_ok 5 3" by (simp add: ttl_ok_def max_int64_def)
  from client_contract [OF any_lru.cache_core_axioms cl_demo_ok(1,2) this, of 8 "[2]" "[1]" 0 exH exH "[7]"]
    any_lru.cache_handler_axioms [of 0 exH exH]
  show ?thesis by (simp add: lives_def copyBytes_def MaxValueSize_def)
qed

text \<open>
  A context that is done stops every operation of a client before the handler is reached and gives
  its error for every key of a batch; only \<open>GetTTL\<close> does not look at it and answers all the same.
\<close>
theorem client_done_context:
  assumes "cl_state cl = Some s"
  shows "cl_GetWithCtx H (Some e) now (Some k) cl = (Inl e, cl) \<and>
    cl_SetWithCtx H (Some e) now (Some k) (Some v) cl = (Some e, cl) \<and>
    cl_DelWithCtx H (Some e) (Some k) cl = (Some e, cl) \<and>
    cl_BatchGetWithCtx H (Some e) rd keys cl = (Inr (replicate (length keys) None, replicate (length keys) (Some e)), cl) \<and>
    fst (cl_GetTTLWithCtx H now (Some k) cl) = fst (GetTTLWithCtx H now (Some k) s)"
  using assms by (simp add: cl_ops cl_BatchGetWithCtx_def)

lemma client_done_context_witness:
  "cl_GetWithCtx (anyH 0 exH exH) (Some CtxCanceled) 5 (Some [1]) cl_demo = (Inl CtxCanceled, cl_demo)"
  using client_done_context [OF cl_demo_ok(3), of "anyH 0 exH exH" CtxCanceled 5 "[1]"] by blast

end
