(* ===== verification/Outside.thy ===== *)
theory Outside
  imports Cachex_Base "HOL-Library.Multiset"
begin

text \<open>
  What the components behind a Redis server take from outside the repository, as parameters: the
  helpers of \<open>go-toolbox/pkg/mathx\<close>, the JSON form of a Go map with the key and value types of a
  generic cache, and the commands of the \<open>go-redis\<close> client on strings. What the code relies on are
  the laws below, which state their documented behaviour; each has a reference instance.

  A Go map is the list of its entries, with distinct keys, in the order in which a \<open>range\<close> loop
  visits it. The outside world (the server and every source of data) is a value of any type.
\<close>

section \<open>The helpers of mathx\<close>

record mathx =
  IF :: "bool \<Rightarrow> int \<Rightarrow> int \<Rightarrow> int"
  IfNotZero :: "int \<Rightarrow> int \<Rightarrow> int"
  IfNotEmpty :: "string \<Rightarrow> string \<Rightarrow> string"
  IfEmpty :: "string \<Rightarrow> string \<Rightarrow> string"
  IfClamp :: "int \<Rightarrow> int \<Rightarrow> int \<Rightarrow> int"
  IfLeZero :: "int \<Rightarrow> int \<Rightarrow> int"

definition mathx_laws :: "mathx \<Rightarrow> bool" where
  "mathx_laws X \<longleftrightarrow>
     (\<forall>c a b. IF X c a b = (if c then a else b)) \<and>
     (\<forall>v d. IfNotZero X v d = (if v \<noteq> 0 then v else d)) \<and>
     (\<forall>v d. IfNotEmpty X v d = (if v \<noteq> [] then v else d)) \<and>
     (\<forall>v d. IfEmpty X v d = (if v = [] then d else v)) \<and>
     (\<forall>v lo hi. IfClamp X v lo hi = (if v < lo then lo else if hi < v then hi else v)) \<and>
     ifLeZero_law (IfLeZero X)"

lemma mathx_lawsD:
  assumes "mathx_laws X"
  shows "IfNotZero X v d = (if v \<noteq> 0 then v else d)" "IfNotEmpty X s e = (if s \<noteq> [] then s else e)"
    "IfClamp X v lo hi = (if v < lo then lo else if hi < v then hi else v)"
    "IfLeZero X v d = (if v \<le> 0 then d else v)" "IF X c a b = (if c then a else b)"
    "IfEmpty X s e = (if s = [] then e else s)"
  using assms by (simp_all add: mathx_laws_def ifLeZero_law_def)

definition mathx_ref :: mathx where
  "mathx_ref = \<lparr>IF = (\<lambda>c a b. if c then a else b), IfNotZero = (\<lambda>v d. if v \<noteq> 0 then v else d), IfNotEmpty = (\<lambda>v d. if v \<noteq> [] then v else d),
     IfEmpty = (\<lambda>v d. if v = [] then d else v),
     IfClamp = (\<lambda>v lo hi. if v < lo then lo else if hi < v then hi else v),
     IfLeZero = (\<lambda>v d. if v \<le> 0 then d else v)\<rparr>"

lemma mathx_ref_laws: "mathx_laws mathx_ref"
  by (simp add: mathx_laws_def mathx_ref_def ifLeZero_law_def)

section \<open>Go maps\<close>

type_synonym ('k, 'v) go_map = "('k \<times> 'v) list"

abbreviation keys_of :: "('k, 'v) go_map \<Rightarrow> 'k list" where
  "keys_of m \<equiv> map fst m"

lemma map_of_in_keys: "map_of m k \<noteq> None \<longleftrightarrow> k \<in> set (keys_of m)"
  by (auto simp: map_of_eq_None_iff)

lemma map_of_not_None_keys [simp]: "k \<in> fst ` set m \<Longrightarrow> map_of m k \<noteq> None"
  by (simp add: map_of_eq_None_iff)

lemma same_map_same_keys: "map_of m = map_of m' \<Longrightarrow> set (keys_of m) = set (keys_of m')"
  by (metis dom_map_of_conv_image_fst list.set_map)

lemma same_map_same_size:
  assumes "map_of m = map_of m'" "distinct (keys_of m)" "distinct (keys_of m')"
  shows "length m = length m'"
  using same_map_same_keys [OF assms(1)] assms(2,3) by (metis distinct_card length_map)

section \<open>Goroutines\<close>

text \<open>A \<open>select\<close> takes one of its ready cases, the one \<open>pick\<close> says; \<^const>\<open>None\<close> when it blocks.\<close>

definition go_select :: "(bool \<times> 'c) list \<Rightarrow> nat \<Rightarrow> 'c option" where
  "go_select cases pick =
     (let ready = map snd (filter fst cases)
      in if ready = [] then None else Some (ready ! (pick mod length ready)))"


lemma mset_concat_update:
  assumes "i < length xs"
  shows "mset (concat (map f (xs[i := y]))) + mset (f (xs ! i)) = mset (concat (map f xs)) + mset (f y)"
  using assms by (induction xs arbitrary: i) (auto simp: nth_Cons ac_simps split: nat.split)

lemma map_update_same: "i < length xs \<Longrightarrow> f y = f (xs ! i) \<Longrightarrow> map f (xs[i := y]) = map f xs"
  by (metis list_update_id map_update nth_map)

section \<open>The JSON form of a map\<close>

record ('k, 'v) json_codec =
  Marshal :: "('k, 'v) go_map \<Rightarrow> bytes go_result"
  Unmarshal :: "bytes \<Rightarrow> ('k, 'v) go_map option"

text \<open>The law of the key and value types whose JSON form keeps every value.\<close>

definition json_law :: "('k, 'v) json_codec \<Rightarrow> bool" where
  "json_law J \<longleftrightarrow> (\<forall>m. distinct (keys_of m) \<longrightarrow>
     (\<exists>b m'. Marshal J m = Inr b \<and> b \<noteq> [] \<and> Unmarshal J b = Some m' \<and>
        distinct (keys_of m') \<and> map_of m' = map_of m))"

lemma json_lawE:
  assumes "json_law J" "distinct (keys_of m)"
  obtains b m' where "Marshal J m = Inr b" "b \<noteq> []" "Unmarshal J b = Some m'"
    "distinct (keys_of m')" "map_of m' = map_of m"
  using assms unfolding json_law_def by blast

text \<open>A map decoded from JSON has distinct keys.\<close>

definition json_maps :: "('k, 'v) json_codec \<Rightarrow> bool" where
  "json_maps J \<longleftrightarrow> (\<forall>b m. Unmarshal J b = Some m \<longrightarrow> distinct (keys_of m))"

lemma json_mapsD: "json_maps J \<Longrightarrow> Unmarshal J b = Some m \<Longrightarrow> distinct (keys_of m)"
  by (simp add: json_maps_def)

text \<open>The reference: a tag, then every key byte and value byte in turn.\<close>

fun pairs_of :: "bytes \<Rightarrow> (8 word, 8 word) go_map" where
  "pairs_of (k # v # bs) = (k, v) # pairs_of bs"
| "pairs_of bs = []"

definition json_ref :: "(8 word, 8 word) json_codec" where
  "json_ref = \<lparr>Marshal = (\<lambda>m. Inr (123 # concat (map (\<lambda>(k, v). [k, v]) m))),
     Unmarshal = (\<lambda>b. let m = pairs_of (tl b) in if b \<noteq> [] \<and> distinct (keys_of m) then Some m else None)\<rparr>"

lemma pairs_of_concat [simp]: "pairs_of (concat (map (\<lambda>(k, v). [k, v]) m)) = m"
  by (induction m) auto

lemma json_ref_laws: "json_law json_ref" "json_maps json_ref"
  by (auto simp: json_law_def json_maps_def json_ref_def Let_def split: if_splits)

section \<open>Redis requests and keys\<close>

text \<open>Whether a request reaches the server, and whether its answer comes back. A Lua script runs on the
  server as a whole.\<close>

datatype delivery = Delivered | Lost go_error | NoReply go_error

definition deliver :: "delivery \<Rightarrow> ('d \<Rightarrow> 'r go_result \<times> 'd) \<Rightarrow> 'd \<Rightarrow> 'r go_result \<times> 'd" where
  "deliver net script d =
     (case net of
        Lost err \<Rightarrow> (Inl err, d)
      | NoReply err \<Rightarrow> (Inl err, snd (script d))
      | Delivered \<Rightarrow> script d)"

lemma deliver_Delivered [simp]: "deliver Delivered script d = script d"
  by (simp add: deliver_def)

text \<open>A value under a key with its deadline; the key is gone from its deadline on.\<close>

definition live :: "time \<Rightarrow> ('a \<times> time option) option \<Rightarrow> ('a \<times> time option) option" where
  "live now e =
     (case e of None \<Rightarrow> None | Some (v, None) \<Rightarrow> Some (v, None)
      | Some (v, Some t) \<Rightarrow> if now < t then Some (v, Some t) else None)"

lemma live_simps [simp]: "live now None = None" "live now (Some (v, None)) = Some (v, None)"
    "live now (Some (v, Some t)) = (if now < t then Some (v, Some t) else None)"
  by (simp_all add: live_def)

lemma live_SomeD: "live now e = Some p \<Longrightarrow> e = Some p"
  by (auto simp: live_def split: option.splits if_splits)

text \<open>The key has the value \<open>v\<close> and stays at least until \<open>T\<close>.\<close>

definition stays :: "time \<Rightarrow> 'a \<Rightarrow> ('a \<times> time option) option \<Rightarrow> bool" where
  "stays T v e \<longleftrightarrow> (\<exists>dl. e = Some (v, dl) \<and> (\<forall>t. dl = Some t \<longrightarrow> T \<le> t))"

lemma live_stays: "stays T v e \<Longrightarrow> now < T \<Longrightarrow> \<exists>dl. live now e = Some (v, dl) \<and> e = Some (v, dl)"
  by (auto simp: stays_def live_def split: option.splits)

section \<open>Redis strings\<close>

text \<open>\<open>redis.Nil\<close>, the error of a missing key.\<close>

definition RedisNil :: go_error where
  "RedisNil = ExtError 0"

text \<open>\<open>redis.ErrClosed\<close>, the error of every command of a closed client, and \<open>errors.Is\<close>.\<close>

definition RedisClosed :: go_error where
  "RedisClosed = ExtError 1"

fun errors_Is :: "go_error \<Rightarrow> go_error \<Rightarrow> bool" where
  "errors_Is (Wrapped s e) target \<longleftrightarrow> Wrapped s e = target \<or> errors_Is e target"
| "errors_Is e target \<longleftrightarrow> e = target"

record 'd redis_kv =
  kv_Get :: "time \<Rightarrow> string \<Rightarrow> 'd \<Rightarrow> bytes go_result \<times> 'd"
  kv_SetEx :: "time \<Rightarrow> string \<Rightarrow> bytes \<Rightarrow> duration \<Rightarrow> 'd \<Rightarrow> go_error option \<times> 'd"
  kv_Del :: "time \<Rightarrow> string \<Rightarrow> 'd \<Rightarrow> go_error option \<times> 'd"
  kv_TTL :: "time \<Rightarrow> string \<Rightarrow> 'd \<Rightarrow> duration go_result \<times> 'd"

text \<open>
  \<open>up\<close> are the states in which the server answers, \<open>val t d k\<close> is the value of the key at time \<open>t\<close>
  if no command comes in between. A time to live of \<open>SETEX\<close> is a whole number of seconds.
\<close>

definition kv_get_law :: "'d redis_kv \<Rightarrow> ('d \<Rightarrow> bool) \<Rightarrow> (time \<Rightarrow> 'd \<Rightarrow> string \<Rightarrow> bytes option) \<Rightarrow> bool" where
  "kv_get_law R up val \<longleftrightarrow> (\<forall>now k d. up d \<longrightarrow>
     fst (kv_Get R now k d) = (case val now d k of None \<Rightarrow> Inl RedisNil | Some b \<Rightarrow> Inr b) \<and>
     up (snd (kv_Get R now k d)) \<and> (\<forall>t \<ge> now. val t (snd (kv_Get R now k d)) = val t d))"

definition kv_set_law :: "'d redis_kv \<Rightarrow> ('d \<Rightarrow> bool) \<Rightarrow> (time \<Rightarrow> 'd \<Rightarrow> string \<Rightarrow> bytes option) \<Rightarrow> bool" where
  "kv_set_law R up val \<longleftrightarrow> (\<forall>now k b ttl d. up d \<longrightarrow> 0 < ttl \<longrightarrow> ttl mod second = 0 \<longrightarrow>
     fst (kv_SetEx R now k b ttl d) = None \<and> up (snd (kv_SetEx R now k b ttl d)) \<and>
     (\<forall>t \<ge> now. val t (snd (kv_SetEx R now k b ttl d)) = (val t d)(k := if t < now + ttl then Some b else None)))"

definition kv_del_law :: "'d redis_kv \<Rightarrow> ('d \<Rightarrow> bool) \<Rightarrow> (time \<Rightarrow> 'd \<Rightarrow> string \<Rightarrow> bytes option) \<Rightarrow> bool" where
  "kv_del_law R up val \<longleftrightarrow> (\<forall>now k d. up d \<longrightarrow>
     fst (kv_Del R now k d) = None \<and> up (snd (kv_Del R now k d)) \<and>
     (\<forall>t \<ge> now. val t (snd (kv_Del R now k d)) = (val t d)(k := None)))"

definition kv_law :: "'d redis_kv \<Rightarrow> ('d \<Rightarrow> bool) \<Rightarrow> (time \<Rightarrow> 'd \<Rightarrow> string \<Rightarrow> bytes option) \<Rightarrow> bool" where
  "kv_law R up val \<longleftrightarrow> kv_get_law R up val \<and> kv_set_law R up val \<and> kv_del_law R up val"

lemma kv_law_Get:
  assumes "kv_law R up val" "up d"
  shows "fst (kv_Get R now k d) = (case val now d k of None \<Rightarrow> Inl RedisNil | Some b \<Rightarrow> Inr b)"
    "up (snd (kv_Get R now k d))" "now \<le> t \<Longrightarrow> val t (snd (kv_Get R now k d)) = val t d"
  using assms by (simp_all add: kv_law_def kv_get_law_def)

lemma kv_law_SetEx:
  assumes "kv_law R up val" "up d" "0 < ttl" "ttl mod second = 0"
  shows "fst (kv_SetEx R now k b ttl d) = None" "up (snd (kv_SetEx R now k b ttl d))"
    "now \<le> t \<Longrightarrow> val t (snd (kv_SetEx R now k b ttl d)) = (val t d)(k := if t < now + ttl then Some b else None)"
  using assms by (simp_all add: kv_law_def kv_set_law_def)

lemma kv_law_Del:
  assumes "kv_law R up val" "up d"
  shows "fst (kv_Del R now k d) = None" "up (snd (kv_Del R now k d))"
    "now \<le> t \<Longrightarrow> val t (snd (kv_Del R now k d)) = (val t d)(k := None)"
  using assms by (simp_all add: kv_law_def kv_del_law_def)

text \<open>The reference server: each key with its value and deadline.\<close>

type_synonym kv_store = "(string \<times> bytes \<times> time) list"

definition kv_value :: "time \<Rightarrow> kv_store \<Rightarrow> string \<Rightarrow> bytes option" where
  "kv_value t d k = (case map_of d k of None \<Rightarrow> None | Some (b, e) \<Rightarrow> if t < e then Some b else None)"

definition kv_ref :: "kv_store redis_kv" where
  "kv_ref = \<lparr>kv_Get = (\<lambda>now k d. (case kv_value now d k of None \<Rightarrow> Inl RedisNil | Some b \<Rightarrow> Inr b, d)),
     kv_SetEx = (\<lambda>now k b ttl d. (None, AList.update k (b, now + ttl) d)),
     kv_Del = (\<lambda>now k d. (None, AList.delete k d)),
     kv_TTL = (\<lambda>now k d. (case map_of d k of Some (b, e) \<Rightarrow> Inr (if now < e then e - now else -2) | None \<Rightarrow> Inr (-2), d))\<rparr>"

lemma kv_value_update: "kv_value t (AList.update k (b, e) d) = (kv_value t d)(k := if t < e then Some b else None)"
  by (rule ext) (simp add: kv_value_def update_conv')

lemma kv_value_delete: "kv_value t (AList.delete k d) = (kv_value t d)(k := None)"
  by (rule ext) (simp add: kv_value_def)

lemma kv_ref_law: "kv_law kv_ref (\<lambda>_. True) kv_value"
  by (simp add: kv_law_def kv_get_law_def kv_set_law_def kv_del_law_def kv_ref_def kv_value_update kv_value_delete)

end
