(* ===== verification/Hotkey.thy ===== *)
theory Hotkey
  imports Outside
begin

text \<open>
  \<open>HotKeyCache\<close> and \<open>HotKeyManager\<close> of \<open>hotkey.go\<close>: a whole Go map held in memory, saved in Redis
  under one key as JSON, and loaded from a data source. \<open>R\<close> is the Redis client, \<open>J\<close> the JSON form of
  the map, \<open>L\<close> the loader, \<open>d\<close> the outside world they act on; \<open>now\<close> is the clock of the call, which
  the server shares. The two goroutines are flags: one turn of their loops is \<open>hk_autoRefresh\<close> or
  \<open>hk_cleanupExpired\<close>, whose argument says which ready case the \<open>select\<close> took. \<open>Stop\<close> is the signal it
  gives and the condition it waits for. Logging is left out.
\<close>

record HotKeyConfig =
  hc_DefaultTTL :: duration
  hc_RefreshInterval :: duration
  hc_EnableAutoRefresh :: bool
  hc_Namespace :: string
  hc_MaxLocalCacheSize :: int

text \<open>\<open>DataLoader\<close> and its implementation by a query function.\<close>

type_synonym ('k, 'v, 'd) DataLoader = "'d \<Rightarrow> ('k, 'v) go_map go_result \<times> 'd"

record ('k, 'v, 'd) SQLDataLoader =
  QueryFunc :: "'d \<Rightarrow> ('k, 'v) go_map go_result \<times> 'd"

definition sql_Load :: "('k, 'v, 'd) SQLDataLoader \<Rightarrow> ('k, 'v, 'd) DataLoader" where
  "sql_Load s = QueryFunc s"

record ('k, 'v) HotKeyCache =
  hk_config :: HotKeyConfig
  hk_keyName :: string
  hk_redisKey :: string
  hk_localCache :: "('k, 'v) go_map"
  hk_lastRefreshTime :: "time option"
  hk_accessOrder :: "'k list"
  hk_stopped :: bool
  hk_refreshing :: bool
  hk_cleaning :: bool

definition hour :: duration where "hour = 3600000000000"
definition minutes :: "int \<Rightarrow> duration" where "minutes n = n * 60000000000"

text \<open>A ticker of a negative interval panics; the goroutine of the refresh then ends at once.\<close>

definition NewHotKeyCache :: "mathx \<Rightarrow> string \<Rightarrow> HotKeyConfig \<Rightarrow> ('k, 'v) HotKeyCache" where
  "NewHotKeyCache X keyName config0 =
     (let config = config0\<lparr>
            hc_DefaultTTL := IfNotZero X (hc_DefaultTTL config0) hour,
            hc_RefreshInterval := IfNotZero X (hc_RefreshInterval config0) (minutes 10),
            hc_Namespace := IfNotEmpty X (hc_Namespace config0) ''hotkey'',
            hc_MaxLocalCacheSize := IF X (0 < hc_MaxLocalCacheSize config0) (hc_MaxLocalCacheSize config0) 10000\<rparr>
      in \<lparr>hk_config = config, hk_keyName = keyName, hk_redisKey = hc_Namespace config @ '':'' @ keyName,
          hk_localCache = [], hk_lastRefreshTime = None, hk_accessOrder = [], hk_stopped = False,
          hk_refreshing = (hc_EnableAutoRefresh config \<and> 0 < hc_RefreshInterval config),
          hk_cleaning = True\<rparr>)"

section \<open>Loading and saving\<close>

text \<open>The critical section that takes over a whole map, with the order in which it was ranged over.\<close>

definition hk_replace :: "time \<Rightarrow> ('k, 'v) go_map \<Rightarrow> ('k, 'v) HotKeyCache \<Rightarrow> ('k, 'v) HotKeyCache" where
  "hk_replace now data h =
     h\<lparr>hk_localCache := data, hk_accessOrder := keys_of data, hk_lastRefreshTime := Some now\<rparr>"

text \<open>What Redis holds, where it can be read and decoded.\<close>

definition hk_cached :: "('k, 'v) json_codec \<Rightarrow> bytes go_result \<Rightarrow> ('k, 'v) go_map option" where
  "hk_cached J r = (case r of Inl _ \<Rightarrow> None | Inr s \<Rightarrow> if s \<noteq> [] then Unmarshal J s else None)"

definition hk_store ::
  "'d redis_kv \<Rightarrow> ('k, 'v) json_codec \<Rightarrow> time \<Rightarrow> ('k, 'v) go_map \<Rightarrow> ('k, 'v) HotKeyCache \<Rightarrow> 'd \<Rightarrow> 'd" where
  "hk_store R J now data h d =
     (case Marshal J data of
        Inl _ \<Rightarrow> d
      | Inr jsonData \<Rightarrow> snd (kv_SetEx R now (hk_redisKey h) jsonData (hc_DefaultTTL (hk_config h)) d))"

definition hk_LoadAll ::
  "'d redis_kv \<Rightarrow> ('k, 'v) json_codec \<Rightarrow> ('k, 'v, 'd) DataLoader \<Rightarrow> time \<Rightarrow> ('k, 'v) HotKeyCache \<Rightarrow> 'd \<Rightarrow>
   ('k, 'v) go_map go_result \<times> ('k, 'v) HotKeyCache \<times> 'd" where
  "hk_LoadAll R J L now h d =
     (case kv_Get R now (hk_redisKey h) d of
        (r, d1) \<Rightarrow>
          (case hk_cached J r of
             Some data \<Rightarrow> (Inr data, hk_replace now data h, d1)
           | None \<Rightarrow>
               (case L d1 of
                  (Inl err, d2) \<Rightarrow> (Inl (Wrapped ''failed to load data from source'' err), h, d2)
                | (Inr data, d2) \<Rightarrow>
                    if data \<noteq> [] then (Inr data, hk_replace now data h, hk_store R J now data h d2)
                    else (Inr data, h, d2))))"

definition hk_SaveToRedis ::
  "'d redis_kv \<Rightarrow> ('k, 'v) json_codec \<Rightarrow> time \<Rightarrow> ('k, 'v) HotKeyCache \<Rightarrow> 'd \<Rightarrow> go_error option \<times> 'd" where
  "hk_SaveToRedis R J now h d =
     (case Marshal J (hk_localCache h) of
        Inl err \<Rightarrow> (Some (Wrapped ''failed to marshal data'' err), d)
      | Inr jsonData \<Rightarrow> kv_SetEx R now (hk_redisKey h) jsonData (hc_DefaultTTL (hk_config h)) d)"

section \<open>Reading\<close>

definition hk_Get ::
  "'d redis_kv \<Rightarrow> ('k, 'v) json_codec \<Rightarrow> ('k, 'v, 'd) DataLoader \<Rightarrow> time \<Rightarrow> 'k \<Rightarrow> ('k, 'v) HotKeyCache \<Rightarrow> 'd \<Rightarrow>
   'v option go_result \<times> ('k, 'v) HotKeyCache \<times> 'd" where
  "hk_Get R J L now key h d =
     (case map_of (hk_localCache h) key of
        Some v \<Rightarrow> (Inr (Some v), h, d)
      | None \<Rightarrow>
          (case hk_LoadAll R J L now h d of
             (Inl err, h', d') \<Rightarrow> (Inl err, h', d')
           | (Inr data, h', d') \<Rightarrow> (Inr (map_of data key), h', d')))"

text \<open>\<open>time.Since\<close> of the zero \<open>Time\<close> saturates.\<close>

definition time_since :: "time option \<Rightarrow> time \<Rightarrow> duration" where
  "time_since t now = (case t of None \<Rightarrow> max_int64 | Some t0 \<Rightarrow> sat64 (now - t0))"

definition hk_GetAll ::
  "'d redis_kv \<Rightarrow> ('k, 'v) json_codec \<Rightarrow> ('k, 'v, 'd) DataLoader \<Rightarrow> time \<Rightarrow> ('k, 'v) HotKeyCache \<Rightarrow> 'd \<Rightarrow>
   ('k, 'v) go_map go_result \<times> ('k, 'v) HotKeyCache \<times> 'd" where
  "hk_GetAll R J L now h d =
     (if time_since (hk_lastRefreshTime h) now < hc_RefreshInterval (hk_config h)
      then (Inr (hk_localCache h), h, d)
      else hk_LoadAll R J L now h d)"

text \<open>\<open>Exists\<close>, \<open>Keys\<close> and \<open>Size\<close> load first; the first and the last then read the local map.\<close>

definition hk_after_load ::
  "('k, 'v) go_map go_result \<times> ('k, 'v) HotKeyCache \<times> 'd \<Rightarrow>
   (('k, 'v) go_map \<Rightarrow> ('k, 'v) HotKeyCache \<Rightarrow> 'r) \<Rightarrow> 'r go_result \<times> ('k, 'v) HotKeyCache \<times> 'd" where
  "hk_after_load res f =
     (case res of (Inl err, h', d') \<Rightarrow> (Inl err, h', d') | (Inr data, h', d') \<Rightarrow> (Inr (f data h'), h', d'))"

definition hk_Exists ::
  "'d redis_kv \<Rightarrow> ('k, 'v) json_codec \<Rightarrow> ('k, 'v, 'd) DataLoader \<Rightarrow> time \<Rightarrow> 'k \<Rightarrow> ('k, 'v) HotKeyCache \<Rightarrow> 'd \<Rightarrow>
   bool go_result \<times> ('k, 'v) HotKeyCache \<times> 'd" where
  "hk_Exists R J L now key h d =
     hk_after_load (hk_GetAll R J L now h d) (\<lambda>_ h'. map_of (hk_localCache h') key \<noteq> None)"

definition hk_Keys ::
  "'d redis_kv \<Rightarrow> ('k, 'v) json_codec \<Rightarrow> ('k, 'v, 'd) DataLoader \<Rightarrow> time \<Rightarrow> ('k, 'v) HotKeyCache \<Rightarrow> 'd \<Rightarrow>
   'k list go_result \<times> ('k, 'v) HotKeyCache \<times> 'd" where
  "hk_Keys R J L now h d = hk_after_load (hk_GetAll R J L now h d) (\<lambda>data _. keys_of data)"

definition hk_Size ::
  "'d redis_kv \<Rightarrow> ('k, 'v) json_codec \<Rightarrow> ('k, 'v, 'd) DataLoader \<Rightarrow> time \<Rightarrow> ('k, 'v) HotKeyCache \<Rightarrow> 'd \<Rightarrow>
   nat go_result \<times> ('k, 'v) HotKeyCache \<times> 'd" where
  "hk_Size R J L now h d = hk_after_load (hk_GetAll R J L now h d) (\<lambda>_ h'. length (hk_localCache h'))"

section \<open>Writing\<close>

text \<open>The critical section of \<open>Set\<close>: only a new key joins the order.\<close>

definition hk_put :: "'k \<Rightarrow> 'v \<Rightarrow> ('k, 'v) HotKeyCache \<Rightarrow> ('k, 'v) HotKeyCache" where
  "hk_put key v h =
     (let h' = (if map_of (hk_localCache h) key = None then h\<lparr>hk_accessOrder := hk_accessOrder h @ [key]\<rparr> else h)
      in h'\<lparr>hk_localCache := AList.update key v (hk_localCache h')\<rparr>)"

definition hk_save ::
  "'d redis_kv \<Rightarrow> ('k, 'v) json_codec \<Rightarrow> time \<Rightarrow> ('k, 'v) HotKeyCache \<Rightarrow> 'd \<Rightarrow>
   go_error option \<times> ('k, 'v) HotKeyCache \<times> 'd" where
  "hk_save R J now h d = (case hk_SaveToRedis R J now h d of (r, d') \<Rightarrow> (r, h, d'))"

definition hk_Set ::
  "'d redis_kv \<Rightarrow> ('k, 'v) json_codec \<Rightarrow> time \<Rightarrow> 'k \<Rightarrow> 'v \<Rightarrow> ('k, 'v) HotKeyCache \<Rightarrow> 'd \<Rightarrow>
   go_error option \<times> ('k, 'v) HotKeyCache \<times> 'd" where
  "hk_Set R J now key v h d = hk_save R J now (hk_put key v h) d"

definition hk_SetAll ::
  "'d redis_kv \<Rightarrow> ('k, 'v) json_codec \<Rightarrow> time \<Rightarrow> ('k, 'v) go_map \<Rightarrow> ('k, 'v) HotKeyCache \<Rightarrow> 'd \<Rightarrow>
   go_error option \<times> ('k, 'v) HotKeyCache \<times> 'd" where
  "hk_SetAll R J now data h d = hk_save R J now (hk_replace now data h) d"

definition hk_Delete ::
  "'d redis_kv \<Rightarrow> ('k, 'v) json_codec \<Rightarrow> time \<Rightarrow> 'k \<Rightarrow> ('k, 'v) HotKeyCache \<Rightarrow> 'd \<Rightarrow>
   go_error option \<times> ('k, 'v) HotKeyCache \<times> 'd" where
  "hk_Delete R J now key h d =
     hk_save R J now (h\<lparr>hk_localCache := AList.delete key (hk_localCache h)\<rparr>) d"

definition hk_Refresh ::
  "'d redis_kv \<Rightarrow> ('k, 'v) json_codec \<Rightarrow> ('k, 'v, 'd) DataLoader \<Rightarrow> time \<Rightarrow> ('k, 'v) HotKeyCache \<Rightarrow> 'd \<Rightarrow>
   go_error option \<times> ('k, 'v) HotKeyCache \<times> 'd" where
  "hk_Refresh R J L now h d =
     (case L d of
        (Inl err, d') \<Rightarrow> (Some (Wrapped ''failed to refresh data'' err), h, d')
      | (Inr data, d') \<Rightarrow> hk_SetAll R J now data h d')"

definition hk_Clear ::
  "'d redis_kv \<Rightarrow> time \<Rightarrow> ('k, 'v) HotKeyCache \<Rightarrow> 'd \<Rightarrow> go_error option \<times> ('k, 'v) HotKeyCache \<times> 'd" where
  "hk_Clear R now h d =
     (let h' = h\<lparr>hk_localCache := [], hk_accessOrder := [], hk_lastRefreshTime := Some now\<rparr>
      in (case kv_Del R now (hk_redisKey h') d of (r, d') \<Rightarrow> (r, h', d')))"

section \<open>The goroutines\<close>

definition hk_autoRefresh ::
  "'d redis_kv \<Rightarrow> ('k, 'v) json_codec \<Rightarrow> ('k, 'v, 'd) DataLoader \<Rightarrow> bool \<Rightarrow> time \<Rightarrow> ('k, 'v) HotKeyCache \<Rightarrow> 'd \<Rightarrow>
   ('k, 'v) HotKeyCache \<times> 'd" where
  "hk_autoRefresh R J L tick now h d =
     (if \<not> hk_refreshing h then (h, d)
      else if tick then snd (hk_Refresh R J L now h d)
      else if hk_stopped h then (h\<lparr>hk_refreshing := False\<rparr>, d)
      else (h, d))"

text \<open>The loop over the order: the live keys at its front are evicted, stale ones among them dropped.\<close>

fun hk_evict_loop :: "int \<Rightarrow> 'k list \<Rightarrow> int \<Rightarrow> ('k, 'v) go_map \<Rightarrow> 'k list \<Rightarrow> ('k, 'v) go_map \<times> 'k list" where
  "hk_evict_loop toEvict [] evicted cache newOrder = (cache, newOrder)"
| "hk_evict_loop toEvict (key # order) evicted cache newOrder =
     (if evicted < toEvict
      then if map_of cache key \<noteq> None
           then hk_evict_loop toEvict order (evicted + 1) (AList.delete key cache) newOrder
           else hk_evict_loop toEvict order evicted cache newOrder
      else hk_evict_loop toEvict order evicted cache (newOrder @ [key]))"

definition hk_cleanup_tick :: "mathx \<Rightarrow> ('k, 'v) HotKeyCache \<Rightarrow> ('k, 'v) HotKeyCache" where
  "hk_cleanup_tick X h =
     (let cacheSize = int (length (hk_localCache h)) in
      if hc_MaxLocalCacheSize (hk_config h) < cacheSize
      then let toEvict = IfClamp X (go_div cacheSize 5) 1 cacheSize in
        (case hk_evict_loop toEvict (hk_accessOrder h) 0 (hk_localCache h) [] of
           (cache, newOrder) \<Rightarrow> h\<lparr>hk_localCache := cache, hk_accessOrder := newOrder\<rparr>)
      else h)"

definition hk_cleanupExpired :: "mathx \<Rightarrow> bool \<Rightarrow> ('k, 'v) HotKeyCache \<Rightarrow> ('k, 'v) HotKeyCache" where
  "hk_cleanupExpired X tick h =
     (if \<not> hk_cleaning h then h
      else if tick then hk_cleanup_tick X h
      else if hk_stopped h then h\<lparr>hk_cleaning := False\<rparr>
      else h)"

definition hk_Stop :: "('k, 'v) HotKeyCache \<Rightarrow> ('k, 'v) HotKeyCache" where
  "hk_Stop h = h\<lparr>hk_stopped := True\<rparr>"

definition hk_Stop_returns :: "('k, 'v) HotKeyCache \<Rightarrow> bool" where
  "hk_Stop_returns h \<longleftrightarrow> \<not> hk_refreshing h \<and> \<not> hk_cleaning h"

section \<open>Statistics\<close>

record HotKeyStats =
  st_KeyName :: string
  st_LocalCacheSize :: nat
  st_LastRefreshTime :: "time option"
  st_TTL :: int

definition hk_GetStats :: "'d redis_kv \<Rightarrow> time \<Rightarrow> ('k, 'v) HotKeyCache \<Rightarrow> 'd \<Rightarrow> HotKeyStats \<times> 'd" where
  "hk_GetStats R now h d =
     (case kv_TTL R now (hk_redisKey h) d of
        (r, d') \<Rightarrow>
          let ttl = (case r of Inl _ \<Rightarrow> 0 | Inr t \<Rightarrow> t)
          in (\<lparr>st_KeyName = hk_keyName h, st_LocalCacheSize = length (hk_localCache h),
               st_LastRefreshTime = hk_lastRefreshTime h, st_TTL = go_div ttl second\<rparr>, d'))"

section \<open>The manager\<close>

text \<open>
  The caches are pointers \<open>'p\<close> under a name. A method a pointer may have is an optional function on
  the world, which holds all the caches; the order in which the map is ranged over is that of its list.
\<close>

record 'p HotKeyManager =
  hm_config :: HotKeyConfig
  hm_caches :: "(string, 'p) go_map"

type_synonym HotKeyOption = "HotKeyConfig \<Rightarrow> HotKeyConfig"

definition WithHotKeyTTL :: "duration \<Rightarrow> HotKeyOption" where
  "WithHotKeyTTL ttl c = c\<lparr>hc_DefaultTTL := ttl\<rparr>"

definition WithHotKeyRefreshInterval :: "duration \<Rightarrow> HotKeyOption" where
  "WithHotKeyRefreshInterval d c = c\<lparr>hc_RefreshInterval := d\<rparr>"

definition WithHotKeyAutoRefresh :: "bool \<Rightarrow> HotKeyOption" where
  "WithHotKeyAutoRefresh enable c = c\<lparr>hc_EnableAutoRefresh := enable\<rparr>"

definition WithHotKeyNamespace :: "string \<Rightarrow> HotKeyOption" where
  "WithHotKeyNamespace ns c = c\<lparr>hc_Namespace := ns\<rparr>"

definition WithHotKeyMaxLocalCacheSize :: "int \<Rightarrow> HotKeyOption" where
  "WithHotKeyMaxLocalCacheSize n c = c\<lparr>hc_MaxLocalCacheSize := n\<rparr>"

definition NewHotKeyManager :: "HotKeyOption list \<Rightarrow> 'p HotKeyManager" where
  "NewHotKeyManager opts =
     \<lparr>hm_config = foldl (\<lambda>cfg opt. opt cfg)
        \<lparr>hc_DefaultTTL = hour, hc_RefreshInterval = minutes 5, hc_EnableAutoRefresh = True,
         hc_Namespace = ''hotkey'', hc_MaxLocalCacheSize = 10000\<rparr> opts,
      hm_caches = []\<rparr>"

definition hm_RegisterCache :: "string \<Rightarrow> 'p \<Rightarrow> 'p HotKeyManager \<Rightarrow> 'p HotKeyManager" where
  "hm_RegisterCache name cache m = m\<lparr>hm_caches := AList.update name cache (hm_caches m)\<rparr>"

definition hm_GetCache :: "string \<Rightarrow> 'p HotKeyManager \<Rightarrow> 'p option" where
  "hm_GetCache name m = map_of (hm_caches m) name"

definition hm_Register :: "string \<Rightarrow> 'p \<Rightarrow> 'p HotKeyManager \<Rightarrow> 'p HotKeyManager" where
  "hm_Register name cache m = m\<lparr>hm_caches := AList.update name cache (hm_caches m)\<rparr>"

definition hm_Get :: "string \<Rightarrow> 'p HotKeyManager \<Rightarrow> 'p option" where
  "hm_Get name m = map_of (hm_caches m) name"

fun hm_refresh_loop :: "('p \<Rightarrow> ('w \<Rightarrow> go_error option \<times> 'w) option) \<Rightarrow> (string, 'p) go_map \<Rightarrow> 'w \<Rightarrow> go_error option \<times> 'w" where
  "hm_refresh_loop refresher [] w = (None, w)"
| "hm_refresh_loop refresher ((name, cache) # cs) w =
     (case refresher cache of
        None \<Rightarrow> hm_refresh_loop refresher cs w
      | Some refresh \<Rightarrow>
          (case refresh w of
             (Some err, w') \<Rightarrow> (Some (Wrapped (''failed to refresh cache '' @ name) err), w')
           | (None, w') \<Rightarrow> hm_refresh_loop refresher cs w'))"

definition hm_RefreshAll :: "('p \<Rightarrow> ('w \<Rightarrow> go_error option \<times> 'w) option) \<Rightarrow> 'p HotKeyManager \<Rightarrow> 'w \<Rightarrow> go_error option \<times> 'w" where
  "hm_RefreshAll refresher m w = hm_refresh_loop refresher (hm_caches m) w"

definition hm_StopAll :: "('p \<Rightarrow> ('w \<Rightarrow> 'w) option) \<Rightarrow> 'p HotKeyManager \<Rightarrow> 'w \<Rightarrow> 'w" where
  "hm_StopAll stopper m w =
     foldl (\<lambda>w c. case stopper (snd c) of None \<Rightarrow> w | Some stop \<Rightarrow> stop w) w (hm_caches m)"

fun hm_stats_loop ::
  "('p \<Rightarrow> ('w \<Rightarrow> HotKeyStats go_result \<times> 'w) option) \<Rightarrow> (string, 'p) go_map \<Rightarrow> (string, HotKeyStats) go_map \<Rightarrow> 'w \<Rightarrow>
   (string, HotKeyStats) go_map \<times> 'w" where
  "hm_stats_loop getter [] stats w = (stats, w)"
| "hm_stats_loop getter ((name, cache) # cs) stats w =
     (case getter cache of
        None \<Rightarrow> hm_stats_loop getter cs stats w
      | Some get_stats \<Rightarrow>
          (case get_stats w of
             (Inl _, w') \<Rightarrow> hm_stats_loop getter cs stats w'
           | (Inr stat, w') \<Rightarrow> hm_stats_loop getter cs (AList.update name stat stats) w'))"

definition hm_GetAllStats ::
  "('p \<Rightarrow> ('w \<Rightarrow> HotKeyStats go_result \<times> 'w) option) \<Rightarrow> 'p HotKeyManager \<Rightarrow> 'w \<Rightarrow> (string, HotKeyStats) go_map \<times> 'w" where
  "hm_GetAllStats getter m w = hm_stats_loop getter (hm_caches m) [] w"

end
