(* ===== verification/Hotkey_Correct.thy ===== *)
theory Hotkey_Correct
  imports Hotkey
begin

text \<open>
  Properties of \<open>HotKeyCache\<close>: the invariant that makes the eviction work and what one eviction
  removes, the round trip of a map through Redis, and three ways in which the order of insertion or
  the partial local map lead the code astray.
\<close>

section \<open>The eviction loop\<close>

text \<open>A list without its later duplicates.\<close>

fun firsts :: "'a list \<Rightarrow> 'a list" where
  "firsts [] = []"
| "firsts (x # xs) = x # filter (\<lambda>y. y \<noteq> x) (firsts xs)"

lemma set_firsts [simp]: "set (firsts xs) = set xs"
  by (induction xs) auto

lemma distinct_firsts [simp]: "distinct (firsts xs)"
  by (induction xs) auto

lemma firsts_filter: "firsts (filter P xs) = filter P (firsts xs)"
  by (induction xs) (auto simp: filter_filter conj_commute intro!: filter_cong)

lemma length_firsts: "length (firsts xs) = card (set xs)"
  by (metis distinct_card distinct_firsts set_firsts)

definition live_order :: "('k, 'v) go_map \<Rightarrow> 'k list \<Rightarrow> 'k list" where
  "live_order cache order = firsts (filter (\<lambda>k. map_of cache k \<noteq> None) order)"

lemma live_order_delete: "live_order (AList.delete k cache) order = filter (\<lambda>y. y \<noteq> k) (live_order cache order)"
  by (auto simp: live_order_def firsts_filter filter_filter intro!: filter_cong)

lemma evict_done: "te \<le> ev \<Longrightarrow> hk_evict_loop te order ev cache no = (cache, no @ order)"
  by (induction order arbitrary: no) auto

lemma evict_cache:
  "fst (hk_evict_loop te order ev cache no) =
     filter (\<lambda>p. fst p \<notin> set (take (nat (te - ev)) (live_order cache order))) cache"
proof (induction te order ev cache no rule: hk_evict_loop.induct)
  case (1 te ev cache no)
  then show ?case by (simp add: live_order_def)
next
  case (2 te key order ev cache no)
  show ?case
  proof (cases "ev < te")
    case False
    then show ?thesis by (simp add: evict_done)
  next
    case True
    show ?thesis
    proof (cases "map_of cache key")
      case None
      with 2(2) [OF True] True show ?thesis by (simp add: live_order_def)
    next
      case (Some v)
      have n: "nat (te - ev) = Suc (nat (te - (ev + 1)))" using True by simp
      have lo: "live_order cache (key # order) = key # live_order (AList.delete key cache) order"
        unfolding live_order_delete using Some by (simp add: live_order_def)
      from 2(1) [OF True] Some True show ?thesis
        unfolding n lo by (auto simp: AList.delete_eq filter_filter intro!: filter_cong)
    qed
  qed
qed

lemma evict_order:
  assumes "set (keys_of cache) \<subseteq> set order \<union> set no"
  shows "set (keys_of (fst (hk_evict_loop te order ev cache no))) \<subseteq> set (snd (hk_evict_loop te order ev cache no))"
  using assms
proof (induction te order ev cache no rule: hk_evict_loop.induct)
  case (2 te key order ev cache no)
  show ?case
  proof (cases "ev < te")
    case True
    show ?thesis
    proof (cases "map_of cache key")
      case None
      then have "set (keys_of cache) \<subseteq> set order \<union> set no" using 2(4) by (auto simp: map_of_eq_None_iff)
      with 2(2) [OF True] None True show ?thesis by simp
    next
      case (Some v)
      have "set (keys_of (AList.delete key cache)) \<subseteq> set order \<union> set no" using 2(4) by auto
      with 2(1) [OF True] Some True show ?thesis by simp
    qed
  next
    case False
    with 2(3,4) show ?thesis by simp
  qed
qed simp

lemma length_remove_keys:
  assumes "distinct (keys_of m)" "distinct vs" "set vs \<subseteq> set (keys_of m)"
  shows "length (filter (\<lambda>p. fst p \<notin> set vs) m) = length m - length vs"
proof -
  have "length (filter (\<lambda>p. fst p \<in> set vs) m) = length (filter (\<lambda>k. k \<in> set vs) (keys_of m))"
    by (simp add: filter_map comp_def)
  also have "\<dots> = card (set (filter (\<lambda>k. k \<in> set vs) (keys_of m)))"
    using assms(1) by (intro distinct_card [symmetric]) simp
  also have "set (filter (\<lambda>k. k \<in> set vs) (keys_of m)) = set vs" using assms(3) by auto
  finally have "length (filter (\<lambda>p. fst p \<in> set vs) m) = length vs" using assms(2) by (simp add: distinct_card)
  moreover have "length m = length (filter (\<lambda>p. fst p \<in> set vs) m) + length (filter (\<lambda>p. fst p \<notin> set vs) m)"
    by (simp add: sum_length_filter_compl)
  ultimately show ?thesis by simp
qed

section \<open>The invariant\<close>

text \<open>The local map is a map, and eviction can reach every key of it.\<close>

definition hk_inv :: "('k, 'v) HotKeyCache \<Rightarrow> bool" where
  "hk_inv h \<longleftrightarrow> distinct (keys_of (hk_localCache h)) \<and> set (keys_of (hk_localCache h)) \<subseteq> set (hk_accessOrder h)"

lemma hk_inv_new: "hk_inv (NewHotKeyCache X name cfg)"
  by (simp add: hk_inv_def NewHotKeyCache_def Let_def)

lemma hk_inv_replace: "distinct (keys_of data) \<Longrightarrow> hk_inv (hk_replace now data h)"
  by (simp add: hk_inv_def hk_replace_def)

lemma hk_inv_put: "hk_inv h \<Longrightarrow> hk_inv (hk_put k v h)"
  by (auto simp: hk_inv_def hk_put_def Let_def distinct_update map_of_eq_None_iff dom_update split: if_splits)

lemma hk_inv_delete: "hk_inv h \<Longrightarrow> hk_inv (h\<lparr>hk_localCache := AList.delete k (hk_localCache h)\<rparr>)"
  by (auto simp: hk_inv_def distinct_delete)

lemma hk_inv_cleanup: "hk_inv h \<Longrightarrow> hk_inv (hk_cleanup_tick X h)"
proof -
  assume h: "hk_inv h"
  define te where "te = IfClamp X (go_div (int (length (hk_localCache h))) 5) 1 (int (length (hk_localCache h)))"
  obtain cache no where e: "hk_evict_loop te (hk_accessOrder h) 0 (hk_localCache h) [] = (cache, no)" by fastforce
  have "distinct (keys_of cache)"
    using h evict_cache [of te "hk_accessOrder h" 0 "hk_localCache h" "[]"] by (simp add: e hk_inv_def distinct_map_filter)
  moreover have "set (keys_of cache) \<subseteq> set no"
    using h evict_order [of "hk_localCache h" "hk_accessOrder h" "[]" te 0] by (simp add: e hk_inv_def)
  ultimately show "hk_inv (hk_cleanup_tick X h)"
    using h e by (auto simp: hk_cleanup_tick_def Let_def te_def hk_inv_def)
qed

text \<open>The data source returns maps.\<close>

definition source_maps :: "('k, 'v, 'd) DataLoader \<Rightarrow> bool" where
  "source_maps L \<longleftrightarrow> (\<forall>d m d'. L d = (Inr m, d') \<longrightarrow> distinct (keys_of m))"

datatype ('k, 'v) hk_call =
  CGet 'k | CGetAll | CLoadAll | CSet 'k 'v | CSetAll "('k, 'v) go_map" | CDelete 'k | CRefresh | CClear
  | CTick | CAuto bool | CStop

fun hk_exec ::
  "mathx \<Rightarrow> 'd redis_kv \<Rightarrow> ('k, 'v) json_codec \<Rightarrow> ('k, 'v, 'd) DataLoader \<Rightarrow> time \<times> ('k, 'v) hk_call \<Rightarrow>
   ('k, 'v) HotKeyCache \<times> 'd \<Rightarrow> ('k, 'v) HotKeyCache \<times> 'd" where
  "hk_exec X R J L (now, CGet k) (h, d) = snd (hk_Get R J L now k h d)"
| "hk_exec X R J L (now, CGetAll) (h, d) = snd (hk_GetAll R J L now h d)"
| "hk_exec X R J L (now, CLoadAll) (h, d) = snd (hk_LoadAll R J L now h d)"
| "hk_exec X R J L (now, CSet k v) (h, d) = snd (hk_Set R J now k v h d)"
| "hk_exec X R J L (now, CSetAll m) (h, d) = snd (hk_SetAll R J now m h d)"
| "hk_exec X R J L (now, CDelete k) (h, d) = snd (hk_Delete R J now k h d)"
| "hk_exec X R J L (now, CRefresh) (h, d) = snd (hk_Refresh R J L now h d)"
| "hk_exec X R J L (now, CClear) (h, d) = snd (hk_Clear R now h d)"
| "hk_exec X R J L (now, CTick) (h, d) = (hk_cleanupExpired X True h, d)"
| "hk_exec X R J L (now, CAuto tick) (h, d) = hk_autoRefresh R J L tick now h d"
| "hk_exec X R J L (now, CStop) (h, d) = (hk_Stop h, d)"

fun call_maps :: "('k, 'v) hk_call \<Rightarrow> bool" where
  "call_maps (CSetAll m) = distinct (keys_of m)"
| "call_maps _ = True"

definition hk_run ::
  "mathx \<Rightarrow> 'd redis_kv \<Rightarrow> ('k, 'v) json_codec \<Rightarrow> ('k, 'v, 'd) DataLoader \<Rightarrow> (time \<times> ('k, 'v) hk_call) list \<Rightarrow>
   ('k, 'v) HotKeyCache \<times> 'd \<Rightarrow> ('k, 'v) HotKeyCache \<times> 'd" where
  "hk_run X R J L cs s = foldl (\<lambda>s c. hk_exec X R J L c s) s cs"

lemma hk_inv_LoadAll:
  assumes "hk_inv h" "json_maps J" "source_maps L"
  shows "hk_inv (fst (snd (hk_LoadAll R J L now h d)))"
  using assms by (auto simp: hk_LoadAll_def hk_cached_def source_maps_def
      split: prod.split sum.splits option.split if_splits dest: json_mapsD intro!: hk_inv_replace)

lemma hk_inv_save [simp]: "fst (snd (hk_save R J now h d)) = h"
  by (simp add: hk_save_def split: prod.split)

lemma hk_inv_Refresh:
  assumes "hk_inv h" "source_maps L"
  shows "hk_inv (fst (snd (hk_Refresh R J L now h d)))"
  using assms by (auto simp: hk_Refresh_def hk_SetAll_def source_maps_def split: prod.split sum.splits intro!: hk_inv_replace)

lemma hk_inv_exec:
  assumes "hk_inv h" "json_maps J" "source_maps L" "call_maps c"
  shows "hk_inv (fst (hk_exec X R J L (now, c) (h, d)))"
proof (cases c)
  case (CGet k)
  have "fst (snd (hk_Get R J L now k h d)) = h \<or> fst (snd (hk_Get R J L now k h d)) = fst (snd (hk_LoadAll R J L now h d))"
    by (auto simp: hk_Get_def split: option.split prod.split sum.split)
  then show ?thesis using CGet assms(1) hk_inv_LoadAll [OF assms(1-3)] by auto
next
  case CGetAll
  then show ?thesis using assms(1) hk_inv_LoadAll [OF assms(1-3)] by (simp add: hk_GetAll_def)
next
  case (CSet k v)
  then show ?thesis using assms(1) by (simp add: hk_Set_def hk_inv_put)
next
  case (CAuto tick)
  have "hk_inv (h\<lparr>hk_refreshing := False\<rparr>)" using assms(1) by (simp add: hk_inv_def)
  then show ?thesis using CAuto assms(1) hk_inv_Refresh [OF assms(1,3)] by (simp add: hk_autoRefresh_def)
next
  case CClear
  then show ?thesis by (simp add: hk_Clear_def hk_inv_def Let_def split: prod.split)
next
  case CTick
  then show ?thesis using assms(1) hk_inv_cleanup [OF assms(1), of X] by (simp add: hk_cleanupExpired_def)
next
  case CStop
  then show ?thesis using assms(1) by (simp add: hk_Stop_def hk_inv_def)
qed (use assms hk_inv_LoadAll [OF assms(1-3)] hk_inv_Refresh [OF assms(1,3)] hk_inv_delete in
    \<open>simp_all add: hk_SetAll_def hk_Delete_def hk_inv_replace\<close>)

lemma hk_inv_run:
  assumes "json_maps J" "source_maps L" "\<forall>c \<in> set cs. call_maps (snd c)" "hk_inv h"
  shows "hk_inv (fst (hk_run X R J L cs (h, d)))"
  using assms(3,4)
proof (induction cs arbitrary: h d)
  case (Cons c cs)
  obtain h' d' where s: "hk_exec X R J L c (h, d) = (h', d')" by fastforce
  have "hk_inv h'" using hk_inv_exec [OF Cons.prems(2) assms(1,2), of "snd c" X R "fst c" d] Cons.prems(1) s by simp
  then show ?case using Cons.IH Cons.prems(1) s by (simp add: hk_run_def)
qed (simp add: hk_run_def)

text \<open>The configuration never changes, and the limit of a new cache is positive.\<close>

lemma hk_config_simps [simp]:
  "hk_config (hk_replace now data h) = hk_config h" "hk_config (hk_put k v h) = hk_config h"
  "hk_config (hk_cleanup_tick X h) = hk_config h" "hk_config (hk_Stop h) = hk_config h"
  by (simp_all add: hk_replace_def hk_put_def hk_cleanup_tick_def hk_Stop_def Let_def case_prod_unfold)

lemma hk_config_LoadAll [simp]: "hk_config (fst (snd (hk_LoadAll R J L now h d))) = hk_config h"
  by (auto simp: hk_LoadAll_def split: prod.split sum.split option.split)

lemma hk_config_Refresh [simp]: "hk_config (fst (snd (hk_Refresh R J L now h d))) = hk_config h"
  by (auto simp: hk_Refresh_def hk_SetAll_def split: prod.split sum.split)

lemma hk_config_exec: "hk_config (fst (hk_exec X R J L c (h, d))) = hk_config h"
proof (induction X R J L c "(h, d)" rule: hk_exec.induct)
  case (1 X R J L now k)
  have "hk_Get R J L now k h d = (Inr (map_of (hk_localCache h) k), h, d) \<or>
      fst (snd (hk_Get R J L now k h d)) = fst (snd (hk_LoadAll R J L now h d))"
    by (auto simp: hk_Get_def split: option.split prod.split sum.split)
  then show ?case by auto
qed (simp_all add: hk_GetAll_def hk_Set_def hk_SetAll_def hk_Delete_def hk_Clear_def hk_cleanupExpired_def
    hk_autoRefresh_def Let_def case_prod_unfold)

lemma hk_config_run: "hk_config (fst (hk_run X R J L cs (h, d))) = hk_config h"
proof (induction cs arbitrary: h d)
  case (Cons c cs)
  obtain h' d' where "hk_exec X R J L c (h, d) = (h', d')" by fastforce
  then show ?case using Cons [of h' d'] hk_config_exec [of X R J L c h d] by (simp add: hk_run_def)
qed (simp add: hk_run_def)

lemma hk_max_new: "mathx_laws X \<Longrightarrow> 0 < hc_MaxLocalCacheSize (hk_config (NewHotKeyCache X name cfg))"
  by (simp add: NewHotKeyCache_def Let_def mathx_lawsD)

section \<open>What one eviction does\<close>

lemma cleanup_evicts:
  assumes "mathx_laws X" "hk_inv h" "hc_MaxLocalCacheSize (hk_config h) < int (length (hk_localCache h))"
    "0 \<le> hc_MaxLocalCacheSize (hk_config h)"
  shows "hk_localCache (hk_cleanup_tick X h) = filter (\<lambda>p. fst p \<notin> set (take (max 1 (length (hk_localCache h) div 5))
      (live_order (hk_localCache h) (hk_accessOrder h)))) (hk_localCache h)"
proof -
  let ?n = "length (hk_localCache h)"
  have "IfClamp X (go_div (int ?n) 5) 1 (int ?n) = int (max 1 (?n div 5))"
    using assms(3,4) mathx_lawsD(3) [OF assms(1)] by (auto simp: go_div_nonneg zdiv_int)
  then show ?thesis
    using assms(3) evict_cache [of "int (max 1 (?n div 5))" "hk_accessOrder h" 0 "hk_localCache h" "[]"]
    by (simp add: hk_cleanup_tick_def case_prod_unfold)
qed

text \<open>
  Eviction is exact first-in first-out. After any sequence of calls on a new cache, a turn of the
  clean-up over a map larger than the limit removes exactly a fifth of the entries (at least one),
  namely those whose keys are first in the order of insertion, and keeps all others.
\<close>
theorem hk_evicts_fifo:
  assumes "mathx_laws X" "json_maps J" "source_maps L" "\<forall>c \<in> set cs. call_maps (snd c)"
    and "h = fst (hk_run X R J L cs (NewHotKeyCache X name cfg, d))"
    and "hc_MaxLocalCacheSize (hk_config h) < int (length (hk_localCache h))"
    and "n = max 1 (length (hk_localCache h) div 5)"
  shows "hk_localCache (hk_cleanup_tick X h) =
           filter (\<lambda>p. fst p \<notin> set (take n (live_order (hk_localCache h) (hk_accessOrder h)))) (hk_localCache h) \<and>
         length (hk_localCache (hk_cleanup_tick X h)) = length (hk_localCache h) - n"
proof
  have i: "hk_inv h" unfolding assms(5) by (rule hk_inv_run [OF assms(2-4) hk_inv_new])
  have mx: "0 \<le> hc_MaxLocalCacheSize (hk_config h)"
    by (simp add: assms(5) hk_config_run hk_max_new [OF assms(1), THEN less_imp_le])
  let ?vs = "take n (live_order (hk_localCache h) (hk_accessOrder h))"
  show c: "hk_localCache (hk_cleanup_tick X h) = filter (\<lambda>p. fst p \<notin> set ?vs) (hk_localCache h)"
    using cleanup_evicts [OF assms(1) i assms(6) mx] assms(7) by simp
  have live: "set (live_order (hk_localCache h) (hk_accessOrder h)) = set (keys_of (hk_localCache h))"
    using i by (auto simp: live_order_def hk_inv_def map_of_eq_None_iff)
  have "length (live_order (hk_localCache h) (hk_accessOrder h)) = card (set (keys_of (hk_localCache h)))"
    using live by (simp add: live_order_def length_firsts)
  also have "\<dots> = length (hk_localCache h)" using i distinct_card [of "keys_of (hk_localCache h)"] by (simp add: hk_inv_def)
  finally have "length ?vs = n" using mx assms(6,7) by auto
  moreover have "set ?vs \<subseteq> set (keys_of (hk_localCache h))" using live set_take_subset by fastforce
  moreover have "distinct ?vs" by (simp add: live_order_def)
  ultimately show "length (hk_localCache (hk_cleanup_tick X h)) = length (hk_localCache h) - n"
    unfolding c using length_remove_keys [of "hk_localCache h" ?vs] i by (simp add: hk_inv_def)
qed

text \<open>A concrete cache: limit 2, filled from the data source with keys 1, 2 and 3.\<close>

definition hk_demo_cfg :: HotKeyConfig where
  "hk_demo_cfg = \<lparr>hc_DefaultTTL = 0, hc_RefreshInterval = 0, hc_EnableAutoRefresh = False, hc_Namespace = [],
     hc_MaxLocalCacheSize = 2\<rparr>"

definition hk_demo :: "(8 word, 8 word) HotKeyCache" where
  "hk_demo = NewHotKeyCache mathx_ref ''users'' hk_demo_cfg"

definition hk_source :: "(8 word, 8 word, kv_store) DataLoader" where
  "hk_source d = (Inr [(1, 11), (2, 12), (3, 13)], d)"

lemma hk_source_maps: "source_maps hk_source"
  by (auto simp: source_maps_def hk_source_def)

lemma hk_demo_simps [simp]: "hk_localCache hk_demo = []" "hk_accessOrder hk_demo = []" "hk_redisKey hk_demo = ''hotkey:users''"
    "hc_DefaultTTL (hk_config hk_demo) = hour" "hc_MaxLocalCacheSize (hk_config hk_demo) = 2"
  by (simp_all add: hk_demo_def NewHotKeyCache_def Let_def hk_demo_cfg_def mathx_ref_def)

lemma hk_demo_run: "fst (hk_run mathx_ref kv_ref json_ref hk_source [(5, CRefresh)] (hk_demo, [])) =
    hk_replace 5 [(1, 11), (2, 12), (3, 13)] hk_demo"
  by (simp add: hk_run_def hk_Refresh_def hk_source_def hk_SetAll_def)

lemma hk_evicts_fifo_witness:
  "hk_localCache (hk_cleanup_tick mathx_ref (hk_replace 5 [(1, 11), (2, 12), (3, 13)] hk_demo)) = [(2, 12), (3, 13)]"
proof -
  let ?h = "hk_replace 5 [(1, 11), (2, 12), (3, 13)] hk_demo"
  have r: "?h = fst (hk_run mathx_ref kv_ref json_ref hk_source [(5, CRefresh)] (NewHotKeyCache mathx_ref ''users'' hk_demo_cfg, []))"
    using hk_demo_run by (simp add: hk_demo_def)
  have l: "hk_localCache ?h = [(1, 11), (2, 12), (3, 13)]" "hk_accessOrder ?h = [1, 2, 3]" by (simp_all add: hk_replace_def)
  show ?thesis
    using hk_evicts_fifo [OF mathx_ref_laws json_ref_laws(2) hk_source_maps _ r _ refl] by (simp add: l live_order_def)
qed

section \<open>Sharing a map through Redis\<close>

lemma save_load:
  assumes "kv_law R up val" "json_law J" "up d" "hk_inv a" "hk_redisKey b = hk_redisKey a"
    and "0 < hc_DefaultTTL (hk_config a)" "hc_DefaultTTL (hk_config a) mod second = 0"
    and "hk_SaveToRedis R J now a d = (r, d')" "now \<le> t" "t < now + hc_DefaultTTL (hk_config a)"
  shows "r = None \<and> (\<exists>data d''. map_of data = map_of (hk_localCache a) \<and> distinct (keys_of data) \<and>
           (\<forall>L. hk_LoadAll R J L t b d' = (Inr data, hk_replace t data b, d'')))"
proof -
  obtain j data where j: "Marshal J (hk_localCache a) = Inr j" "j \<noteq> []" "Unmarshal J j = Some data"
    "distinct (keys_of data)" "map_of data = map_of (hk_localCache a)"
    using json_lawE [OF assms(2), of "hk_localCache a"] assms(4) by (auto simp: hk_inv_def)
  have e: "kv_SetEx R now (hk_redisKey a) j (hc_DefaultTTL (hk_config a)) d = (r, d')"
    using assms(8) j(1) by (simp add: hk_SaveToRedis_def)
  note law = kv_law_SetEx [OF assms(1,3,6,7), where now = now and k = "hk_redisKey a" and b = j, unfolded e]
  have "val t d' (hk_redisKey b) = Some j" using law(3) [OF assms(9)] assms(5,10) by simp
  then have g: "fst (kv_Get R t (hk_redisKey b) d') = Inr j" using kv_law_Get(1) [OF assms(1)] law(2) by simp
  have "\<forall>L. hk_LoadAll R J L t b d' = (Inr data, hk_replace t data b, snd (kv_Get R t (hk_redisKey b) d'))"
    using g j(2,3) by (simp add: hk_LoadAll_def hk_cached_def case_prod_unfold)
  then show ?thesis using law(1) j(4,5) by auto
qed

text \<open>
  C33: Round trip. A map that one node saves is the map that any node with the same Redis key loads as
  long as the time to live lasts: the same keys with the same values, taken over as its local map,
  without a call of the data source.
\<close>
theorem hk_save_load:
  assumes "kv_law R up val" "json_law J" "up d" "hk_inv a" "hk_redisKey b = hk_redisKey a"
    and "0 < hc_DefaultTTL (hk_config a)" "hc_DefaultTTL (hk_config a) mod second = 0"
    and "hk_SaveToRedis R J now a d = (r, d')" "now \<le> t" "t < now + hc_DefaultTTL (hk_config a)"
  shows "r = None \<and> (\<exists>data d''. map_of data = map_of (hk_localCache a) \<and> distinct (keys_of data) \<and>
           (\<forall>L. hk_LoadAll R J L t b d' = (Inr data, hk_replace t data b, d'')))"
  using assms by (rule save_load)

lemma hk_save_load_witness:
  "fst (hk_SaveToRedis kv_ref json_ref 5 (hk_replace 5 [(1, 11), (2, 12)] hk_demo) []) = None \<and>
   (\<exists>data d''. map_of data = map_of [(1, 11), (2, 12)] \<and>
      hk_LoadAll kv_ref json_ref hk_source 6 hk_demo
        (snd (hk_SaveToRedis kv_ref json_ref 5 (hk_replace 5 [(1, 11), (2, 12)] hk_demo) [])) =
      (Inr data, hk_replace 6 data hk_demo, d''))"
proof -
  let ?a = "hk_replace 5 [(1, 11), (2, 12)] hk_demo"
  obtain r d' where s: "hk_SaveToRedis kv_ref json_ref 5 ?a [] = (r, d')" by fastforce
  have i: "hk_inv ?a" by (rule hk_inv_replace) simp
  have k: "hk_redisKey hk_demo = hk_redisKey ?a" "hk_localCache ?a = [(1, 11), (2, 12)]" by (simp_all add: hk_replace_def)
  show ?thesis
    using hk_save_load [OF kv_ref_law json_ref_laws(1) _ i k(1) _ _ s, of 6] s k(2)
    by (auto simp: hour_def second_def)
qed

section \<open>Where the code goes wrong\<close>

text \<open>
  A \<open>Set\<close> on a node that has not loaded the map yet replaces the whole map in Redis by its own
  one entry: whatever map was saved there before, all nodes then load the new entry alone.
\<close>
theorem hk_set_before_load:
  assumes "kv_law R up val" "json_law J" "up d" "mathx_laws X" "b = NewHotKeyCache X name cfg"
    and "0 < hc_DefaultTTL (hk_config b)" "hc_DefaultTTL (hk_config b) mod second = 0"
    and "hk_Set R J now k v b d = (r, b', d')" "hk_redisKey c = hk_redisKey b"
    and "now \<le> t" "t < now + hc_DefaultTTL (hk_config b)"
  shows "r = None \<and> (\<exists>data c' d''. hk_LoadAll R J L t c d' = (Inr data, c', d'') \<and> map_of data = [k \<mapsto> v])"
proof -
  have b': "b' = hk_put k v b" and s: "hk_SaveToRedis R J now (hk_put k v b) d = (r, d')"
    using assms(8) by (auto simp: hk_Set_def hk_save_def split: prod.splits)
  have l: "hk_localCache (hk_put k v b) = [(k, v)]" by (simp add: hk_put_def Let_def assms(5) NewHotKeyCache_def)
  have k: "hk_redisKey c = hk_redisKey (hk_put k v b)" using assms(9) by (simp add: hk_put_def Let_def)
  have i: "hk_inv (hk_put k v b)" unfolding assms(5) by (intro hk_inv_put hk_inv_new)
  have c: "0 < hc_DefaultTTL (hk_config (hk_put k v b))" "hc_DefaultTTL (hk_config (hk_put k v b)) mod second = 0"
    "t < now + hc_DefaultTTL (hk_config (hk_put k v b))" using assms(6,7,11) by simp_all
  note sl = save_load [OF assms(1-3) i k c(1,2) s assms(10) c(3)]
  obtain data d'' where m: "map_of data = map_of (hk_localCache (hk_put k v b))"
    and "hk_LoadAll R J L t c d' = (Inr data, hk_replace t data c, d'')" using sl by blast
  moreover have "map_of data = [k \<mapsto> v]" using m by (simp add: l)
  ultimately show ?thesis using sl by blast
qed

lemma hk_set_before_load_witness:
  "\<exists>data c' d''. hk_LoadAll kv_ref json_ref hk_source 7 hk_demo
      (snd (snd (hk_Set kv_ref json_ref 6 9 99 hk_demo
        (snd (hk_SaveToRedis kv_ref json_ref 5 (hk_replace 5 [(1, 11), (2, 12)] hk_demo) []))))) = (Inr data, c', d'') \<and>
      map_of data = [9 \<mapsto> 99]"
proof -
  let ?d = "snd (hk_SaveToRedis kv_ref json_ref 5 (hk_replace 5 [(1, 11), (2, 12)] hk_demo) [])"
  obtain r b' d' where s: "hk_Set kv_ref json_ref 6 9 99 hk_demo ?d = (r, b', d')" by (metis prod.collapse)
  show ?thesis
    using hk_set_before_load [OF kv_ref_law json_ref_laws(1) _ mathx_ref_laws hk_demo_def _ _ s refl, of 7 hk_source] s
    by (simp add: hour_def second_def)
qed

lemma in_take_Cons: "k \<in> set (take (max 1 n) (k # xs))"
  by (cases "max 1 n") auto

text \<open>
  A key that was deleted and set again keeps its old place in the order of insertion: although it
  is the newest entry, the next eviction removes it before all older ones.
\<close>
theorem hk_reinserted_evicted:
  assumes "mathx_laws X" "hk_inv h" "hk_accessOrder h = k # rest" "map_of (hk_localCache h) k \<noteq> None"
    and "snd (hk_Delete R J now1 k h d) = (h1, d1)" "snd (hk_Set R J now2 k v h1 d1) = (h2, d2)"
    and "0 \<le> hc_MaxLocalCacheSize (hk_config h2)" "hc_MaxLocalCacheSize (hk_config h2) < int (length (hk_localCache h2))"
  shows "map_of (hk_localCache h2) k = Some v \<and> map_of (hk_localCache (hk_cleanup_tick X h2)) k = None"
proof -
  have h1: "h1 = h\<lparr>hk_localCache := AList.delete k (hk_localCache h)\<rparr>"
    using assms(5) hk_inv_save [of R J now1 _ d] by (auto simp: hk_Delete_def hk_save_def split: prod.splits)
  have h2: "h2 = hk_put k v h1" using assms(6) by (auto simp: hk_Set_def hk_save_def split: prod.splits)
  have i: "hk_inv h2" unfolding h1 h2 by (intro hk_inv_put hk_inv_delete assms(2))
  have o: "hk_accessOrder h2 = k # rest @ [k]" and m: "map_of (hk_localCache h2) k = Some v"
    using assms(3) by (simp_all add: h1 h2 hk_put_def Let_def update_conv')
  have "live_order (hk_localCache h2) (hk_accessOrder h2) =
      k # tl (live_order (hk_localCache h2) (hk_accessOrder h2))" using m by (simp add: o live_order_def)
  then have "k \<in> set (take (max 1 (length (hk_localCache h2) div 5)) (live_order (hk_localCache h2) (hk_accessOrder h2)))"
    using in_take_Cons [of k] by metis
  then show ?thesis
    using m cleanup_evicts [OF assms(1) i assms(8,7)] by (auto simp: map_of_eq_None_iff)
qed

lemma hk_reinserted_evicted_witness:
  "map_of (hk_localCache (hk_cleanup_tick mathx_ref (fst (snd (hk_Set kv_ref json_ref 7 1 77
     (fst (snd (hk_Delete kv_ref json_ref 6 1 (hk_replace 5 [(1, 11), (2, 12), (3, 13)] hk_demo) []))) []))))) 1 = None"
proof -
  let ?h = "hk_replace 5 [(1, 11), (2, 12), (3, 13)] hk_demo"
  obtain h1 d1 where 1: "snd (hk_Delete kv_ref json_ref 6 1 ?h []) = (h1, d1)" by fastforce
  have l1: "h1 = ?h\<lparr>hk_localCache := [(2, 12), (3, 13)]\<rparr>"
    using 1 by (auto simp: hk_Delete_def hk_save_def hk_replace_def split: prod.splits)
  obtain h2 d2 where 2: "snd (hk_Set kv_ref json_ref 7 1 77 h1 d1) = (h2, d2)" by fastforce
  have 3: "fst (snd (hk_Set kv_ref json_ref 7 1 77 h1 [])) = h2" using arg_cong [OF 2, of fst] by (simp add: hk_Set_def)
  have l2: "hk_localCache h2 = [(2, 12), (3, 13), (1, 77)]" "hk_config h2 = hk_config hk_demo"
    using 2 by (auto simp: hk_Set_def hk_save_def hk_put_def hk_replace_def Let_def l1 split: prod.splits)
  have i: "hk_inv ?h" by (rule hk_inv_replace) simp
  have "hk_accessOrder ?h = 1 # [2, 3]" "map_of (hk_localCache ?h) 1 \<noteq> None" by (simp_all add: hk_replace_def)
  from hk_reinserted_evicted [OF mathx_ref_laws i this 1 2] 1 3 show ?thesis by (simp add: l2)
qed

text \<open>
  The order of insertion is not bounded by the size of the cache. Setting and deleting one key
  \<open>n\<close> times leaves an empty cache and an order of \<open>n\<close> stale keys, which no clean-up ever shortens.
\<close>
theorem hk_order_grows:
  assumes "mathx_laws X" "h = NewHotKeyCache X name cfg"
    and "cs = concat (replicate n [(now, CSet k v), (now, CDelete k)])"
    and "hk_run X R J L cs (h, d) = (h', d')"
  shows "hk_localCache h' = [] \<and> hk_accessOrder h' = replicate n k \<and> hk_cleanup_tick X h' = h'"
proof -
  have run: "hk_localCache h0 = [] \<Longrightarrow>
      hk_localCache (fst (hk_run X R J L (concat (replicate n [(now, CSet k v), (now, CDelete k)])) (h0, d0))) = [] \<and>
      hk_accessOrder (fst (hk_run X R J L (concat (replicate n [(now, CSet k v), (now, CDelete k)])) (h0, d0))) =
        hk_accessOrder h0 @ replicate n k" for h0 :: "('a, 'b) HotKeyCache" and d0
  proof (induction n arbitrary: h0 d0)
    case (Suc n)
    obtain h1 d1 where 1: "hk_exec X R J L (now, CSet k v) (h0, d0) = (h1, d1)" by fastforce
    obtain h2 d2 where 2: "hk_exec X R J L (now, CDelete k) (h1, d1) = (h2, d2)" by fastforce
    have "hk_localCache h2 = []" "hk_accessOrder h2 = hk_accessOrder h0 @ [k]"
      using 1 2 Suc.prems by (auto simp: hk_Set_def hk_Delete_def hk_save_def hk_put_def Let_def split: prod.splits)
    then show ?case using Suc.IH [of h2 d2] 1 2 by (simp add: hk_run_def replicate_append_same)
  qed (simp add: hk_run_def)
  have "hk_config h' = hk_config h" using hk_config_run [of X R J L cs h d] assms(4) by simp
  then have "0 < hc_MaxLocalCacheSize (hk_config h')" using hk_max_new [OF assms(1)] assms(2) by metis
  moreover have "hk_localCache h' = [] \<and> hk_accessOrder h' = replicate n k"
    using run [of h d] assms(2-4) by (simp add: NewHotKeyCache_def Let_def)
  ultimately show ?thesis by (simp add: hk_cleanup_tick_def)
qed

lemma hk_order_grows_witness:
  "\<exists>h' d'. hk_run mathx_ref kv_ref json_ref hk_source (concat (replicate 50 [(3, CSet 1 2), (3, CDelete 1)])) (hk_demo, []) = (h', d') \<and>
     hk_accessOrder h' = replicate 50 1 \<and> hk_localCache h' = []"
proof -
  obtain h' d' where "hk_run mathx_ref kv_ref json_ref hk_source (concat (replicate 50 [(3, CSet 1 2), (3, CDelete 1)])) (hk_demo, []) = (h', d')"
    by fastforce
  with hk_order_grows [OF mathx_ref_laws hk_demo_def refl this] show ?thesis by blast
qed

end
