(* ===== verification/Decimal.thy ===== *)
theory Decimal
  imports Cachex_Base
begin

text \<open>
  Decimal numbers as Go's \<open>strconv\<close> and \<open>fmt\<close> print and read them: \<open>Itoa\<close> and \<open>FormatInt\<close> with base
  10, \<open>FormatUint\<close>, the verb \<open>%d\<close>, and the syntax \<open>ParseInt\<close> and \<open>ParseUint\<close> accept. Reading what was
  printed gives the number back.
\<close>

section \<open>Printing\<close>

definition digit :: "nat \<Rightarrow> char" where
  "digit n = char_of (48 + n)"

fun show_nat :: "nat \<Rightarrow> string" where
  "show_nat n = (if n < 10 then [digit n] else show_nat (n div 10) @ [digit (n mod 10)])"

declare show_nat.simps [simp del]

definition show_int :: "int \<Rightarrow> string" where
  "show_int i = (if i < 0 then CHR ''-'' # show_nat (nat (- i)) else show_nat (nat i))"

section \<open>Reading\<close>

definition is_digit :: "char \<Rightarrow> bool" where
  "is_digit c \<longleftrightarrow> 48 \<le> (of_char c :: nat) \<and> (of_char c :: nat) \<le> 57"

definition digit_value :: "char \<Rightarrow> nat" where
  "digit_value c = of_char c - 48"

definition decimal :: "string \<Rightarrow> nat" where
  "decimal s = foldl (\<lambda>n c. 10 * n + digit_value c) 0 s"

text \<open>The digits of an unsigned number: at least one, and nothing else.\<close>

definition scan_nat :: "string \<Rightarrow> nat option" where
  "scan_nat s = (if s \<noteq> [] \<and> list_all is_digit s then Some (decimal s) else None)"

text \<open>A signed number may start with one sign.\<close>

definition scan_int :: "string \<Rightarrow> int option" where
  "scan_int s =
     (case s of
        [] \<Rightarrow> None
      | c # cs \<Rightarrow>
          if c = CHR ''-'' then map_option (\<lambda>n. - int n) (scan_nat cs)
          else if c = CHR ''+'' then map_option int (scan_nat cs)
          else map_option int (scan_nat s))"

section \<open>Round trip\<close>

lemma digit_simps [simp]: "n < 10 \<Longrightarrow> is_digit (digit n)" "n < 10 \<Longrightarrow> digit_value (digit n) = n"
  by (simp_all add: is_digit_def digit_def digit_value_def)

lemma show_nat_not_Nil [simp]: "show_nat n \<noteq> []"
  by (subst show_nat.simps) simp

lemma show_nat_digits [simp]: "list_all is_digit (show_nat n)"
proof (induction n rule: show_nat.induct)
  case (1 n)
  then show ?case by (subst show_nat.simps) simp
qed

lemma decimal_show_nat [simp]: "decimal (show_nat n) = n"
proof (induction n rule: show_nat.induct)
  case (1 n)
  have "decimal (s @ [c]) = 10 * decimal s + digit_value c" for s c by (simp add: decimal_def)
  moreover have "n < 10 \<Longrightarrow> decimal [digit n] = n" by (simp add: decimal_def)
  ultimately show ?case using 1 by (subst show_nat.simps) simp
qed

lemma scan_show_nat [simp]: "scan_nat (show_nat n) = Some n"
  by (simp add: scan_nat_def)

lemma show_nat_inj: "show_nat m = show_nat n \<longleftrightarrow> m = n"
  by (metis decimal_show_nat)

lemma hd_show_nat: "is_digit (hd (show_nat n))"
  using show_nat_digits [of n] by (cases "show_nat n") simp_all

lemma digit_no_sign: "is_digit c \<Longrightarrow> c \<noteq> CHR ''-'' \<and> c \<noteq> CHR ''+'' \<and> c \<noteq> CHR '':''"
  by (auto simp: is_digit_def)

lemma scan_show_int [simp]: "scan_int (show_int i) = Some i"
proof (cases "i < 0")
  case True
  then show ?thesis by (simp add: show_int_def scan_int_def)
next
  case False
  then obtain c cs where s: "show_nat (nat i) = c # cs" by (cases "show_nat (nat i)") simp_all
  then have "is_digit c" using hd_show_nat [of "nat i"] by simp
  then show ?thesis using False digit_no_sign scan_show_nat [of "nat i"] s by (auto simp: show_int_def scan_int_def)
qed

lemma show_int_inj: "show_int i = show_int j \<longleftrightarrow> i = j"
  by (metis option.inject scan_show_int)

lemma show_int_0: "show_int 0 = ''0''"
  by code_simp

end
