(* ===== verification/Durable_Channel.thy ===== *)
theory Durable_Channel
  imports Outside Decimal
begin

text \<open>
  \<open>DurableChannel\<close> of \<open>durable_channel.go\<close>: a buffered Go channel in memory behind a Redis list.
  \<open>R\<close> are the list commands of the Redis client, \<open>Z\<close> the compressed form of a message, \<open>d\<close> the
  server. A context is its \<open>Err()\<close> at the time of use. A \<open>select\<close> takes one of its ready cases: the
  number \<open>pick\<close> says which, and \<^const>\<open>None\<close> is a \<open>select\<close> that blocks. A worker goroutine is at one of
  the points of its loop, and \<open>dc_worker\<close> is its next step. A persistence pool is the list of its tasks,
  and whether it takes a task is an argument. Logging is left out.
\<close>

type_synonym PersistMode = int

definition PersistSync :: PersistMode where "PersistSync = 0"
definition PersistAsync :: PersistMode where "PersistAsync = 1"
definition PersistHybrid :: PersistMode where "PersistHybrid = 2"

lemmas persist_modes = PersistSync_def PersistAsync_def PersistHybrid_def

definition mode_String :: "PersistMode \<Rightarrow> string" where
  "mode_String pm =
     (if pm = PersistSync then ''PersistSync''
      else if pm = PersistAsync then ''PersistAsync''
      else if pm = PersistHybrid then ''PersistHybrid''
      else ''Unknown'')"

record DurableChannelConfig =
  dcc_Name :: string
  dcc_Namespace :: string
  dcc_WorkerID :: int
  dcc_BufferSize :: int
  dcc_PersistenceMode :: PersistMode
  dcc_WorkerCount :: int
  dcc_PollInterval :: duration
  dcc_RecoveryOnStart :: bool
  dcc_TTL :: duration
  dcc_EnableCompression :: bool
  dcc_CompressionMinSize :: int
  dcc_QueryTimeout :: duration

definition blpopMinTimeout :: duration where
  "blpopMinTimeout = second"

text \<open>Go's remainder has the sign of the dividend, which is positive here.\<close>

definition blpopTimeout :: "duration \<Rightarrow> duration" where
  "blpopTimeout d =
     (if d < blpopMinTimeout then blpopMinTimeout
      else let r = d mod second in
        if r \<noteq> 0 then wrap64 (d - r + second) else d)"

definition ErrChannelClosed :: go_error where "ErrChannelClosed = FmtError ''channel is closed''"
definition ErrInvalidBLPopResult :: go_error where "ErrInvalidBLPopResult = FmtError ''invalid blpop result''"
definition ErrUnknownPersistMode :: go_error where "ErrUnknownPersistMode = FmtError ''unknown persistence mode''"
definition ErrNoData :: go_error where "ErrNoData = FmtError ''no data available''"
definition ErrCompressFailed :: string where "ErrCompressFailed = ''compress data failed''"
definition ErrPersistFailed :: string where "ErrPersistFailed = ''persist to redis failed''"
definition ErrRPushFailed :: string where "ErrRPushFailed = ''rpush failed''"
definition ErrPullFailed :: string where "ErrPullFailed = ''pull from redis failed''"
definition ErrDecompressFailed :: string where "ErrDecompressFailed = ''decompress data failed''"
definition ErrGetRedisLenFailed :: string where "ErrGetRedisLenFailed = ''failed to get redis queue length''"

definition day :: duration where "day = 86400000000000"

definition DefaultDurableChannelConfig :: "string \<Rightarrow> DurableChannelConfig" where
  "DefaultDurableChannelConfig name =
     \<lparr>dcc_Name = name, dcc_Namespace = ''dchan'', dcc_WorkerID = 0, dcc_BufferSize = 100,
      dcc_PersistenceMode = PersistHybrid, dcc_WorkerCount = 1, dcc_PollInterval = blpopMinTimeout,
      dcc_RecoveryOnStart = True, dcc_TTL = day, dcc_EnableCompression = False,
      dcc_CompressionMinSize = 1024, dcc_QueryTimeout = 3 * second\<rparr>"

section \<open>What comes from outside\<close>

text \<open>The pipeline of \<open>RPUSH\<close> and \<open>EXPIRE\<close> has three errors: that of \<open>Exec\<close> and those of its commands.\<close>

record 'd redis_list =
  rl_RPushExpire :: "ctx \<Rightarrow> string \<Rightarrow> bytes \<Rightarrow> duration \<Rightarrow> 'd \<Rightarrow>
    (go_error option \<times> go_error option \<times> go_error option) \<times> 'd"
  rl_BLPop :: "ctx \<Rightarrow> duration \<Rightarrow> string \<Rightarrow> 'd \<Rightarrow> bytes list go_result \<times> 'd"
  rl_LPop :: "ctx \<Rightarrow> string \<Rightarrow> 'd \<Rightarrow> bytes go_result \<times> 'd"
  rl_LLen :: "ctx \<Rightarrow> string \<Rightarrow> 'd \<Rightarrow> int go_result \<times> 'd"

record 'a zip =
  ZlibCompressObject :: "'a \<Rightarrow> bytes go_result"
  ZlibDecompressObject :: "bytes \<Rightarrow> 'a go_result"

section \<open>The channel\<close>

datatype 'a worker = WHead | WPull | WGot "'a go_result" | WDone

record 'a DurableChannel =
  dch_config :: DurableChannelConfig
  dch_queueKey :: string
  dch_memChan :: "'a list"
  dch_memClosed :: bool
  dch_cancelled :: bool
  dch_closed :: bool
  dch_pool :: "(ctx \<times> 'a) list option"
  dch_workers :: "'a worker list"

definition dch_ctx :: "'a DurableChannel \<Rightarrow> ctx" where
  "dch_ctx dc = (if dch_cancelled dc then Some CtxCanceled else None)"

definition dch_room :: "'a DurableChannel \<Rightarrow> bool" where
  "dch_room dc \<longleftrightarrow> int (length (dch_memChan dc)) < dcc_BufferSize (dch_config dc)"

definition dch_push :: "'a \<Rightarrow> 'a DurableChannel \<Rightarrow> 'a DurableChannel" where
  "dch_push data dc = dc\<lparr>dch_memChan := dch_memChan dc @ [data]\<rparr>"

definition GetQueueKey :: "DurableChannelConfig \<Rightarrow> string" where
  "GetQueueKey c = dcc_Namespace c @ '':'' @ dcc_Name c @ '':'' @ show_int (dcc_WorkerID c) @ '':queue''"

section \<open>Redis\<close>

definition dc_persistToRedis ::
  "'d redis_list \<Rightarrow> 'a zip \<Rightarrow> ctx \<Rightarrow> 'a \<Rightarrow> 'a DurableChannel \<Rightarrow> 'd \<Rightarrow> go_error option \<times> 'd" where
  "dc_persistToRedis R Z ctx data dc d =
     (case ZlibCompressObject Z data of
        Inl err \<Rightarrow> (Some (Wrapped ErrCompressFailed err), d)
      | Inr compressed \<Rightarrow>
          (case rl_RPushExpire R ctx (dch_queueKey dc) compressed (dcc_TTL (dch_config dc)) d of
             ((Some err, _, _), d') \<Rightarrow> (Some (Wrapped ErrPersistFailed err), d')
           | ((None, Some err, _), d') \<Rightarrow> (Some (Wrapped ErrRPushFailed err), d')
           | ((None, None, _), d') \<Rightarrow> (None, d')))"

definition dc_decompress :: "'a zip \<Rightarrow> bytes \<Rightarrow> 'a go_result" where
  "dc_decompress Z b =
     (case ZlibDecompressObject Z b of Inl err \<Rightarrow> Inl (Wrapped ErrDecompressFailed err) | Inr data \<Rightarrow> Inr data)"

definition dc_pullFromRedis ::
  "'d redis_list \<Rightarrow> 'a zip \<Rightarrow> ctx \<Rightarrow> 'a DurableChannel \<Rightarrow> 'd \<Rightarrow> 'a go_result \<times> 'd" where
  "dc_pullFromRedis R Z ctx dc d =
     (case rl_BLPop R ctx (blpopTimeout (dcc_PollInterval (dch_config dc))) (dch_queueKey dc) d of
        (Inl err, d') \<Rightarrow>
          (if err = RedisNil then Inl ErrNoData
           else case ctx of Some e \<Rightarrow> Inl e | None \<Rightarrow> Inl (Wrapped ErrPullFailed err), d')
      | (Inr result, d') \<Rightarrow>
          (if length result < 2 then Inl ErrInvalidBLPopResult else dc_decompress Z (result ! 1), d'))"

definition dc_pullFromRedisNonBlocking ::
  "'d redis_list \<Rightarrow> 'a zip \<Rightarrow> ctx \<Rightarrow> 'a DurableChannel \<Rightarrow> 'd \<Rightarrow> 'a go_result \<times> 'd" where
  "dc_pullFromRedisNonBlocking R Z ctx dc d =
     (case rl_LPop R ctx (dch_queueKey dc) d of
        (Inl err, d') \<Rightarrow> (if err = RedisNil then Inl ErrNoData else Inl (Wrapped ErrPullFailed err), d')
      | (Inr result, d') \<Rightarrow> (dc_decompress Z result, d'))"

section \<open>Construction and recovery\<close>

text \<open>The loop runs at most \<open>n\<close> times: the smaller of the queue's length and the buffer size.\<close>

fun dc_recover_loop ::
  "'d redis_list \<Rightarrow> 'a zip \<Rightarrow> nat \<Rightarrow> 'a DurableChannel \<Rightarrow> 'd \<Rightarrow> 'a DurableChannel \<times> 'd" where
  "dc_recover_loop R Z 0 dc d = (dc, d)"
| "dc_recover_loop R Z (Suc n) dc d =
     (case dc_pullFromRedisNonBlocking R Z (dch_ctx dc) dc d of
        (Inl err, d') \<Rightarrow> (dc, d')
      | (Inr data, d') \<Rightarrow>
          if dch_room dc then dc_recover_loop R Z n (dch_push data dc) d'
          else (dc, snd (dc_persistToRedis R Z (dch_ctx dc) data dc d')))"

definition dc_recoverMessages ::
  "'d redis_list \<Rightarrow> 'a zip \<Rightarrow> 'a DurableChannel \<Rightarrow> 'd \<Rightarrow> 'a DurableChannel \<times> 'd" where
  "dc_recoverMessages R Z dc d =
     (if dch_ctx dc \<noteq> None then (dc, d)
      else (case rl_LLen R (dch_ctx dc) (dch_queueKey dc) d of
              (Inl err, d') \<Rightarrow> (dc, d')
            | (Inr len, d') \<Rightarrow>
                if 0 < len
                then dc_recover_loop R Z (nat (min len (dcc_BufferSize (dch_config dc)))) dc d'
                else (dc, d')))"

definition dc_defaults :: "mathx \<Rightarrow> DurableChannelConfig \<Rightarrow> DurableChannelConfig" where
  "dc_defaults X config0 =
     (let config = config0\<lparr>
            dcc_Namespace := IfEmpty X (dcc_Namespace config0) ''dchan'',
            dcc_BufferSize := IfLeZero X (dcc_BufferSize config0) 100,
            dcc_PollInterval := IfLeZero X (dcc_PollInterval config0) blpopMinTimeout,
            dcc_TTL := IfLeZero X (dcc_TTL config0) day,
            dcc_CompressionMinSize := IfLeZero X (dcc_CompressionMinSize config0) 1024,
            dcc_QueryTimeout := IfLeZero X (dcc_QueryTimeout config0) (3 * second)\<rparr>
      in if dcc_PersistenceMode config = PersistSync then config\<lparr>dcc_WorkerCount := 0\<rparr>
         else if dcc_WorkerCount config = 0 then config\<lparr>dcc_WorkerCount := 1\<rparr>
         else config)"

definition dc_startWorker :: "'a DurableChannel \<Rightarrow> 'a DurableChannel" where
  "dc_startWorker dc = dc\<lparr>dch_workers := dch_workers dc @ [WHead]\<rparr>"

definition NewDurableChannel ::
  "mathx \<Rightarrow> 'd redis_list \<Rightarrow> 'a zip \<Rightarrow> DurableChannelConfig \<Rightarrow> 'd \<Rightarrow> 'a DurableChannel go_result \<times> 'd" where
  "NewDurableChannel X R Z config0 d =
     (if dcc_Name config0 = [] then (Inl RuntimePanic, d)
      else
        let config = dc_defaults X config0;
            shouldStartWorker = dcc_PersistenceMode config \<noteq> PersistSync;
            dc = \<lparr>dch_config = config, dch_queueKey = GetQueueKey config, dch_memChan = [], dch_memClosed = False,
                  dch_cancelled = False, dch_closed = False,
                  dch_pool = (if dcc_PersistenceMode config = PersistAsync then Some [] else None),
                  dch_workers = []\<rparr>;
            (dc', d') = (if dcc_RecoveryOnStart config \<and> shouldStartWorker then dc_recoverMessages R Z dc d else (dc, d))
        in (Inr ((dc_startWorker ^^ nat (dcc_WorkerCount config)) dc'), d'))"

section \<open>Sending and receiving\<close>

datatype send_case = ToMem | ChanDone | CtxDone

text \<open>The part of a send that holds the read lock, in the two modes that use the memory channel.\<close>

definition dc_send_async ::
  "nat \<Rightarrow> bool \<Rightarrow> ctx \<Rightarrow> 'a \<Rightarrow> 'a DurableChannel \<Rightarrow> go_error option option \<times> 'a DurableChannel" where
  "dc_send_async pick accept ctx data dc =
     (if dch_closed dc then (Some (Some ErrChannelClosed), dc)
      else (case go_select [(dch_room dc \<or> dch_memClosed dc, ToMem), (dch_cancelled dc, ChanDone), (ctx \<noteq> None, CtxDone)] pick of
              None \<Rightarrow> (None, dc)
            | Some ToMem \<Rightarrow>
                if dch_memClosed dc then (Some (Some RuntimePanic), dc)
                else (Some None, (dch_push data dc)
                       \<lparr>dch_pool := (case dch_pool dc of None \<Rightarrow> None
                          | Some ts \<Rightarrow> Some (if accept then ts @ [(ctx, data)] else ts))\<rparr>)
            | Some ChanDone \<Rightarrow> (Some (Some ErrChannelClosed), dc)
            | Some CtxDone \<Rightarrow> (Some ctx, dc)))"

definition dc_send_hybrid ::
  "nat \<Rightarrow> 'a \<Rightarrow> 'a DurableChannel \<Rightarrow> go_error option \<times> 'a DurableChannel" where
  "dc_send_hybrid pick data dc =
     (if dch_closed dc then (Some ErrChannelClosed, dc)
      else (case go_select [(dch_room dc \<or> dch_memClosed dc, ToMem), (dch_cancelled dc, ChanDone)] pick of
              None \<Rightarrow> (None, dc)
            | Some ToMem \<Rightarrow> if dch_memClosed dc then (Some RuntimePanic, dc) else (None, dch_push data dc)
            | Some _ \<Rightarrow> (Some ErrChannelClosed, dc)))"

text \<open>A send that blocks has no result.\<close>

definition dc_Send ::
  "'d redis_list \<Rightarrow> 'a zip \<Rightarrow> nat \<Rightarrow> bool \<Rightarrow> ctx \<Rightarrow> 'a \<Rightarrow> 'a DurableChannel \<Rightarrow> 'd \<Rightarrow>
   go_error option option \<times> 'a DurableChannel \<times> 'd" where
  "dc_Send R Z pick accept ctx data dc d =
     (if dch_closed dc then (Some (Some ErrChannelClosed), dc, d)
      else if dcc_PersistenceMode (dch_config dc) = PersistSync
      then (case dc_persistToRedis R Z ctx data dc d of (r, d') \<Rightarrow> (Some r, dc, d'))
      else if dcc_PersistenceMode (dch_config dc) = PersistAsync
      then (case dc_send_async pick accept ctx data dc of (r, dc') \<Rightarrow> (r, dc', d))
      else if dcc_PersistenceMode (dch_config dc) = PersistHybrid
      then (case dc_persistToRedis R Z ctx data dc d of
              (Some err, d') \<Rightarrow> (Some (Some err), dc, d')
            | (None, d') \<Rightarrow> (case dc_send_hybrid pick data dc of (r, dc') \<Rightarrow> (Some r, dc', d')))
      else (Some (Some (Wrapped (show_int (dcc_PersistenceMode (dch_config dc))) ErrUnknownPersistMode)), dc, d))"

text \<open>A task of the pool, at whatever time it runs.\<close>

definition dc_pool_task ::
  "'d redis_list \<Rightarrow> 'a zip \<Rightarrow> 'a DurableChannel \<Rightarrow> 'd \<Rightarrow> 'a DurableChannel \<times> 'd" where
  "dc_pool_task R Z dc d =
     (case dch_pool dc of
        Some ((ctx, data) # ts) \<Rightarrow> (dc\<lparr>dch_pool := Some ts\<rparr>, snd (dc_persistToRedis R Z ctx data dc d))
      | _ \<Rightarrow> (dc, d))"

text \<open>
  A receive from the channel: a closed and empty one gives the zero value at once, an open and empty
  one blocks. \<open>TryReceive\<close> is its \<open>select\<close> with the context and a default.
\<close>

definition dc_Receive :: "'a \<Rightarrow> 'a DurableChannel \<Rightarrow> ('a \<times> 'a DurableChannel) option" where
  "dc_Receive zero dc =
     (case dch_memChan dc of
        data # rest \<Rightarrow> Some (data, dc\<lparr>dch_memChan := rest\<rparr>)
      | [] \<Rightarrow> if dch_memClosed dc then Some (zero, dc) else None)"

definition dc_TryReceive :: "'a \<Rightarrow> nat \<Rightarrow> ctx \<Rightarrow> 'a DurableChannel \<Rightarrow> ('a \<times> bool) \<times> 'a DurableChannel" where
  "dc_TryReceive zero pick ctx dc =
     (case go_select [(dc_Receive zero dc \<noteq> None, ToMem), (ctx \<noteq> None, CtxDone)] pick of
        Some ToMem \<Rightarrow> (case dc_Receive zero dc of Some (data, dc') \<Rightarrow> ((data, True), dc') | None \<Rightarrow> ((zero, False), dc))
      | _ \<Rightarrow> ((zero, False), dc))"

definition dc_MemLen :: "'a DurableChannel \<Rightarrow> nat" where
  "dc_MemLen dc = length (dch_memChan dc)"

definition dc_RedisLen :: "'d redis_list \<Rightarrow> 'a DurableChannel \<Rightarrow> 'd \<Rightarrow> int go_result \<times> 'd" where
  "dc_RedisLen R dc d =
     (case rl_LLen R (dch_ctx dc) (dch_queueKey dc) d of
        (Inl err, d') \<Rightarrow> (Inl (Wrapped ErrGetRedisLenFailed err), d')
      | (Inr len, d') \<Rightarrow> (Inr len, d'))"

definition dc_Len :: "'d redis_list \<Rightarrow> 'a DurableChannel \<Rightarrow> 'd \<Rightarrow> int go_result \<times> 'd" where
  "dc_Len R dc d =
     (case rl_LLen R (dch_ctx dc) (dch_queueKey dc) d of
        (Inl err, d') \<Rightarrow> (Inl (Wrapped ErrGetRedisLenFailed err), d')
      | (Inr len, d') \<Rightarrow> (Inr (int (length (dch_memChan dc)) + len), d'))"

definition dc_GetConfig :: "'a DurableChannel \<Rightarrow> DurableChannelConfig" where
  "dc_GetConfig dc = dch_config dc"

section \<open>Workers and Close\<close>

text \<open>The next step of a worker: the test of its context, the pull, and what it does with the outcome.
  A step that blocks has no result.\<close>

definition dc_worker ::
  "'d redis_list \<Rightarrow> 'a zip \<Rightarrow> nat \<Rightarrow> 'a worker \<Rightarrow> 'a DurableChannel \<Rightarrow> 'd \<Rightarrow>
   ('a worker \<times> 'a DurableChannel \<times> 'd) option" where
  "dc_worker R Z pick w dc d =
     (case w of
        WHead \<Rightarrow> Some (if dch_cancelled dc then WDone else WPull, dc, d)
      | WPull \<Rightarrow> (case dc_pullFromRedis R Z (dch_ctx dc) dc d of (r, d') \<Rightarrow> Some (WGot r, dc, d'))
      | WGot (Inl err) \<Rightarrow>
          if err = ErrNoData then Some (WHead, dc, d)
          else if dch_ctx dc \<noteq> None then Some (WDone, dc, d)
          else Some (WHead, dc, d)
      | WGot (Inr data) \<Rightarrow>
          (case go_select [(dch_room dc, ToMem), (dch_cancelled dc, ChanDone)] pick of
             None \<Rightarrow> None
           | Some ToMem \<Rightarrow> Some (WHead, dch_push data dc, d)
           | Some _ \<Rightarrow> Some (WDone, dc, snd (dc_persistToRedis R Z (dch_ctx dc) data dc d)))
      | WDone \<Rightarrow> None)"

text \<open>\<open>Close\<close> up to the wait for the workers, and after it.\<close>

definition dc_Close_begin :: "'a DurableChannel \<Rightarrow> 'a DurableChannel" where
  "dc_Close_begin dc = (if dch_closed dc then dc else dc\<lparr>dch_closed := True, dch_cancelled := True\<rparr>)"

definition dc_Close_end :: "'a DurableChannel \<Rightarrow> 'a DurableChannel option" where
  "dc_Close_end dc =
     (if \<forall>w \<in> set (dch_workers dc). w = WDone then Some (dc\<lparr>dch_memClosed := True\<rparr>) else None)"

end
