(* ===== verification/Durable_Channel_Correct.thy ===== *)
theory Durable_Channel_Correct
  imports Durable_Channel
begin

text \<open>
  Properties of \<open>DurableChannel\<close>: messages that producers write to Redis reach the receivers of an
  open channel exactly once and, with one worker, in order; recovery; and three defects.
\<close>

section \<open>The laws of the outside\<close>

text \<open>\<open>q d key\<close> is the list under a key while no key expires; a command of a live context runs on a
  server that is \<open>up\<close>, one of a finished context is not sent.\<close>

definition rl_push_law :: "'d redis_list \<Rightarrow> ('d \<Rightarrow> bool) \<Rightarrow> ('d \<Rightarrow> string \<Rightarrow> bytes list) \<Rightarrow> bool" where
  "rl_push_law R up q \<longleftrightarrow> (\<forall>key b ttl d. up d \<longrightarrow> (\<exists>d'.
     rl_RPushExpire R None key b ttl d = ((None, None, None), d') \<and> up d' \<and> q d' = (q d)(key := q d key @ [b])))"

definition rl_pop_law :: "'d redis_list \<Rightarrow> ('d \<Rightarrow> bool) \<Rightarrow> ('d \<Rightarrow> string \<Rightarrow> bytes list) \<Rightarrow> bool" where
  "rl_pop_law R up q \<longleftrightarrow> (\<forall>key tmo d. up d \<longrightarrow>
     (q d key = [] \<longrightarrow> (\<exists>d'. rl_BLPop R None tmo key d = (Inl RedisNil, d') \<and> up d' \<and> q d' = q d)) \<and>
     (\<forall>b bs. q d key = b # bs \<longrightarrow>
        (\<exists>kb d'. rl_BLPop R None tmo key d = (Inr [kb, b], d') \<and> up d' \<and> q d' = (q d)(key := bs)) \<and>
        (\<exists>d'. rl_LPop R None key d = (Inr b, d') \<and> up d' \<and> q d' = (q d)(key := bs))))"

definition rl_len_law :: "'d redis_list \<Rightarrow> ('d \<Rightarrow> bool) \<Rightarrow> ('d \<Rightarrow> string \<Rightarrow> bytes list) \<Rightarrow> bool" where
  "rl_len_law R up q \<longleftrightarrow> (\<forall>key d. up d \<longrightarrow> (\<exists>d'.
     rl_LLen R None key d = (Inr (int (length (q d key))), d') \<and> up d' \<and> q d' = q d))"

definition rl_done_law :: "'d redis_list \<Rightarrow> ('d \<Rightarrow> string \<Rightarrow> bytes list) \<Rightarrow> bool" where
  "rl_done_law R q \<longleftrightarrow> (\<forall>e key b ttl d. \<exists>err x d'. rl_RPushExpire R (Some e) key b ttl d = ((Some err, x), d') \<and> q d' = q d)"

definition zip_law :: "'a zip \<Rightarrow> bool" where
  "zip_law Z \<longleftrightarrow> (\<forall>a. \<exists>b. ZlibCompressObject Z a = Inr b \<and> ZlibDecompressObject Z b = Inr a)"

definition rl_ref :: "(string \<Rightarrow> bytes list) redis_list" where
  "rl_ref = \<lparr>
     rl_RPushExpire = (\<lambda>ctx key b ttl d. case ctx of None \<Rightarrow> ((None, None, None), d(key := d key @ [b]))
                                              | Some e \<Rightarrow> ((Some e, Some e, Some e), d)),
     rl_BLPop = (\<lambda>ctx tmo key d. case ctx of Some e \<Rightarrow> (Inl e, d)
        | None \<Rightarrow> (case d key of [] \<Rightarrow> (Inl RedisNil, d) | b # bs \<Rightarrow> (Inr [[], b], d(key := bs)))),
     rl_LPop = (\<lambda>ctx key d. case ctx of Some e \<Rightarrow> (Inl e, d)
        | None \<Rightarrow> (case d key of [] \<Rightarrow> (Inl RedisNil, d) | b # bs \<Rightarrow> (Inr b, d(key := bs)))),
     rl_LLen = (\<lambda>ctx key d. case ctx of Some e \<Rightarrow> (Inl e, d) | None \<Rightarrow> (Inr (int (length (d key))), d))\<rparr>"

definition zip_ref :: "bytes zip" where
  "zip_ref = \<lparr>ZlibCompressObject = Inr, ZlibDecompressObject = Inr\<rparr>"

lemma rl_ref_laws: "rl_push_law rl_ref (\<lambda>_. True) (\<lambda>d. d)" "rl_pop_law rl_ref (\<lambda>_. True) (\<lambda>d. d)"
    "rl_len_law rl_ref (\<lambda>_. True) (\<lambda>d. d)" "rl_done_law rl_ref (\<lambda>d. d)" "zip_law zip_ref"
  by (simp_all add: rl_push_law_def rl_pop_law_def rl_len_law_def rl_done_law_def zip_law_def rl_ref_def zip_ref_def)

section \<open>Redis operations of a live context\<close>

text \<open>The messages a queue holds.\<close>

definition holds :: "'a zip \<Rightarrow> bytes list \<Rightarrow> 'a list \<Rightarrow> bool" where
  "holds Z bs ms \<longleftrightarrow> map (ZlibDecompressObject Z) bs = map Inr ms"

lemma holds_simps [simp]: "holds Z [] ms \<longleftrightarrow> ms = []"
    "holds Z (b # bs) ms \<longleftrightarrow> (\<exists>m ms'. ms = m # ms' \<and> ZlibDecompressObject Z b = Inr m \<and> holds Z bs ms')"
  by (cases ms; auto simp: holds_def)+

lemma holds_none [simp]: "holds Z bs [] \<longleftrightarrow> bs = []"
  by (cases bs) auto

lemma dch_push_simps [simp]:
  "dch_workers (dch_push m dc) = dch_workers dc" "dch_memChan (dch_push m dc) = dch_memChan dc @ [m]"
  "dch_config (dch_push m dc) = dch_config dc" "dch_queueKey (dch_push m dc) = dch_queueKey dc"
  "dch_cancelled (dch_push m dc) = dch_cancelled dc" "dch_ctx (dch_push m dc) = dch_ctx dc"
  by (simp_all add: dch_push_def dch_ctx_def)

lemma holds_append: "holds Z bs ms \<Longrightarrow> holds Z bs' ms' \<Longrightarrow> holds Z (bs @ bs') (ms @ ms')"
  by (simp add: holds_def)

lemma holds_length: "holds Z bs ms \<Longrightarrow> length bs = length ms"
  by (metis holds_def length_map)

lemma persist_ok:
  assumes "rl_push_law R up q" "zip_law Z" "up d" "holds Z (q d (dch_queueKey dc)) ms"
  obtains d' where "dc_persistToRedis R Z None data dc d = (None, d')" "up d'"
    "holds Z (q d' (dch_queueKey dc)) (ms @ [data])"
proof -
  obtain b where b: "ZlibCompressObject Z data = Inr b" "ZlibDecompressObject Z b = Inr data"
    using assms(2) by (auto simp: zip_law_def)
  obtain d' where d': "rl_RPushExpire R None (dch_queueKey dc) b (dcc_TTL (dch_config dc)) d = ((None, None, None), d')"
    "up d'" "q d' = (q d)(dch_queueKey dc := q d (dch_queueKey dc) @ [b])"
    using assms(1,3) unfolding rl_push_law_def by blast
  show thesis using that [of d'] b d' assms(4) by (simp add: dc_persistToRedis_def holds_append)
qed

lemma pull_empty:
  assumes "rl_pop_law R up q" "up d" "q d (dch_queueKey dc) = []"
  obtains d' where "dc_pullFromRedis R Z None dc d = (Inl ErrNoData, d')" "up d'" "q d' = q d"
proof -
  obtain d1 where "rl_BLPop R None (blpopTimeout (dcc_PollInterval (dch_config dc))) (dch_queueKey dc) d = (Inl RedisNil, d1)"
    "up d1" "q d1 = q d" using assms unfolding rl_pop_law_def by blast
  then show thesis using that [of d1] by (simp add: dc_pullFromRedis_def)
qed

lemma pull_some:
  assumes "rl_pop_law R up q" "up d" "holds Z (q d (dch_queueKey dc)) (m # ms)"
  obtains d' where "dc_pullFromRedis R Z None dc d = (Inr m, d')" "up d'" "holds Z (q d' (dch_queueKey dc)) ms"
proof -
  obtain b bs where q: "q d (dch_queueKey dc) = b # bs" "ZlibDecompressObject Z b = Inr m" "holds Z bs ms"
    using assms(3) by (cases "q d (dch_queueKey dc)") auto
  obtain kb d1 where "rl_BLPop R None (blpopTimeout (dcc_PollInterval (dch_config dc))) (dch_queueKey dc) d = (Inr [kb, b], d1)"
    "up d1" "q d1 = (q d)(dch_queueKey dc := bs)" using assms(1,2) q(1) unfolding rl_pop_law_def by blast
  then show thesis using that [of d1] q by (simp add: dc_pullFromRedis_def dc_decompress_def)
qed

lemma lpop_some:
  assumes "rl_pop_law R up q" "up d" "q d (dch_queueKey dc) = b # bs" "holds Z (b # bs) (m # ms)"
  obtains d' where "dc_pullFromRedisNonBlocking R Z None dc d = (Inr m, d')" "up d'" "q d' = (q d)(dch_queueKey dc := bs)"
proof -
  obtain d2 where "rl_LPop R None (dch_queueKey dc) d = (Inr b, d2)" "up d2" "q d2 = (q d)(dch_queueKey dc := bs)"
    using assms(1-3) unfolding rl_pop_law_def by blast
  then show thesis using that [of d2] assms(4) by (simp add: dc_pullFromRedisNonBlocking_def dc_decompress_def)
qed

section \<open>Polling interval\<close>

text \<open>
  The timeout given to \<open>BLPOP\<close> is a whole number of seconds, at least one, never below the
  configured interval, and less than a second above it where the interval is at least a second.
\<close>
theorem blpop_timeout_bounds:
  assumes "d \<le> max_int64 - second"
  shows "blpopTimeout d mod second = 0 \<and> second \<le> blpopTimeout d \<and> d \<le> blpopTimeout d \<and>
    blpopTimeout d < max d 0 + second + (if d < second then 1 else 0) \<and> in_int64 (blpopTimeout d)"
proof (cases "d < second \<or> d mod second = 0")
  case True
  then show ?thesis using assms
    by (auto simp: blpopTimeout_def blpopMinTimeout_def second_def in_int64_def min_int64_def max_int64_def)
next
  case False
  define r where "r = d mod second"
  have r: "0 < r" "r < second" "second \<le> d" "(d - r) mod second = 0"
    using False by (auto simp: r_def second_def pos_mod_bound mod_diff_right_eq order_less_le minus_mod_eq_mult_div)
  have i: "in_int64 (d - r + second)" using r(1,2,3) assms by (auto simp: in_int64_def min_int64_def max_int64_def second_def)
  have b: "blpopTimeout d = d - r + second"
    using False r(1) wrap64_id [OF i] by (simp add: blpopTimeout_def blpopMinTimeout_def Let_def r_def)
  have "(d - r + second) mod second = 0" using r(4) by (metis mod_add_self2)
  then show ?thesis unfolding b using r(1-3) i by auto
qed

lemma blpop_timeout_bounds_witness:
  "(1500000000 :: int) \<le> max_int64 - second \<and> blpopTimeout 1500000000 mod second = 0 \<and> 1500000000 \<le> blpopTimeout 1500000000"
  using blpop_timeout_bounds [of 1500000000] by (simp add: max_int64_def second_def)

section \<open>Recovery\<close>

lemma recover_loop:
  assumes "rl_pop_law R up q" "up d" "holds Z (q d (dch_queueKey dc)) ms" "\<not> dch_cancelled dc"
    "int (length (dch_memChan dc) + n) \<le> dcc_BufferSize (dch_config dc)" "n \<le> length ms"
  shows "\<exists>d'. dc_recover_loop R Z n dc d = (dc\<lparr>dch_memChan := dch_memChan dc @ take n ms\<rparr>, d') \<and> up d' \<and>
    holds Z (q d' (dch_queueKey dc)) (drop n ms)"
  using assms(2-6)
proof (induction n arbitrary: dc d ms)
  case (Suc n)
  obtain m ms' where ms: "ms = m # ms'" using Suc.prems(5) by (cases ms) auto
  obtain b bs where q: "q d (dch_queueKey dc) = b # bs" "holds Z (b # bs) (m # ms')"
    using Suc.prems(2) ms by (cases "q d (dch_queueKey dc)") auto
  obtain d' where d': "dc_pullFromRedisNonBlocking R Z None dc d = (Inr m, d')" "up d'" "q d' = (q d)(dch_queueKey dc := bs)"
    using lpop_some [OF assms(1) Suc.prems(1) q] .
  let ?dc = "dch_push m dc"
  have "\<exists>d''. dc_recover_loop R Z n ?dc d' = (?dc\<lparr>dch_memChan := dch_memChan ?dc @ take n ms'\<rparr>, d'') \<and> up d'' \<and>
      holds Z (q d'' (dch_queueKey ?dc)) (drop n ms')"
    using Suc.prems q(2) d'(2,3) ms by (intro Suc.IH) (simp_all add: dch_push_def)
  moreover have "dch_room dc" using Suc.prems(4) by (simp add: dch_room_def)
  moreover have "dch_ctx dc = None" using Suc.prems(3) by (simp add: dch_ctx_def)
  ultimately show ?case using d'(1) ms by (auto simp: dch_push_def)
qed simp

lemma start_workers: "(dc_startWorker ^^ n) dc = dc\<lparr>dch_workers := dch_workers dc @ replicate n WHead\<rparr>"
  by (induction n) (simp_all add: dc_startWorker_def replicate_append_same)

lemma dc_defaults_simps:
  assumes "mathx_laws X"
  shows "0 < dcc_BufferSize (dc_defaults X cfg)" "dcc_PersistenceMode (dc_defaults X cfg) = dcc_PersistenceMode cfg"
    "dcc_RecoveryOnStart (dc_defaults X cfg) = dcc_RecoveryOnStart cfg"
    "dcc_PersistenceMode cfg \<noteq> PersistSync \<Longrightarrow>
      dcc_WorkerCount (dc_defaults X cfg) = (if dcc_WorkerCount cfg = 0 then 1 else dcc_WorkerCount cfg)"
  using assms by (simp_all add: dc_defaults_def Let_def mathx_lawsD)

text \<open>
  A consumer that starts on a queue left in Redis takes over its messages in order, as many as its
  buffer holds, and leaves the rest in Redis in order; nothing is lost or doubled.
\<close>
theorem dc_recovers:
  assumes "mathx_laws X" "rl_pop_law R up q" "rl_len_law R up q" "up d" "dcc_Name cfg \<noteq> []"
    and "dcc_PersistenceMode cfg \<noteq> PersistSync" "dcc_RecoveryOnStart cfg"
    and "key = GetQueueKey (dc_defaults X cfg)" "holds Z (q d key) ms" "n = nat (dcc_BufferSize (dc_defaults X cfg))"
  shows "\<exists>dc d'. NewDurableChannel X R Z cfg d = (Inr dc, d') \<and> up d' \<and> dch_queueKey dc = key \<and>
    dch_memChan dc = take n ms \<and> holds Z (q d' key) (drop n ms) \<and> \<not> dch_cancelled dc \<and>
    dch_workers dc = replicate (nat (dcc_WorkerCount (dc_defaults X cfg))) WHead"
proof -
  define cf where "cf = dc_defaults X cfg"
  define dc where "dc = \<lparr>dch_config = cf, dch_queueKey = key, dch_memChan = take 0 ms, dch_memClosed = False,
    dch_cancelled = False, dch_closed = False,
    dch_pool = (if dcc_PersistenceMode cf = PersistAsync then Some [] else None), dch_workers = []\<rparr>"
  obtain d1 where d1: "rl_LLen R None key d = (Inr (int (length (q d key))), d1)" "up d1" "q d1 = q d"
    using assms(3,4) unfolding rl_len_law_def by blast
  have len: "length (q d key) = length ms" using holds_length [OF assms(9)] .
  define k where "k = min (length ms) n"
  have tk: "take k ms = take n ms" "drop k ms = drop n ms" by (simp_all add: k_def min_def)
  have B: "dcc_BufferSize cf = int n" using dc_defaults_simps(1) [OF assms(1), of cfg] assms(10) by (simp add: cf_def)
  have "\<exists>d'. dc_recover_loop R Z k dc d1 = (dc\<lparr>dch_memChan := dch_memChan dc @ take k ms\<rparr>, d') \<and> up d' \<and>
      holds Z (q d' (dch_queueKey dc)) (drop k ms)"
    using d1 assms(9) B by (intro recover_loop [OF assms(2)]) (simp_all add: dc_def k_def)
  then obtain d' where d': "dc_recover_loop R Z k dc d1 = (dc\<lparr>dch_memChan := take n ms\<rparr>, d')" "up d'" "holds Z (q d' key) (drop n ms)"
    using tk by (auto simp: dc_def)
  have k: "k = nat (min (int (length ms)) (int n))" by (simp add: k_def)
  have "dc_recoverMessages R Z dc d = (dc\<lparr>dch_memChan := take n ms\<rparr>, d')"
  proof (cases "ms = []")
    case True
    then show ?thesis using d1(1) d'(1) len by (simp add: dc_recoverMessages_def dch_ctx_def k_def dc_def)
  next
    case False
    then show ?thesis using d1(1) d'(1) len B k by (simp add: dc_recoverMessages_def dch_ctx_def dc_def)
  qed
  then have "NewDurableChannel X R Z cfg d =
      (Inr ((dc_startWorker ^^ nat (dcc_WorkerCount cf)) (dc\<lparr>dch_memChan := take n ms\<rparr>)), d')"
    using assms(5-8) dc_defaults_simps(2,3) [OF assms(1), of cfg]
    by (simp add: NewDurableChannel_def Let_def cf_def dc_def)
  then show ?thesis using d'(2,3) by (auto simp: start_workers dc_def cf_def)
qed

definition dc_demo_cfg :: DurableChannelConfig where
  "dc_demo_cfg = (DefaultDurableChannelConfig ''jobs'')\<lparr>dcc_BufferSize := 2\<rparr>"

lemma dc_recovers_witness:
  "\<exists>dc d'. NewDurableChannel mathx_ref rl_ref zip_ref dc_demo_cfg ((\<lambda>_. [])(''dchan:jobs:0:queue'' := [[1], [2], [3]])) = (Inr dc, d') \<and>
     dch_memChan dc = [[1], [2]] \<and> d' ''dchan:jobs:0:queue'' = [[3]]"
proof -
  have c: "dc_defaults mathx_ref dc_demo_cfg = dc_demo_cfg"
    by (simp add: dc_defaults_def dc_demo_cfg_def DefaultDurableChannelConfig_def mathx_ref_def Let_def persist_modes
        blpopMinTimeout_def second_def day_def)
  have k: "''dchan:jobs:0:queue'' = GetQueueKey (dc_defaults mathx_ref dc_demo_cfg)"
    unfolding c by (simp add: GetQueueKey_def dc_demo_cfg_def DefaultDurableChannelConfig_def show_int_0)
  have h: "holds zip_ref (((\<lambda>_. [])(''dchan:jobs:0:queue'' := [[1], [2], [3]])) ''dchan:jobs:0:queue'') [[1], [2], [3]]"
    by (simp add: zip_ref_def)
  have "2 = nat (dcc_BufferSize (dc_defaults mathx_ref dc_demo_cfg))" unfolding c by (simp add: dc_demo_cfg_def)
  from dc_recovers [where d = "(\<lambda>_. [])(''dchan:jobs:0:queue'' := [[1], [2], [3]])", OF mathx_ref_laws rl_ref_laws(2,3) TrueI _ _ _ k h this]
  obtain dc d' where r: "NewDurableChannel mathx_ref rl_ref zip_ref dc_demo_cfg ((\<lambda>_. [])(''dchan:jobs:0:queue'' := [[1], [2], [3]])) = (Inr dc, d')"
    "dch_memChan dc = take 2 [[1], [2], [3]]" "holds zip_ref (d' ''dchan:jobs:0:queue'') (drop 2 [[1], [2], [3]])"
    by (auto simp: dc_demo_cfg_def DefaultDurableChannelConfig_def persist_modes)
  then have "d' ''dchan:jobs:0:queue'' = [[3]]"
    by (cases "d' ''dchan:jobs:0:queue''") (simp_all add: zip_ref_def)
  with r show ?thesis by (simp add: numeral_2_eq_2)
qed

section \<open>No loss and no duplication\<close>

text \<open>
  A consumer's channel, the server, and what producers have sent and receivers have got so far. A
  producer is another channel \<open>p\<close> in synchronous mode with the same queue.
\<close>

record ('a, 'd) dc_system =
  dy_chan :: "'a DurableChannel"
  dy_redis :: 'd
  dy_sent :: "'a list"
  dy_got :: "'a list"

inductive dc_step ::
  "'d redis_list \<Rightarrow> 'a zip \<Rightarrow> 'a DurableChannel \<Rightarrow> ('a, 'd) dc_system \<Rightarrow> ('a, 'd) dc_system \<Rightarrow> bool"
  for R Z p where
  sends: "dc_Send R Z pick acc None data p (dy_redis S) = (Some None, p', d') \<Longrightarrow>
    dc_step R Z p S (S\<lparr>dy_redis := d', dy_sent := dy_sent S @ [data]\<rparr>)"
| works: "i < length (dch_workers (dy_chan S)) \<Longrightarrow>
    dc_worker R Z pick (dch_workers (dy_chan S) ! i) (dy_chan S) (dy_redis S) = Some (w, dc, d') \<Longrightarrow>
    dc_step R Z p S (S\<lparr>dy_chan := dc\<lparr>dch_workers := (dch_workers dc)[i := w]\<rparr>, dy_redis := d'\<rparr>)"
| receives: "dc_TryReceive zero pick None (dy_chan S) = ((data, True), dc) \<Longrightarrow>
    dc_step R Z p S (S\<lparr>dy_chan := dc, dy_got := dy_got S @ [data]\<rparr>)"

text \<open>The messages a worker has taken out of Redis and not yet put into memory.\<close>

fun held :: "'a worker \<Rightarrow> 'a list" where
  "held (WGot (Inr data)) = [data]"
| "held _ = []"

abbreviation all_held :: "'a DurableChannel \<Rightarrow> 'a list" where
  "all_held dc \<equiv> concat (map held (dch_workers dc))"

definition dc_inv ::
  "('d \<Rightarrow> bool) \<Rightarrow> ('d \<Rightarrow> string \<Rightarrow> bytes list) \<Rightarrow> 'a zip \<Rightarrow> 'a DurableChannel \<Rightarrow> ('a, 'd) dc_system \<Rightarrow> 'a list \<Rightarrow> bool" where
  "dc_inv up q Z p S ms \<longleftrightarrow>
     up (dy_redis S) \<and> dch_queueKey (dy_chan S) = dch_queueKey p \<and> \<not> dch_cancelled (dy_chan S) \<and> \<not> dch_memClosed (dy_chan S) \<and>
     int (length (dch_memChan (dy_chan S))) \<le> dcc_BufferSize (dch_config (dy_chan S)) \<and>
     holds Z (q (dy_redis S) (dch_queueKey p)) ms \<and>
     mset (dy_sent S) = mset (dy_got S) + mset (dch_memChan (dy_chan S)) + mset (all_held (dy_chan S)) + mset ms \<and>
     (length (dch_workers (dy_chan S)) = 1 \<longrightarrow>
        dy_sent S = dy_got S @ dch_memChan (dy_chan S) @ all_held (dy_chan S) @ ms)"

lemma single_worker: "length ws = 1 \<Longrightarrow> i < length ws \<Longrightarrow> ws[i := w] = [w] \<and> ws = [ws ! i]"
  by (cases ws) auto

lemma inv_sends:
  assumes "rl_push_law R up q" "zip_law Z" "dcc_PersistenceMode (dch_config p) = PersistSync"
    "dc_inv up q Z p S ms" "dc_Send R Z pick acc None data p (dy_redis S) = (Some None, p', d')"
  shows "dc_inv up q Z p (S\<lparr>dy_redis := d', dy_sent := dy_sent S @ [data]\<rparr>) (ms @ [data])"
proof -
  obtain d'' where d'': "dc_persistToRedis R Z None data p (dy_redis S) = (None, d'')" "up d''"
    "holds Z (q d'' (dch_queueKey p)) (ms @ [data])"
    using assms(4) by (auto simp: dc_inv_def intro: persist_ok [OF assms(1,2)])
  then have "d' = d''" using assms(3,5) by (simp add: dc_Send_def split: if_splits)
  with d'' assms(4) show ?thesis by (simp add: dc_inv_def)
qed

lemma inv_receives:
  assumes "dc_inv up q Z p S ms" "dc_TryReceive zero pick None (dy_chan S) = ((data, True), dc)"
  shows "dc_inv up q Z p (S\<lparr>dy_chan := dc, dy_got := dy_got S @ [data]\<rparr>) ms"
proof -
  obtain rest where "dch_memChan (dy_chan S) = data # rest" "dc = (dy_chan S)\<lparr>dch_memChan := rest\<rparr>"
    using assms by (auto simp: dc_TryReceive_def dc_Receive_def go_select_def Let_def dc_inv_def
        split: list.splits if_splits)
  then show ?thesis using assms(1) by (auto simp: dc_inv_def)
qed

lemma inv_moves:
  assumes "dc_inv up q Z p S ms" "i < length (dch_workers (dy_chan S))"
    and "held w = held (dch_workers (dy_chan S) ! i)" "up d'" "q d' = q (dy_redis S)"
  shows "dc_inv up q Z p (S\<lparr>dy_chan := (dy_chan S)\<lparr>dch_workers := (dch_workers (dy_chan S))[i := w]\<rparr>, dy_redis := d'\<rparr>) ms"
  using assms map_update_same [OF assms(2), of held w] by (simp add: dc_inv_def)

lemma inv_pulls:
  assumes "dc_inv up q Z p S (m # ms)" "i < length (dch_workers (dy_chan S))"
    and "dch_workers (dy_chan S) ! i = WPull" "up d'" "holds Z (q d' (dch_queueKey p)) ms"
  shows "dc_inv up q Z p (S\<lparr>dy_chan := (dy_chan S)\<lparr>dch_workers := (dch_workers (dy_chan S))[i := WGot (Inr m)]\<rparr>, dy_redis := d'\<rparr>) ms"
  using assms mset_concat_update [OF assms(2), of held "WGot (Inr m)"] single_worker [OF _ assms(2), of "WGot (Inr m)"]
  by (auto simp: dc_inv_def)

lemma inv_pushes:
  assumes "dc_inv up q Z p S ms" "i < length (dch_workers (dy_chan S))"
    and "dch_workers (dy_chan S) ! i = WGot (Inr m)" "dch_room (dy_chan S)"
  shows "dc_inv up q Z p (S\<lparr>dy_chan := (dch_push m (dy_chan S))\<lparr>dch_workers := (dch_workers (dy_chan S))[i := WHead]\<rparr>\<rparr>) ms"
  using assms mset_concat_update [OF assms(2), of held WHead] single_worker [OF _ assms(2), of WHead]
  by (auto simp: dc_inv_def dch_push_def dch_room_def)

lemma inv_works:
  assumes "rl_pop_law R up q" "dc_inv up q Z p S ms" "i < length (dch_workers (dy_chan S))"
    and "dc_worker R Z pick (dch_workers (dy_chan S) ! i) (dy_chan S) (dy_redis S) = Some (w, dc, d')"
  shows "\<exists>ms'. dc_inv up q Z p (S\<lparr>dy_chan := dc\<lparr>dch_workers := (dch_workers dc)[i := w]\<rparr>, dy_redis := d'\<rparr>) ms'"
proof -
  have nc: "\<not> dch_cancelled (dy_chan S)" "dch_ctx (dy_chan S) = None" "up (dy_redis S)"
    and k: "dch_queueKey (dy_chan S) = dch_queueKey p" and h: "holds Z (q (dy_redis S) (dch_queueKey p)) ms"
    using assms(2) by (simp_all add: dc_inv_def dch_ctx_def)
  show ?thesis
  proof (cases "dch_workers (dy_chan S) ! i")
    case WHead
    then have "w = WPull" "dc = dy_chan S" "d' = dy_redis S" using assms(4) nc by (simp_all add: dc_worker_def)
    then show ?thesis using inv_moves [OF assms(2,3), of WPull "dy_redis S"] WHead nc by auto
  next
    case WPull
    show ?thesis
    proof (cases ms)
      case Nil
      then have "q (dy_redis S) (dch_queueKey (dy_chan S)) = []" using holds_length [OF h] by (simp add: k)
      then obtain d1 where "dc_pullFromRedis R Z None (dy_chan S) (dy_redis S) = (Inl ErrNoData, d1)" "up d1" "q d1 = q (dy_redis S)"
        using pull_empty [OF assms(1) nc(3)] by metis
      then show ?thesis
        using assms(4) WPull nc inv_moves [OF assms(2,3), of "WGot (Inl ErrNoData)" d1] by (auto simp: dc_worker_def)
    next
      case (Cons m ms')
      obtain d1 where "dc_pullFromRedis R Z None (dy_chan S) (dy_redis S) = (Inr m, d1)" "up d1"
        "holds Z (q d1 (dch_queueKey p)) ms'"
        using pull_some [OF assms(1) nc(3), of Z "dy_chan S" m ms'] h Cons k by metis
      then show ?thesis
        using assms(4) WPull nc inv_pulls [OF assms(2)[unfolded Cons] assms(3) WPull, of d1] by (auto simp: dc_worker_def)
    qed
  next
    case (WGot r)
    show ?thesis
    proof (cases r)
      case (Inl err)
      then have "w = WHead" "dc = dy_chan S" "d' = dy_redis S" using assms(4) nc WGot by (auto simp: dc_worker_def split: if_splits)
      then show ?thesis using inv_moves [OF assms(2,3), of WHead "dy_redis S"] WGot Inl nc by auto
    next
      case (Inr m)
      then have "dch_room (dy_chan S) \<and> w = WHead \<and> dc = dch_push m (dy_chan S) \<and> d' = dy_redis S"
        using assms(4) nc WGot by (auto simp: dc_worker_def go_select_def Let_def split: if_splits)
      then show ?thesis using inv_pushes [OF assms(2,3), of m] WGot Inr by auto
    qed
  next
    case WDone
    then show ?thesis using assms(4) by (simp add: dc_worker_def)
  qed
qed

lemma dc_inv_steps:
  assumes "(dc_step R Z p)\<^sup>*\<^sup>* S S'" "rl_push_law R up q" "rl_pop_law R up q" "zip_law Z"
    "dcc_PersistenceMode (dch_config p) = PersistSync" "dc_inv up q Z p S ms"
  shows "\<exists>ms'. dc_inv up q Z p S' ms'"
  using assms(1)
proof (induction rule: rtranclp_induct)
  case base
  then show ?case using assms(6) by blast
next
  case (step S1 S2)
  then obtain ms1 where i: "dc_inv up q Z p S1 ms1" by blast
  from step(2) show ?case
  proof cases
    case (sends pick acc data p' d')
    then show ?thesis using inv_sends [OF assms(2,4,5) i] by blast
  next
    case (works i pick w dc d')
    then show ?thesis using inv_works [OF assms(3) i] by blast
  next
    case (receives zero pick data dc)
    then show ?thesis using inv_receives [OF i] by blast
  qed
qed

text \<open>
  C5: On a channel that is neither closed nor cancelled, whose producers are in the mode \<open>PersistSync\<close> and
  whose Redis answers and does not let the list expire, every message sent is, at every moment and for
  any number of workers and any interleaving of sends, workers and receives, exactly once received, in
  memory, in the hands of a worker or in Redis, and the memory buffer stays within its size. With a
  single worker the messages are received in the order in which they were sent.
\<close>
theorem dc_no_loss:
  assumes "rl_push_law R up q" "rl_pop_law R up q" "zip_law Z" "dcc_PersistenceMode (dch_config p) = PersistSync"
    and "(dc_step R Z p)\<^sup>*\<^sup>* \<lparr>dy_chan = dc, dy_redis = d, dy_sent = [], dy_got = []\<rparr> S"
    and "up d" "dch_queueKey dc = dch_queueKey p" "\<not> dch_cancelled dc" "\<not> dch_memClosed dc" "q d (dch_queueKey p) = []"
    and "dch_memChan dc = []" "0 \<le> dcc_BufferSize (dch_config dc)" "dch_workers dc = replicate n WHead"
  shows "\<exists>ms. holds Z (q (dy_redis S) (dch_queueKey p)) ms \<and>
      mset (dy_sent S) = mset (dy_got S) + mset (dch_memChan (dy_chan S)) + mset (all_held (dy_chan S)) + mset ms \<and>
      int (length (dch_memChan (dy_chan S))) \<le> dcc_BufferSize (dch_config (dy_chan S)) \<and>
      (length (dch_workers (dy_chan S)) \<noteq> 1 \<or> take (length (dy_got S)) (dy_sent S) = dy_got S)"
proof -
  have "dc_inv up q Z p \<lparr>dy_chan = dc, dy_redis = d, dy_sent = [], dy_got = []\<rparr> []"
    using assms(6-13) by (simp add: dc_inv_def)
  then obtain ms where "dc_inv up q Z p S ms" using dc_inv_steps [OF assms(5,1-4)] by blast
  then show ?thesis by (intro exI [of _ ms]) (auto simp: dc_inv_def)
qed

definition dc_sync :: "bytes DurableChannel" where
  "dc_sync = \<lparr>dch_config = (DefaultDurableChannelConfig ''jobs'')\<lparr>dcc_PersistenceMode := PersistSync\<rparr>, dch_queueKey = ''jobs'',
     dch_memChan = [], dch_memClosed = False, dch_cancelled = False, dch_closed = False, dch_pool = None, dch_workers = []\<rparr>"

definition dc_hybrid :: "bytes DurableChannel" where
  "dc_hybrid = dc_sync\<lparr>dch_config := DefaultDurableChannelConfig ''jobs'', dch_workers := [WHead]\<rparr>"

lemma dc_no_loss_witness:
  "\<exists>S. (dc_step rl_ref zip_ref dc_sync)\<^sup>*\<^sup>* \<lparr>dy_chan = dc_hybrid, dy_redis = (\<lambda>_. []), dy_sent = [], dy_got = []\<rparr> S \<and>
     dy_sent S = [[7]] \<and> (\<exists>ms. holds zip_ref (dy_redis S ''jobs'') ms \<and>
       mset [[7]] = mset (dy_got S) + mset (dch_memChan (dy_chan S)) + mset (all_held (dy_chan S)) + mset ms)"
proof -
  let ?S = "\<lparr>dy_chan = dc_hybrid, dy_redis = (\<lambda>_ :: string. [] :: bytes list), dy_sent = [], dy_got = []\<rparr>"
  define S where "S = ?S\<lparr>dy_redis := (\<lambda>_. [])(''jobs'' := [[7]]), dy_sent := dy_sent ?S @ [[7]]\<rparr>"
  have m: "dcc_PersistenceMode (dch_config dc_sync) = PersistSync" by (simp add: dc_sync_def)
  have "dc_Send rl_ref zip_ref 0 False None [7] dc_sync (dy_redis ?S) = (Some None, dc_sync, (\<lambda>_. [])(''jobs'' := [[7]]))"
    by (simp add: dc_Send_def dc_persistToRedis_def dc_sync_def rl_ref_def zip_ref_def)
  then have st: "(dc_step rl_ref zip_ref dc_sync)\<^sup>*\<^sup>* ?S S"
    unfolding S_def by (intro r_into_rtranclp dc_step.sends)
  have "\<exists>ms. holds zip_ref (dy_redis S (dch_queueKey dc_sync)) ms \<and>
      mset (dy_sent S) = mset (dy_got S) + mset (dch_memChan (dy_chan S)) + mset (all_held (dy_chan S)) + mset ms \<and>
      int (length (dch_memChan (dy_chan S))) \<le> dcc_BufferSize (dch_config (dy_chan S)) \<and>
      (length (dch_workers (dy_chan S)) \<noteq> 1 \<or> take (length (dy_got S)) (dy_sent S) = dy_got S)"
    by (rule dc_no_loss [OF rl_ref_laws(1,2,5) m st, where n = 1])
      (simp_all add: dc_hybrid_def dc_sync_def DefaultDurableChannelConfig_def)
  then show ?thesis using st by (intro exI [of _ S]) (auto simp: S_def dc_sync_def)
qed

section \<open>Where the code goes wrong\<close>

text \<open>
  In the default hybrid mode a message is delivered twice. \<open>Send\<close> leaves it in Redis and in memory;
  nothing takes it out of Redis when it is received from memory, so a worker pulls it again.
\<close>
theorem dc_hybrid_twice:
  assumes "rl_push_law R up q" "rl_pop_law R up q" "zip_law Z" "up d"
    and "dcc_PersistenceMode (dch_config dc) = PersistHybrid" "2 \<le> dcc_BufferSize (dch_config dc)"
    and "\<not> dch_closed dc" "\<not> dch_cancelled dc" "\<not> dch_memClosed dc" "dch_memChan dc = []" "q d (dch_queueKey dc) = []"
    and "dc_Send R Z pick acc None data dc d = (r, dc1, d1)"
  shows "r = Some None \<and> (\<exists>d2 dc2. dc_worker R Z pick WPull dc1 d1 = Some (WGot (Inr data), dc1, d2) \<and>
    dc_worker R Z pick (WGot (Inr data)) dc1 d2 = Some (WHead, dc2, d2) \<and> dch_memChan dc2 = [data, data])"
proof -
  obtain d' where d': "dc_persistToRedis R Z None data dc d = (None, d')" "up d'" "holds Z (q d' (dch_queueKey dc)) ([] @ [data])"
    using persist_ok [OF assms(1,3,4), of dc "[]" data] assms(11) by auto
  have "dch_room dc" using assms(6,10) by (simp add: dch_room_def)
  then have "(r, dc1, d1) = (Some None, dch_push data dc, d')"
    using assms(5,7-9,12) d'(1) by (simp add: dc_Send_def persist_modes dc_send_hybrid_def go_select_def)
  then have r: "r = Some None" "dc1 = dch_push data dc" "d1 = d'" by simp_all
  obtain d2 where "dc_pullFromRedis R Z None dc1 d1 = (Inr data, d2)"
    using pull_some [OF assms(2) d'(2), of Z dc1 data "[]"] d'(3) r by auto
  moreover have "dch_room dc1" using assms(6,10) r by (simp add: dch_room_def)
  moreover have "dch_ctx dc1 = None" "\<not> dch_cancelled dc1" using assms(8) r by (simp_all add: dch_ctx_def)
  ultimately show ?thesis using r assms(10) by (simp add: dc_worker_def go_select_def)
qed

lemma dc_hybrid_twice_witness:
  "\<exists>r dc1 d1 d2 dc2. dc_Send rl_ref zip_ref 0 False None [7] dc_hybrid (\<lambda>_. []) = (r, dc1, d1) \<and>
     dc_worker rl_ref zip_ref 0 (WGot (Inr [7])) dc1 d2 = Some (WHead, dc2, d2) \<and> dch_memChan dc2 = [[7], [7]]"
proof -
  obtain r dc1 d1 where s: "dc_Send rl_ref zip_ref 0 False None [7] dc_hybrid (\<lambda>_. []) = (r, dc1, d1)" by (metis prod.collapse)
  have "dcc_PersistenceMode (dch_config dc_hybrid) = PersistHybrid" "2 \<le> dcc_BufferSize (dch_config dc_hybrid)"
    "\<not> dch_closed dc_hybrid" "\<not> dch_cancelled dc_hybrid" "\<not> dch_memClosed dc_hybrid" "dch_memChan dc_hybrid = []"
    by (simp_all add: dc_hybrid_def dc_sync_def DefaultDurableChannelConfig_def)
  from dc_hybrid_twice [OF rl_ref_laws(1,2,5) TrueI this _ s] s show ?thesis by blast
qed

text \<open>
  A message that a worker has pulled from Redis when the channel is closed is lost if the memory
  buffer is full: the worker can only try to write it back with the context that \<open>Close\<close> has cancelled.
\<close>
theorem dc_close_loses:
  assumes "rl_done_law R q" "zip_law Z" "\<not> dch_closed dc" "\<not> dch_room dc"
  shows "\<exists>d'. dc_worker R Z pick (WGot (Inr data)) (dc_Close_begin dc) d = Some (WDone, dc_Close_begin dc, d') \<and> q d' = q d"
proof -
  let ?dc = "dc_Close_begin dc"
  have c: "dch_cancelled ?dc" "dch_ctx ?dc = Some CtxCanceled" "\<not> dch_room ?dc"
    using assms(3,4) by (simp_all add: dc_Close_begin_def dch_ctx_def dch_room_def)
  obtain b where b: "ZlibCompressObject Z data = Inr b" using assms(2) by (auto simp: zip_law_def)
  obtain err x d' where "rl_RPushExpire R (Some CtxCanceled) (dch_queueKey ?dc) b (dcc_TTL (dch_config ?dc)) d = ((Some err, x), d')"
    "q d' = q d" using assms(1) unfolding rl_done_law_def by blast
  then have "snd (dc_persistToRedis R Z (dch_ctx ?dc) data ?dc d) = d'"
    using b c(2) by (simp add: dc_persistToRedis_def split: prod.split)
  then show ?thesis using c \<open>q d' = q d\<close> by (simp add: dc_worker_def go_select_def)
qed

lemma dc_close_loses_witness:
  "\<exists>d'. dc_worker rl_ref zip_ref 0 (WGot (Inr [3])) (dc_Close_begin (dc_hybrid\<lparr>dch_memChan := replicate 100 [1]\<rparr>)) (\<lambda>_. []) =
     Some (WDone, dc_Close_begin (dc_hybrid\<lparr>dch_memChan := replicate 100 [1]\<rparr>), d') \<and> d' = (\<lambda>_. [])"
proof -
  have "\<not> dch_closed (dc_hybrid\<lparr>dch_memChan := replicate 100 [1]\<rparr>)" "\<not> dch_room (dc_hybrid\<lparr>dch_memChan := replicate 100 [1]\<rparr>)"
    by (simp_all add: dc_hybrid_def dc_sync_def dch_room_def DefaultDurableChannelConfig_def)
  from dc_close_loses [OF rl_ref_laws(4,5) this] show ?thesis by blast
qed

text \<open>
  \<open>TryReceive\<close> on a closed and drained channel reports success: it returns the zero value with
  \<open>true\<close>, again and again, as if messages kept arriving.
\<close>
theorem dc_zero_after_close:
  assumes "dc_Close_end dc = Some dc'" "dch_memChan dc = []"
  shows "dc_TryReceive zero pick None dc' = ((zero, True), dc')"
proof -
  have "dch_memClosed dc'" "dch_memChan dc' = []" using assms by (auto simp: dc_Close_end_def split: if_splits)
  then show ?thesis by (simp add: dc_TryReceive_def dc_Receive_def go_select_def)
qed

lemma dc_zero_after_close_witness:
  "\<exists>dc'. dc_Close_end dc_sync = Some dc' \<and> dc_TryReceive [] 0 None dc' = (([], True), dc')"
proof -
  obtain dc' where "dc_Close_end dc_sync = Some dc'" by (simp add: dc_Close_end_def dc_sync_def)
  with dc_zero_after_close [OF this] show ?thesis by (simp add: dc_sync_def)
qed

end
