(* ===== verification/Id_Generator.thy ===== *)
theory Id_Generator
  imports Decimal Outside
begin

text \<open>
  \<open>IDGenerator\<close> of \<open>id_generator.go\<close>: identifiers made of a time prefix and a sequence number that a Lua
  script draws from a counter in Redis. The scripts are part of the source: they are modelled as the
  Redis commands they call, one after the other, with nothing in between; a command that fails ends
  its script. \<open>R\<close> are these commands, \<open>F\<close> is \<open>time.Format\<close>. Numbers in the scripts are exact up to
  \<open>2\<^sup>5\<^sup>3\<close>, and \<open>Seconds()\<close> is truncated exactly for times below half a year.
\<close>

record IDGenerator =
  ig_redisClient :: bool
  ig_keyPrefix :: string
  ig_timeFormat :: string
  ig_seqLength :: int
  ig_expire :: duration
  ig_seqStart :: int
  ig_idPrefix :: string
  ig_idSuffix :: string
  ig_separator :: string
  ig_OnSequenceInit :: "(time \<Rightarrow> int) option"

definition NewIDGenerator :: "bool \<Rightarrow> IDGenerator" where
  "NewIDGenerator redisClient =
     \<lparr>ig_redisClient = redisClient, ig_keyPrefix = ''default:key:prefix:'', ig_timeFormat = ''2006010215'',
      ig_seqLength = 6, ig_expire = 7200 * second, ig_seqStart = 1, ig_idPrefix = [], ig_idSuffix = [],
      ig_separator = [], ig_OnSequenceInit = None\<rparr>"

definition WithKeyPrefix :: "string \<Rightarrow> IDGenerator \<Rightarrow> IDGenerator" where
  "WithKeyPrefix x g = g\<lparr>ig_keyPrefix := x\<rparr>"

definition WithTimeFormat :: "string \<Rightarrow> IDGenerator \<Rightarrow> IDGenerator" where
  "WithTimeFormat x g = g\<lparr>ig_timeFormat := x\<rparr>"

definition WithSequenceLength :: "int \<Rightarrow> IDGenerator \<Rightarrow> IDGenerator" where
  "WithSequenceLength x g = g\<lparr>ig_seqLength := x\<rparr>"

definition WithExpire :: "duration \<Rightarrow> IDGenerator \<Rightarrow> IDGenerator" where
  "WithExpire x g = g\<lparr>ig_expire := x\<rparr>"

definition WithSequenceStart :: "int \<Rightarrow> IDGenerator \<Rightarrow> IDGenerator" where
  "WithSequenceStart x g = g\<lparr>ig_seqStart := x\<rparr>"

definition WithIDPrefix :: "string \<Rightarrow> IDGenerator \<Rightarrow> IDGenerator" where
  "WithIDPrefix x g = g\<lparr>ig_idPrefix := x\<rparr>"

definition WithIDSuffix :: "string \<Rightarrow> IDGenerator \<Rightarrow> IDGenerator" where
  "WithIDSuffix x g = g\<lparr>ig_idSuffix := x\<rparr>"

definition WithSeparator :: "string \<Rightarrow> IDGenerator \<Rightarrow> IDGenerator" where
  "WithSeparator x g = g\<lparr>ig_separator := x\<rparr>"

definition WithSequenceInitCallback :: "(time \<Rightarrow> int) option \<Rightarrow> IDGenerator \<Rightarrow> IDGenerator" where
  "WithSequenceInitCallback x g = g\<lparr>ig_OnSequenceInit := x\<rparr>"

section \<open>Formatting\<close>

definition getTimePrefix :: "(string \<Rightarrow> time \<Rightarrow> string) \<Rightarrow> time \<Rightarrow> IDGenerator \<Rightarrow> string" where
  "getTimePrefix F now g = F (ig_timeFormat g) now"

definition getRedisKey :: "string \<Rightarrow> IDGenerator \<Rightarrow> string" where
  "getRedisKey timePrefix g = ig_keyPrefix g @ timePrefix"

text \<open>The verb \<open>%0*d\<close>: zeros after the sign, spaces on the right for a negative width, and a note for a
  width beyond a million.\<close>

definition fmt_width :: "int \<Rightarrow> int \<Rightarrow> string" where
  "fmt_width w i =
     (if 1000000 < w \<or> w < -1000000 then ''%!(BADWIDTH)'' @ show_int i
      else if w < 0 then show_int i @ replicate (nat (- w) - length (show_int i)) CHR '' ''
      else if i < 0 then CHR ''-'' # replicate (nat w - length (show_int i)) CHR ''0'' @ show_nat (nat (- i))
      else replicate (nat w - length (show_int i)) CHR ''0'' @ show_nat (nat i))"

definition formatID :: "string \<Rightarrow> int \<Rightarrow> IDGenerator \<Rightarrow> string" where
  "formatID timePrefix seq g =
     (let seqStr = fmt_width (ig_seqLength g) seq;
          id1 = (if ig_separator g \<noteq> [] then timePrefix @ ig_separator g @ seqStr else timePrefix @ seqStr);
          id2 = (if ig_idPrefix g \<noteq> [] then ig_idPrefix g @ id1 else id1)
      in if ig_idSuffix g \<noteq> [] then id2 @ ig_idSuffix g else id2)"

section \<open>Redis\<close>

record 'd redis_seq =
  rs_net :: "'d \<Rightarrow> delivery"
  rs_Exists :: "time \<Rightarrow> string \<Rightarrow> 'd \<Rightarrow> int go_result \<times> 'd"
  rs_SetEx :: "time \<Rightarrow> string \<Rightarrow> int \<Rightarrow> int \<Rightarrow> 'd \<Rightarrow> go_error option \<times> 'd"
  rs_IncrBy :: "time \<Rightarrow> string \<Rightarrow> int \<Rightarrow> 'd \<Rightarrow> int go_result \<times> 'd"
  rs_Expire :: "time \<Rightarrow> string \<Rightarrow> int \<Rightarrow> 'd \<Rightarrow> go_error option \<times> 'd"
  rs_Set :: "time \<Rightarrow> string \<Rightarrow> int \<Rightarrow> duration \<Rightarrow> 'd \<Rightarrow> go_error option \<times> 'd"
  rs_Del :: "time \<Rightarrow> string \<Rightarrow> 'd \<Rightarrow> go_error option \<times> 'd"
  rs_GetInt :: "time \<Rightarrow> string \<Rightarrow> 'd \<Rightarrow> int go_result \<times> 'd"

text \<open>What \<open>Eval\<close> returns.\<close>

datatype lua_value = LInt int | LFloat int | LStr string | LList "lua_value list" | LOther string

definition eval_script :: "'d redis_seq \<Rightarrow> ('d \<Rightarrow> lua_value go_result \<times> 'd) \<Rightarrow> 'd \<Rightarrow> lua_value go_result \<times> 'd" where
  "eval_script R script d = deliver (rs_net R d) script d"

definition lua_init :: "'d redis_seq \<Rightarrow> time \<Rightarrow> string \<Rightarrow> int \<Rightarrow> int \<Rightarrow> int \<Rightarrow> 'd \<Rightarrow> go_error option \<times> 'd" where
  "lua_init R now key expire seqStart found d =
     (if found = 0 \<and> 1 < seqStart then rs_SetEx R now key (seqStart - 1) expire d else (None, d))"

definition lua_next :: "'d redis_seq \<Rightarrow> time \<Rightarrow> string \<Rightarrow> int \<Rightarrow> int \<Rightarrow> 'd \<Rightarrow> lua_value go_result \<times> 'd" where
  "lua_next R now key expire seqStart d =
     (case rs_Exists R now key d of
        (Inl err, d1) \<Rightarrow> (Inl err, d1)
      | (Inr found, d1) \<Rightarrow>
          (case lua_init R now key expire seqStart found d1 of
             (Some err, d2) \<Rightarrow> (Inl err, d2)
           | (None, d2) \<Rightarrow>
               (case rs_IncrBy R now key 1 d2 of
                  (Inl err, d3) \<Rightarrow> (Inl err, d3)
                | (Inr seq, d3) \<Rightarrow>
                    (case (if found = 0 \<and> seqStart \<le> 1 then rs_Expire R now key expire d3 else (None, d3)) of
                       (Some err, d4) \<Rightarrow> (Inl err, d4)
                     | (None, d4) \<Rightarrow> (Inr (LInt seq), d4)))))"

definition lua_batch :: "'d redis_seq \<Rightarrow> time \<Rightarrow> string \<Rightarrow> int \<Rightarrow> int \<Rightarrow> int \<Rightarrow> 'd \<Rightarrow> lua_value go_result \<times> 'd" where
  "lua_batch R now key expire n seqStart d =
     (case rs_Exists R now key d of
        (Inl err, d1) \<Rightarrow> (Inl err, d1)
      | (Inr found, d1) \<Rightarrow>
          (case lua_init R now key expire seqStart found d1 of
             (Some err, d2) \<Rightarrow> (Inl err, d2)
           | (None, d2) \<Rightarrow>
               (case rs_IncrBy R now key n d2 of
                  (Inl err, d3) \<Rightarrow> (Inl err, d3)
                | (Inr seq, d3) \<Rightarrow> (Inr (LList (map LInt [seq - n + 1..seq])), d3))))"

section \<open>Operations\<close>

definition no_client :: go_error where "no_client = FmtError ''redis client is not available''"

definition ig_start :: "time \<Rightarrow> IDGenerator \<Rightarrow> int" where
  "ig_start now g = (case ig_OnSequenceInit g of None \<Rightarrow> ig_seqStart g | Some cb \<Rightarrow> cb now)"

definition GenerateID ::
  "'d redis_seq \<Rightarrow> (string \<Rightarrow> time \<Rightarrow> string) \<Rightarrow> time \<Rightarrow> IDGenerator \<Rightarrow> 'd \<Rightarrow> string go_result \<times> 'd" where
  "GenerateID R F now g d =
     (if \<not> ig_redisClient g then (Inl no_client, d)
      else
        let timePrefix = getTimePrefix F now g;
            redisKey = getRedisKey timePrefix g;
            start = ig_start now g;
            expireSec = go_div (ig_expire g) second
        in (case eval_script R (lua_next R now redisKey expireSec start) d of
              (Inl err, d') \<Rightarrow> (Inl (Wrapped ''failed to generate sequence'' err), d')
            | (Inr (LInt seq), d') \<Rightarrow> (Inr (formatID timePrefix seq g), d')
            | (Inr _, d') \<Rightarrow> (Inl (FmtError ''unexpected sequence type''), d')))"

text \<open>\<open>Sscanf\<close> with \<open>%d\<close>: blanks, a sign, the longest run of digits; the value must be an \<open>int64\<close>.\<close>

definition sscanf_d :: "string \<Rightarrow> int option" where
  "sscanf_d v =
     (let s = dropWhile (\<lambda>c. c = CHR '' '' \<or> c = CHR 0x09) v;
          sign = takeWhile (\<lambda>c. c = CHR ''-'' \<or> c = CHR ''+'') (take 1 s)
      in (case scan_int (sign @ takeWhile is_digit (drop (length sign) s)) of
            Some i \<Rightarrow> if in_int64 i then Some i else None
          | None \<Rightarrow> None))"

fun seq_value :: "lua_value \<Rightarrow> int go_result" where
  "seq_value (LInt i) = Inr i"
| "seq_value (LFloat i) = Inr i"
| "seq_value (LStr v) =
     (case sscanf_d v of Some tmp \<Rightarrow> Inr tmp | None \<Rightarrow> Inl (FmtError (''invalid sequence value: '' @ v)))"
| "seq_value (LList _) = Inl (FmtError ''invalid sequence type: []interface {}'')"
| "seq_value (LOther ty) = Inl (FmtError (''invalid sequence type: '' @ ty))"

fun format_all :: "string \<Rightarrow> IDGenerator \<Rightarrow> lua_value list \<Rightarrow> string list \<Rightarrow> string list go_result" where
  "format_all timePrefix g [] ids = Inr ids"
| "format_all timePrefix g (s # seqs) ids =
     (case seq_value s of
        Inl err \<Rightarrow> Inl err
      | Inr seq \<Rightarrow> format_all timePrefix g seqs (ids @ [formatID timePrefix seq g]))"

definition GenerateIDs ::
  "'d redis_seq \<Rightarrow> (string \<Rightarrow> time \<Rightarrow> string) \<Rightarrow> time \<Rightarrow> int \<Rightarrow> IDGenerator \<Rightarrow> 'd \<Rightarrow> string list go_result \<times> 'd" where
  "GenerateIDs R F now n g d =
     (if \<not> ig_redisClient g then (Inl no_client, d)
      else if n \<le> 0 then (Inl (FmtError ''n must be positive''), d)
      else
        let timePrefix = getTimePrefix F now g;
            redisKey = getRedisKey timePrefix g;
            start = ig_start now g;
            expireSec = go_div (ig_expire g) second
        in (case eval_script R (lua_batch R now redisKey expireSec n start) d of
              (Inl err, d') \<Rightarrow> (Inl (Wrapped ''failed to batch generate sequence'' err), d')
            | (Inr (LList seqs), d') \<Rightarrow> (format_all timePrefix g seqs [], d')
            | (Inr _, d') \<Rightarrow> (Inl (FmtError ''unexpected lua result type''), d')))"

definition ResetSequence :: "'d redis_seq \<Rightarrow> time \<Rightarrow> string \<Rightarrow> IDGenerator \<Rightarrow> 'd \<Rightarrow> go_error option \<times> 'd" where
  "ResetSequence R now timePrefix g d =
     (if \<not> ig_redisClient g then (Some no_client, d)
      else
        let redisKey = getRedisKey timePrefix g in
        (case rs_Exists R now redisKey d of
           (Inl err, d1) \<Rightarrow> (Some (Wrapped ''failed to check key existence'' err), d1)
         | (Inr found, d1) \<Rightarrow>
             if found = 0
             then let start = ig_start now g in
               if 1 < start then rs_Set R now redisKey (start - 1) (ig_expire g) d1 else (None, d1)
             else (None, d1)))"

definition ForceResetSequence :: "'d redis_seq \<Rightarrow> time \<Rightarrow> string \<Rightarrow> IDGenerator \<Rightarrow> 'd \<Rightarrow> go_error option \<times> 'd" where
  "ForceResetSequence R now timePrefix g d =
     (if \<not> ig_redisClient g then (Some no_client, d) else rs_Del R now (getRedisKey timePrefix g) d)"

definition GetSequenceByTime :: "'d redis_seq \<Rightarrow> time \<Rightarrow> string \<Rightarrow> IDGenerator \<Rightarrow> 'd \<Rightarrow> int go_result \<times> 'd" where
  "GetSequenceByTime R now timePrefix g d =
     (if \<not> ig_redisClient g then (Inl no_client, d)
      else (case rs_GetInt R now (getRedisKey timePrefix g) d of
              (Inl err, d') \<Rightarrow>
                (if err = RedisNil then Inr 0 else Inl (Wrapped ''failed to get sequence from redis'' err), d')
            | (Inr seq, d') \<Rightarrow> (Inr seq, d')))"

definition GetCurrentSequence ::
  "'d redis_seq \<Rightarrow> (string \<Rightarrow> time \<Rightarrow> string) \<Rightarrow> time \<Rightarrow> IDGenerator \<Rightarrow> 'd \<Rightarrow> int go_result \<times> 'd" where
  "GetCurrentSequence R F now g d =
     (if \<not> ig_redisClient g then (Inl no_client, d) else GetSequenceByTime R now (getTimePrefix F now g) g d)"

definition GetIDPrefix :: "IDGenerator \<Rightarrow> string" where "GetIDPrefix g = ig_idPrefix g"
definition GetIDSuffix :: "IDGenerator \<Rightarrow> string" where "GetIDSuffix g = ig_idSuffix g"
definition GetSeparator :: "IDGenerator \<Rightarrow> string" where "GetSeparator g = ig_separator g"

end
