(* ===== verification/Id_Generator_Correct.thy ===== *)
theory Id_Generator_Correct
  imports Id_Generator
begin

text \<open>
  Properties of \<open>IDGenerator\<close>: the identifiers that any mixture of single and batch calls hands out
  within the life of a counter are the consecutive ones, all different; and two defects of its expiry.
\<close>

section \<open>The laws of the counter commands\<close>

text \<open>\<open>cnt d key\<close> is the value under a key and its deadline; a key is gone from its deadline on.\<close>

type_synonym counter = "(int \<times> time option) option"

definition incr :: "time \<Rightarrow> int \<Rightarrow> counter \<Rightarrow> int \<times> time option" where
  "incr now n e = (case live now e of None \<Rightarrow> (n, None) | Some (v, dl) \<Rightarrow> (v + n, dl))"

definition seq_read_law :: "'d redis_seq \<Rightarrow> ('d \<Rightarrow> bool) \<Rightarrow> ('d \<Rightarrow> string \<Rightarrow> counter) \<Rightarrow> bool" where
  "seq_read_law R up cnt \<longleftrightarrow> (\<forall>now k d. up d \<longrightarrow> rs_net R d = Delivered \<and> (\<exists>d'.
     rs_Exists R now k d = (Inr (if live now (cnt d k) = None then 0 else 1), d') \<and> up d' \<and> cnt d' = cnt d))"

definition seq_setex_law :: "'d redis_seq \<Rightarrow> ('d \<Rightarrow> bool) \<Rightarrow> ('d \<Rightarrow> string \<Rightarrow> counter) \<Rightarrow> bool" where
  "seq_setex_law R up cnt \<longleftrightarrow> (\<forall>now k v e d. up d \<longrightarrow> 0 < e \<longrightarrow> (\<exists>d'.
     rs_SetEx R now k v e d = (None, d') \<and> up d' \<and> cnt d' = (cnt d)(k \<mapsto> (v, Some (now + e * second)))))"

definition seq_incr_law :: "'d redis_seq \<Rightarrow> ('d \<Rightarrow> bool) \<Rightarrow> ('d \<Rightarrow> string \<Rightarrow> counter) \<Rightarrow> bool" where
  "seq_incr_law R up cnt \<longleftrightarrow> (\<forall>now k n d. up d \<longrightarrow> in_int64 (fst (incr now n (cnt d k))) \<longrightarrow> (\<exists>d'.
     rs_IncrBy R now k n d = (Inr (fst (incr now n (cnt d k))), d') \<and> up d' \<and> cnt d' = (cnt d)(k \<mapsto> incr now n (cnt d k))))"

definition seq_expire_law :: "'d redis_seq \<Rightarrow> ('d \<Rightarrow> bool) \<Rightarrow> ('d \<Rightarrow> string \<Rightarrow> counter) \<Rightarrow> bool" where
  "seq_expire_law R up cnt \<longleftrightarrow> (\<forall>now k e d v dl. up d \<longrightarrow> live now (cnt d k) = Some (v, dl) \<longrightarrow> (\<exists>d'.
     rs_Expire R now k e d = (None, d') \<and> up d' \<and>
     cnt d' = (cnt d)(k := if 0 < e then Some (v, Some (now + e * second)) else None)))"

definition seq_law :: "'d redis_seq \<Rightarrow> ('d \<Rightarrow> bool) \<Rightarrow> ('d \<Rightarrow> string \<Rightarrow> counter) \<Rightarrow> bool" where
  "seq_law R up cnt \<longleftrightarrow> seq_read_law R up cnt \<and> seq_setex_law R up cnt \<and> seq_incr_law R up cnt \<and> seq_expire_law R up cnt"

definition seq_ref :: "(string \<Rightarrow> counter) redis_seq" where
  "seq_ref = \<lparr>
     rs_net = (\<lambda>_. Delivered),
     rs_Exists = (\<lambda>now k d. (Inr (if live now (d k) = None then 0 else 1), d)),
     rs_SetEx = (\<lambda>now k v e d. if 0 < e then (None, d(k \<mapsto> (v, Some (now + e * second)))) else (Some (ExtError 1), d)),
     rs_IncrBy = (\<lambda>now k n d. (Inr (fst (incr now n (d k))), d(k \<mapsto> incr now n (d k)))),
     rs_Expire = (\<lambda>now k e d. (None, case live now (d k) of None \<Rightarrow> d
        | Some (v, dl) \<Rightarrow> d(k := if 0 < e then Some (v, Some (now + e * second)) else None))),
     rs_Set = (\<lambda>now k v e d. (None, d(k \<mapsto> (v, Some (now + e))))),
     rs_Del = (\<lambda>now k d. (None, d(k := None))),
     rs_GetInt = (\<lambda>now k d. (case live now (d k) of None \<Rightarrow> Inl RedisNil | Some (v, _) \<Rightarrow> Inr v, d))\<rparr>"

lemma seq_ref_law: "seq_law seq_ref (\<lambda>_. True) (\<lambda>d. d)"
  by (simp add: seq_law_def seq_read_law_def seq_setex_law_def seq_incr_law_def seq_expire_law_def seq_ref_def)

section \<open>Formatting is injective\<close>

lemma decimal_zeros [simp]: "decimal (replicate n CHR ''0'' @ s) = decimal s"
proof (induction n)
  case (Suc n)
  have "decimal (CHR ''0'' # t) = decimal t" for t by (simp add: decimal_def digit_value_def)
  then show ?case using Suc by simp
qed simp

definition seq_width_ok :: "IDGenerator \<Rightarrow> bool" where
  "seq_width_ok g \<longleftrightarrow> 0 \<le> ig_seqLength g \<and> ig_seqLength g \<le> 1000000"

lemma fmt_width_inj:
  assumes "0 \<le> w" "w \<le> 1000000" "0 \<le> i" "0 \<le> j" "fmt_width w i = fmt_width w j"
  shows "i = j"
proof -
  have "decimal (fmt_width w k) = nat k" if "0 \<le> k" for k using assms(1,2) that by (simp add: fmt_width_def)
  then show ?thesis using assms(3-5) by (metis nat_eq_iff2 int_nat_eq)
qed

lemma formatID_inj:
  assumes "seq_width_ok g" "0 \<le> i" "0 \<le> j" "length p = length p'" "formatID p i g = formatID p' j g"
  shows "p = p' \<and> i = j"
proof -
  have "p @ (if ig_separator g \<noteq> [] then ig_separator g @ fmt_width (ig_seqLength g) i else fmt_width (ig_seqLength g) i) =
        p' @ (if ig_separator g \<noteq> [] then ig_separator g @ fmt_width (ig_seqLength g) j else fmt_width (ig_seqLength g) j)"
    using assms(5) by (auto simp: formatID_def Let_def split: if_splits)
  then have "p = p'" "fmt_width (ig_seqLength g) i = fmt_width (ig_seqLength g) j"
    using assms(4) by (auto split: if_splits)
  then show ?thesis using fmt_width_inj assms(1-3) by (auto simp: seq_width_ok_def)
qed

section \<open>One call\<close>

text \<open>The value before the next number: that of a counter that is there, or else the start less one.\<close>

definition seq_base :: "time \<Rightarrow> counter \<Rightarrow> int \<Rightarrow> int" where
  "seq_base now e start = (case live now e of None \<Rightarrow> max start 1 - 1 | Some (v, _) \<Rightarrow> v)"

lemma lua_init_law:
  assumes "seq_law R up cnt" "up d" "0 < expire"
  obtains d' where "lua_init R now key expire start (if live now (cnt d key) = None then 0 else 1) d = (None, d')" "up d'"
    "cnt d' = (if live now (cnt d key) = None \<and> 1 < start then (cnt d)(key \<mapsto> (start - 1, Some (now + expire * second))) else cnt d)"
proof (cases "live now (cnt d key) = None \<and> 1 < start")
  case True
  obtain d' where "rs_SetEx R now key (start - 1) expire d = (None, d')" "up d'"
    "cnt d' = (cnt d)(key \<mapsto> (start - 1, Some (now + expire * second)))"
    using assms unfolding seq_law_def seq_setex_law_def by blast
  then show thesis using that [of d'] True by (simp add: lua_init_def)
next
  case False
  then show thesis using that [of d] assms(2) by (auto simp: lua_init_def)
qed

lemma lua_incr_law:
  assumes "seq_law R up cnt" "up d" "in_int64 (fst (incr now n (cnt d key)))"
  obtains d' where "rs_IncrBy R now key n d = (Inr (fst (incr now n (cnt d key))), d')" "up d'"
    "cnt d' = (cnt d)(key \<mapsto> incr now n (cnt d key))"
  using assms unfolding seq_law_def seq_incr_law_def by blast

lemma lua_expire_law:
  assumes "seq_law R up cnt" "up d" "live now (cnt d key) = Some (v, dl)"
  obtains d' where "rs_Expire R now key e d = (None, d')" "up d'"
    "cnt d' = (cnt d)(key := if 0 < e then Some (v, Some (now + e * second)) else None)"
  using assms unfolding seq_law_def seq_expire_law_def by blast

text \<open>The counter after the initialisation and the increment of a script.\<close>

lemma script_counter:
  assumes "seq_law R up cnt" "up d" "0 < expire" "in_int64 (seq_base now (cnt d key) start + n)"
  obtains d1 d2 d3 dl where
    "rs_Exists R now key d = (Inr (if live now (cnt d key) = None then 0 else 1), d1)"
    "lua_init R now key expire start (if live now (cnt d key) = None then 0 else 1) d1 = (None, d2)"
    "rs_IncrBy R now key n d2 = (Inr (seq_base now (cnt d key) start + n), d3)" "up d3"
    "cnt d3 = (cnt d)(key \<mapsto> (seq_base now (cnt d key) start + n, dl))"
    "live now (cnt d key) \<noteq> None \<Longrightarrow> \<exists>v. live now (cnt d key) = Some (v, dl)"
    "live now (cnt d key) = None \<Longrightarrow> dl = (if 1 < start then Some (now + expire * second) else None)"
proof -
  obtain d1 where d1: "rs_Exists R now key d = (Inr (if live now (cnt d key) = None then 0 else 1), d1)" "up d1" "cnt d1 = cnt d"
    using assms(1,2) unfolding seq_law_def seq_read_law_def by blast
  obtain d2 where d2: "lua_init R now key expire start (if live now (cnt d key) = None then 0 else 1) d1 = (None, d2)" "up d2"
    "cnt d2 = (if live now (cnt d key) = None \<and> 1 < start then (cnt d)(key \<mapsto> (start - 1, Some (now + expire * second))) else cnt d)"
    using lua_init_law [OF assms(1) d1(2) assms(3), of now key start] d1(3) by metis
  have pos: "0 < expire * second" using assms(3) by (simp add: second_def)
  define dl where "dl = snd (incr now n (cnt d2 key))"
  have i: "incr now n (cnt d2 key) = (seq_base now (cnt d key) start + n, dl)"
    using pos by (auto simp: dl_def d2(3) incr_def seq_base_def live_def split: option.splits if_splits)
  obtain d3 where d3: "rs_IncrBy R now key n d2 = (Inr (fst (incr now n (cnt d2 key))), d3)" "up d3"
    "cnt d3 = (cnt d2)(key \<mapsto> incr now n (cnt d2 key))"
    using lua_incr_law [OF assms(1) d2(2)] assms(4) i by (metis fst_conv)
  have "cnt d3 = (cnt d)(key \<mapsto> (seq_base now (cnt d key) start + n, dl))"
    unfolding d3(3) i by (auto simp: d2(3))
  moreover have "live now (cnt d key) \<noteq> None \<Longrightarrow> \<exists>v. live now (cnt d key) = Some (v, dl)"
    by (auto simp: dl_def d2(3) incr_def)
  moreover have "live now (cnt d key) = None \<Longrightarrow> dl = (if 1 < start then Some (now + expire * second) else None)"
    using pos by (auto simp: dl_def d2(3) incr_def live_def split: option.splits if_splits)
  ultimately show thesis using that [OF d1(1) d2(1)] d3(1,2) i by simp
qed

text \<open>When the counter is there until \<open>T\<close>, or is made by this call with a life that reaches \<open>T\<close>.\<close>

definition ready :: "time \<Rightarrow> time \<Rightarrow> int \<Rightarrow> int \<Rightarrow> counter \<Rightarrow> int \<Rightarrow> bool" where
  "ready T now expire start e v \<longleftrightarrow>
     stays T v e \<and> now < T \<or> live now e = None \<and> v = max start 1 - 1 \<and> T \<le> now + expire * second"

lemma ready_base: "ready T now expire start e v \<Longrightarrow> seq_base now e start = v"
  by (auto simp: ready_def seq_base_def dest: live_stays)

lemma ready_fresh:
  "ready T now expire start e v \<Longrightarrow> live now e = None \<Longrightarrow> v = max start 1 - 1 \<and> T \<le> now + expire * second"
  by (auto simp: ready_def dest: live_stays)

lemma ready_live:
  "ready T now expire start e v \<Longrightarrow> live now e = Some (w, dl) \<Longrightarrow> w = v \<and> (\<forall>t. dl = Some t \<longrightarrow> T \<le> t)"
  by (auto simp: ready_def stays_def live_def split: option.splits if_splits)

lemma lua_next_law:
  assumes "seq_law R up cnt" "up d" "0 < expire" "ready T now expire start (cnt d key) v" "in_int64 (v + 1)"
  obtains d' where "lua_next R now key expire start d = (Inr (LInt (v + 1)), d')" "up d'" "stays T (v + 1) (cnt d' key)"
proof -
  note b = ready_base [OF assms(4)]
  obtain d1 d2 d3 dl where s: "rs_Exists R now key d = (Inr (if live now (cnt d key) = None then 0 else 1), d1)"
    "lua_init R now key expire start (if live now (cnt d key) = None then 0 else 1) d1 = (None, d2)"
    "rs_IncrBy R now key 1 d2 = (Inr (v + 1), d3)" "up d3" "cnt d3 = (cnt d)(key \<mapsto> (v + 1, dl))"
    "live now (cnt d key) \<noteq> None \<Longrightarrow> \<exists>v. live now (cnt d key) = Some (v, dl)"
    "live now (cnt d key) = None \<Longrightarrow> dl = (if 1 < start then Some (now + expire * second) else None)"
    using script_counter [OF assms(1-3), of now key start 1] assms(5) b by metis
  show thesis
  proof (cases "live now (cnt d key) = None \<and> start \<le> 1")
    case True
    then have "live now (cnt d3 key) = Some (v + 1, None)" using s(5,7) by (simp add: live_def)
    then obtain d4 where d4: "rs_Expire R now key expire d3 = (None, d4)" "up d4"
      "cnt d4 = (cnt d3)(key \<mapsto> (v + 1, Some (now + expire * second)))"
      using lua_expire_law [OF assms(1) s(4), of now key "v + 1" None expire] s(5) assms(3) by auto
    have "T \<le> now + expire * second" using assms(4) True by (auto simp: ready_def dest: live_stays)
    then show thesis using that [of d4] True s(1-3) d4 by (simp add: lua_next_def stays_def)
  next
    case False
    have "stays T (v + 1) (cnt d3 key)"
    proof (cases "live now (cnt d key)")
      case None
      then show ?thesis using ready_fresh [OF assms(4)] s(5,7) False by (simp add: stays_def)
    next
      case (Some e)
      then show ?thesis using ready_live [OF assms(4)] s(5,6) by (auto simp: stays_def)
    qed
    then show thesis using that [of d3] False s(1-4) by (auto simp: lua_next_def)
  qed
qed

lemma lua_batch_law:
  assumes "seq_law R up cnt" "up d" "0 < expire" "ready T now expire start (cnt d key) v" "in_int64 (v + n)"
  obtains d' where "lua_batch R now key expire n start d = (Inr (LList (map LInt [v + 1..v + n])), d')" "up d'"
    "stays T (v + n) (cnt d' key)" "live now (cnt d key) = None \<Longrightarrow> start \<le> 1 \<Longrightarrow> cnt d' key = Some (n, None)"
proof -
  note b = ready_base [OF assms(4)]
  obtain d1 d2 d3 dl where s: "rs_Exists R now key d = (Inr (if live now (cnt d key) = None then 0 else 1), d1)"
    "lua_init R now key expire start (if live now (cnt d key) = None then 0 else 1) d1 = (None, d2)"
    "rs_IncrBy R now key n d2 = (Inr (v + n), d3)" "up d3" "cnt d3 = (cnt d)(key \<mapsto> (v + n, dl))"
    "live now (cnt d key) \<noteq> None \<Longrightarrow> \<exists>v. live now (cnt d key) = Some (v, dl)"
    "live now (cnt d key) = None \<Longrightarrow> dl = (if 1 < start then Some (now + expire * second) else None)"
    using script_counter [OF assms(1-3), of now key start n] assms(5) b by metis
  have "stays T (v + n) (cnt d3 key)"
  proof (cases "live now (cnt d key)")
    case None
    then show ?thesis using ready_fresh [OF assms(4)] s(5,7) by (simp add: stays_def)
  next
    case (Some e)
    then show ?thesis using ready_live [OF assms(4)] s(5,6) by (auto simp: stays_def)
  qed
  moreover have "live now (cnt d key) = None \<Longrightarrow> start \<le> 1 \<Longrightarrow> cnt d3 key = Some (n, None)"
    using b s(5,7) by (simp add: seq_base_def)
  ultimately show thesis using that [of d3] s(1-4) by (simp add: lua_batch_def)
qed

lemma format_all_ints: "format_all p g (map LInt is) acc = Inr (acc @ map (\<lambda>i. formatID p i g) is)"
  by (induction "is" arbitrary: acc) simp_all

section \<open>Runs of calls\<close>

text \<open>A call at its time: \<open>GenerateID\<close>, or \<open>GenerateIDs\<close> of a number.\<close>

type_synonym ig_call = "time \<times> int option"

definition ig_call :: "'d redis_seq \<Rightarrow> (string \<Rightarrow> time \<Rightarrow> string) \<Rightarrow> IDGenerator \<Rightarrow> ig_call \<Rightarrow> 'd \<Rightarrow> string list go_result \<times> 'd" where
  "ig_call R F g c d =
     (case snd c of
        Some n \<Rightarrow> GenerateIDs R F (fst c) n g d
      | None \<Rightarrow> (case GenerateID R F (fst c) g d of (Inl e, d') \<Rightarrow> (Inl e, d') | (Inr i, d') \<Rightarrow> (Inr [i], d')))"

fun ig_run :: "'d redis_seq \<Rightarrow> (string \<Rightarrow> time \<Rightarrow> string) \<Rightarrow> IDGenerator \<Rightarrow> ig_call list \<Rightarrow> 'd \<Rightarrow> string list go_result \<times> 'd" where
  "ig_run R F g [] d = (Inr [], d)"
| "ig_run R F g (c # cs) d =
     (case ig_call R F g c d of
        (Inl e, d') \<Rightarrow> (Inl e, d')
      | (Inr ids, d') \<Rightarrow>
          (case ig_run R F g cs d' of (Inl e, d'') \<Rightarrow> (Inl e, d'') | (Inr rest, d'') \<Rightarrow> (Inr (ids @ rest), d'')))"

definition ig_count :: "ig_call \<Rightarrow> int" where
  "ig_count c = (case snd c of None \<Rightarrow> 1 | Some n \<Rightarrow> n)"

text \<open>A generator at work: a client, no callback, a life of whole seconds at least, numbers that fit.\<close>

definition ig_ok :: "IDGenerator \<Rightarrow> bool" where
  "ig_ok g \<longleftrightarrow> ig_redisClient g \<and> ig_OnSequenceInit g = None \<and> 0 < go_div (ig_expire g) second \<and> seq_width_ok g"

lemma ig_call_law:
  assumes "seq_law R up cnt" "up d" "ig_ok g" "F (ig_timeFormat g) (fst c) = p" "0 < ig_count c"
    "ready T (fst c) (go_div (ig_expire g) second) (ig_seqStart g) (cnt d (getRedisKey p g)) v" "in_int64 (v + ig_count c)"
  obtains d' where "ig_call R F g c d = (Inr (map (\<lambda>i. formatID p i g) [v + 1..v + ig_count c]), d')" "up d'"
    "stays T (v + ig_count c) (cnt d' (getRedisKey p g))"
proof -
  have g: "ig_redisClient g" "ig_start (fst c) g = ig_seqStart g" "0 < go_div (ig_expire g) second"
    using assms(3) by (simp_all add: ig_ok_def ig_start_def)
  have net: "rs_net R d = Delivered" using assms(1,2) unfolding seq_law_def seq_read_law_def by blast
  show thesis
  proof (cases "snd c")
    case None
    then have n: "ig_count c = 1" by (simp add: ig_count_def)
    obtain d' where "lua_next R (fst c) (getRedisKey p g) (go_div (ig_expire g) second) (ig_seqStart g) d = (Inr (LInt (v + 1)), d')"
      "up d'" "stays T (v + 1) (cnt d' (getRedisKey p g))"
      using lua_next_law [OF assms(1,2) g(3) assms(6)] assms(7) n by auto
    then show thesis using that [of d'] None g net assms(4) n
      by (simp add: ig_call_def GenerateID_def getTimePrefix_def eval_script_def Let_def)
  next
    case (Some m)
    then have n: "ig_count c = m" by (simp add: ig_count_def)
    obtain d' where "lua_batch R (fst c) (getRedisKey p g) (go_div (ig_expire g) second) m (ig_seqStart g) d =
        (Inr (LList (map LInt [v + 1..v + m])), d')" "up d'" "stays T (v + m) (cnt d' (getRedisKey p g))"
      using lua_batch_law [OF assms(1,2) g(3) assms(6)] assms(7) n by metis
    then show thesis using that [of d'] Some g net assms(4,5) n
      by (simp add: ig_call_def GenerateIDs_def getTimePrefix_def eval_script_def Let_def format_all_ints)
  qed
qed

lemma count_nonneg: "\<forall>c \<in> set cs. 0 < ig_count c \<Longrightarrow> 0 \<le> (\<Sum>c \<leftarrow> cs. ig_count c)"
  by (induction cs) auto

lemma ig_run_stays:
  assumes "seq_law R up cnt" "ig_ok g" "\<forall>c \<in> set cs. F (ig_timeFormat g) (fst c) = p \<and> 0 < ig_count c \<and> fst c < T"
    "up d" "stays T v (cnt d (getRedisKey p g))" "0 \<le> v" "v + (\<Sum>c \<leftarrow> cs. ig_count c) \<le> max_int64"
  shows "\<exists>d'. ig_run R F g cs d = (Inr (map (\<lambda>i. formatID p i g) [v + 1..v + (\<Sum>c \<leftarrow> cs. ig_count c)]), d') \<and> up d'"
  using assms(3-7)
proof (induction cs arbitrary: d v)
  case (Cons c cs)
  have nn: "0 \<le> (\<Sum>c \<leftarrow> cs. ig_count c)" using Cons.prems(1) by (intro count_nonneg) auto
  have c: "F (ig_timeFormat g) (fst c) = p" "0 < ig_count c" "fst c < T" using Cons.prems(1) by auto
  have "in_int64 (v + ig_count c)" using Cons.prems(4,5) c(2) nn by (simp add: in_int64_def min_int64_def)
  moreover have "ready T (fst c) (go_div (ig_expire g) second) (ig_seqStart g) (cnt d (getRedisKey p g)) v"
    using Cons.prems(3) c(3) by (simp add: ready_def)
  ultimately obtain d' where d': "ig_call R F g c d = (Inr (map (\<lambda>i. formatID p i g) [v + 1..v + ig_count c]), d')" "up d'"
    "stays T (v + ig_count c) (cnt d' (getRedisKey p g))" using ig_call_law [where F = F, OF assms(1) Cons.prems(2) assms(2) c(1,2)] by metis
  obtain d'' where "ig_run R F g cs d' =
      (Inr (map (\<lambda>i. formatID p i g) [v + ig_count c + 1..v + ig_count c + (\<Sum>c \<leftarrow> cs. ig_count c)]), d'')" "up d''"
    using Cons.IH [OF _ d'(2,3)] Cons.prems(1,4,5) c(2) by (auto simp: add.assoc)
  moreover have "[v + 1..v + ig_count c] @ [v + ig_count c + 1..v + ig_count c + (\<Sum>c \<leftarrow> cs. ig_count c)] =
      [v + 1..v + (ig_count c + (\<Sum>c \<leftarrow> cs. ig_count c))]"
    using c(2) nn by (subst upto_split2 [of "v + 1" "v + ig_count c"]) (simp_all add: add.assoc)
  ultimately show ?case using d'(1) by (simp flip: map_append)
qed simp

text \<open>
  C17: Identifiers are never handed out twice. Any mixture of single and batch calls, by any number of
  nodes that share the counter, within one time prefix and the life of the counter, returns the
  consecutive numbers from the start on, each once, and the formatted identifiers are all different.
\<close>
theorem id_unique:
  assumes "seq_law R up cnt" "up d" "ig_ok g" "live (fst c) (cnt d (getRedisKey p g)) = None"
    and "T = fst c + go_div (ig_expire g) second * second"
    and "\<forall>c' \<in> set (c # cs). F (ig_timeFormat g) (fst c') = p \<and> 0 < ig_count c' \<and> fst c' < T"
    and "b = max (ig_seqStart g) 1 - 1" "n = (\<Sum>c' \<leftarrow> c # cs. ig_count c')" "b + n \<le> max_int64"
  shows "\<exists>d' ids. ig_run R F g (c # cs) d = (Inr ids, d') \<and> ids = map (\<lambda>i. formatID p i g) [b + 1..b + n] \<and> distinct ids"
proof -
  have nn: "0 \<le> (\<Sum>c \<leftarrow> cs. ig_count c)" using assms(6) by (intro count_nonneg) auto
  have c: "F (ig_timeFormat g) (fst c) = p" "0 < ig_count c" using assms(6) by auto
  have b: "0 \<le> b" using assms(7) by simp
  have t: "n = ig_count c + (\<Sum>c \<leftarrow> cs. ig_count c)" using assms(8) by simp
  have "in_int64 (b + ig_count c)" using assms(9) b c(2) nn t by (simp add: in_int64_def min_int64_def)
  moreover have "ready T (fst c) (go_div (ig_expire g) second) (ig_seqStart g) (cnt d (getRedisKey p g)) b"
    using assms(4,5,7) by (simp add: ready_def)
  ultimately obtain d1 where d1: "ig_call R F g c d = (Inr (map (\<lambda>i. formatID p i g) [b + 1..b + ig_count c]), d1)" "up d1"
    "stays T (b + ig_count c) (cnt d1 (getRedisKey p g))" using ig_call_law [where F = F, OF assms(1-3) c] by metis
  obtain d2 where "ig_run R F g cs d1 =
      (Inr (map (\<lambda>i. formatID p i g) [b + ig_count c + 1..b + ig_count c + (\<Sum>c \<leftarrow> cs. ig_count c)]), d2)"
    using ig_run_stays [OF assms(1,3) _ d1(2,3), of cs F] assms(6,9) b c(2) t by (auto simp: add.assoc)
  moreover have "[b + 1..b + ig_count c] @ [b + ig_count c + 1..b + ig_count c + (\<Sum>c \<leftarrow> cs. ig_count c)] = [b + 1..b + n]"
    unfolding t using c(2) nn by (subst upto_split2 [of "b + 1" "b + ig_count c"]) (simp_all add: add.assoc)
  ultimately have "ig_run R F g (c # cs) d = (Inr (map (\<lambda>i. formatID p i g) [b + 1..b + n]), d2)"
    using d1(1) by (simp flip: map_append)
  moreover have "inj_on (\<lambda>i. formatID p i g) (set [b + 1..b + n])"
    using assms(3) b formatID_inj [of g _ _ p p] by (fastforce simp: inj_on_def ig_ok_def)
  then have "distinct (map (\<lambda>i. formatID p i g) [b + 1..b + n])" by (simp add: distinct_map)
  ultimately show ?thesis by blast
qed

text \<open>The calls of a concrete hour: \<open>GenerateID\<close>, a batch of two, \<open>GenerateID\<close>.\<close>

definition ig_demo :: IDGenerator where
  "ig_demo = NewIDGenerator True"

lemma ig_demo_ok: "ig_ok ig_demo"
  by (simp add: ig_ok_def ig_demo_def NewIDGenerator_def second_def go_div_def seq_width_ok_def)

lemma id_unique_witness:
  "\<exists>d'. ig_run seq_ref (\<lambda>_ _. ''2025010112'') ig_demo [(5, None), (6, Some 2), (7, None)] (\<lambda>_. None) =
     (Inr (map (\<lambda>i. formatID ''2025010112'' i ig_demo) [1, 2, 3, 4]), d')"
proof -
  have t: "(\<Sum>c' \<leftarrow> [(5, None), (6, Some 2), (7, None)]. ig_count c') = 4" by (simp add: ig_count_def)
  have e: "go_div (ig_expire ig_demo) second * second = 7200000000000"
    by (simp add: ig_demo_def NewIDGenerator_def second_def go_div_def)
  have s: "ig_seqStart ig_demo = 1" by (simp add: ig_demo_def NewIDGenerator_def)
  have u: "[0 + 1..0 + 4] = [1, 2, 3, 4 :: int]" by (simp add: upto.simps)
  show ?thesis
    using id_unique [OF seq_ref_law TrueI ig_demo_ok, of "(5, None)" "\<lambda>_. None" "''2025010112''" _
        "[(6, Some 2), (7, None)]" "\<lambda>_ _. ''2025010112''" 0 4, OF _ refl _ _ t [symmetric]] e s
    unfolding u by (auto simp: live_def ig_count_def max_int64_def)
qed

section \<open>Where the code goes wrong\<close>

text \<open>
  A counter that a batch creates with a start of at most one never expires: the script of
  \<open>GenerateIDs\<close> lacks the \<open>EXPIRE\<close> that the script of \<open>GenerateID\<close> has for this case, so every time
  prefix leaves a key in Redis for good.
\<close>
theorem id_batch_immortal:
  assumes "seq_law R up cnt" "up d" "ig_ok g" "live now (cnt d (getRedisKey p g)) = None" "ig_seqStart g \<le> 1"
    and "F (ig_timeFormat g) now = p" "0 < n" "n \<le> max_int64"
  shows "\<exists>ids d'. GenerateIDs R F now n g d = (Inr ids, d') \<and> (\<forall>t. live t (cnt d' (getRedisKey p g)) = Some (n, None))"
proof -
  have g: "ig_redisClient g" "ig_start now g = ig_seqStart g" "0 < go_div (ig_expire g) second"
    using assms(3) by (simp_all add: ig_ok_def ig_start_def)
  have net: "rs_net R d = Delivered" using assms(1,2) unfolding seq_law_def seq_read_law_def by blast
  have r: "ready now now (go_div (ig_expire g) second) (ig_seqStart g) (cnt d (getRedisKey p g)) 0"
    using assms(4,5) g(3) by (simp add: ready_def second_def)
  have i: "in_int64 (0 + n)" using assms(7,8) by (simp add: in_int64_def min_int64_def)
  obtain d' where "lua_batch R now (getRedisKey p g) (go_div (ig_expire g) second) n (ig_seqStart g) d =
      (Inr (LList (map LInt [0 + 1..0 + n])), d')" "cnt d' (getRedisKey p g) = Some (n, None)"
    using lua_batch_law [OF assms(1,2) g(3) r i] assms(4,5) by metis
  then show ?thesis using g net assms(6,7)
    by (simp add: GenerateIDs_def getTimePrefix_def eval_script_def Let_def format_all_ints live_def)
qed

lemma id_batch_immortal_witness:
  "\<exists>ids d'. GenerateIDs seq_ref (\<lambda>_ _. ''2025010112'') 5 3 ig_demo (\<lambda>_. None) = (Inr ids, d') \<and>
     live 1000000000000000 (d' (getRedisKey ''2025010112'' ig_demo)) = Some (3, None)"
proof -
  have "live 5 ((\<lambda>_. None) (getRedisKey ''2025010112'' ig_demo)) = None" "ig_seqStart ig_demo \<le> 1"
    by (simp_all add: live_def ig_demo_def NewIDGenerator_def)
  from id_batch_immortal [where d = "\<lambda>_. None" and F = "\<lambda>_ _. ''2025010112''" and n = 3, OF seq_ref_law TrueI ig_demo_ok this refl]
  show ?thesis by (auto simp: max_int64_def)
qed

text \<open>
  With an expiry below one second every call returns the same identifier: the script truncates the
  expiry to 0 and \<open>EXPIRE key 0\<close> deletes the counter it has just incremented.
\<close>
theorem id_subsecond_repeats:
  assumes "seq_law R up cnt" "up d" "ig_redisClient g" "ig_OnSequenceInit g = None" "ig_seqStart g \<le> 1"
    and "0 \<le> ig_expire g" "ig_expire g < second" "cnt d (getRedisKey p g) = None"
    and "F (ig_timeFormat g) now1 = p" "F (ig_timeFormat g) now2 = p"
  shows "\<exists>d1 d2. GenerateID R F now1 g d = (Inr (formatID p 1 g), d1) \<and> GenerateID R F now2 g d1 = (Inr (formatID p 1 g), d2)"
proof -
  have e: "go_div (ig_expire g) second = 0"
    using assms(6,7) by (cases "ig_expire g = 0") (simp_all add: go_div_def)
  have one: "\<exists>d'. GenerateID R F now g d = (Inr (formatID p 1 g), d') \<and> up d' \<and> cnt d' (getRedisKey p g) = None"
    if u: "up d" and k: "cnt d (getRedisKey p g) = None" and F: "F (ig_timeFormat g) now = p" for d now
  proof -
    let ?k = "getRedisKey p g"
    have net: "rs_net R d = Delivered" using assms(1) u unfolding seq_law_def seq_read_law_def by blast
    obtain d1 where d1: "rs_Exists R now ?k d = (Inr (if live now (cnt d ?k) = None then 0 else 1), d1)" "up d1" "cnt d1 = cnt d"
      using assms(1) u unfolding seq_law_def seq_read_law_def by blast
    have l: "live now (cnt d ?k) = None" "incr now 1 (cnt d1 ?k) = (1, None :: time option)" using k d1(3) by (simp_all add: live_def incr_def)
    have i1: "in_int64 (fst (1, None :: time option))" by (simp add: in_int64_def min_int64_def max_int64_def)
    obtain d2 where d2: "rs_IncrBy R now ?k 1 d1 = (Inr 1, d2)" "up d2" "cnt d2 = (cnt d1)(?k \<mapsto> (1, None))"
      using lua_incr_law [OF assms(1) d1(2), of now 1 ?k, unfolded l(2)] i1 by auto
    have "live now (cnt d2 ?k) = Some (1, None)" using d2(3) by (simp add: live_def)
    then obtain d3 where d3: "rs_Expire R now ?k 0 d2 = (None, d3)" "up d3" "cnt d3 ?k = None"
      using lua_expire_law [OF assms(1) d2(2), where e = 0 and key = ?k] by (metis fun_upd_same less_irrefl)
    have "lua_next R now ?k 0 (ig_seqStart g) d = (Inr (LInt 1), d3)"
      using d1(1) d2(1) d3(1) l(1) assms(5) by (simp add: lua_next_def lua_init_def)
    then show ?thesis
      using net e d3(2,3) assms(3,4) F by (simp add: GenerateID_def getTimePrefix_def eval_script_def ig_start_def Let_def)
  qed
  from one [OF assms(2,8,9)] one [OF _ _ assms(10)] show ?thesis by blast
qed

lemma id_subsecond_repeats_witness:
  "\<exists>d1 d2. GenerateID seq_ref (\<lambda>_ _. ''12'') 5 (WithExpire 500000000 ig_demo) (\<lambda>_. None) =
       (Inr (formatID ''12'' 1 (WithExpire 500000000 ig_demo)), d1) \<and>
     GenerateID seq_ref (\<lambda>_ _. ''12'') 6 (WithExpire 500000000 ig_demo) d1 = (Inr (formatID ''12'' 1 (WithExpire 500000000 ig_demo)), d2)"
  by (rule id_subsecond_repeats [where d = "\<lambda>_. None" and F = "\<lambda>_ _. ''12''", OF seq_ref_law TrueI])
    (simp_all add: WithExpire_def ig_demo_def NewIDGenerator_def second_def)

end
