(* ===== verification/Object_Pool.thy ===== *)
theory Object_Pool
  imports Outside
begin

text \<open>
  \<open>ObjectPoolManager\<close> of \<open>object_pool.go\<close>: a buffered channel of objects that a factory makes ahead of
  their use, kept filled by a prefill goroutine and a periodic task, and the global table of pools.

  The factory \<open>f\<close> acts on an outside world. \<open>op_fill\<close> is the loop of \<open>fill\<close> on its own; where several
  run at once each is a \<open>filler\<close> whose next step is \<open>op_filler\<close>. The periodic manager of
  \<open>go-toolbox\<close> is the caller of \<open>op_refillTask\<close>; whether it starts is the argument \<open>mgr\<close>. The
  pools in the table are pointers \<open>'p\<close> with the number \<open>ty\<close> of their type argument. Logging is left
  out, and a panic is \<^const>\<open>RuntimePanic\<close>.
\<close>

type_synonym ('a, 'w) PoolFactory = "'w \<Rightarrow> 'a go_result \<times> 'w"

record ObjectPoolConfig =
  opc_Capacity :: int
  opc_MinThreshold :: int
  opc_BatchSize :: int
  opc_ColdStartCount :: int
  opc_RefreshInterval :: duration

type_synonym ObjectPoolOption = "ObjectPoolConfig \<Rightarrow> ObjectPoolConfig"

definition WithObjectPoolCapacity :: "int \<Rightarrow> ObjectPoolOption" where
  "WithObjectPoolCapacity n c = c\<lparr>opc_Capacity := n\<rparr>"

definition WithObjectPoolMinThreshold :: "int \<Rightarrow> ObjectPoolOption" where
  "WithObjectPoolMinThreshold n c = c\<lparr>opc_MinThreshold := n\<rparr>"

definition WithObjectPoolBatchSize :: "int \<Rightarrow> ObjectPoolOption" where
  "WithObjectPoolBatchSize n c = c\<lparr>opc_BatchSize := n\<rparr>"

definition WithObjectPoolColdStartCount :: "int \<Rightarrow> ObjectPoolOption" where
  "WithObjectPoolColdStartCount n c = c\<lparr>opc_ColdStartCount := n\<rparr>"

definition WithObjectPoolRefreshInterval :: "duration \<Rightarrow> ObjectPoolOption" where
  "WithObjectPoolRefreshInterval d c = c\<lparr>opc_RefreshInterval := d\<rparr>"

text \<open>A goroutine in \<open>fill\<close>: before an iteration with so many left, with an object in hand, or done.\<close>

datatype 'a filler = FCheck nat | FMade nat 'a | FDone

record 'a ObjectPoolManager =
  op_name :: string
  op_config :: ObjectPoolConfig
  op_pool :: "'a list"
  op_generated :: int
  op_served :: int
  op_started :: bool
  op_stopped :: bool
  op_periodic :: bool
  op_fillers :: "'a filler list"

abbreviation op_room :: "'a ObjectPoolManager \<Rightarrow> bool" where
  "op_room m \<equiv> int (length (op_pool m)) < opc_Capacity (op_config m)"

section \<open>Filling\<close>

definition op_put :: "'a \<Rightarrow> 'a ObjectPoolManager \<Rightarrow> 'a ObjectPoolManager" where
  "op_put v m = m\<lparr>op_pool := op_pool m @ [v]\<rparr>"

definition op_count :: "'a ObjectPoolManager \<Rightarrow> 'a ObjectPoolManager" where
  "op_count m = m\<lparr>op_generated := wrap64 (op_generated m + 1)\<rparr>"

fun op_fill :: "('a, 'w) PoolFactory \<Rightarrow> nat \<Rightarrow> 'a ObjectPoolManager \<Rightarrow> 'w \<Rightarrow> 'a ObjectPoolManager \<times> 'w" where
  "op_fill f 0 m w = (m, w)"
| "op_fill f (Suc n) m w =
     (if op_stopped m then (m, w)
      else if \<not> op_room m then (m, w)
      else (case f w of
              (Inl err, w') \<Rightarrow> op_fill f n m w'
            | (Inr v, w') \<Rightarrow>
                let m' = op_count m in
                if op_room m' then op_fill f n (op_put v m') w' else (m', w')))"

text \<open>One step of a goroutine in the same loop: the checks and the call of the factory, or the send.\<close>

definition op_filler :: "('a, 'w) PoolFactory \<Rightarrow> 'a filler \<Rightarrow> 'a ObjectPoolManager \<Rightarrow> 'w \<Rightarrow> 'a filler \<times> 'a ObjectPoolManager \<times> 'w" where
  "op_filler f s m w =
     (case s of
        FCheck 0 \<Rightarrow> (FDone, m, w)
      | FCheck (Suc n) \<Rightarrow>
          if op_stopped m then (FDone, m, w)
          else if \<not> op_room m then (FDone, m, w)
          else (case f w of (Inl err, w') \<Rightarrow> (FCheck n, m, w') | (Inr v, w') \<Rightarrow> (FMade n v, op_count m, w'))
      | FMade n v \<Rightarrow> if op_room m then (FCheck n, op_put v m, w) else (FDone, m, w)
      | FDone \<Rightarrow> (FDone, m, w))"

text \<open>How much the periodic task wants to fill, \<^const>\<open>None\<close> where it returns early.\<close>

definition op_refill_need :: "'a ObjectPoolManager \<Rightarrow> int option" where
  "op_refill_need m =
     (if op_stopped m then None
      else
        let avail = int (length (op_pool m)) in
        if opc_MinThreshold (op_config m) \<le> avail then None
        else
          let need = opc_Capacity (op_config m) - avail in
          Some (if opc_BatchSize (op_config m) < need then opc_BatchSize (op_config m) else need))"

definition op_refillTask :: "('a, 'w) PoolFactory \<Rightarrow> 'a ObjectPoolManager \<Rightarrow> 'w \<Rightarrow> 'a ObjectPoolManager \<times> 'w" where
  "op_refillTask f m w = (case op_refill_need m of None \<Rightarrow> (m, w) | Some need \<Rightarrow> op_fill f (nat need) m w)"

section \<open>Life of a pool\<close>

definition op_Name :: "'a ObjectPoolManager \<Rightarrow> string" where
  "op_Name m = op_name m"

definition op_Start ::
  "('a, 'w) PoolFactory \<Rightarrow> go_error option \<Rightarrow> 'a ObjectPoolManager \<Rightarrow> 'w \<Rightarrow> go_error option \<times> 'a ObjectPoolManager \<times> 'w" where
  "op_Start f mgr m w =
     (if op_started m then (None, m, w)
      else (case op_fill f (nat (opc_ColdStartCount (op_config m))) (m\<lparr>op_started := True\<rparr>) w of
        (m1, w1) \<Rightarrow>
          let deficit = opc_Capacity (op_config m1) - opc_ColdStartCount (op_config m1);
              m2 = (if 0 < deficit then m1\<lparr>op_fillers := op_fillers m1 @ [FCheck (nat deficit)]\<rparr> else m1)
          in (mgr, m2\<lparr>op_periodic := (mgr = None)\<rparr>, w1)))"

definition op_Stop :: "'a ObjectPoolManager \<Rightarrow> go_error option \<times> 'a ObjectPoolManager" where
  "op_Stop m = (None, if op_stopped m then m else m\<lparr>op_stopped := True, op_periodic := False\<rparr>)"

definition op_TryGet :: "'a ObjectPoolManager \<Rightarrow> 'a option \<times> 'a ObjectPoolManager" where
  "op_TryGet m =
     (case op_pool m of
        [] \<Rightarrow> (None, m)
      | v # vs \<Rightarrow> (Some v, m\<lparr>op_pool := vs, op_served := wrap64 (op_served m + 1)\<rparr>))"

definition op_Len :: "'a ObjectPoolManager \<Rightarrow> nat" where
  "op_Len m = length (op_pool m)"

record PoolStats =
  ps_Name :: string
  ps_Available :: nat
  ps_Capacity :: int
  ps_Generated :: int
  ps_Served :: int

definition op_Stats :: "'a ObjectPoolManager \<Rightarrow> PoolStats" where
  "op_Stats m = \<lparr>ps_Name = op_name m, ps_Available = length (op_pool m), ps_Capacity = opc_Capacity (op_config m),
     ps_Generated = op_generated m, ps_Served = op_served m\<rparr>"

section \<open>The table of pools\<close>

type_synonym 'p registry = "(string, nat \<times> 'p) go_map"

text \<open>The derived thresholds of the configuration.\<close>

definition op_derive :: "ObjectPoolConfig \<Rightarrow> ObjectPoolConfig" where
  "op_derive cfg0 =
     (let cfg1 = (if opc_MinThreshold cfg0 \<le> 0 then cfg0\<lparr>opc_MinThreshold := go_div (opc_Capacity cfg0) 3\<rparr> else cfg0);
          cfg2 = (if opc_BatchSize cfg1 \<le> 0 then cfg1\<lparr>opc_BatchSize := go_div (opc_Capacity cfg1) 2\<rparr> else cfg1)
      in if opc_ColdStartCount cfg2 < 0 then cfg2\<lparr>opc_ColdStartCount := 0\<rparr> else cfg2)"

definition op_new :: "string \<Rightarrow> ObjectPoolConfig \<Rightarrow> 'a ObjectPoolManager" where
  "op_new name cfg = \<lparr>op_name = name, op_config = cfg, op_pool = [], op_generated = 0, op_served = 0,
     op_started = False, op_stopped = False, op_periodic = False, op_fillers = []\<rparr>"

text \<open>The pool of \<open>RegisterObjectPool\<close>, at the address \<open>p\<close>, and the table with it.\<close>

definition RegisterObjectPool ::
  "string \<Rightarrow> ('a, 'w) PoolFactory option \<Rightarrow> ObjectPoolOption list \<Rightarrow> go_error option \<Rightarrow> nat \<Rightarrow> 'p \<Rightarrow> 'p registry \<Rightarrow> 'w \<Rightarrow>
   'a ObjectPoolManager go_result \<times> 'p registry \<times> 'w" where
  "RegisterObjectPool name factory opts mgr ty p reg w =
     (case factory of
        None \<Rightarrow> (Inl RuntimePanic, reg, w)
      | Some f \<Rightarrow>
          if map_of reg name \<noteq> None then (Inl RuntimePanic, reg, w)
          else
            let cfg = op_derive (foldl (\<lambda>c opt. opt c)
                  \<lparr>opc_Capacity = 64, opc_MinThreshold = 0, opc_BatchSize = 0, opc_ColdStartCount = 0,
                   opc_RefreshInterval = 5 * second\<rparr> opts)
            in if opc_Capacity cfg \<le> 0 then (Inl RuntimePanic, reg, w)
               else
                 let cfg' = (if opc_Capacity cfg < opc_MinThreshold cfg
                             then cfg\<lparr>opc_MinThreshold := opc_Capacity cfg\<rparr> else cfg)
                 in (case op_Start f mgr (op_new name cfg') w of
                       (_, m, w') \<Rightarrow> (Inr m, AList.update name (ty, p) reg, w')))"

definition GetObjectPool :: "nat \<Rightarrow> string \<Rightarrow> 'p registry \<Rightarrow> 'p go_result" where
  "GetObjectPool ty name reg =
     (case map_of reg name of
        None \<Rightarrow> Inl (FmtError (''cachex: object pool '' @ name @ '' not registered''))
      | Some (ty', p) \<Rightarrow> if ty' = ty then Inr p else Inl (FmtError (''cachex: object pool '' @ name @ '' type mismatch'')))"

definition MustGetObjectPool :: "nat \<Rightarrow> string \<Rightarrow> 'p registry \<Rightarrow> 'p go_result" where
  "MustGetObjectPool ty name reg = (case GetObjectPool ty name reg of Inl err \<Rightarrow> Inl RuntimePanic | Inr p \<Rightarrow> Inr p)"

text \<open>Starting and stopping all pools of the table, in the order in which it is ranged over.\<close>

fun op_start_loop :: "('p \<Rightarrow> 'w \<Rightarrow> go_error option \<times> 'w) \<Rightarrow> 'p registry \<Rightarrow> 'w \<Rightarrow> go_error option \<times> 'w" where
  "op_start_loop start [] w = (None, w)"
| "op_start_loop start ((name, ty, p) # reg) w =
     (case start p w of
        (Some err, w') \<Rightarrow> (Some (Wrapped (''start object pool '' @ name @ '' failed'') err), w')
      | (None, w') \<Rightarrow> op_start_loop start reg w')"

definition StartAllObjectPools :: "('p \<Rightarrow> 'w \<Rightarrow> go_error option \<times> 'w) \<Rightarrow> 'p registry \<Rightarrow> 'w \<Rightarrow> go_error option \<times> 'w" where
  "StartAllObjectPools start reg w = op_start_loop start reg w"

fun op_stop_loop :: "('p \<Rightarrow> 'w \<Rightarrow> go_error option \<times> 'w) \<Rightarrow> 'p registry \<Rightarrow> go_error option \<Rightarrow> 'w \<Rightarrow> go_error option \<times> 'w" where
  "op_stop_loop stop [] firstErr w = (firstErr, w)"
| "op_stop_loop stop ((name, ty, p) # reg) firstErr w =
     (case stop p w of
        (None, w') \<Rightarrow> op_stop_loop stop reg firstErr w'
      | (Some err, w') \<Rightarrow> op_stop_loop stop reg (if firstErr = None then Some err else firstErr) w')"

definition StopAllObjectPools :: "('p \<Rightarrow> 'w \<Rightarrow> go_error option \<times> 'w) \<Rightarrow> 'p registry \<Rightarrow> 'w \<Rightarrow> go_error option \<times> 'w" where
  "StopAllObjectPools stop reg w = op_stop_loop stop reg None w"

end
