(* ===== verification/Object_Pool_Correct.thy ===== *)
theory Object_Pool_Correct
  imports Object_Pool
begin

text \<open>
  Properties of the object pool: what a fill does on its own and as a sequence of steps, the invariant
  of any interleaving of fillers, takers and the periodic task, and a capacity that is never refilled.
\<close>

section \<open>One fill\<close>

lemma op_simps [simp]:
  "op_pool (op_put v m) = op_pool m @ [v]" "op_config (op_put v m) = op_config m" "op_stopped (op_put v m) = op_stopped m"
  "op_fillers (op_put v m) = op_fillers m" "op_generated (op_put v m) = op_generated m" "op_served (op_put v m) = op_served m"
  "op_pool (op_count m) = op_pool m" "op_config (op_count m) = op_config m" "op_stopped (op_count m) = op_stopped m"
  "op_fillers (op_count m) = op_fillers m" "op_served (op_count m) = op_served m" "op_started (op_put v m) = op_started m"
  "op_started (op_count m) = op_started m"
  by (simp_all add: op_put_def op_count_def)

lemma op_fill_keeps:
  "op_config (fst (op_fill f n m w)) = op_config m \<and> op_stopped (fst (op_fill f n m w)) = op_stopped m \<and>
   op_fillers (fst (op_fill f n m w)) = op_fillers m \<and> op_served (fst (op_fill f n m w)) = op_served m"
  by (induction f n m w rule: op_fill.induct) (auto simp: Let_def split: sum.split prod.split)

lemma wrap64_add: "wrap64 (wrap64 a + b) = wrap64 (a + b)"
proof -
  have "(wrap64 a + b + 9223372036854775808) mod 18446744073709551616 =
      ((a + 9223372036854775808) mod 18446744073709551616 + b) mod 18446744073709551616"
    by (simp add: wrap64_def)
  also have "\<dots> = (a + b + 9223372036854775808) mod 18446744073709551616" by (simp add: mod_simps ac_simps)
  finally show ?thesis by (simp add: wrap64_def)
qed

lemma wrap64_add': "wrap64 (b + wrap64 a) = wrap64 (b + a)"
  using wrap64_add [of a b] by (simp add: add.commute)

text \<open>A fill appends objects to the pool and counts them; the pool stays within its capacity.\<close>

lemma op_fill_appends:
  "\<exists>vs. op_pool (fst (op_fill f n m w)) = op_pool m @ vs \<and> length vs \<le> n \<and>
     op_generated (fst (op_fill f n m w)) = (if vs = [] then op_generated m else wrap64 (op_generated m + int (length vs))) \<and>
     (int (length (op_pool m)) \<le> opc_Capacity (op_config m) \<longrightarrow>
        int (length (op_pool m @ vs)) \<le> opc_Capacity (op_config m))"
proof (induction f n m w rule: op_fill.induct)
  case (2 f n m w)
  show ?case
  proof (cases "op_stopped m \<or> \<not> op_room m")
    case False
    show ?thesis
    proof (cases "f w")
      case (Pair r w')
      show ?thesis
      proof (cases r)
        case (Inl err)
        with 2(1) [of r w' err] Pair False show ?thesis by fastforce
      next
        case (Inr v)
        obtain vs where vs: "op_pool (fst (op_fill f n (op_put v (op_count m)) w')) = op_pool (op_put v (op_count m)) @ vs"
          "length vs \<le> n"
          "op_generated (fst (op_fill f n (op_put v (op_count m)) w')) =
             (if vs = [] then op_generated (op_put v (op_count m)) else wrap64 (op_generated (op_put v (op_count m)) + int (length vs)))"
          "int (length (op_pool (op_put v (op_count m)))) \<le> opc_Capacity (op_config m) \<Longrightarrow>
             int (length (op_pool (op_put v (op_count m)) @ vs)) \<le> opc_Capacity (op_config m)"
          using 2(2) [OF _ _ Pair [symmetric] Inr refl] False by auto
        have "op_generated (op_put v (op_count m)) = wrap64 (op_generated m + 1)" by (simp add: op_put_def op_count_def)
        then show ?thesis using vs False Pair Inr
          by (intro exI [of _ "v # vs"]) (auto simp: Let_def wrap64_add' ac_simps)
      qed
    qed
  qed auto
qed auto

text \<open>With a factory that never fails a fill of \<open>n\<close> adds \<open>n\<close> objects, or as many as fit.\<close>

lemma op_fill_length:
  assumes "\<And>w. \<exists>v w'. f w = (Inr v, w')" "\<not> op_stopped m" "int (length (op_pool m)) \<le> opc_Capacity (op_config m)"
  shows "int (length (op_pool (fst (op_fill f n m w)))) = min (int (length (op_pool m) + n)) (opc_Capacity (op_config m))"
  using assms(2,3)
proof (induction n arbitrary: m w)
  case (Suc n)
  obtain v w' where f: "f w = (Inr v, w')" using assms(1) by blast
  show ?case
  proof (cases "op_room m")
    case True
    then show ?thesis using Suc.IH [of "op_put v (op_count m)" w'] Suc.prems f by (simp add: Let_def)
  next
    case False
    then show ?thesis using Suc.prems by simp
  qed
qed simp

text \<open>The steps of a filler that runs undisturbed are those of \<open>fill\<close>.\<close>

definition op_filler_turn :: "('a, 'w) PoolFactory \<Rightarrow> 'a filler \<times> 'a ObjectPoolManager \<times> 'w \<Rightarrow> 'a filler \<times> 'a ObjectPoolManager \<times> 'w" where
  "op_filler_turn f x = (case x of (s, m, w) \<Rightarrow> op_filler f s m w)"

lemma turns_add: "(op_filler_turn f ^^ (a + b)) x = (op_filler_turn f ^^ b) ((op_filler_turn f ^^ a) x)"
  by (subst add.commute) (simp add: funpow_add)

lemma op_fill_steps:
  "\<exists>k \<le> 2 * n + 1. (op_filler_turn f ^^ k) (FCheck n, m, w) = (FDone, op_fill f n m w)"
proof (induction f n m w rule: op_fill.induct)
  case (1 f m w)
  show ?case by (intro exI [of _ 1]) (simp add: op_filler_turn_def op_filler_def)
next
  case (2 f n m w)
  show ?case
  proof (cases "op_stopped m \<or> \<not> op_room m")
    case True
    then show ?thesis by (intro exI [of _ 1]) (auto simp: op_filler_turn_def op_filler_def)
  next
    case False
    obtain r w' where f: "f w = (r, w')" by fastforce
    show ?thesis
    proof (cases r)
      case (Inl err)
      then obtain k where k: "k \<le> 2 * n + 1" "(op_filler_turn f ^^ k) (FCheck n, m, w') = (FDone, op_fill f n m w')"
        using 2(1) [OF _ _ f [symmetric] Inl] False by auto
      have "(op_filler_turn f ^^ (1 + k)) (FCheck (Suc n), m, w) = (FDone, op_fill f (Suc n) m w)"
        unfolding turns_add using False f Inl k(2) by (simp add: op_filler_turn_def op_filler_def)
      then show ?thesis using k(1) by (intro exI [of _ "1 + k"]) simp
    next
      case (Inr v)
      have room: "op_room (op_count m)" using False by simp
      then obtain k where k: "k \<le> 2 * n + 1"
        "(op_filler_turn f ^^ k) (FCheck n, op_put v (op_count m), w') = (FDone, op_fill f n (op_put v (op_count m)) w')"
        using 2(2) [OF _ _ f [symmetric] Inr refl] False by auto
      have "(op_filler_turn f ^^ 2) (FCheck (Suc n), m, w) = (FCheck n, op_put v (op_count m), w')"
        using False f Inr room by (simp add: numeral_2_eq_2 op_filler_turn_def op_filler_def)
      then have "(op_filler_turn f ^^ (2 + k)) (FCheck (Suc n), m, w) = (FDone, op_fill f (Suc n) m w)"
        unfolding turns_add using False f Inr room k(2) by (simp add: Let_def)
      then show ?thesis using k(1) by (intro exI [of _ "2 + k"]) simp
    qed
  qed
qed

section \<open>Any interleaving\<close>

text \<open>A pool at work, with what was made, taken and thrown away so far.\<close>

record ('a, 'w) op_system =
  os_m :: "'a ObjectPoolManager"
  os_w :: 'w
  os_made :: "'a list"
  os_got :: "'a list"
  os_dropped :: "'a list"

fun op_made_by :: "'a filler \<Rightarrow> 'a filler \<Rightarrow> 'a list" where
  "op_made_by (FCheck n) (FMade k v) = [v]"
| "op_made_by _ _ = []"

fun op_dropped_by :: "'a filler \<Rightarrow> 'a filler \<Rightarrow> 'a list" where
  "op_dropped_by (FMade n v) FDone = [v]"
| "op_dropped_by _ _ = []"

inductive op_step :: "('a, 'w) PoolFactory \<Rightarrow> ('a, 'w) op_system \<Rightarrow> ('a, 'w) op_system \<Rightarrow> bool" for f where
  fills: "i < length (op_fillers (os_m S)) \<Longrightarrow> op_filler f (op_fillers (os_m S) ! i) (os_m S) (os_w S) = (s, m, w) \<Longrightarrow>
    op_step f S (S\<lparr>os_m := m\<lparr>op_fillers := (op_fillers m)[i := s]\<rparr>, os_w := w,
      os_made := os_made S @ op_made_by (op_fillers (os_m S) ! i) s,
      os_dropped := os_dropped S @ op_dropped_by (op_fillers (os_m S) ! i) s\<rparr>)"
| gets: "op_TryGet (os_m S) = (Some v, m) \<Longrightarrow> op_step f S (S\<lparr>os_m := m, os_got := os_got S @ [v]\<rparr>)"
| misses: "op_TryGet (os_m S) = (None, m) \<Longrightarrow> op_step f S (S\<lparr>os_m := m\<rparr>)"
| refills: "op_periodic (os_m S) \<Longrightarrow> op_refill_need (os_m S) = Some need \<Longrightarrow>
    op_step f S (S\<lparr>os_m := (os_m S)\<lparr>op_fillers := op_fillers (os_m S) @ [FCheck (nat need)]\<rparr>\<rparr>)"
| stops: "op_step f S (S\<lparr>os_m := snd (op_Stop (os_m S))\<rparr>)"

fun in_hand :: "'a filler \<Rightarrow> 'a list" where
  "in_hand (FMade n v) = [v]"
| "in_hand _ = []"

definition op_inv :: "('a, 'w) op_system \<Rightarrow> bool" where
  "op_inv S \<longleftrightarrow> int (length (op_pool (os_m S))) \<le> opc_Capacity (op_config (os_m S)) \<and>
     mset (os_made S) = mset (os_got S) + mset (op_pool (os_m S)) + mset (concat (map in_hand (op_fillers (os_m S)))) + mset (os_dropped S) \<and>
     op_generated (os_m S) = wrap64 (int (length (os_made S))) \<and> op_served (os_m S) = wrap64 (int (length (os_got S)))"

lemma op_inv_fills:
  assumes "op_inv S" "i < length (op_fillers (os_m S))" "op_filler f (op_fillers (os_m S) ! i) (os_m S) (os_w S) = (s, m, w)"
  shows "op_inv (S\<lparr>os_m := m\<lparr>op_fillers := (op_fillers m)[i := s]\<rparr>, os_w := w,
      os_made := os_made S @ op_made_by (op_fillers (os_m S) ! i) s,
      os_dropped := os_dropped S @ op_dropped_by (op_fillers (os_m S) ! i) s\<rparr>)"
proof -
  note u = mset_concat_update [OF assms(2), of in_hand s]
  have g: "wrap64 (wrap64 (int (length (os_made S))) + 1) = wrap64 (int (length (os_made S)) + 1)"
    by (simp add: wrap64_add)
  show ?thesis
  proof (cases "op_fillers (os_m S) ! i")
    case (FCheck n)
    then show ?thesis using assms(1,3) u g
      by (cases n) (auto simp: op_inv_def op_filler_def op_count_def add.commute [of 1] split: if_splits sum.splits prod.splits)
  next
    case (FMade n v)
    then show ?thesis using assms(1,3) u
      by (auto simp: op_inv_def op_filler_def op_put_def split: if_splits)
  next
    case FDone
    then show ?thesis using assms(1,3) u by (auto simp: op_inv_def op_filler_def)
  qed
qed

lemma op_inv_step: "op_step f S S' \<Longrightarrow> op_inv S \<Longrightarrow> op_inv S'"
proof (induction rule: op_step.induct)
  case (fills i S s m w)
  then show ?case using op_inv_fills [OF fills(3,1,2)] by simp
next
  case (gets S v m)
  have "wrap64 (wrap64 (int (length (os_got S))) + 1) = wrap64 (int (length (os_got S)) + 1)"
    by (simp add: wrap64_add)
  with gets show ?case by (auto simp: op_inv_def op_TryGet_def add.commute [of 1] split: list.splits)
qed (auto simp: op_inv_def op_TryGet_def op_Stop_def split: list.splits)

lemma op_inv_steps: "(op_step f)\<^sup>*\<^sup>* S S' \<Longrightarrow> op_inv S \<Longrightarrow> op_inv S'"
  by (induction rule: rtranclp_induct) (auto dest: op_inv_step)

lemma op_config_step: "op_step f S S' \<Longrightarrow> op_config (os_m S') = op_config (os_m S)"
proof (induction rule: op_step.induct)
  case (fills i S s m w)
  then show ?case by (auto simp: op_filler_def split: filler.splits nat.splits if_splits prod.splits sum.splits)
qed (auto simp: op_TryGet_def op_Stop_def split: list.splits)

lemma op_config_steps: "(op_step f)\<^sup>*\<^sup>* S S' \<Longrightarrow> op_config (os_m S') = op_config (os_m S)"
  by (induction rule: rtranclp_induct) (auto dest: op_config_step)

text \<open>The system around a pool as registration leaves it: the cold start has made what is in it.\<close>

definition op_registered :: "'a ObjectPoolManager \<Rightarrow> 'w \<Rightarrow> ('a, 'w) op_system" where
  "op_registered m w = \<lparr>os_m = m, os_w = w, os_made = op_pool m, os_got = [], os_dropped = []\<rparr>"

definition op_capped :: "ObjectPoolConfig \<Rightarrow> ObjectPoolConfig" where
  "op_capped cfg = (if opc_Capacity cfg < opc_MinThreshold cfg then cfg\<lparr>opc_MinThreshold := opc_Capacity cfg\<rparr> else cfg)"

definition op_chosen :: "ObjectPoolOption list \<Rightarrow> ObjectPoolConfig" where
  "op_chosen opts = foldl (\<lambda>c opt. opt c)
     \<lparr>opc_Capacity = 64, opc_MinThreshold = 0, opc_BatchSize = 0, opc_ColdStartCount = 0, opc_RefreshInterval = 5 * second\<rparr> opts"

lemma registered_start:
  assumes "RegisterObjectPool name (Some f) opts mgr ty p reg w = (Inr m, reg', w')"
  shows "map_of reg name = None \<and> 0 < opc_Capacity (op_derive (op_chosen opts)) \<and> reg' = AList.update name (ty, p) reg \<and>
    snd (op_Start f mgr (op_new name (op_capped (op_derive (op_chosen opts)))) w) = (m, w')"
  using assms by (cases "map_of reg name")
    (auto simp: RegisterObjectPool_def Let_def op_capped_def op_chosen_def split: if_splits prod.splits)

lemma op_fill_started: "op_started (fst (op_fill f n m w)) = op_started m"
  by (induction f n m w rule: op_fill.induct) (auto simp: Let_def split: sum.split prod.split)

lemma op_Start_new:
  assumes "snd (op_Start f mgr (op_new name cfg) w) = (m, w')" "0 < opc_Capacity cfg"
  shows "op_inv (op_registered m w') \<and> op_config m = cfg \<and> op_started m \<and> \<not> op_stopped m \<and>
    int (length (op_pool m)) \<le> opc_Capacity cfg"
proof -
  let ?m0 = "(op_new name cfg)\<lparr>op_started := True\<rparr>"
  obtain m1 w1 where m1: "op_fill f (nat (opc_ColdStartCount cfg)) ?m0 w = (m1, w1)" by fastforce
  obtain vs where vs: "op_pool m1 = vs" "op_generated m1 = (if vs = [] then 0 else wrap64 (int (length vs)))"
    "int (length vs) \<le> opc_Capacity cfg"
    using op_fill_appends [of f "nat (opc_ColdStartCount cfg)" ?m0 w] assms(2) m1 by (auto simp: op_new_def)
  have k: "op_config m1 = cfg" "op_fillers m1 = []" "op_served m1 = 0" "op_started m1" "\<not> op_stopped m1"
    using op_fill_keeps [of f "nat (opc_ColdStartCount cfg)" ?m0 w]
      op_fill_started [of f "nat (opc_ColdStartCount cfg)" ?m0 w] m1 by (simp_all add: op_new_def)
  have "m = (if 0 < opc_Capacity cfg - opc_ColdStartCount cfg
      then m1\<lparr>op_fillers := [FCheck (nat (opc_Capacity cfg - opc_ColdStartCount cfg))]\<rparr> else m1)\<lparr>op_periodic := (mgr = None)\<rparr>"
    using assms(1) m1 k by (auto simp: op_Start_def op_new_def Let_def split: if_splits)
  then show ?thesis using vs k by (simp add: op_registered_def op_inv_def wrap64_def)
qed

text \<open>
  C6: No object is lost, doubled or served twice. From registration on, for any interleaving of the
  prefill, any number of refills, takers and \<open>Stop\<close>, every object the factory made is exactly once in
  the pool, taken, in the hand of a filler or dropped; the pool never exceeds its capacity, and the two
  counters are the numbers made and taken.
\<close>
theorem op_conserves:
  assumes "RegisterObjectPool name (Some f) opts mgr ty p reg w = (Inr m, reg', w')"
    and "(op_step f)\<^sup>*\<^sup>* (op_registered m w') S"
  shows "int (length (op_pool (os_m S))) \<le> opc_Capacity (op_config m) \<and>
    mset (os_made S) = mset (os_got S) + mset (op_pool (os_m S)) + mset (concat (map in_hand (op_fillers (os_m S)))) + mset (os_dropped S) \<and>
    op_generated (os_m S) = wrap64 (int (length (os_made S))) \<and> op_served (os_m S) = wrap64 (int (length (os_got S)))"
proof -
  have "0 < opc_Capacity (op_capped (op_derive (op_chosen opts)))" using registered_start [OF assms(1)] by (simp add: op_capped_def)
  moreover have "snd (op_Start f mgr (op_new name (op_capped (op_derive (op_chosen opts)))) w) = (m, w')"
    using registered_start [OF assms(1)] by simp
  ultimately have "op_inv (op_registered m w')" by (intro op_Start_new [THEN conjunct1])
  then have "op_inv S" by (rule op_inv_steps [OF assms(2)])
  moreover have "op_config (os_m S) = op_config m" using op_config_steps [OF assms(2)] by (simp add: op_registered_def)
  ultimately show ?thesis by (simp add: op_inv_def)
qed

text \<open>A pool of capacity 4 whose factory counts; one object is made at registration.\<close>

definition op_demo_factory :: "(nat, nat) PoolFactory" where
  "op_demo_factory n = (Inr n, Suc n)"

definition op_demo_opts :: "ObjectPoolOption list" where
  "op_demo_opts = [WithObjectPoolCapacity 4, WithObjectPoolColdStartCount 1]"

lemma op_demo_registered:
  obtains m where "RegisterObjectPool ''keys'' (Some op_demo_factory) op_demo_opts None 0 ''ptr'' [] 0 = (Inr m, [(''keys'', 0, ''ptr'')], 1)"
    "op_pool m = [0]" "op_served m = 0" "op_fillers m = [FCheck 3]" "op_config m = \<lparr>opc_Capacity = 4, opc_MinThreshold = 1,
       opc_BatchSize = 2, opc_ColdStartCount = 1, opc_RefreshInterval = 5 * second\<rparr>"
proof -
  have d: "go_div 4 3 = 1" "go_div 4 2 = 2" by (simp_all add: go_div_def)
  have "\<exists>m. RegisterObjectPool ''keys'' (Some op_demo_factory) op_demo_opts None 0 ''ptr'' [] 0 = (Inr m, [(''keys'', 0, ''ptr'')], 1) \<and>
      op_pool m = [0] \<and> op_served m = 0 \<and> op_fillers m = [FCheck 3] \<and> op_config m = \<lparr>opc_Capacity = 4, opc_MinThreshold = 1,
       opc_BatchSize = 2, opc_ColdStartCount = 1, opc_RefreshInterval = 5 * second\<rparr>"
    by (simp add: RegisterObjectPool_def op_demo_opts_def op_demo_factory_def op_derive_def op_Start_def op_new_def Let_def d
        WithObjectPoolCapacity_def WithObjectPoolColdStartCount_def op_count_def op_put_def)
  then show thesis using that by blast
qed

lemma op_conserves_witness:
  "\<exists>m S. RegisterObjectPool ''keys'' (Some op_demo_factory) op_demo_opts None 0 ''ptr'' [] 0 = (Inr m, [(''keys'', 0, ''ptr'')], 1) \<and>
     (op_step op_demo_factory)\<^sup>*\<^sup>* (op_registered m 1) S \<and> os_got S = [0] \<and> mset (os_made S) = {#0#} + mset (op_pool (os_m S)) +
       mset (concat (map in_hand (op_fillers (os_m S)))) + mset (os_dropped S)"
proof -
  obtain m where m: "RegisterObjectPool ''keys'' (Some op_demo_factory) op_demo_opts None 0 ''ptr'' [] 0 = (Inr m, [(''keys'', 0, ''ptr'')], 1)"
    "op_pool m = [0]" using op_demo_registered by metis
  define S where "S = (op_registered m (1 :: nat))\<lparr>os_m := snd (op_TryGet m), os_got := os_got (op_registered m (1 :: nat)) @ [0]\<rparr>"
  have "op_step op_demo_factory (op_registered m 1) S"
    unfolding S_def by (rule op_step.gets) (simp add: op_registered_def op_TryGet_def m(2))
  then have st: "(op_step op_demo_factory)\<^sup>*\<^sup>* (op_registered m 1) S" by (rule r_into_rtranclp)
  have g: "os_got S = [0]" by (simp add: S_def op_registered_def)
  then show ?thesis using m(1) st op_conserves [OF m(1) st] by (intro exI [of _ m] exI [of _ S]) (simp add: g)
qed

section \<open>The prefill\<close>

lemma op_derive_simps [simp]:
  "opc_Capacity (op_derive cfg) = opc_Capacity cfg"
  "opc_MinThreshold (op_derive cfg) = (if opc_MinThreshold cfg \<le> 0 then go_div (opc_Capacity cfg) 3 else opc_MinThreshold cfg)"
  by (simp_all add: op_derive_def Let_def)

lemma op_derive_cold: "0 \<le> opc_ColdStartCount (op_capped (op_derive cfg))"
  by (simp add: op_derive_def op_capped_def Let_def)

text \<open>
  A new pool fills up exactly. With a factory that does not fail, the prefill goroutine that
  registration starts ends after at most two steps for each missing object, and leaves as many objects
  as the capacity says; where the cold start already filled the pool there is no such goroutine.
\<close>
theorem op_prefill_completes:
  assumes "RegisterObjectPool name (Some f) opts mgr ty p reg w = (Inr m, reg', w')" "\<And>w. \<exists>v w'. f w = (Inr v, w')"
  shows "op_fillers m = [] \<and> int (length (op_pool m)) = opc_Capacity (op_config m) \<or>
    (\<exists>n k m' w''. op_fillers m = [FCheck n] \<and> k \<le> 2 * n + 1 \<and>
       (op_filler_turn f ^^ k) (FCheck n, m, w') = (FDone, m', w'') \<and> int (length (op_pool m')) = opc_Capacity (op_config m))"
proof -
  define cfg where "cfg = op_capped (op_derive (op_chosen opts))"
  have cap: "0 < opc_Capacity cfg" and cold: "0 \<le> opc_ColdStartCount cfg"
    and st: "snd (op_Start f mgr (op_new name cfg) w) = (m, w')"
    using registered_start [OF assms(1)] op_derive_cold by (simp_all add: cfg_def op_capped_def)
  let ?m0 = "(op_new name cfg)\<lparr>op_started := True\<rparr>" and ?c = "nat (opc_ColdStartCount cfg)"
  obtain m1 w1 where m1: "op_fill f ?c ?m0 w = (m1, w1)" by fastforce
  have k: "op_config m1 = cfg" "op_fillers m1 = []" "\<not> op_stopped m1" using op_fill_keeps [of f ?c ?m0 w] m1 by (simp_all add: op_new_def)
  have len: "int (length (op_pool m1)) = min (opc_ColdStartCount cfg) (opc_Capacity cfg)"
    using op_fill_length [where f = f, OF assms(2), where m = ?m0 and n = ?c and w = w] m1 cap cold by (simp add: op_new_def)
  let ?d = "opc_Capacity cfg - opc_ColdStartCount cfg"
  have m: "m = (if 0 < ?d then m1\<lparr>op_fillers := [FCheck (nat ?d)]\<rparr> else m1)\<lparr>op_periodic := (mgr = None)\<rparr>"
    using st m1 k by (auto simp: op_Start_def op_new_def Let_def split: if_splits)
  show ?thesis
  proof (cases "0 < ?d")
    case True
    obtain j where j: "j \<le> 2 * nat ?d + 1" "(op_filler_turn f ^^ j) (FCheck (nat ?d), m, w') = (FDone, op_fill f (nat ?d) m w')"
      using op_fill_steps [of "nat ?d" f m w'] by blast
    have "int (length (op_pool (fst (op_fill f (nat ?d) m w')))) = opc_Capacity cfg"
      using op_fill_length [where f = f, OF assms(2), where m = m and n = "nat ?d" and w = w'] True len k by (simp add: m)
    then show ?thesis using j True k by (intro disjI2 exI [of _ "nat ?d"] exI [of _ j]
        exI [of _ "fst (op_fill f (nat ?d) m w')"] exI [of _ "snd (op_fill f (nat ?d) m w')"]) (simp add: m)
  next
    case False
    then show ?thesis using len k by (simp add: m)
  qed
qed

lemma op_prefill_completes_witness:
  "\<exists>m k m' w''. RegisterObjectPool ''keys'' (Some op_demo_factory) op_demo_opts None 0 ''ptr'' [] 0 = (Inr m, [(''keys'', 0, ''ptr'')], 1) \<and>
     k \<le> 7 \<and> (op_filler_turn op_demo_factory ^^ k) (FCheck 3, m, 1) = (FDone, m', w'') \<and> length (op_pool m') = 4"
proof -
  obtain m where m: "RegisterObjectPool ''keys'' (Some op_demo_factory) op_demo_opts None 0 ''ptr'' [] 0 = (Inr m, [(''keys'', 0, ''ptr'')], 1)"
    "op_fillers m = [FCheck 3]" "opc_Capacity (op_config m) = 4" using op_demo_registered by (metis ObjectPoolConfig.select_convs(1))
  have "\<exists>v w'. op_demo_factory w = (Inr v, w')" for w by (simp add: op_demo_factory_def)
  from op_prefill_completes [OF m(1) this] m show ?thesis by fastforce
qed

section \<open>Where the code goes wrong\<close>

text \<open>
  A pool of capacity 1 or 2 without an explicit threshold is never refilled: the default threshold,
  a third of the capacity, is 0, and no number of objects is below it. Once its first objects are taken
  the pool stays empty in every state it can reach, however long the periodic task runs.
\<close>
theorem op_small_never_refilled:
  assumes "RegisterObjectPool name (Some f) opts mgr ty p reg w = (Inr m, reg', w')"
    and "opc_Capacity (op_chosen opts) < 3" "opc_MinThreshold (op_chosen opts) \<le> 0"
    and "(op_step f)\<^sup>*\<^sup>* (op_registered m w') S"
  shows "op_refill_need (os_m S) = None \<and> op_refillTask f (os_m S) (os_w S) = (os_m S, os_w S)"
proof -
  define cfg where "cfg = op_capped (op_derive (op_chosen opts))"
  have cap: "0 < opc_Capacity (op_derive (op_chosen opts))" and st: "snd (op_Start f mgr (op_new name cfg) w) = (m, w')"
    using registered_start [OF assms(1)] by (simp_all add: cfg_def)
  have "go_div (opc_Capacity (op_chosen opts)) 3 = 0" using cap assms(2) by (simp add: go_div_nonneg)
  then have t: "opc_MinThreshold cfg = 0" using assms(3) cap by (simp add: cfg_def op_capped_def)
  have "0 < opc_Capacity cfg" using cap by (simp add: cfg_def op_capped_def)
  then have "op_config m = cfg" using op_Start_new [OF st] by simp
  then have "op_config (os_m S) = cfg" using op_config_steps [OF assms(4)] by (simp add: op_registered_def)
  then show ?thesis using t by (simp add: op_refill_need_def op_refillTask_def Let_def)
qed

lemma op_small_never_refilled_witness:
  "\<exists>m. RegisterObjectPool ''k'' (Some op_demo_factory) [WithObjectPoolCapacity 2] None 0 ''ptr'' [] 0 = (Inr m, [(''k'', 0, ''ptr'')], 0) \<and>
     op_pool m = [] \<and> op_refill_need m = None"
proof -
  have d: "go_div 2 3 = 0" "go_div 2 2 = 1" by (simp_all add: go_div_def)
  obtain m where m: "RegisterObjectPool ''k'' (Some op_demo_factory) [WithObjectPoolCapacity 2] None 0 ''ptr'' [] 0 = (Inr m, [(''k'', 0, ''ptr'')], 0)"
    "op_pool m = []"
    by (simp add: RegisterObjectPool_def op_derive_def op_Start_def op_new_def Let_def d WithObjectPoolCapacity_def)
  then show ?thesis
    using op_small_never_refilled [OF m(1) _ _ rtranclp.rtrancl_refl] by (simp add: op_chosen_def WithObjectPoolCapacity_def op_registered_def)
qed

end
