(* ===== verification/Distributed_Lock.thy ===== *)
theory Distributed_Lock
  imports Outside
begin

text \<open>
  \<open>DistributedLock\<close> and \<open>LockManager\<close> of \<open>distributed_lock.go\<close>: a lease on a Redis key, taken with \<open>SET NX\<close>,
  released and extended by Lua scripts that compare the token, and renewed by a watchdog goroutine.

  \<open>R\<close> are the commands of the client and those the scripts call; any of them may fail. \<open>d\<close> is the server
  with the network. Tokens come from the \<open>idgen\<close> of go-toolbox and are arguments. A context of a
  watchdog is a number; \<open>dl_done\<close> lists those that are done. The stop channels a lock has made, each with
  whether its buffer holds a signal, and the watchdogs it has started are part of its record. An
  operation holds the mutex of its lock throughout; where it sends two commands that matter, what other
  clients do between them is a function. Logging is left out.
\<close>

definition ErrLockNotFound :: go_error where "ErrLockNotFound = FmtError ''lock not found''"
definition ErrLockNotObtained :: go_error where "ErrLockNotObtained = FmtError ''lock not obtained''"
definition ErrLockExpired :: go_error where "ErrLockExpired = FmtError ''lock has expired''"
definition ErrLockNotOwned :: go_error where "ErrLockNotOwned = FmtError ''lock not owned by this instance''"

definition millisecond :: duration where "millisecond = 1000000"

record LockConfig =
  lkc_TTL :: duration
  lkc_RetryInterval :: duration
  lkc_MaxRetries :: int
  lkc_Namespace :: string
  lkc_EnableWatchdog :: bool
  lkc_WatchdogInterval :: duration

section \<open>Redis\<close>

record 'd redis_lock =
  lk_Get :: "time \<Rightarrow> string \<Rightarrow> 'd \<Rightarrow> string go_result \<times> 'd"
  lk_SetNX :: "time \<Rightarrow> string \<Rightarrow> string \<Rightarrow> duration \<Rightarrow> 'd \<Rightarrow> bool go_result \<times> 'd"
  lk_TTL :: "time \<Rightarrow> string \<Rightarrow> 'd \<Rightarrow> duration go_result \<times> 'd"
  lk_net :: "'d \<Rightarrow> delivery"
  lua_GET :: "time \<Rightarrow> string \<Rightarrow> 'd \<Rightarrow> string option go_result \<times> 'd"
  lua_DEL :: "time \<Rightarrow> string \<Rightarrow> 'd \<Rightarrow> int go_result \<times> 'd"
  lua_PEXPIRE :: "time \<Rightarrow> string \<Rightarrow> int \<Rightarrow> 'd \<Rightarrow> int go_result \<times> 'd"

text \<open>The two scripts: a command on the key if it has the value of the token.\<close>

definition lua_if_owner ::
  "'d redis_lock \<Rightarrow> ('d \<Rightarrow> int go_result \<times> 'd) \<Rightarrow> time \<Rightarrow> string \<Rightarrow> string \<Rightarrow> 'd \<Rightarrow> int go_result \<times> 'd" where
  "lua_if_owner R cmd now key token d =
     (case lua_GET R now key d of
        (Inl err, d1) \<Rightarrow> (Inl err, d1)
      | (Inr v, d1) \<Rightarrow> if v = Some token then cmd d1 else (Inr 0, d1))"

definition lua_unlock :: "'d redis_lock \<Rightarrow> time \<Rightarrow> string \<Rightarrow> string \<Rightarrow> 'd \<Rightarrow> int go_result \<times> 'd" where
  "lua_unlock R now key token = lua_if_owner R (lua_DEL R now key) now key token"

definition lua_extend :: "'d redis_lock \<Rightarrow> time \<Rightarrow> string \<Rightarrow> string \<Rightarrow> int \<Rightarrow> 'd \<Rightarrow> int go_result \<times> 'd" where
  "lua_extend R now key token ms = lua_if_owner R (lua_PEXPIRE R now key ms) now key token"

section \<open>The lock\<close>

text \<open>A watchdog: not yet running, at its \<open>select\<close> on a stop channel, before the check of the lock, before
  the extension, or gone.\<close>

datatype watchdog = WdStart | WdSelect nat | WdCheck nat | WdExtend nat | WdDone

record 'd DistributedLock =
  dl_config :: LockConfig
  dl_key :: string
  dl_token :: string
  dl_acquired :: bool
  dl_expireTime :: "time option"
  dl_stopChan :: "nat option"
  dl_onBeforeExtend :: "('d \<Rightarrow> 'd) option"
  dl_onAfterExtend :: "(go_error option \<Rightarrow> 'd \<Rightarrow> 'd) option"
  dl_chans :: "bool list"
  dl_watchdogs :: "(nat \<times> watchdog) list"
  dl_done :: "nat list"

definition OnBeforeExtend :: "('d \<Rightarrow> 'd) option \<Rightarrow> 'd DistributedLock \<Rightarrow> 'd DistributedLock" where
  "OnBeforeExtend fn l = l\<lparr>dl_onBeforeExtend := fn\<rparr>"

definition OnAfterExtend :: "(go_error option \<Rightarrow> 'd \<Rightarrow> 'd) option \<Rightarrow> 'd DistributedLock \<Rightarrow> 'd DistributedLock" where
  "OnAfterExtend fn l = l\<lparr>dl_onAfterExtend := fn\<rparr>"

definition stopWatchdogLocked :: "'d DistributedLock \<Rightarrow> 'd DistributedLock" where
  "stopWatchdogLocked l =
     (case dl_stopChan l of
        None \<Rightarrow> l
      | Some c \<Rightarrow> l\<lparr>dl_chans := (dl_chans l)[c := True], dl_stopChan := None\<rparr>)"

definition resetState :: "'d DistributedLock \<Rightarrow> 'd DistributedLock" where
  "resetState l = stopWatchdogLocked (l\<lparr>dl_acquired := False, dl_token := [], dl_expireTime := None\<rparr>)"

definition lock_defaults :: "mathx \<Rightarrow> LockConfig \<Rightarrow> LockConfig" where
  "lock_defaults X config0 =
     (let ttl = IfNotZero X (lkc_TTL config0) (5 * 60 * second)
      in config0\<lparr>lkc_TTL := ttl,
           lkc_RetryInterval := IfNotZero X (lkc_RetryInterval config0) (100 * millisecond),
           lkc_MaxRetries := IfNotZero X (lkc_MaxRetries config0) 10,
           lkc_Namespace := IfNotEmpty X (lkc_Namespace config0) ''lock'',
           lkc_WatchdogInterval := IfNotZero X (lkc_WatchdogInterval config0) (go_div ttl 3)\<rparr>)"

definition NewDistributedLock :: "mathx \<Rightarrow> string \<Rightarrow> LockConfig \<Rightarrow> 'd DistributedLock" where
  "NewDistributedLock X key config0 =
     (let config = lock_defaults X config0
      in \<lparr>dl_config = config, dl_key = lkc_Namespace config @ '':'' @ key, dl_token = [], dl_acquired = False,
          dl_expireTime = None, dl_stopChan = None, dl_onBeforeExtend = None, dl_onAfterExtend = None,
          dl_chans = [], dl_watchdogs = [], dl_done = []\<rparr>)"

section \<open>Acquiring\<close>

text \<open>The check of a lock that is held locally, and the attempt to set the key.\<close>

definition dl_check :: "'d redis_lock \<Rightarrow> time \<Rightarrow> 'd DistributedLock \<Rightarrow> 'd \<Rightarrow> bool \<times> 'd DistributedLock \<times> 'd" where
  "dl_check R now l d =
     (if dl_acquired l
      then (case lk_Get R now (dl_key l) d of
              (r, d') \<Rightarrow> if r = Inr (dl_token l) then (True, l, d') else (False, resetState l, d'))
      else (False, l, d))"

definition dl_startWatchdog :: "nat \<Rightarrow> 'd DistributedLock \<Rightarrow> 'd DistributedLock" where
  "dl_startWatchdog ctx l =
     l\<lparr>dl_chans := dl_chans l @ [False], dl_stopChan := Some (length (dl_chans l)),
       dl_watchdogs := dl_watchdogs l @ [(ctx, WdStart)]\<rparr>"

definition dl_take ::
  "'d redis_lock \<Rightarrow> string \<Rightarrow> time \<Rightarrow> time \<Rightarrow> nat \<Rightarrow> 'd DistributedLock \<Rightarrow> 'd \<Rightarrow> bool go_result \<times> 'd DistributedLock \<times> 'd" where
  "dl_take R token now here ctx l d =
     (let l1 = l\<lparr>dl_token := token\<rparr>
      in (case lk_SetNX R now (dl_key l1) (dl_token l1) (lkc_TTL (dl_config l1)) d of
            (Inl err, d') \<Rightarrow> (Inl (Wrapped ''failed to acquire lock'' err), l1, d')
          | (Inr True, d') \<Rightarrow>
              let l2 = l1\<lparr>dl_acquired := True, dl_expireTime := Some (here + lkc_TTL (dl_config l1))\<rparr>
              in (Inr True, if lkc_EnableWatchdog (dl_config l2) then dl_startWatchdog ctx l2 else l2, d')
          | (Inr False, d') \<Rightarrow> (Inr False, l1, d')))"

text \<open>
  One attempt: the new token, the server's clock at the two commands and what other clients do between
  them, the local clock after the second; then what happens until the next tick, and the error of the
  context where the wait of \<open>Lock\<close> ends with it.
\<close>

record 'd attempt =
  at_token :: string
  at_get :: time
  at_between :: "'d \<Rightarrow> 'd"
  at_set :: time
  at_here :: time
  at_wait :: "'d \<Rightarrow> 'd"
  at_done :: "go_error option"

definition TryLock ::
  "'d redis_lock \<Rightarrow> nat \<Rightarrow> 'd attempt \<Rightarrow> 'd DistributedLock \<Rightarrow> 'd \<Rightarrow> bool go_result \<times> 'd DistributedLock \<times> 'd" where
  "TryLock R ctx a l d =
     (case dl_check R (at_get a) l d of
        (True, l1, d1) \<Rightarrow> (Inr True, l1, d1)
      | (False, l1, d1) \<Rightarrow> dl_take R (at_token a) (at_set a) (at_here a) ctx l1 (at_between a d1))"

text \<open>The loop of \<open>Lock\<close>, for the attempts of a list; without a result it is still waiting.\<close>

fun lock_loop ::
  "'d redis_lock \<Rightarrow> nat \<Rightarrow> 'd attempt list \<Rightarrow> 'd DistributedLock \<Rightarrow> 'd \<Rightarrow> go_error option option \<times> 'd DistributedLock \<times> 'd" where
  "lock_loop R ctx [] l d = (None, l, d)"
| "lock_loop R ctx (a # as) l d =
     (case TryLock R ctx a l d of
        (Inl err, l', d') \<Rightarrow> (Some (Some err), l', d')
      | (Inr True, l', d') \<Rightarrow> (Some None, l', d')
      | (Inr False, l', d') \<Rightarrow>
          (case at_done a of
             Some err \<Rightarrow> (Some (Some err), l', at_wait a d')
           | None \<Rightarrow> lock_loop R ctx as l' (at_wait a d')))"

text \<open>\<open>NewTicker\<close> panics for an interval that is not positive.\<close>

definition dl_Lock ::
  "'d redis_lock \<Rightarrow> nat \<Rightarrow> 'd attempt list \<Rightarrow> 'd DistributedLock \<Rightarrow> 'd \<Rightarrow> go_error option option \<times> 'd DistributedLock \<times> 'd" where
  "dl_Lock R ctx as l d =
     (if lkc_RetryInterval (dl_config l) \<le> 0 then (Some (Some RuntimePanic), l, d) else lock_loop R ctx as l d)"

text \<open>\<open>LockWithTimeout\<close>: \<open>ctx\<close> is the context it makes, which is done when it returns.\<close>

definition LockWithTimeout ::
  "'d redis_lock \<Rightarrow> nat \<Rightarrow> 'd attempt list \<Rightarrow> 'd DistributedLock \<Rightarrow> 'd \<Rightarrow> go_error option option \<times> 'd DistributedLock \<times> 'd" where
  "LockWithTimeout R ctx as l d =
     (case dl_Lock R ctx as l d of
        (None, l', d') \<Rightarrow> (None, l', d')
      | (Some r, l', d') \<Rightarrow> (Some r, l'\<lparr>dl_done := ctx # dl_done l'\<rparr>, d'))"

section \<open>Releasing, extending, asking\<close>

definition Unlock :: "'d redis_lock \<Rightarrow> time \<Rightarrow> 'd DistributedLock \<Rightarrow> 'd \<Rightarrow> go_error option \<times> 'd DistributedLock \<times> 'd" where
  "Unlock R now l d =
     (if \<not> dl_acquired l then (Some ErrLockNotFound, l, d)
      else (case deliver (lk_net R d) (lua_unlock R now (dl_key l) (dl_token l)) d of
              (Inl err, d') \<Rightarrow> (Some (Wrapped ''failed to release lock'' err), resetState l, d')
            | (Inr n, d') \<Rightarrow>
                if n = 1 then (None, resetState l, d')
                else (Some ErrLockNotFound, resetState l, snd (lk_Get R now (dl_key l) d'))))"

definition Extend ::
  "'d redis_lock \<Rightarrow> time \<Rightarrow> time \<Rightarrow> duration \<Rightarrow> 'd DistributedLock \<Rightarrow> 'd \<Rightarrow> go_error option \<times> 'd DistributedLock \<times> 'd" where
  "Extend R now here ttl l d =
     (if \<not> dl_acquired l then (Some ErrLockNotFound, l, d)
      else if dl_token l = [] then (Some ErrLockNotOwned, l, d)
      else (case deliver (lk_net R d) (lua_extend R now (dl_key l) (dl_token l) (go_div ttl millisecond)) d of
              (Inl err, d') \<Rightarrow> (Some (Wrapped ''failed to extend lock'' err), resetState l, d')
            | (Inr n, d') \<Rightarrow>
                if n = 1 then (None, l\<lparr>dl_expireTime := Some (here + ttl)\<rparr>, d')
                else (Some ErrLockNotOwned, resetState l, d')))"

definition IsLocked :: "'d redis_lock \<Rightarrow> time \<Rightarrow> 'd DistributedLock \<Rightarrow> 'd \<Rightarrow> bool go_result \<times> 'd DistributedLock \<times> 'd" where
  "IsLocked R now l d =
     (if \<not> dl_acquired l then (Inr False, l, d)
      else (case lk_Get R now (dl_key l) d of
              (Inl err, d') \<Rightarrow> if err = RedisNil then (Inr False, resetState l, d') else (Inl err, l, d')
            | (Inr v, d') \<Rightarrow> if v \<noteq> dl_token l then (Inr False, resetState l, d') else (Inr True, l, d')))"

definition dl_TTL :: "'d redis_lock \<Rightarrow> time \<Rightarrow> 'd DistributedLock \<Rightarrow> 'd \<Rightarrow> duration go_result \<times> 'd" where
  "dl_TTL R now l d =
     (case lk_TTL R now (dl_key l) d of
        (Inl err, d') \<Rightarrow> (Inl err, d')
      | (Inr ttl, d') \<Rightarrow> if ttl = -2 then (Inl ErrLockNotFound, d') else (Inr ttl, d'))"

record LockStats =
  ls_Key :: string
  ls_Token :: string
  ls_Acquired :: bool
  ls_ExpireTime :: "time option"
  ls_TTL :: duration
  ls_WatchdogActive :: bool

definition GetStats :: "'d redis_lock \<Rightarrow> time \<Rightarrow> 'd DistributedLock \<Rightarrow> 'd \<Rightarrow> LockStats \<times> 'd" where
  "GetStats R now l d =
     (let stats = \<lparr>ls_Key = dl_key l, ls_Token = dl_token l, ls_Acquired = dl_acquired l, ls_ExpireTime = dl_expireTime l,
                   ls_TTL = 0, ls_WatchdogActive = lkc_EnableWatchdog (dl_config l)\<rparr>
      in if dl_acquired l
         then (case dl_TTL R now l d of (Inl err, d') \<Rightarrow> (stats, d') | (Inr ttl, d') \<Rightarrow> (stats\<lparr>ls_TTL := ttl\<rparr>, d'))
         else (stats, d))"

section \<open>The watchdog\<close>

datatype wd_case = WdTicked | WdStopped | WdCtxDone

definition before_extend :: "'d DistributedLock \<Rightarrow> 'd \<Rightarrow> 'd" where
  "before_extend l d = (case dl_onBeforeExtend l of None \<Rightarrow> d | Some fn \<Rightarrow> fn d)"

definition after_extend :: "'d DistributedLock \<Rightarrow> go_error option \<Rightarrow> 'd \<Rightarrow> 'd" where
  "after_extend l err d = (case dl_onAfterExtend l of None \<Rightarrow> d | Some fn \<Rightarrow> fn err d)"

text \<open>The next step of a watchdog; \<open>tick\<close> says whether its ticker has fired. A ticker without a positive
  interval panics, and the goroutine ends.\<close>

definition wd_step ::
  "'d redis_lock \<Rightarrow> nat \<Rightarrow> bool \<Rightarrow> time \<Rightarrow> time \<Rightarrow> nat \<times> watchdog \<Rightarrow> 'd DistributedLock \<Rightarrow> 'd \<Rightarrow>
   (watchdog \<times> 'd DistributedLock \<times> 'd) option" where
  "wd_step R pick tick now here w l d =
     (case snd w of
        WdStart \<Rightarrow>
          (case dl_stopChan l of
             None \<Rightarrow> Some (WdDone, l, d)
           | Some c \<Rightarrow> Some (if lkc_WatchdogInterval (dl_config l) \<le> 0 then WdDone else WdSelect c, l, d))
      | WdSelect c \<Rightarrow>
          (case go_select [(tick, WdTicked), (dl_chans l ! c, WdStopped), (fst w \<in> set (dl_done l), WdCtxDone)] pick of
             None \<Rightarrow> None
           | Some WdTicked \<Rightarrow> Some (if dl_acquired l then WdCheck c else WdDone, l, d)
           | Some WdStopped \<Rightarrow> Some (WdDone, l\<lparr>dl_chans := (dl_chans l)[c := False]\<rparr>, d)
           | Some WdCtxDone \<Rightarrow> Some (WdDone, l, d))
      | WdCheck c \<Rightarrow>
          (case IsLocked R now l d of
             (Inl err, l', d') \<Rightarrow> Some (if errors_Is err RedisClosed then WdDone else WdSelect c, l', d')
           | (Inr False, l', d') \<Rightarrow> Some (WdDone, l', d')
           | (Inr True, l', d') \<Rightarrow> Some (WdExtend c, l', before_extend l' d'))
      | WdExtend c \<Rightarrow>
          (case Extend R now here (lkc_TTL (dl_config l)) l d of
             (err, l', d') \<Rightarrow> Some (if err = None then WdSelect c else WdDone, l', after_extend l' err d'))
      | WdDone \<Rightarrow> None)"

text \<open>A step of the watchdog with number \<open>n\<close>; one that is not there or blocks stays.\<close>

definition dl_watch ::
  "'d redis_lock \<Rightarrow> nat \<Rightarrow> nat \<Rightarrow> bool \<Rightarrow> time \<Rightarrow> time \<Rightarrow> 'd DistributedLock \<Rightarrow> 'd \<Rightarrow> 'd DistributedLock \<times> 'd" where
  "dl_watch R n pick tick now here l d =
     (if n < length (dl_watchdogs l)
      then (case wd_step R pick tick now here (dl_watchdogs l ! n) l d of
              None \<Rightarrow> (l, d)
            | Some (w, l', d') \<Rightarrow>
                (l'\<lparr>dl_watchdogs := (dl_watchdogs l')[n := (fst (dl_watchdogs l ! n), w)]\<rparr>, d'))
      else (l, d))"

section \<open>The manager\<close>

type_synonym LockOption = "LockConfig \<Rightarrow> LockConfig"

definition WithLockTTL :: "duration \<Rightarrow> LockOption" where "WithLockTTL ttl c = c\<lparr>lkc_TTL := ttl\<rparr>"
definition WithLockRetryInterval :: "duration \<Rightarrow> LockOption" where "WithLockRetryInterval d c = c\<lparr>lkc_RetryInterval := d\<rparr>"
definition WithLockMaxRetries :: "int \<Rightarrow> LockOption" where "WithLockMaxRetries n c = c\<lparr>lkc_MaxRetries := n\<rparr>"
definition WithLockNamespace :: "string \<Rightarrow> LockOption" where "WithLockNamespace ns c = c\<lparr>lkc_Namespace := ns\<rparr>"
definition WithLockWatchdog :: "bool \<Rightarrow> LockOption" where "WithLockWatchdog enable c = c\<lparr>lkc_EnableWatchdog := enable\<rparr>"
definition WithLockWatchdogInterval :: "duration \<Rightarrow> LockOption" where
  "WithLockWatchdogInterval d c = c\<lparr>lkc_WatchdogInterval := d\<rparr>"

text \<open>The locks are pointers into a heap, which keeps those that callers still hold.\<close>

record 'd LockManager =
  lm_config :: LockConfig
  lm_locks :: "(string, nat) go_map"
  lm_heap :: "'d DistributedLock list"

definition NewLockManager :: "LockOption list \<Rightarrow> 'd LockManager" where
  "NewLockManager opts =
     (let cfg = \<lparr>lkc_TTL = 5 * 60 * second, lkc_RetryInterval = 100 * millisecond, lkc_MaxRetries = 10,
                 lkc_Namespace = ''lock'', lkc_EnableWatchdog = True, lkc_WatchdogInterval = 60 * second\<rparr>
      in \<lparr>lm_config = fold (\<lambda>opt c. opt c) opts cfg, lm_locks = [], lm_heap = []\<rparr>)"

definition GetLock :: "mathx \<Rightarrow> string \<Rightarrow> 'd LockManager \<Rightarrow> nat \<times> 'd LockManager" where
  "GetLock X key m =
     (case map_of (lm_locks m) key of
        Some p \<Rightarrow> (p, m)
      | None \<Rightarrow>
          let p = length (lm_heap m)
          in (p, m\<lparr>lm_heap := lm_heap m @ [NewDistributedLock X key (lm_config m)],
                   lm_locks := AList.update key p (lm_locks m)\<rparr>))"

definition lm_unlock :: "'d redis_lock \<Rightarrow> time \<Rightarrow> nat \<Rightarrow> 'd LockManager \<Rightarrow> 'd \<Rightarrow> go_error option \<times> 'd LockManager \<times> 'd" where
  "lm_unlock R now p m d =
     (case Unlock R now (lm_heap m ! p) d of (err, l, d') \<Rightarrow> (err, m\<lparr>lm_heap := (lm_heap m)[p := l]\<rparr>, d'))"

definition ReleaseLock :: "'d redis_lock \<Rightarrow> time \<Rightarrow> string \<Rightarrow> 'd LockManager \<Rightarrow> 'd \<Rightarrow> go_error option \<times> 'd LockManager \<times> 'd" where
  "ReleaseLock R now key m d =
     (case map_of (lm_locks m) key of
        None \<Rightarrow> (Some ErrLockNotFound, m, d)
      | Some p \<Rightarrow> lm_unlock R now p (m\<lparr>lm_locks := AList.delete key (lm_locks m)\<rparr>) d)"

text \<open>The loops over the locks of a manager; \<open>tm\<close> is the server's clock at the command for each key.\<close>

fun release_loop ::
  "'d redis_lock \<Rightarrow> (string \<Rightarrow> time) \<Rightarrow> (string, nat) go_map \<Rightarrow> go_error option \<Rightarrow> 'd LockManager \<Rightarrow> 'd \<Rightarrow>
   go_error option \<times> 'd LockManager \<times> 'd" where
  "release_loop R tm [] lastErr m d = (lastErr, m, d)"
| "release_loop R tm ((key, p) # locks) lastErr m d =
     (case lm_unlock R (tm key) p m d of
        (Some err, m', d') \<Rightarrow> release_loop R tm locks (Some (Wrapped (''failed to release lock '' @ key) err)) m' d'
      | (None, m', d') \<Rightarrow> release_loop R tm locks lastErr m' d')"

definition ReleaseAllLocks :: "'d redis_lock \<Rightarrow> (string \<Rightarrow> time) \<Rightarrow> 'd LockManager \<Rightarrow> 'd \<Rightarrow> go_error option \<times> 'd LockManager \<times> 'd" where
  "ReleaseAllLocks R tm m d = release_loop R tm (lm_locks m) None (m\<lparr>lm_locks := []\<rparr>) d"

fun stats_loop ::
  "'d redis_lock \<Rightarrow> (string \<Rightarrow> time) \<Rightarrow> (string, nat) go_map \<Rightarrow> 'd LockManager \<Rightarrow> 'd \<Rightarrow> (string, LockStats) go_map \<times> 'd" where
  "stats_loop R tm [] m d = ([], d)"
| "stats_loop R tm ((key, p) # locks) m d =
     (case GetStats R (tm key) (lm_heap m ! p) d of
        (stat, d1) \<Rightarrow> (case stats_loop R tm locks m d1 of (stats, d2) \<Rightarrow> ((key, stat) # stats, d2)))"

definition GetAllLockStats :: "'d redis_lock \<Rightarrow> (string \<Rightarrow> time) \<Rightarrow> 'd LockManager \<Rightarrow> 'd \<Rightarrow> (string, LockStats) go_map \<times> 'd" where
  "GetAllLockStats R tm m d = stats_loop R tm (lm_locks m) m d"

fun cleanup_loop ::
  "'d redis_lock \<Rightarrow> (string \<Rightarrow> time) \<Rightarrow> (string, nat) go_map \<Rightarrow> string list \<Rightarrow> 'd LockManager \<Rightarrow> 'd \<Rightarrow>
   string list \<times> 'd LockManager \<times> 'd" where
  "cleanup_loop R tm [] keysToDelete m d = (keysToDelete, m, d)"
| "cleanup_loop R tm ((key, p) # locks) keysToDelete m d =
     (case IsLocked R (tm key) (lm_heap m ! p) d of
        (r, l, d') \<Rightarrow>
          cleanup_loop R tm locks (if r = Inr True then keysToDelete else keysToDelete @ [key])
            (m\<lparr>lm_heap := (lm_heap m)[p := l]\<rparr>) d')"

definition CleanupExpiredLocks :: "'d redis_lock \<Rightarrow> (string \<Rightarrow> time) \<Rightarrow> 'd LockManager \<Rightarrow> 'd \<Rightarrow> 'd LockManager \<times> 'd" where
  "CleanupExpiredLocks R tm m d =
     (case cleanup_loop R tm (lm_locks m) [] m d of
        (keysToDelete, m', d') \<Rightarrow> (m'\<lparr>lm_locks := fold AList.delete keysToDelete (lm_locks m')\<rparr>, d'))"

section \<open>Critical sections\<close>

text \<open>The function runs at the acquired lock; without a result \<open>Lock\<close> is still waiting.\<close>

definition LockWithRetry ::
  "mathx \<Rightarrow> 'd redis_lock \<Rightarrow> 'd attempt list \<Rightarrow> time \<Rightarrow> string \<Rightarrow> LockConfig \<Rightarrow> ('d \<Rightarrow> go_error option \<times> 'd) \<Rightarrow> 'd \<Rightarrow>
   go_error option option \<times> 'd" where
  "LockWithRetry X R as now key config fn d =
     (case dl_Lock R 0 as (NewDistributedLock X key config) d of
        (None, l, d1) \<Rightarrow> (None, d1)
      | (Some (Some err), l, d1) \<Rightarrow> (Some (Some (Wrapped ''failed to acquire lock'' err)), d1)
      | (Some None, l, d1) \<Rightarrow>
          (case fn d1 of (err, d2) \<Rightarrow>
             (case Unlock R now l d2 of (unlockErr, l', d3) \<Rightarrow> (Some err, d3))))"

definition MutexLock ::
  "mathx \<Rightarrow> 'd redis_lock \<Rightarrow> 'd attempt list \<Rightarrow> time \<Rightarrow> string \<Rightarrow> duration \<Rightarrow> ('d \<Rightarrow> go_error option \<times> 'd) \<Rightarrow> 'd \<Rightarrow>
   go_error option option \<times> 'd" where
  "MutexLock X R as now key ttl fn d =
     (let config = \<lparr>lkc_TTL = ttl, lkc_RetryInterval = 100 * millisecond, lkc_MaxRetries = 30, lkc_Namespace = ''mutex'',
                    lkc_EnableWatchdog = False, lkc_WatchdogInterval = 0\<rparr>
      in LockWithRetry X R as now key config fn d)"

end
