(* ===== verification/Distributed_Lock_Correct.thy ===== *)
theory Distributed_Lock_Correct
  imports Distributed_Lock
begin

text \<open>
  Properties of the distributed lock: whatever other instances do, and whatever requests fail, a lease
  that was acquired stays with its holder until its time is over, so no other instance acquires the
  lock; a watchdog that ticks in time keeps it. Then the ways in which a lock is lost.
\<close>

section \<open>The laws of the lock commands\<close>

text \<open>
  \<open>lease d key\<close> is the value under a key with its deadline. A command that fails has had its effect or
  none. The time to live of \<open>SET NX\<close> is a positive whole number of milliseconds.
\<close>

type_synonym lease = "(string \<times> time option) option"

definition whole_ms :: "duration \<Rightarrow> bool" where
  "whole_ms ttl \<longleftrightarrow> 0 < ttl \<and> ttl mod millisecond = 0"

definition lk_read_law :: "'d redis_lock \<Rightarrow> ('d \<Rightarrow> string \<Rightarrow> lease) \<Rightarrow> bool" where
  "lk_read_law R lease \<longleftrightarrow>
     (\<forall>now k d. lease (snd (lk_Get R now k d)) = lease d \<and> lease (snd (lk_TTL R now k d)) = lease d \<and>
        lease (snd (lua_GET R now k d)) = lease d)"

definition lk_value_law :: "'d redis_lock \<Rightarrow> ('d \<Rightarrow> string \<Rightarrow> lease) \<Rightarrow> bool" where
  "lk_value_law R lease \<longleftrightarrow>
     (\<forall>now k d v. (fst (lua_GET R now k d) = Inr v \<longrightarrow> v = map_option fst (live now (lease d k))) \<and>
        (\<forall>w. fst (lk_Get R now k d) = Inr w \<longrightarrow> map_option fst (live now (lease d k)) = Some w))"

definition lk_setnx_law :: "'d redis_lock \<Rightarrow> ('d \<Rightarrow> string \<Rightarrow> lease) \<Rightarrow> bool" where
  "lk_setnx_law R lease \<longleftrightarrow>
     (\<forall>now k v ttl d r d'. whole_ms ttl \<longrightarrow> lk_SetNX R now k v ttl d = (r, d') \<longrightarrow>
        lease d' = lease d \<and> r \<noteq> Inr True \<or>
        live now (lease d k) = None \<and> lease d' = (lease d)(k \<mapsto> (v, Some (now + ttl))) \<and> r \<noteq> Inr False)"

definition lk_del_law :: "'d redis_lock \<Rightarrow> ('d \<Rightarrow> string \<Rightarrow> lease) \<Rightarrow> bool" where
  "lk_del_law R lease \<longleftrightarrow>
     (\<forall>now k d r d'. lua_DEL R now k d = (r, d') \<longrightarrow>
        lease d' = lease d \<and> r \<noteq> Inr 1 \<or> lease d' = (lease d)(k := None))"

text \<open>\<open>PEXPIRE\<close> deletes the key if the time is not positive.\<close>

definition lk_pexpire_law :: "'d redis_lock \<Rightarrow> ('d \<Rightarrow> string \<Rightarrow> lease) \<Rightarrow> bool" where
  "lk_pexpire_law R lease \<longleftrightarrow>
     (\<forall>now k ms d r d'. lua_PEXPIRE R now k ms d = (r, d') \<longrightarrow>
        lease d' = lease d \<and> r \<noteq> Inr 1 \<or>
        (\<exists>v dl. live now (lease d k) = Some (v, dl) \<and>
           lease d' = (lease d)(k := if 0 < ms then Some (v, Some (now + ms * millisecond)) else None)))"

definition lock_law :: "'d redis_lock \<Rightarrow> ('d \<Rightarrow> string \<Rightarrow> lease) \<Rightarrow> bool" where
  "lock_law R lease \<longleftrightarrow> lk_read_law R lease \<and> lk_value_law R lease \<and> lk_setnx_law R lease \<and>
     lk_del_law R lease \<and> lk_pexpire_law R lease"

lemma lock_read:
  assumes "lock_law R lease"
  shows "lease (snd (lk_Get R now k d)) = lease d" "lease (snd (lk_TTL R now k d)) = lease d"
    "lease (snd (lua_GET R now k d)) = lease d"
  using assms unfolding lock_law_def lk_read_law_def by blast+

lemma lock_read_eq:
  assumes "lock_law R lease"
  shows "lk_Get R now k d = (r, d') \<Longrightarrow> lease d' = lease d" "lua_GET R now k d = (v, d') \<Longrightarrow> lease d' = lease d"
    "lk_TTL R now k d = (t, d') \<Longrightarrow> lease d' = lease d"
  using lock_read [OF assms] by (metis snd_conv)+

lemma lock_value: "lock_law R lease \<Longrightarrow> lua_GET R now k d = (Inr v, d') \<Longrightarrow> v = map_option fst (live now (lease d k))"
  unfolding lock_law_def lk_value_law_def by (metis fst_conv)

lemma lock_get_value: "lock_law R lease \<Longrightarrow> lk_Get R now k d = (Inr v, d') \<Longrightarrow> map_option fst (live now (lease d k)) = Some v"
  unfolding lock_law_def lk_value_law_def by (metis fst_conv)

lemma lock_setnx:
  assumes "lock_law R lease" "whole_ms ttl" "lk_SetNX R now k v ttl d = (r, d')"
  obtains (unset) "lease d' = lease d" "r \<noteq> Inr True"
    | (taken) "live now (lease d k) = None" "lease d' = (lease d)(k \<mapsto> (v, Some (now + ttl)))" "r \<noteq> Inr False"
proof -
  have "lk_setnx_law R lease" using assms(1) by (simp add: lock_law_def)
  from this [unfolded lk_setnx_law_def, rule_format, OF assms(2,3)] show thesis using unset taken by blast
qed

lemma lock_del:
  assumes "lock_law R lease" "lua_DEL R now k d = (r, d')"
  obtains (kept) "lease d' = lease d" "r \<noteq> Inr 1" | (gone) "lease d' = (lease d)(k := None)"
proof -
  have "lk_del_law R lease" using assms(1) by (simp add: lock_law_def)
  from this [unfolded lk_del_law_def, rule_format, OF assms(2)] show thesis using kept gone by blast
qed

lemma lock_pexpire:
  assumes "lock_law R lease" "lua_PEXPIRE R now k ms d = (r, d')"
  obtains (kept) "lease d' = lease d" "r \<noteq> Inr 1"
    | (moved) v dl where "live now (lease d k) = Some (v, dl)"
        "lease d' = (lease d)(k := if 0 < ms then Some (v, Some (now + ms * millisecond)) else None)"
proof -
  have "lk_pexpire_law R lease" using assms(1) by (simp add: lock_law_def)
  from this [unfolded lk_pexpire_law_def, rule_format, OF assms(2)] show thesis using kept moved by blast
qed

section \<open>The reference server\<close>

type_synonym lock_store = "(string \<times> string \<times> time option) list"

definition lk_ref :: "lock_store redis_lock" where
  "lk_ref = \<lparr>lk_Get = (\<lambda>now k d. (case live now (map_of d k) of None \<Rightarrow> Inl RedisNil | Some (v, _) \<Rightarrow> Inr v, d)),
     lk_SetNX = (\<lambda>now k v ttl d. if live now (map_of d k) = None then (Inr True, AList.update k (v, Some (now + ttl)) d) else (Inr False, d)),
     lk_TTL = (\<lambda>now k d. (Inr (case live now (map_of d k) of None \<Rightarrow> -2 | Some (_, None) \<Rightarrow> -1 | Some (_, Some t) \<Rightarrow> t - now), d)),
     lk_net = (\<lambda>d. Delivered),
     lua_GET = (\<lambda>now k d. (Inr (map_option fst (live now (map_of d k))), d)),
     lua_DEL = (\<lambda>now k d. (Inr (if live now (map_of d k) = None then 0 else 1), AList.delete k d)),
     lua_PEXPIRE = (\<lambda>now k ms d.
       (case live now (map_of d k) of
          None \<Rightarrow> (Inr 0, d)
        | Some (v, _) \<Rightarrow> (Inr 1, if 0 < ms then AList.update k (v, Some (now + ms * millisecond)) d else AList.delete k d)))\<rparr>"

lemma map_of_AList_update: "map_of (AList.update k v d) = (map_of d)(k \<mapsto> v)"
  by (rule update_conv')

lemma lk_ref_law: "lock_law lk_ref map_of"
  unfolding lock_law_def lk_read_law_def lk_value_law_def lk_setnx_law_def lk_del_law_def lk_pexpire_law_def lk_ref_def
  by (auto simp: map_of_AList_update split: option.splits if_splits)

section \<open>What an instance can do to a lease\<close>

text \<open>A script with another token, or on another key, leaves the lease alone; with any token it can only
  touch its own key.\<close>

lemma if_owner_other:
  assumes "lock_law R lease" "stays T tok (lease d k)" "now < T" "key \<noteq> k \<or> token \<noteq> tok"
    "\<And>d1 r d'. cmd d1 = (r, d') \<Longrightarrow> key \<noteq> k \<Longrightarrow> lease d' k = lease d1 k"
    "lua_if_owner R cmd now key token d = (r, d')"
  shows "lease d' k = lease d k"
proof (cases "lua_GET R now key d")
  case (Pair g d1)
  have d1: "lease d1 = lease d" by (rule lock_read_eq(2) [OF assms(1) Pair])
  show ?thesis
  proof (cases "g = Inr (Some token)")
    case True
    then have "Some token = map_option fst (live now (lease d key))" using lock_value [OF assms(1)] Pair by simp
    then have "key \<noteq> k" using live_stays [OF assms(2,3)] assms(4) by auto
    then show ?thesis using assms(5) [of d1 r d'] assms(6) True Pair d1 by (simp add: lua_if_owner_def)
  next
    case False
    then show ?thesis using assms(6) Pair d1 by (auto simp: lua_if_owner_def split: sum.splits if_splits)
  qed
qed

lemma lua_unlock_other:
  assumes "lock_law R lease" "stays T tok (lease d k)" "now < T" "key \<noteq> k \<or> token \<noteq> tok"
    "lua_unlock R now key token d = (r, d')"
  shows "lease d' k = lease d k"
proof (rule if_owner_other [OF assms(1-4) _ assms(5) [unfolded lua_unlock_def]])
  fix d1 r1 d2 assume "lua_DEL R now key d1 = (r1, d2)" "key \<noteq> k"
  then show "lease d2 k = lease d1 k" by (cases rule: lock_del [OF assms(1), of now key d1 r1 d2]) auto
qed

lemma lua_extend_other:
  assumes "lock_law R lease" "stays T tok (lease d k)" "now < T" "key \<noteq> k \<or> token \<noteq> tok"
    "lua_extend R now key token ms d = (r, d')"
  shows "lease d' k = lease d k"
proof (rule if_owner_other [OF assms(1-4) _ assms(5) [unfolded lua_extend_def]])
  fix d1 r1 d2 assume "lua_PEXPIRE R now key ms d1 = (r1, d2)" "key \<noteq> k"
  then show "lease d2 k = lease d1 k" by (cases rule: lock_pexpire [OF assms(1), of now key ms d1 r1 d2]) auto
qed

text \<open>The owner's extension moves the deadline, to a later one if the time to live reaches that far.\<close>

lemma lua_extend_owner:
  assumes "lock_law R lease" "stays T tok (lease d k)" "now < T" "T \<le> now + ms * millisecond"
    "lua_extend R now k token ms d = (r, d')"
  shows "stays T tok (lease d' k)"
proof (cases "token = tok")
  case False
  then show ?thesis using lua_extend_other [OF assms(1-3) _ assms(5)] assms(2) by simp
next
  case True
  obtain g d1 where g: "lua_GET R now k d = (g, d1)" by (cases "lua_GET R now k d")
  have d1: "lease d1 = lease d" by (rule lock_read_eq(2) [OF assms(1) g])
  show ?thesis
  proof (cases "g = Inr (Some token)")
    case True
    then have "lua_PEXPIRE R now k ms d1 = (r, d')" using assms(5) g by (simp add: lua_extend_def lua_if_owner_def)
    then show ?thesis
    proof (cases rule: lock_pexpire [OF assms(1), of now k ms d1 r d', case_names _ kept moved])
      case (moved v dl)
      have "0 < ms * millisecond" using assms(3,4) by linarith
      then have "0 < ms" by (simp add: millisecond_def)
      moreover have "v = tok" using moved live_stays [OF assms(2,3)] d1 by auto
      ultimately show ?thesis using moved assms(4) by (simp add: stays_def)
    qed (use assms(2) d1 in simp_all)
  next
    case False
    then show ?thesis using assms(2,5) g d1 by (auto simp: lua_extend_def lua_if_owner_def split: sum.splits if_splits)
  qed
qed

lemma deliver_keeps:
  assumes "deliver net f d = (r, d')" "P d" "\<And>r d'. f d = (r, d') \<Longrightarrow> P d'"
  shows "P d'"
  using assms by (cases net) (auto simp: deliver_def prod_eq_iff)

section \<open>What each operation leaves alone\<close>

text \<open>Configuration, key and hooks of a lock never change.\<close>

definition dl_fixed :: "'d DistributedLock \<Rightarrow> LockConfig \<times> string \<times> ('d \<Rightarrow> 'd) option \<times> (go_error option \<Rightarrow> 'd \<Rightarrow> 'd) option" where
  "dl_fixed l = (dl_config l, dl_key l, dl_onBeforeExtend l, dl_onAfterExtend l)"

lemma dl_fixed_update [simp]:
  "dl_fixed (l\<lparr>dl_token := x\<rparr>) = dl_fixed l" "dl_fixed (l\<lparr>dl_acquired := b\<rparr>) = dl_fixed l"
  "dl_fixed (l\<lparr>dl_expireTime := e\<rparr>) = dl_fixed l" "dl_fixed (l\<lparr>dl_stopChan := c\<rparr>) = dl_fixed l"
  "dl_fixed (l\<lparr>dl_chans := cs\<rparr>) = dl_fixed l" "dl_fixed (l\<lparr>dl_watchdogs := ws\<rparr>) = dl_fixed l"
  "dl_fixed (l\<lparr>dl_done := ds\<rparr>) = dl_fixed l"
  by (simp_all add: dl_fixed_def)

lemma resetState_simps [simp]:
  "dl_fixed (resetState l) = dl_fixed l" "dl_acquired (resetState l) = False" "dl_token (resetState l) = []"
  by (auto simp: resetState_def stopWatchdogLocked_def dl_fixed_def split: option.splits)

lemma startWatchdog_simps [simp]:
  "dl_fixed (dl_startWatchdog ctx l) = dl_fixed l" "dl_acquired (dl_startWatchdog ctx l) = dl_acquired l"
  "dl_token (dl_startWatchdog ctx l) = dl_token l"
  by (auto simp: dl_startWatchdog_def dl_fixed_def)

text \<open>A lock after an operation: the same fixed part, and a token that is the old one or none.\<close>

definition lock_frame :: "'d DistributedLock \<Rightarrow> 'd DistributedLock \<Rightarrow> bool" where
  "lock_frame l l' \<longleftrightarrow> dl_fixed l' = dl_fixed l \<and> (dl_token l' = dl_token l \<or> dl_token l' = [])"

lemma check_frame: "dl_check R now l d = (b, l', d') \<Longrightarrow> lock_frame l l'"
  by (auto simp: dl_check_def lock_frame_def split: if_splits prod.splits)

lemma Unlock_frame: "Unlock R now l d = (e, l', d') \<Longrightarrow> lock_frame l l'"
  by (auto simp: Unlock_def lock_frame_def split: if_splits prod.splits sum.splits)

lemma Extend_frame: "Extend R now here ttl l d = (e, l', d') \<Longrightarrow> lock_frame l l'"
  by (auto simp: Extend_def lock_frame_def split: if_splits prod.splits sum.splits)

lemma IsLocked_frame: "IsLocked R now l d = (r, l', d') \<Longrightarrow> lock_frame l l'"
  by (auto simp: IsLocked_def lock_frame_def split: if_splits prod.splits sum.splits)

lemma take_frame:
  "dl_take R token now here ctx l d = (r, l', d') \<Longrightarrow> dl_fixed l' = dl_fixed l \<and> dl_token l' = token"
  by (auto simp: dl_take_def Let_def split: if_splits prod.splits sum.splits bool.splits)

lemma wd_step_frame: "wd_step R pick tick now here w l d = Some (w', l', d') \<Longrightarrow> lock_frame l l'"
  by (auto simp: wd_step_def split: watchdog.splits wd_case.splits option.splits prod.splits sum.splits bool.splits
      dest: IsLocked_frame Extend_frame) (auto simp: lock_frame_def)

section \<open>What each operation does to a lease held by a token\<close>

lemma check_lease: "lock_law R lease \<Longrightarrow> dl_check R now l d = (b, l', d') \<Longrightarrow> lease d' = lease d"
  by (auto simp: dl_check_def lock_read_eq split: if_splits prod.splits)

lemma check_true:
  assumes "lock_law R lease" "dl_check R now l d = (True, l', d')" "stays T tok (lease d k)" "now < T" "dl_key l = k"
  shows "dl_token l = tok"
proof -
  obtain d1 where "lk_Get R now (dl_key l) d = (Inr (dl_token l), d1)"
    using assms(2) by (auto simp: dl_check_def split: if_splits prod.splits)
  then show ?thesis using lock_get_value [OF assms(1)] live_stays [OF assms(3,4)] assms(5) by fastforce
qed

lemma IsLocked_lease: "lock_law R lease \<Longrightarrow> IsLocked R now l d = (r, l', d') \<Longrightarrow> lease d' = lease d"
  by (auto simp: IsLocked_def lock_read_eq split: if_splits prod.splits sum.splits)

lemma TTL_lease: "lock_law R lease \<Longrightarrow> dl_TTL R now l d = (r, d') \<Longrightarrow> lease d' = lease d"
  by (auto simp: dl_TTL_def lock_read_eq split: if_splits prod.splits sum.splits)

lemma GetStats_lease: "lock_law R lease \<Longrightarrow> GetStats R now l d = (r, d') \<Longrightarrow> lease d' = lease d"
  by (auto simp: GetStats_def Let_def TTL_lease split: if_splits prod.splits sum.splits)

text \<open>While a lease lasts no attempt on its key succeeds, and no attempt changes it.\<close>

lemma take_lease:
  assumes "lock_law R lease" "whole_ms (lkc_TTL (dl_config l))" "stays T tok (lease d k)" "now < T"
    "dl_take R token now here ctx l d = (r, l', d')"
  shows "lease d' k = lease d k" "dl_key l = k \<Longrightarrow> r \<noteq> Inr True"
proof -
  obtain s where s: "lk_SetNX R now (dl_key l) token (lkc_TTL (dl_config l)) d = (s, d')"
    and r: "r = Inr True \<Longrightarrow> s = Inr True"
    using assms(5) by (auto simp: dl_take_def Let_def split: prod.splits sum.splits bool.splits)
  have live: "live now (lease d k) \<noteq> None" using live_stays [OF assms(3,4)] by auto
  show "lease d' k = lease d k"
    using lock_setnx [OF assms(1,2) s] live by (metis fun_upd_other)
  show "r \<noteq> Inr True" if "dl_key l = k"
    using lock_setnx [OF assms(1,2) s] live r that by metis
qed

lemma Unlock_lease:
  assumes "lock_law R lease" "dl_key l \<noteq> k \<or> dl_token l \<noteq> tok" "stays T tok (lease d k)" "now < T"
    "Unlock R now l d = (e, l', d')"
  shows "stays T tok (lease d' k)"
proof (cases "dl_acquired l")
  case True
  obtain r d1 where d1: "deliver (lk_net R d) (lua_unlock R now (dl_key l) (dl_token l)) d = (r, d1)" by fastforce
  have "stays T tok (lease d1 k)"
    by (rule deliver_keeps [OF d1, where P = "\<lambda>d. stays T tok (lease d k)"])
      (use assms(3) lua_unlock_other [OF assms(1,3,4,2)] in auto)
  moreover have "lease d' = lease d1"
    using assms(5) True d1 lock_read(1) [OF assms(1)] by (auto simp: Unlock_def split: sum.splits if_splits)
  ultimately show ?thesis by simp
qed (use assms(3,5) in \<open>simp add: Unlock_def\<close>)

text \<open>The time to live of an extension, in the unit of the script.\<close>

lemma whole_ms_div: "whole_ms ttl \<Longrightarrow> go_div ttl millisecond * millisecond = ttl"
  using dvd_div_mult_self [of millisecond ttl]
  by (simp add: whole_ms_def go_div_nonneg millisecond_def mod_eq_0_iff_dvd)

lemma Extend_lease:
  assumes "lock_law R lease" "dl_key l \<noteq> k \<or> dl_token l \<noteq> tok \<or> whole_ms ttl \<and> T \<le> now + ttl"
    "stays T tok (lease d k)" "now < T" "Extend R now here ttl l d = (e, l', d')"
  shows "stays T tok (lease d' k)"
proof (cases "dl_acquired l \<and> dl_token l \<noteq> []")
  case True
  let ?ms = "go_div ttl millisecond"
  obtain r d1 where d1: "deliver (lk_net R d) (lua_extend R now (dl_key l) (dl_token l) ?ms) d = (r, d1)" by fastforce
  have keep: "stays T tok (lease d2 k)" if x: "lua_extend R now (dl_key l) (dl_token l) ?ms d = (r2, d2)" for r2 d2
  proof (cases "dl_key l \<noteq> k \<or> dl_token l \<noteq> tok")
    case True
    then show ?thesis using lua_extend_other [OF assms(1,3,4) True x] assms(3) by simp
  next
    case False
    then show ?thesis using lua_extend_owner [OF assms(1,3,4) _ , of ?ms] x assms(2) whole_ms_div by metis
  qed
  have "stays T tok (lease d1 k)"
    by (rule deliver_keeps [OF d1, where P = "\<lambda>d. stays T tok (lease d k)"]) (use assms(3) keep in auto)
  moreover have "d' = d1" using assms(5) True d1 by (auto simp: Extend_def split: sum.splits if_splits)
  ultimately show ?thesis by simp
qed (use assms(3,5) in \<open>auto simp: Extend_def split: if_splits\<close>)

text \<open>Hooks that leave the leases alone.\<close>

definition hooks_quiet :: "('d \<Rightarrow> string \<Rightarrow> lease) \<Rightarrow> 'd DistributedLock \<Rightarrow> bool" where
  "hooks_quiet lease l \<longleftrightarrow> (\<forall>d err. lease (before_extend l d) = lease d \<and> lease (after_extend l err d) = lease d)"

lemma hooks_frame: "lock_frame l l' \<Longrightarrow> before_extend l' d = before_extend l d \<and> after_extend l' err d = after_extend l err d"
  by (simp add: lock_frame_def dl_fixed_def before_extend_def after_extend_def)

lemma wd_step_lease:
  assumes "lock_law R lease" "hooks_quiet lease l"
    "dl_key l \<noteq> k \<or> dl_token l \<noteq> tok \<or> whole_ms (lkc_TTL (dl_config l)) \<and> T \<le> now + lkc_TTL (dl_config l)"
    "stays T tok (lease d k)" "now < T" "wd_step R pick tick now here w l d = Some (w', l', d')"
  shows "stays T tok (lease d' k)"
proof (cases "snd w")
  case (WdCheck c)
  obtain r l1 d1 where 1: "IsLocked R now l d = (r, l1, d1)" by (cases "IsLocked R now l d")
  have "lease d1 = lease d" by (rule IsLocked_lease [OF assms(1) 1])
  moreover have "lease (before_extend l1 d1) = lease d1"
    using hooks_frame [OF IsLocked_frame [OF 1]] assms(2) by (simp add: hooks_quiet_def)
  ultimately show ?thesis using assms(4,6) WdCheck 1 by (auto simp: wd_step_def split: sum.splits bool.splits)
next
  case (WdExtend c)
  obtain e l1 d1 where 1: "Extend R now here (lkc_TTL (dl_config l)) l d = (e, l1, d1)"
    by (cases "Extend R now here (lkc_TTL (dl_config l)) l d")
  have "stays T tok (lease d1 k)" by (rule Extend_lease [OF assms(1,3,4,5) 1])
  moreover have "lease (after_extend l1 e d1) = lease d1"
    using hooks_frame [OF Extend_frame [OF 1]] assms(2) by (simp add: hooks_quiet_def)
  ultimately show ?thesis using assms(6) WdExtend 1 by (auto simp: wd_step_def)
qed (use assms(4,6) in \<open>auto simp: wd_step_def split: option.splits wd_case.splits\<close>)

lemma watch_lease:
  assumes "lock_law R lease" "hooks_quiet lease l"
    "dl_key l \<noteq> k \<or> dl_token l \<noteq> tok \<or> whole_ms (lkc_TTL (dl_config l)) \<and> T \<le> now + lkc_TTL (dl_config l)"
    "stays T tok (lease d k)" "now < T" "dl_watch R n pick tick now here l d = (l', d')"
  shows "lock_frame l l'" "stays T tok (lease d' k)"
proof -
  show "lock_frame l l'" using assms(6)
    by (auto simp: dl_watch_def split: if_splits option.splits dest!: wd_step_frame) (auto simp: lock_frame_def)
  show "stays T tok (lease d' k)" using assms(4,6) wd_step_lease [OF assms(1-5), where w = "dl_watchdogs l ! n"]
    by (auto simp: dl_watch_def split: if_splits option.splits)
qed

section \<open>Many instances\<close>

text \<open>
  What can happen to the lock of one instance, or to the world: the two steps of an attempt and every
  other operation, a step of a watchdog, the end of a context, and anything in the world that does not
  touch the leases (the network going up and down). The result says whether an attempt got the lock.
\<close>

datatype 'd lock_event =
    ECheck | ETake string nat | EUnlock | EExtend duration | EIsLocked | EStats | EWatch nat nat bool
  | EContext nat | EWorld "'d \<Rightarrow> 'd"

definition lock_event ::
  "'d redis_lock \<Rightarrow> time \<Rightarrow> time \<Rightarrow> 'd lock_event \<Rightarrow> 'd DistributedLock \<Rightarrow> 'd \<Rightarrow> bool \<times> 'd DistributedLock \<times> 'd" where
  "lock_event R now here ev l d =
     (case ev of
        ECheck \<Rightarrow> dl_check R now l d
      | ETake token ctx \<Rightarrow> (case dl_take R token now here ctx l d of (r, l', d') \<Rightarrow> (r = Inr True, l', d'))
      | EUnlock \<Rightarrow> (False, snd (Unlock R now l d))
      | EExtend ttl \<Rightarrow> (False, snd (Extend R now here ttl l d))
      | EIsLocked \<Rightarrow> (False, snd (IsLocked R now l d))
      | EStats \<Rightarrow> (False, l, snd (GetStats R now l d))
      | EWatch n pick tick \<Rightarrow> (False, dl_watch R n pick tick now here l d)
      | EContext c \<Rightarrow> (False, l\<lparr>dl_done := c # dl_done l\<rparr>, d)
      | EWorld f \<Rightarrow> (False, l, f d))"

fun lock_run ::
  "'d redis_lock \<Rightarrow> (nat \<times> time \<times> time \<times> 'd lock_event) list \<Rightarrow> (nat \<Rightarrow> 'd DistributedLock) \<Rightarrow> 'd \<Rightarrow>
   bool list \<times> (nat \<Rightarrow> 'd DistributedLock) \<times> 'd" where
  "lock_run R [] ls d = ([], ls, d)"
| "lock_run R ((i, now, here, ev) # es) ls d =
     (case lock_event R now here ev (ls i) d of
        (b, l, d') \<Rightarrow> (case lock_run R es (ls(i := l)) d' of (bs, s) \<Rightarrow> (b # bs, s)))"

text \<open>
  The events in the time of a lease of instance \<open>i\<close> that ends at \<open>T\<close>: tokens are new, the holder does
  not release the lock and extends it by whole milliseconds and beyond \<open>T\<close> only.
\<close>

definition lock_event_ok :: "('d \<Rightarrow> string \<Rightarrow> lease) \<Rightarrow> nat \<Rightarrow> string \<Rightarrow> time \<Rightarrow> time \<Rightarrow> nat \<times> time \<times> time \<times> 'd lock_event \<Rightarrow> bool" where
  "lock_event_ok lease i tok t T e =
     (case e of (j, now, here, ev) \<Rightarrow>
        t \<le> now \<and> now < T \<and>
        (case ev of
           ETake token ctx \<Rightarrow> token \<noteq> tok
         | EUnlock \<Rightarrow> j \<noteq> i
         | EExtend ttl \<Rightarrow> j \<noteq> i \<or> whole_ms ttl \<and> T \<le> now + ttl
         | EWorld f \<Rightarrow> (\<forall>d. lease (f d) = lease d)
         | _ \<Rightarrow> True))"

text \<open>The instances: whole times to live, quiet hooks, and the token of the lease with its holder alone.\<close>

definition locks_ok :: "('d \<Rightarrow> string \<Rightarrow> lease) \<Rightarrow> nat \<Rightarrow> string \<Rightarrow> duration \<Rightarrow> (nat \<Rightarrow> 'd DistributedLock) \<Rightarrow> bool" where
  "locks_ok lease i tok ttl ls \<longleftrightarrow> tok \<noteq> [] \<and> lkc_TTL (dl_config (ls i)) = ttl \<and>
     (\<forall>j. whole_ms (lkc_TTL (dl_config (ls j))) \<and> hooks_quiet lease (ls j) \<and> (j \<noteq> i \<longrightarrow> dl_token (ls j) \<noteq> tok))"

lemma dl_fixed_eqD:
  "dl_fixed l' = dl_fixed l \<Longrightarrow> dl_config l' = dl_config l \<and> dl_key l' = dl_key l \<and> hooks_quiet lease l' = hooks_quiet lease l"
  by (simp add: dl_fixed_def hooks_quiet_def before_extend_def after_extend_def)

lemma dl_fixed_key: "dl_fixed l' = dl_fixed l \<Longrightarrow> dl_key l' = dl_key l"
  by (simp add: dl_fixed_def)

lemma locks_ok_step:
  assumes "locks_ok lease i tok ttl ls" "dl_fixed l = dl_fixed (ls j)"
    "dl_token l = dl_token (ls j) \<or> dl_token l = [] \<or> dl_token l \<noteq> tok"
  shows "locks_ok lease i tok ttl (ls(j := l))"
  using assms dl_fixed_eqD [OF assms(2), of lease] by (auto simp: locks_ok_def)

lemma lock_event_step:
  assumes "lock_law R lease" "locks_ok lease i tok ttl ls" "stays T tok (lease d k)" "T = t + ttl"
    "lock_event_ok lease i tok t T (j, now, here, ev)" "lock_event R now here ev (ls j) d = (b, l', d')"
  shows "stays T tok (lease d' k)" "locks_ok lease i tok ttl (ls(j := l'))" "dl_key l' = dl_key (ls j)"
    "(b \<longrightarrow> ev = ECheck \<and> j = i \<or> dl_key (ls j) \<noteq> k)"
proof -
  have now: "t \<le> now" "now < T" using assms(5) by (auto simp: lock_event_ok_def)
  have j: "whole_ms (lkc_TTL (dl_config (ls j)))" "hooks_quiet lease (ls j)" "j \<noteq> i \<Longrightarrow> dl_token (ls j) \<noteq> tok"
    "j = i \<Longrightarrow> T \<le> now + lkc_TTL (dl_config (ls j))"
    using assms(2,4) now(1) by (auto simp: locks_ok_def)
  have "stays T tok (lease d' k) \<and> dl_fixed l' = dl_fixed (ls j) \<and>
    (dl_token l' = dl_token (ls j) \<or> dl_token l' = [] \<or> dl_token l' \<noteq> tok) \<and>
    (b \<longrightarrow> ev = ECheck \<and> j = i \<or> dl_key (ls j) \<noteq> k)"
  proof (cases ev)
    case ECheck
    then have c: "dl_check R now (ls j) d = (b, l', d')" using assms(6) by (simp add: lock_event_def)
    have "j = i" if "b" "dl_key (ls j) = k"
      using check_true [OF assms(1), of now "ls j" d l' d', OF _ assms(3) now(2)] c that j(3) by auto
    then show ?thesis
      using check_frame [OF c] check_lease [OF assms(1) c] assms(3) ECheck by (auto simp: lock_frame_def)
  next
    case (ETake token ctx)
    then obtain r where r: "dl_take R token now here ctx (ls j) d = (r, l', d')" "b = (r = Inr True)"
      using assms(6) by (auto simp: lock_event_def split: prod.splits)
    then show ?thesis
      using take_frame [OF r(1)] take_lease [OF assms(1) j(1) assms(3) now(2) r(1)] assms(3,5) ETake
      by (auto simp: lock_event_ok_def)
  next
    case EUnlock
    then obtain e where e: "Unlock R now (ls j) d = (e, l', d')" "\<not> b"
      using assms(6) by (cases "Unlock R now (ls j) d") (auto simp: lock_event_def)
    then show ?thesis
      using Unlock_frame [OF e(1)] Unlock_lease [OF assms(1) _ assms(3) now(2) e(1)] j(3) assms(5) EUnlock e(2)
      by (auto simp: lock_event_ok_def lock_frame_def)
  next
    case (EExtend x)
    then obtain e where e: "Extend R now here x (ls j) d = (e, l', d')" "\<not> b"
      using assms(6) by (cases "Extend R now here x (ls j) d") (auto simp: lock_event_def)
    then show ?thesis
      using Extend_frame [OF e(1)] Extend_lease [OF assms(1) _ assms(3) now(2) e(1)] j(3) assms(5) EExtend e(2)
      by (auto simp: lock_event_ok_def lock_frame_def)
  next
    case EIsLocked
    then obtain r where r: "IsLocked R now (ls j) d = (r, l', d')" "\<not> b"
      using assms(6) by (cases "IsLocked R now (ls j) d") (auto simp: lock_event_def)
    then show ?thesis using IsLocked_frame [OF r(1)] IsLocked_lease [OF assms(1) r(1)] assms(3) EIsLocked r(2)
      by (auto simp: lock_frame_def)
  next
    case EStats
    then show ?thesis using assms(3,6) GetStats_lease [OF assms(1)] by (fastforce simp: lock_event_def prod_eq_iff)
  next
    case (EWatch n pick tick)
    then have w: "dl_watch R n pick tick now here (ls j) d = (l', d')" "\<not> b" using assms(6) by (simp_all add: lock_event_def)
    then show ?thesis
      using watch_lease [OF assms(1) j(2) _ assms(3) now(2) w(1)] j(1,3,4) EWatch by (auto simp: lock_frame_def)
  qed (use assms(3,5,6) in \<open>auto simp: lock_event_def lock_event_ok_def\<close>)
  then show "stays T tok (lease d' k)" "locks_ok lease i tok ttl (ls(j := l'))" "dl_key l' = dl_key (ls j)"
    "(b \<longrightarrow> ev = ECheck \<and> j = i \<or> dl_key (ls j) \<noteq> k)"
    using locks_ok_step [OF assms(2)] dl_fixed_key by blast+
qed

lemma lock_run_safe:
  assumes "lock_law R lease" "locks_ok lease i tok ttl ls" "stays (t + ttl) tok (lease d k)"
    "\<forall>e \<in> set es. lock_event_ok lease i tok t (t + ttl) e" "lock_run R es ls d = (bs, ls', d')"
  shows "stays (t + ttl) tok (lease d' k) \<and>
    (\<forall>((j, now, here, ev), b) \<in> set (zip es bs). b \<longrightarrow> ev = ECheck \<and> j = i \<or> dl_key (ls j) \<noteq> k)"
  using assms(2-)
proof (induction es arbitrary: ls d bs)
  case (Cons e es)
  obtain j now here ev where e: "e = (j, now, here, ev)" by (cases e) auto
  obtain b l1 d1 where 1: "lock_event R now here ev (ls j) d = (b, l1, d1)" by (cases "lock_event R now here ev (ls j) d")
  obtain bs1 where 2: "lock_run R es (ls(j := l1)) d1 = (bs1, ls', d')" "bs = b # bs1"
    using Cons.prems(4) e 1 by (auto split: prod.splits)
  have ok: "lock_event_ok lease i tok t (t + ttl) (j, now, here, ev)" using Cons.prems(3) e by simp
  note step = lock_event_step [OF assms(1) Cons.prems(1,2) refl ok 1]
  have keys: "dl_key ((ls(j := l1)) j') = dl_key (ls j')" for j' using step(3) by simp
  have "stays (t + ttl) tok (lease d' k) \<and>
    (\<forall>((j', now, here, ev), b) \<in> set (zip es bs1). b \<longrightarrow> ev = ECheck \<and> j' = i \<or> dl_key ((ls(j := l1)) j') \<noteq> k)"
    by (rule Cons.IH [OF step(2,1) _ 2(1)]) (use Cons.prems(3) in simp)
  then show ?case using step(4) 2(2) e unfolding keys by simp
qed simp

lemma take_true:
  assumes "lock_law R lease" "whole_ms (lkc_TTL (dl_config l))" "dl_take R tok now here ctx l d = (Inr True, l', d')"
  shows "lease d' = (lease d)(dl_key l \<mapsto> (tok, Some (now + lkc_TTL (dl_config l))))" "live now (lease d (dl_key l)) = None"
    "dl_acquired l'" "dl_token l' = tok" "dl_fixed l' = dl_fixed l"
proof -
  have s: "lk_SetNX R now (dl_key l) tok (lkc_TTL (dl_config l)) d = (Inr True, d')"
    and l': "dl_acquired l'" "dl_token l' = tok" "dl_fixed l' = dl_fixed l"
    using assms(3) by (auto simp: dl_take_def Let_def split: prod.splits sum.splits bool.splits if_splits)
  show "lease d' = (lease d)(dl_key l \<mapsto> (tok, Some (now + lkc_TTL (dl_config l))))" "live now (lease d (dl_key l)) = None"
    using lock_setnx [OF assms(1,2) s] by auto
  show "dl_acquired l'" "dl_token l' = tok" "dl_fixed l' = dl_fixed l" by (rule l')+
qed

text \<open>
  C8: Mutual exclusion. Once an attempt of an instance has succeeded, then for the whole of its time to
  live, whatever the instances do in whatever order, whichever requests fail with or without an effect,
  the lease on the server is the holder's, and no attempt of another instance with that key succeeds
  (nor a second one of the holder with a new token); it ends early only if the holder itself releases it
  or shortens it.
\<close>
theorem dl_exclusion:
  assumes "lock_law R lease" "dl_take R tok t here ctx (ls i) d = (Inr True, l, d1)"
    "locks_ok lease i tok ttl (ls(i := l))"
    "\<forall>e \<in> set es. lock_event_ok lease i tok t (t + ttl) e" "lock_run R es (ls(i := l)) d1 = (bs, ls', d')"
  shows "stays (t + ttl) tok (lease d' (dl_key (ls i))) \<and>
    (\<forall>((j, now, here, ev), b) \<in> set (zip es bs). b \<longrightarrow> ev = ECheck \<and> j = i \<or> dl_key (ls j) \<noteq> dl_key (ls i))"
proof -
  have fixed: "dl_fixed l = dl_fixed (ls i)"
    using take_frame [OF assms(2)] by simp
  have ttl: "lkc_TTL (dl_config (ls i)) = ttl" "whole_ms ttl"
    using assms(3) dl_fixed_eqD [OF fixed] by (auto simp: locks_ok_def dest: spec [of _ i])
  have "stays (t + ttl) tok (lease d1 (dl_key (ls i)))"
    using take_true(1) [OF assms(1) _ assms(2)] ttl by (simp add: stays_def)
  from lock_run_safe [OF assms(1,3) this assms(4,5)] show ?thesis
    using dl_fixed_key [OF fixed] by (auto simp: fun_upd_def split: if_splits)
qed

section \<open>A server that answers\<close>

text \<open>In the states \<open>up\<close> every command arrives and is answered.\<close>

definition up_reads :: "'d redis_lock \<Rightarrow> ('d \<Rightarrow> string \<Rightarrow> lease) \<Rightarrow> ('d \<Rightarrow> bool) \<Rightarrow> bool" where
  "up_reads R lease up \<longleftrightarrow> (\<forall>d now k. up d \<longrightarrow> lk_net R d = Delivered \<and>
     up (snd (lk_Get R now k d)) \<and> up (snd (lua_GET R now k d)) \<and>
     fst (lk_Get R now k d) = (case live now (lease d k) of None \<Rightarrow> Inl RedisNil | Some (v, _) \<Rightarrow> Inr v) \<and>
     fst (lua_GET R now k d) = Inr (map_option fst (live now (lease d k))))"

definition up_writes :: "'d redis_lock \<Rightarrow> ('d \<Rightarrow> string \<Rightarrow> lease) \<Rightarrow> ('d \<Rightarrow> bool) \<Rightarrow> bool" where
  "up_writes R lease up \<longleftrightarrow> (\<forall>d now k. up d \<longrightarrow>
     (\<forall>v ttl. up (snd (lk_SetNX R now k v ttl d)) \<and> fst (lk_SetNX R now k v ttl d) = Inr (live now (lease d k) = None)) \<and>
     up (snd (lua_DEL R now k d)) \<and> fst (lua_DEL R now k d) = Inr (if live now (lease d k) = None then 0 else 1) \<and>
     (\<forall>ms. up (snd (lua_PEXPIRE R now k ms d)) \<and>
        fst (lua_PEXPIRE R now k ms d) = Inr (if live now (lease d k) = None then 0 else 1)))"

definition lock_up :: "'d redis_lock \<Rightarrow> ('d \<Rightarrow> string \<Rightarrow> lease) \<Rightarrow> ('d \<Rightarrow> bool) \<Rightarrow> bool" where
  "lock_up R lease up \<longleftrightarrow> up_reads R lease up \<and> up_writes R lease up"

lemma lk_ref_up: "lock_up lk_ref map_of (\<lambda>_. True)"
  by (auto simp: lock_up_def up_reads_def up_writes_def lk_ref_def split: option.splits)

lemma up_net: "lock_up R lease up \<Longrightarrow> up d \<Longrightarrow> lk_net R d = Delivered"
  unfolding lock_up_def up_reads_def by blast

lemma up_Get:
  assumes "lock_law R lease" "lock_up R lease up" "up d"
  obtains d' where "lk_Get R now k d = (case live now (lease d k) of None \<Rightarrow> Inl RedisNil | Some (v, _) \<Rightarrow> Inr v, d')"
    "up d'" "lease d' = lease d"
proof (rule that [of "snd (lk_Get R now k d)"])
  show "lk_Get R now k d = (case live now (lease d k) of None \<Rightarrow> Inl RedisNil | Some (v, _) \<Rightarrow> Inr v, snd (lk_Get R now k d))"
    "up (snd (lk_Get R now k d))"
    using assms(2,3) unfolding lock_up_def up_reads_def by (metis prod.collapse)+
qed (rule lock_read(1) [OF assms(1)])

text \<open>A script of the owner reaches its command.\<close>

lemma up_owner:
  assumes "lock_law R lease" "lock_up R lease up" "up d" "live now (lease d k) = Some (tok, dl)"
  obtains d' where "lua_if_owner R cmd now k tok d = cmd d'" "up d'" "lease d' = lease d"
proof -
  define d' where "d' = snd (lua_GET R now k d)"
  have "fst (lua_GET R now k d) = Inr (Some tok)" "up d'"
    using assms(2-4) unfolding lock_up_def up_reads_def d'_def by simp_all
  then have "lua_GET R now k d = (Inr (Some tok), d')" by (simp add: d'_def prod_eq_iff)
  then have "lua_if_owner R cmd now k tok d = cmd d'" by (simp add: lua_if_owner_def)
  then show thesis using that \<open>up d'\<close> lock_read(3) [OF assms(1)] by (simp add: d'_def)
qed

lemma up_extend:
  assumes "lock_law R lease" "lock_up R lease up" "up d" "live now (lease d k) = Some (tok, dl)"
  obtains d' where "lua_extend R now k tok ms d = (Inr 1, d')" "up d'"
    "lease d' = (lease d)(k := if 0 < ms then Some (tok, Some (now + ms * millisecond)) else None)"
proof -
  obtain d1 where d1: "lua_extend R now k tok ms d = lua_PEXPIRE R now k ms d1" "up d1" "lease d1 = lease d"
    unfolding lua_extend_def using up_owner [OF assms, where cmd = "lua_PEXPIRE R now k ms"] by metis
  define d' where "d' = snd (lua_PEXPIRE R now k ms d1)"
  have "fst (lua_PEXPIRE R now k ms d1) = Inr 1" "up d'"
    using assms(2,4) d1(2,3) unfolding lock_up_def up_writes_def d'_def by simp_all
  then have p: "lua_PEXPIRE R now k ms d1 = (Inr 1, d')" by (simp add: d'_def prod_eq_iff)
  show thesis
  proof (cases rule: lock_pexpire [OF assms(1) p, case_names kept moved])
    case (moved v dl')
    then show ?thesis using that [of d'] d1 p \<open>up d'\<close> assms(4) by simp
  qed simp
qed

lemma up_Extend:
  assumes "lock_law R lease" "lock_up R lease up" "up d" "dl_acquired l" "dl_token l \<noteq> []"
    "live now (lease d (dl_key l)) = Some (dl_token l, dl)"
  obtains d' where "Extend R now here ttl l d = (None, l\<lparr>dl_expireTime := Some (here + ttl)\<rparr>, d')" "up d'"
    "lease d' = (lease d)(dl_key l := if 0 < go_div ttl millisecond
       then Some (dl_token l, Some (now + go_div ttl millisecond * millisecond)) else None)"
proof -
  obtain d' where "lua_extend R now (dl_key l) (dl_token l) (go_div ttl millisecond) d = (Inr 1, d')" "up d'"
    "lease d' = (lease d)(dl_key l := if 0 < go_div ttl millisecond
       then Some (dl_token l, Some (now + go_div ttl millisecond * millisecond)) else None)"
    by (rule up_extend [OF assms(1-3,6)])
  then show thesis using that [of d'] assms(4,5) up_net [OF assms(2,3)] by (simp add: Extend_def)
qed

lemma up_IsLocked:
  assumes "lock_law R lease" "lock_up R lease up" "up d" "dl_acquired l"
    "live now (lease d (dl_key l)) = Some (dl_token l, dl)"
  obtains d' where "IsLocked R now l d = (Inr True, l, d')" "up d'" "lease d' = lease d"
proof -
  obtain d' where "lk_Get R now (dl_key l) d = (Inr (dl_token l), d')" "up d'" "lease d' = lease d"
    by (rule up_Get [OF assms(1-3), of now "dl_key l"]) (simp add: assms(5))
  then show thesis using that [of d'] assms(4) by (simp add: IsLocked_def)
qed

section \<open>The watchdog keeps the lock\<close>

text \<open>A round of the watchdog with number \<open>n\<close>: the tick, the check at \<open>u\<close>, the extension at \<open>v\<close>.\<close>

definition wd_round :: "'d redis_lock \<Rightarrow> nat \<Rightarrow> nat \<Rightarrow> time \<times> time \<Rightarrow> 'd DistributedLock \<times> 'd \<Rightarrow> 'd DistributedLock \<times> 'd" where
  "wd_round R n pick uv s =
     (let (l1, d1) = dl_watch R n pick True (fst uv) (fst uv) (fst s) (snd s);
          (l2, d2) = dl_watch R n pick False (fst uv) (fst uv) l1 d1
      in dl_watch R n pick False (snd uv) (snd uv) l2 d2)"

text \<open>Every round ends before the deadline the one before has set.\<close>

fun in_time :: "duration \<Rightarrow> time \<Rightarrow> (time \<times> time) list \<Rightarrow> bool" where
  "in_time ttl T [] \<longleftrightarrow> True"
| "in_time ttl T ((u, v) # rounds) \<longleftrightarrow> u < T \<and> v < T \<and> in_time ttl (v + ttl) rounds"

fun wd_deadline :: "duration \<Rightarrow> time \<Rightarrow> (time \<times> time) list \<Rightarrow> time" where
  "wd_deadline ttl T [] = T"
| "wd_deadline ttl T ((u, v) # rounds) = wd_deadline ttl (v + ttl) rounds"

definition hooks_up :: "('d \<Rightarrow> bool) \<Rightarrow> 'd DistributedLock \<Rightarrow> bool" where
  "hooks_up up l \<longleftrightarrow> (\<forall>d err. up d \<longrightarrow> up (before_extend l d) \<and> up (after_extend l err d))"

text \<open>A lock that is held until \<open>T\<close> with its watchdog at the \<open>select\<close>, not signalled, its context not done.\<close>

definition guarded ::
  "('d \<Rightarrow> string \<Rightarrow> lease) \<Rightarrow> ('d \<Rightarrow> bool) \<Rightarrow> nat \<Rightarrow> string \<Rightarrow> duration \<Rightarrow> time \<Rightarrow> 'd DistributedLock \<Rightarrow> 'd \<Rightarrow> bool" where
  "guarded lease up n tok ttl T l d \<longleftrightarrow>
     up d \<and> lease d (dl_key l) = Some (tok, Some T) \<and> dl_acquired l \<and> dl_token l = tok \<and> tok \<noteq> [] \<and>
     lkc_TTL (dl_config l) = ttl \<and> whole_ms ttl \<and> hooks_quiet lease l \<and> hooks_up up l \<and>
     n < length (dl_watchdogs l) \<and>
     (\<exists>ctx c. dl_watchdogs l ! n = (ctx, WdSelect c) \<and> \<not> dl_chans l ! c \<and> ctx \<notin> set (dl_done l))"

lemma wd_round_step:
  assumes "lock_law R lease" "lock_up R lease up" "guarded lease up n tok ttl T l d" "u < T" "v < T"
    "wd_round R n pick (u, v) (l, d) = (l', d')"
  shows "guarded lease up n tok ttl (v + ttl) l' d'" "dl_key l' = dl_key l"
proof -
  obtain ctx c where w: "dl_watchdogs l ! n = (ctx, WdSelect c)" "\<not> dl_chans l ! c" "ctx \<notin> set (dl_done l)"
    and g: "up d" "lease d (dl_key l) = Some (tok, Some T)" "dl_acquired l" "dl_token l = tok" "tok \<noteq> []"
      "lkc_TTL (dl_config l) = ttl" "whole_ms ttl" "hooks_quiet lease l" "hooks_up up l" "n < length (dl_watchdogs l)"
    using assms(3) unfolding guarded_def by blast
  define l1 where "l1 = l\<lparr>dl_watchdogs := (dl_watchdogs l)[n := (ctx, WdCheck c)]\<rparr>"
  have 1: "dl_watch R n pick True u u l d = (l1, d)"
    using g(3,10) w by (simp add: dl_watch_def wd_step_def go_select_def l1_def)
  obtain d1 where d1: "IsLocked R u l1 d = (Inr True, l1, d1)" "up d1" "lease d1 = lease d"
    by (rule up_IsLocked [OF assms(1,2) g(1), of l1 u]) (use g assms(4) in \<open>simp_all add: l1_def\<close>)
  define l2 where "l2 = l\<lparr>dl_watchdogs := (dl_watchdogs l)[n := (ctx, WdExtend c)]\<rparr>"
  define d2 where "d2 = before_extend l d1"
  have d2: "up d2" "lease d2 = lease d" using d1 g(8,9) by (simp_all add: d2_def hooks_quiet_def hooks_up_def)
  have "before_extend l1 d1 = d2" by (simp add: l1_def d2_def before_extend_def)
  then have 2: "dl_watch R n pick False u u l1 d = (l2, d2)"
    using d1(1) g(10) by (simp add: dl_watch_def wd_step_def l1_def l2_def)
  have ms: "0 < go_div ttl millisecond" "go_div ttl millisecond * millisecond = ttl"
    using whole_ms_div [OF g(7)] g(7) by (auto simp: whole_ms_def millisecond_def)
  obtain d3 where d3: "Extend R v v ttl l2 d2 = (None, l2\<lparr>dl_expireTime := Some (v + ttl)\<rparr>, d3)" "up d3"
    "lease d3 = (lease d2)(dl_key l := Some (tok, Some (v + ttl)))"
    by (rule up_Extend [OF assms(1,2) d2(1), of l2 v "Some T" v ttl])
      (use g d2 assms(5) ms in \<open>simp_all add: l2_def\<close>)
  define l3 where "l3 = l\<lparr>dl_expireTime := Some (v + ttl), dl_watchdogs := (dl_watchdogs l)[n := (ctx, WdSelect c)]\<rparr>"
  define d4 where "d4 = after_extend l None d3"
  have d4: "up d4" "lease d4 = lease d3" using d3 g(8,9) by (simp_all add: d4_def hooks_quiet_def hooks_up_def)
  have "after_extend (l2\<lparr>dl_expireTime := Some (v + ttl)\<rparr>) None d3 = d4" by (simp add: l2_def d4_def after_extend_def)
  then have 3: "dl_watch R n pick False v v l2 d2 = (l3, d4)"
    using d3(1) g(6,10) by (simp add: dl_watch_def wd_step_def l2_def l3_def)
  have l': "l' = l3" "d' = d4" using assms(6) 1 2 3 by (simp_all add: wd_round_def)
  have q: "hooks_quiet lease l3" "hooks_up up l3"
    using g(8,9) by (simp_all add: l3_def hooks_quiet_def hooks_up_def before_extend_def after_extend_def)
  show "dl_key l' = dl_key l" by (simp add: l' l3_def)
  show "guarded lease up n tok ttl (v + ttl) l' d'"
    unfolding guarded_def l' using q g w d3(3) d4 by (simp add: l3_def)
qed

lemma wd_rounds:
  assumes "lock_law R lease" "lock_up R lease up"
  shows "guarded lease up n tok ttl T l d \<Longrightarrow> in_time ttl T rounds \<Longrightarrow>
    fold (wd_round R n pick) rounds (l, d) = (l', d') \<Longrightarrow>
    guarded lease up n tok ttl (wd_deadline ttl T rounds) l' d' \<and> dl_key l' = dl_key l"
proof (induction rounds arbitrary: T l d)
  case (Cons uv rounds)
  obtain u v where uv: "uv = (u, v)" by (cases uv)
  obtain l1 d1 where 1: "wd_round R n pick (u, v) (l, d) = (l1, d1)" by (cases "wd_round R n pick (u, v) (l, d)")
  have t: "u < T" "v < T" "in_time ttl (v + ttl) rounds" using Cons.prems(2) uv by auto
  note step = wd_round_step [OF assms Cons.prems(1) t(1,2) 1]
  show ?case using Cons.IH [OF step(1) t(3)] Cons.prems(3) step(2) 1 uv by simp
qed simp

text \<open>The lock and its watchdog from an attempt that succeeds, at the first \<open>select\<close>.\<close>

lemma watchdog_starts:
  assumes "lock_law R lease" "lock_up R lease up" "up d" "dl_take R tok t here ctx l d = (Inr True, l1, d1)"
    "lkc_TTL (dl_config l) = ttl" "whole_ms ttl" "lkc_EnableWatchdog (dl_config l)" "0 < lkc_WatchdogInterval (dl_config l)"
    "tok \<noteq> []" "ctx \<notin> set (dl_done l)" "hooks_quiet lease l" "hooks_up up l"
    "dl_watch R (length (dl_watchdogs l)) pick tick now now l1 d1 = (l2, d2)"
  shows "guarded lease up (length (dl_watchdogs l)) tok ttl (t + ttl) l2 d2" "dl_key l2 = dl_key l"
proof -
  let ?n = "length (dl_watchdogs l)" and ?c = "length (dl_chans l)"
  have l1: "l1 = dl_startWatchdog ctx (l\<lparr>dl_token := tok, dl_acquired := True, dl_expireTime := Some (here + ttl)\<rparr>)"
    and d1: "lk_SetNX R t (dl_key l) tok ttl d = (Inr True, d1)"
    using assms(4,5,7) by (auto simp: dl_take_def Let_def split: prod.splits sum.splits bool.splits if_splits)
  have "up (snd (lk_SetNX R t (dl_key l) tok ttl d))" using assms(2,3) unfolding lock_up_def up_writes_def by blast
  then have "up d1" using d1 by simp
  have lease: "lease d1 (dl_key l) = Some (tok, Some (t + ttl))"
    using take_true(1) [OF assms(1) _ assms(4)] assms(5,6) by simp
  have "dl_watch R ?n pick tick now now l1 d1 = (l1\<lparr>dl_watchdogs := dl_watchdogs l @ [(ctx, WdSelect ?c)]\<rparr>, d1)"
    using assms(8) by (simp add: dl_watch_def wd_step_def l1 dl_startWatchdog_def)
  then have l2: "l2 = l1\<lparr>dl_watchdogs := dl_watchdogs l @ [(ctx, WdSelect ?c)]\<rparr>" "d2 = d1" using assms(13) by simp_all
  have q: "hooks_quiet lease l2" "hooks_up up l2" using assms(11,12)
    by (simp_all add: l1 l2 dl_startWatchdog_def hooks_quiet_def hooks_up_def before_extend_def after_extend_def)
  show "dl_key l2 = dl_key l" by (simp add: l1 l2 dl_startWatchdog_def)
  show "guarded lease up ?n tok ttl (t + ttl) l2 d2"
    unfolding guarded_def using q assms(5,6,9,10) \<open>up d1\<close> lease by (simp add: l1 l2 dl_startWatchdog_def)
qed

text \<open>
  C30: A lock that was acquired with a watchdog is kept for as long as the watchdog runs, the server
  answers and every round ends before the deadline the one before has set, however many rounds: the
  lock is held and its lease ends a time to live after the last extension.
\<close>
theorem dl_watchdog_renews:
  assumes "lock_law R lease" "lock_up R lease up" "up d" "dl_take R tok t here ctx l d = (Inr True, l1, d1)"
    "lkc_TTL (dl_config l) = ttl" "whole_ms ttl" "lkc_EnableWatchdog (dl_config l)" "0 < lkc_WatchdogInterval (dl_config l)"
    "tok \<noteq> []" "ctx \<notin> set (dl_done l)" "hooks_quiet lease l" "hooks_up up l"
    "dl_watch R (length (dl_watchdogs l)) pick tick now now l1 d1 = (l2, d2)"
    "in_time ttl (t + ttl) rounds"
    "fold (wd_round R (length (dl_watchdogs l)) pick) rounds (l2, d2) = (l3, d3)"
  shows "dl_acquired l3 \<and> dl_token l3 = tok \<and> lease d3 (dl_key l) = Some (tok, Some (wd_deadline ttl (t + ttl) rounds))"
  using wd_rounds [OF assms(1,2) watchdog_starts(1) [OF assms(1-13)] assms(14,15)] watchdog_starts(2) [OF assms(1-13)]
  by (auto simp: guarded_def)

section \<open>Two instances on the reference server\<close>

definition demo_lock :: "lock_store DistributedLock" where
  "demo_lock = NewDistributedLock mathx_ref ''a''
     \<lparr>lkc_TTL = 90 * second, lkc_RetryInterval = 0, lkc_MaxRetries = 0, lkc_Namespace = [], lkc_EnableWatchdog = True,
      lkc_WatchdogInterval = 0\<rparr>"

lemma demo_lock_simps:
  "dl_config demo_lock = \<lparr>lkc_TTL = 90 * second, lkc_RetryInterval = 100 * millisecond, lkc_MaxRetries = 10,
     lkc_Namespace = ''lock'', lkc_EnableWatchdog = True, lkc_WatchdogInterval = 30 * second\<rparr>"
  "dl_key demo_lock = ''lock:a''" "dl_token demo_lock = []" "dl_acquired demo_lock = False" "dl_done demo_lock = []"
  "dl_watchdogs demo_lock = []" "dl_chans demo_lock = []" "dl_onBeforeExtend demo_lock = None" "dl_onAfterExtend demo_lock = None"
  by (simp_all add: demo_lock_def NewDistributedLock_def lock_defaults_def mathx_ref_def second_def go_div_def)

definition demo_held :: "lock_store DistributedLock" where
  "demo_held = fst (snd (dl_take lk_ref ''t0'' 5 6 1 demo_lock []))"

definition demo_store :: lock_store where
  "demo_store = [(''lock:a'', ''t0'', Some (5 + 90 * second))]"

lemma demo_take: "dl_take lk_ref ''t0'' 5 6 1 demo_lock [] = (Inr True, demo_held, demo_store)"
  by (simp add: demo_held_def dl_take_def lk_ref_def demo_lock_simps demo_store_def second_def)

lemma demo_whole: "whole_ms (90 * second)"
  by (simp add: whole_ms_def second_def millisecond_def)

lemma demo_quiet: "dl_onBeforeExtend l = None \<Longrightarrow> dl_onAfterExtend l = None \<Longrightarrow> hooks_quiet lease l \<and> hooks_up up l"
  by (simp add: hooks_quiet_def hooks_up_def before_extend_def after_extend_def)

lemma demo_locks_ok: "locks_ok map_of 0 ''t0'' (90 * second) ((\<lambda>j. demo_lock)(0 := demo_held))"
proof -
  have "dl_fixed demo_held = dl_fixed demo_lock" using take_frame [OF demo_take] by simp
  then show ?thesis using demo_quiet [of demo_lock map_of] demo_whole dl_fixed_eqD [of demo_held demo_lock]
    by (simp add: locks_ok_def demo_lock_simps)
qed

definition demo_events :: "(nat \<times> time \<times> time \<times> lock_store lock_event) list" where
  "demo_events = [(1, 7, 8, ETake ''t1'' 2), (1, 9, 9, EUnlock), (0, 30 * second, 31 * second, EWatch 0 0 True), (2, 40 * second, 41 * second, ECheck),
     (2, 40 * second, 41 * second, ETake ''t2'' 3)]"

lemma demo_events_ok: "list_all (lock_event_ok map_of 0 ''t0'' 5 (5 + 90 * second)) demo_events"
  by (simp add: demo_events_def lock_event_ok_def second_def)

lemma dl_exclusion_witness:
  "stays (5 + 90 * second) ''t0''
     (map_of (snd (snd (lock_run lk_ref demo_events ((\<lambda>j. demo_lock)(0 := demo_held)) demo_store))) ''lock:a'')"
proof -
  let ?ls = "(\<lambda>j :: nat. demo_lock)"
  obtain bs ls' d' where run: "lock_run lk_ref demo_events (?ls(0 := demo_held)) demo_store = (bs, ls', d')"
    by (cases "lock_run lk_ref demo_events (?ls(0 := demo_held)) demo_store") auto
  have "stays (5 + 90 * second) ''t0'' (map_of d' (dl_key (?ls 0)))"
    using dl_exclusion [where ls = ?ls and i = 0 and es = demo_events, OF lk_ref_law demo_take demo_locks_ok _ run]
      demo_events_ok by (simp add: list_all_iff)
  then show ?thesis by (simp add: run demo_lock_simps)
qed

definition demo_guarded :: "lock_store DistributedLock \<times> lock_store" where
  "demo_guarded = dl_watch lk_ref 0 0 False 7 7 demo_held demo_store"

lemma dl_watchdog_renews_witness:
  "map_of (snd (fold (wd_round lk_ref 0 0) [(35 * second, 36 * second), (70 * second, 71 * second)] demo_guarded)) ''lock:a'' =
     Some (''t0'', Some (161 * second))"
proof -
  obtain l2 d2 where g: "dl_watch lk_ref (length (dl_watchdogs demo_lock)) 0 False 7 7 demo_held demo_store = (l2, d2)" "demo_guarded = (l2, d2)"
    by (cases demo_guarded) (simp add: demo_guarded_def demo_lock_simps)
  let ?rs = "[(35 * second, 36 * second), (70 * second, 71 * second)]"
  obtain l3 d3 where f: "fold (wd_round lk_ref (length (dl_watchdogs demo_lock)) 0) ?rs (l2, d2) = (l3, d3)" by fastforce
  have "map_of d3 (dl_key demo_lock) = Some (''t0'', Some (wd_deadline (90 * second) (5 + 90 * second) ?rs))"
    using dl_watchdog_renews [where ttl = "90 * second", OF lk_ref_law lk_ref_up TrueI demo_take _ demo_whole _ _ _ _ _ _ g(1) _ f]
      demo_quiet [of demo_lock] by (simp add: demo_lock_simps second_def)
  then show ?thesis using f g(2) by (simp add: demo_lock_simps second_def)
qed

section \<open>Ways to lose a lock\<close>

lemma up_take:
  assumes "lock_law R lease" "lock_up R lease up" "up d" "whole_ms (lkc_TTL (dl_config l))" "live now (lease d (dl_key l)) = None"
  shows "fst (dl_take R tok now here ctx l d) = Inr True"
proof -
  have "fst (lk_SetNX R now (dl_key l) tok (lkc_TTL (dl_config l)) d) = Inr True"
    using assms(2,3,5) unfolding lock_up_def up_writes_def by simp
  then show ?thesis by (auto simp: dl_take_def Let_def split: prod.splits)
qed

lemma go_div_small: "0 < b \<Longrightarrow> a < b \<Longrightarrow> go_div a b \<le> 0"
  by (cases "0 \<le> a") (auto simp: go_div_def sgn_if pos_imp_zdiv_nonneg_iff)

text \<open>
  A defect of \<open>Extend\<close>. Extending a held lock by less than a millisecond reports success and deletes
  the key: the script gets \<open>0\<close>, with which \<open>PEXPIRE\<close> removes it. The instance goes on believing that it
  holds the lock, and any other acquires it at once.
\<close>
theorem dl_extend_submilli:
  assumes "lock_law R lease" "lock_up R lease up" "up d" "dl_acquired l" "dl_token l \<noteq> []"
    "live now (lease d (dl_key l)) = Some (dl_token l, dl)" "ttl < millisecond"
    "dl_key other = dl_key l" "whole_ms (lkc_TTL (dl_config other))"
  shows "\<exists>l' d'. Extend R now here ttl l d = (None, l', d') \<and> dl_acquired l' \<and> lease d' (dl_key l) = None \<and>
    fst (dl_take R tok now here ctx other d') = Inr True"
proof -
  have ms: "\<not> 0 < go_div ttl millisecond" using go_div_small [of millisecond ttl] assms(7) by (simp add: millisecond_def)
  obtain d' where d': "Extend R now here ttl l d = (None, l\<lparr>dl_expireTime := Some (here + ttl)\<rparr>, d')" "up d'"
    "lease d' = (lease d)(dl_key l := None)"
    by (rule up_Extend [OF assms(1-6), where ttl = ttl and here = here]) (simp add: ms)
  moreover have "fst (dl_take R tok now here ctx other d') = Inr True"
    by (rule up_take [OF assms(1,2) d'(2) assms(9)]) (simp add: d' assms(8))
  ultimately show ?thesis using assms(4) by simp
qed

lemma dl_extend_submilli_witness:
  "\<exists>l' d'. Extend lk_ref 7 8 500000 demo_held demo_store = (None, l', d') \<and> dl_acquired l' \<and> map_of d' ''lock:a'' = None \<and>
     fst (dl_take lk_ref ''t1'' 7 8 2 demo_lock d') = Inr True"
proof -
  have h: "dl_acquired demo_held" "dl_token demo_held = ''t0''" "dl_key demo_held = ''lock:a''"
    using take_true(3-5) [OF lk_ref_law _ demo_take] demo_whole dl_fixed_key [of demo_held demo_lock]
    by (simp_all add: demo_lock_simps)
  have l: "live 7 (map_of demo_store (dl_key demo_held)) = Some (dl_token demo_held, Some (5 + 90 * second))"
    by (simp add: h demo_store_def second_def)
  show ?thesis
    using dl_extend_submilli [OF lk_ref_law lk_ref_up TrueI h(1) _ l, where ttl = 500000 and other = demo_lock] demo_whole
    by (simp add: h demo_lock_simps millisecond_def)
qed

text \<open>
  A defect of \<open>NewLockManager\<close>. It sets the interval of the watchdog to one minute whatever the time
  to live is, so that the default of a third never applies. A lock with a time to live of up to a
  minute is lost before the watchdog first looks: its first check, an interval after the start, finds
  no lease, although the watchdog was there to keep it.
\<close>
theorem lm_watchdog_late:
  assumes "lock_law R lease" "lock_up R lease up" "mathx_laws X" "whole_ms ttl" "ttl \<le> 60 * second"
    "GetLock X key (NewLockManager [WithLockTTL ttl]) = (p, m)"
    "dl_take R tok t here ctx (lm_heap m ! p) d = (Inr True, l, d1)"
    "up d1" "t + lkc_WatchdogInterval (dl_config l) \<le> u"
  shows "lkc_EnableWatchdog (dl_config l) \<and> fst (IsLocked R u l d1) = Inr False"
proof -
  have "0 < ttl" using assms(4) by (simp add: whole_ms_def)
  then have c: "lkc_TTL (dl_config (lm_heap m ! p)) = ttl" "lkc_WatchdogInterval (dl_config (lm_heap m ! p)) = 60 * second"
    "lkc_EnableWatchdog (dl_config (lm_heap m ! p))"
    using assms(6) by (auto simp: GetLock_def NewLockManager_def Let_def NewDistributedLock_def lock_defaults_def
        WithLockTTL_def mathx_lawsD [OF assms(3)] second_def)
  note take = take_true [OF assms(1) _ assms(7), unfolded c, OF assms(4)]
  have l: "dl_config l = dl_config (lm_heap m ! p)" "dl_key l = dl_key (lm_heap m ! p)"
    using dl_fixed_eqD [OF take(5)] by auto
  have "live u (lease d1 (dl_key l)) = None" using take(1) l assms(5,9) c by simp
  then obtain d2 where "lk_Get R u (dl_key l) d1 = (Inl RedisNil, d2)"
    using up_Get [OF assms(1,2,8), of u "dl_key l"] by (metis option.simps(4))
  then show ?thesis using take(3) c l by (simp add: IsLocked_def)
qed

lemma demo_late_take:
  "dl_take lk_ref ''t0'' 5 6 1 (lm_heap (snd (GetLock mathx_ref ''a'' (NewLockManager [WithLockTTL (30 * second)]))) ! 0) [] =
   (Inr True, dl_startWatchdog 1 ((NewDistributedLock mathx_ref ''a'' (lm_config (NewLockManager [WithLockTTL (30 * second)])))
      \<lparr>dl_token := ''t0'', dl_acquired := True, dl_expireTime := Some (6 + 30 * second)\<rparr>),
    [(''lock:a'', ''t0'', Some (5 + 30 * second))])"
  by (simp add: GetLock_def NewLockManager_def Let_def NewDistributedLock_def lock_defaults_def WithLockTTL_def
      mathx_ref_def second_def dl_take_def lk_ref_def)

lemma lm_watchdog_late_witness:
  "fst (IsLocked lk_ref (65 * second) (dl_startWatchdog 1 ((NewDistributedLock mathx_ref ''a'' (lm_config (NewLockManager [WithLockTTL (30 * second)])))
      \<lparr>dl_token := ''t0'', dl_acquired := True, dl_expireTime := Some (6 + 30 * second)\<rparr>))
    [(''lock:a'', ''t0'', Some (5 + 30 * second))]) = Inr False"
proof -
  let ?m = "NewLockManager [WithLockTTL (30 * second)]"
  have g: "GetLock mathx_ref ''a'' ?m = (0, snd (GetLock mathx_ref ''a'' ?m))"
    by (simp add: GetLock_def NewLockManager_def)
  show ?thesis
    using lm_watchdog_late [OF lk_ref_law lk_ref_up mathx_ref_laws _ _ g demo_late_take TrueI, of "65 * second"]
    by (simp add: whole_ms_def second_def millisecond_def dl_startWatchdog_def NewDistributedLock_def lock_defaults_def
        mathx_ref_def NewLockManager_def WithLockTTL_def)
qed

section \<open>Further losses\<close>

text \<open>\<open>LockWithTimeout\<close> cancels its context when it returns, and the watchdog it has started ends at its
  first \<open>select\<close>, before its ticker has fired.\<close>

lemma timeout_ends_watchdog:
  assumes "LockWithTimeout R ctx as l d = (Some None, l', d')" "\<not> dl_chans l' ! c"
  shows "wd_step R pick False now here (ctx, WdSelect c) l' d1 = Some (WdDone, l', d1)"
  using assms by (auto simp: LockWithTimeout_def wd_step_def go_select_def split: prod.splits option.splits)

text \<open>\<open>CleanupExpiredLocks\<close> drops a lock whose check failed for a reason of the network: it is still held
  and renewed, but the manager can no longer release it.\<close>

lemma cleanup_leaks:
  assumes "lm_locks m = [(key, p)]" "p < length (lm_heap m)" "dl_acquired (lm_heap m ! p)"
    "lk_Get R (tm key) (dl_key (lm_heap m ! p)) d = (Inl err, d1)" "err \<noteq> RedisNil"
    "CleanupExpiredLocks R tm m d = (m', d')"
  shows "lm_heap m' = lm_heap m \<and> ReleaseLock R now key m' d' = (Some ErrLockNotFound, m', d')"
  using assms by (auto simp: CleanupExpiredLocks_def IsLocked_def ReleaseLock_def)

text \<open>\<open>TryLock\<close> of a held lock whose check failed gives up its token, so that the lease can neither be used
  nor released: the attempt with a new token fails, and so does \<open>Unlock\<close>.\<close>

lemma check_error_orphans:
  assumes "lock_law R lease" "whole_ms (lkc_TTL (dl_config l))" "dl_acquired l"
    "stays T (dl_token l) (lease d (dl_key l))" "at_set a < T"
    "lk_Get R (at_get a) (dl_key l) d = (Inl err, d1)" "lease (at_between a d1) = lease d1"
    "TryLock R ctx a l d = (r, l', d')"
  shows "r \<noteq> Inr True \<and> lease d' (dl_key l) = lease d (dl_key l) \<and> (r = Inr False \<longrightarrow> fst (Unlock R now l' d') = Some ErrLockNotFound)"
proof -
  have t: "dl_take R (at_token a) (at_set a) (at_here a) ctx (resetState l) (at_between a d1) = (r, l', d')"
    using assms(3,6,8) by (simp add: TryLock_def dl_check_def)
  have f: "dl_key (resetState l) = dl_key l" "dl_config (resetState l) = dl_config l"
    using dl_fixed_eqD [of "resetState l" l] by auto
  have d1: "lease (at_between a d1) = lease d" using lock_read_eq(1) [OF assms(1,6)] assms(7) by simp
  have "\<not> dl_acquired l'" if "r = Inr False"
    using t that by (auto simp: dl_take_def Let_def split: prod.splits sum.splits bool.splits)
  moreover have "lease d' (dl_key l) = lease d (dl_key l)" "r \<noteq> Inr True"
    using take_lease [OF assms(1) _ _ assms(5) t, of "dl_token l" "dl_key l"] f assms(2,4) d1 by auto
  ultimately show ?thesis by (auto simp: Unlock_def)
qed

text \<open>The lock of \<open>MutexLock\<close> has no watchdog: when its function runs for longer than the time to live,
  another call acquires the lock while it runs.\<close>

lemma mutex_overlaps:
  assumes "lock_law R lease" "lock_up R lease up" "dl_take R tok t here ctx l d = (Inr True, l1, d1)" "up d1"
    "whole_ms (lkc_TTL (dl_config l))" "\<not> lkc_EnableWatchdog (dl_config l)" "dl_fixed other = dl_fixed l"
    "t + lkc_TTL (dl_config l) \<le> now"
  shows "dl_watchdogs l1 = dl_watchdogs l \<and> dl_acquired l1 \<and> fst (dl_take R tok' now here' ctx' other d1) = Inr True"
proof -
  have o: "dl_key other = dl_key l" "dl_config other = dl_config l" using dl_fixed_eqD [OF assms(7)] by auto
  have "live now (lease d1 (dl_key other)) = None"
    using take_true(1) [OF assms(1,5,3)] o assms(8) by simp
  from up_take [OF assms(1,2,4) _ this] have "fst (dl_take R tok' now here' ctx' other d1) = Inr True"
    using o assms(5) by simp
  moreover have "dl_watchdogs l1 = dl_watchdogs l"
    using assms(3,6) by (auto simp: dl_take_def Let_def split: prod.splits sum.splits bool.splits)
  ultimately show ?thesis using take_true(3) [OF assms(1,5,3)] by simp
qed

end
