(* ===== verification/Generic_Cache.thy ===== *)
theory Generic_Cache
  imports Decimal Outside
begin

text \<open>
  \<open>GenericTTLCache\<close> of \<open>generic_cache.go\<close>: a map with deadlines of values of any type, whose deletions
  are told to the caches of other nodes through a publish and subscribe channel.

  \<open>J\<close> is the JSON form of a message. An operation that publishes returns the channel and the message,
  if it comes to that; whether the subscription at the start succeeds is an argument of the
  constructor. Logging is left out.
\<close>

section \<open>Key codecs\<close>

record 'k KeyCodec =
  Encode :: "'k \<Rightarrow> string"
  Decode :: "string \<Rightarrow> 'k go_result"

definition StringKeyCodec :: "string KeyCodec" where
  "StringKeyCodec = \<lparr>Encode = (\<lambda>key. key), Decode = (\<lambda>data. Inr data)\<rparr>"

definition parse_in :: "(int \<Rightarrow> bool) \<Rightarrow> int option \<Rightarrow> int go_result" where
  "parse_in fits r =
     (case r of
        None \<Rightarrow> Inl (FmtError ''invalid syntax'')
      | Some i \<Rightarrow> if fits i then Inr i else Inl (FmtError ''value out of range''))"

definition in_uint64 :: "int \<Rightarrow> bool" where
  "in_uint64 i \<longleftrightarrow> 0 \<le> i \<and> i < 18446744073709551616"

definition IntKeyCodec :: "int KeyCodec" where
  "IntKeyCodec = \<lparr>Encode = show_int, Decode = (\<lambda>data. parse_in in_int64 (scan_int data))\<rparr>"

definition Int64KeyCodec :: "int KeyCodec" where
  "Int64KeyCodec = \<lparr>Encode = show_int, Decode = (\<lambda>data. parse_in in_int64 (scan_int data))\<rparr>"

definition Uint64KeyCodec :: "int KeyCodec" where
  "Uint64KeyCodec = \<lparr>Encode = (\<lambda>key. show_nat (nat key)), Decode = (\<lambda>data. parse_in in_uint64 (map_option int (scan_nat data)))\<rparr>"

section \<open>The cache\<close>

record 'v genericEntry =
  ge_value :: 'v
  ge_expiresAt :: time

definition ge_expired :: "time \<Rightarrow> 'v genericEntry \<Rightarrow> bool" where
  "ge_expired now e \<longleftrightarrow> ge_expiresAt e < now"

record genericInvalidateMsg =
  gm_Sender :: string
  gm_Op :: string
  gm_Key :: string

record msg_json =
  mj_Marshal :: "genericInvalidateMsg \<Rightarrow> string go_result"
  mj_Unmarshal :: "string \<Rightarrow> genericInvalidateMsg go_result"

record ('k, 'v) GenericTTLCache =
  gc_m :: "'k \<rightharpoonup> 'v genericEntry"
  gc_pubsub :: bool
  gc_codec :: "'k KeyCodec option"
  gc_channel :: string
  gc_instanceID :: string
  gc_subscriber :: bool
  gc_stopped :: bool

type_synonym ('k, 'v) GenericCacheOption = "('k, 'v) GenericTTLCache \<Rightarrow> ('k, 'v) GenericTTLCache"

text \<open>\<open>instance\<close> is the identifier made of the clock and a random number.\<close>

definition WithPubSub :: "bool \<Rightarrow> string \<Rightarrow> 'k KeyCodec option \<Rightarrow> string \<Rightarrow> ('k, 'v) GenericCacheOption" where
  "WithPubSub pubsub channel codec inst c =
     c\<lparr>gc_pubsub := pubsub, gc_channel := channel, gc_codec := codec, gc_instanceID := inst\<rparr>"

definition startInvalidationSubscriber :: "bool \<Rightarrow> ('k, 'v) GenericTTLCache \<Rightarrow> ('k, 'v) GenericTTLCache" where
  "startInvalidationSubscriber subscribed c = (if subscribed then c\<lparr>gc_subscriber := True\<rparr> else c)"

definition NewGenericTTLCache :: "bool \<Rightarrow> ('k, 'v) GenericCacheOption list \<Rightarrow> ('k, 'v) GenericTTLCache" where
  "NewGenericTTLCache subscribed opts =
     (let c = fold (\<lambda>opt c. opt c) opts
            \<lparr>gc_m = Map.empty, gc_pubsub = False, gc_codec = None, gc_channel = [], gc_instanceID = [],
             gc_subscriber = False, gc_stopped = False\<rparr>
      in if gc_pubsub c \<and> gc_codec c \<noteq> None then startInvalidationSubscriber subscribed c else c)"

text \<open>A load finds an entry and, if it has expired, deletes the key; others may come between the two.\<close>

definition gc_find :: "'k \<Rightarrow> ('k, 'v) GenericTTLCache \<Rightarrow> 'v genericEntry option" where
  "gc_find key c = gc_m c key"

definition gc_drop :: "'k \<Rightarrow> ('k, 'v) GenericTTLCache \<Rightarrow> ('k, 'v) GenericTTLCache" where
  "gc_drop key c = c\<lparr>gc_m := (gc_m c)(key := None)\<rparr>"

definition gc_Load :: "time \<Rightarrow> 'k \<Rightarrow> ('k, 'v) GenericTTLCache \<Rightarrow> 'v option \<times> ('k, 'v) GenericTTLCache" where
  "gc_Load now key c =
     (case gc_find key c of
        None \<Rightarrow> (None, c)
      | Some entry \<Rightarrow> if ge_expired now entry then (None, gc_drop key c) else (Some (ge_value entry), c))"

definition gc_Store :: "time \<Rightarrow> 'k \<Rightarrow> 'v \<Rightarrow> duration \<Rightarrow> ('k, 'v) GenericTTLCache \<Rightarrow> ('k, 'v) GenericTTLCache" where
  "gc_Store now key v ttl c = c\<lparr>gc_m := (gc_m c)(key \<mapsto> \<lparr>ge_value = v, ge_expiresAt = now + ttl\<rparr>)\<rparr>"

section \<open>Invalidation\<close>

text \<open>The key is given for the operation \<open>delete\<close> only.\<close>

definition publishInvalidation :: "msg_json \<Rightarrow> string \<Rightarrow> 'k option \<Rightarrow> ('k, 'v) GenericTTLCache \<Rightarrow> (string \<times> string) option" where
  "publishInvalidation J op key c =
     (case gc_codec c of
        None \<Rightarrow> None
      | Some codec \<Rightarrow>
          if \<not> gc_pubsub c then None
          else
            (let msg = \<lparr>gm_Sender = gc_instanceID c, gm_Op = op,
                        gm_Key = (case key of Some k \<Rightarrow> if op = ''delete'' then Encode codec k else [] | None \<Rightarrow> [])\<rparr>
             in (case mj_Marshal J msg of Inl err \<Rightarrow> None | Inr data \<Rightarrow> Some (gc_channel c, data))))"

definition gc_Delete :: "msg_json \<Rightarrow> 'k \<Rightarrow> ('k, 'v) GenericTTLCache \<Rightarrow> (string \<times> string) option \<times> ('k, 'v) GenericTTLCache" where
  "gc_Delete J key c = (let c' = gc_drop key c in (publishInvalidation J ''delete'' (Some key) c', c'))"

definition gc_Invalidate :: "msg_json \<Rightarrow> 'k \<Rightarrow> ('k, 'v) GenericTTLCache \<Rightarrow> (string \<times> string) option" where
  "gc_Invalidate J key c = publishInvalidation J ''delete'' (Some key) c"

definition gc_DeleteLocal :: "'k \<Rightarrow> ('k, 'v) GenericTTLCache \<Rightarrow> ('k, 'v) GenericTTLCache" where
  "gc_DeleteLocal key c = gc_drop key c"

definition gc_Clear :: "msg_json \<Rightarrow> ('k, 'v) GenericTTLCache \<Rightarrow> (string \<times> string) option \<times> ('k, 'v) GenericTTLCache" where
  "gc_Clear J c = (let c' = c\<lparr>gc_m := Map.empty\<rparr> in (publishInvalidation J ''clear'' None c', c'))"

text \<open>The handler of the subscription.\<close>

definition gc_receive :: "msg_json \<Rightarrow> string \<Rightarrow> ('k, 'v) GenericTTLCache \<Rightarrow> go_error option \<times> ('k, 'v) GenericTTLCache" where
  "gc_receive J message c =
     (case mj_Unmarshal J message of
        Inl err \<Rightarrow> (Some err, c)
      | Inr msg \<Rightarrow>
          if gm_Sender msg = gc_instanceID c then (None, c)
          else if gm_Op msg = ''clear'' then (None, c\<lparr>gc_m := Map.empty\<rparr>)
          else (case gc_codec c of
                  None \<Rightarrow> (Some RuntimePanic, c)
                | Some codec \<Rightarrow>
                    (case Decode codec (gm_Key msg) of
                       Inl err \<Rightarrow> (Some err, c)
                     | Inr key \<Rightarrow> (None, gc_drop key c))))"

definition gc_Stop :: "('k, 'v) GenericTTLCache \<Rightarrow> ('k, 'v) GenericTTLCache" where
  "gc_Stop c = (if gc_stopped c then c else c\<lparr>gc_stopped := True, gc_subscriber := False\<rparr>)"

end
