(* ===== verification/Generic_Cache_Correct.thy ===== *)
theory Generic_Cache_Correct
  imports Generic_Cache
begin

text \<open>
  Properties of the generic cache: the key codecs give keys back, a deletion on one node reaches every
  other one, and no value is served after its time on any node, whatever messages are lost.
\<close>

section \<open>Codecs\<close>

definition codec_law :: "('k \<Rightarrow> bool) \<Rightarrow> 'k KeyCodec \<Rightarrow> bool" where
  "codec_law keys codec \<longleftrightarrow> (\<forall>k. keys k \<longrightarrow> Decode codec (Encode codec k) = Inr k)"

text \<open>
  The codecs of the source decode every key they have encoded: all strings, and all integers that
  fit the type of the key.
\<close>
theorem gc_codecs_roundtrip:
  "Decode StringKeyCodec (Encode StringKeyCodec s) = Inr s \<and>
   Decode IntKeyCodec (Encode IntKeyCodec (wrap64 i)) = Inr (wrap64 i) \<and>
   Decode Int64KeyCodec (Encode Int64KeyCodec (wrap64 i)) = Inr (wrap64 i) \<and>
   Decode Uint64KeyCodec (Encode Uint64KeyCodec (uint (u :: 64 word))) = Inr (uint u)"
proof -
  have "uint u < 18446744073709551616" using uint_lt2p [of u] by simp
  then show ?thesis
    by (simp add: StringKeyCodec_def IntKeyCodec_def Int64KeyCodec_def Uint64KeyCodec_def parse_in_def
        wrap64_range in_uint64_def)
qed

lemma int_codec_law: "codec_law in_int64 IntKeyCodec"
  by (simp add: codec_law_def IntKeyCodec_def parse_in_def)

section \<open>Messages\<close>

text \<open>JSON keeps strings of ASCII characters.\<close>

definition ascii :: "string \<Rightarrow> bool" where
  "ascii s \<longleftrightarrow> list_all (\<lambda>c. of_char c < (128 :: nat)) s"

definition msg_law :: "msg_json \<Rightarrow> bool" where
  "msg_law J \<longleftrightarrow> (\<forall>m. ascii (gm_Sender m) \<longrightarrow> ascii (gm_Op m) \<longrightarrow> ascii (gm_Key m) \<longrightarrow>
     (\<exists>s. mj_Marshal J m = Inr s \<and> mj_Unmarshal J s = Inr m))"

lemma msg_lawE:
  assumes "msg_law J" "ascii (gm_Sender m)" "ascii (gm_Op m)" "ascii (gm_Key m)"
  obtains s where "mj_Marshal J m = Inr s" "mj_Unmarshal J s = Inr m"
  using assms unfolding msg_law_def by blast

text \<open>The reference writes the three strings one after the other, each character as itself after a one,
  and a zero between them.\<close>

definition quote :: "string \<Rightarrow> string" where
  "quote s = concat (map (\<lambda>c. [CHR ''1'', c]) s)"

fun unquote :: "string \<Rightarrow> string \<times> string" where
  "unquote (t # c # cs) = (if t = CHR ''1'' then (case unquote cs of (s, r) \<Rightarrow> (c # s, r)) else ([], c # cs))"
| "unquote [t] = ([], [])"
| "unquote [] = ([], [])"

definition msg_ref :: msg_json where
  "msg_ref = \<lparr>mj_Marshal = (\<lambda>m. Inr (quote (gm_Sender m) @ ''0'' @ quote (gm_Op m) @ ''0'' @ quote (gm_Key m))),
     mj_Unmarshal = (\<lambda>s. case unquote s of (a, r) \<Rightarrow> case unquote r of (b, r') \<Rightarrow>
        Inr \<lparr>gm_Sender = a, gm_Op = b, gm_Key = fst (unquote r')\<rparr>)\<rparr>"

lemma unquote_quote: "unquote (quote s @ ''0'' @ r) = (s, r)" "unquote (quote s) = (s, [])"
proof -
  show "unquote (quote s @ ''0'' @ r) = (s, r)"
    by (induction s) (cases r, simp_all add: quote_def)
  show "unquote (quote s) = (s, [])" by (induction s) (simp_all add: quote_def)
qed

lemma msg_ref_law: "msg_law msg_ref"
  by (simp add: msg_law_def msg_ref_def unquote_quote [simplified])

section \<open>One cache\<close>

text \<open>What a lookup finds at a time.\<close>

definition gc_view :: "time \<Rightarrow> ('k, 'v) GenericTTLCache \<Rightarrow> 'k \<Rightarrow> 'v option" where
  "gc_view now c key = (case gc_m c key of None \<Rightarrow> None | Some e \<Rightarrow> if ge_expired now e then None else Some (ge_value e))"

lemma gc_Load_view: "fst (gc_Load now key c) = gc_view now c key" "now \<le> t \<Longrightarrow> gc_view t (snd (gc_Load now key c)) = gc_view t c"
  by (auto simp: gc_Load_def gc_find_def gc_view_def gc_drop_def ge_expired_def fun_eq_iff split: option.splits)

lemma gc_Store_view: "gc_view t (gc_Store now key v ttl c) = (gc_view t c)(key := if t \<le> now + ttl then Some v else None)"
  by (auto simp: gc_Store_def gc_view_def ge_expired_def)

lemma gc_drop_view: "gc_view t (gc_drop key c) = (gc_view t c)(key := None)"
  by (auto simp: gc_drop_def gc_view_def)

section \<open>Many nodes\<close>

text \<open>
  The nodes of one logical cache, each with the messages under way to it. A message that is published
  reaches every node that is subscribed to the channel, the sender included, in order; a publication
  may fail, which \<open>sent\<close> says.
\<close>

datatype ('k, 'v) gc_event =
    GLoad time 'k | GStore time 'k 'v duration | GDelete bool 'k | GInvalidate bool 'k | GDeleteLocal 'k
  | GClear bool | GReceive

type_synonym ('k, 'v) gc_system = "(nat \<Rightarrow> ('k, 'v) GenericTTLCache) \<times> (nat \<Rightarrow> string list)"

definition gc_send :: "bool \<Rightarrow> (string \<times> string) option \<Rightarrow> ('k, 'v) gc_system \<Rightarrow> ('k, 'v) gc_system" where
  "gc_send sent m S =
     (case m of
        Some (channel, data) \<Rightarrow>
          (if sent
           then (fst S, \<lambda>j. if gc_subscriber (fst S j) \<and> gc_channel (fst S j) = channel then snd S j @ [data] else snd S j)
           else S)
      | None \<Rightarrow> S)"

definition gc_event :: "msg_json \<Rightarrow> nat \<Rightarrow> ('k, 'v) gc_event \<Rightarrow> ('k, 'v) gc_system \<Rightarrow> ('k, 'v) gc_system" where
  "gc_event J i ev S =
     (case S of (N, B) \<Rightarrow>
     (case ev of
        GLoad now key \<Rightarrow> (N(i := snd (gc_Load now key (N i))), B)
      | GStore now key v ttl \<Rightarrow> (N(i := gc_Store now key v ttl (N i)), B)
      | GDelete sent key \<Rightarrow> (case gc_Delete J key (N i) of (m, c) \<Rightarrow> gc_send sent m (N(i := c), B))
      | GInvalidate sent key \<Rightarrow> gc_send sent (gc_Invalidate J key (N i)) (N, B)
      | GDeleteLocal key \<Rightarrow> (N(i := gc_DeleteLocal key (N i)), B)
      | GClear sent \<Rightarrow> (case gc_Clear J (N i) of (m, c) \<Rightarrow> gc_send sent m (N(i := c), B))
      | GReceive \<Rightarrow>
          (case B i of
             [] \<Rightarrow> (N, B)
           | message # rest \<Rightarrow> (N(i := snd (gc_receive J message (N i))), B(i := rest)))))"

definition gc_run :: "msg_json \<Rightarrow> (nat \<times> ('k, 'v) gc_event) list \<Rightarrow> ('k, 'v) gc_system \<Rightarrow> ('k, 'v) gc_system" where
  "gc_run J es S = fold (\<lambda>(i, ev). gc_event J i ev) es S"

text \<open>The part of a node that no operation changes.\<close>

definition gc_fixed :: "('k, 'v) GenericTTLCache \<Rightarrow> bool \<times> 'k KeyCodec option \<times> string \<times> string \<times> bool" where
  "gc_fixed c = (gc_pubsub c, gc_codec c, gc_channel c, gc_instanceID c, gc_subscriber c)"

lemma gc_fixed_ops [simp]:
  "gc_fixed (gc_drop key c) = gc_fixed c" "gc_fixed (snd (gc_Load now key c)) = gc_fixed c"
  "gc_fixed (gc_Store now key v ttl c) = gc_fixed c" "gc_fixed (c\<lparr>gc_m := m\<rparr>) = gc_fixed c"
  "gc_fixed (snd (gc_receive J message c)) = gc_fixed c"
  by (auto simp: gc_fixed_def gc_drop_def gc_Load_def gc_Store_def gc_receive_def split: option.splits sum.splits)

lemma gc_event_fixed: "gc_fixed (fst (gc_event J i ev S) j) = gc_fixed (fst S j)"
  by (auto simp: gc_event_def gc_send_def gc_Delete_def gc_Clear_def gc_DeleteLocal_def Let_def
      split: gc_event.splits prod.splits option.splits list.splits)

lemma gc_run_fixed: "gc_fixed (fst (gc_run J es S) j) = gc_fixed (fst S j)"
  by (induction es arbitrary: S) (auto simp: gc_run_def gc_event_fixed split: prod.splits)

text \<open>Node \<open>j\<close> does not store the key.\<close>

definition no_store :: "nat \<Rightarrow> 'k \<Rightarrow> (nat \<times> ('k, 'v) gc_event) list \<Rightarrow> bool" where
  "no_store j k es \<longleftrightarrow> list_all (\<lambda>(i, ev). case ev of GStore now key v ttl \<Rightarrow> i \<noteq> j \<or> key \<noteq> k | _ \<Rightarrow> True) es"

text \<open>The deletion of a key is under way to a node, or the node does not have the key.\<close>

definition going :: "msg_json \<Rightarrow> nat \<Rightarrow> 'k \<Rightarrow> genericInvalidateMsg \<Rightarrow> ('k, 'v) gc_system \<Rightarrow> bool" where
  "going J j k msg S \<longleftrightarrow> (\<exists>data \<in> set (snd S j). mj_Unmarshal J data = Inr msg) \<or> gc_m (fst S j) k = None"

lemma going_send: "going J j k msg S \<Longrightarrow> going J j k msg (gc_send sent m S)"
  by (auto simp: going_def gc_send_def split: option.splits)

lemma going_upd:
  "going J j k msg (N, B) \<Longrightarrow> (i = j \<Longrightarrow> gc_m (N j) k = None \<Longrightarrow> gc_m c k = None) \<Longrightarrow> going J j k msg (N(i := c), B)"
  by (auto simp: going_def)

lemma none_kept:
  "gc_m c k = None \<Longrightarrow> gc_m (gc_drop key c) k = None" "gc_m c k = None \<Longrightarrow> gc_m (snd (gc_Load now key c)) k = None"
  "gc_m c k = None \<Longrightarrow> gc_m (snd (gc_receive J message c)) k = None"
  by (auto simp: gc_drop_def gc_Load_def gc_receive_def split: option.splits sum.splits)

lemma drop_sub: "gc_m (gc_drop key c) k = Some e \<Longrightarrow> gc_m c k = Some e"
  by (auto simp: gc_drop_def split: if_splits)

text \<open>A node drops the key when it handles the message.\<close>

lemma receive_drops:
  assumes "mj_Unmarshal J data = Inr msg" "gm_Sender msg \<noteq> gc_instanceID c" "gc_codec c = Some codec"
    "gm_Op msg = ''delete''" "Decode codec (gm_Key msg) = Inr k"
  shows "gc_m (snd (gc_receive J data c)) k = None"
  using assms by (simp add: gc_receive_def gc_drop_def)

lemma going_event:
  assumes "going J j k msg S" "no_store j k [(i, ev)]" "gm_Sender msg \<noteq> gc_instanceID (fst S j)"
    "gc_codec (fst S j) = Some codec" "gm_Op msg = ''delete''" "Decode codec (gm_Key msg) = Inr k"
  shows "going J j k msg (gc_event J i ev S)"
proof -
  obtain N B where S: "S = (N, B)" by (cases S)
  have upd: "going J j k msg (N(i := c), B)" if "i = j \<Longrightarrow> gc_m (N j) k = None \<Longrightarrow> gc_m c k = None" for c
    by (rule going_upd) (use assms(1) that S in simp_all)
  show ?thesis
  proof (cases ev)
    case GReceive
    show ?thesis
    proof (cases "B i")
      case (Cons data rest)
      have "going J j k msg (N(i := snd (gc_receive J data (N i))), B(i := rest))"
        using assms(1) receive_drops [OF _ assms(3-6), of J data] none_kept(3) [of "N i" k J data] S Cons
        by (cases "i = j") (auto simp: going_def)
      then show ?thesis by (simp add: S gc_event_def GReceive Cons)
    qed (use assms(1) S GReceive in \<open>simp add: gc_event_def\<close>)
  qed (use assms(1,2) S in \<open>auto simp: gc_event_def gc_Delete_def gc_Invalidate_def gc_Clear_def gc_DeleteLocal_def
      gc_Store_def no_store_def Let_def intro!: going_send upd none_kept(1,2)\<close>)
qed

lemma going_run:
  assumes "going J j k msg S" "no_store j k es" "gm_Sender msg \<noteq> gc_instanceID (fst S j)"
    "gc_codec (fst S j) = Some codec" "gm_Op msg = ''delete''" "Decode codec (gm_Key msg) = Inr k"
  shows "going J j k msg (gc_run J es S)"
  using assms(1-4)
proof (induction es arbitrary: S)
  case (Cons e es)
  obtain i ev where e: "e = (i, ev)" by (cases e)
  have f: "gc_fixed (fst (gc_event J i ev S) j) = gc_fixed (fst S j)" by (rule gc_event_fixed)
  have "going J j k msg (gc_event J i ev S)"
    by (rule going_event [OF Cons.prems(1) _ Cons.prems(3,4) assms(5,6)]) (use Cons.prems(2) e in \<open>simp add: no_store_def\<close>)
  from Cons.IH [OF this] show ?case using Cons.prems(2-4) f e by (simp add: gc_run_def gc_fixed_def no_store_def)
qed (simp add: gc_run_def)

text \<open>Two nodes of one logical cache.\<close>

definition same_cache :: "('k \<Rightarrow> bool) \<Rightarrow> 'k KeyCodec \<Rightarrow> ('k, 'v) GenericTTLCache \<Rightarrow> ('k, 'v) GenericTTLCache \<Rightarrow> bool" where
  "same_cache keys codec a b \<longleftrightarrow> codec_law keys codec \<and> gc_pubsub a \<and> gc_codec a = Some codec \<and> gc_codec b = Some codec \<and>
     gc_channel b = gc_channel a \<and> gc_subscriber b \<and> gc_instanceID b \<noteq> gc_instanceID a \<and> ascii (gc_instanceID a)"

text \<open>
  C16: Invalidation. A node deletes or invalidates a key and the message is published. Whatever all nodes
  do then and in whatever order messages arrive, once another node has handled every message to it,
  it does not have the key, unless it has stored it again.
\<close>
theorem gc_invalidates:
  assumes "msg_law J" "same_cache keys codec (fst S i) (fst S j)" "keys k" "ascii (Encode codec k)"
    "ev = GDelete True k \<or> ev = GInvalidate True k" "no_store j k es"
    "snd (gc_run J es (gc_event J i ev S)) j = []"
  shows "gc_view now (fst (gc_run J es (gc_event J i ev S)) j) k = None"
proof -
  obtain N B where S: "S = (N, B)" by (cases S)
  note c = assms(2) [unfolded same_cache_def S fst_conv]
  define msg where "msg = \<lparr>gm_Sender = gc_instanceID (N i), gm_Op = ''delete'', gm_Key = Encode codec k\<rparr>"
  obtain data where data: "mj_Marshal J msg = Inr data" "mj_Unmarshal J data = Inr msg"
    by (rule msg_lawE [OF assms(1), of msg]) (use c assms(4) in \<open>simp_all add: msg_def ascii_def\<close>)
  have ij: "i \<noteq> j" "gc_instanceID (N i) \<noteq> gc_instanceID (N j)" using c by auto
  have fixed: "gc_fixed (fst (gc_event J i ev S) j) = gc_fixed (N j)" using gc_event_fixed [of J i ev S j] S by simp
  have "publishInvalidation J ''delete'' (Some k) (N i) = Some (gc_channel (N i), data)"
    "publishInvalidation J ''delete'' (Some k) (gc_drop k (N i)) = Some (gc_channel (N i), data)"
    using c data(1) by (simp_all add: publishInvalidation_def msg_def gc_drop_def)
  then have "data \<in> set (snd (gc_event J i ev S) j)"
    using assms(5) c ij(1) by (auto simp: S gc_event_def gc_Delete_def gc_Invalidate_def gc_send_def)
  then have "going J j k msg (gc_event J i ev S)" using data(2) by (auto simp: going_def)
  then have "going J j k msg (gc_run J es (gc_event J i ev S))"
    by (rule going_run [OF _ assms(6), where codec = codec])
      (use c fixed assms(3) ij(2) in \<open>simp_all add: gc_fixed_def msg_def codec_law_def\<close>)
  then show ?thesis using assms(7) by (simp add: going_def gc_view_def)
qed

text \<open>
  Freshness. Whatever the nodes do and whatever messages are lost, reordered in their handling or
  malformed, a value that a lookup finds is the one last stored under that key by the same node, and
  its time to live is not over.
\<close>
theorem gc_fresh:
  assumes "gc_view now (fst (gc_run J es S) j) k = Some v" "gc_m (fst S j) k = None"
  shows "\<exists>es1 t ttl es2. es = es1 @ (j, GStore t k v ttl) # es2 \<and> no_store j k es2 \<and> now \<le> t + ttl"
proof -
  have stored: "(\<exists>es1 t ttl es2. es = es1 @ (j, GStore t k (ge_value e) ttl) # es2 \<and> no_store j k es2 \<and> ge_expiresAt e = t + ttl)"
    if "gc_m (fst (gc_run J es S) j) k = Some e" for e
    using that
  proof (induction es rule: rev_induct)
    case Nil
    then show ?case using assms(2) by (simp add: gc_run_def)
  next
    case (snoc x es)
    obtain i ev where x: "x = (i, ev)" by (cases x)
    obtain N B where S': "gc_run J es S = (N, B)" by (cases "gc_run J es S")
    have run: "gc_run J (es @ [x]) S = gc_event J i ev (N, B)" using S' by (simp add: gc_run_def x)
    show ?case
    proof (cases "\<exists>t v ttl. x = (j, GStore t k v ttl)")
      case True
      then obtain t v ttl where x': "i = j" "ev = GStore t k v ttl" using x by auto
      then have "e = \<lparr>ge_value = v, ge_expiresAt = t + ttl\<rparr>" using snoc.prems run by (simp add: gc_event_def gc_Store_def)
      then show ?thesis using x x' by (intro exI [of _ es] exI [of _ t] exI [of _ ttl] exI [of _ "[]"]) (simp add: no_store_def)
    next
      case False
      have "gc_m (N j) k = Some e"
        using snoc.prems run False x drop_sub
        by (auto simp: gc_event_def gc_Load_def gc_Store_def gc_Delete_def gc_Clear_def gc_DeleteLocal_def gc_receive_def gc_send_def
            Let_def split: gc_event.splits if_splits option.splits list.splits sum.splits)
      then obtain es1 t ttl es2 where e: "es = es1 @ (j, GStore t k (ge_value e) ttl) # es2" "no_store j k es2" "ge_expiresAt e = t + ttl"
        using snoc.IH S' by auto
      have "no_store j k (es2 @ [x])" using e(2) False x by (auto simp: no_store_def split: gc_event.splits)
      then show ?thesis using e by (intro exI [of _ es1] exI [of _ t] exI [of _ ttl] exI [of _ "es2 @ [x]"]) simp
    qed
  qed
  obtain e where e: "gc_m (fst (gc_run J es S) j) k = Some e" "ge_value e = v" "now \<le> ge_expiresAt e"
    using assms(1) by (auto simp: gc_view_def ge_expired_def split: option.splits if_splits)
  show ?thesis using stored [OF e(1)] e(2,3) by metis
qed

section \<open>Two nodes\<close>

definition demo_node :: "string \<Rightarrow> (int, string) GenericTTLCache" where
  "demo_node inst = NewGenericTTLCache True [WithPubSub True ''inv'' (Some IntKeyCodec) inst]"

definition demo_system :: "(int, string) gc_system" where
  "demo_system = ((\<lambda>i. if i = 0 then demo_node ''a'' else demo_node ''b'')(1 := gc_Store 5 7 ''old'' 100 (demo_node ''b'')), \<lambda>i. [])"

lemma demo_node_simps:
  "gc_codec (demo_node i) = Some IntKeyCodec" "gc_pubsub (demo_node i)" "gc_channel (demo_node i) = ''inv''"
  "gc_subscriber (demo_node i)" "gc_instanceID (demo_node i) = i" "gc_m (demo_node i) = Map.empty"
  by (simp_all add: demo_node_def NewGenericTTLCache_def WithPubSub_def startInvalidationSubscriber_def)

lemma gc_invalidates_witness:
  "gc_view 8 (fst (gc_run msg_ref [(0, GStore 6 7 ''new'' 100), (1, GReceive), (0, GReceive)]
     (gc_event msg_ref 0 (GInvalidate True 7) demo_system)) 1) 7 = None"
proof -
  have e: "Encode IntKeyCodec 7 = ''7''" unfolding IntKeyCodec_def by code_simp
  have a: "ascii ''7''" "ascii ''a''" by (simp_all add: ascii_def)
  have same: "same_cache in_int64 IntKeyCodec (fst demo_system 0) (fst demo_system 1)"
    by (simp add: same_cache_def demo_system_def demo_node_simps gc_Store_def int_codec_law a(2))
  have empty: "snd (gc_run msg_ref [(0, GStore 6 7 ''new'' 100), (1, GReceive), (0, GReceive)]
     (gc_event msg_ref 0 (GInvalidate True 7) demo_system)) 1 = []"
    by (simp add: demo_system_def gc_run_def gc_event_def gc_Invalidate_def publishInvalidation_def msg_ref_def
        gc_send_def demo_node_simps gc_Store_def)
  show ?thesis
    by (rule gc_invalidates [OF msg_ref_law same _ _ disjI2 [OF refl] _ empty])
      (simp_all add: e a in_int64_def min_int64_def max_int64_def no_store_def)
qed

lemma gc_fresh_witness:
  "\<exists>es1 t ttl es2. [(1, GStore 5 7 ''v'' 100), (0, GClear False)] = es1 @ (1, GStore t (7 :: int) ''v'' ttl) # es2 \<and>
     no_store 1 7 es2 \<and> 9 \<le> t + ttl"
proof -
  let ?S = "(\<lambda>i. demo_node ''a'', \<lambda>i :: nat. [])"
  have "gc_view 9 (fst (gc_run msg_ref [(1, GStore 5 7 ''v'' 100), (0, GClear False)] ?S) 1) 7 = Some ''v''"
    by (auto simp: gc_run_def gc_event_def gc_Store_def gc_view_def ge_expired_def gc_Clear_def gc_send_def Let_def split: option.splits)
  then show ?thesis by (rule gc_fresh) (simp add: demo_node_simps)
qed

text \<open>
  The lazy deletion of a load does not look again: a value stored between the look and the deletion is
  lost, although its time to live has just begun.
\<close>

lemma gc_lazy_loses:
  assumes "gc_find key c = Some old" "ge_expired now old" "0 < ttl"
  shows "gc_view now (gc_Store now key v ttl c) key = Some v \<and> gc_view now (gc_drop key (gc_Store now key v ttl c)) key = None"
  using assms by (simp add: gc_Store_view gc_drop_view)

end
