(* ===== verification/Redis.thy ===== *)
theory Redis
  imports Outside "HOL-Library.Product_Lexorder" "HOL-Library.List_Lexorder" "HOL-Library.Char_ord"
begin

text \<open>
  The Redis commands the queues and the caches of typed values use, and the Lua scripts made of them.
  The server is a parameter: a function that runs one command, and the state of the network. A script
  is a tree of commands, each with what the script does with the reply; the server runs it as a whole.
  What the code relies on is \<open>redis_law\<close>: each command has the documented effect on the keys, which
  \<open>redis_do\<close> states on a database of values with deadlines.
\<close>

section \<open>Commands and replies\<close>

datatype redis_cmd =
    GET string | SET string string duration | SETNX string string duration | DEL "string list"
  | EXPIRE string duration
  | ZADD string int string | ZREM string string | ZRANGEBYSCORE string "int option" int int | ZCARD string
  | ZPOPMAX string | ZRANGE string int int | ZREVRANGE string int int
  | HSET string string string | HGET string string | HDEL string string | HLEN string | HGETALL string
  | LPUSH string string | RPUSH string string | LPOP string | LLEN string | LRANGE string int int
  | SADD string "string list" | SMEMBERS string

datatype redis_reply = RNil | ROk | RInt int | RBulk string | RArr "string list" | RWrongType

datatype redis_value =
    VStr string | VList "string list" | VZset "(string \<times> int) list" | VHash "(string \<times> string) list" | VSet "string list"

text \<open>A database: keys with their value and deadline.\<close>

type_synonym redis_db = "string \<Rightarrow> (redis_value \<times> time option) option"

section \<open>What a command does\<close>

definition at :: "time \<Rightarrow> redis_db \<Rightarrow> string \<Rightarrow> redis_value option" where
  "at now db k = map_option fst (live now (db k))"

definition deadline_of :: "time \<Rightarrow> redis_db \<Rightarrow> string \<Rightarrow> time option" where
  "deadline_of now db k = (case live now (db k) of None \<Rightarrow> None | Some (v, dl) \<Rightarrow> dl)"

text \<open>Writing a collection keeps its deadline; an empty one is no key.\<close>

definition put :: "time \<Rightarrow> string \<Rightarrow> bool \<Rightarrow> redis_value \<Rightarrow> redis_db \<Rightarrow> redis_db" where
  "put now k gone v db = db(k := if gone then None else Some (v, deadline_of now db k))"

text \<open>The elements between two ranks, where a negative one counts from the end.\<close>

definition between :: "int \<Rightarrow> int \<Rightarrow> 'a list \<Rightarrow> 'a list" where
  "between a b xs =
     (let n = int (length xs);
          a' = nat (max 0 (if a < 0 then a + n else a));
          b' = (if b < 0 then b + n else b)
      in take (nat (b' + 1) - a') (drop a' xs))"

definition zsorted :: "(string \<times> int) list \<Rightarrow> string list" where
  "zsorted z = map snd (sort (map (\<lambda>(m, s). (s, m)) z))"

definition zrange :: "int option \<Rightarrow> int \<Rightarrow> int \<Rightarrow> (string \<times> int) list \<Rightarrow> string list" where
  "zrange lo hi n z =
     (let ms = zsorted (filter (\<lambda>(m, s). (case lo of None \<Rightarrow> True | Some l \<Rightarrow> l \<le> s) \<and> s \<le> hi) z)
      in if n < 0 then ms else take (nat n) ms)"

abbreviation count :: "bool \<Rightarrow> redis_reply" where
  "count b \<equiv> RInt (if b then 1 else 0)"

text \<open>Commands on a value of one kind; a key with a value of another kind is an error.\<close>

definition on_str :: "time \<Rightarrow> string \<Rightarrow> redis_db \<Rightarrow> (string option \<Rightarrow> redis_reply \<times> redis_db) \<Rightarrow> redis_reply \<times> redis_db" where
  "on_str now k db f = (case at now db k of None \<Rightarrow> f None | Some (VStr s) \<Rightarrow> f (Some s) | Some _ \<Rightarrow> (RWrongType, db))"

definition on_list :: "time \<Rightarrow> string \<Rightarrow> redis_db \<Rightarrow> (string list \<Rightarrow> redis_reply \<times> redis_db) \<Rightarrow> redis_reply \<times> redis_db" where
  "on_list now k db f = (case at now db k of None \<Rightarrow> f [] | Some (VList l) \<Rightarrow> f l | Some _ \<Rightarrow> (RWrongType, db))"

definition on_zset :: "time \<Rightarrow> string \<Rightarrow> redis_db \<Rightarrow> ((string \<times> int) list \<Rightarrow> redis_reply \<times> redis_db) \<Rightarrow> redis_reply \<times> redis_db" where
  "on_zset now k db f = (case at now db k of None \<Rightarrow> f [] | Some (VZset z) \<Rightarrow> f z | Some _ \<Rightarrow> (RWrongType, db))"

definition on_hash :: "time \<Rightarrow> string \<Rightarrow> redis_db \<Rightarrow> ((string \<times> string) list \<Rightarrow> redis_reply \<times> redis_db) \<Rightarrow> redis_reply \<times> redis_db" where
  "on_hash now k db f = (case at now db k of None \<Rightarrow> f [] | Some (VHash h) \<Rightarrow> f h | Some _ \<Rightarrow> (RWrongType, db))"

definition on_set :: "time \<Rightarrow> string \<Rightarrow> redis_db \<Rightarrow> (string list \<Rightarrow> redis_reply \<times> redis_db) \<Rightarrow> redis_reply \<times> redis_db" where
  "on_set now k db f = (case at now db k of None \<Rightarrow> f [] | Some (VSet s) \<Rightarrow> f s | Some _ \<Rightarrow> (RWrongType, db))"

definition set_str :: "time \<Rightarrow> string \<Rightarrow> string \<Rightarrow> duration \<Rightarrow> redis_db \<Rightarrow> redis_db" where
  "set_str now k v ttl db = db(k \<mapsto> (VStr v, if 0 < ttl then Some (now + ttl) else None))"

fun redis_do :: "time \<Rightarrow> redis_cmd \<Rightarrow> redis_db \<Rightarrow> redis_reply \<times> redis_db" where
  "redis_do now (GET k) db = on_str now k db (\<lambda>s. (case s of None \<Rightarrow> RNil | Some v \<Rightarrow> RBulk v, db))"
| "redis_do now (SET k v ttl) db = (ROk, set_str now k v ttl db)"
| "redis_do now (SETNX k v ttl) db = (if at now db k = None then (RInt 1, set_str now k v ttl db) else (RInt 0, db))"
| "redis_do now (DEL ks) db =
     (RInt (int (length (filter (\<lambda>k. at now db k \<noteq> None) (remdups ks)))), \<lambda>k. if k \<in> set ks then None else db k)"
| "redis_do now (EXPIRE k ttl) db =
     (case at now db k of
        None \<Rightarrow> (RInt 0, db)
      | Some v \<Rightarrow> (RInt 1, db(k := if 0 < ttl then Some (v, Some (now + ttl)) else None)))"
| "redis_do now (ZADD k s m) db =
     on_zset now k db (\<lambda>z. (count (map_of z m = None), put now k False (VZset (AList.update m s z)) db))"
| "redis_do now (ZREM k m) db =
     on_zset now k db (\<lambda>z. if map_of z m = None then (RInt 0, db)
       else let z' = AList.delete m z in (RInt 1, put now k (z' = []) (VZset z') db))"
| "redis_do now (ZRANGEBYSCORE k lo hi n) db = on_zset now k db (\<lambda>z. (RArr (zrange lo hi n z), db))"
| "redis_do now (ZCARD k) db = on_zset now k db (\<lambda>z. (RInt (int (length z)), db))"
| "redis_do now (ZPOPMAX k) db =
     on_zset now k db (\<lambda>z. if z = [] then (RArr [], db)
       else let m = last (zsorted z); z' = AList.delete m z in (RArr [m], put now k (z' = []) (VZset z') db))"
| "redis_do now (ZRANGE k a b) db = on_zset now k db (\<lambda>z. (RArr (between a b (zsorted z)), db))"
| "redis_do now (ZREVRANGE k a b) db = on_zset now k db (\<lambda>z. (RArr (between a b (rev (zsorted z))), db))"
| "redis_do now (HSET k f v) db =
     on_hash now k db (\<lambda>h. (count (map_of h f = None), put now k False (VHash (AList.update f v h)) db))"
| "redis_do now (HGET k f) db = on_hash now k db (\<lambda>h. (case map_of h f of None \<Rightarrow> RNil | Some v \<Rightarrow> RBulk v, db))"
| "redis_do now (HDEL k f) db =
     on_hash now k db (\<lambda>h. if map_of h f = None then (RInt 0, db)
       else let h' = AList.delete f h in (RInt 1, put now k (h' = []) (VHash h') db))"
| "redis_do now (HLEN k) db = on_hash now k db (\<lambda>h. (RInt (int (length h)), db))"
| "redis_do now (HGETALL k) db = on_hash now k db (\<lambda>h. (RArr (concat (map (\<lambda>(f, v). [f, v]) h)), db))"
| "redis_do now (LPUSH k v) db = on_list now k db (\<lambda>l. (RInt (int (length l) + 1), put now k False (VList (v # l)) db))"
| "redis_do now (RPUSH k v) db = on_list now k db (\<lambda>l. (RInt (int (length l) + 1), put now k False (VList (l @ [v])) db))"
| "redis_do now (LPOP k) db =
     on_list now k db (\<lambda>l. case l of [] \<Rightarrow> (RNil, db) | v # l' \<Rightarrow> (RBulk v, put now k (l' = []) (VList l') db))"
| "redis_do now (LLEN k) db = on_list now k db (\<lambda>l. (RInt (int (length l)), db))"
| "redis_do now (LRANGE k a b) db = on_list now k db (\<lambda>l. (RArr (between a b l), db))"
| "redis_do now (SADD k ms) db =
     on_set now k db (\<lambda>s. let s' = fold (\<lambda>m s. if m \<in> set s then s else s @ [m]) ms s
       in (RInt (int (length s') - int (length s)), put now k (s' = []) (VSet s') db))"
| "redis_do now (SMEMBERS k) db = on_set now k db (\<lambda>s. (RArr s, db))"

text \<open>The values of a database: a sorted set, a hash and a set hold every member once.\<close>

fun value_wf :: "redis_value \<Rightarrow> bool" where
  "value_wf (VZset z) \<longleftrightarrow> distinct (map fst z)"
| "value_wf (VHash h) \<longleftrightarrow> distinct (map fst h)"
| "value_wf (VSet s) \<longleftrightarrow> distinct s"
| "value_wf v \<longleftrightarrow> True"

definition db_wf :: "redis_db \<Rightarrow> bool" where
  "db_wf db \<longleftrightarrow> (\<forall>k v dl. db k = Some (v, dl) \<longrightarrow> value_wf v)"

section \<open>The server and its scripts\<close>

record 'd redis =
  rd_net :: "'d \<Rightarrow> delivery"
  rd_call :: "time \<Rightarrow> redis_cmd \<Rightarrow> 'd \<Rightarrow> redis_reply \<times> 'd"

text \<open>A script ends with a result or an error, or calls a command.\<close>

datatype 'a lua = Return 'a | Raise go_error | Call redis_cmd "redis_reply \<Rightarrow> 'a lua"

primrec lua_bind :: "'a lua \<Rightarrow> ('a \<Rightarrow> 'b lua) \<Rightarrow> 'b lua" where
  "lua_bind (Return x) f = f x"
| "lua_bind (Raise e) f = Raise e"
| "lua_bind (Call c g) f = Call c (\<lambda>r. lua_bind (g r) f)"

text \<open>A call that fails raises its error, as \<open>redis.call\<close> does.\<close>

definition WrongType :: go_error where "WrongType = ExtError 2"

primrec run :: "'d redis \<Rightarrow> time \<Rightarrow> 'a lua \<Rightarrow> 'd \<Rightarrow> 'a go_result \<times> 'd" where
  "run R now (Return x) d = (Inr x, d)"
| "run R now (Raise e) d = (Inl e, d)"
| "run R now (Call c f) d =
     (case rd_call R now c d of (r, d') \<Rightarrow> if r = RWrongType then (Inl WrongType, d') else run R now (f r) d')"

text \<open>\<open>Eval\<close>: the script goes to the server and its result comes back, or not.\<close>

definition eval :: "'d redis \<Rightarrow> time \<Rightarrow> 'a lua \<Rightarrow> 'd \<Rightarrow> 'a go_result \<times> 'd" where
  "eval R now script d = deliver (rd_net R d) (run R now script) d"

text \<open>One command of the client. A nil reply is the error \<^const>\<open>RedisNil\<close>, except where the client gives a value.\<close>

definition reply_script :: "redis_cmd \<Rightarrow> redis_reply lua" where
  "reply_script c = Call c (\<lambda>r. if r = RNil then Raise RedisNil else Return r)"

definition client :: "'d redis \<Rightarrow> time \<Rightarrow> redis_cmd \<Rightarrow> 'd \<Rightarrow> redis_reply go_result \<times> 'd" where
  "client R now c d = eval R now (reply_script c) d"

text \<open>The commands with the type of their result in the client.\<close>

fun int_of :: "redis_reply \<Rightarrow> int" where "int_of (RInt i) = i" | "int_of _ = 0"
fun str_of :: "redis_reply \<Rightarrow> string" where "str_of (RBulk s) = s" | "str_of _ = []"
fun arr_of :: "redis_reply \<Rightarrow> string list" where "arr_of (RArr l) = l" | "arr_of _ = []"

definition client_int :: "'d redis \<Rightarrow> time \<Rightarrow> redis_cmd \<Rightarrow> 'd \<Rightarrow> int go_result \<times> 'd" where
  "client_int R now c d = (case client R now c d of (r, d') \<Rightarrow> (map_sum id int_of r, d'))"

definition client_str :: "'d redis \<Rightarrow> time \<Rightarrow> redis_cmd \<Rightarrow> 'd \<Rightarrow> string go_result \<times> 'd" where
  "client_str R now c d = (case client R now c d of (r, d') \<Rightarrow> (map_sum id str_of r, d'))"

definition client_arr :: "'d redis \<Rightarrow> time \<Rightarrow> redis_cmd \<Rightarrow> 'd \<Rightarrow> string list go_result \<times> 'd" where
  "client_arr R now c d = (case client R now c d of (r, d') \<Rightarrow> (map_sum id arr_of r, d'))"

definition client_err :: "'d redis \<Rightarrow> time \<Rightarrow> redis_cmd \<Rightarrow> 'd \<Rightarrow> go_error option \<times> 'd" where
  "client_err R now c d = (case client R now c d of (r, d') \<Rightarrow> (err_of r, d'))"

section \<open>The law\<close>

text \<open>The server does with its database what the documentation says.\<close>

definition redis_law :: "'d redis \<Rightarrow> ('d \<Rightarrow> redis_db) \<Rightarrow> bool" where
  "redis_law R db \<longleftrightarrow> (\<forall>now c d. db_wf (db d) \<longrightarrow>
     fst (rd_call R now c d) = fst (redis_do now c (db d)) \<and> db (snd (rd_call R now c d)) = snd (redis_do now c (db d)))"

text \<open>The network delivers in every state.\<close>

definition redis_up :: "'d redis \<Rightarrow> bool" where
  "redis_up R \<longleftrightarrow> (\<forall>d. rd_net R d = Delivered)"

text \<open>A script on a database.\<close>

primrec run_db :: "time \<Rightarrow> 'a lua \<Rightarrow> redis_db \<Rightarrow> 'a go_result \<times> redis_db" where
  "run_db now (Return x) db = (Inr x, db)"
| "run_db now (Raise e) db = (Inl e, db)"
| "run_db now (Call c f) db =
     (case redis_do now c db of (r, db') \<Rightarrow> if r = RWrongType then (Inl WrongType, db') else run_db now (f r) db')"

text \<open>The reference server, which always delivers.\<close>

definition redis_ref :: "redis_db redis" where
  "redis_ref = \<lparr>rd_net = (\<lambda>_. Delivered), rd_call = redis_do\<rparr>"

lemma redis_ref_law: "redis_law redis_ref id" "redis_up redis_ref"
  by (simp_all add: redis_law_def redis_up_def redis_ref_def)

section \<open>Well-formed databases\<close>

lemma db_wf_empty [simp]: "db_wf Map.empty"
  by (simp add: db_wf_def)

lemma db_wfD: "db_wf db \<Longrightarrow> at now db k = Some v \<Longrightarrow> value_wf v"
  by (auto simp: db_wf_def at_def dest: live_SomeD)

lemma db_wf_upd: "db_wf db \<Longrightarrow> (\<And>v dl. e = Some (v, dl) \<Longrightarrow> value_wf v) \<Longrightarrow> db_wf (db(k := e))"
  by (auto simp: db_wf_def)

lemma db_wf_put: "db_wf db \<Longrightarrow> value_wf v \<Longrightarrow> db_wf (put now k gone v db)"
  unfolding put_def by (rule db_wf_upd) (auto split: if_splits)

lemma db_wf_del: "db_wf db \<Longrightarrow> db_wf (\<lambda>k. if P k then None else db k)"
  by (auto simp: db_wf_def)

lemma sadd_distinct: "distinct s \<Longrightarrow> distinct (fold (\<lambda>m s. if m \<in> set s then s else s @ [m]) ms s)"
  by (induction ms arbitrary: s) auto

lemma redis_do_wf:
  assumes "db_wf db"
  shows "db_wf (snd (redis_do now c db))"
proof -
  note w = db_wfD [OF assms, of now] and p = db_wf_put [OF assms]
  have d: "distinct (map fst (AList.update k v z))" if "distinct (map fst z)" for k :: string and v :: 'b and z
    using that by (rule distinct_update)
  have s: "db_wf (set_str now k v ttl db)" for k v ttl
    unfolding set_str_def by (rule db_wf_upd [OF assms]) auto
  show ?thesis
    using assms s
    by (cases c) (auto simp: on_str_def on_list_def on_zset_def on_hash_def on_set_def Let_def split: option.splits redis_value.splits list.splits
        intro!: p distinct_update distinct_keys_delete sadd_distinct db_wf_upd db_wf_del dest: w)
qed

section \<open>Scripts on the server and on its database\<close>

lemma redis_call:
  assumes "redis_law R db" "db_wf (db d)" "rd_call R now c d = (r, d')"
  shows "redis_do now c (db d) = (r, db d')" "db_wf (db d')"
proof -
  show *: "redis_do now c (db d) = (r, db d')"
    using assms(1) [unfolded redis_law_def, rule_format, OF assms(2), of now c] assms(3) by (simp add: prod_eq_iff)
  show "db_wf (db d')" using redis_do_wf [OF assms(2), of now c] * by simp
qed

lemma run_run_db:
  assumes "redis_law R db" "db_wf (db d)" "run R now s d = (r, d')"
  shows "run_db now s (db d) = (r, db d') \<and> db_wf (db d')"
  using assms(2,3)
proof (induction s arbitrary: d)
  case (Call c f)
  obtain x d1 where 1: "rd_call R now c d = (x, d1)" by (cases "rd_call R now c d")
  note call = redis_call [OF assms(1) Call.prems(1) 1]
  show ?case using Call.IH [of "f x" d1] Call.prems(2) call 1 by (auto split: if_splits)
qed auto

text \<open>A request that is delivered.\<close>

lemma eval_up:
  assumes "redis_law R db" "redis_up R" "db_wf (db d)"
  obtains d' where "eval R now s d = (fst (run_db now s (db d)), d')" "db d' = snd (run_db now s (db d))" "db_wf (db d')"
proof -
  obtain r d' where 1: "run R now s d = (r, d')" by (cases "run R now s d")
  note t = run_run_db [OF assms(1,3) 1]
  have "rd_net R d = Delivered" using assms(2) by (simp add: redis_up_def)
  then have e: "eval R now s d = (r, d')" using 1 by (simp add: eval_def)
  show thesis
  proof (rule that [of d'])
    show "eval R now s d = (fst (run_db now s (db d)), d')" "db d' = snd (run_db now s (db d))" "db_wf (db d')"
      using e t by (simp_all only: fst_conv snd_conv)
  qed
qed

text \<open>Any request: the script has run as a whole or not at all; a result is that of the script.\<close>

lemma eval_any:
  assumes "redis_law R db" "db_wf (db d)" "eval R now s d = (r, d')"
  obtains (lost) e where "db d' = db d" "r = Inl e" "db_wf (db d')"
    | (silent) e where "db d' = snd (run_db now s (db d))" "r = Inl e" "db_wf (db d')"
    | (answered) "run_db now s (db d) = (r, db d')" "db_wf (db d')"
proof -
  obtain x d1 where 1: "run R now s d = (x, d1)" by (cases "run R now s d")
  note t = run_run_db [OF assms(1,2) 1]
  show thesis
  proof (cases "rd_net R d")
    case Delivered
    then show ?thesis using answered t 1 assms(3) by (simp add: eval_def)
  next
    case (Lost e)
    then show ?thesis using lost [of e] assms(2,3) by (simp add: eval_def deliver_def)
  next
    case (NoReply e)
    then show ?thesis using silent [of e] t 1 assms(3) by (simp add: eval_def deliver_def)
  qed
qed

text \<open>One command: it has run or not, whatever the client is told.\<close>

lemma run_reply_script: "snd (run_db now (reply_script c) db) = snd (redis_do now c db)"
  by (simp add: reply_script_def split: prod.splits redis_reply.splits)

lemma client_db:
  assumes "redis_law R db" "db_wf (db d)" "client R now c d = (x, d')"
  shows "db_wf (db d') \<and> (db d' = db d \<or> db d' = snd (redis_do now c (db d)))"
proof (cases rule: eval_any [OF assms(1,2) assms(3) [unfolded client_def], case_names lost silent answered])
  case answered
  then have "db d' = snd (redis_do now c (db d))" by (simp add: run_reply_script [symmetric])
  then show ?thesis using answered(2) by simp
qed (simp_all add: run_reply_script)

lemma client_up_nil:
  assumes "redis_law R db" "redis_up R" "db_wf (db d)" "redis_do now c (db d) = (RNil, dbr)"
  obtains d' where "client R now c d = (Inl RedisNil, d')" "db d' = dbr" "db_wf (db d')"
proof -
  obtain d' where d: "eval R now (reply_script c) d = (fst (run_db now (reply_script c) (db d)), d')"
    "db d' = snd (run_db now (reply_script c) (db d))" "db_wf (db d')"
    by (rule eval_up [OF assms(1-3)])
  show thesis by (rule that [of d']) (use d assms(4) in \<open>simp_all add: client_def reply_script_def\<close>)
qed

lemma client_up:
  assumes "redis_law R db" "redis_up R" "db_wf (db d)" "redis_do now c (db d) = (r, dbr)" "r \<noteq> RWrongType" "r \<noteq> RNil"
  obtains d' where "client R now c d = (Inr r, d')" "db d' = dbr" "db_wf (db d')"
proof -
  obtain d' where d: "eval R now (reply_script c) d = (fst (run_db now (reply_script c) (db d)), d')"
    "db d' = snd (run_db now (reply_script c) (db d))" "db_wf (db d')"
    by (rule eval_up [OF assms(1-3)])
  show thesis by (rule that [of d']) (use d assms(4-) in \<open>simp_all add: client_def reply_script_def\<close>)
qed

section \<open>Collections without a deadline\<close>

definition zset_key :: "redis_db \<Rightarrow> string \<Rightarrow> bool" where
  "zset_key db k \<longleftrightarrow> (\<forall>v dl. db k = Some (v, dl) \<longrightarrow> dl = None \<and> (\<exists>z. v = VZset z \<and> distinct (map fst z)))"

definition hash_key :: "redis_db \<Rightarrow> string \<Rightarrow> bool" where
  "hash_key db k \<longleftrightarrow> (\<forall>v dl. db k = Some (v, dl) \<longrightarrow> dl = None \<and> (\<exists>h. v = VHash h \<and> distinct (map fst h)))"

definition list_key :: "redis_db \<Rightarrow> string \<Rightarrow> bool" where
  "list_key db k \<longleftrightarrow> (\<forall>v dl. db k = Some (v, dl) \<longrightarrow> dl = None \<and> (\<exists>l. v = VList l))"

definition zalist :: "redis_db \<Rightarrow> string \<Rightarrow> (string \<times> int) list" where
  "zalist db k = (case db k of Some (VZset z, _) \<Rightarrow> z | _ \<Rightarrow> [])"

definition halist :: "redis_db \<Rightarrow> string \<Rightarrow> (string \<times> string) list" where
  "halist db k = (case db k of Some (VHash h, _) \<Rightarrow> h | _ \<Rightarrow> [])"

definition lst :: "redis_db \<Rightarrow> string \<Rightarrow> string list" where
  "lst db k = (case db k of Some (VList l, _) \<Rightarrow> l | _ \<Rightarrow> [])"

abbreviation zs :: "redis_db \<Rightarrow> string \<Rightarrow> string \<rightharpoonup> int" where
  "zs db k \<equiv> map_of (zalist db k)"

abbreviation hs :: "redis_db \<Rightarrow> string \<Rightarrow> string \<rightharpoonup> string" where
  "hs db k \<equiv> map_of (halist db k)"

lemma zset_key_cases:
  assumes "zset_key db k"
  obtains (none) "db k = None" "zalist db k = []" "at now db k = None" "deadline_of now db k = None"
    | (some) z where "db k = Some (VZset z, None)" "distinct (map fst z)" "zalist db k = z" "at now db k = Some (VZset z)"
        "deadline_of now db k = None"
  using assms by (cases "db k") (auto simp: zset_key_def zalist_def at_def deadline_of_def)

lemma hash_key_cases:
  assumes "hash_key db k"
  obtains (none) "db k = None" "halist db k = []" "at now db k = None" "deadline_of now db k = None"
    | (some) h where "db k = Some (VHash h, None)" "distinct (map fst h)" "halist db k = h" "at now db k = Some (VHash h)"
        "deadline_of now db k = None"
  using assms by (cases "db k") (auto simp: hash_key_def halist_def at_def deadline_of_def)

lemma list_key_cases:
  assumes "list_key db k"
  obtains (none) "db k = None" "lst db k = []" "at now db k = None" "deadline_of now db k = None"
    | (some) l where "db k = Some (VList l, None)" "lst db k = l" "at now db k = Some (VList l)" "deadline_of now db k = None"
  using assms by (cases "db k") (auto simp: list_key_def lst_def at_def deadline_of_def)

lemma zalist_distinct: "zset_key db k \<Longrightarrow> distinct (map fst (zalist db k))"
  by (cases rule: zset_key_cases) auto

lemma zs_ran: "zset_key db k \<Longrightarrow> (m, s) \<in> set (zalist db k) \<longleftrightarrow> zs db k m = Some s"
  using zalist_distinct by (metis map_of_eq_Some_iff)

lemma zsorted_set: "set (zsorted z) = fst ` set z"
  by (force simp: zsorted_def)

lemma zsorted_distinct:
  assumes "distinct (map fst z)"
  shows "distinct (zsorted z)"
proof -
  have "map snd (map (\<lambda>(m, s). (s, m)) z) = map fst z" by (induction z) auto
  then have "mset (zsorted z) = mset (map fst z)" by (metis zsorted_def mset_map mset_sort)
  then show ?thesis using assms mset_eq_imp_distinct_iff by blast
qed

text \<open>A range by score has members with a score in the range, each once, and all of them if they fit.\<close>

lemma zrange_set:
  assumes "distinct (map fst z)"
  shows "distinct (zrange lo hi n z)"
    "m \<in> set (zrange lo hi n z) \<Longrightarrow> \<exists>s. map_of z m = Some s \<and> s \<le> hi"
    "map_of z m = Some s \<Longrightarrow> s \<le> hi \<Longrightarrow> m \<notin> set (zrange None hi n z) \<Longrightarrow> 0 \<le> n \<Longrightarrow> length (zrange None hi n z) = nat n"
    "0 \<le> n \<Longrightarrow> length (zrange lo hi n z) \<le> nat n"
proof -
  let ?f = "\<lambda>lo. filter (\<lambda>(m, s). (case lo of None \<Rightarrow> True | Some l \<Rightarrow> l \<le> s) \<and> s \<le> hi) z"
  have d: "distinct (map fst (?f lo))" for lo using assms by (simp add: distinct_map_filter)
  have z: "distinct (zsorted (?f lo))" for lo by (rule zsorted_distinct [OF d])
  show "distinct (zrange lo hi n z)" using z by (simp add: zrange_def Let_def distinct_take)
  show "\<exists>s. map_of z m = Some s \<and> s \<le> hi" if "m \<in> set (zrange lo hi n z)"
  proof -
    have "m \<in> set (zsorted (?f lo))" using that by (auto simp: zrange_def Let_def split: if_splits dest: in_set_takeD)
    then show ?thesis using assms by (auto simp: zsorted_set)
  qed
  show "length (zrange None hi n z) = nat n" if "map_of z m = Some s" "s \<le> hi" "m \<notin> set (zrange None hi n z)" "0 \<le> n"
  proof -
    have "(m, s) \<in> set (?f None)" using that(1,2) by (auto dest: map_of_SomeD)
    then have "m \<in> set (zsorted (?f None))" by (force simp: zsorted_set)
    then have "nat n < length (zsorted (?f None))" using that(3,4)
      by (cases "length (zsorted (?f None)) \<le> nat n") (simp_all add: zrange_def Let_def)
    then show ?thesis using that(4) by (simp add: zrange_def Let_def)
  qed
  show "length (zrange lo hi n z) \<le> nat n" if "0 \<le> n" using that by (simp add: zrange_def Let_def)
qed

subsection \<open>The commands on them\<close>

lemma put_other [simp]: "k' \<noteq> k \<Longrightarrow> put now k g v db k' = db k'"
  by (simp add: put_def)

lemma put_alists [simp]:
  "zalist (put now k False (VZset z) db) k = z" "zalist (put now k (z = []) (VZset z) db) k = z"
  "halist (put now k False (VHash h) db) k = h" "halist (put now k (h = []) (VHash h) db) k = h"
  "lst (put now k False (VList l) db) k = l" "lst (put now k (l = []) (VList l) db) k = l"
  by (simp_all add: put_def zalist_def halist_def lst_def)

lemma put_keys [simp]:
  "deadline_of now db k = None \<Longrightarrow> distinct (map fst z) \<Longrightarrow> zset_key (put now k g (VZset z) db) k"
  "deadline_of now db k = None \<Longrightarrow> distinct (map fst h) \<Longrightarrow> hash_key (put now k g (VHash h) db) k"
  "deadline_of now db k = None \<Longrightarrow> list_key (put now k g (VList l) db) k"
  by (auto simp: put_def zset_key_def hash_key_def list_key_def)

lemmas key_cases = zset_key_cases hash_key_cases list_key_cases
lemmas on_defs = on_str_def on_list_def on_zset_def on_hash_def on_set_def

text \<open>Each leaves other keys alone, and its own key of its kind.\<close>

lemma zadd_do:
  assumes "zset_key db k"
  obtains db' where "redis_do now (ZADD k s m) db = (count (zs db k m = None), db')" "zset_key db' k" "zs db' k = (zs db k)(m \<mapsto> s)"
    "\<And>k'. k' \<noteq> k \<Longrightarrow> db' k' = db k'"
proof (rule that [of "put now k False (VZset (AList.update m s (zalist db k))) db"])
  show "redis_do now (ZADD k s m) db = (count (zs db k m = None), put now k False (VZset (AList.update m s (zalist db k))) db)"
    "zset_key (put now k False (VZset (AList.update m s (zalist db k))) db) k"
    by (cases rule: zset_key_cases [OF assms, of now], auto simp: on_defs distinct_update)+
qed (simp_all add: update_conv')

lemma zrem_do:
  assumes "zset_key db k"
  obtains db' where "redis_do now (ZREM k m) db = (count (zs db k m \<noteq> None), db')" "zset_key db' k"
    "zs db' k = (zs db k)(m := None)" "\<And>k'. k' \<noteq> k \<Longrightarrow> db' k' = db k'"
proof (cases "zs db k m")
  case None
  then have "(zs db k)(m := None) = zs db k" by auto
  moreover have "redis_do now (ZREM k m) db = (RInt 0, db)"
    using None by (cases rule: zset_key_cases [OF assms, of now]) (auto simp: on_defs)
  ultimately show ?thesis using that [of db] assms None by simp
next
  case (Some v)
  let ?z = "AList.delete m (zalist db k)"
  show ?thesis
  proof (rule that [of "put now k (?z = []) (VZset ?z) db"])
    show "redis_do now (ZREM k m) db = (count (zs db k m \<noteq> None), put now k (?z = []) (VZset ?z) db)"
      "zset_key (put now k (?z = []) (VZset ?z) db) k"
      using Some by (cases rule: zset_key_cases [OF assms, of now], auto simp: on_defs Let_def distinct_keys_delete)+
  qed simp_all
qed

lemma hset_do:
  assumes "hash_key db k"
  obtains db' where "redis_do now (HSET k f v) db = (count (hs db k f = None), db')" "hash_key db' k" "hs db' k = (hs db k)(f \<mapsto> v)"
    "\<And>k'. k' \<noteq> k \<Longrightarrow> db' k' = db k'"
proof (rule that [of "put now k False (VHash (AList.update f v (halist db k))) db"])
  show "redis_do now (HSET k f v) db = (count (hs db k f = None), put now k False (VHash (AList.update f v (halist db k))) db)"
    "hash_key (put now k False (VHash (AList.update f v (halist db k))) db) k"
    by (cases rule: hash_key_cases [OF assms, of now], auto simp: on_defs distinct_update)+
qed (simp_all add: update_conv')

lemma hget_do:
  assumes "hash_key db k"
  shows "redis_do now (HGET k f) db = (case hs db k f of None \<Rightarrow> RNil | Some v \<Rightarrow> RBulk v, db)"
  by (cases rule: hash_key_cases [OF assms, of now]) (auto simp: on_defs)

lemma hdel_do:
  assumes "hash_key db k"
  obtains db' where "redis_do now (HDEL k f) db = (count (hs db k f \<noteq> None), db')" "hash_key db' k"
    "hs db' k = (hs db k)(f := None)" "\<And>k'. k' \<noteq> k \<Longrightarrow> db' k' = db k'"
proof (cases "hs db k f")
  case None
  then have "(hs db k)(f := None) = hs db k" by auto
  moreover have "redis_do now (HDEL k f) db = (RInt 0, db)"
    using None by (cases rule: hash_key_cases [OF assms, of now]) (auto simp: on_defs)
  ultimately show ?thesis using that [of db] assms None by simp
next
  case (Some v)
  let ?h = "AList.delete f (halist db k)"
  show ?thesis
  proof (rule that [of "put now k (?h = []) (VHash ?h) db"])
    show "redis_do now (HDEL k f) db = (count (hs db k f \<noteq> None), put now k (?h = []) (VHash ?h) db)"
      "hash_key (put now k (?h = []) (VHash ?h) db) k"
      using Some by (cases rule: hash_key_cases [OF assms, of now], auto simp: on_defs Let_def distinct_keys_delete)+
  qed simp_all
qed

lemma zrange_do:
  assumes "zset_key db k"
  shows "redis_do now (ZRANGEBYSCORE k lo hi n) db = (RArr (zrange lo hi n (zalist db k)), db)"
    "redis_do now (ZCARD k) db = (RInt (int (length (zalist db k))), db)"
  by (cases rule: zset_key_cases [OF assms, of now], auto simp: on_defs)+

lemma list_do:
  assumes "list_key db k"
  shows "redis_do now (LLEN k) db = (RInt (int (length (lst db k))), db)"
    "redis_do now (LRANGE k a b) db = (RArr (between a b (lst db k)), db)"
  by (cases rule: list_key_cases [OF assms, of now], auto simp: on_defs)+

lemma push_do:
  assumes "list_key db k"
  obtains db' where "redis_do now (LPUSH k v) db = (RInt (int (length (lst db k)) + 1), db')" "list_key db' k" "lst db' k = v # lst db k"
    "\<And>k'. k' \<noteq> k \<Longrightarrow> db' k' = db k'"
proof (rule that [of "put now k False (VList (v # lst db k)) db"])
  show "redis_do now (LPUSH k v) db = (RInt (int (length (lst db k)) + 1), put now k False (VList (v # lst db k)) db)"
    "list_key (put now k False (VList (v # lst db k)) db) k"
    by (cases rule: list_key_cases [OF assms, of now], auto simp: on_defs)+
qed simp_all

lemma rpush_do:
  assumes "list_key db k"
  obtains db' where "redis_do now (RPUSH k v) db = (RInt (int (length (lst db k)) + 1), db')" "list_key db' k" "lst db' k = lst db k @ [v]"
    "\<And>k'. k' \<noteq> k \<Longrightarrow> db' k' = db k'"
proof (rule that [of "put now k False (VList (lst db k @ [v])) db"])
  show "redis_do now (RPUSH k v) db = (RInt (int (length (lst db k)) + 1), put now k False (VList (lst db k @ [v])) db)"
    "list_key (put now k False (VList (lst db k @ [v])) db) k"
    by (cases rule: list_key_cases [OF assms, of now], auto simp: on_defs)+
qed simp_all

lemma lpop_do:
  assumes "list_key db k"
  obtains db' where "redis_do now (LPOP k) db = (case lst db k of [] \<Rightarrow> RNil | v # _ \<Rightarrow> RBulk v, db')" "list_key db' k" "lst db' k = tl (lst db k)"
    "\<And>k'. k' \<noteq> k \<Longrightarrow> db' k' = db k'"
proof (cases "lst db k")
  case Nil
  then have "redis_do now (LPOP k) db = (RNil, db)"
    by (cases rule: list_key_cases [OF assms, of now]) (auto simp: on_defs)
  then show ?thesis using that [of db] assms Nil by simp
next
  case (Cons v l)
  show ?thesis
  proof (rule that [of "put now k (l = []) (VList l) db"])
    show "redis_do now (LPOP k) db = (case lst db k of [] \<Rightarrow> RNil | v # _ \<Rightarrow> RBulk v, put now k (l = []) (VList l) db)"
      "list_key (put now k (l = []) (VList l) db) k"
      using Cons by (cases rule: list_key_cases [OF assms, of now], auto simp: on_defs)+
  qed (simp_all add: Cons)
qed

lemma sorted_le_last: "sorted xs \<Longrightarrow> x \<in> set xs \<Longrightarrow> x \<le> last xs"
  by (induction xs) auto

lemma zsorted_last:
  assumes "z \<noteq> []" "distinct (map fst z)"
  obtains s where "map_of z (last (zsorted z)) = Some s" "\<forall>m' s'. map_of z m' = Some s' \<longrightarrow> s' \<le> s"
proof -
  let ?xs = "sort (map (\<lambda>(m, s). (s, m)) z)"
  have ne: "?xs \<noteq> []" using assms(1) by (metis length_0_conv length_map length_sort)
  obtain s m where l: "last ?xs = (s, m)" by (cases "last ?xs")
  have "(s, m) \<in> set ?xs" using last_in_set [OF ne] l by simp
  then have "(m, s) \<in> set z" by auto
  then have m: "map_of z m = Some s" using assms(2) by simp
  have "s' \<le> s" if "map_of z m' = Some s'" for m' s'
  proof -
    have "(s', m') \<in> set ?xs" using map_of_SomeD [OF that] by force
    then have "(s', m') \<le> last ?xs" by (rule sorted_le_last [OF sorted_sort])
    then show ?thesis using l by (auto simp: less_eq_prod_def)
  qed
  moreover have "last (zsorted z) = m" using ne l by (simp add: zsorted_def last_map)
  ultimately show thesis using that m by blast
qed

lemma zpopmax_do:
  assumes "zset_key db k"
  obtains (none) "redis_do now (ZPOPMAX k) db = (RArr [], db)" "zs db k = Map.empty"
    | (some) m s db' where "redis_do now (ZPOPMAX k) db = (RArr [m], db')" "zs db k m = Some s" "\<And>m' s'. zs db k m' = Some s' \<Longrightarrow> s' \<le> s"
        "zset_key db' k" "zs db' k = (zs db k)(m := None)" "\<And>k'. k' \<noteq> k \<Longrightarrow> db' k' = db k'"
proof (cases "zalist db k = []")
  case True
  then have "redis_do now (ZPOPMAX k) db = (RArr [], db)"
    by (cases rule: zset_key_cases [OF assms, of now]) (auto simp: on_defs)
  then show ?thesis using none True by simp
next
  case False
  let ?m = "last (zsorted (zalist db k))" and ?z = "AList.delete (last (zsorted (zalist db k))) (zalist db k)"
  obtain s where s: "zs db k ?m = Some s" "\<forall>m' s'. zs db k m' = Some s' \<longrightarrow> s' \<le> s"
    by (rule zsorted_last [OF False zalist_distinct [OF assms]])
  show ?thesis
  proof (rule some [of ?m "put now k (?z = []) (VZset ?z) db" s])
    show "redis_do now (ZPOPMAX k) db = (RArr [?m], put now k (?z = []) (VZset ?z) db)"
      "zset_key (put now k (?z = []) (VZset ?z) db) k"
      using False by (cases rule: zset_key_cases [OF assms, of now], auto simp: on_defs Let_def distinct_keys_delete)+
  qed (use s in simp_all)
qed

text \<open>From here on the commands are used by these rules; on a concrete database they are computed.\<close>

lemmas redis_do_simps = redis_do.simps

declare redis_do.simps [simp del]

end
