(* ===== verification/Delay_Queue.thy ===== *)
theory Delay_Queue
  imports Redis
begin

text \<open>
  \<open>DelayQueue\<close> of \<open>delay_queue.go\<close> and the schedulers of \<open>scheduler.go\<close>: tasks with a time of execution in
  a sorted set, moved to a second one while they are processed, with their bodies in a hash. The Lua
  scripts are part of the source and are modelled as they stand; each result list that is empty is the
  \<open>false\<close> of the script, which the client reads as a nil reply.

  \<open>J\<close> is the JSON form of a task, \<open>X\<close> the helpers of go-toolbox. A handler acts on the world \<open>d\<close>, which
  contains the server. The worker pool is the list of the tasks it has taken; whether it takes one is
  an argument. A consumer goroutine is at its \<open>select\<close>, past it on its way out, or gone. Scores are
  milliseconds, as \<open>float64\<close> exact below \<open>2\<^sup>5\<^sup>3\<close>. Logging is left out.
\<close>

definition ErrDelayQueueClosed :: go_error where "ErrDelayQueueClosed = FmtError ''delay queue is closed''"
definition ErrDelayQueueRunning :: go_error where "ErrDelayQueueRunning = FmtError ''delay queue consumer is already running''"
definition ErrInvalidDelayTask :: go_error where
  "ErrInvalidDelayTask = FmtError ''invalid delay task: key required and execute time required''"
definition ErrDelayTaskNotFound :: go_error where "ErrDelayTaskNotFound = FmtError ''delay task not found''"

record DelayQueueConfig =
  dqc_Namespace :: string
  dqc_PollInterval :: duration
  dqc_BatchSize :: int
  dqc_Concurrency :: int
  dqc_MaxRetries :: int
  dqc_RetryDelay :: duration
  dqc_VisibilityTimeout :: duration
  dqc_Ordered :: bool
  dqc_MaxReadySize :: int

definition DefaultDelayQueueConfig :: DelayQueueConfig where
  "DefaultDelayQueueConfig =
     \<lparr>dqc_Namespace = ''delayq'', dqc_PollInterval = second, dqc_BatchSize = 10, dqc_Concurrency = 5, dqc_MaxRetries = 3,
      dqc_RetryDelay = 5 * second, dqc_VisibilityTimeout = 300 * second, dqc_Ordered = False, dqc_MaxReadySize = 10000\<rparr>"

text \<open>A task; the zero time is \<^const>\<open>None\<close>. The envelope stored in Redis has the same fields.\<close>

record 'a DelayTask =
  dt_Key :: string
  dt_Data :: 'a
  dt_ExecuteAt :: "time option"
  dt_RetryCount :: int

record 'a task_json =
  dj_Marshal :: "'a DelayTask \<Rightarrow> string go_result"
  dj_Unmarshal :: "string \<Rightarrow> 'a DelayTask go_result"

datatype consumer_state = CRunning | CLeaving | CGone

record 'a consumer =
  co_queue :: string
  co_cancelled :: bool
  co_state :: consumer_state
  co_pool :: "'a DelayTask list"

record 'a DelayQueue =
  dq_config :: DelayQueueConfig
  dq_closed :: bool
  dq_consumers :: "(string, nat) go_map"
  dq_goroutines :: "'a consumer list"

definition dq_merge_config :: "mathx \<Rightarrow> DelayQueueConfig \<Rightarrow> DelayQueueConfig" where
  "dq_merge_config X c =
     (let cfg = DefaultDelayQueueConfig
      in cfg\<lparr>dqc_Namespace := IfNotEmpty X (dqc_Namespace c) (dqc_Namespace cfg),
             dqc_PollInterval := IfNotZero X (dqc_PollInterval c) (dqc_PollInterval cfg),
             dqc_BatchSize := IfLeZero X (dqc_BatchSize c) (dqc_BatchSize cfg),
             dqc_Concurrency := IfLeZero X (dqc_Concurrency c) (dqc_Concurrency cfg),
             dqc_MaxRetries := IfLeZero X (dqc_MaxRetries c) (dqc_MaxRetries cfg),
             dqc_RetryDelay := IfNotZero X (dqc_RetryDelay c) (dqc_RetryDelay cfg),
             dqc_VisibilityTimeout := IfNotZero X (dqc_VisibilityTimeout c) (dqc_VisibilityTimeout cfg),
             dqc_Ordered := dqc_Ordered c,
             dqc_MaxReadySize := (if dqc_MaxReadySize c \<noteq> 0 then dqc_MaxReadySize c else dqc_MaxReadySize cfg)\<rparr>)"

definition NewDelayQueue :: "mathx \<Rightarrow> DelayQueueConfig option \<Rightarrow> 'a DelayQueue" where
  "NewDelayQueue X config =
     \<lparr>dq_config = (case config of None \<Rightarrow> DefaultDelayQueueConfig | Some c \<Rightarrow> dq_merge_config X c),
      dq_closed = False, dq_consumers = [], dq_goroutines = []\<rparr>"

section \<open>Keys and scripts\<close>

definition zsetKey :: "'a DelayQueue \<Rightarrow> string \<Rightarrow> string" where
  "zsetKey q queueName = dqc_Namespace (dq_config q) @ '':zset:'' @ queueName"

definition hashKey :: "'a DelayQueue \<Rightarrow> string \<Rightarrow> string" where
  "hashKey q queueName = dqc_Namespace (dq_config q) @ '':hash:'' @ queueName"

definition deadKey :: "'a DelayQueue \<Rightarrow> string \<Rightarrow> string" where
  "deadKey q queueName = dqc_Namespace (dq_config q) @ '':dead:'' @ queueName"

definition processingKey :: "'a DelayQueue \<Rightarrow> string \<Rightarrow> string" where
  "processingKey q queueName = dqc_Namespace (dq_config q) @ '':processing:'' @ queueName"

definition enqueueLuaScript :: "string \<Rightarrow> string \<Rightarrow> int \<Rightarrow> string \<Rightarrow> string \<Rightarrow> int lua" where
  "enqueueLuaScript zk hk score member taskData =
     Call (ZADD zk score member) (\<lambda>_. Call (HSET hk member taskData) (\<lambda>_. Return 1))"

text \<open>The loop that moves tasks from ready to processing and collects their bodies.\<close>

fun lua_take :: "string \<Rightarrow> string \<Rightarrow> string \<Rightarrow> int \<Rightarrow> string list \<Rightarrow> string list \<Rightarrow> string list lua" where
  "lua_take zk pk hk visibleAt [] tasks = Return tasks"
| "lua_take zk pk hk visibleAt (member # results) tasks =
     Call (HGET hk member) (\<lambda>taskData.
     Call (ZREM zk member) (\<lambda>_.
     Call (ZADD pk visibleAt member) (\<lambda>_.
     lua_take zk pk hk visibleAt results
       (case taskData of RBulk s \<Rightarrow> tasks @ [s] | _ \<Rightarrow> tasks))))"

text \<open>The loop that moves tasks back, before the rest of its script.\<close>

fun lua_requeue :: "string \<Rightarrow> string \<Rightarrow> int \<Rightarrow> string list \<Rightarrow> 'r lua \<Rightarrow> 'r lua" where
  "lua_requeue pk zk now [] rest = rest"
| "lua_requeue pk zk now (member # stale) rest =
     Call (ZREM pk member) (\<lambda>_.
     Call (ZADD zk now member) (\<lambda>_.
     lua_requeue pk zk now stale rest))"

definition dequeueLuaScript :: "string \<Rightarrow> string \<Rightarrow> string \<Rightarrow> int \<Rightarrow> int \<Rightarrow> int \<Rightarrow> string list lua" where
  "dequeueLuaScript zk pk hk now batchSize visibleAt =
     Call (ZRANGEBYSCORE zk None now batchSize) (\<lambda>results.
     lua_take zk pk hk visibleAt (arr_of results) [])"

definition ackLuaScript :: "string \<Rightarrow> string \<Rightarrow> string \<Rightarrow> int lua" where
  "ackLuaScript pk hk member =
     Call (ZREM pk member) (\<lambda>removed.
     if 0 < int_of removed then Call (HDEL hk member) (\<lambda>_. Return (int_of removed)) else Return (int_of removed))"

definition requeueStaleLuaScript :: "string \<Rightarrow> string \<Rightarrow> int \<Rightarrow> int \<Rightarrow> int lua" where
  "requeueStaleLuaScript pk zk now batchSize =
     Call (ZRANGEBYSCORE pk None now batchSize) (\<lambda>results.
     lua_requeue pk zk now (arr_of results) (Return (int (length (arr_of results)))))"

definition pollLuaScript :: "string \<Rightarrow> string \<Rightarrow> string \<Rightarrow> int \<Rightarrow> int \<Rightarrow> int \<Rightarrow> string list lua" where
  "pollLuaScript zk pk hk now batchSize visibleAt =
     Call (ZRANGEBYSCORE pk None now batchSize) (\<lambda>stale.
     lua_requeue pk zk now (arr_of stale)
       (Call (ZRANGEBYSCORE zk None now batchSize) (\<lambda>results.
        lua_take zk pk hk visibleAt (arr_of results) [])))"

definition cancelLuaScript :: "string \<Rightarrow> string \<Rightarrow> string \<Rightarrow> string \<Rightarrow> int lua" where
  "cancelLuaScript zk pk hk member =
     Call (ZREM zk member) (\<lambda>a.
     Call (ZREM pk member) (\<lambda>b.
     Call (HDEL hk member) (\<lambda>_. Return (int_of a + int_of b))))"

section \<open>Operations\<close>

definition unix_milli :: "time \<Rightarrow> int" where
  "unix_milli t = t div 1000000"

definition EnqueueAt ::
  "'a task_json \<Rightarrow> 'd redis \<Rightarrow> time \<Rightarrow> 'a DelayQueue \<Rightarrow> string \<Rightarrow> 'a DelayTask option \<Rightarrow> 'd \<Rightarrow> go_error option \<times> 'd" where
  "EnqueueAt J R now q queueName task d =
     (if dq_closed q then (Some ErrDelayQueueClosed, d)
      else (case task of
              None \<Rightarrow> (Some ErrInvalidDelayTask, d)
            | Some t \<Rightarrow>
                (case dt_ExecuteAt t of
                   None \<Rightarrow> (Some ErrInvalidDelayTask, d)
                 | Some executeAt \<Rightarrow>
                     if dt_Key t = [] then (Some ErrInvalidDelayTask, d)
                     else (case dj_Marshal J t of
                             Inl err \<Rightarrow> (Some (Wrapped ''marshal delay task failed'' err), d)
                           | Inr taskData \<Rightarrow>
                               (case eval R now (enqueueLuaScript (zsetKey q queueName) (hashKey q queueName)
                                        (unix_milli executeAt) (dt_Key t) taskData) d of
                                  (Inl err, d') \<Rightarrow> (Some (Wrapped ''enqueue delay task failed'' err), d')
                                | (Inr _, d') \<Rightarrow> (None, d'))))))"

definition EnqueueWithDelay ::
  "'a task_json \<Rightarrow> 'd redis \<Rightarrow> time \<Rightarrow> 'a DelayQueue \<Rightarrow> string \<Rightarrow> 'a DelayTask option \<Rightarrow> duration \<Rightarrow> 'd \<Rightarrow> go_error option \<times> 'd" where
  "EnqueueWithDelay J R now q queueName task delay d =
     (case task of
        None \<Rightarrow> (Some ErrInvalidDelayTask, d)
      | Some t \<Rightarrow> EnqueueAt J R now q queueName (Some (t\<lparr>dt_ExecuteAt := Some (now + delay)\<rparr>)) d)"

definition dq_Cancel :: "'d redis \<Rightarrow> time \<Rightarrow> 'a DelayQueue \<Rightarrow> string \<Rightarrow> string \<Rightarrow> 'd \<Rightarrow> bool go_result \<times> 'd" where
  "dq_Cancel R now q queueName key d =
     (if dq_closed q then (Inl ErrDelayQueueClosed, d)
      else (case eval R now (cancelLuaScript (zsetKey q queueName) (processingKey q queueName) (hashKey q queueName) key) d of
              (Inl err, d') \<Rightarrow> (Inl (Wrapped ''cancel delay task failed'' err), d')
            | (Inr result, d') \<Rightarrow> (Inr (0 < result), d')))"

definition ReadyLength :: "'d redis \<Rightarrow> time \<Rightarrow> 'a DelayQueue \<Rightarrow> string \<Rightarrow> 'd \<Rightarrow> int go_result \<times> 'd" where
  "ReadyLength R now q queueName d = client_int R now (ZCARD (zsetKey q queueName)) d"

definition dq_Length :: "'d redis \<Rightarrow> time \<Rightarrow> 'a DelayQueue \<Rightarrow> string \<Rightarrow> 'd \<Rightarrow> int go_result \<times> 'd" where
  "dq_Length R now q queueName d = client_int R now (ZCARD (zsetKey q queueName)) d"

definition ProcessingLength :: "'d redis \<Rightarrow> time \<Rightarrow> 'a DelayQueue \<Rightarrow> string \<Rightarrow> 'd \<Rightarrow> int go_result \<times> 'd" where
  "ProcessingLength R now q queueName d = client_int R now (ZCARD (processingKey q queueName)) d"

definition DeadLength :: "'d redis \<Rightarrow> time \<Rightarrow> 'a DelayQueue \<Rightarrow> string \<Rightarrow> 'd \<Rightarrow> int go_result \<times> 'd" where
  "DeadLength R now q queueName d = client_int R now (LLEN (deadKey q queueName)) d"

definition GetTask :: "'a task_json \<Rightarrow> 'd redis \<Rightarrow> time \<Rightarrow> 'a DelayQueue \<Rightarrow> string \<Rightarrow> string \<Rightarrow> 'd \<Rightarrow> 'a DelayTask go_result \<times> 'd" where
  "GetTask J R now q queueName key d =
     (case client_str R now (HGET (hashKey q queueName) key) d of
        (Inl err, d') \<Rightarrow> (Inl (if errors_Is err RedisNil then ErrDelayTaskNotFound else err), d')
      | (Inr data, d') \<Rightarrow>
          (case dj_Unmarshal J data of
             Inl err \<Rightarrow> (Inl (Wrapped ''unmarshal delay task failed'' err), d')
           | Inr t \<Rightarrow> (Inr t, d')))"

text \<open>The loops over JSON texts skip those that cannot be read.\<close>

definition dq_parse :: "'a task_json \<Rightarrow> string list \<Rightarrow> 'a DelayTask list" where
  "dq_parse J parts = concat (map (\<lambda>p. case dj_Unmarshal J p of Inl err \<Rightarrow> [] | Inr t \<Rightarrow> [t]) parts)"

definition GetDeadTasks ::
  "mathx \<Rightarrow> 'a task_json \<Rightarrow> 'd redis \<Rightarrow> time \<Rightarrow> 'a DelayQueue \<Rightarrow> string \<Rightarrow> int \<Rightarrow> int \<Rightarrow> 'd \<Rightarrow> 'a DelayTask list go_result \<times> 'd" where
  "GetDeadTasks X J R now q queueName offset limit0 d =
     (let limit = IfLeZero X limit0 50 in
      (case client_arr R now (LRANGE (deadKey q queueName) offset (offset + limit - 1)) d of
         (Inl err, d') \<Rightarrow> (Inl err, d')
       | (Inr result, d') \<Rightarrow> (Inr (dq_parse J result), d')))"

definition dequeueExpired :: "'a task_json \<Rightarrow> 'd redis \<Rightarrow> time \<Rightarrow> 'a DelayQueue \<Rightarrow> string \<Rightarrow> 'd \<Rightarrow> 'a DelayTask list go_result \<times> 'd" where
  "dequeueExpired J R now q queueName d =
     (case eval R now (dequeueLuaScript (zsetKey q queueName) (processingKey q queueName) (hashKey q queueName) (unix_milli now)
              (dqc_BatchSize (dq_config q)) (unix_milli (now + dqc_VisibilityTimeout (dq_config q)))) d of
        (Inl err, d') \<Rightarrow> (if errors_Is err RedisNil then Inr [] else Inl err, d')
      | (Inr parts, d') \<Rightarrow> (Inr (dq_parse J parts), d'))"

definition dq_ack :: "'d redis \<Rightarrow> time \<Rightarrow> 'a DelayQueue \<Rightarrow> string \<Rightarrow> string \<Rightarrow> 'd \<Rightarrow> go_error option \<times> 'd" where
  "dq_ack R now q queueName taskKey d =
     (case eval R now (ackLuaScript (processingKey q queueName) (hashKey q queueName) taskKey) d of
        (Inl err, d') \<Rightarrow> (Some (Wrapped ''ack delay task failed'' err), d')
      | (Inr removed, d') \<Rightarrow> (None, d'))"

definition requeueStale :: "'d redis \<Rightarrow> time \<Rightarrow> 'a DelayQueue \<Rightarrow> string \<Rightarrow> 'd \<Rightarrow> int go_result \<times> 'd" where
  "requeueStale R now q queueName d =
     (case eval R now (requeueStaleLuaScript (processingKey q queueName) (zsetKey q queueName) (unix_milli now)
              (dqc_BatchSize (dq_config q))) d of
        (Inl err, d') \<Rightarrow> (Inl (Wrapped ''requeue stale tasks failed'' err), d')
      | (Inr n, d') \<Rightarrow> (Inr n, d'))"

definition pollExpired :: "'a task_json \<Rightarrow> 'd redis \<Rightarrow> time \<Rightarrow> 'a DelayQueue \<Rightarrow> string \<Rightarrow> 'd \<Rightarrow> 'a DelayTask list go_result \<times> 'd" where
  "pollExpired J R now q queueName d =
     (case eval R now (pollLuaScript (zsetKey q queueName) (processingKey q queueName) (hashKey q queueName) (unix_milli now)
              (dqc_BatchSize (dq_config q)) (unix_milli (now + dqc_VisibilityTimeout (dq_config q)))) d of
        (Inl err, d') \<Rightarrow> (if errors_Is err RedisNil then Inr [] else Inl (Wrapped ''poll expired tasks failed'' err), d')
      | (Inr arr, d') \<Rightarrow> (Inr (dq_parse J arr), d'))"

section \<open>Handling a task\<close>

definition reEnqueue :: "'a task_json \<Rightarrow> 'd redis \<Rightarrow> time \<Rightarrow> 'a DelayQueue \<Rightarrow> string \<Rightarrow> 'a DelayTask \<Rightarrow> 'd \<Rightarrow> go_error option \<times> 'd" where
  "reEnqueue J R now q queueName task d = EnqueueAt J R now q queueName (Some (task\<lparr>dt_ExecuteAt := Some now\<rparr>)) d"

definition reEnqueueWithDelay ::
  "'a task_json \<Rightarrow> 'd redis \<Rightarrow> time \<Rightarrow> 'a DelayQueue \<Rightarrow> string \<Rightarrow> 'a DelayTask \<Rightarrow> duration \<Rightarrow> 'd \<Rightarrow> go_error option \<times> 'd" where
  "reEnqueueWithDelay J R now q queueName task delay d =
     EnqueueAt J R now q queueName (Some (task\<lparr>dt_ExecuteAt := Some (now + delay)\<rparr>)) d"

definition moveToDead :: "'a task_json \<Rightarrow> 'd redis \<Rightarrow> time \<Rightarrow> 'a DelayQueue \<Rightarrow> string \<Rightarrow> 'a DelayTask \<Rightarrow> 'd \<Rightarrow> 'd" where
  "moveToDead J R now q queueName task d =
     (case dj_Marshal J task of
        Inl err \<Rightarrow> d
      | Inr data \<Rightarrow> snd (client_err R now (LPUSH (deadKey q queueName) data) d))"

text \<open>The factor \<open>1 << uint(n)\<close> as a \<open>Duration\<close>.\<close>

definition shift1 :: "int \<Rightarrow> duration" where
  "shift1 n = (if n < 0 then 0 else wrap64 (2 ^ nat n))"

type_synonym ('a, 'd) task_handler = "'a DelayTask \<Rightarrow> 'd \<Rightarrow> go_error option \<times> 'd"

text \<open>\<open>now\<close> is the clock after the handler has returned; \<open>q\<close> is the queue at that time.\<close>

definition handleTask ::
  "'a task_json \<Rightarrow> 'd redis \<Rightarrow> time \<Rightarrow> 'a DelayQueue \<Rightarrow> string \<Rightarrow> ('a, 'd) task_handler \<Rightarrow> int \<Rightarrow> duration \<Rightarrow> 'a DelayTask \<Rightarrow> 'd \<Rightarrow> 'd" where
  "handleTask J R now q queueName h maxRetries retryDelay task d =
     (case h task d of
        (Some err, d1) \<Rightarrow>
          (let d2 = snd (dq_ack R now q queueName (dt_Key task) d1)
           in if maxRetries \<le> dt_RetryCount task then moveToDead J R now q queueName task d2
              else
                (let task' = task\<lparr>dt_RetryCount := wrap64 (dt_RetryCount task + 1)\<rparr>;
                     delay = wrap64 (retryDelay * shift1 (dt_RetryCount task'))
                 in snd (reEnqueueWithDelay J R now q queueName task' delay d2)))
      | (None, d1) \<Rightarrow> snd (dq_ack R now q queueName (dt_Key task) d1))"

text \<open>
  One poll. In ordered mode the tasks are handled in turn until the context is done, at the times
  \<open>tm\<close>; otherwise the pool takes them or not, and a task it does not take is enqueued again. The
  result has the tasks the pool took.
\<close>

fun dq_ordered ::
  "'a task_json \<Rightarrow> 'd redis \<Rightarrow> (nat \<Rightarrow> time) \<Rightarrow> 'a DelayQueue \<Rightarrow> string \<Rightarrow> ('a, 'd) task_handler \<Rightarrow> int \<Rightarrow> duration \<Rightarrow>
   (nat \<Rightarrow> bool) \<Rightarrow> nat \<Rightarrow> 'a DelayTask list \<Rightarrow> 'd \<Rightarrow> 'd" where
  "dq_ordered J R tm q queueName h maxRetries retryDelay ctxDone i [] d = d"
| "dq_ordered J R tm q queueName h maxRetries retryDelay ctxDone i (task # tasks) d =
     (if ctxDone i then d
      else dq_ordered J R tm q queueName h maxRetries retryDelay ctxDone (Suc i) tasks
             (handleTask J R (tm i) q queueName h maxRetries retryDelay task d))"

fun dq_submit ::
  "'a task_json \<Rightarrow> 'd redis \<Rightarrow> (nat \<Rightarrow> time) \<Rightarrow> 'a DelayQueue \<Rightarrow> string \<Rightarrow> (nat \<Rightarrow> bool) \<Rightarrow> nat \<Rightarrow> 'a DelayTask list \<Rightarrow> 'd \<Rightarrow>
   'a DelayTask list \<times> 'd" where
  "dq_submit J R tm q queueName accept i [] d = ([], d)"
| "dq_submit J R tm q queueName accept i (task # tasks) d =
     (if accept i
      then (case dq_submit J R tm q queueName accept (Suc i) tasks d of (ts, d') \<Rightarrow> (task # ts, d'))
      else
        (let d1 = snd (dq_ack R (tm i) q queueName (dt_Key task) d);
             d2 = snd (reEnqueue J R (tm i) q queueName task d1)
         in dq_submit J R tm q queueName accept (Suc i) tasks d2))"

definition pollOnce ::
  "'a task_json \<Rightarrow> 'd redis \<Rightarrow> time \<Rightarrow> (nat \<Rightarrow> time) \<Rightarrow> 'a DelayQueue \<Rightarrow> string \<Rightarrow> ('a, 'd) task_handler \<Rightarrow> int \<Rightarrow> duration \<Rightarrow>
   (nat \<Rightarrow> bool) \<Rightarrow> (nat \<Rightarrow> bool) \<Rightarrow> 'd \<Rightarrow> 'a DelayTask list \<times> 'd" where
  "pollOnce J R now tm q queueName h maxRetries retryDelay ctxDone accept d =
     (let d0 = (if 0 < dqc_MaxReadySize (dq_config q) then snd (ReadyLength R now q queueName d) else d)
      in (case pollExpired J R now q queueName d0 of
            (Inl err, d1) \<Rightarrow> ([], d1)
          | (Inr tasks, d1) \<Rightarrow>
              if dqc_Ordered (dq_config q)
              then ([], dq_ordered J R tm q queueName h maxRetries retryDelay ctxDone 0 tasks d1)
              else dq_submit J R tm q queueName accept 0 tasks d1))"

section \<open>Consumers\<close>

definition dq_start_check :: "'a DelayQueue \<Rightarrow> string \<Rightarrow> go_error option" where
  "dq_start_check q queueName =
     (if dq_closed q then Some ErrDelayQueueClosed
      else if map_of (dq_consumers q) queueName \<noteq> None then Some ErrDelayQueueRunning
      else None)"

definition dq_start_enter :: "string \<Rightarrow> 'a DelayQueue \<Rightarrow> go_error option \<times> 'a DelayQueue" where
  "dq_start_enter queueName q =
     (if dq_closed q then (Some ErrDelayQueueClosed, q)
      else (None, q\<lparr>dq_consumers := AList.update queueName (length (dq_goroutines q)) (dq_consumers q),
                    dq_goroutines := dq_goroutines q @ [\<lparr>co_queue = queueName, co_cancelled = False, co_state = CRunning, co_pool = []\<rparr>]\<rparr>))"

record DelayConsumerOptions =
  OverrideMaxRetries :: int
  OverrideRetryDelay :: duration

definition dq_options :: "DelayConsumerOptions option \<Rightarrow> 'a DelayQueue \<Rightarrow> int \<times> duration" where
  "dq_options opts q =
     (let opt = (case opts of None \<Rightarrow> \<lparr>OverrideMaxRetries = 0, OverrideRetryDelay = 0\<rparr> | Some o1 \<Rightarrow> o1)
      in (if 0 < OverrideMaxRetries opt then OverrideMaxRetries opt else dqc_MaxRetries (dq_config q),
          if 0 < OverrideRetryDelay opt then OverrideRetryDelay opt else dqc_RetryDelay (dq_config q)))"

text \<open>\<open>StartConsumer\<close> with nothing between its two locks.\<close>

definition StartConsumer :: "string \<Rightarrow> 'a DelayQueue \<Rightarrow> go_error option \<times> 'a DelayQueue" where
  "StartConsumer queueName q =
     (case dq_start_check q queueName of Some err \<Rightarrow> (Some err, q) | None \<Rightarrow> dq_start_enter queueName q)"

definition co_update :: "nat \<Rightarrow> ('a consumer \<Rightarrow> 'a consumer) \<Rightarrow> 'a DelayQueue \<Rightarrow> 'a DelayQueue" where
  "co_update i f q = q\<lparr>dq_goroutines := (dq_goroutines q)[i := f (dq_goroutines q ! i)]\<rparr>"

text \<open>The steps of the goroutine with number \<open>i\<close>: a poll at a tick, a task of its pool, the end of its loop
  with the deferred deletion, and the end of the goroutine, which waits for the pool.\<close>

definition co_poll ::
  "'a task_json \<Rightarrow> 'd redis \<Rightarrow> time \<Rightarrow> (nat \<Rightarrow> time) \<Rightarrow> ('a, 'd) task_handler \<Rightarrow> int \<Rightarrow> duration \<Rightarrow> (nat \<Rightarrow> bool) \<Rightarrow> (nat \<Rightarrow> bool) \<Rightarrow>
   nat \<Rightarrow> 'a DelayQueue \<Rightarrow> 'd \<Rightarrow> 'a DelayQueue \<times> 'd" where
  "co_poll J R now tm h maxRetries retryDelay ctxDone accept i q d =
     (if i < length (dq_goroutines q) \<and> co_state (dq_goroutines q ! i) = CRunning
      then (case pollOnce J R now tm q (co_queue (dq_goroutines q ! i)) h maxRetries retryDelay ctxDone accept d of
              (ts, d') \<Rightarrow> (co_update i (\<lambda>c. c\<lparr>co_pool := co_pool c @ ts\<rparr>) q, d'))
      else (q, d))"

definition co_task ::
  "'a task_json \<Rightarrow> 'd redis \<Rightarrow> time \<Rightarrow> ('a, 'd) task_handler \<Rightarrow> int \<Rightarrow> duration \<Rightarrow> nat \<Rightarrow> 'a DelayQueue \<Rightarrow> 'd \<Rightarrow> 'a DelayQueue \<times> 'd" where
  "co_task J R now h maxRetries retryDelay i q d =
     (if i < length (dq_goroutines q)
      then (case co_pool (dq_goroutines q ! i) of
              [] \<Rightarrow> (q, d)
            | task # ts \<Rightarrow>
                (co_update i (\<lambda>c. c\<lparr>co_pool := ts\<rparr>) q,
                 handleTask J R now q (co_queue (dq_goroutines q ! i)) h maxRetries retryDelay task d))
      else (q, d))"

definition co_leave :: "nat \<Rightarrow> 'a DelayQueue \<Rightarrow> 'a DelayQueue" where
  "co_leave i q =
     (if i < length (dq_goroutines q) \<and> co_state (dq_goroutines q ! i) = CRunning \<and> co_cancelled (dq_goroutines q ! i)
      then (co_update i (\<lambda>c. c\<lparr>co_state := CLeaving\<rparr>) q)\<lparr>dq_consumers := AList.delete (co_queue (dq_goroutines q ! i)) (dq_consumers q)\<rparr>
      else q)"

definition co_end :: "nat \<Rightarrow> 'a DelayQueue \<Rightarrow> 'a DelayQueue" where
  "co_end i q =
     (if i < length (dq_goroutines q) \<and> co_state (dq_goroutines q ! i) = CLeaving \<and> co_pool (dq_goroutines q ! i) = []
      then co_update i (\<lambda>c. c\<lparr>co_state := CGone\<rparr>) q
      else q)"

definition StopConsumer :: "string \<Rightarrow> 'a DelayQueue \<Rightarrow> 'a DelayQueue" where
  "StopConsumer queueName q =
     (case map_of (dq_consumers q) queueName of
        None \<Rightarrow> q
      | Some i \<Rightarrow> co_update i (\<lambda>c. c\<lparr>co_cancelled := True\<rparr>) (q\<lparr>dq_consumers := AList.delete queueName (dq_consumers q)\<rparr>))"

text \<open>\<open>Stop\<close> up to the wait for the goroutines, and whether the wait is over.\<close>

definition dq_Stop_begin :: "'a DelayQueue \<Rightarrow> 'a DelayQueue" where
  "dq_Stop_begin q =
     (if dq_closed q then q
      else (fold (\<lambda>(name, i). co_update i (\<lambda>c. c\<lparr>co_cancelled := True\<rparr>)) (dq_consumers q) (q\<lparr>dq_closed := True\<rparr>))\<lparr>dq_consumers := []\<rparr>)"

definition dq_Stop_returns :: "'a DelayQueue \<Rightarrow> bool" where
  "dq_Stop_returns q \<longleftrightarrow> list_all (\<lambda>c. co_state c = CGone) (dq_goroutines q)"

section \<open>Schedulers\<close>

record SchedulerConfig = DelayQueueConfig +
  sc_QueueName :: string

type_synonym SchedulerOption = "SchedulerConfig \<Rightarrow> SchedulerConfig"

definition WithSchedulerQueueName :: "string \<Rightarrow> SchedulerOption" where "WithSchedulerQueueName name c = c\<lparr>sc_QueueName := name\<rparr>"
definition WithSchedulerNamespace :: "string \<Rightarrow> SchedulerOption" where "WithSchedulerNamespace ns c = c\<lparr>dqc_Namespace := ns\<rparr>"
definition WithSchedulerPollInterval :: "duration \<Rightarrow> SchedulerOption" where "WithSchedulerPollInterval d c = c\<lparr>dqc_PollInterval := d\<rparr>"
definition WithSchedulerBatchSize :: "int \<Rightarrow> SchedulerOption" where "WithSchedulerBatchSize n c = c\<lparr>dqc_BatchSize := n\<rparr>"
definition WithSchedulerConcurrency :: "int \<Rightarrow> SchedulerOption" where "WithSchedulerConcurrency n c = c\<lparr>dqc_Concurrency := n\<rparr>"
definition WithSchedulerMaxRetries :: "int \<Rightarrow> SchedulerOption" where "WithSchedulerMaxRetries n c = c\<lparr>dqc_MaxRetries := n\<rparr>"
definition WithSchedulerRetryDelay :: "duration \<Rightarrow> SchedulerOption" where "WithSchedulerRetryDelay d c = c\<lparr>dqc_RetryDelay := d\<rparr>"
definition WithSchedulerVisibilityTimeout :: "duration \<Rightarrow> SchedulerOption" where
  "WithSchedulerVisibilityTimeout d c = c\<lparr>dqc_VisibilityTimeout := d\<rparr>"
definition WithSchedulerOrdered :: SchedulerOption where "WithSchedulerOrdered c = c\<lparr>dqc_Ordered := True\<rparr>"
definition WithSchedulerMaxReadySize :: "int \<Rightarrow> SchedulerOption" where "WithSchedulerMaxReadySize n c = c\<lparr>dqc_MaxReadySize := n\<rparr>"

record 'a SchedulerManager =
  sm_name :: string
  sm_config :: SchedulerConfig
  sm_queue :: "'a DelayQueue"

text \<open>The table of schedulers: pointers \<open>'p\<close> with the number of their type argument.\<close>

type_synonym 'p schedulers = "(string, nat \<times> 'p) go_map"

definition RegisterScheduler ::
  "mathx \<Rightarrow> bool \<Rightarrow> string \<Rightarrow> bool \<Rightarrow> SchedulerOption list \<Rightarrow> nat \<Rightarrow> 'p \<Rightarrow> 'p schedulers \<Rightarrow> 'a SchedulerManager go_result \<times> 'p schedulers" where
  "RegisterScheduler X hasClient name hasHandler opts ty p reg =
     (if \<not> hasClient then (Inl RuntimePanic, reg)
      else if \<not> hasHandler then (Inl RuntimePanic, reg)
      else if map_of reg name \<noteq> None then (Inl RuntimePanic, reg)
      else
        (let cfg = fold (\<lambda>opt c. opt c) opts (DelayQueueConfig.extend DefaultDelayQueueConfig \<lparr>sc_QueueName = []\<rparr>)
         in if sc_QueueName cfg = [] then (Inl RuntimePanic, reg)
            else (Inr \<lparr>sm_name = name, sm_config = cfg, sm_queue = NewDelayQueue X (Some (DelayQueueConfig.truncate cfg))\<rparr>,
                  AList.update name (ty, p) reg)))"

definition GetScheduler :: "nat \<Rightarrow> string \<Rightarrow> 'p schedulers \<Rightarrow> 'p go_result" where
  "GetScheduler ty name reg =
     (case map_of reg name of
        None \<Rightarrow> Inl (FmtError (''cachex: scheduler '' @ name @ '' not registered''))
      | Some (ty', p) \<Rightarrow> if ty' = ty then Inr p else Inl (FmtError (''cachex: scheduler '' @ name @ '' type mismatch'')))"

definition MustGetScheduler :: "nat \<Rightarrow> string \<Rightarrow> 'p schedulers \<Rightarrow> 'p go_result" where
  "MustGetScheduler ty name reg = (case GetScheduler ty name reg of Inl err \<Rightarrow> Inl RuntimePanic | Inr p \<Rightarrow> Inr p)"

fun start_schedulers :: "('p \<Rightarrow> 'w \<Rightarrow> go_error option \<times> 'w) \<Rightarrow> 'p schedulers \<Rightarrow> 'w \<Rightarrow> go_error option \<times> 'w" where
  "start_schedulers start [] w = (None, w)"
| "start_schedulers start ((name, ty, p) # reg) w =
     (case start p w of
        (Some err, w') \<Rightarrow>
          if err \<noteq> ErrDelayQueueRunning then (Some (Wrapped (''start scheduler '' @ name @ '' failed'') err), w')
          else start_schedulers start reg w'
      | (None, w') \<Rightarrow> start_schedulers start reg w')"

fun stop_schedulers :: "('p \<Rightarrow> 'w \<Rightarrow> go_error option \<times> 'w) \<Rightarrow> 'p schedulers \<Rightarrow> go_error option \<Rightarrow> 'w \<Rightarrow> go_error option \<times> 'w" where
  "stop_schedulers stop [] firstErr w = (firstErr, w)"
| "stop_schedulers stop ((name, ty, p) # reg) firstErr w =
     (case stop p w of
        (None, w') \<Rightarrow> stop_schedulers stop reg firstErr w'
      | (Some err, w') \<Rightarrow> stop_schedulers stop reg (if firstErr = None then Some err else firstErr) w')"

definition StartAllSchedulers :: "('p \<Rightarrow> 'w \<Rightarrow> go_error option \<times> 'w) \<Rightarrow> 'p schedulers \<Rightarrow> 'w \<Rightarrow> go_error option \<times> 'w" where
  "StartAllSchedulers start reg w = start_schedulers start reg w"

definition StopAllSchedulers :: "('p \<Rightarrow> 'w \<Rightarrow> go_error option \<times> 'w) \<Rightarrow> 'p schedulers \<Rightarrow> 'w \<Rightarrow> go_error option \<times> 'w" where
  "StopAllSchedulers stop reg w = stop_schedulers stop reg None w"

definition sm_Name :: "'a SchedulerManager \<Rightarrow> string" where "sm_Name m = sm_name m"

definition sm_Start :: "'a SchedulerManager \<Rightarrow> go_error option \<times> 'a SchedulerManager" where
  "sm_Start m = (case StartConsumer (sc_QueueName (sm_config m)) (sm_queue m) of (err, q) \<Rightarrow> (err, m\<lparr>sm_queue := q\<rparr>))"

definition sm_Stop_begin :: "'a SchedulerManager \<Rightarrow> 'a SchedulerManager" where
  "sm_Stop_begin m = m\<lparr>sm_queue := dq_Stop_begin (sm_queue m)\<rparr>"

definition sm_EnqueueAt :: "'a task_json \<Rightarrow> 'd redis \<Rightarrow> time \<Rightarrow> 'a SchedulerManager \<Rightarrow> 'a DelayTask option \<Rightarrow> 'd \<Rightarrow> go_error option \<times> 'd" where
  "sm_EnqueueAt J R now m task d = EnqueueAt J R now (sm_queue m) (sc_QueueName (sm_config m)) task d"

definition sm_EnqueueWithDelay ::
  "'a task_json \<Rightarrow> 'd redis \<Rightarrow> time \<Rightarrow> 'a SchedulerManager \<Rightarrow> 'a DelayTask option \<Rightarrow> duration \<Rightarrow> 'd \<Rightarrow> go_error option \<times> 'd" where
  "sm_EnqueueWithDelay J R now m task delay d = EnqueueWithDelay J R now (sm_queue m) (sc_QueueName (sm_config m)) task delay d"

definition sm_Cancel :: "'d redis \<Rightarrow> time \<Rightarrow> 'a SchedulerManager \<Rightarrow> string \<Rightarrow> 'd \<Rightarrow> bool go_result \<times> 'd" where
  "sm_Cancel R now m key d = dq_Cancel R now (sm_queue m) (sc_QueueName (sm_config m)) key d"

definition sm_Length :: "'d redis \<Rightarrow> time \<Rightarrow> 'a SchedulerManager \<Rightarrow> 'd \<Rightarrow> int go_result \<times> 'd" where
  "sm_Length R now m d = dq_Length R now (sm_queue m) (sc_QueueName (sm_config m)) d"

definition sm_GetTask :: "'a task_json \<Rightarrow> 'd redis \<Rightarrow> time \<Rightarrow> 'a SchedulerManager \<Rightarrow> string \<Rightarrow> 'd \<Rightarrow> 'a DelayTask go_result \<times> 'd" where
  "sm_GetTask J R now m key d = GetTask J R now (sm_queue m) (sc_QueueName (sm_config m)) key d"

definition sm_DeadLength :: "'d redis \<Rightarrow> time \<Rightarrow> 'a SchedulerManager \<Rightarrow> 'd \<Rightarrow> int go_result \<times> 'd" where
  "sm_DeadLength R now m d = DeadLength R now (sm_queue m) (sc_QueueName (sm_config m)) d"

definition sm_GetDeadTasks ::
  "mathx \<Rightarrow> 'a task_json \<Rightarrow> 'd redis \<Rightarrow> time \<Rightarrow> 'a SchedulerManager \<Rightarrow> int \<Rightarrow> int \<Rightarrow> 'd \<Rightarrow> 'a DelayTask list go_result \<times> 'd" where
  "sm_GetDeadTasks X J R now m offset limit d = GetDeadTasks X J R now (sm_queue m) (sc_QueueName (sm_config m)) offset limit d"

end
