(* ===== verification/Delay_Queue_Correct.thy ===== *)
theory Delay_Queue_Correct
  imports Delay_Queue
begin

text \<open>
  Properties of the delay queue: no task with a body is ever outside both sorted sets, a task that is
  being processed is given to nobody else before its time of visibility is over, a poll gives out all
  tasks that are due, and a failing task is retried on time and ends in the dead letters. Then the ways
  in which a task is lost all the same.
\<close>

section \<open>The scripts on a database\<close>

definition queue_keys :: "string \<Rightarrow> string \<Rightarrow> string \<Rightarrow> redis_db \<Rightarrow> bool" where
  "queue_keys zk pk hk db \<longleftrightarrow> zset_key db zk \<and> zset_key db pk \<and> hash_key db hk \<and> distinct [zk, pk, hk]"

text \<open>A database seen as a queue: when tasks are ready, until when others are processed, and their bodies.\<close>

definition same_queue ::
  "string \<Rightarrow> string \<Rightarrow> string \<Rightarrow> redis_db \<Rightarrow> (string \<rightharpoonup> int) \<Rightarrow> (string \<rightharpoonup> int) \<Rightarrow> (string \<rightharpoonup> string) \<Rightarrow> bool" where
  "same_queue zk pk hk db ready processing body \<longleftrightarrow>
     queue_keys zk pk hk db \<and> zs db zk = ready \<and> zs db pk = processing \<and> hs db hk = body"

text \<open>Two databases that differ in the keys of the queue only.\<close>

definition others_same :: "string set \<Rightarrow> redis_db \<Rightarrow> redis_db \<Rightarrow> bool" where
  "others_same ks db db' \<longleftrightarrow> (\<forall>k. k \<notin> ks \<longrightarrow> db' k = db k)"

lemma others_same_refl [simp]: "others_same ks db db"
  by (simp add: others_same_def)

lemma others_same_trans: "others_same ks db db1 \<Longrightarrow> others_same ks db1 db2 \<Longrightarrow> others_same ks db db2"
  by (simp add: others_same_def)

lemma key_cong:
  assumes "db' k = db k"
  shows "zset_key db' k = zset_key db k" "hash_key db' k = hash_key db k" "list_key db' k = list_key db k"
    "zalist db' k = zalist db k" "halist db' k = halist db k" "lst db' k = lst db k"
  using assms by (simp_all add: zset_key_def hash_key_def list_key_def zalist_def halist_def lst_def)

lemma zadd_ready:
  assumes "same_queue zk pk hk db r p b"
  obtains db' where "redis_do now (ZADD zk s m) db = (count (r m = None), db')" "same_queue zk pk hk db' (r(m \<mapsto> s)) p b"
    "others_same {zk, pk, hk} db db'"
proof -
  obtain db' where d: "redis_do now (ZADD zk s m) db = (count (zs db zk m = None), db')" "zset_key db' zk" "zs db' zk = (zs db zk)(m \<mapsto> s)"
    "\<And>k'. k' \<noteq> zk \<Longrightarrow> db' k' = db k'"
    using assms zadd_do [of db zk now s m] by (auto simp: same_queue_def queue_keys_def)
  show thesis using that [of db'] d assms key_cong [of db' _ db, OF d(4)] by (auto simp: same_queue_def queue_keys_def others_same_def)
qed

lemma zadd_processing:
  assumes "same_queue zk pk hk db r p b"
  obtains db' where "redis_do now (ZADD pk s m) db = (count (p m = None), db')" "same_queue zk pk hk db' r (p(m \<mapsto> s)) b"
    "others_same {zk, pk, hk} db db'"
proof -
  obtain db' where d: "redis_do now (ZADD pk s m) db = (count (zs db pk m = None), db')" "zset_key db' pk" "zs db' pk = (zs db pk)(m \<mapsto> s)"
    "\<And>k'. k' \<noteq> pk \<Longrightarrow> db' k' = db k'"
    using assms zadd_do [of db pk now s m] by (auto simp: same_queue_def queue_keys_def)
  show thesis using that [of db'] d assms key_cong [of db' _ db, OF d(4)] by (auto simp: same_queue_def queue_keys_def others_same_def)
qed

lemma zrem_ready:
  assumes "same_queue zk pk hk db r p b"
  obtains db' where "redis_do now (ZREM zk m) db = (count (r m \<noteq> None), db')" "same_queue zk pk hk db' (r(m := None)) p b"
    "others_same {zk, pk, hk} db db'"
proof -
  obtain db' where d: "redis_do now (ZREM zk m) db = (count (zs db zk m \<noteq> None), db')" "zset_key db' zk" "zs db' zk = (zs db zk)(m := None)"
    "\<And>k'. k' \<noteq> zk \<Longrightarrow> db' k' = db k'"
    using assms zrem_do [of db zk now m] by (auto simp: same_queue_def queue_keys_def)
  show thesis using that [of db'] d assms key_cong [of db' _ db, OF d(4)] by (auto simp: same_queue_def queue_keys_def others_same_def)
qed

lemma zrem_processing:
  assumes "same_queue zk pk hk db r p b"
  obtains db' where "redis_do now (ZREM pk m) db = (count (p m \<noteq> None), db')" "same_queue zk pk hk db' r (p(m := None)) b"
    "others_same {zk, pk, hk} db db'"
proof -
  obtain db' where d: "redis_do now (ZREM pk m) db = (count (zs db pk m \<noteq> None), db')" "zset_key db' pk" "zs db' pk = (zs db pk)(m := None)"
    "\<And>k'. k' \<noteq> pk \<Longrightarrow> db' k' = db k'"
    using assms zrem_do [of db pk now m] by (auto simp: same_queue_def queue_keys_def)
  show thesis using that [of db'] d assms key_cong [of db' _ db, OF d(4)] by (auto simp: same_queue_def queue_keys_def others_same_def)
qed

lemma hset_body:
  assumes "same_queue zk pk hk db r p b"
  obtains db' where "redis_do now (HSET hk m s) db = (count (b m = None), db')" "same_queue zk pk hk db' r p (b(m \<mapsto> s))"
    "others_same {zk, pk, hk} db db'"
proof -
  obtain db' where d: "redis_do now (HSET hk m s) db = (count (hs db hk m = None), db')" "hash_key db' hk" "hs db' hk = (hs db hk)(m \<mapsto> s)"
    "\<And>k'. k' \<noteq> hk \<Longrightarrow> db' k' = db k'"
    using assms hset_do [of db hk now m s] by (auto simp: same_queue_def queue_keys_def)
  show thesis using that [of db'] d assms key_cong [of db' _ db, OF d(4)] by (auto simp: same_queue_def queue_keys_def others_same_def)
qed

lemma hdel_body:
  assumes "same_queue zk pk hk db r p b"
  obtains db' where "redis_do now (HDEL hk m) db = (count (b m \<noteq> None), db')" "same_queue zk pk hk db' r p (b(m := None))"
    "others_same {zk, pk, hk} db db'"
proof -
  obtain db' where d: "redis_do now (HDEL hk m) db = (count (hs db hk m \<noteq> None), db')" "hash_key db' hk" "hs db' hk = (hs db hk)(m := None)"
    "\<And>k'. k' \<noteq> hk \<Longrightarrow> db' k' = db k'"
    using assms hdel_do [of db hk now m] by (auto simp: same_queue_def queue_keys_def)
  show thesis using that [of db'] d assms key_cong [of db' _ db, OF d(4)] by (auto simp: same_queue_def queue_keys_def others_same_def)
qed

lemma hget_body: "same_queue zk pk hk db r p b \<Longrightarrow> redis_do now (HGET hk m) db = (case b m of None \<Rightarrow> RNil | Some v \<Rightarrow> RBulk v, db)"
  using hget_do by (simp add: same_queue_def queue_keys_def)

text \<open>The bodies of a list of keys, and the two loops.\<close>

definition bodies :: "(string \<rightharpoonup> string) \<Rightarrow> string list \<Rightarrow> string list" where
  "bodies b ms = concat (map (\<lambda>m. case b m of None \<Rightarrow> [] | Some s \<Rightarrow> [s]) ms)"

definition moved :: "string list \<Rightarrow> int \<Rightarrow> (string \<rightharpoonup> int) \<Rightarrow> string \<rightharpoonup> int" where
  "moved ms s p = (\<lambda>m. if m \<in> set ms then Some s else p m)"

definition gone :: "string list \<Rightarrow> (string \<rightharpoonup> int) \<Rightarrow> string \<rightharpoonup> int" where
  "gone ms r = (\<lambda>m. if m \<in> set ms then None else r m)"

lemma moved_Cons: "moved (m # ms) s p = moved ms s (p(m \<mapsto> s))" and gone_Cons: "gone (m # ms) r = gone ms (r(m := None))"
  by (auto simp: moved_def gone_def)

lemma take_db:
  assumes "same_queue zk pk hk db r p b"
  obtains db' where "run_db now (lua_take zk pk hk s ms ts) db = (Inr (ts @ bodies b ms), db')"
    "same_queue zk pk hk db' (gone ms r) (moved ms s p) b" "others_same {zk, pk, hk} db db'"
  using assms
proof (induction ms arbitrary: db r p ts thesis)
  case Nil
  then show ?case by (simp add: bodies_def gone_def moved_def)
next
  case (Cons m ms)
  obtain db1 where 1: "redis_do now (ZREM zk m) db = (count (r m \<noteq> None), db1)" "same_queue zk pk hk db1 (r(m := None)) p b"
    "others_same {zk, pk, hk} db db1" by (rule zrem_ready [OF Cons.prems(2)])
  obtain db2 where 2: "redis_do now (ZADD pk s m) db1 = (count (p m = None), db2)" "same_queue zk pk hk db2 (r(m := None)) (p(m \<mapsto> s)) b"
    "others_same {zk, pk, hk} db1 db2" by (rule zadd_processing [OF 1(2)])
  define ts' where "ts' = (case b m of None \<Rightarrow> ts | Some v \<Rightarrow> ts @ [v])"
  obtain db3 where 3: "run_db now (lua_take zk pk hk s ms ts') db2 = (Inr (ts' @ bodies b ms), db3)"
    "same_queue zk pk hk db3 (gone ms (r(m := None))) (moved ms s (p(m \<mapsto> s))) b" "others_same {zk, pk, hk} db2 db3"
    by (rule Cons.IH [OF _ 2(2)])
  have "run_db now (lua_take zk pk hk s (m # ms) ts) db = (Inr (ts @ bodies b (m # ms)), db3)"
    using 1(1) 2(1) 3(1) hget_body [OF Cons.prems(2), of now m] by (auto simp: ts'_def bodies_def split: option.splits)
  then show ?case
    using Cons.prems(1) [of db3] 3(2) others_same_trans [OF others_same_trans [OF 1(3) 2(3)] 3(3)]
    by (simp add: moved_Cons gone_Cons)
qed

lemma requeue_db:
  assumes "same_queue zk pk hk db r p b"
  obtains db' where "run_db now (lua_requeue pk zk s ms rest) db = run_db now rest db'"
    "same_queue zk pk hk db' (moved ms s r) (gone ms p) b" "others_same {zk, pk, hk} db db'"
  using assms
proof (induction ms arbitrary: db r p thesis)
  case Nil
  then show ?case by (simp add: gone_def moved_def)
next
  case (Cons m ms)
  obtain db1 where 1: "redis_do now (ZREM pk m) db = (count (p m \<noteq> None), db1)" "same_queue zk pk hk db1 r (p(m := None)) b"
    "others_same {zk, pk, hk} db db1" by (rule zrem_processing [OF Cons.prems(2)])
  obtain db2 where 2: "redis_do now (ZADD zk s m) db1 = (count (r m = None), db2)" "same_queue zk pk hk db2 (r(m \<mapsto> s)) (p(m := None)) b"
    "others_same {zk, pk, hk} db1 db2" by (rule zadd_ready [OF 1(2)])
  obtain db3 where 3: "run_db now (lua_requeue pk zk s ms rest) db2 = run_db now rest db3"
    "same_queue zk pk hk db3 (moved ms s (r(m \<mapsto> s))) (gone ms (p(m := None))) b" "others_same {zk, pk, hk} db2 db3"
    by (rule Cons.IH [OF _ 2(2)])
  have "run_db now (lua_requeue pk zk s (m # ms) rest) db = run_db now rest db3" using 1(1) 2(1) 3(1) by simp
  then show ?case
    using Cons.prems(1) [of db3] 3(2) others_same_trans [OF others_same_trans [OF 1(3) 2(3)] 3(3)]
    by (simp add: moved_Cons gone_Cons)
qed

section \<open>The abstract queue\<close>

text \<open>A range of at most \<open>n\<close> keys with a score of at most \<open>t\<close>, and all of them if they are fewer.\<close>

definition due_range :: "int \<Rightarrow> int \<Rightarrow> (string \<rightharpoonup> int) \<Rightarrow> string list \<Rightarrow> bool" where
  "due_range t n p ms \<longleftrightarrow> distinct ms \<and> (\<forall>m \<in> set ms. \<exists>s. p m = Some s \<and> s \<le> t) \<and>
     (0 \<le> n \<longrightarrow> length ms \<le> nat n \<and> (\<forall>m s. p m = Some s \<longrightarrow> s \<le> t \<longrightarrow> m \<notin> set ms \<longrightarrow> length ms = nat n))"

lemma due_range_zrange: "zset_key db k \<Longrightarrow> due_range t n (zs db k) (zrange None t n (zalist db k))"
  using zrange_set [OF zalist_distinct, of db k] unfolding due_range_def by blast

text \<open>The ready and the processing times of the keys, and the bodies. Every script is one or two of the
  steps below.\<close>

type_synonym queue_state = "(string \<rightharpoonup> int) \<times> (string \<rightharpoonup> int) \<times> (string \<rightharpoonup> string)"

datatype queue_label =
    LEnqueue string int string | LAck string | LCancel string | LBack int "string list" | LTake int int "string list"

inductive queue_step :: "queue_label \<Rightarrow> queue_state \<Rightarrow> queue_state \<Rightarrow> bool" where
  Enqueue: "queue_step (LEnqueue m s x) (r, p, b) (r(m \<mapsto> s), p, b(m \<mapsto> x))"
| Ack: "p m \<noteq> None \<Longrightarrow> queue_step (LAck m) (r, p, b) (r, p(m := None), b(m := None))"
| Cancel: "queue_step (LCancel m) (r, p, b) (r(m := None), p(m := None), b(m := None))"
| Back: "due_range t n p ms \<Longrightarrow> queue_step (LBack t ms) (r, p, b) (moved ms t r, gone ms p, b)"
| Take: "due_range t n r ms \<Longrightarrow> queue_step (LTake t v ms) (r, p, b) (gone ms r, moved ms v p, b)"

inductive_cases queue_stepE: "queue_step l S S'"

inductive queue_trace :: "queue_label list \<Rightarrow> queue_state \<Rightarrow> queue_state \<Rightarrow> bool" where
  Done: "queue_trace [] S S"
| Step: "queue_step l S S1 \<Longrightarrow> queue_trace ls S1 S' \<Longrightarrow> queue_trace (l # ls) S S'"

inductive_cases queue_trace_ConsE: "queue_trace (l # ls) S S'"
inductive_cases queue_trace_NilE: "queue_trace [] S S'"

lemma queue_trace_append: "queue_trace ls S S1 \<Longrightarrow> queue_trace ls' S1 S' \<Longrightarrow> queue_trace (ls @ ls') S S'"
  by (induction rule: queue_trace.induct) (auto intro: queue_trace.Step)

lemma queue_trace_snoc: "queue_trace (ls @ [l]) S T \<Longrightarrow> \<exists>U. queue_trace ls S U \<and> queue_step l U T"
proof (induction ls arbitrary: S)
  case Nil
  then have "queue_trace [l] S T" by simp
  then show ?case by (elim queue_trace_ConsE queue_trace_NilE) (use queue_trace.Done in blast)
next
  case (Cons a ls)
  then have "queue_trace (a # (ls @ [l])) S T" by simp
  then obtain S' where s: "queue_step a S S'" "queue_trace (ls @ [l]) S' T" by (rule queue_trace_ConsE)
  from Cons.IH [OF s(2)] obtain U where "queue_trace ls S' U" "queue_step l U T" by (elim exE conjE)
  then show ?case using queue_trace.Step [OF s(1)] by (intro exI [of _ U]) simp
qed

lemma queue_trace_one: "queue_step l S S' \<Longrightarrow> queue_trace [l] S S'"
  by (blast intro: queue_trace.intros)

text \<open>The scripts.\<close>

lemma enqueue_db:
  assumes "same_queue zk pk hk db r p b"
  obtains db' where "run_db now (enqueueLuaScript zk hk s m x) db = (Inr 1, db')" "same_queue zk pk hk db' (r(m \<mapsto> s)) p (b(m \<mapsto> x))"
    "others_same {zk, pk, hk} db db'"
proof -
  obtain db1 where 1: "redis_do now (ZADD zk s m) db = (count (r m = None), db1)" "same_queue zk pk hk db1 (r(m \<mapsto> s)) p b"
    "others_same {zk, pk, hk} db db1" by (rule zadd_ready [OF assms])
  obtain db2 where 2: "redis_do now (HSET hk m x) db1 = (count (b m = None), db2)" "same_queue zk pk hk db2 (r(m \<mapsto> s)) p (b(m \<mapsto> x))"
    "others_same {zk, pk, hk} db1 db2" by (rule hset_body [OF 1(2)])
  show thesis using that [of db2] 1(1) 2 others_same_trans [OF 1(3) 2(3)] by (simp add: enqueueLuaScript_def)
qed

lemma ack_db:
  assumes "same_queue zk pk hk db r p b"
  obtains db' where "run_db now (ackLuaScript pk hk m) db = (Inr (if p m = None then 0 else 1), db')"
    "same_queue zk pk hk db' r (p(m := None)) (if p m = None then b else b(m := None))" "others_same {zk, pk, hk} db db'"
proof -
  obtain db1 where 1: "redis_do now (ZREM pk m) db = (count (p m \<noteq> None), db1)" "same_queue zk pk hk db1 r (p(m := None)) b"
    "others_same {zk, pk, hk} db db1" by (rule zrem_processing [OF assms])
  obtain db2 where 2: "redis_do now (HDEL hk m) db1 = (count (b m \<noteq> None), db2)" "same_queue zk pk hk db2 r (p(m := None)) (b(m := None))"
    "others_same {zk, pk, hk} db1 db2" by (rule hdel_body [OF 1(2)])
  show thesis
  proof (cases "p m = None")
    case True
    then show ?thesis using that [of db1] 1 by (simp add: ackLuaScript_def)
  next
    case False
    then obtain v where v: "p m = Some v" by auto
    show ?thesis using that [of db2] 1(1) 2 others_same_trans [OF 1(3) 2(3)] by (simp add: ackLuaScript_def v)
  qed
qed

lemma cancel_db:
  assumes "same_queue zk pk hk db r p b"
  obtains db' where "run_db now (cancelLuaScript zk pk hk m) db =
      (Inr ((if r m \<noteq> None then 1 else 0) + (if p m \<noteq> None then 1 else 0)), db')"
    "same_queue zk pk hk db' (r(m := None)) (p(m := None)) (b(m := None))" "others_same {zk, pk, hk} db db'"
proof -
  obtain db1 where 1: "redis_do now (ZREM zk m) db = (count (r m \<noteq> None), db1)" "same_queue zk pk hk db1 (r(m := None)) p b"
    "others_same {zk, pk, hk} db db1" by (rule zrem_ready [OF assms])
  obtain db2 where 2: "redis_do now (ZREM pk m) db1 = (count (p m \<noteq> None), db2)" "same_queue zk pk hk db2 (r(m := None)) (p(m := None)) b"
    "others_same {zk, pk, hk} db1 db2" by (rule zrem_processing [OF 1(2)])
  obtain db3 where 3: "redis_do now (HDEL hk m) db2 = (count (b m \<noteq> None), db3)"
    "same_queue zk pk hk db3 (r(m := None)) (p(m := None)) (b(m := None))" "others_same {zk, pk, hk} db2 db3"
    by (rule hdel_body [OF 2(2)])
  show thesis
    using that [of db3] 1(1) 2(1) 3 others_same_trans [OF others_same_trans [OF 1(3) 2(3)] 3(3)] by (simp add: cancelLuaScript_def)
qed

lemma requeueStale_db:
  assumes "same_queue zk pk hk db r p b"
  obtains ms db' where "run_db now (requeueStaleLuaScript pk zk t n) db = (Inr (int (length ms)), db')" "due_range t n p ms"
    "same_queue zk pk hk db' (moved ms t r) (gone ms p) b" "others_same {zk, pk, hk} db db'"
proof -
  define ms where "ms = zrange None t n (zalist db pk)"
  have k: "zset_key db pk" "zs db pk = p" using assms by (auto simp: same_queue_def queue_keys_def)
  obtain db' where "run_db now (lua_requeue pk zk t ms (Return (int (length ms)))) db = run_db now (Return (int (length ms))) db'"
    "same_queue zk pk hk db' (moved ms t r) (gone ms p) b" "others_same {zk, pk, hk} db db'"
    by (rule requeue_db [OF assms])
  then show thesis using that [of ms db'] zrange_do(1) [OF k(1)] due_range_zrange [OF k(1), of t n] k(2)
    by (simp add: requeueStaleLuaScript_def ms_def)
qed

lemma dequeue_db:
  assumes "same_queue zk pk hk db r p b"
  obtains ms db' where "run_db now (dequeueLuaScript zk pk hk t n v) db = (Inr (bodies b ms), db')" "due_range t n r ms"
    "same_queue zk pk hk db' (gone ms r) (moved ms v p) b" "others_same {zk, pk, hk} db db'"
proof -
  define ms where "ms = zrange None t n (zalist db zk)"
  have k: "zset_key db zk" "zs db zk = r" using assms by (auto simp: same_queue_def queue_keys_def)
  obtain db' where "run_db now (lua_take zk pk hk v ms []) db = (Inr ([] @ bodies b ms), db')"
    "same_queue zk pk hk db' (gone ms r) (moved ms v p) b" "others_same {zk, pk, hk} db db'"
    by (rule take_db [OF assms])
  then show thesis using that [of ms db'] zrange_do(1) [OF k(1)] due_range_zrange [OF k(1), of t n] k(2)
    by (simp add: dequeueLuaScript_def ms_def)
qed

lemma poll_db:
  assumes "same_queue zk pk hk db r p b"
  obtains ms1 ms2 db' where "run_db now (pollLuaScript zk pk hk t n v) db = (Inr (bodies b ms2), db')"
    "due_range t n p ms1" "due_range t n (moved ms1 t r) ms2"
    "same_queue zk pk hk db' (gone ms2 (moved ms1 t r)) (moved ms2 v (gone ms1 p)) b" "others_same {zk, pk, hk} db db'"
proof -
  define ms1 where "ms1 = zrange None t n (zalist db pk)"
  let ?rest = "Call (ZRANGEBYSCORE zk None t n) (\<lambda>results. lua_take zk pk hk v (arr_of results) [])"
  have k: "zset_key db pk" "zs db pk = p" using assms by (auto simp: same_queue_def queue_keys_def)
  obtain db1 where 1: "run_db now (lua_requeue pk zk t ms1 ?rest) db = run_db now ?rest db1"
    "same_queue zk pk hk db1 (moved ms1 t r) (gone ms1 p) b" "others_same {zk, pk, hk} db db1"
    by (rule requeue_db [OF assms])
  obtain ms2 db2 where 2: "run_db now (dequeueLuaScript zk pk hk t n v) db1 = (Inr (bodies b ms2), db2)" "due_range t n (moved ms1 t r) ms2"
    "same_queue zk pk hk db2 (gone ms2 (moved ms1 t r)) (moved ms2 v (gone ms1 p)) b" "others_same {zk, pk, hk} db1 db2"
    by (rule dequeue_db [OF 1(2)])
  have "run_db now (pollLuaScript zk pk hk t n v) db = (Inr (bodies b ms2), db2)"
    using 1(1) 2(1) zrange_do(1) [OF k(1)] by (simp add: pollLuaScript_def dequeueLuaScript_def ms1_def)
  then show thesis using that [of ms2 db2 ms1] 2 others_same_trans [OF 1(3) 2(4)] due_range_zrange [OF k(1), of t n] k(2)
    by (simp add: ms1_def)
qed

section \<open>The operations refine the abstract queue\<close>

lemma dq_keys_distinct: "distinct [zsetKey q n, processingKey q n, hashKey q n, deadKey q n]"
  by (simp add: zsetKey_def processingKey_def hashKey_def deadKey_def)

definition queue_at :: "'a DelayQueue \<Rightarrow> string \<Rightarrow> redis_db \<Rightarrow> queue_state \<Rightarrow> bool" where
  "queue_at q n db S \<longleftrightarrow> same_queue (zsetKey q n) (processingKey q n) (hashKey q n) db (fst S) (fst (snd S)) (snd (snd S))"

text \<open>The keys depend on the namespace alone.\<close>

lemma queue_at_ns: "dqc_Namespace (dq_config q') = dqc_Namespace (dq_config q) \<Longrightarrow> queue_at q' n db S = queue_at q n db S"
  by (simp add: queue_at_def zsetKey_def processingKey_def hashKey_def)

lemma queue_at_unique: "queue_at q n db S \<Longrightarrow> queue_at q n db S' \<Longrightarrow> S = S'"
  by (auto simp: queue_at_def same_queue_def prod_eq_iff)

text \<open>What a request has done to the queue: some steps, of which \<open>P\<close> holds.\<close>

definition did ::
  "('d \<Rightarrow> redis_db) \<Rightarrow> 'a DelayQueue \<Rightarrow> string \<Rightarrow> queue_state \<Rightarrow> 'd \<Rightarrow> (queue_label list \<Rightarrow> bool) \<Rightarrow> bool" where
  "did db q n S d' P \<longleftrightarrow> db_wf (db d') \<and> (\<exists>ls S'. queue_at q n (db d') S' \<and> queue_trace ls S S' \<and> P ls)"

lemma didI: "db_wf (db d') \<Longrightarrow> queue_at q n (db d') T \<Longrightarrow> queue_trace ls S T \<Longrightarrow> P ls \<Longrightarrow> did db q n S d' P"
  unfolding did_def by blast

lemma didE:
  assumes "did db q n S d' P"
  obtains ls T where "db_wf (db d')" "queue_at q n (db d') T" "queue_trace ls S T" "P ls"
  using assms unfolding did_def by blast

lemma did_nothing: "db_wf (db d) \<Longrightarrow> queue_at q n (db d) S \<Longrightarrow> P [] \<Longrightarrow> did db q n S d P"
  by (rule didI [OF _ _ queue_trace.Done])

lemma did_weaken: "did db q n S d P \<Longrightarrow> (\<And>ls. P ls \<Longrightarrow> Q ls) \<Longrightarrow> did db q n S d Q"
  by (erule didE) (rule didI)

lemma did_then:
  assumes "did db q n S d1 P" "\<And>T. db_wf (db d1) \<Longrightarrow> queue_at q n (db d1) T \<Longrightarrow> did db q n T d2 Q"
    "\<And>a b. P a \<Longrightarrow> Q b \<Longrightarrow> W (a @ b)"
  shows "did db q n S d2 W"
proof (rule didE [OF assms(1)])
  fix ls T
  assume 1: "db_wf (db d1)" "queue_at q n (db d1) T" "queue_trace ls S T" "P ls"
  show ?thesis
  proof (rule didE [OF assms(2) [OF 1(1,2)]])
    fix ls' U
    assume 2: "db_wf (db d2)" "queue_at q n (db d2) U" "queue_trace ls' T U" "Q ls'"
    show ?thesis by (rule didI [where db = db and d' = d2, OF 2(1,2) queue_trace_append [OF 1(3) 2(3)]]) (rule assms(3) [OF 1(4) 2(4)])
  qed
qed

text \<open>A request with a script that makes the steps \<open>ls\<close>.\<close>

lemma eval_did:
  assumes "redis_law R db" "db_wf (db d)" "queue_at q n (db d) S" "eval R now s d = (x, d')"
    "run_db now s (db d) = (Inr v, db1)" "queue_at q n db1 T" "queue_trace ls S T"
  shows "did db q n S d' (\<lambda>l. (l = [] \<and> (\<exists>e. x = Inl e)) \<or> (l = ls \<and> (\<forall>y. x = Inr y \<longrightarrow> y = v)))"
proof (cases rule: eval_any [OF assms(1,2,4), case_names lost silent answered])
  case (lost e)
  then show ?thesis using assms(3) by (intro didI [OF _ _ queue_trace.Done]) auto
next
  case (silent e)
  then show ?thesis using assms(5-7) by (intro didI [where ls = ls and T = T]) auto
next
  case answered
  then show ?thesis using assms(5-7) by (intro didI [where ls = ls and T = T]) auto
qed

text \<open>A command on a key outside the queue.\<close>

lemma redis_do_other:
  assumes "k \<notin> {zsetKey q n, processingKey q n, hashKey q n}"
  shows "queue_at q n (snd (redis_do now (LPUSH k v) db)) S = queue_at q n db S"
proof -
  let ?db = "snd (redis_do now (LPUSH k v) db)"
  have *: "?db k' = db k'" if "k' \<noteq> k" for k'
    using that by (auto simp: redis_do_simps on_defs split: option.splits redis_value.splits)
  have n: "zsetKey q n \<noteq> k" "processingKey q n \<noteq> k" "hashKey q n \<noteq> k" using assms by auto
  show ?thesis by (simp add: queue_at_def same_queue_def queue_keys_def key_cong [of ?db _ db, OF * [OF n(1)]]
      key_cong [of ?db _ db, OF * [OF n(2)]] key_cong [of ?db _ db, OF * [OF n(3)]])
qed

definition enq_labels :: "'a task_json \<Rightarrow> 'a DelayTask \<Rightarrow> queue_label list \<Rightarrow> bool" where
  "enq_labels J t ls \<longleftrightarrow> ls = [] \<or>
     (\<exists>e x. dt_ExecuteAt t = Some e \<and> dt_Key t \<noteq> [] \<and> dj_Marshal J t = Inr x \<and> ls = [LEnqueue (dt_Key t) (unix_milli e) x])"

lemma EnqueueAt_did:
  assumes "redis_law R db" "db_wf (db d)" "queue_at q n (db d) S" "EnqueueAt J R now q n (Some t) d = (err, d')"
  shows "did db q n S d' (\<lambda>ls. enq_labels J t ls \<and> (err = None \<longrightarrow> ls \<noteq> []))"
proof (cases "\<not> dq_closed q \<and> dt_ExecuteAt t \<noteq> None \<and> dt_Key t \<noteq> [] \<and> (\<exists>x. dj_Marshal J t = Inr x)")
  case True
  then obtain e x where t: "\<not> dq_closed q" "dt_ExecuteAt t = Some e" "dt_Key t \<noteq> []" "dj_Marshal J t = Inr x" by auto
  obtain r p b where S: "S = (r, p, b)" by (cases S)
  have k: "same_queue (zsetKey q n) (processingKey q n) (hashKey q n) (db d) r p b" using assms(3) S by (simp add: queue_at_def)
  obtain db1 where 1: "run_db now (enqueueLuaScript (zsetKey q n) (hashKey q n) (unix_milli e) (dt_Key t) x) (db d) = (Inr 1, db1)"
    "same_queue (zsetKey q n) (processingKey q n) (hashKey q n) db1 (r(dt_Key t \<mapsto> unix_milli e)) p (b(dt_Key t \<mapsto> x))"
    by (rule enqueue_db [OF k])
  obtain y where y: "eval R now (enqueueLuaScript (zsetKey q n) (hashKey q n) (unix_milli e) (dt_Key t) x) d = (y, d')"
    "err = (case y of Inl err \<Rightarrow> Some (Wrapped ''enqueue delay task failed'' err) | Inr _ \<Rightarrow> None)"
    using assms(4) t by (auto simp: EnqueueAt_def split: prod.splits sum.splits)
  have "did db q n S d' (\<lambda>l. (l = [] \<and> (\<exists>e. y = Inl e)) \<or> (l = [LEnqueue (dt_Key t) (unix_milli e) x] \<and> (\<forall>v. y = Inr v \<longrightarrow> v = 1)))"
    by (rule eval_did [OF assms(1-3) y(1) 1(1), where T = "(r(dt_Key t \<mapsto> unix_milli e), p, b(dt_Key t \<mapsto> x))"])
      (use 1(2) S in \<open>auto simp: queue_at_def intro: queue_trace_one queue_step.Enqueue\<close>)
  then show ?thesis by (rule did_weaken) (use t y(2) in \<open>auto simp: enq_labels_def split: sum.splits\<close>)
next
  case False
  then have "d' = d \<and> err \<noteq> None" using assms(4) by (auto simp: EnqueueAt_def split: option.splits sum.splits if_splits)
  then show ?thesis using assms(2,3) by (auto intro: did_nothing simp: enq_labels_def)
qed

lemma ack_did:
  assumes "redis_law R db" "db_wf (db d)" "queue_at q n (db d) S" "dq_ack R now q n m d = (err, d')"
  shows "did db q n S d' (\<lambda>ls. ls = [] \<or> ls = [LAck m])"
proof -
  obtain r p b where S: "S = (r, p, b)" by (cases S)
  have k: "same_queue (zsetKey q n) (processingKey q n) (hashKey q n) (db d) r p b" using assms(3) S by (simp add: queue_at_def)
  obtain db1 where 1: "run_db now (ackLuaScript (processingKey q n) (hashKey q n) m) (db d) = (Inr (if p m = None then 0 else 1), db1)"
    "same_queue (zsetKey q n) (processingKey q n) (hashKey q n) db1 r (p(m := None)) (if p m = None then b else b(m := None))"
    by (rule ack_db [OF k])
  let ?ls = "if p m = None then [] else [LAck m]" and ?S = "(r, p(m := None), if p m = None then b else b(m := None))"
  have tr: "queue_trace ?ls S ?S"
  proof (cases "p m")
    case None
    then have "?S = S" using S by auto
    then show ?thesis using None queue_trace.Done [of S] by simp
  next
    case (Some v)
    then have "p m \<noteq> None" by simp
    from queue_trace_one [OF queue_step.Ack [of p m r b, OF this]] show ?thesis by (simp add: S Some)
  qed
  obtain y where y: "eval R now (ackLuaScript (processingKey q n) (hashKey q n) m) d = (y, d')"
    using assms(4) by (auto simp: dq_ack_def split: prod.splits sum.splits)
  have "did db q n S d' (\<lambda>l. (l = [] \<and> (\<exists>e. y = Inl e)) \<or> (l = ?ls \<and> (\<forall>v. y = Inr v \<longrightarrow> v = (if p m = None then 0 else 1))))"
    by (rule eval_did [OF assms(1-3) y(1) 1(1) _ tr]) (use 1(2) in \<open>simp add: queue_at_def\<close>)
  then show ?thesis by (rule did_weaken) (auto split: if_splits)
qed

lemma Cancel_did:
  assumes "redis_law R db" "db_wf (db d)" "queue_at q n (db d) S" "dq_Cancel R now q n m d = (x, d')"
  shows "did db q n S d' (\<lambda>ls. ls = [] \<or> ls = [LCancel m])"
proof (cases "dq_closed q")
  case True
  then show ?thesis using assms(2-4) by (auto simp: dq_Cancel_def intro: did_nothing)
next
  case False
  obtain r p b where S: "S = (r, p, b)" by (cases S)
  have k: "same_queue (zsetKey q n) (processingKey q n) (hashKey q n) (db d) r p b" using assms(3) S by (simp add: queue_at_def)
  obtain v db1 where 1: "run_db now (cancelLuaScript (zsetKey q n) (processingKey q n) (hashKey q n) m) (db d) = (Inr v, db1)"
    "same_queue (zsetKey q n) (processingKey q n) (hashKey q n) db1 (r(m := None)) (p(m := None)) (b(m := None))"
    by (rule cancel_db [OF k])
  obtain y where y: "eval R now (cancelLuaScript (zsetKey q n) (processingKey q n) (hashKey q n) m) d = (y, d')"
    using assms(4) False by (auto simp: dq_Cancel_def split: prod.splits sum.splits)
  have "did db q n S d' (\<lambda>l. (l = [] \<and> (\<exists>e. y = Inl e)) \<or> (l = [LCancel m] \<and> (\<forall>u. y = Inr u \<longrightarrow> u = v)))"
    by (rule eval_did [OF assms(1-3) y(1) 1(1), where T = "(r(m := None), p(m := None), b(m := None))"])
      (use 1(2) S in \<open>auto simp: queue_at_def intro: queue_trace_one queue_step.Cancel\<close>)
  then show ?thesis by (rule did_weaken) auto
qed

lemma requeueStale_did:
  assumes "redis_law R db" "db_wf (db d)" "queue_at q n (db d) S" "requeueStale R now q n d = (x, d')"
  shows "did db q n S d' (\<lambda>ls. ls = [] \<or> (\<exists>ms. ls = [LBack (unix_milli now) ms]))"
proof -
  obtain r p b where S: "S = (r, p, b)" by (cases S)
  have k: "same_queue (zsetKey q n) (processingKey q n) (hashKey q n) (db d) r p b" using assms(3) S by (simp add: queue_at_def)
  let ?s = "requeueStaleLuaScript (processingKey q n) (zsetKey q n) (unix_milli now) (dqc_BatchSize (dq_config q))"
  obtain ms db1 where 1: "run_db now ?s (db d) = (Inr (int (length ms)), db1)" "due_range (unix_milli now) (dqc_BatchSize (dq_config q)) p ms"
    "same_queue (zsetKey q n) (processingKey q n) (hashKey q n) db1 (moved ms (unix_milli now) r) (gone ms p) b"
    by (rule requeueStale_db [OF k])
  obtain y where y: "eval R now ?s d = (y, d')"
    using assms(4) by (auto simp: requeueStale_def split: prod.splits sum.splits)
  have "did db q n S d' (\<lambda>l. (l = [] \<and> (\<exists>e. y = Inl e)) \<or> (l = [LBack (unix_milli now) ms] \<and> (\<forall>u. y = Inr u \<longrightarrow> u = int (length ms))))"
    by (rule eval_did [OF assms(1-3) y(1) 1(1), where T = "(moved ms (unix_milli now) r, gone ms p, b)"])
      (use 1(2,3) S in \<open>auto simp: queue_at_def intro: queue_trace_one queue_step.Back\<close>)
  then show ?thesis by (rule did_weaken) auto
qed

text \<open>What a poll or a dequeue takes, and what it gives out.\<close>

definition take_labels :: "'a task_json \<Rightarrow> 'a DelayQueue \<Rightarrow> time \<Rightarrow> (string \<rightharpoonup> string) \<Rightarrow> 'a DelayTask list \<Rightarrow> queue_label list \<Rightarrow> bool" where
  "take_labels J q now b ts ls \<longleftrightarrow> ls = [] \<and> ts = [] \<or>
     (\<exists>back ms. (back = [] \<or> (\<exists>ms'. back = [LBack (unix_milli now) ms'])) \<and>
        ls = back @ [LTake (unix_milli now) (unix_milli (now + dqc_VisibilityTimeout (dq_config q))) ms] \<and>
        (ts = [] \<or> ts = dq_parse J (bodies b ms)))"

definition given :: "'a DelayTask list go_result \<Rightarrow> 'a DelayTask list" where
  "given x = (case x of Inl _ \<Rightarrow> [] | Inr ts \<Rightarrow> ts)"

lemma pollExpired_did:
  assumes "redis_law R db" "db_wf (db d)" "queue_at q n (db d) S" "pollExpired J R now q n d = (x, d')"
  shows "did db q n S d' (take_labels J q now (snd (snd S)) (given x))"
proof -
  obtain r p b where S: "S = (r, p, b)" by (cases S)
  have k: "same_queue (zsetKey q n) (processingKey q n) (hashKey q n) (db d) r p b" using assms(3) S by (simp add: queue_at_def)
  let ?t = "unix_milli now" and ?n = "dqc_BatchSize (dq_config q)" and ?v = "unix_milli (now + dqc_VisibilityTimeout (dq_config q))"
  let ?s = "pollLuaScript (zsetKey q n) (processingKey q n) (hashKey q n) ?t ?n ?v"
  obtain ms1 ms2 db1 where 1: "run_db now ?s (db d) = (Inr (bodies b ms2), db1)" "due_range ?t ?n p ms1" "due_range ?t ?n (moved ms1 ?t r) ms2"
    "same_queue (zsetKey q n) (processingKey q n) (hashKey q n) db1 (gone ms2 (moved ms1 ?t r)) (moved ms2 ?v (gone ms1 p)) b"
    by (rule poll_db [OF k])
  obtain y where y: "eval R now ?s d = (y, d')" "given x = (case y of Inl _ \<Rightarrow> [] | Inr arr \<Rightarrow> dq_parse J arr)"
    using assms(4) by (auto simp: pollExpired_def given_def split: prod.splits sum.splits if_splits)
  have tr: "queue_trace [LBack ?t ms1, LTake ?t ?v ms2] S (gone ms2 (moved ms1 ?t r), moved ms2 ?v (gone ms1 p), b)"
    unfolding S by (rule queue_trace.Step [OF queue_step.Back [OF 1(2)] queue_trace_one [OF queue_step.Take [OF 1(3)]]])
  have "did db q n S d' (\<lambda>l. (l = [] \<and> (\<exists>e. y = Inl e)) \<or> (l = [LBack ?t ms1, LTake ?t ?v ms2] \<and> (\<forall>u. y = Inr u \<longrightarrow> u = bodies b ms2)))"
    by (rule eval_did [OF assms(1-3) y(1) 1(1) _ tr]) (use 1(4) in \<open>simp add: queue_at_def\<close>)
  then show ?thesis
  proof (rule did_weaken)
    fix l assume l: "(l = [] \<and> (\<exists>e. y = Inl e)) \<or> (l = [LBack ?t ms1, LTake ?t ?v ms2] \<and> (\<forall>u. y = Inr u \<longrightarrow> u = bodies b ms2))"
    then show "take_labels J q now (snd (snd S)) (given x) l"
    proof
      assume "l = [] \<and> (\<exists>e. y = Inl e)"
      then show ?thesis using y(2) by (auto simp: take_labels_def)
    next
      assume r: "l = [LBack ?t ms1, LTake ?t ?v ms2] \<and> (\<forall>u. y = Inr u \<longrightarrow> u = bodies b ms2)"
      show ?thesis unfolding take_labels_def
        by (intro disjI2 exI [of _ "[LBack ?t ms1]"] exI [of _ ms2]) (use r y(2) S in \<open>auto split: sum.splits\<close>)
    qed
  qed
qed

lemma dequeueExpired_did:
  assumes "redis_law R db" "db_wf (db d)" "queue_at q n (db d) S" "dequeueExpired J R now q n d = (x, d')"
  shows "did db q n S d' (take_labels J q now (snd (snd S)) (given x))"
proof -
  obtain r p b where S: "S = (r, p, b)" by (cases S)
  have k: "same_queue (zsetKey q n) (processingKey q n) (hashKey q n) (db d) r p b" using assms(3) S by (simp add: queue_at_def)
  let ?t = "unix_milli now" and ?n = "dqc_BatchSize (dq_config q)" and ?v = "unix_milli (now + dqc_VisibilityTimeout (dq_config q))"
  let ?s = "dequeueLuaScript (zsetKey q n) (processingKey q n) (hashKey q n) ?t ?n ?v"
  obtain ms db1 where 1: "run_db now ?s (db d) = (Inr (bodies b ms), db1)" "due_range ?t ?n r ms"
    "same_queue (zsetKey q n) (processingKey q n) (hashKey q n) db1 (gone ms r) (moved ms ?v p) b"
    by (rule dequeue_db [OF k])
  obtain y where y: "eval R now ?s d = (y, d')" "given x = (case y of Inl _ \<Rightarrow> [] | Inr arr \<Rightarrow> dq_parse J arr)"
    using assms(4) by (auto simp: dequeueExpired_def given_def split: prod.splits sum.splits if_splits)
  have "did db q n S d' (\<lambda>l. (l = [] \<and> (\<exists>e. y = Inl e)) \<or> (l = [LTake ?t ?v ms] \<and> (\<forall>u. y = Inr u \<longrightarrow> u = bodies b ms)))"
    by (rule eval_did [OF assms(1-3) y(1) 1(1), where T = "(gone ms r, moved ms ?v p, b)"])
      (use 1(2,3) S in \<open>auto simp: queue_at_def intro: queue_trace_one queue_step.Take\<close>)
  then show ?thesis
    by (rule did_weaken) (use y(2) S in \<open>auto simp: take_labels_def split: sum.splits\<close>)
qed

text \<open>
  What nodes do with a queue: requests of any of them, with clocks of which \<open>ok\<close> holds and tasks to
  enqueue of which \<open>enq\<close> holds, and anything else that leaves the database alone. The steps of the
  consumers are made of these as long as their handlers are.
\<close>

definition same_space :: "'a DelayQueue \<Rightarrow> 'a DelayQueue \<Rightarrow> bool" where
  "same_space q' q \<longleftrightarrow> dqc_Namespace (dq_config q') = dqc_Namespace (dq_config q)"

inductive queue_run ::
  "'a task_json \<Rightarrow> 'd redis \<Rightarrow> ('d \<Rightarrow> redis_db) \<Rightarrow> 'a DelayQueue \<Rightarrow> string \<Rightarrow> (time \<Rightarrow> bool) \<Rightarrow> ('a DelayTask \<Rightarrow> bool) \<Rightarrow> 'd \<Rightarrow> 'd \<Rightarrow> bool"
  for J R db q n ok enq d where
  Idle: "queue_run J R db q n ok enq d d"
| World: "queue_run J R db q n ok enq d d1 \<Longrightarrow> db d2 = db d1 \<Longrightarrow> queue_run J R db q n ok enq d d2"
| Enqueue: "queue_run J R db q n ok enq d d1 \<Longrightarrow> same_space q' q \<Longrightarrow> enq t \<Longrightarrow> EnqueueAt J R now q' n (Some t) d1 = (e, d2) \<Longrightarrow>
    queue_run J R db q n ok enq d d2"
| Cancel: "queue_run J R db q n ok enq d d1 \<Longrightarrow> same_space q' q \<Longrightarrow> dq_Cancel R now q' n m d1 = (x, d2) \<Longrightarrow>
    queue_run J R db q n ok enq d d2"
| Ack: "queue_run J R db q n ok enq d d1 \<Longrightarrow> same_space q' q \<Longrightarrow> dq_ack R now q' n m d1 = (e, d2) \<Longrightarrow>
    queue_run J R db q n ok enq d d2"
| Stale: "queue_run J R db q n ok enq d d1 \<Longrightarrow> same_space q' q \<Longrightarrow> ok now \<Longrightarrow> requeueStale R now q' n d1 = (y, d2) \<Longrightarrow>
    queue_run J R db q n ok enq d d2"
| Dequeue: "queue_run J R db q n ok enq d d1 \<Longrightarrow> same_space q' q \<Longrightarrow> ok now \<Longrightarrow> dequeueExpired J R now q' n d1 = (z, d2) \<Longrightarrow>
    queue_run J R db q n ok enq d d2"
| Poll: "queue_run J R db q n ok enq d d1 \<Longrightarrow> same_space q' q \<Longrightarrow> ok now \<Longrightarrow> pollExpired J R now q' n d1 = (z, d2) \<Longrightarrow>
    queue_run J R db q n ok enq d d2"
| Dead: "queue_run J R db q n ok enq d d1 \<Longrightarrow> same_space q' q \<Longrightarrow> moveToDead J R now q' n t d1 = d2 \<Longrightarrow>
    queue_run J R db q n ok enq d d2"

lemma queue_run_trans:
  assumes "queue_run J R db q n ok enq d1 d2" "queue_run J R db q n ok enq d d1"
  shows "queue_run J R db q n ok enq d d2"
  using assms by (induction rule: queue_run.induct) (blast intro: queue_run.intros)+

text \<open>A property of the abstract queue that its steps preserve holds throughout a run.\<close>

definition run_labels :: "'a task_json \<Rightarrow> (time \<Rightarrow> bool) \<Rightarrow> ('a DelayTask \<Rightarrow> bool) \<Rightarrow> queue_label \<Rightarrow> bool" where
  "run_labels J ok enq l = (case l of
     LEnqueue m s x \<Rightarrow> \<exists>t. enq t \<and> dt_Key t = m \<and> m \<noteq> [] \<and> dj_Marshal J t = Inr x
   | LAck m \<Rightarrow> True | LCancel m \<Rightarrow> True
   | LBack s ms \<Rightarrow> \<exists>now. ok now \<and> s = unix_milli now
   | LTake s v ms \<Rightarrow> \<exists>now. ok now \<and> s = unix_milli now)"

definition kept_by :: "(queue_label \<Rightarrow> bool) \<Rightarrow> (queue_state \<Rightarrow> bool) \<Rightarrow> bool" where
  "kept_by L I \<longleftrightarrow> (\<forall>l S S'. L l \<longrightarrow> queue_step l S S' \<longrightarrow> I S \<longrightarrow> I S')"

lemma kept_byD: "kept_by L I \<Longrightarrow> L l \<Longrightarrow> queue_step l S T \<Longrightarrow> I S \<Longrightarrow> I T"
  unfolding kept_by_def by blast

lemma kept_trace:
  assumes "queue_trace ls S S'" "kept_by L I" "\<forall>l \<in> set ls. L l" "I S"
  shows "I S'"
  using assms
proof (induction rule: queue_trace.induct)
  case (Step l S S1 ls S')
  have l: "L l" "\<forall>l \<in> set ls. L l" using Step.prems(2) by auto
  show ?case by (rule Step.IH [OF Step.prems(1) l(2) kept_byD [OF Step.prems(1) l(1) Step.hyps(1) Step.prems(3)]])
qed

definition queue_sat :: "('d \<Rightarrow> redis_db) \<Rightarrow> 'a DelayQueue \<Rightarrow> string \<Rightarrow> (queue_state \<Rightarrow> bool) \<Rightarrow> 'd \<Rightarrow> bool" where
  "queue_sat db q n I d \<longleftrightarrow> db_wf (db d) \<and> (\<exists>S. queue_at q n (db d) S \<and> I S)"

lemma queue_satI: "db_wf (db d) \<Longrightarrow> queue_at q n (db d) S \<Longrightarrow> I S \<Longrightarrow> queue_sat db q n I d"
  unfolding queue_sat_def by blast

lemma queue_satE:
  assumes "queue_sat db q n I d"
  obtains S where "db_wf (db d)" "queue_at q n (db d) S" "I S"
  using assms unfolding queue_sat_def by (elim conjE exE) (rule that)

lemma queue_at_space: "same_space q' q \<Longrightarrow> queue_at q' n db S = queue_at q n db S"
  unfolding same_space_def by (rule queue_at_ns)

lemma did_sat:
  assumes "did db q' n S d' (\<lambda>ls. \<forall>l \<in> set ls. L l)" "same_space q' q" "kept_by L I" "I S"
  shows "queue_sat db q n I d'"
proof (rule didE [OF assms(1)])
  fix ls T
  assume 1: "db_wf (db d')" "queue_at q' n (db d') T" "queue_trace ls S T" "\<forall>l \<in> set ls. L l"
  show ?thesis
    by (rule queue_satI [where db = db and d = d' and I = I, OF 1(1) 1(2) [unfolded queue_at_space [OF assms(2)]] kept_trace [OF 1(3) assms(3) 1(4) assms(4)]])
qed


text \<open>A run keeps what the steps keep.\<close>

lemma LPUSH_dead:
  assumes "redis_law R db" "db_wf (db d)" "queue_at q n (db d) S" "moveToDead J R now q n t d = d'"
  shows "db_wf (db d') \<and> queue_at q n (db d') S"
proof -
  have k: "deadKey q n \<notin> {zsetKey q n, processingKey q n, hashKey q n}" using dq_keys_distinct [of q n] by auto
  show ?thesis
  proof (cases "dj_Marshal J t")
    case (Inl e)
    then show ?thesis using assms by (simp add: moveToDead_def)
  next
    case (Inr x)
    obtain y where y: "client R now (LPUSH (deadKey q n) x) d = (y, d')"
      using assms(4) Inr by (auto simp: moveToDead_def client_err_def split: prod.splits)
    show ?thesis using client_db [OF assms(1,2) y] assms(3) redis_do_other [OF k] by metis
  qed
qed


lemma EnqueueAt_labels: "enq t \<Longrightarrow> enq_labels J t ls \<Longrightarrow> \<forall>l \<in> set ls. run_labels J ok enq l"
  by (auto simp: enq_labels_def run_labels_def)

lemma take_labels_ok: "ok now \<Longrightarrow> take_labels J q now b ts ls \<Longrightarrow> \<forall>l \<in> set ls. run_labels J ok enq l"
  unfolding take_labels_def by (elim disjE conjE exE) (auto simp: run_labels_def intro!: exI [of _ now])

lemma queue_run_kept:
  assumes "redis_law R db" "kept_by (run_labels J ok enq) I" "queue_run J R db q n ok enq d d'" "queue_sat db q n I d"
  shows "queue_sat db q n I d'"
  using assms(3)
proof (induction rule: queue_run.induct)
  case Idle
  show ?case by (rule assms(4))
next
  case (World d1 d2)
  then show ?case by (simp add: queue_sat_def)
next
  case (Enqueue d1 q' t now e d2)
  obtain S where S: "db_wf (db d1)" "queue_at q n (db d1) S" "I S" by (rule queue_satE [OF Enqueue.IH])
  have "did db q' n S d2 (\<lambda>ls. enq_labels J t ls \<and> (e = None \<longrightarrow> ls \<noteq> []))"
    by (rule EnqueueAt_did [OF assms(1) S(1) _ Enqueue.hyps(4)]) (simp add: S(2) queue_at_space [OF Enqueue.hyps(2)])
  then have "did db q' n S d2 (\<lambda>ls. \<forall>l \<in> set ls. run_labels J ok enq l)"
    by (rule did_weaken) (rule EnqueueAt_labels [where enq = enq and t = t, OF Enqueue.hyps(3)], simp)
  then show ?case by (rule did_sat [OF _ Enqueue.hyps(2) assms(2) S(3)])
next
  case (Cancel d1 q' now m x d2)
  obtain S where S: "db_wf (db d1)" "queue_at q n (db d1) S" "I S" by (rule queue_satE [OF Cancel.IH])
  have "did db q' n S d2 (\<lambda>ls. ls = [] \<or> ls = [LCancel m])"
    by (rule Cancel_did [OF assms(1) S(1) _ Cancel.hyps(3)]) (simp add: S(2) queue_at_space [OF Cancel.hyps(2)])
  then have "did db q' n S d2 (\<lambda>ls. \<forall>l \<in> set ls. run_labels J ok enq l)"
    by (rule did_weaken) (auto simp: run_labels_def)
  then show ?case by (rule did_sat [OF _ Cancel.hyps(2) assms(2) S(3)])
next
  case (Ack d1 q' now m e d2)
  obtain S where S: "db_wf (db d1)" "queue_at q n (db d1) S" "I S" by (rule queue_satE [OF Ack.IH])
  have "did db q' n S d2 (\<lambda>ls. ls = [] \<or> ls = [LAck m])"
    by (rule ack_did [OF assms(1) S(1) _ Ack.hyps(3)]) (simp add: S(2) queue_at_space [OF Ack.hyps(2)])
  then have "did db q' n S d2 (\<lambda>ls. \<forall>l \<in> set ls. run_labels J ok enq l)"
    by (rule did_weaken) (auto simp: run_labels_def)
  then show ?case by (rule did_sat [OF _ Ack.hyps(2) assms(2) S(3)])
next
  case (Stale d1 q' now y d2)
  obtain S where S: "db_wf (db d1)" "queue_at q n (db d1) S" "I S" by (rule queue_satE [OF Stale.IH])
  have "did db q' n S d2 (\<lambda>ls. ls = [] \<or> (\<exists>ms. ls = [LBack (unix_milli now) ms]))"
    by (rule requeueStale_did [OF assms(1) S(1) _ Stale.hyps(4)]) (simp add: S(2) queue_at_space [OF Stale.hyps(2)])
  then have "did db q' n S d2 (\<lambda>ls. \<forall>l \<in> set ls. run_labels J ok enq l)"
    by (rule did_weaken) (use Stale.hyps(3) in \<open>auto simp: run_labels_def\<close>)
  then show ?case by (rule did_sat [OF _ Stale.hyps(2) assms(2) S(3)])
next
  case (Dequeue d1 q' now z d2)
  obtain S where S: "db_wf (db d1)" "queue_at q n (db d1) S" "I S" by (rule queue_satE [OF Dequeue.IH])
  have "did db q' n S d2 (take_labels J q' now (snd (snd S)) (given z))"
    by (rule dequeueExpired_did [OF assms(1) S(1) _ Dequeue.hyps(4)]) (simp add: S(2) queue_at_space [OF Dequeue.hyps(2)])
  then have "did db q' n S d2 (\<lambda>ls. \<forall>l \<in> set ls. run_labels J ok enq l)"
    by (rule did_weaken) (rule take_labels_ok [where ok = ok and now = now, OF Dequeue.hyps(3)])
  then show ?case by (rule did_sat [OF _ Dequeue.hyps(2) assms(2) S(3)])
next
  case (Poll d1 q' now z d2)
  obtain S where S: "db_wf (db d1)" "queue_at q n (db d1) S" "I S" by (rule queue_satE [OF Poll.IH])
  have "did db q' n S d2 (take_labels J q' now (snd (snd S)) (given z))"
    by (rule pollExpired_did [OF assms(1) S(1) _ Poll.hyps(4)]) (simp add: S(2) queue_at_space [OF Poll.hyps(2)])
  then have "did db q' n S d2 (\<lambda>ls. \<forall>l \<in> set ls. run_labels J ok enq l)"
    by (rule did_weaken) (rule take_labels_ok [where ok = ok and now = now, OF Poll.hyps(3)])
  then show ?case by (rule did_sat [OF _ Poll.hyps(2) assms(2) S(3)])
next
  case (Dead d1 q' now t d2)
  obtain S where S: "db_wf (db d1)" "queue_at q n (db d1) S" "I S" by (rule queue_satE [OF Dead.IH])
  have "db_wf (db d2) \<and> queue_at q' n (db d2) S"
    by (rule LPUSH_dead [OF assms(1) S(1) _ Dead.hyps(3)]) (simp add: S(2) queue_at_space [OF Dead.hyps(2)])
  then have *: "db_wf (db d2)" "queue_at q n (db d2) S" using queue_at_space [OF Dead.hyps(2)] by simp_all
  show ?case by (rule queue_satI [where db = db and d = d2 and I = I, OF * S(3)])
qed


section \<open>Invariants\<close>

text \<open>No body without a place in one of the two sorted sets.\<close>

definition no_orphan :: "queue_state \<Rightarrow> bool" where
  "no_orphan S \<longleftrightarrow> (case S of (r, p, b) \<Rightarrow> \<forall>m. b m \<noteq> None \<longrightarrow> r m \<noteq> None \<or> p m \<noteq> None)"

lemma no_orphan_kept: "kept_by L no_orphan"
  unfolding kept_by_def
  by (intro allI impI, erule queue_stepE) (auto simp: no_orphan_def moved_def gone_def split: if_splits)

text \<open>A key that is being processed until \<open>v\<close>, or is done.\<close>

definition held :: "int \<Rightarrow> string \<Rightarrow> queue_state \<Rightarrow> bool" where
  "held v k S \<longleftrightarrow> (case S of (r, p, b) \<Rightarrow> r k = None \<and> (\<forall>s. p k = Some s \<longrightarrow> v \<le> s))"

lemma held_kept: "kept_by (run_labels J (\<lambda>t. unix_milli t < v) (\<lambda>t. dt_Key t \<noteq> k)) (held v k)"
  unfolding kept_by_def
proof (intro allI impI)
  fix l S S'
  assume l: "run_labels J (\<lambda>t. unix_milli t < v) (\<lambda>t. dt_Key t \<noteq> k) l" and s: "queue_step l S S'" and h: "held v k S"
  show "held v k S'" using s
  proof cases
    case (Back t n p ms r b)
    then have "k \<notin> set ms" using l h by (fastforce simp: held_def run_labels_def due_range_def)
    then show ?thesis using Back h by (simp add: held_def moved_def gone_def)
  next
    case (Take t n r ms v' p b)
    then have "k \<notin> set ms" using h by (fastforce simp: held_def due_range_def)
    then show ?thesis using Take h by (simp add: held_def moved_def gone_def)
  qed (use l h in \<open>auto simp: held_def run_labels_def\<close>)
qed

text \<open>A body is a task with the key it is stored at. The JSON library reads back a task with its key.\<close>

definition task_json_law :: "'a task_json \<Rightarrow> bool" where
  "task_json_law J \<longleftrightarrow> (\<forall>t x. dj_Marshal J t = Inr x \<longrightarrow> (\<exists>t'. dj_Unmarshal J x = Inr t' \<and> dt_Key t' = dt_Key t))"

definition sound :: "'a task_json \<Rightarrow> queue_state \<Rightarrow> bool" where
  "sound J S \<longleftrightarrow> (\<forall>m x. snd (snd S) m = Some x \<longrightarrow> (\<exists>t. dj_Unmarshal J x = Inr t \<and> dt_Key t = m))"

lemma sound_kept: "task_json_law J \<Longrightarrow> kept_by (run_labels J ok enq) (sound J)"
  unfolding kept_by_def
  by (intro allI impI, erule queue_stepE) (auto simp: sound_def run_labels_def task_json_law_def split: if_splits)

lemma kept_by_conj: "kept_by L I \<Longrightarrow> kept_by L I' \<Longrightarrow> kept_by L (\<lambda>S. I S \<and> I' S)"
  unfolding kept_by_def by blast

lemma kept_by_mono: "kept_by L I \<Longrightarrow> (\<And>l. L' l \<Longrightarrow> L l) \<Longrightarrow> kept_by L' I"
  unfolding kept_by_def by blast

text \<open>What a poll gives out are the tasks of the keys it takes.\<close>

lemma parse_keys:
  assumes "sound J S" "task \<in> set (dq_parse J (bodies (snd (snd S)) ms))"
  shows "dt_Key task \<in> set ms"
proof -
  obtain m x where m: "m \<in> set ms" "snd (snd S) m = Some x" "dj_Unmarshal J x = Inr task"
    using assms(2) by (auto simp: dq_parse_def bodies_def split: option.splits sum.splits dest!: sym [of "Some _"] sym [of "Inr _"])
  then show ?thesis using assms(1) unfolding sound_def by fastforce
qed

text \<open>The keys of what is given out, one for each body.\<close>

lemma parse_all:
  assumes "sound J S" "distinct ms"
  shows "map dt_Key (dq_parse J (bodies (snd (snd S)) ms)) = filter (\<lambda>m. snd (snd S) m \<noteq> None) ms"
  using assms(2)
proof (induction ms)
  case (Cons m ms)
  show ?case
  proof (cases "snd (snd S) m")
    case None
    then show ?thesis using Cons by (simp add: dq_parse_def bodies_def)
  next
    case (Some x)
    then obtain t where "dj_Unmarshal J x = Inr t" "dt_Key t = m" using assms(1) unfolding sound_def by blast
    then show ?thesis using Cons Some by (simp add: dq_parse_def bodies_def)
  qed
qed (simp add: dq_parse_def bodies_def)

text \<open>A range with room for all that is due has all that is due.\<close>

definition due :: "int \<Rightarrow> (string \<rightharpoonup> int) \<Rightarrow> string set" where
  "due t p = {m. \<exists>s. p m = Some s \<and> s \<le> t}"

lemma due_range_all:
  assumes "due_range t n p ms" "finite (due t p)" "int (card (due t p)) \<le> n"
  shows "set ms = due t p"
proof (rule card_subset_eq [OF assms(2)])
  show sub: "set ms \<subseteq> due t p" using assms(1) by (auto simp: due_range_def due_def)
  have n: "0 \<le> n" using assms(3) by linarith
  have d: "distinct ms" using assms(1) by (simp add: due_range_def)
  show "card (set ms) = card (due t p)"
  proof (rule ccontr)
    assume c: "card (set ms) \<noteq> card (due t p)"
    then have "set ms \<noteq> due t p" by auto
    then obtain m where m: "m \<in> due t p" "m \<notin> set ms" using sub by blast
    then have "length ms = nat n" using assms(1) n unfolding due_range_def due_def by blast
    moreover have "card (set ms) < card (due t p)" using sub m psubset_card_mono [OF assms(2)] by blast
    ultimately show False using assms(3) distinct_card [OF d] by linarith
  qed
qed


section \<open>What a poll promises\<close>

lemma pollExpired_sat:
  assumes "redis_law R db" "task_json_law J" "queue_sat db q n (sound J) d" "pollExpired J R t q n d = (x, d')"
  shows "queue_sat db q n (\<lambda>S. sound J S \<and> (\<forall>task \<in> set (given x). held (unix_milli (t + dqc_VisibilityTimeout (dq_config q))) (dt_Key task) S)) d'"
proof -
  let ?v = "unix_milli (t + dqc_VisibilityTimeout (dq_config q))"
  obtain S where S: "db_wf (db d)" "queue_at q n (db d) S" "sound J S" by (rule queue_satE [OF assms(3)])
  obtain ls T where T: "db_wf (db d')" "queue_at q n (db d') T" "queue_trace ls S T" "take_labels J q t (snd (snd S)) (given x) ls"
    by (rule didE [OF pollExpired_did [OF assms(1) S(1,2) assms(4)]])
  have s: "sound J T"
    by (rule kept_trace [OF T(3) sound_kept [OF assms(2)] take_labels_ok [OF _ T(4)] S(3), where ok1 = "\<lambda>_. True"]) simp
  have "held ?v (dt_Key task) T" if g: "task \<in> set (given x)" for task
  proof -
    obtain bk ms where ls: "ls = bk @ [LTake (unix_milli t) ?v ms]" "given x = dq_parse J (bodies (snd (snd S)) ms)"
      using T(4) g by (auto simp: take_labels_def)
    have k: "dt_Key task \<in> set ms" using parse_keys [OF S(3)] g ls(2) by simp
    obtain U where "queue_step (LTake (unix_milli t) ?v ms) U T"
      using queue_trace_snoc [OF T(3) [unfolded ls(1)]] by blast
    then show ?thesis by (cases rule: queue_step.cases) (use k in \<open>auto simp: held_def moved_def gone_def\<close>)
  qed
  then have "sound J T \<and> (\<forall>task \<in> set (given x). held ?v (dt_Key task) T)" using s by blast
  then show ?thesis by (rule queue_satI [where db = db and d = d' and q = q and n = n, OF T(1,2)])
qed

lemma pollExpired_not_held:
  assumes "redis_law R db" "task_json_law J" "queue_sat db q n (\<lambda>S. sound J S \<and> held v k S) d" "unix_milli t < v"
    "pollExpired J R t q n d = (x, d')"
  shows "k \<notin> dt_Key ` set (given x)"
proof
  assume "k \<in> dt_Key ` set (given x)"
  then obtain task where g: "task \<in> set (given x)" "dt_Key task = k" by blast
  obtain S where S: "db_wf (db d)" "queue_at q n (db d) S" "sound J S \<and> held v k S" by (rule queue_satE [OF assms(3)])
  obtain ls T where T: "queue_trace ls S T" "take_labels J q t (snd (snd S)) (given x) ls"
    by (rule didE [OF pollExpired_did [OF assms(1) S(1,2) assms(5)]])
  obtain bk ms v' where ls: "ls = bk @ [LTake (unix_milli t) v' ms]" "given x = dq_parse J (bodies (snd (snd S)) ms)"
    "bk = [] \<or> (\<exists>ms'. bk = [LBack (unix_milli t) ms'])"
    using T(2) g(1) by (auto simp: take_labels_def)
  have k: "k \<in> set ms" using parse_keys [of J S task ms] g ls(2) S(3) by simp
  obtain U where U: "queue_trace bk S U" "queue_step (LTake (unix_milli t) v' ms) U T"
    using queue_trace_snoc [OF T(1) [unfolded ls(1)]] by blast
  have "\<forall>l \<in> set bk. run_labels J (\<lambda>t. unix_milli t < v) (\<lambda>t. dt_Key t \<noteq> k) l"
    using ls(3) assms(4) by (auto simp: run_labels_def)
  then have "held v k U" by (rule kept_trace [OF U(1) held_kept]) (use S(3) in simp)
  from U(2) this k show False by (cases rule: queue_step.cases) (fastforce simp: held_def due_range_def)+
qed

end
