(* ===== verification/Delay_Queue_Props.thy ===== *)
theory Delay_Queue_Props
  imports Delay_Queue_Correct
begin

text \<open>
  The promises of the delay queue over its public operations and its consumers, with several nodes on
  one server; then the ways in which a task is lost, or a stop never ends, all the same.
\<close>

section \<open>Nodes\<close>

text \<open>The parts of a consumer are runs of the queue when its handler leaves the database alone.\<close>

definition quiet_handler :: "('d \<Rightarrow> redis_db) \<Rightarrow> ('a, 'd) task_handler \<Rightarrow> bool" where
  "quiet_handler db h \<longleftrightarrow> (\<forall>t d. db (snd (h t d)) = db d)"

abbreviation any_run ::
  "'a task_json \<Rightarrow> 'd redis \<Rightarrow> ('d \<Rightarrow> redis_db) \<Rightarrow> 'a DelayQueue \<Rightarrow> string \<Rightarrow> 'd \<Rightarrow> 'd \<Rightarrow> bool" where
  "any_run J R db q n \<equiv> queue_run J R db q n (\<lambda>_. True) (\<lambda>_. True)"

lemma ack_run: "any_run J R db q n d d1 \<Longrightarrow> same_space q' q \<Longrightarrow> any_run J R db q n d (snd (dq_ack R now q' n m d1))"
  by (cases "dq_ack R now q' n m d1") (auto intro: queue_run.Ack)

lemma enqueue_run: "any_run J R db q n d d1 \<Longrightarrow> same_space q' q \<Longrightarrow> any_run J R db q n d (snd (EnqueueAt J R now q' n (Some t) d1))"
  by (cases "EnqueueAt J R now q' n (Some t) d1") (auto intro: queue_run.Enqueue)

lemma handleTask_run:
  assumes "any_run J R db q n d d1" "same_space q' q" "quiet_handler db h"
  shows "any_run J R db q n d (handleTask J R now q' n h mr rd task d1)"
proof -
  obtain e d2 where h: "h task d1 = (e, d2)" by (cases "h task d1")
  have "db d2 = db d1" using assms(3) h unfolding quiet_handler_def by (metis snd_conv)
  then have "any_run J R db q n d d2" by (rule queue_run.World [OF assms(1)])
  note a = ack_run [OF this assms(2), of now "dt_Key task"]
  show ?thesis
    using a enqueue_run [OF a assms(2)] queue_run.Dead [OF a assms(2)]
    by (auto simp: handleTask_def h Let_def reEnqueueWithDelay_def split: option.splits)
qed

lemma dq_ordered_run:
  assumes "any_run J R db q n d d1" "same_space q' q" "quiet_handler db h"
  shows "any_run J R db q n d (dq_ordered J R tm q' n h mr rd ctxDone i ts d1)"
  using assms(1)
  by (induction ts arbitrary: i d1) (simp_all add: handleTask_run [OF _ assms(2,3)])

lemma dq_submit_run:
  assumes "any_run J R db q n d d1" "same_space q' q"
  shows "any_run J R db q n d (snd (dq_submit J R tm q' n accept i ts d1))"
  using assms(1)
proof (induction ts arbitrary: i d1)
  case (Cons t ts)
  note e = enqueue_run [OF ack_run [OF Cons.prems assms(2)] assms(2), of "tm i" "t\<lparr>dt_ExecuteAt := Some (tm i)\<rparr>" "tm i" "dt_Key t"]
  show ?case using Cons.IH [OF Cons.prems, of "Suc i"] Cons.IH [OF e, of "Suc i"]
    by (auto simp: Let_def reEnqueue_def split: prod.splits)
qed simp

lemma client_int_run:
  assumes "\<And>d'. db d' = db d1 \<Longrightarrow> any_run J R db q n d d'" "redis_law R db" "db_wf (db d1)"
  shows "any_run J R db q n d (snd (ReadyLength R now q' n' d1))"
proof -
  obtain x d' where 1: "client R now (ZCARD (zsetKey q' n')) d1 = (x, d')" by (cases "client R now (ZCARD (zsetKey q' n')) d1")
  have "snd (redis_do now (ZCARD (zsetKey q' n')) (db d1)) = db d1"
    by (auto simp: redis_do_simps on_defs split: option.splits redis_value.splits)
  then have "db d' = db d1" using client_db [OF assms(2,3) 1] by auto
  then show ?thesis using assms(1) 1 by (simp add: ReadyLength_def client_int_def)
qed

text \<open>
  What the nodes of a program do with a queue: the public operations, and the polls and tasks of their
  consumers, with any clocks and whatever the network does.
\<close>

inductive node_run ::
  "'a task_json \<Rightarrow> 'd redis \<Rightarrow> ('d \<Rightarrow> redis_db) \<Rightarrow> ('a, 'd) task_handler \<Rightarrow> 'a DelayQueue \<Rightarrow> string \<Rightarrow> 'd \<Rightarrow> 'd \<Rightarrow> bool"
  for J R db h q n d where
  Idle: "node_run J R db h q n d d"
| Enqueue: "node_run J R db h q n d d1 \<Longrightarrow> same_space q' q \<Longrightarrow> EnqueueAt J R now q' n t d1 = (e, d2) \<Longrightarrow> node_run J R db h q n d d2"
| Delay: "node_run J R db h q n d d1 \<Longrightarrow> same_space q' q \<Longrightarrow> EnqueueWithDelay J R now q' n t w d1 = (e, d2) \<Longrightarrow>
    node_run J R db h q n d d2"
| Cancel: "node_run J R db h q n d d1 \<Longrightarrow> same_space q' q \<Longrightarrow> dq_Cancel R now q' n m d1 = (x, d2) \<Longrightarrow> node_run J R db h q n d d2"
| Poll: "node_run J R db h q n d d1 \<Longrightarrow> same_space q' q \<Longrightarrow> co_queue (dq_goroutines q' ! i) = n \<Longrightarrow>
    co_poll J R now tm h mr rd ctxDone accept i q' d1 = (q'', d2) \<Longrightarrow> node_run J R db h q n d d2"
| Task: "node_run J R db h q n d d1 \<Longrightarrow> same_space q' q \<Longrightarrow> co_queue (dq_goroutines q' ! i) = n \<Longrightarrow>
    co_task J R now h mr rd i q' d1 = (q'', d2) \<Longrightarrow> node_run J R db h q n d d2"

lemma queue_run_wf:
  assumes "redis_law R db" "any_run J R db q n d d'" "queue_sat db q n (\<lambda>_. True) d"
  shows "db_wf (db d')"
proof (rule queue_satE [OF queue_run_kept [OF assms(1) _ assms(2,3)]])
  show "kept_by (run_labels J (\<lambda>_. True) (\<lambda>_. True)) (\<lambda>_. True)" by (simp add: kept_by_def)
qed

lemma pollOnce_run:
  assumes "redis_law R db" "queue_sat db q n (\<lambda>_. True) d" "any_run J R db q n d d1" "same_space q' q" "quiet_handler db h"
  shows "any_run J R db q n d (snd (pollOnce J R now tm q' n h mr rd ctxDone accept d1))"
proof -
  define d0 where "d0 = (if 0 < dqc_MaxReadySize (dq_config q') then snd (ReadyLength R now q' n d1) else d1)"
  have 0: "any_run J R db q n d d0"
    using client_int_run [OF queue_run.World [OF assms(3)] assms(1) queue_run_wf [OF assms(1,3,2)], where q' = q' and n' = n] assms(3)
    by (simp add: d0_def)
  obtain z d2 where p: "pollExpired J R now q' n d0 = (z, d2)" by (cases "pollExpired J R now q' n d0")
  have 2: "any_run J R db q n d d2" by (rule queue_run.Poll [OF 0 assms(4) TrueI p])
  show ?thesis using 2 dq_ordered_run [OF 2 assms(4,5)] dq_submit_run [OF 2 assms(4)]
    by (cases z) (simp_all add: pollOnce_def Let_def p flip: d0_def)
qed

lemma node_run_queue_run:
  assumes "redis_law R db" "queue_sat db q n (\<lambda>_. True) d" "quiet_handler db h" "node_run J R db h q n d d'"
  shows "any_run J R db q n d d'"
  using assms(4)
proof (induction rule: node_run.induct)
  case Idle
  show ?case by (rule queue_run.Idle)
next
  case (Enqueue d1 q' now t e d2)
  show ?case
  proof (cases t)
    case None
    then have "d2 = d1" using Enqueue.hyps(3) by (simp add: EnqueueAt_def split: if_splits)
    then show ?thesis using Enqueue.IH by simp
  next
    case (Some a)
    show ?thesis by (rule queue_run.Enqueue [OF Enqueue.IH Enqueue.hyps(2) TrueI Enqueue.hyps(3) [unfolded Some]])
  qed
next
  case (Delay d1 q' now t w e d2)
  show ?case
  proof (cases t)
    case None
    then show ?thesis using Delay.IH Delay.hyps(3) by (simp add: EnqueueWithDelay_def)
  next
    case (Some a)
    then have "EnqueueAt J R now q' n (Some (a\<lparr>dt_ExecuteAt := Some (now + w)\<rparr>)) d1 = (e, d2)"
      using Delay.hyps(3) by (simp add: EnqueueWithDelay_def)
    then show ?thesis by (rule queue_run.Enqueue [OF Delay.IH Delay.hyps(2) TrueI])
  qed
next
  case (Cancel d1 q' now m x d2)
  then show ?case by (blast intro: queue_run.Cancel)
next
  case (Poll d1 q' i now tm mr rd ctxDone accept q'' d2)
  then show ?case using pollOnce_run [OF assms(1,2) Poll.IH Poll.hyps(2) assms(3), of now tm mr rd ctxDone accept]
    by (auto simp: co_poll_def split: if_splits prod.splits)
next
  case (Task d1 q' i now mr rd q'' d2)
  then show ?case using handleTask_run [OF Task.IH Task.hyps(2) assms(3)]
    by (auto simp: co_task_def split: if_splits list.splits)
qed


section \<open>Promises\<close>

text \<open>A queue and a JSON library for the examples: the tasks of the examples have no data.\<close>

definition ex_queue :: "unit DelayQueue" where
  "ex_queue = \<lparr>dq_config = DefaultDelayQueueConfig, dq_closed = False, dq_consumers = [], dq_goroutines = []\<rparr>"

definition ex_task :: "string \<Rightarrow> unit DelayTask" where
  "ex_task k = \<lparr>dt_Key = k, dt_Data = (), dt_ExecuteAt = Some 0, dt_RetryCount = 0\<rparr>"

definition ex_json :: "unit task_json" where
  "ex_json = \<lparr>dj_Marshal = (\<lambda>t. Inr (dt_Key t)), dj_Unmarshal = (\<lambda>x. Inr (ex_task x))\<rparr>"

lemma ex_json_law: "task_json_law ex_json"
  by (simp add: task_json_law_def ex_json_def ex_task_def)

lemma queue_at_empty: "queue_at q n Map.empty (Map.empty, Map.empty, Map.empty)"
  using dq_keys_distinct [of q n]
  by (auto simp: queue_at_def same_queue_def queue_keys_def zset_key_def hash_key_def zalist_def halist_def)

lemma queue_sat_empty: "I (Map.empty, Map.empty, Map.empty) \<Longrightarrow> queue_sat id q n I Map.empty"
  by (rule queue_satI [OF _ _, where I = I]) (simp_all add: queue_at_empty)

lemma queue_sat_mono: "queue_sat db q n I d \<Longrightarrow> (\<And>S. I S \<Longrightarrow> I' S) \<Longrightarrow> queue_sat db q n I' d"
  unfolding queue_sat_def by meson

text \<open>C9: No operation of any node, and no loss of a request or of a reply, leaves the body of a task
  without a place in the ready or in the processing set: a task that has been accepted stays where a
  poll of some consumer will find it until it is acknowledged or cancelled.\<close>
theorem dq_no_orphan:
  assumes "redis_law R db" "quiet_handler db h" "queue_sat db q n no_orphan d" "node_run J R db h q n d d'"
  shows "queue_sat db q n no_orphan d'"
proof -
  have "any_run J R db q n d d'"
    by (rule node_run_queue_run [OF assms(1) queue_sat_mono [OF assms(3)] assms(2,4)]) simp
  then show ?thesis by (rule queue_run_kept [OF assms(1) no_orphan_kept _ assms(3)])
qed

theorem dq_no_orphan_witness:
  "queue_sat id ex_queue ''q'' no_orphan (snd (EnqueueAt ex_json redis_ref 0 ex_queue ''q'' (Some (ex_task ''k'')) Map.empty))"
proof (rule dq_no_orphan [OF redis_ref_law(1), where h = "\<lambda>t d. (None, d)" and J = ex_json])
  show "quiet_handler id (\<lambda>t d. (None, d))" by (simp add: quiet_handler_def)
  show "queue_sat id ex_queue ''q'' no_orphan Map.empty" by (rule queue_sat_empty) (simp add: no_orphan_def)
  show "node_run ex_json redis_ref id (\<lambda>t d. (None, d)) ex_queue ''q'' Map.empty
      (snd (EnqueueAt ex_json redis_ref 0 ex_queue ''q'' (Some (ex_task ''k'')) Map.empty))"
    by (rule node_run.Enqueue [OF node_run.Idle _ surjective_pairing]) (simp add: same_space_def)
qed

definition ex_db :: redis_db where
  "ex_db = snd (EnqueueAt ex_json redis_ref 0 ex_queue ''q'' (Some (ex_task ''k'')) Map.empty)"

lemma ex_db_sound: "queue_sat id ex_queue ''q'' (sound ex_json) ex_db"
proof (rule queue_run_kept [OF redis_ref_law(1) sound_kept [OF ex_json_law]])
  show "any_run ex_json redis_ref id ex_queue ''q'' Map.empty ex_db"
    unfolding ex_db_def by (rule enqueue_run [OF queue_run.Idle]) (simp add: same_space_def)
  show "queue_sat id ex_queue ''q'' (sound ex_json) Map.empty" by (rule queue_sat_empty) (simp add: sound_def)
qed

lemma ex_poll_one: "given (fst (pollExpired ex_json redis_ref 0 ex_queue ''q'' ex_db)) = [ex_task ''k'']"
  by code_simp

text \<open>C10: While a task that a poll has given to a consumer is invisible, no poll of any node gives it out
  again, whatever else the nodes do, as long as no task with the same key is enqueued in between. (A
  caller can do that, the retry of a handler that failed does it, and a node whose pool is full.)\<close>
theorem dq_exclusive:
  assumes "redis_law R db" "task_json_law J" "queue_sat db q n (sound J) d"
    "pollExpired J R t1 q n d = (x, d1)" "task \<in> set (given x)" "v = unix_milli (t1 + dqc_VisibilityTimeout (dq_config q))"
    "queue_run J R db q n (\<lambda>t. unix_milli t < v) (\<lambda>t. dt_Key t \<noteq> dt_Key task) d1 d2"
    "same_space q' q" "unix_milli t2 < v" "pollExpired J R t2 q' n d2 = (y, d3)"
  shows "dt_Key task \<notin> dt_Key ` set (given y)"
proof (rule pollExpired_not_held [OF assms(1,2) _ assms(9,10)])
  have "queue_sat db q n (\<lambda>S. sound J S \<and> held v (dt_Key task) S) d1"
    by (rule queue_sat_mono [OF pollExpired_sat [OF assms(1-4)]]) (use assms(5,6) in auto)
  then have "queue_sat db q n (\<lambda>S. sound J S \<and> held v (dt_Key task) S) d2"
    by (rule queue_run_kept [OF assms(1) kept_by_conj [OF sound_kept [OF assms(2)] held_kept] assms(7)])
  then show "queue_sat db q' n (\<lambda>S. sound J S \<and> held v (dt_Key task) S) d2"
    unfolding queue_sat_def queue_at_space [OF assms(8)] .
qed

theorem dq_exclusive_witness:
  "''k'' \<notin> dt_Key ` set (given (fst (pollExpired ex_json redis_ref second ex_queue ''q'' (snd (pollExpired ex_json redis_ref 0 ex_queue ''q'' ex_db)))))"
proof -
  have "dt_Key (ex_task ''k'') \<notin>
      dt_Key ` set (given (fst (pollExpired ex_json redis_ref second ex_queue ''q'' (snd (pollExpired ex_json redis_ref 0 ex_queue ''q'' ex_db)))))"
  proof (rule dq_exclusive [OF redis_ref_law(1) ex_json_law ex_db_sound surjective_pairing _ refl queue_run.Idle _ _ surjective_pairing])
    show "ex_task ''k'' \<in> set (given (fst (pollExpired ex_json redis_ref 0 ex_queue ''q'' ex_db)))" by (simp add: ex_poll_one)
    show "same_space ex_queue ex_queue" by (simp add: same_space_def)
    show "unix_milli second < unix_milli (0 + dqc_VisibilityTimeout (dq_config ex_queue))"
      by (simp add: unix_milli_def second_def ex_queue_def DefaultDelayQueueConfig_def)
  qed
  then show ?thesis by (simp add: ex_task_def)
qed

text \<open>C29: A poll on a server that answers gives out every task that is due - its time has come, or its last
  consumer has not acknowledged it in time - if they fit into a batch: exactly the due keys that have a
  body, each once.\<close>
theorem dq_poll_complete:
  assumes "redis_law R db" "redis_up R" "db_wf (db d)" "queue_at q n (db d) (r, p, b)" "sound J (r, p, b)"
    "int (card (due (unix_milli now) r \<union> due (unix_milli now) p)) \<le> dqc_BatchSize (dq_config q)"
  shows "\<exists>ts d'. pollExpired J R now q n d = (Inr ts, d') \<and> distinct (map dt_Key ts) \<and>
      dt_Key ` set ts = {m. m \<in> due (unix_milli now) r \<union> due (unix_milli now) p \<and> b m \<noteq> None}"
proof -
  let ?t = "unix_milli now" and ?n = "dqc_BatchSize (dq_config q)" and ?v = "unix_milli (now + dqc_VisibilityTimeout (dq_config q))"
  let ?s = "pollLuaScript (zsetKey q n) (processingKey q n) (hashKey q n) ?t ?n ?v"
  have k: "same_queue (zsetKey q n) (processingKey q n) (hashKey q n) (db d) r p b" using assms(4) by (simp add: queue_at_def)
  then have dom: "r = zs (db d) (zsetKey q n)" "p = zs (db d) (processingKey q n)" by (simp_all add: same_queue_def)
  have fin: "finite (due ?t r)" "finite (due ?t p)"
    unfolding dom due_def by (rule finite_subset [OF _ finite_dom_map_of]; auto)+
  obtain ms1 ms2 db1 where 1: "run_db now ?s (db d) = (Inr (bodies b ms2), db1)" "due_range ?t ?n p ms1" "due_range ?t ?n (moved ms1 ?t r) ms2"
    by (rule poll_db [OF k])
  obtain d' where "eval R now ?s d = (Inr (bodies b ms2), d')" by (rule eval_up [OF assms(1-3), of now ?s]) (simp add: 1)
  then have poll: "pollExpired J R now q n d = (Inr (dq_parse J (bodies b ms2)), d')" by (simp add: pollExpired_def)
  have "card (due ?t p) \<le> card (due ?t r \<union> due ?t p)" using fin by (simp add: card_mono)
  then have s1: "set ms1 = due ?t p" using due_range_all [OF 1(2) fin(2)] assms(6) by linarith
  have m: "due ?t (moved ms1 ?t r) = due ?t r \<union> due ?t p" by (auto simp: due_def moved_def s1 split: if_splits)
  then have s2: "set ms2 = due ?t r \<union> due ?t p" using due_range_all [OF 1(3)] fin assms(6) by simp
  have d: "distinct ms2" using 1(3) by (simp add: due_range_def)
  have keys: "map dt_Key (dq_parse J (bodies b ms2)) = filter (\<lambda>m. b m \<noteq> None) ms2" using parse_all [OF assms(5) d] by simp
  have "distinct (map dt_Key (dq_parse J (bodies b ms2)))" "dt_Key ` set (dq_parse J (bodies b ms2)) = set (filter (\<lambda>m. b m \<noteq> None) ms2)"
    using keys d by (metis distinct_filter, metis set_map)
  then show ?thesis using poll s2 by auto
qed

lemma ex_db_at: "queue_at ex_queue ''q'' ex_db ([''k'' \<mapsto> 0], Map.empty, [''k'' \<mapsto> ''k''])"
  by (simp add: queue_at_def same_queue_def queue_keys_def ex_db_def EnqueueAt_def eval_def redis_ref_def enqueueLuaScript_def ex_queue_def
      zsetKey_def processingKey_def hashKey_def ex_json_def ex_task_def redis_do_simps on_defs DefaultDelayQueueConfig_def unix_milli_def
      zset_key_def hash_key_def zalist_def halist_def put_def at_def deadline_of_def fun_upd_def)

theorem dq_poll_complete_witness:
  "\<exists>ts d'. pollExpired ex_json redis_ref 0 ex_queue ''q'' ex_db = (Inr ts, d') \<and> distinct (map dt_Key ts) \<and>
      dt_Key ` set ts = {m. m \<in> due (unix_milli 0) [''k'' \<mapsto> 0] \<union> due (unix_milli 0) Map.empty \<and> [''k'' \<mapsto> ''k''] m \<noteq> None}"
proof (rule dq_poll_complete [OF redis_ref_law, where q = ex_queue and n = "''q''"])
  show "db_wf (id ex_db)" "sound ex_json ([''k'' \<mapsto> 0], Map.empty, [''k'' \<mapsto> ''k''])"
    by (rule queue_satE [OF ex_db_sound], simp) (simp add: sound_def ex_json_def ex_task_def)
  show "queue_at ex_queue ''q'' (id ex_db) ([''k'' \<mapsto> 0], Map.empty, [''k'' \<mapsto> ''k''])" using ex_db_at by simp
  have "due (unix_milli 0) [''k'' \<mapsto> 0] = {''k''}" "due (unix_milli 0) Map.empty = {}"
    by (auto simp: due_def unix_milli_def split: if_splits)
  then show "int (card (due (unix_milli 0) [''k'' \<mapsto> 0] \<union> due (unix_milli 0) Map.empty)) \<le> dqc_BatchSize (dq_config ex_queue)"
    by (simp add: ex_queue_def DefaultDelayQueueConfig_def)
qed


section \<open>Handling a task on a server that answers\<close>

definition queue_up :: "'d redis \<Rightarrow> ('d \<Rightarrow> redis_db) \<Rightarrow> 'a DelayQueue \<Rightarrow> string \<Rightarrow> 'd \<Rightarrow> queue_state \<Rightarrow> bool" where
  "queue_up R db q n d S \<longleftrightarrow> redis_law R db \<and> redis_up R \<and> db_wf (db d) \<and> queue_at q n (db d) S"

lemma queue_upD:
  assumes "queue_up R db q n d S"
  shows "redis_law R db" "redis_up R" "db_wf (db d)" "queue_at q n (db d) S"
  using assms by (simp_all add: queue_up_def)

lemma queue_up_cong: "queue_up R db q n d S \<Longrightarrow> db d' = db d \<Longrightarrow> queue_up R db q n d' S"
  by (simp add: queue_up_def)

abbreviation dq_others :: "'a DelayQueue \<Rightarrow> string \<Rightarrow> redis_db \<Rightarrow> redis_db \<Rightarrow> bool" where
  "dq_others q n \<equiv> others_same {zsetKey q n, processingKey q n, hashKey q n}"

lemma dead_same: "dq_others q n db db' \<Longrightarrow> db' (deadKey q n) = db (deadKey q n)"
  using dq_keys_distinct [of q n] by (auto simp: others_same_def)

lemma ack_up:
  assumes "queue_up R db q n d (r, p, b)" "p m \<noteq> None"
  obtains d' where "dq_ack R now q n m d = (None, d')" "queue_up R db q n d' (r, p(m := None), b(m := None))" "dq_others q n (db d) (db d')"
proof -
  note u = queue_upD [OF assms(1)]
  obtain db1 where 1: "run_db now (ackLuaScript (processingKey q n) (hashKey q n) m) (db d) = (Inr (if p m = None then 0 else 1), db1)"
    "same_queue (zsetKey q n) (processingKey q n) (hashKey q n) db1 r (p(m := None)) (if p m = None then b else b(m := None))"
    "dq_others q n (db d) db1"
    by (rule ack_db) (use u(4) in \<open>simp add: queue_at_def\<close>)
  obtain d' where d: "eval R now (ackLuaScript (processingKey q n) (hashKey q n) m) d = (fst (run_db now (ackLuaScript (processingKey q n) (hashKey q n) m) (db d)), d')"
    "db d' = snd (run_db now (ackLuaScript (processingKey q n) (hashKey q n) m) (db d))" "db_wf (db d')"
    by (rule eval_up [OF u(1-3)])
  show thesis by (rule that [of d']) (use d 1 u assms(2) in \<open>simp_all add: dq_ack_def queue_up_def queue_at_def\<close>)
qed

lemma enqueue_up:
  assumes "queue_up R db q n d (r, p, b)" "\<not> dq_closed q" "dt_ExecuteAt t = Some e" "dt_Key t \<noteq> []" "dj_Marshal J t = Inr x"
  obtains d' where "EnqueueAt J R now q n (Some t) d = (None, d')"
    "queue_up R db q n d' (r(dt_Key t \<mapsto> unix_milli e), p, b(dt_Key t \<mapsto> x))" "dq_others q n (db d) (db d')"
proof -
  note u = queue_upD [OF assms(1)]
  let ?s = "enqueueLuaScript (zsetKey q n) (hashKey q n) (unix_milli e) (dt_Key t) x"
  obtain db1 where 1: "run_db now ?s (db d) = (Inr 1, db1)"
    "same_queue (zsetKey q n) (processingKey q n) (hashKey q n) db1 (r(dt_Key t \<mapsto> unix_milli e)) p (b(dt_Key t \<mapsto> x))"
    "dq_others q n (db d) db1"
    by (rule enqueue_db) (use u(4) in \<open>simp add: queue_at_def\<close>)
  obtain d' where d: "eval R now ?s d = (fst (run_db now ?s (db d)), d')" "db d' = snd (run_db now ?s (db d))" "db_wf (db d')"
    by (rule eval_up [OF u(1-3)])
  show thesis by (rule that [of d']) (use d 1 u assms(2-) in \<open>simp_all add: EnqueueAt_def queue_up_def queue_at_def\<close>)
qed

lemma dead_up:
  assumes "queue_up R db q n d S" "list_key (db d) (deadKey q n)" "dj_Marshal J t = Inr x"
  shows "queue_up R db q n (moveToDead J R now q n t d) S"
    "lst (db (moveToDead J R now q n t d)) (deadKey q n) = x # lst (db d) (deadKey q n)"
proof -
  note u = queue_upD [OF assms(1)]
  obtain db1 where 1: "redis_do now (LPUSH (deadKey q n) x) (db d) = (RInt (int (length (lst (db d) (deadKey q n))) + 1), db1)"
    "lst db1 (deadKey q n) = x # lst (db d) (deadKey q n)"
    by (rule push_do [OF assms(2)])
  obtain d' where d: "client R now (LPUSH (deadKey q n) x) d = (Inr (RInt (int (length (lst (db d) (deadKey q n))) + 1)), d')" "db d' = db1"
    by (rule client_up [OF u(1-3) 1(1)]) simp_all
  have m: "moveToDead J R now q n t d = d'" using d assms(3) by (simp add: moveToDead_def client_err_def)
  show "lst (db (moveToDead J R now q n t d)) (deadKey q n) = x # lst (db d) (deadKey q n)" using m d(2) 1(2) by simp
  show "queue_up R db q n (moveToDead J R now q n t d) S" using LPUSH_dead [OF u(1,3,4) m] u m by (simp add: queue_up_def)
qed

lemma shift1_small:
  assumes "0 \<le> i" "i < 63"
  shows "shift1 i = 2 ^ nat i"
proof -
  have "2 ^ nat i \<le> (2 ^ 62 :: int)" using assms by (intro power_increasing) auto
  moreover have "0 \<le> (2 :: int) ^ nat i" by simp
  moreover have "(2 :: int) ^ 62 = 4611686018427387904" by simp
  ultimately have "in_int64 (2 ^ nat i)" unfolding in_int64_def min_int64_def max_int64_def by (intro conjI) linarith+
  then show ?thesis using assms(1) by (simp add: shift1_def wrap64_id)
qed

text \<open>C32: A task whose handler fails is taken out of processing and enqueued again with its count of retries
  raised, after a delay that doubles with every retry; when its retries are used up it is taken out of the
  queue and put in front of the dead letters instead. Nothing else in the queue changes.\<close>
theorem dq_retry:
  assumes "queue_up R db q n d (r, p, b)" "\<not> dq_closed q" "p (dt_Key task) \<noteq> None" "dt_Key task \<noteq> []"
    "h task d = (Some err, d1)" "db d1 = db d" "list_key (db d) (deadKey q n)" "\<forall>t. \<exists>x. dj_Marshal J t = Inr x"
    "0 \<le> dt_RetryCount task" "dt_RetryCount task < 62"
    "task' = task\<lparr>dt_RetryCount := dt_RetryCount task + 1,
       dt_ExecuteAt := Some (now + wrap64 (retryDelay * 2 ^ nat (dt_RetryCount task + 1)))\<rparr>"
    "d' = handleTask J R now q n h maxRetries retryDelay task d"
  shows "if dt_RetryCount task < maxRetries
    then queue_up R db q n d' (r(dt_Key task \<mapsto> unix_milli (now + wrap64 (retryDelay * 2 ^ nat (dt_RetryCount task + 1)))),
           p(dt_Key task := None), b(dt_Key task \<mapsto> projr (dj_Marshal J task'))) \<and>
         lst (db d') (deadKey q n) = lst (db d) (deadKey q n)
    else queue_up R db q n d' (r, p(dt_Key task := None), b(dt_Key task := None)) \<and>
         lst (db d') (deadKey q n) = projr (dj_Marshal J task) # lst (db d) (deadKey q n)"
proof -
  have q1: "queue_up R db q n d1 (r, p, b)" by (rule queue_up_cong [OF assms(1,6)])
  obtain d2 where 2: "dq_ack R now q n (dt_Key task) d1 = (None, d2)"
    "queue_up R db q n d2 (r, p(dt_Key task := None), b(dt_Key task := None))" "dq_others q n (db d1) (db d2)"
    by (rule ack_up [OF q1 assms(3)])
  note dead2 = dead_same [OF 2(3)]
  show ?thesis
  proof (cases "dt_RetryCount task < maxRetries")
    case True
    obtain x where x: "dj_Marshal J task' = Inr x" using assms(8) by blast
    have s: "shift1 (dt_RetryCount task + 1) = 2 ^ nat (dt_RetryCount task + 1)" using shift1_small assms(9,10) by simp
    have w: "wrap64 (dt_RetryCount task + 1) = dt_RetryCount task + 1" using assms(9,10) by (simp add: wrap64_id in_int64_def min_int64_def max_int64_def)
    obtain d3 where 3: "EnqueueAt J R now q n (Some task') d2 = (None, d3)"
      "queue_up R db q n d3 (r(dt_Key task' \<mapsto> unix_milli (now + wrap64 (retryDelay * 2 ^ nat (dt_RetryCount task + 1)))),
         p(dt_Key task := None), (b(dt_Key task := None))(dt_Key task' \<mapsto> x))" "dq_others q n (db d2) (db d3)"
      by (rule enqueue_up [OF 2(2) assms(2) _ _ x, of _ now]) (use assms(4) in \<open>simp_all add: assms(11)\<close>)
    have "d' = d3" using True 2(1) 3(1) by (simp add: assms(5,11,12) handleTask_def Let_def reEnqueueWithDelay_def s w)
    then show ?thesis using True 3(2) x dead2 dead_same [OF 3(3)] assms(6) by (simp add: assms(11) lst_def)
  next
    case False
    obtain x where x: "dj_Marshal J task = Inr x" using assms(8) by blast
    have k: "list_key (db d2) (deadKey q n)" using assms(6,7) dead2 by (simp add: list_key_def)
    have "d' = moveToDead J R now q n task d2" using False 2(1) by (simp add: assms(5,12) handleTask_def)
    then show ?thesis using False dead_up [OF 2(2) k x, of now] x dead2 assms(6) by (simp add: lst_def)
  qed
qed


text \<open>The example after a poll: the task is being processed.\<close>

definition ex_taken :: redis_db where
  "ex_taken = snd (pollExpired ex_json redis_ref 0 ex_queue ''q'' ex_db)"

lemma ex_taken_at: "queue_up redis_ref id ex_queue ''q'' ex_taken (Map.empty, [''k'' \<mapsto> 300000], [''k'' \<mapsto> ''k''])"
proof -
  have sat: "queue_sat id ex_queue ''q'' (sound ex_json) ex_taken"
    unfolding ex_taken_def by (rule queue_sat_mono [OF pollExpired_sat [OF redis_ref_law(1) ex_json_law ex_db_sound surjective_pairing]]) simp
  have v: "zalist ex_taken (zsetKey ex_queue ''q'') = []" "zalist ex_taken (processingKey ex_queue ''q'') = [(''k'', 300000)]"
    "halist ex_taken (hashKey ex_queue ''q'') = [(''k'', ''k'')]" by code_simp+
  obtain S where S: "db_wf ex_taken" "queue_at ex_queue ''q'' ex_taken S" by (rule queue_satE [OF sat]) simp
  have "queue_at ex_queue ''q'' ex_taken (zs ex_taken (zsetKey ex_queue ''q''), zs ex_taken (processingKey ex_queue ''q''), hs ex_taken (hashKey ex_queue ''q''))"
    using S(2) by (simp add: queue_at_def same_queue_def)
  then show ?thesis using S(1) by (simp add: queue_up_def redis_ref_law v)
qed

theorem dq_retry_witness:
  "queue_up redis_ref id ex_queue ''q'' (handleTask ex_json redis_ref 0 ex_queue ''q'' (\<lambda>t d. (Some (FmtError ''x''), d)) 3 second (ex_task ''k'') ex_taken)
     (Map.empty(''k'' \<mapsto> 2000), [''k'' \<mapsto> 300000](''k'' := None), [''k'' \<mapsto> ''k''](''k'' \<mapsto> ''k''))"
proof -
  have n: "ex_taken (deadKey ex_queue ''q'') = None" by code_simp
  note * = dq_retry [OF ex_taken_at, of "ex_task ''k''" "\<lambda>t d. (Some (FmtError ''x''), d)" "FmtError ''x''" ex_taken ex_json _ 0 second _ 3, OF _ _ _ _ _ _ _ _ _ refl refl]
  show ?thesis using * n
    by (simp add: ex_task_def ex_queue_def ex_json_def list_key_def unix_milli_def second_def wrap64_id in_int64_def min_int64_def max_int64_def)
qed

section \<open>Tasks that are lost\<close>

text \<open>Once the queue is closed, a task that fails in a worker is lost: the acknowledgement has deleted its
  body, the queue refuses to enqueue it again, and it is not among the dead letters either. \<open>Stop\<close> waits
  for exactly these workers.\<close>
theorem dq_stop_loses:
  assumes "queue_up R db q n d (r, p, b)" "dq_closed q" "p (dt_Key task) \<noteq> None" "r (dt_Key task) = None"
    "h task d = (Some err, d1)" "db d1 = db d" "dt_RetryCount task < maxRetries"
    "d' = handleTask J R now q n h maxRetries retryDelay task d"
  shows "(\<exists>r' p' b'. queue_up R db q n d' (r', p', b') \<and> r' (dt_Key task) = None \<and> p' (dt_Key task) = None \<and> b' (dt_Key task) = None) \<and>
    db d' (deadKey q n) = db d (deadKey q n)"
proof -
  have q1: "queue_up R db q n d1 (r, p, b)" by (rule queue_up_cong [OF assms(1,6)])
  obtain d2 where 2: "dq_ack R now q n (dt_Key task) d1 = (None, d2)"
    "queue_up R db q n d2 (r, p(dt_Key task := None), b(dt_Key task := None))" "dq_others q n (db d1) (db d2)"
    by (rule ack_up [OF q1 assms(3)])
  have "\<not> maxRetries \<le> dt_RetryCount task" using assms(7) by simp
  then have "d' = d2" using 2(1) by (simp add: assms(2,5,8) handleTask_def Let_def reEnqueueWithDelay_def EnqueueAt_def)
  moreover have "\<exists>r' p' b'. queue_up R db q n d2 (r', p', b') \<and> r' (dt_Key task) = None \<and> p' (dt_Key task) = None \<and> b' (dt_Key task) = None"
    using 2(2) assms(4) by (intro exI [of _ r] exI [of _ "p(dt_Key task := None)"] exI [of _ "b(dt_Key task := None)"]) simp
  ultimately show ?thesis using dead_same [OF 2(3)] assms(6) by simp
qed

theorem dq_stop_loses_witness:
  "(\<exists>r' p' b'. queue_up redis_ref id (ex_queue\<lparr>dq_closed := True\<rparr>) ''q''
       (handleTask ex_json redis_ref 0 (ex_queue\<lparr>dq_closed := True\<rparr>) ''q'' (\<lambda>t d. (Some (FmtError ''x''), d)) 3 second (ex_task ''k'') ex_taken)
       (r', p', b') \<and> r' ''k'' = None \<and> p' ''k'' = None \<and> b' ''k'' = None)"
proof -
  have u: "queue_up redis_ref id (ex_queue\<lparr>dq_closed := True\<rparr>) ''q'' ex_taken (Map.empty, [''k'' \<mapsto> 300000], [''k'' \<mapsto> ''k''])"
    using ex_taken_at queue_at_ns [of "ex_queue\<lparr>dq_closed := True\<rparr>" ex_queue] by (simp add: queue_up_def)
  let ?d' = "handleTask ex_json redis_ref 0 (ex_queue\<lparr>dq_closed := True\<rparr>) ''q'' (\<lambda>t d. (Some (FmtError ''x''), d)) 3 second (ex_task ''k'') ex_taken"
  have "(\<exists>r' p' b'. queue_up redis_ref id (ex_queue\<lparr>dq_closed := True\<rparr>) ''q'' ?d' (r', p', b') \<and>
        r' (dt_Key (ex_task ''k'')) = None \<and> p' (dt_Key (ex_task ''k'')) = None \<and> b' (dt_Key (ex_task ''k'')) = None) \<and>
      id ?d' (deadKey (ex_queue\<lparr>dq_closed := True\<rparr>) ''q'') = id ex_taken (deadKey (ex_queue\<lparr>dq_closed := True\<rparr>) ''q'')"
    by (rule dq_stop_loses [where h = "\<lambda>t d. (Some (FmtError ''x''), d)", OF u _ _ _ refl refl _ refl]) (simp_all add: ex_task_def)
  then show ?thesis by (simp add: ex_task_def)
qed

text \<open>Rescheduling a task while it is being processed loses it: when the running handler ends, the
  acknowledgement deletes the new body, and the key stays in the ready set without one.\<close>
theorem dq_reschedule_ghost:
  assumes "queue_up R db q n d (r, p, b)" "p (dt_Key task) \<noteq> None"
    "EnqueueAt J R now q n (Some t) d = (None, d1)" "dt_Key t = dt_Key task"
    "h task d1 = (None, d2)" "db d2 = db d1" "d3 = handleTask J R now' q n h maxRetries retryDelay task d1"
  shows "\<exists>r' p' b'. queue_up R db q n d3 (r', p', b') \<and> r' (dt_Key task) = map_option unix_milli (dt_ExecuteAt t) \<and> b' (dt_Key task) = None"
proof -
  obtain e x where t: "\<not> dq_closed q" "dt_ExecuteAt t = Some e" "dt_Key t \<noteq> []" "dj_Marshal J t = Inr x"
    using assms(3) by (auto simp: EnqueueAt_def split: if_splits option.splits sum.splits)
  obtain d' where "EnqueueAt J R now q n (Some t) d = (None, d')"
    "queue_up R db q n d' (r(dt_Key t \<mapsto> unix_milli e), p, b(dt_Key t \<mapsto> x))" by (rule enqueue_up [OF assms(1) t])
  then have "queue_up R db q n d1 (r(dt_Key t \<mapsto> unix_milli e), p, b(dt_Key t \<mapsto> x))" using assms(3) by simp
  then have 2: "queue_up R db q n d2 (r(dt_Key t \<mapsto> unix_milli e), p, b(dt_Key t \<mapsto> x))" by (rule queue_up_cong [OF _ assms(6)])
  obtain d4 where 4: "dq_ack R now' q n (dt_Key task) d2 = (None, d4)"
    "queue_up R db q n d4 (r(dt_Key t \<mapsto> unix_milli e), p(dt_Key task := None), (b(dt_Key t \<mapsto> x))(dt_Key task := None))"
    by (rule ack_up [OF 2 assms(2)])
  have "d3 = d4" using 4(1) by (simp add: assms(5,7) handleTask_def)
  then show ?thesis using 4(2) t(2) assms(4)
    by (intro exI [of _ "r(dt_Key t \<mapsto> unix_milli e)"] exI [of _ "p(dt_Key task := None)"] exI [of _ "(b(dt_Key t \<mapsto> x))(dt_Key task := None)"]) simp
qed

theorem dq_reschedule_ghost_witness:
  "\<exists>r' p' b'. queue_up redis_ref id ex_queue ''q''
      (handleTask ex_json redis_ref 0 ex_queue ''q'' (\<lambda>t d. (None, d)) 3 second (ex_task ''k'')
         (snd (EnqueueAt ex_json redis_ref 0 ex_queue ''q'' (Some (ex_task ''k'')) ex_taken))) (r', p', b') \<and>
    r' ''k'' = Some 0 \<and> b' ''k'' = None"
proof -
  obtain d1 where "EnqueueAt ex_json redis_ref 0 ex_queue ''q'' (Some (ex_task ''k'')) ex_taken = (None, d1)"
    by (rule enqueue_up [OF ex_taken_at, of "ex_task ''k''" 0 ex_json "''k''" 0]) (simp_all add: ex_task_def ex_queue_def ex_json_def)
  then have d1: "EnqueueAt ex_json redis_ref 0 ex_queue ''q'' (Some (ex_task ''k'')) ex_taken = (None, d1)" .
  have "\<exists>r' p' b'. queue_up redis_ref id ex_queue ''q'' (handleTask ex_json redis_ref 0 ex_queue ''q'' (\<lambda>t d. (None, d)) 3 second (ex_task ''k'') d1) (r', p', b') \<and>
      r' (dt_Key (ex_task ''k'')) = map_option unix_milli (dt_ExecuteAt (ex_task ''k'')) \<and> b' (dt_Key (ex_task ''k'')) = None"
    by (rule dq_reschedule_ghost [where h = "\<lambda>t d. (None, d)", OF ex_taken_at _ d1 refl refl refl refl]) (simp add: ex_task_def)
  then show ?thesis using d1 by (simp add: ex_task_def unix_milli_def)
qed

section \<open>A stop that does not end\<close>

text \<open>What can happen to a queue: the steps of its goroutines, whatever they do with their pools, and the
  operations on consumers.\<close>

inductive q_step :: "'a DelayQueue \<Rightarrow> 'a DelayQueue \<Rightarrow> bool" where
  Leave: "q_step q (co_leave i q)"
| End: "q_step q (co_end i q)"
| Pool: "q_step q (co_update i (\<lambda>c. c\<lparr>co_pool := ts\<rparr>) q)"
| Start: "q_step q (snd (StartConsumer n q))"
| StopC: "q_step q (StopConsumer n q)"
| StopQ: "q_step q (dq_Stop_begin q)"

text \<open>A goroutine that nobody can cancel any more.\<close>

definition lonely :: "nat \<Rightarrow> 'a DelayQueue \<Rightarrow> bool" where
  "lonely i q \<longleftrightarrow> i < length (dq_goroutines q) \<and> co_state (dq_goroutines q ! i) = CRunning \<and>
     \<not> co_cancelled (dq_goroutines q ! i) \<and> dq_closed q \<and> dq_consumers q = []"

lemma nth_update_map: "i < length xs \<Longrightarrow> xs[j := f (xs ! j)] ! i = (if i = j then f (xs ! i) else xs ! i)"
  by (cases "i = j") simp_all

lemma lonely_step: "q_step q q' \<Longrightarrow> lonely i q \<Longrightarrow> lonely i q'"
  by (cases rule: q_step.cases)
    (auto simp: lonely_def co_leave_def co_end_def co_update_def StartConsumer_def dq_start_check_def StopConsumer_def dq_Stop_begin_def
      nth_update_map split: if_splits)

lemma lonely_steps: "q_step\<^sup>*\<^sup>* q q' \<Longrightarrow> lonely i q \<Longrightarrow> lonely i q'"
  by (induction rule: rtranclp_induct) (auto intro: lonely_step)

text \<open>A consumer that is stopped and started again before its old goroutine has left its loop can never be
  stopped: the goroutine deletes the entry of its successor on its way out, and a later \<open>Stop\<close>, which
  cancels the entries it finds, waits for the successor for ever.\<close>
theorem dq_stop_hangs:
  assumes "q1 = snd (StartConsumer n (NewDelayQueue X config))" "q2 = snd (StartConsumer n (StopConsumer n q1))"
    "q_step\<^sup>*\<^sup>* (dq_Stop_begin (co_leave 0 q2)) q'"
  shows "\<not> dq_Stop_returns q'"
proof -
  have "lonely 1 (dq_Stop_begin (co_leave 0 q2))"
    by (simp add: assms(1,2) lonely_def StartConsumer_def dq_start_check_def dq_start_enter_def NewDelayQueue_def StopConsumer_def co_update_def
        co_leave_def dq_Stop_begin_def)
  then have "lonely 1 q'" by (rule lonely_steps [OF assms(3)])
  then show ?thesis by (auto simp: lonely_def dq_Stop_returns_def list_all_length)
qed

theorem dq_stop_hangs_witness:
  "\<not> dq_Stop_returns (dq_Stop_begin (co_leave 0 (snd (StartConsumer ''q'' (StopConsumer ''q''
      (snd (StartConsumer ''q'' (NewDelayQueue X None :: unit DelayQueue))))))))"
  by (rule dq_stop_hangs [OF refl refl rtranclp.rtrancl_refl])

end
