(* ===== verification/Queue.thy ===== *)
theory Queue
  imports Redis Decimal
begin

text \<open>
  \<open>QueueHandler\<close> of \<open>queue.go\<close>: queues first in first out, last in first out, by priority and delayed,
  over Redis lists and sorted sets, with retries, a lock and statistics.

  \<open>J\<close> is the JSON form of an item with data of type \<open>'a\<close>, \<open>gen\<close> the next number of the snowflake
  generator. Scores are \<open>float64\<close> in the source; here they are integers, which it represents exactly
  below \<open>2\<^sup>5\<^sup>3\<close>. A blocking pop is the pop in the state in which the server answers it: when an element
  arrives, or when the time is over.
\<close>

datatype QueueType = QueueTypeFIFO | QueueTypeLIFO | QueueTypePriority | QueueTypeDelayed | OtherQueueType string

fun type_string :: "QueueType \<Rightarrow> string" where
  "type_string QueueTypeFIFO = ''fifo''"
| "type_string QueueTypeLIFO = ''lifo''"
| "type_string QueueTypePriority = ''priority''"
| "type_string QueueTypeDelayed = ''delayed''"
| "type_string (OtherQueueType s) = s"

record 'a QueueItem =
  qi_ID :: string
  qi_Data :: 'a
  qi_Priority :: int
  qi_DelayTime :: int
  qi_CreatedAt :: int
  qi_RetryCount :: int

record 'a item_json =
  ij_Marshal :: "'a QueueItem \<Rightarrow> string go_result"
  ij_Unmarshal :: "string \<Rightarrow> 'a QueueItem go_result"

record QueueConfig =
  qc_MaxRetries :: int
  qc_RetryDelay :: duration
  qc_BatchSize :: int
  qc_LockTimeout :: duration
  qc_CleanupInterval :: duration
  qc_EnableDistributedLock :: bool

record QueueHandler =
  qh_config :: QueueConfig
  qh_namespace :: string

definition NewQueueHandler :: "mathx \<Rightarrow> string \<Rightarrow> QueueConfig \<Rightarrow> QueueHandler" where
  "NewQueueHandler X namespace c =
     \<lparr>qh_config = c\<lparr>qc_MaxRetries := IfLeZero X (qc_MaxRetries c) 3,
                    qc_RetryDelay := IfLeZero X (qc_RetryDelay c) (5 * second),
                    qc_BatchSize := IfLeZero X (qc_BatchSize c) 10,
                    qc_LockTimeout := IfLeZero X (qc_LockTimeout c) (300 * second),
                    qc_CleanupInterval := IfLeZero X (qc_CleanupInterval c) (600 * second)\<rparr>,
      qh_namespace = IfNotEmpty X namespace ''queue''\<rparr>"

definition getQueueKey :: "QueueHandler \<Rightarrow> string \<Rightarrow> QueueType \<Rightarrow> string" where
  "getQueueKey q queueName queueType = qh_namespace q @ '':queue:'' @ type_string queueType @ '':'' @ queueName"

definition getLockKey :: "QueueHandler \<Rightarrow> string \<Rightarrow> string" where
  "getLockKey q queueName = qh_namespace q @ '':lock:queue:'' @ queueName"

definition getDelayKey :: "QueueHandler \<Rightarrow> string \<Rightarrow> string" where
  "getDelayKey q queueName = qh_namespace q @ '':delay:'' @ queueName"

definition failedKey :: "QueueHandler \<Rightarrow> string \<Rightarrow> string" where
  "failedKey q queueName = qh_namespace q @ '':failed:'' @ queueName"

definition unix_seconds :: "time \<Rightarrow> int" where
  "unix_seconds t = t div second"

definition unsupported :: "QueueType \<Rightarrow> go_error" where
  "unsupported queueType = FmtError (''unsupported queue type: '' @ type_string queueType)"

section \<open>Putting items in\<close>

text \<open>The item that is stored: an identifier and a time of creation are filled in. The caller sees them too.\<close>

definition item_prepare :: "time \<Rightarrow> int \<Rightarrow> 'a QueueItem \<Rightarrow> 'a QueueItem" where
  "item_prepare now gen item =
     (let item1 = (if qi_ID item = [] then item\<lparr>qi_ID := show_int gen\<rparr> else item)
      in if qi_CreatedAt item1 = 0 then item1\<lparr>qi_CreatedAt := unix_seconds now\<rparr> else item1)"

definition qh_Enqueue ::
  "'a item_json \<Rightarrow> 'd redis \<Rightarrow> time \<Rightarrow> int \<Rightarrow> QueueHandler \<Rightarrow> string \<Rightarrow> QueueType \<Rightarrow> 'a QueueItem \<Rightarrow> 'd \<Rightarrow>
   (go_error option \<times> 'a QueueItem) \<times> 'd" where
  "qh_Enqueue J R now gen q queueName queueType item0 d =
     (let item = item_prepare now gen item0 in
      (case ij_Marshal J item of
         Inl err \<Rightarrow> ((Some (Wrapped ''failed to marshal queue item'' err), item), d)
       | Inr data \<Rightarrow>
           (let queueKey = getQueueKey q queueName queueType in
            (case queueType of
               QueueTypeFIFO \<Rightarrow> (case client_err R now (RPUSH queueKey data) d of (err, d') \<Rightarrow> ((err, item), d'))
             | QueueTypeLIFO \<Rightarrow> (case client_err R now (LPUSH queueKey data) d of (err, d') \<Rightarrow> ((err, item), d'))
             | QueueTypePriority \<Rightarrow>
                 (case client_err R now (ZADD queueKey (qi_Priority item) data) d of (err, d') \<Rightarrow> ((err, item), d'))
             | QueueTypeDelayed \<Rightarrow>
                 (case client_err R now (ZADD (getDelayKey q queueName) (wrap64 (unix_seconds now + qi_DelayTime item)) data) d of
                    (err, d') \<Rightarrow> ((err, item), d'))
             | OtherQueueType s \<Rightarrow> ((Some (unsupported queueType), item), d)))))"

section \<open>Taking items out\<close>

definition item_read :: "'a item_json \<Rightarrow> string \<Rightarrow> string \<Rightarrow> 'a QueueItem option go_result" where
  "item_read J msg data = (case ij_Unmarshal J data of Inl err \<Rightarrow> Inl (Wrapped msg err) | Inr item \<Rightarrow> Inr (Some item))"

text \<open>A delayed item is found with one command and removed with another, whose answer is not looked at.\<close>

definition delayed_find :: "'d redis \<Rightarrow> time \<Rightarrow> QueueHandler \<Rightarrow> string \<Rightarrow> 'd \<Rightarrow> string list go_result \<times> 'd" where
  "delayed_find R now q queueName d =
     client_arr R now (ZRANGEBYSCORE (getDelayKey q queueName) (Some 0) (unix_seconds now) 1) d"

definition delayed_take :: "'a item_json \<Rightarrow> 'd redis \<Rightarrow> time \<Rightarrow> QueueHandler \<Rightarrow> string \<Rightarrow> string \<Rightarrow> 'd \<Rightarrow> 'a QueueItem option go_result \<times> 'd" where
  "delayed_take J R now q queueName member d =
     (let d' = snd (client R now (ZREM (getDelayKey q queueName) member) d)
      in (item_read J ''failed to unmarshal delayed queue item'' member, d'))"

definition processDelayedQueue :: "'a item_json \<Rightarrow> 'd redis \<Rightarrow> time \<Rightarrow> QueueHandler \<Rightarrow> string \<Rightarrow> 'd \<Rightarrow> 'a QueueItem option go_result \<times> 'd" where
  "processDelayedQueue J R now q queueName d =
     (case delayed_find R now q queueName d of
        (Inl err, d') \<Rightarrow> (Inl err, d')
      | (Inr [], d') \<Rightarrow> (Inr None, d')
      | (Inr (member # _), d') \<Rightarrow> delayed_take J R now q queueName member d')"

definition dequeueWithTimeout ::
  "'a item_json \<Rightarrow> 'd redis \<Rightarrow> time \<Rightarrow> QueueHandler \<Rightarrow> string \<Rightarrow> QueueType \<Rightarrow> duration \<Rightarrow> 'd \<Rightarrow> 'a QueueItem option go_result \<times> 'd" where
  "dequeueWithTimeout J R now q queueName queueType timeout d =
     (let queueKey = getQueueKey q queueName queueType;
          list_pop = (case client_str R now (LPOP queueKey) d of
                        (Inl err, d') \<Rightarrow> (if err = RedisNil then Inr None else Inl err, d')
                      | (Inr data, d') \<Rightarrow> (item_read J ''failed to unmarshal queue item'' data, d'))
      in (case queueType of
            QueueTypeFIFO \<Rightarrow> list_pop
          | QueueTypeLIFO \<Rightarrow> list_pop
          | QueueTypePriority \<Rightarrow>
              (case client_arr R now (ZPOPMAX queueKey) d of
                 (Inl err, d') \<Rightarrow> (if err = RedisNil then Inr None else Inl err, d')
               | (Inr [], d') \<Rightarrow> (Inr None, d')
               | (Inr (member # _), d') \<Rightarrow> (item_read J ''failed to unmarshal queue item'' member, d'))
          | QueueTypeDelayed \<Rightarrow> processDelayedQueue J R now q queueName d
          | OtherQueueType s \<Rightarrow> (Inl (unsupported queueType), d)))"

definition qh_Dequeue ::
  "'a item_json \<Rightarrow> 'd redis \<Rightarrow> time \<Rightarrow> QueueHandler \<Rightarrow> string \<Rightarrow> QueueType \<Rightarrow> 'd \<Rightarrow> 'a QueueItem option go_result \<times> 'd" where
  "qh_Dequeue J R now q queueName queueType d = dequeueWithTimeout J R now q queueName queueType (5 * second) d"

definition DequeueNonBlocking ::
  "'a item_json \<Rightarrow> 'd redis \<Rightarrow> time \<Rightarrow> QueueHandler \<Rightarrow> string \<Rightarrow> QueueType \<Rightarrow> 'd \<Rightarrow> 'a QueueItem option go_result \<times> 'd" where
  "DequeueNonBlocking J R now q queueName queueType d = dequeueWithTimeout J R now q queueName queueType 0 d"

text \<open>The Lua script of a batch pops until the count is reached or the list is empty; it is run with \<open>LPOP\<close>.\<close>

fun lua_pop :: "string \<Rightarrow> nat \<Rightarrow> string list \<Rightarrow> string list lua" where
  "lua_pop key 0 results = Return results"
| "lua_pop key (Suc n) results =
     Call (LPOP key) (\<lambda>r. case r of RBulk v \<Rightarrow> lua_pop key n (results @ [v]) | _ \<Rightarrow> Return results)"

text \<open>The loops over JSON texts skip those that cannot be read.\<close>

definition items_read :: "'a item_json \<Rightarrow> string list \<Rightarrow> 'a QueueItem list" where
  "items_read J xs = concat (map (\<lambda>x. case ij_Unmarshal J x of Inl err \<Rightarrow> [] | Inr item \<Rightarrow> [item]) xs)"

definition batchDequeueLua ::
  "'a item_json \<Rightarrow> 'd redis \<Rightarrow> time \<Rightarrow> string \<Rightarrow> int \<Rightarrow> 'd \<Rightarrow> ('a QueueItem list \<times> go_error option) \<times> 'd" where
  "batchDequeueLua J R now queueKey count' d =
     (case eval R now (lua_pop queueKey (nat count') []) d of
        (Inl err, d') \<Rightarrow> (([], Some err), d')
      | (Inr results, d') \<Rightarrow> ((items_read J results, None), d'))"

fun batch_loop ::
  "'a item_json \<Rightarrow> 'd redis \<Rightarrow> (nat \<Rightarrow> time) \<Rightarrow> QueueHandler \<Rightarrow> string \<Rightarrow> QueueType \<Rightarrow> nat \<Rightarrow> 'a QueueItem list \<Rightarrow> 'd \<Rightarrow>
   ('a QueueItem list \<times> go_error option) \<times> 'd" where
  "batch_loop J R tm q queueName queueType 0 items d = ((items, None), d)"
| "batch_loop J R tm q queueName queueType (Suc n) items d =
     (case DequeueNonBlocking J R (tm n) q queueName queueType d of
        (Inl err, d') \<Rightarrow> ((items, Some err), d')
      | (Inr None, d') \<Rightarrow> ((items, None), d')
      | (Inr (Some item), d') \<Rightarrow> batch_loop J R tm q queueName queueType n (items @ [item]) d')"

text \<open>\<open>tm n\<close> is the clock when \<open>n\<close> items are left to fetch after this one; the script runs at \<open>tm 0\<close>.\<close>

definition BatchDequeue ::
  "mathx \<Rightarrow> 'a item_json \<Rightarrow> 'd redis \<Rightarrow> (nat \<Rightarrow> time) \<Rightarrow> QueueHandler \<Rightarrow> string \<Rightarrow> QueueType \<Rightarrow> int \<Rightarrow> 'd \<Rightarrow>
   ('a QueueItem list \<times> go_error option) \<times> 'd" where
  "BatchDequeue X J R tm q queueName queueType count0 d =
     (let count' = IfLeZero X count0 (qc_BatchSize (qh_config q))
      in if queueType = QueueTypeFIFO \<or> queueType = QueueTypeLIFO
         then batchDequeueLua J R (tm 0) (getQueueKey q queueName queueType) count' d
         else batch_loop J R tm q queueName queueType (nat count') [] d)"

section \<open>Looking\<close>

definition qh_Length :: "'d redis \<Rightarrow> time \<Rightarrow> QueueHandler \<Rightarrow> string \<Rightarrow> QueueType \<Rightarrow> 'd \<Rightarrow> int go_result \<times> 'd" where
  "qh_Length R now q queueName queueType d =
     (let queueKey = getQueueKey q queueName queueType in
      (case queueType of
         QueueTypeFIFO \<Rightarrow> client_int R now (LLEN queueKey) d
       | QueueTypeLIFO \<Rightarrow> client_int R now (LLEN queueKey) d
       | QueueTypePriority \<Rightarrow> client_int R now (ZCARD queueKey) d
       | QueueTypeDelayed \<Rightarrow> client_int R now (ZCARD (getDelayKey q queueName)) d
       | OtherQueueType s \<Rightarrow> (Inl (unsupported queueType), d)))"

definition qh_Peek ::
  "mathx \<Rightarrow> 'a item_json \<Rightarrow> 'd redis \<Rightarrow> time \<Rightarrow> QueueHandler \<Rightarrow> string \<Rightarrow> QueueType \<Rightarrow> int \<Rightarrow> 'd \<Rightarrow> 'a QueueItem list go_result \<times> 'd" where
  "qh_Peek X J R now q queueName queueType count0 d =
     (let count' = IfLeZero X count0 1;
          queueKey = getQueueKey q queueName queueType;
          (result, d') =
            (case queueType of
               QueueTypeFIFO \<Rightarrow> client_arr R now (LRANGE queueKey 0 (count' - 1)) d
             | QueueTypeLIFO \<Rightarrow> client_arr R now (LRANGE queueKey 0 (count' - 1)) d
             | QueueTypePriority \<Rightarrow> client_arr R now (ZREVRANGE queueKey 0 (count' - 1)) d
             | QueueTypeDelayed \<Rightarrow> client_arr R now (ZRANGE (getDelayKey q queueName) 0 (count' - 1)) d
             | OtherQueueType s \<Rightarrow> (Inl (unsupported queueType), d))
      in (map_sum id (items_read J) result, d'))"

definition qh_Clear :: "'d redis \<Rightarrow> time \<Rightarrow> QueueHandler \<Rightarrow> string \<Rightarrow> QueueType \<Rightarrow> 'd \<Rightarrow> go_error option \<times> 'd" where
  "qh_Clear R now q queueName queueType d =
     client_err R now
       (DEL (if queueType = QueueTypeDelayed then [getQueueKey q queueName queueType, getDelayKey q queueName]
             else [getQueueKey q queueName queueType])) d"

definition qh_Contains ::
  "mathx \<Rightarrow> 'a item_json \<Rightarrow> 'd redis \<Rightarrow> time \<Rightarrow> time \<Rightarrow> QueueHandler \<Rightarrow> string \<Rightarrow> QueueType \<Rightarrow> string \<Rightarrow> 'd \<Rightarrow> bool go_result \<times> 'd" where
  "qh_Contains X J R now now' q queueName queueType itemID d =
     (case qh_Length R now q queueName queueType d of
        (Inl err, d1) \<Rightarrow> (Inl err, d1)
      | (Inr len, d1) \<Rightarrow>
          if len = 0 then (Inr False, d1)
          else (case qh_Peek X J R now' q queueName queueType (if 1000 < len then 1000 else len) d1 of
                  (Inl err, d2) \<Rightarrow> (Inl err, d2)
                | (Inr items, d2) \<Rightarrow> (Inr (list_ex (\<lambda>item. qi_ID item = itemID) items), d2)))"

section \<open>Failed items\<close>

definition qh_RetryFailed ::
  "'a item_json \<Rightarrow> 'd redis \<Rightarrow> time \<Rightarrow> int \<Rightarrow> QueueHandler \<Rightarrow> string \<Rightarrow> QueueType \<Rightarrow> 'a QueueItem \<Rightarrow> 'd \<Rightarrow>
   (go_error option \<times> 'a QueueItem) \<times> 'd" where
  "qh_RetryFailed J R now gen q queueName queueType item d =
     (if qc_MaxRetries (qh_config q) \<le> qi_RetryCount item
      then (let data = (case ij_Marshal J item of Inl _ \<Rightarrow> [] | Inr x \<Rightarrow> x)
            in (case client_err R now (LPUSH (failedKey q queueName) data) d of (err, d') \<Rightarrow> ((err, item), d')))
      else qh_Enqueue J R now gen q queueName QueueTypeDelayed
             (item\<lparr>qi_RetryCount := wrap64 (qi_RetryCount item + 1),
                   qi_DelayTime := qc_RetryDelay (qh_config q) div second\<rparr>) d)"

definition GetFailedItems ::
  "'a item_json \<Rightarrow> 'd redis \<Rightarrow> time \<Rightarrow> QueueHandler \<Rightarrow> string \<Rightarrow> int \<Rightarrow> int \<Rightarrow> 'd \<Rightarrow> 'a QueueItem list go_result \<times> 'd" where
  "GetFailedItems J R now q queueName offset limit d =
     (case client_arr R now (LRANGE (failedKey q queueName) offset (offset + limit - 1)) d of
        (Inl err, d') \<Rightarrow> (Inl err, d')
      | (Inr result, d') \<Rightarrow> (Inr (items_read J result), d'))"

section \<open>The lock and the statistics\<close>

definition AcquireLock :: "'d redis \<Rightarrow> time \<Rightarrow> QueueHandler \<Rightarrow> string \<Rightarrow> string \<Rightarrow> 'd \<Rightarrow> bool go_result \<times> 'd" where
  "AcquireLock R now q queueName workerID d =
     (if \<not> qc_EnableDistributedLock (qh_config q) then (Inr True, d)
      else (case client_int R now (SETNX (getLockKey q queueName) workerID (qc_LockTimeout (qh_config q))) d of
              (Inl err, d') \<Rightarrow> (Inl err, d')
            | (Inr n, d') \<Rightarrow> (Inr (n = 1), d')))"

definition release_script :: "string \<Rightarrow> string \<Rightarrow> int lua" where
  "release_script key worker =
     Call (GET key) (\<lambda>r. if r = RBulk worker then Call (DEL [key]) (\<lambda>n. Return (int_of n)) else Return 0)"

definition qh_ReleaseLock :: "'d redis \<Rightarrow> time \<Rightarrow> QueueHandler \<Rightarrow> string \<Rightarrow> string \<Rightarrow> 'd \<Rightarrow> go_error option \<times> 'd" where
  "qh_ReleaseLock R now q queueName workerID d =
     (if \<not> qc_EnableDistributedLock (qh_config q) then (None, d)
      else (case eval R now (release_script (getLockKey q queueName) workerID) d of (r, d') \<Rightarrow> (err_of r, d')))"

record QueueStats =
  qs_QueueName :: string
  qs_QueueType :: string
  qs_Length :: int
  qs_DelayedCount :: int
  qs_FailedCount :: int

definition qh_GetStats :: "'d redis \<Rightarrow> time \<Rightarrow> QueueHandler \<Rightarrow> string \<Rightarrow> QueueType \<Rightarrow> 'd \<Rightarrow> QueueStats go_result \<times> 'd" where
  "qh_GetStats R now q queueName queueType d =
     (case qh_Length R now q queueName queueType d of
        (Inl err, d1) \<Rightarrow> (Inl err, d1)
      | (Inr len, d1) \<Rightarrow>
          (let (delayed, d2) = (if queueType = QueueTypeDelayed
                                then (case client_int R now (ZCARD (getDelayKey q queueName)) d1 of
                                        (Inl err, d2) \<Rightarrow> (0, d2) | (Inr n, d2) \<Rightarrow> (n, d2))
                                else (0, d1));
               (failed, d3) = (case client_int R now (LLEN (failedKey q queueName)) d2 of
                                 (Inl err, d3) \<Rightarrow> (0, d3) | (Inr n, d3) \<Rightarrow> (n, d3))
           in (Inr \<lparr>qs_QueueName = queueName, qs_QueueType = type_string queueType, qs_Length = len,
                    qs_DelayedCount = delayed, qs_FailedCount = failed\<rparr>, d3)))"

end
