(* ===== verification/Redis_Types.thy ===== *)
theory Redis_Types
  imports Redis
begin

text \<open>
  Two static properties of Redis scripts. The keys of a command are all it can change. A type system: a typing gives every key the kind of its values; a command fits a
  typing when it treats its key as a value of the kind of the key, a script fits when all its calls do.
  A script that fits runs without the error of a wrong type and keeps the typing of the database.
\<close>

datatype kind = KStr | KList | KZset | KHash | KSet

fun kind_of :: "redis_value \<Rightarrow> kind" where
  "kind_of (VStr s) = KStr" | "kind_of (VList l) = KList" | "kind_of (VZset z) = KZset"
| "kind_of (VHash h) = KHash" | "kind_of (VSet s) = KSet"

definition typed :: "(string \<Rightarrow> kind) \<Rightarrow> redis_db \<Rightarrow> bool" where
  "typed K db \<longleftrightarrow> (\<forall>k v dl. db k = Some (v, dl) \<longrightarrow> kind_of v = K k)"

fun fits :: "(string \<Rightarrow> kind) \<Rightarrow> redis_cmd \<Rightarrow> bool" where
  "fits K (GET k) \<longleftrightarrow> K k = KStr"
| "fits K (SET k v ttl) \<longleftrightarrow> K k = KStr"
| "fits K (SETNX k v ttl) \<longleftrightarrow> K k = KStr"
| "fits K (DEL ks) \<longleftrightarrow> True"
| "fits K (EXPIRE k ttl) \<longleftrightarrow> True"
| "fits K (ZADD k s m) \<longleftrightarrow> K k = KZset"
| "fits K (ZREM k m) \<longleftrightarrow> K k = KZset"
| "fits K (ZRANGEBYSCORE k lo hi n) \<longleftrightarrow> K k = KZset"
| "fits K (ZCARD k) \<longleftrightarrow> K k = KZset"
| "fits K (ZPOPMAX k) \<longleftrightarrow> K k = KZset"
| "fits K (ZRANGE k a b) \<longleftrightarrow> K k = KZset"
| "fits K (ZREVRANGE k a b) \<longleftrightarrow> K k = KZset"
| "fits K (HSET k f v) \<longleftrightarrow> K k = KHash"
| "fits K (HGET k f) \<longleftrightarrow> K k = KHash"
| "fits K (HDEL k f) \<longleftrightarrow> K k = KHash"
| "fits K (HLEN k) \<longleftrightarrow> K k = KHash"
| "fits K (HGETALL k) \<longleftrightarrow> K k = KHash"
| "fits K (LPUSH k v) \<longleftrightarrow> K k = KList"
| "fits K (RPUSH k v) \<longleftrightarrow> K k = KList"
| "fits K (LPOP k) \<longleftrightarrow> K k = KList"
| "fits K (LLEN k) \<longleftrightarrow> K k = KList"
| "fits K (LRANGE k a b) \<longleftrightarrow> K k = KList"
| "fits K (SADD k ms) \<longleftrightarrow> K k = KSet"
| "fits K (SMEMBERS k) \<longleftrightarrow> K k = KSet"

primrec fits_script :: "(string \<Rightarrow> kind) \<Rightarrow> 'a lua \<Rightarrow> bool" where
  "fits_script K (Return x) \<longleftrightarrow> True"
| "fits_script K (Raise e) \<longleftrightarrow> e \<noteq> WrongType"
| "fits_script K (Call c f) \<longleftrightarrow> fits K c \<and> (\<forall>r. fits_script K (f r))"

section \<open>Soundness\<close>

lemma typed_empty [simp]: "typed K Map.empty"
  by (simp add: typed_def)

lemma typed_at: "typed K db \<Longrightarrow> at now db k = Some v \<Longrightarrow> kind_of v = K k"
  by (auto simp: typed_def at_def dest: live_SomeD)

lemma typed_upd: "typed K db \<Longrightarrow> (\<And>v dl. e = Some (v, dl) \<Longrightarrow> kind_of v = K k) \<Longrightarrow> typed K (db(k := e))"
  by (auto simp: typed_def)

lemma typed_put: "typed K db \<Longrightarrow> kind_of v = K k \<Longrightarrow> typed K (put now k gone v db)"
  unfolding put_def by (rule typed_upd) (auto split: if_splits)

lemma typed_del: "typed K db \<Longrightarrow> typed K (\<lambda>k. if P k then None else db k)"
  by (auto simp: typed_def)

definition good :: "(string \<Rightarrow> kind) \<Rightarrow> redis_reply \<times> redis_db \<Rightarrow> bool" where
  "good K x \<longleftrightarrow> fst x \<noteq> RWrongType \<and> typed K (snd x)"

lemma good_Pair [simp]: "good K (r, db) \<longleftrightarrow> r \<noteq> RWrongType \<and> typed K db"
  by (simp add: good_def)

text \<open>A command on a key of its kind is good if it is on every value of the kind.\<close>

lemma on_good:
  assumes "typed K db"
  shows "K k = KStr \<Longrightarrow> (\<And>s. good K (f1 s)) \<Longrightarrow> good K (on_str now k db f1)"
    "K k = KList \<Longrightarrow> (\<And>l. good K (f2 l)) \<Longrightarrow> good K (on_list now k db f2)"
    "K k = KZset \<Longrightarrow> (\<And>z. good K (f3 z)) \<Longrightarrow> good K (on_zset now k db f3)"
    "K k = KHash \<Longrightarrow> (\<And>h. good K (f4 h)) \<Longrightarrow> good K (on_hash now k db f4)"
    "K k = KSet \<Longrightarrow> (\<And>s. good K (f5 s)) \<Longrightarrow> good K (on_set now k db f5)"
  by (cases "at now db k"; use typed_at [OF assms, of now k] in \<open>auto simp: on_defs split: redis_value.splits\<close>)+

lemma fits_sound:
  assumes "typed K db" "fits K c"
  shows "good K (redis_do now c db)"
proof -
  note p = typed_put [OF assms(1)] and g = on_good [OF assms(1)]
  have s: "typed K (set_str now k v ttl db)" if "K k = KStr" for k v ttl
    unfolding set_str_def by (rule typed_upd [OF assms(1)]) (use that in auto)
  show ?thesis
  proof (cases c)
    case (EXPIRE k ttl)
    then show ?thesis
      using assms typed_at [OF assms(1), of now k]
      by (auto simp: redis_do_simps intro!: typed_upd split: option.splits)
  next
    case (DEL ks)
    then show ?thesis using typed_del [OF assms(1)] by (simp add: redis_do_simps)
  qed (use assms s in \<open>auto simp: redis_do_simps Let_def intro!: g p split: option.splits list.splits\<close>)
qed

text \<open>A script that fits a typing of the database keeps the typing and does not go wrong.\<close>

lemma script_sound:
  assumes "fits_script K s" "typed K db"
  shows "fst (run_db now s db) \<noteq> Inl WrongType \<and> typed K (snd (run_db now s db))"
  using assms
proof (induction s arbitrary: db)
  case (Call c f)
  obtain r db' where r: "redis_do now c db = (r, db')" by (cases "redis_do now c db")
  have "r \<noteq> RWrongType" "typed K db'" using fits_sound [OF Call.prems(2), of c now] Call.prems(1) r by simp_all
  then show ?case using Call.IH [of "f r" db'] Call.prems(1) r by simp
qed auto

text \<open>Any request with such a script, whatever the network does.\<close>

lemma eval_typed:
  assumes "redis_law R db" "db_wf (db d)" "eval R now s d = (r, d')" "fits_script K s" "typed K (db d)"
  shows "typed K (db d') \<and> db_wf (db d')"
  using script_sound [OF assms(4,5), of now]
  by (cases rule: eval_any [OF assms(1-3), case_names lost silent answered]) (use assms(5) in auto)

lemma client_typed:
  assumes "redis_law R db" "db_wf (db d)" "client R now c d = (r, d')" "fits K c" "typed K (db d)"
  shows "typed K (db d') \<and> db_wf (db d')"
  by (rule eval_typed [OF assms(1,2) assms(3) [unfolded client_def] _ assms(5)])
    (simp add: reply_script_def assms(4) RedisNil_def WrongType_def)

text \<open>On a server that answers, no error of a wrong type comes back.\<close>

lemma eval_not_wrong:
  assumes "redis_law R db" "redis_up R" "db_wf (db d)" "fits_script K s" "typed K (db d)"
  shows "fst (eval R now s d) \<noteq> Inl WrongType"
  using script_sound [OF assms(4,5), of now] by (cases rule: eval_up [OF assms(1-3), of now s]) auto

lemma client_not_wrong:
  assumes "redis_law R db" "redis_up R" "db_wf (db d)" "fits K c" "typed K (db d)"
  shows "fst (client R now c d) \<noteq> Inl WrongType"
  unfolding client_def
  by (rule eval_not_wrong [OF assms(1-3) _ assms(5)]) (simp add: reply_script_def assms(4) RedisNil_def WrongType_def)


section \<open>Frames\<close>

fun cmd_keys :: "redis_cmd \<Rightarrow> string list" where
  "cmd_keys (GET k) = [k]" | "cmd_keys (SET k v ttl) = [k]" | "cmd_keys (SETNX k v ttl) = [k]" | "cmd_keys (DEL ks) = ks"
| "cmd_keys (EXPIRE k ttl) = [k]" | "cmd_keys (ZADD k s m) = [k]" | "cmd_keys (ZREM k m) = [k]" | "cmd_keys (ZRANGEBYSCORE k lo hi n) = [k]"
| "cmd_keys (ZCARD k) = [k]" | "cmd_keys (ZPOPMAX k) = [k]" | "cmd_keys (ZRANGE k a b) = [k]" | "cmd_keys (ZREVRANGE k a b) = [k]"
| "cmd_keys (HSET k f v) = [k]" | "cmd_keys (HGET k f) = [k]" | "cmd_keys (HDEL k f) = [k]" | "cmd_keys (HLEN k) = [k]" | "cmd_keys (HGETALL k) = [k]"
| "cmd_keys (LPUSH k v) = [k]" | "cmd_keys (RPUSH k v) = [k]" | "cmd_keys (LPOP k) = [k]" | "cmd_keys (LLEN k) = [k]" | "cmd_keys (LRANGE k a b) = [k]"
| "cmd_keys (SADD k ms) = [k]" | "cmd_keys (SMEMBERS k) = [k]"

lemma redis_do_frame: "k' \<notin> set (cmd_keys c) \<Longrightarrow> snd (redis_do now c db) k' = db k'"
  by (cases c) (auto simp: redis_do_simps on_defs set_str_def Let_def split: option.splits redis_value.splits list.splits)

primrec within :: "string set \<Rightarrow> 'a lua \<Rightarrow> bool" where
  "within ks (Return x) \<longleftrightarrow> True"
| "within ks (Raise e) \<longleftrightarrow> True"
| "within ks (Call c f) \<longleftrightarrow> set (cmd_keys c) \<subseteq> ks \<and> (\<forall>r. within ks (f r))"

lemma run_db_frame:
  assumes "within ks s" "k' \<notin> ks"
  shows "snd (run_db now s db) k' = db k'"
  using assms(1)
proof (induction s arbitrary: db)
  case (Call c f)
  obtain r db' where r: "redis_do now c db = (r, db')" by (cases "redis_do now c db")
  have "db' k' = db k'" using redis_do_frame [of k' c now db] Call.prems assms(2) r by auto
  then show ?case using Call.IH [of "f r" db'] Call.prems r by (simp split: if_splits)
qed auto

lemma eval_frame:
  assumes "redis_law R db" "db_wf (db d)" "eval R now s d = (r, d')" "within ks s" "k' \<notin> ks"
  shows "db d' k' = db d k'"
  using run_db_frame [OF assms(4,5), of now "db d"]
  by (cases rule: eval_any [OF assms(1-3), case_names lost silent answered]) auto

lemma client_frame:
  assumes "redis_law R db" "db_wf (db d)" "client R now c d = (r, d')" "k' \<notin> set (cmd_keys c)"
  shows "db d' k' = db d k'"
  by (rule eval_frame [OF assms(1,2) assms(3) [unfolded client_def] _ assms(4)]) (simp add: reply_script_def)

end
