(* ===== verification/Queue_Correct.thy ===== *)
theory Queue_Correct
  imports Queue Redis_Types
begin

text \<open>
  Properties of the queues: the keys of a namespace keep their kinds, so that no operation ever meets a
  key of another kind; the queues over lists are exactly lists; a queue by priority gives out its
  greatest item, a delayed one no item before its time - but the same item to two consumers.
\<close>

section \<open>Kinds of keys\<close>

definition starts :: "string \<Rightarrow> string \<Rightarrow> bool" where
  "starts p k \<longleftrightarrow> take (length p) k = p"

definition queue_kind :: "string \<Rightarrow> string \<Rightarrow> kind" where
  "queue_kind ns k =
     (if starts (ns @ '':queue:priority:'') k \<or> starts (ns @ '':delay:'') k then KZset
      else if starts (ns @ '':lock:queue:'') k then KStr
      else KList)"

lemma starts_append [simp]: "starts (ns @ p) (ns @ k) = starts p k"
  by (simp add: starts_def)

lemma queue_kinds [simp]:
  "queue_kind (qh_namespace q) (getQueueKey q n QueueTypeFIFO) = KList"
  "queue_kind (qh_namespace q) (getQueueKey q n QueueTypeLIFO) = KList"
  "queue_kind (qh_namespace q) (getQueueKey q n QueueTypePriority) = KZset"
  "queue_kind (qh_namespace q) (getDelayKey q n) = KZset"
  "queue_kind (qh_namespace q) (getLockKey q n) = KStr"
  "queue_kind (qh_namespace q) (failedKey q n) = KList"
  by (simp_all add: queue_kind_def getQueueKey_def getDelayKey_def getLockKey_def failedKey_def) (simp_all add: starts_def)

text \<open>The operations of a handler, with what they need from outside.\<close>

datatype 'a queue_op =
    OEnqueue string QueueType "'a QueueItem" int | ODequeue string QueueType duration | OBatch string QueueType int
  | OLength string QueueType | OPeek string QueueType int | OClear string QueueType | OContains string QueueType string
  | ORetry string QueueType "'a QueueItem" int | OFailed string int int | OAcquire string string | ORelease string string
  | OStats string QueueType

text \<open>The error of an operation and the state it leaves. A handler is any with the namespace.\<close>

fun qh_do ::
  "mathx \<Rightarrow> 'a item_json \<Rightarrow> 'd redis \<Rightarrow> (nat \<Rightarrow> time) \<Rightarrow> QueueHandler \<Rightarrow> 'a queue_op \<Rightarrow> 'd \<Rightarrow> go_error option \<times> 'd" where
  "qh_do X J R tm q (OEnqueue n ty item gen) d = (case qh_Enqueue J R (tm 0) gen q n ty item d of ((e, _), d') \<Rightarrow> (e, d'))"
| "qh_do X J R tm q (ODequeue n ty w) d = (case dequeueWithTimeout J R (tm 0) q n ty w d of (r, d') \<Rightarrow> (err_of r, d'))"
| "qh_do X J R tm q (OBatch n ty c) d = (case BatchDequeue X J R tm q n ty c d of ((_, e), d') \<Rightarrow> (e, d'))"
| "qh_do X J R tm q (OLength n ty) d = (case qh_Length R (tm 0) q n ty d of (r, d') \<Rightarrow> (err_of r, d'))"
| "qh_do X J R tm q (OPeek n ty c) d = (case qh_Peek X J R (tm 0) q n ty c d of (r, d') \<Rightarrow> (err_of r, d'))"
| "qh_do X J R tm q (OClear n ty) d = qh_Clear R (tm 0) q n ty d"
| "qh_do X J R tm q (OContains n ty i) d = (case qh_Contains X J R (tm 0) (tm 1) q n ty i d of (r, d') \<Rightarrow> (err_of r, d'))"
| "qh_do X J R tm q (ORetry n ty item gen) d = (case qh_RetryFailed J R (tm 0) gen q n ty item d of ((e, _), d') \<Rightarrow> (e, d'))"
| "qh_do X J R tm q (OFailed n a b) d = (case GetFailedItems J R (tm 0) q n a b d of (r, d') \<Rightarrow> (err_of r, d'))"
| "qh_do X J R tm q (OAcquire n w) d = (case AcquireLock R (tm 0) q n w d of (r, d') \<Rightarrow> (err_of r, d'))"
| "qh_do X J R tm q (ORelease n w) d = qh_ReleaseLock R (tm 0) q n w d"
| "qh_do X J R tm q (OStats n ty) d = (case qh_GetStats R (tm 0) q n ty d of (r, d') \<Rightarrow> (err_of r, d'))"

text \<open>A state in which a typing holds, and an answer from which it goes on.\<close>

definition well :: "'d redis \<Rightarrow> ('d \<Rightarrow> redis_db) \<Rightarrow> (string \<Rightarrow> kind) \<Rightarrow> 'd \<Rightarrow> bool" where
  "well R db K d \<longleftrightarrow> db_wf (db d) \<and> typed K (db d)"

definition fine :: "'d redis \<Rightarrow> ('d \<Rightarrow> redis_db) \<Rightarrow> (string \<Rightarrow> kind) \<Rightarrow> go_error option \<times> 'd \<Rightarrow> bool" where
  "fine R db K x \<longleftrightarrow> well R db K (snd x) \<and> (redis_up R \<longrightarrow> fst x \<noteq> Some WrongType)"

lemma fine_Pair [simp]: "fine R db K (e, d) \<longleftrightarrow> well R db K d \<and> (redis_up R \<longrightarrow> e \<noteq> Some WrongType)"
  by (simp add: fine_def)

lemma errors_not_wrong [simp]: "FmtError s \<noteq> WrongType" "Wrapped s e \<noteq> WrongType" "unsupported ty \<noteq> WrongType"
  "WrongType \<noteq> FmtError s" "WrongType \<noteq> Wrapped s e" "WrongType \<noteq> unsupported ty"
  by (simp_all add: WrongType_def unsupported_def)

lemma eval_fine:
  assumes "redis_law R db" "well R db K d" "fits_script K s" "eval R now s d = (x, d')"
  shows "well R db K d' \<and> (redis_up R \<longrightarrow> x \<noteq> Inl WrongType)"
  using eval_typed [OF assms(1) _ assms(4,3), of] eval_not_wrong [OF assms(1) _ _ assms(3), of d now] assms(2,4)
  by (auto simp: well_def)

lemma client_fine:
  assumes "redis_law R db" "well R db K d" "fits K c" "client R now c d = (x, d')"
  shows "well R db K d' \<and> (redis_up R \<longrightarrow> x \<noteq> Inl WrongType)"
  using client_typed [OF assms(1) _ assms(4,3), of] client_not_wrong [OF assms(1) _ _ assms(3), of d now] assms(2,4)
  by (auto simp: well_def)

text \<open>The typed forms of a command.\<close>

lemma map_sum_Inl: "map_sum id f x = Inl e \<longleftrightarrow> x = Inl e"
  by (cases x) auto

lemma client_fines:
  assumes "redis_law R db" "well R db K d" "fits K c"
  shows "client_int R now c d = (i, d') \<Longrightarrow> well R db K d' \<and> (redis_up R \<longrightarrow> i \<noteq> Inl WrongType)"
    "client_str R now c d = (s, d') \<Longrightarrow> well R db K d' \<and> (redis_up R \<longrightarrow> s \<noteq> Inl WrongType)"
    "client_arr R now c d = (l, d') \<Longrightarrow> well R db K d' \<and> (redis_up R \<longrightarrow> l \<noteq> Inl WrongType)"
    "client_err R now c d = (e, d') \<Longrightarrow> well R db K d' \<and> (redis_up R \<longrightarrow> e \<noteq> Some WrongType)"
  using client_fine [OF assms, of now]
  by (auto simp: client_int_def client_str_def client_arr_def client_err_def map_sum_Inl split: prod.splits)


text \<open>Each operation, from the commands it gives.\<close>

lemma list_pop_fine:
  assumes "redis_law R db" "well R db K d" "K key = KList"
    "(case client_str R now (LPOP key) d of
        (Inl err, d') \<Rightarrow> (if err = RedisNil then Inr None else Inl err, d')
      | (Inr data, d') \<Rightarrow> (item_read J msg data, d')) = (r, d')"
  shows "well R db K d' \<and> (redis_up R \<longrightarrow> r \<noteq> Inl WrongType)"
proof -
  obtain s d1 where 1: "client_str R now (LPOP key) d = (s, d1)" by (cases "client_str R now (LPOP key) d")
  have "well R db K d1 \<and> (redis_up R \<longrightarrow> s \<noteq> Inl WrongType)"
    by (rule client_fines(2) [OF assms(1,2) _ 1]) (simp add: assms(3))
  then show ?thesis using assms(4) 1 by (auto simp: item_read_def split: sum.splits if_splits)
qed

lemma zpop_fine:
  assumes "redis_law R db" "well R db K d" "K key = KZset"
    "(case client_arr R now (ZPOPMAX key) d of
        (Inl err, d') \<Rightarrow> (if err = RedisNil then Inr None else Inl err, d')
      | (Inr [], d') \<Rightarrow> (Inr None, d')
      | (Inr (member # _), d') \<Rightarrow> (item_read J msg member, d')) = (r, d')"
  shows "well R db K d' \<and> (redis_up R \<longrightarrow> r \<noteq> Inl WrongType)"
proof -
  obtain s d1 where 1: "client_arr R now (ZPOPMAX key) d = (s, d1)" by (cases "client_arr R now (ZPOPMAX key) d")
  have "well R db K d1 \<and> (redis_up R \<longrightarrow> s \<noteq> Inl WrongType)"
    by (rule client_fines(3) [OF assms(1,2) _ 1]) (simp add: assms(3))
  then show ?thesis using assms(4) 1 by (auto simp: item_read_def split: sum.splits if_splits list.splits)
qed

lemma delayed_fine:
  assumes "redis_law R db" "well R db (queue_kind (qh_namespace q)) d" "processDelayedQueue J R now q n d = (r, d')"
  shows "well R db (queue_kind (qh_namespace q)) d' \<and> (redis_up R \<longrightarrow> r \<noteq> Inl WrongType)"
proof -
  obtain l d1 where 1: "delayed_find R now q n d = (l, d1)" by (cases "delayed_find R now q n d")
  have w: "well R db (queue_kind (qh_namespace q)) d1 \<and> (redis_up R \<longrightarrow> l \<noteq> Inl WrongType)"
    by (rule client_fines(3) [OF assms(1,2) _ 1 [unfolded delayed_find_def]]) simp
  show ?thesis
  proof (cases l)
    case (Inr ms)
    show ?thesis
    proof (cases ms)
      case (Cons m ms')
      obtain x d2 where 2: "client R now (ZREM (getDelayKey q n) m) d1 = (x, d2)" by (cases "client R now (ZREM (getDelayKey q n) m) d1")
      have "well R db (queue_kind (qh_namespace q)) d2"
        using client_fine [OF assms(1) conjunct1 [OF w] _ 2] by simp
      then show ?thesis using assms(3) 1 2 Inr Cons
        by (auto simp: processDelayedQueue_def delayed_take_def item_read_def split: sum.splits)
    qed (use w assms(3) 1 Inr in \<open>auto simp: processDelayedQueue_def\<close>)
  qed (use w assms(3) 1 in \<open>auto simp: processDelayedQueue_def\<close>)
qed

lemma dequeue_fine:
  assumes "redis_law R db" "well R db (queue_kind (qh_namespace q)) d" "dequeueWithTimeout J R now q n ty w d = (r, d')"
  shows "well R db (queue_kind (qh_namespace q)) d' \<and> (redis_up R \<longrightarrow> r \<noteq> Inl WrongType)"
proof (cases ty)
  case QueueTypeFIFO
  then show ?thesis using assms(3) by (intro list_pop_fine [OF assms(1,2)]) (auto simp: dequeueWithTimeout_def Let_def)
next
  case QueueTypeLIFO
  then show ?thesis using assms(3) by (intro list_pop_fine [OF assms(1,2)]) (auto simp: dequeueWithTimeout_def Let_def)
next
  case QueueTypePriority
  then show ?thesis using assms(3) by (intro zpop_fine [OF assms(1,2)]) (auto simp: dequeueWithTimeout_def Let_def)
next
  case QueueTypeDelayed
  then show ?thesis using assms(3) by (intro delayed_fine [OF assms(1,2)]) (simp add: dequeueWithTimeout_def)
next
  case (OtherQueueType s)
  then show ?thesis using assms(2,3) by (auto simp: dequeueWithTimeout_def)
qed

lemma length_fine:
  assumes "redis_law R db" "well R db (queue_kind (qh_namespace q)) d" "qh_Length R now q n ty d = (r, d')"
  shows "well R db (queue_kind (qh_namespace q)) d' \<and> (redis_up R \<longrightarrow> r \<noteq> Inl WrongType)"
  using assms(2,3) by (cases ty) (auto simp: qh_Length_def Let_def dest: client_fines(1) [OF assms(1,2), rotated])

lemma enqueue_fine:
  assumes "redis_law R db" "well R db (queue_kind (qh_namespace q)) d" "qh_Enqueue J R now gen q n ty item d = ((e, item'), d')"
  shows "fine R db (queue_kind (qh_namespace q)) (e, d')"
proof (cases "ij_Marshal J (item_prepare now gen item)")
  case (Inl err)
  then show ?thesis using assms(2,3) by (auto simp: qh_Enqueue_def Let_def)
next
  case (Inr x)
  show ?thesis
    using assms(2,3) Inr
    by (cases ty) (auto simp: qh_Enqueue_def Let_def split: prod.splits dest: client_fines(4) [OF assms(1,2), rotated])
qed

lemma peek_fine:
  assumes "redis_law R db" "well R db (queue_kind (qh_namespace q)) d" "qh_Peek X J R now q n ty c d = (r, d')"
  shows "well R db (queue_kind (qh_namespace q)) d' \<and> (redis_up R \<longrightarrow> r \<noteq> Inl WrongType)"
  using assms(2,3)
  by (cases ty) (auto simp: qh_Peek_def Let_def map_sum_Inl split: prod.splits dest: client_fines(3) [OF assms(1,2), rotated])

lemma lua_pop_fits: "K key = KList \<Longrightarrow> fits_script K (lua_pop key i acc)"
  by (induction i arbitrary: acc) (auto split: redis_reply.splits)

lemma batch_loop_fine:
  assumes "redis_law R db" "well R db (queue_kind (qh_namespace q)) d" "batch_loop J R tm q n ty i items d = ((its, e), d')"
  shows "fine R db (queue_kind (qh_namespace q)) (e, d')"
  using assms(2,3)
proof (induction i arbitrary: items d)
  case (Suc i)
  obtain r d1 where 1: "DequeueNonBlocking J R (tm i) q n ty d = (r, d1)" by (cases "DequeueNonBlocking J R (tm i) q n ty d")
  note w = dequeue_fine [OF assms(1) Suc.prems(1) 1 [unfolded DequeueNonBlocking_def]]
  show ?case using Suc.IH [OF conjunct1 [OF w]] Suc.prems(2) 1 w by (auto split: sum.splits option.splits)
qed simp

lemma batch_fine:
  assumes "redis_law R db" "well R db (queue_kind (qh_namespace q)) d" "BatchDequeue X J R tm q n ty c d = ((its, e), d')"
  shows "fine R db (queue_kind (qh_namespace q)) (e, d')"
proof (cases "ty = QueueTypeFIFO \<or> ty = QueueTypeLIFO")
  case True
  define s where "s = lua_pop (getQueueKey q n ty) (nat (IfLeZero X c (qc_BatchSize (qh_config q)))) []"
  have f: "fits_script (queue_kind (qh_namespace q)) s" using True by (auto simp: s_def intro: lua_pop_fits)
  obtain r d1 where 1: "eval R (tm 0) s d = (r, d1)" by (cases "eval R (tm 0) s d")
  show ?thesis using eval_fine [OF assms(1,2) f 1] assms(3) True 1
    by (auto simp: BatchDequeue_def Let_def batchDequeueLua_def s_def split: sum.splits)
next
  case False
  then show ?thesis using assms(3) by (intro batch_loop_fine [OF assms(1,2)]) (simp add: BatchDequeue_def Let_def)
qed


lemma contains_fine:
  assumes "redis_law R db" "well R db (queue_kind (qh_namespace q)) d" "qh_Contains X J R now now' q n ty i d = (r, d')"
  shows "well R db (queue_kind (qh_namespace q)) d' \<and> (redis_up R \<longrightarrow> r \<noteq> Inl WrongType)"
proof -
  obtain len d1 where 1: "qh_Length R now q n ty d = (len, d1)" by (cases "qh_Length R now q n ty d")
  note w = length_fine [OF assms(1,2) 1]
  show ?thesis using assms(3) 1 w
    by (auto simp: qh_Contains_def split: sum.splits if_splits prod.splits dest: peek_fine [OF assms(1), rotated])
qed

lemma retry_fine:
  assumes "redis_law R db" "well R db (queue_kind (qh_namespace q)) d" "qh_RetryFailed J R now gen q n ty item d = ((e, item'), d')"
  shows "fine R db (queue_kind (qh_namespace q)) (e, d')"
  using assms(3)
  by (auto simp: qh_RetryFailed_def Let_def split: if_splits prod.splits dest: enqueue_fine [OF assms(1,2)] client_fines(4) [OF assms(1,2), rotated])

lemma stats_fine:
  assumes "redis_law R db" "well R db (queue_kind (qh_namespace q)) d" "qh_GetStats R now q n ty d = (r, d')"
  shows "well R db (queue_kind (qh_namespace q)) d' \<and> (redis_up R \<longrightarrow> r \<noteq> Inl WrongType)"
proof -
  obtain len d1 where 1: "qh_Length R now q n ty d = (len, d1)" by (cases "qh_Length R now q n ty d")
  note w = length_fine [OF assms(1,2) 1]
  obtain c1 d2 where 2: "client_int R now (ZCARD (getDelayKey q n)) d1 = (c1, d2)" by (cases "client_int R now (ZCARD (getDelayKey q n)) d1")
  define d2' where "d2' = (if ty = QueueTypeDelayed then d2 else d1)"
  have w2: "well R db (queue_kind (qh_namespace q)) d2'"
    using w 2 by (auto simp: d2'_def dest: client_fines(1) [OF assms(1) conjunct1 [OF w], rotated])
  obtain c2 d3 where 3: "client_int R now (LLEN (failedKey q n)) d2' = (c2, d3)" by (cases "client_int R now (LLEN (failedKey q n)) d2'")
  have "well R db (queue_kind (qh_namespace q)) d3" using 3 by (auto dest: client_fines(1) [OF assms(1) w2, rotated])
  then show ?thesis using assms(3) 1 2 3 w by (auto simp: qh_GetStats_def d2'_def split: sum.splits if_splits)
qed

lemma qh_do_fine:
  assumes "redis_law R db" "well R db (queue_kind (qh_namespace q)) d"
  shows "fine R db (queue_kind (qh_namespace q)) (qh_do X J R tm q op d)"
proof (cases op)
  case (OEnqueue n ty item gen)
  then show ?thesis by (auto split: prod.splits dest: enqueue_fine [OF assms])
next
  case (ODequeue n ty w)
  then show ?thesis by (auto split: prod.splits dest: dequeue_fine [OF assms])
next
  case (OBatch n ty c)
  then show ?thesis by (auto split: prod.splits dest: batch_fine [OF assms])
next
  case (OLength n ty)
  then show ?thesis using length_fine [OF assms] by (auto split: prod.splits)
next
  case (OPeek n ty c)
  then show ?thesis by (auto split: prod.splits dest: peek_fine [OF assms])
next
  case (OClear n ty)
  then show ?thesis
    by (cases "qh_Clear R (tm 0) q n ty d") (auto simp: qh_Clear_def dest: client_fines(4) [OF assms, rotated])
next
  case (OContains n ty i)
  then show ?thesis by (auto split: prod.splits dest: contains_fine [OF assms])
next
  case (ORetry n ty item gen)
  then show ?thesis by (auto split: prod.splits dest: retry_fine [OF assms])
next
  case (OFailed n a b)
  then show ?thesis
    by (auto simp: GetFailedItems_def split: prod.splits sum.splits dest: client_fines(3) [OF assms, rotated])
next
  case (OAcquire n w)
  then show ?thesis using assms(2)
    by (auto simp: AcquireLock_def split: prod.splits sum.splits if_splits dest: client_fines(1) [OF assms, rotated])
next
  case (ORelease n w)
  have f: "fits_script (queue_kind (qh_namespace q)) (release_script (getLockKey q n) w)" by (simp add: release_script_def)
  show ?thesis using ORelease assms(2) eval_fine [OF assms f, of "tm 0"]
    by (auto simp: qh_ReleaseLock_def split: prod.splits)
next
  case (OStats n ty)
  then show ?thesis using stats_fine [OF assms] by (auto split: prod.splits)
qed

text \<open>Operations in turn, by handlers of one namespace.\<close>

fun qh_run ::
  "mathx \<Rightarrow> 'a item_json \<Rightarrow> 'd redis \<Rightarrow> (QueueHandler \<times> (nat \<Rightarrow> time) \<times> 'a queue_op) list \<Rightarrow> 'd \<Rightarrow> go_error option list \<times> 'd" where
  "qh_run X J R [] d = ([], d)"
| "qh_run X J R ((q, tm, op) # ops) d =
     (case qh_do X J R tm q op d of (e, d1) \<Rightarrow> (case qh_run X J R ops d1 of (es, d2) \<Rightarrow> (e # es, d2)))"

text \<open>C11: The keys of a namespace keep their kinds: whatever operations the handlers of a namespace do, on
  any queues of any types and with any losses of requests and replies, every key holds values of the
  kind its name says, and on a server that answers no operation ever fails with a wrong type.\<close>
theorem q_typed:
  assumes "redis_law R db" "db_wf (db d)" "typed (queue_kind ns) (db d)" "\<forall>(q, tm, op) \<in> set ops. qh_namespace q = ns"
    "qh_run X J R ops d = (es, d')"
  shows "typed (queue_kind ns) (db d') \<and> (redis_up R \<longrightarrow> Some WrongType \<notin> set es)"
proof -
  have "well R db (queue_kind ns) d" using assms(2,3) by (simp add: well_def)
  then have "well R db (queue_kind ns) d' \<and> (redis_up R \<longrightarrow> Some WrongType \<notin> set es)"
    using assms(4,5)
  proof (induction ops arbitrary: d es d')
    case (Cons x ops)
    obtain q tm op where x: "x = (q, tm, op)" by (cases x)
    obtain e d1 where 1: "qh_do X J R tm q op d = (e, d1)" by (cases "qh_do X J R tm q op d")
    obtain es' d2 where 2: "qh_run X J R ops d1 = (es', d2)" by (cases "qh_run X J R ops d1")
    have ns: "qh_namespace q = ns" using Cons.prems(2) x by simp
    have f: "well R db (queue_kind ns) d1" "redis_up R \<longrightarrow> e \<noteq> Some WrongType"
      using qh_do_fine [OF assms(1), of q d X J tm op] Cons.prems(1) 1 ns by simp_all
    have "well R db (queue_kind ns) d2 \<and> (redis_up R \<longrightarrow> Some WrongType \<notin> set es')"
      by (rule Cons.IH [OF f(1) _ 2]) (use Cons.prems(2) in auto)
    then show ?case using Cons.prems(3) x 1 2 f(2) by auto
  qed simp
  then show ?thesis by (simp add: well_def)
qed


text \<open>For the examples: items without data, written as their numbers and their identifier.\<close>

definition ex_item :: "string \<Rightarrow> unit QueueItem" where
  "ex_item i = \<lparr>qi_ID = i, qi_Data = (), qi_Priority = 0, qi_DelayTime = 0, qi_CreatedAt = 1, qi_RetryCount = 0\<rparr>"

definition item_show :: "unit QueueItem \<Rightarrow> string" where
  "item_show it = show_int (qi_Priority it) @ '','' @ show_int (qi_DelayTime it) @ '','' @ show_int (qi_CreatedAt it) @ '','' @
     show_int (qi_RetryCount it) @ '','' @ qi_ID it"

fun cut :: "string \<Rightarrow> string \<times> string" where
  "cut [] = ([], [])"
| "cut (c # s) = (if c = CHR '','' then ([], s) else (case cut s of (a, b) \<Rightarrow> (c # a, b)))"

definition item_scan :: "string \<Rightarrow> unit QueueItem" where
  "item_scan x =
     (case cut x of (p, x1) \<Rightarrow> case cut x1 of (t, x2) \<Rightarrow> case cut x2 of (c, x3) \<Rightarrow> case cut x3 of (r, i) \<Rightarrow>
        \<lparr>qi_ID = i, qi_Data = (), qi_Priority = the (scan_int p), qi_DelayTime = the (scan_int t), qi_CreatedAt = the (scan_int c),
         qi_RetryCount = the (scan_int r)\<rparr>)"

definition ex_item_json :: "unit item_json" where
  "ex_item_json = \<lparr>ij_Marshal = (\<lambda>item. Inr (item_show item)), ij_Unmarshal = (\<lambda>x. Inr (item_scan x))\<rparr>"

lemma cut_append: "CHR '','' \<notin> set a \<Longrightarrow> cut (a @ CHR '','' # b) = (a, b)"
  by (induction a) auto

lemma no_comma: "CHR '','' \<notin> set (show_int i)"
proof -
  have "\<not> is_digit CHR '',''" by (simp add: is_digit_def)
  then have "CHR '','' \<notin> set (show_nat n)" for n using show_nat_digits [of n] by (auto simp: list_all_iff)
  then show ?thesis by (auto simp: show_int_def)
qed

lemma item_scan_show: "item_scan (item_show it) = it"
  by (simp add: item_scan_def item_show_def cut_append no_comma)

definition ex_handler :: QueueHandler where
  "ex_handler = \<lparr>qh_config = \<lparr>qc_MaxRetries = 3, qc_RetryDelay = 5 * second, qc_BatchSize = 10, qc_LockTimeout = 300 * second,
     qc_CleanupInterval = 600 * second, qc_EnableDistributedLock = True\<rparr>, qh_namespace = ''queue''\<rparr>"

theorem q_typed_witness:
  "typed (queue_kind ''queue'') (snd (qh_run mathx_ref ex_item_json redis_ref
     [(ex_handler, \<lambda>_. 0, OEnqueue ''a'' QueueTypeFIFO (ex_item ''x'') 7), (ex_handler, \<lambda>_. 0, OAcquire ''a'' ''w''),
      (ex_handler, \<lambda>_. 0, ODequeue ''a'' QueueTypePriority 0)] Map.empty))"
  using q_typed [OF redis_ref_law(1) _ _ _ surjective_pairing, of Map.empty "''queue''"
      "[(ex_handler, \<lambda>_. 0, OEnqueue ''a'' QueueTypeFIFO (ex_item ''x'') 7), (ex_handler, \<lambda>_. 0, OAcquire ''a'' ''w''),
      (ex_handler, \<lambda>_. 0, ODequeue ''a'' QueueTypePriority 0)]" mathx_ref ex_item_json]
  by (simp add: ex_handler_def)

section \<open>Queues over lists\<close>

text \<open>
  What the JSON library makes of an item: it refuses some (a channel as data), and what it has written it
  reads back, though perhaps as another item (an integer in data of type \<open>interface{}\<close> comes back as a
  floating-point number).
\<close>

definition item_json_law :: "'a item_json \<Rightarrow> bool" where
  "item_json_law J \<longleftrightarrow> (\<forall>item x. ij_Marshal J item = Inr x \<longrightarrow> (\<exists>item'. ij_Unmarshal J x = Inr item'))"

definition reread :: "'a item_json \<Rightarrow> 'a QueueItem \<Rightarrow> 'a QueueItem go_result" where
  "reread J item = (case ij_Marshal J item of Inl err \<Rightarrow> Inl err | Inr x \<Rightarrow> ij_Unmarshal J x)"

lemma reread_cases:
  assumes "item_json_law J"
  obtains (refused) err where "ij_Marshal J item = Inl err" "reread J item = Inl err"
    | (kept) x item' where "ij_Marshal J item = Inr x" "ij_Unmarshal J x = Inr item'" "reread J item = Inr item'"
proof (cases "ij_Marshal J item")
  case (Inl err)
  then show ?thesis using refused by (simp add: reread_def)
next
  case (Inr x)
  then obtain item' where "ij_Unmarshal J x = Inr item'" using assms unfolding item_json_law_def by blast
  then show ?thesis using kept Inr by (simp add: reread_def)
qed

text \<open>A queue holds a list of items.\<close>

definition holds :: "'a item_json \<Rightarrow> 'd redis \<Rightarrow> ('d \<Rightarrow> redis_db) \<Rightarrow> string \<Rightarrow> 'd \<Rightarrow> 'a QueueItem list \<Rightarrow> bool" where
  "holds J R db key d items \<longleftrightarrow> redis_law R db \<and> redis_up R \<and> db_wf (db d) \<and> list_key (db d) key \<and>
     map (ij_Unmarshal J) (lst (db d) key) = map Inr items"

lemma holdsD:
  assumes "holds J R db key d items"
  shows "redis_law R db" "redis_up R" "db_wf (db d)" "list_key (db d) key" "map (ij_Unmarshal J) (lst (db d) key) = map Inr items"
  using assms by (simp_all add: holds_def)

lemma holds_items_length: "holds J R db key d items \<Longrightarrow> length (lst (db d) key) = length items"
  by (drule holdsD(5)) (rule map_eq_imp_length_eq)

lemma items_read_map: "map (ij_Unmarshal J) xs = map Inr items \<Longrightarrow> items_read J xs = items"
  by (induction xs arbitrary: items) (auto simp: items_read_def)

lemma between_take: "0 < c \<Longrightarrow> between 0 (c - 1) xs = take (nat c) xs"
  by (simp add: between_def Let_def)

text \<open>The single operations.\<close>

lemma holds_push:
  assumes "holds J R db key d items" "ij_Unmarshal J x = Inr item"
  obtains d' where "client_err R now (LPUSH key x) d = (None, d')" "holds J R db key d' (item # items)"
proof -
  note h = holdsD [OF assms(1)]
  obtain db1 where 1: "redis_do now (LPUSH key x) (db d) = (RInt (int (length (lst (db d) key)) + 1), db1)" "list_key db1 key"
    "lst db1 key = x # lst (db d) key" by (rule push_do [OF h(4)])
  obtain d' where d: "client R now (LPUSH key x) d = (Inr (RInt (int (length (lst (db d) key)) + 1)), d')" "db d' = db1" "db_wf (db d')"
    by (rule client_up [OF h(1-3) 1(1)]) simp_all
  show thesis by (rule that [of d']) (use d 1 h assms(2) in \<open>simp_all add: client_err_def holds_def\<close>)
qed

lemma holds_rpush:
  assumes "holds J R db key d items" "ij_Unmarshal J x = Inr item"
  obtains d' where "client_err R now (RPUSH key x) d = (None, d')" "holds J R db key d' (items @ [item])"
proof -
  note h = holdsD [OF assms(1)]
  obtain db1 where 1: "redis_do now (RPUSH key x) (db d) = (RInt (int (length (lst (db d) key)) + 1), db1)" "list_key db1 key"
    "lst db1 key = lst (db d) key @ [x]" by (rule rpush_do [OF h(4)])
  obtain d' where d: "client R now (RPUSH key x) d = (Inr (RInt (int (length (lst (db d) key)) + 1)), d')" "db d' = db1" "db_wf (db d')"
    by (rule client_up [OF h(1-3) 1(1)]) simp_all
  show thesis by (rule that [of d']) (use d 1 h assms(2) in \<open>simp_all add: client_err_def holds_def\<close>)
qed

lemma holds_pop:
  assumes "holds J R db key d items"
  obtains (none) d' where "items = []" "client_str R now (LPOP key) d = (Inl RedisNil, d')" "holds J R db key d' []"
    | (some) x item rest d' where "items = item # rest" "client_str R now (LPOP key) d = (Inr x, d')" "ij_Unmarshal J x = Inr item"
        "holds J R db key d' rest"
proof -
  note h = holdsD [OF assms]
  obtain db1 where 1: "redis_do now (LPOP key) (db d) = (case lst (db d) key of [] \<Rightarrow> RNil | v # _ \<Rightarrow> RBulk v, db1)" "list_key db1 key"
    "lst db1 key = tl (lst (db d) key)" by (rule lpop_do [OF h(4)])
  show thesis
  proof (cases "lst (db d) key")
    case Nil
    then have n: "items = []" using h(5) by simp
    have "redis_do now (LPOP key) (db d) = (RNil, db1)" using 1(1) Nil by simp
    then obtain d' where "client R now (LPOP key) d = (Inl RedisNil, d')" "db d' = db1" "db_wf (db d')"
      by (rule client_up_nil [OF h(1-3)])
    then show ?thesis by (intro none [of d']) (use 1 Nil n h in \<open>simp_all add: client_str_def holds_def\<close>)
  next
    case (Cons x xs)
    then obtain item rest where i: "items = item # rest" "ij_Unmarshal J x = Inr item" "map (ij_Unmarshal J) xs = map Inr rest"
      using h(5) by (cases items) auto
    have "redis_do now (LPOP key) (db d) = (RBulk x, db1)" using 1(1) Cons by simp
    then obtain d' where "client R now (LPOP key) d = (Inr (RBulk x), d')" "db d' = db1" "db_wf (db d')"
      by (rule client_up [OF h(1-3)]) simp_all
    then show ?thesis by (intro some [of item rest x d']) (use 1 Cons i h in \<open>simp_all add: client_str_def holds_def\<close>)
  qed
qed

lemma lua_pop_db:
  assumes "list_key db k"
  obtains db' where "run_db now (lua_pop k i acc) db = (Inr (acc @ take i (lst db k)), db')" "list_key db' k" "lst db' k = drop i (lst db k)"
  using assms
proof (induction i arbitrary: db acc thesis)
  case (Suc i)
  obtain db1 where 1: "redis_do now (LPOP k) db = (case lst db k of [] \<Rightarrow> RNil | v # _ \<Rightarrow> RBulk v, db1)" "list_key db1 k"
    "lst db1 k = tl (lst db k)" by (rule lpop_do [OF Suc.prems(2)])
  show ?case
  proof (cases "lst db k")
    case Nil
    then show ?thesis using Suc.prems(1) [of db1] 1 by simp
  next
    case (Cons v l)
    obtain db2 where "run_db now (lua_pop k i (acc @ [v])) db1 = (Inr ((acc @ [v]) @ take i (lst db1 k)), db2)" "list_key db2 k"
      "lst db2 k = drop i (lst db1 k)" by (rule Suc.IH [OF _ 1(2)])
    then show ?thesis using Suc.prems(1) [of db2] 1 Cons by simp
  qed
qed simp


text \<open>The operations on one queue, their answers on the server and on a list.\<close>

datatype 'a list_op =
    Put time int "'a QueueItem" | Pop time duration | Batch time int | Look time int | Size time | Wipe time | Has time string

datatype 'a list_answer =
    APut "go_error option" | APop "'a QueueItem option go_result" | ABatch "'a QueueItem list" "go_error option"
  | ALook "'a QueueItem list go_result" | ASize "int go_result" | AWipe "go_error option" | AHas "bool go_result"

fun queue_exec ::
  "mathx \<Rightarrow> 'a item_json \<Rightarrow> 'd redis \<Rightarrow> QueueHandler \<Rightarrow> string \<Rightarrow> QueueType \<Rightarrow> 'a list_op \<Rightarrow> 'd \<Rightarrow> 'a list_answer \<times> 'd" where
  "queue_exec X J R q n ty (Put now gen item) d = (case qh_Enqueue J R now gen q n ty item d of ((e, _), d') \<Rightarrow> (APut e, d'))"
| "queue_exec X J R q n ty (Pop now w) d = (case dequeueWithTimeout J R now q n ty w d of (r, d') \<Rightarrow> (APop r, d'))"
| "queue_exec X J R q n ty (Batch now c) d = (case BatchDequeue X J R (\<lambda>_. now) q n ty c d of ((its, e), d') \<Rightarrow> (ABatch its e, d'))"
| "queue_exec X J R q n ty (Look now c) d = (case qh_Peek X J R now q n ty c d of (r, d') \<Rightarrow> (ALook r, d'))"
| "queue_exec X J R q n ty (Size now) d = (case qh_Length R now q n ty d of (r, d') \<Rightarrow> (ASize r, d'))"
| "queue_exec X J R q n ty (Wipe now) d = (case qh_Clear R now q n ty d of (e, d') \<Rightarrow> (AWipe e, d'))"
| "queue_exec X J R q n ty (Has now itemID) d = (case qh_Contains X J R now now q n ty itemID d of (r, d') \<Rightarrow> (AHas r, d'))"

fun list_exec :: "'a item_json \<Rightarrow> QueueHandler \<Rightarrow> bool \<Rightarrow> 'a list_op \<Rightarrow> 'a QueueItem list \<Rightarrow> 'a list_answer \<times> 'a QueueItem list" where
  "list_exec J q fifo (Put now gen item) its =
     (case reread J (item_prepare now gen item) of
        Inl err \<Rightarrow> (APut (Some (Wrapped ''failed to marshal queue item'' err)), its)
      | Inr item' \<Rightarrow> (APut None, if fifo then its @ [item'] else item' # its))"
| "list_exec J q fifo (Pop now w) its = (APop (Inr (case its of [] \<Rightarrow> None | it # _ \<Rightarrow> Some it)), tl its)"
| "list_exec J q fifo (Batch now c) its =
     (let c' = nat (if c \<le> 0 then qc_BatchSize (qh_config q) else c) in (ABatch (take c' its) None, drop c' its))"
| "list_exec J q fifo (Look now c) its = (ALook (Inr (take (nat (if c \<le> 0 then 1 else c)) its)), its)"
| "list_exec J q fifo (Size now) its = (ASize (Inr (int (length its))), its)"
| "list_exec J q fifo (Wipe now) its = (AWipe None, [])"
| "list_exec J q fifo (Has now itemID) its = (AHas (Inr (list_ex (\<lambda>item. qi_ID item = itemID) (take 1000 its))), its)"

lemma holds_wipe:
  assumes "holds J R db key d items"
  obtains d' where "client_err R now (DEL [key]) d = (None, d')" "holds J R db key d' []"
proof -
  note h = holdsD [OF assms]
  define n where "n = int (length (filter (\<lambda>k. at now (db d) k \<noteq> None) (remdups [key])))"
  define db1 where "db1 = (\<lambda>k. if k \<in> set [key] then None else db d k)"
  have 1: "redis_do now (DEL [key]) (db d) = (RInt n, db1)" "db1 key = None" by (simp_all only: n_def db1_def redis_do.simps) simp
  have 2: "list_key db1 key" "lst db1 key = []" using 1(2) by (simp_all add: list_key_def lst_def)
  obtain d' where "client R now (DEL [key]) d = (Inr (RInt n), d')" "db d' = db1" "db_wf (db d')"
    by (rule client_up [OF h(1-3) 1(1)]) simp_all
  then show thesis by (intro that [of d']) (use 2 h in \<open>simp_all add: client_err_def holds_def\<close>)
qed

lemma holds_look:
  assumes "holds J R db key d items" "0 < c"
  obtains d' where "client_arr R now (LRANGE key 0 (c - 1)) d = (Inr (take (nat c) (lst (db d) key)), d')" "holds J R db key d' items"
proof -
  note h = holdsD [OF assms(1)]
  have r: "redis_do now (LRANGE key 0 (c - 1)) (db d) = (RArr (take (nat c) (lst (db d) key)), db d)"
    using list_do(2) [OF h(4)] between_take [OF assms(2)] by simp
  obtain d' where "client R now (LRANGE key 0 (c - 1)) d = (Inr (RArr (take (nat c) (lst (db d) key))), d')" "db d' = db d" "db_wf (db d')"
    by (rule client_up [OF h(1-3) r]) simp_all
  then show thesis by (intro that [of d']) (use assms(1) in \<open>simp_all add: client_arr_def holds_def\<close>)
qed

lemma holds_size:
  assumes "holds J R db key d items"
  obtains d' where "client_int R now (LLEN key) d = (Inr (int (length items)), d')" "holds J R db key d' items"
proof -
  note h = holdsD [OF assms(1)]
  have r: "redis_do now (LLEN key) (db d) = (RInt (int (length items)), db d)"
    using list_do(1) [OF h(4)] holds_items_length [OF assms] by simp
  obtain d' where "client R now (LLEN key) d = (Inr (RInt (int (length items))), d')" "db d' = db d" "db_wf (db d')"
    by (rule client_up [OF h(1-3) r]) simp_all
  then show thesis by (intro that [of d']) (use assms(1) in \<open>simp_all add: client_int_def holds_def\<close>)
qed

lemma holds_batch:
  assumes "holds J R db key d items"
  obtains d' where "batchDequeueLua J R now key c d = ((take (nat c) items, None), d')" "holds J R db key d' (drop (nat c) items)"
proof -
  note h = holdsD [OF assms(1)]
  obtain db1 where 1: "run_db now (lua_pop key (nat c) []) (db d) = (Inr ([] @ take (nat c) (lst (db d) key)), db1)" "list_key db1 key"
    "lst db1 key = drop (nat c) (lst (db d) key)" by (rule lua_pop_db [OF h(4)])
  obtain d' where d: "eval R now (lua_pop key (nat c) []) d = (fst (run_db now (lua_pop key (nat c) []) (db d)), d')"
    "db d' = snd (run_db now (lua_pop key (nat c) []) (db d))" "db_wf (db d')"
    by (rule eval_up [OF h(1-3)])
  have r: "items_read J (take (nat c) (lst (db d) key)) = take (nat c) items"
    by (rule items_read_map) (use h(5) in \<open>metis take_map\<close>)
  have m: "map (ij_Unmarshal J) (drop (nat c) (lst (db d) key)) = map Inr (drop (nat c) items)" using h(5) by (metis drop_map)
  show thesis by (rule that [of d']) (use d 1 h r m in \<open>simp_all add: batchDequeueLua_def holds_def\<close>)
qed

lemma holds_peek:
  assumes "mathx_laws X" "ty = (if fifo then QueueTypeFIFO else QueueTypeLIFO)" "holds J R db (getQueueKey q n ty) d items"
  obtains d' where "qh_Peek X J R now q n ty c d = (Inr (take (nat (if c \<le> 0 then 1 else c)) items), d')"
    "holds J R db (getQueueKey q n ty) d' items"
proof -
  let ?c = "if c \<le> 0 then 1 else c"
  obtain d' where 1: "client_arr R now (LRANGE (getQueueKey q n ty) 0 (?c - 1)) d = (Inr (take (nat ?c) (lst (db d) (getQueueKey q n ty))), d')"
    "holds J R db (getQueueKey q n ty) d' items" by (rule holds_look [OF assms(3), of ?c now]) simp_all
  have "items_read J (take (nat ?c) (lst (db d) (getQueueKey q n ty))) = take (nat ?c) items"
    by (rule items_read_map) (use holdsD(5) [OF assms(3)] in \<open>metis take_map\<close>)
  then show thesis using that [of d'] 1 assms(2) mathx_lawsD(4) [OF assms(1)] by (cases fifo) (simp_all add: qh_Peek_def Let_def)
qed

lemma holds_llen:
  assumes "ty = (if fifo then QueueTypeFIFO else QueueTypeLIFO)" "holds J R db (getQueueKey q n ty) d items"
  obtains d' where "qh_Length R now q n ty d = (Inr (int (length items)), d')" "holds J R db (getQueueKey q n ty) d' items"
proof -
  obtain d' where "client_int R now (LLEN (getQueueKey q n ty)) d = (Inr (int (length items)), d')"
    "holds J R db (getQueueKey q n ty) d' items" by (rule holds_size [OF assms(2)])
  then show thesis using that [of d'] assms(1) by (cases fifo) (simp_all add: qh_Length_def)
qed

text \<open>One operation.\<close>

lemma queue_exec_list:
  assumes "mathx_laws X" "item_json_law J" "ty = (if fifo then QueueTypeFIFO else QueueTypeLIFO)"
    "holds J R db (getQueueKey q n ty) d items"
  obtains d' where "queue_exec X J R q n ty op d = (fst (list_exec J q fifo op items), d')"
    "holds J R db (getQueueKey q n ty) d' (snd (list_exec J q fifo op items))"
proof (cases op)
  case (Put now gen item)
  show ?thesis
  proof (cases rule: reread_cases [OF assms(2), of "item_prepare now gen item", case_names refused kept])
    case (refused err)
    then show ?thesis using that [of d] Put assms(4) by (simp add: qh_Enqueue_def Let_def)
  next
    case x: (kept x item')
    show ?thesis
    proof (cases fifo)
      case True
      obtain d' where "client_err R now (RPUSH (getQueueKey q n ty) x) d = (None, d')"
        "holds J R db (getQueueKey q n ty) d' (items @ [item'])" by (rule holds_rpush [OF assms(4) x(2)])
      then show ?thesis using that [of d'] Put True x assms(3) by (simp add: qh_Enqueue_def)
    next
      case False
      obtain d' where "client_err R now (LPUSH (getQueueKey q n ty) x) d = (None, d')"
        "holds J R db (getQueueKey q n ty) d' (item' # items)" by (rule holds_push [OF assms(4) x(2)])
      then show ?thesis using that [of d'] Put False x assms(3) by (simp add: qh_Enqueue_def)
    qed
  qed
next
  case (Pop now w)
  show ?thesis
  proof (cases rule: holds_pop [OF assms(4), of now, case_names none some])
    case (none d')
    then show ?thesis using that [of d'] Pop assms(3) by (simp add: dequeueWithTimeout_def)
  next
    case (some x item rest d')
    then show ?thesis using that [of d'] Pop assms(3) by (simp add: dequeueWithTimeout_def item_read_def)
  qed
next
  case (Batch now c)
  let ?c = "if c \<le> 0 then qc_BatchSize (qh_config q) else c"
  obtain d' where "batchDequeueLua J R now (getQueueKey q n ty) ?c d = ((take (nat ?c) items, None), d')"
    "holds J R db (getQueueKey q n ty) d' (drop (nat ?c) items)" by (rule holds_batch [OF assms(4)])
  then show ?thesis using that [of d'] Batch assms(3) mathx_lawsD(4) [OF assms(1)] by (simp add: BatchDequeue_def Let_def)
next
  case (Look now c)
  obtain d' where "qh_Peek X J R now q n ty c d = (Inr (take (nat (if c \<le> 0 then 1 else c)) items), d')"
    "holds J R db (getQueueKey q n ty) d' items" by (rule holds_peek [OF assms(1,3,4)])
  then show ?thesis using that [of d'] Look by simp
next
  case (Size now)
  obtain d' where "qh_Length R now q n ty d = (Inr (int (length items)), d')" "holds J R db (getQueueKey q n ty) d' items"
    by (rule holds_llen [OF assms(3,4)])
  then show ?thesis using that [of d'] Size by simp
next
  case (Wipe now)
  obtain d' where "client_err R now (DEL [getQueueKey q n ty]) d = (None, d')" "holds J R db (getQueueKey q n ty) d' []"
    by (rule holds_wipe [OF assms(4)])
  then show ?thesis using that [of d'] Wipe assms(3) by (cases fifo) (simp_all add: qh_Clear_def)
next
  case (Has now itemID)
  obtain d1 where 1: "qh_Length R now q n ty d = (Inr (int (length items)), d1)" "holds J R db (getQueueKey q n ty) d1 items"
    by (rule holds_llen [OF assms(3,4)])
  let ?c = "if 1000 < int (length items) then 1000 else int (length items)"
  obtain d2 where 2: "qh_Peek X J R now q n ty ?c d1 = (Inr (take (nat (if ?c \<le> 0 then 1 else ?c)) items), d2)"
    "holds J R db (getQueueKey q n ty) d2 items" by (rule holds_peek [OF assms(1,3) 1(2)])
  show ?thesis
  proof (cases "items = []")
    case True
    then show ?thesis using that [of d1] Has 1 by (simp add: qh_Contains_def)
  next
    case False
    then have "take (nat (if ?c \<le> 0 then 1 else ?c)) items = take 1000 items" by simp
    then show ?thesis using that [of d2] Has 1(1) 2 False by (simp add: qh_Contains_def)
  qed
qed

fun run_all :: "('o \<Rightarrow> 's \<Rightarrow> 'r \<times> 's) \<Rightarrow> 'o list \<Rightarrow> 's \<Rightarrow> 'r list \<times> 's" where
  "run_all f [] s = ([], s)"
| "run_all f (op # ops) s = (case f op s of (r, s1) \<Rightarrow> (case run_all f ops s1 of (rs, s2) \<Rightarrow> (r # rs, s2)))"



lemma ex_item_json_law: "item_json_law ex_item_json"
  by (simp add: item_json_law_def ex_item_json_def)

lemma ex_reread [simp]: "reread ex_item_json item = Inr item"
  by (simp add: reread_def ex_item_json_def item_scan_show)

lemma holds_empty: "holds J redis_ref id key Map.empty []"
  by (simp add: holds_def redis_ref_law list_key_def lst_def)



section \<open>Queues by priority\<close>

text \<open>The items of a sorted set, when every member is an item with its score.\<close>

definition members :: "'a item_json \<Rightarrow> (string \<rightharpoonup> int) \<Rightarrow> 'a QueueItem set" where
  "members J z = {item. \<exists>x \<in> dom z. ij_Unmarshal J x = Inr item}"

lemma membersE:
  assumes "item \<in> members J z"
  obtains x s where "z x = Some s" "ij_Unmarshal J x = Inr item"
  using assms unfolding members_def by blast

lemma members_remove:
  assumes "ij_Unmarshal J m = Inr item" "\<And>x s. z x = Some s \<Longrightarrow> ij_Unmarshal J x = Inr item \<Longrightarrow> x = m"
  shows "members J (z(m := None)) = members J z - {item}"
proof (rule set_eqI)
  fix it
  show "it \<in> members J (z(m := None)) \<longleftrightarrow> it \<in> members J z - {item}"
    using assms unfolding members_def by (auto split: if_splits)
qed

definition ranked :: "'a item_json \<Rightarrow> 'd redis \<Rightarrow> ('d \<Rightarrow> redis_db) \<Rightarrow> string \<Rightarrow> 'd \<Rightarrow> bool" where
  "ranked J R db key d \<longleftrightarrow> redis_law R db \<and> redis_up R \<and> db_wf (db d) \<and> zset_key (db d) key \<and>
     (\<forall>x s. zs (db d) key x = Some s \<longrightarrow> (\<exists>item. ij_Unmarshal J x = Inr item \<and> qi_Priority item = s \<and> ij_Marshal J item = Inr x))"

lemma rankedD:
  assumes "ranked J R db key d"
  shows "redis_law R db" "redis_up R" "db_wf (db d)" "zset_key (db d) key"
    "zs (db d) key x = Some s \<Longrightarrow> \<exists>item. ij_Unmarshal J x = Inr item \<and> qi_Priority item = s \<and> ij_Marshal J item = Inr x"
  using assms unfolding ranked_def by blast+

text \<open>An item with a marshalled form that is there already is not added a second time.\<close>

lemma pq_enqueue:
  assumes "ranked J R db (getQueueKey q n QueueTypePriority) d" "reread J (item_prepare now gen item) = Inr (item_prepare now gen item)"
  obtains d' where "qh_Enqueue J R now gen q n QueueTypePriority item d = ((None, item_prepare now gen item), d')"
    "ranked J R db (getQueueKey q n QueueTypePriority) d'"
    "members J (zs (db d') (getQueueKey q n QueueTypePriority)) =
       insert (item_prepare now gen item) (members J (zs (db d) (getQueueKey q n QueueTypePriority)))"
proof -
  let ?k = "getQueueKey q n QueueTypePriority" and ?it = "item_prepare now gen item"
  note h = rankedD [OF assms(1)]
  obtain x where x: "ij_Marshal J ?it = Inr x" "ij_Unmarshal J x = Inr ?it" using assms(2) by (auto simp: reread_def split: sum.splits)
  obtain db1 where 1: "redis_do now (ZADD ?k (qi_Priority ?it) x) (db d) = (count (zs (db d) ?k x = None), db1)" "zset_key db1 ?k"
    "zs db1 ?k = (zs (db d) ?k)(x \<mapsto> qi_Priority ?it)" by (rule zadd_do [OF h(4)])
  obtain d' where d: "client R now (ZADD ?k (qi_Priority ?it) x) d = (Inr (count (zs (db d) ?k x = None)), d')" "db d' = db1" "db_wf (db d')"
    by (rule client_up [OF h(1-3) 1(1)]) simp_all
  show thesis
  proof (rule that [of d'])
    show "qh_Enqueue J R now gen q n QueueTypePriority item d = ((None, ?it), d')"
      using x(1) d(1) by (simp add: qh_Enqueue_def Let_def client_err_def)
    show "ranked J R db ?k d'" using h d x 1 by (auto simp: ranked_def)
    show "members J (zs (db d') ?k) = insert ?it (members J (zs (db d) ?k))" using d 1 x(2) by (auto simp: members_def)
  qed
qed

text \<open>Taking from a queue by priority gives out an item of the greatest priority and removes exactly this
  item; nothing comes only out of an empty queue.\<close>
theorem q_priority:
  assumes "ranked J R db (getQueueKey q n QueueTypePriority) d"
    "dequeueWithTimeout J R now q n QueueTypePriority w d = (r, d')"
    "items = members J (zs (db d) (getQueueKey q n QueueTypePriority))"
  shows "ranked J R db (getQueueKey q n QueueTypePriority) d' \<and>
    (case r of Inl err \<Rightarrow> False
     | Inr None \<Rightarrow> items = {}
     | Inr (Some item) \<Rightarrow> item \<in> items \<and> (\<forall>other \<in> items. qi_Priority other \<le> qi_Priority item) \<and>
         members J (zs (db d') (getQueueKey q n QueueTypePriority)) = items - {item})"
proof -
  let ?k = "getQueueKey q n QueueTypePriority"
  note h = rankedD [OF assms(1)]
  show ?thesis
  proof (cases rule: zpopmax_do [OF h(4), of now, case_names none some])
    case none
    obtain d1 where d: "client R now (ZPOPMAX ?k) d = (Inr (RArr []), d1)" "db d1 = db d" by (rule client_up [OF h(1-3) none(1)]) simp_all
    then have "r = Inr None" "d' = d1" using assms(2) by (simp_all add: dequeueWithTimeout_def client_arr_def)
    then show ?thesis using none(2) d(2) assms(1,3) by (simp add: members_def ranked_def)
  next
    case (some m s db1)
    obtain d1 where d: "client R now (ZPOPMAX ?k) d = (Inr (RArr [m]), d1)" "db d1 = db1" "db_wf (db d1)"
      by (rule client_up [OF h(1-3) some(1)]) simp_all
    obtain item where i: "ij_Unmarshal J m = Inr item" "qi_Priority item = s" "ij_Marshal J item = Inr m" using h(5) [OF some(2)] by blast
    have r: "r = Inr (Some item)" "d' = d1" using assms(2) d(1) i(1) by (simp_all add: dequeueWithTimeout_def client_arr_def item_read_def)
    have rk: "ranked J R db ?k d1" using h some d by (auto simp: ranked_def split: if_splits)
    have "item \<in> items" using some(2) i(1) assms(3) by (auto simp: members_def)
    moreover have "qi_Priority other \<le> qi_Priority item" if o: "other \<in> items" for other
    proof -
      obtain x s' where x: "zs (db d) ?k x = Some s'" "ij_Unmarshal J x = Inr other" by (rule membersE [OF o [unfolded assms(3)]])
      then show ?thesis using h(5) [OF x(1)] some(3) [OF x(1)] i(2) by auto
    qed
    moreover have "members J (zs (db d1) ?k) = items - {item}"
      unfolding d(2) some(5) assms(3)
      by (rule members_remove [OF i(1)]) (use h(5) i(3) in fastforce)
    ultimately show ?thesis using r rk by simp
  qed
qed

definition ex_prio :: "string \<Rightarrow> int \<Rightarrow> unit QueueItem" where
  "ex_prio i p = (ex_item i)\<lparr>qi_Priority := p\<rparr>"

lemma ranked_empty: "ranked J redis_ref id key Map.empty"
  by (simp add: ranked_def redis_ref_law zset_key_def zalist_def)

theorem q_priority_witness:
  "\<exists>d'. ranked ex_item_json redis_ref id (getQueueKey ex_handler ''a'' QueueTypePriority) d' \<and>
     fst (dequeueWithTimeout ex_item_json redis_ref 0 ex_handler ''a'' QueueTypePriority 0 d') = Inr (Some (ex_prio ''y'' 5))"
proof -
  let ?k = "getQueueKey ex_handler ''a'' QueueTypePriority"
  obtain d1 where 1: "ranked ex_item_json redis_ref id ?k d1"
    "members ex_item_json (zs (id d1) ?k) = insert (item_prepare 0 1 (ex_prio ''x'' 3)) (members ex_item_json (zs (id Map.empty) ?k))"
    by (rule pq_enqueue [OF ranked_empty ex_reread])
  obtain d2 where 2: "ranked ex_item_json redis_ref id ?k d2"
    "members ex_item_json (zs (id d2) ?k) = insert (item_prepare 0 1 (ex_prio ''y'' 5)) (members ex_item_json (zs (id d1) ?k))"
    by (rule pq_enqueue [OF 1(1) ex_reread])
  have m: "members ex_item_json (zs (id d2) ?k) = {ex_prio ''x'' 3, ex_prio ''y'' 5}"
    unfolding 2(2) 1(2) by (auto simp: item_prepare_def ex_prio_def ex_item_def members_def zalist_def)
  obtain r d3 where 3: "dequeueWithTimeout ex_item_json redis_ref 0 ex_handler ''a'' QueueTypePriority 0 d2 = (r, d3)"
    by (cases "dequeueWithTimeout ex_item_json redis_ref 0 ex_handler ''a'' QueueTypePriority 0 d2")
  note a = conjunct2 [OF q_priority [OF 2(1) 3 refl], unfolded m]
  have "r = Inr (Some (ex_prio ''y'' 5))"
  proof (cases r)
    case (Inr it)
    show ?thesis
    proof (cases it)
      case (Some i)
      from a [unfolded Inr Some sum.case option.case]
      have "i \<in> {ex_prio ''x'' 3, ex_prio ''y'' 5}" "\<forall>other \<in> {ex_prio ''x'' 3, ex_prio ''y'' 5}. qi_Priority other \<le> qi_Priority i"
        by blast+
      then show ?thesis using Inr Some by (auto simp: ex_prio_def)
    qed (use a [unfolded Inr sum.case] in simp)
  qed (use a in simp)
  then show ?thesis using 2(1) 3 by (intro exI [of _ d2]) simp
qed


section \<open>Delayed queues\<close>

definition delayed :: "'d redis \<Rightarrow> ('d \<Rightarrow> redis_db) \<Rightarrow> string \<Rightarrow> 'd \<Rightarrow> bool" where
  "delayed R db key d \<longleftrightarrow> redis_law R db \<and> redis_up R \<and> db_wf (db d) \<and> zset_key (db d) key"

lemma delayedD:
  assumes "delayed R db key d"
  shows "redis_law R db" "redis_up R" "db_wf (db d)" "zset_key (db d) key"
  using assms by (simp_all add: delayed_def)

text \<open>What is found is due; something that is due is found.\<close>

lemma zrange_pos:
  assumes "distinct (map fst z)" "m \<in> set (zrange (Some l) hi n z)"
  shows "\<exists>s. map_of z m = Some s \<and> l \<le> s \<and> s \<le> hi"
proof -
  have "m \<in> set (zsorted (filter (\<lambda>(m, s). l \<le> s \<and> s \<le> hi) z))"
    using assms(2) by (auto simp: zrange_def Let_def split: if_splits dest: in_set_takeD)
  then show ?thesis using assms(1) by (auto simp: zsorted_set)
qed

lemma zrange_nonempty:
  assumes "map_of z m = Some s" "l \<le> s" "s \<le> hi" "0 < n"
  shows "zrange (Some l) hi n z \<noteq> []"
proof -
  have "(m, s) \<in> set (filter (\<lambda>(m, s). l \<le> s \<and> s \<le> hi) z)" using assms by (auto dest: map_of_SomeD)
  then have "m \<in> set (zsorted (filter (\<lambda>(m, s). l \<le> s \<and> s \<le> hi) z))" by (force simp: zsorted_set)
  then have "zsorted (filter (\<lambda>(m, s). l \<le> s \<and> s \<le> hi) z) \<noteq> []" by auto
  then show ?thesis using assms(4) by (simp add: zrange_def Let_def)
qed

lemma delayed_find_up:
  assumes "delayed R db (getDelayKey q n) d"
  obtains ms d' where "delayed_find R now q n d = (Inr ms, d')" "delayed R db (getDelayKey q n) d'" "db d' = db d"
    "ms = zrange (Some 0) (unix_seconds now) 1 (zalist (db d) (getDelayKey q n))"
proof -
  note h = delayedD [OF assms]
  let ?ms = "zrange (Some 0) (unix_seconds now) 1 (zalist (db d) (getDelayKey q n))"
  obtain d' where "client R now (ZRANGEBYSCORE (getDelayKey q n) (Some 0) (unix_seconds now) 1) d = (Inr (RArr ?ms), d')" "db d' = db d" "db_wf (db d')"
    by (rule client_up [OF h(1-3) zrange_do(1) [OF h(4)]]) simp_all
  then show thesis by (intro that [of ?ms d']) (use h in \<open>simp_all add: delayed_find_def client_arr_def delayed_def\<close>)
qed

lemma delayed_take_up:
  assumes "delayed R db (getDelayKey q n) d"
  obtains d' where "delayed_take J R now q n m d = (item_read J ''failed to unmarshal delayed queue item'' m, d')"
    "delayed R db (getDelayKey q n) d'" "zs (db d') (getDelayKey q n) = (zs (db d) (getDelayKey q n))(m := None)"
proof -
  note h = delayedD [OF assms]
  obtain db1 where 1: "redis_do now (ZREM (getDelayKey q n) m) (db d) = (count (zs (db d) (getDelayKey q n) m \<noteq> None), db1)"
    "zset_key db1 (getDelayKey q n)" "zs db1 (getDelayKey q n) = (zs (db d) (getDelayKey q n))(m := None)" by (rule zrem_do [OF h(4)])
  obtain d' where "client R now (ZREM (getDelayKey q n) m) d = (Inr (count (zs (db d) (getDelayKey q n) m \<noteq> None)), d')" "db d' = db1" "db_wf (db d')"
    by (rule client_up [OF h(1-3) 1(1)]) simp_all
  then show thesis by (intro that [of d']) (use h 1 in \<open>simp_all add: delayed_take_def delayed_def\<close>)
qed

text \<open>A delayed queue gives out nothing before its time: an item taken at \<open>now\<close> has a score of at most the
  seconds of \<open>now\<close>, and is no longer in the queue; nothing is given out only if nothing is due.\<close>
theorem q_delayed_due:
  assumes "delayed R db (getDelayKey q n) d" "dequeueWithTimeout J R now q n QueueTypeDelayed w d = (r, d')"
    "due_now = {x. \<exists>s. zs (db d) (getDelayKey q n) x = Some s \<and> 0 \<le> s \<and> s \<le> unix_seconds now}"
  shows "if due_now = {} then r = Inr None \<and> db d' = db d
    else \<exists>x \<in> due_now. r = item_read J ''failed to unmarshal delayed queue item'' x \<and>
      zs (db d') (getDelayKey q n) = (zs (db d) (getDelayKey q n))(x := None)"
proof -
  let ?k = "getDelayKey q n"
  have z: "distinct (map fst (zalist (db d) ?k))" by (rule zalist_distinct [OF delayedD(4) [OF assms(1)]])
  obtain ms d1 where 1: "delayed_find R now q n d = (Inr ms, d1)" "delayed R db ?k d1" "db d1 = db d"
    "ms = zrange (Some 0) (unix_seconds now) 1 (zalist (db d) ?k)" by (rule delayed_find_up [OF assms(1)])
  have sub: "set ms \<subseteq> due_now" using zrange_pos [OF z] 1(4) assms(3) by blast
  show ?thesis
  proof (cases ms)
    case Nil
    have "due_now = {}"
    proof (rule ccontr)
      assume "due_now \<noteq> {}"
      then obtain x s where "zs (db d) ?k x = Some s" "0 \<le> s" "s \<le> unix_seconds now" using assms(3) by blast
      then have "ms \<noteq> []" unfolding 1(4) by (rule zrange_nonempty) simp
      then show False using Nil by simp
    qed
    then show ?thesis using assms(2) 1(1,3) Nil by (auto simp: dequeueWithTimeout_def processDelayedQueue_def)
  next
    case (Cons x xs)
    obtain d2 where 2: "delayed_take J R now q n x d1 = (item_read J ''failed to unmarshal delayed queue item'' x, d2)"
      "zs (db d2) ?k = (zs (db d1) ?k)(x := None)" by (rule delayed_take_up [OF 1(2)])
    have "x \<in> due_now" using sub Cons by auto
    moreover have "delayed_find R now q n d = (Inr (x # xs), d1)" using 1(1) Cons by simp
    ultimately show ?thesis using assms(2) 1(3) 2 by (auto simp: dequeueWithTimeout_def processDelayedQueue_def intro!: bexI [of _ x])
  qed
qed

definition ex_delayed :: redis_db where
  "ex_delayed = [getDelayKey ex_handler ''a'' \<mapsto> (VZset [(item_show (ex_item ''x''), 5)], None)]"

lemma ex_delayed_ok: "delayed redis_ref id (getDelayKey ex_handler ''a'') ex_delayed"
  "zs (id ex_delayed) (getDelayKey ex_handler ''a'') = [item_show (ex_item ''x'') \<mapsto> 5]"
  by (simp_all add: delayed_def redis_ref_law ex_delayed_def zset_key_def zalist_def db_wf_def)

theorem q_delayed_due_witness:
  "fst (dequeueWithTimeout ex_item_json redis_ref (4 * second) ex_handler ''a'' QueueTypeDelayed 0 ex_delayed) = Inr None \<and>
   fst (dequeueWithTimeout ex_item_json redis_ref (6 * second) ex_handler ''a'' QueueTypeDelayed 0 ex_delayed) = Inr (Some (ex_item ''x''))"
proof -
  note z = ex_delayed_ok(2)
  have e: "{x. \<exists>s. zs (id ex_delayed) (getDelayKey ex_handler ''a'') x = Some s \<and> 0 \<le> s \<and> s \<le> unix_seconds (4 * second)} = {}"
    "{x. \<exists>s. zs (id ex_delayed) (getDelayKey ex_handler ''a'') x = Some s \<and> 0 \<le> s \<and> s \<le> unix_seconds (6 * second)} = {item_show (ex_item ''x'')}"
    unfolding z by (auto simp: unix_seconds_def second_def split: if_splits)
  have "fst (dequeueWithTimeout ex_item_json redis_ref (4 * second) ex_handler ''a'' QueueTypeDelayed 0 ex_delayed) = Inr None"
    using q_delayed_due [where J = ex_item_json and now = "4 * second" and w = 0, OF ex_delayed_ok(1) surjective_pairing refl] unfolding e by simp
  moreover have "fst (dequeueWithTimeout ex_item_json redis_ref (6 * second) ex_handler ''a'' QueueTypeDelayed 0 ex_delayed) = Inr (Some (ex_item ''x''))"
    using q_delayed_due [where J = ex_item_json and now = "6 * second" and w = 0, OF ex_delayed_ok(1) surjective_pairing refl] unfolding e
    by (simp add: item_read_def ex_item_json_def item_scan_show)
  ultimately show ?thesis by simp
qed

text \<open>Two consumers of a delayed queue that look at the same time both get the same item: the number of
  removed members is not looked at.\<close>
theorem q_delayed_twice:
  assumes "delayed R db (getDelayKey q n) d" "zs (db d) (getDelayKey q n) y = Some s" "0 \<le> s" "s \<le> unix_seconds now"
    "\<And>x. x \<in> dom (zs (db d) (getDelayKey q n)) \<Longrightarrow> \<exists>item. ij_Unmarshal J x = Inr item"
  shows "\<exists>x item xs d1 d2 d3 d4. delayed_find R now q n d = (Inr (x # xs), d1) \<and> delayed_find R now q n d1 = (Inr (x # xs), d2) \<and>
    delayed_take J R now q n x d2 = (Inr (Some item), d3) \<and> delayed_take J R now q n x d3 = (Inr (Some item), d4)"
proof -
  let ?k = "getDelayKey q n"
  obtain ms d1 where 1: "delayed_find R now q n d = (Inr ms, d1)" "delayed R db ?k d1" "db d1 = db d"
    "ms = zrange (Some 0) (unix_seconds now) 1 (zalist (db d) ?k)" by (rule delayed_find_up [OF assms(1)])
  obtain ms2 d2 where 2: "delayed_find R now q n d1 = (Inr ms2, d2)" "delayed R db ?k d2" "db d2 = db d1"
    "ms2 = zrange (Some 0) (unix_seconds now) 1 (zalist (db d1) ?k)" by (rule delayed_find_up [OF 1(2)])
  have "ms \<noteq> []" using zrange_nonempty [OF assms(2-4), of 1] 1(4) by simp
  then obtain x xs where x: "ms = x # xs" by (cases ms) auto
  have "x \<in> set (zrange (Some 0) (unix_seconds now) 1 (zalist (db d) ?k))" unfolding 1(4) [symmetric] x by simp
  then have "x \<in> dom (zs (db d) ?k)" using zrange_pos [OF zalist_distinct [OF delayedD(4) [OF assms(1)]]] by blast
  then obtain item where i: "ij_Unmarshal J x = Inr item" using assms(5) by blast
  obtain d3 where 3: "delayed_take J R now q n x d2 = (item_read J ''failed to unmarshal delayed queue item'' x, d3)" "delayed R db ?k d3"
    by (rule delayed_take_up [OF 2(2)])
  obtain d4 where 4: "delayed_take J R now q n x d3 = (item_read J ''failed to unmarshal delayed queue item'' x, d4)"
    by (rule delayed_take_up [OF 3(2)])
  have "ms2 = ms" using 1 2 by simp
  then have "delayed_find R now q n d = (Inr (x # xs), d1) \<and> delayed_find R now q n d1 = (Inr (x # xs), d2) \<and>
    delayed_take J R now q n x d2 = (Inr (Some item), d3) \<and> delayed_take J R now q n x d3 = (Inr (Some item), d4)"
    using 1(1) 2(1) 3(1) 4 x i by (simp add: item_read_def)
  then show ?thesis by blast
qed

theorem q_delayed_twice_witness:
  "\<exists>x item xs d1 d2 d3 d4. delayed_find redis_ref (6 * second) ex_handler ''a'' ex_delayed = (Inr (x # xs), d1) \<and>
    delayed_find redis_ref (6 * second) ex_handler ''a'' d1 = (Inr (x # xs), d2) \<and>
    delayed_take ex_item_json redis_ref (6 * second) ex_handler ''a'' x d2 = (Inr (Some item), d3) \<and>
    delayed_take ex_item_json redis_ref (6 * second) ex_handler ''a'' x d3 = (Inr (Some item), d4)"
  by (rule q_delayed_twice [OF ex_delayed_ok(1), of "item_show (ex_item ''x'')" 5])
    (simp_all add: ex_delayed_ok(2) [simplified] unix_seconds_def second_def ex_item_json_def)

text \<open>An item of any queue that is retried goes to the delayed queue of the same name: the consumers of its
  own queue do not see it again.\<close>

lemma q_retry_elsewhere:
  assumes "redis_law R db" "db_wf (db d)" "qi_RetryCount item < qc_MaxRetries (qh_config q)" "ty \<in> {QueueTypeFIFO, QueueTypeLIFO, QueueTypePriority}"
    "qh_RetryFailed J R now gen q n ty item d = (r, d')"
  shows "db d' (getQueueKey q n ty) = db d (getQueueKey q n ty)"
proof -
  have k: "getQueueKey q n ty \<noteq> getDelayKey q n" using assms(4) by (auto simp: getQueueKey_def getDelayKey_def)
  then show ?thesis
    using assms(3,5) client_frame [OF assms(1,2)]
    by (auto simp: qh_RetryFailed_def qh_Enqueue_def client_err_def Let_def split: sum.splits prod.splits)
qed

end
