(* ===== verification/Float64.thy ===== *)
theory Float64
  imports Cachex_Base
begin

text \<open>
  The finite \<open>float64\<close> values the code computes with: a mantissa and an exponent of two. Products are
  rounded to 53 bits, to the nearest and to the even one of two. Exponents are not bounded: the values
  of the code are far from the limits of the format.
\<close>

datatype float64 = Float (mant: int) (expo: int)

fun bit_len :: "nat \<Rightarrow> nat" where
  "bit_len n = (if n = 0 then 0 else Suc (bit_len (n div 2)))"

declare bit_len.simps [simp del]

definition half_even :: "int \<Rightarrow> nat \<Rightarrow> int" where
  "half_even p s =
     (let q = p div 2 ^ s; r = p mod 2 ^ s
      in if 2 * r < 2 ^ s then q else if 2 ^ s < 2 * r then q + 1 else if even q then q else q + 1)"

definition round53 :: "int \<Rightarrow> int \<Rightarrow> float64" where
  "round53 p e =
     (let s = bit_len (nat \<bar>p\<bar>) - 53
      in if s = 0 then Float p e else Float (sgn p * half_even \<bar>p\<bar> s) (e + int s))"

definition float_of_int :: "int \<Rightarrow> float64" where
  "float_of_int i = round53 i 0"

definition float_mult :: "float64 \<Rightarrow> float64 \<Rightarrow> float64" where
  "float_mult a b = round53 (mant a * mant b) (expo a + expo b)"

text \<open>The conversion \<open>int64(x)\<close> cuts off the fraction.\<close>

definition int_of_float :: "float64 \<Rightarrow> int" where
  "int_of_float a =
     (if 0 \<le> expo a then mant a * 2 ^ nat (expo a) else sgn (mant a) * (\<bar>mant a\<bar> div 2 ^ nat (- expo a)))"

definition float_pos :: "float64 \<Rightarrow> bool" where
  "float_pos a \<longleftrightarrow> 0 < mant a"

definition float_less_one :: "float64 \<Rightarrow> bool" where
  "float_less_one a \<longleftrightarrow> (if 0 \<le> expo a then mant a * 2 ^ nat (expo a) < 1 else mant a < 2 ^ nat (- expo a))"

text \<open>The literals of the code.\<close>

definition f0_6 :: float64 where "f0_6 = Float 5404319552844595 (- 53)"
definition f0_8 :: float64 where "f0_8 = Float 7205759403792794 (- 53)"
definition f0_95 :: float64 where "f0_95 = Float 8556839292003942 (- 53)"

text \<open>What fits into 53 bits is exact.\<close>

lemma bit_len_less: "n < 2 ^ k \<Longrightarrow> bit_len n \<le> k"
proof (induction k arbitrary: n)
  case (Suc k)
  then show ?case by (cases "n = 0") (simp_all add: bit_len.simps [of n] bit_len.simps [of 0] less_mult_imp_div_less mult.commute)
qed (simp add: bit_len.simps)

lemma round53_small: "\<bar>p\<bar> < 2 ^ 53 \<Longrightarrow> round53 p e = Float p e"
proof -
  assume "\<bar>p\<bar> < 2 ^ 53"
  then have "nat \<bar>p\<bar> < 2 ^ 53" by (simp add: nat_less_iff)
  from bit_len_less [OF this] show ?thesis by (simp add: round53_def)
qed

text \<open>Rounding moves a mantissa that ends in zeros without a loss, and doubling is exact.\<close>

lemma bit_len_ge: "2 ^ k \<le> n \<Longrightarrow> k < bit_len n"
proof (induction k arbitrary: n)
  case 0
  then show ?case by (subst bit_len.simps) simp
next
  case (Suc k)
  then have "2 ^ k \<le> n div 2" by auto
  moreover have "n \<noteq> 0" using Suc.prems by (cases n) auto
  ultimately show ?case using Suc.IH [of "n div 2"] by (subst bit_len.simps) simp
qed

lemma less_bit_len: "n < 2 ^ bit_len n"
  using bit_len_ge [of "bit_len n" n] by (meson less_irrefl not_le)

lemma int_div_lessI: "0 < n \<Longrightarrow> a < b * n \<Longrightarrow> a div n < (b :: int)"
proof (rule ccontr)
  assume n: "0 < n" "a < b * n" "\<not> a div n < b"
  then have "b * n \<le> a div n * n" by (intro mult_right_mono) auto
  also have "\<dots> \<le> a" using n(1) div_mult_mod_eq [of a n] pos_mod_sign [of n a] by linarith
  finally show False using n(2) by simp
qed

lemma half_even_le: "0 \<le> p \<Longrightarrow> p < 2 ^ (k + s) \<Longrightarrow> half_even p s \<le> 2 ^ k"
proof -
  assume p: "0 \<le> p" "p < 2 ^ (k + s)"
  have "p div 2 ^ s < 2 ^ k" using p by (intro int_div_lessI) (simp_all add: power_add)
  then show ?thesis by (auto simp: half_even_def Let_def)
qed

lemma half_even_nonneg: "0 \<le> p \<Longrightarrow> 0 \<le> half_even p s"
  by (auto simp: half_even_def Let_def pos_imp_zdiv_nonneg_iff)

lemma half_even_exact: "2 ^ s dvd p \<Longrightarrow> half_even p s * 2 ^ s = p"
  by (auto simp: half_even_def Let_def)

lemma round53_nonneg: "0 \<le> p \<Longrightarrow> 0 \<le> mant (round53 p e)"
  by (auto simp: round53_def Let_def half_even_nonneg sgn_if)

lemma round53_nonpos: "p \<le> 0 \<Longrightarrow> mant (round53 p e) \<le> 0"
  by (auto simp: round53_def Let_def half_even_nonneg sgn_if)

lemma round53_mant: "0 \<le> p \<Longrightarrow> mant (round53 p e) \<le> 2 ^ 53"
proof -
  assume p: "0 \<le> p"
  have l: "p < 2 ^ bit_len (nat p)" using less_bit_len [of "nat p"] p by (simp add: nat_less_iff)
  show ?thesis
  proof (cases "bit_len (nat p) \<le> 53")
    case True
    have "(2::int) ^ bit_len (nat p) \<le> 2 ^ 53" using True by (intro power_increasing) auto
    then have "p \<le> 2 ^ 53" using l by linarith
    then show ?thesis using True p by (simp add: round53_def Let_def)
  next
    case False
    then have "p < 2 ^ (53 + (bit_len (nat p) - 53))" using l by simp
    from half_even_le [OF p this] show ?thesis using False p by (auto simp: round53_def Let_def sgn_if half_even_def)
  qed
qed

lemma int_of_float_nonneg: "0 \<le> mant a \<Longrightarrow> 0 \<le> int_of_float a"
  by (simp add: int_of_float_def pos_imp_zdiv_nonneg_iff sgn_if)

lemma int_of_float_nonpos: "mant a \<le> 0 \<Longrightarrow> int_of_float a \<le> 0"
  by (auto simp: int_of_float_def mult_le_0_iff sgn_if pos_imp_zdiv_nonneg_iff)

lemma int_of_float_shift: "0 \<le> q \<Longrightarrow> int_of_float (Float q (e + int s)) = int_of_float (Float (q * 2 ^ s) e)"
proof -
  assume q: "0 \<le> q"
  consider "0 \<le> e" | "e < 0" "0 \<le> e + int s" | "e + int s < 0" by linarith
  then show ?thesis
  proof cases
    case 1
    then show ?thesis by (simp add: int_of_float_def nat_add_distrib power_add ac_simps)
  next
    case 2
    then have "s = nat (e + int s) + nat (- e)" by simp
    then have p: "(2::int) ^ s = 2 ^ nat (e + int s) * 2 ^ nat (- e)" by (metis power_add)
    show ?thesis using 2 q by (cases "q = 0") (simp_all add: int_of_float_def p abs_mult sgn_if mult.assoc)
  next
    case 3
    then have "nat (- e) = nat (- e - int s) + s" by simp
    then have p: "(2::int) ^ nat (- e) = 2 ^ nat (- e - int s) * 2 ^ s" by (metis power_add)
    show ?thesis using 3 q by (cases "q = 0") (simp_all add: int_of_float_def p abs_mult sgn_if)
  qed
qed

lemma double_exact:
  assumes "0 \<le> m" "m \<le> 2 ^ 53"
  shows "int_of_float (round53 (2 * m) e) = int_of_float (Float (2 * m) e)"
proof -
  let ?s = "bit_len (nat (2 * m)) - 53"
  have "bit_len (nat (2 * m)) \<le> 55" by (rule bit_len_less) (use assms in \<open>simp add: nat_less_iff\<close>)
  moreover have "m = 2 ^ 53" if "54 < bit_len (nat (2 * m))"
    using bit_len_less [of "nat (2 * m)" 54] that assms by (cases "m < 2 ^ 53") (auto simp: nat_less_iff)
  ultimately consider "?s = 0" | "?s = 1" | "?s = 2" "m = 2 ^ 53" by linarith
  then have d: "2 ^ ?s dvd 2 * m"
  proof cases
    case 3
    have "(2::int) ^ 2 dvd 2 * m" by (simp add: 3(2))
    then show ?thesis by (simp only: 3(1))
  next
    case 1
    show ?thesis by (simp only: 1 power_0 one_dvd)
  next
    case 2
    show ?thesis by (simp only: 2 power_one_right dvd_triv_left)
  qed
  then have h: "half_even (2 * m) ?s * 2 ^ ?s = 2 * m" by (rule half_even_exact)
  show ?thesis
  proof (cases "?s = 0 \<or> m = 0")
    case False
    then have "round53 (2 * m) e = Float (half_even (2 * m) ?s) (e + int ?s)" using assms by (simp add: round53_def Let_def)
    then show ?thesis using int_of_float_shift [of "half_even (2 * m) ?s" e ?s] assms h by (simp add: half_even_nonneg)
  qed (use assms in \<open>auto simp: round53_def Let_def bit_len.simps [of 0]\<close>)
qed

lemma int_of_float_double:
  assumes "0 \<le> mant a" "mant a \<le> 2 ^ 53"
  shows "int_of_float (float_mult a (Float 2 0)) \<le> 2 * int_of_float a + 1"
proof (cases a)
  case (Float m e)
  have "(2 * m) div n \<le> 2 * (m div n) + 1" if "0 < n" for n :: int
  proof -
    have "m = m div n * n + m mod n" "m mod n < n" using that by simp_all
    then have "2 * m < 2 * (m div n * n) + 2 * n" by linarith
    then have "2 * m < (2 * (m div n) + 2) * n" by (simp add: distrib_right)
    then have "(2 * m) div n < 2 * (m div n) + 2" by (rule int_div_lessI [OF that])
    then show ?thesis by simp
  qed
  then have "int_of_float (Float (2 * m) e) \<le> 2 * int_of_float (Float m e) + 1"
    using assms Float by (auto simp: int_of_float_def sgn_if)
  then show ?thesis using double_exact [of m e] assms Float by (simp add: float_mult_def mult.commute)
qed

end
