(* ===== verification/Dead_Letter.thy ===== *)
theory Dead_Letter
  imports Queue Float64
begin

text \<open>
  \<open>deadLetterQueueImpl\<close> of \<open>dead_letter_queue.go\<close>: a bounded FIFO queue over a \<open>QueueHandler\<close>, with alerts
  when its length reaches a proportion of its size.

  The data are of type \<open>'t\<close> and stored as \<open>'j\<close>, the values of a Go \<open>interface{}\<close>; what reflection, type
  assertions and JSON say of them is the argument \<open>D\<close>. The callback runs in a goroutine of its own: an
  operation returns the event it is called with. The text of an event is left out.
\<close>

datatype AlertLevel = AlertLevelInfo | AlertLevelWarning | AlertLevelError | AlertLevelCritical | OtherAlertLevel int

fun alert_String :: "AlertLevel \<Rightarrow> string" where
  "alert_String AlertLevelInfo = ''INFO''"
| "alert_String AlertLevelWarning = ''WARNING''"
| "alert_String AlertLevelError = ''ERROR''"
| "alert_String AlertLevelCritical = ''CRITICAL''"
| "alert_String (OtherAlertLevel i) = ''UNKNOWN''"

record AlertEvent =
  ae_Level :: AlertLevel
  ae_QueueKey :: string
  ae_Length :: int
  ae_MaxSize :: int
  ae_Threshold :: int
  ae_Timestamp :: time

record ('t, 'j) data_ops =
  is_nil :: "'t \<Rightarrow> bool"
  to_any :: "'t \<Rightarrow> 'j"
  any_as :: "'j \<Rightarrow> 't option"
  any_json :: "'j \<Rightarrow> string go_result"
  json_as :: "string \<Rightarrow> 't go_result"

record DeadLetterQueueConfig =
  dlc_MaxSize :: int
  dlc_AlertCallback :: bool
  dlc_WarningThreshold :: float64
  dlc_ErrorThreshold :: float64
  dlc_CriticalThreshold :: float64

record deadLetterQueueImpl =
  dlq_handler :: QueueHandler
  dlq_maxSize :: int
  dlq_ttl :: duration
  dlq_callback :: bool
  dlq_warning :: int
  dlq_error :: int
  dlq_critical :: int

definition threshold :: "int \<Rightarrow> float64 \<Rightarrow> int" where
  "threshold maxSize pct = int_of_float (float_mult (float_of_int maxSize) pct)"

text \<open>\<open>F\<close> is \<open>mathx.IfLeZero\<close> at the type \<open>float64\<close>.\<close>

definition NewDeadLetterQueue ::
  "mathx \<Rightarrow> (float64 \<Rightarrow> float64 \<Rightarrow> float64) \<Rightarrow> QueueHandler \<Rightarrow> DeadLetterQueueConfig \<Rightarrow> deadLetterQueueImpl" where
  "NewDeadLetterQueue X F handler c =
     (let maxSize = IfLeZero X (dlc_MaxSize c) 1000
      in \<lparr>dlq_handler = handler, dlq_maxSize = maxSize, dlq_ttl = 7 * 24 * 3600 * second, dlq_callback = dlc_AlertCallback c,
          dlq_warning = threshold maxSize (F (dlc_WarningThreshold c) f0_6),
          dlq_error = threshold maxSize (F (dlc_ErrorThreshold c) f0_8),
          dlq_critical = threshold maxSize (F (dlc_CriticalThreshold c) f0_95)\<rparr>)"

text \<open>A push in its steps, between which other pushes may come: the item, the length, the trimming.\<close>

definition dlq_enqueue ::
  "('t, 'j) data_ops \<Rightarrow> 'j item_json \<Rightarrow> 'd redis \<Rightarrow> time \<Rightarrow> int \<Rightarrow> string \<Rightarrow> deadLetterQueueImpl \<Rightarrow> string \<Rightarrow> 't \<Rightarrow> 'd \<Rightarrow> go_error option \<times> 'd" where
  "dlq_enqueue D J R now gen itemID q queueKey data d =
     (if is_nil D data then (Some (FmtError ''data is nil''), d)
      else (case qh_Enqueue J R now gen (dlq_handler q) queueKey QueueTypeFIFO
               \<lparr>qi_ID = itemID, qi_Data = to_any D data, qi_Priority = 0, qi_DelayTime = 0, qi_CreatedAt = unix_seconds now, qi_RetryCount = 0\<rparr> d of
              ((Some err, _), d') \<Rightarrow> (Some (Wrapped ''push to dead letter queue failed'' err), d')
            | ((None, _), d') \<Rightarrow> (None, d')))"

definition dlq_measure :: "'d redis \<Rightarrow> time \<Rightarrow> deadLetterQueueImpl \<Rightarrow> string \<Rightarrow> 'd \<Rightarrow> int go_result \<times> 'd" where
  "dlq_measure R now q queueKey d =
     (case qh_Length R now (dlq_handler q) queueKey QueueTypeFIFO d of
        (Inl err, d') \<Rightarrow> (Inl (Wrapped ''get queue length failed'' err), d')
      | (Inr len, d') \<Rightarrow> (Inr len, d'))"

fun dlq_trim :: "'j item_json \<Rightarrow> 'd redis \<Rightarrow> (nat \<Rightarrow> time) \<Rightarrow> deadLetterQueueImpl \<Rightarrow> string \<Rightarrow> nat \<Rightarrow> 'd \<Rightarrow> 'd" where
  "dlq_trim J R tm q queueKey 0 d = d"
| "dlq_trim J R tm q queueKey (Suc n) d =
     dlq_trim J R tm q queueKey n (snd (qh_Dequeue J R (tm n) (dlq_handler q) queueKey QueueTypeFIFO d))"

definition checkAndAlert :: "time \<Rightarrow> deadLetterQueueImpl \<Rightarrow> string \<Rightarrow> int \<Rightarrow> AlertEvent option" where
  "checkAndAlert now q queueKey len =
     (let event = (\<lambda>level t. Some \<lparr>ae_Level = level, ae_QueueKey = queueKey, ae_Length = len, ae_MaxSize = dlq_maxSize q,
                      ae_Threshold = t, ae_Timestamp = now\<rparr>)
      in if \<not> dlq_callback q then None
         else if dlq_critical q \<le> len then event AlertLevelCritical (dlq_critical q)
         else if dlq_error q \<le> len then event AlertLevelError (dlq_error q)
         else if dlq_warning q \<le> len then event AlertLevelWarning (dlq_warning q)
         else None)"

definition dlq_Push ::
  "('t, 'j) data_ops \<Rightarrow> 'j item_json \<Rightarrow> 'd redis \<Rightarrow> (nat \<Rightarrow> time) \<Rightarrow> time \<Rightarrow> int \<Rightarrow> string \<Rightarrow> deadLetterQueueImpl \<Rightarrow> string \<Rightarrow> 't \<Rightarrow> 'd \<Rightarrow>
   (go_error option \<times> AlertEvent option) \<times> 'd" where
  "dlq_Push D J R tm now gen itemID q queueKey data d =
     (case dlq_enqueue D J R now gen itemID q queueKey data d of
        (Some err, d1) \<Rightarrow> ((Some err, None), d1)
      | (None, d1) \<Rightarrow>
          (case dlq_measure R now q queueKey d1 of
             (Inl err, d2) \<Rightarrow> ((Some err, None), d2)
           | (Inr len, d2) \<Rightarrow>
               ((None, checkAndAlert now q queueKey len),
                if dlq_maxSize q < len then dlq_trim J R tm q queueKey (nat (len - dlq_maxSize q)) d2 else d2)))"

text \<open>The data of an item: as they are, or by way of JSON; those that cannot be read are skipped.\<close>

definition dlq_read :: "('t, 'j) data_ops \<Rightarrow> 'j QueueItem \<Rightarrow> 't list" where
  "dlq_read D item =
     (case any_as D (qi_Data item) of
        Some data \<Rightarrow> [data]
      | None \<Rightarrow> (case any_json D (qi_Data item) of
                  Inl err \<Rightarrow> []
                | Inr text \<Rightarrow> (case json_as D text of Inl err \<Rightarrow> [] | Inr data \<Rightarrow> [data])))"

definition dlq_GetItems ::
  "mathx \<Rightarrow> ('t, 'j) data_ops \<Rightarrow> 'j item_json \<Rightarrow> 'd redis \<Rightarrow> time \<Rightarrow> deadLetterQueueImpl \<Rightarrow> string \<Rightarrow> int \<Rightarrow> 'd \<Rightarrow> 't list go_result \<times> 'd" where
  "dlq_GetItems X D J R now q queueKey count0 d =
     (case qh_Peek X J R now (dlq_handler q) queueKey QueueTypeFIFO (IfLeZero X count0 10) d of
        (Inl err, d') \<Rightarrow> (Inl (Wrapped ''get dead letter items failed'' err), d')
      | (Inr items, d') \<Rightarrow> (Inr (concat (map (dlq_read D) items)), d'))"

definition dlq_GetLength :: "'d redis \<Rightarrow> time \<Rightarrow> deadLetterQueueImpl \<Rightarrow> string \<Rightarrow> 'd \<Rightarrow> int go_result \<times> 'd" where
  "dlq_GetLength R now q queueKey d =
     (case qh_Length R now (dlq_handler q) queueKey QueueTypeFIFO d of
        (Inl err, d') \<Rightarrow> (Inl (Wrapped ''get dead letter queue length failed'' err), d')
      | (Inr len, d') \<Rightarrow> (Inr len, d'))"

definition dlq_Remove :: "mathx \<Rightarrow> 'j item_json \<Rightarrow> 'd redis \<Rightarrow> time \<Rightarrow> deadLetterQueueImpl \<Rightarrow> string \<Rightarrow> int \<Rightarrow> 'd \<Rightarrow> go_error option \<times> 'd" where
  "dlq_Remove X J R now q queueKey count' d =
     (if count' \<le> 0 then (None, d)
      else (case BatchDequeue X J R (\<lambda>_. now) (dlq_handler q) queueKey QueueTypeFIFO count' d of
              ((_, Some err), d') \<Rightarrow> (Some (Wrapped ''remove dead letter items failed'' err), d')
            | ((_, None), d') \<Rightarrow> (None, d')))"

definition dlq_Clear :: "'d redis \<Rightarrow> time \<Rightarrow> deadLetterQueueImpl \<Rightarrow> string \<Rightarrow> 'd \<Rightarrow> go_error option \<times> 'd" where
  "dlq_Clear R now q queueKey d =
     (case qh_Clear R now (dlq_handler q) queueKey QueueTypeFIFO d of
        (Some err, d') \<Rightarrow> (Some (Wrapped ''clear dead letter queue failed'' err), d')
      | (None, d') \<Rightarrow> (None, d'))"

definition SetAlertCallback :: "bool \<Rightarrow> deadLetterQueueImpl \<Rightarrow> deadLetterQueueImpl" where
  "SetAlertCallback callback q = q\<lparr>dlq_callback := callback\<rparr>"

definition SetAlertThresholds :: "float64 \<Rightarrow> float64 \<Rightarrow> float64 \<Rightarrow> deadLetterQueueImpl \<Rightarrow> deadLetterQueueImpl" where
  "SetAlertThresholds warning error critical q =
     (let ok = (\<lambda>p. float_pos p \<and> float_less_one p);
          q1 = (if ok warning then q\<lparr>dlq_warning := threshold (dlq_maxSize q) warning\<rparr> else q);
          q2 = (if ok error then q1\<lparr>dlq_error := threshold (dlq_maxSize q) error\<rparr> else q1)
      in (if ok critical then q2\<lparr>dlq_critical := threshold (dlq_maxSize q) critical\<rparr> else q2))"

end
