(* ===== verification/Dead_Letter_Correct.thy ===== *)
theory Dead_Letter_Correct
  imports Queue_Correct Dead_Letter
begin

text \<open>
  The dead letter queue keeps the newest data up to its size, in order, when pushes come one after the
  other; pushes at the same time trim too much.
\<close>

text \<open>What is pushed is read back as it was, by the type assertion or through JSON.\<close>

definition data_law :: "('t, 'j) data_ops \<Rightarrow> 'j item_json \<Rightarrow> bool" where
  "data_law D J \<longleftrightarrow> (\<forall>item data. qi_Data item = to_any D data \<longrightarrow>
     (\<exists>x item'. ij_Marshal J item = Inr x \<and> ij_Unmarshal J x = Inr item' \<and> dlq_read D item' = [data]))"

definition keeps ::
  "('t, 'j) data_ops \<Rightarrow> 'j item_json \<Rightarrow> 'd redis \<Rightarrow> ('d \<Rightarrow> redis_db) \<Rightarrow> deadLetterQueueImpl \<Rightarrow> string \<Rightarrow> 'd \<Rightarrow> 't list \<Rightarrow> bool" where
  "keeps D J R db q key d datas \<longleftrightarrow>
     (\<exists>items. holds J R db (getQueueKey (dlq_handler q) key QueueTypeFIFO) d items \<and> map (dlq_read D) items = map (\<lambda>x. [x]) datas)"

lemma keepsE:
  assumes "keeps D J R db q key d datas"
  obtains items where "holds J R db (getQueueKey (dlq_handler q) key QueueTypeFIFO) d items" "map (dlq_read D) items = map (\<lambda>x. [x]) datas"
    "length items = length datas"
proof -
  obtain items where i: "holds J R db (getQueueKey (dlq_handler q) key QueueTypeFIFO) d items" "map (dlq_read D) items = map (\<lambda>x. [x]) datas"
    using assms unfolding keeps_def by blast
  show thesis by (rule that [OF i map_eq_imp_length_eq [OF i(2)]])
qed

lemma keeps_enqueue:
  assumes "keeps D J R db q key d datas" "data_law D J" "\<not> is_nil D data"
  obtains d' where "dlq_enqueue D J R now gen itemID q key data d = (None, d')" "keeps D J R db q key d' (datas @ [data])"
proof -
  let ?k = "getQueueKey (dlq_handler q) key QueueTypeFIFO"
  let ?item = "\<lparr>qi_ID = itemID, qi_Data = to_any D data, qi_Priority = 0, qi_DelayTime = 0, qi_CreatedAt = unix_seconds now, qi_RetryCount = 0\<rparr>"
  obtain items where i: "holds J R db ?k d items" "map (dlq_read D) items = map (\<lambda>x. [x]) datas" by (rule keepsE [OF assms(1)])
  have "qi_Data (item_prepare now gen ?item) = to_any D data" by (simp add: item_prepare_def Let_def)
  then obtain x item' where x: "ij_Marshal J (item_prepare now gen ?item) = Inr x" "ij_Unmarshal J x = Inr item'" "dlq_read D item' = [data]"
    using assms(2) unfolding data_law_def by blast
  obtain d' where d: "client_err R now (RPUSH ?k x) d = (None, d')" "holds J R db ?k d' (items @ [item'])" by (rule holds_rpush [OF i(1) x(2)])
  show thesis
  proof (rule that [of d'])
    show "dlq_enqueue D J R now gen itemID q key data d = (None, d')"
      using d(1) x(1) assms(3) by (simp add: dlq_enqueue_def qh_Enqueue_def Let_def)
    show "keeps D J R db q key d' (datas @ [data])"
      unfolding keeps_def by (rule exI [of _ "items @ [item']"]) (simp add: d(2) i(2) x(3))
  qed
qed

lemma keeps_measure:
  assumes "keeps D J R db q key d datas"
  obtains d' where "dlq_measure R now q key d = (Inr (int (length datas)), d')" "keeps D J R db q key d' datas"
proof -
  let ?k = "getQueueKey (dlq_handler q) key QueueTypeFIFO"
  obtain items where i: "holds J R db ?k d items" "map (dlq_read D) items = map (\<lambda>x. [x]) datas" "length items = length datas"
    by (rule keepsE [OF assms])
  obtain d' where d: "client_int R now (LLEN ?k) d = (Inr (int (length items)), d')" "holds J R db ?k d' items" by (rule holds_size [OF i(1)])
  show thesis
  proof (rule that [of d'])
    show "dlq_measure R now q key d = (Inr (int (length datas)), d')" using d(1) i(3) by (simp add: dlq_measure_def qh_Length_def)
    show "keeps D J R db q key d' datas" unfolding keeps_def by (rule exI [of _ items]) (simp add: d(2) i(2))
  qed
qed

lemma keeps_trim:
  assumes "keeps D J R db q key d datas"
  shows "keeps D J R db q key (dlq_trim J R tm q key n d) (drop n datas)"
  using assms
proof (induction n arbitrary: d datas)
  case (Suc n)
  let ?k = "getQueueKey (dlq_handler q) key QueueTypeFIFO"
  obtain items where i: "holds J R db ?k d items" "map (dlq_read D) items = map (\<lambda>x. [x]) datas" by (rule keepsE [OF Suc.prems])
  have "keeps D J R db q key (snd (qh_Dequeue J R (tm n) (dlq_handler q) key QueueTypeFIFO d)) (drop 1 datas)"
  proof (cases rule: holds_pop [OF i(1), of "tm n", case_names none some])
    case (none d')
    then show ?thesis using i(2) unfolding keeps_def by (intro exI [of _ "[]"]) (simp add: qh_Dequeue_def dequeueWithTimeout_def)
  next
    case (some x item rest d')
    then show ?thesis using i(2) unfolding keeps_def
      by (intro exI [of _ rest]) (auto simp: qh_Dequeue_def dequeueWithTimeout_def map_tl [symmetric] drop_Suc dest: arg_cong [where f = tl])
  qed
  from Suc.IH [OF this] show ?case by simp
qed simp

text \<open>A push adds its data at the end, and of more than the maximal size the oldest go; the alert is that of
  the length before.\<close>
theorem dlq_keeps_newest:
  assumes "keeps D J R db q key d datas" "data_law D J" "\<not> is_nil D data" "0 \<le> dlq_maxSize q"
    "dlq_Push D J R tm now gen itemID q key data d = ((err, alert), d')"
  shows "err = None \<and> alert = checkAndAlert now q key (int (length datas) + 1) \<and>
    keeps D J R db q key d' (drop (length datas + 1 - nat (dlq_maxSize q)) (datas @ [data]))"
proof -
  obtain d1 where 1: "dlq_enqueue D J R now gen itemID q key data d = (None, d1)" "keeps D J R db q key d1 (datas @ [data])"
    by (rule keeps_enqueue [OF assms(1-3)])
  obtain d2 where 2: "dlq_measure R now q key d1 = (Inr (int (length (datas @ [data]))), d2)" "keeps D J R db q key d2 (datas @ [data])"
    by (rule keeps_measure [OF 1(2)])
  have n: "nat (int (length datas) + 1 - dlq_maxSize q) = length datas + 1 - nat (dlq_maxSize q)" using assms(4) by linarith
  show ?thesis
  proof (cases "dlq_maxSize q < int (length datas) + 1")
    case True
    then show ?thesis
      using assms(5) 1(1) 2(1) keeps_trim [OF 2(2), of tm "nat (int (length datas) + 1 - dlq_maxSize q)"] n
      by (simp add: dlq_Push_def add.commute)
  next
    case False
    then have "length datas + 1 - nat (dlq_maxSize q) = 0" by linarith
    then show ?thesis using assms(5) 1(1) 2 False by (simp add: dlq_Push_def add.commute)
  qed
qed

text \<open>Looking gives the data that were kept, oldest first.\<close>

lemma dlq_looks:
  assumes "mathx_laws X" "keeps D J R db q key d datas"
  obtains d' where "dlq_GetItems X D J R now q key c d = (Inr (take (nat (if c \<le> 0 then 10 else c)) datas), d')" "keeps D J R db q key d' datas"
proof -
  let ?k = "getQueueKey (dlq_handler q) key QueueTypeFIFO" and ?c = "if c \<le> 0 then 10 else c"
  obtain items where i: "holds J R db ?k d items" "map (dlq_read D) items = map (\<lambda>x. [x]) datas" by (rule keepsE [OF assms(2)])
  obtain d' where 1: "client_arr R now (LRANGE ?k 0 (?c - 1)) d = (Inr (take (nat ?c) (lst (db d) ?k)), d')" "holds J R db ?k d' items"
    by (rule holds_look [OF i(1), of ?c now]) simp_all
  have r: "items_read J (take (nat ?c) (lst (db d) ?k)) = take (nat ?c) items"
    by (rule items_read_map) (use holdsD(5) [OF i(1)] in \<open>metis take_map\<close>)
  have c: "concat (map (dlq_read D) (take (nat ?c) items)) = take (nat ?c) datas"
    unfolding take_map [symmetric] i(2) by (simp add: take_map concat_map_singleton [where f = id, simplified])
  show thesis
  proof (rule that [of d'])
    show "dlq_GetItems X D J R now q key c d = (Inr (take (nat ?c) datas), d')"
      using 1(1) r c mathx_lawsD(4) [OF assms(1)] by (auto simp: dlq_GetItems_def qh_Peek_def Let_def)
    show "keeps D J R db q key d' datas" unfolding keeps_def by (rule exI [of _ items]) (simp add: 1(2) i(2))
  qed
qed

text \<open>The examples keep the unit value.\<close>

definition ex_data :: "(unit, unit) data_ops" where
  "ex_data = \<lparr>is_nil = (\<lambda>_. False), to_any = id, any_as = Some, any_json = (\<lambda>_. Inr []), json_as = (\<lambda>_. Inr ())\<rparr>"

definition ex_dlq :: deadLetterQueueImpl where
  "ex_dlq = \<lparr>dlq_handler = ex_handler, dlq_maxSize = 1, dlq_ttl = 0, dlq_callback = True, dlq_warning = 0, dlq_error = 0, dlq_critical = 1\<rparr>"

lemma ex_data_law: "data_law ex_data ex_item_json"
  by (simp add: data_law_def ex_data_def ex_item_json_def item_scan_show dlq_read_def)

lemma keeps_empty: "keeps ex_data ex_item_json redis_ref id ex_dlq ''a'' Map.empty []"
  unfolding keeps_def by (rule exI [of _ "[]"]) (simp add: holds_empty)

theorem dlq_keeps_newest_witness:
  "keeps ex_data ex_item_json redis_ref id ex_dlq ''a''
     (snd (dlq_Push ex_data ex_item_json redis_ref (\<lambda>_. 0) 0 1 ''i'' ex_dlq ''a'' () Map.empty)) [()]"
proof -
  obtain err alert d' where p: "dlq_Push ex_data ex_item_json redis_ref (\<lambda>_. 0) 0 1 ''i'' ex_dlq ''a'' () Map.empty = ((err, alert), d')"
    by (metis surj_pair)
  have "err = None \<and> alert = checkAndAlert 0 ex_dlq ''a'' (int (length ([] :: unit list)) + 1) \<and>
    keeps ex_data ex_item_json redis_ref id ex_dlq ''a'' d' (drop (length ([] :: unit list) + 1 - nat (dlq_maxSize ex_dlq)) ([] @ [()]))"
    by (rule dlq_keeps_newest [OF keeps_empty ex_data_law _ _ p]) (simp_all add: ex_data_def ex_dlq_def)
  then show ?thesis using p by (simp add: ex_dlq_def)
qed

text \<open>Two pushes onto a full queue whose steps interleave trim four items for two: each sees the length with
  both new items and removes the excess for itself. A queue of size one ends up empty.\<close>
theorem dlq_overtrims:
  assumes "keeps D J R db q key d datas" "data_law D J" "\<not> is_nil D a" "\<not> is_nil D b" "int (length datas) = dlq_maxSize q"
    "dlq_enqueue D J R now gen i q key a d = (e1, d1)" "dlq_enqueue D J R now gen' i' q key b d1 = (e2, d2)"
    "dlq_measure R now q key d2 = (Inr len1, d3)" "dlq_measure R now q key d3 = (Inr len2, d4)"
    "d5 = dlq_trim J R tm q key (nat (len1 - dlq_maxSize q)) d4" "d6 = dlq_trim J R tm q key (nat (len2 - dlq_maxSize q)) d5"
  shows "keeps D J R db q key d6 (drop 4 (datas @ [a, b]))"
proof -
  have 1: "keeps D J R db q key d1 (datas @ [a])" by (rule keeps_enqueue [OF assms(1-3), of now gen i]) (use assms(6) in simp)
  have 2: "keeps D J R db q key d2 ((datas @ [a]) @ [b])" by (rule keeps_enqueue [OF 1 assms(2,4), of now gen' i']) (use assms(7) in simp)
  have 3: "keeps D J R db q key d3 ((datas @ [a]) @ [b])" "len1 = int (length datas) + 2"
    by (rule keeps_measure [OF 2, of now], use assms(8) in simp)+
  have 4: "keeps D J R db q key d4 ((datas @ [a]) @ [b])" "len2 = int (length datas) + 2"
    by (rule keeps_measure [OF 3(1), of now], use assms(9) in simp)+
  have t: "nat (len1 - dlq_maxSize q) = 2" "nat (len2 - dlq_maxSize q) = 2" using 3(2) 4(2) assms(5) by linarith+
  have "keeps D J R db q key d5 (drop 2 ((datas @ [a]) @ [b]))" unfolding assms(10) t by (rule keeps_trim [OF 4(1)])
  from keeps_trim [OF this, of tm 2, unfolded drop_drop] show ?thesis unfolding assms(11) t by simp
qed

theorem dlq_overtrims_witness:
  "\<exists>d1 d2 d3 d4. keeps ex_data ex_item_json redis_ref id ex_dlq ''a'' d1 [()] \<and>
     dlq_measure redis_ref 0 ex_dlq ''a'' d3 = (Inr 3, d4) \<and>
     keeps ex_data ex_item_json redis_ref id ex_dlq ''a''
       (dlq_trim ex_item_json redis_ref (\<lambda>_. 0) ex_dlq ''a'' 2 (dlq_trim ex_item_json redis_ref (\<lambda>_. 0) ex_dlq ''a'' 2 d4)) []"
proof -
  have n: "\<not> is_nil ex_data ()" by (simp add: ex_data_def)
  note kd = ex_data_law
  obtain d0 where 0: "keeps ex_data ex_item_json redis_ref id ex_dlq ''a'' d0 ([] @ [()])" by (rule keeps_enqueue [OF keeps_empty kd n])
  obtain d1 where 1: "dlq_enqueue ex_data ex_item_json redis_ref 0 1 ''i'' ex_dlq ''a'' () d0 = (None, d1)"
    "keeps ex_data ex_item_json redis_ref id ex_dlq ''a'' d1 (([] @ [()]) @ [()])" by (rule keeps_enqueue [OF 0 kd n])
  obtain d2 where 2: "dlq_enqueue ex_data ex_item_json redis_ref 0 1 ''i'' ex_dlq ''a'' () d1 = (None, d2)"
    "keeps ex_data ex_item_json redis_ref id ex_dlq ''a'' d2 ((([] @ [()]) @ [()]) @ [()])" by (rule keeps_enqueue [OF 1(2) kd n])
  obtain d3 where 3: "dlq_measure redis_ref 0 ex_dlq ''a'' d2 = (Inr (int (length ((([] @ [()]) @ [()]) @ [()]))), d3)"
    "keeps ex_data ex_item_json redis_ref id ex_dlq ''a'' d3 ((([] @ [()]) @ [()]) @ [()])" by (rule keeps_measure [OF 2(2)])
  obtain d4 where 4: "dlq_measure redis_ref 0 ex_dlq ''a'' d3 = (Inr (int (length ((([] @ [()]) @ [()]) @ [()]))), d4)"
    by (rule keeps_measure [OF 3(2)])
  have "keeps ex_data ex_item_json redis_ref id ex_dlq ''a''
      (dlq_trim ex_item_json redis_ref (\<lambda>_. 0) ex_dlq ''a'' (nat (int (length ((([] @ [()]) @ [()]) @ [()])) - dlq_maxSize ex_dlq))
        (dlq_trim ex_item_json redis_ref (\<lambda>_. 0) ex_dlq ''a'' (nat (int (length ((([] @ [()]) @ [()]) @ [()])) - dlq_maxSize ex_dlq)) d4))
      (drop 4 (([] @ [()]) @ [(), ()]))"
    by (rule dlq_overtrims [OF 0 kd n n _ 1(1) 2(1) 3(1) 4 refl refl]) (simp add: ex_dlq_def)
  then have "keeps ex_data ex_item_json redis_ref id ex_dlq ''a''
       (dlq_trim ex_item_json redis_ref (\<lambda>_. 0) ex_dlq ''a'' 2 (dlq_trim ex_item_json redis_ref (\<lambda>_. 0) ex_dlq ''a'' 2 d4)) []"
    by (simp add: ex_dlq_def)
  moreover have "dlq_measure redis_ref 0 ex_dlq ''a'' d3 = (Inr 3, d4)" using 4 by simp
  ultimately show ?thesis using 0 by auto
qed

lemma dlq_overtrims_empties: "length datas = 1 \<Longrightarrow> drop 4 (datas @ [a, b]) = []"
  by simp

text \<open>The thresholds of the default configuration.\<close>

lemma default_thresholds: "threshold 1000 f0_6 = 600 \<and> threshold 1000 f0_8 = 800 \<and> threshold 1000 f0_95 = 950"
  by (simp add: threshold_def float_of_int_def float_mult_def f0_6_def f0_8_def f0_95_def round53_def bit_len.simps half_even_def int_of_float_def)

text \<open>With a maximal size of one, every alert is critical, from the empty queue on.\<close>

lemma threshold_one: "threshold 1 f0_95 = 0"
  by (simp add: threshold_def float_of_int_def float_mult_def f0_6_def f0_8_def f0_95_def round53_def bit_len.simps half_even_def int_of_float_def)

end
