(* ===== verification/Wrapper.thy ===== *)
theory Wrapper
  imports Redis Distributed_Lock Float64
begin

text \<open>
  \<open>CacheWrapper\<close> of \<open>wrapper.go\<close>: a loader with a Redis cache in front of it, with compression, jitter of
  the time to live, protection against misses, a distributed lock around the loader, and a cache update
  with a delayed second deletion; and the options it takes.

  Values have type \<open>'a\<close>, the dynamic values of options type \<open>'v\<close>. \<open>V\<close> says how a value is written and
  read as JSON and when it is nil, \<open>Z\<close> is the compression. \<open>E\<close> is what a call meets: the clock at its
  commands, the random number, what the world does while it waits, the attempts at the lock and its
  watchdog. A call returns its value, its error and the goroutines it leaves behind as tasks.
\<close>

section \<open>Options\<close>

record CacheDistributedLock =
  cdl_Timeout :: duration
  cdl_Expiration :: duration
  cdl_EnableWatchdog :: bool

record 'v CacheOptions =
  wo_ForceRefresh :: bool
  wo_TTLOverride :: "duration option"
  wo_SkipCompress :: bool
  wo_UseAsync :: bool
  wo_RetryOnError :: bool
  wo_RetryTimes :: int
  wo_JitterPercent :: "float64 option"
  wo_CachePenetration :: bool
  wo_DefaultValue :: "'v option"
  wo_Lock :: "CacheDistributedLock option"

type_synonym 'v CacheOption = "'v CacheOptions \<Rightarrow> 'v CacheOptions"

definition no_options :: "'v CacheOptions" where
  "no_options = \<lparr>wo_ForceRefresh = False, wo_TTLOverride = None, wo_SkipCompress = False, wo_UseAsync = False, wo_RetryOnError = False,
     wo_RetryTimes = 0, wo_JitterPercent = None, wo_CachePenetration = False, wo_DefaultValue = None, wo_Lock = None\<rparr>"

definition WithForceRefresh :: "bool \<Rightarrow> 'v CacheOption" where "WithForceRefresh force opts = opts\<lparr>wo_ForceRefresh := force\<rparr>"
definition WithTTL :: "duration \<Rightarrow> 'v CacheOption" where "WithTTL ttl opts = opts\<lparr>wo_TTLOverride := Some ttl\<rparr>"
definition WithoutCompression :: "'v CacheOption" where "WithoutCompression opts = opts\<lparr>wo_SkipCompress := True\<rparr>"
definition WithAsyncUpdate :: "'v CacheOption" where "WithAsyncUpdate opts = opts\<lparr>wo_UseAsync := True\<rparr>"

definition WithRetry :: "mathx \<Rightarrow> int \<Rightarrow> 'v CacheOption" where
  "WithRetry X retries opts = opts\<lparr>wo_RetryOnError := True, wo_RetryTimes := IfClamp X retries 1 max_int64\<rparr>"

text \<open>\<open>B\<close> is \<open>mathx.Between\<close> at the type \<open>float64\<close>.\<close>

definition WithJitter :: "(float64 \<Rightarrow> float64 \<Rightarrow> float64 \<Rightarrow> float64) \<Rightarrow> float64 \<Rightarrow> 'v CacheOption" where
  "WithJitter B percent opts = opts\<lparr>wo_JitterPercent := Some (B percent (Float 0 0) (Float 1 0))\<rparr>"

definition WithCachePenetration :: "'v option \<Rightarrow> 'v CacheOption" where
  "WithCachePenetration defaultValue opts = opts\<lparr>wo_CachePenetration := True, wo_DefaultValue := defaultValue\<rparr>"

definition WithDistributedLock :: "CacheDistributedLock option \<Rightarrow> 'v CacheOption" where
  "WithDistributedLock lock opts =
     opts\<lparr>wo_Lock := Some (case lock of
        None \<Rightarrow> \<lparr>cdl_Timeout = 500 * millisecond, cdl_Expiration = 5 * second, cdl_EnableWatchdog = True\<rparr>
      | Some l \<Rightarrow> \<lparr>cdl_Timeout = (if cdl_Timeout l = 0 then 500 * millisecond else cdl_Timeout l),
                    cdl_Expiration = (if cdl_Expiration l = 0 then 5 * second else cdl_Expiration l),
                    cdl_EnableWatchdog = cdl_EnableWatchdog l\<rparr>)\<rparr>"

definition When :: "bool \<Rightarrow> 'v CacheOption \<Rightarrow> 'v CacheOption" where
  "When condition opt opts = (if condition then opt opts else opts)"

definition WhenThen :: "bool \<Rightarrow> 'v CacheOption \<Rightarrow> 'v CacheOption \<Rightarrow> 'v CacheOption" where
  "WhenThen condition thenOpt elseOpt opts = (if condition then thenOpt opts else elseOpt opts)"

record 'v option_case =
  oc_Condition :: bool
  oc_Opt :: "'v CacheOption"

definition NewCase :: "bool \<Rightarrow> 'v CacheOption \<Rightarrow> 'v option_case" where
  "NewCase condition opt = \<lparr>oc_Condition = condition, oc_Opt = opt\<rparr>"

definition Combine :: "'v CacheOption list \<Rightarrow> 'v CacheOption" where
  "Combine opts options = fold (\<lambda>opt o'. opt o') opts options"

fun Match :: "'v option_case list \<Rightarrow> 'v CacheOption list \<Rightarrow> 'v CacheOption" where
  "Match [] defaultOpt opts = Combine defaultOpt opts"
| "Match (c # cases) defaultOpt opts = (if oc_Condition c then oc_Opt c opts else Match cases defaultOpt opts)"

section \<open>The time to live\<close>

definition f0_005 :: float64 where "f0_005 = Float 5764607523034235 (- 60)"

text \<open>\<open>rand.Int63n\<close> panics for an argument that is not positive; otherwise \<open>rnd n\<close> is its result.\<close>

definition cw_expiration :: "mathx \<Rightarrow> (int \<Rightarrow> int) \<Rightarrow> 'v CacheOptions \<Rightarrow> duration \<Rightarrow> duration option" where
  "cw_expiration X rnd options expiration =
     (let actual = (case wo_TTLOverride options of None \<Rightarrow> expiration | Some ttl \<Rightarrow> ttl);
          percent = (case wo_JitterPercent options of None \<Rightarrow> f0_005 | Some p \<Rightarrow> p)
      in if float_pos percent
         then (let jitterRange = float_mult (float_of_int actual) percent;
                   n = int_of_float (float_mult jitterRange (Float 2 0))
               in if n \<le> 0 then None
                  else Some (IfClamp X (wrap64 (actual + (rnd n - int_of_float jitterRange))) second max_int64))
         else Some actual)"

section \<open>The cached form\<close>

record ('a, 'v) value_ops =
  vo_zero :: 'a
  vo_Marshal :: "'a \<Rightarrow> string go_result"
  vo_Unmarshal :: "string \<Rightarrow> 'a go_result"
  vo_IsNil :: "'a \<Rightarrow> bool"
  vo_as :: "'v \<Rightarrow> 'a option"

record zipx =
  ZlibCompress :: "string \<Rightarrow> string go_result"
  ZlibDecompress :: "string \<Rightarrow> string go_result"

definition cw_encode :: "('a, 'v) value_ops \<Rightarrow> zipx \<Rightarrow> 'v CacheOptions \<Rightarrow> 'a \<Rightarrow> string go_result" where
  "cw_encode V Z options result =
     (case vo_Marshal V result of
        Inl err \<Rightarrow> Inl err
      | Inr data \<Rightarrow> if wo_SkipCompress options then Inr data else ZlibCompress Z data)"

definition cw_decode :: "('a, 'v) value_ops \<Rightarrow> zipx \<Rightarrow> 'v CacheOptions \<Rightarrow> string \<Rightarrow> 'a option" where
  "cw_decode V Z options cachedData =
     (case (if wo_SkipCompress options then Inr cachedData else ZlibDecompress Z cachedData) of
        Inl err \<Rightarrow> None
      | Inr data \<Rightarrow> (case vo_Unmarshal V data of Inl err \<Rightarrow> None | Inr result \<Rightarrow> Some result))"

section \<open>Updating the cache\<close>

text \<open>The goroutines that a call leaves behind: the asynchronous update, and the second deletion with its
  second write, 100 milliseconds later.\<close>

datatype 'v cw_task = TUpdate string string duration "'v CacheOptions" | TAgain string string duration

fun update_set :: "'d redis \<Rightarrow> (nat \<Rightarrow> time) \<Rightarrow> (nat \<Rightarrow> 'd \<Rightarrow> 'd) \<Rightarrow> string \<Rightarrow> string \<Rightarrow> duration \<Rightarrow> nat \<Rightarrow> 'd \<Rightarrow> go_error option \<times> 'd" where
  "update_set R tm wait key data ttl 0 d = client_err R (tm 0) (SET key data ttl) d"
| "update_set R tm wait key data ttl (Suc n) d =
     (case client_err R (tm (Suc n)) (SET key data ttl) d of
        (None, d') \<Rightarrow> (None, d')
      | (Some err, d') \<Rightarrow> update_set R tm wait key data ttl n (wait n d'))"

text \<open>\<open>tm n\<close> is the clock at the write after which \<open>n\<close> retries are left, \<open>now\<close> that of the deletion.\<close>

definition updateCache ::
  "'d redis \<Rightarrow> time \<Rightarrow> (nat \<Rightarrow> time) \<Rightarrow> (nat \<Rightarrow> 'd \<Rightarrow> 'd) \<Rightarrow> string \<Rightarrow> string \<Rightarrow> duration \<Rightarrow> 'v CacheOptions \<Rightarrow> 'd \<Rightarrow> 'v cw_task list \<times> 'd" where
  "updateCache R now tm wait key cacheData expiration options d =
     (let d1 = snd (client R now (DEL [key]) d);
          retries = (if wo_RetryOnError options then nat (wo_RetryTimes options) else 0)
      in (case update_set R tm wait key cacheData expiration retries d1 of
            (None, d2) \<Rightarrow> ([TAgain key cacheData expiration], d2)
          | (Some err, d2) \<Rightarrow> ([], d2)))"

text \<open>A task when it runs: its two commands, and what happens between them.\<close>

definition cw_run_task ::
  "'d redis \<Rightarrow> time \<Rightarrow> (nat \<Rightarrow> time) \<Rightarrow> (nat \<Rightarrow> 'd \<Rightarrow> 'd) \<Rightarrow> 'v cw_task \<Rightarrow> 'd \<Rightarrow> 'v cw_task list \<times> 'd" where
  "cw_run_task R now tm wait task d =
     (case task of
        TUpdate key data ttl options \<Rightarrow> updateCache R now tm wait key data ttl options d
      | TAgain key data ttl \<Rightarrow>
          (let d1 = wait 0 (snd (client R now (DEL [key]) d))
           in ([], snd (client R (tm 0) (SET key data ttl) d1))))"

section \<open>A call\<close>

record 'd call_env =
  ce_get :: time
  ce_rand :: "int \<Rightarrow> int"
  ce_attempts :: "'d attempt list"
  ce_poll :: "nat \<Rightarrow> time"
  ce_wait :: "nat \<Rightarrow> 'd \<Rightarrow> 'd"
  ce_watch :: "'d DistributedLock \<Rightarrow> 'd \<Rightarrow> 'd DistributedLock \<times> 'd"
  ce_del :: time
  ce_set :: "nat \<Rightarrow> time"
  ce_unlock :: time

definition lock_config :: "CacheDistributedLock \<Rightarrow> LockConfig" where
  "lock_config l =
     \<lparr>lkc_TTL = cdl_Expiration l, lkc_RetryInterval = 50 * millisecond, lkc_MaxRetries = go_div (go_div (cdl_Timeout l) millisecond) 50,
      lkc_Namespace = [], lkc_EnableWatchdog = cdl_EnableWatchdog l, lkc_WatchdogInterval = go_div (cdl_Expiration l) 3\<rparr>"

definition tryGetFromCache ::
  "('a, 'v) value_ops \<Rightarrow> zipx \<Rightarrow> 'd redis \<Rightarrow> time \<Rightarrow> string \<Rightarrow> 'v CacheOptions \<Rightarrow> 'd \<Rightarrow> 'a option \<times> 'd" where
  "tryGetFromCache V Z R now key options d =
     (case client_str R now (GET key) d of
        (Inl err, d') \<Rightarrow> (None, d')
      | (Inr cachedData, d') \<Rightarrow>
          (if cachedData = [] then None
           else (case (if wo_SkipCompress options then Inr cachedData else ZlibDecompress Z cachedData) of
                   Inl err \<Rightarrow> None
                 | Inr data \<Rightarrow> if data = [] then None
                               else (case vo_Unmarshal V data of Inl err \<Rightarrow> None | Inr result \<Rightarrow> Some result)), d'))"

text \<open>The five looks at the cache of a call that did not get the lock.\<close>

fun cw_poll ::
  "('a, 'v) value_ops \<Rightarrow> zipx \<Rightarrow> 'd redis \<Rightarrow> 'd call_env \<Rightarrow> string \<Rightarrow> 'v CacheOptions \<Rightarrow> nat \<Rightarrow> 'd \<Rightarrow> 'a option \<times> 'd" where
  "cw_poll V Z R E key options 0 d = (None, d)"
| "cw_poll V Z R E key options (Suc n) d =
     (case tryGetFromCache V Z R (ce_poll E n) key options (ce_wait E n d) of
        (Some result, d') \<Rightarrow> (Some result, d')
      | (None, d') \<Rightarrow> cw_poll V Z R E key options n d')"

text \<open>What the lock gives: the value found in the cache, if any, and the lock that is to be released.
  Nothing, when the attempts of \<open>E\<close> do not suffice.\<close>

definition cw_lock ::
  "mathx \<Rightarrow> ('a, 'v) value_ops \<Rightarrow> zipx \<Rightarrow> 'd redis \<Rightarrow> 'd redis_lock \<Rightarrow> 'd call_env \<Rightarrow> string \<Rightarrow> 'v CacheOptions \<Rightarrow> 'd \<Rightarrow>
   ('a option \<times> 'd DistributedLock option \<times> 'd) option" where
  "cw_lock X V Z R LK E key options d =
     (case wo_Lock options of
        None \<Rightarrow> Some (None, None, d)
      | Some l \<Rightarrow>
          (case dl_Lock LK 0 (ce_attempts E) (NewDistributedLock X (key @ '':lock'') (lock_config l)) d of
             (None, lk, d1) \<Rightarrow> None
           | (Some (Some lockErr), lk, d1) \<Rightarrow> (case cw_poll V Z R E key options 5 d1 of (r, d2) \<Rightarrow> Some (r, None, d2))
           | (Some None, lk, d1) \<Rightarrow> (case tryGetFromCache V Z R (ce_poll E 0) key options d1 of (r, d2) \<Rightarrow> Some (r, Some lk, d2))))"

text \<open>What the call comes to before the deferred release of the lock: its results, or a call of itself with
  a loader of the default value.\<close>

datatype ('a, 'v) cw_next = CRet 'a "go_error option" "'v cw_task list" | CRecur 'a duration

type_synonym ('a, 'd) cache_func = "'d \<Rightarrow> ('a \<times> go_error option) \<times> 'd"

definition cw_store ::
  "('a, 'v) value_ops \<Rightarrow> zipx \<Rightarrow> 'd redis \<Rightarrow> 'd call_env \<Rightarrow> string \<Rightarrow> 'v CacheOptions \<Rightarrow> duration \<Rightarrow> 'a \<Rightarrow> 'd \<Rightarrow> ('a, 'v) cw_next \<times> 'd" where
  "cw_store V Z R E key options ttl result d =
     (case cw_encode V Z options result of
        Inl err \<Rightarrow> (CRet result (Some err) [], d)
      | Inr cacheData \<Rightarrow>
          if wo_UseAsync options then (CRet result None [TUpdate key cacheData ttl options], d)
          else (case updateCache R (ce_del E) (ce_set E) (ce_wait E) key cacheData ttl options d of
                  (tasks, d') \<Rightarrow> (CRet result None tasks, d')))"

definition cw_execute ::
  "('a, 'v) value_ops \<Rightarrow> zipx \<Rightarrow> 'd redis \<Rightarrow> 'd call_env \<Rightarrow> string \<Rightarrow> 'v CacheOptions \<Rightarrow> duration \<Rightarrow> ('a, 'd) cache_func \<Rightarrow> 'd \<Rightarrow>
   ('a, 'v) cw_next \<times> 'd" where
  "cw_execute V Z R E key options ttl cacheFunc d =
     (case cacheFunc d of
        ((result, Some err), d1) \<Rightarrow> (CRet result (Some err) [], d1)
      | ((result, None), d1) \<Rightarrow>
          (case (if wo_CachePenetration options \<and> vo_IsNil V result then Option.bind (wo_DefaultValue options) (vo_as V) else None) of
             Some defaultVal \<Rightarrow> (CRecur defaultVal ttl, d1)
           | None \<Rightarrow> cw_store V Z R E key options ttl result d1))"

text \<open>The call up to \<open>executeFunc\<close>: a result from the cache, an error, or on to the loader.\<close>

definition cw_first ::
  "('a, 'v) value_ops \<Rightarrow> zipx \<Rightarrow> 'd redis \<Rightarrow> 'd call_env \<Rightarrow> string \<Rightarrow> 'v CacheOptions \<Rightarrow> 'd \<Rightarrow> ('a \<times> go_error option) option \<times> 'd" where
  "cw_first V Z R E key options d =
     (if wo_ForceRefresh options then (None, snd (client R (ce_get E) (DEL [key]) d))
      else (case client_str R (ce_get E) (GET key) d of
              (Inl err, d') \<Rightarrow> (if err = RedisNil then None else Some (vo_zero V, Some err), d')
            | (Inr cachedData, d') \<Rightarrow>
                (if cachedData = [] then None
                 else map_option (\<lambda>result. (result, None)) (cw_decode V Z options cachedData), d')))"

definition cw_unlock :: "'d redis_lock \<Rightarrow> time \<Rightarrow> 'd DistributedLock option \<Rightarrow> 'd \<Rightarrow> 'd" where
  "cw_unlock LK now lk d = (case lk of None \<Rightarrow> d | Some l \<Rightarrow> snd (snd (Unlock LK now l d)))"

text \<open>
  The wrapped function. The recursion of the code for a default value is bounded by fuel; \<open>E n\<close> is what
  the call with \<open>n\<close> calls below it meets. Without a result the call does not return.
\<close>

fun CacheWrapper ::
  "mathx \<Rightarrow> ('a, 'v) value_ops \<Rightarrow> zipx \<Rightarrow> 'd redis \<Rightarrow> 'd redis_lock \<Rightarrow> (nat \<Rightarrow> 'd call_env) \<Rightarrow> nat \<Rightarrow> string \<Rightarrow> ('a, 'd) cache_func \<Rightarrow>
   duration \<Rightarrow> 'v CacheOption list \<Rightarrow> 'd \<Rightarrow> (('a \<times> go_error option) \<times> 'v cw_task list \<times> 'd) option" where
  "CacheWrapper X V Z R LK E 0 key cacheFunc expiration opts d = None"
| "CacheWrapper X V Z R LK E (Suc n) key cacheFunc expiration opts d =
     (let options = Combine opts no_options in
      (case cw_expiration X (ce_rand (E n)) options expiration of
         None \<Rightarrow> Some ((vo_zero V, Some RuntimePanic), [], d)
       | Some ttl \<Rightarrow>
           (case cw_first V Z R (E n) key options d of
              (Some r, d1) \<Rightarrow> Some (r, [], d1)
            | (None, d1) \<Rightarrow>
                (case cw_lock X V Z R LK (E n) key options d1 of
                   None \<Rightarrow> None
                 | Some (Some result, lk, d2) \<Rightarrow> Some ((result, None), [], cw_unlock LK (ce_unlock (E n)) lk d2)
                 | Some (None, lk, d2) \<Rightarrow>
                     (case cw_execute V Z R (E n) key options ttl cacheFunc d2 of
                        (next', d3) \<Rightarrow>
                          (let (lk', d4) = (case lk of None \<Rightarrow> (None, d3) | Some l \<Rightarrow> (case ce_watch (E n) l d3 of (l', d') \<Rightarrow> (Some l', d')))
                           in (case next' of
                                 CRet result err tasks \<Rightarrow> Some ((result, err), tasks, cw_unlock LK (ce_unlock (E n)) lk' d4)
                               | CRecur defaultVal ttl' \<Rightarrow>
                                   map_option (\<lambda>(r, tasks, d5). (r, tasks, cw_unlock LK (ce_unlock (E n)) lk' d5))
                                     (CacheWrapper X V Z R LK E n key (\<lambda>d. ((defaultVal, None), d)) ttl'
                                        (opts @ [\<lambda>o'. o'\<lparr>wo_Lock := None\<rparr>]) d4))))))))"

end
