(* ===== verification/Wrapper_Correct.thy ===== *)
theory Wrapper_Correct
  imports Wrapper
begin

text \<open>
  What a wrapped loader promises: a value that was loaded comes back from the cache while its time to
  live runs; the time to live stays within the jitter; the call returns, unless the default value is
  itself nil; and what the second write of the double deletion does to a newer value.
\<close>

section \<open>Laws\<close>

text \<open>Values that keep their JSON form, and a compression that keeps its data.\<close>

definition value_law :: "('a, 'v) value_ops \<Rightarrow> bool" where
  "value_law V \<longleftrightarrow> (\<forall>x b. vo_Marshal V x = Inr b \<longrightarrow> b \<noteq> [] \<and> vo_Unmarshal V b = Inr x)"

definition zipx_law :: "zipx \<Rightarrow> bool" where
  "zipx_law Z \<longleftrightarrow> (\<forall>b c. ZlibCompress Z b = Inr c \<longrightarrow> c \<noteq> [] \<and> ZlibDecompress Z c = Inr b)"

lemma encode_decode:
  assumes "value_law V" "zipx_law Z" "cw_encode V Z options x = Inr c" "wo_SkipCompress options' = wo_SkipCompress options"
  shows "c \<noteq> []" "cw_decode V Z options' c = Some x"
  using assms by (auto simp: cw_encode_def cw_decode_def value_law_def zipx_law_def split: sum.splits if_splits)

section \<open>The commands\<close>

lemma get_hit:
  assumes "redis_law R db" "redis_up R" "db_wf (db d)" "at now (db d) key = Some (VStr s)"
  obtains d' where "client_str R now (GET key) d = (Inr s, d')" "db d' = db d" "db_wf (db d')"
proof -
  have r: "redis_do now (GET key) (db d) = (RBulk s, db d)" using assms(4) by (simp add: redis_do_simps on_str_def)
  show thesis by (rule client_up [OF assms(1-3) r]) (auto intro: that simp: client_str_def)
qed

lemma get_miss:
  assumes "redis_law R db" "redis_up R" "db_wf (db d)" "at now (db d) key = None"
  obtains d' where "client_str R now (GET key) d = (Inl RedisNil, d')" "db d' = db d" "db_wf (db d')"
proof -
  have r: "redis_do now (GET key) (db d) = (RNil, db d)" using assms(4) by (simp add: redis_do_simps on_str_def)
  show thesis by (rule client_up_nil [OF assms(1-3) r]) (auto intro: that simp: client_str_def)
qed

lemma del_up:
  assumes "redis_law R db" "redis_up R" "db_wf (db d)"
  obtains r d' where "client R now (DEL [key]) d = (Inr (RInt r), d')" "db d' = (db d)(key := None)" "db_wf (db d')"
proof -
  have e: "(\<lambda>k. if k \<in> set [key] then None else db d k) = (db d)(key := None)" by auto
  obtain r where r: "redis_do now (DEL [key]) (db d) = (RInt r, (db d)(key := None))"
    unfolding redis_do_simps e by blast
  show thesis by (rule client_up [OF assms r]; (erule (2) that | simp))
qed

lemma set_up:
  assumes "redis_law R db" "redis_up R" "db_wf (db d)"
  obtains d' where "client_err R now (SET key v ttl) d = (None, d')" "db d' = set_str now key v ttl (db d)" "db_wf (db d')"
proof -
  have r: "redis_do now (SET key v ttl) (db d) = (ROk, set_str now key v ttl (db d))" by (simp add: redis_do_simps)
  show thesis by (rule client_up [OF assms r]) (auto intro: that simp: client_err_def)
qed

definition cw_retries :: "'v CacheOptions \<Rightarrow> nat" where
  "cw_retries options = (if wo_RetryOnError options then nat (wo_RetryTimes options) else 0)"

text \<open>The key after a write at \<open>t\<close>.\<close>

definition written :: "redis_db \<Rightarrow> string \<Rightarrow> string \<Rightarrow> time \<Rightarrow> duration \<Rightarrow> bool" where
  "written db key data t ttl \<longleftrightarrow> db key = Some (VStr data, if 0 < ttl then Some (t + ttl) else None)"

lemma written_at: "written db key data t ttl \<Longrightarrow> 0 < ttl \<Longrightarrow> now < t + ttl \<Longrightarrow> at now db key = Some (VStr data)"
  by (simp add: written_def at_def live_def)

lemma updateCache_up:
  assumes "redis_law R db" "redis_up R" "db_wf (db d)"
  obtains d' where "updateCache R now tm wait key data ttl options d = ([TAgain key data ttl], d')"
    "written (db d') key data (tm (cw_retries options)) ttl" "db_wf (db d')"
proof -
  obtain r d1 where 1: "client R now (DEL [key]) d = (Inr (RInt r), d1)" "db_wf (db d1)" by (rule del_up [OF assms])
  obtain d2 where 2: "client_err R (tm (cw_retries options)) (SET key data ttl) d1 = (None, d2)"
    "db d2 = set_str (tm (cw_retries options)) key data ttl (db d1)" "db_wf (db d2)" by (rule set_up [OF assms(1,2) 1(2)])
  have "update_set R tm wait key data ttl (cw_retries options) d1 = (None, d2)"
    using 2(1) by (cases "cw_retries options") simp_all
  then show thesis using that [of d2] 1(1) 2(2,3) by (simp add: updateCache_def cw_retries_def [symmetric] Let_def written_def set_str_def)
qed

lemma again_up:
  assumes "redis_law R db" "redis_up R" "db_wf (db d)" "\<And>d'. db_wf (db d') \<Longrightarrow> db_wf (db (wait 0 d'))"
  obtains d' where "cw_run_task R now tm wait (TAgain key data ttl) d = ([], d')" "written (db d') key data (tm 0) ttl" "db_wf (db d')"
proof -
  obtain r d1 where 1: "client R now (DEL [key]) d = (Inr (RInt r), d1)" "db_wf (db d1)" by (rule del_up [OF assms(1-3)])
  obtain d2 where 2: "client_err R (tm 0) (SET key data ttl) (wait 0 d1) = (None, d2)"
    "db d2 = set_str (tm 0) key data ttl (db (wait 0 d1))" "db_wf (db d2)" by (rule set_up [OF assms(1,2) assms(4) [OF 1(2)]])
  have "snd (client R (tm 0) (SET key data ttl) (wait 0 d1)) = d2" using 2(1) by (simp add: client_err_def split: prod.splits)
  then show thesis using that [of d2] 1(1) 2(2,3) by (simp add: cw_run_task_def Let_def written_def set_str_def)
qed

text \<open>When nothing else happens between its commands, the task is one write.\<close>

lemma again_alone:
  assumes "redis_law R db" "redis_up R" "db_wf (db d)" "\<And>d'. db (wait 0 d') = db d'"
  obtains d' where "cw_run_task R now tm wait (TAgain key data ttl) d = ([], d')" "db d' = set_str (tm 0) key data ttl (db d)" "db_wf (db d')"
proof -
  obtain r d1 where 1: "client R now (DEL [key]) d = (Inr (RInt r), d1)" "db d1 = (db d)(key := None)" "db_wf (db d1)" by (rule del_up [OF assms(1-3)])
  have w: "db_wf (db (wait 0 d1))" using 1(3) assms(4) by simp
  obtain d2 where 2: "client_err R (tm 0) (SET key data ttl) (wait 0 d1) = (None, d2)"
    "db d2 = set_str (tm 0) key data ttl (db (wait 0 d1))" "db_wf (db d2)" by (rule set_up [OF assms(1,2) w])
  have "snd (client R (tm 0) (SET key data ttl) (wait 0 d1)) = d2" using 2(1) by (simp add: client_err_def split: prod.splits)
  then show thesis using that [of d2] 1(1) 2(2,3) by (simp add: cw_run_task_def Let_def set_str_def 1(2) assms(4))
qed

section \<open>Hits and misses\<close>

lemma first_hit:
  assumes "redis_law R db" "redis_up R" "db_wf (db d)" "at (ce_get E) (db d) key = Some (VStr c)" "c \<noteq> []"
    "cw_decode V Z options c = Some x" "\<not> wo_ForceRefresh options"
  obtains d' where "cw_first V Z R E key options d = (Some (x, None), d')" "db d' = db d" "db_wf (db d')"
proof -
  obtain d' where d: "client_str R (ce_get E) (GET key) d = (Inr c, d')" "db d' = db d" "db_wf (db d')" by (rule get_hit [OF assms(1-4)])
  show thesis by (rule that [OF _ d(2,3)]) (simp add: cw_first_def d(1) assms(5-7))
qed

lemma first_miss:
  assumes "redis_law R db" "redis_up R" "db_wf (db d)" "wo_ForceRefresh options \<or> at (ce_get E) (db d) key = None"
  obtains d' where "cw_first V Z R E key options d = (None, d')" "db_wf (db d')"
proof (cases "wo_ForceRefresh options")
  case True
  obtain r d' where d: "client R (ce_get E) (DEL [key]) d = (Inr (RInt r), d')" "db_wf (db d')" by (rule del_up [OF assms(1-3)])
  show thesis by (rule that [OF _ d(2)]) (simp add: cw_first_def d(1) True)
next
  case False
  then have a: "at (ce_get E) (db d) key = None" using assms(4) by simp
  obtain d' where d: "client_str R (ce_get E) (GET key) d = (Inl RedisNil, d')" "db_wf (db d')" by (rule get_miss [OF assms(1-3) a])
  show thesis by (rule that [OF _ d(2)]) (simp add: cw_first_def d(1) False)
qed

lemma wrapper_hit:
  assumes "redis_law R db" "redis_up R" "db_wf (db d)" "at (ce_get (E n)) (db d) key = Some (VStr c)" "c \<noteq> []"
    "cw_decode V Z (Combine opts no_options) c = Some x" "\<not> wo_ForceRefresh (Combine opts no_options)"
    "cw_expiration X (ce_rand (E n)) (Combine opts no_options) expiration = Some ttl"
  shows "\<exists>d'. CacheWrapper X V Z R LK E (Suc n) key cacheFunc expiration opts d = Some ((x, None), [], d') \<and> db d' = db d"
proof -
  obtain d' where "cw_first V Z R (E n) key (Combine opts no_options) d = (Some (x, None), d')" "db d' = db d"
    by (rule first_hit [OF assms(1-7)])
  then show ?thesis using assms(8) by (simp add: Let_def)
qed

lemma wrapper_store:
  assumes "redis_law R db" "redis_up R" "db_wf (db d)" "options = Combine opts no_options"
    "wo_ForceRefresh options \<or> at (ce_get (E n)) (db d) key = None" "wo_Lock options = None" "\<not> wo_UseAsync options"
    "cw_expiration X (ce_rand (E n)) options expiration = Some ttl" "cw_encode V Z options x = Inr c"
    "\<And>d'. db_wf (db d') \<Longrightarrow> fst (cacheFunc d') = (x, None) \<and> db_wf (db (snd (cacheFunc d')))"
    "\<not> (wo_CachePenetration options \<and> vo_IsNil V x)"
  obtains d' where "CacheWrapper X V Z R LK E (Suc n) key cacheFunc expiration opts d = Some ((x, None), [TAgain key c ttl], d')"
    "written (db d') key c (ce_set (E n) (cw_retries options)) ttl" "db_wf (db d')"
proof -
  obtain d1 where 1: "cw_first V Z R (E n) key options d = (None, d1)" "db_wf (db d1)" by (rule first_miss [OF assms(1-3,5)])
  obtain d2 where 2: "cacheFunc d1 = ((x, None), d2)" "db_wf (db d2)"
    using assms(10) [OF 1(2)] by (cases "cacheFunc d1") auto
  obtain d3 where 3: "updateCache R (ce_del (E n)) (ce_set (E n)) (ce_wait (E n)) key c ttl options d2 = ([TAgain key c ttl], d3)"
    "written (db d3) key c (ce_set (E n) (cw_retries options)) ttl" "db_wf (db d3)" by (rule updateCache_up [OF assms(1,2) 2(2)])
  have "cw_execute V Z R (E n) key options ttl cacheFunc d1 = (CRet x None [TAgain key c ttl], d3)"
    using assms(7,9,11) 2(1) 3(1) by (auto simp: cw_execute_def cw_store_def)
  then show thesis
    using that [OF _ 3(2,3)] 1(1) assms(6,8) by (simp add: assms(4) [symmetric] Let_def cw_lock_def cw_unlock_def)
qed

text \<open>A concrete wrapper: strings, of which the empty one is nil, with one tag byte for each form.\<close>

definition demo_V :: "(string, string) value_ops" where
  "demo_V = \<lparr>vo_zero = [], vo_Marshal = (\<lambda>x. Inr (CHR ''j'' # x)),
     vo_Unmarshal = (\<lambda>b. case b of [] \<Rightarrow> Inl (ExtError 7) | c # x \<Rightarrow> Inr x), vo_IsNil = (\<lambda>x. x = []), vo_as = Some\<rparr>"

definition demo_Z :: zipx where
  "demo_Z = \<lparr>ZlibCompress = (\<lambda>b. Inr (CHR ''z'' # b)), ZlibDecompress = (\<lambda>c. case c of [] \<Rightarrow> Inl (ExtError 8) | t # b \<Rightarrow> Inr b)\<rparr>"

lemma demo_laws: "value_law demo_V" "zipx_law demo_Z"
  by (simp_all add: value_law_def demo_V_def zipx_law_def demo_Z_def)

text \<open>A call at a time, without contention.\<close>

definition demo_env :: "time \<Rightarrow> 'd call_env" where
  "demo_env t = \<lparr>ce_get = t, ce_rand = (\<lambda>n. 0), ce_attempts = [], ce_poll = (\<lambda>n. t), ce_wait = (\<lambda>n d. d), ce_watch = (\<lambda>l d. (l, d)),
     ce_del = t, ce_set = (\<lambda>n. t), ce_unlock = t\<rparr>"

definition demo_opts :: "string CacheOption list" where
  "demo_opts = [WithJitter (\<lambda>v lo hi. v) (Float 0 0)]"

lemma demo_opts_simps:
  "Combine demo_opts no_options = no_options\<lparr>wo_JitterPercent := Some (Float 0 0)\<rparr>"
  "Combine (WithForceRefresh True # demo_opts) no_options = no_options\<lparr>wo_JitterPercent := Some (Float 0 0), wo_ForceRefresh := True\<rparr>"
  "cw_expiration X rnd (no_options\<lparr>wo_JitterPercent := Some (Float 0 0)\<rparr>) e = Some e"
  "cw_expiration X rnd (no_options\<lparr>wo_JitterPercent := Some (Float 0 0), wo_ForceRefresh := True\<rparr>) e = Some e"
  by (simp_all add: demo_opts_def Combine_def WithJitter_def WithForceRefresh_def no_options_def cw_expiration_def float_pos_def)

lemma demo_encode: "cw_encode demo_V demo_Z (no_options\<lparr>wo_JitterPercent := j, wo_ForceRefresh := f\<rparr>) x = Inr (''zj'' @ x)"
    "cw_encode demo_V demo_Z (no_options\<lparr>wo_JitterPercent := j\<rparr>) x = Inr (''zj'' @ x)"
  by (simp_all add: cw_encode_def demo_V_def demo_Z_def no_options_def)

text \<open>The commands of the lock on the reference server.\<close>

definition demo_LK :: "redis_db redis_lock" where
  "demo_LK = \<lparr>lk_Get = (\<lambda>now k d. client_str redis_ref now (GET k) d),
     lk_SetNX = (\<lambda>now k v ttl d. (case client_int redis_ref now (SETNX k v ttl) d of (r, d') \<Rightarrow> (map_sum id (\<lambda>n. n = 1) r, d'))),
     lk_TTL = (\<lambda>now k d. (Inr (case live now (d k) of None \<Rightarrow> -2 | Some (_, None) \<Rightarrow> -1 | Some (_, Some t) \<Rightarrow> t - now), d)),
     lk_net = (\<lambda>d. Delivered),
     lua_GET = (\<lambda>now k d. (Inr (case at now d k of Some (VStr s) \<Rightarrow> Some s | _ \<Rightarrow> None), d)),
     lua_DEL = (\<lambda>now k d. client_int redis_ref now (DEL [k]) d),
     lua_PEXPIRE = (\<lambda>now k ms d. client_int redis_ref now (EXPIRE k (ms * millisecond)) d)\<rparr>"

lemma demo_env_simps: "ce_get (demo_env t) = t" "ce_set (demo_env t) n = t" "(0::int) < second" "0 \<le> second" "at now Map.empty k = None"
    "wo_Lock no_options = None" "\<not> wo_UseAsync no_options" "\<not> wo_CachePenetration no_options" "\<not> wo_ForceRefresh no_options"
    "wo_SkipCompress no_options = False"
  by (simp_all add: demo_env_def second_def at_def no_options_def)

abbreviation "demo_call t n x opts d \<equiv>
  CacheWrapper mathx_ref demo_V demo_Z redis_ref demo_LK (\<lambda>k. demo_env t) (Suc n) ''k'' (\<lambda>d. ((x, None), d)) (10 * second) opts d"

text \<open>C13: A value that the loader gave to a call without a lock and without asynchronous writing is cached:
  after the call, and again after the task of its double deletion has run as a whole, and until the time
  to live ends, a wrapper of the key with the same compression and without \<open>ForceRefresh\<close> returns that
  value and does not call its loader, whatever that loader is. (Between the second deletion and the second
  write of the task, the key is gone for a moment.)\<close>
theorem cw_roundtrip:
  fixes V :: "('a, 'v) value_ops"
  assumes "redis_law R db" "redis_up R" "db_wf (db d)" "value_law V" "zipx_law Z" "options = Combine opts no_options"
    "wo_ForceRefresh options \<or> at (ce_get (E n)) (db d) key = None" "wo_Lock options = None" "\<not> wo_UseAsync options"
    "cw_expiration X (ce_rand (E n)) options expiration = Some ttl" "0 < ttl" "cw_encode V Z options x = Inr c"
    "\<And>d'. db_wf (db d') \<Longrightarrow> fst (cacheFunc d') = (x, None) \<and> db_wf (db (snd (cacheFunc d')))"
    "\<not> (wo_CachePenetration options \<and> vo_IsNil V x)" "\<And>d'. db_wf (db d') \<Longrightarrow> db_wf (db (wait 0 d'))"
    "options' = Combine opts' no_options" "\<not> wo_ForceRefresh options'" "wo_SkipCompress options' = wo_SkipCompress options"
    "cw_expiration X (ce_rand (E' m)) options' expiration' = Some ttl'"
  shows "\<exists>d1 d2. CacheWrapper X V Z R LK E (Suc n) key cacheFunc expiration opts d = Some ((x, None), [TAgain key c ttl], d1) \<and>
           cw_run_task R now tm wait (TAgain key c ttl :: 'v cw_task) d1 = ([], d2) \<and>
           (ce_get (E' m) < ce_set (E n) (cw_retries options) + ttl \<longrightarrow>
              (\<exists>d'. CacheWrapper X V Z R LK' E' (Suc m) key cacheFunc' expiration' opts' d1 = Some ((x, None), [], d') \<and> db d' = db d1)) \<and>
           (ce_get (E' m) < tm 0 + ttl \<longrightarrow>
              (\<exists>d'. CacheWrapper X V Z R LK' E' (Suc m) key cacheFunc' expiration' opts' d2 = Some ((x, None), [], d') \<and> db d' = db d2))"
proof -
  obtain d1 where 1: "CacheWrapper X V Z R LK E (Suc n) key cacheFunc expiration opts d = Some ((x, None), [TAgain key c ttl], d1)"
    "written (db d1) key c (ce_set (E n) (cw_retries options)) ttl" "db_wf (db d1)"
    by (rule wrapper_store [where db = db and d = d and E = E and n = n and cacheFunc = cacheFunc, OF assms(1-3,6-10,12-14)])
  obtain d2 where 2: "cw_run_task R now tm wait (TAgain key c ttl :: 'v cw_task) d1 = ([], d2)" "written (db d2) key c (tm 0) ttl" "db_wf (db d2)"
    by (rule again_up [where db = db and d = d1 and wait = wait, OF assms(1,2) 1(3) assms(15)])
  note dec = encode_decode [OF assms(4,5,12,18)]
  have hit: "\<exists>d'. CacheWrapper X V Z R LK' E' (Suc m) key cacheFunc' expiration' opts' e = Some ((x, None), [], d') \<and> db d' = db e"
    if "db_wf (db e)" "written (db e) key c t ttl" "ce_get (E' m) < t + ttl" for e t
    by (rule wrapper_hit [where db = db and d = e and E = E' and n = m, OF assms(1,2) that(1) written_at [OF that(2) assms(11) that(3)] dec [unfolded assms(16)] assms(17,19) [unfolded assms(16)]])
  show ?thesis
    by (rule exI [of _ d1], rule exI [of _ d2])
      (intro conjI impI, fact 1(1), fact 2(1), erule hit [OF 1(3,2)], erule hit [OF 2(3,2)])
qed

lemma cw_roundtrip_witness:
  "\<exists>d1 d2. demo_call 0 0 ''v'' demo_opts Map.empty = Some ((''v'', None), [TAgain ''k'' ''zjv'' (10 * second)], d1) \<and>
     cw_run_task redis_ref 1 (\<lambda>n. 1) (\<lambda>n d. d) (TAgain ''k'' ''zjv'' (10 * second) :: string cw_task) d1 = ([], d2) \<and>
     (\<exists>d'. demo_call (9 * second) 0 ''w'' demo_opts d1 = Some ((''v'', None), [], d') \<and> d' = d1) \<and>
     (\<exists>d'. demo_call (9 * second) 0 ''w'' demo_opts d2 = Some ((''v'', None), [], d') \<and> d' = d2)"
  using cw_roundtrip [where db = id and d = Map.empty and E = "\<lambda>k. demo_env 0" and E' = "\<lambda>k. demo_env (9 * second)" and n = 0 and m = 0
      and X = mathx_ref and opts = demo_opts and opts' = demo_opts and expiration = "10 * second" and expiration' = "10 * second"
      and x = "''v''" and c = "''zjv''" and key = "''k''" and ttl = "10 * second" and ttl' = "10 * second"
      and cacheFunc = "\<lambda>d. ((''v'', None), d)" and cacheFunc' = "\<lambda>d. ((''w'', None), d)" and wait = "\<lambda>n d. d" and tm = "\<lambda>n. 1" and now = 1
      and LK = demo_LK and LK' = demo_LK,
      OF redis_ref_law _ demo_laws refl _ _ _ _ _ _ _ _ _ refl]
  by (simp add: demo_opts_simps demo_encode demo_env_simps del: CacheWrapper.simps)

text \<open>C35: The second write of the double deletion writes what its own call had loaded. When another call has
  refreshed the key in the 100 milliseconds before it, the newer value is lost: later calls return the
  older one until its time to live ends.\<close>
theorem cw_second_write_stale:
  fixes V :: "('a, 'v) value_ops"
  assumes "redis_law R db" "redis_up R" "db_wf (db d)" "value_law V" "zipx_law Z" "options = Combine opts no_options"
    "wo_ForceRefresh options" "wo_Lock options = None" "\<not> wo_UseAsync options"
    "cw_expiration X (ce_rand (E n)) options expiration = Some ttl" "cw_encode V Z options y = Inr c"
    "\<And>d'. db_wf (db d') \<Longrightarrow> fst (cacheFunc d') = (y, None) \<and> db_wf (db (snd (cacheFunc d')))"
    "\<not> (wo_CachePenetration options \<and> vo_IsNil V y)" "\<And>d'. db_wf (db d') \<Longrightarrow> db_wf (db (wait 0 d'))"
    "cw_encode V Z options' x = Inr older" "0 < ttl0" "ce_get (E' m) < tm 0 + ttl0"
    "options' = Combine opts' no_options" "\<not> wo_ForceRefresh options'"
    "cw_expiration X (ce_rand (E' m)) options' expiration' = Some ttl'"
  shows "\<exists>d1 d2 d3. CacheWrapper X V Z R LK E (Suc n) key cacheFunc expiration opts d = Some ((y, None), [TAgain key c ttl], d1) \<and>
           cw_run_task R now tm wait (TAgain key older ttl0 :: 'v cw_task) d1 = ([], d2) \<and>
           CacheWrapper X V Z R LK' E' (Suc m) key cacheFunc' expiration' opts' d2 = Some ((x, None), [], d3)"
proof -
  obtain d1 where 1: "CacheWrapper X V Z R LK E (Suc n) key cacheFunc expiration opts d = Some ((y, None), [TAgain key c ttl], d1)"
    "db_wf (db d1)"
    by (rule wrapper_store [where db = db and d = d and E = E and n = n and cacheFunc = cacheFunc,
          OF assms(1-3,6) disjI1 [OF assms(7)] assms(8-13)])
  obtain d2 where 2: "cw_run_task R now tm wait (TAgain key older ttl0 :: 'v cw_task) d1 = ([], d2)" "written (db d2) key older (tm 0) ttl0" "db_wf (db d2)"
    by (rule again_up [where db = db and d = d1 and wait = wait, OF assms(1,2) 1(2) assms(14)])
  note dec = encode_decode [OF assms(4,5,15) refl]
  have "\<exists>d'. CacheWrapper X V Z R LK' E' (Suc m) key cacheFunc' expiration' opts' d2 = Some ((x, None), [], d') \<and> db d' = db d2"
    by (rule wrapper_hit [where db = db and d = d2 and E = E' and n = m, OF assms(1,2) 2(3) written_at [OF 2(2) assms(16,17)]
          dec [unfolded assms(18)] assms(19,20) [unfolded assms(18)]])
  then show ?thesis using 1(1) 2(1) by blast
qed

lemma cw_second_write_stale_witness:
  "\<exists>d1 d2 d3. demo_call 0 0 ''new'' (WithForceRefresh True # demo_opts) Map.empty = Some ((''new'', None), [TAgain ''k'' ''zjnew'' (10 * second)], d1) \<and>
     cw_run_task redis_ref 1 (\<lambda>n. 1) (\<lambda>n d. d) (TAgain ''k'' ''zjold'' (10 * second) :: string cw_task) d1 = ([], d2) \<and>
     demo_call (9 * second) 0 ''w'' demo_opts d2 = Some ((''old'', None), [], d3)"
  using cw_second_write_stale [where db = id and d = Map.empty and E = "\<lambda>k. demo_env 0" and E' = "\<lambda>k. demo_env (9 * second)" and n = 0 and m = 0
      and X = mathx_ref and opts = "WithForceRefresh True # demo_opts" and opts' = demo_opts and expiration = "10 * second" and expiration' = "10 * second"
      and y = "''new''" and x = "''old''" and c = "''zjnew''" and older = "''zjold''" and key = "''k''" and ttl = "10 * second" and ttl0 = "10 * second" and ttl' = "10 * second"
      and cacheFunc = "\<lambda>d. ((''new'', None), d)" and cacheFunc' = "\<lambda>d. ((''w'', None), d)" and wait = "\<lambda>n d. d" and tm = "\<lambda>n. 1" and now = 1
      and LK = demo_LK and LK' = demo_LK,
      OF redis_ref_law _ demo_laws refl _ _ _ _ _ _ _ _ _ _ _ refl]
  by (simp add: demo_opts_simps demo_encode demo_env_simps del: CacheWrapper.simps)

section \<open>Returning\<close>

lemma Combine_last: "Combine (opts @ [f]) o' = f (Combine opts o')"
  by (simp add: Combine_def)

lemma execute_default:
  "cw_execute V Z R E key options ttl cacheFunc d = (CRecur v t, d') \<Longrightarrow>
     t = ttl \<and> wo_CachePenetration options \<and> Option.bind (wo_DefaultValue options) (vo_as V) = Some v"
  by (auto simp: cw_execute_def cw_store_def split: prod.splits option.splits sum.splits if_splits)

lemma execute_not_nil:
  "\<not> vo_IsNil V x \<Longrightarrow> cw_execute V Z R E key options ttl (\<lambda>d. ((x, None), d)) d \<noteq> (CRecur v t, d')"
  by (auto simp: cw_execute_def cw_store_def split: prod.splits option.splits sum.splits if_splits)

lemma wrapper_returns:
  assumes "\<And>d. cw_lock X V Z R LK (E n) key (Combine opts no_options) d \<noteq> None"
    "\<And>ttl d d' v t. cw_execute V Z R (E n) key (Combine opts no_options) ttl cacheFunc d = (CRecur v t, d') \<Longrightarrow>
       \<forall>d''. CacheWrapper X V Z R LK E n key (\<lambda>d. ((v, None), d)) t (opts @ [\<lambda>o'. o'\<lparr>wo_Lock := None\<rparr>]) d'' \<noteq> None"
  shows "CacheWrapper X V Z R LK E (Suc n) key cacheFunc expiration opts d \<noteq> None"
  using assms(1) by (auto simp: Let_def split: option.splits prod.splits cw_next.splits dest!: assms(2) simp del: not_None_eq)

text \<open>C28: A call returns, with one call of itself at most, when the attempts at the lock end, as the context
  of the lock sees to, and the default value, if there is one of the type, is not nil.\<close>
theorem cw_returns:
  assumes "\<And>d. cw_lock X V Z R LK (E (Suc n)) key (Combine opts no_options) d \<noteq> None"
    "\<And>v. Option.bind (wo_DefaultValue (Combine opts no_options)) (vo_as V) = Some v \<Longrightarrow> \<not> vo_IsNil V v"
  shows "CacheWrapper X V Z R LK E (Suc (Suc n)) key cacheFunc expiration opts d \<noteq> None"
proof (rule wrapper_returns [where E = E and n = "Suc n", OF assms(1)])
  fix ttl d d' v t
  assume "cw_execute V Z R (E (Suc n)) key (Combine opts no_options) ttl cacheFunc d = (CRecur v t, d')"
  then have "\<not> vo_IsNil V v" using execute_default assms(2) by metis
  then have "CacheWrapper X V Z R LK E (Suc n) key (\<lambda>d. ((v, None), d)) t (opts @ [\<lambda>o'. o'\<lparr>wo_Lock := None\<rparr>]) d'' \<noteq> None" for d''
    by (intro wrapper_returns) (auto simp: cw_lock_def Combine_last dest: execute_not_nil)
  then show "\<forall>d''. CacheWrapper X V Z R LK E (Suc n) key (\<lambda>d. ((v, None), d)) t (opts @ [\<lambda>o'. o'\<lparr>wo_Lock := None\<rparr>]) d'' \<noteq> None"
    by simp
qed

lemma cw_returns_witness:
  "CacheWrapper mathx_ref demo_V demo_Z redis_ref demo_LK (\<lambda>k. demo_env 0) (Suc (Suc 0)) ''k'' (\<lambda>d. (([], None), d)) (10 * second)
     (WithCachePenetration (Some ''none'') # demo_opts) Map.empty \<noteq> None"
  by (rule cw_returns) (auto simp: cw_lock_def Combine_def demo_opts_def WithJitter_def WithCachePenetration_def no_options_def demo_V_def)

text \<open>A default value that is nil, as a nil pointer of the type is, makes the call call itself for ever.\<close>

lemma wrapper_nil_default_hangs:
  assumes "redis_law R db" "redis_up R" "db_wf (db d)" "options = Combine opts no_options" "wo_CachePenetration options"
    "Option.bind (wo_DefaultValue options) (vo_as V) = Some v" "vo_IsNil V v" "wo_Lock options = None"
    "\<And>k e. cw_expiration X (ce_rand (E k)) options e \<noteq> None"
    "\<And>d'. db_wf (db d') \<Longrightarrow> \<exists>x. fst (cacheFunc d') = (x, None) \<and> vo_IsNil V x \<and> db (snd (cacheFunc d')) = db d'" "db d key = None"
  shows "CacheWrapper X V Z R LK E n key cacheFunc expiration opts d = None"
  using assms
proof (induction n arbitrary: cacheFunc expiration opts options d)
  case (Suc n)
  note h = Suc.prems
  have o: "wo_Lock options = None \<Longrightarrow> options\<lparr>wo_Lock := None\<rparr> = options" by simp
  obtain ttl where t: "cw_expiration X (ce_rand (E n)) options expiration = Some ttl" using h(9) by blast
  obtain d1 where 1: "cw_first V Z R (E n) key options d = (None, d1)" "db_wf (db d1)" "db d1 key = None"
  proof (cases "wo_ForceRefresh options")
    case True
    obtain r d' where d: "client R (ce_get (E n)) (DEL [key]) d = (Inr (RInt r), d')" "db d' = (db d)(key := None)" "db_wf (db d')"
      by (rule del_up [OF h(1-3)])
    show thesis by (rule that [OF _ d(3)]) (simp_all add: cw_first_def d(1,2) True)
  next
    case False
    have a: "at (ce_get (E n)) (db d) key = None" using h(11) by (simp add: at_def)
    obtain d' where d: "client_str R (ce_get (E n)) (GET key) d = (Inl RedisNil, d')" "db d' = db d" "db_wf (db d')"
      by (rule get_miss [OF h(1-3) a])
    show thesis by (rule that [OF _ d(3)]) (simp_all add: cw_first_def d(1,2) False h(11))
  qed
  obtain x d2 where 2: "cacheFunc d1 = ((x, None), d2)" "vo_IsNil V x" "db d2 = db d1"
    using h(10) [OF 1(2)] by (metis prod.collapse)
  have ex: "cw_execute V Z R (E n) key options ttl cacheFunc d1 = (CRecur v ttl, d2)"
    using 2 h(5,6) by (simp add: cw_execute_def)
  have "CacheWrapper X V Z R LK E n key (\<lambda>d. ((v, None), d)) ttl (opts @ [\<lambda>o'. o'\<lparr>wo_Lock := None\<rparr>]) d2 = None"
    by (rule Suc.IH [where options = options and d = d2, OF h(1,2) _ _ h(5-8,9)])
      (use 1 2 h(4,7) o [OF h(8)] in \<open>auto simp: Combine_last\<close>)
  then show ?case using t 1(1) ex h(8) by (simp add: h(4) [symmetric] Let_def cw_lock_def)
qed simp

section \<open>The time to live\<close>

text \<open>The jitter moves the time to live by at most its range, the duration times the percentage as the
  code rounds it; a result below a second becomes a second.\<close>
theorem cw_ttl_bounds:
  assumes "mathx_laws X" "\<And>n. 0 < n \<Longrightarrow> 0 \<le> rnd n \<and> rnd n < n" "cw_expiration X rnd options expiration = Some ttl"
    "actual = (case wo_TTLOverride options of None \<Rightarrow> expiration | Some t \<Rightarrow> t)"
    "percent = (case wo_JitterPercent options of None \<Rightarrow> f0_005 | Some p \<Rightarrow> p)" "float_pos percent"
    "jitter = int_of_float (float_mult (float_of_int actual) percent)" "0 \<le> actual" "actual + jitter \<le> max_int64"
  shows "second \<le> ttl \<and> (ttl = second \<or> \<bar>ttl - actual\<bar> \<le> jitter) \<and> ttl \<le> max second (actual + jitter)"
proof -
  let ?jr = "float_mult (float_of_int actual) percent"
  let ?n = "int_of_float (float_mult ?jr (Float 2 0))"
  have p: "0 \<le> mant (float_of_int actual) * mant percent"
    using assms(6,8) by (simp add: float_of_int_def round53_nonneg float_pos_def)
  then have jr: "0 \<le> mant ?jr" "mant ?jr \<le> 2 ^ 53" using round53_nonneg [OF p] round53_mant [OF p] by (simp_all add: float_mult_def)
  have n: "?n \<le> 2 * jitter + 1" using int_of_float_double [OF jr] assms(7) by simp
  have j: "0 \<le> jitter" using int_of_float_nonneg [OF jr(1)] assms(7) by simp
  have pos: "0 < ?n" and ttl: "ttl = IfClamp X (wrap64 (actual + (rnd ?n - jitter))) second max_int64"
    using assms(3) assms(6) by (auto simp: cw_expiration_def Let_def assms(4,5,7) split: if_splits)
  have r: "- jitter \<le> rnd ?n - jitter" "rnd ?n - jitter \<le> jitter" using assms(2) [OF pos] n by auto
  then have "in_int64 (actual + (rnd ?n - jitter))"
    using assms(8,9) j by (auto simp: in_int64_def min_int64_def max_int64_def)
  then have "ttl = (if actual + (rnd ?n - jitter) < second then second else actual + (rnd ?n - jitter))"
    using ttl assms(9) r by (auto simp: mathx_lawsD(3) [OF assms(1)] wrap64_id)
  then show ?thesis using r by auto
qed

lemma demo_jitter: "float_mult (float_of_int 1000000000000) f0_005 = Float 5242880000000000 (-20)"
    "float_mult (Float 5242880000000000 (-20)) (Float 2 0) = Float 5242880000000000 (-19)"
  by (simp_all add: f0_005_def float_of_int_def float_mult_def round53_def bit_len.simps half_even_def)

lemma cw_ttl_bounds_witness:
  "second \<le> 997 * second \<and> (997 * second = second \<or> \<bar>997 * second - 1000000000000\<bar> \<le> 5 * second) \<and> 997 * second \<le> max second (1000000000000 + 5 * second)"
  by (rule cw_ttl_bounds [where X = mathx_ref and rnd = "\<lambda>n. if 2 * second < n then 2 * second else 0" and options = no_options and expiration = "1000000000000"
        and percent = f0_005, OF mathx_ref_laws])
    (simp_all add: cw_expiration_def no_options_def mathx_ref_def Let_def demo_jitter float_pos_def int_of_float_def second_def max_int64_def
      wrap64_id in_int64_def min_int64_def f0_005_def [THEN arg_cong [where f = mant]])

text \<open>Without a positive duration the range is empty, for which \<open>rand.Int63n\<close> panics.\<close>

lemma cw_expiration_panics:
  assumes "wo_TTLOverride options = None" "wo_JitterPercent options = None" "expiration \<le> 0"
  shows "cw_expiration X rnd options expiration = None"
proof -
  have "mant (float_of_int expiration) \<le> 0" using assms(3) by (simp add: float_of_int_def round53_nonpos)
  then have "mant (float_mult (float_of_int expiration) f0_005) \<le> 0"
    by (simp add: float_mult_def f0_005_def round53_nonpos mult_le_0_iff)
  then have "mant (float_mult (float_mult (float_of_int expiration) f0_005) (Float 2 0)) \<le> 0"
    unfolding float_mult_def [of _ "Float 2 0"] by (intro round53_nonpos) (simp add: mult_le_0_iff)
  then have "int_of_float (float_mult (float_mult (float_of_int expiration) f0_005) (Float 2 0)) \<le> 0" by (rule int_of_float_nonpos)
  then show ?thesis using assms(1,2) by (simp add: cw_expiration_def Let_def float_pos_def f0_005_def)
qed

end
