(* ===== verification/Cache_Index.thy ===== *)
theory Cache_Index
  imports Redis_Types Wrapper_Correct
begin

text \<open>
  \<open>CacheIndexManager\<close> and \<open>IndexGroup\<close> of \<open>cache_index.go\<close>: cache keys are registered in Redis sets, and a
  script deletes all keys of a set with it. \<open>CacheWrapperWithIndex\<close> registers its key at every call.
  A deletion takes away exactly the registered keys, as a whole or not at all; the second write of a
  wrapper brings a key back that no index knows.
\<close>

section \<open>The script\<close>

fun lua_del_members :: "string list \<Rightarrow> int \<Rightarrow> (int \<Rightarrow> 'a lua) \<Rightarrow> 'a lua" where
  "lua_del_members [] deleted k = k deleted"
| "lua_del_members (key # members) deleted k = Call (DEL [key]) (\<lambda>_. lua_del_members members (deleted + 1) k)"

fun luaDeleteByIndexSet :: "string list \<Rightarrow> int \<Rightarrow> int lua" where
  "luaDeleteByIndexSet [] deleted = Return deleted"
| "luaDeleteByIndexSet (key # KEYS) deleted =
     Call (SMEMBERS key) (\<lambda>members.
     lua_del_members (arr_of members) deleted (\<lambda>deleted.
     Call (DEL [key]) (\<lambda>_. luaDeleteByIndexSet KEYS deleted)))"

section \<open>The manager\<close>

record 'd CacheIndexManager =
  im_client :: "'d redis option"

definition NewCacheIndexManager :: "'d redis option \<Rightarrow> 'd CacheIndexManager" where
  "NewCacheIndexManager cl = \<lparr>im_client = cl\<rparr>"

definition im_Register :: "time \<Rightarrow> 'd CacheIndexManager \<Rightarrow> string \<Rightarrow> string list \<Rightarrow> 'd \<Rightarrow> 'd" where
  "im_Register now m idxKey cacheKeys d =
     (case im_client m of
        None \<Rightarrow> d
      | Some R \<Rightarrow> if idxKey = [] \<or> cacheKeys = [] then d else snd (client R now (SADD idxKey cacheKeys) d))"

definition DeleteByIndex :: "time \<Rightarrow> 'd CacheIndexManager \<Rightarrow> string list \<Rightarrow> 'd \<Rightarrow> int go_result \<times> 'd" where
  "DeleteByIndex now m idxKeys d =
     (case im_client m of
        None \<Rightarrow> (Inr 0, d)
      | Some R \<Rightarrow> if idxKeys = [] then (Inr 0, d) else eval R now (luaDeleteByIndexSet idxKeys 0) d)"

definition DeleteByKeys :: "time \<Rightarrow> 'd CacheIndexManager \<Rightarrow> string list \<Rightarrow> 'd \<Rightarrow> go_error option \<times> 'd" where
  "DeleteByKeys now m keys d =
     (case im_client m of
        None \<Rightarrow> (None, d)
      | Some R \<Rightarrow> if keys = [] then (None, d) else client_err R now (DEL keys) d)"

definition GetIndexMembers :: "time \<Rightarrow> 'd CacheIndexManager \<Rightarrow> string \<Rightarrow> 'd \<Rightarrow> string list go_result \<times> 'd" where
  "GetIndexMembers now m idxKey d =
     (case im_client m of
        None \<Rightarrow> (Inr [], d)
      | Some R \<Rightarrow> if idxKey = [] then (Inr [], d) else client_arr R now (SMEMBERS idxKey) d)"

record 'd IndexGroup =
  ig_manager :: "'d CacheIndexManager"
  ig_idxKeys :: "string list"

definition NewIndexGroup :: "'d CacheIndexManager \<Rightarrow> string list \<Rightarrow> 'd IndexGroup" where
  "NewIndexGroup m idxKeys = \<lparr>ig_manager = m, ig_idxKeys = idxKeys\<rparr>"

definition ig_Delete :: "time \<Rightarrow> 'd IndexGroup \<Rightarrow> 'd \<Rightarrow> int go_result \<times> 'd" where
  "ig_Delete now g d = DeleteByIndex now (ig_manager g) (ig_idxKeys g) d"

definition IndexKeys :: "'d IndexGroup \<Rightarrow> string list" where
  "IndexKeys g = ig_idxKeys g"

definition AddIndexKeys :: "string list \<Rightarrow> 'd IndexGroup \<Rightarrow> 'd IndexGroup" where
  "AddIndexKeys keys g = g\<lparr>ig_idxKeys := ig_idxKeys g @ keys\<rparr>"

text \<open>\<open>now\<close> is the clock at the registration.\<close>

definition CacheWrapperWithIndex ::
  "mathx \<Rightarrow> ('a, 'v) value_ops \<Rightarrow> zipx \<Rightarrow> time \<Rightarrow> 'd CacheIndexManager option \<Rightarrow> string \<Rightarrow> 'd redis \<Rightarrow> 'd redis_lock \<Rightarrow> (nat \<Rightarrow> 'd call_env) \<Rightarrow> nat \<Rightarrow>
   string \<Rightarrow> ('a, 'd) cache_func \<Rightarrow> duration \<Rightarrow> 'v CacheOption list \<Rightarrow> 'd \<Rightarrow> (('a \<times> go_error option) \<times> 'v cw_task list \<times> 'd) option" where
  "CacheWrapperWithIndex X V Z now manager idxKey R LK E n key cacheFunc expiration opts d =
     (let d1 = (case manager of None \<Rightarrow> d | Some m \<Rightarrow> if idxKey \<noteq> [] then im_Register now m idxKey [key] d else d)
      in CacheWrapper X V Z R LK E n key cacheFunc expiration opts d1)"

section \<open>Deleting by index\<close>

text \<open>The members of an index, and that a key is an index or free.\<close>

definition members :: "time \<Rightarrow> redis_db \<Rightarrow> string \<Rightarrow> string list" where
  "members now db k = (case at now db k of Some (VSet s) \<Rightarrow> s | _ \<Rightarrow> [])"

definition is_index :: "time \<Rightarrow> redis_db \<Rightarrow> string \<Rightarrow> bool" where
  "is_index now db k \<longleftrightarrow> at now db k = None \<or> (\<exists>s. at now db k = Some (VSet s))"

definition without :: "string set \<Rightarrow> redis_db \<Rightarrow> redis_db" where
  "without K db = (\<lambda>k. if k \<in> K then None else db k)"

lemma without_simps [simp]: "without K (without K' db) = without (K \<union> K') db" "without {} db = db"
  "k \<in> K \<Longrightarrow> at now (without K db) k = None" "k \<notin> K \<Longrightarrow> at now (without K db) k = at now db k"
  by (auto simp: without_def at_def)

lemma del_do: "redis_do now (DEL [k]) db = (RInt (int (length (filter (\<lambda>k. at now db k \<noteq> None) [k]))), without {k} db)"
  by (simp add: redis_do_simps without_def)

lemma smembers_do: "is_index now db k \<Longrightarrow> redis_do now (SMEMBERS k) db = (RArr (members now db k), db)"
  by (auto simp: redis_do_simps is_index_def members_def on_set_def)

lemma run_del_members:
  "run_db now (lua_del_members ms n k) db = run_db now (k (n + int (length ms))) (without (set ms) db)"
  by (induction ms arbitrary: n db) (simp_all add: del_do ac_simps)

lemma run_delete_by_index:
  assumes "distinct ks" "\<And>k. k \<in> set ks \<Longrightarrow> is_index now db k" "\<And>k. k \<in> set ks \<Longrightarrow> set (members now db k) \<inter> set ks = {}"
  shows "run_db now (luaDeleteByIndexSet ks n) db =
    (Inr (n + int (sum_list (map (\<lambda>k. length (members now db k)) ks))), without (set ks \<union> (\<Union>k\<in>set ks. set (members now db k))) db)"
  using assms
proof (induction ks arbitrary: n db)
  case (Cons k ks)
  let ?db = "without (insert k (set (members now db k))) db"
  have o: "k' \<notin> insert k (set (members now db k))" if "k' \<in> set ks" for k' using Cons.prems(1,3) that by auto
  have eq: "is_index now ?db k' = is_index now db k'" "members now ?db k' = members now db k'" if "k' \<in> set ks" for k'
    using o [OF that] by (simp_all add: is_index_def members_def)
  have "run_db now (luaDeleteByIndexSet ks m) ?db =
     (Inr (m + int (sum_list (map (\<lambda>k. length (members now ?db k)) ks))), without (set ks \<union> (\<Union>k\<in>set ks. set (members now ?db k))) ?db)" for m
    by (rule Cons.IH) (use Cons.prems eq in auto)
  moreover have "map (\<lambda>k. length (members now ?db k)) ks = map (\<lambda>k. length (members now db k)) ks"
    "(\<Union>k\<in>set ks. set (members now ?db k)) = (\<Union>k\<in>set ks. set (members now db k))" using eq(2) by (auto intro: map_cong SUP_cong)
  moreover have "run_db now (luaDeleteByIndexSet (k # ks) n) db = run_db now (luaDeleteByIndexSet ks (n + int (length (members now db k)))) ?db"
    using Cons.prems(2) [of k] by (simp add: smembers_do run_del_members del_do)
  ultimately show ?case by (simp add: ac_simps Un_left_commute del: run_db.simps luaDeleteByIndexSet.simps)
qed simp

text \<open>C14: A deletion by index takes away the indexes and exactly the keys they hold, as a whole or not at all;
  when it returns without an error it has done so, and counts the members.\<close>
theorem idx_delete_atomic:
  assumes "redis_law R db" "db_wf (db d)" "im_client m = Some R" "ks \<noteq> []" "distinct ks" "\<And>k. k \<in> set ks \<Longrightarrow> is_index now (db d) k"
    "\<And>k. k \<in> set ks \<Longrightarrow> set (members now (db d) k) \<inter> set ks = {}" "DeleteByIndex now m ks d = (r, d')"
  shows "db d' = db d \<and> isl r \<or>
     db d' = without (set ks \<union> (\<Union>k\<in>set ks. set (members now (db d) k))) (db d) \<and>
       (isl r \<or> r = Inr (int (sum_list (map (\<lambda>k. length (members now (db d) k)) ks))))"
proof -
  have e: "eval R now (luaDeleteByIndexSet ks 0) d = (r, d')" using assms(3,4,8) by (simp add: DeleteByIndex_def)
  have run: "run_db now (luaDeleteByIndexSet ks 0) (db d) = (Inr (int (\<Sum>k\<leftarrow>ks. length (members now (db d) k))),
      without (set ks \<union> (\<Union>k\<in>set ks. set (members now (db d) k))) (db d))"
    using run_delete_by_index [OF assms(5-7), where n = 0] by simp
  show ?thesis
  proof (cases rule: eval_any [OF assms(1,2) e, case_names lost silent answered])
    case (silent err)
    then show ?thesis unfolding run by simp
  next
    case answered
    then show ?thesis unfolding run by simp
  qed simp
qed

lemma idx_delete_up:
  assumes "redis_law R db" "redis_up R" "db_wf (db d)" "im_client m = Some R" "is_index now (db d) k" "k \<notin> set (members now (db d) k)"
  obtains d' where "DeleteByIndex now m [k] d = (Inr (int (length (members now (db d) k))), d')"
    "db d' = without (insert k (set (members now (db d) k))) (db d)" "db_wf (db d')"
proof -
  have "run_db now (luaDeleteByIndexSet [k] 0) (db d) =
      (Inr (0 + int (\<Sum>k\<leftarrow>[k]. length (members now (db d) k))), without (set [k] \<union> (\<Union>k\<in>set [k]. set (members now (db d) k))) (db d))"
    by (rule run_delete_by_index) (use assms(5,6) in auto)
  then have run: "run_db now (luaDeleteByIndexSet [k] 0) (db d) =
      (Inr (int (length (members now (db d) k))), without (insert k (set (members now (db d) k))) (db d))" by (simp del: luaDeleteByIndexSet.simps)
  show thesis
    by (rule eval_up [OF assms(1-3), of now "luaDeleteByIndexSet [k] 0"]) (use that in \<open>auto simp: DeleteByIndex_def assms(4) run simp del: luaDeleteByIndexSet.simps\<close>)
qed

text \<open>The second write of a wrapper whose key was deleted by its index in the meantime caches the value
  again; the index is gone, so that the next deletion by it does not reach the key, which stays for its
  whole time to live.\<close>
theorem idx_deleted_comes_back:
  assumes "redis_law R db" "redis_up R" "db_wf (db d)" "im_client m = Some R" "is_index t (db d) idx" "key \<in> set (members t (db d) idx)"
    "idx \<notin> set (members t (db d) idx)" "\<And>d'. db (wait 0 d') = db d'"
  shows "\<exists>d1 d2 d3. DeleteByIndex t m [idx] d = (Inr (int (length (members t (db d) idx))), d1) \<and> db d1 key = None \<and>
           cw_run_task R now tm wait (TAgain key c ttl :: 'v cw_task) d1 = ([], d2) \<and>
           DeleteByIndex t' m [idx] d2 = (Inr 0, d3) \<and> written (db d3) key c (tm 0) ttl"
proof -
  obtain d1 where 1: "DeleteByIndex t m [idx] d = (Inr (int (length (members t (db d) idx))), d1)"
    "db d1 = without (insert idx (set (members t (db d) idx))) (db d)" "db_wf (db d1)"
    by (rule idx_delete_up [OF assms(1-5,7)])
  obtain d2 where 2: "cw_run_task R now tm wait (TAgain key c ttl :: 'v cw_task) d1 = ([], d2)" "db d2 = set_str (tm 0) key c ttl (db d1)" "db_wf (db d2)"
    by (rule again_alone [where db = db and d = d1 and wait = wait, OF assms(1,2) 1(3) assms(8)])
  have ne: "key \<noteq> idx" using assms(6,7) by blast
  have a: "at t' (db d2) idx = None" unfolding 2(2) 1(2) using ne by (simp add: set_str_def without_def at_def)
  then have i: "is_index t' (db d2) idx" "members t' (db d2) idx = []" by (simp_all add: is_index_def members_def)
  obtain d3 where 3: "DeleteByIndex t' m [idx] d2 = (Inr (int (length (members t' (db d2) idx))), d3)"
    "db d3 = without (insert idx (set (members t' (db d2) idx))) (db d2)"
    by (rule idx_delete_up [OF assms(1,2) 2(3) assms(4) i(1)]) (simp_all add: i(2))
  have "db d3 = without {idx} (db d2)" using 3(2) i(2) by simp
  then have w: "written (db d3) key c (tm 0) ttl" using ne by (simp add: 2(2) written_def without_def set_str_def)
  have n: "db d1 key = None" unfolding 1(2) using assms(6) by (simp add: without_def)
  have z: "DeleteByIndex t' m [idx] d2 = (Inr 0, d3)" using 3(1) i(2) by simp
  show ?thesis by (rule exI [of _ d1], rule exI [of _ d2], rule exI [of _ d3]) (intro conjI 1(1) n 2(1) z w)
qed

definition demo_index :: redis_db where
  "demo_index = [''i'' \<mapsto> (VSet [''a'', ''k''], None), ''k'' \<mapsto> (VStr ''x'', None)]"

lemma demo_index_simps: "db_wf demo_index" "is_index t demo_index ''i''" "members t demo_index ''i'' = [''a'', ''k'']"
  by (auto simp: demo_index_def db_wf_def is_index_def members_def at_def split: if_splits)

lemma idx_delete_atomic_witness:
  "\<exists>r d'. DeleteByIndex 0 (NewCacheIndexManager (Some redis_ref)) [''i''] demo_index = (r, d') \<and>
     (d' = demo_index \<and> isl r \<or> d' = without {''i'', ''a'', ''k''} demo_index \<and> (isl r \<or> r = Inr 2))"
proof -
  obtain r d' where e: "DeleteByIndex 0 (NewCacheIndexManager (Some redis_ref)) [''i''] demo_index = (r, d')" by fastforce
  show ?thesis
    using idx_delete_atomic [where db = id and d = demo_index, OF redis_ref_law(1) _ _ _ _ _ _ e] e
    by (simp add: NewCacheIndexManager_def demo_index_simps insert_commute)
qed

lemma idx_deleted_comes_back_witness:
  "\<exists>d1 d2 d3. DeleteByIndex 0 (NewCacheIndexManager (Some redis_ref)) [''i''] demo_index = (Inr 2, d1) \<and> d1 ''k'' = None \<and>
     cw_run_task redis_ref 1 (\<lambda>n. 1) (\<lambda>n d. d) (TAgain ''k'' ''x'' 10 :: string cw_task) d1 = ([], d2) \<and>
     DeleteByIndex 5 (NewCacheIndexManager (Some redis_ref)) [''i''] d2 = (Inr 0, d3) \<and> written d3 ''k'' ''x'' 1 10"
  using idx_deleted_comes_back [where db = id and d = demo_index and t = 0 and t' = 5 and idx = "''i''" and key = "''k''" and wait = "\<lambda>n d. d" and now = 1
      and tm = "\<lambda>n. 1" and c = "''x''" and ttl = 10 and m = "NewCacheIndexManager (Some redis_ref)", OF redis_ref_law]
  by (simp add: NewCacheIndexManager_def demo_index_simps)

end
