(* ===== verification/Resource_Version.thy ===== *)
theory Resource_Version
  imports Redis Decimal
begin

text \<open>
  \<open>VersionTracker\<close> of \<open>resource_version.go\<close>: a number for each resource in Redis, by which nodes see that
  the resource has changed. \<open>now\<close> is the server's clock at a command, \<open>ts\<close> the local clock that a new
  version is taken from. Every node sees every update; two nodes that create a version at the same
  time can come back with different ones.
\<close>

section \<open>Numbers\<close>

text \<open>The errors of \<open>strconv.ParseInt\<close>; with a range error it returns the nearest number.\<close>

definition ErrSyntax :: go_error where "ErrSyntax = ExtError 31"
definition ErrRange :: go_error where "ErrRange = ExtError 32"

definition ParseInt :: "string \<Rightarrow> int \<times> go_error option" where
  "ParseInt s =
     (case scan_int s of
        None \<Rightarrow> (0, Some ErrSyntax)
      | Some i \<Rightarrow> if in_int64 i then (i, None) else (if i < 0 then min_int64 else max_int64, Some ErrRange))"

section \<open>The tracker\<close>

record 'd VersionTracker =
  vt_redisClient :: "'d redis option"
  vt_prefix :: string

definition NewVersionTracker :: "mathx \<Rightarrow> 'd redis option \<Rightarrow> string \<Rightarrow> 'd VersionTracker" where
  "NewVersionTracker X redisClient prefix = \<lparr>vt_redisClient = redisClient, vt_prefix = IfNotEmpty X prefix ''cachex:version:''\<rparr>"

definition GetVersionKey :: "'d VersionTracker \<Rightarrow> string \<Rightarrow> string" where
  "GetVersionKey v resourceID = vt_prefix v @ resourceID"

definition UpdateVersion :: "time \<Rightarrow> 'd VersionTracker \<Rightarrow> string \<Rightarrow> int \<Rightarrow> 'd \<Rightarrow> go_error option \<times> 'd" where
  "UpdateVersion now v resourceID version d =
     (case vt_redisClient v of
        None \<Rightarrow> (None, d)
      | Some R \<Rightarrow> client_err R now (SET (GetVersionKey v resourceID) (show_int version) 0) d)"

definition nowTimestamp :: "time \<Rightarrow> int" where "nowTimestamp ts = ts"

definition UpdateVersionWithNow :: "time \<Rightarrow> time \<Rightarrow> 'd VersionTracker \<Rightarrow> string \<Rightarrow> 'd \<Rightarrow> go_error option \<times> 'd" where
  "UpdateVersionWithNow now ts v resourceID d = UpdateVersion now v resourceID (nowTimestamp ts) d"

text \<open>The version and the error, both of which the callers use.\<close>

definition GetVersion :: "time \<Rightarrow> 'd VersionTracker \<Rightarrow> string \<Rightarrow> 'd \<Rightarrow> (int \<times> go_error option) \<times> 'd" where
  "GetVersion now v resourceID d =
     (case vt_redisClient v of
        None \<Rightarrow> ((0, Some ErrUnavailable), d)
      | Some R \<Rightarrow>
          (case client_str R now (GET (GetVersionKey v resourceID)) d of
             (Inl err, d') \<Rightarrow> ((0, Some (if err = RedisNil then ErrNotFound else err)), d')
           | (Inr val, d') \<Rightarrow> (ParseInt val, d')))"

definition HasChanged :: "time \<Rightarrow> 'd VersionTracker \<Rightarrow> string \<Rightarrow> int \<Rightarrow> 'd \<Rightarrow> (bool \<times> int) \<times> 'd" where
  "HasChanged now v resourceID lastVersion d =
     (case vt_redisClient v of
        None \<Rightarrow> ((True, 0), d)
      | Some R \<Rightarrow>
          (case GetVersion now v resourceID d of
             ((currentVersion, Some err), d') \<Rightarrow> (if err = ErrNotFound then (True, 0) else (True, currentVersion), d')
           | ((currentVersion, None), d') \<Rightarrow> (if currentVersion \<noteq> lastVersion then (True, currentVersion) else (False, currentVersion), d')))"

section \<open>Several resources\<close>

text \<open>
  A pipeline sends its commands in one message; between two of them the server may serve others
  (\<open>others\<close>, by the number of commands left). The first error is the result.
\<close>

fun pipe_run :: "'d redis \<Rightarrow> time \<Rightarrow> (nat \<Rightarrow> 'd \<Rightarrow> 'd) \<Rightarrow> redis_cmd list \<Rightarrow> 'd \<Rightarrow> unit go_result \<times> 'd" where
  "pipe_run R now others [] d = (Inr (), d)"
| "pipe_run R now others (c # cs) d =
     (case rd_call R now c d of
        (r, d1) \<Rightarrow>
          (case pipe_run R now others cs (others (length cs) d1) of
             (res, d2) \<Rightarrow> (if r = RWrongType then Inl WrongType else res, d2)))"

definition pipe_Exec :: "'d redis \<Rightarrow> time \<Rightarrow> (nat \<Rightarrow> 'd \<Rightarrow> 'd) \<Rightarrow> redis_cmd list \<Rightarrow> 'd \<Rightarrow> go_error option \<times> 'd" where
  "pipe_Exec R now others cmds d =
     (if cmds = [] then (None, d)
      else (case deliver (rd_net R d) (pipe_run R now others cmds) d of (r, d') \<Rightarrow> (err_of r, d')))"

definition BatchUpdateVersion ::
  "time \<Rightarrow> (nat \<Rightarrow> 'd \<Rightarrow> 'd) \<Rightarrow> 'd VersionTracker \<Rightarrow> string list \<Rightarrow> int \<Rightarrow> 'd \<Rightarrow> go_error option \<times> 'd" where
  "BatchUpdateVersion now others v resourceIDs version d =
     (case vt_redisClient v of
        None \<Rightarrow> (None, d)
      | Some R \<Rightarrow> pipe_Exec R now others (map (\<lambda>resourceID. SET (GetVersionKey v resourceID) (show_int version) 0) resourceIDs) d)"

definition BatchUpdateVersionWithNow ::
  "time \<Rightarrow> time \<Rightarrow> (nat \<Rightarrow> 'd \<Rightarrow> 'd) \<Rightarrow> 'd VersionTracker \<Rightarrow> string list \<Rightarrow> 'd \<Rightarrow> go_error option \<times> 'd" where
  "BatchUpdateVersionWithNow now ts others v resourceIDs d = BatchUpdateVersion now others v resourceIDs (nowTimestamp ts) d"

definition DeleteVersion :: "time \<Rightarrow> 'd VersionTracker \<Rightarrow> string \<Rightarrow> 'd \<Rightarrow> go_error option \<times> 'd" where
  "DeleteVersion now v resourceID d =
     (case vt_redisClient v of None \<Rightarrow> (None, d) | Some R \<Rightarrow> client_err R now (DEL [GetVersionKey v resourceID]) d)"

text \<open>\<open>DEL\<close> without a key is an error of the server.\<close>

definition DeleteVersions :: "time \<Rightarrow> go_error \<Rightarrow> 'd VersionTracker \<Rightarrow> string list \<Rightarrow> 'd \<Rightarrow> go_error option \<times> 'd" where
  "DeleteVersions now wrongArgs v resourceIDs d =
     (case vt_redisClient v of
        None \<Rightarrow> (None, d)
      | Some R \<Rightarrow>
          let keys = map (GetVersionKey v) resourceIDs
          in if keys = [] then (case deliver (rd_net R d) (\<lambda>d. (Inl wrongArgs :: unit go_result, d)) d of (r, d') \<Rightarrow> (err_of r, d'))
             else client_err R now (DEL keys) d)"

section \<open>Get or create\<close>

text \<open>The two halves of the function: the lookup, and what follows when there was no version.\<close>

definition create_version :: "time \<Rightarrow> time \<Rightarrow> 'd VersionTracker \<Rightarrow> string \<Rightarrow> 'd \<Rightarrow> (int \<times> go_error option) \<times> 'd" where
  "create_version now ts v resourceID d =
     (let newVersion = nowTimestamp ts
      in (case UpdateVersion now v resourceID newVersion d of
            (Some setErr, d') \<Rightarrow> ((0, Some setErr), d')
          | (None, d') \<Rightarrow> ((newVersion, None), d')))"

definition GetOrCreateVersion ::
  "time \<Rightarrow> ('d \<Rightarrow> 'd) \<Rightarrow> time \<Rightarrow> time \<Rightarrow> 'd VersionTracker \<Rightarrow> string \<Rightarrow> 'd \<Rightarrow> (int \<times> go_error option) \<times> 'd" where
  "GetOrCreateVersion now meanwhile now' ts v resourceID d =
     (if vt_redisClient v = None then ((nowTimestamp ts, None), d)
      else (case GetVersion now v resourceID d of
              ((currentVersion, None), d') \<Rightarrow> ((currentVersion, None), d')
            | ((currentVersion, Some err), d') \<Rightarrow>
                if err = ErrNotFound then create_version now' ts v resourceID (meanwhile d') else ((0, Some err), d')))"

definition vt_Touch :: "time \<Rightarrow> time \<Rightarrow> 'd VersionTracker \<Rightarrow> string \<Rightarrow> 'd \<Rightarrow> go_error option \<times> 'd" where
  "vt_Touch now ts v resourceID d = UpdateVersionWithNow now ts v resourceID d"

definition TouchAll :: "time \<Rightarrow> time \<Rightarrow> (nat \<Rightarrow> 'd \<Rightarrow> 'd) \<Rightarrow> 'd VersionTracker \<Rightarrow> string list \<Rightarrow> 'd \<Rightarrow> go_error option \<times> 'd" where
  "TouchAll now ts others v resourceIDs d = BatchUpdateVersionWithNow now ts others v resourceIDs d"

section \<open>What the nodes see\<close>

lemma ParseInt_show: "in_int64 i \<Longrightarrow> ParseInt (show_int i) = (i, None)"
  by (simp add: ParseInt_def)

definition version_is :: "redis_db \<Rightarrow> 'd VersionTracker \<Rightarrow> string \<Rightarrow> int \<Rightarrow> bool" where
  "version_is db v resourceID w \<longleftrightarrow> db (GetVersionKey v resourceID) = Some (VStr (show_int w), None)"

lemma set_version_up:
  assumes "redis_law R db" "redis_up R" "db_wf (db d)" "vt_redisClient v = Some R"
  obtains d' where "UpdateVersion now v resourceID w d = (None, d')"
    "db d' = (db d)(GetVersionKey v resourceID \<mapsto> (VStr (show_int w), None))" "db_wf (db d')"
proof -
  have r: "redis_do now (SET (GetVersionKey v resourceID) (show_int w) 0) (db d) =
      (ROk, (db d)(GetVersionKey v resourceID \<mapsto> (VStr (show_int w), None)))" by (simp add: redis_do_simps set_str_def)
  obtain d' where c: "client R now (SET (GetVersionKey v resourceID) (show_int w) 0) d = (Inr ROk, d')"
    "db d' = (db d)(GetVersionKey v resourceID \<mapsto> (VStr (show_int w), None))" "db_wf (db d')"
    by (rule client_up [OF assms(1-3) r]; (erule (2) that | simp))
  show thesis by (rule that [OF _ c(2,3)]) (simp add: UpdateVersion_def assms(4) client_err_def c(1))
qed

lemma get_version_up:
  assumes "redis_law R db" "redis_up R" "db_wf (db d)" "vt_redisClient v = Some R" "version_is (db d) v resourceID w" "in_int64 w"
  obtains d' where "GetVersion now v resourceID d = ((w, None), d')" "db d' = db d" "db_wf (db d')"
proof -
  have r: "redis_do now (GET (GetVersionKey v resourceID)) (db d) = (RBulk (show_int w), db d)"
    using assms(5) by (simp add: redis_do_simps on_str_def at_def version_is_def)
  show thesis
    by (rule client_up [OF assms(1-3) r]) (auto intro: that simp: GetVersion_def assms(4) client_str_def ParseInt_show [OF assms(6)])
qed

lemma get_version_none:
  assumes "redis_law R db" "redis_up R" "db_wf (db d)" "vt_redisClient v = Some R" "db d (GetVersionKey v resourceID) = None"
  obtains d' where "GetVersion now v resourceID d = ((0, Some ErrNotFound), d')" "db d' = db d" "db_wf (db d')"
proof -
  have r: "redis_do now (GET (GetVersionKey v resourceID)) (db d) = (RNil, db d)"
    using assms(5) by (simp add: redis_do_simps on_str_def at_def)
  show thesis
    by (rule client_up_nil [OF assms(1-3) r]) (auto intro: that simp: GetVersion_def assms(4) client_str_def)
qed

lemma has_changed_up:
  assumes "redis_law R db" "redis_up R" "db_wf (db d)" "vt_redisClient v = Some R" "version_is (db d) v resourceID w" "in_int64 w"
  shows "\<exists>d'. HasChanged now v resourceID lastVersion d = ((w \<noteq> lastVersion, w), d') \<and> db d' = db d"
proof -
  obtain d' where "GetVersion now v resourceID d = ((w, None), d')" "db d' = db d" by (rule get_version_up [OF assms])
  then show ?thesis using assms(4) by (simp add: HasChanged_def)
qed

text \<open>An update is seen by every node with the same prefix: \<open>HasChanged\<close> gives the new version and says
  whether it differs from the one last seen; other keys keep their versions.\<close>
theorem vt_update_seen:
  assumes "redis_law R db" "redis_up R" "db_wf (db d)" "vt_redisClient v = Some R" "vt_redisClient v' = Some R" "vt_prefix v' = vt_prefix v"
    "in_int64 w"
  shows "\<exists>d1 d2. UpdateVersion now v resourceID w d = (None, d1) \<and> HasChanged now' v' resourceID lastVersion d1 = ((w \<noteq> lastVersion, w), d2) \<and>
           db d2 = (db d)(vt_prefix v @ resourceID \<mapsto> (VStr (show_int w), None))"
proof -
  obtain d1 where 1: "UpdateVersion now v resourceID w d = (None, d1)"
    "db d1 = (db d)(GetVersionKey v resourceID \<mapsto> (VStr (show_int w), None))" "db_wf (db d1)" by (rule set_version_up [OF assms(1-4)])
  have "version_is (db d1) v' resourceID w" using 1(2) assms(6) by (simp add: version_is_def GetVersionKey_def)
  from has_changed_up [OF assms(1,2) 1(3) assms(5) this assms(7), of now' lastVersion]
  show ?thesis using 1(1) unfolding 1(2) GetVersionKey_def by blast
qed

text \<open>A batch without interference is the updates one after the other.\<close>

lemma pipe_set_db:
  assumes "redis_law R db" "db_wf (db d)" "pipe_run R now (\<lambda>n d. d) (map (\<lambda>i. SET (key i) val 0) ids) d = (r, d')"
  shows "r = Inr () \<and> db d' = fold (\<lambda>i db. db(key i \<mapsto> (VStr val, None))) ids (db d) \<and> db_wf (db d')"
  using assms(2,3)
proof (induction ids arbitrary: d r)
  case (Cons i ids)
  obtain x d1 where 1: "rd_call R now (SET (key i) val 0) d = (x, d1)" by (cases "rd_call R now (SET (key i) val 0) d")
  note call = redis_call [OF assms(1) Cons.prems(1) 1]
  have x: "x = ROk" "db d1 = (db d)(key i \<mapsto> (VStr val, None))" using call(1) by (simp_all add: redis_do_simps set_str_def)
  obtain res where "pipe_run R now (\<lambda>n d. d) (map (\<lambda>i. SET (key i) val 0) ids) d1 = (res, d')" "r = res"
    using Cons.prems(2) 1 x(1) by (auto split: prod.splits)
  then have "r = Inr () \<and> db d' = fold (\<lambda>i db. db(key i \<mapsto> (VStr val, None))) ids (db d1) \<and> db_wf (db d')"
    using Cons.IH [OF call(2)] by blast
  then show ?case unfolding x(2) fold_simps list.map by blast
qed simp

lemma vt_batch_is_updates:
  assumes "redis_law R db" "redis_up R" "db_wf (db d)" "vt_redisClient v = Some R" "ids \<noteq> []"
  shows "\<exists>d'. BatchUpdateVersion now (\<lambda>n d. d) v ids w d = (None, d') \<and>
           db d' = fold (\<lambda>i db. db(GetVersionKey v i \<mapsto> (VStr (show_int w), None))) ids (db d)"
proof -
  obtain r d' where 1: "pipe_run R now (\<lambda>n d. d) (map (\<lambda>i. SET (GetVersionKey v i) (show_int w) 0) ids) d = (r, d')" by fastforce
  have "rd_net R d = Delivered" using assms(2) by (simp add: redis_up_def)
  then show ?thesis using pipe_set_db [OF assms(1,3) 1] 1 assms(4,5) by (simp add: BatchUpdateVersion_def pipe_Exec_def)
qed

text \<open>Two nodes that create the version of a resource at the same time get different versions, and the
  one that was overtaken takes its own version for a change; the function reads and writes without a
  lock, where \<open>SETNX\<close> would let one of them win.\<close>
theorem vt_create_race:
  assumes "redis_law R db" "redis_up R" "db_wf (db d)" "vt_redisClient v = Some R" "db d (GetVersionKey v resourceID) = None"
    "in_int64 ts" "in_int64 ts'" "ts \<noteq> ts'"
  shows "\<exists>dA dB dC. GetOrCreateVersion t1 (\<lambda>d. d) t2 ts' v resourceID (snd (GetVersion t0 v resourceID d)) = ((ts', None), dA) \<and>
           GetOrCreateVersion t0 (\<lambda>d. snd (GetOrCreateVersion t1 (\<lambda>d. d) t2 ts' v resourceID d)) t3 ts v resourceID d = ((ts, None), dB) \<and>
           HasChanged t4 v resourceID ts' dB = ((True, ts), dC)"
proof -
  obtain d0 where 0: "GetVersion t0 v resourceID d = ((0, Some ErrNotFound), d0)" "db d0 = db d" "db_wf (db d0)"
    by (rule get_version_none [OF assms(1-5)])
  have n: "db d0 (GetVersionKey v resourceID) = None" using 0(2) assms(5) by simp
  obtain d1 where 1: "GetVersion t1 v resourceID d0 = ((0, Some ErrNotFound), d1)" "db_wf (db d1)"
    by (rule get_version_none [OF assms(1,2) 0(3) assms(4) n])
  obtain d2 where 2: "UpdateVersion t2 v resourceID ts' d1 = (None, d2)" "db_wf (db d2)" by (rule set_version_up [OF assms(1,2) 1(2) assms(4)])
  obtain d3 where 3: "UpdateVersion t3 v resourceID ts d2 = (None, d3)"
    "db d3 = (db d2)(GetVersionKey v resourceID \<mapsto> (VStr (show_int ts), None))" "db_wf (db d3)" by (rule set_version_up [OF assms(1,2) 2(2) assms(4)])
  have A: "GetOrCreateVersion t1 (\<lambda>d. d) t2 ts' v resourceID d0 = ((ts', None), d2)"
    using 1(1) 2(1) by (simp add: assms(4) GetOrCreateVersion_def create_version_def nowTimestamp_def)
  have B: "GetOrCreateVersion t0 (\<lambda>d. snd (GetOrCreateVersion t1 (\<lambda>d. d) t2 ts' v resourceID d)) t3 ts v resourceID d = ((ts, None), d3)"
    using 0(1) 3(1) A by (simp add: assms(4) GetOrCreateVersion_def [of t0] create_version_def nowTimestamp_def)
  have "version_is (db d3) v resourceID ts" using 3(2) by (simp add: version_is_def)
  from has_changed_up [OF assms(1,2) 3(3) assms(4) this assms(6), of t4 ts']
  obtain d4 where "HasChanged t4 v resourceID ts' d3 = ((True, ts), d4)" using assms(8) by auto
  then show ?thesis using A B 0(1) by auto
qed

lemma vt_update_seen_witness:
  "\<exists>d1 d2. UpdateVersion 0 (NewVersionTracker mathx_ref (Some redis_ref) []) ''db'' 7 Map.empty = (None, d1) \<and>
     HasChanged 1 (NewVersionTracker mathx_ref (Some redis_ref) []) ''db'' 6 d1 = ((True, 7), d2) \<and>
     d2 = [''cachex:version:db'' \<mapsto> (VStr ''7'', None)]"
proof -
  have s: "show_int 7 = ''7''" by code_simp
  show ?thesis
    using vt_update_seen [where db = id and d = Map.empty and v = "NewVersionTracker mathx_ref (Some redis_ref) []" and w = 7 and now = 0 and now' = 1
        and lastVersion = 6 and resourceID = "''db''" and v' = "NewVersionTracker mathx_ref (Some redis_ref) []", OF redis_ref_law]
    by (simp add: NewVersionTracker_def mathx_ref_def in_int64_def min_int64_def max_int64_def s)
qed

lemma vt_create_race_witness:
  "\<exists>dA dB dC. GetOrCreateVersion 1 (\<lambda>d. d) 2 20 (NewVersionTracker mathx_ref (Some redis_ref) []) ''db''
       (snd (GetVersion 0 (NewVersionTracker mathx_ref (Some redis_ref) []) ''db'' Map.empty)) = ((20, None), dA) \<and>
     GetOrCreateVersion 0 (\<lambda>d. snd (GetOrCreateVersion 1 (\<lambda>d. d) 2 20 (NewVersionTracker mathx_ref (Some redis_ref) []) ''db'' d)) 3 10
       (NewVersionTracker mathx_ref (Some redis_ref) []) ''db'' Map.empty = ((10, None), dB) \<and>
     HasChanged 4 (NewVersionTracker mathx_ref (Some redis_ref) []) ''db'' 20 dB = ((True, 10), dC)"
  by (rule vt_create_race [where db = id, OF redis_ref_law]) (simp_all add: NewVersionTracker_def in_int64_def min_int64_def max_int64_def)

end
