(* ===== verification/Kv_Cache.thy ===== *)
theory Kv_Cache
  imports Redis Decimal
begin

unbundle bit_operations_syntax

text \<open>
  \<open>KVCache\<close> of \<open>kv_cache.go\<close>: a map in memory in front of a Redis hash, with messages by which a node tells
  the others which keys to drop. A call takes the clock at its commands, \<open>now\<close> for one and \<open>T n\<close> for the
  \<open>n\<close>th; other clients act between the commands of a pipeline (\<open>others\<close>). The world is the server's and
  that of the loaders.
\<close>

section \<open>Types of keys and values\<close>

text \<open>
  What the code finds out about its type parameters at run time: whether keys are strings, and, for
  values that are, how they are read as strings; \<open>convert.MustString\<close>; and the JSON form of a value.
\<close>

record ('k, 'v) kv_types =
  kt_isString :: bool
  kt_MustString :: "'k \<Rightarrow> string"
  kt_key :: "string \<Rightarrow> 'k"
  kt_vString :: "(('v \<Rightarrow> string) \<times> (string \<Rightarrow> 'v)) option"
  kt_Marshal :: "'v \<Rightarrow> string go_result"
  kt_Unmarshal :: "string \<Rightarrow> 'v go_result"

definition encodeValue :: "('k, 'v) kv_types \<Rightarrow> 'v \<Rightarrow> string go_result" where
  "encodeValue Y v =
     (case kt_vString Y of
        Some (to_str, _) \<Rightarrow> Inr (to_str v)
      | None \<Rightarrow> (case kt_Marshal Y v of
                    Inl err \<Rightarrow> Inl (Wrapped ''failed to marshal kv value'' err)
                  | Inr data \<Rightarrow> Inr data))"

definition unmarshal_value :: "('k, 'v) kv_types \<Rightarrow> string \<Rightarrow> 'v go_result" where
  "unmarshal_value Y s =
     (case kt_Unmarshal Y s of Inl err \<Rightarrow> Inl (Wrapped ''failed to unmarshal kv value'' err) | Inr v \<Rightarrow> Inr v)"

definition decodeValue :: "('k, 'v) kv_types \<Rightarrow> string \<Rightarrow> 'v go_result" where
  "decodeValue Y s =
     (case kt_vString Y of
        Some (_, of_str) \<Rightarrow> if s \<noteq> [] \<and> hd s = CHR 0x22 then unmarshal_value Y s else Inr (of_str s)
      | None \<Rightarrow> unmarshal_value Y s)"

section \<open>The server\<close>

text \<open>The commands on values, and the effect of \<open>PUBLISH\<close>.\<close>

record 'd kv_server =
  ks_redis :: "'d redis"
  ks_PUBLISH :: "string \<Rightarrow> string \<Rightarrow> 'd \<Rightarrow> 'd"

text \<open>\<open>HMGET\<close> and \<open>HDEL\<close> of several fields are single commands: those of one field, run as a whole.\<close>

fun HMGET :: "string \<Rightarrow> string list \<Rightarrow> string option list lua" where
  "HMGET key [] = Return []"
| "HMGET key (f # fs) =
     Call (HGET key f) (\<lambda>r. lua_bind (HMGET key fs) (\<lambda>vals. Return ((case r of RBulk s \<Rightarrow> Some s | _ \<Rightarrow> None) # vals)))"

fun HDELS :: "string \<Rightarrow> string list \<Rightarrow> string option list lua" where
  "HDELS key [] = Return []"
| "HDELS key (f # fs) = Call (HDEL key f) (\<lambda>_. HDELS key fs)"

fun lua_hset_all :: "string \<Rightarrow> (string \<times> string) list \<Rightarrow> int \<Rightarrow> (int \<Rightarrow> 'a lua) \<Rightarrow> 'a lua" where
  "lua_hset_all key [] n k = k n"
| "lua_hset_all key ((f, v) # args) n k = Call (HSET key f v) (\<lambda>_. lua_hset_all key args (n + 1) k)"

definition luaKVSetMany :: "string \<Rightarrow> int \<Rightarrow> (string \<times> string) list \<Rightarrow> int lua" where
  "luaKVSetMany key ttl args =
     lua_hset_all key args 0 (\<lambda>n. if 0 < ttl then Call (EXPIRE key (ttl * second)) (\<lambda>_. Return n) else Return n)"

definition luaKVReplaceAll :: "string \<Rightarrow> int \<Rightarrow> (string \<times> string) list \<Rightarrow> int lua" where
  "luaKVReplaceAll key ttl args =
     Call (DEL [key]) (\<lambda>_.
     lua_hset_all key args 0 (\<lambda>n. if 0 < ttl \<and> 0 < n then Call (EXPIRE key (ttl * second)) (\<lambda>_. Return n) else Return n))"

text \<open>A pipeline: its commands in one message, their results in order, the first error of them.\<close>

datatype pipe_cmd = PEval "string option list lua" | PPublish string string

fun kv_pipe :: "'d kv_server \<Rightarrow> time \<Rightarrow> (nat \<Rightarrow> 'd \<Rightarrow> 'd) \<Rightarrow> pipe_cmd list \<Rightarrow> 'd \<Rightarrow> string option list go_result list \<times> 'd" where
  "kv_pipe S now others [] d = ([], d)"
| "kv_pipe S now others (PEval s # cs) d =
     (case run (ks_redis S) now s d of
        (r, d1) \<Rightarrow> (case kv_pipe S now others cs (others (length cs) d1) of (rs, d2) \<Rightarrow> (r # rs, d2)))"
| "kv_pipe S now others (PPublish ch msg # cs) d =
     (case kv_pipe S now others cs (others (length cs) (ks_PUBLISH S ch msg d)) of (rs, d2) \<Rightarrow> (Inr [] # rs, d2))"

fun first_err :: "'r go_result list \<Rightarrow> go_error option" where
  "first_err [] = None"
| "first_err (Inl err # rs) = Some err"
| "first_err (Inr _ # rs) = first_err rs"

text \<open>\<open>Exec\<close>: the error, and the results of the commands, which all have the error of a failed request.\<close>

definition kv_Exec ::
  "'d kv_server \<Rightarrow> time \<Rightarrow> (nat \<Rightarrow> 'd \<Rightarrow> 'd) \<Rightarrow> pipe_cmd list \<Rightarrow> 'd \<Rightarrow> (go_error option \<times> string option list go_result list) \<times> 'd" where
  "kv_Exec S now others cmds d =
     (if cmds = [] then ((None, []), d)
      else (case deliver (rd_net (ks_redis S) d) (\<lambda>d. case kv_pipe S now others cmds d of (rs, d') \<Rightarrow> (Inr rs, d')) d of
              (Inl err, d') \<Rightarrow> ((Some err, map (\<lambda>_. Inl err) cmds), d')
            | (Inr rs, d') \<Rightarrow> ((first_err rs, rs), d')))"

definition no_result :: "'a lua \<Rightarrow> string option list lua" where
  "no_result s = lua_bind s (\<lambda>_. Return [])"

section \<open>The cache\<close>

type_synonym ('k, 'v, 'd) KVLoader = "'d \<Rightarrow> ('k, 'v) go_map go_result \<times> 'd"
type_synonym ('k, 'v, 'd) BatchLoader = "'k list \<Rightarrow> 'd \<Rightarrow> ('k, 'v) go_map go_result \<times> 'd"

text \<open>A batch loader in the configuration may have the wrong type.\<close>

record ('k, 'v, 'd) KVCacheConfig =
  kvc_DefaultTTL :: duration
  kvc_RefreshInterval :: duration
  kvc_EnableAutoRefresh :: bool
  kvc_Namespace :: string
  kvc_MaxLocalCacheSize :: int
  kvc_BatchLoader :: "(unit + ('k, 'v, 'd) BatchLoader) option"

record ('k, 'v, 'd) KVCache =
  kv_client :: "'d kv_server option"
  kv_config :: "('k, 'v, 'd) KVCacheConfig"
  kv_loader :: "('k, 'v, 'd) KVLoader option"
  kv_batchLoader :: "('k, 'v, 'd) BatchLoader option"
  kv_name :: string
  kv_localCache :: "('k, 'v) go_map"
  kv_lastRefreshTime :: int
  kv_stopped :: bool
  kv_pubsub :: bool
  kv_subscribed :: bool
  kv_refreshing :: bool
  kv_instanceID :: string
  kv_invalidateCh :: string

record invalidateMsg =
  iv_Sender :: string
  iv_Op :: string
  iv_Keys :: "string list"

record iv_json =
  iv_Marshal :: "invalidateMsg \<Rightarrow> string go_result"
  iv_Unmarshal :: "string \<Rightarrow> invalidateMsg go_result"

definition setRefreshTime :: "time \<Rightarrow> ('k, 'v, 'd) KVCache \<Rightarrow> ('k, 'v, 'd) KVCache" where
  "setRefreshTime t c = c\<lparr>kv_lastRefreshTime := t\<rparr>"

definition GetLastRefreshTime :: "('k, 'v, 'd) KVCache \<Rightarrow> time" where
  "GetLastRefreshTime c = kv_lastRefreshTime c"

definition randomID :: "time \<Rightarrow> int" where
  "randomID nano = nano XOR 0xdeadbeef"

definition merge_kv_config :: "mathx \<Rightarrow> ('k, 'v, 'd) KVCacheConfig \<Rightarrow> ('k, 'v, 'd) KVCacheConfig" where
  "merge_kv_config X config0 = config0\<lparr>
     kvc_DefaultTTL := IfNotZero X (kvc_DefaultTTL config0) (30 * 60 * second),
     kvc_RefreshInterval := IfNotZero X (kvc_RefreshInterval config0) (5 * 60 * second),
     kvc_Namespace := IfNotEmpty X (kvc_Namespace config0) ''kv'',
     kvc_MaxLocalCacheSize := IF X (0 < kvc_MaxLocalCacheSize config0) (kvc_MaxLocalCacheSize config0) 10000\<rparr>"

text \<open>
  \<open>nano\<close> and \<open>nano'\<close> are the clock readings of the identifier. The goroutine of the automatic refresh ends
  with the panic of its ticker when the interval is not positive. \<open>subscribed\<close>: the subscription worked.
\<close>

definition NewKVCache ::
  "mathx \<Rightarrow> time \<Rightarrow> time \<Rightarrow> bool \<Rightarrow> 'd kv_server option \<Rightarrow> string \<Rightarrow> ('k, 'v, 'd) KVLoader option \<Rightarrow> ('k, 'v, 'd) KVCacheConfig \<Rightarrow> ('k, 'v, 'd) KVCache" where
  "NewKVCache X nano nano' subscribed cl name loader config0 =
     (let config = merge_kv_config X config0
      in \<lparr>kv_client = cl, kv_config = config, kv_loader = loader,
          kv_batchLoader = (case kvc_BatchLoader config of Some (Inr bl) \<Rightarrow> Some bl | _ \<Rightarrow> None),
          kv_name = name, kv_localCache = [], kv_lastRefreshTime = 0, kv_stopped = False,
          kv_pubsub = (cl \<noteq> None), kv_subscribed = (cl \<noteq> None \<and> subscribed),
          kv_refreshing = (kvc_EnableAutoRefresh config \<and> loader \<noteq> None \<and> 0 < kvc_RefreshInterval config),
          kv_instanceID = show_int nano @ ''-'' @ show_int (randomID nano'),
          kv_invalidateCh = kvc_Namespace config @ '':'' @ name @ '':invalidate''\<rparr>)"

section \<open>Messages\<close>

fun drop_keys :: "('k, 'v) kv_types \<Rightarrow> string list \<Rightarrow> ('k, 'v) go_map \<Rightarrow> ('k, 'v) go_map" where
  "drop_keys Y [] m = m"
| "drop_keys Y (ks # keys) m = drop_keys Y keys (if kt_isString Y then AList.delete (kt_key Y ks) m else m)"

text \<open>The handler of a message that arrives.\<close>

definition kv_receive :: "('k, 'v) kv_types \<Rightarrow> iv_json \<Rightarrow> string \<Rightarrow> ('k, 'v, 'd) KVCache \<Rightarrow> go_error option \<times> ('k, 'v, 'd) KVCache" where
  "kv_receive Y J message c =
     (case iv_Unmarshal J message of
        Inl err \<Rightarrow> (Some err, c)
      | Inr msg \<Rightarrow>
          if iv_Sender msg = kv_instanceID c then (None, c)
          else (None, if iv_Op msg = ''clear'' then c\<lparr>kv_localCache := []\<rparr>
                      else if iv_Op msg = ''invalidate'' then c\<lparr>kv_localCache := drop_keys Y (iv_Keys msg) (kv_localCache c)\<rparr>
                      else c))"

definition buildInvalidationMsg :: "iv_json \<Rightarrow> string \<Rightarrow> string list \<Rightarrow> ('k, 'v, 'd) KVCache \<Rightarrow> string" where
  "buildInvalidationMsg J op keys c =
     (if \<not> kv_pubsub c then []
      else (case iv_Marshal J \<lparr>iv_Sender = kv_instanceID c, iv_Op = op, iv_Keys = keys\<rparr> of Inl err \<Rightarrow> [] | Inr data \<Rightarrow> data))"

definition kv_publishInvalidation :: "iv_json \<Rightarrow> string \<Rightarrow> string list \<Rightarrow> ('k, 'v, 'd) KVCache \<Rightarrow> 'd \<Rightarrow> 'd" where
  "kv_publishInvalidation J op keys c d =
     (let msgData = buildInvalidationMsg J op keys c in
      (case kv_client c of
         None \<Rightarrow> d
       | Some S \<Rightarrow>
           if \<not> kv_pubsub c \<or> msgData = [] then d
           else snd (deliver (rd_net (ks_redis S) d) (\<lambda>d. (Inr (), ks_PUBLISH S (kv_invalidateCh c) msgData d)) d)))"

definition PublishInvalidation :: "iv_json \<Rightarrow> string list \<Rightarrow> ('k, 'v, 'd) KVCache \<Rightarrow> 'd \<Rightarrow> 'd" where
  "PublishInvalidation J keys c d = kv_publishInvalidation J ''invalidate'' keys c d"

definition publish_cmd :: "iv_json \<Rightarrow> string \<Rightarrow> string list \<Rightarrow> ('k, 'v, 'd) KVCache \<Rightarrow> pipe_cmd list" where
  "publish_cmd J op keys c =
     (let msgData = buildInvalidationMsg J op keys c in if msgData \<noteq> [] then [PPublish (kv_invalidateCh c) msgData] else [])"

definition kv_redisKey :: "('k, 'v, 'd) KVCache \<Rightarrow> string" where
  "kv_redisKey c = kvc_Namespace (kv_config c) @ '':'' @ kv_name c"

definition kv_ttl :: "('k, 'v, 'd) KVCache \<Rightarrow> int" where
  "kv_ttl c = go_div (kvc_DefaultTTL (kv_config c)) second"

text \<open>The local map: \<open>Store\<close> and \<open>Delete\<close>, and rebuilding it.\<close>

definition local_store :: "'k \<Rightarrow> 'v \<Rightarrow> ('k, 'v, 'd) KVCache \<Rightarrow> ('k, 'v, 'd) KVCache" where
  "local_store k v c = c\<lparr>kv_localCache := AList.update k v (kv_localCache c)\<rparr>"

definition local_delete :: "'k \<Rightarrow> ('k, 'v, 'd) KVCache \<Rightarrow> ('k, 'v, 'd) KVCache" where
  "local_delete k c = c\<lparr>kv_localCache := AList.delete k (kv_localCache c)\<rparr>"

definition local_store_all :: "('k, 'v) go_map \<Rightarrow> ('k, 'v, 'd) KVCache \<Rightarrow> ('k, 'v, 'd) KVCache" where
  "local_store_all m c = fold (\<lambda>(k, v). local_store k v) m c"

definition local_rebuild :: "('k, 'v) go_map \<Rightarrow> ('k, 'v, 'd) KVCache \<Rightarrow> ('k, 'v, 'd) KVCache" where
  "local_rebuild m c = local_store_all m (c\<lparr>kv_localCache := []\<rparr>)"

section \<open>Writing to Redis\<close>

fun encode_args :: "('k, 'v) kv_types \<Rightarrow> ('k, 'v) go_map \<Rightarrow> (string \<times> string) list go_result" where
  "encode_args Y [] = Inr []"
| "encode_args Y ((k, v) # items) =
     (case encodeValue Y v of
        Inl err \<Rightarrow> Inl err
      | Inr vstr \<Rightarrow> map_sum id (\<lambda>args. (kt_MustString Y k, vstr) # args) (encode_args Y items))"

definition writeManyToRedis :: "('k, 'v) kv_types \<Rightarrow> time \<Rightarrow> ('k, 'v) go_map \<Rightarrow> ('k, 'v, 'd) KVCache \<Rightarrow> 'd \<Rightarrow> go_error option \<times> 'd" where
  "writeManyToRedis Y now items c d =
     (if items = [] then (None, d)
      else (case encode_args Y items of
              Inl err \<Rightarrow> (Some err, d)
            | Inr args \<Rightarrow>
                (case kv_client c of
                   None \<Rightarrow> (Some RuntimePanic, d)
                 | Some S \<Rightarrow> (case eval (ks_redis S) now (luaKVSetMany (kv_redisKey c) (kv_ttl c) args) d of (r, d') \<Rightarrow> (err_of r, d')))))"

definition replaceRedis :: "('k, 'v) kv_types \<Rightarrow> time \<Rightarrow> ('k, 'v) go_map \<Rightarrow> ('k, 'v, 'd) KVCache \<Rightarrow> 'd \<Rightarrow> go_error option \<times> 'd" where
  "replaceRedis Y now items c d =
     (case encode_args Y items of
        Inl err \<Rightarrow> (Some err, d)
      | Inr args \<Rightarrow>
          (case kv_client c of
             None \<Rightarrow> (Some RuntimePanic, d)
           | Some S \<Rightarrow> (case eval (ks_redis S) now (luaKVReplaceAll (kv_redisKey c) (kv_ttl c) args) d of (r, d') \<Rightarrow> (err_of r, d'))))"

section \<open>Loading\<close>

definition no_loader :: "string \<Rightarrow> go_error" where
  "no_loader name = FmtError (''KVCache '' @ name @ '' has no loader'')"

definition loader_failed :: "string \<Rightarrow> go_error \<Rightarrow> go_error" where
  "loader_failed name err = Wrapped (''KVCache '' @ name @ '' loader failed'') err"

definition batch_failed :: "string \<Rightarrow> go_error \<Rightarrow> go_error" where
  "batch_failed name err = Wrapped (''KVCache '' @ name @ '' batchLoader failed'') err"

definition loadFromSource ::
  "('k, 'v) kv_types \<Rightarrow> (nat \<Rightarrow> time) \<Rightarrow> ('k, 'v, 'd) KVCache \<Rightarrow> 'd \<Rightarrow> ('k, 'v) go_map go_result \<times> ('k, 'v, 'd) KVCache \<times> 'd" where
  "loadFromSource Y T c d =
     (case kv_loader c of
        None \<Rightarrow> (Inl (no_loader (kv_name c)), c, d)
      | Some loader \<Rightarrow>
          (case loader d of
             (Inl err, d1) \<Rightarrow> (Inl (loader_failed (kv_name c) err), c, d1)
           | (Inr data, d1) \<Rightarrow>
               let c1 = setRefreshTime (T 0) (local_rebuild data c)
               in (case writeManyToRedis Y (T 1) data c1 d1 of
                     (err, d2) \<Rightarrow> (if kv_client c1 = None \<and> err = Some RuntimePanic then Inl RuntimePanic else Inr data, c1, d2))))"

fun redis_entries :: "('k, 'v) kv_types \<Rightarrow> string list \<Rightarrow> ('k, 'v) go_map" where
  "redis_entries Y (f # s # rest) =
     (case decodeValue Y s of
        Inl err \<Rightarrow> redis_entries Y rest
      | Inr v \<Rightarrow> (kt_key Y f, v) # redis_entries Y rest)"
| "redis_entries Y _ = []"

definition LoadAll ::
  "('k, 'v) kv_types \<Rightarrow> (nat \<Rightarrow> time) \<Rightarrow> ('k, 'v, 'd) KVCache \<Rightarrow> 'd \<Rightarrow> ('k, 'v) go_map go_result \<times> ('k, 'v, 'd) KVCache \<times> 'd" where
  "LoadAll Y T c d =
     (if kt_isString Y
      then (case kv_client c of
              None \<Rightarrow> (Inl RuntimePanic, c, d)
            | Some S \<Rightarrow>
                (case client_arr (ks_redis S) (T 0) (HGETALL (kv_redisKey c)) d of
                   (Inl err, d1) \<Rightarrow> loadFromSource Y (\<lambda>n. T (n + 1)) c d1
                 | (Inr all, d1) \<Rightarrow>
                     let data = redis_entries Y all
                     in if data \<noteq> [] then (Inr data, setRefreshTime (T 1) (local_rebuild data c), d1)
                        else loadFromSource Y (\<lambda>n. T (n + 1)) c d1))
      else loadFromSource Y (\<lambda>n. T (n + 1)) c d)"

section \<open>Reading\<close>

text \<open>A field of the hash, if it can be read; a call without a client panics.\<close>

definition kv_HGet :: "('k, 'v) kv_types \<Rightarrow> 'd kv_server \<Rightarrow> time \<Rightarrow> 'k \<Rightarrow> ('k, 'v, 'd) KVCache \<Rightarrow> 'd \<Rightarrow> 'v option \<times> 'd" where
  "kv_HGet Y S now key c d =
     (case client_str (ks_redis S) now (HGET (kv_redisKey c) (kt_MustString Y key)) d of
        (Inl err, d') \<Rightarrow> (None, d')
      | (Inr s, d') \<Rightarrow> (case decodeValue Y s of Inl err \<Rightarrow> None | Inr v \<Rightarrow> Some v, d'))"

text \<open>What \<open>Get\<close> does when neither the map nor the hash has the key.\<close>

definition kv_miss ::
  "('k, 'v) kv_types \<Rightarrow> (nat \<Rightarrow> time) \<Rightarrow> 'k \<Rightarrow> ('k, 'v, 'd) KVCache \<Rightarrow> 'd \<Rightarrow> 'v option go_result \<times> ('k, 'v, 'd) KVCache \<times> 'd" where
  "kv_miss Y T key c d =
     (case kv_batchLoader c of
        Some batchLoader \<Rightarrow>
          (case batchLoader [key] d of
             (Inl lerr, d1) \<Rightarrow> (Inl (batch_failed (kv_name c) lerr), c, d1)
           | (Inr loaded, d1) \<Rightarrow>
               (case map_of loaded key of
                  None \<Rightarrow> (Inr None, c, d1)
                | Some v \<Rightarrow> (Inr (Some v), local_store key v c, snd (writeManyToRedis Y (T 0) loaded c d1))))
      | None \<Rightarrow>
          (case LoadAll Y T c d of
             (Inl err, c1, d1) \<Rightarrow> (Inl err, c1, d1)
           | (Inr data, c1, d1) \<Rightarrow> (Inr (map_of data key), c1, d1)))"

definition kv_Get ::
  "('k, 'v) kv_types \<Rightarrow> (nat \<Rightarrow> time) \<Rightarrow> 'k \<Rightarrow> ('k, 'v, 'd) KVCache \<Rightarrow> 'd \<Rightarrow> 'v option go_result \<times> ('k, 'v, 'd) KVCache \<times> 'd" where
  "kv_Get Y T key c d =
     (case map_of (kv_localCache c) key of
        Some v \<Rightarrow> (Inr (Some v), c, d)
      | None \<Rightarrow>
          (case kv_client c of
             None \<Rightarrow> (Inl RuntimePanic, c, d)
           | Some S \<Rightarrow>
               (case kv_HGet Y S (T 0) key c d of
                  (Some v, d1) \<Rightarrow> (Inr (Some v), local_store key v c, d1)
                | (None, d1) \<Rightarrow> kv_miss Y (\<lambda>n. T (n + 1)) key c d1)))"

definition batchLoadAndFill ::
  "('k, 'v) kv_types \<Rightarrow> time \<Rightarrow> ('k, 'v, 'd) BatchLoader \<Rightarrow> ('k, 'v) go_map \<Rightarrow> 'k list \<Rightarrow> ('k, 'v, 'd) KVCache \<Rightarrow> 'd \<Rightarrow>
   ('k, 'v) go_map go_result \<times> ('k, 'v, 'd) KVCache \<times> 'd" where
  "batchLoadAndFill Y now batchLoader result keys c d =
     (case batchLoader keys d of
        (Inl err, d1) \<Rightarrow> (Inl (batch_failed (kv_name c) err), c, d1)
      | (Inr loaded, d1) \<Rightarrow>
          (Inr (fold (\<lambda>(k, v). AList.update k v) loaded result), local_store_all loaded c, snd (writeManyToRedis Y now loaded c d1)))"

text \<open>The local hits and the keys that are missing.\<close>

fun local_part :: "'k list \<Rightarrow> ('k, 'v) go_map \<Rightarrow> ('k, 'v) go_map \<Rightarrow> 'k list \<Rightarrow> ('k, 'v) go_map \<times> 'k list" where
  "local_part [] m result missed = (result, missed)"
| "local_part (k # keys) m result missed =
     (case map_of m k of
        Some v \<Rightarrow> local_part keys m (AList.update k v result) missed
      | None \<Rightarrow> local_part keys m result (missed @ [k]))"

text \<open>The values of the hash: kept, or missing still.\<close>

fun redis_part ::
  "('k, 'v) kv_types \<Rightarrow> ('k \<times> string option) list \<Rightarrow> ('k, 'v) go_map \<Rightarrow> 'k list \<Rightarrow> ('k, 'v, 'd) KVCache \<Rightarrow> ('k, 'v) go_map \<times> 'k list \<times> ('k, 'v, 'd) KVCache" where
  "redis_part Y [] result stillMissed c = (result, stillMissed, c)"
| "redis_part Y ((k, val) # vals) result stillMissed c =
     (case (case val of None \<Rightarrow> None | Some s \<Rightarrow> (case decodeValue Y s of Inl err \<Rightarrow> None | Inr v \<Rightarrow> Some v)) of
        None \<Rightarrow> redis_part Y vals result (stillMissed @ [k]) c
      | Some v \<Rightarrow> redis_part Y vals (AList.update k v result) stillMissed (local_store k v c))"

definition kv_GetMany ::
  "('k, 'v) kv_types \<Rightarrow> (nat \<Rightarrow> time) \<Rightarrow> 'k list \<Rightarrow> ('k, 'v, 'd) KVCache \<Rightarrow> 'd \<Rightarrow> ('k, 'v) go_map go_result \<times> ('k, 'v, 'd) KVCache \<times> 'd" where
  "kv_GetMany Y T keys c d =
     (if keys = [] then (Inr [], c, d)
      else (let (result, missed) = local_part keys (kv_localCache c) [] [] in
       if missed = [] then (Inr result, c, d)
       else (case kv_client c of
          None \<Rightarrow> (Inl RuntimePanic, c, d)
        | Some S \<Rightarrow>
           (case eval (ks_redis S) (T 0) (HMGET (kv_redisKey c) (map (kt_MustString Y) missed)) d of
              (Inl err, d1) \<Rightarrow>
                (case kv_batchLoader c of
                   Some bl \<Rightarrow> batchLoadAndFill Y (T 1) bl result missed c d1
                 | None \<Rightarrow>
                     (case LoadAll Y (\<lambda>n. T (n + 1)) c d1 of
                        (Inl lerr, c1, d2) \<Rightarrow> (Inl (Wrapped (''KVCache '' @ kv_name c @ '' HMGet failed'') err), c1, d2)
                      | (Inr _, c1, d2) \<Rightarrow>
                          (Inr (fold (\<lambda>k m. case map_of (kv_localCache c1) k of None \<Rightarrow> m | Some v \<Rightarrow> AList.update k v m) missed result), c1, d2)))
            | (Inr values, d1) \<Rightarrow>
                (case redis_part Y (zip missed values) result [] c of
                   (result1, stillMissed, c1) \<Rightarrow>
                     (case kv_batchLoader c1 of
                        None \<Rightarrow> (Inr result1, c1, d1)
                      | Some bl \<Rightarrow>
                          if stillMissed = [] then (Inr result1, c1, d1) else batchLoadAndFill Y (T 1) bl result1 stillMissed c1 d1))))))"

section \<open>Writing\<close>

text \<open>The end of a write: its pipeline is sent.\<close>

definition kv_send ::
  "time \<Rightarrow> (nat \<Rightarrow> 'd \<Rightarrow> 'd) \<Rightarrow> pipe_cmd list \<Rightarrow> ('k, 'v, 'd) KVCache \<Rightarrow> 'd \<Rightarrow> go_error option \<times> ('k, 'v, 'd) KVCache \<times> 'd" where
  "kv_send now others cmds c d =
     (case kv_client c of
        None \<Rightarrow> (Some RuntimePanic, c, d)
      | Some S \<Rightarrow> (case kv_Exec S now others cmds d of ((err, rs), d') \<Rightarrow> (err, c, d')))"

definition kv_Set ::
  "('k, 'v) kv_types \<Rightarrow> iv_json \<Rightarrow> time \<Rightarrow> (nat \<Rightarrow> 'd \<Rightarrow> 'd) \<Rightarrow> 'k \<Rightarrow> 'v \<Rightarrow> ('k, 'v, 'd) KVCache \<Rightarrow> 'd \<Rightarrow> go_error option \<times> ('k, 'v, 'd) KVCache \<times> 'd" where
  "kv_Set Y J now others key val c d =
     (let c1 = local_store key val c in
      (case encodeValue Y val of
         Inl err \<Rightarrow> (Some err, c1, d)
       | Inr vstr \<Rightarrow>
           kv_send now others (PEval (no_result (luaKVSetMany (kv_redisKey c1) (kv_ttl c1) [(kt_MustString Y key, vstr)])) #
             publish_cmd J ''invalidate'' [kt_MustString Y key] c1) c1 d))"

definition kv_SetMany ::
  "('k, 'v) kv_types \<Rightarrow> iv_json \<Rightarrow> time \<Rightarrow> (nat \<Rightarrow> 'd \<Rightarrow> 'd) \<Rightarrow> ('k, 'v) go_map \<Rightarrow> ('k, 'v, 'd) KVCache \<Rightarrow> 'd \<Rightarrow> go_error option \<times> ('k, 'v, 'd) KVCache \<times> 'd" where
  "kv_SetMany Y J now others items c d =
     (if items = [] then (None, c, d)
      else (let c1 = local_store_all items c in
       (case encode_args Y items of
          Inl err \<Rightarrow> (Some err, c1, d)
        | Inr args \<Rightarrow>
            kv_send now others (PEval (no_result (luaKVSetMany (kv_redisKey c1) (kv_ttl c1) args)) #
              publish_cmd J ''invalidate'' (map fst args) c1) c1 d)))"

text \<open>Commands for a pipeline of the caller.\<close>

definition Client :: "('k, 'v, 'd) KVCache \<Rightarrow> 'd kv_server option" where
  "Client c = kv_client c"

definition GetManyToPipe :: "('k, 'v) kv_types \<Rightarrow> 'k list \<Rightarrow> ('k, 'v, 'd) KVCache \<Rightarrow> pipe_cmd option" where
  "GetManyToPipe Y keys c = (if keys = [] then None else Some (PEval (HMGET (kv_redisKey c) (map (kt_MustString Y) keys))))"

definition SetToPipe :: "('k, 'v) kv_types \<Rightarrow> 'k \<Rightarrow> 'v \<Rightarrow> ('k, 'v, 'd) KVCache \<Rightarrow> pipe_cmd go_result \<times> ('k, 'v, 'd) KVCache" where
  "SetToPipe Y key val c =
     (let c1 = local_store key val c in
      (map_sum id (\<lambda>vstr. PEval (no_result (luaKVSetMany (kv_redisKey c1) (kv_ttl c1) [(kt_MustString Y key, vstr)]))) (encodeValue Y val), c1))"

definition DeleteFromPipe :: "('k, 'v) kv_types \<Rightarrow> 'k \<Rightarrow> ('k, 'v, 'd) KVCache \<Rightarrow> pipe_cmd \<times> ('k, 'v, 'd) KVCache" where
  "DeleteFromPipe Y key c = (PEval (HDELS (kv_redisKey c) [kt_MustString Y key]), local_delete key c)"

definition kv_Delete ::
  "('k, 'v) kv_types \<Rightarrow> iv_json \<Rightarrow> time \<Rightarrow> (nat \<Rightarrow> 'd \<Rightarrow> 'd) \<Rightarrow> 'k \<Rightarrow> ('k, 'v, 'd) KVCache \<Rightarrow> 'd \<Rightarrow> go_error option \<times> ('k, 'v, 'd) KVCache \<times> 'd" where
  "kv_Delete Y J now others key c d =
     (let c1 = local_delete key c
      in kv_send now others (PEval (HDELS (kv_redisKey c1) [kt_MustString Y key]) # publish_cmd J ''invalidate'' [kt_MustString Y key] c1) c1 d)"

definition kv_DeleteMany ::
  "('k, 'v) kv_types \<Rightarrow> iv_json \<Rightarrow> time \<Rightarrow> (nat \<Rightarrow> 'd \<Rightarrow> 'd) \<Rightarrow> 'k list \<Rightarrow> ('k, 'v, 'd) KVCache \<Rightarrow> 'd \<Rightarrow> go_error option \<times> ('k, 'v, 'd) KVCache \<times> 'd" where
  "kv_DeleteMany Y J now others keys c d =
     (if keys = [] then (None, c, d)
      else (let c1 = fold local_delete keys c; fs = map (kt_MustString Y) keys
       in kv_send now others (PEval (HDELS (kv_redisKey c1) fs) # publish_cmd J ''invalidate'' fs c1) c1 d))"

definition kv_Clear ::
  "iv_json \<Rightarrow> time \<Rightarrow> time \<Rightarrow> (nat \<Rightarrow> 'd \<Rightarrow> 'd) \<Rightarrow> ('k, 'v, 'd) KVCache \<Rightarrow> 'd \<Rightarrow> go_error option \<times> ('k, 'v, 'd) KVCache \<times> 'd" where
  "kv_Clear J now here others c d =
     (let c1 = setRefreshTime here (c\<lparr>kv_localCache := []\<rparr>)
      in kv_send now others (PEval (no_result (Call (DEL [kv_redisKey c1]) Return)) # publish_cmd J ''clear'' [] c1) c1 d)"

section \<open>Refreshing\<close>

definition kv_Refresh :: "('k, 'v) kv_types \<Rightarrow> (nat \<Rightarrow> time) \<Rightarrow> ('k, 'v, 'd) KVCache \<Rightarrow> 'd \<Rightarrow> go_error option \<times> ('k, 'v, 'd) KVCache \<times> 'd" where
  "kv_Refresh Y T c d = (case loadFromSource Y T c d of (r, c', d') \<Rightarrow> (err_of r, c', d'))"

definition kv_RefreshAndSwap ::
  "('k, 'v) kv_types \<Rightarrow> iv_json \<Rightarrow> (nat \<Rightarrow> time) \<Rightarrow> ('k, 'v, 'd) KVCache \<Rightarrow> 'd \<Rightarrow> go_error option \<times> ('k, 'v, 'd) KVCache \<times> 'd" where
  "kv_RefreshAndSwap Y J T c d =
     (case kv_loader c of
        None \<Rightarrow> (None, c, d)
      | Some loader \<Rightarrow>
          (case loader d of
             (Inl err, d1) \<Rightarrow> (Some (loader_failed (kv_name c) err), c, d1)
           | (Inr data, d1) \<Rightarrow>
               (case replaceRedis Y (T 0) data c d1 of
                  (Some err, d2) \<Rightarrow>
                    (Some (if kv_client c = None \<and> err = RuntimePanic then err else Wrapped (''KVCache '' @ kv_name c @ '' replaceRedis failed'') err), c, d2)
                | (None, d2) \<Rightarrow>
                    let c1 = setRefreshTime (T 1) (local_rebuild data c)
                    in (None, c1, kv_publishInvalidation J ''clear'' [] c1 d2))))"

definition kv_Size :: "('k, 'v, 'd) KVCache \<Rightarrow> int" where
  "kv_Size c = int (length (kv_localCache c))"

text \<open>A turn of the automatic refresh: the tick, or the end once the cache is stopped.\<close>

definition autoRefresh ::
  "('k, 'v) kv_types \<Rightarrow> (nat \<Rightarrow> time) \<Rightarrow> bool \<Rightarrow> nat \<Rightarrow> ('k, 'v, 'd) KVCache \<Rightarrow> 'd \<Rightarrow> ('k, 'v, 'd) KVCache \<times> 'd" where
  "autoRefresh Y T ticked pick c d =
     (if \<not> kv_refreshing c then (c, d)
      else (case go_select [(ticked, True), (kv_stopped c, False)] pick of
              None \<Rightarrow> (c, d)
            | Some True \<Rightarrow> snd (kv_Refresh Y T c d)
            | Some False \<Rightarrow> (c\<lparr>kv_refreshing := False\<rparr>, d)))"

definition kv_Stop :: "('k, 'v, 'd) KVCache \<Rightarrow> ('k, 'v, 'd) KVCache" where
  "kv_Stop c = (if kv_stopped c then c else c\<lparr>kv_stopped := True, kv_subscribed := False\<rparr>)"

definition Name :: "('k, 'v, 'd) KVCache \<Rightarrow> string" where
  "Name c = kv_name c"

section \<open>Options\<close>

type_synonym ('k, 'v, 'd) KVOption = "('k, 'v, 'd) KVCacheConfig \<Rightarrow> ('k, 'v, 'd) KVCacheConfig"

definition WithKVTTL :: "duration \<Rightarrow> ('k, 'v, 'd) KVOption" where "WithKVTTL ttl c = c\<lparr>kvc_DefaultTTL := ttl\<rparr>"
definition WithKVRefreshInterval :: "duration \<Rightarrow> ('k, 'v, 'd) KVOption" where "WithKVRefreshInterval i c = c\<lparr>kvc_RefreshInterval := i\<rparr>"
definition WithKVAutoRefresh :: "bool \<Rightarrow> ('k, 'v, 'd) KVOption" where "WithKVAutoRefresh enable c = c\<lparr>kvc_EnableAutoRefresh := enable\<rparr>"
definition WithKVNamespace :: "string \<Rightarrow> ('k, 'v, 'd) KVOption" where "WithKVNamespace ns c = c\<lparr>kvc_Namespace := ns\<rparr>"
definition WithKVMaxLocalCacheSize :: "int \<Rightarrow> ('k, 'v, 'd) KVOption" where "WithKVMaxLocalCacheSize n c = c\<lparr>kvc_MaxLocalCacheSize := n\<rparr>"
definition WithKVBatchLoader :: "('k, 'v, 'd) BatchLoader \<Rightarrow> ('k, 'v, 'd) KVOption" where "WithKVBatchLoader bl c = c\<lparr>kvc_BatchLoader := Some (Inr bl)\<rparr>"

end
