(* ===== verification/Redis_Hash.thy ===== *)
theory Redis_Hash
  imports Redis
begin

text \<open>Hashes with a deadline: the fields that are found at a time, and what the commands do to them.\<close>

definition holds_hash :: "time \<Rightarrow> redis_db \<Rightarrow> string \<Rightarrow> (string \<rightharpoonup> string) \<Rightarrow> time option \<Rightarrow> bool" where
  "holds_hash now db k H dl \<longleftrightarrow>
     at now db k = None \<and> H = Map.empty \<and> dl = None \<or>
     (\<exists>h. live now (db k) = Some (VHash h, dl) \<and> distinct (map fst h) \<and> map_of h = H)"

definition same_but :: "string \<Rightarrow> redis_db \<Rightarrow> redis_db \<Rightarrow> bool" where
  "same_but k db db' \<longleftrightarrow> (\<forall>k'. k' \<noteq> k \<longrightarrow> db' k' = db k')"

lemma same_but_refl [simp]: "same_but k db db"
  by (simp add: same_but_def)

lemma same_but_trans: "same_but k db db' \<Longrightarrow> same_but k db' db'' \<Longrightarrow> same_but k db db''"
  by (simp add: same_but_def)

lemma same_but_upd [simp]: "same_but k db (db(k := e))"
  by (simp add: same_but_def)

lemma holds_hash_none: "at now db k = None \<Longrightarrow> holds_hash now db k Map.empty None"
  by (simp add: holds_hash_def)

lemma holds_hash_empty: "db k = None \<Longrightarrow> holds_hash now db k Map.empty None"
  by (simp add: holds_hash_def at_def)

lemma holds_hashE:
  assumes "holds_hash now db k H dl"
  obtains (none) "at now db k = None" "deadline_of now db k = None" "H = Map.empty" "dl = None"
    | (some) h where "at now db k = Some (VHash h)" "deadline_of now db k = dl" "db k = Some (VHash h, dl)"
        "\<And>t. dl = Some t \<Longrightarrow> now < t" "distinct (map fst h)" "H = map_of h"
proof (cases "live now (db k)")
  case None
  then show ?thesis using assms none by (simp add: holds_hash_def at_def deadline_of_def)
next
  case (Some p)
  then obtain h where h: "p = (VHash h, dl)" "distinct (map fst h)" "H = map_of h"
    using assms by (auto simp: holds_hash_def at_def)
  have d: "now < t" if "dl = Some t" for t
    using Some h(1) that by (cases "db k") (auto simp: live_def split: option.splits if_splits)
  show ?thesis
    by (rule some [of h]) (use Some h d live_SomeD [OF Some] in \<open>simp_all add: at_def deadline_of_def\<close>)
qed

lemma holds_hash_some: "db k = Some (VHash h, dl) \<Longrightarrow> (\<And>t. dl = Some t \<Longrightarrow> now < t) \<Longrightarrow> distinct (map fst h) \<Longrightarrow> holds_hash now db k (map_of h) dl"
  by (cases dl) (auto simp: holds_hash_def)

text \<open>Later there are the same fields, or none.\<close>

lemma holds_hash_later:
  assumes "holds_hash now db k H dl" "now \<le> t"
  obtains "holds_hash t db k H dl" | "holds_hash t db k Map.empty None" "\<exists>e. dl = Some e \<and> e \<le> t"
proof (cases rule: holds_hashE [OF assms(1)])
  case 1
  then have "at t db k = None" using assms(2) by (auto simp: at_def live_def split: option.splits if_splits)
  then show ?thesis using 1(3,4) that(1) by (simp add: holds_hash_none)
next
  case (2 h)
  show ?thesis
  proof (cases "\<exists>e. dl = Some e \<and> e \<le> t")
    case True
    then have "at t db k = None" using 2(3) by (auto simp: at_def)
    then show ?thesis using that(2) True by (simp add: holds_hash_none)
  next
    case False
    then have "holds_hash t db k (map_of h) dl" by (intro holds_hash_some 2(3,5)) (auto simp: not_le)
    then show ?thesis using that(1) 2(6) by simp
  qed
qed

lemma holds_hash_until: "holds_hash now db k H dl \<Longrightarrow> now \<le> t \<Longrightarrow> (\<And>e. dl = Some e \<Longrightarrow> t < e) \<Longrightarrow> holds_hash t db k H dl"
  by (erule holds_hash_later) (assumption, auto)

lemma holds_hash_other: "holds_hash now db k H dl \<Longrightarrow> db' k = db k \<Longrightarrow> holds_hash now db' k H dl"
  by (simp add: holds_hash_def at_def)

lemma holds_hash_at: "at now db k = None \<or> (\<exists>h. at now db k = Some (VHash h)) \<Longrightarrow> db_wf db \<Longrightarrow> \<exists>H dl. holds_hash now db k H dl"
proof (elim disjE exE)
  fix h
  assume a: "at now db k = Some (VHash h)" and w: "db_wf db"
  then obtain dl where l: "live now (db k) = Some (VHash h, dl)" by (auto simp: at_def)
  have "distinct (map fst h)" using db_wfD [OF w a] by simp
  then show ?thesis using l unfolding holds_hash_def by blast
qed (use holds_hash_none in blast)

section \<open>The commands\<close>

lemma hash_hget:
  assumes "holds_hash now db k H dl"
  shows "redis_do now (HGET k f) db = (case H f of None \<Rightarrow> RNil | Some v \<Rightarrow> RBulk v, db)"
  by (cases rule: holds_hashE [OF assms]) (auto simp: redis_do_simps on_hash_def)

lemma hash_hgetall:
  assumes "holds_hash now db k H dl"
  obtains h where "redis_do now (HGETALL k) db = (RArr (concat (map (\<lambda>(f, v). [f, v]) h)), db)" "map_of h = H" "distinct (map fst h)"
proof (cases rule: holds_hashE [OF assms])
  case 1
  then show ?thesis using that [of "[]"] by (simp add: redis_do_simps on_hash_def)
next
  case (2 h)
  then show ?thesis using that [of h] by (simp add: redis_do_simps on_hash_def)
qed

lemma hash_hset:
  assumes "holds_hash now db k H dl"
  obtains r db' where "redis_do now (HSET k f v) db = (RInt r, db')" "holds_hash now db' k (H(f \<mapsto> v)) dl" "same_but k db db'"
proof (cases rule: holds_hashE [OF assms])
  case 1
  have "holds_hash now (db(k \<mapsto> (VHash [(f, v)], None))) k (map_of [(f, v)]) None" by (rule holds_hash_some) simp_all
  then have h: "holds_hash now (db(k \<mapsto> (VHash [(f, v)], None))) k (H(f \<mapsto> v)) dl" using 1(3,4) by simp
  show ?thesis by (rule that [OF _ h same_but_upd, of 1]) (simp add: redis_do_simps on_hash_def put_def 1(1,2))
next
  case (2 h)
  let ?db = "db(k \<mapsto> (VHash (AList.update f v h), dl))"
  have "holds_hash now ?db k (map_of (AList.update f v h)) dl"
    by (rule holds_hash_some) (use 2(4,5) in \<open>auto simp: distinct_update\<close>)
  then have h: "holds_hash now ?db k (H(f \<mapsto> v)) dl" by (simp add: 2(6) update_conv')
  show ?thesis
    by (rule that [OF _ h same_but_upd, of "if map_of h f = None then 1 else 0"])
      (simp add: redis_do_simps on_hash_def put_def 2(1,2))
qed

lemma hash_hdel:
  assumes "holds_hash now db k H dl"
  obtains r db' dl' where "redis_do now (HDEL k f) db = (RInt r, db')" "holds_hash now db' k (H(f := None)) dl'" "same_but k db db'"
    "dl' = dl \<or> H(f := None) = Map.empty"
proof (cases "H f")
  case None
  then have e: "H(f := None) = H" by auto
  have "redis_do now (HDEL k f) db = (RInt 0, db)"
    using None by (cases rule: holds_hashE [OF assms]) (auto simp: redis_do_simps on_hash_def)
  then show ?thesis using that [of 0 db dl] assms e by simp
next
  case (Some v)
  then obtain h where h: "at now db k = Some (VHash h)" "deadline_of now db k = dl" "\<And>t. dl = Some t \<Longrightarrow> now < t"
    "distinct (map fst h)" "H = map_of h" by (cases rule: holds_hashE [OF assms]) auto
  let ?h = "AList.delete f h"
  have m: "map_of ?h = H(f := None)" by (simp add: h(5) delete_conv')
  have r: "redis_do now (HDEL k f) db = (RInt 1, put now k (?h = []) (VHash ?h) db)"
    using Some h by (simp add: redis_do_simps on_hash_def Let_def)
  show ?thesis
  proof (cases "?h = []")
    case True
    have e: "H(f := None) = Map.empty" using m True by simp
    have "holds_hash now (db(k := None)) k Map.empty None" by (rule holds_hash_empty) simp
    then show ?thesis using that [OF r [unfolded put_def], of None] True e by simp
  next
    case False
    have "holds_hash now (db(k \<mapsto> (VHash ?h, dl))) k (map_of ?h) dl"
      by (rule holds_hash_some) (use h(3,4) in \<open>auto simp: distinct_keys_delete\<close>)
    then show ?thesis using that [OF r [unfolded put_def], of dl] False m h(2) by simp
  qed
qed

lemma hash_expire:
  assumes "holds_hash now db k H dl" "0 < ttl" "H \<noteq> Map.empty"
  obtains db' where "redis_do now (EXPIRE k ttl) db = (RInt 1, db')" "holds_hash now db' k H (Some (now + ttl))" "same_but k db db'"
proof (cases rule: holds_hashE [OF assms(1)])
  case (2 h)
  let ?db = "db(k \<mapsto> (VHash h, Some (now + ttl)))"
  have "holds_hash now ?db k (map_of h) (Some (now + ttl))" by (rule holds_hash_some) (use 2(5) assms(2) in auto)
  then show ?thesis using that [OF _ _ same_but_upd] 2 assms(2) by (simp add: redis_do_simps)
qed (use assms(3) in simp)

lemma hash_del:
  obtains r db' where "redis_do now (DEL [k]) db = (RInt r, db')" "holds_hash now db' k Map.empty None" "same_but k db db'"
proof -
  have "(\<lambda>k'. if k' \<in> set [k] then None else db k') = db(k := None)" by auto
  moreover have "holds_hash now (db(k := None)) k Map.empty None" by (rule holds_hash_empty) simp
  ultimately show thesis using that [OF _ _ same_but_upd] unfolding redis_do_simps by simp
qed

end
