(* ===== verification/Kv_Cache_Correct.thy ===== *)
theory Kv_Cache_Correct
  imports Kv_Cache Redis_Hash Generic_Cache_Correct
begin

text \<open>
  What \<open>KVCache\<close> promises: the nodes that share a cache see each other's writes once they have handled
  their messages; a swap replaces the hash as a whole. And where it does not: keys that are not strings,
  a hash that was built by single writes, a read that is overtaken by a write.
\<close>

section \<open>The scripts\<close>

lemma run_lua_bind: "run_db now (lua_bind s f) db =
   (case run_db now s db of (Inl err, db') \<Rightarrow> (Inl err, db') | (Inr x, db') \<Rightarrow> run_db now (f x) db')"
  by (induction s arbitrary: db) (auto split: prod.splits)

lemma run_no_result: "run_db now (no_result s) db = (map_sum id (\<lambda>_. []) (fst (run_db now s db)), snd (run_db now s db))"
  by (auto simp: no_result_def run_lua_bind split: prod.splits sum.splits)

lemma run_hset_all:
  assumes "holds_hash now db k H dl"
  obtains db' where "run_db now (lua_hset_all k args n f) db = run_db now (f (n + int (length args))) db'"
    "holds_hash now db' k (H ++ map_of (rev args)) dl" "same_but k db db'"
proof -
  have "\<exists>db'. run_db now (lua_hset_all k args n f) db = run_db now (f (n + int (length args))) db' \<and>
      holds_hash now db' k (H ++ map_of (rev args)) dl \<and> same_but k db db'"
    using assms
  proof (induction args arbitrary: db H n)
    case (Cons a args)
    obtain g v where a: "a = (g, v)" by (cases a)
    obtain r db1 where 1: "redis_do now (HSET k g v) db = (RInt r, db1)" "holds_hash now db1 k (H(g \<mapsto> v)) dl" "same_but k db db1"
      by (rule hash_hset [OF Cons.prems])
    obtain db2 where 2: "run_db now (lua_hset_all k args (n + 1) f) db1 = run_db now (f (n + 1 + int (length args))) db2"
      "holds_hash now db2 k (H(g \<mapsto> v) ++ map_of (rev args)) dl" "same_but k db1 db2" using Cons.IH [OF 1(2), of "n + 1"] by blast
    have "H(g \<mapsto> v) ++ map_of (rev args) = H ++ map_of (rev (a # args))" by (simp add: a map_add_assoc)
    then show ?case using 1(1) 2(1,2) same_but_trans [OF 1(3) 2(3)] by (intro exI [of _ db2]) (simp add: a ac_simps)
  next
    case Nil
    then show ?case by (intro exI [of _ db]) simp
  qed
  then show thesis using that by blast
qed

lemma map_of_rev_empty: "map_of (rev args) = Map.empty \<longleftrightarrow> args = []"
  by (cases args rule: rev_cases) (auto simp: fun_eq_iff split: if_splits)

lemma run_set_many:
  assumes "holds_hash now db k H dl" "args \<noteq> []"
  obtains n db' where "run_db now (luaKVSetMany k ttl args) db = (Inr n, db')"
    "holds_hash now db' k (H ++ map_of (rev args)) (if 0 < ttl then Some (now + ttl * second) else dl)" "same_but k db db'"
proof -
  let ?f = "\<lambda>n. if 0 < ttl then Call (EXPIRE k (ttl * second)) (\<lambda>_. Return n) else Return n"
  obtain db1 where 1: "run_db now (lua_hset_all k args 0 ?f) db = run_db now (?f (0 + int (length args))) db1"
    "holds_hash now db1 k (H ++ map_of (rev args)) dl" "same_but k db db1" by (rule run_hset_all [OF assms(1)])
  show thesis
  proof (cases "0 < ttl")
    case True
    then have p: "0 < ttl * second" by (simp add: second_def)
    have ne: "H ++ map_of (rev args) \<noteq> Map.empty" using assms(2) map_of_rev_empty [of args] by (auto simp: map_add_None fun_eq_iff) 
    obtain db2 where 2: "redis_do now (EXPIRE k (ttl * second)) db1 = (RInt 1, db2)"
      "holds_hash now db2 k (H ++ map_of (rev args)) (Some (now + ttl * second))" "same_but k db1 db2" by (rule hash_expire [OF 1(2) p ne])
    show ?thesis by (rule that [of "int (length args)" db2]) (use 1(1) 2 True same_but_trans [OF 1(3) 2(3)] in \<open>simp_all add: luaKVSetMany_def\<close>)
  next
    case False
    then show ?thesis using that [of "int (length args)" db1] 1 by (simp add: luaKVSetMany_def)
  qed
qed

lemma run_replace_all:
  obtains n db' where "run_db now (luaKVReplaceAll k ttl args) db = (Inr n, db')"
    "holds_hash now db' k (map_of (rev args)) (if 0 < ttl \<and> args \<noteq> [] then Some (now + ttl * second) else None)" "same_but k db db'"
proof -
  let ?f = "\<lambda>n. if 0 < ttl \<and> 0 < n then Call (EXPIRE k (ttl * second)) (\<lambda>_. Return n) else Return n"
  obtain r db0 where 0: "redis_do now (DEL [k]) db = (RInt r, db0)" "holds_hash now db0 k Map.empty None" "same_but k db db0" by (rule hash_del)
  obtain db1 where 1: "run_db now (lua_hset_all k args 0 ?f) db0 = run_db now (?f (0 + int (length args))) db1"
    "holds_hash now db1 k (Map.empty ++ map_of (rev args)) None" "same_but k db0 db1" by (rule run_hset_all [OF 0(2)])
  have run: "run_db now (luaKVReplaceAll k ttl args) db = run_db now (?f (0 + int (length args))) db1"
    using 0(1) 1(1) by (simp add: luaKVReplaceAll_def)
  note s = same_but_trans [OF 0(3) 1(3)]
  show thesis
  proof (cases "0 < ttl \<and> args \<noteq> []")
    case True
    then have p: "0 < ttl * second" by (simp add: second_def)
    have ne: "Map.empty ++ map_of (rev args) \<noteq> Map.empty" using True map_of_rev_empty by simp
    obtain db2 where 2: "redis_do now (EXPIRE k (ttl * second)) db1 = (RInt 1, db2)"
      "holds_hash now db2 k (Map.empty ++ map_of (rev args)) (Some (now + ttl * second))" "same_but k db1 db2" by (rule hash_expire [OF 1(2) p ne])
    show ?thesis by (rule that [of "int (length args)" db2]) (use run 2 True same_but_trans [OF s 2(3)] in simp_all)
  next
    case False
    then show ?thesis using that [of "int (length args)" db1] run 1(2) s by auto
  qed
qed

lemma run_hmget:
  assumes "holds_hash now db k H dl"
  shows "run_db now (HMGET k fs) db = (Inr (map H fs), db)"
  by (induction fs) (simp_all add: hash_hget [OF assms] run_lua_bind split: option.splits)

lemma run_hdels:
  assumes "holds_hash now db k H dl"
  obtains db' dl' where "run_db now (HDELS k fs) db = (Inr [], db')" "holds_hash now db' k (H |` (- set fs)) dl'" "same_but k db db'"
    "dl' = dl \<or> H |` (- set fs) = Map.empty"
proof -
  have "\<exists>db' dl'. run_db now (HDELS k fs) db = (Inr [], db') \<and> holds_hash now db' k (H |` (- set fs)) dl' \<and> same_but k db db' \<and>
      (dl' = dl \<or> H |` (- set fs) = Map.empty)"
    using assms
  proof (induction fs arbitrary: db H dl)
    case Nil
    then show ?case by (intro exI [of _ db] exI [of _ dl]) (simp add: restrict_map_def)
  next
    case (Cons f fs)
    obtain r db1 dl1 where 1: "redis_do now (HDEL k f) db = (RInt r, db1)" "holds_hash now db1 k (H(f := None)) dl1" "same_but k db db1"
      "dl1 = dl \<or> H(f := None) = Map.empty" by (rule hash_hdel [OF Cons.prems])
    obtain db2 dl2 where 2: "run_db now (HDELS k fs) db1 = (Inr [], db2)" "holds_hash now db2 k ((H(f := None)) |` (- set fs)) dl2" "same_but k db1 db2"
      "dl2 = dl1 \<or> (H(f := None)) |` (- set fs) = Map.empty" using Cons.IH [OF 1(2)] by blast
    have e: "(H(f := None)) |` (- set fs) = H |` (- set (f # fs))" by (auto simp: restrict_map_def fun_eq_iff)
    have "dl2 = dl \<or> H |` (- set (f # fs)) = Map.empty" using 1(4) 2(4) unfolding e [symmetric] by (auto simp: restrict_map_def)
    then show ?case using 1(1) 2(1,2) e same_but_trans [OF 1(3) 2(3)] by (intro exI [of _ db2] exI [of _ dl2]) simp
  qed
  then show thesis using that by blast
qed

section \<open>Nodes\<close>

text \<open>
  A server that answers, with the messages of the channel \<open>ch\<close> on their way to each node; \<open>pop i n\<close> takes
  message \<open>n\<close> of node \<open>i\<close>.
\<close>

definition bus_law :: "'d kv_server \<Rightarrow> ('d \<Rightarrow> redis_db) \<Rightarrow> string \<Rightarrow> ('d \<Rightarrow> nat \<Rightarrow> string list) \<Rightarrow> (nat \<Rightarrow> nat \<Rightarrow> 'd \<Rightarrow> 'd) \<Rightarrow> bool" where
  "bus_law S db ch inbox pop \<longleftrightarrow> redis_law (ks_redis S) db \<and> redis_up (ks_redis S) \<and>
     (\<forall>now c d. inbox (snd (rd_call (ks_redis S) now c d)) = inbox d) \<and>
     (\<forall>ch' m d. db (ks_PUBLISH S ch' m d) = db d \<and> inbox (ks_PUBLISH S ch' m d) = (if ch' = ch then (\<lambda>i. inbox d i @ [m]) else inbox d)) \<and>
     (\<forall>i n d. db (pop i n d) = db d \<and> inbox (pop i n d) = (inbox d)(i := take n (inbox d i) @ drop (Suc n) (inbox d i)))"

text \<open>
  The source of the values, a database of the application: \<open>src d\<close> are its values, \<open>change M\<close> changes them to
  \<open>M\<close>. Neither Redis nor the messages touch it.
\<close>

definition source_law ::
  "'d kv_server \<Rightarrow> ('d \<Rightarrow> redis_db) \<Rightarrow> ('d \<Rightarrow> nat \<Rightarrow> string list) \<Rightarrow> (nat \<Rightarrow> nat \<Rightarrow> 'd \<Rightarrow> 'd) \<Rightarrow> ('d \<Rightarrow> ('k \<rightharpoonup> 'v)) \<Rightarrow> (('k \<rightharpoonup> 'v) \<Rightarrow> 'd \<Rightarrow> 'd) \<Rightarrow> bool" where
  "source_law S db inbox pop src change \<longleftrightarrow> (\<forall>now c d. src (snd (rd_call (ks_redis S) now c d)) = src d) \<and>
     (\<forall>ch m d. src (ks_PUBLISH S ch m d) = src d) \<and> (\<forall>i n d. src (pop i n d) = src d) \<and>
     (\<forall>M d. src (change M d) = M \<and> db (change M d) = db d \<and> inbox (change M d) = inbox d)"

text \<open>JSON keeps messages of ASCII strings; keys are strings; a value is read back from its stored form.\<close>

definition iv_law :: "iv_json \<Rightarrow> bool" where
  "iv_law J \<longleftrightarrow> (\<forall>m. ascii (iv_Sender m) \<longrightarrow> ascii (iv_Op m) \<longrightarrow> list_all ascii (iv_Keys m) \<longrightarrow>
     (\<exists>s. iv_Marshal J m = Inr s \<and> s \<noteq> [] \<and> iv_Unmarshal J s = Inr m))"

definition kt_law :: "('k, 'v) kv_types \<Rightarrow> bool" where
  "kt_law Y \<longleftrightarrow> kt_isString Y \<and> (\<forall>k. kt_key Y (kt_MustString Y k) = k) \<and> (\<forall>s. kt_MustString Y (kt_key Y s) = s)"

definition storable :: "('k, 'v) kv_types \<Rightarrow> 'v \<Rightarrow> bool" where
  "storable Y v \<longleftrightarrow> (\<exists>s. encodeValue Y v = Inr s \<and> decodeValue Y s = Inr v)"

text \<open>
  A loader reads the source: what it gives is there, and can be stored. It may give less than there is, or
  fail. A batch loader is complete if it gives what there is of the keys it is asked for.
\<close>

definition reads_source ::
  "('k, 'v) kv_types \<Rightarrow> ('d \<Rightarrow> redis_db) \<Rightarrow> ('d \<Rightarrow> nat \<Rightarrow> string list) \<Rightarrow> ('d \<Rightarrow> ('k \<rightharpoonup> 'v)) \<Rightarrow> ('d \<Rightarrow> ('k, 'v) go_map go_result \<times> 'd) \<Rightarrow> bool" where
  "reads_source Y db inbox src load \<longleftrightarrow> (\<forall>d. (let (r, d') = load d in db d' = db d \<and> inbox d' = inbox d \<and> src d' = src d \<and>
     (case r of Inl err \<Rightarrow> True | Inr data \<Rightarrow> \<forall>(k, v)\<in>set data. src d k = Some v \<and> storable Y v)))"

definition complete_loader :: "('d \<Rightarrow> ('k \<rightharpoonup> 'v)) \<Rightarrow> ('k, 'v, 'd) BatchLoader \<Rightarrow> bool" where
  "complete_loader src bl \<longleftrightarrow> (\<forall>keys d. \<exists>data. fst (bl keys d) = Inr data \<and> (\<forall>k\<in>set keys. map_of data k = src d k))"

definition loads_from ::
  "('k, 'v) kv_types \<Rightarrow> ('d \<Rightarrow> redis_db) \<Rightarrow> ('d \<Rightarrow> nat \<Rightarrow> string list) \<Rightarrow> ('d \<Rightarrow> ('k \<rightharpoonup> 'v)) \<Rightarrow> ('k, 'v, 'd) KVCache \<Rightarrow> bool" where
  "loads_from Y db inbox src c \<longleftrightarrow> (\<forall>l. kv_loader c = Some l \<longrightarrow> reads_source Y db inbox src l) \<and>
     (\<forall>bl keys. kv_batchLoader c = Some bl \<longrightarrow> reads_source Y db inbox src (bl keys))"

lemma reads_sourceD:
  assumes "reads_source Y db inbox src load" "load d = (r, d')"
  shows "db d' = db d" "inbox d' = inbox d" "src d' = src d" "r = Inr data \<Longrightarrow> (k, v) \<in> set data \<Longrightarrow> src d k = Some v \<and> storable Y v"
proof -
  have "let (r, d') = load d in db d' = db d \<and> inbox d' = inbox d \<and> src d' = src d \<and>
     (case r of Inl err \<Rightarrow> True | Inr data \<Rightarrow> \<forall>(k, v)\<in>set data. src d k = Some v \<and> storable Y v)"
    using assms(1) unfolding reads_source_def by blast
  then show "db d' = db d" "inbox d' = inbox d" "src d' = src d" "r = Inr data \<Longrightarrow> (k, v) \<in> set data \<Longrightarrow> src d k = Some v \<and> storable Y v"
    unfolding assms(2) Let_def by (auto simp only: prod.case sum.case)
qed

text \<open>What the operations leave as it is, and a node of the cache, on the common hash.\<close>

definition kv_fixed :: "('k, 'v, 'd) KVCache \<Rightarrow> _" where
  "kv_fixed c = (kv_client c, kv_config c, kv_loader c, kv_batchLoader c, kv_name c, kv_pubsub c, kv_instanceID c, kv_invalidateCh c)"

definition kv_node :: "'d kv_server \<Rightarrow> string \<Rightarrow> string \<Rightarrow> ('k, 'v, 'd) KVCache \<Rightarrow> bool" where
  "kv_node S key ch c \<longleftrightarrow> kv_client c = Some S \<and> kv_redisKey c = key \<and>
     kv_invalidateCh c = ch \<and> kv_pubsub c \<and> ascii (kv_instanceID c)"

lemma fixed_simps [simp]:
  "kv_fixed (c\<lparr>kv_localCache := m\<rparr>) = kv_fixed c" "kv_fixed (setRefreshTime t c) = kv_fixed c" "kv_fixed (local_store k v c) = kv_fixed c"
  "kv_fixed (local_delete k c) = kv_fixed c" "kv_fixed (c\<lparr>kv_refreshing := b\<rparr>) = kv_fixed c"
  by (simp_all add: kv_fixed_def setRefreshTime_def local_store_def local_delete_def)

lemma fixed_store_all [simp]: "kv_fixed (local_store_all m c) = kv_fixed c"
  by (induction m arbitrary: c) (auto simp: local_store_all_def)

lemma fixed_rebuild [simp]: "kv_fixed (local_rebuild m c) = kv_fixed c"
  by (simp add: local_rebuild_def)

lemma fixed_delete_all [simp]: "kv_fixed (fold local_delete ks c) = kv_fixed c"
  by (induction ks arbitrary: c) auto

lemma fixedD:
  assumes "kv_fixed c' = kv_fixed c"
  shows "kv_client c' = kv_client c" "kv_loader c' = kv_loader c" "kv_batchLoader c' = kv_batchLoader c" "kv_redisKey c' = kv_redisKey c"
    "kv_ttl c' = kv_ttl c" "kv_pubsub c' = kv_pubsub c" "kv_instanceID c' = kv_instanceID c" "kv_invalidateCh c' = kv_invalidateCh c" "kv_name c' = kv_name c"
    "kv_node S key ch c' = kv_node S key ch c" "loads_from Y db inbox src c' = loads_from Y db inbox src c"
  using assms by (simp_all add: kv_fixed_def kv_redisKey_def kv_ttl_def kv_node_def loads_from_def)

abbreviation "local c \<equiv> map_of (kv_localCache c)"

lemma local_simps [simp]:
  "local (local_store k v c) = (local c)(k \<mapsto> v)" "local (local_delete k c) = (local c)(k := None)" "local (setRefreshTime t c) = local c"
  by (simp_all add: local_store_def local_delete_def setRefreshTime_def update_conv' delete_conv')

lemma local_store_all [simp]: "local (local_store_all m c) = local c ++ map_of (rev m)"
  by (induction m arbitrary: c) (auto simp: local_store_all_def map_add_assoc)

lemma local_rebuild [simp]: "local (local_rebuild m c) = map_of (rev m)"
  by (simp add: local_rebuild_def)

lemma local_delete_all [simp]: "local (fold local_delete ks c) = local c |` (- set ks)"
  by (induction ks arbitrary: c) (auto simp: restrict_map_def fun_eq_iff)

lemma drop_keys_local: "kt_isString Y \<Longrightarrow> map_of (drop_keys Y ks m) = map_of m |` (- kt_key Y ` set ks)"
  by (induction ks arbitrary: m) (auto simp: restrict_map_def fun_eq_iff delete_conv')

text \<open>The hash has only values of \<open>M\<close>, the current ones; and a message that makes a node drop a key.\<close>

definition agrees :: "('k, 'v) kv_types \<Rightarrow> string \<Rightarrow> time \<Rightarrow> ('k \<rightharpoonup> 'v) \<Rightarrow> redis_db \<Rightarrow> bool" where
  "agrees Y key now M D \<longleftrightarrow> (\<exists>H dl. holds_hash now D key H dl \<and> (\<forall>f s. H f = Some s \<longrightarrow> (\<exists>v. decodeValue Y s = Inr v \<and> M (kt_key Y f) = Some v)))"

definition drops :: "('k, 'v) kv_types \<Rightarrow> iv_json \<Rightarrow> string \<Rightarrow> 'k \<Rightarrow> string \<Rightarrow> bool" where
  "drops Y J me k m \<longleftrightarrow> (\<exists>msg. iv_Unmarshal J m = Inr msg \<and> iv_Sender msg = me \<and>
     (iv_Op msg = ''clear'' \<or> iv_Op msg = ''invalidate'' \<and> kt_MustString Y k \<in> set (iv_Keys msg)))"

text \<open>What a call of a node does: the hash agrees with the new map, its own entries are current or as before,
  whatever has changed is told to the others, and the source stays.\<close>

definition kv_effect ::
  "('k, 'v) kv_types \<Rightarrow> iv_json \<Rightarrow> ('d \<Rightarrow> redis_db) \<Rightarrow> ('d \<Rightarrow> nat \<Rightarrow> string list) \<Rightarrow> ('d \<Rightarrow> ('k \<rightharpoonup> 'v)) \<Rightarrow> string \<Rightarrow> time \<Rightarrow> ('k \<rightharpoonup> 'v) \<Rightarrow> ('k \<rightharpoonup> 'v) \<Rightarrow>
   ('k, 'v, 'd) KVCache \<Rightarrow> 'd \<Rightarrow> ('k, 'v, 'd) KVCache \<Rightarrow> 'd \<Rightarrow> bool" where
  "kv_effect Y J db inbox src key now M M' c d c' d' \<longleftrightarrow> src d' = src d \<and> db_wf (db d') \<and> agrees Y key now M' (db d') \<and> kv_fixed c' = kv_fixed c \<and>
     (\<forall>k v. local c' k = Some v \<longrightarrow> M' k = Some v \<or> local c k = Some v \<and> M' k = M k) \<and>
     (\<exists>msgs. inbox d' = (\<lambda>i. inbox d i @ msgs) \<and> (\<forall>k. M' k \<noteq> M k \<longrightarrow> (\<exists>m\<in>set msgs. drops Y J (kv_instanceID c) k m)))"

lemma agrees_later:
  assumes "agrees Y key now M D" "now \<le> t"
  shows "agrees Y key t M D"
proof -
  obtain H dl where h: "holds_hash now D key H dl" "\<forall>f s. H f = Some s \<longrightarrow> (\<exists>v. decodeValue Y s = Inr v \<and> M (kt_key Y f) = Some v)"
    using assms(1) unfolding agrees_def by blast
  show ?thesis by (rule holds_hash_later [OF h(1) assms(2)]) (use h(2) in \<open>auto simp: agrees_def\<close>)
qed

locale kv_nodes =
  fixes S :: "'d kv_server" and db :: "'d \<Rightarrow> redis_db" and ch :: string and inbox :: "'d \<Rightarrow> nat \<Rightarrow> string list" and pop :: "nat \<Rightarrow> nat \<Rightarrow> 'd \<Rightarrow> 'd"
    and key :: string and Y :: "('k, 'v) kv_types" and J :: iv_json and src :: "'d \<Rightarrow> ('k \<rightharpoonup> 'v)" and change :: "('k \<rightharpoonup> 'v) \<Rightarrow> 'd \<Rightarrow> 'd"
  assumes bus: "bus_law S db ch inbox pop" and json: "iv_law J" and types: "kt_law Y" and origin: "source_law S db inbox pop src change"
begin

lemma redis: "redis_law (ks_redis S) db" "redis_up (ks_redis S)"
  using bus unfolding bus_law_def by blast+

lemma run_inbox: "inbox (snd (run (ks_redis S) now s d)) = inbox d"
proof (induction s arbitrary: d)
  case (Call c f)
  have "inbox (snd (rd_call (ks_redis S) now c d)) = inbox d" using bus unfolding bus_law_def by blast
  then show ?case using Call.IH by (auto split: prod.splits)
qed simp_all

lemma run_src: "src (snd (run (ks_redis S) now s d)) = src d"
proof (induction s arbitrary: d)
  case (Call c f)
  have "src (snd (rd_call (ks_redis S) now c d)) = src d" using origin unfolding source_law_def by blast
  then show ?case using Call.IH by (auto split: prod.splits)
qed simp_all

lemma eval_inbox:
  assumes "eval (ks_redis S) now s d = (r, d')"
  shows "inbox d' = inbox d" "src d' = src d"
  using assms run_inbox [of now s d] run_src [of now s d] by (auto simp: eval_def deliver_def split: delivery.splits)

lemma client_inbox:
  assumes "client (ks_redis S) now c d = (r, d')"
  shows "inbox d' = inbox d" "src d' = src d"
  using assms unfolding client_def by (rule eval_inbox)+

lemma send_up:
  assumes "kv_node S key ch c" "db_wf (db d)" "run_db now s (db d) = (Inr x, D)" "ascii op" "list_all ascii ks"
  obtains d' m where "kv_send now (\<lambda>_ d. d) (PEval s # publish_cmd J op ks c) c d = (None, c, d')" "db d' = D" "db_wf (db d')"
    "inbox d' = (\<lambda>i. inbox d i @ [m])" "iv_Unmarshal J m = Inr \<lparr>iv_Sender = kv_instanceID c, iv_Op = op, iv_Keys = ks\<rparr>" "src d' = src d"
proof -
  have c: "kv_client c = Some S" "kv_invalidateCh c = ch" "kv_pubsub c" "ascii (kv_instanceID c)" using assms(1) by (simp_all add: kv_node_def)
  let ?msg = "\<lparr>iv_Sender = kv_instanceID c, iv_Op = op, iv_Keys = ks\<rparr>"
  have "ascii (iv_Sender ?msg)" "ascii (iv_Op ?msg)" "list_all ascii (iv_Keys ?msg)" using c(4) assms(4,5) by simp_all
  then obtain m where m: "iv_Marshal J ?msg = Inr m" "m \<noteq> []" "iv_Unmarshal J m = Inr ?msg" using json unfolding iv_law_def by blast
  have p: "publish_cmd J op ks c = [PPublish ch m]" using c m(1,2) by (simp add: publish_cmd_def buildInvalidationMsg_def)
  obtain r d1 where 1: "run (ks_redis S) now s d = (r, d1)" by fastforce
  have r: "r = Inr x" "db d1 = D" "db_wf (db d1)" using run_run_db [OF redis(1) assms(2) 1] assms(3) by simp_all
  let ?d = "ks_PUBLISH S ch m d1"
  have d: "db ?d = db d1" "inbox ?d = (\<lambda>i. inbox d1 i @ [m])" using bus unfolding bus_law_def by simp_all
  have i: "inbox d1 = inbox d" "src ?d = src d"
    using run_inbox [of now s d] run_src [of now s d] 1 origin unfolding source_law_def by simp_all
  have net: "rd_net (ks_redis S) d = Delivered" using redis(2) by (simp add: redis_up_def)
  show thesis
    by (rule that [of ?d m]) (use p 1 r d i net c(1) m(3) in \<open>simp_all add: kv_send_def kv_Exec_def\<close>)
qed

text \<open>A write: the new map, and keys that a message drops.\<close>

lemma write_effect:
  assumes "kv_node S key ch c" "db_wf (db d)" "run_db now s (db d) = (Inr x, D)" "agrees Y key now M' D" "now \<le> now'"
    "op = ''clear'' \<or> op = ''invalidate''" "list_all ascii ks" "kv_fixed c' = kv_fixed c"
    "\<And>k v. local c' k = Some v \<Longrightarrow> M' k = Some v \<or> local c k = Some v \<and> M' k = M k"
    "\<And>k. M' k \<noteq> M k \<Longrightarrow> op = ''clear'' \<or> kt_MustString Y k \<in> set ks"
    "kv_send now (\<lambda>_ d. d) (PEval s # publish_cmd J op ks c') c' d = (e, c1, d1)"
  shows "e = None \<and> kv_effect Y J db inbox src key now' M M' c d c1 d1"
proof -
  have n: "kv_node S key ch c'" using assms(1) fixedD(10) [OF assms(8)] by simp
  have a: "ascii op" using assms(6) by (auto simp: ascii_def)
  obtain d' m where d: "kv_send now (\<lambda>_ d. d) (PEval s # publish_cmd J op ks c') c' d = (None, c', d')" "db d' = D" "db_wf (db d')"
    "inbox d' = (\<lambda>i. inbox d i @ [m])" "iv_Unmarshal J m = Inr \<lparr>iv_Sender = kv_instanceID c', iv_Op = op, iv_Keys = ks\<rparr>" "src d' = src d"
    by (rule send_up [OF n assms(2,3) a assms(7)])
  have "drops Y J (kv_instanceID c) k m" if "M' k \<noteq> M k" for k
    using assms(6) assms(10) [OF that] d(5) fixedD(7) [OF assms(8)] by (auto simp: drops_def)
  then show ?thesis
    using d assms(11) agrees_later [OF assms(4,5)] assms(8,9) unfolding kv_effect_def by auto
qed

text \<open>Each write.\<close>

lemma clock_agrees:
  assumes "agrees Y key now M (db d)" "db_wf (db d)" "now \<le> t"
  obtains H dl where "holds_hash t (db d) key H dl" "\<And>f s. H f = Some s \<Longrightarrow> \<exists>v. decodeValue Y s = Inr v \<and> M (kt_key Y f) = Some v"
  using agrees_later [OF assms(1,3)] unfolding agrees_def by blast

lemma key_eq: "kt_key Y (kt_MustString Y k) = k" "kt_MustString Y (kt_key Y s) = s" "kt_isString Y"
  using types unfolding kt_law_def by blast+

lemma key_iff: "kt_key Y f = k \<longleftrightarrow> f = kt_MustString Y k"
  using key_eq by metis

lemma encode_storable:
  assumes "\<forall>i\<in>set items. storable Y (snd i)"
  obtains args where "encode_args Y items = Inr args" "map fst args = map (kt_MustString Y \<circ> fst) items"
    "\<And>f s. map_of (rev args) f = Some s \<Longrightarrow> \<exists>v. decodeValue Y s = Inr v \<and> map_of (rev items) (kt_key Y f) = Some v"
    "\<And>f. map_of (rev args) f = None \<Longrightarrow> map_of (rev items) (kt_key Y f) = None"
proof -
  have "\<exists>args. encode_args Y items = Inr args \<and> map fst args = map (kt_MustString Y \<circ> fst) items \<and>
      list_all2 (\<lambda>(f, s) (k, v). f = kt_MustString Y k \<and> decodeValue Y s = Inr v) args items"
    using assms
  proof (induction items)
    case (Cons i items)
    obtain k v where i: "i = (k, v)" by (cases i)
    obtain s where s: "encodeValue Y v = Inr s" "decodeValue Y s = Inr v" using Cons.prems i by (auto simp: storable_def)
    have p: "\<forall>i\<in>set items. storable Y (snd i)" using Cons.prems by simp
    obtain args where "encode_args Y items = Inr args" "map fst args = map (kt_MustString Y \<circ> fst) items"
      "list_all2 (\<lambda>(f, s) (k, v). f = kt_MustString Y k \<and> decodeValue Y s = Inr v) args items" using Cons.IH [OF p] by blast
    then show ?case by (intro exI [of _ "(kt_MustString Y k, s) # args"]) (simp add: i s)
  qed simp
  then obtain args where a: "encode_args Y items = Inr args" "map fst args = map (kt_MustString Y \<circ> fst) items"
    "list_all2 (\<lambda>(f, s) (k, v). f = kt_MustString Y k \<and> decodeValue Y s = Inr v) args items" by blast
  have m: "(case map_of fs f of None \<Rightarrow> map_of ks (kt_key Y f) = None | Some s \<Rightarrow> \<exists>v. decodeValue Y s = Inr v \<and> map_of ks (kt_key Y f) = Some v)"
    if "list_all2 (\<lambda>(f, s) (k, v). f = kt_MustString Y k \<and> decodeValue Y s = Inr v) fs ks" for fs ks f
    using that by (induction rule: list_all2_induct) (auto simp: key_iff split: if_splits option.splits)
  have r: "list_all2 (\<lambda>(f, s) (k, v). f = kt_MustString Y k \<and> decodeValue Y s = Inr v) (rev args) (rev items)"
    using a(3) by (simp add: list_all2_rev)
  show thesis
  proof (rule that [OF a(1,2)])
    show "\<exists>v. decodeValue Y s = Inr v \<and> map_of (rev items) (kt_key Y f) = Some v" if "map_of (rev args) f = Some s" for f s
      using m [OF r, of f] that by simp
    show "map_of (rev items) (kt_key Y f) = None" if "map_of (rev args) f = None" for f
      using m [OF r, of f] that by simp
  qed
qed

lemma set_many_effect:
  assumes "kv_node S key ch c" "db_wf (db d)" "agrees Y key now M (db d)" "now \<le> t" "t \<le> now'"
    "items \<noteq> []" "\<And>k v. (k, v) \<in> set items \<Longrightarrow> storable Y v \<and> ascii (kt_MustString Y k)"
    "kv_SetMany Y J t (\<lambda>_ d. d) items c d = (e, c', d')"
  shows "e = None \<and> kv_effect Y J db inbox src key now' M (M ++ map_of (rev items)) c d c' d'"
proof -
  obtain args where a: "encode_args Y items = Inr args" "map fst args = map (kt_MustString Y \<circ> fst) items"
    "\<And>f s. map_of (rev args) f = Some s \<Longrightarrow> \<exists>v. decodeValue Y s = Inr v \<and> map_of (rev items) (kt_key Y f) = Some v"
    "\<And>f. map_of (rev args) f = None \<Longrightarrow> map_of (rev items) (kt_key Y f) = None"
    by (rule encode_storable [of items]) (use assms(7) in auto)
  obtain H dl where h: "holds_hash t (db d) key H dl" "\<And>f s. H f = Some s \<Longrightarrow> \<exists>v. decodeValue Y s = Inr v \<and> M (kt_key Y f) = Some v"
    by (rule clock_agrees [OF assms(3,2,4)]) blast
  let ?c = "local_store_all items c"
  have f: "kv_fixed ?c = kv_fixed c" by simp
  have ne: "args \<noteq> []" using a(2) assms(6) by auto
  obtain n D where D: "run_db t (luaKVSetMany key (kv_ttl ?c) args) (db d) = (Inr n, D)"
    "holds_hash t D key (H ++ map_of (rev args)) (if 0 < kv_ttl ?c then Some (t + kv_ttl ?c * second) else dl)"
    by (rule run_set_many [OF h(1) ne])
  have "\<forall>f s. (H ++ map_of (rev args)) f = Some s \<longrightarrow> (\<exists>v. decodeValue Y s = Inr v \<and> (M ++ map_of (rev items)) (kt_key Y f) = Some v)"
  proof (intro allI impI)
    fix f s
    assume "(H ++ map_of (rev args)) f = Some s"
    then show "\<exists>v. decodeValue Y s = Inr v \<and> (M ++ map_of (rev items)) (kt_key Y f) = Some v"
      using h(2) [of f s] a(3) [of f s] a(4) [of f] by (cases "map_of (rev args) f") (auto simp: map_add_def)
  qed
  then have ag: "agrees Y key t (M ++ map_of (rev items)) D" unfolding agrees_def using D(2) by blast
  have run: "run_db t (no_result (luaKVSetMany (kv_redisKey ?c) (kv_ttl ?c) args)) (db d) = (Inr [], D)"
    using D(1) assms(1) fixedD(4) [OF f] by (simp add: run_no_result kv_node_def)
  have send: "kv_send t (\<lambda>_ d. d) (PEval (no_result (luaKVSetMany (kv_redisKey ?c) (kv_ttl ?c) args)) # publish_cmd J ''invalidate'' (map fst args) ?c) ?c d = (e, c', d')"
    using assms(6,8) a(1) by (simp add: kv_SetMany_def Let_def)
  show ?thesis
    by (rule write_effect [OF assms(1,2) run ag assms(5) _ _ f _ _ send])
      (use assms(7) a(2) in \<open>auto simp: list_all_iff map_add_def dest!: map_of_SomeD split: option.splits\<close>, force)
qed

lemma set_effect:
  assumes "kv_node S key ch c" "db_wf (db d)" "agrees Y key now M (db d)" "now \<le> t" "t \<le> now'" "storable Y v" "ascii (kt_MustString Y k)"
    "kv_Set Y J t (\<lambda>_ d. d) k v c d = (e, c', d')"
  shows "e = None \<and> kv_effect Y J db inbox src key now' M (M(k \<mapsto> v)) c d c' d'"
proof -
  have "kv_SetMany Y J t (\<lambda>_ d. d) [(k, v)] c d = kv_Set Y J t (\<lambda>_ d. d) k v c d"
    by (simp add: kv_SetMany_def kv_Set_def Let_def local_store_all_def split: sum.splits)
  then have s: "kv_SetMany Y J t (\<lambda>_ d. d) [(k, v)] c d = (e, c', d')" using assms(8) by simp
  have "e = None \<and> kv_effect Y J db inbox src key now' M (M ++ map_of (rev [(k, v)])) c d c' d'"
    by (rule set_many_effect [OF assms(1-5) _ _ s]) (use assms(6,7) in auto)
  then show ?thesis by simp
qed

text \<open>What is deleted may have any new value in the source.\<close>

lemma delete_many_effect:
  assumes "kv_node S key ch c" "db_wf (db d)" "agrees Y key now M (db d)" "now \<le> t" "t \<le> now'" "\<forall>k. k \<notin> set ks \<longrightarrow> M' k = M k"
    "ks \<noteq> []" "\<forall>k\<in>set ks. ascii (kt_MustString Y k)" "kv_DeleteMany Y J t (\<lambda>_ d. d) ks c d = (e, c', d')"
  shows "e = None \<and> kv_effect Y J db inbox src key now' M M' c d c' d'"
proof -
  obtain H dl where h: "holds_hash t (db d) key H dl" "\<And>f s. H f = Some s \<Longrightarrow> \<exists>v. decodeValue Y s = Inr v \<and> M (kt_key Y f) = Some v"
    by (rule clock_agrees [OF assms(3,2,4)]) blast
  let ?c = "fold local_delete ks c" and ?fs = "map (kt_MustString Y) ks"
  have f: "kv_fixed ?c = kv_fixed c" by simp
  obtain D dl' where D: "run_db t (HDELS key ?fs) (db d) = (Inr [], D)" "holds_hash t D key (H |` (- set ?fs)) dl'"
    by (rule run_hdels [OF h(1)])
  have "\<forall>f s. (H |` (- set ?fs)) f = Some s \<longrightarrow> (\<exists>v. decodeValue Y s = Inr v \<and> M' (kt_key Y f) = Some v)"
  proof (intro allI impI)
    fix f s
    assume r: "(H |` (- set ?fs)) f = Some s"
    then have "f \<notin> set ?fs" "H f = Some s" by (auto simp: restrict_map_def split: if_splits)
    then have "kt_key Y f \<notin> set ks" using key_eq(2) [of f] by force
    then show "\<exists>v. decodeValue Y s = Inr v \<and> M' (kt_key Y f) = Some v" using h(2) [OF \<open>H f = Some s\<close>] assms(6) by simp
  qed
  then have ag: "agrees Y key t M' D" unfolding agrees_def using D(2) by blast
  have run: "run_db t (HDELS (kv_redisKey ?c) ?fs) (db d) = (Inr [], D)"
    using D(1) assms(1) fixedD(4) [OF f] by (simp add: kv_node_def)
  have send: "kv_send t (\<lambda>_ d. d) (PEval (HDELS (kv_redisKey ?c) ?fs) # publish_cmd J ''invalidate'' ?fs ?c) ?c d = (e, c', d')"
    using assms(7,9) by (simp add: kv_DeleteMany_def Let_def)
  have told: "''invalidate'' = ''clear'' \<or> kt_MustString Y k \<in> set ?fs" if "M' k \<noteq> M k" for k using that assms(6) by auto
  show ?thesis
    by (rule write_effect [OF assms(1,2) run ag assms(5) _ _ f _ told send])
      (use assms(6,8) in \<open>auto simp: list_all_iff restrict_map_def split: if_splits\<close>)
qed

lemma delete_effect:
  assumes "kv_node S key ch c" "db_wf (db d)" "agrees Y key now M (db d)" "now \<le> t" "t \<le> now'" "\<forall>k'. k' \<noteq> k \<longrightarrow> M' k' = M k'"
    "ascii (kt_MustString Y k)" "kv_Delete Y J t (\<lambda>_ d. d) k c d = (e, c', d')"
  shows "e = None \<and> kv_effect Y J db inbox src key now' M M' c d c' d'"
proof -
  have s: "kv_DeleteMany Y J t (\<lambda>_ d. d) [k] c d = (e, c', d')" using assms(8) by (simp add: kv_DeleteMany_def kv_Delete_def Let_def)
  show ?thesis by (rule delete_many_effect [OF assms(1-5) _ _ _ s]) (use assms(6,7) in auto)
qed

lemma clear_effect:
  assumes "kv_node S key ch c" "db_wf (db d)" "t \<le> now'" "kv_Clear J t here (\<lambda>_ d. d) c d = (e, c', d')"
  shows "e = None \<and> kv_effect Y J db inbox src key now' M M' c d c' d'"
proof -
  let ?c = "setRefreshTime here (c\<lparr>kv_localCache := []\<rparr>)"
  have f: "kv_fixed ?c = kv_fixed c" by simp
  obtain r D where D: "redis_do t (DEL [key]) (db d) = (RInt r, D)" "holds_hash t D key Map.empty None" by (rule hash_del)
  have ag: "agrees Y key t M' D" unfolding agrees_def using D(2) by fastforce
  have run: "run_db t (no_result (Call (DEL [kv_redisKey ?c]) Return)) (db d) = (Inr [], D)"
    using D(1) assms(1) fixedD(4) [OF f] by (simp add: run_no_result kv_node_def)
  have send: "kv_send t (\<lambda>_ d. d) (PEval (no_result (Call (DEL [kv_redisKey ?c]) Return)) # publish_cmd J ''clear'' [] ?c) ?c d = (e, c', d')"
    using assms(4) by (simp add: kv_Clear_def Let_def)
  show ?thesis by (rule write_effect [OF assms(1,2) run ag assms(3) _ _ f _ _ send]) auto
qed

text \<open>Each read: the map of the writes stays, and what is found is current or was there before.\<close>

lemma read_effect:
  assumes "db_wf (db d')" "db d' = db d" "inbox d' = inbox d" "src d' = src d" "agrees Y key now M (db d)" "now \<le> now'" "kv_fixed c' = kv_fixed c"
    "\<And>k v. local c' k = Some v \<Longrightarrow> M k = Some v \<or> local c k = Some v"
  shows "kv_effect Y J db inbox src key now' M M c d c' d'"
  unfolding kv_effect_def
proof (intro conjI)
  show "\<exists>msgs. inbox d' = (\<lambda>i. inbox d i @ msgs) \<and> (\<forall>k. M k \<noteq> M k \<longrightarrow> (\<exists>m\<in>set msgs. drops Y J (kv_instanceID c) k m))"
    by (rule exI [of _ "[]"]) (simp add: assms(3))
qed (use assms(1,2,4,7,8) agrees_later [OF assms(5,6)] in auto)

text \<open>A step that only reads, before a call.\<close>

lemma effect_after:
  assumes "kv_effect Y J db inbox src key now M M c1 d1 c' d'" "inbox d1 = inbox d" "src d1 = src d" "kv_fixed c1 = kv_fixed c"
    "\<And>k v. local c1 k = Some v \<Longrightarrow> M k = Some v \<or> local c k = Some v"
  shows "kv_effect Y J db inbox src key now M M c d c' d'"
  using assms unfolding kv_effect_def by (metis (no_types, lifting))

text \<open>Writing to the hash what a loader gave.\<close>

lemma writeMany_up:
  assumes "kv_node S key ch c" "db_wf (db d)" "agrees Y key now M (db d)" "now \<le> t" "t \<le> now'"
    "\<forall>i\<in>set items. M (fst i) = Some (snd i) \<and> storable Y (snd i)" "writeManyToRedis Y t items c d = (e, d')"
  shows "db_wf (db d') \<and> agrees Y key now' M (db d') \<and> inbox d' = inbox d \<and> src d' = src d"
proof (cases "items = []")
  case True
  then show ?thesis using assms(2-5,7) agrees_later [OF assms(3), of now'] by (simp add: writeManyToRedis_def)
next
  case False
  obtain args where a: "encode_args Y items = Inr args" "map fst args = map (kt_MustString Y \<circ> fst) items"
    "\<And>f s. map_of (rev args) f = Some s \<Longrightarrow> \<exists>v. decodeValue Y s = Inr v \<and> map_of (rev items) (kt_key Y f) = Some v"
    "\<And>f. map_of (rev args) f = None \<Longrightarrow> map_of (rev items) (kt_key Y f) = None"
    by (rule encode_storable [of items]) (use assms(6) in auto)
  obtain H dl where h: "holds_hash t (db d) key H dl" "\<And>f s. H f = Some s \<Longrightarrow> \<exists>v. decodeValue Y s = Inr v \<and> M (kt_key Y f) = Some v"
    by (rule clock_agrees [OF assms(3,2,4)]) blast
  have ne: "args \<noteq> []" using a(2) False by auto
  obtain n D where D: "run_db t (luaKVSetMany key (kv_ttl c) args) (db d) = (Inr n, D)"
    "holds_hash t D key (H ++ map_of (rev args)) (if 0 < kv_ttl c then Some (t + kv_ttl c * second) else dl)"
    by (rule run_set_many [OF h(1) ne])
  have "\<forall>f s. (H ++ map_of (rev args)) f = Some s \<longrightarrow> (\<exists>v. decodeValue Y s = Inr v \<and> M (kt_key Y f) = Some v)"
  proof (intro allI impI)
    fix f s
    assume f: "(H ++ map_of (rev args)) f = Some s"
    show "\<exists>v. decodeValue Y s = Inr v \<and> M (kt_key Y f) = Some v"
    proof (cases "map_of (rev args) f")
      case None
      then show ?thesis using f h(2) by (simp add: map_add_def)
    next
      case (Some s')
      then obtain v where "decodeValue Y s' = Inr v" "map_of (rev items) (kt_key Y f) = Some v" using a(3) by blast
      moreover from this(2) have "M (kt_key Y f) = Some v" using assms(6) by (force dest: map_of_SomeD)
      ultimately show ?thesis using Some f by (simp add: map_add_def)
    qed
  qed
  then have ag: "agrees Y key t M D" unfolding agrees_def using D(2) by blast
  have cl: "kv_client c = Some S" "kv_redisKey c = key" using assms(1) by (simp_all add: kv_node_def)
  obtain d1 where ev: "eval (ks_redis S) t (luaKVSetMany key (kv_ttl c) args) d = (fst (run_db t (luaKVSetMany key (kv_ttl c) args) (db d)), d1)"
    "db d1 = snd (run_db t (luaKVSetMany key (kv_ttl c) args) (db d))" "db_wf (db d1)"
    by (rule eval_up [OF redis assms(2)])
  have "d' = d1" using assms(7) False a(1) cl ev(1) by (simp add: writeManyToRedis_def)
  then show ?thesis using ev(2,3) D(1) eval_inbox [OF ev(1)] agrees_later [OF ag assms(5)] by simp
qed

lemma HGet_up:
  assumes "kv_node S key ch c" "db_wf (db d)" "agrees Y key now M (db d)" "now \<le> t" "kv_HGet Y S t k c d = (r, d')"
  shows "db d' = db d \<and> db_wf (db d') \<and> inbox d' = inbox d \<and> src d' = src d \<and> (\<forall>v. r = Some v \<longrightarrow> M k = Some v)"
proof -
  obtain H dl where h: "holds_hash t (db d) key H dl" "\<And>f s. H f = Some s \<Longrightarrow> \<exists>v. decodeValue Y s = Inr v \<and> M (kt_key Y f) = Some v"
    by (rule clock_agrees [OF assms(3,2,4)]) blast
  have do: "redis_do t (HGET key (kt_MustString Y k)) (db d) = (case H (kt_MustString Y k) of None \<Rightarrow> RNil | Some s \<Rightarrow> RBulk s, db d)"
    by (rule hash_hget [OF h(1)])
  have key: "kv_redisKey c = key" using assms(1) by (simp add: kv_node_def)
  show ?thesis
  proof (cases "H (kt_MustString Y k)")
    case None
    then have do': "redis_do t (HGET key (kt_MustString Y k)) (db d) = (RNil, db d)" using do by simp
    obtain d1 where 1: "client (ks_redis S) t (HGET key (kt_MustString Y k)) d = (Inl RedisNil, d1)" "db d1 = db d" "db_wf (db d1)"
      by (rule client_up_nil [OF redis assms(2) do'])
    then show ?thesis using assms(5) client_inbox [OF 1(1)] by (simp add: kv_HGet_def client_str_def key)
  next
    case (Some s)
    then have do': "redis_do t (HGET key (kt_MustString Y k)) (db d) = (RBulk s, db d)" using do by simp
    obtain d1 where 1: "client (ks_redis S) t (HGET key (kt_MustString Y k)) d = (Inr (RBulk s), d1)" "db d1 = db d" "db_wf (db d1)"
      by (rule client_up [OF redis assms(2) do']; (erule (2) that | simp))
    have "M (kt_key Y (kt_MustString Y k)) = Some v" if "decodeValue Y s = Inr v" for v using h(2) [OF Some] that by auto
    then show ?thesis using assms(5) 1 client_inbox [OF 1(1)] by (auto simp: kv_HGet_def client_str_def key key_eq split: sum.splits)
  qed
qed

lemma redis_entries_current:
  assumes "distinct (map fst h)" "\<And>f s. map_of h f = Some s \<Longrightarrow> \<exists>v. decodeValue Y s = Inr v \<and> M (kt_key Y f) = Some v"
    "(k, v) \<in> set (redis_entries Y (concat (map (\<lambda>(f, v). [f, v]) h)))"
  shows "M k = Some v"
proof -
  have "\<exists>f s. (f, s) \<in> set h \<and> kt_key Y f = k \<and> decodeValue Y s = Inr v" using assms(3)
  proof (induction h)
    case (Cons i h)
    obtain f s where i: "i = (f, s)" by (cases i)
    consider "kt_key Y f = k" "decodeValue Y s = Inr v" | "(k, v) \<in> set (redis_entries Y (concat (map (\<lambda>(f, v). [f, v]) h)))"
      using Cons.prems by (auto simp: i split: sum.splits)
    then show ?case using Cons.IH by cases (auto simp: i)
  qed simp
  then obtain f s where "map_of h f = Some s" "kt_key Y f = k" "decodeValue Y s = Inr v" using assms(1) by (metis map_of_is_SomeI)
  then show ?thesis using assms(2) by fastforce
qed

text \<open>Loading everything from the source.\<close>

lemma loadFromSource_up:
  assumes n: "kv_node S key ch c" "loads_from Y db inbox src c" and "db_wf (db d)" "agrees Y key now M (db d)" "src d = M"
    and T: "\<And>n. now \<le> T n" "\<And>n. T n \<le> now'" and l: "loadFromSource Y T c d = (r, c', d')"
  shows "kv_effect Y J db inbox src key now' M M c d c' d' \<and> (\<forall>data k v. r = Inr data \<longrightarrow> (k, v) \<in> set data \<longrightarrow> M k = Some v)"
proof (cases "kv_loader c")
  case None
  then have "r = Inl (no_loader (kv_name c))" "c' = c" "d' = d" using l by (auto simp: loadFromSource_def)
  moreover have "now \<le> now'" using T [of 0] by simp
  ultimately show ?thesis using read_effect [OF assms(3) refl refl refl assms(4), of now' c c] by simp
next
  case (Some loader)
  obtain r1 d1 where 1: "loader d = (r1, d1)" by fastforce
  have rs: "reads_source Y db inbox src loader" using n(2) Some by (simp add: loads_from_def)
  note ld = reads_sourceD [OF rs 1]
  have le: "now \<le> now'" using T [of 0] by simp
  have a1: "agrees Y key now M (db d1)" "db_wf (db d1)" using assms(3,4) ld(1) by simp_all
  show ?thesis
  proof (cases r1)
    case (Inl err)
    then have "r = Inl (loader_failed (kv_name c) err)" "c' = c" "d' = d1" using l Some 1 by (auto simp: loadFromSource_def)
    then show ?thesis using read_effect [OF a1(2) ld(1-3) assms(4) le, of c c] by simp
  next
    case (Inr data)
    let ?c = "setRefreshTime (T 0) (local_rebuild data c)"
    have f: "kv_fixed ?c = kv_fixed c" by simp
    have nc: "kv_node S key ch ?c" using n(1) fixedD(10) [OF f] by simp
    have cur: "M k = Some v \<and> storable Y v" if "(k, v) \<in> set data" for k v using ld(4) [OF Inr that] assms(5) by simp
    obtain e2 d2 where 2: "writeManyToRedis Y (T 1) data ?c d1 = (e2, d2)" by fastforce
    have w: "db_wf (db d2) \<and> agrees Y key now' M (db d2) \<and> inbox d2 = inbox d1 \<and> src d2 = src d1"
      by (rule writeMany_up [OF nc a1(2,1) T(1,2) _ 2]) (use cur in auto)
    have "kv_client ?c = Some S" using nc by (simp add: kv_node_def)
    then have r: "r = Inr data" "c' = ?c" "d' = d2" using l Some 1 Inr 2 by (simp_all add: loadFromSource_def Let_def)
    have "local ?c k = Some v \<Longrightarrow> M k = Some v" for k v using cur by (auto dest: map_of_SomeD)
    then have "kv_effect Y J db inbox src key now' M M c d c' d'"
      unfolding kv_effect_def using w ld(2,3) f r by (intro conjI exI [of _ "[]"]) auto
    then show ?thesis using r(1) cur by blast
  qed
qed

lemma LoadAll_up:
  assumes n: "kv_node S key ch c" "loads_from Y db inbox src c" and "db_wf (db d)" "agrees Y key now M (db d)" "src d = M"
    and T: "\<And>n. now \<le> T n" "\<And>n. T n \<le> now'" and "LoadAll Y T c d = (r, c', d')"
  shows "kv_effect Y J db inbox src key now' M M c d c' d' \<and> (\<forall>data k v. r = Inr data \<longrightarrow> (k, v) \<in> set data \<longrightarrow> M k = Some v)"
proof -
  obtain H dl where h: "holds_hash (T 0) (db d) key H dl" "\<And>f s. H f = Some s \<Longrightarrow> \<exists>v. decodeValue Y s = Inr v \<and> M (kt_key Y f) = Some v"
    by (rule clock_agrees [OF assms(4,3) T(1)]) blast
  obtain l where l: "redis_do (T 0) (HGETALL key) (db d) = (RArr (concat (map (\<lambda>(f, v). [f, v]) l)), db d)" "map_of l = H" "distinct (map fst l)"
    by (rule hash_hgetall [OF h(1)])
  let ?all = "concat (map (\<lambda>(f, v). [f, v]) l)" 
  obtain d1 where 1: "client (ks_redis S) (T 0) (HGETALL key) d = (Inr (RArr ?all), d1)" "db d1 = db d" "db_wf (db d1)"
    by (rule client_up [OF redis assms(3) l(1)]; (erule (2) that | simp))
  have c: "kv_client c = Some S" "kv_redisKey c = key" using n(1) by (simp_all add: kv_node_def)
  have cur: "M k = Some v" if "(k, v) \<in> set (redis_entries Y ?all)" for k v
    by (rule redis_entries_current [OF l(3) _ that]) (use h(2) l(2) in auto)
  note i = client_inbox [OF 1(1)]
  have le: "now \<le> now'" using T [of 0] by simp
  show ?thesis
  proof (cases "redis_entries Y ?all = []")
    case True
    then have f: "loadFromSource Y (\<lambda>n. T (n + 1)) c d1 = (r, c', d')" using assms(8) 1(1) c by (simp add: LoadAll_def key_eq client_arr_def)
    have a: "agrees Y key now M (db d1)" "src d1 = M" using assms(4,5) 1(2) i(2) by simp_all
    have e: "kv_effect Y J db inbox src key now' M M c d1 c' d' \<and> (\<forall>data k v. r = Inr data \<longrightarrow> (k, v) \<in> set data \<longrightarrow> M k = Some v)"
      by (rule loadFromSource_up [OF n 1(3) a _ _ f]) (rule T)+
    then show ?thesis using effect_after [OF conjunct1 [OF e] i refl] by blast
  next
    case False
    then have r: "r = Inr (redis_entries Y ?all)" "c' = setRefreshTime (T 1) (local_rebuild (redis_entries Y ?all) c)" "d' = d1"
      using assms(8) 1(1) c by (simp_all add: LoadAll_def key_eq client_arr_def Let_def)
    then have loc: "local c' k = Some v \<Longrightarrow> M k = Some v \<or> local c k = Some v" and f: "kv_fixed c' = kv_fixed c" for k v
      using cur by (auto dest: map_of_SomeD)
    have "kv_effect Y J db inbox src key now' M M c d c' d1" by (rule read_effect [OF 1(3,2) i assms(4) le f loc])
    then show ?thesis using r cur by blast
  qed
qed

text \<open>A key that is nowhere in the cache.\<close>

lemma miss_effect:
  assumes n: "kv_node S key ch c" "loads_from Y db inbox src c" and "db_wf (db d)" "agrees Y key now M (db d)" "src d = M"
    and T: "\<And>n. now \<le> T n" "\<And>n. T n \<le> now'" and g: "kv_miss Y T k c d = (r, c', d')"
  shows "kv_effect Y J db inbox src key now' M M c d c' d' \<and> (\<forall>v. r = Inr (Some v) \<longrightarrow> M k = Some v) \<and>
    (\<forall>bl. kv_batchLoader c = Some bl \<longrightarrow> complete_loader src bl \<longrightarrow> r = Inr (M k))"
proof (cases "kv_batchLoader c")
  case None
  obtain ra where l: "LoadAll Y T c d = (ra, c', d')" "r = map_sum id (\<lambda>data. map_of data k) ra"
    using g None by (auto simp: kv_miss_def split: prod.splits sum.splits)
  have "kv_effect Y J db inbox src key now' M M c d c' d' \<and> (\<forall>data k v. ra = Inr data \<longrightarrow> (k, v) \<in> set data \<longrightarrow> M k = Some v)"
    by (rule LoadAll_up [OF n assms(3-5) _ _ l(1)]) (rule T)+
  then show ?thesis using l(2) None by (cases ra) (auto dest: map_of_SomeD)
next
  case (Some bl)
  obtain r1 d1 where 1: "bl [k] d = (r1, d1)" by fastforce
  have rs: "reads_source Y db inbox src (bl [k])" using n(2) Some by (simp add: loads_from_def)
  note ld = reads_sourceD [OF rs 1]
  have le: "now \<le> now'" using T [of 0] by simp
  have a1: "agrees Y key now M (db d1)" "db_wf (db d1)" using assms(3,4) ld(1) by simp_all
  have all: "\<exists>data. r1 = Inr data \<and> map_of data k = M k" if "complete_loader src bl"
    using that 1 assms(5) unfolding complete_loader_def by (metis fst_conv list.set_intros(1))
  show ?thesis
  proof (cases r1)
    case (Inl err)
    then have "r = Inl (batch_failed (kv_name c) err)" "c' = c" "d' = d1" using g Some 1 by (auto simp: kv_miss_def)
    then show ?thesis using read_effect [OF a1(2) ld(1-3) assms(4) le, of c c] all Inl Some by auto
  next
    case (Inr loaded)
    have cur: "M k = Some v \<and> storable Y v" if "(k, v) \<in> set loaded" for k v using ld(4) [OF Inr that] assms(5) by simp
    show ?thesis
    proof (cases "map_of loaded k")
      case None
      then have "r = Inr None" "c' = c" "d' = d1" using g Some 1 Inr by (simp_all add: kv_miss_def)
      then show ?thesis using read_effect [OF a1(2) ld(1-3) assms(4) le, of c c] all Inr None Some by auto
    next
      case found: (Some v)
      obtain e2 d2 where 2: "writeManyToRedis Y (T 0) loaded c d1 = (e2, d2)" by fastforce
      have w: "db_wf (db d2) \<and> agrees Y key now' M (db d2) \<and> inbox d2 = inbox d1 \<and> src d2 = src d1"
        by (rule writeMany_up [OF n(1) a1(2,1) T(1,2) _ 2]) (use cur in auto)
      have v: "M k = Some v" using cur found by (auto dest: map_of_SomeD)
      have r: "r = Inr (Some v)" "c' = local_store k v c" "d' = d2" using g Some 1 Inr found 2 by (simp_all add: kv_miss_def)
      have "kv_effect Y J db inbox src key now' M M c d c' d'"
        unfolding kv_effect_def using w ld(2,3) r v by (intro conjI exI [of _ "[]"]) auto
      then show ?thesis using r(1) v by simp
    qed
  qed
qed

lemma get_effect:
  assumes n: "kv_node S key ch c" "loads_from Y db inbox src c" and "db_wf (db d)" "agrees Y key now M (db d)" "src d = M"
    and T: "\<And>n. now \<le> T n" "\<And>n. T n \<le> now'" and g: "kv_Get Y T k c d = (r, c', d')"
  shows "kv_effect Y J db inbox src key now' M M c d c' d' \<and> (\<forall>v. r = Inr (Some v) \<longrightarrow> M k = Some v \<or> local c k = Some v) \<and>
    (\<forall>bl. kv_batchLoader c = Some bl \<longrightarrow> complete_loader src bl \<longrightarrow> r = Inr (M k) \<or> (\<exists>v. local c k = Some v \<and> r = Inr (Some v)))"
proof -
  have cl: "kv_client c = Some S" using n(1) by (simp add: kv_node_def)
  have le: "now \<le> now'" using T [of 0] by simp
  obtain o1 d1 where 1: "kv_HGet Y S (T 0) k c d = (o1, d1)" by fastforce
  have h: "db d1 = db d" "db_wf (db d1)" "inbox d1 = inbox d" "src d1 = src d" "\<And>v. o1 = Some v \<Longrightarrow> M k = Some v"
    using HGet_up [OF n(1) assms(3,4) T(1) 1] by blast+
  show ?thesis
  proof (cases "local c k")
    case (Some v)
    then have "r = Inr (Some v)" "c' = c" "d' = d" using g by (auto simp: kv_Get_def)
    then show ?thesis using Some read_effect [OF assms(3) refl refl refl assms(4) le, of c c] by auto
  next
    case None
    show ?thesis
    proof (cases o1)
      case (Some v)
      then have "r = Inr (Some v)" "c' = local_store k v c" "d' = d1" using g None 1 cl by (auto simp: kv_Get_def)
      then show ?thesis using Some read_effect [OF h(2,1,3,4) assms(4) le, of "local_store k v c" c] h(5) by (auto split: if_splits)
    next
      case none: None
      have m: "kv_miss Y (\<lambda>n. T (n + 1)) k c d1 = (r, c', d')" using g None none 1 cl by (simp add: kv_Get_def)
      have a: "agrees Y key now M (db d1)" "src d1 = M" using assms(4,5) h by simp_all
      have e: "kv_effect Y J db inbox src key now' M M c d1 c' d' \<and> (\<forall>v. r = Inr (Some v) \<longrightarrow> M k = Some v) \<and>
          (\<forall>bl. kv_batchLoader c = Some bl \<longrightarrow> complete_loader src bl \<longrightarrow> r = Inr (M k))"
        by (rule miss_effect [OF n h(2) a _ _ m]) (rule T)+
      then show ?thesis using effect_after [OF conjunct1 [OF e] h(3,4) refl] by blast
    qed
  qed
qed

lemma local_part_current:
  "local_part keys m result missed = (res, ms) \<Longrightarrow> map_of res k = Some v \<Longrightarrow> map_of result k = Some v \<or> map_of m k = Some v"
  by (induction keys m result missed rule: local_part.induct) (auto simp: update_conv' split: option.splits if_splits)

lemma redis_part_current:
  assumes "redis_part Y vals result sm c = (res, sm', c')"
    "\<forall>(k, r)\<in>set vals. \<forall>s v. r = Some s \<longrightarrow> decodeValue Y s = Inr v \<longrightarrow> M k = Some v"
  shows "kv_fixed c' = kv_fixed c \<and> (\<forall>k v. map_of res k = Some v \<longrightarrow> map_of result k = Some v \<or> M k = Some v) \<and>
    (\<forall>k v. local c' k = Some v \<longrightarrow> M k = Some v \<or> local c k = Some v)"
  using assms
proof (induction vals arbitrary: result sm c)
  case (Cons i vals)
  obtain k r where i: "i = (k, r)" by (cases i)
  define o1 where "o1 = (case r of None \<Rightarrow> None | Some s \<Rightarrow> (case decodeValue Y s of Inl err \<Rightarrow> None | Inr v \<Rightarrow> Some v))"
  have cur: "M k = Some v" if "o1 = Some v" for v
    using that Cons.prems(2) unfolding i o1_def by (auto split: option.splits sum.splits)
  have rest: "\<forall>(k, r)\<in>set vals. \<forall>s v. r = Some s \<longrightarrow> decodeValue Y s = Inr v \<longrightarrow> M k = Some v" using Cons.prems(2) by simp
  show ?case
  proof (cases o1)
    case None
    then have "redis_part Y vals result (sm @ [k]) c = (res, sm', c')" using Cons.prems(1) by (simp add: i flip: o1_def)
    then show ?thesis using Cons.IH rest by blast
  next
    case (Some v)
    then have p: "redis_part Y vals (AList.update k v result) sm (local_store k v c) = (res, sm', c')"
      using Cons.prems(1) by (simp add: i flip: o1_def)
    show ?thesis using Cons.IH [OF p rest] cur [OF Some] by (auto simp: update_conv' split: if_splits)
  qed
qed auto

lemma batch_fill_effect:
  assumes n: "kv_node S key ch c" "loads_from Y db inbox src c" "kv_batchLoader c = Some bl"
    and "db_wf (db d)" "agrees Y key now M (db d)" "src d = M" "now \<le> t" "t \<le> now'"
    and g: "batchLoadAndFill Y t bl result keys c d = (r, c', d')"
  shows "kv_effect Y J db inbox src key now' M M c d c' d' \<and> (\<forall>m k v. r = Inr m \<longrightarrow> map_of m k = Some v \<longrightarrow> map_of result k = Some v \<or> M k = Some v)"
proof -
  obtain r1 d1 where 1: "bl keys d = (r1, d1)" by fastforce
  have rs: "reads_source Y db inbox src (bl keys)" using n(2,3) by (simp add: loads_from_def)
  note ld = reads_sourceD [OF rs 1]
  have le: "now \<le> now'" using assms(7,8) by simp
  have a1: "agrees Y key now M (db d1)" "db_wf (db d1)" using assms(4,5) ld(1) by simp_all
  show ?thesis
  proof (cases r1)
    case (Inl err)
    then have "r = Inl (batch_failed (kv_name c) err)" "c' = c" "d' = d1" using g 1 by (auto simp: batchLoadAndFill_def)
    then show ?thesis using read_effect [OF a1(2) ld(1-3) assms(5) le, of c c] by simp
  next
    case (Inr loaded)
    let ?c = "local_store_all loaded c"
    have cur: "M k = Some v \<and> storable Y v" if "(k, v) \<in> set loaded" for k v using ld(4) [OF Inr that] assms(6) by simp
    obtain e2 d2 where 2: "writeManyToRedis Y t loaded c d1 = (e2, d2)" by fastforce
    have w: "db_wf (db d2) \<and> agrees Y key now' M (db d2) \<and> inbox d2 = inbox d1 \<and> src d2 = src d1"
      by (rule writeMany_up [OF n(1) a1(2,1) assms(7,8) _ 2]) (use cur in auto)
    have r: "r = Inr (fold (\<lambda>(k, v). AList.update k v) loaded result)" "c' = ?c" "d' = d2"
      using g 1 Inr 2 by (auto simp: batchLoadAndFill_def)
    have m: "map_of (fold (\<lambda>(k, v). AList.update k v) loaded result) = map_of result ++ map_of (rev loaded)"
      by (induction loaded arbitrary: result) (auto simp: update_conv' map_add_assoc split: prod.splits)
    have "local ?c k = Some v \<Longrightarrow> M k = Some v \<or> local c k = Some v" for k v
      using cur by (auto simp: map_add_Some_iff dest: map_of_SomeD)
    then have "kv_effect Y J db inbox src key now' M M c d c' d'"
      unfolding kv_effect_def using w ld(2,3) r by (intro conjI exI [of _ "[]"]) auto
    then show ?thesis using r(1) m cur by (auto simp: map_add_Some_iff dest: map_of_SomeD)
  qed
qed

lemma get_many_effect:
  assumes n: "kv_node S key ch c" "loads_from Y db inbox src c" and "db_wf (db d)" "agrees Y key now M (db d)" "src d = M"
    and T: "\<And>n. now \<le> T n" "\<And>n. T n \<le> now'" and g: "kv_GetMany Y T ks c d = (r, c', d')"
  shows "kv_effect Y J db inbox src key now' M M c d c' d' \<and> (\<forall>m k v. r = Inr m \<longrightarrow> map_of m k = Some v \<longrightarrow> M k = Some v \<or> local c k = Some v)"
proof -
  have cl: "kv_client c = Some S" "kv_redisKey c = key" using n(1) by (simp_all add: kv_node_def)
  have le: "now \<le> now'" using T [of 0] by simp
  obtain res ms where p: "local_part ks (kv_localCache c) [] [] = (res, ms)" by fastforce
  note lp = local_part_current [OF p]
  show ?thesis
  proof (cases "ks = [] \<or> ms = []")
    case True
    then have "(r = Inr [] \<or> r = Inr res) \<and> c' = c \<and> d' = d" using g p by (cases "ks = []") (auto simp: kv_GetMany_def Let_def)
    then show ?thesis using lp read_effect [OF assms(3) refl refl refl assms(4) le, of c c] by (elim conjE disjE) auto
  next
    case False
    obtain H dl where h: "holds_hash (T 0) (db d) key H dl" "\<And>f s. H f = Some s \<Longrightarrow> \<exists>v. decodeValue Y s = Inr v \<and> M (kt_key Y f) = Some v"
      by (rule clock_agrees [OF assms(4,3) T(1)]) blast
    obtain d1 where 1: "eval (ks_redis S) (T 0) (HMGET key (map (kt_MustString Y) ms)) d = (Inr (map H (map (kt_MustString Y) ms)), d1)"
      "db d1 = db d" "db_wf (db d1)"
      by (rule eval_up [OF redis assms(3), of "T 0" "HMGET key (map (kt_MustString Y) ms)"]) (simp add: run_hmget [OF h(1)])
    let ?vals = "zip ms (map H (map (kt_MustString Y) ms))"
    obtain res1 sm c1 where 2: "redis_part Y ?vals res [] c = (res1, sm, c1)" using prod_cases3 by blast
    have found: "M k = Some v" if "H (kt_MustString Y k) = Some s" "decodeValue Y s = Inr v" for k s v
      using h(2) [OF that(1)] that(2) key_eq by simp
    have "\<forall>(k, r)\<in>set ?vals. \<forall>s v. r = Some s \<longrightarrow> decodeValue Y s = Inr v \<longrightarrow> M k = Some v"
      using found by (auto simp: set_zip)
    then have rp: "kv_fixed c1 = kv_fixed c" "\<And>k v. map_of res1 k = Some v \<Longrightarrow> map_of res k = Some v \<or> M k = Some v"
      "\<And>k v. local c1 k = Some v \<Longrightarrow> M k = Some v \<or> local c k = Some v" using redis_part_current [OF 2] by blast+
    note i = eval_inbox [OF 1(1)]
    have a: "agrees Y key now M (db d1)" "src d1 = M" using assms(4,5) 1(2) i(2) by simp_all
    show ?thesis
    proof (cases "kv_batchLoader c1 = None \<or> sm = []")
      case True
      then have "r = Inr res1" "c' = c1" "d' = d1" using g p False 1(1) 2 cl by (auto simp: kv_GetMany_def Let_def split: option.splits)
      moreover have "kv_effect Y J db inbox src key now' M M c d c1 d1" by (rule read_effect [OF 1(3,2) i assms(4) le rp(1,3)])
      moreover have "M k = Some v \<or> local c k = Some v" if "map_of res1 k = Some v" for k v
        using rp(2) [OF that] lp [of k v] by auto
      ultimately show ?thesis by blast
    next
      case load: False
      then obtain bl where bl: "kv_batchLoader c1 = Some bl" by (cases "kv_batchLoader c1") auto
      then have f: "batchLoadAndFill Y (T 1) bl res1 sm c1 d1 = (r, c', d')" using g p False 1(1) 2 cl load by (auto simp: kv_GetMany_def Let_def)
      have n1: "kv_node S key ch c1" "loads_from Y db inbox src c1" using n fixedD(10,11) [OF rp(1)] by blast+
      note e = batch_fill_effect [OF n1 bl 1(3) a T(1) T(2) f]
      show ?thesis using effect_after [OF conjunct1 [OF e] i rp(1,3)] conjunct2 [OF e] rp(2) lp by fastforce
    qed
  qed
qed

text \<open>Refreshing: the new entries are current.\<close>

lemma refresh_effect:
  assumes "kv_node S key ch c" "loads_from Y db inbox src c" "db_wf (db d)" "agrees Y key now M (db d)" "src d = M"
    and T: "\<And>n. now \<le> T n" "\<And>n. T n \<le> now'" and "kv_Refresh Y T c d = (e, c', d')"
  shows "kv_effect Y J db inbox src key now' M M c d c' d'"
proof -
  obtain r where "loadFromSource Y T c d = (r, c', d')" using assms(8) by (auto simp: kv_Refresh_def split: prod.splits)
  from loadFromSource_up [OF assms(1-5) T this] show ?thesis by blast
qed

lemma tick_effect:
  assumes "kv_node S key ch c" "loads_from Y db inbox src c" "db_wf (db d)" "agrees Y key now M (db d)" "src d = M"
    and T: "\<And>n. now \<le> T n" "\<And>n. T n \<le> now'" and "autoRefresh Y T ticked pick c d = (c', d')"
  shows "kv_effect Y J db inbox src key now' M M c d c' d'"
proof -
  have le: "now \<le> now'" using T [of 0] by simp
  obtain e c1 d1 where 1: "kv_Refresh Y T c d = (e, c1, d1)" by (rule prod_cases3)
  have "(c', d') = (c, d) \<or> (c', d') = (c1, d1) \<or> (c', d') = (c\<lparr>kv_refreshing := False\<rparr>, d)"
    using assms(8) 1 by (auto simp: autoRefresh_def split: if_splits option.splits bool.splits)
  then show ?thesis
    using refresh_effect [OF assms(1-5) T 1] read_effect [OF assms(3) refl refl refl assms(4) le, of c c]
      read_effect [OF assms(3) refl refl refl assms(4) le, of "c\<lparr>kv_refreshing := False\<rparr>" c] by auto
qed

lemma publish_effect:
  assumes "kv_node S key ch c"
  shows "db (kv_publishInvalidation J op ks c d) = db d \<and> src (kv_publishInvalidation J op ks c d) = src d \<and>
    (\<exists>msgs. inbox (kv_publishInvalidation J op ks c d) = (\<lambda>i. inbox d i @ msgs))"
proof -
  let ?m = "buildInvalidationMsg J op ks c"
  have c: "kv_client c = Some S" "kv_invalidateCh c = ch" "kv_pubsub c" using assms by (simp_all add: kv_node_def)
  have net: "rd_net (ks_redis S) d = Delivered" using redis(2) by (simp add: redis_up_def)
  have p: "kv_publishInvalidation J op ks c d = (if ?m = [] then d else ks_PUBLISH S ch ?m d)"
    using c net by (simp add: kv_publishInvalidation_def Let_def deliver_def)
  have "db (ks_PUBLISH S ch ?m d) = db d \<and> src (ks_PUBLISH S ch ?m d) = src d \<and> inbox (ks_PUBLISH S ch ?m d) = (\<lambda>i. inbox d i @ [?m])"
    using bus origin unfolding bus_law_def source_law_def by simp
  then show ?thesis unfolding p by (cases "?m = []") (auto intro: exI [of _ "[]"])
qed

lemma swap_effect:
  assumes n: "kv_node S key ch c" "loads_from Y db inbox src c" and "db_wf (db d)" "agrees Y key now M (db d)" "src d = M"
    and T: "\<And>n. now \<le> T n" "\<And>n. T n \<le> now'" and g: "kv_RefreshAndSwap Y J T c d = (e, c', d')"
  shows "kv_effect Y J db inbox src key now' M M c d c' d'"
proof (cases "kv_loader c")
  case None
  have "now \<le> now'" using T [of 0] by simp
  then show ?thesis using read_effect [OF assms(3) refl refl refl assms(4), of now' c c] g None by (simp add: kv_RefreshAndSwap_def)
next
  case (Some loader)
  obtain r1 d1 where 1: "loader d = (r1, d1)" by fastforce
  have rs: "reads_source Y db inbox src loader" using n(2) Some by (simp add: loads_from_def)
  note ld = reads_sourceD [OF rs 1]
  have le: "now \<le> now'" using T [of 0] by simp
  have a1: "db_wf (db d1)" using assms(3) ld(1) by simp
  show ?thesis
  proof (cases r1)
    case (Inl err)
    then have "c' = c" "d' = d1" using g Some 1 by (auto simp: kv_RefreshAndSwap_def)
    then show ?thesis using read_effect [OF a1 ld(1-3) assms(4) le, of c c] by simp
  next
    case (Inr data)
    have cur: "M k = Some v \<and> storable Y v" if "(k, v) \<in> set data" for k v using ld(4) [OF Inr that] assms(5) by simp
    obtain args where a: "encode_args Y data = Inr args"
      "\<And>f s. map_of (rev args) f = Some s \<Longrightarrow> \<exists>v. decodeValue Y s = Inr v \<and> map_of (rev data) (kt_key Y f) = Some v"
      by (rule encode_storable [of data]) (use cur in auto)
    let ?s = "luaKVReplaceAll key (kv_ttl c) args"
    obtain n1 D where D: "run_db (T 0) ?s (db d1) = (Inr n1, D)"
      "holds_hash (T 0) D key (map_of (rev args)) (if 0 < kv_ttl c \<and> args \<noteq> [] then Some (T 0 + kv_ttl c * second) else None)"
      by (rule run_replace_all)
    have "\<exists>v. decodeValue Y s = Inr v \<and> M (kt_key Y f) = Some v" if "map_of (rev args) f = Some s" for f s
      using a(2) [OF that] cur by (force dest: map_of_SomeD)
    then have ag: "agrees Y key (T 0) M D" unfolding agrees_def using D(2) by blast
    have cl: "kv_client c = Some S" "kv_redisKey c = key" using n(1) by (simp_all add: kv_node_def)
    obtain d2 where ev: "eval (ks_redis S) (T 0) ?s d1 = (fst (run_db (T 0) ?s (db d1)), d2)" "db d2 = snd (run_db (T 0) ?s (db d1))" "db_wf (db d2)"
      by (rule eval_up [OF redis a1])
    let ?c = "setRefreshTime (T 1) (local_rebuild data c)"
    have f: "kv_fixed ?c = kv_fixed c" by simp
    have nc: "kv_node S key ch ?c" using n(1) fixedD(10) [OF f] by simp
    have "replaceRedis Y (T 0) data c d1 = (None, d2)" using ev(1) D(1) a(1) cl by (simp add: replaceRedis_def err_of_def)
    then have r: "c' = ?c" "d' = kv_publishInvalidation J ''clear'' [] ?c d2" using g Some 1 Inr by (auto simp: kv_RefreshAndSwap_def Let_def)
    obtain msgs where p: "db d' = db d2" "src d' = src d2" "inbox d' = (\<lambda>i. inbox d2 i @ msgs)" using publish_effect [OF nc] r(2) by blast
    have "local ?c k = Some v \<Longrightarrow> M k = Some v" for k v using cur by (auto dest: map_of_SomeD)
    moreover have "agrees Y key now' M (db d')" using agrees_later [OF ag T(2)] p(1) ev(2) D(1) by simp
    ultimately show ?thesis
      unfolding kv_effect_def using p ev(3) eval_inbox [OF ev(1)] ld(2,3) r(1) f by (intro conjI exI [of _ msgs]) auto
  qed
qed

end

end
