(* ===== verification/Kv_Coherent.thy ===== *)
theory Kv_Coherent
  imports Kv_Cache_Correct
begin

text \<open>
  Several nodes with a \<open>KVCache\<close> on the same hash: their calls, one after the other, and the messages, which
  the workers of a node handle at any later time and in any order. Their loaders read the values from a
  source, a database that the application changes before it tells the cache.
\<close>

section \<open>Runs\<close>

datatype ('k, 'v) kv_call =
    KSet 'k 'v
  | KSetMany "('k, 'v) go_map"
  | KDelete 'k
  | KDeleteMany "'k list"
  | KClear
  | KGet 'k
  | KGetMany "'k list"
  | KLoadAll
  | KRefresh
  | KSwap
  | KTick bool nat
  | KReceive nat

definition kv_next_msg ::
  "('k, 'v) kv_types \<Rightarrow> iv_json \<Rightarrow> ('d \<Rightarrow> nat \<Rightarrow> string list) \<Rightarrow> (nat \<Rightarrow> nat \<Rightarrow> 'd \<Rightarrow> 'd) \<Rightarrow> nat \<Rightarrow> nat \<Rightarrow> ('k, 'v, 'd) KVCache \<Rightarrow> 'd \<Rightarrow> ('k, 'v, 'd) KVCache \<times> 'd" where
  "kv_next_msg Y J inbox pop i n c d =
     (if n < length (inbox d i) then (snd (kv_receive Y J (inbox d i ! n) c), pop i n d) else (c, d))"

fun kv_do ::
  "('k, 'v) kv_types \<Rightarrow> iv_json \<Rightarrow> ('d \<Rightarrow> nat \<Rightarrow> string list) \<Rightarrow> (nat \<Rightarrow> nat \<Rightarrow> 'd \<Rightarrow> 'd) \<Rightarrow> time \<Rightarrow> nat \<Rightarrow> ('k, 'v) kv_call \<Rightarrow>
   ('k, 'v, 'd) KVCache \<Rightarrow> 'd \<Rightarrow> ('k, 'v, 'd) KVCache \<times> 'd" where
  "kv_do Y J inbox pop t i (KSet k v) c d = snd (kv_Set Y J t (\<lambda>_ d. d) k v c d)"
| "kv_do Y J inbox pop t i (KSetMany items) c d = snd (kv_SetMany Y J t (\<lambda>_ d. d) items c d)"
| "kv_do Y J inbox pop t i (KDelete k) c d = snd (kv_Delete Y J t (\<lambda>_ d. d) k c d)"
| "kv_do Y J inbox pop t i (KDeleteMany ks) c d = snd (kv_DeleteMany Y J t (\<lambda>_ d. d) ks c d)"
| "kv_do Y J inbox pop t i KClear c d = snd (kv_Clear J t t (\<lambda>_ d. d) c d)"
| "kv_do Y J inbox pop t i (KGet k) c d = snd (kv_Get Y (\<lambda>_. t) k c d)"
| "kv_do Y J inbox pop t i (KGetMany ks) c d = snd (kv_GetMany Y (\<lambda>_. t) ks c d)"
| "kv_do Y J inbox pop t i KLoadAll c d = snd (LoadAll Y (\<lambda>_. t) c d)"
| "kv_do Y J inbox pop t i KRefresh c d = snd (kv_Refresh Y (\<lambda>_. t) c d)"
| "kv_do Y J inbox pop t i KSwap c d = snd (kv_RefreshAndSwap Y J (\<lambda>_. t) c d)"
| "kv_do Y J inbox pop t i (KTick ticked pick) c d = autoRefresh Y (\<lambda>_. t) ticked pick c d"
| "kv_do Y J inbox pop t i (KReceive n) c d = kv_next_msg Y J inbox pop i n c d"

text \<open>An event: the time, the node, its call, and the source as the application leaves it right before.\<close>

type_synonym ('k, 'v) kv_event = "time \<times> nat \<times> ('k, 'v) kv_call \<times> ('k \<rightharpoonup> 'v)"

fun kv_run ::
  "('k, 'v) kv_types \<Rightarrow> iv_json \<Rightarrow> ('d \<Rightarrow> nat \<Rightarrow> string list) \<Rightarrow> (nat \<Rightarrow> nat \<Rightarrow> 'd \<Rightarrow> 'd) \<Rightarrow> (('k \<rightharpoonup> 'v) \<Rightarrow> 'd \<Rightarrow> 'd) \<Rightarrow> ('k, 'v) kv_event list \<Rightarrow>
   ('k, 'v, 'd) KVCache list \<Rightarrow> 'd \<Rightarrow> ('k, 'v, 'd) KVCache list \<times> 'd" where
  "kv_run Y J inbox pop change [] cs d = (cs, d)"
| "kv_run Y J inbox pop change ((t, i, call, M) # es) cs d =
     (case kv_do Y J inbox pop t i call (cs ! i) (change M d) of (c, d') \<Rightarrow> kv_run Y J inbox pop change es (cs[i := c]) d')"

text \<open>
  How the application may have changed the source from \<open>M\<close> to \<open>M'\<close> before a call: a \<open>Set\<close> tells the cache the
  new value, a \<open>Delete\<close> only that the value of the key is another one or gone, and \<open>Clear\<close> that all may be.
\<close>

fun kv_told :: "('k, 'v) kv_call \<Rightarrow> ('k \<rightharpoonup> 'v) \<Rightarrow> ('k \<rightharpoonup> 'v) \<Rightarrow> bool" where
  "kv_told (KSet k v) M M' \<longleftrightarrow> M' = M(k \<mapsto> v)"
| "kv_told (KSetMany items) M M' \<longleftrightarrow> M' = M ++ map_of (rev items)"
| "kv_told (KDelete k) M M' \<longleftrightarrow> (\<forall>k'. k' \<noteq> k \<longrightarrow> M' k' = M k')"
| "kv_told (KDeleteMany ks) M M' \<longleftrightarrow> (\<forall>k. k \<notin> set ks \<longrightarrow> M' k = M k)"
| "kv_told KClear M M' \<longleftrightarrow> True"
| "kv_told _ M M' \<longleftrightarrow> M' = M"

text \<open>Values that can be stored and keys in ASCII, in the order of the clock, of nodes that exist.\<close>

fun kv_call_ok :: "('k, 'v) kv_types \<Rightarrow> ('k, 'v) kv_call \<Rightarrow> bool" where
  "kv_call_ok Y (KSet k v) = (storable Y v \<and> ascii (kt_MustString Y k))"
| "kv_call_ok Y (KSetMany items) = (\<forall>(k, v)\<in>set items. storable Y v \<and> ascii (kt_MustString Y k))"
| "kv_call_ok Y (KDelete k) = ascii (kt_MustString Y k)"
| "kv_call_ok Y (KDeleteMany ks) = (\<forall>k\<in>set ks. ascii (kt_MustString Y k))"
| "kv_call_ok Y _ = True"

fun kv_calls_ok :: "('k, 'v) kv_types \<Rightarrow> nat \<Rightarrow> time \<Rightarrow> ('k \<rightharpoonup> 'v) \<Rightarrow> ('k, 'v) kv_event list \<Rightarrow> bool" where
  "kv_calls_ok Y n now M [] = True"
| "kv_calls_ok Y n now M ((t, i, call, M') # es) =
     (now \<le> t \<and> i < n \<and> kv_call_ok Y call \<and> kv_told call M M' \<and> kv_calls_ok Y n t M' es)"

definition kv_nodes_ok :: "'d kv_server \<Rightarrow> string \<Rightarrow> string \<Rightarrow> ('k, 'v, 'd) KVCache list \<Rightarrow> bool" where
  "kv_nodes_ok S key ch cs \<longleftrightarrow> (\<forall>c\<in>set cs. kv_node S key ch c) \<and> distinct (map kv_instanceID cs)"

text \<open>
  The invariant: the hash agrees with the source, and a local value is current or a message that drops it,
  from another node, is on its way.
\<close>

definition stale_told ::
  "('k, 'v) kv_types \<Rightarrow> iv_json \<Rightarrow> ('k, 'v, 'd) KVCache list \<Rightarrow> nat \<Rightarrow> 'k \<Rightarrow> string list \<Rightarrow> bool" where
  "stale_told Y J cs i k msgs \<longleftrightarrow> (\<exists>m\<in>set msgs. \<exists>j<length cs. j \<noteq> i \<and> drops Y J (kv_instanceID (cs ! j)) k m)"

definition coherent ::
  "'d kv_server \<Rightarrow> ('d \<Rightarrow> redis_db) \<Rightarrow> string \<Rightarrow> ('d \<Rightarrow> nat \<Rightarrow> string list) \<Rightarrow> ('d \<Rightarrow> ('k \<rightharpoonup> 'v)) \<Rightarrow> string \<Rightarrow> ('k, 'v) kv_types \<Rightarrow> iv_json \<Rightarrow>
   time \<Rightarrow> ('k, 'v, 'd) KVCache list \<Rightarrow> 'd \<Rightarrow> bool" where
  "coherent S db ch inbox src key Y J now cs d \<longleftrightarrow>
     db_wf (db d) \<and> agrees Y key now (src d) (db d) \<and> kv_nodes_ok S key ch cs \<and> (\<forall>c\<in>set cs. loads_from Y db inbox src c) \<and>
     (\<forall>i<length cs. \<forall>k v. local (cs ! i) k = Some v \<longrightarrow> src d k = Some v \<or> stale_told Y J cs i k (inbox d i))"

lemma ids_differ:
  assumes "kv_nodes_ok S key ch cs" "i < length cs" "j < length cs" "i \<noteq> j"
  shows "kv_instanceID (cs ! i) \<noteq> kv_instanceID (cs ! j)"
  using assms by (auto simp: kv_nodes_ok_def distinct_conv_nth)

lemma fixed_ids:
  assumes "kv_fixed c = kv_fixed (cs ! i)" "i < length cs"
  shows "map kv_instanceID (cs[i := c]) = map kv_instanceID cs"
  unfolding map_update fixedD(7) [OF assms(1)] nth_map [OF assms(2), symmetric] by (rule list_update_id)

lemma stale_told_update:
  assumes "kv_fixed c = kv_fixed (cs ! i)" "i < length cs"
  shows "stale_told Y J (cs[i := c]) j k msgs = stale_told Y J cs j k msgs"
proof -
  have "kv_instanceID (cs[i := c] ! n) = kv_instanceID (cs ! n)" if "n < length cs" for n
    using fixedD(7) [OF assms(1)] by (cases "n = i") (simp_all add: assms(2))
  then show ?thesis unfolding stale_told_def by (metis length_list_update)
qed

lemma nodes_ok_update:
  assumes "kv_nodes_ok S key ch cs" "kv_fixed c = kv_fixed (cs ! i)" "i < length cs"
  shows "kv_nodes_ok S key ch (cs[i := c])"
proof -
  have "kv_node S key ch c" using fixedD(10) [OF assms(2)] assms(1,3) by (simp add: kv_nodes_ok_def)
  then show ?thesis using assms(1) fixed_ids [OF assms(2,3)] by (auto simp: kv_nodes_ok_def dest!: set_update_subset_insert [THEN subsetD])
qed

lemma loads_update:
  assumes "\<forall>c\<in>set cs. loads_from Y db inbox src c" "kv_fixed c = kv_fixed (cs ! i)" "i < length cs"
  shows "\<forall>c\<in>set (cs[i := c]). loads_from Y db inbox src c"
proof -
  have "loads_from Y db inbox src c" using fixedD(11) [OF assms(2)] assms(1,3) by simp
  then show ?thesis using assms(1) by (auto dest!: set_update_subset_insert [THEN subsetD])
qed

text \<open>
  A call that has the effect of \<open>kv_effect\<close>, after a change of the source that it tells, keeps the invariant.
\<close>

lemma coherent_effect:
  assumes "coherent S db ch inbox src key Y J now cs d0" "inbox d = inbox d0" "i < length cs"
    and "kv_effect Y J db inbox src key now' (src d0) (src d) (cs ! i) d c' d'"
  shows "coherent S db ch inbox src key Y J now' (cs[i := c']) d'"
proof -
  let ?M = "src d0" and ?M' = "src d"
  have e: "db_wf (db d')" "agrees Y key now' ?M' (db d')" "kv_fixed c' = kv_fixed (cs ! i)" "src d' = ?M'"
    "\<And>k v. local c' k = Some v \<Longrightarrow> ?M' k = Some v \<or> local (cs ! i) k = Some v \<and> ?M' k = ?M k"
    using assms(4) unfolding kv_effect_def by blast+
  obtain msgs where m: "inbox d' = (\<lambda>i. inbox d i @ msgs)" "\<And>k. ?M' k \<noteq> ?M k \<Longrightarrow> \<exists>m\<in>set msgs. drops Y J (kv_instanceID (cs ! i)) k m"
    using assms(4) unfolding kv_effect_def by blast
  have c: "kv_nodes_ok S key ch cs" "\<And>j k v. j < length cs \<Longrightarrow> local (cs ! j) k = Some v \<Longrightarrow> ?M k = Some v \<or> stale_told Y J cs j k (inbox d j)"
    "\<forall>c\<in>set cs. loads_from Y db inbox src c"
    using assms(1) unfolding coherent_def assms(2) by blast+
  have more: "stale_told Y J cs j k (inbox d' j)" if "stale_told Y J cs j k (inbox d j)" for j k
    using that m(1) unfolding stale_told_def by auto
  have "?M' k = Some v \<or> stale_told Y J cs j k (inbox d' j)" if j: "j < length cs" and l: "local (cs[i := c'] ! j) k = Some v" for j k v
  proof (cases "j = i")
    case True
    then have "?M' k = Some v \<or> local (cs ! i) k = Some v \<and> ?M' k = ?M k" using l j e(5) by simp
    then show ?thesis using c(2) [of i k v] more [of i k] assms(3) True by auto
  next
    case False
    then have lj: "local (cs ! j) k = Some v" using l by simp
    show ?thesis
    proof (cases "?M' k = ?M k")
      case True
      then show ?thesis using c(2) [OF j lj] more by auto
    next
      case changed: False
      then have "stale_told Y J cs j k (inbox d' j)" using m(1) m(2) [OF changed] assms(3) False unfolding stale_told_def by auto
      then show ?thesis by blast
    qed
  qed
  then show ?thesis
    unfolding coherent_def e(4)
    using e(1,2) nodes_ok_update [OF c(1) e(3) assms(3)] loads_update [OF c(3) e(3) assms(3)] stale_told_update [OF e(3) assms(3)] by simp
qed

text \<open>A message that is handled: what it drops is gone, and the others' messages remain.\<close>

lemma drops_key:
  assumes "kt_law Y" "iv_Unmarshal J m = Inr msg" "iv_Op msg = ''invalidate''" "drops Y J me k m"
  shows "k \<in> kt_key Y ` set (iv_Keys msg)"
proof -
  have "kt_MustString Y k \<in> set (iv_Keys msg)" using assms(2-4) by (auto simp: drops_def)
  then have "kt_key Y (kt_MustString Y k) \<in> kt_key Y ` set (iv_Keys msg)" by (rule imageI)
  then show ?thesis using assms(1) by (simp add: kt_law_def)
qed

lemma receive_local:
  assumes "kt_law Y" "kv_receive Y J m c = (e, c')" "local c' k = Some v"
  shows "kv_fixed c' = kv_fixed c \<and> local c k = Some v \<and> (\<forall>me. me \<noteq> kv_instanceID c \<longrightarrow> \<not> drops Y J me k m)"
proof (cases "iv_Unmarshal J m")
  case (Inr msg)
  have s: "kt_isString Y" using assms(1) by (simp add: kt_law_def)
  have d: "drops Y J me k m \<Longrightarrow> iv_Sender msg = me" for me using Inr by (auto simp: drops_def)
  consider "iv_Sender msg = kv_instanceID c" "c' = c" | "iv_Op msg = ''clear''" "c' = c\<lparr>kv_localCache := []\<rparr>"
    | "iv_Op msg = ''invalidate''" "c' = c\<lparr>kv_localCache := drop_keys Y (iv_Keys msg) (kv_localCache c)\<rparr>"
    | "iv_Op msg \<noteq> ''clear''" "iv_Op msg \<noteq> ''invalidate''" "c' = c"
    using assms(2) Inr by (auto simp: kv_receive_def split: if_splits)
  then show ?thesis
  proof cases
    case 1
    then show ?thesis using assms(3) d by blast
  next
    case 2
    then show ?thesis using assms(3) by simp
  next
    case 3
    then have "k \<notin> kt_key Y ` set (iv_Keys msg)" "local c k = Some v"
      using assms(3) by (auto simp: drop_keys_local [OF s] restrict_map_def split: if_splits)
    then show ?thesis using 3(2) drops_key [OF assms(1) Inr 3(1)] by auto
  next
    case 4
    then have "\<not> drops Y J me k m" for me using Inr by (simp add: drops_def)
    then show ?thesis using assms(3) 4(3) by blast
  qed
qed (use assms(2,3) in \<open>auto simp: kv_receive_def drops_def\<close>)

lemma receive_fixed: "kv_fixed (snd (kv_receive Y J m c)) = kv_fixed c"
  by (auto simp: kv_receive_def split: sum.splits)

context kv_nodes
begin

lemma coherent_later: "coherent S db ch inbox src key Y J now cs d \<Longrightarrow> now \<le> now' \<Longrightarrow> coherent S db ch inbox src key Y J now' cs d"
  unfolding coherent_def using agrees_later by blast

lemma coherent_change:
  assumes "coherent S db ch inbox src key Y J now cs d" "M = src d"
  shows "coherent S db ch inbox src key Y J now cs (change M d)"
proof -
  have "db (change M d) = db d" "inbox (change M d) = inbox d" "src (change M d) = src d" using origin assms(2) unfolding source_law_def by simp_all
  then show ?thesis using assms(1) unfolding coherent_def by metis
qed

lemma coherent_receive:
  assumes "coherent S db ch inbox src key Y J now cs d" "i < length cs" "now \<le> now'" "kv_next_msg Y J inbox pop i n (cs ! i) d = (c', d')"
  shows "coherent S db ch inbox src key Y J now' (cs[i := c']) d'"
proof -
  have c: "db_wf (db d)" "agrees Y key now' (src d) (db d)" "kv_nodes_ok S key ch cs" "\<forall>c\<in>set cs. loads_from Y db inbox src c"
    "\<And>j k v. j < length cs \<Longrightarrow> local (cs ! j) k = Some v \<Longrightarrow> src d k = Some v \<or> stale_told Y J cs j k (inbox d j)"
    using assms(1) agrees_later [OF _ assms(3)] unfolding coherent_def by blast+
  show ?thesis
  proof (cases "n < length (inbox d i)")
    case False
    then have "c' = cs ! i" "d' = d" using assms(4) by (auto simp: kv_next_msg_def)
    then show ?thesis using coherent_later [OF assms(1,3)] assms(2) by simp
  next
    case True
    let ?m = "inbox d i ! n" and ?ms = "take n (inbox d i) @ drop (Suc n) (inbox d i)"
    obtain e where r: "kv_receive Y J ?m (cs ! i) = (e, c')" "d' = pop i n d" using assms(4) True by (auto simp: kv_next_msg_def prod_eq_iff)
    have d: "db d' = db d" "inbox d' = (inbox d)(i := ?ms)" "src d' = src d" using bus origin r(2) unfolding bus_law_def source_law_def by simp_all
    have split: "set (inbox d i) = insert ?m (set ?ms)" using id_take_nth_drop [OF True] by (metis list.set(2) set_append Un_insert_right)
    have f: "kv_fixed c' = kv_fixed (cs ! i)" using receive_fixed [of Y J ?m "cs ! i"] r(1) by simp
    have "src d k = Some v \<or> stale_told Y J cs j k (inbox d' j)" if j: "j < length cs" and l: "local (cs[i := c'] ! j) k = Some v" for j k v
    proof (cases "j = i")
      case False
      then show ?thesis using c(5) [OF j] l d(2) by simp
    next
      case True
      then have l': "local c' k = Some v" using l assms(2) by simp
      have old: "local (cs ! i) k = Some v" and kept: "\<And>me. me \<noteq> kv_instanceID (cs ! i) \<Longrightarrow> \<not> drops Y J me k ?m"
        using receive_local [OF types r(1) l'] by blast+
      have "stale_told Y J cs i k ?ms" if told: "stale_told Y J cs i k (inbox d i)"
        using told kept ids_differ [OF c(3) _ assms(2)] unfolding stale_told_def split by auto
      then show ?thesis using c(5) [OF assms(2) old] True d(2) by auto
    qed
    then show ?thesis
      unfolding coherent_def d(3)
      using c d(1) nodes_ok_update [OF c(3) f assms(2)] loads_update [OF c(4) f assms(2)] stale_told_update [OF f assms(2)] by simp
  qed
qed

text \<open>One event: the application changes the source, and a node makes its call.\<close>

lemma event_effect:
  assumes n: "kv_node S key ch c" "loads_from Y db inbox src c" and "db_wf (db d)" "agrees Y key now M (db d)" "now \<le> t"
    and "kv_call_ok Y call" "kv_told call M (src d)" "kv_do Y J inbox pop t i call c d = (c', d')" "\<forall>m. call \<noteq> KReceive m"
  shows "kv_effect Y J db inbox src key t M (src d) c d c' d'"
proof -
  note w = n(1) assms(3-5) order_refl
  have same: "kv_effect Y J db inbox src key t M M c d c d" by (rule read_effect [OF assms(3) refl refl refl assms(4,5)]) simp_all
  show ?thesis
  proof (cases call)
    case (KSet k v)
    obtain e where "kv_Set Y J t (\<lambda>_ d. d) k v c d = (e, c', d')" using assms(8) KSet by (auto simp: prod_eq_iff)
    from set_effect [OF w _ _ this] show ?thesis using assms(6,7) KSet by simp
  next
    case (KSetMany items)
    obtain e where s: "kv_SetMany Y J t (\<lambda>_ d. d) items c d = (e, c', d')" using assms(8) KSetMany by (auto simp: prod_eq_iff)
    show ?thesis
    proof (cases "items = []")
      case True
      then show ?thesis using s same assms(7) KSetMany by (simp add: kv_SetMany_def)
    next
      case False
      have "e = None \<and> kv_effect Y J db inbox src key t M (M ++ map_of (rev items)) c d c' d'"
        by (rule set_many_effect [OF w False _ s]) (use assms(6) KSetMany in auto)
      then show ?thesis using assms(7) KSetMany by simp
    qed
  next
    case (KDelete k)
    obtain e where s: "kv_Delete Y J t (\<lambda>_ d. d) k c d = (e, c', d')" using assms(8) KDelete by (auto simp: prod_eq_iff)
    have "e = None \<and> kv_effect Y J db inbox src key t M (src d) c d c' d'"
      by (rule delete_effect [OF w _ _ s]) (use assms(6,7) KDelete in auto)
    then show ?thesis by blast
  next
    case (KDeleteMany ks)
    obtain e where s: "kv_DeleteMany Y J t (\<lambda>_ d. d) ks c d = (e, c', d')" using assms(8) KDeleteMany by (auto simp: prod_eq_iff)
    show ?thesis
    proof (cases "ks = []")
      case True
      then have "src d = M" using assms(7) KDeleteMany by (simp add: fun_eq_iff)
      then show ?thesis using s same True by (simp add: kv_DeleteMany_def)
    next
      case False
      have "e = None \<and> kv_effect Y J db inbox src key t M (src d) c d c' d'"
        by (rule delete_many_effect [OF w _ False _ s]) (use assms(6,7) KDeleteMany in auto)
      then show ?thesis by blast
    qed
  next
    case KClear
    obtain e where "kv_Clear J t t (\<lambda>_ d. d) c d = (e, c', d')" using assms(8) KClear by (auto simp: prod_eq_iff)
    then show ?thesis using clear_effect [OF n(1) assms(3) order_refl] by blast
  next
    case (KGet k)
    then have s: "src d = M" using assms(7) by simp
    obtain r where "kv_Get Y (\<lambda>_. t) k c d = (r, c', d')" using assms(8) KGet by (auto simp: prod_eq_iff)
    from get_effect [OF n assms(3,4) s _ _ this, of t] show ?thesis using s assms(5) by simp
  next
    case (KGetMany ks)
    then have s: "src d = M" using assms(7) by simp
    obtain r where "kv_GetMany Y (\<lambda>_. t) ks c d = (r, c', d')" using assms(8) KGetMany by (auto simp: prod_eq_iff)
    from get_many_effect [OF n assms(3,4) s _ _ this, of t] show ?thesis using s assms(5) by simp
  next
    case KLoadAll
    then have s: "src d = M" using assms(7) by simp
    obtain r where "LoadAll Y (\<lambda>_. t) c d = (r, c', d')" using assms(8) KLoadAll by (auto simp: prod_eq_iff)
    from LoadAll_up [OF n assms(3,4) s _ _ this, of t] show ?thesis using s assms(5) by simp
  next
    case KRefresh
    then have s: "src d = M" using assms(7) by simp
    obtain e where "kv_Refresh Y (\<lambda>_. t) c d = (e, c', d')" using assms(8) KRefresh by (auto simp: prod_eq_iff)
    from refresh_effect [OF n assms(3,4) s _ _ this, of t] show ?thesis using s assms(5) by simp
  next
    case KSwap
    then have s: "src d = M" using assms(7) by simp
    obtain e where "kv_RefreshAndSwap Y J (\<lambda>_. t) c d = (e, c', d')" using assms(8) KSwap by (auto simp: prod_eq_iff)
    from swap_effect [OF n assms(3,4) s _ _ this, of t] show ?thesis using s assms(5) by simp
  next
    case (KTick ticked pick)
    then have s: "src d = M" using assms(7) by simp
    have "autoRefresh Y (\<lambda>_. t) ticked pick c d = (c', d')" using assms(8) KTick by simp
    from tick_effect [OF n assms(3,4) s _ _ this, of t] show ?thesis using s assms(5) by simp
  qed (use assms(9) in blast)
qed

lemma coherent_do:
  assumes coh: "coherent S db ch inbox src key Y J now cs d" and "i < length cs" "now \<le> t" "kv_call_ok Y call" "kv_told call (src d) M"
    and d: "kv_do Y J inbox pop t i call (cs ! i) (change M d) = (c', d')"
  shows "coherent S db ch inbox src key Y J t (cs[i := c']) d' \<and> src d' = M \<and> kv_fixed c' = kv_fixed (cs ! i)"
proof -
  have ch: "db (change M d) = db d" "inbox (change M d) = inbox d" "src (change M d) = M" using origin unfolding source_law_def by simp_all
  show ?thesis
  proof (cases "\<exists>m. call = KReceive m")
    case True
    then obtain m where m: "call = KReceive m" by blast
    then have "coherent S db ch inbox src key Y J now cs (change M d)" using coherent_change [OF coh] assms(5) by simp
    from coherent_receive [OF this assms(2,3)] d m have c: "coherent S db ch inbox src key Y J t (cs[i := c']) d'" by simp
    have "src (pop i m (change M d)) = M" using origin ch(3) unfolding source_law_def by simp
    then have "src d' = M \<and> kv_fixed c' = kv_fixed (cs ! i)"
      using d m ch(3) by (auto simp: kv_next_msg_def receive_fixed split: if_splits)
    with c show ?thesis by blast
  next
    case False
    have n: "kv_node S key ch (cs ! i)" "loads_from Y db inbox src (cs ! i)" "db_wf (db (change M d))" "agrees Y key now (src d) (db (change M d))"
      using coh assms(2) ch(1) unfolding coherent_def kv_nodes_ok_def by auto
    have "kv_effect Y J db inbox src key t (src d) (src (change M d)) (cs ! i) (change M d) c' d'"
      by (rule event_effect [OF n assms(3,4) _ d]) (use assms(5) ch(3) False in simp_all)
    from coherent_effect [OF coh ch(2) assms(2) this] this ch(3) show ?thesis unfolding kv_effect_def by simp
  qed
qed

lemma coherent_run:
  assumes "coherent S db ch inbox src key Y J now cs d" "kv_calls_ok Y (length cs) now (src d) es" "kv_run Y J inbox pop change es cs d = (cs', d')"
    "now \<le> t" "\<forall>e\<in>set es. fst e \<le> t"
  shows "coherent S db ch inbox src key Y J t cs' d' \<and> length cs' = length cs \<and>
    (\<forall>i<length cs. kv_batchLoader (cs' ! i) = kv_batchLoader (cs ! i)) \<and> src d' = (if es = [] then src d else snd (snd (snd (last es))))"
  using assms
proof (induction es arbitrary: now cs d)
  case Nil
  then show ?case using coherent_later by auto
next
  case (Cons e es)
  obtain t1 i call M where e: "e = (t1, i, call, M)" using prod_cases4 by blast
  obtain c d1 where 1: "kv_do Y J inbox pop t1 i call (cs ! i) (change M d) = (c, d1)" by fastforce
  have ok: "i < length cs" "now \<le> t1" "kv_call_ok Y call" "kv_told call (src d) M" "kv_calls_ok Y (length cs) t1 M es" using Cons.prems(2) e by simp_all
  have c: "coherent S db ch inbox src key Y J t1 (cs[i := c]) d1" "src d1 = M" "kv_fixed c = kv_fixed (cs ! i)"
    using coherent_do [OF Cons.prems(1) ok(1-4) 1] by simp_all
  have "kv_batchLoader (cs[i := c] ! j) = kv_batchLoader (cs ! j)" for j
    using fixedD(3) [OF c(3)] ok(1) by (cases "j = i") simp_all
  moreover have "kv_calls_ok Y (length (cs[i := c])) t1 (src d1) es" "kv_run Y J inbox pop change es (cs[i := c]) d1 = (cs', d')" "t1 \<le> t"
    "\<forall>e\<in>set es. fst e \<le> t" using ok(5) c(2) Cons.prems(3,5) e 1 by simp_all
  note Cons.IH [OF c(1) this]
  ultimately show ?case using c(2) e by (cases "es = []") simp_all
qed

lemma coherent_fresh:
  assumes "kv_nodes_ok S key ch cs" "\<forall>c\<in>set cs. loads_from Y db inbox src c" "\<forall>c\<in>set cs. kv_localCache c = []" "db_wf (db d)" "db d key = None"
  shows "coherent S db ch inbox src key Y J now cs d"
proof -
  have "agrees Y key now (src d) (db d)" using holds_hash_empty [where db = "db d", OF assms(5)] unfolding agrees_def by fastforce
  then show ?thesis unfolding coherent_def using assms by simp
qed

lemma current_get:
  assumes "coherent S db ch inbox src key Y J t cs d" "i < length cs" "inbox d i = []" "kv_Get Y (\<lambda>_. t) k (cs ! i) d = (r, c', d')"
  shows "(\<forall>v. r = Inr (Some v) \<longrightarrow> src d k = Some v) \<and>
    (\<forall>bl. kv_batchLoader (cs ! i) = Some bl \<longrightarrow> complete_loader src bl \<longrightarrow> r = Inr (src d k))"
proof -
  have n: "kv_node S key ch (cs ! i)" "loads_from Y db inbox src (cs ! i)" "db_wf (db d)" "agrees Y key t (src d) (db d)"
    and l: "\<And>v. local (cs ! i) k = Some v \<Longrightarrow> src d k = Some v"
    using assms(1-3) unfolding coherent_def kv_nodes_ok_def stale_told_def by auto
  have "(\<forall>v. r = Inr (Some v) \<longrightarrow> src d k = Some v \<or> local (cs ! i) k = Some v) \<and>
      (\<forall>bl. kv_batchLoader (cs ! i) = Some bl \<longrightarrow> complete_loader src bl \<longrightarrow> r = Inr (src d k) \<or> (\<exists>v. local (cs ! i) k = Some v \<and> r = Inr (Some v)))"
    using get_effect [OF n refl _ _ assms(4), of t] by simp
  then show ?thesis using l by fastforce
qed

end

section \<open>The reference instance\<close>

type_synonym bus = "redis_db \<times> (nat \<Rightarrow> string list)"

definition bus_redis :: "bus redis" where
  "bus_redis = \<lparr>rd_net = (\<lambda>_. Delivered), rd_call = (\<lambda>now c d. case redis_do now c (fst d) of (r, D) \<Rightarrow> (r, (D, snd d)))\<rparr>"

definition bus_ref :: "string \<Rightarrow> bus kv_server" where
  "bus_ref ch = \<lparr>ks_redis = bus_redis, ks_PUBLISH = (\<lambda>ch' m d. if ch' = ch then (fst d, \<lambda>i. snd d i @ [m]) else d)\<rparr>"

definition bus_pop :: "nat \<Rightarrow> nat \<Rightarrow> bus \<Rightarrow> bus" where
  "bus_pop i n d = (fst d, (snd d)(i := take n (snd d i) @ drop (Suc n) (snd d i)))"

lemma bus_ref_law: "bus_law (bus_ref ch) fst ch snd bus_pop"
  by (auto simp: bus_law_def bus_ref_def bus_redis_def bus_pop_def redis_law_def redis_up_def split: prod.splits)

primrec unquotes :: "nat \<Rightarrow> string \<Rightarrow> string list" where
  "unquotes 0 s = []"
| "unquotes (Suc n) s = (if s = [] then [] else (case unquote s of (a, r) \<Rightarrow> a # unquotes n r))"

definition iv_ref :: iv_json where
  "iv_ref = \<lparr>iv_Marshal = (\<lambda>m. Inr (quote (iv_Sender m) @ ''0'' @ quote (iv_Op m) @ ''0'' @ concat (map (\<lambda>k. quote k @ ''0'') (iv_Keys m)))),
     iv_Unmarshal = (\<lambda>s. case unquote s of (a, r) \<Rightarrow> case unquote r of (b, r') \<Rightarrow>
        Inr \<lparr>iv_Sender = a, iv_Op = b, iv_Keys = unquotes (length r') r'\<rparr>)\<rparr>"

lemma unquotes_quote: "length ks \<le> n \<Longrightarrow> unquotes n (concat (map (\<lambda>k. quote k @ ''0'') ks)) = ks"
proof (induction ks arbitrary: n)
  case (Cons k ks)
  then obtain m where "n = Suc m" "length ks \<le> m" by (cases n) auto
  then show ?case using Cons.IH [of m] by (simp add: unquote_quote [simplified])
qed (case_tac n; simp)

lemma length_quotes: "length ks \<le> length (concat (map (\<lambda>k. quote k @ ''0'') ks))"
  by (induction ks) auto

lemma iv_ref_law: "iv_law iv_ref"
  unfolding iv_law_def by (simp add: iv_ref_def unquote_quote [simplified] unquotes_quote [OF length_quotes, simplified] split: prod.splits)

definition kt_ref :: "(string, string) kv_types" where
  "kt_ref = \<lparr>kt_isString = True, kt_MustString = id, kt_key = id, kt_vString = Some (id, id),
     kt_Marshal = (\<lambda>s. Inr (quote s)), kt_Unmarshal = (\<lambda>s. Inr (fst (unquote s)))\<rparr>"

lemma kt_ref_law: "kt_law kt_ref"
  by (simp add: kt_law_def kt_ref_def)

text \<open>The same server beside a database with values.\<close>

type_synonym origin = "bus \<times> (string \<rightharpoonup> string)"

definition origin_redis :: "origin redis" where
  "origin_redis = \<lparr>rd_net = (\<lambda>_. Delivered), rd_call = (\<lambda>now c d. case redis_do now c (fst (fst d)) of (r, D) \<Rightarrow> (r, ((D, snd (fst d)), snd d)))\<rparr>"

definition origin_ref :: "string \<Rightarrow> origin kv_server" where
  "origin_ref ch = \<lparr>ks_redis = origin_redis, ks_PUBLISH = (\<lambda>ch' m d. if ch' = ch then ((fst (fst d), \<lambda>i. snd (fst d) i @ [m]), snd d) else d)\<rparr>"

abbreviation "origin_db \<equiv> \<lambda>d :: origin. fst (fst d)"
abbreviation "origin_inbox \<equiv> \<lambda>d :: origin. snd (fst d)"
abbreviation "origin_pop \<equiv> \<lambda>i n (d :: origin). (bus_pop i n (fst d), snd d)"
abbreviation "origin_change \<equiv> \<lambda>M (d :: origin). (fst d, M)"

lemma origin_ref_law:
  "bus_law (origin_ref ch) origin_db ch origin_inbox origin_pop"
  "source_law (origin_ref ch) origin_db origin_inbox origin_pop snd origin_change"
  by (auto simp: bus_law_def source_law_def origin_ref_def origin_redis_def bus_pop_def redis_law_def redis_up_def split: prod.splits)

interpretation origin: kv_nodes "origin_ref ''kv:c:invalidate''" origin_db "''kv:c:invalidate''" origin_inbox origin_pop "''kv:c''" kt_ref iv_ref snd origin_change
  by unfold_locales (rule origin_ref_law iv_ref_law kt_ref_law)+

text \<open>A node as \<open>NewKVCache\<close> makes it.\<close>

definition kv_demo :: "string \<Rightarrow> (string, string, bus) KVCache" where
  "kv_demo me = \<lparr>kv_client = Some (bus_ref ''kv:c:invalidate''),
     kv_config = \<lparr>kvc_DefaultTTL = 1800000000000, kvc_RefreshInterval = 300000000000, kvc_EnableAutoRefresh = True,
       kvc_Namespace = ''kv'', kvc_MaxLocalCacheSize = 10000, kvc_BatchLoader = None\<rparr>,
     kv_loader = None, kv_batchLoader = None, kv_name = ''c'', kv_localCache = [], kv_lastRefreshTime = 0, kv_stopped = False,
     kv_pubsub = True, kv_subscribed = True, kv_refreshing = False, kv_instanceID = me, kv_invalidateCh = ''kv:c:invalidate''\<rparr>"

lemma kv_demo_new:
  "NewKVCache mathx_ref 0 0 True (Some (bus_ref ''kv:c:invalidate'')) ''c'' None
     \<lparr>kvc_DefaultTTL = 0, kvc_RefreshInterval = 0, kvc_EnableAutoRefresh = True, kvc_Namespace = [], kvc_MaxLocalCacheSize = 0, kvc_BatchLoader = None\<rparr> =
   kv_demo (show_int 0 @ ''-'' @ show_int 0xdeadbeef)"
  by (simp add: kv_demo_def NewKVCache_def merge_kv_config_def mathx_ref_def randomID_def second_def)

section \<open>Coherence\<close>

text \<open>
  C15: Nodes of a cache, with or without loaders and batch loaders, share a hash that is not there at the
  start. Before each call the application may change the database the loaders read, if the call tells it: a
  \<open>Set\<close> or \<open>SetMany\<close> writes the new values, a \<open>Delete\<close>, \<open>DeleteMany\<close> or \<open>Clear\<close> drops what has changed. The
  nodes also make any reads, loads, refreshes, swaps and automatic refreshes, and handle the messages at
  any time and in any order. If a node has handled all of its messages, then a value its \<open>Get\<close> returns is
  the one in the database: it never returns an overwritten or deleted one. And if its batch loader gives
  what there is, \<open>Get\<close> returns exactly what is in the database. Keys are strings, Redis answers, values
  are read back as they were stored, and each call is alone.
\<close>
theorem kv_coherent:
  assumes "bus_law S db ch inbox pop" "iv_law J" "kt_law Y" "source_law S db inbox pop src change"
    and "kv_nodes_ok S key ch cs" "\<forall>c\<in>set cs. loads_from Y db inbox src c"
    and "\<forall>c\<in>set cs. kv_localCache c = []" "db_wf (db d)" "db d key = None"
    and "kv_calls_ok Y (length cs) now (src d) es" "kv_run Y J inbox pop change es cs d = (cs', d')"
    and "now \<le> t" "\<forall>e\<in>set es. fst e \<le> t" "i < length cs" "inbox d' i = []"
    and "kv_Get Y (\<lambda>_. t) k (cs' ! i) d' = (r, c', d'')"
  shows "(\<forall>v. r = Inr (Some v) \<longrightarrow> src d' k = Some v) \<and>
    (\<forall>bl. kv_batchLoader (cs ! i) = Some bl \<longrightarrow> complete_loader src bl \<longrightarrow> r = Inr (src d' k)) \<and>
    src d' = (if es = [] then src d else snd (snd (snd (last es))))"
proof -
  have L: "kv_nodes S db ch inbox pop Y J src change" using assms(1-4) by (rule kv_nodes.intro)
  have "coherent S db ch inbox src key Y J now cs d" by (rule kv_nodes.coherent_fresh [OF L assms(5-9)])
  then have c: "coherent S db ch inbox src key Y J t cs' d'" "length cs' = length cs" "kv_batchLoader (cs' ! i) = kv_batchLoader (cs ! i)"
    "src d' = (if es = [] then src d else snd (snd (snd (last es))))"
    using kv_nodes.coherent_run [OF L _ assms(10-13)] assms(14) by blast+
  show ?thesis
    using kv_nodes.current_get [OF L c(1) _ assms(15,16)] assms(14) unfolding c(2,3) c(4) [symmetric] by blast
qed

text \<open>A node without loaders, one with a loader and a batch loader, on a database.\<close>

definition origin_node :: "string \<Rightarrow> (string, string, origin) KVCache" where
  "origin_node me = \<lparr>kv_client = Some (origin_ref ''kv:c:invalidate''),
     kv_config = \<lparr>kvc_DefaultTTL = 1800000000000, kvc_RefreshInterval = 300000000000, kvc_EnableAutoRefresh = True,
       kvc_Namespace = ''kv'', kvc_MaxLocalCacheSize = 10000, kvc_BatchLoader = None\<rparr>,
     kv_loader = None, kv_batchLoader = None, kv_name = ''c'', kv_localCache = [], kv_lastRefreshTime = 0, kv_stopped = False,
     kv_pubsub = True, kv_subscribed = True, kv_refreshing = False, kv_instanceID = me, kv_invalidateCh = ''kv:c:invalidate''\<rparr>"

fun origin_rows :: "(string \<rightharpoonup> string) \<Rightarrow> string list \<Rightarrow> (string, string) go_map" where
  "origin_rows M [] = []"
| "origin_rows M (k # ks) = (case M k of None \<Rightarrow> origin_rows M ks | Some v \<Rightarrow> (k, v) # origin_rows M ks)"

definition origin_batch :: "(string, string, origin) BatchLoader" where
  "origin_batch keys d = (Inr (origin_rows (snd d) keys), d)"

definition origin_loading :: "string \<Rightarrow> (string, string, origin) KVCache" where
  "origin_loading me = (origin_node me)\<lparr>kv_loader := Some (origin_batch [''a'', ''b'']), kv_batchLoader := Some origin_batch\<rparr>"

lemma origin_rows_found: "(k, v) \<in> set (origin_rows M ks) \<Longrightarrow> M k = Some v"
  by (induction ks) (auto split: option.splits)

lemma origin_rows_all: "k \<in> set ks \<Longrightarrow> map_of (origin_rows M ks) k = M k"
proof (induction ks)
  case (Cons k' ks)
  then show ?case by (cases "M k'"; cases "k = k'"; cases "k \<in> set ks")
      (auto simp: map_of_eq_None_iff dest!: origin_rows_found)
qed simp

text \<open>Strings that are stored as JSON.\<close>

definition kt_json :: "(string, string) kv_types" where
  "kt_json = kt_ref\<lparr>kt_vString := None\<rparr>"

lemma kt_json_law: "kt_law kt_json"
  by (simp add: kt_law_def kt_json_def kt_ref_def)

lemma kt_json_must: "kt_MustString kt_json = id"
  by (simp add: kt_json_def kt_ref_def)

lemma kt_storable: "storable kt_json v"
  using unquote_quote(2) [of v] by (simp add: storable_def kt_json_def kt_ref_def encodeValue_def decodeValue_def unmarshal_value_def)

lemma origin_batch_ok:
  "reads_source kt_json origin_db origin_inbox snd (origin_batch keys)" "complete_loader snd origin_batch"
  by (auto simp: reads_source_def complete_loader_def origin_batch_def kt_storable origin_rows_all dest: origin_rows_found)

definition origin_events :: "(string, string) kv_event list" where
  "origin_events = [(0, 0, KSet ''a'' ''1'', [''a'' \<mapsto> ''1'']), (1, 1, KGet ''a'', [''a'' \<mapsto> ''1'']), (2, 0, KDelete ''a'', [''a'' \<mapsto> ''2'']),
     (3, 1, KReceive 1, [''a'' \<mapsto> ''2'']), (3, 1, KReceive 0, [''a'' \<mapsto> ''2''])]"

theorem kv_coherent_witness:
  "\<exists>cs d c' d'. kv_run kt_json iv_ref origin_inbox origin_pop origin_change origin_events
       [origin_node ''0'', origin_loading ''1''] ((Map.empty, \<lambda>_. []), Map.empty) = (cs, d) \<and>
     kv_Get kt_json (\<lambda>_. 4) ''a'' (cs ! 1) d = (Inr (Some ''2''), c', d')"
proof -
  let ?cs = "[origin_node ''0'', origin_loading ''1'']" and ?d = "((Map.empty, \<lambda>_. []), Map.empty) :: origin"
  obtain cs' d' where r: "kv_run kt_json iv_ref origin_inbox origin_pop origin_change origin_events ?cs ?d = (cs', d')" by (rule prod.exhaust)
  have "let (cs, d) = kv_run kt_json iv_ref origin_inbox origin_pop origin_change origin_events ?cs ?d in origin_inbox d 1 = []"
    by code_simp
  then have e: "origin_inbox d' 1 = []" unfolding r by simp
  obtain a c'' d'' where g: "kv_Get kt_json (\<lambda>_. 4) ''a'' (cs' ! 1) d' = (a, c'', d'')" by (rule prod_cases3)
  have n: "kv_nodes_ok (origin_ref ''kv:c:invalidate'') ''kv:c'' ''kv:c:invalidate'' ?cs"
    by (simp add: kv_nodes_ok_def kv_node_def origin_node_def origin_loading_def kv_redisKey_def ascii_def)
  have l: "\<forall>c\<in>set ?cs. loads_from kt_json origin_db origin_inbox snd c"
    by (simp add: loads_from_def origin_node_def origin_loading_def origin_batch_ok)
  have c: "(\<forall>v. a = Inr (Some v) \<longrightarrow> snd d' ''a'' = Some v) \<and>
      (\<forall>bl. kv_batchLoader (?cs ! 1) = Some bl \<longrightarrow> complete_loader snd bl \<longrightarrow> a = Inr (snd d' ''a'')) \<and>
      snd d' = (if origin_events = [] then snd ?d else snd (snd (snd (last origin_events))))"
    by (rule kv_coherent [OF origin_ref_law(1) iv_ref_law kt_json_law origin_ref_law(2) n l _ _ _ _ r _ _ _ e g, where now = 0])
      (simp_all add: origin_events_def origin_node_def origin_loading_def kt_storable kt_json_must ascii_def)
  then have "a = Inr (Some ''2'')" using origin_batch_ok(2) by (simp add: origin_events_def origin_loading_def)
  then show ?thesis using r g by blast
qed

end
