(* ===== verification/Kv_Limits.thy ===== *)
theory Kv_Limits
  imports Kv_Coherent
begin

text \<open>What \<open>KVCache\<close> does on any network, and where it does not do what it is for.\<close>

section \<open>A swap\<close>

definition swapped :: "('k, 'v) kv_types \<Rightarrow> time \<Rightarrow> string \<Rightarrow> int \<Rightarrow> ('k, 'v) go_map \<Rightarrow> redis_db \<Rightarrow> bool" where
  "swapped Y now key ttl data D \<longleftrightarrow>
     (\<exists>args. encode_args Y data = Inr args \<and>
        holds_hash now D key (map_of (rev args)) (if 0 < ttl \<and> args \<noteq> [] then Some (now + ttl * second) else None))"

lemma replaceRedis_any:
  assumes "redis_law (ks_redis S) db" "db_wf (db d)" "kv_client c = Some S" "replaceRedis Y now data c d = (e, d')"
  shows "(db d' = db d \<or> swapped Y now (kv_redisKey c) (kv_ttl c) data (db d') \<and> same_but (kv_redisKey c) (db d) (db d')) \<and>
    (e = None \<longrightarrow> swapped Y now (kv_redisKey c) (kv_ttl c) data (db d'))"
proof (cases "encode_args Y data")
  case (Inr args)
  obtain n D where D: "run_db now (luaKVReplaceAll (kv_redisKey c) (kv_ttl c) args) (db d) = (Inr n, D)"
    "holds_hash now D (kv_redisKey c) (map_of (rev args)) (if 0 < kv_ttl c \<and> args \<noteq> [] then Some (now + kv_ttl c * second) else None)"
    "same_but (kv_redisKey c) (db d) D" by (rule run_replace_all)
  have s: "swapped Y now (kv_redisKey c) (kv_ttl c) data D" unfolding swapped_def using Inr D(2) by blast
  obtain r where ev: "eval (ks_redis S) now (luaKVReplaceAll (kv_redisKey c) (kv_ttl c) args) d = (r, d')" "e = err_of r"
    using assms(3,4) Inr by (auto simp: replaceRedis_def split: prod.splits)
  show ?thesis
    by (cases rule: eval_any [OF assms(1,2) ev(1), case_names lost silent answered])
      (use D s ev(2) in \<open>auto simp: err_of_def\<close>)
qed (use assms(4) in \<open>auto simp: replaceRedis_def\<close>)

lemma publish_db:
  assumes "\<And>ch m d. db (ks_PUBLISH S ch m d) = db d" "kv_client c = Some S"
  shows "db (kv_publishInvalidation J op keys c d) = db d"
  using assms by (auto simp: kv_publishInvalidation_def Let_def deliver_def split: delivery.splits)

text \<open>
  C19: \<open>RefreshAndSwap\<close> replaces the hash as a whole or leaves all of Redis as it was, whatever the network
  does; other keys are never touched. When it reports no error then the hash is what the loader gave, with
  its time to live, and so are the local entries; when it reports one the local entries are as before.
\<close>
theorem kv_swap_atomic:
  assumes "redis_law (ks_redis S) db" "\<And>ch m d. db (ks_PUBLISH S ch m d) = db d"
    and "kv_client c = Some S" "kv_loader c = Some loader" "loader d = (r, d1)" "db_wf (db d1)"
    and "kv_RefreshAndSwap Y J T c d = (e, c', d')"
  shows "(db d' = db d1 \<or> (\<exists>data. r = Inr data \<and> swapped Y (T 0) (kv_redisKey c) (kv_ttl c) data (db d') \<and> same_but (kv_redisKey c) (db d1) (db d'))) \<and>
    (if e = None then \<exists>data. r = Inr data \<and> swapped Y (T 0) (kv_redisKey c) (kv_ttl c) data (db d') \<and> local c' = map_of (rev data) else c' = c)"
proof (cases r)
  case (Inl err)
  then show ?thesis using assms(4,5,7) by (auto simp: kv_RefreshAndSwap_def)
next
  case (Inr data)
  obtain e1 d2 where 1: "replaceRedis Y (T 0) data c d1 = (e1, d2)" by fastforce
  note any = replaceRedis_any [OF assms(1,6,3) 1]
  show ?thesis
  proof (cases e1)
    case (Some err)
    then show ?thesis using any assms(4,5,7) 1 Inr by (auto simp: kv_RefreshAndSwap_def)
  next
    case None
    let ?c = "setRefreshTime (T 1) (local_rebuild data c)"
    have "kv_client ?c = Some S" using fixedD(1) [of ?c c] assms(3) by simp
    then have p: "db (kv_publishInvalidation J ''clear'' [] ?c d2) = db d2" by (rule publish_db [OF assms(2)])
    have "e = None" "c' = ?c" "d' = kv_publishInvalidation J ''clear'' [] ?c d2"
      using assms(4,5,7) 1 Inr None by (auto simp: kv_RefreshAndSwap_def Let_def)
    then show ?thesis using any p None Inr by auto
  qed
qed

section \<open>A hash that holds a part\<close>

lemma kv_send_db:
  assumes "redis_law (ks_redis S) db" "redis_up (ks_redis S)" "\<And>ch m d. db (ks_PUBLISH S ch m d) = db d" "kv_client c = Some S" "db_wf (db d)"
    "run_db now s (db d) = (Inr x, D)" "kv_send now (\<lambda>_ d. d) (PEval s # publish_cmd J op ks c) c d = (e, c', d')"
  shows "e = None \<and> c' = c \<and> db d' = D \<and> db_wf D"
proof -
  obtain r d1 where 1: "run (ks_redis S) now s d = (r, d1)" by fastforce
  have r: "r = Inr x" "db d1 = D" "db_wf D" using run_run_db [OF assms(1,5) 1] assms(6) by simp_all
  have net: "rd_net (ks_redis S) d = Delivered" using assms(2) by (simp add: redis_up_def)
  show ?thesis
    using assms(3,4,7) 1 r net by (auto simp: kv_send_def kv_Exec_def publish_cmd_def Let_def split: if_splits)
qed

lemma map_of_single:
  assumes "map_of l = [f \<mapsto> s]" "distinct (map fst l)"
  shows "l = [(f, s)]"
proof (cases l)
  case Nil
  then show ?thesis using assms(1) by (metis map_of.simps(1) map_upd_nonempty)
next
  case (Cons p l')
  obtain g u where p: "p = (g, u)" by (cases p)
  have g: "g = f" "u = s" using fun_cong [OF assms(1), of g] p Cons by (auto split: if_splits)
  have "map_of l' x = None" for x
  proof (cases "x = f")
    case True
    then show ?thesis using assms(2) p Cons g by (simp add: map_of_eq_None_iff)
  next
    case False
    then show ?thesis using fun_cong [OF assms(1), of x] p Cons g by simp
  qed
  then have "map_of l' = Map.empty" by (rule ext)
  then show ?thesis using p Cons g by (simp only: map_of_eq_empty_iff)
qed

text \<open>
  C40: When the hash is not there, a \<open>Set\<close> of one key hides all the others, until the hash expires, from
  every node without a batch loader that does not hold them in memory: its \<open>Get\<close> of another key finds the
  hash with the one field, takes it for everything there is, and reports that there is no value. The
  loader of the node is not asked.
\<close>
theorem kv_partial_hides:
  assumes "redis_law (ks_redis S) db" "redis_up (ks_redis S)" "\<And>ch m d. db (ks_PUBLISH S ch m d) = db d" "kt_law Y" "storable Y v"
    and "kv_client a = Some S" "db_wf (db d)" "db d (kv_redisKey a) = None"
    and "kv_Set Y J t (\<lambda>_ d. d) k v a d = (e, a', d1)"
    and "kv_client b = Some S" "kv_batchLoader b = None" "kv_redisKey b = kv_redisKey a" "local b k' = None" "k' \<noteq> k"
    and "\<And>n. t \<le> T n" "\<And>n. 0 < kv_ttl a \<Longrightarrow> T n < t + kv_ttl a * second"
    and "kv_Get Y T k' b d1 = (r, b', d2)"
  shows "e = None \<and> r = Inr None \<and> local b' = [k \<mapsto> v]"
proof -
  obtain s where s: "encodeValue Y v = Inr s" "decodeValue Y s = Inr v" using assms(5) by (auto simp: storable_def)
  have Y: "kt_key Y (kt_MustString Y k) = k" "kt_isString Y" "kt_MustString Y k' \<noteq> kt_MustString Y k"
    using assms(4,14) unfolding kt_law_def by metis+
  let ?key = "kv_redisKey a" and ?f = "kt_MustString Y k" and ?dl = "if 0 < kv_ttl a then Some (t + kv_ttl a * second) else None"
  let ?a = "local_store k v a"
  have f: "kv_redisKey ?a = ?key" "kv_ttl ?a = kv_ttl a" "kv_client ?a = Some S" using fixedD [of ?a a] assms(6) by simp_all
  obtain n D where D: "run_db t (luaKVSetMany ?key (kv_ttl a) [(?f, s)]) (db d) = (Inr n, D)"
    "holds_hash t D ?key (Map.empty ++ map_of (rev [(?f, s)])) ?dl"
    by (rule run_set_many [OF holds_hash_empty [where db = "db d", OF assms(8)], of "[(?f, s)]" t "kv_ttl a"]; (erule (1) that | simp))
  have run: "run_db t (no_result (luaKVSetMany ?key (kv_ttl a) [(?f, s)])) (db d) = (Inr [], D)" using D(1) by (simp add: run_no_result)
  have send: "kv_send t (\<lambda>_ d. d) (PEval (no_result (luaKVSetMany ?key (kv_ttl a) [(?f, s)])) # publish_cmd J ''invalidate'' [?f] ?a) ?a d = (e, a', d1)"
    using assms(9) s(1) f(1,2) by (simp add: kv_Set_def Let_def)
  have d1: "e = None" "db d1 = D" "db_wf D" using kv_send_db [OF assms(1-3) f(3) assms(7) run send] by simp_all
  have h: "holds_hash (T n) (db d1) ?key [?f \<mapsto> s] ?dl" for n
    by (rule holds_hash_until [OF _ assms(15)]) (use D(2) d1(2) assms(16) in \<open>auto split: if_splits\<close>)
  have do1: "redis_do (T 0) (HGET ?key (kt_MustString Y k')) (db d1) = (RNil, db d1)" using hash_hget [OF h] Y(3) by simp
  have wf: "db_wf (db d1)" using d1(2,3) by simp
  obtain d3 where 3: "client (ks_redis S) (T 0) (HGET ?key (kt_MustString Y k')) d1 = (Inl RedisNil, d3)" "db d3 = db d1" "db_wf (db d3)"
    by (rule client_up_nil [OF assms(1,2) wf do1])
  obtain l where l: "redis_do (T 1) (HGETALL ?key) (db d3) = (RArr (concat (map (\<lambda>(f, v). [f, v]) l)), db d3)" "map_of l = [?f \<mapsto> s]" "distinct (map fst l)"
    using hash_hgetall [OF h] 3(2) by metis
  obtain d4 where 4: "client (ks_redis S) (T 1) (HGETALL ?key) d3 = (Inr (RArr [?f, s]), d4)"
    by (rule client_up [OF assms(1,2) 3(3) l(1)]; (erule that | simp)) (use map_of_single [OF l(2,3)] in \<open>simp add: that\<close>)
  have c: "kv_HGet Y S (T 0) k' b d1 = (None, d3)" using 3(1) assms(12) by (simp add: kv_HGet_def client_str_def)
  let ?b = "setRefreshTime (T 2) (local_rebuild [(k, v)] b)"
  have "LoadAll Y (\<lambda>n. T (n + 1)) b d3 = (Inr [(k, v)], ?b, d4)"
    using 4 assms(10,12) Y(1,2) s(2) by (simp add: LoadAll_def client_arr_def Let_def numeral_2_eq_2)
  then have "kv_Get Y T k' b d1 = (Inr None, ?b, d4)" using c assms(10,11,13,14) by (simp add: kv_Get_def kv_miss_def)
  then have "r = Inr None" "b' = ?b" using assms(17) by simp_all
  then show ?thesis using d1(1) by simp
qed

lemma bus_publish: "fst (ks_PUBLISH (bus_ref ch) ch' m d) = fst d"
  by (simp add: bus_ref_def)

lemma bus_redis_law: "redis_law (ks_redis (bus_ref ch)) fst" "redis_up (ks_redis (bus_ref ch))"
  using bus_ref_law [of ch] unfolding bus_law_def by simp_all

definition kv_demo_loading :: "(string, string, bus) KVCache" where
  "kv_demo_loading = (kv_demo ''1'')\<lparr>kv_loader := Some (\<lambda>d. (Inr [(''b'', ''2'')], d))\<rparr>"

theorem kv_swap_atomic_witness:
  "\<exists>e c' d'. kv_RefreshAndSwap kt_ref iv_ref (\<lambda>_. 0) kv_demo_loading (Map.empty, \<lambda>_. []) = (e, c', d') \<and>
     (if e = None then swapped kt_ref 0 (kv_redisKey kv_demo_loading) (kv_ttl kv_demo_loading) [(''b'', ''2'')] (fst d') \<and> local c' = [''b'' \<mapsto> ''2''] else c' = kv_demo_loading)"
proof -
  obtain e c' d' where 1: "kv_RefreshAndSwap kt_ref iv_ref (\<lambda>_. 0) kv_demo_loading (Map.empty, \<lambda>_. []) = (e, c', d')" by (rule prod_cases3)
  have l: "kv_client kv_demo_loading = Some (bus_ref ''kv:c:invalidate'')" "kv_loader kv_demo_loading = Some (\<lambda>d. (Inr [(''b'', ''2'')], d))"
    by (simp_all add: kv_demo_loading_def kv_demo_def)
  show ?thesis
    using kv_swap_atomic [OF bus_redis_law(1) bus_publish l refl _ 1] 1 by (intro exI [of _ e] exI [of _ c'] exI [of _ d']) (auto split: if_splits)
qed

theorem kv_partial_hides_witness:
  "\<exists>a' d1 b' d2. kv_Set kt_ref iv_ref 0 (\<lambda>_ d. d) ''a'' ''1'' (kv_demo ''0'') (Map.empty, \<lambda>_. []) = (None, a', d1) \<and>
     kv_Get kt_ref (\<lambda>_. 1) ''b'' kv_demo_loading d1 = (Inr None, b', d2)"
proof -
  obtain e a' d1 where 1: "kv_Set kt_ref iv_ref 0 (\<lambda>_ d. d) ''a'' ''1'' (kv_demo ''0'') (Map.empty, \<lambda>_. []) = (e, a', d1)" by (rule prod_cases3)
  obtain r b' d2 where 2: "kv_Get kt_ref (\<lambda>_. 1) ''b'' kv_demo_loading d1 = (r, b', d2)" by (rule prod_cases3)
  have st: "storable kt_ref ''1''" by (simp add: storable_def kt_ref_def encodeValue_def decodeValue_def)
  have c: "kv_client (kv_demo ''0'') = Some (bus_ref ''kv:c:invalidate'')" "kv_client kv_demo_loading = Some (bus_ref ''kv:c:invalidate'')"
    "kv_batchLoader kv_demo_loading = None" "kv_redisKey kv_demo_loading = kv_redisKey (kv_demo ''0'')" "local kv_demo_loading ''b'' = None"
    "kv_ttl (kv_demo ''0'') = 1800"
    by (simp_all add: kv_demo_loading_def kv_demo_def kv_redisKey_def kv_ttl_def go_div_def second_def)
  have "e = None \<and> r = Inr None \<and> local b' = [''a'' \<mapsto> ''1'']"
    by (rule kv_partial_hides [OF bus_redis_law bus_publish kt_ref_law st c(1) _ _ 1 c(2-5) _ _ _ 2]) (simp_all add: c(6) second_def)
  then show ?thesis using 1 2 by blast
qed

text \<open>Two more: keys that are not strings are never dropped, and a string that starts with a quote is read as JSON.\<close>

lemma receive_not_string:
  assumes "\<not> kt_isString Y" "iv_Unmarshal J m = Inr msg" "iv_Op msg = ''invalidate''"
  shows "kv_receive Y J m c = (None, c)"
proof -
  have "drop_keys Y ks l = l" for ks l using assms(1) by (induction ks arbitrary: l) auto
  then show ?thesis using assms(2,3) by (simp add: kv_receive_def)
qed

lemma decode_quoted:
  assumes "kt_vString Y = Some (to_str, of_str)" "to_str v = CHR 0x22 # s"
  shows "encodeValue Y v = Inr (to_str v)" "decodeValue Y (to_str v) = unmarshal_value Y (to_str v)"
  using assms by (simp_all add: encodeValue_def decodeValue_def)

end
