(* ===== verification/Kv_Registry.thy ===== *)
theory Kv_Registry
  imports Kv_Limits
begin

text \<open>
  The global table of key-value caches at the end of \<open>kv_cache.go\<close>. It holds caches of several types; a cache
  comes with the name of its type and what the code knows about it at run time. A cache is changed in its place.
  The operations on all caches run each cache in a goroutine of its own; \<open>order\<close> says in which order they
  are served.
\<close>

record ('k, 'v, 'd) kv_entry =
  ke_type :: string
  ke_types :: "('k, 'v) kv_types"
  ke_cache :: "('k, 'v, 'd) KVCache"

record ('k, 'v, 'd) kv_globals =
  globalRedisClient :: "'d kv_server option"
  kvRegistry :: "(string, ('k, 'v, 'd) kv_entry) go_map"

definition SetGlobalRedisClient :: "'d kv_server option \<Rightarrow> ('k, 'v, 'd) kv_globals \<Rightarrow> ('k, 'v, 'd) kv_globals" where
  "SetGlobalRedisClient cl G = G\<lparr>globalRedisClient := cl\<rparr>"

definition default_kv_config :: "('k, 'v, 'd) KVCacheConfig" where
  "default_kv_config = \<lparr>kvc_DefaultTTL = 30 * 60 * second, kvc_RefreshInterval = 5 * 60 * second, kvc_EnableAutoRefresh = True,
     kvc_Namespace = ''kv'', kvc_MaxLocalCacheSize = 0, kvc_BatchLoader = None\<rparr>"

definition RegisterKV ::
  "mathx \<Rightarrow> time \<Rightarrow> time \<Rightarrow> bool \<Rightarrow> string \<Rightarrow> ('k, 'v) kv_types \<Rightarrow> string \<Rightarrow> ('k, 'v, 'd) KVLoader option \<Rightarrow> ('k, 'v, 'd) KVOption list \<Rightarrow>
   ('k, 'v, 'd) kv_globals \<Rightarrow> go_error option \<times> ('k, 'v, 'd) kv_globals" where
  "RegisterKV X nano nano' subscribed ty Y name loader opts G =
     (if globalRedisClient G = None then (Some RuntimePanic, G)
      else if map_of (kvRegistry G) name \<noteq> None then (Some RuntimePanic, G)
      else let cfg = fold (\<lambda>opt c. opt c) opts default_kv_config;
               c = NewKVCache X nano nano' subscribed (globalRedisClient G) name loader cfg
           in (None, G\<lparr>kvRegistry := AList.update name \<lparr>ke_type = ty, ke_types = Y, ke_cache = c\<rparr> (kvRegistry G)\<rparr>))"

text \<open>The verb \<open>%q\<close>, for names it need not escape.\<close>

definition quoted :: "string \<Rightarrow> string" where
  "quoted s = CHR 0x22 # s @ [CHR 0x22]"

definition GetKV :: "string \<Rightarrow> string \<Rightarrow> ('k, 'v, 'd) kv_globals \<Rightarrow> ('k, 'v, 'd) kv_entry go_result" where
  "GetKV ty name G =
     (case map_of (kvRegistry G) name of
        None \<Rightarrow> Inl (FmtError (''cachex: kv cache '' @ quoted name @ '' not registered''))
      | Some e \<Rightarrow> if ke_type e = ty then Inr e else Inl (FmtError (''cachex: kv cache '' @ quoted name @ '' type mismatch'')))"

definition MustGetKV :: "string \<Rightarrow> string \<Rightarrow> ('k, 'v, 'd) kv_globals \<Rightarrow> ('k, 'v, 'd) kv_entry go_result" where
  "MustGetKV ty name G = (case GetKV ty name G of Inl err \<Rightarrow> Inl RuntimePanic | Inr e \<Rightarrow> Inr e)"

definition put_cache :: "string \<Rightarrow> ('k, 'v, 'd) kv_entry \<Rightarrow> ('k, 'v, 'd) KVCache \<Rightarrow> ('k, 'v, 'd) kv_globals \<Rightarrow> ('k, 'v, 'd) kv_globals" where
  "put_cache name e c G = G\<lparr>kvRegistry := AList.update name (e\<lparr>ke_cache := c\<rparr>) (kvRegistry G)\<rparr>"

text \<open>A nil map is \<open>None\<close>.\<close>

definition GetKVMany ::
  "(nat \<Rightarrow> time) \<Rightarrow> string \<Rightarrow> string \<Rightarrow> 'k list \<Rightarrow> ('k, 'v, 'd) kv_globals \<Rightarrow> 'd \<Rightarrow> ('k, 'v) go_map option \<times> ('k, 'v, 'd) kv_globals \<times> 'd" where
  "GetKVMany T ty name keys G d =
     (if keys = [] then (None, G, d)
      else (case GetKV ty name G of
              Inl err \<Rightarrow> (None, G, d)
            | Inr e \<Rightarrow>
                (case kv_GetMany (ke_types e) T keys (ke_cache e) d of
                   (r, c, d') \<Rightarrow> ((case r of Inl err \<Rightarrow> None | Inr v \<Rightarrow> Some v), put_cache name e c G, d'))))"

definition StopAllKV :: "('k, 'v, 'd) kv_globals \<Rightarrow> ('k, 'v, 'd) kv_globals" where
  "StopAllKV G = G\<lparr>kvRegistry := map (\<lambda>(name, e). (name, e\<lparr>ke_cache := kv_Stop (ke_cache e)\<rparr>)) (kvRegistry G)\<rparr>"

definition kvRegistrySize :: "('k, 'v, 'd) kv_globals \<Rightarrow> int" where
  "kvRegistrySize G = int (length (kvRegistry G))"

section \<open>Operations on all caches\<close>

type_synonym ('k, 'v, 'd) kv_action =
  "('k, 'v) kv_types \<Rightarrow> ('k, 'v, 'd) KVCache \<Rightarrow> 'd \<Rightarrow> go_error option \<times> ('k, 'v, 'd) KVCache \<times> 'd"

definition snapshotKVCaches :: "('k, 'v, 'd) kv_globals \<Rightarrow> string list" where
  "snapshotKVCaches G = map fst (kvRegistry G)"

text \<open>The first error in the order in which the goroutines are served; every one of them runs.\<close>

fun runParallel :: "('k, 'v, 'd) kv_action \<Rightarrow> string list \<Rightarrow> ('k, 'v, 'd) kv_globals \<Rightarrow> 'd \<Rightarrow> go_error option \<times> ('k, 'v, 'd) kv_globals \<times> 'd" where
  "runParallel action [] G d = (None, G, d)"
| "runParallel action (name # names) G d =
     (case map_of (kvRegistry G) name of
        None \<Rightarrow> runParallel action names G d
      | Some e \<Rightarrow>
          (case action (ke_types e) (ke_cache e) d of
             (err, c, d1) \<Rightarrow>
               (case runParallel action names (put_cache name e c G) d1 of
                  (err', G', d2) \<Rightarrow> (if err \<noteq> None then err else err', G', d2))))"

definition applyAllKV ::
  "(string list \<Rightarrow> string list) \<Rightarrow> ('k, 'v, 'd) kv_action \<Rightarrow> ('k, 'v, 'd) kv_globals \<Rightarrow> 'd \<Rightarrow> go_error option \<times> ('k, 'v, 'd) kv_globals \<times> 'd" where
  "applyAllKV order action G d = (let entries = snapshotKVCaches G in if entries = [] then (None, G, d) else runParallel action (order entries) G d)"

definition ClearAllKV ::
  "(string list \<Rightarrow> string list) \<Rightarrow> iv_json \<Rightarrow> time \<Rightarrow> time \<Rightarrow> (nat \<Rightarrow> 'd \<Rightarrow> 'd) \<Rightarrow> ('k, 'v, 'd) kv_globals \<Rightarrow> 'd \<Rightarrow> go_error option \<times> ('k, 'v, 'd) kv_globals \<times> 'd" where
  "ClearAllKV order J now here others G d = applyAllKV order (\<lambda>Y c d. kv_Clear J now here others c d) G d"

definition RefreshAllKV ::
  "(string list \<Rightarrow> string list) \<Rightarrow> (nat \<Rightarrow> time) \<Rightarrow> ('k, 'v, 'd) kv_globals \<Rightarrow> 'd \<Rightarrow> go_error option \<times> ('k, 'v, 'd) kv_globals \<times> 'd" where
  "RefreshAllKV order T G d = applyAllKV order (\<lambda>Y c d. kv_Refresh Y T c d) G d"

definition RefreshAndSwapAllKV ::
  "(string list \<Rightarrow> string list) \<Rightarrow> iv_json \<Rightarrow> (nat \<Rightarrow> time) \<Rightarrow> ('k, 'v, 'd) kv_globals \<Rightarrow> 'd \<Rightarrow> go_error option \<times> ('k, 'v, 'd) kv_globals \<times> 'd" where
  "RefreshAndSwapAllKV order J T G d = applyAllKV order (\<lambda>Y c d. kv_RefreshAndSwap Y J T c d) G d"

text \<open>\<open>reset\<close> is the reset of the loaded models, \<open>ResetAllModelKVLoadCache\<close>.\<close>

definition WarmupAllKV ::
  "(string list \<Rightarrow> string list) \<Rightarrow> iv_json \<Rightarrow> (nat \<Rightarrow> time) \<Rightarrow> ('d \<Rightarrow> 'd) \<Rightarrow> ('k, 'v, 'd) kv_globals \<Rightarrow> 'd \<Rightarrow> go_error option \<times> ('k, 'v, 'd) kv_globals \<times> 'd" where
  "WarmupAllKV order J T reset G d = (case RefreshAndSwapAllKV order J T G (reset d) of (err, G', d') \<Rightarrow> (None, G', d'))"

section \<open>Every cache is served\<close>

lemma put_cache_registry [simp]: "map_of (kvRegistry (put_cache name e c G)) = (map_of (kvRegistry G))(name \<mapsto> e\<lparr>ke_cache := c\<rparr>)"
  by (simp add: put_cache_def update_conv')

lemma RegisterKV_GetKV:
  assumes "RegisterKV X nano nano' subscribed ty Y name loader opts G = (None, G')"
  shows "GetKV ty name G' = Inr \<lparr>ke_type = ty, ke_types = Y, ke_cache = NewKVCache X nano nano' subscribed (globalRedisClient G) name loader (fold (\<lambda>opt c. opt c) opts default_kv_config)\<rparr>"
    "\<And>n. n \<noteq> name \<Longrightarrow> map_of (kvRegistry G') n = map_of (kvRegistry G) n"
  using assms by (auto simp: RegisterKV_def GetKV_def Let_def update_conv' split: if_splits)

lemma RegisterKV_panics: "globalRedisClient G = None \<or> map_of (kvRegistry G) name \<noteq> None \<Longrightarrow>
    RegisterKV X nano nano' subscribed ty Y name loader opts G = (Some RuntimePanic, G)"
  by (auto simp: RegisterKV_def)

lemma runParallel_all:
  assumes "runParallel action names G d = (err, G', d')" "name \<in> set names" "map_of (kvRegistry G) name = Some e"
    "\<And>Y c d. P (fst (snd (action Y c d)))" "distinct names"
  shows "\<exists>c. map_of (kvRegistry G') name = Some (e\<lparr>ke_cache := c\<rparr>) \<and> P c"
proof -
  have keep: "map_of (kvRegistry G2) name = map_of (kvRegistry G1) name"
    if "runParallel action ns G1 d1 = (er, G2, d2)" "name \<notin> set ns" for ns G1 d1 er G2 d2
    using that
  proof (induction ns arbitrary: G1 d1 er)
    case (Cons n ns)
    then show ?case by (fastforce split: option.splits prod.splits)
  qed simp
  show ?thesis using assms(1-3,5)
  proof (induction names arbitrary: G d err)
    case (Cons n ns)
    show ?case
    proof (cases "n = name")
      case True
      obtain er c d1 where a: "action (ke_types e) (ke_cache e) d = (er, c, d1)" using prod_cases3 by blast
      obtain er' where r: "runParallel action ns (put_cache name e c G) d1 = (er', G', d')"
        using Cons.prems(1,3) True a by (auto split: prod.splits)
      have "map_of (kvRegistry G') name = Some (e\<lparr>ke_cache := c\<rparr>)" using keep [OF r] Cons.prems(4) True by simp
      then show ?thesis using assms(4) [of "ke_types e" "ke_cache e" d] a by auto
    next
      case False
      then show ?thesis using Cons.prems Cons.IH by (auto split: option.splits prod.splits)
    qed
  qed simp
qed

lemma clear_local: "kv_localCache (fst (snd (kv_Clear J now here others c d))) = []"
  by (auto simp: kv_Clear_def kv_send_def setRefreshTime_def Let_def split: option.splits prod.splits)

text \<open>
  After \<open>ClearAllKV\<close> no registered cache has a local entry, whatever requests failed and in whatever
  order the goroutines were served; an error of one cache does not stop the others.
\<close>
theorem kv_clear_all:
  assumes "ClearAllKV order J now here others G d = (err, G', d')" "mset (order (snapshotKVCaches G)) = mset (snapshotKVCaches G)"
    and "distinct (map fst (kvRegistry G))" "map_of (kvRegistry G) name = Some e"
  shows "\<exists>c. map_of (kvRegistry G') name = Some (e\<lparr>ke_cache := c\<rparr>) \<and> kv_localCache c = []"
proof -
  let ?action = "\<lambda>(Y :: ('a, 'b) kv_types) c d. kv_Clear J now here others c d"
  have n: "name \<in> set (order (snapshotKVCaches G))" "distinct (order (snapshotKVCaches G))"
    using assms(2,3) map_of_SomeD [OF assms(4)] mset_eq_setD [OF assms(2)] mset_eq_imp_distinct_iff [OF assms(2)]
    by (force simp: snapshotKVCaches_def)+
  have "runParallel ?action (order (snapshotKVCaches G)) G d = (err, G', d')"
    using assms(1,4) by (auto simp: ClearAllKV_def applyAllKV_def snapshotKVCaches_def Let_def split: if_splits)
  then show ?thesis by (rule runParallel_all [where P = "\<lambda>c. kv_localCache c = []", OF _ n(1) assms(4) clear_local n(2)])
qed

definition kv_demo_globals :: "(string, string, bus) kv_globals" where
  "kv_demo_globals = \<lparr>globalRedisClient = Some (bus_ref ''kv:c:invalidate''),
     kvRegistry = [(''c'', \<lparr>ke_type = ''string,string'', ke_types = kt_ref, ke_cache = kv_demo ''0''\<rparr>)]\<rparr>"

theorem kv_clear_all_witness:
  "\<exists>err G' d' c. ClearAllKV rev iv_ref 0 0 (\<lambda>_ d. d) kv_demo_globals (Map.empty, \<lambda>_. []) = (err, G', d') \<and>
     map_of (kvRegistry G') ''c'' = Some \<lparr>ke_type = ''string,string'', ke_types = kt_ref, ke_cache = c\<rparr> \<and> kv_localCache c = []"
proof -
  obtain err G' d' where 1: "ClearAllKV rev iv_ref 0 0 (\<lambda>_ d. d) kv_demo_globals (Map.empty, \<lambda>_. []) = (err, G', d')" by (rule prod_cases3)
  show ?thesis using kv_clear_all [OF 1, of "''c''"] 1 by (simp add: kv_demo_globals_def)
qed

text \<open>The error of a warm-up is lost.\<close>

lemma warmup_nil: "fst (WarmupAllKV order J T reset G d) = None"
  by (simp add: WarmupAllKV_def split: prod.splits)

end
