(* ===== verification/Model_Kv.thy ===== *)
theory Model_Kv
  imports Kv_Registry
begin

text \<open>
  \<open>ModelKVCache\<close> of \<open>model_kv.go\<close>: a key-value cache for each of some fields of a database model, read by
  offset from the memory of the struct. The database and the schema are \<open>gorm\<close>'s. The caches are the
  entries of the global table; the rows kept for the loaders are a cell of the world, which both the
  cache and the loaders reach.
\<close>

section \<open>Reading fields from memory\<close>

text \<open>What lies behind a pointer to a model: bytes, from the start of the struct on; the strings whose
  headers are there; and what \<open>fmt.Sprintf\<close> shows of a field.\<close>

record model =
  md_byte :: "nat \<Rightarrow> 8 word"
  md_string :: "nat \<Rightarrow> string"
  md_shown :: "nat \<Rightarrow> string"

datatype Kind = KindString | KindInt nat | KindUint nat | KindBool | KindOther

record schema_field =
  sf_Name :: string
  sf_DBName :: string
  sf_Offset :: nat
  sf_Kind :: Kind
  sf_Index :: nat

text \<open>Eight bytes, the lowest first.\<close>

definition read64 :: "model \<Rightarrow> nat \<Rightarrow> 64 word" where
  "read64 m off = word_rcat (map (\<lambda>i. md_byte m (off + i)) [7, 6, 5, 4, 3, 2, 1, 0])"

type_synonym fieldExtractor = "model option \<Rightarrow> string"

definition buildExtractor :: "schema_field \<Rightarrow> fieldExtractor" where
  "buildExtractor sf m =
     (case m of
        None \<Rightarrow> []
      | Some m \<Rightarrow>
          (case sf_Kind sf of
             KindString \<Rightarrow> md_string m (sf_Offset sf)
           | KindInt n \<Rightarrow> show_int (sint (read64 m (sf_Offset sf)))
           | KindUint n \<Rightarrow> show_int (uint (read64 m (sf_Offset sf)))
           | KindBool \<Rightarrow> if md_byte m (sf_Offset sf) \<noteq> 0 then ''true'' else ''false''
           | KindOther \<Rightarrow> md_shown m (sf_Index sf)))"

section \<open>Presets and builders\<close>

record FieldCacheConfig =
  fc_CacheName :: string
  fc_FieldName :: string

type_synonym ('k, 'v, 'd) ModelKVBase = "('k, 'v, 'd) KVOption list"

definition NewModelKVBase :: "('k, 'v, 'd) ModelKVBase" where
  "NewModelKVBase = []"

definition base_Namespace :: "string \<Rightarrow> ('k, 'v, 'd) ModelKVBase \<Rightarrow> ('k, 'v, 'd) ModelKVBase" where
  "base_Namespace ns b = b @ [WithKVNamespace ns]"

definition base_TTL :: "duration \<Rightarrow> ('k, 'v, 'd) ModelKVBase \<Rightarrow> ('k, 'v, 'd) ModelKVBase" where
  "base_TTL ttl b = b @ [WithKVTTL ttl]"

definition base_RefreshInterval :: "duration \<Rightarrow> ('k, 'v, 'd) ModelKVBase \<Rightarrow> ('k, 'v, 'd) ModelKVBase" where
  "base_RefreshInterval d b = b @ [WithKVRefreshInterval d]"

definition base_Options :: "('k, 'v, 'd) KVOption list \<Rightarrow> ('k, 'v, 'd) ModelKVBase \<Rightarrow> ('k, 'v, 'd) ModelKVBase" where
  "base_Options opts b = b @ opts"

text \<open>The database: the schema of a model, and its queries, in an order of columns.\<close>

record schema =
  sc_Table :: string
  sc_Primary :: "schema_field option"
  sc_LookUpField :: "string \<Rightarrow> schema_field option"

record 'd model_db =
  db_schema :: "schema go_result"
  db_Find :: "string \<Rightarrow> string list \<Rightarrow> 'd \<Rightarrow> model option list go_result \<times> 'd"

text \<open>A base may be nil.\<close>

record 'd ModelKVBuilder =
  mb_base :: "(string, string, 'd) ModelKVBase option"
  mb_db :: "'d model_db"
  mb_keyField :: string
  mb_fields :: "FieldCacheConfig list"
  mb_extraOpts :: "(string, string, 'd) KVOption list"
  mb_loadTTL :: duration

definition NewModelKV :: "(string, string, 'd) ModelKVBase option \<Rightarrow> 'd model_db \<Rightarrow> 'd ModelKVBuilder" where
  "NewModelKV base db = \<lparr>mb_base = base, mb_db = db, mb_keyField = [], mb_fields = [], mb_extraOpts = [], mb_loadTTL = second\<rparr>"

definition mb_KeyField :: "string \<Rightarrow> 'd ModelKVBuilder \<Rightarrow> 'd ModelKVBuilder" where
  "mb_KeyField name b = b\<lparr>mb_keyField := name\<rparr>"

definition mb_Field :: "string \<Rightarrow> 'd ModelKVBuilder \<Rightarrow> 'd ModelKVBuilder" where
  "mb_Field fieldName b = b\<lparr>mb_fields := mb_fields b @ [\<lparr>fc_CacheName = [], fc_FieldName = fieldName\<rparr>]\<rparr>"

definition mb_Fields :: "string list \<Rightarrow> 'd ModelKVBuilder \<Rightarrow> 'd ModelKVBuilder" where
  "mb_Fields fieldNames b = fold mb_Field fieldNames b"

definition mb_LoadTTL :: "duration \<Rightarrow> 'd ModelKVBuilder \<Rightarrow> 'd ModelKVBuilder" where
  "mb_LoadTTL ttl b = b\<lparr>mb_loadTTL := ttl\<rparr>"

definition mb_ExtraOptions :: "(string, string, 'd) KVOption list \<Rightarrow> 'd ModelKVBuilder \<Rightarrow> 'd ModelKVBuilder" where
  "mb_ExtraOptions opts b = b\<lparr>mb_extraOpts := mb_extraOpts b @ opts\<rparr>"

section \<open>The cache\<close>

text \<open>Where the rows are kept: \<open>None\<close> is nil.\<close>

record load_cell =
  cachedItems :: "model option list option"
  cachedItemsAt :: time

record 'd load_ref =
  lr_get :: "'d \<Rightarrow> load_cell"
  lr_put :: "load_cell \<Rightarrow> 'd \<Rightarrow> 'd"

record fieldKVEntry =
  fk_cacheName :: string
  fk_extractor :: fieldExtractor

record 'd ModelKVCache =
  mk_db :: "'d model_db"
  mk_tableName :: string
  mk_selectColumns :: "string list"
  mk_keyExtractor :: fieldExtractor
  mk_fieldKVs :: "fieldKVEntry list"
  mk_fieldIndex :: "(string, nat) go_map"
  mk_loadTTL :: duration
  mk_cell :: "'d load_ref"

text \<open>The clock is read for the two checks and after the query.\<close>

definition cell_fresh :: "time \<Rightarrow> duration \<Rightarrow> load_cell \<Rightarrow> bool" where
  "cell_fresh now ttl l \<longleftrightarrow> cachedItems l \<noteq> None \<and> now - cachedItemsAt l < ttl"

definition mk_loadAll :: "(nat \<Rightarrow> time) \<Rightarrow> 'd ModelKVCache \<Rightarrow> 'd \<Rightarrow> model option list go_result \<times> 'd" where
  "mk_loadAll T c d =
     (let l = lr_get (mk_cell c) d in
      if cell_fresh (T 0) (mk_loadTTL c) l then (Inr (the (cachedItems l)), d)
      else if cell_fresh (T 1) (mk_loadTTL c) l then (Inr (the (cachedItems l)), d)
      else (case db_Find (mk_db c) (mk_tableName c) (mk_selectColumns c) d of
              (Inl err, d1) \<Rightarrow> (Inl err, d1)
            | (Inr items, d1) \<Rightarrow> (Inr items, lr_put (mk_cell c) \<lparr>cachedItems = Some items, cachedItemsAt = T 2\<rparr> d1)))"

fun field_map :: "fieldExtractor \<Rightarrow> fieldExtractor \<Rightarrow> model option list \<Rightarrow> (string, string) go_map \<Rightarrow> (string, string) go_map" where
  "field_map keyE valE [] result = result"
| "field_map keyE valE (item # items) result =
     (if item = None \<or> keyE item = [] then field_map keyE valE items result
      else field_map keyE valE items (AList.update (keyE item) (valE item) result))"

definition loadFieldMap :: "(nat \<Rightarrow> time) \<Rightarrow> nat \<Rightarrow> 'd ModelKVCache \<Rightarrow> 'd \<Rightarrow> (string, string) go_map go_result \<times> 'd" where
  "loadFieldMap T fieldIdx c d =
     (case mk_loadAll T c d of
        (Inl err, d1) \<Rightarrow> (Inl err, d1)
      | (Inr items, d1) \<Rightarrow>
          (if fieldIdx < length (mk_fieldKVs c)
           then Inr (field_map (mk_keyExtractor c) (fk_extractor (mk_fieldKVs c ! fieldIdx)) items [])
           else Inl RuntimePanic, d1))"

definition ResetLoadCache :: "'d ModelKVCache \<Rightarrow> 'd \<Rightarrow> 'd" where
  "ResetLoadCache c d = lr_put (mk_cell c) \<lparr>cachedItems = None, cachedItemsAt = - 62135596800 * second\<rparr> d"

section \<open>Registration\<close>

type_synonym 'd modelKVRegistry = "(string, 'd ModelKVCache) go_map"

definition resolve_key :: "'d ModelKVBuilder \<Rightarrow> schema \<Rightarrow> schema_field option" where
  "resolve_key b s =
     (let keyFieldName = (if mb_keyField b = [] then map_option sf_Name (sc_Primary s) else Some (mb_keyField b))
      in (case keyFieldName of None \<Rightarrow> None | Some name \<Rightarrow> sc_LookUpField s name))"

text \<open>The names of the caches, the extractors and the columns; an unknown field panics.\<close>

fun resolve_fields :: "schema \<Rightarrow> FieldCacheConfig list \<Rightarrow> (fieldKVEntry \<times> string) list option" where
  "resolve_fields s [] = Some []"
| "resolve_fields s (fc # fcs) =
     (case sc_LookUpField s (fc_FieldName fc) of
        None \<Rightarrow> None
      | Some sf \<Rightarrow>
          map_option (\<lambda>rest. (\<lparr>fk_cacheName = sc_Table s @ '':'' @ fc_FieldName fc, fk_extractor = buildExtractor sf\<rparr>, sf_DBName sf) # rest)
            (resolve_fields s fcs))"

definition field_index :: "FieldCacheConfig list \<Rightarrow> (string, nat) go_map" where
  "field_index fcs = fold (\<lambda>(i, fc). AList.update (fc_FieldName fc) i) (enumerate 0 fcs) []"

text \<open>The caches of the fields, one after the other; \<open>nanos\<close> are the clock readings of their identifiers.\<close>

fun register_fields ::
  "mathx \<Rightarrow> (nat \<Rightarrow> time) \<Rightarrow> bool \<Rightarrow> (nat \<Rightarrow> nat \<Rightarrow> time) \<Rightarrow> (string, string) kv_types \<Rightarrow> 'd ModelKVCache \<Rightarrow> (string, string, 'd) KVOption list \<Rightarrow>
   (nat \<times> fieldKVEntry) list \<Rightarrow> (string, string, 'd) kv_globals \<Rightarrow> go_error option \<times> (string, string, 'd) kv_globals" where
  "register_fields X nanos subscribed T Y c opts [] G = (None, G)"
| "register_fields X nanos subscribed T Y c opts ((idx, fk) # fks) G =
     (case RegisterKV X (nanos (2 * idx)) (nanos (2 * idx + 1)) subscribed ''string,string'' Y (fk_cacheName fk) (Some (loadFieldMap (T idx) idx c)) opts G of
        (Some err, G1) \<Rightarrow> (Some err, G1)
      | (None, G1) \<Rightarrow> register_fields X nanos subscribed T Y c opts fks G1)"

definition registerModelKV ::
  "mathx \<Rightarrow> (nat \<Rightarrow> time) \<Rightarrow> bool \<Rightarrow> (nat \<Rightarrow> nat \<Rightarrow> time) \<Rightarrow> (string, string) kv_types \<Rightarrow> 'd load_ref \<Rightarrow> string \<Rightarrow> bool \<Rightarrow> 'd ModelKVBuilder \<Rightarrow>
   (string, string, 'd) kv_globals \<Rightarrow> 'd modelKVRegistry \<Rightarrow> 'd ModelKVCache go_result \<times> (string, string, 'd) kv_globals \<times> 'd modelKVRegistry" where
  "registerModelKV X nanos subscribed T Y cell modelType is_struct b G R =
     (if \<not> is_struct \<or> mb_fields b = [] then (Inl RuntimePanic, G, R)
      else (case db_schema (mb_db b) of
        Inl err \<Rightarrow> (Inl RuntimePanic, G, R)
      | Inr s \<Rightarrow>
          (case resolve_key b s of
             None \<Rightarrow> (Inl RuntimePanic, G, R)
           | Some key \<Rightarrow>
               (case resolve_fields s (mb_fields b) of
                  None \<Rightarrow> (Inl RuntimePanic, G, R)
                | Some fks \<Rightarrow>
                    (let c = \<lparr>mk_db = mb_db b, mk_tableName = sc_Table s, mk_selectColumns = sf_DBName key # map snd fks,
                              mk_keyExtractor = buildExtractor key, mk_fieldKVs = map fst fks, mk_fieldIndex = field_index (mb_fields b),
                              mk_loadTTL = mb_loadTTL b, mk_cell = cell\<rparr>
                     in (case mb_base b of
                           None \<Rightarrow> (Inl RuntimePanic, G, R)
                         | Some base \<Rightarrow>
                             (case register_fields X nanos subscribed T Y c (base @ mb_extraOpts b) (enumerate 0 (map fst fks)) G of
                                (Some err, G1) \<Rightarrow> (Inl err, G1, R)
                              | (None, G1) \<Rightarrow>
                                  if map_of R modelType \<noteq> None then (Inl RuntimePanic, G1, R)
                                  else (Inr c, G1, AList.update modelType c R))))))))"

definition GetModelKV :: "string \<Rightarrow> 'd modelKVRegistry \<Rightarrow> 'd ModelKVCache go_result" where
  "GetModelKV t R = (case map_of R t of None \<Rightarrow> Inl (FmtError (''cachex: ModelKVCache['' @ t @ ''] not registered'')) | Some c \<Rightarrow> Inr c)"

definition MustGetModelKV :: "string \<Rightarrow> 'd modelKVRegistry \<Rightarrow> 'd ModelKVCache go_result" where
  "MustGetModelKV t R = (case GetModelKV t R of Inl err \<Rightarrow> Inl RuntimePanic | Inr c \<Rightarrow> Inr c)"

definition modelKVRegistrySize :: "'d modelKVRegistry \<Rightarrow> int" where
  "modelKVRegistrySize R = int (length R)"

definition ResetAllModelKVLoadCache :: "'d modelKVRegistry \<Rightarrow> 'd \<Rightarrow> 'd" where
  "ResetAllModelKVLoadCache R d = fold (\<lambda>(t, c). ResetLoadCache c) R d"

definition ResetModelKVRegistry :: "'d modelKVRegistry \<Rightarrow> 'd modelKVRegistry" where
  "ResetModelKVRegistry R = []"

section \<open>Writing\<close>

text \<open>The cache of a field, in the global table; it was put there by the registration.\<close>

definition field_entry :: "fieldKVEntry \<Rightarrow> (string, string, 'd) kv_globals \<Rightarrow> (string, string, 'd) kv_entry option" where
  "field_entry fk G = map_of (kvRegistry G) (fk_cacheName fk)"

text \<open>The commands of the fields for the pipeline, up to an error.\<close>

fun sets_to_pipe ::
  "string \<Rightarrow> model \<Rightarrow> fieldKVEntry list \<Rightarrow> (string, string, 'd) kv_globals \<Rightarrow> pipe_cmd list go_result \<times> (string, string, 'd) kv_globals" where
  "sets_to_pipe key m [] G = (Inr [], G)"
| "sets_to_pipe key m (fk # fks) G =
     (case field_entry fk G of
        None \<Rightarrow> (Inl RuntimePanic, G)
      | Some e \<Rightarrow>
          (case SetToPipe (ke_types e) key (fk_extractor fk (Some m)) (ke_cache e) of
             (Inl err, c) \<Rightarrow> (Inl err, put_cache (fk_cacheName fk) e c G)
           | (Inr cmd, c) \<Rightarrow>
               (case sets_to_pipe key m fks (put_cache (fk_cacheName fk) e c G) of
                  (r, G') \<Rightarrow> (map_sum id (\<lambda>cmds. cmd # cmds) r, G'))))"

fun deletes_to_pipe ::
  "string \<Rightarrow> fieldKVEntry list \<Rightarrow> (string, string, 'd) kv_globals \<Rightarrow> pipe_cmd list go_result \<times> (string, string, 'd) kv_globals" where
  "deletes_to_pipe key [] G = (Inr [], G)"
| "deletes_to_pipe key (fk # fks) G =
     (case field_entry fk G of
        None \<Rightarrow> (Inl RuntimePanic, G)
      | Some e \<Rightarrow>
          (case DeleteFromPipe (ke_types e) key (ke_cache e) of
             (cmd, c) \<Rightarrow>
               (case deletes_to_pipe key fks (put_cache (fk_cacheName fk) e c G) of
                  (r, G') \<Rightarrow> (map_sum id (\<lambda>cmds. cmd # cmds) r, G'))))"

definition publish_all :: "iv_json \<Rightarrow> string \<Rightarrow> fieldKVEntry list \<Rightarrow> (string, string, 'd) kv_globals \<Rightarrow> 'd \<Rightarrow> 'd" where
  "publish_all J key fks G d =
     fold (\<lambda>fk d. case field_entry fk G of None \<Rightarrow> d | Some e \<Rightarrow> PublishInvalidation J [key] (ke_cache e) d) fks d"

text \<open>The pipeline is sent by the client of the first field.\<close>

definition send_all ::
  "iv_json \<Rightarrow> time \<Rightarrow> (nat \<Rightarrow> 'd \<Rightarrow> 'd) \<Rightarrow> string \<Rightarrow> fieldKVEntry list \<Rightarrow> pipe_cmd list go_result \<times> (string, string, 'd) kv_globals \<Rightarrow> 'd \<Rightarrow>
   go_error option \<times> (string, string, 'd) kv_globals \<times> 'd" where
  "send_all J now others key fks p d =
     (case p of
        (Inl err, G) \<Rightarrow> (Some err, G, d)
      | (Inr cmds, G) \<Rightarrow>
          (case (case fks of [] \<Rightarrow> None | fk # _ \<Rightarrow> Option.bind (field_entry fk G) (\<lambda>e. Client (ke_cache e))) of
             None \<Rightarrow> (Some RuntimePanic, G, d)
           | Some S \<Rightarrow>
               (case kv_Exec S now others cmds d of
                  ((Some err, rs), d') \<Rightarrow> (Some err, G, d')
                | ((None, rs), d') \<Rightarrow> (None, G, publish_all J key fks G d'))))"

definition mk_Set ::
  "iv_json \<Rightarrow> time \<Rightarrow> (nat \<Rightarrow> 'd \<Rightarrow> 'd) \<Rightarrow> model option \<Rightarrow> 'd ModelKVCache \<Rightarrow> (string, string, 'd) kv_globals \<Rightarrow> 'd \<Rightarrow>
   go_error option \<times> (string, string, 'd) kv_globals \<times> 'd" where
  "mk_Set J now others m c G d =
     (case m of
        None \<Rightarrow> (None, G, d)
      | Some m \<Rightarrow>
          let key = mk_keyExtractor c (Some m) in
          (case mk_fieldKVs c of
             [fk] \<Rightarrow>
               (case field_entry fk G of
                  None \<Rightarrow> (Some RuntimePanic, G, d)
                | Some e \<Rightarrow>
                    (case kv_Set (ke_types e) J now others key (fk_extractor fk (Some m)) (ke_cache e) d of
                       (err, c', d') \<Rightarrow> (err, put_cache (fk_cacheName fk) e c' G, d')))
           | fks \<Rightarrow> send_all J now others key fks (sets_to_pipe key m fks G) d))"

definition mk_DeleteByKey ::
  "iv_json \<Rightarrow> time \<Rightarrow> (nat \<Rightarrow> 'd \<Rightarrow> 'd) \<Rightarrow> string \<Rightarrow> 'd ModelKVCache \<Rightarrow> (string, string, 'd) kv_globals \<Rightarrow> 'd \<Rightarrow>
   go_error option \<times> (string, string, 'd) kv_globals \<times> 'd" where
  "mk_DeleteByKey J now others key c G d =
     (case mk_fieldKVs c of
        [fk] \<Rightarrow>
          (case field_entry fk G of
             None \<Rightarrow> (Some RuntimePanic, G, d)
           | Some e \<Rightarrow>
               (case kv_Delete (ke_types e) J now others key (ke_cache e) d of
                  (err, c', d') \<Rightarrow> (err, put_cache (fk_cacheName fk) e c' G, d')))
      | fks \<Rightarrow> send_all J now others key fks (deletes_to_pipe key fks G) d)"

definition mk_Delete ::
  "iv_json \<Rightarrow> time \<Rightarrow> (nat \<Rightarrow> 'd \<Rightarrow> 'd) \<Rightarrow> model option \<Rightarrow> 'd ModelKVCache \<Rightarrow> (string, string, 'd) kv_globals \<Rightarrow> 'd \<Rightarrow>
   go_error option \<times> (string, string, 'd) kv_globals \<times> 'd" where
  "mk_Delete J now others m c G d =
     (case m of None \<Rightarrow> (None, G, d) | Some _ \<Rightarrow> mk_DeleteByKey J now others (mk_keyExtractor c m) c G d)"

section \<open>Reading\<close>

definition GetFieldMany ::
  "(nat \<Rightarrow> time) \<Rightarrow> string \<Rightarrow> string list \<Rightarrow> 'd ModelKVCache option \<Rightarrow> (string, string, 'd) kv_globals \<Rightarrow> 'd \<Rightarrow>
   (string, string) go_map option \<times> (string, string, 'd) kv_globals \<times> 'd" where
  "GetFieldMany T fieldName keys c G d =
     (case c of
        None \<Rightarrow> (None, G, d)
      | Some c \<Rightarrow>
          (if keys = [] then (None, G, d)
           else (case Option.bind (map_of (mk_fieldIndex c) fieldName) (\<lambda>idx. field_entry (mk_fieldKVs c ! idx) G) of
                   None \<Rightarrow> (None, G, d)
                 | Some e \<Rightarrow>
                     (case kv_GetMany (ke_types e) T keys (ke_cache e) d of
                        (r, c', d') \<Rightarrow>
                          ((case r of Inl err \<Rightarrow> None | Inr v \<Rightarrow> Some v),
                           put_cache (fk_cacheName (mk_fieldKVs c ! the (map_of (mk_fieldIndex c) fieldName))) e c' G, d')))))"

text \<open>The known fields, with their caches.\<close>

fun known_fields :: "'d ModelKVCache \<Rightarrow> (string, string, 'd) kv_globals \<Rightarrow> string list \<Rightarrow> (string \<times> (string, string, 'd) kv_entry) list" where
  "known_fields c G [] = []"
| "known_fields c G (fn # fns) =
     (case Option.bind (map_of (mk_fieldIndex c) fn) (\<lambda>idx. field_entry (mk_fieldKVs c ! idx) G) of
        None \<Rightarrow> known_fields c G fns
      | Some e \<Rightarrow> (fn, e) # known_fields c G fns)"

text \<open>The values of one field: not those that are missing or empty.\<close>

fun put_values ::
  "string \<Rightarrow> (string \<times> string option) list \<Rightarrow> (string, (string, string) go_map) go_map \<Rightarrow> (string, (string, string) go_map) go_map" where
  "put_values fn [] result = result"
| "put_values fn ((k, val) # vals) result =
     (case val of
        None \<Rightarrow> put_values fn vals result
      | Some s \<Rightarrow>
          if s = [] then put_values fn vals result
          else put_values fn vals (AList.update k (AList.update fn s (case map_of result k of None \<Rightarrow> [] | Some inner \<Rightarrow> inner)) result))"

fun put_fields ::
  "string list \<Rightarrow> (string \<times> string option list go_result) list \<Rightarrow> (string, (string, string) go_map) go_map \<Rightarrow> (string, (string, string) go_map) go_map" where
  "put_fields keys [] result = result"
| "put_fields keys ((fn, r) # frs) result =
     (case r of Inl err \<Rightarrow> put_fields keys frs result | Inr vals \<Rightarrow> put_fields keys frs (put_values fn (zip keys vals) result))"

definition GetFieldsMany ::
  "(nat \<Rightarrow> time) \<Rightarrow> (nat \<Rightarrow> 'd \<Rightarrow> 'd) \<Rightarrow> string list \<Rightarrow> string list \<Rightarrow> 'd ModelKVCache option \<Rightarrow> (string, string, 'd) kv_globals \<Rightarrow> 'd \<Rightarrow>
   (string, (string, string) go_map) go_map option \<times> (string, string, 'd) kv_globals \<times> 'd" where
  "GetFieldsMany T others fieldNames keys c G d =
     (case c of
        None \<Rightarrow> (None, G, d)
      | Some c \<Rightarrow>
          (if keys = [] \<or> fieldNames = [] then (None, G, d)
           else (case known_fields c G fieldNames of
                   [] \<Rightarrow> (None, G, d)
                 | [(fn, e)] \<Rightarrow>
                     (case GetFieldMany T fn keys (Some c) G d of
                        (None, G', d') \<Rightarrow> (None, G', d')
                      | (Some single, G', d') \<Rightarrow> (Some (map (\<lambda>(k, v). (k, [(fn, v)])) single), G', d'))
                 | (fn, e) # fs \<Rightarrow>
                     (case Client (ke_cache e) of
                        None \<Rightarrow> (None, G, d)
                      | Some S \<Rightarrow>
                          (case kv_Exec S (T 0) others (map (\<lambda>(fn, e). the (GetManyToPipe (ke_types e) keys (ke_cache e))) ((fn, e) # fs)) d of
                             ((err, rs), d') \<Rightarrow>
                               if err \<noteq> None \<and> err \<noteq> Some RedisNil then (None, G, d')
                               else (Some (put_fields keys (zip (map fst ((fn, e) # fs)) rs) []), G, d'))))))"

end
