(* ===== verification/Model_Cache.thy ===== *)
theory Model_Cache
  imports Model_Kv
begin

text \<open>
  \<open>ModelCache\<close> of \<open>model_cache.go\<close>: whole rows of a table in a key-value cache, under a key that joins the
  values of some fields; what is missing is read from the database by key. The queries are \<open>gorm\<close>'s.
\<close>

section \<open>Joining and splitting strings\<close>

fun str_join :: "string \<Rightarrow> string list \<Rightarrow> string" where
  "str_join sep [] = []"
| "str_join sep [p] = p"
| "str_join sep (p # ps) = p @ sep @ str_join sep ps"

text \<open>\<open>strings.Split\<close>; an empty separator splits after each character.\<close>

function str_split :: "string \<Rightarrow> string \<Rightarrow> string list" where
  "str_split sep s =
     (if sep = [] then map (\<lambda>c. [c]) s
      else if s = [] then [[]]
      else if take (length sep) s = sep then [] # str_split sep (drop (length sep) s)
      else (case str_split sep (tl s) of [] \<Rightarrow> [[hd s]] | p # ps \<Rightarrow> (hd s # p) # ps))"
  by pat_completeness auto
termination by (relation "measure (\<lambda>(sep, s). length s)") auto

declare str_split.simps [simp del]

section \<open>The builder\<close>

text \<open>A condition of a query: a column in a list of values, or one of several conjunctions of equations.\<close>

datatype where_clause = WhereIn string "string list" | WhereAny "(string \<times> string) list list"

record 'd row_db =
  rdb_schema :: "schema go_result"
  rdb_Find :: "string \<Rightarrow> where_clause \<Rightarrow> 'd \<Rightarrow> model list go_result \<times> 'd"

record 'd ModelCacheBuilder =
  cb_base :: "(string, model, 'd) ModelKVBase option"
  cb_db :: "'d row_db"
  cb_keyFields :: "string list"
  cb_separator :: string
  cb_extraOpts :: "(string, model, 'd) KVOption list"

definition NewModelCache :: "(string, model, 'd) ModelKVBase option \<Rightarrow> 'd row_db \<Rightarrow> 'd ModelCacheBuilder" where
  "NewModelCache base db = \<lparr>cb_base = base, cb_db = db, cb_keyFields = [], cb_separator = '':'', cb_extraOpts = []\<rparr>"

definition cb_KeyFields :: "string list \<Rightarrow> 'd ModelCacheBuilder \<Rightarrow> 'd ModelCacheBuilder" where
  "cb_KeyFields names b = b\<lparr>cb_keyFields := names\<rparr>"

definition cb_Separator :: "string \<Rightarrow> 'd ModelCacheBuilder \<Rightarrow> 'd ModelCacheBuilder" where
  "cb_Separator sep b = b\<lparr>cb_separator := sep\<rparr>"

definition cb_ExtraOptions :: "(string, model, 'd) KVOption list \<Rightarrow> 'd ModelCacheBuilder \<Rightarrow> 'd ModelCacheBuilder" where
  "cb_ExtraOptions opts b = b\<lparr>cb_extraOpts := cb_extraOpts b @ opts\<rparr>"

section \<open>The cache\<close>

record modelKeyField =
  kf_dbName :: string
  kf_extractor :: fieldExtractor

text \<open>The underlying cache is the entry \<open>mc_kv\<close> of the global table.\<close>

record 'd ModelCache =
  mc_kv :: string
  mc_db :: "'d row_db"
  mc_tableName :: string
  mc_keyFields :: "modelKeyField list"
  mc_separator :: string

definition keyOf :: "'d ModelCache \<Rightarrow> model option \<Rightarrow> string" where
  "keyOf c m =
     (if m = None then []
      else (case mc_keyFields c of
              [kf] \<Rightarrow> kf_extractor kf m
            | kfs \<Rightarrow> str_join (mc_separator c) (map (\<lambda>kf. kf_extractor kf m) kfs)))"

definition buildKey :: "'d ModelCache \<Rightarrow> string list \<Rightarrow> string go_result" where
  "buildKey c keyValues =
     (if length keyValues \<noteq> length (mc_keyFields c)
      then Inl (FmtError (''cachex: ModelCache['' @ mc_tableName c @ ''] key fields mismatch: expect '' @
             show_int (int (length (mc_keyFields c))) @ '' values, got '' @ show_int (int (length keyValues))))
      else Inr (str_join (mc_separator c) keyValues))"

definition batch_where :: "modelKeyField list \<Rightarrow> string list list \<Rightarrow> where_clause" where
  "batch_where kfs parsed =
     (case kfs of
        [kf] \<Rightarrow> WhereIn (kf_dbName kf) (map hd parsed)
      | _ \<Rightarrow> WhereAny (map (\<lambda>p. zip (map kf_dbName kfs) p) parsed))"

fun rows_by_key :: "'d ModelCache \<Rightarrow> model list \<Rightarrow> (string, model) go_map \<Rightarrow> (string, model) go_map" where
  "rows_by_key c [] result = result"
| "rows_by_key c (r # rows) result =
     rows_by_key c rows (if keyOf c (Some r) \<noteq> [] then AList.update (keyOf c (Some r)) r result else result)"

definition batchLoad :: "'d ModelCache \<Rightarrow> (string, model, 'd) BatchLoader" where
  "batchLoad c keys d =
     (if keys = [] then (Inr [], d)
      else let parsed = filter (\<lambda>parts. length parts = length (mc_keyFields c)) (map (str_split (mc_separator c)) keys) in
       if parsed = [] then (Inr [], d)
       else (case rdb_Find (mc_db c) (mc_tableName c) (batch_where (mc_keyFields c) parsed) d of
               (Inl err, d1) \<Rightarrow> (Inl err, d1)
             | (Inr rows, d1) \<Rightarrow> (Inr (rows_by_key c rows []), d1)))"

section \<open>Registration\<close>

type_synonym 'd modelCacheRegistry = "(string, 'd ModelCache) go_map"

fun resolve_key_fields :: "schema \<Rightarrow> string list \<Rightarrow> modelKeyField list option" where
  "resolve_key_fields s [] = Some []"
| "resolve_key_fields s (name # names) =
     (case sc_LookUpField s name of
        None \<Rightarrow> None
      | Some sf \<Rightarrow>
          if sf_DBName sf = [] then None
          else map_option (\<lambda>kfs. \<lparr>kf_dbName = sf_DBName sf, kf_extractor = buildExtractor sf\<rparr> # kfs) (resolve_key_fields s names))"

definition key_names :: "'d ModelCacheBuilder \<Rightarrow> schema \<Rightarrow> string list option" where
  "key_names b s = (if cb_keyFields b = [] then map_option (\<lambda>pf. [sf_Name pf]) (sc_Primary s) else Some (cb_keyFields b))"

definition registerModelCache ::
  "mathx \<Rightarrow> time \<Rightarrow> time \<Rightarrow> bool \<Rightarrow> (string, model) kv_types \<Rightarrow> string \<Rightarrow> bool \<Rightarrow> 'd ModelCacheBuilder \<Rightarrow>
   (string, model, 'd) kv_globals \<Rightarrow> 'd modelCacheRegistry \<Rightarrow> 'd ModelCache go_result \<times> (string, model, 'd) kv_globals \<times> 'd modelCacheRegistry" where
  "registerModelCache X nano nano' subscribed Y modelType is_struct b G R =
     (if \<not> is_struct then (Inl RuntimePanic, G, R)
      else (case rdb_schema (cb_db b) of
        Inl err \<Rightarrow> (Inl RuntimePanic, G, R)
      | Inr s \<Rightarrow>
          (case Option.bind (key_names b s) (resolve_key_fields s) of
             None \<Rightarrow> (Inl RuntimePanic, G, R)
           | Some kfs \<Rightarrow>
               (let name = sc_Table s @ '':model'';
                    c = \<lparr>mc_kv = name, mc_db = cb_db b, mc_tableName = sc_Table s, mc_keyFields = kfs, mc_separator = IfNotEmpty X (cb_separator b) '':''\<rparr>
                in (case cb_base b of
                      None \<Rightarrow> (Inl RuntimePanic, G, R)
                    | Some base \<Rightarrow>
                        (case RegisterKV X nano nano' subscribed (''string,'' @ modelType) Y name None (base @ [WithKVBatchLoader (batchLoad c)] @ cb_extraOpts b) G of
                           (Some err, G1) \<Rightarrow> (Inl err, G1, R)
                         | (None, G1) \<Rightarrow>
                             if map_of R modelType \<noteq> None then (Inl RuntimePanic, G1, R)
                             else (Inr c, G1, AList.update modelType c R)))))))"

definition GetModelCache :: "string \<Rightarrow> 'd modelCacheRegistry \<Rightarrow> 'd ModelCache go_result" where
  "GetModelCache t R = (case map_of R t of None \<Rightarrow> Inl (FmtError (''cachex: ModelCache['' @ t @ ''] not registered'')) | Some c \<Rightarrow> Inr c)"

definition MustGetModelCache :: "string \<Rightarrow> 'd modelCacheRegistry \<Rightarrow> 'd ModelCache go_result" where
  "MustGetModelCache t R = (case GetModelCache t R of Inl err \<Rightarrow> Inl RuntimePanic | Inr c \<Rightarrow> Inr c)"

definition ResetModelCacheRegistry :: "'d modelCacheRegistry \<Rightarrow> 'd modelCacheRegistry" where
  "ResetModelCacheRegistry R = []"

section \<open>Operations\<close>

text \<open>An operation on the underlying cache.\<close>

definition on_kv ::
  "'d ModelCache \<Rightarrow> ((string, model) kv_types \<Rightarrow> (string, model, 'd) KVCache \<Rightarrow> 'd \<Rightarrow> 'r \<times> (string, model, 'd) KVCache \<times> 'd) \<Rightarrow> 'r \<Rightarrow>
   (string, model, 'd) kv_globals \<Rightarrow> 'd \<Rightarrow> 'r \<times> (string, model, 'd) kv_globals \<times> 'd" where
  "on_kv c f panic G d =
     (case map_of (kvRegistry G) (mc_kv c) of
        None \<Rightarrow> (panic, G, d)
      | Some e \<Rightarrow> (case f (ke_types e) (ke_cache e) d of (r, kv, d') \<Rightarrow> (r, put_cache (mc_kv c) e kv G, d')))"

definition mc_Get ::
  "(nat \<Rightarrow> time) \<Rightarrow> string list \<Rightarrow> 'd ModelCache \<Rightarrow> (string, model, 'd) kv_globals \<Rightarrow> 'd \<Rightarrow> model option go_result \<times> (string, model, 'd) kv_globals \<times> 'd" where
  "mc_Get T keyValues c G d =
     (case buildKey c keyValues of
        Inl err \<Rightarrow> (Inl err, G, d)
      | Inr key \<Rightarrow> on_kv c (\<lambda>Y kv d. kv_Get Y T key kv d) (Inl RuntimePanic) G d)"

definition mc_Set ::
  "iv_json \<Rightarrow> time \<Rightarrow> (nat \<Rightarrow> 'd \<Rightarrow> 'd) \<Rightarrow> model option \<Rightarrow> 'd ModelCache \<Rightarrow> (string, model, 'd) kv_globals \<Rightarrow> 'd \<Rightarrow>
   go_error option \<times> (string, model, 'd) kv_globals \<times> 'd" where
  "mc_Set J now others m c G d =
     (case m of
        None \<Rightarrow> (None, G, d)
      | Some r \<Rightarrow> on_kv c (\<lambda>Y kv d. kv_Set Y J now others (keyOf c m) r kv d) (Some RuntimePanic) G d)"

definition mc_Delete ::
  "iv_json \<Rightarrow> time \<Rightarrow> (nat \<Rightarrow> 'd \<Rightarrow> 'd) \<Rightarrow> model option \<Rightarrow> 'd ModelCache \<Rightarrow> (string, model, 'd) kv_globals \<Rightarrow> 'd \<Rightarrow>
   go_error option \<times> (string, model, 'd) kv_globals \<times> 'd" where
  "mc_Delete J now others m c G d =
     (case m of
        None \<Rightarrow> (None, G, d)
      | Some _ \<Rightarrow> on_kv c (\<lambda>Y kv d. kv_Delete Y J now others (keyOf c m) kv d) (Some RuntimePanic) G d)"

definition mc_DeleteByKey ::
  "iv_json \<Rightarrow> time \<Rightarrow> (nat \<Rightarrow> 'd \<Rightarrow> 'd) \<Rightarrow> string list \<Rightarrow> 'd ModelCache \<Rightarrow> (string, model, 'd) kv_globals \<Rightarrow> 'd \<Rightarrow>
   go_error option \<times> (string, model, 'd) kv_globals \<times> 'd" where
  "mc_DeleteByKey J now others keyValues c G d =
     (case buildKey c keyValues of
        Inl err \<Rightarrow> (Some err, G, d)
      | Inr key \<Rightarrow> on_kv c (\<lambda>Y kv d. kv_Delete Y J now others key kv d) (Some RuntimePanic) G d)"

definition InvalidateAll ::
  "iv_json \<Rightarrow> time \<Rightarrow> time \<Rightarrow> (nat \<Rightarrow> 'd \<Rightarrow> 'd) \<Rightarrow> 'd ModelCache \<Rightarrow> (string, model, 'd) kv_globals \<Rightarrow> 'd \<Rightarrow>
   go_error option \<times> (string, model, 'd) kv_globals \<times> 'd" where
  "InvalidateAll J now here others c G d = on_kv c (\<lambda>Y kv d. kv_Clear J now here others kv d) (Some RuntimePanic) G d"

definition TableName :: "'d ModelCache \<Rightarrow> string" where
  "TableName c = mc_tableName c"

section \<open>Keys\<close>

lemma split_nil: "sep \<noteq> [] \<Longrightarrow> str_split sep [] = [[]]"
  by (subst str_split.simps) simp

lemma split_sep: "sep \<noteq> [] \<Longrightarrow> str_split sep (sep @ s) = [] # str_split sep s"
  by (subst str_split.simps) simp

lemma split_char: "sep \<noteq> [] \<Longrightarrow> c \<noteq> hd sep \<Longrightarrow> str_split sep (c # s) = (case str_split sep s of [] \<Rightarrow> [[c]] | p # ps \<Rightarrow> (c # p) # ps)"
  by (subst str_split.simps) (cases sep; simp split: list.split)

lemma split_part:
  assumes "sep \<noteq> []" "set p \<inter> set sep = {}"
  shows "str_split sep (p @ s) = (case str_split sep s of [] \<Rightarrow> [p] | q # ps \<Rightarrow> (p @ q) # ps)"
  using assms(2)
proof (induction p)
  case Nil
  have "str_split sep s \<noteq> []" using assms(1) by (subst str_split.simps) (auto split: list.splits)
  then show ?case by (auto split: list.splits)
next
  case (Cons c p)
  have "c \<noteq> hd sep" using Cons.prems assms(1) by (cases sep) auto
  then show ?case using Cons split_char [OF assms(1)] by (auto split: list.splits)
qed

text \<open>What was joined is split again, if no part has a character of the separator.\<close>

lemma split_join:
  assumes "sep \<noteq> []" "parts \<noteq> []" "\<forall>p\<in>set parts. set p \<inter> set sep = {}"
  shows "str_split sep (str_join sep parts) = parts"
  using assms(2,3)
proof (induction parts rule: induct_list012)
  case (2 p)
  then show ?case using split_part [OF assms(1), of p "[]"] split_nil [OF assms(1)] by simp
next
  case (3 p q ps)
  then show ?case using split_part [OF assms(1), of p "sep @ str_join sep (q # ps)"] split_sep [OF assms(1)] by simp
qed simp

end
