(* ===== verification/Model_Kv_Correct.thy ===== *)
theory Model_Kv_Correct
  imports Model_Kv
begin

text \<open>
  What \<open>ModelKVCache\<close> reads from memory, how its loaders share one query, and that the fields of a model that
  was set are found again, less the empty ones.
\<close>

section \<open>Words of eight bytes\<close>

lemma base256: "(x :: int) = 256 * A + a \<Longrightarrow> A = 256 * B + b \<Longrightarrow> B = 256 * C + c \<Longrightarrow> x = a + 256 * b + 65536 * c + 16777216 * C"
  by simp

lemma bytes4: "(x :: int) mod 4294967296 = x mod 256 + 256 * (x div 256 mod 256) + 65536 * (x div 65536 mod 256) + 16777216 * (x div 16777216 mod 256)"
proof -
  have d: "x div 256 div 256 = x div 65536" "x div 65536 div 256 = x div 16777216" by (simp_all add: zdiv_zmult2_eq [symmetric])
  have "x mod 4294967296 = 256 * (x div 256 mod 16777216) + x mod 256" using zmod_zmult2_eq [of 16777216 x 256] by simp
  moreover have "x div 256 mod 16777216 = 256 * (x div 65536 mod 65536) + x div 256 mod 256" using zmod_zmult2_eq [of 65536 "x div 256" 256] by (simp add: d)
  moreover have "x div 65536 mod 65536 = 256 * (x div 16777216 mod 256) + x div 65536 mod 256" using zmod_zmult2_eq [of 256 "x div 65536" 256] by (simp add: d)
  ultimately show ?thesis by (rule base256)
qed

lemma byte_of_word: "uint (ucast (drop_bit k v :: 32 word) :: 8 word) = uint v div 2 ^ k mod 256"
proof -
  have v: "uint v mod 4294967296 = uint v" using uint_range_size [of v] by (simp add: word_size)
  then show ?thesis by (simp add: unsigned_ucast_eq unsigned_drop_bit_eq take_bit_eq_mod drop_bit_eq_div [where 'a = int])
qed
lemma rcat8: "uint (word_rcat [b7, b6, b5, b4, b3, b2, b1, b0 :: 8 word] :: 64 word) =
   uint b0 + 256 * uint b1 + 65536 * uint b2 + 16777216 * uint b3 + 2 ^ 32 * (uint b4 + 256 * uint b5 + 65536 * uint b6 + 16777216 * uint b7)"
proof -
  have "0 \<le> uint b \<and> uint b < 256" for b :: "8 word" using uint_range_size [of b] by (simp add: word_size)
  note r = this [of b0] this [of b1] this [of b2] this [of b3] this [of b4] this [of b5] this [of b6] this [of b7]
  let ?s = "uint b0 + 256 * uint b1 + 65536 * uint b2 + 16777216 * uint b3 + 2 ^ 32 * (uint b4 + 256 * uint b5 + 65536 * uint b6 + 16777216 * uint b7)"
  have h: "horner_sum uint (2 ^ LENGTH(8)) (rev [b7, b6, b5, b4, b3, b2, b1, b0]) = ?s"
    by (simp add: horner_sum_simps algebra_simps)
  have "?s mod 2 ^ LENGTH(64) = ?s" using r by (intro mod_pos_pos_trivial) simp_all
  then show ?thesis unfolding word_rcat_def comp_apply h uint_word_of_int .
qed
lemma signed_take_bit_wrap:
  assumes "0 \<le> (x :: int)" "x < 2 ^ Suc n"
  shows "signed_take_bit n x = (if x < 2 ^ n then x else x - 2 ^ Suc n)"
proof (cases "x < 2 ^ n")
  case True
  then show ?thesis using assms signed_take_bit_int_eq_self [of n x] by simp
next
  case False
  have "signed_take_bit n x = signed_take_bit n (x - 2 ^ Suc n)" by (simp add: signed_take_bit_eq_iff_take_bit_eq take_bit_eq_mod)
  also have "\<dots> = x - 2 ^ Suc n" by (rule signed_take_bit_int_eq_self) (use False assms in simp_all)
  finally show ?thesis using False by simp
qed

lemma sint_word_eq:
  "sint (x :: 64 word) = (if uint x < 2 ^ 63 then uint x else uint x - 2 ^ 64)"
  "sint (w :: 32 word) = (if uint w < 2 ^ 31 then uint w else uint w - 2 ^ 32)"
  using signed_take_bit_wrap [of "uint x" 63] signed_take_bit_wrap [of "uint w" 31] uint_range_size [of x] uint_range_size [of w]
  by (simp_all add: sint_uint word_size)

lemma halves:
  assumes "(x :: int) = v + 2 ^ 32 * w" "0 \<le> v" "v < 2 ^ 32" "0 \<le> w" "w < 2 ^ 32"
  shows "(if x < 2 ^ 63 then x else x - 2 ^ 64) = (if w < 2 ^ 31 then w else w - 2 ^ 32) * 2 ^ 32 + v"
  using assms by simp

lemma sint_high:
  fixes w v :: "32 word" and x :: "64 word"
  assumes "uint x = uint v + 2 ^ 32 * uint w"
  shows "sint x = sint w * 2 ^ 32 + uint v"
  unfolding sint_word_eq by (rule halves [OF assms]) (use uint_range_size [of v] uint_range_size [of w] in \<open>simp_all add: word_size\<close>)

lemma sint_low:
  fixes w v :: "32 word"
  shows "sint w * 2 ^ 32 + uint v = sint v \<longleftrightarrow> sint w = (if sint v < 0 then - 1 else 0)"
proof -
  have v: "0 \<le> uint v" "uint v < 2 ^ 32" using uint_range_size [of v] by (simp_all add: word_size)
  show ?thesis using v unfolding sint_word_eq(2) [of v] by simp
qed

text \<open>A 32 bit integer in memory, the lowest byte first.\<close>

definition holds32 :: "model \<Rightarrow> nat \<Rightarrow> 32 word \<Rightarrow> bool" where
  "holds32 m off v \<longleftrightarrow> (\<forall>i\<in>{0, 1, 2, 3}. md_byte m (off + i) = ucast (drop_bit (8 * i) v))"

lemma holds32_uint:
  assumes "holds32 m off v"
  shows "uint (md_byte m off) + 256 * uint (md_byte m (off + 1)) + 65536 * uint (md_byte m (off + 2)) + 16777216 * uint (md_byte m (off + 3)) = uint v"
proof -
  have v: "uint v mod 4294967296 = uint v" using uint_range_size [of v] by (simp add: word_size)
  have "uint (md_byte m (off + i)) = uint v div 2 ^ (8 * i) mod 256" if "i \<in> {0, 1, 2, 3}" for i
    using assms that byte_of_word [of "8 * i" v] unfolding holds32_def by metis
  from this [of 0] this [of 1] this [of 2] this [of 3]
  have e: "uint (md_byte m off) = uint v mod 256" "uint (md_byte m (off + 1)) = uint v div 256 mod 256"
    "uint (md_byte m (off + 2)) = uint v div 65536 mod 256" "uint (md_byte m (off + 3)) = uint v div 16777216 mod 256" by simp_all
  show ?thesis unfolding e bytes4 [of "uint v", symmetric] by (rule v)
qed

lemma read64_halves:
  assumes "holds32 m off v" "holds32 m (off + 4) w"
  shows "uint (read64 m off) = uint v + 2 ^ 32 * uint w"
  unfolding holds32_uint [OF assms(1), symmetric] holds32_uint [OF assms(2), symmetric]
  by (simp add: read64_def rcat8 ac_simps flip: One_nat_def)

section \<open>Extraction\<close>

text \<open>
  The extractor of a field of type \<open>int32\<close> reads the four bytes behind it as well: it prints the
  number that both halves make, which is the number in the field if and only if those bytes happen to be
  its sign, all zeros for a number not below zero and all ones for a negative one.
\<close>
theorem mk_int32_neighbours:
  assumes "sf_Kind sf = KindInt 4" "holds32 m (sf_Offset sf) v" "holds32 m (sf_Offset sf + 4) w"
  shows "buildExtractor sf (Some m) = show_int (sint w * 2 ^ 32 + uint v) \<and>
    (buildExtractor sf (Some m) = show_int (sint v) \<longleftrightarrow> sint w = (if sint v < 0 then - 1 else 0))"
proof -
  have "buildExtractor sf (Some m) = show_int (sint w * 2 ^ 32 + uint v)"
    using sint_high [OF read64_halves [OF assms(2,3)]] assms(1) by (simp add: buildExtractor_def)
  then show ?thesis unfolding sint_low [symmetric] by (simp add: show_int_inj)
qed

definition demo_struct :: model where
  "demo_struct = \<lparr>md_byte = (\<lambda>i. if i = 0 then 7 else if i = 4 then 1 else 0), md_string = (\<lambda>_. []), md_shown = (\<lambda>_. [])\<rparr>"

theorem mk_int32_neighbours_witness:
  "buildExtractor \<lparr>sf_Name = ''Kind'', sf_DBName = ''kind'', sf_Offset = 0, sf_Kind = KindInt 4, sf_Index = 0\<rparr> (Some demo_struct) = show_int 4294967303"
  (is "buildExtractor ?sf _ = _")
proof -
  have h: "holds32 demo_struct (sf_Offset ?sf) 7" "holds32 demo_struct (sf_Offset ?sf + 4) 1"
    by (simp_all add: holds32_def demo_struct_def drop_bit_eq_div) 
  show ?thesis using mk_int32_neighbours [OF _ h] by simp
qed

section \<open>One query for all fields\<close>

definition cell_law :: "'d load_ref \<Rightarrow> bool" where
  "cell_law L \<longleftrightarrow> (\<forall>l d. lr_get L (lr_put L l d) = l)"

lemma loadAll_cell:
  assumes "cell_law (mk_cell c)" "mk_loadAll T c d = (Inr items, d1)"
  shows "cachedItems (lr_get (mk_cell c) d1) = Some items"
  using assms by (auto simp: mk_loadAll_def cell_law_def cell_fresh_def Let_def split: if_splits prod.splits sum.splits)

text \<open>
  Once the loader of one field has loaded, then for the time of the window the loader of every field
  answers from the same rows, without a query: no field is of another moment than the others.
\<close>
theorem mk_one_query:
  assumes "cell_law (mk_cell c)" "i < length (mk_fieldKVs c)" "j < length (mk_fieldKVs c)"
    and "loadFieldMap T i c d = (Inr m1, d1)" "lr_get (mk_cell c) d2 = lr_get (mk_cell c) d1"
    and "T' 0 - cachedItemsAt (lr_get (mk_cell c) d1) < mk_loadTTL c"
  shows "\<exists>rows. m1 = field_map (mk_keyExtractor c) (fk_extractor (mk_fieldKVs c ! i)) rows [] \<and>
    loadFieldMap T' j c d2 = (Inr (field_map (mk_keyExtractor c) (fk_extractor (mk_fieldKVs c ! j)) rows []), d2)"
proof -
  obtain rows where r: "mk_loadAll T c d = (Inr rows, d1)" "m1 = field_map (mk_keyExtractor c) (fk_extractor (mk_fieldKVs c ! i)) rows []"
    using assms(2,4) by (auto simp: loadFieldMap_def split: prod.splits sum.splits)
  have "cachedItems (lr_get (mk_cell c) d2) = Some rows" using loadAll_cell [OF assms(1) r(1)] assms(5) by simp
  then have "mk_loadAll T' c d2 = (Inr rows, d2)" using assms(5,6) by (simp add: mk_loadAll_def cell_fresh_def)
  then show ?thesis using r(2) assms(3) by (intro exI [of _ rows]) (simp add: loadFieldMap_def)
qed

section \<open>Pipelines on a database\<close>

fun evals_db :: "time \<Rightarrow> string option list lua list \<Rightarrow> redis_db \<Rightarrow> string option list go_result list \<times> redis_db" where
  "evals_db now [] D = ([], D)"
| "evals_db now (s # ss) D = (case run_db now s D of (r, D1) \<Rightarrow> case evals_db now ss D1 of (rs, D2) \<Rightarrow> (r # rs, D2))"

lemma pipe_evals:
  assumes "redis_law (ks_redis S) db" "db_wf (db d)" "kv_pipe S now (\<lambda>_ d. d) (map PEval ss) d = (rs, d')"
  shows "evals_db now ss (db d) = (rs, db d') \<and> db_wf (db d')"
  using assms(2,3)
proof (induction ss arbitrary: d rs)
  case (Cons s ss)
  obtain r d1 where 1: "run (ks_redis S) now s d = (r, d1)" by fastforce
  obtain rs1 where 2: "kv_pipe S now (\<lambda>_ d. d) (map PEval ss) d1 = (rs1, d')" "rs = r # rs1"
    using Cons.prems(2) 1 by (auto split: prod.splits)
  have "run_db now s (db d) = (r, db d1)" "db_wf (db d1)" using run_run_db [OF assms(1) Cons.prems(1) 1] by simp_all
  then show ?case using Cons.IH [OF _ 2(1)] 2(2) by simp
qed simp

lemma Exec_evals:
  assumes "redis_law (ks_redis S) db" "redis_up (ks_redis S)" "db_wf (db d)" "ss \<noteq> []" "evals_db now ss (db d) = (rs, D)" "first_err rs = None"
  obtains d' where "kv_Exec S now (\<lambda>_ d. d) (map PEval ss) d = ((None, rs), d')" "db d' = D" "db_wf D"
proof -
  obtain rs' d' where p: "kv_pipe S now (\<lambda>_ d. d) (map PEval ss) d = (rs', d')" by fastforce
  have e: "rs' = rs" "db d' = D" "db_wf D" using pipe_evals [OF assms(1,3) p] assms(5) by simp_all
  have "rd_net (ks_redis S) d = Delivered" using assms(2) by (simp add: redis_up_def)
  then show thesis using that [of d'] p e assms(4,6) by (simp add: kv_Exec_def)
qed

text \<open>A hash with some deadline, or no hash.\<close>

definition hash_at :: "time \<Rightarrow> redis_db \<Rightarrow> string \<Rightarrow> (string \<rightharpoonup> string) \<Rightarrow> bool" where
  "hash_at now D key H \<longleftrightarrow> (\<exists>dl. holds_hash now D key H dl)"

lemma evals_sets:
  assumes "\<forall>x\<in>set xs. hash_at now D (K x) (H x) \<and> 0 < ttl x" "distinct (map K xs)"
  shows "\<exists>D'. evals_db now (map (\<lambda>x. no_result (luaKVSetMany (K x) (ttl x) [(f, V x)])) xs) D = (map (\<lambda>_. Inr []) xs, D') \<and>
    (\<forall>x\<in>set xs. holds_hash now D' (K x) ((H x)(f \<mapsto> V x)) (Some (now + ttl x * second))) \<and> (\<forall>k. k \<notin> K ` set xs \<longrightarrow> D' k = D k)"
  using assms
proof (induction xs arbitrary: D)
  case (Cons x xs)
  obtain dl where h: "holds_hash now D (K x) (H x) dl" using Cons.prems(1) by (auto simp: hash_at_def)
  obtain n D1 where 1: "run_db now (luaKVSetMany (K x) (ttl x) [(f, V x)]) D = (Inr n, D1)"
    "holds_hash now D1 (K x) (H x ++ map_of (rev [(f, V x)])) (if 0 < ttl x then Some (now + ttl x * second) else dl)" "same_but (K x) D D1"
    by (rule run_set_many [where args = "[(f, V x)]" and ttl = "ttl x", OF h]; (erule (2) that | simp))
  have u: "holds_hash now D1 (K x) ((H x)(f \<mapsto> V x)) (Some (now + ttl x * second))" using 1(2) Cons.prems(1) by simp
  have others: "D1 k = D k" if "k \<noteq> K x" for k using 1(3) that by (simp add: same_but_def)
  have "hash_at now D1 (K y) (H y)" if "y \<in> set xs" for y
  proof -
    have "K y \<in> K ` set xs" "K x \<notin> K ` set xs" "hash_at now D (K y) (H y)" using Cons.prems that by auto
    then have "K y \<noteq> K x" "hash_at now D (K y) (H y)" by metis+
    then show ?thesis unfolding hash_at_def using holds_hash_other [where db = D and db' = D1] others by blast
  qed
  then have "\<forall>y\<in>set xs. hash_at now D1 (K y) (H y) \<and> 0 < ttl y" "distinct (map K xs)" using Cons.prems by simp_all
  from Cons.IH [OF this]
  obtain D' where 2: "evals_db now (map (\<lambda>x. no_result (luaKVSetMany (K x) (ttl x) [(f, V x)])) xs) D1 = (map (\<lambda>_. Inr []) xs, D')"
    "\<forall>x\<in>set xs. holds_hash now D' (K x) ((H x)(f \<mapsto> V x)) (Some (now + ttl x * second))" "\<forall>k. k \<notin> K ` set xs \<longrightarrow> D' k = D1 k"
    by blast
  have "D' (K x) = D1 (K x)" using 2(3) Cons.prems(2) by auto
  then have "holds_hash now D' (K x) ((H x)(f \<mapsto> V x)) (Some (now + ttl x * second))"
    using u holds_hash_other [where db = D1 and db' = D'] by blast
  then show ?case using 1(1) 2 others by (intro exI [of _ D']) (simp add: run_no_result del: fun_upd_apply)
qed simp

lemma evals_gets:
  assumes "\<forall>x\<in>set xs. holds_hash now D (K x) (H x) (Some (e x)) \<and> now \<le> t \<and> t < e x"
  shows "evals_db t (map (\<lambda>x. HMGET (K x) keys) xs) D = (map (\<lambda>x. Inr (map (H x) keys)) xs, D)"
  using assms
proof (induction xs)
  case (Cons x xs)
  then have 0: "holds_hash now D (K x) (H x) (Some (e x))" "now \<le> t" "t < e x" by simp_all
  have h: "holds_hash t D (K x) (H x) (Some (e x))" by (rule holds_hash_until [OF 0(1,2)]) (use 0(3) in simp)
  show ?case using Cons run_hmget [OF h] by (simp del: HMGET.simps)
qed simp

lemma first_err_Inr [simp]: "first_err (map (\<lambda>x. Inr (g x)) xs) = None"
  by (induction xs) auto

section \<open>A model that was set is found\<close>

text \<open>The caches of the fields: on one server, of strings, each with a hash of its own.\<close>

definition same_entries :: "(string, string, 'd) kv_globals \<Rightarrow> (string, string, 'd) kv_globals \<Rightarrow> bool" where
  "same_entries G G' \<longleftrightarrow> (\<forall>n. rel_option (\<lambda>e e'. ke_types e' = ke_types e \<and> kv_fixed (ke_cache e') = kv_fixed (ke_cache e)) (map_of (kvRegistry G) n) (map_of (kvRegistry G') n))"

definition field_ok :: "'d kv_server \<Rightarrow> fieldKVEntry \<Rightarrow> string \<Rightarrow> int \<Rightarrow> (string, string, 'd) kv_globals \<Rightarrow> bool" where
  "field_ok S fk key ttl G \<longleftrightarrow> (\<exists>e. field_entry fk G = Some e \<and> kv_client (ke_cache e) = Some S \<and> kt_vString (ke_types e) = Some (id, id) \<and>
     kt_MustString (ke_types e) = id \<and> kv_redisKey (ke_cache e) = key \<and> kv_ttl (ke_cache e) = ttl)"

lemma same_entries_refl: "same_entries G G"
  by (simp add: same_entries_def option.rel_refl)

lemma same_entries_trans: "same_entries G G1 \<Longrightarrow> same_entries G1 G2 \<Longrightarrow> same_entries G G2"
  unfolding same_entries_def
proof (intro allI)
  fix n
  assume a: "\<forall>n. rel_option (\<lambda>e e'. ke_types e' = ke_types e \<and> kv_fixed (ke_cache e') = kv_fixed (ke_cache e)) (map_of (kvRegistry G) n) (map_of (kvRegistry G1) n)"
    "\<forall>n. rel_option (\<lambda>e e'. ke_types e' = ke_types e \<and> kv_fixed (ke_cache e') = kv_fixed (ke_cache e)) (map_of (kvRegistry G1) n) (map_of (kvRegistry G2) n)"
  show "rel_option (\<lambda>e e'. ke_types e' = ke_types e \<and> kv_fixed (ke_cache e') = kv_fixed (ke_cache e)) (map_of (kvRegistry G) n) (map_of (kvRegistry G2) n)"
    using a [rule_format, of n]
    by (cases "map_of (kvRegistry G) n"; cases "map_of (kvRegistry G1) n"; cases "map_of (kvRegistry G2) n") simp_all
qed

lemma same_entries_put:
  assumes "map_of (kvRegistry G) n = Some e" "kv_fixed c = kv_fixed (ke_cache e)"
  shows "same_entries G (put_cache n e c G)"
  using assms by (auto simp: same_entries_def option.rel_refl)

lemma field_ok_same:
  assumes "same_entries G G'" "field_ok S fk key ttl G"
  shows "field_ok S fk key ttl G'"
proof -
  obtain e where e: "field_entry fk G = Some e" "kv_client (ke_cache e) = Some S" "kt_vString (ke_types e) = Some (id, id)"
     "kt_MustString (ke_types e) = id" "kv_redisKey (ke_cache e) = key" "kv_ttl (ke_cache e) = ttl" using assms(2) unfolding field_ok_def by blast
  have "rel_option (\<lambda>e e'. ke_types e' = ke_types e \<and> kv_fixed (ke_cache e') = kv_fixed (ke_cache e)) (field_entry fk G) (field_entry fk G')"
    using assms(1) unfolding same_entries_def field_entry_def by blast
  then obtain e' where e': "field_entry fk G' = Some e'" "ke_types e' = ke_types e" "kv_fixed (ke_cache e') = kv_fixed (ke_cache e)"
    unfolding e(1) by (auto simp: option_rel_Some1)
  then show ?thesis using e fixedD [OF e'(3)] unfolding field_ok_def by simp
qed

definition set_script :: "string \<Rightarrow> string \<Rightarrow> int \<Rightarrow> string \<Rightarrow> string option list lua" where
  "set_script key f ttl v = no_result (luaKVSetMany key ttl [(f, v)])"

lemma sets_to_pipe_all:
  assumes "\<forall>fk\<in>set fks. field_ok S fk (K fk) (ttl fk) G"
  shows "\<exists>G'. sets_to_pipe key m fks G = (Inr (map (\<lambda>fk. PEval (set_script (K fk) key (ttl fk) (fk_extractor fk (Some m)))) fks), G') \<and> same_entries G G'"
  using assms
proof (induction fks arbitrary: G)
  case Nil
  then show ?case by (simp add: same_entries_refl)
next
  case (Cons fk fks)
  obtain e where e: "field_entry fk G = Some e" "kt_vString (ke_types e) = Some (id, id)" "kt_MustString (ke_types e) = id"
    "kv_redisKey (ke_cache e) = K fk" "kv_ttl (ke_cache e) = ttl fk" using Cons.prems unfolding field_ok_def by auto
  let ?v = "fk_extractor fk (Some m)"
  let ?c = "local_store key ?v (ke_cache e)"
  let ?G = "put_cache (fk_cacheName fk) e ?c G"
  have p: "SetToPipe (ke_types e) key ?v (ke_cache e) = (Inr (PEval (set_script (K fk) key (ttl fk) ?v)), ?c)"
    using e fixedD(4,5) [of ?c "ke_cache e"] by (simp add: SetToPipe_def encodeValue_def set_script_def Let_def)
  have s: "same_entries G ?G" by (rule same_entries_put) (use e(1) in \<open>simp_all add: field_entry_def\<close>)
  have "\<forall>fk\<in>set fks. field_ok S fk (K fk) (ttl fk) ?G" using field_ok_same [OF s] Cons.prems by auto
  then obtain G' where "sets_to_pipe key m fks ?G = (Inr (map (\<lambda>fk. PEval (set_script (K fk) key (ttl fk) (fk_extractor fk (Some m)))) fks), G')" "same_entries ?G G'"
    using Cons.IH by blast
  then show ?case using p e(1) same_entries_trans [OF s] by (intro exI [of _ G']) simp
qed

lemma publish_all_db:
  assumes "\<And>ch m d. db (ks_PUBLISH S ch m d) = db d" "\<forall>fk\<in>set fks. field_ok S fk (K fk) (ttl fk) G"
  shows "db (publish_all J key fks G d) = db d"
  using assms(2)
proof (induction fks arbitrary: d)
  case (Cons fk fks)
  obtain e where e: "field_entry fk G = Some e" "kv_client (ke_cache e) = Some S" using Cons.prems unfolding field_ok_def by auto
  then show ?case using Cons publish_db [OF assms(1) e(2)] by (simp add: publish_all_def PublishInvalidation_def)
qed (simp add: publish_all_def)

lemma mk_Set_effect:
  assumes "redis_law (ks_redis S) db" "redis_up (ks_redis S)" "\<And>ch m d. db (ks_PUBLISH S ch m d) = db d" "db_wf (db d)"
    and "2 \<le> length (mk_fieldKVs c)" "\<forall>fk\<in>set (mk_fieldKVs c). field_ok S fk (K fk) (ttl fk) G \<and> 0 < ttl fk \<and> hash_at now (db d) (K fk) (H fk)"
    and "distinct (map K (mk_fieldKVs c))" "mk_Set J now (\<lambda>_ d. d) (Some m) c G d = (err, G', d')"
  shows "err = None \<and> same_entries G G' \<and> db_wf (db d') \<and>
    (\<forall>fk\<in>set (mk_fieldKVs c). holds_hash now (db d') (K fk) ((H fk)(mk_keyExtractor c (Some m) \<mapsto> fk_extractor fk (Some m))) (Some (now + ttl fk * second)))"
proof -
  let ?fks = "mk_fieldKVs c" and ?key = "mk_keyExtractor c (Some m)"
  let ?script = "\<lambda>fk. set_script (K fk) ?key (ttl fk) (fk_extractor fk (Some m))"
  obtain f1 f2 fs where fks: "?fks = f1 # f2 # fs" using assms(5) by (metis One_nat_def Suc_1 Suc_le_length_iff)
  have ok: "\<forall>fk\<in>set ?fks. field_ok S fk (K fk) (ttl fk) G" using assms(6) by blast
  obtain G1 where p: "sets_to_pipe ?key m ?fks G = (Inr (map (\<lambda>fk. PEval (?script fk)) ?fks), G1)" "same_entries G G1"
    using sets_to_pipe_all [OF ok] by blast
  have ok1: "\<forall>fk\<in>set ?fks. field_ok S fk (K fk) (ttl fk) G1" using ok field_ok_same [OF p(2)] by blast
  then obtain e1 where e1: "field_entry f1 G1 = Some e1" "kv_client (ke_cache e1) = Some S" unfolding field_ok_def fks by auto
  obtain D where D: "evals_db now (map ?script ?fks) (db d) = (map (\<lambda>_. Inr []) ?fks, D)"
    "\<forall>fk\<in>set ?fks. holds_hash now D (K fk) ((H fk)(?key \<mapsto> fk_extractor fk (Some m))) (Some (now + ttl fk * second))"
    using evals_sets [of ?fks now "db d" K H ttl ?key "\<lambda>fk. fk_extractor fk (Some m)"] assms(6,7) unfolding set_script_def by blast
  have ne: "map ?script ?fks \<noteq> []" by (simp add: fks)
  obtain d1 where 1: "kv_Exec S now (\<lambda>_ d. d) (map PEval (map ?script ?fks)) d = ((None, map (\<lambda>_. Inr []) ?fks), d1)" "db d1 = D" "db_wf D"
    by (rule Exec_evals [OF assms(1,2,4) ne D(1)]) simp_all
  have "mk_Set J now (\<lambda>_ d. d) (Some m) c G d = send_all J now (\<lambda>_ d. d) ?key ?fks (sets_to_pipe ?key m ?fks G) d"
    unfolding mk_Set_def fks by (simp add: Let_def)
  also have "\<dots> = (None, G1, publish_all J ?key ?fks G1 d1)"
    unfolding p(1) send_all_def using 1(1) e1 by (simp add: Client_def o_def fks)
  finally have r: "err = None" "G' = G1" "d' = publish_all J ?key ?fks G1 d1" using assms(8) by simp_all
  have "db d' = D" using publish_all_db [where db = db, OF assms(3) ok1] 1(2) r(3) by simp
  then show ?thesis using r p(2) 1(3) D(2) by simp
qed

definition field_found :: "(string, (string, string) go_map) go_map \<Rightarrow> string \<Rightarrow> string \<Rightarrow> string option" where
  "field_found res k fn = Option.bind (map_of res k) (\<lambda>inner. map_of inner fn)"

text \<open>A value that counts: there and not empty.\<close>

definition shown :: "string option \<Rightarrow> string option" where
  "shown v = (case v of None \<Rightarrow> None | Some s \<Rightarrow> if s = [] then None else Some s)"

lemma field_found_update:
  "field_found (AList.update k1 (AList.update fn s (case map_of res k1 of None \<Rightarrow> [] | Some inner \<Rightarrow> inner)) res) k fn' =
   (if k = k1 \<and> fn' = fn then Some s else field_found res k fn')"
  by (auto simp: field_found_def update_conv' split: option.splits)

lemma put_values_found:
  "field_found (put_values fn (zip keys (map V keys)) res) k fn' =
   (if k \<in> set keys \<and> fn' = fn \<and> shown (V k) \<noteq> None then shown (V k) else field_found res k fn')"
proof (induction keys arbitrary: res)
  case (Cons k1 keys)
  show ?case
  proof (cases "shown (V k1)")
    case None
    then have "put_values fn (zip (k1 # keys) (map V (k1 # keys))) res = put_values fn (zip keys (map V keys)) res"
      by (auto simp: shown_def split: option.splits if_splits)
    with None show ?thesis by (auto simp only: Cons.IH list.set insert_iff split: if_split)
  next
    case (Some s)
    then have v: "V k1 = Some s" "s \<noteq> []" by (auto simp: shown_def split: option.splits if_splits)
    then have "put_values fn (zip (k1 # keys) (map V (k1 # keys))) res = put_values fn (zip keys (map V keys))
        (AList.update k1 (AList.update fn s (case map_of res k1 of None \<Rightarrow> [] | Some inner \<Rightarrow> inner)) res)" by simp
    with Some show ?thesis by (auto simp only: Cons.IH field_found_update list.set insert_iff option.distinct split: if_split)
  qed
qed simp

lemma put_fields_found:
  "field_found (put_fields keys (map (\<lambda>fn. (fn, Inr (map (V fn) keys))) fns) res) k fn =
   (if k \<in> set keys \<and> fn \<in> set fns \<and> shown (V fn k) \<noteq> None then shown (V fn k) else field_found res k fn)"
proof (induction fns arbitrary: res)
  case (Cons f fns)
  have e: "put_fields keys (map (\<lambda>fn. (fn, Inr (map (V fn) keys))) (f # fns)) res =
      put_fields keys (map (\<lambda>fn. (fn, Inr (map (V fn) keys))) fns) (put_values f (zip keys (map (V f) keys)) res)"
    by (simp del: put_values.simps)
  show ?case unfolding e Cons.IH put_values_found by auto
qed simp

abbreviation field_named :: "'d ModelKVCache \<Rightarrow> string \<Rightarrow> fieldKVEntry" where
  "field_named c fn \<equiv> mk_fieldKVs c ! the (map_of (mk_fieldIndex c) fn)"

lemma known_fields_all:
  assumes "\<forall>fn\<in>set fns. map_of (mk_fieldIndex c) fn \<noteq> None \<and> field_entry (field_named c fn) G \<noteq> None"
  shows "known_fields c G fns = map (\<lambda>fn. (fn, the (field_entry (field_named c fn) G))) fns"
  using assms by (induction fns) auto

lemma GetFieldsMany_found:
  assumes "redis_law (ks_redis S) db" "redis_up (ks_redis S)" "db_wf (db d)" "2 \<le> length fns" "keys \<noteq> []"
    and "\<forall>fn\<in>set fns. \<exists>i<length (mk_fieldKVs c). map_of (mk_fieldIndex c) fn = Some i"
    and "\<forall>fk\<in>set (mk_fieldKVs c). field_ok S fk (K fk) (ttl fk) G \<and> holds_hash now (db d) (K fk) (H fk) (Some (e fk)) \<and> now \<le> T 0 \<and> T 0 < e fk"
  shows "fst (GetFieldsMany T (\<lambda>_ d. d) fns keys (Some c) G d) =
    Some (put_fields keys (map (\<lambda>fn. (fn, Inr (map (H (field_named c fn)) keys))) fns) [])"
proof -
  have fn: "field_named c fn \<in> set (mk_fieldKVs c)" if "fn \<in> set fns" for fn using assms(6) that by fastforce
  obtain a b fs where fns: "fns = a # b # fs" using assms(4) by (metis One_nat_def Suc_1 Suc_le_length_iff)
  let ?e = "\<lambda>fn. the (field_entry (field_named c fn) G)"
  have ok: "field_entry (field_named c fn) G = Some (?e fn)" "kt_MustString (ke_types (?e fn)) = id" "kv_redisKey (ke_cache (?e fn)) = K (field_named c fn)"
    "kv_client (ke_cache (?e fn)) = Some S" if "fn \<in> set fns" for fn
    using assms(7) fn [OF that] unfolding field_ok_def by fastforce+
  have known: "known_fields c G fns = map (\<lambda>fn. (fn, ?e fn)) fns"
    by (rule known_fields_all) (use assms(6) ok(1) in fastforce)
  have cmds: "map (\<lambda>(fn, e). the (GetManyToPipe (ke_types e) keys (ke_cache e))) (map (\<lambda>fn. (fn, ?e fn)) fns) =
      map PEval (map (\<lambda>fn. HMGET (K (field_named c fn)) keys) fns)"
    using ok(2,3) assms(5) by (simp add: GetManyToPipe_def)
  have ev: "evals_db (T 0) (map (\<lambda>fn. HMGET (K (field_named c fn)) keys) fns) (db d) =
      (map (\<lambda>fn. Inr (map (H (field_named c fn)) keys)) fns, db d)"
    by (rule evals_gets [where now = now and e = "\<lambda>fn. e (field_named c fn)" and H = "\<lambda>fn. H (field_named c fn)"])
      (use assms(7) fn in blast)
  have ne: "map (\<lambda>fn. HMGET (K (field_named c fn)) keys) fns \<noteq> []" by (simp add: fns)
  obtain d1 where 1: "kv_Exec S (T 0) (\<lambda>_ d. d) (map PEval (map (\<lambda>fn. HMGET (K (field_named c fn)) keys) fns)) d =
      ((None, map (\<lambda>fn. Inr (map (H (field_named c fn)) keys)) fns), d1)"
    by (rule Exec_evals [OF assms(1-3) ne ev]) simp_all
  have cl: "Client (ke_cache (?e a)) = Some S" using ok(4) [of a] by (simp add: Client_def fns)
  have "GetFieldsMany T (\<lambda>_ d. d) fns keys (Some c) G d =
      (Some (put_fields keys (zip fns (map (\<lambda>fn. Inr (map (H (field_named c fn)) keys)) fns)) []), G, d1)"
    using 1 [folded cmds, unfolded fns] cl known [unfolded fns] assms(5)
    by (simp add: GetFieldsMany_def fns o_def del: put_fields.simps known_fields.simps)
  then show ?thesis by (simp add: zip_map2 zip_same_conv_map o_def)
qed

text \<open>
  C20: After a model with several cached fields was set, \<open>GetFieldsMany\<close> with at least two field names and
  any keys finds, until the entries expire, the value of each field under the key of the model; under each
  other key it finds the value that the cache of the field held before, and it finds nothing under a key
  it was not asked for. An empty value is not found, as if it were not there. (With one field name the
  code reads another way and gives empty values.) The server answers, and no other client comes in
  between.
\<close>
theorem mk_set_get:
  assumes "redis_law (ks_redis S) db" "redis_up (ks_redis S)" "\<And>ch m d. db (ks_PUBLISH S ch m d) = db d" "db_wf (db d)"
    and "2 \<le> length (mk_fieldKVs c)" "\<forall>fk\<in>set (mk_fieldKVs c). field_ok S fk (K fk) (ttl fk) G \<and> 0 < ttl fk \<and> hash_at now (db d) (K fk) (H fk)"
    and "distinct (map K (mk_fieldKVs c))" "mk_Set J now (\<lambda>_ d. d) (Some m) c G d = (err, G', d')"
    and "2 \<le> length fns" "\<forall>fn\<in>set fns. \<exists>i<length (mk_fieldKVs c). map_of (mk_fieldIndex c) fn = Some i"
    and "now \<le> T 0" "\<forall>fk\<in>set (mk_fieldKVs c). T 0 < now + ttl fk * second" "keys \<noteq> []"
  shows "err = None \<and> (\<exists>res. fst (GetFieldsMany T (\<lambda>_ d. d) fns keys (Some c) G' d') = Some res \<and>
    (\<forall>fn\<in>set fns. \<forall>k. field_found res k fn =
      (if k \<notin> set keys then None
       else if k = mk_keyExtractor c (Some m) then shown (Some (fk_extractor (field_named c fn) (Some m)))
       else shown (H (field_named c fn) k))))"
proof -
  let ?k = "mk_keyExtractor c (Some m)"
  have s: "err = None" "same_entries G G'" "db_wf (db d')"
    "\<And>fk. fk \<in> set (mk_fieldKVs c) \<Longrightarrow> holds_hash now (db d') (K fk) ((H fk)(?k \<mapsto> fk_extractor fk (Some m))) (Some (now + ttl fk * second))"
    using mk_Set_effect [OF assms(1-8)] by blast+
  have r: "\<forall>fk\<in>set (mk_fieldKVs c). field_ok S fk (K fk) (ttl fk) G' \<and>
      holds_hash now (db d') (K fk) ((H fk)(?k \<mapsto> fk_extractor fk (Some m))) (Some (now + ttl fk * second)) \<and> now \<le> T 0 \<and> T 0 < now + ttl fk * second"
    using s(4) assms(6,11,12) field_ok_same [OF s(2)] by blast
  note found = GetFieldsMany_found [where db = db and d = d' and now = now and K = K and H = "\<lambda>fk. (H fk)(?k \<mapsto> fk_extractor fk (Some m))"
      and ttl = ttl and e = "\<lambda>fk. now + ttl fk * second" and T = T, OF assms(1,2) s(3) assms(9,13,10) r]
  have "field_found [] k fn = None" for k fn by (simp add: field_found_def)
  then show ?thesis using s(1) found by (simp add: put_fields_found)
qed

section \<open>Concrete caches\<close>

definition demo_row :: model where
  "demo_row = \<lparr>md_byte = (\<lambda>_. 0), md_string = (\<lambda>off. if off = 0 then ''7'' else if off = 16 then ''x'' else []), md_shown = (\<lambda>_. [])\<rparr>"

definition demo_field :: "string \<Rightarrow> nat \<Rightarrow> schema_field" where
  "demo_field name off = \<lparr>sf_Name = name, sf_DBName = name, sf_Offset = off, sf_Kind = KindString, sf_Index = 0\<rparr>"

definition demo_model_kv :: "'d model_db \<Rightarrow> 'd load_ref \<Rightarrow> 'd ModelKVCache" where
  "demo_model_kv db cell = \<lparr>mk_db = db, mk_tableName = ''t'', mk_selectColumns = [''Id'', ''Name'', ''Code''], mk_keyExtractor = buildExtractor (demo_field ''Id'' 0),
     mk_fieldKVs = [\<lparr>fk_cacheName = ''t:Name'', fk_extractor = buildExtractor (demo_field ''Name'' 16)\<rparr>,
                    \<lparr>fk_cacheName = ''t:Code'', fk_extractor = buildExtractor (demo_field ''Code'' 32)\<rparr>],
     mk_fieldIndex = [(''Name'', 0), (''Code'', 1)], mk_loadTTL = second, mk_cell = cell\<rparr>"

definition cell_ref :: "load_cell load_ref" where
  "cell_ref = \<lparr>lr_get = (\<lambda>d. d), lr_put = (\<lambda>l d. l)\<rparr>"

lemma cell_ref_law: "cell_law cell_ref"
  by (simp add: cell_law_def cell_ref_def)

definition demo_db :: "'d model_db" where
  "demo_db = \<lparr>db_schema = Inl ErrUnavailable, db_Find = (\<lambda>table cols d. (Inr [Some demo_row], d))\<rparr>"

theorem mk_one_query_witness:
  "loadFieldMap (\<lambda>_. 20) 1 (demo_model_kv demo_db cell_ref) \<lparr>cachedItems = Some [Some demo_row], cachedItemsAt = 10\<rparr> =
     (Inr [(''7'', [])], \<lparr>cachedItems = Some [Some demo_row], cachedItemsAt = 10\<rparr>)"
  (is "_ = (_, ?l)")
proof -
  let ?c = "demo_model_kv demo_db cell_ref"
  have 1: "loadFieldMap (\<lambda>_. 10) 0 ?c \<lparr>cachedItems = None, cachedItemsAt = 0\<rparr> = (Inr [(''7'', ''x'')], ?l)"
    by (simp add: loadFieldMap_def mk_loadAll_def cell_fresh_def demo_model_kv_def demo_db_def cell_ref_def demo_row_def demo_field_def buildExtractor_def)
  have "cell_law (mk_cell ?c)" using cell_ref_law by (simp add: demo_model_kv_def)
  then obtain rows where r: "[(''7'', ''x'')] = field_map (mk_keyExtractor ?c) (fk_extractor (mk_fieldKVs ?c ! 0)) rows []"
    "loadFieldMap (\<lambda>_. 20) 1 ?c ?l = (Inr (field_map (mk_keyExtractor ?c) (fk_extractor (mk_fieldKVs ?c ! 1)) rows []), ?l)"
    using mk_one_query [OF _ _ _ 1 refl, of 1 "\<lambda>_. 20"] by (auto simp: demo_model_kv_def cell_ref_def second_def)
  have "mk_loadAll (\<lambda>_. 20) ?c ?l = (Inr [Some demo_row], ?l)" by (simp add: mk_loadAll_def cell_fresh_def demo_model_kv_def cell_ref_def second_def)
  then have "loadFieldMap (\<lambda>_. 20) 1 ?c ?l = (Inr [(''7'', [])], ?l)"
    by (simp add: loadFieldMap_def demo_model_kv_def demo_row_def demo_field_def buildExtractor_def)
  then show ?thesis using r(2) by simp
qed

definition demo_entry :: "string \<Rightarrow> (string, string, bus) kv_entry" where
  "demo_entry name = \<lparr>ke_type = ''string,string'', ke_types = kt_ref, ke_cache = (kv_demo ''0'')\<lparr>kv_name := name\<rparr>\<rparr>"

definition demo_globals :: "(string, string, bus) kv_globals" where
  "demo_globals = \<lparr>globalRedisClient = Some (bus_ref ''kv:c:invalidate''),
     kvRegistry = [(''t:Name'', demo_entry ''t:Name''), (''t:Code'', demo_entry ''t:Code'')]\<rparr>"

theorem mk_set_get_witness:
  "\<exists>G' d' res. mk_Set iv_ref 0 (\<lambda>_ d. d) (Some demo_row) (demo_model_kv demo_db \<lparr>lr_get = \<lambda>_. \<lparr>cachedItems = None, cachedItemsAt = 0\<rparr>, lr_put = \<lambda>_ d. d\<rparr>)
       demo_globals (Map.empty, \<lambda>_. []) = (None, G', d') \<and>
     fst (GetFieldsMany (\<lambda>_. 1) (\<lambda>_ d. d) [''Name'', ''Code''] [''8'', ''7'']
       (Some (demo_model_kv demo_db \<lparr>lr_get = \<lambda>_. \<lparr>cachedItems = None, cachedItemsAt = 0\<rparr>, lr_put = \<lambda>_ d. d\<rparr>)) G' d') = Some res \<and>
     field_found res ''7'' ''Name'' = Some ''x'' \<and> field_found res ''7'' ''Code'' = None \<and> field_found res ''8'' ''Name'' = None"
  (is "\<exists>G' d' res. mk_Set _ _ _ _ ?c _ _ = _ \<and> _")
proof -
  obtain err G' d' where 1: "mk_Set iv_ref 0 (\<lambda>_ d. d) (Some demo_row) ?c demo_globals (Map.empty, \<lambda>_. []) = (err, G', d')" by (rule prod_cases3)
  have ok: "\<forall>fk\<in>set (mk_fieldKVs ?c). field_ok (bus_ref ''kv:c:invalidate'') fk (''kv:'' @ fk_cacheName fk) 1800 demo_globals \<and> 0 < (1800 :: int) \<and>
      hash_at 0 (fst ((Map.empty, \<lambda>_. []) :: bus)) (''kv:'' @ fk_cacheName fk) Map.empty"
    by (auto simp: demo_model_kv_def field_ok_def field_entry_def demo_globals_def demo_entry_def kv_demo_def kt_ref_def kv_redisKey_def kv_ttl_def
        go_div_def second_def hash_at_def intro!: exI holds_hash_empty)
  have idx: "\<forall>fn\<in>set [''Name'', ''Code'']. \<exists>i<length (mk_fieldKVs ?c). map_of (mk_fieldIndex ?c) fn = Some i" by (simp add: demo_model_kv_def)
  have k: "mk_keyExtractor ?c (Some demo_row) = ''7''" "fk_extractor (field_named ?c ''Name'') (Some demo_row) = ''x''" "fk_extractor (field_named ?c ''Code'') (Some demo_row) = []"
    by (simp_all add: demo_model_kv_def demo_row_def demo_field_def buildExtractor_def)
  have "err = None \<and> (\<exists>res. fst (GetFieldsMany (\<lambda>_. 1) (\<lambda>_ d. d) [''Name'', ''Code''] [''8'', ''7''] (Some ?c) G' d') = Some res \<and>
      (\<forall>fn\<in>set [''Name'', ''Code'']. \<forall>k. field_found res k fn =
        (if k \<notin> set [''8'', ''7''] then None
         else if k = mk_keyExtractor ?c (Some demo_row) then shown (Some (fk_extractor (field_named ?c fn) (Some demo_row)))
         else shown (Map.empty k))))"
    by (rule mk_set_get [where db = fst and now = 0 and K = "\<lambda>fk. ''kv:'' @ fk_cacheName fk" and H = "\<lambda>_. Map.empty" and ttl = "\<lambda>_. 1800" and T = "\<lambda>_. 1",
          OF bus_redis_law bus_publish _ _ ok _ 1 _ idx]) (simp_all add: demo_model_kv_def second_def)
  then obtain res where r: "err = None" "fst (GetFieldsMany (\<lambda>_. 1) (\<lambda>_ d. d) [''Name'', ''Code''] [''8'', ''7''] (Some ?c) G' d') = Some res"
    "\<And>k fn. fn \<in> set [''Name'', ''Code''] \<Longrightarrow> field_found res k fn = (if k \<notin> set [''8'', ''7''] then None
         else if k = ''7'' then shown (Some (fk_extractor (field_named ?c fn) (Some demo_row))) else shown None)"
    unfolding k(1) by blast
  have "field_found res ''7'' ''Name'' = Some ''x''" "field_found res ''7'' ''Code'' = None" "field_found res ''8'' ''Name'' = None"
    using r(3) [of "''Name''" "''7''"] r(3) [of "''Code''" "''7''"] r(3) [of "''Name''" "''8''"] k(2,3) by (simp_all add: shown_def)
  then show ?thesis using 1 r(1,2) by blast
qed

end
