(* ===== verification/Model_Cache_Correct.thy ===== *)
theory Model_Cache_Correct
  imports Model_Cache Model_Kv_Correct
begin

text \<open>What \<open>ModelCache\<close> loads from the database by key, and the keys it never loads.\<close>

section \<open>Queries\<close>

text \<open>
  A table whose columns read as the strings that the extractors print, and a database that answers with the rows
  that meet the condition, each as often as the table has it and in any order: the query has no \<open>ORDER BY\<close>.
  A column equals a value when the strings are equal, as a binary collation has it. \<open>queries\<close> counts the
  queries that the database was sent.
\<close>

fun meets :: "(string \<Rightarrow> model \<Rightarrow> string) \<Rightarrow> where_clause \<Rightarrow> model \<Rightarrow> bool" where
  "meets col (WhereIn name vals) r \<longleftrightarrow> col name r \<in> set vals"
| "meets col (WhereAny conds) r \<longleftrightarrow> (\<exists>cond\<in>set conds. \<forall>(name, v)\<in>set cond. col name r = v)"

definition db_law ::
  "'d row_db \<Rightarrow> string \<Rightarrow> (string \<Rightarrow> model \<Rightarrow> string) \<Rightarrow> model list \<Rightarrow> ('d \<Rightarrow> nat) \<Rightarrow> bool" where
  "db_law DB table col rows queries \<longleftrightarrow> (\<forall>w d. \<exists>found d'. rdb_Find DB table w d = (Inr found, d') \<and>
     mset found = mset (filter (meets col w) rows) \<and> queries d' = Suc (queries d))"

lemma db_lawE:
  assumes "db_law DB table col rows queries"
  obtains found d' where "rdb_Find DB table w d = (Inr found, d')" "set found = {r \<in> set rows. meets col w r}"
    "queries d' = Suc (queries d)"
proof -
  obtain found d' where "rdb_Find DB table w d = (Inr found, d')" "mset found = mset (filter (meets col w) rows)"
    "queries d' = Suc (queries d)" using assms unfolding db_law_def by blast
  moreover from this(2) have "set found = {r \<in> set rows. meets col w r}" by (metis set_filter set_mset_mset)
  ultimately show thesis using that by blast
qed

definition values_of :: "'d ModelCache \<Rightarrow> model \<Rightarrow> string list" where
  "values_of c r = map (\<lambda>kf. kf_extractor kf (Some r)) (mc_keyFields c)"

lemma keyOf_join: "mc_keyFields c \<noteq> [] \<Longrightarrow> keyOf c (Some r) = str_join (mc_separator c) (values_of c r)"
  by (cases "mc_keyFields c" rule: remdups_adj.cases) (simp_all add: keyOf_def values_of_def)

lemma zip_all_eq: "length ns = length vs \<Longrightarrow> (\<forall>(n, v)\<in>set (zip ns vs). f n = v) \<longleftrightarrow> map f ns = vs"
  by (induction ns vs rule: list_induct2) auto

lemma meets_batch:
  assumes "kfs \<noteq> []" "\<forall>kf\<in>set kfs. \<forall>r. col (kf_dbName kf) r = kf_extractor kf (Some r)" "\<forall>p\<in>set parsed. length p = length kfs"
  shows "meets col (batch_where kfs parsed) r \<longleftrightarrow> map (\<lambda>kf. kf_extractor kf (Some r)) kfs \<in> set parsed"
proof (cases "\<exists>kf. kfs = [kf]")
  case True
  then obtain kf where kf: "kfs = [kf]" by blast
  have "p = [hd p]" if "p \<in> set parsed" for p using assms(3) that kf by (cases p) auto
  then show ?thesis using assms(2) by (force simp: kf batch_where_def)
next
  case False
  then have b: "batch_where kfs parsed = WhereAny (map (\<lambda>p. zip (map kf_dbName kfs) p) parsed)"
    using assms(1) by (cases kfs rule: remdups_adj.cases) (simp_all add: batch_where_def)
  have m: "map (\<lambda>kf. col (kf_dbName kf) r) kfs = map (\<lambda>kf. kf_extractor kf (Some r)) kfs" using assms(2) by simp
  have "(\<forall>(n, v)\<in>set (zip (map kf_dbName kfs) p). col n r = v) \<longleftrightarrow> map (\<lambda>kf. kf_extractor kf (Some r)) kfs = p" if "p \<in> set parsed" for p
    using zip_all_eq [of "map kf_dbName kfs" p "\<lambda>n. col n r"] assms(3) that m by (simp add: o_def)
  then show ?thesis unfolding b by auto
qed

lemma rows_by_key_map:
  "map_of (rows_by_key c rows result) k =
   (case filter (\<lambda>r. k \<noteq> [] \<and> keyOf c (Some r) = k) rows of [] \<Rightarrow> map_of result k | r # rs \<Rightarrow> Some (last (r # rs)))"
proof (induction rows arbitrary: result)
  case (Cons r rows)
  then show ?case by (auto simp: update_conv' split: list.splits)
qed simp

lemma join_inj:
  assumes "sep \<noteq> []" "ps \<noteq> []" "qs \<noteq> []" "\<forall>p\<in>set ps. set p \<inter> set sep = {}" "\<forall>q\<in>set qs. set q \<inter> set sep = {}"
  shows "str_join sep ps = str_join sep qs \<longleftrightarrow> ps = qs"
  using split_join [OF assms(1,2,4)] split_join [OF assms(1,3,5)] by metis

definition clean :: "string \<Rightarrow> string list \<Rightarrow> bool" where
  "clean sep ps \<longleftrightarrow> (\<forall>p\<in>set ps. set p \<inter> set sep = {})"

section \<open>Keys and rows\<close>

text \<open>
  The key of a row is split into the values of its key fields, and the caller's values give that key
  exactly if they are those values, if no value has a character of the separator.
\<close>
theorem mc_key_roundtrip:
  assumes "mc_separator c \<noteq> []" "mc_keyFields c \<noteq> []" "clean (mc_separator c) (values_of c r)"
    and "length vs = length (mc_keyFields c)" "clean (mc_separator c) vs"
  shows "str_split (mc_separator c) (keyOf c (Some r)) = values_of c r \<and> (buildKey c vs = Inr (keyOf c (Some r)) \<longleftrightarrow> vs = values_of c r)"
proof -
  have ne: "values_of c r \<noteq> []" "vs \<noteq> []" using assms(2,4) by (auto simp: values_of_def)
  show ?thesis
    using split_join [OF assms(1) ne(1)] join_inj [OF assms(1) ne(2,1)] assms(3-5) by (simp add: keyOf_join [OF assms(2)] buildKey_def clean_def)
qed

text \<open>
  C26: The loader by key answers for each of the keys it is asked for with a row of the table that has
  these values, in whatever order the database gives the rows, finds no row only where the table has
  none, and answers for no other key; it sends the database a single query for all keys together. The
  key values are free of the characters of the separator, and the empty key, which the code does not
  cache, is excepted.
\<close>
theorem mc_batch_exact:
  assumes "db_law (mc_db c) (mc_tableName c) col rows queries"
    and "\<forall>kf\<in>set (mc_keyFields c). \<forall>r. col (kf_dbName kf) r = kf_extractor kf (Some r)"
    and "mc_separator c \<noteq> []" "mc_keyFields c \<noteq> []" "vals \<noteq> []" "\<forall>vs\<in>set vals. length vs = length (mc_keyFields c) \<and> clean (mc_separator c) vs"
  shows "\<exists>res d'. batchLoad c (map (str_join (mc_separator c)) vals) d = (Inr res, d') \<and> queries d' = Suc (queries d) \<and>
    (\<forall>vs\<in>set vals. str_join (mc_separator c) vs \<noteq> [] \<longrightarrow>
       (case map_of res (str_join (mc_separator c) vs) of
          None \<Rightarrow> \<forall>r\<in>set rows. values_of c r \<noteq> vs
        | Some r \<Rightarrow> r \<in> set rows \<and> values_of c r = vs)) \<and>
    (\<forall>k. k \<notin> str_join (mc_separator c) ` set vals \<longrightarrow> map_of res k = None)"
proof -
  let ?join = "str_join (mc_separator c)" and ?n = "length (mc_keyFields c)"
  have ne: "vs \<noteq> []" if "vs \<in> set vals" for vs using assms(4,6) that by fastforce
  have "str_split (mc_separator c) (?join vs) = vs" if "vs \<in> set vals" for vs
    using split_join [OF assms(3) ne [OF that]] assms(6) that by (simp add: clean_def)
  then have "map (str_split (mc_separator c)) (map ?join vals) = vals" by (simp add: map_idI o_def)
  then have parsed: "filter (\<lambda>parts. length parts = ?n) (map (str_split (mc_separator c)) (map ?join vals)) = vals"
    using assms(6) by (simp add: filter_id_conv)
  obtain found d' where f: "rdb_Find (mc_db c) (mc_tableName c) (batch_where (mc_keyFields c) vals) d = (Inr found, d')"
    "set found = {r \<in> set rows. meets col (batch_where (mc_keyFields c) vals) r}" "queries d' = Suc (queries d)"
    by (rule db_lawE [OF assms(1)])
  have found: "set found = {r \<in> set rows. values_of c r \<in> set vals}"
    using f(2) meets_batch [OF assms(4,2), of vals] assms(6) by (simp add: values_of_def)
  have b: "batchLoad c (map ?join vals) d = (Inr (rows_by_key c found []), d')"
    using f(1) assms(5) parsed by (simp add: batchLoad_def Let_def)
  have key: "keyOf c (Some r) = ?join vs \<longleftrightarrow> values_of c r = vs" if "values_of c r \<in> set vals" "vs \<in> set vals" for r vs
    using join_inj [OF assms(3) ne [OF that(1)] ne [OF that(2)]] assms(6) that by (simp add: keyOf_join [OF assms(4)] clean_def)
  have k: "case map_of (rows_by_key c found []) (?join vs) of None \<Rightarrow> \<forall>r\<in>set rows. values_of c r \<noteq> vs
      | Some r \<Rightarrow> r \<in> set rows \<and> values_of c r = vs"
    if vs: "vs \<in> set vals" "?join vs \<noteq> []" for vs
  proof -
    have set: "set (filter (\<lambda>r. ?join vs \<noteq> [] \<and> keyOf c (Some r) = ?join vs) found) = {r \<in> set rows. values_of c r = vs}"
      using key vs found by auto
    show ?thesis
    proof (cases "filter (\<lambda>r. ?join vs \<noteq> [] \<and> keyOf c (Some r) = ?join vs) found")
      case Nil
      then show ?thesis using set by (simp only: rows_by_key_map) auto
    next
      case (Cons r rs)
      then have "last (r # rs) \<in> {r \<in> set rows. values_of c r = vs}" using set last_in_set by (metis list.distinct(1))
      then show ?thesis using Cons by (simp only: rows_by_key_map) simp
    qed
  qed
  have "map_of (rows_by_key c found []) k = None" if "k \<notin> ?join ` set vals" for k
  proof -
    have "filter (\<lambda>r. k \<noteq> [] \<and> keyOf c (Some r) = k) found = []"
      using that found by (auto simp: filter_empty_conv keyOf_join [OF assms(4)])
    then show ?thesis by (simp only: rows_by_key_map) simp
  qed
  then show ?thesis using b k f(3) by blast
qed

section \<open>A key that is never loaded\<close>

lemma split_inside:
  assumes "sep \<noteq> []"
  shows "2 \<le> length (str_split sep (a @ sep @ b))"
proof (induction a)
  case Nil
  have "str_split sep b \<noteq> []" using assms by (subst str_split.simps) (auto split: list.splits)
  then show ?case using split_sep [OF assms, of b] by (cases "str_split sep b") simp_all
next
  case (Cons c a)
  have ne: "str_split sep s \<noteq> []" for s using assms by (subst str_split.simps) (auto split: list.splits)
  show ?case
  proof (cases "take (length sep) ((c # a) @ sep @ b) = sep")
    case True
    then have "str_split sep ((c # a) @ sep @ b) = [] # str_split sep (drop (length sep) ((c # a) @ sep @ b))"
      using assms by (subst str_split.simps) simp
    then show ?thesis using ne [of "drop (length sep) ((c # a) @ sep @ b)"] by (cases "str_split sep (drop (length sep) ((c # a) @ sep @ b))") simp_all
  next
    case False
    then have "str_split sep ((c # a) @ sep @ b) = (case str_split sep (a @ sep @ b) of [] \<Rightarrow> [[c]] | p # ps \<Rightarrow> (c # p) # ps)"
      using assms by (subst str_split.simps) (simp split: list.split)
    then show ?thesis using Cons.IH by (cases "str_split sep (a @ sep @ b)") auto
  qed
qed

text \<open>
  With one key field, a row whose key has the separator in it is never read from the database: \<open>Get\<close>
  reports that there is none, whatever the table holds, and makes no query.
\<close>
theorem mc_separator_lost:
  assumes "mc_keyFields c = [kf]" "mc_separator c \<noteq> []" "v = a @ mc_separator c @ b"
    and "map_of (kvRegistry G) (mc_kv c) = Some e" "kv_client (ke_cache e) = Some S" "kv_batchLoader (ke_cache e) = Some (batchLoad c)"
    and "local (ke_cache e) v = None" "redis_law (ks_redis S) db" "redis_up (ks_redis S)" "db_wf (db d)"
    and "holds_hash (T 0) (db d) (kv_redisKey (ke_cache e)) H dl" "H (kt_MustString (ke_types e) v) = None"
  shows "\<exists>G' d'. mc_Get T [v] c G d = (Inr None, G', d') \<and> db d' = db d"
proof -
  have b: "batchLoad c [v] d1 = (Inr [], d1)" for d1
    using split_inside [OF assms(2), of a b] assms(1,3) by (simp add: batchLoad_def Let_def)
  have do: "redis_do (T 0) (HGET (kv_redisKey (ke_cache e)) (kt_MustString (ke_types e) v)) (db d) = (RNil, db d)"
    using hash_hget [OF assms(11)] assms(12) by simp
  obtain d1 where 1: "client (ks_redis S) (T 0) (HGET (kv_redisKey (ke_cache e)) (kt_MustString (ke_types e) v)) d = (Inl RedisNil, d1)" "db d1 = db d"
    by (rule client_up_nil [OF assms(8-10) do])
  have "kv_Get (ke_types e) T v (ke_cache e) d = (Inr None, ke_cache e, d1)"
    using 1(1) assms(5-7) b by (simp add: kv_Get_def kv_HGet_def client_str_def kv_miss_def)
  then show ?thesis using assms(1,4) 1(2) by (simp add: mc_Get_def buildKey_def on_kv_def)
qed

section \<open>A concrete cache\<close>

definition demo_users :: "bus row_db" where
  "demo_users = \<lparr>rdb_schema = Inl ErrUnavailable,
     rdb_Find = (\<lambda>table w d. (Inr (filter (meets (\<lambda>name r. md_string r (if name = ''tenant'' then 0 else 16)) w) [demo_row]), d))\<rparr>"

definition demo_key :: "string \<Rightarrow> nat \<Rightarrow> modelKeyField" where
  "demo_key name off = \<lparr>kf_dbName = name, kf_extractor = buildExtractor (demo_field name off)\<rparr>"

definition demo_cache :: "modelKeyField list \<Rightarrow> bus ModelCache" where
  "demo_cache kfs = \<lparr>mc_kv = ''t:model'', mc_db = demo_users, mc_tableName = ''t'', mc_keyFields = kfs, mc_separator = '':''\<rparr>"

lemma demo_extract: "kf_extractor (demo_key name off) (Some r) = md_string r off"
  by (simp add: demo_key_def demo_field_def buildExtractor_def)

theorem mc_key_roundtrip_witness:
  "buildKey (demo_cache [demo_key ''tenant'' 0, demo_key ''platform'' 16]) [''7'', ''x''] =
   Inr (keyOf (demo_cache [demo_key ''tenant'' 0, demo_key ''platform'' 16]) (Some demo_row))"
  (is "buildKey ?c _ = _")
proof -
  have v: "values_of ?c demo_row = [''7'', ''x'']" by (simp add: values_of_def demo_cache_def demo_extract demo_row_def)
  show ?thesis using mc_key_roundtrip [of ?c demo_row "[''7'', ''x'']"] v by (simp add: demo_cache_def clean_def)
qed

text \<open>A database that counts its queries and answers with the last row first.\<close>

definition counting_users :: "nat row_db" where
  "counting_users = \<lparr>rdb_schema = Inl ErrUnavailable,
     rdb_Find = (\<lambda>table w n. (Inr (rev (filter (meets (\<lambda>name r. md_string r (if name = ''tenant'' then 0 else 16)) w) [demo_row, demo_row])), Suc n))\<rparr>"

definition counting_cache :: "modelKeyField list \<Rightarrow> nat ModelCache" where
  "counting_cache kfs = \<lparr>mc_kv = ''t:model'', mc_db = counting_users, mc_tableName = ''t'', mc_keyFields = kfs, mc_separator = '':''\<rparr>"

theorem mc_batch_exact_witness:
  "\<exists>res. batchLoad (counting_cache [demo_key ''tenant'' 0, demo_key ''platform'' 16]) [''7:x'', ''8:x''] 3 = (Inr res, 4) \<and>
     map_of res ''7:x'' \<noteq> None \<and> map_of res ''9:x'' = None"
  (is "\<exists>res. batchLoad ?c _ _ = _ \<and> _")
proof -
  let ?col = "\<lambda>name r. md_string r (if name = ''tenant'' then 0 else 16)"
  have l: "db_law (mc_db ?c) (mc_tableName ?c) ?col [demo_row, demo_row] id"
    by (simp add: db_law_def counting_cache_def counting_users_def)
  have k: "\<forall>kf\<in>set (mc_keyFields ?c). \<forall>r. ?col (kf_dbName kf) r = kf_extractor kf (Some r)"
    by (simp add: counting_cache_def demo_extract) (simp add: demo_key_def)
  have v: "values_of ?c demo_row = [''7'', ''x'']" by (simp add: values_of_def counting_cache_def demo_extract demo_row_def)
  let ?vals = "[[''7'', ''x''], [''8'', ''x'']]"
  have c: "mc_separator ?c = '':''" "mc_keyFields ?c \<noteq> []" "length (mc_keyFields ?c) = 2" by (simp_all add: counting_cache_def)
  then obtain res d' where r: "batchLoad ?c (map (str_join (mc_separator ?c)) ?vals) 3 = (Inr res, d')" "id d' = Suc (id 3)"
    "\<forall>vs\<in>set ?vals. str_join (mc_separator ?c) vs \<noteq> [] \<longrightarrow> (case map_of res (str_join (mc_separator ?c) vs) of
      None \<Rightarrow> \<forall>r\<in>set [demo_row, demo_row]. values_of ?c r \<noteq> vs | Some r \<Rightarrow> r \<in> set [demo_row, demo_row] \<and> values_of ?c r = vs)"
    "\<forall>k. k \<notin> str_join (mc_separator ?c) ` set ?vals \<longrightarrow> map_of res k = None"
    using mc_batch_exact [OF l k, of ?vals 3] by (auto simp: clean_def)
  from r(3) have "case map_of res ''7:x'' of None \<Rightarrow> \<forall>r\<in>set [demo_row, demo_row]. values_of ?c r \<noteq> [''7'', ''x''] | Some r \<Rightarrow> True"
    by (simp add: c(1) split: option.splits)
  then have "map_of res ''7:x'' \<noteq> None" using v by (cases "map_of res ''7:x''") simp_all
  moreover from r(4) have "map_of res ''9:x'' = None" by (simp add: c(1))
  ultimately show ?thesis using r(1,2) by (simp add: c(1))
qed

definition demo_rows_cache :: "(string, model, bus) kv_globals" where
  "demo_rows_cache = \<lparr>globalRedisClient = Some (bus_ref ''kv:c:invalidate''),
     kvRegistry = [(''t:model'', \<lparr>ke_type = ''string,User'',
       ke_types = \<lparr>kt_isString = True, kt_MustString = id, kt_key = id, kt_vString = None, kt_Marshal = (\<lambda>r. Inr (md_string r 0)), kt_Unmarshal = (\<lambda>s. Inl ErrDataRead)\<rparr>,
       ke_cache = \<lparr>kv_client = Some (bus_ref ''kv:c:invalidate''),
         kv_config = \<lparr>kvc_DefaultTTL = 1800000000000, kvc_RefreshInterval = 300000000000, kvc_EnableAutoRefresh = True,
           kvc_Namespace = ''kv'', kvc_MaxLocalCacheSize = 10000, kvc_BatchLoader = None\<rparr>,
         kv_loader = None, kv_batchLoader = Some (batchLoad (demo_cache [demo_key ''tenant'' 0])), kv_name = ''t:model'', kv_localCache = [], kv_lastRefreshTime = 0,
         kv_stopped = False, kv_pubsub = True, kv_subscribed = True, kv_refreshing = False, kv_instanceID = ''0'', kv_invalidateCh = ''c''\<rparr>\<rparr>)]\<rparr>"

theorem mc_separator_lost_witness:
  "\<exists>G' d'. mc_Get (\<lambda>_. 0) [''a:b''] (demo_cache [demo_key ''tenant'' 0]) demo_rows_cache (Map.empty, \<lambda>_. []) = (Inr None, G', d') \<and> fst d' = Map.empty"
proof -
  let ?c = "demo_cache [demo_key ''tenant'' 0]" and ?e = "snd (hd (kvRegistry demo_rows_cache))"
  have c: "mc_keyFields ?c = [demo_key ''tenant'' 0]" "mc_separator ?c \<noteq> []" "''a:b'' = ''a'' @ mc_separator ?c @ ''b''" by (simp_all add: demo_cache_def)
  have e: "map_of (kvRegistry demo_rows_cache) (mc_kv ?c) = Some ?e" "kv_client (ke_cache ?e) = Some (bus_ref ''kv:c:invalidate'')"
    "kv_batchLoader (ke_cache ?e) = Some (batchLoad ?c)" "local (ke_cache ?e) ''a:b'' = None"
    by (simp_all add: demo_rows_cache_def demo_cache_def)
  have h: "holds_hash ((\<lambda>_. 0) (0 :: nat)) (fst ((Map.empty, \<lambda>_. []) :: bus)) (kv_redisKey (ke_cache ?e)) Map.empty None" by (rule holds_hash_empty) simp
  show ?thesis
    using mc_separator_lost [where db = fst and d = "(Map.empty, \<lambda>_. [])" and T = "\<lambda>_. 0", OF c e bus_redis_law _ h] by simp
qed

end
