(* ===== verification/Advanced_Cache.thy ===== *)
theory Advanced_Cache
  imports Distributed_Lock Hotkey Queue
begin

text \<open>
  \<open>AdvancedCache\<close> of \<open>advanced_cache.go\<close>: typed values in Redis as JSON under a namespace, compressed above
  a size, with counters and a \<open>GetOrSet\<close> behind a lock of its own lock manager; and its queue and hot keys.

  \<open>R\<close> are the commands of the client, \<open>J\<close> says how a value is written and read as JSON, \<open>Z\<close> is
  \<open>compress/gzip\<close>. The pool of writers only saves allocations: a writer from it is reset before use.
  A result \<open>Inr None\<close> of \<open>Get\<close> is the zero value, false and no error. Logging is left out.
\<close>

section \<open>From outside\<close>

datatype ac_cmd = PGet string | PSetEx string string duration

text \<open>\<open>ra_Exec\<close> gives the result of each command of a pipeline.\<close>

record 'd redis_ac =
  ra_Get :: "time \<Rightarrow> string \<Rightarrow> 'd \<Rightarrow> string go_result \<times> 'd"
  ra_SetEx :: "time \<Rightarrow> string \<Rightarrow> string \<Rightarrow> duration \<Rightarrow> 'd \<Rightarrow> go_error option \<times> 'd"
  ra_Del :: "time \<Rightarrow> string list \<Rightarrow> 'd \<Rightarrow> go_error option \<times> 'd"
  ra_Exists :: "time \<Rightarrow> string list \<Rightarrow> 'd \<Rightarrow> int go_result \<times> 'd"
  ra_TTL :: "time \<Rightarrow> string \<Rightarrow> 'd \<Rightarrow> duration go_result \<times> 'd"
  ra_Expire :: "time \<Rightarrow> string \<Rightarrow> duration \<Rightarrow> 'd \<Rightarrow> bool go_result \<times> 'd"
  ra_Keys :: "time \<Rightarrow> string \<Rightarrow> 'd \<Rightarrow> string list go_result \<times> 'd"
  ra_Exec :: "time \<Rightarrow> ac_cmd list \<Rightarrow> 'd \<Rightarrow> string go_result list \<times> 'd"
  ra_Ping :: "'d \<Rightarrow> go_error option \<times> 'd"
  ra_Close :: "'d \<Rightarrow> go_error option \<times> 'd"

record 'a json_value =
  jv_zero :: 'a
  jv_Marshal :: "'a \<Rightarrow> string go_result"
  jv_Unmarshal :: "string \<Rightarrow> 'a go_result"

text \<open>Writing all data, closing the writer, which gives what is in the buffer, and opening a reader, which
  gives what \<open>ReadAll\<close> does.\<close>

record gzipx =
  gz_Write :: "string \<Rightarrow> go_error option"
  gz_Close :: "string \<Rightarrow> string go_result"
  gz_NewReader :: "string \<Rightarrow> string go_result go_result"

section \<open>The cache\<close>

definition CompressionNone :: string where "CompressionNone = ''none''"
definition CompressionGzip :: string where "CompressionGzip = ''gzip''"

record AdvancedCacheConfig =
  acc_Compression :: string
  acc_MinSizeForCompress :: int
  acc_DefaultTTL :: duration
  acc_Namespace :: string
  acc_EnableMetrics :: bool

record CacheMetrics =
  cm_Hits :: int
  cm_Misses :: int
  cm_Sets :: int
  cm_Deletes :: int
  cm_Compressions :: int
  cm_Decompressions :: int
  cm_TotalSize :: int

definition no_metrics :: CacheMetrics where
  "no_metrics = \<lparr>cm_Hits = 0, cm_Misses = 0, cm_Sets = 0, cm_Deletes = 0, cm_Compressions = 0, cm_Decompressions = 0, cm_TotalSize = 0\<rparr>"

record ('p, 'd) AdvancedCache =
  ac_config :: AdvancedCacheConfig
  ac_metrics :: CacheMetrics
  ac_queue :: QueueHandler
  ac_hotkey :: "'p HotKeyManager"
  ac_lockMgr :: "'d LockManager"

definition NewAdvancedCache :: "mathx \<Rightarrow> AdvancedCacheConfig \<Rightarrow> ('p, 'd) AdvancedCache" where
  "NewAdvancedCache X config0 =
     (let config = config0\<lparr>acc_MinSizeForCompress := IfNotZero X (acc_MinSizeForCompress config0) 1024,
            acc_DefaultTTL := IfNotZero X (acc_DefaultTTL config0) hour,
            acc_Namespace := IfNotEmpty X (acc_Namespace config0) ''cache''\<rparr>
      in \<lparr>ac_config = config, ac_metrics = no_metrics,
          ac_queue = NewQueueHandler X (acc_Namespace config)
            \<lparr>qc_MaxRetries = 3, qc_RetryDelay = 5 * second, qc_BatchSize = 10, qc_LockTimeout = 300 * second,
             qc_CleanupInterval = 600 * second, qc_EnableDistributedLock = False\<rparr>,
          ac_hotkey = NewHotKeyManager
            [WithHotKeyTTL hour, WithHotKeyRefreshInterval (minutes 10), WithHotKeyAutoRefresh True,
             WithHotKeyNamespace (acc_Namespace config)],
          ac_lockMgr = NewLockManager
            [WithLockTTL (minutes 5), WithLockRetryInterval (100 * millisecond), WithLockMaxRetries 10,
             WithLockNamespace (acc_Namespace config), WithLockWatchdog True, WithLockWatchdogInterval (minutes 1)]\<rparr>)"

definition ac_key :: "('p, 'd) AdvancedCache \<Rightarrow> string \<Rightarrow> string" where
  "ac_key c key = acc_Namespace (ac_config c) @ '':'' @ key"

text \<open>An atomic change of the counters, if they are enabled.\<close>

definition ac_count :: "(CacheMetrics \<Rightarrow> CacheMetrics) \<Rightarrow> ('p, 'd) AdvancedCache \<Rightarrow> ('p, 'd) AdvancedCache" where
  "ac_count f c = (if acc_EnableMetrics (ac_config c) then c\<lparr>ac_metrics := f (ac_metrics c)\<rparr> else c)"

section \<open>Compression\<close>

definition ac_compress :: "gzipx \<Rightarrow> string \<Rightarrow> ('p, 'd) AdvancedCache \<Rightarrow> string go_result \<times> ('p, 'd) AdvancedCache" where
  "ac_compress Z data c =
     (if acc_Compression (ac_config c) = CompressionNone \<or> int (length data) < acc_MinSizeForCompress (ac_config c) then (Inr data, c)
      else (case gz_Write Z data of
              Some err \<Rightarrow> (Inl err, c)
            | None \<Rightarrow>
                (case gz_Close Z data of
                   Inl err \<Rightarrow> (Inl err, c)
                 | Inr out \<Rightarrow> (Inr out, ac_count (\<lambda>m. m\<lparr>cm_Compressions := wrap64 (cm_Compressions m + 1)\<rparr>) c))))"

definition ac_decompress :: "gzipx \<Rightarrow> string \<Rightarrow> ('p, 'd) AdvancedCache \<Rightarrow> string go_result \<times> ('p, 'd) AdvancedCache" where
  "ac_decompress Z data c =
     (if acc_Compression (ac_config c) = CompressionNone then (Inr data, c)
      else (case gz_NewReader Z data of
              Inl err \<Rightarrow> (Inr data, c)
            | Inr (Inl err) \<Rightarrow> (Inr data, c)
            | Inr (Inr result) \<Rightarrow> (Inr result, ac_count (\<lambda>m. m\<lparr>cm_Decompressions := wrap64 (cm_Decompressions m + 1)\<rparr>) c)))"

section \<open>Single keys\<close>

definition ac_ttl :: "duration list \<Rightarrow> ('p, 'd) AdvancedCache \<Rightarrow> duration" where
  "ac_ttl ttl c = (if ttl \<noteq> [] then hd ttl else acc_DefaultTTL (ac_config c))"

definition ac_Set ::
  "'a json_value \<Rightarrow> gzipx \<Rightarrow> 'd redis_ac \<Rightarrow> time \<Rightarrow> string \<Rightarrow> 'a \<Rightarrow> duration list \<Rightarrow> ('p, 'd) AdvancedCache \<Rightarrow> 'd \<Rightarrow>
   go_error option \<times> ('p, 'd) AdvancedCache \<times> 'd" where
  "ac_Set J Z R now key val ttl c d =
     (case jv_Marshal J val of
        Inl err \<Rightarrow> (Some (Wrapped ''failed to marshal value'' err), c, d)
      | Inr data \<Rightarrow>
          (case ac_compress Z data c of
             (Inl err, c1) \<Rightarrow> (Some (Wrapped ''failed to compress data'' err), c1, d)
           | (Inr compressedData, c1) \<Rightarrow>
               (case ra_SetEx R now (ac_key c1 key) compressedData (ac_ttl ttl c1) d of
                  (Some err, d1) \<Rightarrow> (Some err, c1, d1)
                | (None, d1) \<Rightarrow>
                    (None, ac_count (\<lambda>m. m\<lparr>cm_Sets := wrap64 (cm_Sets m + 1),
                       cm_TotalSize := wrap64 (cm_TotalSize m + int (length compressedData))\<rparr>) c1, d1))))"

definition ac_Get ::
  "'a json_value \<Rightarrow> gzipx \<Rightarrow> 'd redis_ac \<Rightarrow> time \<Rightarrow> string \<Rightarrow> ('p, 'd) AdvancedCache \<Rightarrow> 'd \<Rightarrow>
   'a option go_result \<times> ('p, 'd) AdvancedCache \<times> 'd" where
  "ac_Get J Z R now key c d =
     (case ra_Get R now (ac_key c key) d of
        (Inl err, d1) \<Rightarrow>
          if err = RedisNil then (Inr None, ac_count (\<lambda>m. m\<lparr>cm_Misses := wrap64 (cm_Misses m + 1)\<rparr>) c, d1)
          else (Inl err, c, d1)
      | (Inr data, d1) \<Rightarrow>
          (case ac_decompress Z data c of
             (Inl err, c1) \<Rightarrow> (Inl (Wrapped ''failed to decompress data'' err), c1, d1)
           | (Inr decompressedData, c1) \<Rightarrow>
               (case jv_Unmarshal J decompressedData of
                  Inl err \<Rightarrow> (Inl (Wrapped ''failed to unmarshal value'' err), c1, d1)
                | Inr val \<Rightarrow> (Inr (Some val), ac_count (\<lambda>m. m\<lparr>cm_Hits := wrap64 (cm_Hits m + 1)\<rparr>) c1, d1))))"

definition ac_Delete ::
  "'d redis_ac \<Rightarrow> time \<Rightarrow> string list \<Rightarrow> ('p, 'd) AdvancedCache \<Rightarrow> 'd \<Rightarrow> go_error option \<times> ('p, 'd) AdvancedCache \<times> 'd" where
  "ac_Delete R now keys c d =
     (if keys = [] then (None, c, d)
      else (case ra_Del R now (map (ac_key c) keys) d of
              (Some err, d1) \<Rightarrow> (Some err, c, d1)
            | (None, d1) \<Rightarrow> (None, ac_count (\<lambda>m. m\<lparr>cm_Deletes := wrap64 (cm_Deletes m + int (length keys))\<rparr>) c, d1)))"

definition ac_Exists :: "'d redis_ac \<Rightarrow> time \<Rightarrow> string list \<Rightarrow> ('p, 'd) AdvancedCache \<Rightarrow> 'd \<Rightarrow> int go_result \<times> 'd" where
  "ac_Exists R now keys c d = (if keys = [] then (Inr 0, d) else ra_Exists R now (map (ac_key c) keys) d)"

definition ac_TTL :: "'d redis_ac \<Rightarrow> time \<Rightarrow> string \<Rightarrow> ('p, 'd) AdvancedCache \<Rightarrow> 'd \<Rightarrow> duration go_result \<times> 'd" where
  "ac_TTL R now key c d = ra_TTL R now (ac_key c key) d"

definition ac_Expire :: "'d redis_ac \<Rightarrow> time \<Rightarrow> string \<Rightarrow> duration \<Rightarrow> ('p, 'd) AdvancedCache \<Rightarrow> 'd \<Rightarrow> go_error option \<times> 'd" where
  "ac_Expire R now key ttl c d = (case ra_Expire R now (ac_key c key) ttl d of (r, d1) \<Rightarrow> (err_of r, d1))"

definition trim_prefix :: "string \<Rightarrow> string \<Rightarrow> string" where
  "trim_prefix prefix s = (if take (length prefix) s = prefix then drop (length prefix) s else s)"

definition ac_Keys :: "'d redis_ac \<Rightarrow> time \<Rightarrow> string \<Rightarrow> ('p, 'd) AdvancedCache \<Rightarrow> 'd \<Rightarrow> string list go_result \<times> 'd" where
  "ac_Keys R now pattern c d =
     (case ra_Keys R now (ac_key c pattern) d of
        (Inl err, d1) \<Rightarrow> (Inl err, d1)
      | (Inr keys, d1) \<Rightarrow> (Inr (map (trim_prefix (acc_Namespace (ac_config c) @ '':'')) keys), d1))"

text \<open>\<open>now2\<close> is the clock at the deletion.\<close>

definition ac_Clear ::
  "'d redis_ac \<Rightarrow> time \<Rightarrow> time \<Rightarrow> string \<Rightarrow> ('p, 'd) AdvancedCache \<Rightarrow> 'd \<Rightarrow> go_error option \<times> ('p, 'd) AdvancedCache \<times> 'd" where
  "ac_Clear R now1 now2 pattern c d =
     (case ac_Keys R now1 pattern c d of
        (Inl err, d1) \<Rightarrow> (Some err, c, d1)
      | (Inr keys, d1) \<Rightarrow> if keys = [] then (None, c, d1) else ac_Delete R now2 keys c d1)"

section \<open>GetOrSet\<close>

text \<open>
  What a call meets: the clock at its commands, the attempts at the lock with the number of its context,
  and what the watchdog of the lock does while the call holds it.
\<close>

record 'd getset_env =
  ge_get1 :: time
  ge_ctx :: nat
  ge_attempts :: "'d attempt list"
  ge_get2 :: time
  ge_watch :: "'d DistributedLock \<Rightarrow> 'd \<Rightarrow> 'd DistributedLock \<times> 'd"
  ge_set :: time
  ge_unlock :: time

text \<open>The call up to its function: it waits for the lock, returns a cached value, or calls the function,
  with the lock it holds or without one.\<close>

datatype 'a getset_next = GsWait | GsReturn 'a | GsCall "nat option"

definition ac_lock_at :: "nat \<Rightarrow> 'd DistributedLock \<Rightarrow> ('p, 'd) AdvancedCache \<Rightarrow> ('p, 'd) AdvancedCache" where
  "ac_lock_at p l c = c\<lparr>ac_lockMgr := (ac_lockMgr c)\<lparr>lm_heap := (lm_heap (ac_lockMgr c))[p := l]\<rparr>\<rparr>"

text \<open>The deferred release of the lock.\<close>

definition ac_release ::
  "'d redis_lock \<Rightarrow> 'd getset_env \<Rightarrow> nat \<Rightarrow> ('p, 'd) AdvancedCache \<Rightarrow> 'd \<Rightarrow> ('p, 'd) AdvancedCache \<times> 'd" where
  "ac_release LK E p c d =
     (case ge_watch E (lm_heap (ac_lockMgr c) ! p) d of
        (l1, d1) \<Rightarrow> (case Unlock LK (ge_unlock E) l1 d1 of (_, l2, d2) \<Rightarrow> (ac_lock_at p l2 c, d2)))"

definition ac_enter ::
  "mathx \<Rightarrow> 'a json_value \<Rightarrow> gzipx \<Rightarrow> 'd redis_ac \<Rightarrow> 'd redis_lock \<Rightarrow> 'd getset_env \<Rightarrow> string \<Rightarrow> ('p, 'd) AdvancedCache \<Rightarrow> 'd \<Rightarrow>
   'a getset_next \<times> ('p, 'd) AdvancedCache \<times> 'd" where
  "ac_enter X J Z R LK E key c d =
     (case ac_Get J Z R (ge_get1 E) key c d of
        (Inr (Some val), c1, d1) \<Rightarrow> (GsReturn val, c1, d1)
      | (_, c1, d1) \<Rightarrow>
          (case GetLock X (''getorset:'' @ key) (ac_lockMgr c1) of
             (p, m) \<Rightarrow>
               (let c2 = c1\<lparr>ac_lockMgr := m\<rparr>
                in (case dl_Lock LK (ge_ctx E) (ge_attempts E) (lm_heap m ! p) d1 of
                      (None, l, d2) \<Rightarrow> (GsWait, ac_lock_at p l c2, d2)
                    | (Some (Some err), l, d2) \<Rightarrow> (GsCall None, ac_lock_at p l c2, d2)
                    | (Some None, l, d2) \<Rightarrow>
                        (case ac_Get J Z R (ge_get2 E) key (ac_lock_at p l c2) d2 of
                           (Inr (Some val), c3, d3) \<Rightarrow> (case ac_release LK E p c3 d3 of (c4, d4) \<Rightarrow> (GsReturn val, c4, d4))
                         | (_, c3, d3) \<Rightarrow> (GsCall (Some p), c3, d3))))))"

text \<open>The rest of the call, with what the function returned.\<close>

definition ac_leave ::
  "'a json_value \<Rightarrow> gzipx \<Rightarrow> 'd redis_ac \<Rightarrow> 'd redis_lock \<Rightarrow> 'd getset_env \<Rightarrow> string \<Rightarrow> duration list \<Rightarrow> nat option \<Rightarrow>
   'a \<times> go_error option \<Rightarrow> ('p, 'd) AdvancedCache \<Rightarrow> 'd \<Rightarrow> ('a \<times> go_error option) \<times> ('p, 'd) AdvancedCache \<times> 'd" where
  "ac_leave J Z R LK E key ttl lock r c d =
     (case lock of
        None \<Rightarrow> (r, c, d)
      | Some p \<Rightarrow>
          (case r of
             (val, Some err) \<Rightarrow> ((val, Some err), ac_release LK E p c d)
           | (val, None) \<Rightarrow>
               (case ac_Set J Z R (ge_set E) key val ttl c d of (_, c1, d1) \<Rightarrow> ((val, None), ac_release LK E p c1 d1))))"

text \<open>Without a result the call still waits for the lock.\<close>

definition ac_GetOrSet ::
  "mathx \<Rightarrow> 'a json_value \<Rightarrow> gzipx \<Rightarrow> 'd redis_ac \<Rightarrow> 'd redis_lock \<Rightarrow> 'd getset_env \<Rightarrow> string \<Rightarrow>
   ('d \<Rightarrow> ('a \<times> go_error option) \<times> 'd) \<Rightarrow> duration list \<Rightarrow> ('p, 'd) AdvancedCache \<Rightarrow> 'd \<Rightarrow>
   (('a \<times> go_error option) \<times> ('p, 'd) AdvancedCache \<times> 'd) option" where
  "ac_GetOrSet X J Z R LK E key fn ttl c d =
     (case ac_enter X J Z R LK E key c d of
        (GsWait, c1, d1) \<Rightarrow> None
      | (GsReturn val, c1, d1) \<Rightarrow> Some ((val, None), c1, d1)
      | (GsCall lock, c1, d1) \<Rightarrow> (case fn d1 of (r, d2) \<Rightarrow> Some (ac_leave J Z R LK E key ttl lock r c1 d2)))"

definition ac_Wrap ::
  "mathx \<Rightarrow> 'a json_value \<Rightarrow> gzipx \<Rightarrow> 'd redis_ac \<Rightarrow> 'd redis_lock \<Rightarrow> string \<Rightarrow>
   ('d \<Rightarrow> ('a \<times> go_error option) \<times> 'd) \<Rightarrow> duration list \<Rightarrow> 'd getset_env \<Rightarrow> ('p, 'd) AdvancedCache \<Rightarrow> 'd \<Rightarrow>
   (('a \<times> go_error option) \<times> ('p, 'd) AdvancedCache \<times> 'd) option" where
  "ac_Wrap X J Z R LK key fn ttl = (\<lambda>E. ac_GetOrSet X J Z R LK E key fn ttl)"

section \<open>Batches\<close>

fun exec_err :: "string go_result list \<Rightarrow> go_error option" where
  "exec_err [] = None"
| "exec_err (Inl err # rs) = Some err"
| "exec_err (Inr v # rs) = exec_err rs"

fun ac_collect ::
  "'a json_value \<Rightarrow> gzipx \<Rightarrow> (string \<times> string go_result) list \<Rightarrow> (string, 'a) go_map \<Rightarrow> ('p, 'd) AdvancedCache \<Rightarrow>
   (string, 'a) go_map go_result \<times> ('p, 'd) AdvancedCache" where
  "ac_collect J Z [] result c = (Inr result, c)"
| "ac_collect J Z ((key, Inl err) # cmds) result c = (if err = RedisNil then ac_collect J Z cmds result c else (Inl err, c))"
| "ac_collect J Z ((key, Inr data) # cmds) result c =
     (case ac_decompress Z data c of
        (Inl err, c1) \<Rightarrow> ac_collect J Z cmds result c1
      | (Inr decompressedData, c1) \<Rightarrow>
          (case jv_Unmarshal J decompressedData of
             Inl err \<Rightarrow> ac_collect J Z cmds result c1
           | Inr val \<Rightarrow> ac_collect J Z cmds (AList.update key val result) c1))"

definition ac_BatchGet ::
  "'a json_value \<Rightarrow> gzipx \<Rightarrow> 'd redis_ac \<Rightarrow> time \<Rightarrow> string list \<Rightarrow> ('p, 'd) AdvancedCache \<Rightarrow> 'd \<Rightarrow>
   (string, 'a) go_map go_result \<times> ('p, 'd) AdvancedCache \<times> 'd" where
  "ac_BatchGet J Z R now keys c d =
     (if keys = [] then (Inr [], c, d)
      else (case ra_Exec R now (map (\<lambda>k. PGet (ac_key c k)) keys) d of
              (rs, d1) \<Rightarrow>
                (case exec_err rs of
                   Some err \<Rightarrow>
                     if err \<noteq> RedisNil then (Inl err, c, d1)
                     else (case ac_collect J Z (zip keys rs) [] c of (r, c1) \<Rightarrow> (r, c1, d1))
                 | None \<Rightarrow> (case ac_collect J Z (zip keys rs) [] c of (r, c1) \<Rightarrow> (r, c1, d1)))))"

fun ac_batch_cmds ::
  "'a json_value \<Rightarrow> gzipx \<Rightarrow> duration \<Rightarrow> (string, 'a) go_map \<Rightarrow> ('p, 'd) AdvancedCache \<Rightarrow> ac_cmd list \<times> ('p, 'd) AdvancedCache" where
  "ac_batch_cmds J Z ttl [] c = ([], c)"
| "ac_batch_cmds J Z ttl ((key, val) # items) c =
     (case jv_Marshal J val of
        Inl err \<Rightarrow> ac_batch_cmds J Z ttl items c
      | Inr data \<Rightarrow>
          (case ac_compress Z data c of
             (Inl err, c1) \<Rightarrow> ac_batch_cmds J Z ttl items c1
           | (Inr compressedData, c1) \<Rightarrow>
               (case ac_batch_cmds J Z ttl items c1 of
                  (cmds, c2) \<Rightarrow> (PSetEx (ac_key c key) compressedData ttl # cmds, c2))))"

text \<open>The items come in the order of the \<open>range\<close> loop.\<close>

definition ac_BatchSet ::
  "'a json_value \<Rightarrow> gzipx \<Rightarrow> 'd redis_ac \<Rightarrow> time \<Rightarrow> (string, 'a) go_map \<Rightarrow> duration list \<Rightarrow> ('p, 'd) AdvancedCache \<Rightarrow> 'd \<Rightarrow>
   go_error option \<times> ('p, 'd) AdvancedCache \<times> 'd" where
  "ac_BatchSet J Z R now items ttl c d =
     (if items = [] then (None, c, d)
      else (case ac_batch_cmds J Z (ac_ttl ttl c) items c of
              (cmds, c1) \<Rightarrow> (case ra_Exec R now cmds d of (rs, d1) \<Rightarrow> (exec_err rs, c1, d1))))"

section \<open>The rest\<close>

definition ac_GetQueue :: "('p, 'd) AdvancedCache \<Rightarrow> QueueHandler" where
  "ac_GetQueue c = ac_queue c"

definition ac_GetHotKeyManager :: "('p, 'd) AdvancedCache \<Rightarrow> 'p HotKeyManager" where
  "ac_GetHotKeyManager c = ac_hotkey c"

definition ac_GetLockManager :: "('p, 'd) AdvancedCache \<Rightarrow> 'd LockManager" where
  "ac_GetLockManager c = ac_lockMgr c"

definition ac_GetMetrics :: "('p, 'd) AdvancedCache \<Rightarrow> CacheMetrics option" where
  "ac_GetMetrics c = (if \<not> acc_EnableMetrics (ac_config c) then None else Some (ac_metrics c))"

definition ac_ResetMetrics :: "('p, 'd) AdvancedCache \<Rightarrow> ('p, 'd) AdvancedCache" where
  "ac_ResetMetrics c = ac_count (\<lambda>_. no_metrics) c"

definition ac_Ping :: "'d redis_ac \<Rightarrow> 'd \<Rightarrow> go_error option \<times> 'd" where
  "ac_Ping R d = ra_Ping R d"

text \<open>\<open>stopper\<close> is the \<open>Stop\<close> of a hot key cache, \<open>tm\<close> the clock at the release of each lock.\<close>

definition ac_Close ::
  "'d redis_ac \<Rightarrow> 'd redis_lock \<Rightarrow> ('p \<Rightarrow> ('d \<Rightarrow> 'd) option) \<Rightarrow> (string \<Rightarrow> time) \<Rightarrow> ('p, 'd) AdvancedCache \<Rightarrow> 'd \<Rightarrow>
   go_error option \<times> ('p, 'd) AdvancedCache \<times> 'd" where
  "ac_Close R LK stopper tm c d =
     (case ReleaseAllLocks LK tm (ac_lockMgr c) (hm_StopAll stopper (ac_hotkey c) d) of
        (_, m, d1) \<Rightarrow> (case ra_Close R d1 of (r, d2) \<Rightarrow> (r, c\<lparr>ac_lockMgr := m\<rparr>, d2)))"

end
