(* ===== verification/Multi_Level.thy ===== *)
theory Multi_Level
  imports Advanced_Cache Lru_Optimized
begin

text \<open>
  \<open>MultiLevelCache\<close> and \<open>CachePattern\<close> of \<open>multi_level_cache.go\<close>: the local \<open>LRUOptimizedHandler\<close> (L1) in
  front of an \<open>AdvancedCache\<close> (L2), filled by a loader, and the usual patterns of reading and writing a
  database through it. L1 holds the JSON text of a value as bytes. A panic of L1, which its invariant
  excludes, is an error like others here. The pattern's mutex is never taken.
\<close>

section \<open>Strings and bytes\<close>

definition to_bytes :: "string \<Rightarrow> bytes" where
  "to_bytes s = map (\<lambda>c. of_nat (of_char c)) s"

definition of_bytes :: "bytes \<Rightarrow> string" where
  "of_bytes b = map (\<lambda>w. char_of (unat w)) b"

lemma of_to_bytes [simp]: "of_bytes (to_bytes s) = s"
proof -
  have "unat (of_nat (of_char c) :: 8 word) = (of_char c :: nat)" for c
    by (simp add: unat_of_nat of_char_mod_256 [where ?'a = nat, simplified] take_bit_eq_mod)
  then show ?thesis by (simp add: of_bytes_def to_bytes_def o_def)
qed

lemma to_bytes_inj [simp]: "to_bytes s = to_bytes s' \<longleftrightarrow> s = s'"
  by (metis of_to_bytes)

section \<open>The cache\<close>

record MultiLevelConfig =
  mlc_Namespace :: string
  mlc_L1Size :: int
  mlc_L1TTL :: duration
  mlc_L2TTL :: duration
  mlc_EnableCompression :: bool
  mlc_SyncInterval :: duration

record ('p, 'd) MultiLevelCache =
  ml_config :: MultiLevelConfig
  ml_l1 :: optHandler
  ml_l2 :: "('p, 'd) AdvancedCache"
  ml_L1Hits :: int
  ml_L2Hits :: int
  ml_Misses :: int
  ml_L1Sets :: int
  ml_L2Sets :: int

definition NewMultiLevelCache :: "mathx \<Rightarrow> int \<Rightarrow> MultiLevelConfig \<Rightarrow> ('p, 'd) MultiLevelCache option" where
  "NewMultiLevelCache X gomaxprocs config0 =
     (let config = config0\<lparr>mlc_L1Size := IfLeZero X (mlc_L1Size config0) 1000,
            mlc_L1TTL := IfLeZero X (mlc_L1TTL config0) (minutes 5),
            mlc_L2TTL := IfLeZero X (mlc_L2TTL config0) hour,
            mlc_Namespace := IfNotEmpty X (mlc_Namespace config0) ''mlc''\<rparr>
      in map_option
           (\<lambda>l1Cache. \<lparr>ml_config = config, ml_l1 = l1Cache,
              ml_l2 = NewAdvancedCache X
                \<lparr>acc_Compression = (if mlc_EnableCompression config then CompressionGzip else CompressionNone), acc_MinSizeForCompress = 0,
                 acc_DefaultTTL = mlc_L2TTL config, acc_Namespace = mlc_Namespace config, acc_EnableMetrics = False\<rparr>,
              ml_L1Hits = 0, ml_L2Hits = 0, ml_Misses = 0, ml_L1Sets = 0, ml_L2Sets = 0\<rparr>)
           (NewLRUOptimizedHandler (IfLeZero X) gomaxprocs (mlc_L1Size config)))"

definition recordL1Hit :: "('p, 'd) MultiLevelCache \<Rightarrow> ('p, 'd) MultiLevelCache" where
  "recordL1Hit m = m\<lparr>ml_L1Hits := wrap64 (ml_L1Hits m + 1)\<rparr>"

definition recordL2Hit :: "('p, 'd) MultiLevelCache \<Rightarrow> ('p, 'd) MultiLevelCache" where
  "recordL2Hit m = m\<lparr>ml_L2Hits := wrap64 (ml_L2Hits m + 1)\<rparr>"

definition recordMiss :: "('p, 'd) MultiLevelCache \<Rightarrow> ('p, 'd) MultiLevelCache" where
  "recordMiss m = m\<lparr>ml_Misses := wrap64 (ml_Misses m + 1)\<rparr>"

definition recordL1Set :: "('p, 'd) MultiLevelCache \<Rightarrow> ('p, 'd) MultiLevelCache" where
  "recordL1Set m = m\<lparr>ml_L1Sets := wrap64 (ml_L1Sets m + 1)\<rparr>"

definition recordL2Set :: "('p, 'd) MultiLevelCache \<Rightarrow> ('p, 'd) MultiLevelCache" where
  "recordL2Set m = m\<lparr>ml_L2Sets := wrap64 (ml_L2Sets m + 1)\<rparr>"

section \<open>Operations\<close>

text \<open>The JSON text of a value goes to L1; \<open>pick\<close> is the choice of the pool of L1.\<close>

definition ml_put_l1 :: "nat \<Rightarrow> time \<Rightarrow> string \<Rightarrow> string \<Rightarrow> ('p, 'd) MultiLevelCache \<Rightarrow> ('p, 'd) MultiLevelCache" where
  "ml_put_l1 pick now key data m =
     m\<lparr>ml_l1 := snd (opt_SetWithTTL pick now (Some (to_bytes key)) (Some (to_bytes data)) (mlc_L1TTL (ml_config m)) (ml_l1 m))\<rparr>"

text \<open>\<open>here\<close> is the local clock, \<open>now\<close> that of the server.\<close>

definition ml_Set ::
  "'a json_value \<Rightarrow> gzipx \<Rightarrow> 'd redis_ac \<Rightarrow> nat \<Rightarrow> time \<Rightarrow> time \<Rightarrow> string \<Rightarrow> 'a \<Rightarrow> ('p, 'd) MultiLevelCache \<Rightarrow> 'd \<Rightarrow>
   go_error option \<times> ('p, 'd) MultiLevelCache \<times> 'd" where
  "ml_Set J Z R pick here now key val m d =
     (let m1 = (case jv_Marshal J val of Inl err \<Rightarrow> m | Inr data \<Rightarrow> recordL1Set (ml_put_l1 pick here key data m))
      in (case ac_Set J Z R now key val [mlc_L2TTL (ml_config m1)] (ml_l2 m1) d of
            (err, l2, d1) \<Rightarrow>
              let m2 = m1\<lparr>ml_l2 := l2\<rparr> in (err, if err = None then recordL2Set m2 else m2, d1)))"

text \<open>
  The clock at the reads and writes of a call: L1 twice (a look and the clean-up of an expired entry), L2,
  the refill of L1, and the two writes after the loader. A loader is a function on the world, or nil.
\<close>

record ml_times =
  mt_l1 :: time
  mt_l1_again :: time
  mt_l2 :: time
  mt_refill :: time
  mt_set1 :: time
  mt_set2 :: time

type_synonym ('a, 'd) db_loader = "('d \<Rightarrow> ('a \<times> go_error option) \<times> 'd) option"

definition ml_load ::
  "'a json_value \<Rightarrow> gzipx \<Rightarrow> 'd redis_ac \<Rightarrow> nat \<Rightarrow> ml_times \<Rightarrow> string \<Rightarrow> ('a, 'd) db_loader \<Rightarrow> ('p, 'd) MultiLevelCache \<Rightarrow> 'd \<Rightarrow>
   ('a \<times> go_error option) \<times> ('p, 'd) MultiLevelCache \<times> 'd" where
  "ml_load J Z R pick T key loader m d =
     (case loader of
        None \<Rightarrow> ((jv_zero J, Some (FmtError ''cache miss and no loader provided'')), m, d)
      | Some f \<Rightarrow>
          (case f d of
             ((_, Some err), d1) \<Rightarrow> ((jv_zero J, Some err), m, d1)
           | ((data, None), d1) \<Rightarrow>
               (case ml_Set J Z R pick (mt_set1 T) (mt_set2 T) key data m d1 of (_, m1, d2) \<Rightarrow> ((data, None), m1, d2))))"

definition ml_from_l2 ::
  "'a json_value \<Rightarrow> gzipx \<Rightarrow> 'd redis_ac \<Rightarrow> nat \<Rightarrow> ml_times \<Rightarrow> string \<Rightarrow> ('a, 'd) db_loader \<Rightarrow> ('p, 'd) MultiLevelCache \<Rightarrow> 'd \<Rightarrow>
   ('a \<times> go_error option) \<times> ('p, 'd) MultiLevelCache \<times> 'd" where
  "ml_from_l2 J Z R pick T key loader m d =
     (case ac_Get J Z R (mt_l2 T) key (ml_l2 m) d of
        (Inr (Some val), l2, d1) \<Rightarrow>
          let m1 = recordL2Hit (m\<lparr>ml_l2 := l2\<rparr>)
          in ((val, None),
              case jv_Marshal J val of Inl err \<Rightarrow> m1 | Inr data \<Rightarrow> ml_put_l1 pick (mt_refill T) key data m1,
              d1)
      | (_, l2, d1) \<Rightarrow> ml_load J Z R pick T key loader (recordMiss (m\<lparr>ml_l2 := l2\<rparr>)) d1)"

definition ml_Get ::
  "'a json_value \<Rightarrow> gzipx \<Rightarrow> 'd redis_ac \<Rightarrow> nat \<Rightarrow> ml_times \<Rightarrow> string \<Rightarrow> ('a, 'd) db_loader \<Rightarrow> ('p, 'd) MultiLevelCache \<Rightarrow> 'd \<Rightarrow>
   ('a \<times> go_error option) \<times> ('p, 'd) MultiLevelCache \<times> 'd" where
  "ml_Get J Z R pick T key loader m d =
     (case opt_Get (mt_l1 T) (mt_l1_again T) (Some (to_bytes key)) (ml_l1 m) of
        (Inr val, l1) \<Rightarrow>
          let m1 = recordL1Hit (m\<lparr>ml_l1 := l1\<rparr>)
          in (case jv_Unmarshal J (of_bytes (str val)) of
                Inr result \<Rightarrow> ((result, None), m1, d)
              | Inl err \<Rightarrow> ml_from_l2 J Z R pick T key loader m1 d)
      | (Inl err, l1) \<Rightarrow> ml_from_l2 J Z R pick T key loader (m\<lparr>ml_l1 := l1\<rparr>) d)"

definition InvalidateL1 :: "string \<Rightarrow> ('p, 'd) MultiLevelCache \<Rightarrow> ('p, 'd) MultiLevelCache" where
  "InvalidateL1 key m = m\<lparr>ml_l1 := snd (opt_Del (Some (to_bytes key)) (ml_l1 m))\<rparr>"

definition ml_Delete ::
  "'d redis_ac \<Rightarrow> time \<Rightarrow> string \<Rightarrow> ('p, 'd) MultiLevelCache \<Rightarrow> 'd \<Rightarrow> go_error option \<times> ('p, 'd) MultiLevelCache \<times> 'd" where
  "ml_Delete R now key m d =
     (let m1 = m\<lparr>ml_l1 := snd (opt_Del (Some (to_bytes key)) (ml_l1 m))\<rparr>
      in (case ac_Delete R now [key] (ml_l2 m1) d of (err, l2, d1) \<Rightarrow> (err, m1\<lparr>ml_l2 := l2\<rparr>, d1)))"

definition ml_Clear ::
  "'d redis_ac \<Rightarrow> time \<Rightarrow> time \<Rightarrow> (lruShard \<Rightarrow> go_string list) \<Rightarrow> ('p, 'd) MultiLevelCache \<Rightarrow> 'd \<Rightarrow>
   go_error option \<times> ('p, 'd) MultiLevelCache \<times> 'd" where
  "ml_Clear R now1 now2 order m d =
     (let m1 = m\<lparr>ml_l1 := snd (opt_Clear order (ml_l1 m))\<rparr>
      in (case ac_Clear R now1 now2 (mlc_Namespace (ml_config m1) @ ''*'') (ml_l2 m1) d of
            (err, l2, d1) \<Rightarrow> (err, m1\<lparr>ml_l2 := l2\<rparr>, d1)))"

section \<open>Statistics\<close>

definition hitRateOf :: "int \<Rightarrow> int \<Rightarrow> int \<Rightarrow> int" where
  "hitRateOf l1Hits l2Hits misses =
     (let all_gets = wrap64 (wrap64 (l1Hits + l2Hits) + misses)
      in if all_gets = 0 then 0 else wrap64 (go_div (wrap64 (wrap64 (l1Hits + l2Hits) * 100)) all_gets))"

definition ml_GetStats :: "('p, 'd) MultiLevelCache \<Rightarrow> (string, int) go_map" where
  "ml_GetStats m =
     [(''l1_hits'', ml_L1Hits m), (''l2_hits'', ml_L2Hits m), (''misses'', ml_Misses m), (''l1_sets'', ml_L1Sets m),
      (''l2_sets'', ml_L2Sets m), (''hit_rate'', hitRateOf (ml_L1Hits m) (ml_L2Hits m) (ml_Misses m))]"

definition calculateHitRate :: "('p, 'd) MultiLevelCache \<Rightarrow> int" where
  "calculateHitRate m = hitRateOf (ml_L1Hits m) (ml_L2Hits m) (ml_Misses m)"

section \<open>Patterns\<close>

text \<open>The goroutines a write leaves behind: the second deletion, 500 milliseconds later, and the write of the
  database, which deletes the value again if it fails.\<close>

datatype 'a ml_task = TDelete string | TWrite string 'a

type_synonym ('a, 'd) db_writer = "'a \<Rightarrow> 'd \<Rightarrow> go_error option \<times> 'd"

record ('a, 'd) CacheAsideOperation =
  op_key :: string
  op_dbLoader :: "('a, 'd) db_loader"
  op_dbWriter :: "('a, 'd) db_writer"

definition CacheAside :: "string \<Rightarrow> ('a, 'd) db_loader \<Rightarrow> ('a, 'd) db_writer \<Rightarrow> ('a, 'd) CacheAsideOperation" where
  "CacheAside key dbLoader dbWriter = \<lparr>op_key = key, op_dbLoader = dbLoader, op_dbWriter = dbWriter\<rparr>"

definition op_Read ::
  "'a json_value \<Rightarrow> gzipx \<Rightarrow> 'd redis_ac \<Rightarrow> nat \<Rightarrow> ml_times \<Rightarrow> ('a, 'd) CacheAsideOperation \<Rightarrow> ('p, 'd) MultiLevelCache \<Rightarrow> 'd \<Rightarrow>
   ('a \<times> go_error option) \<times> ('p, 'd) MultiLevelCache \<times> 'd" where
  "op_Read J Z R pick T op m d = ml_Get J Z R pick T (op_key op) (op_dbLoader op) m d"

definition op_Write ::
  "'d redis_ac \<Rightarrow> time \<Rightarrow> 'a \<Rightarrow> ('a, 'd) CacheAsideOperation \<Rightarrow> ('p, 'd) MultiLevelCache \<Rightarrow> 'd \<Rightarrow>
   (go_error option \<times> 'a ml_task list) \<times> ('p, 'd) MultiLevelCache \<times> 'd" where
  "op_Write R now val op m d =
     (case op_dbWriter op val d of
        (Some err, d1) \<Rightarrow> ((Some err, []), m, d1)
      | (None, d1) \<Rightarrow> (case ml_Delete R now (op_key op) m d1 of (_, m1, d2) \<Rightarrow> ((None, [TDelete (op_key op)]), m1, d2)))"

definition ReadThrough ::
  "'a json_value \<Rightarrow> gzipx \<Rightarrow> 'd redis_ac \<Rightarrow> nat \<Rightarrow> ml_times \<Rightarrow> string \<Rightarrow> ('a, 'd) db_loader \<Rightarrow> ('p, 'd) MultiLevelCache \<Rightarrow> 'd \<Rightarrow>
   ('a \<times> go_error option) \<times> ('p, 'd) MultiLevelCache \<times> 'd" where
  "ReadThrough J Z R pick T key dbLoader m d = ml_Get J Z R pick T key dbLoader m d"

definition WriteThrough ::
  "'a json_value \<Rightarrow> gzipx \<Rightarrow> 'd redis_ac \<Rightarrow> nat \<Rightarrow> time \<Rightarrow> time \<Rightarrow> string \<Rightarrow> 'a \<Rightarrow> ('a, 'd) db_writer \<Rightarrow> ('p, 'd) MultiLevelCache \<Rightarrow> 'd \<Rightarrow>
   go_error option \<times> ('p, 'd) MultiLevelCache \<times> 'd" where
  "WriteThrough J Z R pick here now key val dbWriter m d =
     (case dbWriter val d of
        (Some err, d1) \<Rightarrow> (Some err, m, d1)
      | (None, d1) \<Rightarrow> ml_Set J Z R pick here now key val m d1)"

definition WriteBehind ::
  "'a json_value \<Rightarrow> gzipx \<Rightarrow> 'd redis_ac \<Rightarrow> nat \<Rightarrow> time \<Rightarrow> time \<Rightarrow> string \<Rightarrow> 'a \<Rightarrow> ('p, 'd) MultiLevelCache \<Rightarrow> 'd \<Rightarrow>
   (go_error option \<times> 'a ml_task list) \<times> ('p, 'd) MultiLevelCache \<times> 'd" where
  "WriteBehind J Z R pick here now key val m d =
     (case ml_Set J Z R pick here now key val m d of
        (Some err, m1, d1) \<Rightarrow> ((Some err, []), m1, d1)
      | (None, m1, d1) \<Rightarrow> ((None, [TWrite key val]), m1, d1))"

definition ml_run_task ::
  "'d redis_ac \<Rightarrow> time \<Rightarrow> ('a, 'd) db_writer \<Rightarrow> 'a ml_task \<Rightarrow> ('p, 'd) MultiLevelCache \<Rightarrow> 'd \<Rightarrow> ('p, 'd) MultiLevelCache \<times> 'd" where
  "ml_run_task R now dbWriter task m d =
     (case task of
        TDelete key \<Rightarrow> snd (ml_Delete R now key m d)
      | TWrite key val \<Rightarrow> (case dbWriter val d of (None, d1) \<Rightarrow> (m, d1) | (Some err, d1) \<Rightarrow> snd (ml_Delete R now key m d1)))"

end
