(* ===== verification/Advanced_Cache_Correct.thy ===== *)
theory Advanced_Cache_Correct
  imports Advanced_Cache Distributed_Lock_Correct
begin

text \<open>
  What \<open>AdvancedCache\<close> relies on, a server for it, and its correctness: what is written is read back until
  its deadline, by every cache of the namespace that can decompress it, one by one and in batches; a
  cleared pattern takes exactly its keys. And a defect of \<open>GetOrSet\<close>: its lock does not keep two calls of
  the same process apart.
\<close>

section \<open>Laws\<close>

text \<open>\<open>up\<close> are the states in which the server answers, \<open>val t d k\<close> is the value of a key at time \<open>t\<close> if no
  command comes in between; a value can only disappear with time.\<close>

definition ac_value_law :: "(time \<Rightarrow> 'd \<Rightarrow> string \<Rightarrow> string option) \<Rightarrow> bool" where
  "ac_value_law val \<longleftrightarrow> (\<forall>t t' d k. t \<le> t' \<longrightarrow> val t d k = None \<longrightarrow> val t' d k = None)"

definition ac_get_law :: "'d redis_ac \<Rightarrow> ('d \<Rightarrow> bool) \<Rightarrow> (time \<Rightarrow> 'd \<Rightarrow> string \<Rightarrow> string option) \<Rightarrow> bool" where
  "ac_get_law R up val \<longleftrightarrow> (\<forall>now k d. up d \<longrightarrow>
     fst (ra_Get R now k d) = (case val now d k of None \<Rightarrow> Inl RedisNil | Some b \<Rightarrow> Inr b) \<and>
     up (snd (ra_Get R now k d)) \<and> (\<forall>t \<ge> now. val t (snd (ra_Get R now k d)) = val t d))"

definition ac_set_law :: "'d redis_ac \<Rightarrow> ('d \<Rightarrow> bool) \<Rightarrow> (time \<Rightarrow> 'd \<Rightarrow> string \<Rightarrow> string option) \<Rightarrow> bool" where
  "ac_set_law R up val \<longleftrightarrow> (\<forall>now k b ttl d. up d \<longrightarrow> 0 < ttl \<longrightarrow> ttl mod second = 0 \<longrightarrow>
     fst (ra_SetEx R now k b ttl d) = None \<and> up (snd (ra_SetEx R now k b ttl d)) \<and>
     (\<forall>t \<ge> now. val t (snd (ra_SetEx R now k b ttl d)) = (val t d)(k := if t < now + ttl then Some b else None)))"

definition ac_del_law :: "'d redis_ac \<Rightarrow> ('d \<Rightarrow> bool) \<Rightarrow> (time \<Rightarrow> 'd \<Rightarrow> string \<Rightarrow> string option) \<Rightarrow> bool" where
  "ac_del_law R up val \<longleftrightarrow> (\<forall>now ks d. up d \<longrightarrow>
     fst (ra_Del R now ks d) = None \<and> up (snd (ra_Del R now ks d)) \<and>
     (\<forall>t \<ge> now. val t (snd (ra_Del R now ks d)) = (\<lambda>k. if k \<in> set ks then None else val t d k)))"

text \<open>\<open>KEYS\<close> lists the keys of a pattern. A pattern of plain characters and a star stands for a prefix.\<close>

definition plain_text :: "string \<Rightarrow> bool" where
  "plain_text p \<longleftrightarrow> list_all (\<lambda>c. c \<notin> {CHR ''*'', CHR ''?'', CHR ''['', CHR 0x5C}) p"

definition has_prefix :: "string \<Rightarrow> string \<Rightarrow> bool" where
  "has_prefix p k \<longleftrightarrow> take (length p) k = p"

definition glob_law :: "(string \<Rightarrow> string \<Rightarrow> bool) \<Rightarrow> bool" where
  "glob_law glob \<longleftrightarrow> (\<forall>p k. plain_text p \<longrightarrow> glob (p @ ''*'') k = has_prefix p k)"

definition ac_keys_law ::
  "(string \<Rightarrow> string \<Rightarrow> bool) \<Rightarrow> 'd redis_ac \<Rightarrow> ('d \<Rightarrow> bool) \<Rightarrow> (time \<Rightarrow> 'd \<Rightarrow> string \<Rightarrow> string option) \<Rightarrow> bool" where
  "ac_keys_law glob R up val \<longleftrightarrow> (\<forall>now pat d. up d \<longrightarrow>
     (\<exists>ks. fst (ra_Keys R now pat d) = Inr ks \<and> set ks = {k. val now d k \<noteq> None \<and> glob pat k}) \<and>
     up (snd (ra_Keys R now pat d)) \<and> (\<forall>t \<ge> now. val t (snd (ra_Keys R now pat d)) = val t d))"

text \<open>A pipeline runs its commands in their order.\<close>

fun ac_run :: "'d redis_ac \<Rightarrow> time \<Rightarrow> ac_cmd list \<Rightarrow> 'd \<Rightarrow> string go_result list \<times> 'd" where
  "ac_run R now [] d = ([], d)"
| "ac_run R now (PGet k # cs) d =
     (case ra_Get R now k d of (r, d1) \<Rightarrow> (case ac_run R now cs d1 of (rs, d2) \<Rightarrow> (r # rs, d2)))"
| "ac_run R now (PSetEx k b ttl # cs) d =
     (case ra_SetEx R now k b ttl d of
        (e, d1) \<Rightarrow> (case ac_run R now cs d1 of (rs, d2) \<Rightarrow> ((case e of None \<Rightarrow> Inr ''OK'' | Some err \<Rightarrow> Inl err) # rs, d2)))"

definition ac_exec_law :: "'d redis_ac \<Rightarrow> ('d \<Rightarrow> bool) \<Rightarrow> bool" where
  "ac_exec_law R up \<longleftrightarrow> (\<forall>now cs d. up d \<longrightarrow> ra_Exec R now cs d = ac_run R now cs d)"

definition ac_law ::
  "(string \<Rightarrow> string \<Rightarrow> bool) \<Rightarrow> 'd redis_ac \<Rightarrow> ('d \<Rightarrow> bool) \<Rightarrow> (time \<Rightarrow> 'd \<Rightarrow> string \<Rightarrow> string option) \<Rightarrow> bool" where
  "ac_law glob R up val \<longleftrightarrow> ac_value_law val \<and> ac_get_law R up val \<and> ac_set_law R up val \<and> ac_del_law R up val \<and>
     ac_keys_law glob R up val \<and> ac_exec_law R up"

lemma ac_law_get:
  assumes "ac_law glob R up val" "up d"
  obtains d' where "ra_Get R now k d = (case val now d k of None \<Rightarrow> Inl RedisNil | Some b \<Rightarrow> Inr b, d')" "up d'"
    "\<And>t. now \<le> t \<Longrightarrow> val t d' = val t d"
proof -
  have "fst (ra_Get R now k d) = (case val now d k of None \<Rightarrow> Inl RedisNil | Some b \<Rightarrow> Inr b)"
    "up (snd (ra_Get R now k d))" "\<forall>t \<ge> now. val t (snd (ra_Get R now k d)) = val t d"
    using assms by (simp_all add: ac_law_def ac_get_law_def)
  then show thesis using that [of "snd (ra_Get R now k d)"] by (metis prod.collapse)
qed

lemma ac_law_set:
  assumes "ac_law glob R up val" "up d" "0 < ttl" "ttl mod second = 0"
  obtains d' where "ra_SetEx R now k b ttl d = (None, d')" "up d'"
    "\<And>t. now \<le> t \<Longrightarrow> val t d' = (val t d)(k := if t < now + ttl then Some b else None)"
proof -
  have "fst (ra_SetEx R now k b ttl d) = None" "up (snd (ra_SetEx R now k b ttl d))"
    "\<forall>t \<ge> now. val t (snd (ra_SetEx R now k b ttl d)) = (val t d)(k := if t < now + ttl then Some b else None)"
    using assms by (simp_all add: ac_law_def ac_set_law_def)
  then show thesis using that [of "snd (ra_SetEx R now k b ttl d)"] by (metis prod.collapse)
qed

lemma ac_law_del:
  assumes "ac_law glob R up val" "up d"
  obtains d' where "ra_Del R now ks d = (None, d')" "up d'"
    "\<And>t. now \<le> t \<Longrightarrow> val t d' = (\<lambda>k. if k \<in> set ks then None else val t d k)"
proof -
  have "fst (ra_Del R now ks d) = None" "up (snd (ra_Del R now ks d))"
    "\<forall>t \<ge> now. val t (snd (ra_Del R now ks d)) = (\<lambda>k. if k \<in> set ks then None else val t d k)"
    using assms by (simp_all add: ac_law_def ac_del_law_def)
  then show thesis using that [of "snd (ra_Del R now ks d)"] by (metis prod.collapse)
qed

lemma ac_law_keys:
  assumes "ac_law glob R up val" "up d"
  obtains ks d' where "ra_Keys R now pat d = (Inr ks, d')" "set ks = {k. val now d k \<noteq> None \<and> glob pat k}" "up d'"
    "\<And>t. now \<le> t \<Longrightarrow> val t d' = val t d"
proof -
  obtain ks where "fst (ra_Keys R now pat d) = Inr ks" "set ks = {k. val now d k \<noteq> None \<and> glob pat k}"
    and "up (snd (ra_Keys R now pat d))" "\<forall>t \<ge> now. val t (snd (ra_Keys R now pat d)) = val t d"
    using assms unfolding ac_law_def ac_keys_law_def by blast
  then show thesis using that [of ks "snd (ra_Keys R now pat d)"] by (metis prod.collapse)
qed

text \<open>JSON text is not empty and does not begin with the magic number of gzip, whose reader refuses all else.\<close>

definition jv_law :: "'a json_value \<Rightarrow> bool" where
  "jv_law J \<longleftrightarrow> (\<forall>v. \<exists>s. jv_Marshal J v = Inr s \<and> jv_Unmarshal J s = Inr v \<and> s \<noteq> [] \<and> hd s \<noteq> CHR 0x1F)"

definition gz_law :: "gzipx \<Rightarrow> bool" where
  "gz_law Z \<longleftrightarrow> (\<forall>s. gz_Write Z s = None \<and> (\<exists>z. gz_Close Z s = Inr z \<and> gz_NewReader Z z = Inr (Inr s)) \<and>
     (take 2 s \<noteq> [CHR 0x1F, CHR 0x8B] \<longrightarrow> (\<exists>err. gz_NewReader Z s = Inl err)))"

section \<open>Reading what was written\<close>

lemma ac_count_config [simp]:
  "ac_config (ac_count f c) = ac_config c" "ac_lockMgr (ac_count f c) = ac_lockMgr c" "ac_key (ac_count f c) = ac_key c"
  by (simp_all add: ac_count_def ac_key_def fun_eq_iff)

lemma ac_compress_config:
  "ac_compress Z data c = (r, c1) \<Longrightarrow> ac_config c1 = ac_config c \<and> ac_lockMgr c1 = ac_lockMgr c"
  by (auto simp: ac_compress_def split: if_splits option.splits sum.splits)

lemma ac_decompress_config:
  "ac_decompress Z data c = (r, c1) \<Longrightarrow> ac_config c1 = ac_config c \<and> ac_lockMgr c1 = ac_lockMgr c"
  by (auto simp: ac_decompress_def split: if_splits sum.splits)

lemma ac_Get_config: "ac_Get J Z R now key c d = (r, c1, d1) \<Longrightarrow> ac_config c1 = ac_config c \<and> ac_lockMgr c1 = ac_lockMgr c"
  by (auto simp: ac_Get_def split: if_splits option.splits sum.splits prod.splits dest!: ac_decompress_config)

text \<open>Which caches read what a cache wrote: those that look for compressed data, and all if none is.\<close>

definition can_read :: "('p, 'd) AdvancedCache \<Rightarrow> ('q, 'd) AdvancedCache \<Rightarrow> bool" where
  "can_read c' c \<longleftrightarrow> acc_Compression (ac_config c') \<noteq> CompressionNone \<or> acc_Compression (ac_config c) = CompressionNone"

abbreviation plainly :: "('p, 'd) AdvancedCache \<Rightarrow> bool" where
  "plainly c \<equiv> acc_Compression (ac_config c) = CompressionNone"

text \<open>The value of stored data, for a cache with and without compression, and the answer of \<open>Get\<close>.\<close>

definition unzipped :: "gzipx \<Rightarrow> bool \<Rightarrow> string \<Rightarrow> string" where
  "unzipped Z b data = (if b then data else (case gz_NewReader Z data of Inr (Inr s) \<Rightarrow> s | _ \<Rightarrow> data))"

definition ac_answer :: "'a json_value \<Rightarrow> gzipx \<Rightarrow> bool \<Rightarrow> string option \<Rightarrow> 'a option go_result" where
  "ac_answer J Z b e =
     (case e of
        None \<Rightarrow> Inr None
      | Some data \<Rightarrow>
          (case jv_Unmarshal J (unzipped Z b data) of Inl err \<Rightarrow> Inl (Wrapped ''failed to unmarshal value'' err) | Inr v \<Rightarrow> Inr (Some v)))"

lemma ac_answer_None [simp]: "ac_answer J Z b None = Inr None" "ac_answer J Z b e = Inr None \<longleftrightarrow> e = None"
  by (auto simp: ac_answer_def split: option.splits sum.splits)

lemma ac_decompress_unzipped: "fst (ac_decompress Z data c) = Inr (unzipped Z (plainly c) data)"
  by (simp add: ac_decompress_def unzipped_def split: sum.split)

lemma ac_encode:
  assumes "jv_law J" "gz_law Z"
  obtains s z c1 where "jv_Marshal J v = Inr s" "ac_compress Z s c = (Inr z, c1)" "ac_config c1 = ac_config c"
    "\<And>b. \<not> b \<or> plainly c \<Longrightarrow> ac_answer J Z b (Some z) = Inr (Some v)"
proof -
  obtain s where s: "jv_Marshal J v = Inr s" "jv_Unmarshal J s = Inr v" "s \<noteq> []" "hd s \<noteq> CHR 0x1F"
    using assms(1) unfolding jv_law_def by blast
  have no: "take 2 s \<noteq> [CHR 0x1F, CHR 0x8B]" using s(3,4) by (cases s) auto
  obtain err where err: "gz_NewReader Z s = Inl err" using assms(2) no unfolding gz_law_def by blast
  obtain z where z: "gz_Write Z s = None" "gz_Close Z s = Inr z" "gz_NewReader Z z = Inr (Inr s)"
    using assms(2) unfolding gz_law_def by blast
  have asis: "ac_answer J Z b (Some s) = Inr (Some v)" for b using s(2) err by (simp add: ac_answer_def unzipped_def)
  have zipped: "ac_answer J Z False (Some z) = Inr (Some v)" using s(2) z(3) by (simp add: ac_answer_def unzipped_def)
  show thesis
  proof (cases "plainly c \<or> int (length s) < acc_MinSizeForCompress (ac_config c)")
    case True
    then show ?thesis using that [OF s(1), of s c] asis by (auto simp: ac_compress_def)
  next
    case False
    show ?thesis
    proof (rule that [OF s(1)])
      show "ac_compress Z s c = (Inr z, ac_count (\<lambda>m. m\<lparr>cm_Compressions := wrap64 (cm_Compressions m + 1)\<rparr>) c)"
        using False z by (simp add: ac_compress_def)
      show "ac_answer J Z b (Some z) = Inr (Some v)" if "\<not> b \<or> plainly c" for b using that False zipped by simp
    qed simp
  qed
qed

lemma ac_Get_up:
  assumes "ac_law glob R up val" "up d"
  obtains c' d' where "ac_Get J Z R now key c d = (ac_answer J Z (plainly c) (val now d (ac_key c key)), c', d')"
    "up d'" "\<And>t. now \<le> t \<Longrightarrow> val t d' = val t d" "ac_config c' = ac_config c" "ac_lockMgr c' = ac_lockMgr c"
    "d' = snd (ra_Get R now (ac_key c key) d)"
proof -
  obtain d' where g: "ra_Get R now (ac_key c key) d = (case val now d (ac_key c key) of None \<Rightarrow> Inl RedisNil | Some b \<Rightarrow> Inr b, d')"
    "up d'" "\<And>t. now \<le> t \<Longrightarrow> val t d' = val t d"
    by (rule ac_law_get [where now = now and k = "ac_key c key", OF assms]) blast
  obtain r c' e where r: "ac_Get J Z R now key c d = (r, c', e)" by (rule prod_cases3)
  have e: "e = d' \<and> r = ac_answer J Z (plainly c) (val now d (ac_key c key))"
  proof (cases "val now d (ac_key c key)")
    case (Some data)
    obtain c1 where x: "ac_decompress Z data c = (Inr (unzipped Z (plainly c) data), c1)"
      using ac_decompress_unzipped [of Z data c] by (metis prod.collapse)
    show ?thesis using g(1) Some x r by (auto simp: ac_Get_def ac_answer_def split: sum.splits)
  qed (use g(1) r in \<open>simp add: ac_Get_def\<close>)
  show thesis
    by (rule that [OF r [unfolded e [THEN conjunct1] e [THEN conjunct2]] g(2,3)])
      (use ac_Get_config [OF r] g(1) in simp_all)
qed

lemma ac_Get_fst: "ac_law glob R up val \<Longrightarrow> up d \<Longrightarrow> fst (ac_Get J Z R now key c d) = ac_answer J Z (plainly c) (val now d (ac_key c key))"
  by (rule ac_Get_up [where now = now and key = key and c = c and J = J and Z = Z], assumption+) simp

lemma ac_key_inj: "acc_Namespace (ac_config c') = acc_Namespace (ac_config c) \<Longrightarrow> ac_key c' key' = ac_key c key \<longleftrightarrow> key' = key"
  by (simp add: ac_key_def)

lemma ac_Set_up:
  assumes "ac_law glob R up val" "jv_law J" "gz_law Z" "up d" "0 < ac_ttl ttl c" "ac_ttl ttl c mod second = 0"
  obtains c1 d1 z where "ac_Set J Z R now key v ttl c d = (None, c1, d1)" "up d1" "ac_config c1 = ac_config c"
    "\<And>b. \<not> b \<or> plainly c \<Longrightarrow> ac_answer J Z b (Some z) = Inr (Some v)"
    "\<And>t. now \<le> t \<Longrightarrow> val t d1 = (val t d)(ac_key c key := if t < now + ac_ttl ttl c then Some z else None)"
proof -
  obtain s z c1 where e: "jv_Marshal J v = Inr s" "ac_compress Z s c = (Inr z, c1)" "ac_config c1 = ac_config c"
    "\<And>b. \<not> b \<or> plainly c \<Longrightarrow> ac_answer J Z b (Some z) = Inr (Some v)"
    by (rule ac_encode [where v = v and c = c, OF assms(2,3)]) blast
  obtain d1 where d1: "ra_SetEx R now (ac_key c key) z (ac_ttl ttl c) d = (None, d1)" "up d1"
    "\<And>t. now \<le> t \<Longrightarrow> val t d1 = (val t d)(ac_key c key := if t < now + ac_ttl ttl c then Some z else None)"
    by (rule ac_law_set [where now = now and k = "ac_key c key" and b = z, OF assms(1,4,5,6)]) blast
  have k: "ac_key c1 key = ac_key c key" "ac_ttl ttl c1 = ac_ttl ttl c" using e(3) by (simp_all add: ac_key_def ac_ttl_def)
  show thesis
  proof (rule that [OF _ d1(2) _ e(4) d1(3)])
    show "ac_Set J Z R now key v ttl c d = (None, ac_count (\<lambda>m. m\<lparr>cm_Sets := wrap64 (cm_Sets m + 1),
        cm_TotalSize := wrap64 (cm_TotalSize m + int (length z))\<rparr>) c1, d1)"
      using e(1,2) d1(1) k by (simp add: ac_Set_def)
  qed (use e(3) in simp_all)
qed

section \<open>A server, JSON and gzip\<close>

text \<open>The server keeps values and locks in one key space, with deadlines: the store of the locks.\<close>

definition ac_value :: "time \<Rightarrow> lock_store \<Rightarrow> string \<Rightarrow> string option" where
  "ac_value t d k = map_option fst (live t (map_of d k))"

definition glob_ref :: "string \<Rightarrow> string \<Rightarrow> bool" where
  "glob_ref pat k \<longleftrightarrow> (if pat \<noteq> [] \<and> last pat = CHR ''*'' then has_prefix (butlast pat) k else pat = k)"

definition ac_ref_plain :: "lock_store redis_ac" where
  "ac_ref_plain = \<lparr>ra_Get = (\<lambda>now k d. (case ac_value now d k of None \<Rightarrow> Inl RedisNil | Some b \<Rightarrow> Inr b, d)),
     ra_SetEx = (\<lambda>now k b ttl d. (None, AList.update k (b, Some (now + ttl)) d)),
     ra_Del = (\<lambda>now ks d. (None, filter (\<lambda>(k, e). k \<notin> set ks) d)),
     ra_Exists = (\<lambda>now ks d. (Inr (int (length (filter (\<lambda>k. ac_value now d k \<noteq> None) ks))), d)),
     ra_TTL = (\<lambda>now k d. (Inr (case live now (map_of d k) of None \<Rightarrow> -2 | Some (_, None) \<Rightarrow> -1 | Some (_, Some t) \<Rightarrow> t - now), d)),
     ra_Expire = (\<lambda>now k ttl d. (case ac_value now d k of None \<Rightarrow> (Inr False, d) | Some b \<Rightarrow> (Inr True, AList.update k (b, Some (now + ttl)) d))),
     ra_Keys = (\<lambda>now pat d. (Inr (filter (\<lambda>k. ac_value now d k \<noteq> None \<and> glob_ref pat k) (map fst d)), d)),
     ra_Exec = (\<lambda>now cs d. ([], d)), ra_Ping = (\<lambda>d. (None, d)), ra_Close = (\<lambda>d. (None, d))\<rparr>"

definition ac_ref :: "lock_store redis_ac" where
  "ac_ref = ac_ref_plain\<lparr>ra_Exec := ac_run ac_ref_plain\<rparr>"

lemma ac_run_Exec [simp]: "ac_run (R\<lparr>ra_Exec := x\<rparr>) now cs d = ac_run R now cs d"
  by (induction R now cs d rule: ac_run.induct) (auto split: prod.split)

lemma glob_ref_law: "glob_law glob_ref"
  by (simp add: glob_law_def glob_ref_def)

lemma map_of_filter_keys: "map_of (filter (\<lambda>(k, e). P k) d) k = (if P k then map_of d k else None)"
  by (induction d) auto

lemma ac_ref_law: "ac_law glob_ref ac_ref (\<lambda>_. True) ac_value"
proof -
  have "ac_value_law ac_value" by (auto simp: ac_value_law_def ac_value_def live_def split: option.splits if_splits)
  moreover have "ac_get_law ac_ref (\<lambda>_. True) ac_value" by (simp add: ac_get_law_def ac_ref_def ac_ref_plain_def)
  moreover have "ac_set_law ac_ref (\<lambda>_. True) ac_value"
    by (simp add: ac_set_law_def ac_ref_def ac_ref_plain_def ac_value_def update_conv' fun_eq_iff)
  moreover have "ac_del_law ac_ref (\<lambda>_. True) ac_value"
    by (auto simp: ac_del_law_def ac_ref_def ac_ref_plain_def ac_value_def map_of_filter_keys fun_eq_iff)
  moreover have "ac_keys_law glob_ref ac_ref (\<lambda>_. True) ac_value"
    by (auto simp: ac_keys_law_def ac_ref_def ac_ref_plain_def ac_value_def live_def map_of_eq_None_iff image_iff split: option.splits if_splits
      dest: map_of_SomeD)
  moreover have "ac_exec_law ac_ref (\<lambda>_. True)" by (simp add: ac_exec_law_def ac_ref_def)
  ultimately show ?thesis by (simp add: ac_law_def)
qed

definition jv_ref :: "string json_value" where
  "jv_ref = \<lparr>jv_zero = [], jv_Marshal = (\<lambda>v. Inr (CHR 0x22 # v)),
     jv_Unmarshal = (\<lambda>s. if s \<noteq> [] \<and> hd s = CHR 0x22 then Inr (tl s) else Inl (ExtError 7))\<rparr>"

definition gz_ref :: gzipx where
  "gz_ref = \<lparr>gz_Write = (\<lambda>s. None), gz_Close = (\<lambda>s. Inr (CHR 0x1F # CHR 0x8B # s)),
     gz_NewReader = (\<lambda>s. if take 2 s = [CHR 0x1F, CHR 0x8B] then Inr (Inr (drop 2 s)) else Inl (ExtError 8))\<rparr>"

lemma jv_ref_law: "jv_law jv_ref"
  by (simp add: jv_law_def jv_ref_def)

lemma gz_ref_law: "gz_law gz_ref"
  by (simp add: gz_law_def gz_ref_def numeral_2_eq_2)

text \<open>A cache that compresses all but the shortest values, and one with the defaults.\<close>

definition demo_ac :: "int \<Rightarrow> (unit, 'd) AdvancedCache" where
  "demo_ac n = NewAdvancedCache mathx_ref
     \<lparr>acc_Compression = CompressionGzip, acc_MinSizeForCompress = n, acc_DefaultTTL = 0, acc_Namespace = ''ns'', acc_EnableMetrics = True\<rparr>"

lemma demo_ac_simps [simp]:
  "acc_Namespace (ac_config (demo_ac n)) = ''ns''" "plainly (demo_ac n) = False" "ac_ttl [] (demo_ac n) = hour" "ac_ttl [x] (demo_ac n) = x"
  by (simp_all add: demo_ac_def NewAdvancedCache_def Let_def mathx_ref_def ac_ttl_def CompressionNone_def CompressionGzip_def)

lemma hour_whole [simp]: "0 < hour" "hour mod second = 0"
  by (simp_all add: hour_def second_def)

section \<open>Read your writes\<close>

text \<open>
  Read your writes of \<open>AdvancedCache\<close>. A value that was set is read back until its deadline and not
  after, compressed or not, by every cache of the namespace that looks for compressed data or if none is
  written; other keys read as before.
\<close>
theorem ac_roundtrip:
  assumes "ac_law glob R up val" "jv_law J" "gz_law Z" "up d" "0 < ac_ttl ttl c" "ac_ttl ttl c mod second = 0"
    and "ac_Set J Z R now key v ttl c d = (e, c1, d1)" "now \<le> t"
    and "acc_Namespace (ac_config c') = acc_Namespace (ac_config c)" "plainly c' \<longrightarrow> plainly c"
  shows "e = None \<and> fst (ac_Get J Z R t key c' d1) = Inr (if t < now + ac_ttl ttl c then Some v else None) \<and>
    (key' \<noteq> key \<longrightarrow> fst (ac_Get J Z R t key' c' d1) = fst (ac_Get J Z R t key' c' d))"
proof -
  obtain c2 d2 z where s: "ac_Set J Z R now key v ttl c d = (None, c2, d2)" "up d2"
    "\<And>b. \<not> b \<or> plainly c \<Longrightarrow> ac_answer J Z b (Some z) = Inr (Some v)"
    "\<And>t. now \<le> t \<Longrightarrow> val t d2 = (val t d)(ac_key c key := if t < now + ac_ttl ttl c then Some z else None)"
    by (rule ac_Set_up [where now = now and key = key and v = v, OF assms(1-6)]) blast
  have "d1 = d2" "e = None" using assms(7) s(1) by simp_all
  then show ?thesis
    using ac_Get_fst [OF assms(1) s(2), of J Z t _ c'] ac_Get_fst [OF assms(1,4), of J Z t _ c'] s(3) [of "plainly c'"] s(4) [OF assms(8)] assms(9,10)
    by (auto simp: ac_key_def)
qed

lemma ac_roundtrip_witness:
  "\<exists>d. fst (ac_Get jv_ref gz_ref ac_ref 9 ''k'' (demo_ac 100) d) = Inr (Some ''hello'') \<and>
     fst (ac_Get jv_ref gz_ref ac_ref (5 + hour) ''k'' (demo_ac 100) d) = Inr None"
proof -
  obtain e c1 d1 where s: "ac_Set jv_ref gz_ref ac_ref 5 ''k'' ''hello'' [] (demo_ac 2) [] = (e, c1, d1)" by (rule prod_cases3)
  show ?thesis
    using ac_roundtrip [OF ac_ref_law jv_ref_law gz_ref_law TrueI _ _ s, of 9 "demo_ac 100" "''j''"]
      ac_roundtrip [OF ac_ref_law jv_ref_law gz_ref_law TrueI _ _ s, of "5 + hour" "demo_ac 100" "''j''"]
    by (intro exI [of _ d1]) (simp add: hour_def second_def)
qed

section \<open>Batches\<close>

lemma run_gets:
  assumes "ac_law glob R up val" "up d"
  shows "\<exists>d'. ac_run R now (map PGet ks) d = (map (\<lambda>k. case val now d k of None \<Rightarrow> Inl RedisNil | Some b \<Rightarrow> Inr b) ks, d') \<and>
    up d' \<and> (\<forall>t \<ge> now. val t d' = val t d)"
  using assms(2)
proof (induction ks arbitrary: d)
  case (Cons k ks)
  obtain d1 where d1: "ra_Get R now k d = (case val now d k of None \<Rightarrow> Inl RedisNil | Some b \<Rightarrow> Inr b, d1)" "up d1"
    "\<And>t. now \<le> t \<Longrightarrow> val t d1 = val t d"
    by (rule ac_law_get [where now = now and k = k, OF assms(1) Cons.prems]) blast
  obtain d' where "ac_run R now (map PGet ks) d1 = (map (\<lambda>k. case val now d1 k of None \<Rightarrow> Inl RedisNil | Some b \<Rightarrow> Inr b) ks, d')"
    "up d'" "\<forall>t \<ge> now. val t d' = val t d1" using Cons.IH [OF d1(2)] by blast
  then show ?case using d1 by simp
qed simp

lemma exec_err_gets: "exec_err (map (\<lambda>k. case f k of None \<Rightarrow> Inl RedisNil | Some b \<Rightarrow> Inr b) ks) \<in> {None, Some RedisNil}"
  by (induction ks) (auto split: option.split)

definition found_value :: "'a option go_result \<Rightarrow> 'a option" where
  "found_value r = (case r of Inr (Some v) \<Rightarrow> Some v | _ \<Rightarrow> None)"

lemma found_value_simps [simp]: "found_value (Inr x) = x" "found_value (Inl err) = None"
  by (simp_all add: found_value_def split: option.split)

lemma collect_gets:
  "\<exists>m c1. ac_collect J Z (zip ks (map (\<lambda>k. case f k of None \<Rightarrow> Inl RedisNil | Some b \<Rightarrow> Inr b) ks)) result c = (Inr m, c1) \<and>
     (\<forall>k. map_of m k = (if k \<in> set ks \<and> found_value (ac_answer J Z (plainly c) (f k)) \<noteq> None
        then found_value (ac_answer J Z (plainly c) (f k)) else map_of result k))"
proof (induction ks arbitrary: result c)
  case (Cons k ks)
  show ?case
  proof (cases "f k")
    case None
    then show ?thesis using Cons.IH [of result c] by auto
  next
    case (Some data)
    obtain c1 where c1: "ac_decompress Z data c = (Inr (unzipped Z (plainly c) data), c1)"
      using ac_decompress_unzipped [of Z data c] by (metis prod.collapse)
    have p: "plainly c1 = plainly c" using ac_decompress_config [OF c1] by simp
    show ?thesis
    proof (cases "jv_Unmarshal J (unzipped Z (plainly c) data)")
      case (Inl err)
      then have "found_value (ac_answer J Z (plainly c) (f k)) = None" using Some by (simp add: ac_answer_def)
      then show ?thesis using Cons.IH [of result c1] Some c1 Inl p by auto
    next
      case (Inr v)
      then have "found_value (ac_answer J Z (plainly c) (f k)) = Some v" using Some by (simp add: ac_answer_def)
      then show ?thesis using Cons.IH [of "AList.update k v result" c1] Some c1 Inr p by (auto simp: update_conv')
    qed
  qed
qed simp

lemma run_sets:
  assumes "ac_law glob R up val" "jv_law J" "gz_law Z" "0 < ttl" "ttl mod second = 0" "up d" "distinct (keys_of items)"
  shows "\<exists>cmds c1 rs d'. ac_batch_cmds J Z ttl items c = (cmds, c1) \<and> ac_run R now cmds d = (rs, d') \<and> exec_err rs = None \<and> up d' \<and>
    (\<forall>t k b. now \<le> t \<longrightarrow> (b \<longrightarrow> plainly c) \<longrightarrow> ac_answer J Z b (val t d' (ac_key c k)) =
       (case map_of items k of None \<Rightarrow> ac_answer J Z b (val t d (ac_key c k)) | Some v \<Rightarrow> Inr (if t < now + ttl then Some v else None)))"
  using assms(6,7)
proof (induction items arbitrary: c d)
  case (Cons kv items)
  obtain key v where kv: "kv = (key, v)" by (cases kv)
  obtain s z c1 where e: "jv_Marshal J v = Inr s" "ac_compress Z s c = (Inr z, c1)" "ac_config c1 = ac_config c"
    "\<And>b. \<not> b \<or> plainly c \<Longrightarrow> ac_answer J Z b (Some z) = Inr (Some v)"
    by (rule ac_encode [where v = v and c = c, OF assms(2,3)]) blast
  obtain d1 where d1: "ra_SetEx R now (ac_key c key) z ttl d = (None, d1)" "up d1"
    "\<And>t. now \<le> t \<Longrightarrow> val t d1 = (val t d)(ac_key c key := if t < now + ttl then Some z else None)"
    by (rule ac_law_set [where now = now and k = "ac_key c key" and b = z, OF assms(1) Cons.prems(1) assms(4,5)]) blast
  have c: "ac_key c1 = ac_key c" "plainly c1 = plainly c" using e(3) by (simp_all add: ac_key_def fun_eq_iff)
  obtain cmds c2 rs d' where ih: "ac_batch_cmds J Z ttl items c1 = (cmds, c2)" "ac_run R now cmds d1 = (rs, d')" "exec_err rs = None" "up d'"
    "\<forall>t k b. now \<le> t \<longrightarrow> (b \<longrightarrow> plainly c) \<longrightarrow> ac_answer J Z b (val t d' (ac_key c k)) =
       (case map_of items k of None \<Rightarrow> ac_answer J Z b (val t d1 (ac_key c k)) | Some v \<Rightarrow> Inr (if t < now + ttl then Some v else None))"
    using Cons.IH [OF d1(2), of c1] Cons.prems(2) unfolding c by auto
  have new: "map_of items key = None" using Cons.prems(2) kv by (simp add: map_of_eq_None_iff)
  have "ac_answer J Z b (val t d' (ac_key c k)) =
      (case map_of (kv # items) k of None \<Rightarrow> ac_answer J Z b (val t d (ac_key c k)) | Some v \<Rightarrow> Inr (if t < now + ttl then Some v else None))"
    if "now \<le> t" "b \<longrightarrow> plainly c" for t k b
    using ih(5) [rule_format, OF that(1), of b k] that new e(4) [of b] d1(3) [OF that(1)]
    by (auto simp: kv ac_key_inj split: option.split)
  then show ?case using ih kv e(1,2) d1(1) c(1) by simp
qed simp

text \<open>
  C21: Batches of \<open>AdvancedCache\<close>. What \<open>BatchSet\<close> wrote is read back by \<open>BatchGet\<close> until its deadline, in
  any order and selection of the keys, compressed or not, by every cache of the namespace that looks for
  compressed data or if none is written; every other key gets what a single \<open>Get\<close> found before, and keys
  without a value are left out.
\<close>
theorem ac_batch_roundtrip:
  assumes "ac_law glob R up val" "jv_law J" "gz_law Z" "up d" "distinct (keys_of items)" "0 < ac_ttl ttl c" "ac_ttl ttl c mod second = 0"
    and "ac_BatchSet J Z R now items ttl c d = (e, c1, d1)" "now \<le> t"
    and "acc_Namespace (ac_config c') = acc_Namespace (ac_config c)" "plainly c' \<longrightarrow> plainly c"
  shows "e = None \<and> (\<exists>m. fst (ac_BatchGet J Z R t keys c' d1) = Inr m \<and>
    (\<forall>k. map_of m k = (if k \<notin> set keys then None
       else (case map_of items k of
               Some v \<Rightarrow> if t < now + ac_ttl ttl c then Some v else None
             | None \<Rightarrow> found_value (fst (ac_Get J Z R t k c' d))))))"
proof -
  note keys = ac_key_inj [OF assms(10)]
  have k: "ac_key c' = ac_key c" using assms(10) by (simp add: ac_key_def fun_eq_iff)
  have set: "e = None \<and> up d1 \<and> (\<forall>k. ac_answer J Z (plainly c') (val t d1 (ac_key c k)) =
       (case map_of items k of None \<Rightarrow> ac_answer J Z (plainly c') (val t d (ac_key c k))
        | Some v \<Rightarrow> Inr (if t < now + ac_ttl ttl c then Some v else None)))"
  proof (cases "items = []")
    case False
    obtain cmds c2 rs d' where r: "ac_batch_cmds J Z (ac_ttl ttl c) items c = (cmds, c2)" "ac_run R now cmds d = (rs, d')"
      "exec_err rs = None" "up d'"
      "\<forall>t k b. now \<le> t \<longrightarrow> (b \<longrightarrow> plainly c) \<longrightarrow> ac_answer J Z b (val t d' (ac_key c k)) =
         (case map_of items k of None \<Rightarrow> ac_answer J Z b (val t d (ac_key c k))
          | Some v \<Rightarrow> Inr (if t < now + ac_ttl ttl c then Some v else None))"
      using run_sets [OF assms(1,2,3,6,7,4,5), of c now] by blast
    have "ra_Exec R now cmds d = (rs, d')" using assms(1,4) r(2) by (simp add: ac_law_def ac_exec_law_def)
    then have "e = None" "d1 = d'" using assms(8) False r(1,3) by (auto simp: ac_BatchSet_def)
    then show ?thesis using r(4,5) assms(9,11) by simp
  qed (use assms(4,8) in \<open>simp add: ac_BatchSet_def\<close>)
  obtain d2 where d2: "ac_run R t (map PGet (map (ac_key c') keys)) d1 =
      (map (\<lambda>k. case val t d1 k of None \<Rightarrow> Inl RedisNil | Some b \<Rightarrow> Inr b) (map (ac_key c') keys), d2)"
    using run_gets [OF assms(1) set [THEN conjunct2, THEN conjunct1]] by blast
  have x: "ra_Exec R t (map (\<lambda>k. PGet (ac_key c' k)) keys) d1 =
      (map (\<lambda>k. case val t d1 (ac_key c' k) of None \<Rightarrow> Inl RedisNil | Some b \<Rightarrow> Inr b) keys, d2)"
    using assms(1) set d2 by (simp add: ac_law_def ac_exec_law_def o_def)
  obtain m c2 where m: "ac_collect J Z (zip keys (map (\<lambda>k. case val t d1 (ac_key c' k) of None \<Rightarrow> Inl RedisNil | Some b \<Rightarrow> Inr b) keys)) [] c' =
      (Inr m, c2)" "\<forall>k. map_of m k = (if k \<in> set keys \<and> found_value (ac_answer J Z (plainly c') (val t d1 (ac_key c' k))) \<noteq> None
        then found_value (ac_answer J Z (plainly c') (val t d1 (ac_key c' k))) else None)"
    using collect_gets [of J Z keys "\<lambda>k. val t d1 (ac_key c' k)" "[]" c'] by auto
  have "fst (ac_BatchGet J Z R t keys c' d1) = Inr m"
    using x m(1) exec_err_gets [of "\<lambda>k. val t d1 (ac_key c' k)" keys]
    by (cases "keys = []") (auto simp: ac_BatchGet_def split: option.split)
  moreover have "map_of m k = (if k \<notin> set keys then None
       else (case map_of items k of
               Some v \<Rightarrow> if t < now + ac_ttl ttl c then Some v else None
             | None \<Rightarrow> found_value (fst (ac_Get J Z R t k c' d))))" for k
    using m(2) set k ac_Get_fst [OF assms(1,4), of J Z t k c'] by (auto split: option.split)
  ultimately show ?thesis using set by blast
qed

lemma ac_batch_roundtrip_witness:
  "\<exists>d m. fst (ac_BatchGet jv_ref gz_ref ac_ref 9 [''b'', ''x'', ''a'', ''b''] (demo_ac 100) d) = Inr m \<and>
     map_of m ''a'' = Some ''one'' \<and> map_of m ''b'' = Some ''two'' \<and> map_of m ''c'' = None"
proof -
  obtain e c1 d1 where s: "ac_BatchSet jv_ref gz_ref ac_ref 5 [(''a'', ''one''), (''b'', ''two''), (''c'', [])] [] (demo_ac 2) [] = (e, c1, d1)"
    by (rule prod_cases3)
  show ?thesis
    using ac_batch_roundtrip [OF ac_ref_law jv_ref_law gz_ref_law TrueI _ _ _ s, of 9 "demo_ac 100" "[''b'', ''x'', ''a'', ''b'']"]
    by (intro exI [of _ d1]) (auto simp: hour_def second_def)
qed

section \<open>Clearing\<close>

lemma has_prefix_append: "has_prefix p k \<longleftrightarrow> (\<exists>s. k = p @ s)"
  unfolding has_prefix_def by (metis append_eq_conv_conj append_take_drop_id)

lemma ac_key_trim: "has_prefix (ac_key c p) k \<Longrightarrow> ac_key c (trim_prefix (acc_Namespace (ac_config c) @ '':'') k) = k"
  by (auto simp: has_prefix_append ac_key_def trim_prefix_def)

lemma clear_prefix:
  assumes "ac_law glob R up val" "glob_law glob" "up d" "plain_text (acc_Namespace (ac_config c))" "plain_text p" "now1 \<le> now2" "now2 \<le> t"
    and "ac_Clear R now1 now2 (p @ ''*'') c d = (e, c1, d1)"
  shows "e = None \<and> up d1 \<and> val t d1 = (\<lambda>k. if has_prefix (ac_key c p) k then None else val t d k)"
proof -
  let ?trim = "trim_prefix (acc_Namespace (ac_config c) @ '':'')"
  have pat: "ac_key c (p @ ''*'') = ac_key c p @ ''*''" by (simp add: ac_key_def)
  have "plain_text (ac_key c p)" using assms(4,5) by (simp add: plain_text_def ac_key_def)
  then have glob: "glob (ac_key c p @ ''*'') k = has_prefix (ac_key c p) k" for k using assms(2) by (simp add: glob_law_def)
  obtain ks d2 where ks: "ra_Keys R now1 (ac_key c (p @ ''*'')) d = (Inr ks, d2)"
    "set ks = {k. val now1 d k \<noteq> None \<and> has_prefix (ac_key c p) k}" "up d2" "\<And>t. now1 \<le> t \<Longrightarrow> val t d2 = val t d"
    by (rule ac_law_keys [where now = now1 and pat = "ac_key c (p @ ''*'')", OF assms(1,3)]) (unfold pat glob, blast)
  have all: "map (ac_key c) (map ?trim ks) = ks" using ks(2) by (auto intro!: map_idI simp: ac_key_trim)
  have gone: "val t d k = None" if "k \<notin> set ks" "has_prefix (ac_key c p) k" for k
    using that ks(2) assms(1,6,7) unfolding ac_law_def ac_value_law_def
    by (metis (mono_tags, lifting) mem_Collect_eq order_trans)
  have keys: "ac_Keys R now1 (p @ ''*'') c d = (Inr (map ?trim ks), d2)" using ks(1) by (simp add: ac_Keys_def)
  show ?thesis
  proof (cases "ks = []")
    case True
    then have "e = None" "d1 = d2" using assms(8) keys by (simp_all add: ac_Clear_def)
    then show ?thesis using gone ks(3) ks(4) [of t] assms(6,7) True by (auto simp: fun_eq_iff)
  next
    case False
    obtain d3 where d3: "ra_Del R now2 ks d2 = (None, d3)" "up d3"
      "\<And>t. now2 \<le> t \<Longrightarrow> val t d3 = (\<lambda>k. if k \<in> set ks then None else val t d2 k)"
      by (rule ac_law_del [where now = now2 and ks = ks, OF assms(1) ks(3)]) blast
    have "e = None" "d1 = d3" using assms(8) keys d3(1) False all by (simp_all add: ac_Clear_def ac_Delete_def)
    then show ?thesis using gone ks(2) ks(4) [of t] d3(2) d3(3) [OF assms(7)] assms(6,7) by (auto simp: fun_eq_iff)
  qed
qed

text \<open>
  Clearing a prefix. \<open>Clear\<close> with a pattern of plain characters and a star removes exactly the keys of
  the namespace that begin with it, whatever else is on the server.
\<close>
theorem ac_clear_exact:
  assumes "ac_law glob R up val" "glob_law glob" "up d" "plain_text (acc_Namespace (ac_config c))" "plain_text p" "now1 \<le> now2" "now2 \<le> t"
    and "ac_Clear R now1 now2 (p @ ''*'') c d = (e, c1, d1)"
  shows "e = None \<and> up d1 \<and> val t d1 = (\<lambda>k. if has_prefix (ac_key c p) k then None else val t d k)"
  using assms by (rule clear_prefix)

lemma ac_clear_exact_witness:
  "\<exists>d. ac_value 9 d ''ns:user:1'' = None \<and> ac_value 9 d ''ns:item:1'' = Some ''i'' \<and> ac_value 9 d ''user:2'' = Some ''o''"
proof -
  let ?d = "[(''ns:user:1'', ''u'', Some 20), (''ns:item:1'', ''i'', Some 20), (''user:2'', ''o'', Some 20)]"
  obtain e c1 d1 where s: "ac_Clear ac_ref 5 6 (''user:'' @ ''*'') (demo_ac 2) ?d = (e, c1, d1)" by (rule prod_cases3)
  show ?thesis
    using ac_clear_exact [OF ac_ref_law glob_ref_law TrueI _ _ _ _ s, of 9]
    by (intro exI [of _ d1]) (simp add: plain_text_def ac_value_def has_prefix_def ac_key_def)
qed

section \<open>Two calls of GetOrSet\<close>

text \<open>Reading a value leaves the leases alone, and of the commands of a lock only \<open>SETNX\<close> changes a value,
  that of its own key: cache and locks share one key space.\<close>

definition ac_apart :: "'d redis_ac \<Rightarrow> 'd redis_lock \<Rightarrow> (time \<Rightarrow> 'd \<Rightarrow> string \<Rightarrow> string option) \<Rightarrow> ('d \<Rightarrow> string \<Rightarrow> lease) \<Rightarrow> bool" where
  "ac_apart R LK val lease \<longleftrightarrow>
     (\<forall>now k d. lease (snd (ra_Get R now k d)) = lease d) \<and>
     (\<forall>now k d t. now \<le> t \<longrightarrow> val t (snd (lk_Get LK now k d)) = val t d) \<and>
     (\<forall>now k v ttl d t k'. now \<le> t \<longrightarrow> k' \<noteq> k \<longrightarrow> val t (snd (lk_SetNX LK now k v ttl d)) k' = val t d k')"

lemma ac_Get_miss:
  assumes "ac_law glob R up val" "up d" "val now d (ac_key c key) = None" "ac_apart R LK val lease"
  obtains c' d' where "ac_Get J Z R now key c d = (Inr None, c', d')" "up d'" "\<And>t. now \<le> t \<Longrightarrow> val t d' = val t d" "lease d' = lease d"
    "ac_config c' = ac_config c" "ac_lockMgr c' = ac_lockMgr c"
proof -
  obtain c' d' where g: "ac_Get J Z R now key c d = (ac_answer J Z (plainly c) (val now d (ac_key c key)), c', d')"
    "up d'" "\<And>t. now \<le> t \<Longrightarrow> val t d' = val t d" "ac_config c' = ac_config c" "ac_lockMgr c' = ac_lockMgr c"
    "d' = snd (ra_Get R now (ac_key c key) d)"
    by (rule ac_Get_up [where now = now and key = key and c = c and J = J and Z = Z, OF assms(1,2)]) blast
  then show thesis using that [of c' d'] assms(3,4) by (simp add: ac_apart_def)
qed

text \<open>The first attempt takes a free key, and the next one finds the lock already taken, by the same object.\<close>

lemma lock_first:
  assumes "lock_law LK lease" "lock_up LK lease up" "up d" "whole_ms (lkc_TTL (dl_config l))" "0 < lkc_RetryInterval (dl_config l)"
    and "\<not> dl_acquired l" "at_between a = id" "live (at_set a) (lease d (dl_key l)) = None"
  obtains l' d' where "dl_Lock LK ctx (a # as) l d = (Some None, l', d')" "dl_acquired l'" "dl_token l' = at_token a" "dl_fixed l' = dl_fixed l"
    "lease d' = (lease d)(dl_key l \<mapsto> (at_token a, Some (at_set a + lkc_TTL (dl_config l))))" "up d'"
    "d' = snd (lk_SetNX LK (at_set a) (dl_key l) (at_token a) (lkc_TTL (dl_config l)) d)"
proof -
  obtain r l' d' where t: "dl_take LK (at_token a) (at_set a) (at_here a) ctx l d = (r, l', d')" by (rule prod_cases3)
  have r: "r = Inr True" using up_take [OF assms(1,2,3,4,8), of "at_token a" "at_here a" ctx] t by simp
  have e: "d' = snd (lk_SetNX LK (at_set a) (dl_key l) (at_token a) (lkc_TTL (dl_config l)) d)"
    using t by (auto simp: dl_take_def Let_def split: prod.splits sum.splits bool.splits)
  have "up d'" unfolding e using assms(2,3) by (simp add: lock_up_def up_writes_def)
  moreover have "dl_Lock LK ctx (a # as) l d = (Some None, l', d')"
    using assms(5,6,7) t r by (simp add: dl_Lock_def TryLock_def dl_check_def)
  ultimately show thesis using that [of l' d'] take_true [OF assms(1,4) t [unfolded r]] e by simp
qed

lemma lock_again:
  assumes "lock_law LK lease" "lock_up LK lease up" "up d" "0 < lkc_RetryInterval (dl_config l)" "dl_acquired l"
    and "live (at_get b) (lease d (dl_key l)) = Some (dl_token l, dl)"
  obtains d' where "dl_Lock LK ctx (b # bs) l d = (Some None, l, d')" "up d'" "d' = snd (lk_Get LK (at_get b) (dl_key l) d)"
proof -
  obtain d' where g: "lk_Get LK (at_get b) (dl_key l) d =
      (case live (at_get b) (lease d (dl_key l)) of None \<Rightarrow> Inl RedisNil | Some (v, _) \<Rightarrow> Inr v, d')" "up d'" "lease d' = lease d"
    by (rule up_Get [where now = "at_get b" and k = "dl_key l", OF assms(1-3)]) blast
  have r: "lk_Get LK (at_get b) (dl_key l) d = (Inr (dl_token l), d')" using g(1) assms(6) by simp
  have "dl_Lock LK ctx (b # bs) l d = (Some None, l, d')" using assms(4,5) r by (simp add: dl_Lock_def TryLock_def dl_check_def)
  then show thesis by (rule that [OF _ g(2)]) (simp add: r)
qed

text \<open>
  C38: A defect of \<open>GetOrSet\<close>. Its lock is to keep a missing value from being computed twice. But all calls
  of a cache for the key share one lock object, and locking an object that holds its lock succeeds: while
  the first call runs its function, a second call of the same process, whose first attempt comes before
  the lease ends, gets the same lock and runs its function as well. The server answers, keeps values and
  locks in one key space, and the key of the lock is not the key of the value.
\<close>
theorem ac_stampede:
  assumes "mathx_laws X" "ac_law glob R up val" "lock_law LK lease" "lock_up LK lease up" "ac_apart R LK val lease" "up d"
    and "L = lock_defaults X (lm_config (ac_lockMgr c))" "whole_ms (lkc_TTL L)" "0 < lkc_RetryInterval L"
    and "map_of (lm_locks (ac_lockMgr c)) (''getorset:'' @ key) = None"
    and "ge_attempts E = a # as" "at_between a = id" "ge_attempts E' = b # bs" "at_get b < at_set a + lkc_TTL L"
    and "live (at_set a) (lease d (lkc_Namespace L @ '':getorset:'' @ key)) = None"
    and "val (ge_get1 E) d (ac_key c key) = None" "lkc_Namespace L @ '':getorset:'' @ key \<noteq> ac_key c key"
    and "ge_get1 E \<le> ge_get2 E" "ge_get2 E \<le> ge_get1 E'" "ge_get1 E' \<le> ge_get2 E'" "at_set a \<le> ge_get2 E" "at_get b \<le> ge_get2 E'"
  shows "\<exists>p c1 d1 c2 d2. ac_enter X J Z R LK E key c d = (GsCall (Some p), c1, d1) \<and>
    ac_enter X J Z R LK E' key c1 d1 = (GsCall (Some p), c2, d2)"
proof -
  let ?k = "ac_key c key" and ?name = "''getorset:'' @ key" and ?p = "length (lm_heap (ac_lockMgr c))"
  define l0 :: "'a DistributedLock" where "l0 = NewDistributedLock X ?name (lm_config (ac_lockMgr c))"
  have l0: "dl_config l0 = L" "dl_key l0 = lkc_Namespace L @ '':getorset:'' @ key" "\<not> dl_acquired l0"
    by (simp_all add: l0_def NewDistributedLock_def Let_def assms(7))
  have none: "val t d ?k = None" if "ge_get1 E \<le> t" for t
    using assms(2,16) that unfolding ac_law_def ac_value_law_def by blast
  have time: "ge_get1 E \<le> ge_get1 E'" "ge_get1 E \<le> ge_get2 E'" using assms(18-20) by simp_all
  obtain c1 d1 where g1: "ac_Get J Z R (ge_get1 E) key c d = (Inr None, c1, d1)" "up d1" "\<And>t. ge_get1 E \<le> t \<Longrightarrow> val t d1 = val t d"
    "lease d1 = lease d" "ac_config c1 = ac_config c" "ac_lockMgr c1 = ac_lockMgr c"
    by (rule ac_Get_miss [where J = J and Z = Z, OF assms(2,6,16,5)]) blast
  obtain l1 d2 where k1: "dl_Lock LK (ge_ctx E) (a # as) l0 d1 = (Some None, l1, d2)" "dl_acquired l1" "dl_token l1 = at_token a" "dl_fixed l1 = dl_fixed l0"
    "lease d2 = (lease d1)(dl_key l0 \<mapsto> (at_token a, Some (at_set a + lkc_TTL (dl_config l0))))" "up d2"
    "d2 = snd (lk_SetNX LK (at_set a) (dl_key l0) (at_token a) (lkc_TTL (dl_config l0)) d1)"
    by (rule lock_first [where l = l0 and a = a and as = as and ctx = "ge_ctx E", OF assms(3,4) g1(2)])
      (use assms(8,9,12,15) l0 g1(4) in \<open>simp, simp, simp, simp, simp, blast\<close>)
  define c2 where "c2 = ac_lock_at ?p l1 (c1\<lparr>ac_lockMgr := (ac_lockMgr c)\<lparr>lm_heap := lm_heap (ac_lockMgr c) @ [l0],
      lm_locks := AList.update ?name ?p (lm_locks (ac_lockMgr c))\<rparr>\<rparr>)"
  have c2: "ac_config c2 = ac_config c" "lm_locks (ac_lockMgr c2) = AList.update ?name ?p (lm_locks (ac_lockMgr c))" "lm_heap (ac_lockMgr c2) ! ?p = l1"
    using g1(5) by (simp_all add: c2_def ac_lock_at_def)
  have v2: "val t d2 ?k = val t d ?k" if "ge_get2 E \<le> t" for t
  proof -
    have t: "ge_get1 E \<le> t" "at_set a \<le> t" using that assms(18,21) by simp_all
    have "val t d2 ?k = val t d1 ?k" using assms(5,17) k1(7) l0(2) t(2) by (simp add: ac_apart_def)
    with g1(3) [OF t(1)] show ?thesis by simp
  qed
  have n2: "val (ge_get2 E) d2 (ac_key c2 key) = None"
    using none v2 assms(18) c2(1) by (simp add: ac_key_def)
  obtain c3 d3 where g3: "ac_Get J Z R (ge_get2 E) key c2 d2 = (Inr None, c3, d3)" "up d3" "\<And>t. ge_get2 E \<le> t \<Longrightarrow> val t d3 = val t d2"
    "lease d3 = lease d2" "ac_config c3 = ac_config c2" "ac_lockMgr c3 = ac_lockMgr c2"
    by (rule ac_Get_miss [where J = J and Z = Z, OF assms(2) k1(6) n2 assms(5)]) blast
  have first: "ac_enter X J Z R LK E key c d = (GsCall (Some ?p), c3, d3)"
    using g1(1,6) assms(10,11) k1(1) g3(1) by (simp add: ac_enter_def GetLock_def Let_def c2_def l0_def)
  have v3: "val t d3 ?k = val t d ?k" if "ge_get2 E \<le> t" for t using g3(3) [OF that] v2 [OF that] by simp
  have n3: "val (ge_get1 E') d3 (ac_key c3 key) = None"
    using none v3 assms(19) time g3(5) c2(1) by (simp add: ac_key_def)
  obtain c4 d4 where g4: "ac_Get J Z R (ge_get1 E') key c3 d3 = (Inr None, c4, d4)" "up d4" "\<And>t. ge_get1 E' \<le> t \<Longrightarrow> val t d4 = val t d3"
    "lease d4 = lease d3" "ac_config c4 = ac_config c3" "ac_lockMgr c4 = ac_lockMgr c3"
    by (rule ac_Get_miss [where J = J and Z = Z, OF assms(2) g3(2) n3 assms(5)]) blast
  have fixed: "dl_config l1 = L" "dl_key l1 = dl_key l0" using k1(4) l0(1) by (simp_all add: dl_fixed_def)
  have held: "live (at_get b) (lease d4 (dl_key l1)) = Some (dl_token l1, Some (at_set a + lkc_TTL L))"
    using g4(4) g3(4) k1(3,5) l0(1) fixed assms(14) by simp
  obtain d5 where k5: "dl_Lock LK (ge_ctx E') (b # bs) l1 d4 = (Some None, l1, d5)" "up d5" "d5 = snd (lk_Get LK (at_get b) (dl_key l1) d4)"
    by (rule lock_again [where b = b and bs = bs and ctx = "ge_ctx E'", OF assms(3,4) g4(2) _ k1(2) held]) (use assms(9) fixed in \<open>simp, blast\<close>)
  have "(ac_lockMgr c4)\<lparr>lm_heap := (lm_heap (ac_lockMgr c4))[?p := l1]\<rparr> = ac_lockMgr c4"
    using g4(6) g3(6) c2(3) by (metis LockManager.surjective LockManager.update_convs(3) list_update_id)
  then have heap: "ac_lock_at ?p l1 (c4\<lparr>ac_lockMgr := ac_lockMgr c4\<rparr>) = c4" by (simp add: ac_lock_at_def)
  have "val (ge_get2 E') d5 (ac_key c4 key) = None"
    using none v3 time assms(19,20,22) g4(3,5) g3(5) c2(1) k5(3) assms(5) by (simp add: ac_key_def ac_apart_def)
  then obtain c6 d6 where g6: "ac_Get J Z R (ge_get2 E') key c4 d5 = (Inr None, c6, d6)"
    by (rule ac_Get_miss [where J = J and Z = Z, OF assms(2) k5(2) _ assms(5)])
  have "ac_enter X J Z R LK E' key c3 d3 = (GsCall (Some ?p), c6, d6)"
    using g4(1,6) g3(6) c2(2,3) assms(13) k5(1) g6 heap by (simp add: ac_enter_def GetLock_def Let_def update_conv')
  then show ?thesis using first by blast
qed

lemma ac_apart_ref: "ac_apart ac_ref lk_ref ac_value map_of"
  by (simp add: ac_apart_def ac_ref_def ac_ref_plain_def lk_ref_def ac_value_def update_conv')

definition demo_attempt :: "time \<Rightarrow> string \<Rightarrow> lock_store attempt" where
  "demo_attempt t token = \<lparr>at_token = token, at_get = t + 1, at_between = id, at_set = t + 2, at_here = t + 2, at_wait = id, at_done = None\<rparr>"

definition demo_getset :: "time \<Rightarrow> string \<Rightarrow> lock_store getset_env" where
  "demo_getset t token = \<lparr>ge_get1 = t, ge_ctx = 0, ge_attempts = [demo_attempt t token],
     ge_get2 = t + 3, ge_watch = Pair, ge_set = t + 4, ge_unlock = t + 5\<rparr>"

lemma ac_stampede_witness:
  "\<exists>p c1 d1 c2 d2. ac_enter mathx_ref jv_ref gz_ref ac_ref lk_ref (demo_getset 10 ''t1'') ''k'' (demo_ac 2) [] =
      (GsCall (Some p), c1, d1) \<and>
    ac_enter mathx_ref jv_ref gz_ref ac_ref lk_ref (demo_getset 20 ''t2'') ''k'' c1 d1 = (GsCall (Some p), c2, d2)"
proof -
  define L where "L = lock_defaults mathx_ref (lm_config (ac_lockMgr (demo_ac 2 :: (unit, lock_store) AdvancedCache)))"
  have L: "lkc_TTL L = minutes 5" "lkc_RetryInterval L = 100 * millisecond" "lkc_Namespace L = ''ns''"
    by (simp_all add: L_def demo_ac_def NewAdvancedCache_def NewLockManager_def lock_defaults_def Let_def mathx_ref_def minutes_def
      WithLockTTL_def WithLockRetryInterval_def WithLockMaxRetries_def WithLockNamespace_def WithLockWatchdog_def
      WithLockWatchdogInterval_def millisecond_def)
  have locks: "lm_locks (ac_lockMgr (demo_ac 2)) = []"
    by (simp add: demo_ac_def NewAdvancedCache_def NewLockManager_def Let_def)
  show ?thesis
    by (rule ac_stampede [where a = "demo_attempt 10 ''t1''" and as = "[]" and b = "demo_attempt 20 ''t2''" and bs = "[]",
          OF mathx_ref_laws ac_ref_law lk_ref_law lk_ref_up ac_apart_ref TrueI L_def])
      (simp_all add: L locks demo_getset_def demo_attempt_def whole_ms_def minutes_def millisecond_def ac_value_def ac_key_def)
qed

end
