(* ===== verification/Multi_Level_Correct.thy ===== *)
theory Multi_Level_Correct
  imports Multi_Level Advanced_Cache_Correct Lru_Optimized_Props
begin

text \<open>
  Correctness of \<open>MultiLevelCache\<close>: a value that was set is read back from one level or the other, and the
  second deletion of \<open>CacheAside\<close> makes the next read go to the database, whatever was cached in between.
  And a defect of \<open>Clear\<close>, which leaves L2 as it was.
\<close>

section \<open>The invariant\<close>

definition ml_ok :: "('p, 'd) MultiLevelCache \<Rightarrow> bool" where
  "ml_ok m \<longleftrightarrow> opt_inv (ml_l1 m) \<and> \<not> opt_closed (ml_l1 m) \<and> acc_Namespace (ac_config (ml_l2 m)) = mlc_Namespace (ml_config m)"

lemma record_simps [simp]:
  "ml_l1 (recordL1Hit m) = ml_l1 m" "ml_l1 (recordL2Hit m) = ml_l1 m" "ml_l1 (recordMiss m) = ml_l1 m"
  "ml_l1 (recordL1Set m) = ml_l1 m" "ml_l1 (recordL2Set m) = ml_l1 m"
  "ml_l2 (recordL1Hit m) = ml_l2 m" "ml_l2 (recordL2Hit m) = ml_l2 m" "ml_l2 (recordMiss m) = ml_l2 m"
  "ml_l2 (recordL1Set m) = ml_l2 m" "ml_l2 (recordL2Set m) = ml_l2 m"
  "ml_config (recordL1Hit m) = ml_config m" "ml_config (recordL2Hit m) = ml_config m" "ml_config (recordMiss m) = ml_config m"
  "ml_config (recordL1Set m) = ml_config m" "ml_config (recordL2Set m) = ml_config m"
  by (simp_all add: recordL1Hit_def recordL2Hit_def recordMiss_def recordL1Set_def recordL2Set_def)

lemma record_ok [simp]:
  "ml_ok (recordL1Hit m) = ml_ok m" "ml_ok (recordL2Hit m) = ml_ok m" "ml_ok (recordMiss m) = ml_ok m"
  "ml_ok (recordL1Set m) = ml_ok m" "ml_ok (recordL2Set m) = ml_ok m"
  by (simp_all add: ml_ok_def)

lemma ml_new_ok:
  assumes "mathx_laws X" "mlc_L1Size cfg + 256 \<le> max_int64"
  obtains m where "NewMultiLevelCache X g cfg = Some m" "ml_ok m"
proof -
  let ?n = "if mlc_L1Size cfg \<le> 0 then 1000 else mlc_L1Size cfg"
  have "ifLeZero_law (IfLeZero X)" using assms(1) by (simp add: mathx_laws_def)
  moreover have "?n + 256 \<le> max_int64" using assms(2) by (auto simp: max_int64_def)
  ultimately obtain h where h: "NewLRUOptimizedHandler (IfLeZero X) g ?n = Some h" "opt_inv h" "\<not> opt_closed h"
    using opt_new_ok by blast
  have "IfLeZero X (mlc_L1Size cfg) 1000 = ?n" using mathx_lawsD(4) [OF assms(1)] by simp
  then have "\<exists>m. NewMultiLevelCache X g cfg = Some m \<and> ml_ok m"
    using h mathx_lawsD(2) [OF assms(1)] by (simp add: NewMultiLevelCache_def Let_def ml_ok_def NewAdvancedCache_def)
  then show thesis using that by blast
qed

lemma ml_new_config:
  assumes "NewMultiLevelCache X g cfg = Some m"
  shows "mlc_Namespace (ml_config m) = IfNotEmpty X (mlc_Namespace cfg) ''mlc''" "mlc_L1TTL (ml_config m) = IfLeZero X (mlc_L1TTL cfg) (minutes 5)"
    "mlc_L2TTL (ml_config m) = IfLeZero X (mlc_L2TTL cfg) hour"
    "acc_Compression (ac_config (ml_l2 m)) = (if mlc_EnableCompression cfg then CompressionGzip else CompressionNone)"
  using assms by (auto simp: NewMultiLevelCache_def Let_def NewAdvancedCache_def)

lemma put_l1_simps [simp]:
  "ml_l2 (ml_put_l1 pick now key data m) = ml_l2 m" "ml_config (ml_put_l1 pick now key data m) = ml_config m"
  by (simp_all add: ml_put_l1_def)

text \<open>A value put into L1 is there or was not kept; an old one is gone.\<close>

lemma put_l1:
  assumes "ml_ok m" "ttl_ok now (mlc_L1TTL (ml_config m))"
  shows "ml_ok (ml_put_l1 pick now key data m)"
    "now \<le> t \<Longrightarrow> opt_view t (ml_l1 (ml_put_l1 pick now key data m)) (to_bytes key) \<in> {None, Some (Some (to_bytes data))}"
proof -
  have i: "opt_inv (ml_l1 m)" "\<not> opt_closed (ml_l1 m)" "-1 \<le> mlc_L1TTL (ml_config m)"
    using assms by (simp_all add: ml_ok_def ttl_ok_def)
  show "ml_ok (ml_put_l1 pick now key data m)"
    using assms(1) opt_set_view(2) [OF i] by (simp add: ml_ok_def ml_put_l1_def opt_SetWithTTL_def)
  show "opt_view t (ml_l1 (ml_put_l1 pick now key data m)) (to_bytes key) \<in> {None, Some (Some (to_bytes data))}" if "now \<le> t"
    using opt_set_view(4) [OF i assms(2) that, of pick "to_bytes key" "to_bytes data"]
    by (auto simp: ml_put_l1_def opt_SetWithTTL_def split: if_splits)
qed

section \<open>Get\<close>

text \<open>The clock of a call does not run backwards.\<close>

definition ml_clock :: "ml_times \<Rightarrow> bool" where
  "ml_clock T \<longleftrightarrow> mt_l1 T \<le> mt_l1_again T"

lemma l1_look:
  assumes "ml_ok m" "ml_clock T"
  obtains l1 where "opt_Get (mt_l1 T) (mt_l1_again T) (Some (to_bytes key)) (ml_l1 m) =
      (found (opt_view (mt_l1 T) (ml_l1 m) (to_bytes key)), l1)" "ml_ok (m\<lparr>ml_l1 := l1\<rparr>)"
proof -
  have i: "opt_inv (ml_l1 m)" "\<not> opt_closed (ml_l1 m)" using assms(1) by (simp_all add: ml_ok_def)
  note v = opt_get_view [OF i, of "mt_l1 T" "mt_l1_again T" "mt_l1_again T"]
  let ?r = "opt_GetWithCtx (mt_l1 T) (mt_l1_again T) (Some (to_bytes key)) (ml_l1 m)"
  show thesis
  proof (rule that [of "snd ?r"])
    show "opt_Get (mt_l1 T) (mt_l1_again T) (Some (to_bytes key)) (ml_l1 m) = (found (opt_view (mt_l1 T) (ml_l1 m) (to_bytes key)), snd ?r)"
      using v(1) assms(2) by (simp add: opt_Get_def ml_clock_def prod_eq_iff)
    show "ml_ok (m\<lparr>ml_l1 := snd ?r\<rparr>)" using v(2) assms by (simp add: ml_ok_def ml_clock_def)
  qed
qed

text \<open>A hit in L1 asks no server.\<close>

lemma get_l1_hit:
  assumes "ml_ok m" "ml_clock T" "opt_view (mt_l1 T) (ml_l1 m) (to_bytes key) = Some (Some (to_bytes data))" "jv_Unmarshal J data = Inr v"
  obtains m' where "ml_Get J Z R pick T key loader m d = ((v, None), m', d)" "ml_ok m'"
proof -
  obtain l1 where "opt_Get (mt_l1 T) (mt_l1_again T) (Some (to_bytes key)) (ml_l1 m) =
      (found (opt_view (mt_l1 T) (ml_l1 m) (to_bytes key)), l1)" "ml_ok (m\<lparr>ml_l1 := l1\<rparr>)"
    by (rule l1_look [OF assms(1,2)])
  then show thesis using that [of "recordL1Hit (m\<lparr>ml_l1 := l1\<rparr>)"] assms(3,4) by (simp add: ml_Get_def Let_def)
qed

lemma get_l1_miss:
  assumes "ml_ok m" "ml_clock T" "opt_view (mt_l1 T) (ml_l1 m) (to_bytes key) = None"
  obtains l1 where "ml_Get J Z R pick T key loader m d = ml_from_l2 J Z R pick T key loader (m\<lparr>ml_l1 := l1\<rparr>) d" "ml_ok (m\<lparr>ml_l1 := l1\<rparr>)"
proof -
  obtain l1 where "opt_Get (mt_l1 T) (mt_l1_again T) (Some (to_bytes key)) (ml_l1 m) =
      (found (opt_view (mt_l1 T) (ml_l1 m) (to_bytes key)), l1)" "ml_ok (m\<lparr>ml_l1 := l1\<rparr>)"
    by (rule l1_look [OF assms(1,2)])
  then show thesis using that [of l1] assms(3) by (simp add: ml_Get_def)
qed

lemma from_l2_hit:
  assumes "fst (ac_Get J Z R (mt_l2 T) key (ml_l2 m) d) = Inr (Some v)"
  shows "fst (ml_from_l2 J Z R pick T key loader m d) = (v, None)"
  using assms by (cases "ac_Get J Z R (mt_l2 T) key (ml_l2 m) d") (simp add: ml_from_l2_def Let_def)

section \<open>Read your writes\<close>

text \<open>
  C22: Read your writes of \<open>MultiLevelCache\<close>. A value that was set is read back while its time to live in L2
  lasts, whatever L1 did with it, and without the loader.
\<close>
theorem ml_read_your_writes:
  assumes "ac_law glob R up val" "jv_law J" "gz_law Z" "ml_ok m" "up d"
    and "ttl_ok here (mlc_L1TTL (ml_config m))" "0 < mlc_L2TTL (ml_config m)" "mlc_L2TTL (ml_config m) mod second = 0"
    and "ml_Set J Z R pick here now key v m d = (e, m1, d1)"
    and "ml_clock T" "here \<le> mt_l1 T" "now \<le> mt_l2 T" "mt_l2 T < now + mlc_L2TTL (ml_config m)"
  shows "e = None \<and> ml_ok m1 \<and> fst (ml_Get J Z R pick' T key loader m1 d1) = (v, None)"
proof -
  obtain s where s: "jv_Marshal J v = Inr s" "jv_Unmarshal J s = Inr v" using assms(2) unfolding jv_law_def by blast
  let ?m = "recordL1Set (ml_put_l1 pick here key s m)"
  have ttl: "0 < ac_ttl [mlc_L2TTL (ml_config m)] (ml_l2 m)" "ac_ttl [mlc_L2TTL (ml_config m)] (ml_l2 m) mod second = 0"
    using assms(7,8) by (simp_all add: ac_ttl_def)
  obtain l2 d2 z where l2: "ac_Set J Z R now key v [mlc_L2TTL (ml_config m)] (ml_l2 m) d = (None, l2, d2)" "up d2" "ac_config l2 = ac_config (ml_l2 m)"
    "\<And>b. \<not> b \<or> plainly (ml_l2 m) \<Longrightarrow> ac_answer J Z b (Some z) = Inr (Some v)"
    "\<And>t. now \<le> t \<Longrightarrow> val t d2 = (val t d)(ac_key (ml_l2 m) key := if t < now + ac_ttl [mlc_L2TTL (ml_config m)] (ml_l2 m) then Some z else None)"
    by (rule ac_Set_up [where now = now and key = key and v = v, OF assms(1,2,3,5) ttl]) blast
  have "ml_Set J Z R pick here now key v m d = (None, recordL2Set (?m\<lparr>ml_l2 := l2\<rparr>), d2)"
    using s(1) l2(1) by (simp add: ml_Set_def Let_def)
  then have e: "e = None" "m1 = recordL2Set (?m\<lparr>ml_l2 := l2\<rparr>)" "d1 = d2" using assms(9) by simp_all
  have ok: "ml_ok m1" using put_l1(1) [OF assms(4,6)] l2(3) unfolding e(2) by (simp add: ml_ok_def)
  have view: "opt_view (mt_l1 T) (ml_l1 m1) (to_bytes key) \<in> {None, Some (Some (to_bytes s))}"
    using put_l1(2) [OF assms(4,6,11)] by (simp add: e(2))
  have key: "ac_key l2 key = ac_key (ml_l2 m) key" "plainly l2 = plainly (ml_l2 m)" using l2(3) by (simp_all add: ac_key_def)
  have "fst (ac_Get J Z R (mt_l2 T) key l2 d2) = Inr (Some v)"
    using ac_Get_fst [OF assms(1) l2(2), of J Z "mt_l2 T" key l2] l2(4) [of "plainly (ml_l2 m)"] l2(5) [OF assms(12)] assms(13)
    by (simp add: key ac_ttl_def)
  then have l2_hit: "fst (ac_Get J Z R (mt_l2 T) key (ml_l2 m1) d1) = Inr (Some v)" by (simp add: e(2,3))
  have "fst (ml_Get J Z R pick' T key loader m1 d1) = (v, None)"
  proof (cases "opt_view (mt_l1 T) (ml_l1 m1) (to_bytes key)")
    case None
    obtain l1 where "ml_Get J Z R pick' T key loader m1 d1 = ml_from_l2 J Z R pick' T key loader (m1\<lparr>ml_l1 := l1\<rparr>) d1"
      by (rule get_l1_miss [OF ok assms(10) None])
    then show ?thesis using from_l2_hit [of J Z R T key "m1\<lparr>ml_l1 := l1\<rparr>" d1 v pick' loader] l2_hit by simp
  next
    case (Some x)
    then have "opt_view (mt_l1 T) (ml_l1 m1) (to_bytes key) = Some (Some (to_bytes s))" using view by simp
    then obtain m2 where "ml_Get J Z R pick' T key loader m1 d1 = ((v, None), m2, d1)"
      by (rule get_l1_hit [OF ok assms(10) _ s(2)])
    then show ?thesis by simp
  qed
  then show ?thesis using e(1) ok by blast
qed

definition demo_mlc :: MultiLevelConfig where
  "demo_mlc = \<lparr>mlc_Namespace = ''ns'', mlc_L1Size = 4, mlc_L1TTL = 0, mlc_L2TTL = 0, mlc_EnableCompression = False, mlc_SyncInterval = 0\<rparr>"

definition demo_times :: "time \<Rightarrow> ml_times" where
  "demo_times t = \<lparr>mt_l1 = t, mt_l1_again = t, mt_l2 = t, mt_refill = t, mt_set1 = t, mt_set2 = t\<rparr>"

lemma demo_times_simps [simp]: "ml_clock (demo_times t)" "mt_l1 (demo_times t) = t" "mt_l2 (demo_times t) = t"
  by (simp_all add: demo_times_def ml_clock_def)

lemma demo_ml:
  obtains m :: "(unit, 'd) MultiLevelCache" where "NewMultiLevelCache mathx_ref 2 demo_mlc = Some m" "ml_ok m"
    "mlc_Namespace (ml_config m) = ''ns''" "mlc_L1TTL (ml_config m) = minutes 5" "mlc_L2TTL (ml_config m) = hour" "plainly (ml_l2 m)"
proof -
  have "mlc_L1Size demo_mlc + 256 \<le> max_int64" by (simp add: demo_mlc_def max_int64_def)
  then obtain m :: "(unit, 'd) MultiLevelCache" where m: "NewMultiLevelCache mathx_ref 2 demo_mlc = Some m" "ml_ok m"
    by (rule ml_new_ok [OF mathx_ref_laws])
  then show thesis using that [OF m] ml_new_config [OF m(1)] by (simp add: demo_mlc_def mathx_ref_def)
qed

lemma ml_read_your_writes_witness:
  "\<exists>m d. NewMultiLevelCache mathx_ref 2 demo_mlc = Some (m :: (unit, lock_store) MultiLevelCache) \<and>
    (case ml_Set jv_ref gz_ref ac_ref 0 2 2 ''k'' ''v'' m d of
       (e, m1, d1) \<Rightarrow> fst (ml_Get jv_ref gz_ref ac_ref 0 (demo_times 9) ''k'' None m1 d1) = (''v'', None))"
proof -
  obtain m :: "(unit, lock_store) MultiLevelCache" where m: "NewMultiLevelCache mathx_ref 2 demo_mlc = Some m" "ml_ok m"
    "mlc_L1TTL (ml_config m) = minutes 5" "mlc_L2TTL (ml_config m) = hour" by (rule demo_ml)
  obtain e m1 d1 where s: "ml_Set jv_ref gz_ref ac_ref 0 2 2 ''k'' ''v'' m [] = (e, m1, d1)" by (rule prod_cases3)
  have "ttl_ok 2 (mlc_L1TTL (ml_config m))" by (simp add: m(3) ttl_ok_def minutes_def max_int64_def)
  from ml_read_your_writes [OF ac_ref_law jv_ref_law gz_ref_law m(2) TrueI this _ _ s, of "demo_times 9" 0 None]
  show ?thesis using m(1,4) s by (intro exI [of _ m] exI [of _ "[]"]) (simp add: hour_def second_def)
qed

section \<open>Clearing\<close>

text \<open>
  C39: A defect of \<open>Clear\<close>. It hands L2 the pattern \<open>namespace*\<close>, which L2 puts behind its namespace once
  more: of the keys of L2 only those go that themselves begin with the namespace. After a \<open>Clear\<close> that
  reports success every other value is read from L2 as before.
\<close>
theorem ml_clear_keeps_l2:
  assumes "ac_law glob R up val" "glob_law glob" "ml_ok m" "up d" "plain_text (mlc_Namespace (ml_config m))"
    and "\<not> has_prefix (mlc_Namespace (ml_config m)) key" "now1 \<le> now2" "now2 \<le> mt_l2 T" "ml_clock T"
    and "fst (ac_Get J Z R (mt_l2 T) key (ml_l2 m) d) = Inr (Some v)"
    and "ml_Clear R now1 now2 range_order m d = (e, m1, d1)"
  shows "e = None \<and> fst (ml_Get J Z R pick T key loader m1 d1) = (v, None)"
proof -
  have i: "opt_inv (ml_l1 m)" "\<not> opt_closed (ml_l1 m)" "acc_Namespace (ac_config (ml_l2 m)) = mlc_Namespace (ml_config m)"
    using assms(3) by (simp_all add: ml_ok_def)
  note l1 = opt_close_ok [OF i(1) opt_inv_order [OF i(1)]]
  let ?l1 = "snd (opt_Clear range_order (ml_l1 m))"
  obtain r l2 d2 where c: "ac_Clear R now1 now2 (mlc_Namespace (ml_config m) @ ''*'') (ml_l2 m) d = (r, l2, d2)" by (rule prod_cases3)
  have m1: "e = r" "m1 = m\<lparr>ml_l1 := ?l1, ml_l2 := l2\<rparr>" "d1 = d2" using assms(11) c by (simp_all add: ml_Clear_def Let_def)
  have p: "plain_text (acc_Namespace (ac_config (ml_l2 m)))" using assms(5) i(3) by simp
  have clear: "r = None \<and> up d2 \<and> val (mt_l2 T) d2 = (\<lambda>k. if has_prefix (ac_key (ml_l2 m) (mlc_Namespace (ml_config m))) k then None else val (mt_l2 T) d k)"
    by (rule clear_prefix [OF assms(1,2,4) p assms(5,7,8) c])
  have cfg: "ac_config l2 = ac_config (ml_l2 m)"
    using c by (auto simp: ac_Clear_def ac_Delete_def split: prod.splits sum.splits option.splits if_splits)
  have "\<not> has_prefix (ac_key (ml_l2 m) (mlc_Namespace (ml_config m))) (ac_key (ml_l2 m) key)"
    using assms(6) by (simp add: has_prefix_append ac_key_def)
  then have "val (mt_l2 T) d2 (ac_key l2 key) = val (mt_l2 T) d (ac_key (ml_l2 m) key)"
    using clear cfg by (simp add: ac_key_def)
  then have hit: "fst (ac_Get J Z R (mt_l2 T) key l2 d2) = Inr (Some v)"
    using assms(10) ac_Get_fst [OF assms(1,4), of J Z "mt_l2 T" key "ml_l2 m"] cfg
      ac_Get_fst [OF assms(1) clear [THEN conjunct2, THEN conjunct1], of J Z "mt_l2 T" key l2] by simp
  have closed: "\<not> opt_closed ?l1" using i(2) by (auto simp: opt_Clear_def split: option.split)
  have ok: "ml_ok m1" using l1(5) closed i(3) cfg by (simp add: m1(2) ml_ok_def)
  have "opt_view (mt_l1 T) (ml_l1 m1) (to_bytes key) = None" using l1(6) [OF i(2)] by (simp add: m1(2))
  then obtain l1' where "ml_Get J Z R pick T key loader m1 d1 = ml_from_l2 J Z R pick T key loader (m1\<lparr>ml_l1 := l1'\<rparr>) d1"
    by (rule get_l1_miss [OF ok assms(9)])
  then show ?thesis
    using from_l2_hit [of J Z R T key "m1\<lparr>ml_l1 := l1'\<rparr>" d1 v pick loader] hit clear m1 by simp
qed

lemma ml_clear_keeps_l2_witness:
  "\<exists>m. NewMultiLevelCache mathx_ref 2 demo_mlc = Some (m :: (unit, lock_store) MultiLevelCache) \<and>
    (case ml_Clear ac_ref 3 4 range_order m [(''ns:k'', [CHR 0x22, CHR ''v''], Some 20)] of
       (e, m1, d1) \<Rightarrow> e = None \<and> fst (ml_Get jv_ref gz_ref ac_ref 0 (demo_times 9) ''k'' None m1 d1) = (''v'', None))"
proof -
  obtain m :: "(unit, lock_store) MultiLevelCache" where m: "NewMultiLevelCache mathx_ref 2 demo_mlc = Some m" "ml_ok m"
    "mlc_Namespace (ml_config m) = ''ns''" "plainly (ml_l2 m)" by (rule demo_ml)
  let ?d = "[(''ns:k'', [CHR 0x22, CHR ''v''], Some 20)]"
  obtain e m1 d1 where s: "ml_Clear ac_ref 3 4 range_order m ?d = (e, m1, d1)" by (rule prod_cases3)
  have "ac_key (ml_l2 m) ''k'' = ''ns:k''" using m(2,3) by (simp add: ac_key_def ml_ok_def)
  then have "fst (ac_Get jv_ref gz_ref ac_ref (mt_l2 (demo_times 9)) ''k'' (ml_l2 m) ?d) = Inr (Some ''v'')"
    using ac_Get_fst [OF ac_ref_law TrueI, of jv_ref gz_ref 9 "''k''" "ml_l2 m" ?d] m(4)
    by (simp add: ac_value_def ac_answer_def unzipped_def jv_ref_def)
  from ml_clear_keeps_l2 [OF ac_ref_law glob_ref_law m(2) TrueI _ _ _ _ _ this s, of 0 None]
  show ?thesis using m(1,3) s by (intro exI [of _ m]) (simp add: plain_text_def has_prefix_def)
qed

section \<open>The second deletion\<close>

lemma ml_Delete_up:
  assumes "ac_law glob R up val" "ml_ok m" "up d"
  obtains m1 d1 where "ml_Delete R now key m d = (None, m1, d1)" "ml_ok m1" "up d1" "\<And>t. opt_view t (ml_l1 m1) (to_bytes key) = None"
    "\<And>t. now \<le> t \<Longrightarrow> val t d1 = (val t d)(ac_key (ml_l2 m1) key := None)"
proof -
  have i: "opt_inv (ml_l1 m)" "\<not> opt_closed (ml_l1 m)" using assms(2) by (simp_all add: ml_ok_def)
  note del = opt_del_view [OF i]
  let ?l1 = "snd (opt_Del (Some (to_bytes key)) (ml_l1 m))"
  let ?l2 = "ac_count (\<lambda>m. m\<lparr>cm_Deletes := wrap64 (cm_Deletes m + 1)\<rparr>) (ml_l2 m)"
  obtain d1 where d1: "ra_Del R now [ac_key (ml_l2 m) key] d = (None, d1)" "up d1"
    "\<And>t. now \<le> t \<Longrightarrow> val t d1 = (\<lambda>k. if k \<in> set [ac_key (ml_l2 m) key] then None else val t d k)"
    by (rule ac_law_del [where now = now and ks = "[ac_key (ml_l2 m) key]", OF assms(1,3)]) blast
  show thesis
  proof (rule that [OF _ _ d1(2)])
    show "ml_Delete R now key m d = (None, m\<lparr>ml_l1 := ?l1, ml_l2 := ?l2\<rparr>, d1)"
      using d1(1) by (simp add: ml_Delete_def ac_Delete_def Let_def)
    show "ml_ok (m\<lparr>ml_l1 := ?l1, ml_l2 := ?l2\<rparr>)"
      using assms(2) del(2) by (simp add: ml_ok_def opt_Del_def)
    show "opt_view t (ml_l1 (m\<lparr>ml_l1 := ?l1, ml_l2 := ?l2\<rparr>)) (to_bytes key) = None" for t
      using del(3) by (simp add: opt_Del_def)
    show "val t d1 = (val t d)(ac_key (ml_l2 (m\<lparr>ml_l1 := ?l1, ml_l2 := ?l2\<rparr>)) key := None)" if "now \<le> t" for t
      using d1(3) [OF that] by (auto simp: fun_eq_iff)
  qed
qed

text \<open>
  C23: The delayed second deletion of \<open>CacheAside\<close>. A successful \<open>Write\<close> leaves exactly one task behind, and
  when that has run, the next \<open>Read\<close> on this node returns what the database loader returns then, its error
  included, whatever other calls put into the two levels between the write and the task: a value that was
  loaded before the write and stored after it does not survive.
\<close>
theorem ml_aside_repairs:
  assumes "ac_law glob R up val" "op_Write R now0 v op m0 d0 = ((None, tasks), m0', d0')" "task \<in> set tasks"
    and "ml_ok m" "up d" "ml_run_task R now (op_dbWriter op) task m d = (m1, d1)"
    and "ml_clock T" "now \<le> mt_l2 T" "op_dbLoader op = Some f"
  shows "tasks = [TDelete (op_key op)] \<and>
    (\<exists>d2. up d2 \<and> (\<forall>t \<ge> mt_l2 T. val t d2 = val t d1) \<and>
      fst (op_Read J Z R pick T op m1 d1) = (case fst (f d2) of (w, None) \<Rightarrow> (w, None) | (w, Some err) \<Rightarrow> (jv_zero J, Some err)))"
proof -
  have tasks: "tasks = [TDelete (op_key op)]" using assms(2) by (auto simp: op_Write_def split: prod.splits option.splits)
  let ?k = "op_key op"
  obtain m2 d2 where del: "ml_Delete R now ?k m d = (None, m2, d2)" "ml_ok m2" "up d2" "\<And>t. opt_view t (ml_l1 m2) (to_bytes ?k) = None"
    "\<And>t. now \<le> t \<Longrightarrow> val t d2 = (val t d)(ac_key (ml_l2 m2) ?k := None)"
    by (rule ml_Delete_up [where now = now and key = ?k, OF assms(1,4,5)]) blast
  have m1: "m1 = m2" "d1 = d2" using assms(3,6) tasks del(1) by (simp_all add: ml_run_task_def)
  obtain l1 where g: "ml_Get J Z R pick T ?k (Some f) m2 d2 = ml_from_l2 J Z R pick T ?k (Some f) (m2\<lparr>ml_l1 := l1\<rparr>) d2"
    by (rule get_l1_miss [OF del(2) assms(7) del(4)])
  have none: "val (mt_l2 T) d2 (ac_key (ml_l2 m2) ?k) = None" using del(5) [OF assms(8)] by simp
  obtain l2 d3 where l2: "ac_Get J Z R (mt_l2 T) ?k (ml_l2 m2) d2 = (ac_answer J Z (plainly (ml_l2 m2)) (val (mt_l2 T) d2 (ac_key (ml_l2 m2) ?k)), l2, d3)"
    "up d3" "\<And>t. mt_l2 T \<le> t \<Longrightarrow> val t d3 = val t d2"
    by (rule ac_Get_up [where now = "mt_l2 T" and key = ?k and c = "ml_l2 m2" and J = J and Z = Z, OF assms(1) del(3)]) blast
  have "fst (op_Read J Z R pick T op m1 d1) = (case fst (f d3) of (w, None) \<Rightarrow> (w, None) | (w, Some err) \<Rightarrow> (jv_zero J, Some err))"
    using g l2(1) none m1 assms(9)
    by (simp add: op_Read_def ml_from_l2_def ml_load_def Let_def split: prod.split option.split)
  then show ?thesis using tasks l2(2,3) m1 by blast
qed

definition demo_op :: "(string, 'd) CacheAsideOperation" where
  "demo_op = CacheAside ''k'' (Some (\<lambda>d. ((''new'', None), d))) (\<lambda>v d. (None, d))"

lemma ml_aside_repairs_witness:
  "\<exists>m. NewMultiLevelCache mathx_ref 2 demo_mlc = Some (m :: (unit, lock_store) MultiLevelCache) \<and>
    (case ml_run_task ac_ref 5 (op_dbWriter demo_op) (TDelete ''k'') m [(''ns:k'', [CHR 0x22, CHR ''o''], Some 20)] of
       (m1, d1) \<Rightarrow> fst (op_Read jv_ref gz_ref ac_ref 0 (demo_times 9) demo_op m1 d1) = (''new'', None))"
proof -
  obtain m :: "(unit, lock_store) MultiLevelCache" where m: "NewMultiLevelCache mathx_ref 2 demo_mlc = Some m" "ml_ok m" by (rule demo_ml)
  let ?d = "[(''ns:k'', [CHR 0x22, CHR ''o''], Some 20)]" and ?del = "TDelete ''k'' :: string ml_task"
  obtain m0 d0 where w: "op_Write ac_ref 1 ''new'' demo_op m ?d = ((None, [?del]), m0, d0)"
    by (cases "ml_Delete ac_ref 1 ''k'' m ?d") (simp add: op_Write_def demo_op_def CacheAside_def)
  obtain m1 d1 where s: "ml_run_task ac_ref 5 (op_dbWriter demo_op) ?del m ?d = (m1, d1)" by fastforce
  have f: "op_dbLoader demo_op = Some (\<lambda>d. ((''new'', None), d))" by (simp add: demo_op_def CacheAside_def)
  have "fst (op_Read jv_ref gz_ref ac_ref 0 (demo_times 9) demo_op m1 d1) = (''new'', None)"
    using ml_aside_repairs [OF ac_ref_law w _ m(2) TrueI s _ _ f, of "demo_times 9" jv_ref gz_ref 0] by auto
  then show ?thesis using m(1) s by (intro exI [of _ m]) simp
qed

text \<open>
  The other nodes of the same namespace have an L1 of their own, which no deletion reaches: a node with the
  old value in its L1 goes on answering with it, until the time to live of L1 is over.
\<close>

lemma ml_other_node_stale:
  assumes "ml_ok b" "ml_clock T" "opt_view (mt_l1 T) (ml_l1 b) (to_bytes key) = Some (Some (to_bytes data))" "jv_Unmarshal J data = Inr v"
  shows "fst (ml_Get J Z R pick T key loader b (snd (ml_run_task R now dbWriter task m d))) = (v, None)"
  by (rule get_l1_hit [where d = "snd (ml_run_task R now dbWriter task m d)" and J = J and Z = Z and R = R and pick = pick and loader = loader, OF assms]) simp

end
