(* ===== verification/Spec2Isabelle.thy ===== *)
theory Spec2Isabelle
  imports Lru_Correct Lru_Optimized_Props Expiring_Correct Sharded_Correct Two_Level_Correct Ctx_Cache_Correct Client_Correct Hotkey_Correct Durable_Channel_Correct Id_Generator_Correct Object_Pool_Correct Distributed_Lock_Correct Generic_Cache_Correct Delay_Queue_Props Dead_Letter_Correct Wrapper_Correct Cache_Index Resource_Version Kv_Limits Kv_Registry Model_Cache_Correct Multi_Level_Correct
begin

text \<open>
  go-cachex: a cache library in Go. This development models its in-memory caches and the layers
  composed of them, and the components it builds on Redis.

  \<^bold>\<open>The program.\<close> Every cache implements the interface \<open>Handler\<close> of \<open>cache.go\<close>. \<open>lru.go\<close>, \<open>lru_optimized.go\<close>
  and \<open>expiring.go\<close> are three implementations in memory; \<open>sharded.go\<close> distributes keys over several
  handlers, \<open>twolevel.go\<close> puts one handler in front of another, \<open>ctxcache.go\<close> adds single flight loading
  and \<open>client.go\<close> chooses an implementation from a configuration. Beside them stand \<open>hotkey.go\<close> (a whole
  map shared through Redis), \<open>durable_channel.go\<close> (a channel behind a Redis list), \<open>id_generator.go\<close>
  (identifiers from a Redis counter), \<open>object_pool.go\<close> (objects made ahead of use), \<open>distributed_lock.go\<close>
  (leases with a watchdog), \<open>generic_cache.go\<close> (a local map with invalidation messages between nodes),
  \<open>delay_queue.go\<close> (tasks for later, in sorted sets) and \<open>scheduler.go\<close> over it, \<open>queue.go\<close> (queues of
  four types), \<open>dead_letter_queue.go\<close> over it, \<open>wrapper.go\<close> (a loader with Redis in front of
  it), \<open>cache_index.go\<close> (keys to be deleted together), \<open>resource_version.go\<close> (version numbers) and
  \<open>kv_cache.go\<close> (a map in memory in front of a Redis hash, with messages between the nodes), on which
  \<open>model_kv.go\<close> (fields of database rows) and \<open>model_cache.go\<close> (whole rows) build; and over these
  \<open>advanced_cache.go\<close> (typed values with compression, a queue, hot keys and locks) and
  \<open>multi_level_cache.go\<close> (\<open>LRUOptimizedHandler\<close> in front of an \<open>AdvancedCache\<close>, with cache patterns).

  \<^bold>\<open>Theories.\<close>
  \<^item> \<open>Cachex_Base\<close> is the prelude: byte slices that may be nil, clock readings, errors, 64 bit wrap-around,
    FNV-1a, and the list and map lemmas the components share. \<open>Validate\<close> has the argument checks of
    \<open>validate.go\<close>. \<open>Decimal\<close> prints and reads decimal numbers as \<open>strconv\<close> does. \<open>Outside\<close> holds what the
    components behind Redis take from outside the repository, with its laws and reference instances.
  \<^item> \<open>Handler_Interface\<close> is the interface as a record of functions, and its contract as two locales:
    \<open>cache_core\<close>, in which a write may be dropped, and \<open>cache_handler\<close>, in which it is kept. A view says
    what a lookup finds at a time; each operation is specified by its effect on the view.
  \<^item> \<open>Lru\<close> models \<open>LRUHandler\<close> with list elements by identity and the map from keys to them;
    \<open>Lru_Correct\<close> proves the invariant for all runs, the refinement of a list of entries in order of use,
    and interprets \<open>cache_handler\<close>.
  \<^item> \<open>Lru_Shard\<close> models a shard of \<open>LRUOptimizedHandler\<close>: the doubly linked list in a store of nodes with
    its sentinels, the free pool, the CLOCK scan. \<open>Lru_Shard_Correct\<close> and \<open>Lru_Shard_Ops\<close> prove that no
    nil pointer is followed and what each critical section does to the list. \<open>Lru_Optimized\<close> is the
    handler over its shards; \<open>Lru_Optimized_Correct\<close> and \<open>Lru_Optimized_Props\<close> its invariant, the
    interpretation of \<open>cache_core\<close>, the geometry of the shards, batches, loading, and its defects.
  \<^item> \<open>Expiring\<close> and \<open>Expiring_Correct\<close>: the map with deadlines, its lazy deletion in two critical sections,
    its sampled sweep; it is an exact map, and the sweep removes expired entries only.
  \<^item> \<open>Sharded\<close>, \<open>Sharded_Correct\<close>: over any handler that satisfies the contract the sharded one does too.
  \<^item> \<open>Two_Level\<close>, \<open>Two_Level_Correct\<close>: promotion and write-through over any two handlers; goroutines that
    are not waited for are pending tasks run in any order.
  \<^item> \<open>Ctx_Cache\<close>, \<open>Ctx_Cache_Correct\<close>: the table of calls in flight, and the goroutines of \<open>GetOrCompute\<close> as
    an interleaving step relation with rule induction over its runs.
  \<^item> \<open>Client\<close>, \<open>Client_Correct\<close>: construction from every configuration, and the contract through the client.
  \<^item> \<open>Hotkey\<close>, \<open>Hotkey_Correct\<close>: the local map and its order of insertion, the round trip through Redis, the
    eviction loop.
  \<^item> \<open>Durable_Channel\<close>, \<open>Durable_Channel_Correct\<close>: sending, workers and recovery; no loss, no duplication
    and order for messages sent through Redis.
  \<^item> \<open>Id_Generator\<close>, \<open>Id_Generator_Correct\<close>: the Lua scripts as Redis commands, formatting; identifiers are
    consecutive and distinct.
  \<^item> \<open>Object_Pool\<close>, \<open>Object_Pool_Correct\<close>: the fill loop on its own and as interleaved steps, conservation of
    objects, termination of the prefill.
  \<^item> \<open>Distributed_Lock\<close>, \<open>Distributed_Lock_Correct\<close>: leases by token, the Lua scripts, the watchdog, the
    manager; exclusion while a lease lasts, over all runs of several instances.
  \<^item> \<open>Generic_Cache\<close>, \<open>Generic_Cache_Correct\<close>: the key codecs, the local map and the invalidation messages.
  \<^item> \<open>Redis\<close>: a Redis server as far as the code uses it - strings, lists, sorted sets, hashes, sets, their
    deadlines, scripts that run as a whole - with what a request does when it or its answer is lost.
  \<^item> \<open>Delay_Queue\<close> has the queue and the schedulers; \<open>Delay_Queue_Correct\<close> refines every request to steps of an
    abstract queue of ready times, processing times and bodies, and has its invariants; \<open>Delay_Queue_Props\<close>
    states what several nodes can rely on, and how tasks are lost.
  \<^item> \<open>Redis_Types\<close>: which kind of value a script expects at a key, and which keys it can change; a script
    that fits the kinds of the keys never fails with a wrong type.
  \<^item> \<open>Queue\<close>, \<open>Queue_Correct\<close>: the four types of queues; the keys keep their kinds, FIFO and LIFO are lists,
    priority gives the greatest, delayed nothing early. \<open>Float64\<close>, \<open>Dead_Letter\<close>, \<open>Dead_Letter_Correct\<close>: the
    thresholds in floating point, the newest data up to the size, and interleaved pushes.
  \<^item> \<open>Wrapper\<close>, \<open>Wrapper_Correct\<close>: the options and a call of \<open>CacheWrapper\<close> over Redis and the lock; what was
    loaded comes back, the time to live keeps to its range, the call returns. \<open>Cache_Index\<close>: deletion by
    index as a script. \<open>Resource_Version\<close>: versions that all nodes see.
  \<^item> \<open>Kv_Cache\<close> models \<open>KVCache\<close>. \<open>Redis_Hash\<close> has hashes with a deadline and what the commands do to them;
    \<open>Kv_Cache_Correct\<close> the scripts on them and, in the locale \<open>kv_nodes\<close>, what each call does to the hash,
    the local entries and the messages, loaders of a database included; \<open>Kv_Coherent\<close> the runs of several
    nodes beside that database, with the invariant that a stale local entry has a message under way that
    drops it; \<open>Kv_Limits\<close> the swap, and a hash that
    hides what it does not hold. \<open>Kv_Registry\<close>: the global table and the operations on all caches.
  \<^item> \<open>Model_Kv\<close>, \<open>Model_Kv_Correct\<close>: the fields of a model as caches, read from the bytes of the struct, with one
    query for all loaders; what was set is found. \<open>Model_Cache\<close>, \<open>Model_Cache_Correct\<close>: rows under a joined
    key, and the query by key. The tables of caches of different types are separate in the model.
  \<^item> \<open>Advanced_Cache\<close>, \<open>Advanced_Cache_Correct\<close>: typed values under a namespace, compressed or not, batches, clearing
    by pattern; \<open>GetOrSet\<close> in two parts, between which another call may come, and how two get its lock.
    \<open>Multi_Level\<close>, \<open>Multi_Level_Correct\<close>: the two levels and the cache patterns; what was set is read, a delayed
    deletion repairs what came in between, and \<open>Clear\<close> leaves L2 alone.

  \<^bold>\<open>Correspondence.\<close> A definition has the name of its Go function, with the prefix of its component (\<open>lru_\<close>,
  \<open>opt_\<close>, \<open>ex_\<close>, \<open>sd_\<close>, \<open>tl_\<close>, \<open>cc_\<close>, \<open>fg_\<close>, \<open>cl_\<close>, \<open>hk_\<close>, \<open>hm_\<close>, \<open>dc_\<close>, \<open>op_\<close>, \<open>dl_\<close>, \<open>lm_\<close>,
  \<open>gc_\<close>, \<open>dq_\<close>, \<open>co_\<close>, \<open>sm_\<close>, \<open>qh_\<close>, \<open>dlq_\<close>, \<open>cw_\<close>, \<open>im_\<close>, \<open>ig_\<close>, \<open>vt_\<close>, \<open>kv_\<close>, \<open>mb_\<close>, \<open>mk_\<close>, \<open>cb_\<close>, \<open>mc_\<close>, \<open>ac_\<close>, \<open>ml_\<close>) where several share it. A
  struct is a record with its fields, less those the model has no use for (mutexes, loggers). An
  operation takes the clock readings it makes and the answers of its context, and returns its result
  with the new state. Errors are values; a nil dereference, an index out of range and a \<open>panic\<close> are
  \<open>RuntimePanic\<close>, in the shards \<open>None\<close>. A lock section is one step. Where goroutines run concurrently the
  steps are those between the points at which another may come in.

  \<^bold>\<open>Bounds.\<close> Loops are structural recursions, except those of the constructor of the optimised handler
  (\<open>while_option\<close> with a proof that it ends) and the CLOCK scan, whose fuel is the size of the shard, the
  bound of the source's loop, and \<open>CacheWrapper\<close>, whose fuel counts its calls of itself: two suffice
  (\<open>cw_returns\<close>). Counters wrap at 64 bits where they can; the size of a shard, an \<open>int32\<close>
  in the source, is an unbounded integer, which agrees below two thousand million entries of a shard.

  \<^bold>\<open>Outside the repository.\<close> \<open>mathx\<close> of go-toolbox, the Redis commands, JSON and compressed forms of
  generic types, \<open>time.Format\<close>, the Ristretto and Redis handlers are parameters. What is assumed of
  them are the predicates \<open>mathx_laws\<close>, \<open>kv_law\<close>, \<open>json_law\<close>, the \<open>rl_\<close> and \<open>seq_\<close> laws, \<open>zip_law\<close>, \<open>lock_law\<close>,
  \<open>msg_law\<close>, \<open>task_json_law\<close>, \<open>item_json_law\<close>, \<open>data_law\<close>, \<open>value_law\<close>, \<open>zipx_law\<close>, \<open>iv_law\<close>, \<open>kt_law\<close>, \<open>bus_law\<close>, \<open>source_law\<close>, \<open>cell_law\<close>, \<open>db_law\<close>, \<open>ac_law\<close>, \<open>glob_law\<close>, \<open>jv_law\<close>, \<open>gz_law\<close> and \<open>redis_law\<close> (with \<open>redis_up\<close> or \<open>lock_up\<close>, that requests are answered); each holds of a reference instance, on which the witnesses run.

  \<^bold>\<open>Not modelled.\<close> Tickers and the coarse clock of the optimised handler are the callers of the modelled
  steps and the clock arguments. Keys are copied: that the optimised handler could keep a slice the
  caller then changes is outside the model. \<open>cache_builder.go\<close> puts commands and the components above together for values of any type;
  \<open>pubsub.go\<close>, \<open>redis.go\<close>, \<open>ristretto.go\<close> mostly forward to packages that cannot be read here.
\<close>

end
